(* ===== verification/Prelude.thy ===== *)
theory Prelude
  imports Complex_Main "HOL-Library.AList"
begin

text \<open>
  Shared vocabulary of the development.

  An operation of the program that may raise and that mutates its object is a function from the
  object's state to an \<^emph>\<open>outcome\<close>: the raised error or the returned value, together with the state the
  call leaves behind (Python keeps every mutation made before a \<open>raise\<close>). A Python \<open>dict\<close> or
  \<open>OrderedDict\<close> keeps insertion order, so it is an association list with distinct keys:
  \<open>map_of\<close> is \<open>get\<close>, \<open>AList.update\<close> is item assignment (an existing key keeps its place, a new key
  goes last) and \<open>AList.delete\<close> is \<open>pop\<close>. UUIDs and object identities are natural numbers, Python's
  unbounded integers are \<open>int\<close>, and \<open>Fraction\<close> is \<open>rat\<close>.
\<close>

type_synonym uuid = nat

type_synonym ('e, 'a, 's) outcome = "('e + 'a) \<times> 's"

type_synonym ('k, 'v) dict = "('k \<times> 'v) list"

named_theorems dict_simps "look-up, update and deletion in insertion-ordered dictionaries"

section \<open>Insertion-ordered dictionaries\<close>

abbreviation dict_ok :: "('k, 'v) dict \<Rightarrow> bool" where
  "dict_ok d \<equiv> distinct (map fst d)"

abbreviation dict_keys :: "('k, 'v) dict \<Rightarrow> 'k set" where
  "dict_keys d \<equiv> fst ` set d"

lemma dict_get_update [dict_simps]:
  "map_of (AList.update k v d) k' = (if k' = k then Some v else map_of d k')"
  by (simp add: update_conv')

lemma dict_get_delete [dict_simps]:
  "map_of (AList.delete k d) k' = (if k' = k then None else map_of d k')"
  by (simp add: delete_conv')

lemma dict_ok_update [dict_simps]: "dict_ok d \<Longrightarrow> dict_ok (AList.update k v d)"
  by (rule distinct_update)

lemma dict_ok_delete [dict_simps]: "dict_ok d \<Longrightarrow> dict_ok (AList.delete k d)"
  by (rule distinct_delete)

lemma dict_keys_update [dict_simps]: "dict_keys (AList.update k v d) = insert k (dict_keys d)"
  by (simp add: dom_update)

lemma dict_keys_delete [dict_simps]: "dict_keys (AList.delete k d) = dict_keys d - {k}"
  by (induction d) auto

lemma dict_length_update:
  "length (AList.update k v d) = (if k \<in> dict_keys d then length d else Suc (length d))"
  by (induction d) auto

lemma dict_length_update_le: "length (AList.update k v d) \<le> Suc (length d)"
  by (simp add: dict_length_update)

lemma dict_length_delete_le: "length (AList.delete k d) \<le> length d"
  by (simp add: AList.delete_eq)

lemma dict_length_delete_present:
  "(k, v) \<in> set d \<Longrightarrow> Suc (length (AList.delete k d)) \<le> length d"
  unfolding AList.delete_eq by (rule Suc_leI) (rule length_filter_less, auto)

lemma dict_get_None: "map_of d k = None \<longleftrightarrow> k \<notin> dict_keys d"
  by (simp add: map_of_eq_None_iff)

lemma dict_get_Some_in: "map_of d k = Some v \<Longrightarrow> (k, v) \<in> set d"
  by (rule map_of_SomeD)

lemma dict_get_iff: "dict_ok d \<Longrightarrow> map_of d k = Some v \<longleftrightarrow> (k, v) \<in> set d"
  by (simp add: map_of_eq_Some_iff)

lemma dict_update_present_keys:
  "k \<in> dict_keys d \<Longrightarrow> map fst (AList.update k v d) = map fst d"
  by (induction d) auto

lemma dict_update_new: "k \<notin> dict_keys d \<Longrightarrow> AList.update k v d = d @ [(k, v)]"
  by (induction d) auto

lemma dict_set_update_subset: "set (AList.update k v d) \<subseteq> insert (k, v) (set d)"
  by (induction d) auto

lemma dict_set_delete_subset: "set (AList.delete k d) \<subseteq> set d"
  by (auto simp: AList.delete_eq)

text \<open>A property of every stored value survives an update that establishes it and any deletion.\<close>

lemma dict_all_update:
  "\<lbrakk>\<forall>(k', v') \<in> set d. P k' v'; P k v\<rbrakk> \<Longrightarrow> \<forall>(k', v') \<in> set (AList.update k v d). P k' v'"
  using dict_set_update_subset [of k v d] by blast

lemma dict_all_delete:
  "\<forall>(k', v') \<in> set d. P k' v' \<Longrightarrow> \<forall>(k', v') \<in> set (AList.delete k d). P k' v'"
  using dict_set_delete_subset [of k d] by blast

lemma length_filter_mono:
  "(\<And>x. P x \<Longrightarrow> Q x) \<Longrightarrow> length (filter P xs) \<le> length (filter Q xs)"
  by (induction xs) (auto intro: le_SucI)

section \<open>Loops that may raise\<close>

text \<open>A \<open>for\<close> loop over a list whose body may raise: the first error ends it.\<close>

fun fold_err :: "('a \<Rightarrow> 's \<Rightarrow> 'e + 's) \<Rightarrow> 'a list \<Rightarrow> 's \<Rightarrow> 'e + 's" where
  "fold_err body [] s = Inr s"
| "fold_err body (x # xs) s =
     (case body x s of Inl e \<Rightarrow> Inl e | Inr s' \<Rightarrow> fold_err body xs s')"

lemma fold_err_append:
  "fold_err body (xs @ ys) s =
     (case fold_err body xs s of Inl e \<Rightarrow> Inl e | Inr s' \<Rightarrow> fold_err body ys s')"
  by (induction xs arbitrary: s) (simp_all split: sum.split)

text \<open>A loop over \<open>range n\<close> follows any family of states that each iteration advances by one.\<close>

lemma fold_err_range:
  assumes "\<And>i. i < n \<Longrightarrow> body i (S i) = Inr (S (Suc i))"
  shows "fold_err body [0..<n] (S 0) = Inr (S n)"
  using assms by (induction n) (simp_all add: fold_err_append)

section \<open>Sums of selected entries\<close>

lemma sum_list_filter_le:
  fixes f :: "'a \<Rightarrow> int"
  assumes "\<And>x. x \<in> set xs \<Longrightarrow> 0 \<le> f x"
  shows "sum_list (map f (filter P xs)) \<le> sum_list (map f xs)"
  using assms by (induction xs) (auto simp: add_increasing)

lemma sum_list_nonneg_int:
  fixes f :: "'a \<Rightarrow> int"
  shows "(\<And>x. x \<in> set xs \<Longrightarrow> 0 \<le> f x) \<Longrightarrow> 0 \<le> sum_list (map f xs)"
  by (induction xs) auto

end
