(* ===== verification/Detection_Contracts.thy ===== *)
theory Detection_Contracts
  imports Prelude
begin

text \<open>
  The detector-neutral vocabulary of \<^verbatim>\<open>server/app/detection/foundation/contracts.py\<close>: observations,
  reasons, frame quality, decoded frames and detection results with their constructor checks. A
  Python \<open>float\<close> measurement is a rational: only comparisons are made on it, never rounding arithmetic.
  Constructor checks that only reject a value of a wrong Python type have no counterpart.
\<close>

datatype detector_kind = KIND_MOTION | KIND_PERSON

datatype observation = OBS_PRESENT | OBS_ABSENT | OBS_UNKNOWN

datatype health = HEALTH_HEALTHY | HEALTH_DEGRADED | HEALTH_UNAVAILABLE

datatype quality = Q_SUFFICIENT | Q_DEGRADED | Q_INSUFFICIENT | Q_UNKNOWN

datatype reason =
    R_EVALUATED | R_WARMUP | R_QUALITY | R_MODEL_UNAVAILABLE | R_DROPPED | R_STALE | R_OVER_BUDGET
  | R_FAILURE | R_DISCONTINUITY | R_RESOURCE_LIMIT | R_CLOCK | R_NOT_STARTED
  | R_WORKER_TIMEOUT | R_WORKER_CRASHED | R_WORKER_UNAVAILABLE

definition positive_integer :: "int \<Rightarrow> bool" where
  "positive_integer value \<longleftrightarrow> \<not> value \<le> 0"

record gray_frame =
  fr_source_id :: uuid
  fr_stream_id :: uuid
  fr_sequence :: int
  fr_width :: int
  fr_height :: int
  fr_pixels :: "nat list"
  fr_channels :: int

text \<open>
  \<open>GrayFrame.__post_init__\<close>; \<open>RgbFrame\<close> is the same record with three channels. Elements of
  \<open>bytes\<close> are below 256.
\<close>

definition gray_frame_ok :: "gray_frame \<Rightarrow> bool" where
  "gray_frame_ok f \<longleftrightarrow>
     \<not> fr_sequence f < 0 \<and> positive_integer (fr_width f) \<and> positive_integer (fr_height f)
     \<and> int (length (fr_pixels f)) = fr_width f * fr_height f * fr_channels f
     \<and> (\<forall>b \<in> set (fr_pixels f). b < 256)"

record detection =
  observation :: observation
  det_reason :: reason
  measurement :: "rat option"

text \<open>\<open>Detection.__post_init__\<close>: an unknown result never claims an evaluation, a conclusion always does.\<close>

definition detection_ok :: "detection \<Rightarrow> bool" where
  "detection_ok d \<longleftrightarrow>
     \<not> (observation d = OBS_UNKNOWN \<and> det_reason d = R_EVALUATED)
     \<and> \<not> (observation d \<noteq> OBS_UNKNOWN \<and> det_reason d \<noteq> R_EVALUATED)
     \<and> (case measurement d of None \<Rightarrow> True | Some m \<Rightarrow> 0 \<le> m \<and> m \<le> 1)"

definition Detection :: "observation \<Rightarrow> reason \<Rightarrow> detection" where
  "Detection obs r = \<lparr>observation = obs, det_reason = r, measurement = None\<rparr>"

abbreviation unknown :: "reason \<Rightarrow> detection" where
  "unknown r \<equiv> Detection OBS_UNKNOWN r"

lemma Detection_simps [simp]:
  "observation (Detection obs r) = obs" "det_reason (Detection obs r) = r"
  "measurement (Detection obs r) = None"
  by (simp_all add: Detection_def)

lemma unknown_ok [simp]: "detection_ok (unknown r) \<longleftrightarrow> r \<noteq> R_EVALUATED"
  by (simp add: detection_ok_def)

lemma detection_ok_conclusion:
  "detection_ok d \<Longrightarrow> observation d \<noteq> OBS_UNKNOWN \<longleftrightarrow> det_reason d = R_EVALUATED"
  by (auto simp: detection_ok_def)

section \<open>The result owner's interface\<close>

text \<open>
  A \<open>ResultSink\<close> (\<^verbatim>\<open>server/app/detection/quality/contracts.py\<close>) owns one source's published detection and
  can be told to withdraw it. \<open>published\<close> is what a reader sees, None for a source with no snapshot.
\<close>

locale result_sink =
  fixes invalidate :: "uuid \<Rightarrow> reason \<Rightarrow> 's \<Rightarrow> 's"
    and published :: "uuid \<Rightarrow> 's \<Rightarrow> detection option"
    and withdrawable :: "reason \<Rightarrow> bool"
  assumes invalidate_withdraws:
      "withdrawable r \<Longrightarrow> published src s \<noteq> None \<Longrightarrow>
        published src (invalidate src r s) = Some (unknown r)"
    and invalidate_unregistered:
      "published src s = None \<Longrightarrow> published src (invalidate src r s) = None"
    and invalidate_other: "src' \<noteq> src \<Longrightarrow> published src' (invalidate src r s) = published src' s"
begin

definition concludes :: "uuid \<Rightarrow> 's \<Rightarrow> bool" where
  "concludes src s \<longleftrightarrow> (\<exists>d. published src s = Some d \<and> observation d \<noteq> OBS_UNKNOWN)"

lemma invalidate_no_conclusion: "withdrawable r \<Longrightarrow> \<not> concludes src (invalidate src r s)"
  by (cases "published src s")
    (auto simp: concludes_def invalidate_unregistered invalidate_withdraws)

lemma invalidate_keeps_others:
  "src' \<noteq> src \<Longrightarrow> concludes src' (invalidate src r s) \<longleftrightarrow> concludes src' s"
  by (simp add: concludes_def invalidate_other)

end

end
