(* ===== verification/Inference_Scheduler.thy ===== *)
theory Inference_Scheduler
  imports Detection_Contracts
begin

text \<open>
  The bounded inference mailboxes of \<^verbatim>\<open>server/app/detection/foundation/scheduler.py\<close>.

  The scheduler's lock makes every critical section atomic, so each section is one function. A clock
  value is an argument (what the injected \<open>clock_ns\<close> returned in that section). \<open>run_one\<close> has two
  critical sections with the detector call in between, outside the lock: \<open>run_begin\<close> hands out a
  ticket, \<open>run_finish\<close> takes the ticket and the detector's result (None when it raised an
  \<open>Exception\<close> or returned no \<open>Detection\<close>), and \<open>run_abort\<close> is the \<open>BaseException\<close> branch. Any other
  operation may run between the two sections.

  Python keeps a \<open>_Source\<close> object alive while a worker still evaluates for it, even after
  \<open>unregister\<close> and a new \<open>register\<close> of the same identity. Each object therefore carries an identity
  (\<open>src_oid\<close>), and an unregistered object that is still being evaluated moves to \<open>sched_detached\<close>.
\<close>

record source_policy =
  cadence_ns :: int
  maximum_cadence_ns :: int
  maximum_queue_age_ns :: int
  maximum_evaluation_ns :: int
  maximum_observation_age_ns :: int
  maximum_pixels :: int

definition source_policy_ok :: "source_policy \<Rightarrow> bool" where
  "source_policy_ok p \<longleftrightarrow>
     positive_integer (cadence_ns p) \<and> positive_integer (maximum_cadence_ns p)
     \<and> positive_integer (maximum_queue_age_ns p) \<and> positive_integer (maximum_evaluation_ns p)
     \<and> positive_integer (maximum_observation_age_ns p) \<and> positive_integer (maximum_pixels p)
     \<and> \<not> maximum_cadence_ns p < cadence_ns p"

record detector =
  dt_identity :: nat
  dt_kind :: detector_kind
  dt_implementation :: string
  dt_version :: string

record source_snapshot =
  sn_source_id :: uuid
  sn_kind :: detector_kind
  sn_implementation :: string
  sn_version :: string
  sn_health :: health
  sn_result :: detection
  sn_sequence :: "int option"
  sn_stream_id :: "uuid option"
  sn_received_at_ns :: "int option"
  sn_evaluated_at_ns :: "int option"
  sn_cadence_ns :: int
  sn_pending :: bool
  sn_dropped :: int
  sn_processed :: int
  sn_sampled_out :: int

record pending =
  pd_frame :: gray_frame
  pd_quality :: quality
  pd_received_ns :: int

record source_state =
  src_oid :: nat
  src_detector :: detector
  src_policy :: source_policy
  src_cadence_ns :: int
  src_pending :: "pending option"
  src_stream_id :: "uuid option"
  src_retired :: "uuid list"
  src_sequence :: int
  src_result_sequence :: "int option"
  src_result :: detection
  src_next_due :: int
  src_next_admission :: int
  src_result_ns :: "int option"
  src_evaluated_ns :: "int option"
  src_sampled_out :: int
  src_loss_unacknowledged :: bool
  src_dropped :: int
  src_processed :: int
  src_epoch :: nat
  src_reset_required :: bool
  src_evaluating :: bool

definition RETIRED_STREAM_HISTORY :: nat where
  "RETIRED_STREAM_HISTORY = 4"

definition new_source :: "nat \<Rightarrow> detector \<Rightarrow> source_policy \<Rightarrow> source_state" where
  "new_source oid d p =
     \<lparr>src_oid = oid, src_detector = d, src_policy = p, src_cadence_ns = cadence_ns p,
      src_pending = None, src_stream_id = None, src_retired = [], src_sequence = -1,
      src_result_sequence = None, src_result = unknown R_NOT_STARTED, src_next_due = 0,
      src_next_admission = 0, src_result_ns = None, src_evaluated_ns = None, src_sampled_out = 0,
      src_loss_unacknowledged = False, src_dropped = 0, src_processed = 0, src_epoch = 0,
      src_reset_required = True, src_evaluating = False\<rparr>"

text \<open>\<open>deque(maxlen=4).append\<close>: the oldest entry falls off the left end.\<close>

definition retire :: "uuid \<Rightarrow> uuid list \<Rightarrow> uuid list" where
  "retire u q = (let q' = q @ [u] in drop (length q' - RETIRED_STREAM_HISTORY) q')"

record scheduler =
  sched_maximum_sources :: int
  sched_sources :: "(uuid, source_state) dict"
  sched_detached :: "source_state list"
  sched_next_oid :: nat
  sched_running :: bool
  sched_last_clock :: int

datatype sched_error = Sched_ValueError | Sched_KeyError

definition scheduler_init :: "int \<Rightarrow> sched_error + scheduler" where
  "scheduler_init maximum_sources =
     (if \<not> positive_integer maximum_sources then Inl Sched_ValueError
      else if maximum_sources > 4 then Inl Sched_ValueError
      else Inr \<lparr>sched_maximum_sources = maximum_sources, sched_sources = [], sched_detached = [],
                sched_next_oid = 0, sched_running = False, sched_last_clock = -1\<rparr>)"

definition register :: "uuid \<Rightarrow> detector \<Rightarrow> source_policy \<Rightarrow> scheduler
    \<Rightarrow> (sched_error, unit, scheduler) outcome" where
  "register source_id d p s =
     (if dt_implementation d = [] then (Inl Sched_ValueError, s)
      else if dt_version d = [] then (Inl Sched_ValueError, s)
      else if map_of (sched_sources s) source_id \<noteq> None then (Inl Sched_ValueError, s)
      else if int (length (sched_sources s)) \<ge> sched_maximum_sources s then (Inl Sched_ValueError, s)
      else if list_ex (\<lambda>(_, st). dt_identity (src_detector st) = dt_identity d) (sched_sources s)
        then (Inl Sched_ValueError, s)
      else (Inr (),
        s\<lparr>sched_sources := AList.update source_id (new_source (sched_next_oid s) d p) (sched_sources s),
          sched_next_oid := Suc (sched_next_oid s)\<rparr>))"

definition mark_unknown :: "reason \<Rightarrow> source_state \<Rightarrow> source_state" where
  "mark_unknown r st =
     st\<lparr>src_result := unknown r, src_result_sequence := None, src_result_ns := None,
        src_evaluated_ns := None, src_reset_required := True, src_epoch := Suc (src_epoch st)\<rparr>"

text \<open>\<open>_now\<close>: a clock that went backwards withdraws every published result.\<close>

definition clock_regressed :: "int \<Rightarrow> source_state \<Rightarrow> source_state" where
  "clock_regressed now st =
     mark_unknown R_CLOCK (st\<lparr>src_pending := None, src_next_due := now, src_next_admission := now\<rparr>)"

definition read_clock :: "int \<Rightarrow> scheduler \<Rightarrow> (sched_error, int, scheduler) outcome" where
  "read_clock now s =
     (if now < 0 then (Inl Sched_ValueError, s)
      else
        let s1 = (if now < sched_last_clock s
                  then s\<lparr>sched_sources := map (\<lambda>(k, st). (k, clock_regressed now st)) (sched_sources s)\<rparr>
                  else s)
        in (Inr now, s1\<lparr>sched_last_clock := now\<rparr>))"

definition overload :: "reason \<Rightarrow> int \<Rightarrow> source_state \<Rightarrow> source_state" where
  "overload r now st =
     (let st1 = mark_unknown r st;
          c = min (src_cadence_ns st1 * 2) (maximum_cadence_ns (src_policy st1))
      in st1\<lparr>src_loss_unacknowledged := True, src_cadence_ns := c,
             src_next_admission := max (src_next_admission st1) (now + c)\<rparr>)"

definition put_source :: "uuid \<Rightarrow> source_state \<Rightarrow> scheduler \<Rightarrow> scheduler" where
  "put_source k st s = s\<lparr>sched_sources := AList.update k st (sched_sources s)\<rparr>"

text \<open>The part of \<open>offer\<close> that runs on one source's state once the clock was read.\<close>

definition adopt_stream :: "int \<Rightarrow> uuid \<Rightarrow> source_state \<Rightarrow> source_state" where
  "adopt_stream now stream st =
     mark_unknown R_DISCONTINUITY
       (st\<lparr>src_pending := None,
           src_retired := (case src_stream_id st of None \<Rightarrow> src_retired st
                           | Some old \<Rightarrow> retire old (src_retired st)),
           src_stream_id := Some stream, src_sequence := -1, src_next_admission := now\<rparr>)"

definition note_drop :: "source_state \<Rightarrow> source_state" where
  "note_drop st = st\<lparr>src_dropped := src_dropped st + 1, src_loss_unacknowledged := True\<rparr>"

definition admit_frame :: "int \<Rightarrow> gray_frame \<Rightarrow> quality \<Rightarrow> source_state \<Rightarrow> bool \<times> source_state" where
  "admit_frame now f q st =
     (if fr_sequence f \<le> src_sequence st then (False, note_drop st)
      else
        let st1 = st\<lparr>src_sequence := fr_sequence f\<rparr> in
        if fr_width f * fr_height f > maximum_pixels (src_policy st1)
          then (False, overload R_RESOURCE_LIMIT now
                  (st1\<lparr>src_pending := None, src_dropped := src_dropped st1 + 1\<rparr>))
        else if q \<noteq> Q_SUFFICIENT then (False, mark_unknown R_QUALITY (st1\<lparr>src_pending := None\<rparr>))
        else if now < src_next_admission st1
          then (False, st1\<lparr>src_sampled_out := src_sampled_out st1 + 1\<rparr>)
        else
          let st2 = st1\<lparr>src_next_admission := now + src_cadence_ns st1\<rparr>;
              st3 = (if src_pending st2 \<noteq> None
                     then overload R_DROPPED now (st2\<lparr>src_dropped := src_dropped st2 + 1\<rparr>)
                     else st2)
          in (True, st3\<lparr>src_pending := Some \<lparr>pd_frame = f, pd_quality = q, pd_received_ns = now\<rparr>\<rparr>))"

definition offer_source :: "int \<Rightarrow> gray_frame \<Rightarrow> quality \<Rightarrow> source_state \<Rightarrow> bool \<times> source_state" where
  "offer_source now f q st =
     (if src_stream_id st \<noteq> Some (fr_stream_id f)
      then (if fr_stream_id f \<in> set (src_retired st) then (False, note_drop st)
            else admit_frame now f q (adopt_stream now (fr_stream_id f) st))
      else admit_frame now f q st)"

definition offer :: "int \<Rightarrow> gray_frame \<Rightarrow> quality \<Rightarrow> scheduler
    \<Rightarrow> (sched_error, bool, scheduler) outcome" where
  "offer clock f q s =
     (case read_clock clock s of
        (Inl e, s1) \<Rightarrow> (Inl e, s1)
      | (Inr now, s1) \<Rightarrow>
          (case map_of (sched_sources s1) (fr_source_id f) of
             None \<Rightarrow> (Inl Sched_KeyError, s1)
           | Some st \<Rightarrow>
               let (b, st') = offer_source now f q st
               in (Inr b, put_source (fr_source_id f) st' s1)))"

definition unregister :: "uuid \<Rightarrow> scheduler \<Rightarrow> (sched_error, unit, scheduler) outcome" where
  "unregister source_id s =
     (case map_of (sched_sources s) source_id of
        None \<Rightarrow> (Inl Sched_KeyError, s)
      | Some st \<Rightarrow>
          let st' = mark_unknown R_NOT_STARTED (st\<lparr>src_pending := None\<rparr>)
          in (Inr (), s\<lparr>sched_sources := AList.delete source_id (sched_sources s),
                        sched_detached := (if src_evaluating st then st' # sched_detached s
                                           else sched_detached s)\<rparr>))"

definition snapshot_of :: "uuid \<Rightarrow> source_state \<Rightarrow> source_snapshot" where
  "snapshot_of source_id st =
     (let h = (if src_loss_unacknowledged st \<or> src_cadence_ns st > cadence_ns (src_policy st)
               then HEALTH_DEGRADED else HEALTH_HEALTHY);
          h' = (if observation (src_result st) = OBS_UNKNOWN then HEALTH_UNAVAILABLE else h)
      in \<lparr>sn_source_id = source_id, sn_kind = dt_kind (src_detector st),
          sn_implementation = dt_implementation (src_detector st),
          sn_version = dt_version (src_detector st), sn_health = h', sn_result = src_result st,
          sn_sequence = src_result_sequence st, sn_stream_id = src_stream_id st,
          sn_received_at_ns = src_result_ns st, sn_evaluated_at_ns = src_evaluated_ns st,
          sn_cadence_ns = src_cadence_ns st, sn_pending = (src_pending st \<noteq> None),
          sn_dropped = src_dropped st, sn_processed = src_processed st,
          sn_sampled_out = src_sampled_out st\<rparr>)"

definition sched_invalidate :: "uuid \<Rightarrow> reason \<Rightarrow> scheduler
    \<Rightarrow> (sched_error, source_snapshot option, scheduler) outcome" where
  "sched_invalidate source_id r s =
     (if r = R_EVALUATED \<or> r = R_WARMUP then (Inl Sched_ValueError, s)
      else case map_of (sched_sources s) source_id of
             None \<Rightarrow> (Inr None, s)
           | Some st \<Rightarrow>
               let st' = mark_unknown r (st\<lparr>src_pending := None\<rparr>)
               in (Inr (Some (snapshot_of source_id st')), put_source source_id st' s))"

definition expire_result :: "int \<Rightarrow> source_state \<Rightarrow> source_state" where
  "expire_result now st =
     (case src_result_ns st of
        None \<Rightarrow> st
      | Some t \<Rightarrow>
          (if now - t > maximum_observation_age_ns (src_policy st)
           then st\<lparr>src_result := unknown R_STALE, src_result_sequence := None, src_result_ns := None,
                   src_evaluated_ns := None,
                   src_reset_required := (if src_evaluating st then src_reset_required st else True)\<rparr>
           else st))"

definition snapshot :: "int \<Rightarrow> uuid \<Rightarrow> scheduler \<Rightarrow> (sched_error, source_snapshot, scheduler) outcome" where
  "snapshot clock source_id s =
     (case read_clock clock s of
        (Inl e, s1) \<Rightarrow> (Inl e, s1)
      | (Inr now, s1) \<Rightarrow>
          (case map_of (sched_sources s1) source_id of
             None \<Rightarrow> (Inl Sched_KeyError, s1)
           | Some st \<Rightarrow>
               let st' = expire_result now st
               in (Inr (snapshot_of source_id st'), put_source source_id st' s1)))"

definition restore_cadence :: "uuid \<Rightarrow> scheduler \<Rightarrow> (sched_error, unit, scheduler) outcome" where
  "restore_cadence source_id s =
     (case map_of (sched_sources s) source_id of
        None \<Rightarrow> (Inl Sched_KeyError, s)
      | Some st \<Rightarrow> (Inr (), put_source source_id (st\<lparr>src_cadence_ns := cadence_ns (src_policy st)\<rparr>) s))"

definition acknowledge_recovery :: "uuid \<Rightarrow> scheduler \<Rightarrow> (sched_error, unit, scheduler) outcome" where
  "acknowledge_recovery source_id s =
     (case map_of (sched_sources s) source_id of
        None \<Rightarrow> (Inl Sched_KeyError, s)
      | Some st \<Rightarrow>
          (if observation (src_result st) = OBS_UNKNOWN then (Inl Sched_ValueError, s)
           else (Inr (), put_source source_id (st\<lparr>src_loss_unacknowledged := False\<rparr>) s)))"

section \<open>The worker entry point\<close>

record ticket =
  tk_source_id :: uuid
  tk_oid :: nat
  tk_epoch :: nat
  tk_started :: int
  tk_pending :: pending
  tk_needs_reset :: bool

datatype begun = Nothing_To_Run | Finished_Early source_snapshot | Evaluate ticket

definition due :: "int \<Rightarrow> uuid \<times> source_state \<Rightarrow> bool" where
  "due now e = (src_pending (snd e) \<noteq> None \<and> now \<ge> src_next_due (snd e))"

text \<open>The selected source's state after its mailbox was emptied, and what the section returns.\<close>

definition start_source :: "int \<Rightarrow> uuid \<Rightarrow> pending \<Rightarrow> source_state \<Rightarrow> begun \<times> source_state" where
  "start_source now source_id pd st =
     (let st1 = st\<lparr>src_pending := None, src_next_due := now + src_cadence_ns st\<rparr> in
      if now - pd_received_ns pd > min (maximum_queue_age_ns (src_policy st1))
                                       (maximum_observation_age_ns (src_policy st1))
      then (let st2 = overload R_STALE now (st1\<lparr>src_dropped := src_dropped st1 + 1\<rparr>)
            in (Finished_Early (snapshot_of source_id st2), st2))
      else if pd_quality pd \<noteq> Q_SUFFICIENT
      then (let st2 = mark_unknown R_QUALITY st1
            in (Finished_Early (snapshot_of source_id st2), st2))
      else (Evaluate \<lparr>tk_source_id = source_id, tk_oid = src_oid st1, tk_epoch = src_epoch st1,
                      tk_started = now, tk_pending = pd, tk_needs_reset = src_reset_required st1\<rparr>,
            st1\<lparr>src_reset_required := False, src_evaluating := True\<rparr>))"

definition run_begin :: "int \<Rightarrow> scheduler \<Rightarrow> (sched_error, begun, scheduler) outcome" where
  "run_begin clock s =
     (case read_clock clock s of
        (Inl e, s1) \<Rightarrow> (Inl e, s1)
      | (Inr now, s1) \<Rightarrow>
          (if sched_running s1 then (Inr Nothing_To_Run, s1)
           else case find (due now) (sched_sources s1) of
                  None \<Rightarrow> (Inr Nothing_To_Run, s1)
                | Some (source_id, st) \<Rightarrow>
                    let (b, st') = start_source now source_id (the (src_pending st)) st
                    in (Inr b,
                        s1\<lparr>sched_sources := AList.delete source_id (sched_sources s1) @ [(source_id, st')],
                           sched_running := (case b of Evaluate _ \<Rightarrow> True | _ \<Rightarrow> sched_running s1)\<rparr>)))"

text \<open>The object a ticket refers to: still registered, or detached by \<open>unregister\<close>.\<close>

definition holds_object :: "ticket \<Rightarrow> scheduler \<Rightarrow> bool" where
  "holds_object t s =
     (case map_of (sched_sources s) (tk_source_id t) of
        None \<Rightarrow> False | Some st \<Rightarrow> src_oid st = tk_oid t)"

definition ticket_object :: "ticket \<Rightarrow> scheduler \<Rightarrow> source_state option" where
  "ticket_object t s =
     (if holds_object t s then map_of (sched_sources s) (tk_source_id t)
      else find (\<lambda>st. src_oid st = tk_oid t) (sched_detached s))"

definition put_object :: "ticket \<Rightarrow> source_state \<Rightarrow> scheduler \<Rightarrow> scheduler" where
  "put_object t st s =
     (if holds_object t s then put_source (tk_source_id t) st s
      else s\<lparr>sched_detached := map (\<lambda>st'. if src_oid st' = tk_oid t then st else st') (sched_detached s)\<rparr>)"

definition publish :: "int \<Rightarrow> ticket \<Rightarrow> detection \<Rightarrow> source_state \<Rightarrow> source_state" where
  "publish finished t result st =
     (if src_epoch st \<noteq> tk_epoch t then st
      else if finished - tk_started t > maximum_evaluation_ns (src_policy st)
        then overload R_OVER_BUDGET finished st
      else if finished - pd_received_ns (tk_pending t) > maximum_observation_age_ns (src_policy st)
        then overload R_STALE finished st
      else st\<lparr>src_result := result, src_result_sequence := Some (fr_sequence (pd_frame (tk_pending t))),
              src_result_ns := Some (pd_received_ns (tk_pending t)),
              src_evaluated_ns := Some finished,
              src_reset_required := (if observation result = OBS_UNKNOWN
                                     then det_reason result \<noteq> R_WARMUP
                                     else src_reset_required st)\<rparr>)"

definition leave_evaluation :: "ticket \<Rightarrow> scheduler \<Rightarrow> scheduler" where
  "leave_evaluation t s =
     (let s1 = s\<lparr>sched_running := False\<rparr> in
      case ticket_object t s1 of
        None \<Rightarrow> s1
      | Some st \<Rightarrow> put_object t (st\<lparr>src_evaluating := False\<rparr>) s1)"

definition run_finish :: "int \<Rightarrow> ticket \<Rightarrow> detection option \<Rightarrow> scheduler
    \<Rightarrow> (sched_error, source_snapshot option, scheduler) outcome" where
  "run_finish clock t res s =
     (let result = (case res of None \<Rightarrow> unknown R_FAILURE | Some d \<Rightarrow> d) in
      case read_clock clock (leave_evaluation t s) of
        (Inl e, s1) \<Rightarrow> (Inl e, s1)
      | (Inr finished, s1) \<Rightarrow>
          (case ticket_object t s1 of
             None \<Rightarrow> (Inr None, s1)
           | Some st \<Rightarrow>
               let st' = publish finished t result (st\<lparr>src_processed := src_processed st + 1\<rparr>)
               in (Inr (Some (snapshot_of (tk_source_id t) st')), put_object t st' s1)))"

definition run_abort :: "ticket \<Rightarrow> scheduler \<Rightarrow> scheduler" where
  "run_abort t s = leave_evaluation t s"

section \<open>Source invariant\<close>

text \<open>
  What every registered source keeps: its cadence stays between the configured one and the explicit
  ceiling, the retired-stream history is bounded, a queued frame is a current, sufficiently good frame
  within the pixel budget, and a published conclusion names the frame it came from.
\<close>

definition pending_ok :: "source_state \<Rightarrow> bool" where
  "pending_ok st \<longleftrightarrow>
     (case src_pending st of
        None \<Rightarrow> True
      | Some pd \<Rightarrow>
          pd_quality pd = Q_SUFFICIENT
          \<and> src_stream_id st = Some (fr_stream_id (pd_frame pd))
          \<and> fr_sequence (pd_frame pd) \<le> src_sequence st
          \<and> fr_width (pd_frame pd) * fr_height (pd_frame pd) \<le> maximum_pixels (src_policy st))"

definition result_ok :: "source_state \<Rightarrow> bool" where
  "result_ok st \<longleftrightarrow>
     detection_ok (src_result st)
     \<and> (observation (src_result st) \<noteq> OBS_UNKNOWN \<longrightarrow>
          (\<exists>n t e. src_result_sequence st = Some n \<and> n \<le> src_sequence st
             \<and> src_result_ns st = Some t \<and> src_evaluated_ns st = Some e
             \<and> e - t \<le> maximum_observation_age_ns (src_policy st)))"

definition source_inv :: "source_state \<Rightarrow> bool" where
  "source_inv st \<longleftrightarrow>
     source_policy_ok (src_policy st)
     \<and> cadence_ns (src_policy st) \<le> src_cadence_ns st
     \<and> src_cadence_ns st \<le> maximum_cadence_ns (src_policy st)
     \<and> length (src_retired st) \<le> RETIRED_STREAM_HISTORY
     \<and> pending_ok st \<and> result_ok st"

lemmas source_inv_defs = source_inv_def pending_ok_def result_ok_def

lemma retire_bounded: "length (retire u q) \<le> RETIRED_STREAM_HISTORY"
  by (simp add: retire_def Let_def)

lemma source_inv_new: "source_policy_ok p \<Longrightarrow> source_inv (new_source oid d p)"
  by (simp add: source_inv_defs new_source_def source_policy_ok_def)

lemma source_inv_mark_unknown [intro]:
  "source_inv st \<Longrightarrow> r \<noteq> R_EVALUATED \<Longrightarrow> source_inv (mark_unknown r st)"
  by (auto simp: source_inv_defs mark_unknown_def split: option.splits)

lemma source_inv_clear_pending [intro]: "source_inv st \<Longrightarrow> source_inv (st\<lparr>src_pending := None\<rparr>)"
  by (simp add: source_inv_defs)

lemma source_inv_overload [intro]:
  "source_inv st \<Longrightarrow> r \<noteq> R_EVALUATED \<Longrightarrow> source_inv (overload r now st)"
  by (auto simp: source_inv_defs overload_def mark_unknown_def Let_def source_policy_ok_def
      positive_integer_def split: option.splits)

lemma source_inv_counters [simp]:
  "source_inv (st\<lparr>src_dropped := n\<rparr>) = source_inv st"
  "source_inv (st\<lparr>src_processed := n\<rparr>) = source_inv st"
  "source_inv (st\<lparr>src_sampled_out := n\<rparr>) = source_inv st"
  "source_inv (st\<lparr>src_loss_unacknowledged := b\<rparr>) = source_inv st"
  "source_inv (st\<lparr>src_next_due := n\<rparr>) = source_inv st"
  "source_inv (st\<lparr>src_next_admission := n\<rparr>) = source_inv st"
  "source_inv (st\<lparr>src_evaluating := b\<rparr>) = source_inv st"
  "source_inv (st\<lparr>src_reset_required := b\<rparr>) = source_inv st"
  by (simp_all add: source_inv_defs cong: option.case_cong)

lemma source_inv_adopt_stream [intro]: "source_inv st \<Longrightarrow> source_inv (adopt_stream now u st)"
  using retire_bounded
  by (auto simp: adopt_stream_def mark_unknown_def source_inv_defs split: option.splits)

lemma source_inv_sequence:
  "source_inv st \<Longrightarrow> src_sequence st \<le> n \<Longrightarrow> source_inv (st\<lparr>src_sequence := n\<rparr>)"
  by (fastforce simp: source_inv_defs split: option.splits)

lemma overload_fields [simp]:
  "src_oid (overload r now st) = src_oid st" "src_policy (overload r now st) = src_policy st"
  "src_stream_id (overload r now st) = src_stream_id st"
  "src_sequence (overload r now st) = src_sequence st"
  "src_pending (overload r now st) = src_pending st"
  "src_evaluating (overload r now st) = src_evaluating st"
  "src_epoch (overload r now st) = Suc (src_epoch st)"
  "src_result (overload r now st) = unknown r"
  "src_detector (overload r now st) = src_detector st"
  by (simp_all add: overload_def mark_unknown_def Let_def)

lemma mark_unknown_fields [simp]:
  "src_oid (mark_unknown r st) = src_oid st" "src_policy (mark_unknown r st) = src_policy st"
  "src_stream_id (mark_unknown r st) = src_stream_id st"
  "src_sequence (mark_unknown r st) = src_sequence st"
  "src_pending (mark_unknown r st) = src_pending st"
  "src_evaluating (mark_unknown r st) = src_evaluating st"
  "src_epoch (mark_unknown r st) = Suc (src_epoch st)"
  "src_result (mark_unknown r st) = unknown r"
  "src_detector (mark_unknown r st) = src_detector st"
  by (simp_all add: mark_unknown_def)

lemma source_inv_queued:
  assumes "source_inv st" "src_stream_id st = Some (fr_stream_id f)" "src_sequence st = fr_sequence f"
    "fr_width f * fr_height f \<le> maximum_pixels (src_policy st)"
  shows "source_inv (st\<lparr>src_pending :=
    Some \<lparr>pd_frame = f, pd_quality = Q_SUFFICIENT, pd_received_ns = now\<rparr>\<rparr>)"
  using assms by (simp add: source_inv_defs)

lemma admit_frame_inv:
  assumes "source_inv st" "src_stream_id st = Some (fr_stream_id f)"
  shows "source_inv (snd (admit_frame now f q st))"
  using assms
  by (auto simp: admit_frame_def Let_def note_drop_def
      intro!: source_inv_queued source_inv_overload source_inv_mark_unknown source_inv_clear_pending
        source_inv_sequence)

lemma offer_source_inv: "source_inv st \<Longrightarrow> source_inv (snd (offer_source now f q st))"
  by (auto simp: offer_source_def note_drop_def intro!: admit_frame_inv)
    (simp add: adopt_stream_def mark_unknown_def)

lemma source_inv_expire: "source_inv st \<Longrightarrow> source_inv (expire_result now st)"
  by (auto simp: expire_result_def source_inv_defs split: option.splits)

lemma source_inv_clock_regressed: "source_inv st \<Longrightarrow> source_inv (clock_regressed now st)"
  unfolding clock_regressed_def by (intro source_inv_mark_unknown) (simp_all add: source_inv_defs)

lemma start_source_inv: "source_inv st \<Longrightarrow> source_inv (snd (start_source now k pd st))"
  by (auto simp: start_source_def Let_def intro!: source_inv_overload source_inv_mark_unknown)

section \<open>Evolution of the registered sources\<close>

text \<open>
  \<open>source_le\<close> is what every critical section keeps of one source object: its identity and policy, an
  epoch that only grows, and, while the epoch stays, the stream and the sequence order. An evaluation
  that still carries the current epoch therefore belongs to the current stream.
\<close>

definition source_le :: "source_state \<Rightarrow> source_state \<Rightarrow> bool" where
  "source_le st st' \<longleftrightarrow>
     src_oid st' = src_oid st \<and> src_policy st' = src_policy st \<and> src_epoch st \<le> src_epoch st'
     \<and> (src_epoch st' = src_epoch st \<longrightarrow>
          src_stream_id st' = src_stream_id st \<and> src_sequence st \<le> src_sequence st')"

lemma source_le_refl [simp]: "source_le st st"
  by (simp add: source_le_def)

lemma source_le_trans: "source_le a b \<Longrightarrow> source_le b c \<Longrightarrow> source_le a c"
  by (auto simp: source_le_def)

lemma source_le_new_epoch:
  "\<lbrakk>src_oid st' = src_oid st; src_policy st' = src_policy st; src_epoch st < src_epoch st'\<rbrakk>
    \<Longrightarrow> source_le st st'"
  by (simp add: source_le_def)

lemma adopt_stream_fields [simp]:
  "src_oid (adopt_stream now u st) = src_oid st" "src_policy (adopt_stream now u st) = src_policy st"
  "src_epoch (adopt_stream now u st) = Suc (src_epoch st)"
  "src_stream_id (adopt_stream now u st) = Some u"
  by (simp_all add: adopt_stream_def)

lemma admit_frame_le: "source_le st (snd (admit_frame now f q st))"
  by (auto simp: admit_frame_def Let_def note_drop_def source_le_def)

lemma offer_source_le: "source_le st (snd (offer_source now f q st))"
proof -
  have "source_le st (snd (admit_frame now f q (adopt_stream now (fr_stream_id f) st)))"
    by (rule source_le_trans [OF _ admit_frame_le]) (simp add: source_le_def)
  then show ?thesis
    by (simp add: offer_source_def admit_frame_le) (simp add: note_drop_def source_le_def)
qed

lemma expire_result_le: "source_le st (expire_result now st)"
  by (auto simp: expire_result_def source_le_def split: option.splits)

lemma clock_regressed_le: "source_le st (clock_regressed now st)"
  by (simp add: clock_regressed_def source_le_def)

lemma start_source_le: "source_le st (snd (start_source now k pd st))"
  by (simp add: start_source_def Let_def source_le_def)

definition grown_from :: "(source_state \<Rightarrow> bool) \<Rightarrow> scheduler \<Rightarrow> nat \<Rightarrow> uuid \<Rightarrow> source_state \<Rightarrow> bool" where
  "grown_from I s n k st' \<longleftrightarrow>
     (\<exists>st. (k, st) \<in> set (sched_sources s) \<and> source_le st st' \<and> (I st \<longrightarrow> I st'))
     \<or> (sched_next_oid s \<le> src_oid st' \<and> src_oid st' < n \<and> I st')"

definition sched_evolves :: "(source_state \<Rightarrow> bool) \<Rightarrow> scheduler \<Rightarrow> scheduler \<Rightarrow> bool" where
  "sched_evolves I s s' \<longleftrightarrow>
     sched_maximum_sources s' = sched_maximum_sources s
     \<and> sched_next_oid s \<le> sched_next_oid s'
     \<and> (dict_ok (sched_sources s) \<longrightarrow> dict_ok (sched_sources s'))
     \<and> (int (length (sched_sources s)) \<le> sched_maximum_sources s \<longrightarrow>
          int (length (sched_sources s')) \<le> sched_maximum_sources s')
     \<and> (\<forall>(k, st') \<in> set (sched_sources s'). grown_from I s (sched_next_oid s') k st')"

lemma grown_from_self: "(k, st) \<in> set (sched_sources s) \<Longrightarrow> grown_from I s n k st"
  unfolding grown_from_def using source_le_refl by blast

lemma grown_from_step:
  assumes "grown_from I s n k st" "source_le st st'" "I st \<longrightarrow> I st'" "n \<le> m"
  shows "grown_from I s m k st'"
proof -
  from assms(1) consider
      (old) st0 where "(k, st0) \<in> set (sched_sources s)" "source_le st0 st" "I st0 \<longrightarrow> I st"
    | (new) "sched_next_oid s \<le> src_oid st" "src_oid st < n" "I st"
    unfolding grown_from_def by blast
  then show ?thesis
  proof cases
    case old
    then have "source_le st0 st'" using assms(2) source_le_trans by blast
    with old assms(3) show ?thesis unfolding grown_from_def by blast
  next
    case new
    moreover have "src_oid st' = src_oid st" using assms(2) by (simp add: source_le_def)
    ultimately show ?thesis using assms(3,4) by (simp add: grown_from_def)
  qed
qed

lemma sched_evolves_refl: "sched_evolves I s s"
  by (auto simp: sched_evolves_def grown_from_self)

lemma sched_evolves_trans:
  assumes ab: "sched_evolves I a b" and bc: "sched_evolves I b c"
  shows "sched_evolves I a c"
proof -
  have "grown_from I a (sched_next_oid c) k st" if mem: "(k, st) \<in> set (sched_sources c)" for k st
  proof -
    from bc mem have "grown_from I b (sched_next_oid c) k st" by (auto simp: sched_evolves_def)
    then consider
        (old) st0 where "(k, st0) \<in> set (sched_sources b)" "source_le st0 st" "I st0 \<longrightarrow> I st"
      | (new) "sched_next_oid b \<le> src_oid st" "src_oid st < sched_next_oid c" "I st"
      unfolding grown_from_def by blast
    then show ?thesis
    proof cases
      case old
      then have "grown_from I a (sched_next_oid b) k st0" using ab by (auto simp: sched_evolves_def)
      with old bc show ?thesis by (auto simp: sched_evolves_def intro: grown_from_step)
    next
      case new
      with ab show ?thesis by (simp add: sched_evolves_def grown_from_def)
    qed
  qed
  with ab bc show ?thesis by (auto simp: sched_evolves_def)
qed

lemma put_source_evolves:
  assumes "map_of (sched_sources s) k = Some st" "source_le st st'" "I st \<longrightarrow> I st'"
  shows "sched_evolves I s (put_source k st' s)"
proof -
  have mem: "(k, st) \<in> set (sched_sources s)" using assms(1) by (rule map_of_SomeD)
  then have key: "k \<in> dict_keys (sched_sources s)" by force
  have "\<forall>(k', st'') \<in> set (AList.update k st' (sched_sources s)). grown_from I s (sched_next_oid s) k' st''"
    using mem assms(2,3) by (intro dict_all_update) (auto intro: grown_from_self grown_from_step)
  with key show ?thesis
    by (auto simp: sched_evolves_def put_source_def dict_ok_update dict_length_update)
qed

lemma map_sources_evolves:
  assumes "\<And>st. source_le st (g st)" "\<And>st. I st \<Longrightarrow> I (g st)"
  shows "sched_evolves I s (s\<lparr>sched_sources := map (\<lambda>(k, st). (k, g st)) (sched_sources s), sched_last_clock := n\<rparr>)"
proof -
  have keys: "map fst (map (\<lambda>(k, st). (k, g st)) (sched_sources s)) = map fst (sched_sources s)"
    by (simp add: comp_def case_prod_beta)
  have "grown_from I s (sched_next_oid s) k (g st)" if "(k, st) \<in> set (sched_sources s)" for k st
    using grown_from_step [OF grown_from_self [OF that] assms(1)] assms(2) by blast
  then show ?thesis
    by (auto simp: sched_evolves_def keys simp del: map_map)
qed

lemma read_clock_result: "read_clock now s = (Inr n, s') \<Longrightarrow> n = now \<and> 0 \<le> now"
  by (auto simp: read_clock_def Let_def split: if_splits)

lemma read_clock_frame [simp]:
  "sched_running (snd (read_clock now s)) = sched_running s"
  "sched_detached (snd (read_clock now s)) = sched_detached s"
  "sched_next_oid (snd (read_clock now s)) = sched_next_oid s"
  by (simp_all add: read_clock_def Let_def)

lemma read_clock_cases:
  obtains (bad) s1 where "read_clock c s = (Inl Sched_ValueError, s1)"
  | (good) s1 where "read_clock c s = (Inr c, s1)"
  by (cases "c < 0") (simp_all add: read_clock_def Let_def)

text \<open>
  A property of one source object that every critical section keeps, whatever it is: the sections then
  keep it for every registered source.
\<close>

locale source_property =
  fixes I :: "source_state \<Rightarrow> bool"
  assumes prop_new: "source_policy_ok p \<Longrightarrow> I (new_source oid d p)"
    and prop_offer: "I st \<Longrightarrow> I (snd (offer_source now f q st))"
    and prop_expire: "I st \<Longrightarrow> I (expire_result now st)"
    and prop_clock: "I st \<Longrightarrow> I (clock_regressed now st)"
    and prop_invalidate: "I st \<Longrightarrow> r \<noteq> R_EVALUATED \<Longrightarrow> I (mark_unknown r (st\<lparr>src_pending := None\<rparr>))"
    and prop_restore: "I st \<Longrightarrow> I (st\<lparr>src_cadence_ns := cadence_ns (src_policy st)\<rparr>)"
    and prop_acknowledge: "I st \<Longrightarrow> I (st\<lparr>src_loss_unacknowledged := False\<rparr>)"
    and prop_start: "I st \<Longrightarrow> I (snd (start_source now k pd st))"
    and prop_leave: "I st \<Longrightarrow> I (st\<lparr>src_evaluating := False\<rparr>)"
begin

lemma read_clock_evolves: "sched_evolves I s (snd (read_clock now s))"
proof -
  have "sched_evolves I s (s\<lparr>sched_last_clock := now\<rparr>)"
    using map_sources_evolves [of "\<lambda>st. st" I s now] by simp
  then show ?thesis
    by (auto simp: read_clock_def Let_def sched_evolves_refl
        intro!: map_sources_evolves clock_regressed_le prop_clock)
qed

lemma offer_evolves: "sched_evolves I s (snd (offer c f q s))"
proof (cases rule: read_clock_cases [of c s])
  case bad
  then show ?thesis using read_clock_evolves [of s c] by (simp add: offer_def)
next
  case (good s1)
  have clk: "sched_evolves I s s1" using read_clock_evolves [of s c] good by simp
  show ?thesis
  proof (cases "map_of (sched_sources s1) (fr_source_id f)")
    case None
    then show ?thesis using clk good by (simp add: offer_def)
  next
    case (Some st)
    then have "sched_evolves I s1 (put_source (fr_source_id f) (snd (offer_source c f q st)) s1)"
      using offer_source_le prop_offer by (intro put_source_evolves) auto
    then show ?thesis
      using clk good Some by (auto simp: offer_def split_def Let_def intro: sched_evolves_trans)
  qed
qed

lemma snapshot_evolves: "sched_evolves I s (snd (snapshot c k s))"
proof (cases rule: read_clock_cases [of c s])
  case bad
  then show ?thesis using read_clock_evolves [of s c] by (simp add: snapshot_def)
next
  case (good s1)
  have clk: "sched_evolves I s s1" using read_clock_evolves [of s c] good by simp
  show ?thesis
  proof (cases "map_of (sched_sources s1) k")
    case None
    then show ?thesis using clk good by (simp add: snapshot_def)
  next
    case (Some st)
    then have "sched_evolves I s1 (put_source k (expire_result c st) s1)"
      using expire_result_le prop_expire by (intro put_source_evolves) auto
    then show ?thesis
      using clk good Some by (auto simp: snapshot_def Let_def intro: sched_evolves_trans)
  qed
qed

lemma invalidate_evolves: "sched_evolves I s (snd (sched_invalidate k r s))"
  by (auto simp: sched_invalidate_def Let_def sched_evolves_refl split: option.splits
      intro!: put_source_evolves prop_invalidate) (simp_all add: source_le_def)

lemma restore_cadence_evolves: "sched_evolves I s (snd (restore_cadence k s))"
  by (auto simp: restore_cadence_def sched_evolves_refl split: option.splits
      intro!: put_source_evolves prop_restore) (simp_all add: source_le_def)

lemma acknowledge_evolves: "sched_evolves I s (snd (acknowledge_recovery k s))"
  by (auto simp: acknowledge_recovery_def sched_evolves_refl split: option.splits
      intro!: put_source_evolves prop_acknowledge) (simp_all add: source_le_def)

lemma register_evolves:
  assumes "source_policy_ok p"
  shows "sched_evolves I s (snd (register k d p s))"
proof (cases "fst (register k d p s)")
  case (Inl e)
  then have "snd (register k d p s) = s" by (auto simp: register_def split: if_splits)
  then show ?thesis by (simp add: sched_evolves_refl)
next
  case (Inr u)
  define st where "st = new_source (sched_next_oid s) d p"
  have st: "src_oid st = sched_next_oid s" "I st"
    using assms by (simp_all add: st_def prop_new) (simp add: new_source_def)
  from Inr have new: "map_of (sched_sources s) k = None" and
    room: "\<not> int (length (sched_sources s)) \<ge> sched_maximum_sources s" and
    eq: "snd (register k d p s) = s\<lparr>sched_sources := AList.update k st (sched_sources s),
           sched_next_oid := Suc (sched_next_oid s)\<rparr>"
    by (auto simp: register_def st_def split: if_splits)
  have "\<forall>(k', st') \<in> set (AList.update k st (sched_sources s)).
      grown_from I s (Suc (sched_next_oid s)) k' st'"
    using st by (intro dict_all_update) (auto simp: grown_from_def intro: grown_from_self [unfolded grown_from_def])
  with room eq show ?thesis
    by (auto simp: sched_evolves_def dict_ok_update dict_length_update)
qed

lemma unregister_evolves: "sched_evolves I s (snd (unregister k s))"
proof -
  have "\<forall>(k', st) \<in> set (AList.delete k (sched_sources s)). grown_from I s (sched_next_oid s) k' st"
    by (intro dict_all_delete) (auto intro: grown_from_self)
  then show ?thesis
    using dict_length_delete_le [of k "sched_sources s"]
    by (auto simp: unregister_def Let_def sched_evolves_def dict_ok_delete grown_from_self
        split: option.splits)
qed

lemma run_begin_evolves: "sched_evolves I s (snd (run_begin c s))"
proof (cases rule: read_clock_cases [of c s])
  case bad
  then show ?thesis using read_clock_evolves [of s c] by (simp add: run_begin_def)
next
  case (good s1)
  have clk: "sched_evolves I s s1" using read_clock_evolves [of s c] good by simp
  show ?thesis
  proof (cases "sched_running s1 \<or> find (due c) (sched_sources s1) = None")
    case True
    then show ?thesis using clk good by (auto simp: run_begin_def)
  next
    case False
    then obtain k st where sel: "find (due c) (sched_sources s1) = Some (k, st)" by auto
    then have mem: "(k, st) \<in> set (sched_sources s1)" by (auto simp: find_Some_iff)
    define st' where "st' = snd (start_source c k (the (src_pending st)) st)"
    have grown: "grown_from I s1 n k st'" for n
      using grown_from_step [OF grown_from_self [OF mem] start_source_le] prop_start
      unfolding st'_def by (meson order_refl)
    have len: "Suc (length (AList.delete k (sched_sources s1))) \<le> length (sched_sources s1)"
      using mem by (rule dict_length_delete_present)
    have res: "snd (run_begin c s) =
        s1\<lparr>sched_sources := AList.delete k (sched_sources s1) @ [(k, st')],
           sched_running := sched_running (snd (run_begin c s))\<rparr>"
      using good sel False by (simp add: run_begin_def split_def Let_def st'_def)
    have "sched_evolves I s1 (snd (run_begin c s))"
      using grown len mem dict_set_delete_subset [of k "sched_sources s1"]
      by (subst res) (auto simp: sched_evolves_def dict_ok_delete grown_from_self dict_keys_delete
          dest!: subsetD)
    then show ?thesis using clk sched_evolves_trans by blast
  qed
qed

lemma leave_evaluation_evolves: "sched_evolves I s (leave_evaluation tk s)"
proof -
  have run: "sched_evolves I s (s\<lparr>sched_running := False\<rparr>)"
    by (auto simp: sched_evolves_def grown_from_self)
  have det: "sched_evolves I s (s\<lparr>sched_running := False, sched_detached := x\<rparr>)" for x
    by (auto simp: sched_evolves_def grown_from_self)
  have put: "sched_evolves I (s\<lparr>sched_running := False\<rparr>)
      (put_source (tk_source_id tk) (st\<lparr>src_evaluating := False\<rparr>) (s\<lparr>sched_running := False\<rparr>))"
    if "map_of (sched_sources s) (tk_source_id tk) = Some st" for st
    by (rule put_source_evolves [where st = st]) (use that in \<open>simp_all add: source_le_def prop_leave\<close>)
  show ?thesis
    using run det sched_evolves_trans [OF run put]
    by (auto simp: leave_evaluation_def Let_def ticket_object_def put_object_def holds_object_def
        split: option.splits)
qed

lemmas op_evolves =
  offer_evolves snapshot_evolves invalidate_evolves restore_cadence_evolves acknowledge_evolves
  register_evolves unregister_evolves run_begin_evolves read_clock_evolves

end

lemma source_inv_restore:
  "source_inv st \<Longrightarrow> source_inv (st\<lparr>src_cadence_ns := cadence_ns (src_policy st)\<rparr>)"
  by (simp add: source_inv_defs source_policy_ok_def cong: option.case_cong)

interpretation src_wf: source_property source_inv
  by unfold_locales (auto intro: source_inv_new offer_source_inv source_inv_expire
      source_inv_clock_regressed source_inv_restore start_source_inv)

lemma offer_source_quiet:
  "observation (src_result st) = OBS_UNKNOWN \<Longrightarrow>
    observation (src_result (snd (offer_source now f q st))) = OBS_UNKNOWN"
  by (simp add: offer_source_def admit_frame_def adopt_stream_def note_drop_def Let_def)

interpretation src_quiet: source_property "\<lambda>st. observation (src_result st) = OBS_UNKNOWN"
  by unfold_locales (auto simp: offer_source_quiet new_source_def expire_result_def clock_regressed_def
      start_source_def Let_def split: option.splits)

section \<open>Interleavings with one worker\<close>

text \<open>
  A configuration is the scheduler and the ticket the worker holds while it evaluates outside the lock.
  Detector results and frames satisfy their constructor checks, as the dataclasses enforce.
\<close>

definition ticket_rel :: "ticket \<Rightarrow> source_state \<Rightarrow> bool" where
  "ticket_rel tk st \<longleftrightarrow>
     tk_epoch tk \<le> src_epoch st
     \<and> (src_epoch st = tk_epoch tk \<longrightarrow>
          src_stream_id st = Some (fr_stream_id (pd_frame (tk_pending tk)))
          \<and> fr_sequence (pd_frame (tk_pending tk)) \<le> src_sequence st)"

definition registry_inv :: "scheduler \<Rightarrow> bool" where
  "registry_inv s \<longleftrightarrow>
     dict_ok (sched_sources s)
     \<and> int (length (sched_sources s)) \<le> sched_maximum_sources s \<and> sched_maximum_sources s \<le> 4
     \<and> (\<forall>(k, st) \<in> set (sched_sources s). source_inv st \<and> src_oid st < sched_next_oid s)"

definition ticket_inv :: "scheduler \<Rightarrow> ticket \<Rightarrow> bool" where
  "ticket_inv s tk \<longleftrightarrow>
     tk_oid tk < sched_next_oid s
     \<and> (\<forall>st. (tk_source_id tk, st) \<in> set (sched_sources s) \<and> src_oid st = tk_oid tk \<longrightarrow> ticket_rel tk st)"

definition sched_inv :: "scheduler \<times> ticket option \<Rightarrow> bool" where
  "sched_inv c \<longleftrightarrow>
     registry_inv (fst c) \<and> (sched_running (fst c) \<longleftrightarrow> snd c \<noteq> None)
     \<and> (case snd c of None \<Rightarrow> True | Some tk \<Rightarrow> ticket_inv (fst c) tk)"

inductive sched_step :: "scheduler \<times> ticket option \<Rightarrow> scheduler \<times> ticket option \<Rightarrow> bool" where
  step_register: "source_policy_ok p \<Longrightarrow> sched_step (s, t) (snd (register k d p s), t)"
| step_unregister: "sched_step (s, t) (snd (unregister k s), t)"
| step_offer: "gray_frame_ok f \<Longrightarrow> sched_step (s, t) (snd (offer c f q s), t)"
| step_invalidate: "sched_step (s, t) (snd (sched_invalidate k r s), t)"
| step_snapshot: "sched_step (s, t) (snd (snapshot c k s), t)"
| step_restore: "sched_step (s, t) (snd (restore_cadence k s), t)"
| step_acknowledge: "sched_step (s, t) (snd (acknowledge_recovery k s), t)"
| step_begin: "run_begin c s = (Inr (Evaluate tk), s') \<Longrightarrow> sched_step (s, t) (s', Some tk)"
| step_begin_none:
    "\<lbrakk>run_begin c s = (b, s'); \<And>tk. b \<noteq> Inr (Evaluate tk)\<rbrakk> \<Longrightarrow> sched_step (s, t) (s', t)"
| step_finish:
    "pred_option detection_ok res \<Longrightarrow> sched_step (s, Some tk) (snd (run_finish c tk res s), None)"
| step_abort: "sched_step (s, Some tk) (run_abort tk s, None)"

inductive sched_reachable :: "scheduler \<times> ticket option \<Rightarrow> bool" where
  reach_init: "scheduler_init n = Inr s \<Longrightarrow> sched_reachable (s, None)"
| reach_step: "sched_reachable c \<Longrightarrow> sched_step c c' \<Longrightarrow> sched_reachable c'"

lemma ticket_rel_le: "ticket_rel tk st \<Longrightarrow> source_le st st' \<Longrightarrow> ticket_rel tk st'"
  by (auto simp: ticket_rel_def source_le_def)

lemma registry_inv_evolves:
  assumes "registry_inv s" "sched_evolves source_inv s s'"
  shows "registry_inv s'"
proof -
  have "source_inv st' \<and> src_oid st' < sched_next_oid s'" if "(k, st') \<in> set (sched_sources s')" for k st'
  proof -
    have "grown_from source_inv s (sched_next_oid s') k st'" using assms(2) that by (auto simp: sched_evolves_def)
    then show ?thesis
      using assms by (fastforce simp: grown_from_def registry_inv_def sched_evolves_def source_le_def)
  qed
  with assms show ?thesis by (auto simp: registry_inv_def sched_evolves_def)
qed

lemma ticket_inv_evolves:
  assumes "ticket_inv s tk" "sched_evolves I s s'"
  shows "ticket_inv s' tk"
proof -
  have "ticket_rel tk st'"
    if mem: "(tk_source_id tk, st') \<in> set (sched_sources s')" and oid: "src_oid st' = tk_oid tk" for st'
  proof -
    have "grown_from I s (sched_next_oid s') (tk_source_id tk) st'"
      using assms(2) mem by (auto simp: sched_evolves_def)
    moreover have "\<not> sched_next_oid s \<le> src_oid st'" using assms(1) oid by (simp add: ticket_inv_def)
    ultimately obtain st where "(tk_source_id tk, st) \<in> set (sched_sources s)" "source_le st st'"
      by (auto simp: grown_from_def)
    with assms(1) oid show ?thesis by (auto simp: ticket_inv_def source_le_def intro: ticket_rel_le)
  qed
  with assms show ?thesis by (auto simp: ticket_inv_def sched_evolves_def)
qed

lemma sched_inv_evolves:
  "\<lbrakk>sched_inv (s, t); sched_evolves source_inv s s'; sched_running s' = sched_running s\<rbrakk> \<Longrightarrow> sched_inv (s', t)"
  by (auto simp: sched_inv_def intro: registry_inv_evolves ticket_inv_evolves split: option.splits)

lemma running_frame [simp]:
  "sched_running (snd (offer c f q s)) = sched_running s"
  "sched_running (snd (snapshot c k s)) = sched_running s"
  "sched_running (snd (sched_invalidate k r s)) = sched_running s"
  "sched_running (snd (restore_cadence k s)) = sched_running s"
  "sched_running (snd (acknowledge_recovery k s)) = sched_running s"
  "sched_running (snd (register k d p s)) = sched_running s"
  "sched_running (snd (unregister k s)) = sched_running s"
proof -
  show "sched_running (snd (offer c f q s)) = sched_running s"
    using read_clock_frame(1) [of c s]
    by (cases rule: read_clock_cases [of c s])
      (auto simp: offer_def put_source_def split_def Let_def split: option.splits)
  show "sched_running (snd (snapshot c k s)) = sched_running s"
    using read_clock_frame(1) [of c s]
    by (cases rule: read_clock_cases [of c s])
      (auto simp: snapshot_def put_source_def Let_def split: option.splits)
qed (auto simp: sched_invalidate_def restore_cadence_def acknowledge_recovery_def register_def
    unregister_def put_source_def Let_def split: option.splits)

lemma publish_le: "source_le st (publish c tk d st)"
  by (auto simp: publish_def source_le_def)

lemma publish_inv:
  assumes "source_inv st" "ticket_rel tk st" "detection_ok d"
  shows "source_inv (publish c tk d st)"
  using assms
  by (auto simp: publish_def intro!: source_inv_overload)
    (auto simp: source_inv_defs ticket_rel_def split: option.splits)

lemma leave_evaluation_running [simp]: "\<not> sched_running (leave_evaluation tk s)"
  by (simp add: leave_evaluation_def put_object_def put_source_def Let_def split: option.splits)

context source_property begin

lemma run_finish_cases:
  obtains (bad) s1 where "run_finish c tk res s = (Inl Sched_ValueError, s1)"
      "sched_evolves I s s1" "\<not> sched_running s1"
  | (detached) s1 x where "snd (run_finish c tk res s) = s1\<lparr>sched_detached := x\<rparr>"
      "sched_evolves I s s1" "\<not> sched_running s1" "\<not> holds_object tk s1"
  | (held) s1 st where
      "snd (run_finish c tk res s) = put_source (tk_source_id tk)
         (publish c tk (case res of None \<Rightarrow> unknown R_FAILURE | Some d \<Rightarrow> d)
            (st\<lparr>src_processed := src_processed st + 1\<rparr>)) s1"
      "sched_evolves I s s1" "\<not> sched_running s1"
      "map_of (sched_sources s1) (tk_source_id tk) = Some st" "src_oid st = tk_oid tk"
proof (cases rule: read_clock_cases [of c "leave_evaluation tk s"])
  case (bad s1)
  then show thesis
    using read_clock_evolves [of "leave_evaluation tk s" c] leave_evaluation_evolves [of s tk]
      read_clock_frame(1) [of c "leave_evaluation tk s"] sched_evolves_trans
    by (intro that(1) [of s1]) (auto simp: run_finish_def)
next
  case (good s1)
  have ev: "sched_evolves I s s1"
    using read_clock_evolves [of "leave_evaluation tk s" c] leave_evaluation_evolves [of s tk]
      sched_evolves_trans good by simp
  have idle: "\<not> sched_running s1" using read_clock_frame(1) [of c "leave_evaluation tk s"] good by simp
  show thesis
  proof (cases "holds_object tk s1")
    case True
    then obtain st where "map_of (sched_sources s1) (tk_source_id tk) = Some st" "src_oid st = tk_oid tk"
      by (auto simp: holds_object_def split: option.splits)
    then show thesis
      using ev idle good True
      by (intro that(3) [of st s1]) (simp_all add: run_finish_def ticket_object_def put_object_def Let_def)
  next
    case False
    show thesis
    proof (cases "ticket_object tk s1")
      case None
      then show thesis
        using ev idle good False
        by (intro that(2) [of "sched_detached s1" s1]) (simp_all add: run_finish_def Let_def)
    next
      case (Some st)
      then show thesis
        using ev idle good False
        by (intro that(2)) (simp_all add: run_finish_def put_object_def Let_def)
    qed
  qed
qed

end

lemma sched_inv_finish:
  assumes inv: "sched_inv (s, Some tk)" and ok: "pred_option detection_ok res"
  shows "sched_inv (snd (run_finish c tk res s), None)"
proof (cases rule: src_wf.run_finish_cases [of c tk res s])
  case bad
  then show ?thesis using inv by (auto simp: sched_inv_def intro: registry_inv_evolves)
next
  case (detached s1 x)
  have "sched_evolves source_inv s1 (s1\<lparr>sched_detached := x\<rparr>)"
    by (auto simp: sched_evolves_def grown_from_self)
  with detached inv show ?thesis
    by (auto simp: sched_inv_def intro: registry_inv_evolves)
next
  case (held s1 st)
  have reg: "registry_inv s1" and tinv: "ticket_inv s1 tk"
    using inv held(2) by (auto simp: sched_inv_def intro: registry_inv_evolves ticket_inv_evolves)
  have mem: "(tk_source_id tk, st) \<in> set (sched_sources s1)" using held(4) by (rule map_of_SomeD)
  with reg tinv held(5) have rel: "ticket_rel tk (st\<lparr>src_processed := n\<rparr>)" and
    sinv: "source_inv (st\<lparr>src_processed := n\<rparr>)" for n
    by (auto simp: registry_inv_def ticket_inv_def ticket_rel_def)
  have dok: "detection_ok (case res of None \<Rightarrow> unknown R_FAILURE | Some d \<Rightarrow> d)"
    using ok by (cases res) simp_all
  have "source_le st (st\<lparr>src_processed := n\<rparr>)" for n by (simp add: source_le_def)
  then have "sched_evolves source_inv s1 (snd (run_finish c tk res s))"
    unfolding held(1)
    by (intro put_source_evolves [OF held(4)] source_le_trans [OF _ publish_le] impI
        publish_inv [OF sinv rel dok])
  then show ?thesis
    using reg held(1,3) by (auto simp: sched_inv_def put_source_def intro: registry_inv_evolves)
qed

lemma sched_inv_begin:
  assumes inv: "sched_inv (s, t)" and begin_: "run_begin c s = (Inr (Evaluate tk), s')"
  shows "sched_inv (s', Some tk)"
proof (cases rule: read_clock_cases [of c s])
  case bad
  then show ?thesis using begin_ by (simp add: run_begin_def)
next
  case (good s1)
  have reg1: "registry_inv s1"
    using inv src_wf.read_clock_evolves [of s c] good by (auto simp: sched_inv_def intro: registry_inv_evolves)
  from begin_ good obtain k st where sel: "find (due c) (sched_sources s1) = Some (k, st)"
    by (auto simp: run_begin_def split: if_splits option.splits)
  then have mem: "(k, st) \<in> set (sched_sources s1)" and due: "due c (k, st)"
    by (auto simp: find_Some_iff)
  from due obtain pd where pd: "src_pending st = Some pd" by (auto simp: due_def)
  from begin_ good sel pd obtain st' where st': "start_source c k pd st = (Evaluate tk, st')" and
    s': "s' = s1\<lparr>sched_sources := AList.delete k (sched_sources s1) @ [(k, st')], sched_running := True\<rparr>"
    by (auto simp: run_begin_def split_def Let_def split: if_splits)
      (metis prod.collapse)
  have stinv: "source_inv st" "src_oid st < sched_next_oid s1" using reg1 mem by (auto simp: registry_inv_def)
  have tk: "tk_source_id tk = k" "tk_oid tk = src_oid st" "ticket_rel tk st'"
    using st' stinv pd
    by (auto simp: start_source_def Let_def ticket_rel_def source_inv_def pending_ok_def split: if_splits)
  have "registry_inv s'"
    using inv src_wf.run_begin_evolves [of s c] begin_ by (auto simp: sched_inv_def intro: registry_inv_evolves)
  moreover have "ticket_inv s' tk"
    using tk stinv(2) s' by (auto simp: ticket_inv_def AList.delete_eq)
  ultimately show ?thesis using s' by (simp add: sched_inv_def)
qed

lemma run_begin_running:
  "\<lbrakk>run_begin c s = (b, s'); \<And>tk. b \<noteq> Inr (Evaluate tk)\<rbrakk> \<Longrightarrow> sched_running s' = sched_running s"
  using read_clock_frame(1) [of c s]
  by (cases rule: read_clock_cases [of c s])
    (auto simp: run_begin_def split_def Let_def split: option.splits begun.splits if_splits)

lemma sched_inv_ops:
  assumes "sched_inv (s, t)"
  shows "sched_inv (snd (offer c f q s), t)" "sched_inv (snd (snapshot c k s), t)"
    "sched_inv (snd (sched_invalidate k r s), t)" "sched_inv (snd (restore_cadence k s), t)"
    "sched_inv (snd (acknowledge_recovery k s), t)" "sched_inv (snd (unregister k s), t)"
    "source_policy_ok p \<Longrightarrow> sched_inv (snd (register k d p s), t)"
  by (rule sched_inv_evolves [OF assms]; simp add: src_wf.op_evolves)+

lemma sched_step_inv: "sched_step c c' \<Longrightarrow> sched_inv c \<Longrightarrow> sched_inv c'"
proof (induction rule: sched_step.induct)
  case (step_begin c s tk s' t)
  then show ?case using sched_inv_begin by blast
next
  case (step_begin_none c s b s' t)
  then show ?case
    using sched_inv_evolves src_wf.run_begin_evolves [of s c] run_begin_running [of c s b s'] by simp
next
  case (step_finish res s tk c)
  then show ?case using sched_inv_finish by blast
next
  case (step_abort s tk)
  then show ?case
    using src_wf.leave_evaluation_evolves [of s tk]
    by (auto simp: sched_inv_def run_abort_def intro: registry_inv_evolves)
qed (simp_all add: sched_inv_ops)

lemma scheduler_init_inv: "scheduler_init n = Inr s \<Longrightarrow> sched_inv (s, None)"
  by (auto simp: scheduler_init_def sched_inv_def registry_inv_def positive_integer_def split: if_splits)

lemma sched_reachable_inv: "sched_reachable c \<Longrightarrow> sched_inv c"
  by (induction rule: sched_reachable.induct) (simp_all add: scheduler_init_inv sched_step_inv)

section \<open>The scheduler as a result sink\<close>

definition published :: "uuid \<Rightarrow> scheduler \<Rightarrow> detection option" where
  "published k s = map_option src_result (map_of (sched_sources s) k)"

definition withdrawable :: "reason \<Rightarrow> bool" where
  "withdrawable r \<longleftrightarrow> r \<noteq> R_EVALUATED \<and> r \<noteq> R_WARMUP"

definition invalidate_source :: "uuid \<Rightarrow> reason \<Rightarrow> scheduler \<Rightarrow> scheduler" where
  "invalidate_source k r s = snd (sched_invalidate k r s)"

lemma sched_invalidate_total:
  "withdrawable r \<Longrightarrow> \<exists>y. sched_invalidate k r s = (Inr y, invalidate_source k r s)"
  by (cases "map_of (sched_sources s) k")
    (simp_all add: invalidate_source_def withdrawable_def sched_invalidate_def Let_def)

interpretation sched_sink: result_sink invalidate_source published withdrawable
  by unfold_locales
    (auto simp: invalidate_source_def published_def withdrawable_def sched_invalidate_def put_source_def
      Let_def dict_simps split: option.splits)

section \<open>Properties\<close>

text \<open>
  Two helper facts about an evaluation whose source was withdrawn while it ran: nothing the other
  critical sections do can make the registered object conclude, nor bring its old epoch back.
\<close>

definition withdrawn :: "ticket \<Rightarrow> scheduler \<Rightarrow> bool" where
  "withdrawn tk s \<longleftrightarrow>
     tk_oid tk < sched_next_oid s
     \<and> (\<forall>st. (tk_source_id tk, st) \<in> set (sched_sources s) \<longrightarrow>
          observation (src_result st) = OBS_UNKNOWN
          \<and> (src_oid st = tk_oid tk \<longrightarrow> tk_epoch tk < src_epoch st))"

lemma withdrawn_evolves:
  assumes "withdrawn tk s" "sched_evolves (\<lambda>st. observation (src_result st) = OBS_UNKNOWN) s s'"
  shows "withdrawn tk s'"
proof -
  have "observation (src_result st') = OBS_UNKNOWN \<and> (src_oid st' = tk_oid tk \<longrightarrow> tk_epoch tk < src_epoch st')"
    if mem: "(tk_source_id tk, st') \<in> set (sched_sources s')" for st'
  proof -
    have "grown_from (\<lambda>st. observation (src_result st) = OBS_UNKNOWN) s (sched_next_oid s') (tk_source_id tk) st'"
      using assms(2) mem by (auto simp: sched_evolves_def)
    then show ?thesis
      using assms(1) by (fastforce simp: grown_from_def withdrawn_def source_le_def)
  qed
  with assms show ?thesis by (auto simp: withdrawn_def sched_evolves_def)
qed

inductive_cases sched_step_held: "sched_step (s, Some tk) (s', Some tk)"

lemma withdrawn_step:
  assumes "sched_step (s, Some tk) (s', Some tk)" "withdrawn tk s"
  shows "withdrawn tk s'"
proof -
  have begin_: "sched_evolves (\<lambda>st. observation (src_result st) = OBS_UNKNOWN) s s'"
    if "run_begin c s = (b, s')" for c b
    using src_quiet.run_begin_evolves [of s c] that by simp
  have "sched_evolves (\<lambda>st. observation (src_result st) = OBS_UNKNOWN) s s'"
    using assms(1) by (elim sched_step_held) (blast intro: begin_ | simp add: src_quiet.op_evolves)+
  then show ?thesis using assms(2) withdrawn_evolves by blast
qed

lemma put_withdraws_ticket:
  assumes inv: "sched_inv (s, Some tk)" and old: "map_of (sched_sources s) (tk_source_id tk) = Some st"
    and new: "src_oid st' = src_oid st" "src_epoch st < src_epoch st'" "observation (src_result st') = OBS_UNKNOWN"
  shows "withdrawn tk (put_source (tk_source_id tk) st' s)"
proof -
  have ok: "dict_ok (sched_sources s)" and tinv: "ticket_inv s tk"
    using inv by (simp_all add: sched_inv_def registry_inv_def)
  have "src_oid st = tk_oid tk \<longrightarrow> tk_epoch tk \<le> src_epoch st"
    using tinv old by (auto simp: ticket_inv_def ticket_rel_def dest: map_of_SomeD)
  moreover have "x = st'" if "(tk_source_id tk, x) \<in> set (sched_sources (put_source (tk_source_id tk) st' s))" for x
    using that ok by (auto simp: put_source_def dict_ok_update dict_simps simp flip: dict_get_iff)
  ultimately show ?thesis
    using tinv new by (fastforce simp: withdrawn_def put_source_def ticket_inv_def)
qed

lemma absent_withdrawn:
  assumes "sched_inv (s, Some tk)" "tk_source_id tk \<notin> dict_keys (sched_sources s')" "sched_next_oid s' = sched_next_oid s"
  shows "withdrawn tk s'"
  using assms by (force simp: withdrawn_def sched_inv_def ticket_inv_def)

lemma invalidate_withdraws_ticket:
  assumes inv: "sched_inv (s, Some tk)" and call: "sched_invalidate (tk_source_id tk) r s = (Inr x, s')"
  shows "withdrawn tk s'"
proof (cases "map_of (sched_sources s) (tk_source_id tk)")
  case None
  then have "s' = s" using call by (auto simp: sched_invalidate_def split: if_splits)
  then show ?thesis using absent_withdrawn [OF inv] None by (simp add: map_of_eq_None_iff)
next
  case (Some st)
  then have "s' = put_source (tk_source_id tk) (mark_unknown r (st\<lparr>src_pending := None\<rparr>)) s"
    using call by (auto simp: sched_invalidate_def Let_def split: if_splits)
  then show ?thesis using put_withdraws_ticket [OF inv Some] by simp
qed

lemma unregister_withdraws_ticket:
  assumes inv: "sched_inv (s, Some tk)" and call: "unregister (tk_source_id tk) s = (Inr (), s')"
  shows "withdrawn tk s'"
  by (rule absent_withdrawn [OF inv])
    (use call in \<open>auto simp: unregister_def Let_def AList.delete_eq split: option.splits\<close>)

text \<open>
  A clock that went backwards withdraws the results of every source in the reading itself; the rest of the
  section that took the reading cannot undo it.
\<close>

lemma regression_withdraws_ticket:
  assumes inv: "sched_inv (s, Some tk)" and c: "0 \<le> c" "c < sched_last_clock s"
  shows "withdrawn tk (snd (read_clock c s))"
proof -
  have "tk_epoch tk \<le> src_epoch st" if "(tk_source_id tk, st) \<in> set (sched_sources s)" "src_oid st = tk_oid tk" for st
    using that inv by (auto simp: sched_inv_def ticket_inv_def ticket_rel_def)
  then show ?thesis
    using inv c by (auto simp: withdrawn_def read_clock_def sched_inv_def ticket_inv_def clock_regressed_def le_imp_less_Suc)
qed

lemma clock_read_again:
  assumes "0 \<le> c"
  shows "offer c f q (snd (read_clock c s)) = offer c f q s" "snapshot c k (snd (read_clock c s)) = snapshot c k s"
    "run_begin c (snd (read_clock c s)) = run_begin c s"
proof -
  have "read_clock c (snd (read_clock c s)) = read_clock c s" using assms by (simp add: read_clock_def Let_def)
  then show "offer c f q (snd (read_clock c s)) = offer c f q s" "snapshot c k (snd (read_clock c s)) = snapshot c k s"
    "run_begin c (snd (read_clock c s)) = run_begin c s"
    by (simp_all only: offer_def snapshot_def run_begin_def)
qed

lemma regressed_section_withdraws:
  assumes inv: "sched_inv (s, Some tk)" and c: "0 \<le> c" "c < sched_last_clock s"
  shows "withdrawn tk (snd (offer c f q s))" "withdrawn tk (snd (snapshot c k s))" "withdrawn tk (snd (run_begin c s))"
proof -
  note read = regression_withdraws_ticket [OF inv c]
  show "withdrawn tk (snd (offer c f q s))"
    using withdrawn_evolves [OF read src_quiet.offer_evolves, of c f q] clock_read_again(1) [OF c(1)] by simp
  show "withdrawn tk (snd (snapshot c k s))"
    using withdrawn_evolves [OF read src_quiet.snapshot_evolves, of c k] clock_read_again(2) [OF c(1)] by simp
  show "withdrawn tk (snd (run_begin c s))"
    using withdrawn_evolves [OF read src_quiet.run_begin_evolves, of c] clock_read_again(3) [OF c(1)] by simp
qed

text \<open>
  The offers that withdraw: a frame of a new stream, a frame over the pixel budget or of insufficient
  quality, and a frame that replaces one still waiting in the mailbox.
\<close>

definition withdrawing_offer :: "gray_frame \<Rightarrow> quality \<Rightarrow> bool \<Rightarrow> source_state \<Rightarrow> bool" where
  "withdrawing_offer f q taken st \<longleftrightarrow>
     (if src_stream_id st \<noteq> Some (fr_stream_id f) then fr_stream_id f \<notin> set (src_retired st)
      else src_sequence st < fr_sequence f
        \<and> (maximum_pixels (src_policy st) < fr_width f * fr_height f \<or> q \<noteq> Q_SUFFICIENT
           \<or> taken \<and> src_pending st \<noteq> None))"

lemma offer_source_withdraws:
  assumes "offer_source now f q st = (b, st')" "withdrawing_offer f q b st"
  shows "src_oid st' = src_oid st" "src_epoch st < src_epoch st'" "observation (src_result st') = OBS_UNKNOWN"
proof -
  have le: "source_le st st'" using offer_source_le [of st now f q] assms(1) by simp
  then show "src_oid st' = src_oid st" by (simp add: source_le_def)
  have adopted: "src_epoch st < src_epoch x \<and> observation (src_result x) = OBS_UNKNOWN"
    if "x = snd (admit_frame now f q (adopt_stream now (fr_stream_id f) st))" for x
    using that by (auto simp: admit_frame_def Let_def note_drop_def adopt_stream_def)
  have "src_epoch st < src_epoch st' \<and> observation (src_result st') = OBS_UNKNOWN"
  proof (cases "src_stream_id st = Some (fr_stream_id f)")
    case True
    with assms show ?thesis
      by (auto simp: offer_source_def withdrawing_offer_def admit_frame_def Let_def split: if_splits)
  next
    case False
    with assms show ?thesis using adopted by (auto simp: offer_source_def withdrawing_offer_def split: if_splits)
  qed
  then show "src_epoch st < src_epoch st'" "observation (src_result st') = OBS_UNKNOWN" by simp_all
qed

lemma offer_withdraws_ticket:
  assumes inv: "sched_inv (s, Some tk)" and call: "offer c f q s = (Inr b, s')" and f: "fr_source_id f = tk_source_id tk"
    and st: "map_of (sched_sources s) (tk_source_id tk) = Some st" "withdrawing_offer f q b st"
  shows "withdrawn tk s'"
proof (cases "0 \<le> c \<and> c < sched_last_clock s")
  case True
  then show ?thesis using regressed_section_withdraws(1) [OF inv, of c f q] call by simp
next
  case False
  obtain st' where st': "offer_source c f q st = (b, st')" and s': "s' = put_source (tk_source_id tk) st' (snd (read_clock c s))"
    using False call f st(1) by (auto simp: offer_def read_clock_def Let_def split: if_splits prod.splits)
  have "sched_inv (snd (read_clock c s), Some tk)"
    using sched_inv_evolves [OF inv src_wf.read_clock_evolves] by simp
  moreover have "map_of (sched_sources (snd (read_clock c s))) (tk_source_id tk) = Some st"
    using False st(1) by (simp add: read_clock_def Let_def)
  ultimately show ?thesis unfolding s' using offer_source_withdraws [OF st' st(2)] by (rule put_withdraws_ticket)
qed

text \<open>
  The critical sections that withdraw a source's result while it is being evaluated: an invalidation, an
  unregistration, one of the offers above, and any section whose clock reading went backwards.
\<close>

inductive withdraws :: "uuid \<Rightarrow> scheduler \<Rightarrow> scheduler \<Rightarrow> bool" for k where
  by_invalidate: "sched_invalidate k r s = (Inr x, s') \<Longrightarrow> withdraws k s s'"
| by_unregister: "unregister k s = (Inr (), s') \<Longrightarrow> withdraws k s s'"
| by_offer: "\<lbrakk>offer c f q s = (Inr b, s'); fr_source_id f = k; map_of (sched_sources s) k = Some st;
     withdrawing_offer f q b st\<rbrakk> \<Longrightarrow> withdraws k s s'"
| by_clock_offer: "\<lbrakk>0 \<le> c; c < sched_last_clock s; s' = snd (offer c f q s)\<rbrakk> \<Longrightarrow> withdraws k s s'"
| by_clock_snapshot: "\<lbrakk>0 \<le> c; c < sched_last_clock s; s' = snd (snapshot c k' s)\<rbrakk> \<Longrightarrow> withdraws k s s'"
| by_clock_run: "\<lbrakk>0 \<le> c; c < sched_last_clock s; s' = snd (run_begin c s)\<rbrakk> \<Longrightarrow> withdraws k s s'"

lemma withdraws_ticket:
  assumes "withdraws (tk_source_id tk) s s'" "sched_inv (s, Some tk)"
  shows "withdrawn tk s'"
  using assms
  by cases (blast intro: invalidate_withdraws_ticket unregister_withdraws_ticket offer_withdraws_ticket
      regressed_section_withdraws | simp add: regressed_section_withdraws)+

lemma finish_withdrawn:
  assumes "withdrawn tk s" "map_of (sched_sources (snd (run_finish c tk res s))) (tk_source_id tk) = Some st"
  shows "observation (src_result st) = OBS_UNKNOWN"
proof (cases rule: src_quiet.run_finish_cases [of c tk res s])
  case (bad s1)
  then have "withdrawn tk s1" using assms(1) withdrawn_evolves by blast
  with bad(1) assms(2) show ?thesis by (auto simp: withdrawn_def dest: map_of_SomeD)
next
  case (detached s1 x)
  then have "withdrawn tk s1" using assms(1) withdrawn_evolves by blast
  with detached(1) assms(2) show ?thesis by (auto simp: withdrawn_def dest: map_of_SomeD)
next
  case (held s1 st0)
  then have "withdrawn tk s1" using assms(1) withdrawn_evolves by blast
  then have "observation (src_result st0) = OBS_UNKNOWN" "src_epoch st0 \<noteq> tk_epoch tk"
    using held(4,5) by (auto simp: withdrawn_def dest!: map_of_SomeD)
  with held(1) assms(2) show ?thesis
    by (auto simp: put_source_def dict_simps publish_def)
qed

lemma sched_reachable_run:
  assumes "(\<lambda>a b. sched_step (a, Some tk) (b, Some tk))\<^sup>*\<^sup>* s s'" "withdrawn tk s"
  shows "withdrawn tk s'"
  using assms by (induction rule: rtranclp_induct) (auto intro: withdrawn_step)

text \<open>A concrete run used by the witnesses below: one source, one queued frame, one evaluation begun.\<close>

definition ex_policy :: source_policy where
  "ex_policy = \<lparr>cadence_ns = 10, maximum_cadence_ns = 40, maximum_queue_age_ns = 100,
     maximum_evaluation_ns = 50, maximum_observation_age_ns = 200, maximum_pixels = 16\<rparr>"

definition ex_detector :: detector where
  "ex_detector = \<lparr>dt_identity = 7, dt_kind = KIND_PERSON, dt_implementation = ''d'', dt_version = ''1''\<rparr>"

definition ex_frame :: gray_frame where
  "ex_frame = \<lparr>fr_source_id = 1, fr_stream_id = 2, fr_sequence = 0, fr_width = 2, fr_height = 1,
     fr_pixels = [3, 4], fr_channels = 1\<rparr>"

definition ex_idle :: scheduler where
  "ex_idle = \<lparr>sched_maximum_sources = 4, sched_sources = [], sched_detached = [], sched_next_oid = 0,
     sched_running = False, sched_last_clock = -1\<rparr>"

definition ex_queued :: scheduler where
  "ex_queued = snd (offer 5 ex_frame Q_SUFFICIENT (snd (register 1 ex_detector ex_policy ex_idle)))"

definition ex_running :: scheduler where
  "ex_running = snd (run_begin 6 ex_queued)"

definition ex_ticket :: ticket where
  "ex_ticket = \<lparr>tk_source_id = 1, tk_oid = 0, tk_epoch = 1, tk_started = 6,
     tk_pending = \<lparr>pd_frame = ex_frame, pd_quality = Q_SUFFICIENT, pd_received_ns = 5\<rparr>,
     tk_needs_reset = True\<rparr>"

lemmas ex_defs = ex_policy_def ex_detector_def ex_frame_def ex_idle_def

lemma ex_queued_reachable: "sched_reachable (ex_queued, None)"
proof -
  have "sched_reachable (ex_idle, None)"
    by (rule reach_init [of 4]) (simp add: scheduler_init_def positive_integer_def ex_idle_def)
  then have "sched_reachable (snd (register 1 ex_detector ex_policy ex_idle), None)"
    by (rule reach_step) (rule step_register, simp add: ex_policy_def source_policy_ok_def positive_integer_def)
  then show ?thesis
    unfolding ex_queued_def
    by (rule reach_step) (rule step_offer, simp add: gray_frame_ok_def positive_integer_def ex_frame_def)
qed

lemma ex_running_eq: "run_begin 6 ex_queued = (Inr (Evaluate ex_ticket), ex_running)"
  unfolding ex_running_def ex_queued_def ex_ticket_def ex_defs by code_simp

lemma ex_running_reachable: "sched_reachable (ex_running, Some ex_ticket)"
  using ex_queued_reachable step_begin [OF ex_running_eq] by (rule reach_step)

text \<open>
  In every configuration the scheduler can reach, under any interleaving of its critical sections
  with the worker: at most four sources are registered, each source's cadence stays between the
  configured cadence and its explicit ceiling, and a frame waiting in a mailbox has sufficient quality,
  belongs to the source's current stream and fits the pixel budget.
\<close>

theorem inference_mailbox_bounded:
  assumes "sched_reachable (s, t)" "map_of (sched_sources s) k = Some st"
  shows "length (sched_sources s) \<le> 4
    \<and> cadence_ns (src_policy st) \<le> src_cadence_ns st
    \<and> src_cadence_ns st \<le> maximum_cadence_ns (src_policy st)
    \<and> (\<forall>pd. src_pending st = Some pd \<longrightarrow>
          pd_quality pd = Q_SUFFICIENT
          \<and> src_stream_id st = Some (fr_stream_id (pd_frame pd))
          \<and> fr_width (pd_frame pd) * fr_height (pd_frame pd) \<le> maximum_pixels (src_policy st))"
proof -
  have inv: "registry_inv s" using sched_reachable_inv [OF assms(1)] by (simp add: sched_inv_def)
  with assms(2) have "source_inv st" by (auto simp: registry_inv_def dest: map_of_SomeD)
  with inv show ?thesis by (auto simp: registry_inv_def source_inv_def pending_ok_def)
qed

theorem inference_mailbox_bounded_witness:
  "\<exists>st pd. map_of (sched_sources ex_queued) 1 = Some st \<and> src_pending st = Some pd
     \<and> pd_quality pd = Q_SUFFICIENT \<and> src_cadence_ns st \<le> 40 \<and> src_stream_id st = Some 2"
proof -
  have "\<exists>st pd. map_of (sched_sources ex_queued) 1 = Some st \<and> src_pending st = Some pd
      \<and> pd_frame pd = ex_frame \<and> src_policy st = ex_policy"
    unfolding ex_queued_def by (simp add: offer_def register_def read_clock_def offer_source_def
        admit_frame_def adopt_stream_def new_source_def mark_unknown_def put_source_def ex_defs)
  then obtain st pd where st: "map_of (sched_sources ex_queued) 1 = Some st" "src_pending st = Some pd"
    "pd_frame pd = ex_frame" "src_policy st = ex_policy" by blast
  with inference_mailbox_bounded [OF ex_queued_reachable st(1)] show ?thesis
    by (auto simp: ex_frame_def ex_policy_def)
qed

text \<open>
  C6. Withdrawal beats a running evaluation. If, while the worker evaluates a frame for a source, the
  source's result is withdrawn - by \<open>invalidate\<close>, by \<open>unregister\<close>, by the offer of a frame of a new stream, of an
  oversized or poor frame or of one that drops a waiting frame, or by a clock reading that went backwards -
  then whatever other critical sections run until the worker returns, and whatever the detector answers, the
  source publishes no conclusion: its result is still unknown.
\<close>

theorem invalidated_evaluation_not_published:
  assumes "sched_reachable (s, Some tk)"
    and "withdraws (tk_source_id tk) s s1"
    and "(\<lambda>a b. sched_step (a, Some tk) (b, Some tk))\<^sup>*\<^sup>* s1 s2"
    and "map_of (sched_sources (snd (run_finish c tk res s2))) (tk_source_id tk) = Some st"
  shows "observation (src_result st) = OBS_UNKNOWN"
proof -
  have "withdrawn tk s1" using assms(2) sched_reachable_inv [OF assms(1)] by (rule withdraws_ticket)
  then have "withdrawn tk s2" using assms(3) sched_reachable_run by blast
  then show ?thesis using assms(4) by (rule finish_withdrawn)
qed

definition ex_restarted :: scheduler where
  "ex_restarted = snd (offer 7 (ex_frame\<lparr>fr_stream_id := 3\<rparr>) Q_SUFFICIENT ex_running)"

lemma ex_restarted_withdraws: "withdraws 1 ex_running ex_restarted"
proof -
  have "map_option (\<lambda>st. (src_stream_id st, src_retired st)) (map_of (sched_sources ex_running) 1) = Some (Some 2, [])"
    unfolding ex_running_def ex_queued_def ex_defs by code_simp
  then obtain st where "map_of (sched_sources ex_running) 1 = Some st"
    "withdrawing_offer (ex_frame\<lparr>fr_stream_id := 3\<rparr>) Q_SUFFICIENT True st"
    by (auto simp: withdrawing_offer_def)
  moreover have "offer 7 (ex_frame\<lparr>fr_stream_id := 3\<rparr>) Q_SUFFICIENT ex_running = (Inr True, ex_restarted)"
    unfolding ex_restarted_def ex_running_def ex_queued_def ex_defs by code_simp
  ultimately show ?thesis by (intro by_offer) (simp_all add: ex_frame_def)
qed

theorem invalidated_evaluation_not_published_witness:
  "\<exists>st. map_of (sched_sources (snd (run_finish 9 ex_ticket (Some (Detection OBS_PRESENT R_EVALUATED)) ex_restarted))) 1
        = Some st
      \<and> observation (src_result st) = OBS_UNKNOWN"
proof -
  have withdraws: "withdraws (tk_source_id ex_ticket) ex_running ex_restarted"
    using ex_restarted_withdraws by (simp add: ex_ticket_def)
  have "map_of (sched_sources (snd (run_finish 9 ex_ticket (Some (Detection OBS_PRESENT R_EVALUATED)) ex_restarted)))
      (tk_source_id ex_ticket) \<noteq> None"
    unfolding ex_restarted_def ex_running_def ex_queued_def ex_ticket_def ex_defs by code_simp
  then obtain st where "map_of (sched_sources (snd (run_finish 9 ex_ticket
      (Some (Detection OBS_PRESENT R_EVALUATED)) ex_restarted))) (tk_source_id ex_ticket) = Some st" by blast
  with invalidated_evaluation_not_published [OF ex_running_reachable withdraws rtranclp.rtrancl_refl, of 9]
  show ?thesis by (auto simp: ex_ticket_def)
qed

text \<open>
  A conclusion in a snapshot is never older than the policy's maximum observation age at the time
  of the reading, names the frame and the reception time it came from, and is not reported as
  unavailable.
\<close>

theorem snapshot_conclusion_fresh:
  assumes "sched_reachable (s, t)" "snapshot c k s = (Inr sn, s')" "observation (sn_result sn) \<noteq> OBS_UNKNOWN"
  shows "\<exists>st n r. map_of (sched_sources s') k = Some st \<and> sn_sequence sn = Some n
    \<and> sn_received_at_ns sn = Some r \<and> c - r \<le> maximum_observation_age_ns (src_policy st)
    \<and> n \<le> src_sequence st \<and> sn_health sn \<noteq> HEALTH_UNAVAILABLE"
proof (cases rule: read_clock_cases [of c s])
  case bad
  then show ?thesis using assms(2) by (simp add: snapshot_def)
next
  case (good s1)
  with assms(2) obtain st where st: "map_of (sched_sources s1) k = Some st"
      "sn = snapshot_of k (expire_result c st)" "s' = put_source k (expire_result c st) s1"
    by (auto simp: snapshot_def Let_def split: option.splits)
  have "registry_inv s1"
    using sched_reachable_inv [OF assms(1)] src_wf.read_clock_evolves [of s c] good
    by (auto simp: sched_inv_def intro: registry_inv_evolves)
  then have "source_inv (expire_result c st)"
    using st(1) by (auto simp: registry_inv_def intro!: source_inv_expire dest!: map_of_SomeD)
  moreover have res: "observation (src_result (expire_result c st)) \<noteq> OBS_UNKNOWN"
    using assms(3) st(2) by (simp add: snapshot_of_def Let_def)
  moreover have "\<forall>r. src_result_ns (expire_result c st) = Some r \<longrightarrow>
      c - r \<le> maximum_observation_age_ns (src_policy (expire_result c st))"
    by (auto simp: expire_result_def split: option.splits)
  ultimately show ?thesis
    using st(2,3)
    by (fastforce simp: source_inv_defs snapshot_of_def Let_def put_source_def dict_simps)
qed

definition ex_published :: scheduler where
  "ex_published = snd (run_finish 9 ex_ticket (Some (Detection OBS_ABSENT R_EVALUATED)) ex_running)"

theorem snapshot_conclusion_fresh_witness:
  "\<exists>sn s' st r. snapshot 12 1 ex_published = (Inr sn, s') \<and> observation (sn_result sn) = OBS_ABSENT
     \<and> map_of (sched_sources s') 1 = Some st \<and> sn_received_at_ns sn = Some r
     \<and> 12 - r \<le> maximum_observation_age_ns (src_policy st)"
proof -
  have reach: "sched_reachable (ex_published, None)"
    unfolding ex_published_def using ex_running_reachable
    by (rule reach_step) (rule step_finish, simp add: detection_ok_def)
  have "\<exists>sn s'. snapshot 12 1 ex_published = (Inr sn, s')"
    "map_sum id (\<lambda>sn. observation (sn_result sn)) (fst (snapshot 12 1 ex_published)) = Inr OBS_ABSENT"
    unfolding ex_published_def ex_running_def ex_queued_def ex_ticket_def ex_defs
    by (simp_all add: snapshot_def run_finish_def run_begin_def offer_def register_def read_clock_def
        offer_source_def admit_frame_def adopt_stream_def new_source_def mark_unknown_def put_source_def
        due_def start_source_def leave_evaluation_def ticket_object_def holds_object_def put_object_def
        publish_def expire_result_def snapshot_of_def Let_def)
  then obtain sn s' where sn: "snapshot 12 1 ex_published = (Inr sn, s')"
    "observation (sn_result sn) = OBS_ABSENT" by auto
  with snapshot_conclusion_fresh [OF reach sn(1)] show ?thesis by auto
qed

lemma find_append_Some: "find P xs = Some e \<Longrightarrow> find P (xs @ ys) = Some e"
  by (induction xs) auto

lemma find_append_None: "find P xs = None \<Longrightarrow> find P (xs @ ys) = find P ys"
  by (induction xs) auto

lemma delete_middle: "dict_ok (xs @ (k, v) # ys) \<Longrightarrow> AList.delete k (xs @ (k, v) # ys) = xs @ ys"
  by (auto simp: AList.delete_eq filter_id_conv rev_image_eqI intro!: arg_cong2 [where f = append])

lemma run_begin_selects:
  assumes "0 \<le> c" "sched_last_clock s \<le> c" "\<not> sched_running s"
    and "find (due c) (sched_sources s) = Some (k, st)" "src_pending st = Some pd"
  shows "\<exists>b st' s'. run_begin c s = (Inr b, s') \<and> start_source c k pd st = (b, st')
    \<and> sched_sources s' = AList.delete k (sched_sources s) @ [(k, st')]"
  using assms by (cases "start_source c k pd st") (simp add: run_begin_def read_clock_def)

text \<open>
  C35. Round robin. When the worker is idle and a source's frame is due, the next worker call serves some
  source; either it is this one, which moves to the end of the order with its mailbox emptied, or this
  source stays untouched and strictly fewer sources stand before it. A due source is therefore reached
  after at most as many other services as there are sources before it, never starved.
\<close>

theorem run_one_round_robin:
  assumes "0 \<le> c" "sched_last_clock s \<le> c" "\<not> sched_running s" "dict_ok (sched_sources s)"
    and "sched_sources s = pre @ (k, st) # post" "due c (k, st)"
  shows "\<exists>b s'. run_begin c s = (Inr b, s') \<and> b \<noteq> Nothing_To_Run
    \<and> ((\<exists>st'. last (sched_sources s') = (k, st') \<and> src_pending st' = None)
       \<or> (\<exists>pre' post'. sched_sources s' = pre' @ (k, st) # post' \<and> length pre' < length pre))"
proof (cases "find (due c) pre")
  case None
  then have sel: "find (due c) (sched_sources s) = Some (k, st)"
    using assms(5,6) by (simp add: find_append_None)
  obtain pd where pd: "src_pending st = Some pd" using assms(6) by (auto simp: due_def)
  have "b \<noteq> Nothing_To_Run \<and> src_pending st' = None" if "start_source c k pd st = (b, st')" for b st'
    using that by (auto simp: start_source_def Let_def split: if_splits)
  with run_begin_selects [OF assms(1-3) sel pd] show ?thesis by fastforce
next
  case (Some e)
  obtain k' st0 where e: "e = (k', st0)" by fastforce
  from Some obtain p1 p2 where pre: "pre = p1 @ e # p2"
    by (metis find_Some_iff in_set_conv_decomp nth_mem)
  have sel: "find (due c) (sched_sources s) = Some (k', st0)"
    using Some e assms(5) by (simp add: find_append_Some)
  from Some e have "due c (k', st0)" by (auto simp: find_Some_iff)
  then obtain pd where pd: "src_pending st0 = Some pd" by (auto simp: due_def)
  have del: "AList.delete k' (sched_sources s) = (p1 @ p2) @ (k, st) # post"
    using delete_middle [of p1 k' st0 "p2 @ (k, st) # post"] assms(4,5) pre e by simp
  have "b \<noteq> Nothing_To_Run" if "start_source c k' pd st0 = (b, st')" for b st'
    using that by (auto simp: start_source_def Let_def split: if_splits)
  moreover obtain b st' s' where run: "start_source c k' pd st0 = (b, st')" "run_begin c s = (Inr b, s')"
    "sched_sources s' = AList.delete k' (sched_sources s) @ [(k', st')]"
    using run_begin_selects [OF assms(1-3) sel pd] by blast
  moreover have "sched_sources s' = (p1 @ p2) @ (k, st) # (post @ [(k', st')])" using run(3) del by simp
  moreover have "length (p1 @ p2) < length pre" using pre by simp
  ultimately show ?thesis by blast
qed

theorem run_one_round_robin_witness:
  "\<exists>b s' st'. run_begin 6 ex_queued = (Inr b, s') \<and> b \<noteq> Nothing_To_Run \<and> last (sched_sources s') = (1, st')"
proof -
  have "\<exists>st. sched_sources ex_queued = [] @ (1, st) # [] \<and> due 6 (1, st)" "sched_last_clock ex_queued = 5"
    "\<not> sched_running ex_queued"
    unfolding ex_queued_def ex_defs
    by (simp_all add: offer_def register_def read_clock_def offer_source_def admit_frame_def
        adopt_stream_def new_source_def mark_unknown_def put_source_def due_def)
  then obtain st where st: "sched_sources ex_queued = [] @ (1, st) # []" "due 6 (1, st)"
    "sched_last_clock ex_queued \<le> 6" "\<not> sched_running ex_queued" by auto
  show ?thesis using run_one_round_robin [OF _ st(3,4) _ st(1,2)] st(1) by fastforce
qed

end
