(* ===== verification/Quality_Gate.thy ===== *)
theory Quality_Gate
  imports Inference_Scheduler
begin

text \<open>
  Frame-quality gating: \<^verbatim>\<open>server/app/detection/quality/contracts.py\<close>, \<^verbatim>\<open>metrics.py\<close> and \<^verbatim>\<open>gate.py\<close>.

  Measurements are computed in exact rational arithmetic where Python rounds to \<open>float\<close>. The gate's
  \<open>ResultSink\<close> is a parameter \<open>results\<close> of the operations that revoke a result, together with the
  sink's own state; the scheduler's \<open>invalidate\<close> is such a sink. Python compares decisions by identity
  (\<open>decision is not latest\<close>), so each decision carries the number of the gate and a running number.
\<close>

datatype metric =
    M_LUMINANCE | M_SHARPNESS | M_SATURATION | M_WIDTH | M_HEIGHT | M_TARGET_WIDTH
  | M_TARGET_HEIGHT | M_OCCLUSION | M_CONFIDENCE

datatype execution = X_READY | X_SUCCEEDED | X_SKIPPED | X_STOPPED | X_FAILED | X_UNAVAILABLE

datatype quality_error = Quality_ValueError

definition unavailable_reason :: "execution \<Rightarrow> quality_error + reason" where
  "unavailable_reason execution =
     (case execution of
        X_READY \<Rightarrow> Inl Quality_ValueError
      | X_SUCCEEDED \<Rightarrow> Inl Quality_ValueError
      | X_SKIPPED \<Rightarrow> Inr R_NOT_STARTED
      | X_STOPPED \<Rightarrow> Inr R_NOT_STARTED
      | X_UNAVAILABLE \<Rightarrow> Inr R_NOT_STARTED
      | X_FAILED \<Rightarrow> Inr R_FAILURE)"

datatype quality_reason =
    QR_BELOW_SUFFICIENT | QR_ABOVE_SUFFICIENT | QR_BELOW_USABLE | QR_ABOVE_USABLE
  | QR_METRIC_UNAVAILABLE | QR_MEASUREMENT_FAILED | QR_CONTEXT_MISMATCH | QR_SOURCE_MISMATCH
  | QR_RESOURCE_LIMIT | QR_EXECUTION_UNAVAILABLE | QR_DISCONTINUITY | QR_RECOVERING

record metric_rule =
  mr_metric :: metric
  minimum_usable :: rat
  minimum_sufficient :: rat
  maximum_sufficient :: rat
  maximum_usable :: rat

definition metric_rule_ok :: "metric_rule \<Rightarrow> bool" where
  "metric_rule_ok r \<longleftrightarrow>
     minimum_usable r \<le> minimum_sufficient r \<and> minimum_sufficient r \<le> maximum_sufficient r
     \<and> maximum_sufficient r \<le> maximum_usable r
     \<and> (let upper = (if mr_metric r \<in> {M_LUMINANCE, M_SHARPNESS, M_SATURATION, M_OCCLUSION, M_CONFIDENCE}
                     then 1 else 2 ^ 31 - 1)
        in 0 \<le> minimum_usable r \<and> minimum_usable r \<le> maximum_usable r \<and> maximum_usable r \<le> upper)"

record quality_policy =
  qp_detector :: string
  qp_version :: int
  qp_rules :: "metric_rule list"
  recovery_frames :: int
  qp_maximum_pixels :: int

definition quality_policy_ok :: "quality_policy \<Rightarrow> bool" where
  "quality_policy_ok p \<longleftrightarrow>
     qp_detector p \<in> {''motion'', ''person'', ''server_roi'', ''camera_tamper'', ''entrance_crossing'',
                      ''owner_verification'', ''image_quality'', ''presence''}
     \<and> \<not> qp_version p \<le> 0
     \<and> 2 \<le> recovery_frames p \<and> recovery_frames p \<le> 2 ^ 31 - 1
     \<and> 1 \<le> qp_maximum_pixels p \<and> qp_maximum_pixels p \<le> 2 ^ 31 - 1
     \<and> qp_rules p \<noteq> [] \<and> length (qp_rules p) \<le> 9 \<and> list_all metric_rule_ok (qp_rules p)
     \<and> distinct (map mr_metric (qp_rules p))"

record frame_identity =
  fi_source_id :: uuid
  fi_stream_id :: uuid
  fi_sequence :: int

definition identity_from_frame :: "gray_frame \<Rightarrow> frame_identity" where
  "identity_from_frame f =
     \<lparr>fi_source_id = fr_source_id f, fi_stream_id = fr_stream_id f, fi_sequence = fr_sequence f\<rparr>"

record quality_context =
  qc_frame :: frame_identity
  target_width :: "rat option"
  target_height :: "rat option"
  occlusion_fraction :: "rat option"
  detector_confidence :: "rat option"

definition quality_context_ok :: "quality_context \<Rightarrow> bool" where
  "quality_context_ok c \<longleftrightarrow>
     list_all (\<lambda>v. case v of None \<Rightarrow> True | Some x \<Rightarrow> 0 < x \<and> x \<le> 2 ^ 31 - 1)
       [target_width c, target_height c]
     \<and> list_all (\<lambda>v. case v of None \<Rightarrow> True | Some x \<Rightarrow> 0 \<le> x \<and> x \<le> 1)
         [occlusion_fraction c, detector_confidence c]"

record quality_finding =
  qf_reason :: quality_reason
  qf_metric :: "metric option"

record quality_decision =
  qd_identity :: "nat \<times> nat"
  qd_frame :: frame_identity
  qd_detector :: string
  qd_policy_version :: int
  qd_quality :: quality
  qd_metrics :: "(metric \<times> rat option) list"
  qd_findings :: "quality_finding list"
  qd_recovery_count :: int

definition allows_conclusion :: "quality_decision \<Rightarrow> bool" where
  "allows_conclusion d \<longleftrightarrow> qd_quality d = Q_SUFFICIENT"

section \<open>Measurements\<close>

text \<open>
  \<open>Measure_Exception\<close> is any other exception the pixel access can raise (\<open>IndexError\<close>, or \<open>ValueError\<close>
  from unpacking a short slice).
\<close>

datatype measure_error = MeasurementUnavailable quality_reason | Measure_Exception

definition obstruction_fraction :: "nat list \<Rightarrow> int \<Rightarrow> quality_error + rat" where
  "obstruction_fraction msk pixel_limit =
     (if pixel_limit \<le> 0 \<or> msk = [] \<or> int (length msk) > pixel_limit
         \<or> list_ex (\<lambda>v. v \<noteq> 0 \<and> v \<noteq> 1) msk
      then Inl Quality_ValueError
      else Inr (of_nat (sum_list msk) / of_nat (length msk)))"

text \<open>One pixel's normalized luminance and whether one of its channels is clipped.\<close>

definition pixel_luminance :: "gray_frame \<Rightarrow> nat \<Rightarrow> nat \<Rightarrow> measure_error + (rat \<times> bool)" where
  "pixel_luminance f y x =
     (let offset = (y * nat (fr_width f) + x) * nat (fr_channels f) in
      if fr_channels f = 1 then
        (if offset < length (fr_pixels f)
         then let pixel = fr_pixels f ! offset in Inr (of_nat pixel / 255, pixel = 255)
         else Inl Measure_Exception)
      else if fr_channels f = 3 then
        (case take 3 (drop offset (fr_pixels f)) of
           [red, green, blue] \<Rightarrow>
             Inr ((2126 / 10000 * of_nat red + 7152 / 10000 * of_nat green + 722 / 10000 * of_nat blue) / 255,
                  255 \<in> {red, green, blue})
         | _ \<Rightarrow> Inl Measure_Exception)
      else Inl (MeasurementUnavailable QR_METRIC_UNAVAILABLE))"

record measure_state =
  ms_previous :: "rat list"
  ms_left :: rat
  ms_total :: rat
  ms_differences :: rat
  ms_clipped :: nat
  ms_edges :: nat

definition measure_pixel :: "gray_frame \<Rightarrow> nat \<Rightarrow> nat \<Rightarrow> measure_state \<Rightarrow> measure_error + measure_state" where
  "measure_pixel f y x m =
     (case pixel_luminance f y x of
        Inl e \<Rightarrow> Inl e
      | Inr (luminance, clip) \<Rightarrow>
          let m1 = m\<lparr>ms_clipped := ms_clipped m + (if clip then 1 else 0), ms_total := ms_total m + luminance\<rparr>;
              m2 = (if x \<noteq> 0
                    then m1\<lparr>ms_differences := ms_differences m1 + (luminance - ms_left m1) ^ 2,
                            ms_edges := ms_edges m1 + 1\<rparr>
                    else m1);
              m3 = (if y \<noteq> 0
                    then m2\<lparr>ms_differences := ms_differences m2 + (luminance - ms_previous m2 ! x) ^ 2,
                            ms_edges := ms_edges m2 + 1\<rparr>
                    else m2)
          in Inr (m3\<lparr>ms_previous := (ms_previous m3)[x := luminance], ms_left := luminance\<rparr>))"

definition measure_row :: "gray_frame \<Rightarrow> nat \<Rightarrow> measure_state \<Rightarrow> measure_error + measure_state" where
  "measure_row f y m = fold_err (measure_pixel f y) [0..<nat (fr_width f)] (m\<lparr>ms_left := 0\<rparr>)"

definition measure_start :: "gray_frame \<Rightarrow> measure_state" where
  "measure_start f =
     \<lparr>ms_previous = replicate (nat (fr_width f)) 0, ms_left = 0, ms_total = 0, ms_differences = 0,
      ms_clipped = 0, ms_edges = 0\<rparr>"

definition measure_frame :: "gray_frame \<Rightarrow> int \<Rightarrow> quality_context option
    \<Rightarrow> measure_error + (metric \<times> rat option) list" where
  "measure_frame f pixel_limit context =
     (let count = fr_width f * fr_height f in
      if (case context of None \<Rightarrow> False | Some c \<Rightarrow> qc_frame c \<noteq> identity_from_frame f)
        then Inl (MeasurementUnavailable QR_CONTEXT_MISMATCH)
      else if pixel_limit \<le> 0 \<or> count > pixel_limit
        then Inl (MeasurementUnavailable QR_RESOURCE_LIMIT)
      else if (case context of
                 None \<Rightarrow> False
               | Some c \<Rightarrow>
                   (case target_width c of None \<Rightarrow> False | Some w \<Rightarrow> w > of_int (fr_width f))
                   \<or> (case target_height c of None \<Rightarrow> False | Some h \<Rightarrow> h > of_int (fr_height f)))
        then Inl (MeasurementUnavailable QR_METRIC_UNAVAILABLE)
      else case fold_err (measure_row f) [0..<nat (fr_height f)] (measure_start f) of
             Inl e \<Rightarrow> Inl e
           | Inr m \<Rightarrow>
               Inr [(M_WIDTH, Some (of_int (fr_width f))),
                    (M_HEIGHT, Some (of_int (fr_height f))),
                    (M_LUMINANCE, Some (min 1 (max 0 (ms_total m / of_int count)))),
                    (M_SHARPNESS, if ms_edges m \<noteq> 0
                                  then Some (min 1 (max 0 (ms_differences m / of_nat (ms_edges m))))
                                  else None),
                    (M_SATURATION, Some (of_nat (ms_clipped m) / of_int count)),
                    (M_TARGET_WIDTH, Option.bind context target_width),
                    (M_TARGET_HEIGHT, Option.bind context target_height),
                    (M_OCCLUSION, Option.bind context occlusion_fraction),
                    (M_CONFIDENCE, Option.bind context detector_confidence)])"

section \<open>The gate\<close>

record quality_gate =
  gate_number :: nat
  gate_source_id :: uuid
  gate_policy :: quality_policy
  gate_stream :: "uuid option"
  gate_sequence :: int
  gate_shape :: "(int \<times> int \<times> int) option"
  gate_good :: int
  gate_latest :: "quality_decision option"
  gate_decisions :: nat

definition quality_gate_init :: "nat \<Rightarrow> uuid \<Rightarrow> quality_policy \<Rightarrow> quality_gate" where
  "quality_gate_init n source_id p =
     \<lparr>gate_number = n, gate_source_id = source_id, gate_policy = p, gate_stream = None,
      gate_sequence = -1, gate_shape = None, gate_good = 0, gate_latest = None, gate_decisions = 0\<rparr>"

definition gate_decision :: "gray_frame \<Rightarrow> quality \<Rightarrow> quality_finding list
    \<Rightarrow> (metric \<times> rat option) list \<Rightarrow> quality_gate \<Rightarrow> quality_decision \<times> quality_gate" where
  "gate_decision f q findings metrics g =
     (\<lparr>qd_identity = (gate_number g, gate_decisions g), qd_frame = identity_from_frame f,
       qd_detector = qp_detector (gate_policy g), qd_policy_version = qp_version (gate_policy g),
       qd_quality = q, qd_metrics = metrics, qd_findings = findings,
       qd_recovery_count = gate_good g\<rparr>,
      g\<lparr>gate_decisions := Suc (gate_decisions g)\<rparr>)"

text \<open>
  One iteration of the loop over the policy's rules. \<open>measure\<close> returns all nine metrics, so the
  dictionary look-up never fails; a missing value is unavailable evidence.
\<close>

definition metric_value :: "(metric \<times> rat option) list \<Rightarrow> metric \<Rightarrow> rat option" where
  "metric_value metrics m = (case map_of metrics m of None \<Rightarrow> None | Some v \<Rightarrow> v)"

definition judge_rule :: "(metric \<times> rat option) list \<Rightarrow> metric_rule
    \<Rightarrow> quality \<times> quality_finding list \<Rightarrow> quality \<times> quality_finding list" where
  "judge_rule values rule acc =
     (let q = fst acc; fs = snd acc;
          finding = (\<lambda>r. fs @ [\<lparr>qf_reason = r, qf_metric = Some (mr_metric rule)\<rparr>]) in
      case metric_value values (mr_metric rule) of
        None \<Rightarrow> (Q_UNKNOWN, finding QR_METRIC_UNAVAILABLE)
      | Some value \<Rightarrow>
          if value < minimum_usable rule \<or> value > maximum_usable rule then
            (if q \<noteq> Q_UNKNOWN then Q_INSUFFICIENT else q,
             finding (if value < minimum_usable rule then QR_BELOW_USABLE else QR_ABOVE_USABLE))
          else if value < minimum_sufficient rule \<or> value > maximum_sufficient rule then
            (if q = Q_SUFFICIENT then Q_DEGRADED else q,
             finding (if value < minimum_sufficient rule then QR_BELOW_SUFFICIENT
                      else QR_ABOVE_SUFFICIENT))
          else acc)"

definition assess_rejected :: "gray_frame \<Rightarrow> quality_reason \<Rightarrow> quality_gate
    \<Rightarrow> quality_decision \<times> quality_gate" where
  "assess_rejected f r g =
     gate_decision f Q_UNKNOWN [\<lparr>qf_reason = r, qf_metric = None\<rparr>] [] (g\<lparr>gate_good := 0\<rparr>)"

definition assess_metrics :: "gray_frame \<Rightarrow> (metric \<times> rat option) list \<Rightarrow> quality_gate
    \<Rightarrow> quality_decision \<times> quality_gate" where
  "assess_metrics f metrics g =
     (let (q, findings) = fold (judge_rule metrics) (qp_rules (gate_policy g)) (Q_SUFFICIENT, []) in
      if q = Q_SUFFICIENT then
        let g1 = g\<lparr>gate_good := min (gate_good g + 1) (recovery_frames (gate_policy g))\<rparr> in
        if gate_good g1 < recovery_frames (gate_policy g1)
        then gate_decision f Q_DEGRADED
               (findings @ [\<lparr>qf_reason = QR_RECOVERING, qf_metric = None\<rparr>]) metrics g1
        else gate_decision f Q_SUFFICIENT findings metrics g1
      else gate_decision f q findings metrics (g\<lparr>gate_good := 0\<rparr>))"

definition frame_shape :: "gray_frame \<Rightarrow> int \<times> int \<times> int" where
  "frame_shape f = (fr_width f, fr_height f, fr_channels f)"

text \<open>The two updates \<open>_assess\<close> makes on its way: a new stream, and the accepted frame's position.\<close>

definition gate_restream :: "gray_frame \<Rightarrow> quality_gate \<Rightarrow> quality_gate" where
  "gate_restream f g =
     (if gate_stream g \<noteq> Some (fr_stream_id f)
      then g\<lparr>gate_stream := Some (fr_stream_id f), gate_sequence := -1, gate_good := 0\<rparr>
      else g)"

definition gate_advance :: "gray_frame \<Rightarrow> quality_gate \<Rightarrow> quality_gate" where
  "gate_advance f g =
     (let g1 = (if fr_sequence f \<noteq> gate_sequence g + 1 \<or> gate_shape g \<noteq> Some (frame_shape f)
                then g\<lparr>gate_good := 0\<rparr> else g)
      in g1\<lparr>gate_shape := Some (frame_shape f), gate_sequence := fr_sequence f\<rparr>)"

definition assess_frame :: "gray_frame \<Rightarrow> execution \<Rightarrow> quality_context option \<Rightarrow> quality_gate
    \<Rightarrow> quality_decision \<times> quality_gate" where
  "assess_frame f execution context g =
     (if fr_source_id f \<noteq> gate_source_id g then assess_rejected f QR_SOURCE_MISMATCH g
      else if (case context of None \<Rightarrow> False | Some c \<Rightarrow> qc_frame c \<noteq> identity_from_frame f)
        then assess_rejected f QR_CONTEXT_MISMATCH g
      else
        let g1 = gate_restream f g in
        if fr_sequence f \<le> gate_sequence g1 then assess_rejected f QR_DISCONTINUITY g1
        else
          let g2 = gate_advance f g1 in
          if execution \<noteq> X_READY \<and> execution \<noteq> X_SUCCEEDED
            then assess_rejected f QR_EXECUTION_UNAVAILABLE g2
          else case measure_frame f (qp_maximum_pixels (gate_policy g2)) context of
                 Inl (MeasurementUnavailable r) \<Rightarrow> assess_rejected f r g2
               | Inl Measure_Exception \<Rightarrow> assess_rejected f QR_MEASUREMENT_FAILED g2
               | Inr metrics \<Rightarrow> assess_metrics f metrics g2)"

type_synonym 's sink = "uuid \<Rightarrow> reason \<Rightarrow> 's \<Rightarrow> 's"

definition revoke :: "'s sink option \<Rightarrow> reason \<Rightarrow> quality_gate \<Rightarrow> 's \<Rightarrow> 's" where
  "revoke results r g s =
     (case results of None \<Rightarrow> s | Some invalidate \<Rightarrow> invalidate (gate_source_id g) r s)"

text \<open>\<open>_reason\<close>: the error branch of \<open>unavailable_reason\<close> is not reachable behind the guard.\<close>

definition gate_reason :: "execution \<Rightarrow> reason" where
  "gate_reason execution =
     (if execution = X_READY \<or> execution = X_SUCCEEDED then R_QUALITY
      else case unavailable_reason execution of Inl _ \<Rightarrow> R_QUALITY | Inr r \<Rightarrow> r)"

definition assess :: "'s sink option \<Rightarrow> gray_frame \<Rightarrow> execution \<Rightarrow> quality_context option
    \<Rightarrow> quality_gate \<Rightarrow> 's \<Rightarrow> quality_decision \<times> quality_gate \<times> 's" where
  "assess results f execution context g s =
     (let (decision, g1) = assess_frame f execution context g;
          g2 = g1\<lparr>gate_latest := Some decision\<rparr>
      in (decision, g2,
          if \<not> allows_conclusion decision then revoke results (gate_reason execution) g2 s else s))"

definition gate_invalidate :: "'s sink option \<Rightarrow> execution \<Rightarrow> quality_gate \<Rightarrow> 's
    \<Rightarrow> (quality_error, detection, quality_gate \<times> 's) outcome" where
  "gate_invalidate results execution g s =
     (case unavailable_reason execution of
        Inl e \<Rightarrow> (Inl e, g, s)
      | Inr r \<Rightarrow>
          let g1 = g\<lparr>gate_good := 0, gate_latest := None\<rparr>
          in (Inr (unknown r), g1, revoke results r g1 s))"

definition guard_decision :: "quality_decision \<Rightarrow> detection option \<Rightarrow> execution \<Rightarrow> frame_identity
    \<Rightarrow> detection" where
  "guard_decision decision result execution frame =
     (if qd_frame decision \<noteq> frame \<or> \<not> allows_conclusion decision then unknown R_QUALITY
      else if execution \<noteq> X_SUCCEEDED
        then unknown (if execution = X_FAILED then R_FAILURE else R_NOT_STARTED)
      else case result of None \<Rightarrow> unknown R_FAILURE | Some d \<Rightarrow> d)"

definition guard_result :: "'s sink option \<Rightarrow> quality_decision \<Rightarrow> detection option \<Rightarrow> execution
    \<Rightarrow> frame_identity \<Rightarrow> quality_gate \<Rightarrow> 's \<Rightarrow> detection \<times> quality_gate \<times> 's" where
  "guard_result results decision result execution frame g s =
     (let unavailable = (execution \<noteq> X_READY \<and> execution \<noteq> X_SUCCEEDED);
          latest = gate_latest g;
          g1 = (if unavailable then g\<lparr>gate_good := 0, gate_latest := None\<rparr> else g);
          guarded = (if map_option qd_identity latest \<noteq> Some (qd_identity decision)
                     then unknown R_STALE
                     else guard_decision decision result execution frame)
      in (guarded, g1, if unavailable then revoke results (gate_reason execution) g1 s else s))"

section \<open>What the measurements mean\<close>

definition luma :: "gray_frame \<Rightarrow> nat \<Rightarrow> nat \<Rightarrow> rat" where
  "luma f y x = (case pixel_luminance f y x of Inl _ \<Rightarrow> 0 | Inr (l, _) \<Rightarrow> l)"

definition clipped :: "gray_frame \<Rightarrow> nat \<Rightarrow> nat \<Rightarrow> bool" where
  "clipped f y x = (case pixel_luminance f y x of Inl _ \<Rightarrow> False | Inr (_, c) \<Rightarrow> c)"

definition measurable :: "gray_frame \<Rightarrow> bool" where
  "measurable f \<longleftrightarrow> gray_frame_ok f \<and> (fr_channels f = 1 \<or> fr_channels f = 3)"

definition mean_luminance :: "gray_frame \<Rightarrow> rat" where
  "mean_luminance f =
     (\<Sum>y<nat (fr_height f). \<Sum>x<nat (fr_width f). luma f y x) / of_int (fr_width f * fr_height f)"

definition neighbour_pairs :: "gray_frame \<Rightarrow> nat" where
  "neighbour_pairs f =
     nat (fr_height f) * (nat (fr_width f) - 1) + (nat (fr_height f) - 1) * nat (fr_width f)"

definition gradient_energy :: "gray_frame \<Rightarrow> rat" where
  "gradient_energy f =
     ((\<Sum>y<nat (fr_height f). \<Sum>x<nat (fr_width f) - 1. (luma f y (Suc x) - luma f y x) ^ 2)
      + (\<Sum>y<nat (fr_height f) - 1. \<Sum>x<nat (fr_width f). (luma f (Suc y) x - luma f y x) ^ 2))
     / of_nat (neighbour_pairs f)"

definition clipped_fraction :: "gray_frame \<Rightarrow> rat" where
  "clipped_fraction f =
     (\<Sum>y<nat (fr_height f). \<Sum>x<nat (fr_width f). of_bool (clipped f y x))
     / of_int (fr_width f * fr_height f)"

lemma pixel_offset_bound:
  assumes "y < h" "x < (w::nat)" "0 < c"
  shows "(y * w + x) * c + c \<le> h * w * c"
proof -
  have "Suc (y * w + x) \<le> Suc y * w" using assms(2) by simp
  also have "\<dots> \<le> h * w" using assms(1) by (intro mult_le_mono1) simp
  finally have "Suc (y * w + x) * c \<le> h * w * c" by (rule mult_le_mono1)
  then show ?thesis by simp
qed

lemma take3: "n + 3 \<le> length xs \<Longrightarrow> take 3 (drop n xs) = [xs ! n, xs ! (n + 1), xs ! (n + 2)]"
  by (simp add: numeral_3_eq_3 take_Suc_conv_app_nth)

lemma pixel_luminance_total:
  assumes "measurable f" "y < nat (fr_height f)" "x < nat (fr_width f)"
  shows "pixel_luminance f y x = Inr (luma f y x, clipped f y x)"
    and "0 \<le> luma f y x" "luma f y x \<le> 1"
proof -
  let ?c = "nat (fr_channels f)" and ?ps = "fr_pixels f"
  let ?o = "(y * nat (fr_width f) + x) * ?c"
  have ok: "gray_frame_ok f" "fr_channels f = 1 \<or> fr_channels f = 3"
    using assms(1) by (auto simp: measurable_def)
  have "int (length ?ps) = int (nat (fr_height f) * nat (fr_width f) * ?c)"
    using ok by (auto simp: gray_frame_ok_def positive_integer_def mult.commute)
  then have "length ?ps = nat (fr_height f) * nat (fr_width f) * ?c" by (simp only: of_nat_eq_iff)
  then have len: "?o + ?c \<le> length ?ps"
    using pixel_offset_bound [OF assms(2,3), of ?c] ok(2) by auto
  have byte: "of_nat (?ps ! i) \<le> (255::rat)" if "i < length ?ps" for i
  proof -
    have "?ps ! i < 256" using ok(1) that by (simp add: gray_frame_ok_def)
    then have "of_nat (?ps ! i) \<le> (of_nat 255 :: rat)" by (subst of_nat_le_iff) simp
    then show ?thesis by simp
  qed
  have ex: "\<exists>l c. pixel_luminance f y x = Inr (l, c) \<and> 0 \<le> l \<and> l \<le> 1"
  proof (cases "fr_channels f = 1")
    case True
    with len have o: "?o < length ?ps" by simp
    have "pixel_luminance f y x = Inr (of_nat (?ps ! ?o) / 255, ?ps ! ?o = 255)"
      using True o by (simp add: pixel_luminance_def Let_def)
    moreover have "0 \<le> of_nat (?ps ! ?o) / (255::rat)" "of_nat (?ps ! ?o) / 255 \<le> (1::rat)"
      using byte [OF o] by simp_all
    ultimately show ?thesis by blast
  next
    case False
    with ok(2) have three: "fr_channels f = 3" by simp
    with len have "?o + 3 \<le> length ?ps" by simp
    define r g b where "r = (of_nat (?ps ! ?o) :: rat)" and "g = (of_nat (?ps ! (?o + 1)) :: rat)"
      and "b = (of_nat (?ps ! (?o + 2)) :: rat)"
    have "0 \<le> r" "r \<le> 255" "0 \<le> g" "g \<le> 255" "0 \<le> b" "b \<le> 255"
      unfolding r_def g_def b_def
      using byte [of ?o] byte [of "?o + 1"] byte [of "?o + 2"] \<open>?o + 3 \<le> length ?ps\<close> by simp_all
    then have "0 \<le> (2126 / 10000 * r + 7152 / 10000 * g + 722 / 10000 * b) / 255"
      "(2126 / 10000 * r + 7152 / 10000 * g + 722 / 10000 * b) / 255 \<le> 1" by simp_all
    moreover have "\<exists>c. pixel_luminance f y x
        = Inr ((2126 / 10000 * r + 7152 / 10000 * g + 722 / 10000 * b) / 255, c)"
      using three take3 [OF \<open>?o + 3 \<le> length ?ps\<close>]
      by (simp add: pixel_luminance_def Let_def r_def g_def b_def)
    ultimately show ?thesis by blast
  qed
  then obtain l c where "pixel_luminance f y x = Inr (l, c)" "0 \<le> l" "l \<le> 1" by blast
  then show "pixel_luminance f y x = Inr (luma f y x, clipped f y x)"
    "0 \<le> luma f y x" "luma f y x \<le> 1"
    by (simp_all add: luma_def clipped_def)
qed

text \<open>The accumulated state after the rows before \<open>y\<close> and the first \<open>x\<close> pixels of row \<open>y\<close>.\<close>

definition swept :: "nat \<Rightarrow> (nat \<Rightarrow> nat \<Rightarrow> 'a) \<Rightarrow> nat \<Rightarrow> nat \<Rightarrow> 'a::comm_monoid_add" where
  "swept w g y x = (\<Sum>y'<y. \<Sum>x'<w. g y' x') + (\<Sum>x'<x. g y x')"

lemma swept_simps [simp]:
  "swept w g y (Suc x) = swept w g y x + g y x" "swept w g 0 0 = 0"
  "swept w g (Suc y) 0 = swept w g y w"
  by (simp_all add: swept_def add.assoc)

definition pixel_energy :: "gray_frame \<Rightarrow> nat \<Rightarrow> nat \<Rightarrow> rat" where
  "pixel_energy f y x =
     (if x \<noteq> 0 then (luma f y x - luma f y (x - 1)) ^ 2 else 0)
     + (if y \<noteq> 0 then (luma f y x - luma f (y - 1) x) ^ 2 else 0)"

definition pixel_edges :: "nat \<Rightarrow> nat \<Rightarrow> nat" where
  "pixel_edges y x = of_bool (x \<noteq> 0) + of_bool (y \<noteq> 0)"

definition sweep :: "gray_frame \<Rightarrow> nat \<Rightarrow> nat \<Rightarrow> measure_state" where
  "sweep f y x =
     (let w = nat (fr_width f) in
      \<lparr>ms_previous = map (\<lambda>x'. if x' < x then luma f y x' else if y = 0 then 0 else luma f (y - 1) x') [0..<w],
       ms_left = (if x = 0 then 0 else luma f y (x - 1)),
       ms_total = swept w (luma f) y x, ms_differences = swept w (pixel_energy f) y x,
       ms_clipped = swept w (\<lambda>y x. of_bool (clipped f y x)) y x,
       ms_edges = swept w pixel_edges y x\<rparr>)"

lemma measure_pixel_sweep:
  assumes "measurable f" "y < nat (fr_height f)" "x < nat (fr_width f)"
  shows "measure_pixel f y x (sweep f y x) = Inr (sweep f y (Suc x))"
  using assms(3) pixel_luminance_total(1) [OF assms]
  by (auto simp: measure_pixel_def sweep_def Let_def pixel_energy_def pixel_edges_def of_bool_def
      list_eq_iff_nth_eq nth_list_update less_Suc_eq)

lemma measure_row_sweep:
  assumes "measurable f" "y < nat (fr_height f)"
  shows "measure_row f y ((sweep f y 0)\<lparr>ms_left := l\<rparr>) = Inr (sweep f y (nat (fr_width f)))"
proof -
  have "(sweep f y 0)\<lparr>ms_left := 0\<rparr> = sweep f y 0" by (simp add: sweep_def Let_def)
  then show ?thesis
    using fold_err_range [of "nat (fr_width f)" "measure_pixel f y" "sweep f y"]
      measure_pixel_sweep [OF assms] by (simp add: measure_row_def)
qed

lemma sweep_next_row:
  "0 < nat (fr_width f) \<Longrightarrow> sweep f y (nat (fr_width f))
     = (sweep f (Suc y) 0)\<lparr>ms_left := luma f y (nat (fr_width f) - 1)\<rparr>"
  by (simp add: sweep_def Let_def)

lemma measure_rows_sweep:
  assumes "measurable f"
  shows "\<exists>l. fold_err (measure_row f) [0..<nat (fr_height f)] (measure_start f)
           = Inr ((sweep f (nat (fr_height f)) 0)\<lparr>ms_left := l\<rparr>)"
proof -
  let ?w = "nat (fr_width f)"
  let ?l = "\<lambda>y. if y = 0 then 0 else luma f (y - 1) (?w - 1)"
  have w: "0 < ?w" using assms by (simp add: measurable_def gray_frame_ok_def positive_integer_def)
  have "measure_start f = (sweep f 0 0)\<lparr>ms_left := ?l 0\<rparr>"
    by (simp add: measure_start_def sweep_def Let_def map_replicate_const)
  moreover have "fold_err (measure_row f) [0..<nat (fr_height f)] ((sweep f 0 0)\<lparr>ms_left := ?l 0\<rparr>)
      = Inr ((sweep f (nat (fr_height f)) 0)\<lparr>ms_left := ?l (nat (fr_height f))\<rparr>)"
    using measure_row_sweep [OF assms] sweep_next_row [OF w]
    by (intro fold_err_range [where S = "\<lambda>y. (sweep f y 0)\<lparr>ms_left := ?l y\<rparr>"]) simp
  ultimately show ?thesis by auto
qed

lemma swept_rows: "swept w g y 0 = (\<Sum>y'<y. \<Sum>x'<w. g y' x')"
  by (simp add: swept_def)

lemma sum_shift_first:
  "(\<Sum>x<(n::nat). if x \<noteq> 0 then g (x - 1) else (0::'a::comm_monoid_add)) = (\<Sum>x<n - 1. g x)"
  by (cases n) (simp_all add: sum.lessThan_Suc_shift del: sum.lessThan_Suc)

lemma swept_energy:
  "swept w (pixel_energy f) h 0
     = (\<Sum>y<h. \<Sum>x<w - 1. (luma f y (Suc x) - luma f y x) ^ 2)
       + (\<Sum>y<h - 1. \<Sum>x<w. (luma f (Suc y) x - luma f y x) ^ 2)"
proof -
  have row: "(\<Sum>x<w. if x \<noteq> 0 then (luma f y x - luma f y (x - 1)) ^ 2 else 0)
      = (\<Sum>x<w - 1. (luma f y (Suc x) - luma f y x) ^ 2)" for y
    using sum_shift_first [where n = w and g = "\<lambda>x. (luma f y (Suc x) - luma f y x) ^ 2"]
    by (simp add: if_distrib cong: if_cong sum.cong)
  have "(\<Sum>y<h. if y \<noteq> 0 then \<Sum>x<w. (luma f y x - luma f (y - 1) x) ^ 2 else 0)
      = (\<Sum>y<h - 1. \<Sum>x<w. (luma f (Suc y) x - luma f y x) ^ 2)"
    by (cases h) (simp_all add: sum.lessThan_Suc_shift del: sum.lessThan_Suc)
  moreover have "(\<Sum>x<w. if y \<noteq> 0 then (luma f y x - luma f (y - 1) x) ^ 2 else 0)
      = (if y \<noteq> 0 then \<Sum>x<w. (luma f y x - luma f (y - 1) x) ^ 2 else 0)" for y
    by simp
  ultimately show ?thesis
    by (simp only: swept_rows pixel_energy_def sum.distrib row)
qed

lemma swept_edges: "swept w pixel_edges h 0 = h * (w - 1) + (h - 1) * w"
proof -
  have row: "(\<Sum>x<w. of_bool (x \<noteq> 0)) = w - 1"
    using sum_shift_first [where n = w and g = "\<lambda>_. 1 :: nat"] by (simp add: of_bool_def)
  have "(\<Sum>y<h. if y \<noteq> 0 then w else 0) = (h - 1) * w"
    using sum_shift_first [where n = h and g = "\<lambda>_. w"] by simp
  moreover have "(\<Sum>x<w. of_bool (y \<noteq> 0)) = (if y \<noteq> 0 then w else 0)" for y :: nat
    by simp
  ultimately show ?thesis by (simp only: swept_rows pixel_edges_def sum.distrib row) simp
qed

lemma measure_loop_result:
  assumes "measurable f"
  shows "\<exists>m. fold_err (measure_row f) [0..<nat (fr_height f)] (measure_start f) = Inr m
    \<and> ms_total m / of_int (fr_width f * fr_height f) = mean_luminance f
    \<and> ms_edges m = neighbour_pairs f
    \<and> ms_differences m / of_nat (neighbour_pairs f) = gradient_energy f
    \<and> of_nat (ms_clipped m) / of_int (fr_width f * fr_height f) = clipped_fraction f"
proof -
  from measure_rows_sweep [OF assms] obtain l where
    "fold_err (measure_row f) [0..<nat (fr_height f)] (measure_start f)
      = Inr ((sweep f (nat (fr_height f)) 0)\<lparr>ms_left := l\<rparr>)" by blast
  moreover have "ms_total (sweep f h 0) = (\<Sum>y<h. \<Sum>x<nat (fr_width f). luma f y x)"
    "ms_differences (sweep f h 0) = swept (nat (fr_width f)) (pixel_energy f) h 0"
    "ms_edges (sweep f h 0) = swept (nat (fr_width f)) pixel_edges h 0"
    "of_nat (ms_clipped (sweep f h 0)) = (\<Sum>y<h. \<Sum>x<nat (fr_width f). (of_bool (clipped f y x) :: rat))" for h
    by (simp_all add: sweep_def Let_def swept_rows)
  ultimately show ?thesis
    by (simp add: mean_luminance_def neighbour_pairs_def gradient_energy_def
        clipped_fraction_def swept_energy swept_edges)
qed

text \<open>A mean of values between 0 and 1 is between 0 and 1.\<close>

lemma grid_sum_bounds:
  fixes g :: "nat \<Rightarrow> nat \<Rightarrow> rat"
  assumes "\<And>y x. y < h \<Longrightarrow> x < w \<Longrightarrow> 0 \<le> g y x \<and> g y x \<le> 1"
  shows "0 \<le> (\<Sum>y<h. \<Sum>x<w. g y x)" "(\<Sum>y<h. \<Sum>x<w. g y x) \<le> of_nat (h * w)"
proof -
  show "0 \<le> (\<Sum>y<h. \<Sum>x<w. g y x)" using assms by (intro sum_nonneg) auto
  have "(\<Sum>y<h. \<Sum>x<w. g y x) \<le> (\<Sum>y<h. \<Sum>x<w. 1)" using assms by (intro sum_mono) auto
  then show "(\<Sum>y<h. \<Sum>x<w. g y x) \<le> of_nat (h * w)" by simp
qed

lemma square_difference_bounds:
  fixes a b :: rat
  assumes "0 \<le> a" "a \<le> 1" "0 \<le> b" "b \<le> 1"
  shows "0 \<le> (a - b) ^ 2" "(a - b) ^ 2 \<le> 1"
  using assms abs_square_le_1 [of "a - b"] by simp_all

lemma measurement_bounds:
  assumes "measurable f"
  shows "0 \<le> mean_luminance f" "mean_luminance f \<le> 1" "0 \<le> gradient_energy f" "gradient_energy f \<le> 1"
    "0 \<le> clipped_fraction f" "clipped_fraction f \<le> 1"
proof -
  let ?h = "nat (fr_height f)" and ?w = "nat (fr_width f)"
  have pos: "0 < fr_height f" "0 < fr_width f"
    using assms by (auto simp: measurable_def gray_frame_ok_def positive_integer_def)
  then have count: "of_int (fr_width f * fr_height f) = (of_nat (?h * ?w) :: rat)" "0 < ?h * ?w"
    by (simp_all add: mult.commute)
  have l: "0 \<le> luma f y x \<and> luma f y x \<le> 1" if "y < ?h" "x < ?w" for y x
    using pixel_luminance_total(2,3) [OF assms that] by simp
  have frac: "0 \<le> a / of_nat n \<and> a / of_nat n \<le> 1" if "0 \<le> a" "a \<le> of_nat n" for a :: rat and n :: nat
    using that by (cases "n = 0") (auto simp: divide_le_eq)
  show "0 \<le> mean_luminance f" "mean_luminance f \<le> 1"
    unfolding mean_luminance_def count(1) using frac [OF grid_sum_bounds [of ?h ?w "luma f"]] l by auto
  show "0 \<le> clipped_fraction f" "clipped_fraction f \<le> 1"
    unfolding clipped_fraction_def count(1)
    using frac [OF grid_sum_bounds [of ?h ?w "\<lambda>y x. of_bool (clipped f y x)"]] by auto
  let ?H = "\<Sum>y<?h. \<Sum>x<?w - 1. (luma f y (Suc x) - luma f y x) ^ 2"
  let ?V = "\<Sum>y<?h - 1. \<Sum>x<?w. (luma f (Suc y) x - luma f y x) ^ 2"
  have "0 \<le> ?H" "?H \<le> of_nat (?h * (?w - 1))"
    using l by (intro grid_sum_bounds conjI square_difference_bounds; simp)+
  moreover have "0 \<le> ?V" "?V \<le> of_nat ((?h - 1) * ?w)"
    using l by (intro grid_sum_bounds conjI square_difference_bounds; simp)+
  ultimately have "0 \<le> ?H + ?V" "?H + ?V \<le> of_nat (neighbour_pairs f)"
    by (simp_all add: neighbour_pairs_def)
  then show "0 \<le> gradient_energy f" "gradient_energy f \<le> 1"
    unfolding gradient_energy_def using frac by auto
qed

text \<open>
  C37. For every well-formed gray or RGB frame within the pixel budget and with no adapter context,
  \<open>measure\<close> returns exactly the mean luminance, the mean squared luminance difference over all horizontal
  and vertical neighbour pairs (unavailable when there is no pair), and the fraction of pixels with a
  clipped channel, all within [0, 1]; the final clamping never changes a value, and the metrics that need
  an adapter are unavailable.
\<close>

theorem measure_frame_reference:
  assumes "measurable f" "0 < limit" "fr_width f * fr_height f \<le> limit"
  shows "measure_frame f limit None =
      Inr [(M_WIDTH, Some (of_int (fr_width f))), (M_HEIGHT, Some (of_int (fr_height f))),
           (M_LUMINANCE, Some (mean_luminance f)),
           (M_SHARPNESS, if neighbour_pairs f = 0 then None else Some (gradient_energy f)),
           (M_SATURATION, Some (clipped_fraction f)), (M_TARGET_WIDTH, None), (M_TARGET_HEIGHT, None),
           (M_OCCLUSION, None), (M_CONFIDENCE, None)]
    \<and> mean_luminance f \<in> {0..1} \<and> gradient_energy f \<in> {0..1} \<and> clipped_fraction f \<in> {0..1}"
proof -
  have clamp: "min 1 (max 0 v) = v" if "0 \<le> v" "v \<le> 1" for v :: rat using that by simp
  from measure_loop_result [OF assms(1)] obtain m where
    "fold_err (measure_row f) [0..<nat (fr_height f)] (measure_start f) = Inr m"
    "ms_total m / of_int (fr_width f * fr_height f) = mean_luminance f"
    "ms_edges m = neighbour_pairs f"
    "ms_differences m / of_nat (neighbour_pairs f) = gradient_energy f"
    "of_nat (ms_clipped m) / of_int (fr_width f * fr_height f) = clipped_fraction f" by blast
  then show ?thesis
    using assms(2,3) measurement_bounds [OF assms(1)]
    by (simp add: measure_frame_def Let_def clamp del: of_int_mult)
qed

definition ex_quality_frame :: "int \<Rightarrow> gray_frame" where
  "ex_quality_frame n =
     \<lparr>fr_source_id = 1, fr_stream_id = 10, fr_sequence = n, fr_width = 2, fr_height = 1,
      fr_pixels = [255, 0], fr_channels = 1\<rparr>"

lemma ex_quality_frame_measurable [simp]: "0 \<le> n \<Longrightarrow> measurable (ex_quality_frame n)"
  by (simp add: measurable_def gray_frame_ok_def ex_quality_frame_def positive_integer_def)

theorem measure_frame_reference_witness:
  "measurable (ex_quality_frame 0) \<and> gradient_energy (ex_quality_frame 0) \<in> {0..1}
   \<and> (\<exists>ms. measure_frame (ex_quality_frame 0) 4 None = Inr ms)"
proof -
  have size: "fr_width (ex_quality_frame 0) * fr_height (ex_quality_frame 0) \<le> 4"
    by (simp add: ex_quality_frame_def)
  show ?thesis using measure_frame_reference [OF _ _ size] by simp
qed

section \<open>Recovery\<close>

definition rule_sufficient :: "(metric \<times> rat option) list \<Rightarrow> metric_rule \<Rightarrow> bool" where
  "rule_sufficient values rule \<longleftrightarrow>
     (case metric_value values (mr_metric rule) of
        None \<Rightarrow> False
      | Some v \<Rightarrow> minimum_usable rule \<le> v \<and> v \<le> maximum_usable rule
                \<and> minimum_sufficient rule \<le> v \<and> v \<le> maximum_sufficient rule)"

type_synonym assessment = "gray_frame \<times> execution \<times> quality_context option"

definition good_frame :: "quality_policy \<Rightarrow> assessment \<Rightarrow> bool" where
  "good_frame p a =
     (case a of (f, execution, context) \<Rightarrow>
        (execution = X_READY \<or> execution = X_SUCCEEDED)
        \<and> (case measure_frame f (qp_maximum_pixels p) context of
             Inl _ \<Rightarrow> False | Inr metrics \<Rightarrow> list_all (rule_sufficient metrics) (qp_rules p)))"

lemma judge_rule_sufficient:
  "fst (judge_rule values rule acc) = Q_SUFFICIENT \<longleftrightarrow>
     fst acc = Q_SUFFICIENT \<and> rule_sufficient values rule"
  by (auto simp: judge_rule_def rule_sufficient_def Let_def not_less split: option.split)

lemma judge_fold_sufficient:
  "fst (fold (judge_rule values) rules acc) = Q_SUFFICIENT \<longleftrightarrow>
     fst acc = Q_SUFFICIENT \<and> list_all (rule_sufficient values) rules"
  by (induction rules arbitrary: acc) (auto simp: judge_rule_sufficient)

text \<open>
  Whether a frame counts toward recovery, and whether it continues the run of frames before it.
\<close>

definition frame_counts :: "assessment \<Rightarrow> quality_gate \<Rightarrow> bool" where
  "frame_counts a g =
     (case a of (f, execution, context) \<Rightarrow>
        fr_source_id f = gate_source_id g
        \<and> (if gate_stream g = Some (fr_stream_id f) then gate_sequence g < fr_sequence f
           else -1 < fr_sequence f)
        \<and> good_frame (gate_policy g) a)"

definition frame_continues :: "gray_frame \<Rightarrow> quality_gate \<Rightarrow> bool" where
  "frame_continues f g \<longleftrightarrow>
     gate_stream g = Some (fr_stream_id f) \<and> fr_sequence f = gate_sequence g + 1
     \<and> gate_shape g = Some (frame_shape f)"

lemma assess_rejected_simps [simp]:
  "qd_quality (fst (assess_rejected f r g)) = Q_UNKNOWN"
  "gate_good (snd (assess_rejected f r g)) = 0"
  "gate_policy (snd (assess_rejected f r g)) = gate_policy g"
  "gate_source_id (snd (assess_rejected f r g)) = gate_source_id g"
  by (simp_all add: assess_rejected_def gate_decision_def)

lemma gate_decision_simps [simp]:
  "qd_quality (fst (gate_decision f q fs ms g)) = q"
  "snd (gate_decision f q fs ms g) = g\<lparr>gate_decisions := Suc (gate_decisions g)\<rparr>"
  by (simp_all add: gate_decision_def)

lemma assess_metrics_simps:
  fixes f metrics g
  defines "r \<equiv> assess_metrics f metrics g"
    and "ok \<equiv> list_all (rule_sufficient metrics) (qp_rules (gate_policy g))"
  shows "gate_policy (snd r) = gate_policy g" "gate_source_id (snd r) = gate_source_id g"
    "gate_stream (snd r) = gate_stream g" "gate_sequence (snd r) = gate_sequence g"
    "gate_shape (snd r) = gate_shape g"
    "gate_good (snd r) = (if ok then min (gate_good g + 1) (recovery_frames (gate_policy g)) else 0)"
    "qd_quality (fst r) = Q_SUFFICIENT \<longleftrightarrow> ok \<and> recovery_frames (gate_policy g) \<le> gate_good g + 1"
  using judge_fold_sufficient [of metrics "qp_rules (gate_policy g)" "(Q_SUFFICIENT, [])"]
  by (auto simp: r_def ok_def assess_metrics_def Let_def split: prod.splits if_splits)

lemma measure_frame_context:
  "measure_frame f limit (Some c) = Inr ms \<Longrightarrow> qc_frame c = identity_from_frame f"
  by (simp add: measure_frame_def Let_def split: if_splits)

text \<open>The gate after it adopted a frame's stream, position and shape.\<close>

definition adopted :: "gray_frame \<Rightarrow> quality_gate \<Rightarrow> quality_gate" where
  "adopted f g = g\<lparr>gate_stream := Some (fr_stream_id f), gate_sequence := fr_sequence f,
     gate_shape := Some (frame_shape f), gate_good := if frame_continues f g then gate_good g else 0\<rparr>"

lemma assess_frame_cases:
  obtains (rejected) r g' where "assess_frame f x c g = assess_rejected f r g'"
      "gate_policy g' = gate_policy g" "gate_source_id g' = gate_source_id g" "\<not> frame_counts (f, x, c) g"
    | (measured) metrics where "assess_frame f x c g = assess_metrics f metrics (adopted f g)"
      "frame_counts (f, x, c) g \<longleftrightarrow> list_all (rule_sufficient metrics) (qp_rules (gate_policy g))"
proof -
  let ?g1 = "gate_restream f g"
  let ?ctx = "case c of None \<Rightarrow> False | Some c \<Rightarrow> qc_frame c \<noteq> identity_from_frame f"
  have adopt: "gate_advance f ?g1 = adopted f g"
    by (cases g) (simp add: adopted_def frame_continues_def gate_advance_def gate_restream_def)
  have keep: "gate_policy ?g1 = gate_policy g" "gate_source_id ?g1 = gate_source_id g"
    by (simp_all add: gate_restream_def)
  consider (early) "fr_source_id f \<noteq> gate_source_id g \<or> ?ctx \<or> fr_sequence f \<le> gate_sequence ?g1"
    | (stopped) "fr_source_id f = gate_source_id g" "\<not> ?ctx" "\<not> fr_sequence f \<le> gate_sequence ?g1"
      "x \<noteq> X_READY \<and> x \<noteq> X_SUCCEEDED"
    | (running) "fr_source_id f = gate_source_id g" "\<not> ?ctx" "\<not> fr_sequence f \<le> gate_sequence ?g1"
      "x = X_READY \<or> x = X_SUCCEEDED" by blast
  then show thesis
  proof cases
    case early
    then have "assess_frame f x c g \<in> {assess_rejected f QR_SOURCE_MISMATCH g,
        assess_rejected f QR_CONTEXT_MISMATCH g, assess_rejected f QR_DISCONTINUITY ?g1}"
      unfolding assess_frame_def Let_def by (simp split: if_split) blast
    moreover have "\<not> frame_counts (f, x, c) g"
      using early by (auto simp: frame_counts_def good_frame_def gate_restream_def dest!: measure_frame_context
          split: option.splits sum.splits if_splits)
    ultimately show thesis using rejected keep by (elim insertE emptyE) blast+
  next
    case stopped
    then have "assess_frame f x c g = assess_rejected f QR_EXECUTION_UNAVAILABLE (adopted f g)"
      unfolding assess_frame_def Let_def adopt by simp
    then show thesis
      by (rule rejected) (use stopped(4) in \<open>auto simp: adopted_def frame_counts_def good_frame_def\<close>)
  next
    case running
    have eq: "assess_frame f x c g =
        (case measure_frame f (qp_maximum_pixels (gate_policy (adopted f g))) c of
           Inl (MeasurementUnavailable r) \<Rightarrow> assess_rejected f r (adopted f g)
         | Inl Measure_Exception \<Rightarrow> assess_rejected f QR_MEASUREMENT_FAILED (adopted f g)
         | Inr metrics \<Rightarrow> assess_metrics f metrics (adopted f g))"
      using running unfolding assess_frame_def Let_def adopt by auto
    have pol: "gate_policy (adopted f g) = gate_policy g" "gate_source_id (adopted f g) = gate_source_id g"
      by (simp_all add: adopted_def)
    show thesis
    proof (cases "measure_frame f (qp_maximum_pixels (gate_policy g)) c")
      case (Inl e)
      then have "\<exists>r. assess_frame f x c g = assess_rejected f r (adopted f g)"
        unfolding eq pol by (cases e) auto
      moreover have "\<not> frame_counts (f, x, c) g" using Inl by (simp add: frame_counts_def good_frame_def)
      ultimately show thesis using rejected pol by blast
    next
      case (Inr metrics)
      then have "assess_frame f x c g = assess_metrics f metrics (adopted f g)" unfolding eq pol by simp
      moreover have "frame_counts (f, x, c) g
          \<longleftrightarrow> list_all (rule_sufficient metrics) (qp_rules (gate_policy g))"
        using running Inr by (auto simp: frame_counts_def good_frame_def gate_restream_def)
      ultimately show thesis using measured by blast
    qed
  qed
qed

text \<open>The whole effect of one assessment on the recovery counter and the verdict.\<close>

lemma assess_frame_effect:
  fixes f x c g
  defines "r \<equiv> assess_frame f x c g"
    and "n \<equiv> (if frame_continues f g then gate_good g else 0) + 1"
  shows "gate_policy (snd r) = gate_policy g" "gate_source_id (snd r) = gate_source_id g"
    "gate_good (snd r)
       = (if frame_counts (f, x, c) g then min n (recovery_frames (gate_policy g)) else 0)"
    "qd_quality (fst r) = Q_SUFFICIENT
       \<longleftrightarrow> frame_counts (f, x, c) g \<and> recovery_frames (gate_policy g) \<le> n"
    "frame_counts (f, x, c) g \<Longrightarrow> gate_stream (snd r) = Some (fr_stream_id f)
       \<and> gate_sequence (snd r) = fr_sequence f \<and> gate_shape (snd r) = Some (frame_shape f)"
  unfolding r_def n_def
  by (rule assess_frame_cases [of f x c g]; simp add: assess_metrics_simps adopted_def)+

text \<open>
  A gate's life: what it was asked to assess since its last stop (newest first), interleaved with guards,
  invalidations and whatever others do to the sink's state.
\<close>

inductive gate_run :: "'s sink option \<Rightarrow> nat \<Rightarrow> uuid \<Rightarrow> quality_policy
    \<Rightarrow> assessment list \<Rightarrow> quality_gate \<Rightarrow> 's \<Rightarrow> bool"
  for results n src p where
    run_init: "gate_run results n src p [] (quality_gate_init n src p) s"
  | run_assess: "\<lbrakk>gate_run results n src p h g s; assess results f x c g s = (d, g', s')\<rbrakk>
      \<Longrightarrow> gate_run results n src p ((f, x, c) # h) g' s'"
  | run_guard: "\<lbrakk>gate_run results n src p h g s; x = X_READY \<or> x = X_SUCCEEDED;
      guard_result results d r x fi g s = (out, g', s')\<rbrakk> \<Longrightarrow> gate_run results n src p h g' s'"
  | run_guard_stop: "\<lbrakk>gate_run results n src p h g s; x \<noteq> X_READY; x \<noteq> X_SUCCEEDED;
      guard_result results d r x fi g s = (out, g', s')\<rbrakk> \<Longrightarrow> gate_run results n src p [] g' s'"
  | run_invalidate: "\<lbrakk>gate_run results n src p h g s; gate_invalidate results x g s = (Inr out, g', s')\<rbrakk>
      \<Longrightarrow> gate_run results n src p [] g' s'"
  | run_environment: "gate_run results n src p h g s \<Longrightarrow> gate_run results n src p h g s'"

text \<open>The newest \<open>k\<close> assessments are good, consecutive frames of one stream and one shape.\<close>

definition frame_follows :: "gray_frame \<Rightarrow> nat \<Rightarrow> gray_frame \<Rightarrow> bool" where
  "frame_follows f i f' \<longleftrightarrow>
     fr_stream_id f' = fr_stream_id f \<and> frame_shape f' = frame_shape f
     \<and> fr_sequence f' = fr_sequence f - int i"

definition consecutive_good :: "quality_policy \<Rightarrow> uuid \<Rightarrow> nat \<Rightarrow> assessment list \<Rightarrow> bool" where
  "consecutive_good p src k h \<longleftrightarrow>
     k \<le> length h
     \<and> (\<forall>i<k. good_frame p (h ! i) \<and> fr_source_id (fst (h ! i)) = src
              \<and> frame_follows (fst (h ! 0)) i (fst (h ! i)))"

lemma consecutive_good_0 [simp]: "consecutive_good p src 0 h"
  by (simp add: consecutive_good_def)

lemma consecutive_good_mono: "\<lbrakk>consecutive_good p src k h; j \<le> k\<rbrakk> \<Longrightarrow> consecutive_good p src j h"
  by (auto simp: consecutive_good_def)

lemma consecutive_good_Cons:
  assumes "consecutive_good p src k h" "good_frame p (f, x, c)" "fr_source_id f = src"
    and "k \<noteq> 0 \<Longrightarrow> frame_follows f 1 (fst (h ! 0))"
  shows "consecutive_good p src (Suc k) ((f, x, c) # h)"
proof -
  have tail: "good_frame p (h ! i) \<and> fr_source_id (fst (h ! i)) = src \<and> frame_follows f (Suc i) (fst (h ! i))"
    if "i < k" for i
  proof -
    have "frame_follows f 1 (fst (h ! 0))" "frame_follows (fst (h ! 0)) i (fst (h ! i))"
      "good_frame p (h ! i)" "fr_source_id (fst (h ! i)) = src"
      using assms(1,4) that by (simp_all add: consecutive_good_def)
    then show ?thesis by (simp add: frame_follows_def)
  qed
  have "good_frame p (((f, x, c) # h) ! i) \<and> fr_source_id (fst (((f, x, c) # h) ! i)) = src
      \<and> frame_follows f i (fst (((f, x, c) # h) ! i))" if "i < Suc k" for i
    using that assms(2,3) tail [of "i - 1"] by (cases i) (simp_all add: frame_follows_def)
  then show ?thesis using assms(1) by (simp add: consecutive_good_def)
qed

definition gate_inv :: "uuid \<Rightarrow> quality_policy \<Rightarrow> assessment list \<Rightarrow> quality_gate \<Rightarrow> bool" where
  "gate_inv src p h g \<longleftrightarrow>
     gate_source_id g = src \<and> gate_policy g = p \<and> 0 \<le> gate_good g
     \<and> consecutive_good p src (nat (gate_good g)) h
     \<and> (0 < gate_good g \<longrightarrow>
          gate_stream g = Some (fr_stream_id (fst (h ! 0)))
          \<and> gate_sequence g = fr_sequence (fst (h ! 0))
          \<and> gate_shape g = Some (frame_shape (fst (h ! 0))))"

lemma gate_inv_assess:
  assumes "gate_inv src p h g" "quality_policy_ok p"
  shows "gate_inv src p ((f, x, c) # h) (snd (assess_frame f x c g))"
    and "frame_counts (f, x, c) g \<Longrightarrow> consecutive_good p src
       (Suc (if frame_continues f g then nat (gate_good g) else 0)) ((f, x, c) # h)"
proof -
  show cons: "consecutive_good p src (Suc (if frame_continues f g then nat (gate_good g) else 0))
      ((f, x, c) # h)" if "frame_counts (f, x, c) g"
  proof (rule consecutive_good_Cons)
    show "(if frame_continues f g then nat (gate_good g) else 0) \<noteq> 0 \<Longrightarrow> frame_follows f 1 (fst (h ! 0))"
      using assms(1) by (auto simp: gate_inv_def frame_continues_def frame_follows_def split: if_splits)
  qed (use assms(1) that in \<open>auto simp: gate_inv_def frame_counts_def\<close>)
  have rec: "0 < recovery_frames p" using assms(2) by (simp add: quality_policy_ok_def)
  show "gate_inv src p ((f, x, c) # h) (snd (assess_frame f x c g))"
  proof (cases "frame_counts (f, x, c) g")
    case True
    then show ?thesis
      using assms(1) rec consecutive_good_mono [OF cons [OF True]]
      by (auto simp: gate_inv_def assess_frame_effect nat_le_iff)
  next
    case False
    then show ?thesis using assms(1) by (simp add: gate_inv_def assess_frame_effect)
  qed
qed

lemma gate_inv_latest [simp]: "gate_inv src p h (g\<lparr>gate_latest := l\<rparr>) = gate_inv src p h g"
  by (simp add: gate_inv_def)

lemma gate_inv_reset: "gate_inv src p h g \<Longrightarrow> gate_inv src p [] (g\<lparr>gate_good := 0, gate_latest := l\<rparr>)"
  by (simp add: gate_inv_def)

lemma assess_gate: "assess results f x c g s = (d, g', s')
    \<Longrightarrow> d = fst (assess_frame f x c g) \<and> g' = (snd (assess_frame f x c g))\<lparr>gate_latest := Some d\<rparr>"
  by (auto simp: assess_def Let_def split: prod.splits)

lemma assess_fst: "fst (assess results f x c g s) = fst (assess_frame f x c g)"
  by (simp add: assess_def Let_def split: prod.split)

lemma gate_run_inv:
  "\<lbrakk>gate_run results n src p h g s; quality_policy_ok p\<rbrakk> \<Longrightarrow> gate_inv src p h g"
proof (induction rule: gate_run.induct)
  case (run_init s)
  then show ?case by (simp add: gate_inv_def quality_gate_init_def)
next
  case (run_assess h g s f x c d g' s')
  then show ?case using gate_inv_assess(1) [of src p h g f x c] assess_gate by fastforce
next
  case (run_guard h g s x d r fi out g' s')
  then show ?case by (auto simp: guard_result_def Let_def)
next
  case (run_guard_stop h g s x d r fi out g' s')
  then show ?case by (auto simp: guard_result_def Let_def intro: gate_inv_reset)
next
  case (run_invalidate h g s x out g' s')
  then show ?case by (auto simp: gate_invalidate_def Let_def intro: gate_inv_reset split: sum.splits)
qed

text \<open>
  A gate lets a conclusion through only when the assessed frame and the ones assessed right before it,
  since the last stop or invalidation, form a run of at least \<open>recovery_frames\<close> frames of this gate's source
  that are consecutive in one stream, have one shape, ran to completion and met every rule of the policy.
\<close>

theorem quality_recovery_needs_consecutive_frames:
  assumes "quality_policy_ok p" "gate_run results n src p h g s"
    and "assess results f x c g s = (d, g', s')" "allows_conclusion d"
  shows "consecutive_good p src (nat (recovery_frames p)) ((f, x, c) # h)"
proof -
  have inv: "gate_inv src p h g" using assms(2,1) by (rule gate_run_inv)
  have "qd_quality (fst (assess_frame f x c g)) = Q_SUFFICIENT"
    using assms(3,4) by (auto dest: assess_gate simp: allows_conclusion_def)
  then have "frame_counts (f, x, c) g"
    and "recovery_frames p \<le> (if frame_continues f g then gate_good g else 0) + 1"
    using inv by (simp_all add: assess_frame_effect gate_inv_def)
  then show ?thesis
    using inv by (intro consecutive_good_mono [OF gate_inv_assess(2) [OF inv assms(1)]])
      (auto simp: gate_inv_def nat_le_iff)
qed

definition ex_quality_policy :: quality_policy where
  "ex_quality_policy =
     \<lparr>qp_detector = ''motion'', qp_version = 1,
      qp_rules = [\<lparr>mr_metric = M_WIDTH, minimum_usable = 1, minimum_sufficient = 2,
                   maximum_sufficient = 8, maximum_usable = 9\<rparr>],
      recovery_frames = 2, qp_maximum_pixels = 4\<rparr>"

definition ex_gate :: "nat \<Rightarrow> quality_gate" where
  "ex_gate n = rec_nat (quality_gate_init 0 1 ex_quality_policy)
     (\<lambda>k g. fst (snd (assess None (ex_quality_frame (int k)) X_READY None g ()))) n"

lemma ex_quality_policy_ok: "quality_policy_ok ex_quality_policy"
  by (simp add: quality_policy_ok_def ex_quality_policy_def metric_rule_ok_def)

lemma ex_gate_1_run: "gate_run None 0 1 ex_quality_policy [(ex_quality_frame 0, X_READY, None)] (ex_gate 1) ()"
  using run_assess [OF run_init [of None 0 1 ex_quality_policy "()"], of "ex_quality_frame 0" X_READY None]
  by (simp add: ex_gate_def assess_def Let_def split: prod.split)

lemma ex_gate_allows:
  "allows_conclusion (fst (assess None (ex_quality_frame 1) X_READY None (ex_gate 1) ()))"
  unfolding allows_conclusion_def ex_gate_def ex_quality_policy_def ex_quality_frame_def by code_simp

theorem quality_recovery_needs_consecutive_frames_witness:
  "consecutive_good ex_quality_policy 1 2
     [(ex_quality_frame 1, X_READY, None), (ex_quality_frame 0, X_READY, None)]"
proof -
  obtain d g' s' where r: "assess None (ex_quality_frame 1) X_READY None (ex_gate 1) () = (d, g', s')"
    by (metis prod_cases3)
  have "allows_conclusion d" using ex_gate_allows r by simp
  from quality_recovery_needs_consecutive_frames [OF ex_quality_policy_ok ex_gate_1_run r this]
  show ?thesis by (simp add: ex_quality_policy_def)
qed

text \<open>The gate after a sequence of assessments, newest first.\<close>

fun assessed :: "quality_gate \<Rightarrow> assessment list \<Rightarrow> quality_gate" where
  "assessed g [] = g"
| "assessed g ((f, x, c) # h) =
     (let (d, g1) = assess_frame f x c (assessed g h) in g1\<lparr>gate_latest := Some d\<rparr>)"

lemma assessed_Cons:
  "assessed g ((f, x, c) # h) = (snd (assess_frame f x c (assessed g h)))
     \<lparr>gate_latest := Some (fst (assess_frame f x c (assessed g h)))\<rparr>"
  by (simp split: prod.split)

lemma consecutive_good_tail:
  assumes "consecutive_good p src (length (a # h)) (a # h)"
  shows "consecutive_good p src (length h) h" and "h \<noteq> [] \<Longrightarrow> frame_follows (fst a) 1 (fst (h ! 0))"
proof -
  have el: "good_frame p (h ! i) \<and> fr_source_id (fst (h ! i)) = src \<and> frame_follows (fst a) (Suc i) (fst (h ! i))"
    if "i < length h" for i
  proof -
    have "Suc i < length (a # h)" using that by simp
    then have "good_frame p ((a # h) ! Suc i) \<and> fr_source_id (fst ((a # h) ! Suc i)) = src
        \<and> frame_follows (fst ((a # h) ! 0)) (Suc i) (fst ((a # h) ! Suc i))"
      using assms unfolding consecutive_good_def by blast
    then show ?thesis by simp
  qed
  show "h \<noteq> [] \<Longrightarrow> frame_follows (fst a) 1 (fst (h ! 0))" using el [of 0] by simp
  have "frame_follows (fst (h ! 0)) i (fst (h ! i))" if "i < length h" for i
    using el [of 0] el [of i] that by (cases h) (simp_all add: frame_follows_def)
  then show "consecutive_good p src (length h) h" using el by (simp add: consecutive_good_def)
qed

lemma consecutive_good_hd:
  "consecutive_good p src (length (a # h)) (a # h) \<Longrightarrow> good_frame p a \<and> fr_source_id (fst a) = src"
  by (auto simp: consecutive_good_def)

lemma assessed_progress:
  assumes "consecutive_good p src (length h) h" "h \<noteq> []" "frame_counts (last h) g"
    and "gate_policy g = p" "gate_source_id g = src" "0 < recovery_frames p" "0 \<le> gate_good g"
  shows "gate_policy (assessed g h) = p \<and> gate_source_id (assessed g h) = src
    \<and> min (int (length h)) (recovery_frames p) \<le> gate_good (assessed g h)
    \<and> gate_stream (assessed g h) = Some (fr_stream_id (fst (h ! 0)))
    \<and> gate_sequence (assessed g h) = fr_sequence (fst (h ! 0))
    \<and> gate_shape (assessed g h) = Some (frame_shape (fst (h ! 0)))
    \<and> (recovery_frames p \<le> int (length h) \<longrightarrow>
         (\<exists>d. gate_latest (assessed g h) = Some d \<and> allows_conclusion d))"
  using assms
proof (induction h)
  case (Cons a h)
  obtain f x c where a: "a = (f, x, c)" by (cases a) auto
  let ?g = "assessed g h"
  have tail: "consecutive_good p src (length h) h" "h \<noteq> [] \<Longrightarrow> frame_follows f 1 (fst (h ! 0))"
    using consecutive_good_tail [OF Cons.prems(1)] a by simp_all
  have hd: "good_frame p (f, x, c)" "fr_source_id f = src"
    using consecutive_good_hd [OF Cons.prems(1)] a by simp_all
  have g: "gate_policy ?g = p \<and> gate_source_id ?g = src" "frame_counts (f, x, c) ?g"
    "min (int (Suc (length h))) (recovery_frames p)
       \<le> min ((if frame_continues f ?g then gate_good ?g else 0) + 1) (recovery_frames p)"
    if ne: "h \<noteq> []"
  proof -
    have ih: "gate_policy ?g = p" "gate_source_id ?g = src"
      "min (int (length h)) (recovery_frames p) \<le> gate_good ?g"
      "gate_stream ?g = Some (fr_stream_id (fst (h ! 0)))"
      "gate_sequence ?g = fr_sequence (fst (h ! 0))" "gate_shape ?g = Some (frame_shape (fst (h ! 0)))"
      using Cons.IH [OF tail(1)] Cons.prems ne by simp_all
    show "gate_policy ?g = p \<and> gate_source_id ?g = src" using ih by simp
    show "frame_counts (f, x, c) ?g"
      using ih hd tail(2) [OF ne] by (simp add: frame_counts_def frame_follows_def)
    have "frame_continues f ?g" using ih tail(2) [OF ne] by (simp add: frame_continues_def frame_follows_def)
    then show "min (int (Suc (length h))) (recovery_frames p)
       \<le> min ((if frame_continues f ?g then gate_good ?g else 0) + 1) (recovery_frames p)"
      using ih(3) by simp
  qed
  show ?case
  proof (cases "h = []")
    case True
    then show ?thesis
      using Cons.prems a by (auto simp: assessed_Cons assess_frame_effect allows_conclusion_def
          simp del: assessed.simps(2))
  next
    case False
    from g [OF False] show ?thesis
      by (auto simp: a assessed_Cons assess_frame_effect allows_conclusion_def simp del: assessed.simps(2))
  qed
qed simp

text \<open>
  Recovery is reached. From any state of the gate's life, assessing at least \<open>recovery_frames\<close> consecutive
  good frames, the first of which is newer than what the gate has seen, ends with a decision that allows a
  conclusion.
\<close>

theorem quality_recovery_reached:
  assumes "quality_policy_ok p" "gate_run results n src p h0 g s"
    and "consecutive_good p src (length h) h" "recovery_frames p \<le> int (length h)"
    and "frame_counts (last h) g"
  shows "\<exists>d. gate_latest (assessed g h) = Some d \<and> allows_conclusion d"
proof -
  have inv: "gate_inv src p h0 g" using assms(2,1) by (rule gate_run_inv)
  have "0 < recovery_frames p" using assms(1) by (simp add: quality_policy_ok_def)
  moreover from this assms(4) have "h \<noteq> []" by auto
  ultimately show ?thesis
    using assessed_progress [OF assms(3) _ assms(5)] inv assms(4) by (simp add: gate_inv_def)
qed

theorem quality_recovery_reached_witness:
  "\<exists>d. gate_latest (assessed (quality_gate_init 0 1 ex_quality_policy)
      [(ex_quality_frame 1, X_READY, None), (ex_quality_frame 0, X_READY, None)]) = Some d
    \<and> allows_conclusion d"
proof (rule quality_recovery_reached [OF ex_quality_policy_ok run_init [of None 0 1 ex_quality_policy "()"]])
  have "good_frame ex_quality_policy (ex_quality_frame 0, X_READY, None)"
    "good_frame ex_quality_policy (ex_quality_frame 1, X_READY, None)"
    unfolding ex_quality_policy_def ex_quality_frame_def by code_simp+
  then show "consecutive_good ex_quality_policy 1
      (length [(ex_quality_frame 1, X_READY, None), (ex_quality_frame 0, X_READY, None)])
      [(ex_quality_frame 1, X_READY, None), (ex_quality_frame 0, X_READY, None)]"
    "frame_counts (last [(ex_quality_frame 1, X_READY, None), (ex_quality_frame 0, X_READY, None)])
      (quality_gate_init 0 1 ex_quality_policy)"
    by (auto simp: consecutive_good_def frame_follows_def less_Suc_eq frame_counts_def quality_gate_init_def
        frame_shape_def ex_quality_frame_def)
qed (simp add: ex_quality_policy_def)

section \<open>Guarding results\<close>

definition latest_inv :: "uuid \<Rightarrow> quality_policy \<Rightarrow> assessment list \<Rightarrow> quality_gate \<Rightarrow> bool" where
  "latest_inv src p h g \<longleftrightarrow>
     (\<forall>d. gate_latest g = Some d \<longrightarrow>
        h \<noteq> [] \<and> qd_frame d = identity_from_frame (fst (h ! 0))
        \<and> (allows_conclusion d \<longrightarrow> consecutive_good p src (nat (recovery_frames p)) h))"

lemma assess_frame_identity: "qd_frame (fst (assess_frame f x c g)) = identity_from_frame f"
  by (rule assess_frame_cases [of f x c g])
    (simp_all add: assess_rejected_def gate_decision_def assess_metrics_def Let_def split: prod.split)

lemma gate_run_latest:
  "\<lbrakk>gate_run results n src p h g s; quality_policy_ok p\<rbrakk> \<Longrightarrow> latest_inv src p h g"
proof (induction rule: gate_run.induct)
  case (run_init s)
  then show ?case by (simp add: latest_inv_def quality_gate_init_def)
next
  case (run_assess h g s f x c d g' s')
  have inv: "gate_inv src p h g" using run_assess(1,4) by (rule gate_run_inv)
  have d: "d = fst (assess_frame f x c g)" "gate_latest g' = Some d"
    using assess_gate [OF run_assess(2)] by simp_all
  have "consecutive_good p src (nat (recovery_frames p)) ((f, x, c) # h)" if "allows_conclusion d"
  proof -
    from that d have "frame_counts (f, x, c) g"
      "recovery_frames p \<le> (if frame_continues f g then gate_good g else 0) + 1"
      using inv by (simp_all add: assess_frame_effect gate_inv_def allows_conclusion_def)
    then show ?thesis
      using inv by (intro consecutive_good_mono [OF gate_inv_assess(2) [OF inv run_assess(4)]])
        (auto simp: gate_inv_def nat_le_iff)
  qed
  then show ?case using d by (simp add: latest_inv_def assess_frame_identity)
qed (auto simp: latest_inv_def guard_result_def gate_invalidate_def Let_def split: sum.splits)

text \<open>
  A detector's conclusion leaves the gate only for the newest assessment since the last stop, on that
  assessment's exact frame, after a successful execution, unchanged, and only while the newest
  \<open>recovery_frames\<close> assessments are consecutive good frames; a replay after a stop, a stale decision or an
  unsuccessful execution yields unknown. Decisions are immutable objects, so two with one identity are equal.
\<close>

theorem guarded_conclusion_authorized:
  assumes "quality_policy_ok p" "gate_run results n src p h g s"
    and "\<forall>l. gate_latest g = Some l \<and> qd_identity l = qd_identity d \<longrightarrow> l = d"
    and "guard_result results d r x fi g s = (out, g', s')" "observation out \<noteq> OBS_UNKNOWN"
  shows "r = Some out \<and> x = X_SUCCEEDED \<and> gate_latest g = Some d
    \<and> h \<noteq> [] \<and> fi = identity_from_frame (fst (h ! 0))
    \<and> consecutive_good p src (nat (recovery_frames p)) h"
proof -
  have "gate_latest g = Some d" "allows_conclusion d" "qd_frame d = fi" "r = Some out" "x = X_SUCCEEDED"
    using assms(3-5) by (auto simp: guard_result_def guard_decision_def Let_def split: if_splits option.splits)
  then show ?thesis using gate_run_latest [OF assms(2,1)] by (auto simp: latest_inv_def)
qed

lemma ex_gate_2_run: "gate_run None 0 1 ex_quality_policy
    [(ex_quality_frame 1, X_READY, None), (ex_quality_frame 0, X_READY, None)] (ex_gate 2) ()"
proof -
  have "ex_gate 2 = fst (snd (assess None (ex_quality_frame 1) X_READY None (ex_gate 1) ()))"
    by (simp add: ex_gate_def numeral_2_eq_2)
  then show ?thesis
    using run_assess [OF ex_gate_1_run, of "ex_quality_frame 1" X_READY None]
    by (cases "assess None (ex_quality_frame 1) X_READY None (ex_gate 1) ()") auto
qed

theorem guarded_conclusion_authorized_witness:
  "\<exists>d. gate_latest (ex_gate 2) = Some d
     \<and> fst (guard_result None d (Some (Detection OBS_ABSENT R_EVALUATED)) X_SUCCEEDED
              (identity_from_frame (ex_quality_frame 1)) (ex_gate 2) ()) = Detection OBS_ABSENT R_EVALUATED
     \<and> consecutive_good ex_quality_policy 1 2
         [(ex_quality_frame 1, X_READY, None), (ex_quality_frame 0, X_READY, None)]"
proof -
  let ?d = "fst (assess None (ex_quality_frame 1) X_READY None (ex_gate 1) ())"
  let ?fi = "identity_from_frame (ex_quality_frame 1)"
  have g2: "gate_latest (ex_gate 2) = Some ?d"
    by (simp add: ex_gate_def numeral_2_eq_2 assess_def Let_def split: prod.split)
  have "qd_frame ?d = ?fi"
    by (simp add: assess_fst assess_frame_identity)
  then have out: "guard_result None ?d (Some (Detection OBS_ABSENT R_EVALUATED)) X_SUCCEEDED ?fi (ex_gate 2) ()
      = (Detection OBS_ABSENT R_EVALUATED, ex_gate 2, ())"
    using g2 ex_gate_allows by (simp add: guard_result_def guard_decision_def)
  from guarded_conclusion_authorized [OF ex_quality_policy_ok ex_gate_2_run _ out] g2 out
  show ?thesis by (simp add: ex_quality_policy_def)
qed

section \<open>Revoking published results\<close>

lemma gate_reason_cases: "gate_reason x \<in> {R_QUALITY, R_NOT_STARTED, R_FAILURE}"
  by (cases x) (simp_all add: gate_reason_def unavailable_reason_def)

context result_sink
begin

lemma revoke_published:
  assumes "withdrawable r"
  shows "published (gate_source_id g) (revoke (Some invalidate) r g s) \<in> {None, Some (unknown r)}"
    and "src \<noteq> gate_source_id g \<Longrightarrow> published src (revoke (Some invalidate) r g s) = published src s"
proof -
  show "published (gate_source_id g) (revoke (Some invalidate) r g s) \<in> {None, Some (unknown r)}"
    using invalidate_withdraws [OF assms] invalidate_unregistered
    by (cases "published (gate_source_id g) s") (simp_all add: revoke_def)
  show "src \<noteq> gate_source_id g \<Longrightarrow> published src (revoke (Some invalidate) r g s) = published src s"
    by (simp add: revoke_def invalidate_other)
qed

lemma assess_revokes:
  assumes "withdrawable (gate_reason x)" "assess (Some invalidate) f x c g s = (d, g', s')"
  shows "\<not> allows_conclusion d \<Longrightarrow>
      published (gate_source_id g) s' \<in> {None, Some (unknown (gate_reason x))}"
    and "src \<noteq> gate_source_id g \<or> allows_conclusion d \<Longrightarrow> published src s' = published src s"
proof -
  let ?r = "assess_frame f x c g"
  have "gate_source_id ((snd ?r)\<lparr>gate_latest := Some d\<rparr>) = gate_source_id g"
    by (simp add: assess_frame_effect)
  note rev = revoke_published [OF assms(1), where g = "(snd ?r)\<lparr>gate_latest := Some d\<rparr>" and s = s,
      unfolded this]
  have "s' = (if allows_conclusion d then s
      else revoke (Some invalidate) (gate_reason x) ((snd ?r)\<lparr>gate_latest := Some d\<rparr>) s)"
    using assms(2) by (auto simp: assess_def Let_def split: prod.splits)
  with rev show "\<not> allows_conclusion d \<Longrightarrow>
      published (gate_source_id g) s' \<in> {None, Some (unknown (gate_reason x))}"
    "src \<noteq> gate_source_id g \<or> allows_conclusion d \<Longrightarrow> published src s' = published src s"
    by auto
qed

end

text \<open>
  C36. Poor evidence takes effect on the published result at once. Whenever a gate registered on the
  scheduler decides against a conclusion, the source's published result in the scheduler is unknown right
  after the assessment, with the quality or execution reason, and no other source's result changes.
\<close>

theorem poor_quality_withdraws_conclusion:
  assumes "assess (Some invalidate_source) f x c g s = (d, g', s')" "\<not> allows_conclusion d"
  shows "published (gate_source_id g) s' \<in> {None, Some (unknown (gate_reason x))}
    \<and> (\<forall>src. src \<noteq> gate_source_id g \<longrightarrow> published src s' = published src s)"
proof -
  have "withdrawable (gate_reason x)" using gate_reason_cases [of x] by (auto simp: withdrawable_def)
  then show ?thesis using sched_sink.assess_revokes [OF _ assms(1)] assms(2) by blast
qed

theorem poor_quality_withdraws_conclusion_witness:
  "\<exists>s'. snd (snd (assess (Some invalidate_source) ex_frame X_FAILED None
       (quality_gate_init 0 1 ex_quality_policy) ex_published)) = s'
     \<and> published 1 ex_published = Some (Detection OBS_ABSENT R_EVALUATED)
     \<and> published 1 s' = Some (unknown R_FAILURE)"
proof -
  let ?g = "quality_gate_init 0 1 ex_quality_policy"
  obtain d g' s' where r: "assess (Some invalidate_source) ex_frame X_FAILED None ?g ex_published = (d, g', s')"
    by (metis prod_cases3)
  have "\<not> frame_counts (ex_frame, X_FAILED, None) ?g" by (simp add: frame_counts_def good_frame_def)
  then have "\<not> allows_conclusion d"
    using assess_gate [OF r] by (simp add: allows_conclusion_def assess_frame_effect)
  from poor_quality_withdraws_conclusion [OF r this]
  have "published 1 s' \<in> {None, Some (unknown R_FAILURE)}"
    by (simp add: quality_gate_init_def gate_reason_def unavailable_reason_def)
  moreover have "published 1 ex_published = Some (Detection OBS_ABSENT R_EVALUATED)"
    unfolding ex_published_def ex_running_def ex_queued_def ex_ticket_def ex_defs
    by (simp add: published_def run_finish_def run_begin_def offer_def register_def read_clock_def
        offer_source_def admit_frame_def adopt_stream_def new_source_def mark_unknown_def put_source_def
        due_def start_source_def leave_evaluation_def ticket_object_def holds_object_def put_object_def
        publish_def Let_def)
  moreover have "gate_source_id (snd (assess_frame ex_frame X_FAILED None ?g)) = 1"
    by (simp add: assess_frame_effect) (simp add: quality_gate_init_def)
  then have "s' = invalidate_source 1 R_FAILURE ex_published"
    using r \<open>\<not> allows_conclusion d\<close> by (auto simp: assess_def revoke_def gate_reason_def
        unavailable_reason_def Let_def split: prod.splits)
  with calculation sched_sink.invalidate_withdraws [of R_FAILURE 1 ex_published]
  have "published 1 s' = Some (unknown R_FAILURE)" by (simp add: withdrawable_def)
  ultimately show ?thesis using r by auto
qed

end
