(* ===== verification/Entrance_Tracking.thy ===== *)
theory Entrance_Tracking
  imports Quality_Gate
begin

text \<open>
  Anonymous tracking and entrance crossings: \<^verbatim>\<open>server/app/detection/tracking/entrance.py\<close>. Coordinates are real numbers
  and \<open>math.hypot\<close> is the exact root. Each point of an update draws at most one random UUID, for its new track or for its
  crossing; \<open>ids\<close> gives the one drawn for the point of an index. The owner verifier's \<open>is_current\<close> is a parameter that
  answers or raises (\<open>None\<close>).
\<close>

section \<open>Geometry\<close>

definition is_fraction :: "real \<Rightarrow> bool" where
  "is_fraction v \<longleftrightarrow> 0 \<le> v \<and> v \<le> 1"

record track_point =
  tp_x :: real
  tp_y :: real

definition track_point_ok :: "track_point \<Rightarrow> bool" where
  "track_point_ok p \<longleftrightarrow> is_fraction (tp_x p) \<and> is_fraction (tp_y p)"

record person_point =
  pn_candidate_id :: uuid
  pn_point :: track_point

record tracking_policy =
  max_tracks :: nat
  max_gap_ms :: int
  max_distance :: real

definition tracking_policy_ok :: "tracking_policy \<Rightarrow> bool" where
  "tracking_policy_ok p \<longleftrightarrow> 1 \<le> max_tracks p \<and> max_tracks p \<le> 256 \<and> 0 < max_gap_ms p \<and> is_fraction (max_distance p) \<and> 0 < max_distance p"

record entrance_line =
  ln_start :: track_point
  ln_end :: track_point
  entry_direction :: int
  hysteresis_distance :: real

definition entrance_line_ok :: "entrance_line \<Rightarrow> bool" where
  "entrance_line_ok l \<longleftrightarrow> ln_start l \<noteq> ln_end l \<and> (entry_direction l = -1 \<or> entry_direction l = 1) \<and> is_fraction (hysteresis_distance l)"

definition hypot :: "real \<Rightarrow> real \<Rightarrow> real" where
  "hypot x y = sqrt (x * x + y * y)"

definition line_distance :: "entrance_line \<Rightarrow> track_point \<Rightarrow> real" where
  "line_distance l p =
     (let dx = tp_x (ln_end l) - tp_x (ln_start l); dy = tp_y (ln_end l) - tp_y (ln_start l)
      in (dx * (tp_y p - tp_y (ln_start l)) - dy * (tp_x p - tp_x (ln_start l))) / hypot dx dy)"

definition settled_side :: "entrance_line \<Rightarrow> track_point \<Rightarrow> int" where
  "settled_side l p =
     (let distance = line_distance l p
      in if hysteresis_distance l < \<bar>distance\<bar> then (if 0 < distance then 1 else -1) else 0)"

definition intersects :: "entrance_line \<Rightarrow> track_point \<Rightarrow> track_point \<Rightarrow> bool" where
  "intersects l previous current =
     (let before = line_distance l previous; after = line_distance l current in
      if before = after \<or> 0 < before * after then False
      else let ratio = before / (before - after);
               x = tp_x previous + ratio * (tp_x current - tp_x previous);
               y = tp_y previous + ratio * (tp_y current - tp_y previous);
               dx = tp_x (ln_end l) - tp_x (ln_start l); dy = tp_y (ln_end l) - tp_y (ln_start l);
               projection = ((x - tp_x (ln_start l)) * dx + (y - tp_y (ln_start l)) * dy) / (dx * dx + dy * dy)
           in 0 \<le> ratio \<and> ratio \<le> 1 \<and> 0 \<le> projection \<and> projection \<le> 1)"

section \<open>State\<close>

datatype crossing_kind = OWNER_ENTRY | OWNER_EXIT | ANONYMOUS_ENTRY | ANONYMOUS_EXIT

record crossing =
  cx_identifier :: uuid
  cx_kind :: crossing_kind
  cx_source_id :: uuid
  cx_occurred_at :: int
  cx_received_at :: int
  cx_confidence :: "rat option"
  cx_clock_trusted :: bool
  cx_uncertainty_us :: int
  cx_confirmed :: bool

record track =
  tr_identifier :: uuid
  tr_point :: track_point
  tr_last_ms :: int
  tr_sequence :: int
  tr_side :: int
  tr_crossed :: bool

record track_update =
  tu_assignments :: "(uuid \<times> uuid) list"
  tu_crossings :: "crossing list"
  tu_quality :: quality

record entrance_tracker =
  et_source_id :: uuid
  et_policy :: tracking_policy
  et_line :: entrance_line
  et_tracks :: "(uuid, track) dict"
  et_stream :: "uuid option"
  et_sequence :: int
  et_last_ms :: "int option"

datatype track_error = INVALID_TRACK_OBSERVATION | TRACKING_RESOURCE_LIMIT

definition tracker_init :: "uuid \<Rightarrow> tracking_policy \<Rightarrow> entrance_line \<Rightarrow> entrance_tracker" where
  "tracker_init source_id policy line =
     \<lparr>et_source_id = source_id, et_policy = policy, et_line = line, et_tracks = [], et_stream = None, et_sequence = -1,
      et_last_ms = None\<rparr>"

definition tracker_close :: "entrance_tracker \<Rightarrow> entrance_tracker" where
  "tracker_close t = t\<lparr>et_tracks := [], et_stream := None, et_sequence := -1, et_last_ms := None\<rparr>"

section \<open>Owner verification\<close>

datatype verdict = MATCH | NO_MATCH | VERDICT_UNKNOWN

datatype verification_reason = VR_EVALUATED | VR_QUALITY | VR_UNENROLLED | VR_VERIFIER_UNAVAILABLE | VR_MODEL_MISMATCH | VR_TEMPLATE_CHANGED | VR_FAILURE

record verification =
  vf_candidate_id :: uuid
  vf_frame :: frame_identity
  vf_generation :: int
  vf_verdict :: verdict
  vf_confidence :: "rat option"
  vf_reason :: verification_reason
  vf_receipt_id :: uuid

definition verification_ok :: "verification \<Rightarrow> bool" where
  "verification_ok v \<longleftrightarrow> 0 \<le> vf_generation v
     \<and> (case vf_confidence v of None \<Rightarrow> vf_verdict v = VERDICT_UNKNOWN | Some x \<Rightarrow> 0 \<le> x \<and> x \<le> 1)
     \<and> (vf_verdict v = VERDICT_UNKNOWN) \<noteq> (vf_reason v = VR_EVALUATED)"

type_synonym owner_verifier = "(verification \<Rightarrow> bool option) option"

text \<open>The list comprehension of \<open>_owner\<close>; \<open>None\<close> when \<open>is_current\<close> raises.\<close>

fun owner_matches :: "person_point \<Rightarrow> frame_identity \<Rightarrow> (verification \<Rightarrow> bool option) \<Rightarrow> verification list \<Rightarrow> verification list option" where
  "owner_matches point frame is_current [] = Some []"
| "owner_matches point frame is_current (r # rs) =
     (if vf_candidate_id r = pn_candidate_id point \<and> vf_frame r = frame \<and> vf_verdict r = MATCH then
        (case is_current r of
           None \<Rightarrow> None
         | Some current \<Rightarrow> map_option (\<lambda>ms. if current then r # ms else ms) (owner_matches point frame is_current rs))
      else owner_matches point frame is_current rs)"

definition owner_of :: "person_point \<Rightarrow> frame_identity \<Rightarrow> verification list \<Rightarrow> owner_verifier \<Rightarrow> verification option" where
  "owner_of point frame results verifier =
     (case verifier of
        None \<Rightarrow> None
      | Some is_current \<Rightarrow>
          (case owner_matches point frame is_current results of
             Some [r] \<Rightarrow> Some r
           | _ \<Rightarrow> None))"

section \<open>Tracks\<close>

definition sign_of :: "real \<Rightarrow> int" where
  "sign_of v = (if 0 < v then 1 else -1)"

text \<open>\<open>_advance\<close>: the reported direction (0 for none) and the track after it.\<close>

definition advance_track :: "entrance_line \<Rightarrow> track \<Rightarrow> track_point \<Rightarrow> int \<Rightarrow> int \<Rightarrow> int \<times> track" where
  "advance_track l tr point observed_ms frame_sequence =
     (let side = settled_side l point;
          move = (\<lambda>x. x\<lparr>tr_point := point, tr_last_ms := observed_ms, tr_sequence := frame_sequence\<rparr>)
      in if frame_sequence \<noteq> tr_sequence tr + 1 then (0, move (tr\<lparr>tr_side := side, tr_crossed := False\<rparr>))
         else let before = line_distance l (tr_point tr); after = line_distance l point;
                  tr1 = (if before \<noteq> after \<and> before * after \<le> 0 \<and> after \<noteq> 0
                         then tr\<lparr>tr_crossed := (intersects l (tr_point tr) point \<and> sign_of after \<noteq> tr_side tr)\<rparr> else tr)
              in if side \<noteq> 0 \<and> tr_side tr1 \<noteq> 0 \<and> side \<noteq> tr_side tr1
                 then ((if tr_crossed tr1 then side else 0), move (tr1\<lparr>tr_side := side, tr_crossed := False\<rparr>))
                 else if side \<noteq> 0 \<and> side = tr_side tr1 then (0, move (tr1\<lparr>tr_crossed := False\<rparr>))
                 else if side \<noteq> 0 \<and> tr_side tr1 = 0 then (0, move (tr1\<lparr>tr_side := side, tr_crossed := False\<rparr>))
                 else (0, move tr1))"

definition near :: "tracking_policy \<Rightarrow> track_point \<Rightarrow> track \<Rightarrow> bool" where
  "near policy p tr \<longleftrightarrow> hypot (tp_x p - tp_x (tr_point tr)) (tp_y p - tp_y (tr_point tr)) \<le> max_distance policy"

definition track_candidates :: "tracking_policy \<Rightarrow> (uuid, track) dict \<Rightarrow> track_point \<Rightarrow> uuid list" where
  "track_candidates policy tracks p = map fst (filter (\<lambda>(k, tr). near policy p tr) tracks)"

text \<open>\<open>reverse[key]\<close>: how many points could continue a track.\<close>

definition claimants :: "tracking_policy \<Rightarrow> (uuid, track) dict \<Rightarrow> person_point list \<Rightarrow> uuid \<Rightarrow> nat" where
  "claimants policy tracks points k = length (filter (\<lambda>p. k \<in> set (track_candidates policy tracks (pn_point p))) points)"

definition associated :: "tracking_policy \<Rightarrow> (uuid, track) dict \<Rightarrow> person_point list \<Rightarrow> track_point \<Rightarrow> uuid option" where
  "associated policy tracks points p =
     (case track_candidates policy tracks p of
        [k] \<Rightarrow> if claimants policy tracks points k = 1 then Some k else None
      | _ \<Rightarrow> None)"

record track_context =
  tc_frame :: frame_identity
  tc_points :: "person_point list"
  tc_observed_ms :: int
  tc_occurred_at :: int
  tc_received_at :: int
  tc_clock_trusted :: bool
  tc_uncertainty_us :: int
  tc_owner_results :: "verification list"
  tc_owner_verifier :: owner_verifier
  tc_ids :: "nat \<Rightarrow> uuid"

definition crossing_of :: "track_context \<Rightarrow> entrance_tracker \<Rightarrow> nat \<Rightarrow> person_point \<Rightarrow> int \<Rightarrow> crossing" where
  "crossing_of c t i point direction =
     (let owner = owner_of point (tc_frame c) (tc_owner_results c) (tc_owner_verifier c);
          entry = (direction = entry_direction (et_line t))
      in \<lparr>cx_identifier = tc_ids c i,
          cx_kind = (if owner \<noteq> None then (if entry then OWNER_ENTRY else OWNER_EXIT)
                     else (if entry then ANONYMOUS_ENTRY else ANONYMOUS_EXIT)),
          cx_source_id = et_source_id t, cx_occurred_at = tc_occurred_at c, cx_received_at = tc_received_at c,
          cx_confidence = Option.bind owner vf_confidence, cx_clock_trusted = tc_clock_trusted c,
          cx_uncertainty_us = tc_uncertainty_us c, cx_confirmed = (owner \<noteq> None \<and> tc_clock_trusted c)\<rparr>)"

text \<open>The body of the loop over the points: what it adds to the update, and the next track.\<close>

definition point_step :: "track_context \<Rightarrow> entrance_tracker \<Rightarrow> nat \<times> person_point
    \<Rightarrow> (uuid \<times> uuid) list \<times> crossing list \<times> (uuid, track) dict \<Rightarrow> (uuid \<times> uuid) list \<times> crossing list \<times> (uuid, track) dict" where
  "point_step c t ip acc =
     (case (ip, acc) of ((i, point), (assignments, crossings, next_tracks)) \<Rightarrow>
       (let p = pn_point point; k = associated (et_policy t) (et_tracks t) (tc_points c) p in
        case (k, Option.bind k (map_of (et_tracks t))) of
          (Some key, Some old) \<Rightarrow>
            (case advance_track (et_line t) old p (tc_observed_ms c) (fi_sequence (tc_frame c)) of (direction, tr) \<Rightarrow>
              (assignments @ [(pn_candidate_id point, key)],
               (if direction \<noteq> 0 then crossings @ [crossing_of c t i point direction] else crossings),
               AList.update key tr next_tracks))
        | _ \<Rightarrow>
            (let key = tc_ids c i;
                 tr = \<lparr>tr_identifier = key, tr_point = p, tr_last_ms = tc_observed_ms c, tr_sequence = fi_sequence (tc_frame c),
                       tr_side = settled_side (et_line t) p, tr_crossed = False\<rparr>
             in (assignments @ [(pn_candidate_id point, key)], crossings, AList.update key tr next_tracks))))"

definition observation_ok :: "track_context \<Rightarrow> entrance_tracker \<Rightarrow> bool" where
  "observation_ok c t \<longleftrightarrow> fi_source_id (tc_frame c) = et_source_id t \<and> 0 \<le> tc_observed_ms c \<and> 0 \<le> tc_uncertainty_us c
     \<and> distinct (map pn_candidate_id (tc_points c))"

definition gate_admits :: "quality_gate \<Rightarrow> quality_decision \<Rightarrow> track_context \<Rightarrow> entrance_tracker \<Rightarrow> bool" where
  "gate_admits gate decision c t \<longleftrightarrow> gate_source_id gate = et_source_id t \<and> qp_detector (gate_policy gate) = ''entrance_crossing''
     \<and> observation (fst (guard_result None decision (Some (Detection OBS_PRESENT R_EVALUATED)) X_SUCCEEDED (tc_frame c) gate ()))
         = OBS_PRESENT"

abbreviation unknown_update :: track_update where
  "unknown_update \<equiv> \<lparr>tu_assignments = [], tu_crossings = [], tu_quality = Q_UNKNOWN\<rparr>"

definition restream :: "frame_identity \<Rightarrow> entrance_tracker \<Rightarrow> entrance_tracker" where
  "restream frame t = (if et_stream t \<noteq> Some (fi_stream_id frame) then (tracker_close t)\<lparr>et_stream := Some (fi_stream_id frame)\<rparr> else t)"

definition recent_tracks :: "track_context \<Rightarrow> entrance_tracker \<Rightarrow> entrance_tracker" where
  "recent_tracks c t = t\<lparr>et_sequence := fi_sequence (tc_frame c), et_last_ms := Some (tc_observed_ms c),
     et_tracks := filter (\<lambda>(k, tr). tc_observed_ms c - tr_last_ms tr \<le> max_gap_ms (et_policy t)) (et_tracks t)\<rparr>"

definition tracker_update :: "quality_gate \<Rightarrow> quality_decision \<Rightarrow> track_context \<Rightarrow> entrance_tracker
    \<Rightarrow> (track_error, track_update, entrance_tracker) outcome" where
  "tracker_update gate decision c t =
     (if \<not> observation_ok c t then (Inl INVALID_TRACK_OBSERVATION, t)
      else if max_tracks (et_policy t) < length (tc_points c) then (Inl TRACKING_RESOURCE_LIMIT, tracker_close t)
      else if \<not> gate_admits gate decision c t then (Inr unknown_update, tracker_close t)
      else let t1 = restream (tc_frame c) t in
        if fi_sequence (tc_frame c) \<le> et_sequence t1 \<or> (case et_last_ms t1 of None \<Rightarrow> False | Some l \<Rightarrow> tc_observed_ms c < l)
        then (Inr unknown_update, tracker_close t1)
        else let t2 = recent_tracks c t1 in
          (case fold (point_step c t2) (enumerate 0 (tc_points c)) ([], [], []) of (assignments, crossings, next_tracks) \<Rightarrow>
            (Inr \<lparr>tu_assignments = assignments, tu_crossings = crossings, tu_quality = Q_SUFFICIENT\<rparr>, t2\<lparr>et_tracks := next_tracks\<rparr>)))"

end
