(* ===== verification/Entrance_Crossings.thy ===== *)
theory Entrance_Crossings
  imports Entrance_Tracking
begin

text \<open>
  What a reported crossing rests on, in every history of a tracker: a path of points in consecutive frames of one stream,
  from one settled side of the line to the other, that crosses the finite entrance in the reported direction. Between
  the two ends nobody was settled, no frame was missing and the quality gate admitted every frame.
\<close>

section \<open>Paths\<close>

text \<open>A path is a list of points, newest first; a frame of the history is its stream, sequence number and points.\<close>

type_synonym seen_frame = "uuid \<times> int \<times> track_point list"

fun traced :: "seen_frame list \<Rightarrow> track_point list \<Rightarrow> bool" where
  "traced ((stream, n, ps) # h) [p] \<longleftrightarrow> p \<in> set ps"
| "traced ((stream, n, ps) # (stream', m, ps') # h) (p # q # path) \<longleftrightarrow>
     p \<in> set ps \<and> stream = stream' \<and> n = m + 1 \<and> traced ((stream', m, ps') # h) (q # path)"
| "traced h path \<longleftrightarrow> False"

definition passes :: "entrance_line \<Rightarrow> int \<Rightarrow> track_point \<Rightarrow> track_point \<Rightarrow> bool" where
  "passes l s p q \<longleftrightarrow> intersects l p q \<and> line_distance l p * line_distance l q \<le> 0 \<and> line_distance l q \<noteq> 0 \<and> sign_of (line_distance l q) = s"

definition crossed_path :: "entrance_line \<Rightarrow> int \<Rightarrow> track_point list \<Rightarrow> bool" where
  "crossed_path l s path \<longleftrightarrow> settled_side l (hd path) = s \<and> settled_side l (last path) = - s
     \<and> (\<forall>q \<in> set (butlast (tl path)). settled_side l q = 0)
     \<and> (\<exists>k. Suc k < length path \<and> passes l s (path ! Suc k) (path ! k))"

text \<open>What a track remembers of its path since the last settled point.\<close>

definition remembers :: "entrance_line \<Rightarrow> track \<Rightarrow> track_point list \<Rightarrow> bool" where
  "remembers l tr path \<longleftrightarrow> path \<noteq> [] \<and> hd path = tr_point tr \<and> settled_side l (last path) = tr_side tr
     \<and> (\<forall>q \<in> set (butlast path). settled_side l q = 0)
     \<and> (tr_crossed tr \<longrightarrow> (\<exists>k s. Suc k < length path \<and> s \<noteq> tr_side tr \<and> passes l s (path ! Suc k) (path ! k)))"

lemma settled_side_values: "settled_side l p \<in> {-1, 0, 1}"
  by (simp add: settled_side_def Let_def)

lemma sign_of_values: "sign_of v = 1 \<or> sign_of v = -1"
  by (simp add: sign_of_def)

lemma passes_later: "(\<exists>k s. Suc k < length path \<and> s \<noteq> d \<and> passes l s (path ! Suc k) (path ! k))
    \<Longrightarrow> \<exists>k s. Suc k < length (q # path) \<and> s \<noteq> d \<and> passes l s ((q # path) ! Suc k) ((q # path) ! k)"
  by (metis Suc_less_eq length_Cons nth_Cons_Suc)

text \<open>One observation in the next frame.\<close>

lemma advance_consecutive:
  assumes "remembers l tr path" "n = tr_sequence tr + 1" "advance_track l tr p ms n = (s, tr')"
  shows "remembers l tr' (if settled_side l p = 0 then p # path else [p])" "s \<noteq> 0 \<Longrightarrow> crossed_path l s (p # path)"
proof -
  let ?after = "line_distance l p"
  let ?before = "line_distance l (tr_point tr)"
  define tr1 where "tr1 = (if ?before \<noteq> ?after \<and> ?before * ?after \<le> 0 \<and> ?after \<noteq> 0
      then tr\<lparr>tr_crossed := (intersects l (tr_point tr) p \<and> sign_of ?after \<noteq> tr_side tr)\<rparr> else tr)"
  have side1: "tr_side tr1 = tr_side tr" by (simp add: tr1_def)
  have path: "path \<noteq> []" "hd path = tr_point tr" "settled_side l (last path) = tr_side tr" "\<forall>q \<in> set (butlast path). settled_side l q = 0"
    using assms(1) by (simp_all add: remembers_def)
  have now: "\<exists>k s. Suc k < length (p # path) \<and> s \<noteq> tr_side tr \<and> passes l s ((p # path) ! Suc k) ((p # path) ! k)" if cr: "tr_crossed tr1"
  proof (cases "?before \<noteq> ?after \<and> ?before * ?after \<le> 0 \<and> ?after \<noteq> 0")
    case True
    with cr have "passes l (sign_of ?after) (hd path) p" "sign_of ?after \<noteq> tr_side tr" by (simp_all add: tr1_def passes_def path(2))
    then show ?thesis using path(1) by (intro exI [of _ 0] exI [of _ "sign_of ?after"]) (simp add: hd_conv_nth)
  next
    case False
    with cr have "tr_crossed tr" by (simp add: tr1_def)
    then show ?thesis using assms(1) by (intro passes_later) (simp add: remembers_def)
  qed
  have adv: "advance_track l tr p ms n =
     (let move = (\<lambda>x. x\<lparr>tr_point := p, tr_last_ms := ms, tr_sequence := n\<rparr>); side = settled_side l p
      in if side \<noteq> 0 \<and> tr_side tr1 \<noteq> 0 \<and> side \<noteq> tr_side tr1
         then ((if tr_crossed tr1 then side else 0), move (tr1\<lparr>tr_side := side, tr_crossed := False\<rparr>))
         else if side \<noteq> 0 \<and> side = tr_side tr1 then (0, move (tr1\<lparr>tr_crossed := False\<rparr>))
         else if side \<noteq> 0 \<and> tr_side tr1 = 0 then (0, move (tr1\<lparr>tr_side := side, tr_crossed := False\<rparr>))
         else (0, move tr1))"
    unfolding advance_track_def tr1_def Let_def using assms(2) by simp
  show "remembers l tr' (if settled_side l p = 0 then p # path else [p])"
  proof (cases "settled_side l p = 0")
    case True
    then have "tr' = tr1\<lparr>tr_point := p, tr_last_ms := ms, tr_sequence := n\<rparr>" using assms(3) adv by (simp add: Let_def)
    then show ?thesis using True path now side1 by (auto simp: remembers_def)
  next
    case False
    then have "tr_side tr' = settled_side l p \<and> \<not> tr_crossed tr' \<and> tr_point tr' = p"
      using assms(3) adv by (auto simp: Let_def split: if_splits)
    then show ?thesis using False by (simp add: remembers_def)
  qed
  assume "s \<noteq> 0"
  with assms(3) adv side1 have s: "s = settled_side l p" "tr_side tr \<noteq> 0" "s \<noteq> tr_side tr" "tr_crossed tr1" "s \<noteq> 0"
    by (auto simp: Let_def split: if_splits)
  have opp: "x = s" if "x \<noteq> tr_side tr" "x = 1 \<or> x = -1" for x
    using that s settled_side_values [of l p] settled_side_values [of l "last path"] path(3) by auto
  obtain k x where k: "Suc k < length (p # path)" "x \<noteq> tr_side tr" "passes l x ((p # path) ! Suc k) ((p # path) ! k)" using now [OF s(4)] by blast
  then have "x = s" using sign_of_values by (intro opp) (auto simp: passes_def)
  moreover have "tr_side tr = - s" using s settled_side_values [of l p] settled_side_values [of l "last path"] path(3) by auto
  ultimately show "crossed_path l s (p # path)" using k path s(1) by (auto simp: crossed_path_def)
qed

lemma advance_gap:
  assumes "n \<noteq> tr_sequence tr + 1" "advance_track l tr p ms n = (s, tr')"
  shows "remembers l tr' [p]" "s = 0"
  using assms by (auto simp: advance_track_def remembers_def Let_def)

lemma advance_position: "advance_track l tr p ms n = (s, tr') \<Longrightarrow> tr_sequence tr' = n \<and> tr_last_ms tr' = ms \<and> tr_point tr' = p"
  by (auto simp: advance_track_def Let_def split: if_splits)

section \<open>Histories of a tracker\<close>

definition seen :: "track_context \<Rightarrow> seen_frame" where
  "seen c = (fi_stream_id (tc_frame c), fi_sequence (tc_frame c), map pn_point (tc_points c))"

definition history_after :: "track_context \<Rightarrow> track_error + track_update \<Rightarrow> seen_frame list \<Rightarrow> seen_frame list" where
  "history_after c r h = (case r of Inl _ \<Rightarrow> h | Inr u \<Rightarrow> if tu_quality u = Q_SUFFICIENT then seen c # h else h)"

inductive tracker_life :: "uuid \<Rightarrow> tracking_policy \<Rightarrow> entrance_line \<Rightarrow> entrance_tracker \<Rightarrow> seen_frame list \<Rightarrow> bool"
  for source_id policy line where
  life_start: "tracker_life source_id policy line (tracker_init source_id policy line) []"
| life_update: "\<lbrakk>tracker_life source_id policy line t h; tracker_update gate decision c t = (r, t')\<rbrakk>
    \<Longrightarrow> tracker_life source_id policy line t' (history_after c r h)"
| life_close: "tracker_life source_id policy line t h \<Longrightarrow> tracker_life source_id policy line (tracker_close t) h"

text \<open>Every track was seen in the newest frame of the history and remembers a path through it.\<close>

definition track_seen :: "entrance_tracker \<Rightarrow> seen_frame list \<Rightarrow> track \<Rightarrow> bool" where
  "track_seen t h tr \<longleftrightarrow> h \<noteq> [] \<and> et_stream t = Some (fst (hd h)) \<and> tr_sequence tr = fst (snd (hd h))
     \<and> (\<exists>path. remembers (et_line t) tr path \<and> traced h path)"

definition tracks_seen :: "entrance_tracker \<Rightarrow> seen_frame list \<Rightarrow> bool" where
  "tracks_seen t h \<longleftrightarrow> (\<forall>(k, tr) \<in> set (et_tracks t). track_seen t h tr)"

lemma traced_start: "p \<in> set ps \<Longrightarrow> traced ((stream, n, ps) # h) [p]"
  by (cases h) auto

lemma traced_step: "\<lbrakk>traced h path; h \<noteq> []; path \<noteq> []; p \<in> set ps; fst (hd h) = stream; n = fst (snd (hd h)) + 1\<rbrakk>
    \<Longrightarrow> traced ((stream, n, ps) # h) (p # path)"
  by (cases h; cases path) auto

text \<open>What the loop reports of the person at a position: the path ends in this person's point.\<close>

definition reported :: "track_context \<Rightarrow> entrance_tracker \<Rightarrow> seen_frame list \<Rightarrow> crossing \<Rightarrow> bool" where
  "reported c t h x \<longleftrightarrow> (\<exists>i point s path. i < length (tc_points c) \<and> point = tc_points c ! i
     \<and> x = crossing_of c t i point s \<and> s \<noteq> 0 \<and> crossed_path (et_line t) s path \<and> traced (seen c # h) path \<and> hd path = pn_point point)"

lemma advanced_point:
  assumes "track_seen t h old" "et_stream t = Some (fi_stream_id (tc_frame c))" "point \<in> set (tc_points c)"
    and "advance_track (et_line t) old (pn_point point) ms (fi_sequence (tc_frame c)) = (s, tr)"
  shows "\<exists>path. remembers (et_line t) tr path \<and> traced (seen c # h) path"
    "s \<noteq> 0 \<Longrightarrow> \<exists>path. crossed_path (et_line t) s path \<and> traced (seen c # h) path \<and> hd path = pn_point point"
proof -
  let ?p = "pn_point point"
  obtain path where path: "remembers (et_line t) old path" "traced h path" and h: "h \<noteq> []" "fst (hd h) = fi_stream_id (tc_frame c)"
    "tr_sequence old = fst (snd (hd h))" using assms(1,2) by (auto simp: track_seen_def)
  have p: "?p \<in> set (map pn_point (tc_points c))" using assms(3) by simp
  have one: "traced (seen c # h) [?p]" unfolding seen_def by (rule traced_start [OF p])
  have more: "traced (seen c # h) (?p # path)" if "fi_sequence (tc_frame c) = tr_sequence old + 1"
    unfolding seen_def using path h that p by (intro traced_step) (auto simp: remembers_def)
  show "\<exists>path. remembers (et_line t) tr path \<and> traced (seen c # h) path"
  proof (cases "fi_sequence (tc_frame c) = tr_sequence old + 1")
    case True
    from advance_consecutive(1) [OF path(1) True assms(4)] one more [OF True] show ?thesis by (metis (full_types))
  next
    case False
    from advance_gap(1) [OF this assms(4)] one show ?thesis by blast
  qed
  assume "s \<noteq> 0"
  with advance_gap(2) [OF _ assms(4)] have seq: "fi_sequence (tc_frame c) = tr_sequence old + 1" by blast
  show "\<exists>path. crossed_path (et_line t) s path \<and> traced (seen c # h) path \<and> hd path = ?p"
    using advance_consecutive(2) [OF path(1) seq assms(4) \<open>s \<noteq> 0\<close>] more [OF seq] by (intro exI [of _ "?p # path"]) simp
qed

lemma point_step_seen:
  assumes "tracks_seen t h" "et_stream t = Some (fi_stream_id (tc_frame c))" "(i, point) \<in> set (enumerate 0 (tc_points c))"
    and "\<forall>(k, tr) \<in> set nt. track_seen t (seen c # h) tr" "\<forall>x \<in> set cs. reported c t h x"
    and "point_step c t (i, point) (as, cs, nt) = (as', cs', nt')"
  shows "(\<forall>(k, tr) \<in> set nt'. track_seen t (seen c # h) tr) \<and> (\<forall>x \<in> set cs'. reported c t h x)"
proof -
  let ?p = "pn_point point"
  have i: "i < length (tc_points c)" "point = tc_points c ! i" using assms(3) by (auto simp: in_set_enumerate_eq)
  then have mem: "point \<in> set (tc_points c)" by simp
  show ?thesis
  proof (cases "Option.bind (associated (et_policy t) (et_tracks t) (tc_points c) ?p) (map_of (et_tracks t))")
    case None
    let ?tr = "\<lparr>tr_identifier = tc_ids c i, tr_point = ?p, tr_last_ms = tc_observed_ms c, tr_sequence = fi_sequence (tc_frame c),
        tr_side = settled_side (et_line t) ?p, tr_crossed = False\<rparr>"
    have "traced (seen c # h) [?p]" unfolding seen_def using mem by (intro traced_start) simp
    then have "track_seen t (seen c # h) ?tr"
      using assms(2) by (auto simp: track_seen_def seen_def remembers_def intro!: exI [of _ "[?p]"])
    moreover have "nt' = AList.update (tc_ids c i) ?tr nt" "cs' = cs"
      using assms(6) None by (auto simp: point_step_def Let_def split: option.splits)
    ultimately show ?thesis using dict_all_update [OF assms(4)] assms(5) by simp
  next
    case (Some old)
    then obtain k where k: "associated (et_policy t) (et_tracks t) (tc_points c) ?p = Some k" "map_of (et_tracks t) k = Some old"
      by (auto simp: bind_eq_Some_conv)
    obtain s tr where adv: "advance_track (et_line t) old ?p (tc_observed_ms c) (fi_sequence (tc_frame c)) = (s, tr)" by fastforce
    have old: "track_seen t h old" using map_of_SomeD [OF k(2)] assms(1) by (auto simp: tracks_seen_def)
    have "track_seen t (seen c # h) tr"
      using advanced_point(1) [OF old assms(2) mem adv] advance_position [OF adv] assms(2) by (simp add: track_seen_def seen_def)
    moreover have "nt' = AList.update k tr nt" "cs' = (if s \<noteq> 0 then cs @ [crossing_of c t i point s] else cs)"
      using assms(6) k adv by (auto simp: point_step_def Let_def)
    moreover have "reported c t h (crossing_of c t i point s)" if "s \<noteq> 0"
      using advanced_point(2) [OF old assms(2) mem adv that] i that unfolding reported_def by blast
    ultimately show ?thesis using dict_all_update [OF assms(4)] assms(5) by (auto split: if_splits)
  qed
qed

lemma point_steps_seen:
  assumes "tracks_seen t h" "et_stream t = Some (fi_stream_id (tc_frame c))"
  shows "\<lbrakk>set ips \<subseteq> set (enumerate 0 (tc_points c)); \<forall>(k, tr) \<in> set nt. track_seen t (seen c # h) tr; \<forall>x \<in> set cs. reported c t h x;
      fold (point_step c t) ips (as, cs, nt) = (as', cs', nt')\<rbrakk>
    \<Longrightarrow> (\<forall>(k, tr) \<in> set nt'. track_seen t (seen c # h) tr) \<and> (\<forall>x \<in> set cs'. reported c t h x)"
proof (induction ips arbitrary: as cs nt)
  case (Cons ip ips)
  obtain i point where ip: "ip = (i, point)" by fastforce
  obtain as1 cs1 nt1 where st: "point_step c t (i, point) (as, cs, nt) = (as1, cs1, nt1)" using prod_cases3 by blast
  have "(\<forall>(k, tr) \<in> set nt1. track_seen t (seen c # h) tr) \<and> (\<forall>x \<in> set cs1. reported c t h x)"
    using Cons.prems ip by (intro point_step_seen [OF assms _ _ _ st]) auto
  then show ?case using Cons.IH [of nt1 cs1 as1] Cons.prems st ip by auto
qed auto

text \<open>An update either clears the tracker, leaves it alone, or processes the points.\<close>

lemma update_cases:
  assumes "tracker_update gate decision c t = (r, t')"
  obtains (refused) "r = Inl INVALID_TRACK_OBSERVATION" "t' = t"
  | (cleared) u where "r = Inl TRACKING_RESOURCE_LIMIT \<or> r = Inr u \<and> tu_quality u = Q_UNKNOWN \<and> tu_crossings u = []"
      "et_tracks t' = []" "et_line t' = et_line t" "et_policy t' = et_policy t" "et_source_id t' = et_source_id t"
  | (processed) as cs nt where "gate_admits gate decision c t" "length (tc_points c) \<le> max_tracks (et_policy t)"
      "fold (point_step c (recent_tracks c (restream (tc_frame c) t))) (enumerate 0 (tc_points c)) ([], [], []) = (as, cs, nt)"
      "r = Inr \<lparr>tu_assignments = as, tu_crossings = cs, tu_quality = Q_SUFFICIENT\<rparr>"
      "t' = (recent_tracks c (restream (tc_frame c) t))\<lparr>et_tracks := nt\<rparr>"
proof -
  let ?t2 = "recent_tracks c (restream (tc_frame c) t)"
  obtain as cs nt where f: "fold (point_step c ?t2) (enumerate 0 (tc_points c)) ([], [], []) = (as, cs, nt)" using prod_cases3 by blast
  let ?late = "fi_sequence (tc_frame c) \<le> et_sequence (restream (tc_frame c) t)
      \<or> (case et_last_ms (restream (tc_frame c) t) of None \<Rightarrow> False | Some l \<Rightarrow> tc_observed_ms c < l)"
  consider "\<not> observation_ok c t" | "observation_ok c t" "max_tracks (et_policy t) < length (tc_points c)"
    | "observation_ok c t" "length (tc_points c) \<le> max_tracks (et_policy t)" "\<not> gate_admits gate decision c t \<or> ?late"
    | "observation_ok c t" "length (tc_points c) \<le> max_tracks (et_policy t)" "gate_admits gate decision c t" "\<not> ?late" by linarith
  then show ?thesis
  proof cases
    case 1
    with assms show ?thesis by (intro refused) (simp_all add: tracker_update_def)
  next
    case 2
    with assms have "r = Inl TRACKING_RESOURCE_LIMIT" "t' = tracker_close t" by (simp_all add: tracker_update_def)
    then show ?thesis by (intro cleared [of unknown_update]) (simp_all add: tracker_close_def)
  next
    case 3
    with assms have "r = Inr unknown_update" "t' = tracker_close t \<or> t' = tracker_close (restream (tc_frame c) t)"
      by (auto simp: tracker_update_def Let_def split: if_splits)
    then show ?thesis by (intro cleared [of unknown_update]) (auto simp: tracker_close_def restream_def)
  next
    case 4
    with assms f have "r = Inr \<lparr>tu_assignments = as, tu_crossings = cs, tu_quality = Q_SUFFICIENT\<rparr>" "t' = ?t2\<lparr>et_tracks := nt\<rparr>"
      by (simp_all add: tracker_update_def Let_def)
    with 4 f show ?thesis by (intro processed)
  qed
qed

lemma prepared_tracks:
  "et_line (recent_tracks c (restream f t)) = et_line t" "et_policy (recent_tracks c (restream f t)) = et_policy t"
  "et_source_id (recent_tracks c (restream f t)) = et_source_id t" "et_stream (recent_tracks c (restream f t)) = Some (fi_stream_id f)"
  "et_sequence (recent_tracks c (restream f t)) = fi_sequence (tc_frame c)"
  "tracks_seen t h \<Longrightarrow> tracks_seen (recent_tracks c (restream f t)) h"
  by (auto simp: recent_tracks_def restream_def tracker_close_def tracks_seen_def track_seen_def)

lemma processed_seen:
  assumes "tracks_seen t h" "fold (point_step c (recent_tracks c (restream (tc_frame c) t))) (enumerate 0 (tc_points c)) ([], [], []) = (as, cs, nt)"
  shows "tracks_seen ((recent_tracks c (restream (tc_frame c) t))\<lparr>et_tracks := nt\<rparr>) (seen c # h)"
    "\<forall>x \<in> set cs. reported c (recent_tracks c (restream (tc_frame c) t)) h x"
proof -
  let ?t2 = "recent_tracks c (restream (tc_frame c) t)"
  have "(\<forall>(k, tr) \<in> set nt. track_seen ?t2 (seen c # h) tr) \<and> (\<forall>x \<in> set cs. reported c ?t2 h x)"
    using assms by (intro point_steps_seen [of ?t2 h c "enumerate 0 (tc_points c)" "[]" "[]" "[]" as])
      (auto simp: prepared_tracks)
  then show "tracks_seen (?t2\<lparr>et_tracks := nt\<rparr>) (seen c # h)" "\<forall>x \<in> set cs. reported c ?t2 h x"
    by (auto simp: tracks_seen_def track_seen_def)
qed

lemma processed_length:
  "fold (point_step c t) ips (as, cs, nt) = (as', cs', nt') \<Longrightarrow> dict_ok nt \<Longrightarrow> dict_ok nt' \<and> length nt' \<le> length nt + length ips"
proof (induction ips arbitrary: as cs nt)
  case (Cons ip ips)
  obtain as1 cs1 nt1 where st: "point_step c t ip (as, cs, nt) = (as1, cs1, nt1)" using prod_cases3 by blast
  then have "\<exists>k tr. nt1 = AList.update k tr nt"
    by (auto simp: point_step_def Let_def split: option.splits prod.splits)
  then have "dict_ok nt1" "length nt1 \<le> Suc (length nt)" using Cons.prems(2) dict_length_update_le by (auto simp: dict_ok_update)
  then show ?case using Cons.IH [of as1 cs1 nt1] Cons.prems(1) st by auto
qed simp

lemma tracker_life_inv:
  "tracker_life source_id policy line t h \<Longrightarrow> et_line t = line \<and> et_policy t = policy \<and> et_source_id t = source_id
     \<and> tracks_seen t h \<and> dict_ok (et_tracks t) \<and> length (et_tracks t) \<le> max_tracks policy"
proof (induction rule: tracker_life.induct)
  case (life_update t h gate decision c r t')
  from life_update(2) show ?case
  proof (cases rule: update_cases)
    case (processed as cs nt)
    have "dict_ok nt \<and> length nt \<le> length (tc_points c)" using processed_length [OF processed(3)] by simp
    then show ?thesis using processed processed_seen(1) [OF _ processed(3)] life_update.IH by (auto simp: prepared_tracks history_after_def)
  qed (use life_update.IH in \<open>auto simp: history_after_def tracks_seen_def\<close>)
qed (auto simp: tracker_init_def tracker_close_def tracks_seen_def)

lemma owner_matches_sound: "owner_matches point frame is_current rs = Some ms \<Longrightarrow>
    ms = filter (\<lambda>r. vf_candidate_id r = pn_candidate_id point \<and> vf_frame r = frame \<and> vf_verdict r = MATCH \<and> is_current r = Some True) rs"
  by (induction rs arbitrary: ms) (auto split: if_splits option.splits)

text \<open>A current verification of a person of this frame.\<close>

definition current_match :: "track_context \<Rightarrow> person_point \<Rightarrow> verification \<Rightarrow> bool" where
  "current_match c point r \<longleftrightarrow> r \<in> set (tc_owner_results c) \<and> vf_candidate_id r = pn_candidate_id point \<and> vf_frame r = tc_frame c
     \<and> vf_verdict r = MATCH \<and> (case tc_owner_verifier c of None \<Rightarrow> False | Some is_current \<Rightarrow> is_current r = Some True)"

lemma owner_of_current:
  assumes "owner_of point (tc_frame c) (tc_owner_results c) (tc_owner_verifier c) = Some r"
  shows "current_match c point r" "\<And>r'. current_match c point r' \<Longrightarrow> r' = r"
proof -
  obtain is_current where v: "tc_owner_verifier c = Some is_current" "owner_matches point (tc_frame c) is_current (tc_owner_results c) = Some [r]"
    using assms by (auto simp: owner_of_def split: option.splits list.splits)
  from arg_cong [OF owner_matches_sound [OF v(2)], of set] show "current_match c point r" "\<And>r'. current_match c point r' \<Longrightarrow> r' = r"
    using v(1) by (auto simp: current_match_def)
qed

text \<open>
  C31. A reported crossing rests on uninterrupted evidence: in every history of a tracker, each crossing of an update has a
  direction \<open>s\<close> and a path of observed points through consecutive frames of one stream, ending in this frame, that
  starts settled on one side, is settled nowhere in between, ends settled on the other side and passes through the finite
  entrance towards \<open>s\<close>; the kind of the crossing tells this direction, and the quality gate admitted the frame.
\<close>

theorem crossing_rests_on_path:
  assumes "tracker_life source_id policy line t h" "tracker_update gate decision c t = (Inr u, t')" "x \<in> set (tu_crossings u)"
  shows "gate_admits gate decision c t \<and>
    (\<exists>s path. (s = 1 \<or> s = -1) \<and> crossed_path line s path \<and> traced (seen c # h) path
       \<and> (cx_kind x = OWNER_ENTRY \<or> cx_kind x = ANONYMOUS_ENTRY \<longleftrightarrow> s = entry_direction line))"
  using assms(2)
proof (cases rule: update_cases)
  case (processed as cs nt)
  let ?t2 = "recent_tracks c (restream (tc_frame c) t)"
  have t: "et_line t = line" "tracks_seen t h" using tracker_life_inv [OF assms(1)] by blast+
  have "reported c ?t2 h x" using processed_seen(2) [OF t(2) processed(3)] processed(4) assms(3) by simp
  then obtain i point s path where x: "x = crossing_of c ?t2 i point s" "s \<noteq> 0" "crossed_path line s path" "traced (seen c # h) path"
    unfolding reported_def prepared_tracks t(1) by blast
  have "s = 1 \<or> s = -1" using x(2,3) settled_side_values [of line "hd path"] by (auto simp: crossed_path_def)
  moreover have "cx_kind x = OWNER_ENTRY \<or> cx_kind x = ANONYMOUS_ENTRY \<longleftrightarrow> s = entry_direction line"
    unfolding x(1) by (simp add: crossing_of_def Let_def prepared_tracks t(1))
  ultimately show ?thesis using x(3,4) processed(1) by blast
qed (use assms(3) in auto)

text \<open>
  C32. A crossing is called the Owner's only for the verified person who crossed: it is reported for one position of the
  frame's list of persons, the path that crossed the line ends in that person's point, for that very person exactly one
  presented verification is a match that the verifier calls current, and the confidence is that verification's; it is confirmed
  only when the clock of the observation is trusted as well.
\<close>

theorem owner_crossing_verified:
  assumes "tracker_life source_id policy line t h" "tracker_update gate decision c t = (Inr u, t')" "x \<in> set (tu_crossings u)"
    and "cx_kind x = OWNER_ENTRY \<or> cx_kind x = OWNER_EXIT \<or> cx_confirmed x"
  shows "\<exists>i s path r. i < length (tc_points c) \<and> cx_identifier x = tc_ids c i
    \<and> crossed_path line s path \<and> traced (seen c # h) path \<and> hd path = pn_point (tc_points c ! i)
    \<and> current_match c (tc_points c ! i) r \<and> (\<forall>r'. current_match c (tc_points c ! i) r' \<longrightarrow> r' = r)
    \<and> cx_confidence x = vf_confidence r \<and> cx_confirmed x = tc_clock_trusted c"
  using assms(2)
proof (cases rule: update_cases)
  case (processed as cs nt)
  let ?t2 = "recent_tracks c (restream (tc_frame c) t)"
  have t: "et_line t = line" "tracks_seen t h" using tracker_life_inv [OF assms(1)] by blast+
  have "reported c ?t2 h x" using processed_seen(2) [OF t(2) processed(3)] processed(4) assms(3) by simp
  then obtain i s path where x: "x = crossing_of c ?t2 i (tc_points c ! i) s" "i < length (tc_points c)"
    and path: "crossed_path line s path" "traced (seen c # h) path" "hd path = pn_point (tc_points c ! i)"
    unfolding reported_def prepared_tracks t(1) by blast
  then obtain r where r: "owner_of (tc_points c ! i) (tc_frame c) (tc_owner_results c) (tc_owner_verifier c) = Some r"
    using assms(4) by (auto simp: crossing_of_def Let_def split: if_splits)
  then have "cx_identifier x = tc_ids c i" "cx_confidence x = vf_confidence r" "cx_confirmed x = tc_clock_trusted c"
    unfolding x(1) by (simp_all add: crossing_of_def Let_def)
  then show ?thesis using owner_of_current [OF r] x(2) path by blast
qed (use assms(3) in auto)

section \<open>A concrete walk\<close>

text \<open>The Owner walks from the left to the right of a door in the middle of the picture.\<close>

definition ex_door :: entrance_line where
  "ex_door = \<lparr>ln_start = \<lparr>tp_x = 1/2, tp_y = 0\<rparr>, ln_end = \<lparr>tp_x = 1/2, tp_y = 1\<rparr>, entry_direction = -1, hysteresis_distance = 1/10\<rparr>"

definition ex_tracking :: tracking_policy where
  "ex_tracking = \<lparr>max_tracks = 4, max_gap_ms = 1000, max_distance = 1\<rparr>"

definition ex_walk_frame :: "int \<Rightarrow> frame_identity" where
  "ex_walk_frame n = \<lparr>fi_source_id = 1, fi_stream_id = 2, fi_sequence = n\<rparr>"

definition ex_walk_decision :: "int \<Rightarrow> quality_decision" where
  "ex_walk_decision n = \<lparr>qd_identity = (0, nat n), qd_frame = ex_walk_frame n, qd_detector = ''entrance_crossing'', qd_policy_version = 1,
     qd_quality = Q_SUFFICIENT, qd_metrics = [], qd_findings = [], qd_recovery_count = 1\<rparr>"

definition ex_walk_gate :: "int \<Rightarrow> quality_gate" where
  "ex_walk_gate n = (quality_gate_init 0 1 \<lparr>qp_detector = ''entrance_crossing'', qp_version = 1, qp_rules = [], recovery_frames = 1,
     qp_maximum_pixels = 4\<rparr>)\<lparr>gate_latest := Some (ex_walk_decision n)\<rparr>"

definition ex_walk_match :: "int \<Rightarrow> verification" where
  "ex_walk_match n = \<lparr>vf_candidate_id = 7, vf_frame = ex_walk_frame n, vf_generation = 0, vf_verdict = MATCH, vf_confidence = Some (9/10),
     vf_reason = VR_EVALUATED, vf_receipt_id = 8\<rparr>"

definition ex_walk :: "int \<Rightarrow> real \<Rightarrow> track_context" where
  "ex_walk n x = \<lparr>tc_frame = ex_walk_frame n, tc_points = [\<lparr>pn_candidate_id = 7, pn_point = \<lparr>tp_x = x, tp_y = 1/2\<rparr>\<rparr>], tc_observed_ms = 100 * n,
     tc_occurred_at = n, tc_received_at = n, tc_clock_trusted = True, tc_uncertainty_us = 0, tc_owner_results = [ex_walk_match n],
     tc_owner_verifier = Some (\<lambda>_. Some True), tc_ids = (\<lambda>i. nat n * 10 + i)\<rparr>"

definition ex_inside :: entrance_tracker where
  "ex_inside = (tracker_init 1 ex_tracking ex_door)\<lparr>et_stream := Some 2, et_sequence := 0, et_last_ms := Some 0,
     et_tracks := [(0, \<lparr>tr_identifier = 0, tr_point = \<lparr>tp_x = 1/4, tp_y = 1/2\<rparr>, tr_last_ms = 0, tr_sequence = 0, tr_side = 1, tr_crossed = False\<rparr>)]\<rparr>"

lemmas ex_walk_defs = ex_walk_def ex_walk_match_def ex_walk_gate_def ex_walk_decision_def ex_walk_frame_def ex_tracking_def ex_door_def

lemma ex_walk_admitted: "et_source_id t = 1 \<Longrightarrow> gate_admits (ex_walk_gate n) (ex_walk_decision n) (ex_walk n x) t"
  by (simp add: gate_admits_def guard_result_def guard_decision_def allows_conclusion_def quality_gate_init_def Detection_def ex_walk_defs)

lemma ex_door_distance: "line_distance ex_door p = 1/2 - tp_x p"
  by (simp add: line_distance_def hypot_def ex_door_def)

lemma ex_door_side: "settled_side ex_door p = (if 1/10 < \<bar>1/2 - tp_x p\<bar> then if tp_x p < 1/2 then 1 else -1 else 0)"
  by (simp add: settled_side_def ex_door_distance) (simp add: ex_door_def)

lemma ex_first: "tracker_update (ex_walk_gate 0) (ex_walk_decision 0) (ex_walk 0 (1/4)) (tracker_init 1 ex_tracking ex_door)
    = (Inr \<lparr>tu_assignments = [(7, 0)], tu_crossings = [], tu_quality = Q_SUFFICIENT\<rparr>, ex_inside)"
proof -
  have adm: "gate_admits (ex_walk_gate 0) (ex_walk_decision 0) (ex_walk 0 (1/4)) (tracker_init 1 ex_tracking ex_door)"
    by (rule ex_walk_admitted) (simp add: tracker_init_def)
  have pre: "observation_ok (ex_walk 0 (1/4)) (tracker_init 1 ex_tracking ex_door)" "length (tc_points (ex_walk 0 (1/4))) = 1"
    "max_tracks (et_policy (tracker_init 1 ex_tracking ex_door)) = 4"
    by (simp_all add: observation_ok_def tracker_init_def ex_walk_def ex_walk_frame_def ex_tracking_def)
  show ?thesis unfolding tracker_update_def using adm pre
    by (simp add: restream_def recent_tracks_def tracker_init_def tracker_close_def ex_walk_def ex_walk_frame_def
        point_step_def associated_def track_candidates_def ex_inside_def ex_door_side)
qed

definition ex_entered :: crossing where
  "ex_entered = \<lparr>cx_identifier = 10, cx_kind = OWNER_ENTRY, cx_source_id = 1, cx_occurred_at = 1, cx_received_at = 1, cx_confidence = Some (9/10),
     cx_clock_trusted = True, cx_uncertainty_us = 0, cx_confirmed = True\<rparr>"

lemma ex_second: "\<exists>u. fst (tracker_update (ex_walk_gate 1) (ex_walk_decision 1) (ex_walk 1 (3/4)) ex_inside) = Inr u \<and> tu_crossings u = [ex_entered]"
proof -
  have adm: "gate_admits (ex_walk_gate 1) (ex_walk_decision 1) (ex_walk 1 (3/4)) ex_inside"
    by (rule ex_walk_admitted) (simp add: ex_inside_def tracker_init_def)
  have pre: "observation_ok (ex_walk 1 (3/4)) ex_inside" "length (tc_points (ex_walk 1 (3/4))) = 1" "max_tracks (et_policy ex_inside) = 4"
    by (simp_all add: observation_ok_def tracker_init_def ex_inside_def ex_walk_def ex_walk_frame_def ex_tracking_def)
  have adv: "advance_track ex_door (snd (hd (et_tracks ex_inside))) \<lparr>tp_x = 3/4, tp_y = 1/2\<rparr> 100 1
      = (-1, \<lparr>tr_identifier = 0, tr_point = \<lparr>tp_x = 3/4, tp_y = 1/2\<rparr>, tr_last_ms = 100, tr_sequence = 1, tr_side = -1, tr_crossed = False\<rparr>)"
    by (simp add: advance_track_def ex_door_distance ex_door_side ex_inside_def intersects_def Let_def sign_of_def) (simp add: ex_door_def)
  show ?thesis unfolding tracker_update_def using adm pre adv
    by (simp add: restream_def recent_tracks_def tracker_init_def ex_walk_def ex_walk_frame_def ex_tracking_def near_def hypot_def claimants_def
        point_step_def associated_def track_candidates_def ex_inside_def crossing_of_def owner_of_def ex_walk_match_def ex_entered_def ex_door_def Let_def)
qed

lemma ex_inside_life: "tracker_life 1 ex_tracking ex_door ex_inside [seen (ex_walk 0 (1/4))]"
  using life_update [OF life_start ex_first] by (simp add: history_after_def)

theorem crossing_rests_on_path_witness:
  "\<exists>path. crossed_path ex_door (-1) path \<and> traced [seen (ex_walk 1 (3/4)), seen (ex_walk 0 (1/4))] path"
proof -
  obtain u where u: "fst (tracker_update (ex_walk_gate 1) (ex_walk_decision 1) (ex_walk 1 (3/4)) ex_inside) = Inr u" "tu_crossings u = [ex_entered]"
    using ex_second by blast
  then have "tracker_update (ex_walk_gate 1) (ex_walk_decision 1) (ex_walk 1 (3/4)) ex_inside
      = (Inr u, snd (tracker_update (ex_walk_gate 1) (ex_walk_decision 1) (ex_walk 1 (3/4)) ex_inside))" by (metis prod.collapse)
  moreover have "ex_entered \<in> set (tu_crossings u)" by (simp add: u(2))
  ultimately obtain s path where path: "crossed_path ex_door s path" "traced [seen (ex_walk 1 (3/4)), seen (ex_walk 0 (1/4))] path"
    and s: "cx_kind ex_entered = OWNER_ENTRY \<or> cx_kind ex_entered = ANONYMOUS_ENTRY \<longleftrightarrow> s = entry_direction ex_door"
    using crossing_rests_on_path [OF ex_inside_life] by blast
  have "s = -1" using s by (simp add: ex_entered_def ex_door_def)
  with path show ?thesis by blast
qed

theorem owner_crossing_verified_witness:
  "\<exists>path r. hd path = \<lparr>tp_x = 3/4, tp_y = 1/2\<rparr> \<and> traced [seen (ex_walk 1 (3/4)), seen (ex_walk 0 (1/4))] path
     \<and> current_match (ex_walk 1 (3/4)) (tc_points (ex_walk 1 (3/4)) ! 0) r \<and> vf_confidence r = Some (9/10)"
proof -
  obtain u where u: "fst (tracker_update (ex_walk_gate 1) (ex_walk_decision 1) (ex_walk 1 (3/4)) ex_inside) = Inr u" "tu_crossings u = [ex_entered]"
    using ex_second by blast
  then have run: "tracker_update (ex_walk_gate 1) (ex_walk_decision 1) (ex_walk 1 (3/4)) ex_inside
      = (Inr u, snd (tracker_update (ex_walk_gate 1) (ex_walk_decision 1) (ex_walk 1 (3/4)) ex_inside))" by (metis prod.collapse)
  have kind: "cx_kind ex_entered = OWNER_ENTRY" "cx_confidence ex_entered = Some (9/10)" by (simp_all add: ex_entered_def)
  have crossed: "ex_entered \<in> set (tu_crossings u)" by (simp add: u(2))
  obtain i path r where i: "i < length (tc_points (ex_walk 1 (3/4)))"
    and path: "traced [seen (ex_walk 1 (3/4)), seen (ex_walk 0 (1/4))] path" "hd path = pn_point (tc_points (ex_walk 1 (3/4)) ! i)"
    and r: "current_match (ex_walk 1 (3/4)) (tc_points (ex_walk 1 (3/4)) ! i) r" "cx_confidence ex_entered = vf_confidence r"
    using owner_crossing_verified [OF ex_inside_life run crossed] kind(1) by blast
  have "i = 0" using i by (simp add: ex_walk_def)
  with path r kind(2) show ?thesis by (intro exI [of _ path] exI [of _ r]) (simp add: ex_walk_def)
qed

end
