(* ===== verification/Media_Profiles.thy ===== *)
theory Media_Profiles
  imports Prelude
begin

text \<open>
  Video profiles, stream-copy planning, capture options and the inference sampler:
  \<^verbatim>\<open>server/app/media/profiles/model.py\<close>, \<^verbatim>\<open>planner.py\<close>, \<^verbatim>\<open>options.py\<close> and \<^verbatim>\<open>sampling.py\<close>. A
  \<open>Fraction\<close> is a rational. Constructor checks that only reject values of a wrong Python type have no
  counterpart.
\<close>

text \<open>Dictionary look-ups stay look-ups in the proofs of this and the dependent theories.\<close>

declare map_of_eq_Some_iff [simp del] Some_eq_map_of_iff [simp del]

section \<open>Profiles\<close>

definition positive_int :: "int \<Rightarrow> bool" where
  "positive_int value \<longleftrightarrow> \<not> value \<le> 0"

definition positive_fraction :: "rat \<Rightarrow> bool" where
  "positive_fraction value \<longleftrightarrow> \<not> value \<le> 0"

record video_format =
  vf_width :: int
  vf_height :: int
  vf_fps :: rat
  vf_time_base :: rat
  vf_maximum_bitrate :: int
  vf_codec :: "string option"
  vf_codec_profile :: "string option"
  vf_container :: "string option"
  vf_pixel_format :: "string option"
  vf_color_space :: "string option"
  vf_configuration_sha256 :: "string option"
  vf_verified :: bool
  vf_video_only :: bool

definition lowercase_sha256 :: "string \<Rightarrow> bool" where
  "lowercase_sha256 digest \<longleftrightarrow>
     length digest = 64 \<and> list_all (\<lambda>c. c \<in> set ''0123456789abcdef'') digest"

definition video_format_ok :: "video_format \<Rightarrow> bool" where
  "video_format_ok v \<longleftrightarrow>
     positive_int (vf_width v) \<and> positive_int (vf_height v) \<and> positive_int (vf_maximum_bitrate v)
     \<and> positive_fraction (vf_fps v) \<and> positive_fraction (vf_time_base v)
     \<and> list_all (\<lambda>x. x \<noteq> Some [])
         [vf_codec v, vf_codec_profile v, vf_container v, vf_pixel_format v, vf_color_space v]
     \<and> (case vf_configuration_sha256 v of None \<Rightarrow> True | Some d \<Rightarrow> lowercase_sha256 d)"

record capture_profile =
  cp_format :: video_format
  cp_maximum_timestamp_gap :: rat

record inference_profile =
  ip_width :: int
  ip_height :: int
  ip_fps :: rat
  ip_maximum_timestamp_gap :: rat

definition inference_profile_ok :: "inference_profile \<Rightarrow> bool" where
  "inference_profile_ok p \<longleftrightarrow>
     positive_int (ip_width p) \<and> positive_int (ip_height p) \<and> positive_fraction (ip_fps p)
     \<and> positive_fraction (ip_maximum_timestamp_gap p)"

text \<open>\<open>RecordingProfile\<close> and \<open>ViewerProfile\<close> wrap a single format.\<close>

record source_profiles =
  prof_capture :: capture_profile
  prof_recording :: video_format
  prof_inference :: inference_profile
  prof_viewer :: video_format

record queue_limits =
  ql_maximum_packets :: int
  ql_maximum_bytes :: int

definition queue_limits_ok :: "queue_limits \<Rightarrow> bool" where
  "queue_limits_ok l \<longleftrightarrow> positive_int (ql_maximum_packets l) \<and> positive_int (ql_maximum_bytes l)"

text \<open>The payload of a packet counts only through its length.\<close>

record compressed_packet =
  pk_source_id :: uuid
  pk_stream_id :: uuid
  pk_sequence :: int
  pk_pts :: int
  pk_dts :: int
  pk_time_base :: rat
  pk_keyframe :: bool
  pk_data :: "nat list"

definition compressed_packet_ok :: "compressed_packet \<Rightarrow> bool" where
  "compressed_packet_ok p \<longleftrightarrow>
     \<not> pk_sequence p < 0 \<and> positive_fraction (pk_time_base p) \<and> pk_data p \<noteq> []"

section \<open>Stream-copy planning\<close>

datatype encode_mode = STREAM_COPY | TRANSCODE_REQUIRED

record encode_plan =
  ep_mode :: encode_mode
  ep_reasons :: "string list"
  ep_source :: video_format
  ep_target :: video_format

text \<open>One iteration of the field loop; a field that cannot be None is passed as \<open>Some\<close>.\<close>

definition field_reasons :: "string \<Rightarrow> 'a option \<Rightarrow> 'a option \<Rightarrow> string list" where
  "field_reasons name original requested =
     (if original = None \<or> requested = None then [name @ ''_unknown'']
      else if original \<noteq> requested then [name @ ''_different''] else [])"

definition plan_reasons :: "video_format \<Rightarrow> video_format \<Rightarrow> string list" where
  "plan_reasons source target =
     (if \<not> vf_verified source \<or> \<not> vf_verified target then [''format_not_verified''] else [])
     @ (if \<not> vf_video_only source \<or> \<not> vf_video_only target then [''video_only_not_verified''] else [])
     @ field_reasons ''width'' (Some (vf_width source)) (Some (vf_width target))
     @ field_reasons ''height'' (Some (vf_height source)) (Some (vf_height target))
     @ field_reasons ''fps'' (Some (vf_fps source)) (Some (vf_fps target))
     @ field_reasons ''time_base'' (Some (vf_time_base source)) (Some (vf_time_base target))
     @ field_reasons ''maximum_bitrate'' (Some (vf_maximum_bitrate source)) (Some (vf_maximum_bitrate target))
     @ field_reasons ''codec'' (vf_codec source) (vf_codec target)
     @ field_reasons ''codec_profile'' (vf_codec_profile source) (vf_codec_profile target)
     @ field_reasons ''container'' (vf_container source) (vf_container target)
     @ field_reasons ''pixel_format'' (vf_pixel_format source) (vf_pixel_format target)
     @ field_reasons ''color_space'' (vf_color_space source) (vf_color_space target)
     @ field_reasons ''configuration_sha256'' (vf_configuration_sha256 source) (vf_configuration_sha256 target)"

definition plan_encoding :: "video_format \<Rightarrow> video_format \<Rightarrow> encode_plan" where
  "plan_encoding source target =
     (let reasons = plan_reasons source target in
      if reasons \<noteq> []
      then \<lparr>ep_mode = TRANSCODE_REQUIRED, ep_reasons = reasons, ep_source = source, ep_target = target\<rparr>
      else \<lparr>ep_mode = STREAM_COPY, ep_reasons = [], ep_source = source, ep_target = target\<rparr>)"

text \<open>A format every codec detail of which is known, verified and video-only.\<close>

definition fully_known :: "video_format \<Rightarrow> bool" where
  "fully_known v \<longleftrightarrow>
     vf_verified v \<and> vf_video_only v \<and> vf_codec v \<noteq> None \<and> vf_codec_profile v \<noteq> None
     \<and> vf_container v \<noteq> None \<and> vf_pixel_format v \<noteq> None \<and> vf_color_space v \<noteq> None
     \<and> vf_configuration_sha256 v \<noteq> None"

lemma field_reasons_Nil:
  "field_reasons name a b = [] \<longleftrightarrow> a \<noteq> None \<and> a = b"
  by (auto simp: field_reasons_def)

text \<open>
  Stream copy is planned exactly for two identical formats that are verified, video-only and leave no
  codec detail unknown; in every other case the plan requires transcoding and names at least one reason.
\<close>

theorem stream_copy_iff_identical_known:
  "(ep_mode (plan_encoding source target) = STREAM_COPY \<longleftrightarrow> source = target \<and> fully_known source)
   \<and> (ep_mode (plan_encoding source target) = TRANSCODE_REQUIRED
        \<longleftrightarrow> ep_reasons (plan_encoding source target) \<noteq> [])"
proof -
  have "plan_reasons source target = [] \<longleftrightarrow> source = target \<and> fully_known source"
    by (cases source; cases target) (auto simp: plan_reasons_def field_reasons_Nil fully_known_def)
  then show ?thesis by (simp add: plan_encoding_def Let_def)
qed

section \<open>Capture options\<close>

datatype capture_option = OPT_STANDARD | OPT_ROOM_OVERVIEW

record room_overview_criteria =
  minimum_capture_width :: int
  minimum_capture_height :: int

definition room_overview_violations :: "source_profiles \<Rightarrow> room_overview_criteria \<Rightarrow> string list" where
  "room_overview_violations profiles criteria =
     (let capture = cp_format (prof_capture profiles);
          recording = prof_recording profiles;
          viewer = prof_viewer profiles;
          inference = prof_inference profiles;
          capture_pixels = vf_width capture * vf_height capture in
      (if vf_width capture < minimum_capture_width criteria
          \<or> vf_height capture < minimum_capture_height criteria
       then [''capture_below_room_overview_minimum''] else [])
      @ (if ip_width inference > vf_width capture \<or> ip_height inference > vf_height capture
            \<or> ip_width inference * ip_height inference \<ge> capture_pixels
         then [''inference_not_downscaled''] else [])
      @ (if ip_fps inference > vf_fps capture then [''inference_fps_exceeds_capture''] else [])
      @ (if vf_width viewer > vf_width capture \<or> vf_height viewer > vf_height capture
            \<or> vf_width viewer * vf_height viewer \<ge> capture_pixels
         then [''viewer_not_downscaled''] else [])
      @ (if vf_fps viewer > vf_fps capture then [''viewer_fps_exceeds_capture''] else [])
      @ (if vf_width recording > vf_width capture \<or> vf_height recording > vf_height capture
         then [''recording_exceeds_capture''] else [])
      @ (if vf_fps recording > vf_fps capture then [''recording_fps_exceeds_capture''] else []))"

section \<open>The inference sampler\<close>

datatype sample_reason =
  SAMPLE_STALE_STREAM | SAMPLE_FIRST_FRAME | SAMPLE_DUPLICATE_TIMESTAMP | SAMPLE_TIMESTAMP_RESET
  | SAMPLE_TIMESTAMP_GAP | SAMPLE_CADENCE

record sample_decision =
  sd_emit :: bool
  sd_reason :: sample_reason
  sd_width :: int
  sd_height :: int

record sampler =
  smp_profile :: inference_profile
  smp_stream_id :: uuid
  smp_previous :: "rat option"
  smp_next :: "rat option"

datatype sampler_error = Sampler_ValueError | Sampler_TypeError

definition sampler_init :: "inference_profile \<Rightarrow> uuid \<Rightarrow> sampler" where
  "sampler_init p stream =
     \<lparr>smp_profile = p, smp_stream_id = stream, smp_previous = None, smp_next = None\<rparr>"

definition replace_profile :: "inference_profile \<Rightarrow> sampler \<Rightarrow> sampler" where
  "replace_profile p s = s\<lparr>smp_profile := p, smp_previous := None, smp_next := None\<rparr>"

definition begin_stream :: "uuid \<Rightarrow> sampler \<Rightarrow> sampler" where
  "begin_stream stream s = s\<lparr>smp_stream_id := stream, smp_previous := None, smp_next := None\<rparr>"

definition sample_result :: "bool \<Rightarrow> sample_reason \<Rightarrow> sampler \<Rightarrow> sample_decision" where
  "sample_result emit r s =
     \<lparr>sd_emit = emit, sd_reason = r, sd_width = ip_width (smp_profile s),
      sd_height = ip_height (smp_profile s)\<rparr>"

text \<open>
  \<open>select\<close>. Comparing with an unset \<open>_next\<close> would raise a \<open>TypeError\<close>; \<open>_next\<close> is set together with
  \<open>_previous\<close>, so that branch is never taken.
\<close>

definition select :: "uuid \<Rightarrow> int \<Rightarrow> rat \<Rightarrow> sampler \<Rightarrow> (sampler_error, sample_decision, sampler) outcome" where
  "select stream pts time_base s =
     (if \<not> positive_fraction time_base then (Inl Sampler_ValueError, s)
      else if stream \<noteq> smp_stream_id s then (Inr (sample_result False SAMPLE_STALE_STREAM s), s)
      else
        let timestamp = of_int pts * time_base;
            period = 1 / ip_fps (smp_profile s) in
        case smp_previous s of
          None \<Rightarrow>
            (Inr (sample_result True SAMPLE_FIRST_FRAME s),
             s\<lparr>smp_previous := Some timestamp, smp_next := Some (timestamp + period)\<rparr>)
        | Some previous \<Rightarrow>
            if timestamp = previous then (Inr (sample_result False SAMPLE_DUPLICATE_TIMESTAMP s), s)
            else
              let delta = timestamp - previous;
                  s1 = s\<lparr>smp_previous := Some timestamp\<rparr> in
              if delta < 0 \<or> delta > ip_maximum_timestamp_gap (smp_profile s)
              then (Inr (sample_result True
                      (if delta < 0 then SAMPLE_TIMESTAMP_RESET else SAMPLE_TIMESTAMP_GAP) s1),
                    s1\<lparr>smp_next := Some (timestamp + period)\<rparr>)
              else case smp_next s1 of
                     None \<Rightarrow> (Inl Sampler_TypeError, s1)
                   | Some nxt \<Rightarrow>
                       if timestamp < nxt then (Inr (sample_result False SAMPLE_CADENCE s1), s1)
                       else
                         let periods = of_int \<lfloor>(timestamp - nxt) / period\<rfloor> + 1 in
                         (Inr (sample_result True SAMPLE_CADENCE s1),
                          s1\<lparr>smp_next := Some (nxt + periods * period)\<rparr>))"

text \<open>
  The sampler's grid: after any accepted frame \<open>_next\<close> is the first grid point after the previous
  timestamp, on a grid of the sampling period anchored at some earlier frame.
\<close>

definition slot :: "rat \<Rightarrow> rat \<Rightarrow> rat \<Rightarrow> int" where
  "slot fps anchor t = \<lfloor>(t - anchor) * fps\<rfloor>"

definition anchored :: "rat \<Rightarrow> sampler \<Rightarrow> bool" where
  "anchored a s \<longleftrightarrow>
     (\<exists>prev. smp_previous s = Some prev
        \<and> smp_next s = Some (a + (of_int (slot (ip_fps (smp_profile s)) a prev) + 1) / ip_fps (smp_profile s)))"

lemma slot_bound_iff: "0 < fps \<Longrightarrow> t < a + (of_int k + 1) / fps \<longleftrightarrow> slot fps a t \<le> k"
  by (simp add: slot_def floor_le_iff field_simps)

lemma slot_mono: "\<lbrakk>0 < fps; t \<le> t'\<rbrakk> \<Longrightarrow> slot fps a t \<le> slot fps a t'"
  by (simp add: slot_def floor_mono)

lemma slot_jump:
  assumes "0 < fps"
  shows "a + (of_int k + 1) / fps + (of_int \<lfloor>(t - (a + (of_int k + 1) / fps)) / (1 / fps)\<rfloor> + 1) * (1 / fps)
    = a + (of_int (slot fps a t) + 1) / fps"
proof -
  have "(t - (a + (of_int k + 1) / fps)) / (1 / fps) = (t - a) * fps - of_int (k + 1)"
    using assms by (simp add: field_simps)
  then have "\<lfloor>(t - (a + (of_int k + 1) / fps)) / (1 / fps)\<rfloor> = slot fps a t - (k + 1)"
    unfolding slot_def by (simp only: floor_diff_of_int)
  then show ?thesis unfolding \<open>\<lfloor>(t - (a + (of_int k + 1) / fps)) / (1 / fps)\<rfloor> = slot fps a t - (k + 1)\<close>
    using assms by (simp add: field_simps)
qed

text \<open>A frame that follows the previous one in order and within the gap is emitted iff it opens a new slot.\<close>

lemma select_in_order:
  fixes pts :: int
  assumes "anchored a s" "0 < ip_fps (smp_profile s)" "0 < tb" "smp_previous s = Some prev"
    and "prev < of_int pts * tb" "of_int pts * tb - prev \<le> ip_maximum_timestamp_gap (smp_profile s)"
  shows "\<exists>d s'. select (smp_stream_id s) pts tb s = (Inr d, s') \<and> anchored a s'
    \<and> smp_profile s' = smp_profile s \<and> smp_stream_id s' = smp_stream_id s
    \<and> smp_previous s' = Some (of_int pts * tb)
    \<and> (sd_emit d \<longleftrightarrow> slot (ip_fps (smp_profile s)) a (of_int pts * tb) \<noteq> slot (ip_fps (smp_profile s)) a prev)"
proof -
  let ?fps = "ip_fps (smp_profile s)" and ?t = "of_int pts * tb"
  let ?k = "slot ?fps a prev"
  have nxt: "smp_next s = Some (a + (of_int ?k + 1) / ?fps)" using assms(1,4) by (simp add: anchored_def)
  have le: "?k \<le> slot ?fps a ?t" using assms(2,5) by (intro slot_mono) simp_all
  show ?thesis
  proof (cases "?t < a + (of_int ?k + 1) / ?fps")
    case True
    then have "slot ?fps a ?t = ?k" using slot_bound_iff [OF assms(2)] le by (metis order.antisym)
    then show ?thesis
      using assms nxt True by (auto simp: select_def positive_fraction_def Let_def sample_result_def anchored_def)
  next
    case False
    then have "slot ?fps a ?t \<noteq> ?k" using slot_bound_iff [OF assms(2)] by auto
    then show ?thesis
      using assms nxt False slot_jump [OF assms(2), of a ?k ?t]
      by (auto simp: select_def positive_fraction_def Let_def sample_result_def anchored_def)
  qed
qed

text \<open>The timestamps a decoder presents, and those of them the sampler emits.\<close>

fun sample_all :: "uuid \<Rightarrow> rat \<Rightarrow> int list \<Rightarrow> sampler \<Rightarrow> int list" where
  "sample_all stream tb [] s = []"
| "sample_all stream tb (pts # rest) s =
     (case select stream pts tb s of
        (Inl _, s') \<Rightarrow> sample_all stream tb rest s'
      | (Inr d, s') \<Rightarrow> (if sd_emit d then [pts] else []) @ sample_all stream tb rest s')"

definition in_presentation_order :: "rat \<Rightarrow> rat \<Rightarrow> int list \<Rightarrow> bool" where
  "in_presentation_order gap tb ps \<longleftrightarrow>
     successively (\<lambda>p q. p < q \<and> of_int q * tb - of_int p * tb \<le> gap) ps"

lemma sample_all_slots:
  assumes "anchored a s" "0 < ip_fps (smp_profile s)" "0 < tb" "smp_previous s = Some (of_int p * tb)"
    and "in_presentation_order (ip_maximum_timestamp_gap (smp_profile s)) tb (p # ps)"
  shows "slot (ip_fps (smp_profile s)) a (of_int p * tb)
      # map (\<lambda>q. slot (ip_fps (smp_profile s)) a (of_int q * tb)) (sample_all (smp_stream_id s) tb ps s)
    = remdups_adj (map (\<lambda>q. slot (ip_fps (smp_profile s)) a (of_int q * tb)) (p # ps))"
  using assms
proof (induction ps arbitrary: p s)
  case (Cons q ps)
  let ?fps = "ip_fps (smp_profile s)"
  have "p < q" "of_int q * tb - of_int p * tb \<le> ip_maximum_timestamp_gap (smp_profile s)"
    and ord: "in_presentation_order (ip_maximum_timestamp_gap (smp_profile s)) tb (q # ps)"
    using Cons.prems(5) by (auto simp: in_presentation_order_def)
  with Cons.prems obtain d s' where sel: "select (smp_stream_id s) q tb s = (Inr d, s')" "anchored a s'"
    "smp_profile s' = smp_profile s" "smp_stream_id s' = smp_stream_id s"
    "smp_previous s' = Some (of_int q * tb)"
    "sd_emit d \<longleftrightarrow> slot ?fps a (of_int q * tb) \<noteq> slot ?fps a (of_int p * tb)"
    using select_in_order [of a s tb "of_int p * tb" q] by auto
  with Cons.IH [of s' q] Cons.prems ord show ?case by auto
qed simp

lemma distinct_remdups_adj_sorted: "sorted (xs :: int list) \<Longrightarrow> distinct (remdups_adj xs)"
  by (induction xs rule: remdups_adj.induct) (auto simp: remdups_adj_set)

lemma remdups_adj_length_bound:
  assumes "sorted xs" "set xs \<subseteq> {0..K}" "0 \<le> K"
  shows "int (length (remdups_adj xs)) \<le> K + 1"
proof -
  have "length (remdups_adj xs) = card (set xs)"
    using distinct_card [OF distinct_remdups_adj_sorted [OF assms(1)]] by simp
  also have "\<dots> \<le> card {0..K}" using assms(2) by (intro card_mono) simp_all
  finally show ?thesis using assms(3) by simp
qed

lemma sorted_le_last: "\<lbrakk>sorted xs; q \<in> set xs\<rbrakk> \<Longrightarrow> q \<le> last xs"
  by (induction xs) auto

lemma presentation_sorted:
  "\<lbrakk>in_presentation_order gap tb ps; 0 < fps; 0 < tb\<rbrakk>
     \<Longrightarrow> sorted ps \<and> sorted (map (\<lambda>q. slot fps a (of_int q * tb)) ps)"
proof -
  assume *: "in_presentation_order gap tb ps" "0 < fps" "0 < tb"
  then have "sorted_wrt (<) ps"
    unfolding in_presentation_order_def
    by (subst successively_iff_sorted_wrt_strong [symmetric]) (auto elim: successively_mono)
  then have "sorted_wrt (\<le>) ps" by (rule sorted_wrt_mono_rel [rotated]) simp
  moreover have "sorted_wrt (\<lambda>p q. slot fps a (of_int p * tb) \<le> slot fps a (of_int q * tb)) ps"
    using \<open>sorted_wrt (\<le>) ps\<close> *(2,3) by (rule_tac sorted_wrt_mono_rel) (auto intro!: slot_mono)
  ultimately show ?thesis by (simp add: sorted_wrt_map)
qed

text \<open>
  The sampler's cadence. On a stream presented in order and without gaps, starting with \<open>p\<close>, the
  sampler emits the first frame of every sampling period in which a frame arrives and no other frame:
  the emitted frames' periods are the presented frames' periods without repetition. So over any span it
  emits at most one frame more than the span times the configured rate.
\<close>

theorem sampler_first_frame_of_each_period:
  assumes "0 < ip_fps (smp_profile s)" "0 < tb" "smp_previous s = None"
    and "in_presentation_order (ip_maximum_timestamp_gap (smp_profile s)) tb (p # ps)"
  shows "map (\<lambda>q. slot (ip_fps (smp_profile s)) (of_int p * tb) (of_int q * tb))
        (sample_all (smp_stream_id s) tb (p # ps) s)
      = remdups_adj (map (\<lambda>q. slot (ip_fps (smp_profile s)) (of_int p * tb) (of_int q * tb)) (p # ps))
    \<and> int (length (sample_all (smp_stream_id s) tb (p # ps) s))
      \<le> \<lfloor>(of_int (last (p # ps)) * tb - of_int p * tb) * ip_fps (smp_profile s)\<rfloor> + 1"
proof -
  let ?fps = "ip_fps (smp_profile s)" and ?a = "of_int p * tb"
  let ?slot = "\<lambda>q. slot ?fps ?a (of_int q * tb)"
  let ?s1 = "s\<lparr>smp_previous := Some ?a, smp_next := Some (?a + 1 / ?fps)\<rparr>"
  have first: "select (smp_stream_id s) p tb s = (Inr (sample_result True SAMPLE_FIRST_FRAME s), ?s1)"
    using assms(1-3) by (simp add: select_def positive_fraction_def Let_def)
  have "anchored ?a ?s1" by (simp add: anchored_def slot_def)
  from sample_all_slots [OF this, of tb p ps]
  have slots: "map ?slot (sample_all (smp_stream_id s) tb (p # ps) s) = remdups_adj (map ?slot (p # ps))"
    using assms first by (simp add: sample_result_def)
  have srt: "sorted (p # ps)" "sorted (map ?slot (p # ps))"
    using presentation_sorted [OF assms(4,1,2), of ?a] by simp_all
  have "?slot q \<in> {0..?slot (last (p # ps))}" if "q \<in> set (p # ps)" for q
  proof -
    have "p \<le> q" "q \<le> last (p # ps)" using srt(1) that sorted_le_last by auto
    then show ?thesis using assms(1,2) slot_mono [of ?fps "of_int q * tb"] slot_mono [of ?fps "?a"]
      by (auto simp: slot_def intro!: floor_mono)
  qed
  then have "set (map ?slot (p # ps)) \<subseteq> {0..?slot (last (p # ps))}" by auto
  then have "int (length (remdups_adj (map ?slot (p # ps)))) \<le> ?slot (last (p # ps)) + 1"
    using srt(2) by (intro remdups_adj_length_bound) auto
  moreover have "length (sample_all (smp_stream_id s) tb (p # ps) s) = length (remdups_adj (map ?slot (p # ps)))"
    using slots by (metis length_map)
  ultimately show ?thesis using slots by (simp add: slot_def)
qed

theorem sampler_first_frame_of_each_period_witness:
  "int (length (sample_all 7 (1 / 10) [0, 2, 4, 6, 8, 10]
      (sampler_init \<lparr>ip_width = 4, ip_height = 4, ip_fps = 2, ip_maximum_timestamp_gap = 1\<rparr> 7))) \<le> 3"
proof -
  let ?s = "sampler_init \<lparr>ip_width = 4, ip_height = 4, ip_fps = 2, ip_maximum_timestamp_gap = 1\<rparr> 7"
  have "in_presentation_order (ip_maximum_timestamp_gap (smp_profile ?s)) (1 / 10) [0, 2, 4, 6, 8, 10]"
    by (simp add: in_presentation_order_def sampler_init_def)
  from sampler_first_frame_of_each_period [OF _ _ _ this] show ?thesis by (simp add: sampler_init_def)
qed

end
