(* ===== verification/Profile_Admission.thy ===== *)
theory Profile_Admission
  imports Media_Profiles
begin

text \<open>
  Per-source profile allowlists and active-source admission:
  \<^verbatim>\<open>server/app/media/profiles/admission.py\<close>. The object's lock makes every method atomic. Python compares
  leases and claims by identity. A lease is identified by its owner and generation, which the record
  carries, so record equality is identity; a claim gets a running number of its own for the same reason.
\<close>

datatype source_type = LOCAL_UVC | REMOTE_AGENT

record capabilities =
  cap_source_id :: uuid
  cap_source_type :: source_type
  cap_profile_sets :: "source_profiles list"
  cap_room_overview_sets :: "source_profiles list"
  cap_room_overview_criteria :: "room_overview_criteria option"

definition capabilities_ok :: "capabilities \<Rightarrow> bool" where
  "capabilities_ok c \<longleftrightarrow>
     cap_profile_sets c \<noteq> [] \<and> distinct (cap_profile_sets c)
     \<and> list_all (\<lambda>f. vf_verified f \<and> vf_video_only f)
         (map (\<lambda>p. cp_format (prof_capture p)) (cap_profile_sets c)
          @ map prof_recording (cap_profile_sets c) @ map prof_viewer (cap_profile_sets c))
     \<and> distinct (cap_room_overview_sets c)
     \<and> list_all (\<lambda>p. p \<in> set (cap_profile_sets c)) (cap_room_overview_sets c)
     \<and> (cap_room_overview_sets c \<noteq> [] \<longleftrightarrow> cap_room_overview_criteria c \<noteq> None)
     \<and> (case cap_room_overview_criteria c of
          None \<Rightarrow> True
        | Some criteria \<Rightarrow>
            list_all (\<lambda>p. room_overview_violations p criteria = []) (cap_room_overview_sets c))"

definition option_sets :: "capture_option \<Rightarrow> capabilities \<Rightarrow> source_profiles list" where
  "option_sets opt c =
     (if opt = OPT_ROOM_OVERVIEW then cap_room_overview_sets c
      else filter (\<lambda>p. p \<notin> set (cap_room_overview_sets c)) (cap_profile_sets c))"

record lease =
  ls_source_id :: uuid
  ls_generation :: nat
  ls_profile_sets :: "source_profiles list"
  ls_owner :: nat
  ls_option :: capture_option

record claim =
  cl_source_id :: uuid
  cl_lease :: lease
  cl_owner :: nat
  cl_number :: nat

datatype admission_reason =
  CAPTURE_OPTION_MISMATCH | CAPTURE_OPTION_UNAVAILABLE | PROFILE_SET_UNSUPPORTED
  | SOURCE_TYPE_CHANGED | ACTIVE_SOURCE_LIMIT | PIPELINE_ACTIVE

record admission_decision =
  ad_admitted :: bool
  ad_reasons :: "admission_reason list"
  ad_lease :: "lease option"
  ad_option :: "capture_option option"

record admissions =
  adm_identity :: nat
  adm_maximum_active_sources :: int
  adm_profiles :: "(uuid, source_profiles) dict"
  adm_source_types :: "(uuid, source_type) dict"
  adm_leases :: "(uuid, lease) dict"
  adm_pipeline_owners :: "(uuid, claim) dict"
  adm_next_generation :: nat
  adm_next_claim :: nat

datatype admission_error = Admission_ValueError

definition admissions_init :: "nat \<Rightarrow> int \<Rightarrow> admission_error + admissions" where
  "admissions_init n maximum =
     (if maximum \<le> 0 then Inl Admission_ValueError
      else Inr \<lparr>adm_identity = n, adm_maximum_active_sources = maximum, adm_profiles = [],
                adm_source_types = [], adm_leases = [], adm_pipeline_owners = [],
                adm_next_generation = 1, adm_next_claim = 0\<rparr>)"

definition selection_reasons :: "capabilities \<Rightarrow> source_profiles \<Rightarrow> capture_option \<Rightarrow> admission_reason list" where
  "selection_reasons c p opt =
     (if p \<in> set (option_sets opt c) then []
      else if p \<in> set (cap_profile_sets c) then [CAPTURE_OPTION_MISMATCH]
      else if option_sets opt c = [] then [CAPTURE_OPTION_UNAVAILABLE]
      else [PROFILE_SET_UNSUPPORTED])"

definition admit :: "capabilities \<Rightarrow> source_profiles \<Rightarrow> capture_option \<Rightarrow> admissions
    \<Rightarrow> admission_decision \<times> admissions" where
  "admit c p opt a =
     (let src = cap_source_id c;
          reasons = selection_reasons c p opt
            @ (case map_of (adm_source_types a) src of
                 None \<Rightarrow> []
               | Some known \<Rightarrow> if known \<noteq> cap_source_type c then [SOURCE_TYPE_CHANGED] else [])
            @ (if map_of (adm_profiles a) src = None
                  \<and> int (length (adm_profiles a)) \<ge> adm_maximum_active_sources a
               then [ACTIVE_SOURCE_LIMIT] else [])
            @ (if map_of (adm_pipeline_owners a) src \<noteq> None then [PIPELINE_ACTIVE] else []) in
      if reasons \<noteq> []
      then (\<lparr>ad_admitted = False, ad_reasons = reasons, ad_lease = None, ad_option = Some opt\<rparr>, a)
      else
        let l = \<lparr>ls_source_id = src, ls_generation = adm_next_generation a,
                 ls_profile_sets = option_sets opt c, ls_owner = adm_identity a, ls_option = opt\<rparr>
        in (\<lparr>ad_admitted = True, ad_reasons = [], ad_lease = Some l, ad_option = Some opt\<rparr>,
            a\<lparr>adm_next_generation := Suc (adm_next_generation a),
              adm_profiles := AList.update src p (adm_profiles a),
              adm_source_types := AList.update src (cap_source_type c) (adm_source_types a),
              adm_leases := AList.update src l (adm_leases a)\<rparr>))"

definition release_lease :: "lease \<Rightarrow> admissions \<Rightarrow> bool \<times> admissions" where
  "release_lease l a =
     (if map_of (adm_leases a) (ls_source_id l) \<noteq> Some l then (False, a)
      else if map_of (adm_pipeline_owners a) (ls_source_id l) \<noteq> None then (False, a)
      else (True, a\<lparr>adm_profiles := AList.delete (ls_source_id l) (adm_profiles a),
                    adm_leases := AList.delete (ls_source_id l) (adm_leases a)\<rparr>))"

definition lease_permits :: "lease \<Rightarrow> source_profiles option \<Rightarrow> admissions \<Rightarrow> bool" where
  "lease_permits l p a \<longleftrightarrow>
     ls_owner l = adm_identity a
     \<and> map_of (adm_leases a) (ls_source_id l) = Some l
     \<and> (p = None \<or> map_of (adm_profiles a) (ls_source_id l) = p)"

definition claim_pipeline :: "lease \<Rightarrow> source_profiles \<Rightarrow> admissions \<Rightarrow> claim option \<times> admissions" where
  "claim_pipeline l p a =
     (if ls_owner l \<noteq> adm_identity a then (None, a)
      else if map_of (adm_leases a) (ls_source_id l) \<noteq> Some l
              \<or> map_of (adm_profiles a) (ls_source_id l) \<noteq> Some p
              \<or> map_of (adm_pipeline_owners a) (ls_source_id l) \<noteq> None
        then (None, a)
      else
        let c = \<lparr>cl_source_id = ls_source_id l, cl_lease = l, cl_owner = adm_identity a,
                 cl_number = adm_next_claim a\<rparr>
        in (Some c, a\<lparr>adm_pipeline_owners := AList.update (ls_source_id l) c (adm_pipeline_owners a),
                      adm_next_claim := Suc (adm_next_claim a)\<rparr>))"

definition owns_pipeline :: "claim \<Rightarrow> admissions \<Rightarrow> bool" where
  "owns_pipeline c a \<longleftrightarrow>
     cl_owner c = adm_identity a
     \<and> map_of (adm_leases a) (cl_source_id c) = Some (cl_lease c)
     \<and> map_of (adm_pipeline_owners a) (cl_source_id c) = Some c"

definition release_pipeline :: "claim \<Rightarrow> admissions \<Rightarrow> bool \<times> admissions" where
  "release_pipeline c a =
     (if cl_owner c \<noteq> adm_identity a then (False, a)
      else if map_of (adm_pipeline_owners a) (cl_source_id c) \<noteq> Some c then (False, a)
      else (True, a\<lparr>adm_pipeline_owners := AList.delete (cl_source_id c) (adm_pipeline_owners a)\<rparr>))"

definition permits_pipeline :: "claim \<Rightarrow> source_profiles \<Rightarrow> admissions \<Rightarrow> bool" where
  "permits_pipeline c p a \<longleftrightarrow>
     cl_owner c = adm_identity a
     \<and> map_of (adm_leases a) (cl_source_id c) = Some (cl_lease c)
     \<and> map_of (adm_pipeline_owners a) (cl_source_id c) = Some c
     \<and> p \<in> set (ls_profile_sets (cl_lease c))"

definition transition_pipeline :: "claim \<Rightarrow> source_profiles \<Rightarrow> admissions \<Rightarrow> bool \<times> admissions" where
  "transition_pipeline c p a =
     (if cl_owner c \<noteq> adm_identity a then (False, a)
      else if map_of (adm_leases a) (cl_source_id c) \<noteq> Some (cl_lease c)
              \<or> map_of (adm_pipeline_owners a) (cl_source_id c) \<noteq> Some c
              \<or> p \<notin> set (ls_profile_sets (cl_lease c))
        then (False, a)
      else (True, a\<lparr>adm_profiles := AList.update (cl_source_id c) p (adm_profiles a)\<rparr>))"

definition admitted :: "uuid \<Rightarrow> admissions \<Rightarrow> source_profiles option" where
  "admitted source_id a = map_of (adm_profiles a) source_id"

definition active_sources :: "admissions \<Rightarrow> nat" where
  "active_sources a = length (adm_profiles a)"

section \<open>Reachable states and their invariant\<close>

inductive adm_step :: "admissions \<Rightarrow> admissions \<Rightarrow> bool" where
  adm_admit: "capabilities_ok c \<Longrightarrow> adm_step a (snd (admit c p opt a))"
| adm_release: "adm_step a (snd (release_lease l a))"
| adm_claim: "adm_step a (snd (claim_pipeline l p a))"
| adm_release_pipeline: "adm_step a (snd (release_pipeline c a))"
| adm_transition: "adm_step a (snd (transition_pipeline c p a))"

inductive adm_reachable :: "admissions \<Rightarrow> bool" where
  adm_start: "admissions_init n maximum = Inr a \<Longrightarrow> adm_reachable a"
| adm_next: "\<lbrakk>adm_reachable a; adm_step a a'\<rbrakk> \<Longrightarrow> adm_reachable a'"

text \<open>
  Every active source has one current lease of this owner that lists the selected set, and a pipeline
  claim is always held under the current lease.
\<close>

definition lease_ok :: "admissions \<Rightarrow> uuid \<Rightarrow> lease \<Rightarrow> bool" where
  "lease_ok a src l \<longleftrightarrow>
     ls_source_id l = src \<and> ls_owner l = adm_identity a \<and> ls_generation l < adm_next_generation a
     \<and> (\<exists>p. map_of (adm_profiles a) src = Some p \<and> p \<in> set (ls_profile_sets l))"

definition claim_ok :: "admissions \<Rightarrow> uuid \<Rightarrow> claim \<Rightarrow> bool" where
  "claim_ok a src c \<longleftrightarrow>
     cl_source_id c = src \<and> cl_owner c = adm_identity a \<and> cl_number c < adm_next_claim a
     \<and> map_of (adm_leases a) src = Some (cl_lease c)"

definition adm_inv :: "admissions \<Rightarrow> bool" where
  "adm_inv a \<longleftrightarrow>
     dict_ok (adm_profiles a)
     \<and> int (length (adm_profiles a)) \<le> adm_maximum_active_sources a
     \<and> (\<forall>src. map_of (adm_profiles a) src \<noteq> None \<longrightarrow> map_of (adm_leases a) src \<noteq> None)
     \<and> (\<forall>src l. map_of (adm_leases a) src = Some l \<longrightarrow> lease_ok a src l)
     \<and> (\<forall>src c. map_of (adm_pipeline_owners a) src = Some c \<longrightarrow> claim_ok a src c)"

lemma lease_ok_keep:
  "\<lbrakk>lease_ok a src l; adm_identity a' = adm_identity a; adm_next_generation a \<le> adm_next_generation a';
     map_of (adm_profiles a') src = map_of (adm_profiles a) src\<rbrakk> \<Longrightarrow> lease_ok a' src l"
  by (auto simp: lease_ok_def)

lemma claim_ok_keep:
  "\<lbrakk>claim_ok a src c; adm_identity a' = adm_identity a; adm_next_claim a \<le> adm_next_claim a';
     map_of (adm_leases a') src = map_of (adm_leases a) src\<rbrakk> \<Longrightarrow> claim_ok a' src c"
  by (auto simp: claim_ok_def)

lemma adm_invD:
  assumes "adm_inv a"
  shows "dict_ok (adm_profiles a)" "int (length (adm_profiles a)) \<le> adm_maximum_active_sources a"
    "\<forall>src. map_of (adm_profiles a) src \<noteq> None \<longrightarrow> map_of (adm_leases a) src \<noteq> None"
    "map_of (adm_leases a) src = Some l \<Longrightarrow> lease_ok a src l"
    "map_of (adm_pipeline_owners a) src = Some c \<Longrightarrow> claim_ok a src c"
  using assms by (auto simp: adm_inv_def)

lemma adm_inv_init: "admissions_init n maximum = Inr a \<Longrightarrow> adm_inv a"
  by (auto simp: admissions_init_def adm_inv_def split: if_splits)

lemma adm_inv_admit:
  assumes "adm_inv a"
  shows "adm_inv (snd (admit c p opt a))"
proof (cases "ad_admitted (fst (admit c p opt a))")
  case True
  let ?src = "cap_source_id c" and ?a = "snd (admit c p opt a)"
  have sel: "p \<in> set (option_sets opt c)" and free: "map_of (adm_pipeline_owners a) ?src = None"
    and room: "map_of (adm_profiles a) ?src \<noteq> None
      \<or> int (length (adm_profiles a)) < adm_maximum_active_sources a"
    using True by (auto simp: admit_def selection_reasons_def Let_def split: if_splits)
  define l where "l = \<lparr>ls_source_id = ?src, ls_generation = adm_next_generation a,
    ls_profile_sets = option_sets opt c, ls_owner = adm_identity a, ls_option = opt\<rparr>"
  have a': "?a = a\<lparr>adm_next_generation := Suc (adm_next_generation a),
      adm_profiles := AList.update ?src p (adm_profiles a),
      adm_source_types := AList.update ?src (cap_source_type c) (adm_source_types a),
      adm_leases := AList.update ?src l (adm_leases a)\<rparr>"
    using True by (auto simp: admit_def Let_def l_def split: if_splits)
  have "int (length (AList.update ?src p (adm_profiles a))) \<le> adm_maximum_active_sources a"
    using room adm_invD(2) [OF assms] dict_get_None [of "adm_profiles a" ?src]
    by (auto simp: dict_length_update)
  moreover have "lease_ok ?a ?src l" using sel by (simp add: lease_ok_def a' l_def dict_simps)
  moreover have "lease_ok ?a s l'" if "s \<noteq> ?src" "map_of (adm_leases a) s = Some l'" for s l'
    using adm_invD(4) [OF assms that(2)] by (rule lease_ok_keep) (simp_all add: a' that(1) dict_simps)
  moreover have "claim_ok ?a s k" if "map_of (adm_pipeline_owners a) s = Some k" for s k
    using adm_invD(5) [OF assms that] by (rule claim_ok_keep) (use that free in \<open>auto simp: a' dict_simps\<close>)
  ultimately show ?thesis
    using adm_invD(1,3) [OF assms] unfolding adm_inv_def by (simp add: a' dict_simps)
next
  case False
  then have "snd (admit c p opt a) = a" by (auto simp: admit_def Let_def split: if_splits)
  with assms show ?thesis by simp
qed

lemma adm_inv_release:
  assumes "adm_inv a"
  shows "adm_inv (snd (release_lease l a))"
proof (cases "fst (release_lease l a)")
  case True
  let ?src = "ls_source_id l" and ?a = "snd (release_lease l a)"
  have a': "?a = a\<lparr>adm_profiles := AList.delete ?src (adm_profiles a),
      adm_leases := AList.delete ?src (adm_leases a)\<rparr>" "map_of (adm_pipeline_owners a) ?src = None"
    using True by (auto simp: release_lease_def split: if_splits)
  have "int (length (AList.delete ?src (adm_profiles a))) \<le> adm_maximum_active_sources a"
    using adm_invD(2) [OF assms] dict_length_delete_le [of ?src "adm_profiles a"] by simp
  moreover have "lease_ok ?a s l'" if "s \<noteq> ?src" "map_of (adm_leases a) s = Some l'" for s l'
    using adm_invD(4) [OF assms that(2)] by (rule lease_ok_keep) (simp_all add: a' that(1) dict_simps)
  moreover have "claim_ok ?a s k" if "map_of (adm_pipeline_owners a) s = Some k" for s k
    using adm_invD(5) [OF assms that] by (rule claim_ok_keep) (use that a'(2) in \<open>auto simp: a'(1) dict_simps\<close>)
  ultimately show ?thesis
    using adm_invD(1,3) [OF assms] unfolding adm_inv_def by (simp add: a'(1) dict_simps)
next
  case False
  then have "snd (release_lease l a) = a" by (auto simp: release_lease_def)
  with assms show ?thesis by simp
qed

lemma adm_inv_claim:
  assumes "adm_inv a"
  shows "adm_inv (snd (claim_pipeline l p a))"
proof (cases "fst (claim_pipeline l p a)")
  case None
  then have "snd (claim_pipeline l p a) = a" by (auto simp: claim_pipeline_def Let_def split: if_splits)
  with assms show ?thesis by simp
next
  case (Some c)
  let ?a = "snd (claim_pipeline l p a)"
  have a': "?a = a\<lparr>adm_pipeline_owners := AList.update (ls_source_id l) c (adm_pipeline_owners a),
      adm_next_claim := Suc (adm_next_claim a)\<rparr>"
    "cl_source_id c = ls_source_id l" "cl_owner c = adm_identity a" "cl_number c = adm_next_claim a"
    "map_of (adm_leases a) (ls_source_id l) = Some (cl_lease c)"
    using Some by (auto simp: claim_pipeline_def Let_def split: if_splits)
  have "claim_ok ?a (ls_source_id l) c" by (simp add: claim_ok_def a')
  moreover have "claim_ok ?a s k" if "map_of (adm_pipeline_owners a) s = Some k" for s k
    using adm_invD(5) [OF assms that] by (rule claim_ok_keep) (simp_all add: a'(1))
  moreover have "lease_ok ?a s l'" if "map_of (adm_leases a) s = Some l'" for s l'
    using adm_invD(4) [OF assms that] by (rule lease_ok_keep) (simp_all add: a'(1))
  ultimately show ?thesis
    using adm_invD(1-3) [OF assms] unfolding adm_inv_def by (simp add: a'(1) dict_simps)
qed

lemma adm_inv_release_pipeline:
  assumes "adm_inv a"
  shows "adm_inv (snd (release_pipeline c a))"
proof -
  let ?a = "snd (release_pipeline c a)"
  have keep: "adm_profiles ?a = adm_profiles a" "adm_leases ?a = adm_leases a"
    "adm_identity ?a = adm_identity a" "adm_next_generation ?a = adm_next_generation a"
    "adm_next_claim ?a = adm_next_claim a"
    "adm_maximum_active_sources ?a = adm_maximum_active_sources a"
    "map_of (adm_pipeline_owners ?a) s = Some k \<Longrightarrow> map_of (adm_pipeline_owners a) s = Some k" for s k
    by (auto simp: release_pipeline_def dict_simps split: if_splits)
  have "claim_ok ?a s k" if "map_of (adm_pipeline_owners ?a) s = Some k" for s k
    using adm_invD(5) [OF assms keep(7) [OF that]] by (rule claim_ok_keep) (simp_all add: keep(1-6))
  moreover have "lease_ok ?a s l'" if "map_of (adm_leases a) s = Some l'" for s l'
    using adm_invD(4) [OF assms that] by (rule lease_ok_keep) (simp_all add: keep(1-6))
  ultimately show ?thesis using adm_invD(1-3) [OF assms] unfolding adm_inv_def keep(1-6) by blast
qed

lemma adm_inv_transition:
  assumes "adm_inv a"
  shows "adm_inv (snd (transition_pipeline c p a))"
proof (cases "fst (transition_pipeline c p a)")
  case True
  let ?src = "cl_source_id c" and ?a = "snd (transition_pipeline c p a)"
  have t: "?a = a\<lparr>adm_profiles := AList.update ?src p (adm_profiles a)\<rparr>"
    "map_of (adm_leases a) ?src = Some (cl_lease c)" "p \<in> set (ls_profile_sets (cl_lease c))"
    using True by (auto simp: transition_pipeline_def split: if_splits)
  have old: "lease_ok a ?src (cl_lease c)" using adm_invD(4) [OF assms t(2)] .
  then have "length (AList.update ?src p (adm_profiles a)) = length (adm_profiles a)"
    using dict_get_None [of "adm_profiles a" ?src] by (auto simp: dict_length_update lease_ok_def)
  moreover have new: "lease_ok ?a ?src (cl_lease c)" using old t(3) by (auto simp: lease_ok_def t(1) dict_simps)
  have "lease_ok ?a s l'" if "map_of (adm_leases a) s = Some l'" for s l'
  proof (cases "s = ?src")
    case True
    with new that t(2) show ?thesis by simp
  next
    case False
    with adm_invD(4) [OF assms that] show ?thesis by (rule_tac lease_ok_keep) (simp_all add: t(1) dict_simps)
  qed
  moreover have "claim_ok ?a s k" if "map_of (adm_pipeline_owners a) s = Some k" for s k
    using adm_invD(5) [OF assms that] by (rule claim_ok_keep) (simp_all add: t(1))
  ultimately show ?thesis
    using adm_invD(1-3) [OF assms] t(2) unfolding adm_inv_def by (auto simp: t(1) dict_simps)
next
  case False
  then have "snd (transition_pipeline c p a) = a" by (auto simp: transition_pipeline_def split: if_splits)
  with assms show ?thesis by simp
qed

lemma adm_reachable_inv: "adm_reachable a \<Longrightarrow> adm_inv a"
proof (induction rule: adm_reachable.induct)
  case (adm_next a a')
  from adm_next(2,3) show ?case
    by cases (auto intro: adm_inv_admit adm_inv_release adm_inv_claim adm_inv_release_pipeline adm_inv_transition)
qed (rule adm_inv_init)

section \<open>Admission and exclusivity\<close>

text \<open>
  In every reachable state at most the configured number of sources is active; every active source
  holds a current lease of this registry, and the profile set selected for it is one of those the lease's
  capture option allows; a pipeline runs for a source only under that current lease.
\<close>

theorem admission_invariant:
  assumes "adm_reachable a"
  shows "int (active_sources a) \<le> adm_maximum_active_sources a
    \<and> (\<forall>src p. admitted src a = Some p \<longrightarrow>
         (\<exists>l. map_of (adm_leases a) src = Some l \<and> lease_permits l (Some p) a
            \<and> p \<in> set (ls_profile_sets l)))
    \<and> (\<forall>src c. map_of (adm_pipeline_owners a) src = Some c \<longrightarrow> owns_pipeline c a)"
proof -
  have inv: "adm_inv a" using assms by (rule adm_reachable_inv)
  have "\<exists>l. map_of (adm_leases a) src = Some l \<and> lease_permits l (Some p) a \<and> p \<in> set (ls_profile_sets l)"
    if "admitted src a = Some p" for src p
  proof -
    from that inv obtain l where l: "map_of (adm_leases a) src = Some l"
      by (fastforce simp: adm_inv_def admitted_def)
    with inv have "lease_ok a src l" by (auto simp: adm_inv_def)
    with l that show ?thesis by (auto simp: lease_ok_def lease_permits_def admitted_def)
  qed
  moreover have "owns_pipeline c a" if "map_of (adm_pipeline_owners a) src = Some c" for src c
    using inv that by (auto simp: adm_inv_def claim_ok_def owns_pipeline_def)
  ultimately show ?thesis using inv by (simp add: adm_inv_def active_sources_def)
qed

text \<open>What a step can do to the current lease and the pipeline owner of a source.\<close>

lemma adm_step_identity:
  assumes "adm_step a a'"
  shows "adm_identity a' = adm_identity a"
    and "adm_next_generation a \<le> adm_next_generation a'" and "adm_next_claim a \<le> adm_next_claim a'"
  using assms
  by (cases; auto simp: admit_def release_lease_def claim_pipeline_def release_pipeline_def
      transition_pipeline_def Let_def)+

lemma adm_step_lease:
  assumes "adm_step a a'" "map_of (adm_leases a') src = Some l"
  shows "map_of (adm_leases a) src = Some l \<or> ls_generation l = adm_next_generation a"
  using assms
  by cases (auto simp: admit_def release_lease_def claim_pipeline_def release_pipeline_def
      transition_pipeline_def Let_def dict_simps split: if_splits)

lemma adm_step_claim:
  assumes "adm_step a a'" "map_of (adm_pipeline_owners a') src = Some c"
  shows "map_of (adm_pipeline_owners a) src = Some c \<or> cl_number c = adm_next_claim a"
  using assms
  by cases (auto simp: admit_def release_lease_def claim_pipeline_def release_pipeline_def
      transition_pipeline_def Let_def dict_simps split: if_splits)

definition lease_dead :: "lease \<Rightarrow> admissions \<Rightarrow> bool" where
  "lease_dead l a \<longleftrightarrow>
     ls_generation l < adm_next_generation a \<and> map_of (adm_leases a) (ls_source_id l) \<noteq> Some l"

lemma lease_dead_step: "\<lbrakk>lease_dead l a; adm_step a a'\<rbrakk> \<Longrightarrow> lease_dead l a'"
  using adm_step_identity(2) adm_step_lease by (fastforce simp: lease_dead_def)

lemma lease_dead_steps: "\<lbrakk>adm_step\<^sup>*\<^sup>* a a'; lease_dead l a\<rbrakk> \<Longrightarrow> lease_dead l a'"
  by (induction rule: rtranclp_induct) (auto intro: lease_dead_step)

lemma adm_steps_reachable: "\<lbrakk>adm_step\<^sup>*\<^sup>* a a'; adm_reachable a\<rbrakk> \<Longrightarrow> adm_reachable a'"
  by (induction rule: rtranclp_induct) (auto intro: adm_next)

text \<open>
  A lease that was superseded by a new admission or released never becomes valid again, whatever
  happens later: it permits nothing, cannot claim a pipeline, and no pipeline claim under it is active.
\<close>

theorem superseded_lease_never_valid:
  assumes "adm_reachable a" "map_of (adm_leases a) src = Some l"
    and "adm_step a a1" "map_of (adm_leases a1) src \<noteq> Some l" "adm_step\<^sup>*\<^sup>* a1 a2"
  shows "\<not> lease_permits l p a2 \<and> fst (claim_pipeline l q a2) = None
    \<and> (\<forall>c. cl_lease c = l \<longrightarrow> \<not> owns_pipeline c a2)"
proof -
  have "lease_ok a src l" using adm_reachable_inv [OF assms(1)] assms(2) by (auto simp: adm_inv_def)
  then have l: "ls_source_id l = src" "ls_generation l < adm_next_generation a" by (auto simp: lease_ok_def)
  then have "lease_dead l a1"
    using assms(4) adm_step_identity(2) [OF assms(3)] by (auto simp: lease_dead_def)
  then have dead: "map_of (adm_leases a2) src \<noteq> Some l"
    using lease_dead_steps [OF assms(5)] l by (auto simp: lease_dead_def)
  have "\<not> owns_pipeline c a2" if "cl_lease c = l" for c
  proof
    assume own: "owns_pipeline c a2"
    have "adm_reachable a2" using assms(1,3,5) by (meson adm_next adm_steps_reachable)
    then have "lease_ok a2 (cl_source_id c) l"
      using own that adm_reachable_inv [of a2] by (auto simp: owns_pipeline_def adm_inv_def)
    then show False using own that dead l by (auto simp: owns_pipeline_def lease_ok_def)
  qed
  then show ?thesis using dead l by (auto simp: lease_permits_def claim_pipeline_def)
qed

text \<open>
  One pipeline per source. While a claim is active no other claim for its source is, the source
  cannot be claimed again, re-admitted or released; releasing the claim ends it for good.
\<close>

theorem pipeline_claim_exclusive:
  assumes "adm_reachable a" "owns_pipeline c a"
  shows "(\<forall>c'. owns_pipeline c' a \<and> cl_source_id c' = cl_source_id c \<longrightarrow> c' = c)
    \<and> (\<forall>l p. ls_source_id l = cl_source_id c \<longrightarrow>
          fst (claim_pipeline l p a) = None \<and> release_lease l a = (False, a))
    \<and> (\<forall>cap p opt. cap_source_id cap = cl_source_id c \<longrightarrow>
          \<not> ad_admitted (fst (admit cap p opt a)) \<and> snd (admit cap p opt a) = a)
    \<and> (\<forall>a2. adm_step\<^sup>*\<^sup>* (snd (release_pipeline c a)) a2 \<longrightarrow> \<not> owns_pipeline c a2)"
proof -
  have own: "map_of (adm_pipeline_owners a) (cl_source_id c) = Some c" "cl_owner c = adm_identity a"
    using assms(2) by (auto simp: owns_pipeline_def)
  then have num: "cl_number c < adm_next_claim a"
    using adm_reachable_inv [OF assms(1)] by (auto simp: adm_inv_def claim_ok_def)
  have dead: "map_of (adm_pipeline_owners a2) (cl_source_id c) \<noteq> Some c \<and> cl_number c < adm_next_claim a2"
    if "adm_step\<^sup>*\<^sup>* (snd (release_pipeline c a)) a2" for a2
    using that
  proof (induction rule: rtranclp_induct)
    case base
    then show ?case using own num by (simp add: release_pipeline_def dict_simps)
  next
    case (step a1 a2)
    then show ?case using adm_step_claim adm_step_identity(3) by fastforce
  qed
  then show ?thesis
    using own by (auto simp: owns_pipeline_def claim_pipeline_def release_lease_def admit_def Let_def)
qed

section \<open>A concrete registry\<close>

definition ex_format :: video_format where
  "ex_format = \<lparr>vf_width = 8, vf_height = 4, vf_fps = 10, vf_time_base = 1 / 10, vf_maximum_bitrate = 100,
     vf_codec = None, vf_codec_profile = None, vf_container = None, vf_pixel_format = None,
     vf_color_space = None, vf_configuration_sha256 = None, vf_verified = True, vf_video_only = True\<rparr>"

definition ex_profiles :: source_profiles where
  "ex_profiles = \<lparr>prof_capture = \<lparr>cp_format = ex_format, cp_maximum_timestamp_gap = 1\<rparr>,
     prof_recording = ex_format,
     prof_inference = \<lparr>ip_width = 4, ip_height = 2, ip_fps = 5, ip_maximum_timestamp_gap = 1\<rparr>,
     prof_viewer = ex_format\<rparr>"

definition ex_capabilities :: capabilities where
  "ex_capabilities = \<lparr>cap_source_id = 1, cap_source_type = LOCAL_UVC, cap_profile_sets = [ex_profiles],
     cap_room_overview_sets = [], cap_room_overview_criteria = None\<rparr>"

definition ex_lease :: lease where
  "ex_lease = \<lparr>ls_source_id = 1, ls_generation = 1, ls_profile_sets = [ex_profiles], ls_owner = 0,
     ls_option = OPT_STANDARD\<rparr>"

definition ex_claim :: claim where
  "ex_claim = \<lparr>cl_source_id = 1, cl_lease = ex_lease, cl_owner = 0, cl_number = 0\<rparr>"

definition ex_admissions :: admissions where
  "ex_admissions = \<lparr>adm_identity = 0, adm_maximum_active_sources = 2, adm_profiles = [(1, ex_profiles)],
     adm_source_types = [(1, LOCAL_UVC)], adm_leases = [(1, ex_lease)], adm_pipeline_owners = [],
     adm_next_generation = 2, adm_next_claim = 0\<rparr>"

definition ex_claimed :: admissions where
  "ex_claimed = ex_admissions\<lparr>adm_pipeline_owners := [(1, ex_claim)], adm_next_claim := 1\<rparr>"

lemma ex_capabilities_ok: "capabilities_ok ex_capabilities"
  by (simp add: capabilities_ok_def ex_capabilities_def ex_profiles_def ex_format_def)

lemma ex_admissions_reachable: "adm_reachable ex_admissions"
proof -
  define a where "a = \<lparr>adm_identity = 0, adm_maximum_active_sources = 2, adm_profiles = [],
     adm_source_types = [], adm_leases = [], adm_pipeline_owners = [], adm_next_generation = 1,
     adm_next_claim = 0\<rparr>"
  have "adm_reachable a" by (rule adm_start [of 0 2]) (simp add: admissions_init_def a_def)
  moreover have "snd (admit ex_capabilities ex_profiles OPT_STANDARD a) = ex_admissions"
    by (simp add: admit_def selection_reasons_def option_sets_def ex_capabilities_def ex_admissions_def
        ex_lease_def a_def Let_def)
  ultimately show ?thesis using adm_next [OF _ adm_admit [OF ex_capabilities_ok]] by metis
qed

lemma ex_claimed_reachable: "adm_reachable ex_claimed"
proof -
  have "snd (claim_pipeline ex_lease ex_profiles ex_admissions) = ex_claimed"
    by (simp add: claim_pipeline_def ex_admissions_def ex_lease_def ex_claimed_def ex_claim_def Let_def)
  then show ?thesis using adm_next [OF ex_admissions_reachable adm_claim] by metis
qed

theorem admission_invariant_witness:
  "int (active_sources ex_claimed) \<le> 2 \<and> owns_pipeline ex_claim ex_claimed"
  using admission_invariant [OF ex_claimed_reachable] by (simp add: ex_claimed_def ex_admissions_def)

theorem superseded_lease_never_valid_witness:
  "\<not> lease_permits ex_lease None (snd (release_lease ex_lease ex_admissions))"
proof -
  have "map_of (adm_leases ex_admissions) 1 = Some ex_lease"
    "map_of (adm_leases (snd (release_lease ex_lease ex_admissions))) 1 \<noteq> Some ex_lease"
    by (simp_all add: ex_admissions_def release_lease_def ex_lease_def)
  from superseded_lease_never_valid [OF ex_admissions_reachable this(1) adm_release this(2) rtranclp.rtrancl_refl]
  show ?thesis by blast
qed

theorem pipeline_claim_exclusive_witness:
  "owns_pipeline ex_claim ex_claimed \<and> release_lease ex_lease ex_claimed = (False, ex_claimed)"
proof -
  have own: "owns_pipeline ex_claim ex_claimed"
    by (simp add: owns_pipeline_def ex_claimed_def ex_admissions_def ex_claim_def)
  then show ?thesis
    using pipeline_claim_exclusive [OF ex_claimed_reachable own] by (simp add: ex_claim_def ex_lease_def)
qed

end
