(* ===== verification/Media_Pipeline.thy ===== *)
theory Media_Pipeline
  imports Profile_Admission
begin

text \<open>
  The compressed-packet fan-out of one source: \<^verbatim>\<open>server/app/media/profiles/pipeline.py\<close>.

  Codec adapters are outside the modelled code. An adapter is a value of an arbitrary type \<open>'a\<close>, and its
  methods are the parameter \<open>ops\<close>: each returns whether it returned normally (False: it raised an
  \<open>Exception\<close>) and the adapter afterwards. A factory is what a call of the stored factory would yield;
  the operations that may open a viewer path take it as an argument. Methods run on one owning thread, on
  the pipeline and the admission registry its claim belongs to.
\<close>

record 'a adapter_ops =
  op_write :: "compressed_packet \<Rightarrow> 'a \<Rightarrow> bool \<times> 'a"
  op_reset :: "'a \<Rightarrow> bool \<times> 'a"
  op_close :: "'a \<Rightarrow> bool \<times> 'a"
  op_selection_state :: "'a \<Rightarrow> string option"

datatype 'a factory_result = Factory_Adapter 'a | Factory_Returns_None | Factory_Unavailable | Factory_Raises

type_synonym 'a factory = "encode_plan \<Rightarrow> 'a factory_result"

section \<open>One packet path\<close>

record path_status =
  ps_active :: bool
  ps_available :: bool
  ps_failed :: bool
  ps_queued_packets :: nat
  ps_queued_bytes :: int
  ps_dropped_packets :: nat
  ps_skipped_until_keyframe :: nat
  ps_discontinuities :: nat
  ps_awaiting_keyframe :: bool
  ps_reason :: string
  ps_adapter_state :: "string option"

definition ps_healthy :: "path_status \<Rightarrow> bool" where
  "ps_healthy s \<longleftrightarrow>
     ps_active s \<and> ps_available s \<and> \<not> ps_failed s \<and> ps_dropped_packets s = 0
     \<and> ps_discontinuities s = 0 \<and> \<not> ps_awaiting_keyframe s"

record 'a packet_path =
  pp_plan :: encode_plan
  pp_limits :: queue_limits
  pp_queue :: "compressed_packet list"
  pp_bytes :: int
  pp_dropped :: nat
  pp_skipped :: nat
  pp_discontinuities :: nat
  pp_awaiting_keyframe :: bool
  pp_closed :: bool
  pp_failed :: bool
  pp_reason :: string
  pp_adapter :: "'a option"

definition packet_size :: "compressed_packet \<Rightarrow> int" where
  "packet_size p = int (length (pk_data p))"

definition path_init :: "encode_plan \<Rightarrow> 'a factory option \<Rightarrow> queue_limits \<Rightarrow> path_status option
    \<Rightarrow> 'a packet_path" where
  "path_init plan factory limits previous =
     (let dropped = (case previous of None \<Rightarrow> 0 | Some s \<Rightarrow> ps_dropped_packets s);
          skipped = (case previous of None \<Rightarrow> 0 | Some s \<Rightarrow> ps_skipped_until_keyframe s);
          discontinuities = (case previous of None \<Rightarrow> 0 | Some s \<Rightarrow> ps_discontinuities s);
          p = \<lparr>pp_plan = plan, pp_limits = limits, pp_queue = [], pp_bytes = 0, pp_dropped = dropped,
               pp_skipped = skipped, pp_discontinuities = discontinuities, pp_awaiting_keyframe = True,
               pp_closed = False, pp_failed = False,
               pp_reason = (if dropped \<noteq> 0 \<or> discontinuities \<noteq> 0 then ''prior_viewer_loss''
                            else ''awaiting_keyframe''),
               pp_adapter = None\<rparr> in
      case factory of
        None \<Rightarrow> p\<lparr>pp_reason := ''adapter_unavailable''\<rparr>
      | Some f \<Rightarrow>
          (case f plan of
             Factory_Adapter a \<Rightarrow> p\<lparr>pp_adapter := Some a\<rparr>
           | Factory_Returns_None \<Rightarrow> p\<lparr>pp_reason := ''adapter_unavailable''\<rparr>
           | Factory_Unavailable \<Rightarrow> p\<lparr>pp_reason := ''adapter_unavailable''\<rparr>
           | Factory_Raises \<Rightarrow> p\<lparr>pp_reason := ''adapter_start_failed'', pp_failed := True\<rparr>))"

definition release_adapter :: "'a adapter_ops \<Rightarrow> 'a packet_path \<Rightarrow> 'a packet_path" where
  "release_adapter ops p =
     (case pp_adapter p of
        None \<Rightarrow> p
      | Some a \<Rightarrow>
          let (ok, a') = op_close ops a in
          if ok then p\<lparr>pp_adapter := None\<rparr>
          else p\<lparr>pp_adapter := Some a', pp_failed := True, pp_reason := ''adapter_close_failed''\<rparr>)"

text \<open>\<open>self._dropped += len(self._queue); self._queue.clear(); self._bytes = 0\<close>\<close>

definition drop_queue :: "'a packet_path \<Rightarrow> 'a packet_path" where
  "drop_queue p = p\<lparr>pp_dropped := pp_dropped p + length (pp_queue p), pp_queue := [], pp_bytes := 0\<rparr>"

definition path_fail :: "'a adapter_ops \<Rightarrow> string \<Rightarrow> 'a packet_path \<Rightarrow> 'a packet_path" where
  "path_fail ops reason p = release_adapter ops (drop_queue (p\<lparr>pp_failed := True, pp_reason := reason\<rparr>))"

definition path_discontinuity :: "'a adapter_ops \<Rightarrow> string \<Rightarrow> 'a packet_path \<Rightarrow> 'a packet_path" where
  "path_discontinuity ops reason p =
     (let p1 = (drop_queue p)\<lparr>pp_discontinuities := Suc (pp_discontinuities p),
                             pp_awaiting_keyframe := True, pp_reason := reason\<rparr> in
      case pp_adapter p1 of
        None \<Rightarrow> p1
      | Some a \<Rightarrow>
          if pp_failed p1 then p1
          else let (ok, a') = op_reset ops a;
                   p2 = p1\<lparr>pp_adapter := Some a'\<rparr>
               in if ok then p2 else path_fail ops ''adapter_reset_failed'' p2)"

definition path_accept :: "compressed_packet \<Rightarrow> 'a packet_path \<Rightarrow> bool \<times> 'a packet_path" where
  "path_accept packet p =
     (if pp_failed p then (False, p\<lparr>pp_dropped := Suc (pp_dropped p)\<rparr>)
      else if pp_awaiting_keyframe p \<and> \<not> pk_keyframe packet then
        (if pp_discontinuities p \<noteq> 0 then (False, p\<lparr>pp_dropped := Suc (pp_dropped p)\<rparr>)
         else (False, p\<lparr>pp_skipped := Suc (pp_skipped p)\<rparr>))
      else (True, p\<lparr>pp_awaiting_keyframe := False, pp_queue := pp_queue p @ [packet],
                    pp_bytes := pp_bytes p + packet_size packet,
                    pp_reason := (if pp_reason p = ''awaiting_keyframe'' then ''ready'' else pp_reason p)\<rparr>))"

definition path_offer :: "'a adapter_ops \<Rightarrow> compressed_packet \<Rightarrow> 'a packet_path \<Rightarrow> bool \<times> 'a packet_path" where
  "path_offer ops packet p =
     (if pp_closed p \<or> pp_adapter p = None \<or> pp_failed p
        then (False, p\<lparr>pp_dropped := Suc (pp_dropped p)\<rparr>)
      else if packet_size packet > ql_maximum_bytes (pp_limits p) then
        (let p1 = path_discontinuity ops ''packet_exceeds_byte_limit'' p
         in (False, p1\<lparr>pp_dropped := Suc (pp_dropped p1)\<rparr>))
      else path_accept packet
        (if int (length (pp_queue p)) \<ge> ql_maximum_packets (pp_limits p)
            \<or> pp_bytes p + packet_size packet > ql_maximum_bytes (pp_limits p)
         then path_discontinuity ops ''backpressure'' p else p))"

text \<open>
  One iteration of the pump loop, and the loop with its remaining budget. Writing without an adapter
  would raise inside the \<open>try\<close>.
\<close>

definition path_write :: "'a adapter_ops \<Rightarrow> compressed_packet \<Rightarrow> compressed_packet list \<Rightarrow> 'a packet_path
    \<Rightarrow> bool \<times> 'a packet_path" where
  "path_write ops packet rest p =
     (let p1 = p\<lparr>pp_queue := rest, pp_bytes := pp_bytes p - packet_size packet\<rparr>;
          (ok, ad) = (case pp_adapter p1 of
                        None \<Rightarrow> (False, None)
                      | Some a \<Rightarrow> map_prod id Some (op_write ops packet a));
          p2 = p1\<lparr>pp_adapter := ad\<rparr>
      in if ok then (True, p2)
         else (False, path_fail ops ''adapter_write_failed'' (p2\<lparr>pp_dropped := Suc (pp_dropped p2)\<rparr>)))"

fun path_pump :: "'a adapter_ops \<Rightarrow> nat \<Rightarrow> 'a packet_path \<Rightarrow> nat \<times> 'a packet_path" where
  "path_pump ops 0 p = (0, p)"
| "path_pump ops (Suc budget) p =
     (case pp_queue p of
        [] \<Rightarrow> (0, p)
      | packet # rest \<Rightarrow>
          if pp_failed p then (0, p)
          else (case path_write ops packet rest p of
                  (False, p1) \<Rightarrow> (0, p1)
                | (True, p1) \<Rightarrow> let (n, p2) = path_pump ops budget p1 in (Suc n, p2)))"

definition path_close :: "'a adapter_ops \<Rightarrow> 'a packet_path \<Rightarrow> 'a packet_path" where
  "path_close ops p =
     (if pp_closed p then release_adapter ops p
      else let p1 = release_adapter ops (drop_queue (p\<lparr>pp_closed := True\<rparr>))
           in if pp_failed p1 then p1 else p1\<lparr>pp_reason := ''closed''\<rparr>)"

definition path_status :: "'a adapter_ops \<Rightarrow> 'a packet_path \<Rightarrow> path_status" where
  "path_status ops p =
     \<lparr>ps_active = (\<not> pp_closed p), ps_available = (pp_adapter p \<noteq> None), ps_failed = pp_failed p,
      ps_queued_packets = length (pp_queue p), ps_queued_bytes = pp_bytes p,
      ps_dropped_packets = pp_dropped p, ps_skipped_until_keyframe = pp_skipped p,
      ps_discontinuities = pp_discontinuities p, ps_awaiting_keyframe = pp_awaiting_keyframe p,
      ps_reason = pp_reason p,
      ps_adapter_state = Option.bind (pp_adapter p) (op_selection_state ops)\<rparr>"

section \<open>The pipeline\<close>

datatype pipeline_error = Pipeline_ValueError | Pipeline_RuntimeError

record offer_result =
  or_recording_queued :: bool
  or_viewer_queued :: bool
  or_reason :: string

record 'a pipeline =
  pl_source_id :: uuid
  pl_stream_id :: uuid
  pl_claim :: "claim option"
  pl_profiles :: source_profiles
  pl_viewer_limits :: queue_limits
  pl_viewers :: "uuid set"
  pl_viewer :: "'a packet_path option"
  pl_last_viewer_status :: "path_status option"
  pl_recording :: "'a packet_path"
  pl_inference :: sampler
  pl_sequence :: "int option"
  pl_dts :: "int option"
  pl_renegotiation_required :: bool
  pl_capture_discontinuities :: nat
  pl_capture_reasons :: "string set"
  pl_closed :: bool

type_synonym 'a pipe_state = "'a pipeline \<times> admissions"

definition recording_plan :: "source_profiles \<Rightarrow> encode_plan" where
  "recording_plan p = plan_encoding (cp_format (prof_capture p)) (prof_recording p)"

definition viewer_plan :: "source_profiles \<Rightarrow> encode_plan" where
  "viewer_plan p = plan_encoding (cp_format (prof_capture p)) (prof_viewer p)"

definition new_pipeline :: "uuid \<Rightarrow> uuid \<Rightarrow> claim option \<Rightarrow> source_profiles \<Rightarrow> queue_limits \<Rightarrow> queue_limits
    \<Rightarrow> 'a factory option \<Rightarrow> 'a pipeline" where
  "new_pipeline source_id stream_id c profiles recording_limits viewer_limits recording_factory =
     \<lparr>pl_source_id = source_id, pl_stream_id = stream_id, pl_claim = c, pl_profiles = profiles,
      pl_viewer_limits = viewer_limits, pl_viewers = {}, pl_viewer = None, pl_last_viewer_status = None,
      pl_recording = path_init (recording_plan profiles) recording_factory recording_limits None,
      pl_inference = sampler_init (prof_inference profiles) stream_id, pl_sequence = None, pl_dts = None,
      pl_renegotiation_required = False, pl_capture_discontinuities = 0, pl_capture_reasons = {},
      pl_closed = False\<rparr>"

definition pipeline_init :: "uuid \<Rightarrow> uuid \<Rightarrow> source_profiles \<Rightarrow> queue_limits \<Rightarrow> queue_limits
    \<Rightarrow> 'a factory option \<Rightarrow> lease option \<Rightarrow> admissions
    \<Rightarrow> (pipeline_error, 'a pipeline, admissions) outcome" where
  "pipeline_init source_id stream_id profiles recording_limits viewer_limits recording_factory admission adm =
     (let capture = cp_format (prof_capture profiles);
          build = (\<lambda>c. new_pipeline source_id stream_id c profiles recording_limits viewer_limits
                        recording_factory) in
      if \<not> vf_verified capture \<or> \<not> vf_video_only capture then (Inl Pipeline_ValueError, adm)
      else if \<not> vf_video_only (prof_recording profiles) \<or> \<not> vf_video_only (prof_viewer profiles)
        then (Inl Pipeline_ValueError, adm)
      else case admission of
             None \<Rightarrow> (Inr (build None), adm)
           | Some l \<Rightarrow>
               if ls_source_id l \<noteq> source_id then (Inl Pipeline_ValueError, adm)
               else (case claim_pipeline l profiles adm of
                       (None, adm1) \<Rightarrow> (Inl Pipeline_ValueError, adm1)
                     | (Some c, adm1) \<Rightarrow> (Inr (build (Some c)), adm1)))"

definition ensure_open :: "'a pipe_state \<Rightarrow> pipeline_error option" where
  "ensure_open s =
     (if pl_closed (fst s) then Some Pipeline_RuntimeError
      else case pl_claim (fst s) of
             None \<Rightarrow> None
           | Some c \<Rightarrow> if \<not> owns_pipeline c (snd s) then Some Pipeline_RuntimeError else None)"

definition start_viewer :: "'a factory option \<Rightarrow> 'a pipeline \<Rightarrow> 'a pipeline" where
  "start_viewer factory pl =
     (case pl_viewer pl of
        None \<Rightarrow> pl\<lparr>pl_viewer := Some (path_init (viewer_plan (pl_profiles pl)) factory (pl_viewer_limits pl)
                                     (pl_last_viewer_status pl))\<rparr>
      | Some _ \<Rightarrow> pl)"

definition close_viewer :: "'a adapter_ops \<Rightarrow> 'a pipeline \<Rightarrow> 'a pipeline" where
  "close_viewer ops pl =
     (case pl_viewer pl of
        None \<Rightarrow> pl
      | Some v \<Rightarrow>
          let v1 = path_close ops v;
              st = path_status ops v1
          in pl\<lparr>pl_last_viewer_status := Some st,
                pl_viewer := (if \<not> ps_available st then None else Some v1)\<rparr>)"

definition add_viewer :: "'a factory option \<Rightarrow> uuid \<Rightarrow> 'a pipe_state
    \<Rightarrow> (pipeline_error, unit, 'a pipe_state) outcome" where
  "add_viewer factory subscriber s =
     (case ensure_open s of
        Some e \<Rightarrow> (Inl e, s)
      | None \<Rightarrow>
          let pl = fst s;
              pl1 = (if pl_viewers pl = {} then start_viewer factory pl else pl)
          in (Inr (), pl1\<lparr>pl_viewers := insert subscriber (pl_viewers pl1)\<rparr>, snd s))"

definition remove_viewer :: "'a adapter_ops \<Rightarrow> uuid \<Rightarrow> 'a pipe_state \<Rightarrow> bool \<times> 'a pipe_state" where
  "remove_viewer ops subscriber s =
     (let pl = (fst s)\<lparr>pl_viewers := pl_viewers (fst s) - {subscriber}\<rparr>;
          pl1 = (if pl_viewers pl = {} then close_viewer ops pl else pl)
      in (pl_viewer pl1 = None, pl1, snd s))"

definition check_admission :: "source_profiles \<Rightarrow> 'a pipe_state \<Rightarrow> bool" where
  "check_admission p s =
     (case pl_claim (fst s) of None \<Rightarrow> True | Some c \<Rightarrow> permits_pipeline c p (snd s))"

definition ensure_admitted :: "source_profiles \<Rightarrow> 'a pipe_state \<Rightarrow> bool \<times> 'a pipe_state" where
  "ensure_admitted p s =
     (case pl_claim (fst s) of
        None \<Rightarrow> (True, s)
      | Some c \<Rightarrow> (case transition_pipeline c p (snd s) of (ok, adm) \<Rightarrow> (ok, fst s, adm)))"

definition replace_viewer_profile :: "'a adapter_ops \<Rightarrow> 'a factory option \<Rightarrow> video_format \<Rightarrow> 'a pipe_state
    \<Rightarrow> (pipeline_error, unit, 'a pipe_state) outcome" where
  "replace_viewer_profile ops factory profile s =
     (case ensure_open s of
        Some e \<Rightarrow> (Inl e, s)
      | None \<Rightarrow>
          if \<not> vf_video_only profile then (Inl Pipeline_ValueError, s)
          else if prof_viewer (pl_profiles (fst s)) = profile then (Inr (), s)
          else
            let updated = (pl_profiles (fst s))\<lparr>prof_viewer := profile\<rparr> in
            if \<not> check_admission updated s then (Inl Pipeline_ValueError, s)
            else
              let pl1 = close_viewer ops (fst s) in
              if pl_viewer pl1 \<noteq> None then (Inl Pipeline_RuntimeError, pl1, snd s)
              else case ensure_admitted updated (pl1, snd s) of
                     (False, s2) \<Rightarrow> (Inl Pipeline_ValueError, s2)
                   | (True, s2) \<Rightarrow>
                       let pl2 = (fst s2)\<lparr>pl_profiles := updated\<rparr>;
                           pl3 = (if pl_viewers pl2 \<noteq> {} then start_viewer factory pl2 else pl2)
                       in (Inr (), pl3, snd s2))"

definition replace_inference_profile :: "inference_profile \<Rightarrow> 'a pipe_state
    \<Rightarrow> (pipeline_error, unit, 'a pipe_state) outcome" where
  "replace_inference_profile profile s =
     (case ensure_open s of
        Some e \<Rightarrow> (Inl e, s)
      | None \<Rightarrow>
          let updated = (pl_profiles (fst s))\<lparr>prof_inference := profile\<rparr> in
          case ensure_admitted updated s of
            (False, s1) \<Rightarrow> (Inl Pipeline_ValueError, s1)
          | (True, s1) \<Rightarrow>
              (Inr (), (fst s1)\<lparr>pl_inference := replace_profile profile (pl_inference (fst s1)),
                                pl_profiles := updated\<rparr>, snd s1))"

definition pipeline_discontinuity :: "'a adapter_ops \<Rightarrow> string \<Rightarrow> 'a pipeline \<Rightarrow> 'a pipeline" where
  "pipeline_discontinuity ops reason pl =
     pl\<lparr>pl_capture_discontinuities := Suc (pl_capture_discontinuities pl),
        pl_capture_reasons := insert reason (pl_capture_reasons pl),
        pl_recording := path_discontinuity ops reason (pl_recording pl),
        pl_viewer := map_option (path_discontinuity ops reason) (pl_viewer pl)\<rparr>"

definition packet_reason :: "compressed_packet \<Rightarrow> 'a pipeline \<Rightarrow> string" where
  "packet_reason packet pl =
     (if (case pl_sequence pl of None \<Rightarrow> False | Some n \<Rightarrow> pk_sequence packet \<noteq> n + 1) then ''sequence_gap''
      else if (case pl_dts pl of None \<Rightarrow> False | Some t \<Rightarrow> pk_dts packet < t) then ''decode_timestamp_reset''
      else if (case pl_dts pl of
                 None \<Rightarrow> False
               | Some t \<Rightarrow> of_int (pk_dts packet - t) * pk_time_base packet
                          > cp_maximum_timestamp_gap (prof_capture (pl_profiles pl)))
        then ''decode_timestamp_gap''
      else ''accepted'')"

definition offer_paths :: "'a adapter_ops \<Rightarrow> compressed_packet \<Rightarrow> string \<Rightarrow> 'a pipeline
    \<Rightarrow> offer_result \<times> 'a pipeline" where
  "offer_paths ops packet reason pl =
     (let (rec_queued, rec) = path_offer ops packet (pl_recording pl);
          (view_queued, view) =
            (case pl_viewer pl of
               None \<Rightarrow> (False, None)
             | Some v \<Rightarrow> map_prod id Some (path_offer ops packet v))
      in (\<lparr>or_recording_queued = rec_queued, or_viewer_queued = view_queued, or_reason = reason\<rparr>,
          pl\<lparr>pl_recording := rec, pl_viewer := view\<rparr>))"

definition offer_packet :: "'a adapter_ops \<Rightarrow> compressed_packet \<Rightarrow> 'a pipeline
    \<Rightarrow> offer_result \<times> 'a pipeline" where
  "offer_packet ops packet pl =
     (let refuse = (\<lambda>r. \<lparr>or_recording_queued = False, or_viewer_queued = False, or_reason = r\<rparr>) in
      if pk_source_id packet \<noteq> pl_source_id pl \<or> pk_stream_id packet \<noteq> pl_stream_id pl
        then (refuse ''foreign_source_or_stream'', pl)
      else if (case pl_sequence pl of None \<Rightarrow> False | Some n \<Rightarrow> pk_sequence packet \<le> n)
        then (refuse ''stale_or_duplicate_packet'', pl)
      else if pl_renegotiation_required pl then (refuse ''renegotiation_required'', pl)
      else if pk_time_base packet \<noteq> vf_time_base (cp_format (prof_capture (pl_profiles pl)))
        then (refuse ''renegotiation_required'',
              pipeline_discontinuity ops ''time_base_changed'' (pl\<lparr>pl_renegotiation_required := True\<rparr>))
      else
        let reason = packet_reason packet pl;
            pl1 = (if reason \<noteq> ''accepted'' then pipeline_discontinuity ops reason pl else pl)
        in offer_paths ops packet reason
             (pl1\<lparr>pl_sequence := Some (pk_sequence packet), pl_dts := Some (pk_dts packet)\<rparr>))"

definition pipeline_offer :: "'a adapter_ops \<Rightarrow> compressed_packet \<Rightarrow> 'a pipe_state
    \<Rightarrow> (pipeline_error, offer_result, 'a pipe_state) outcome" where
  "pipeline_offer ops packet s =
     (case ensure_open s of
        Some e \<Rightarrow> (Inl e, s)
      | None \<Rightarrow> (case offer_packet ops packet (fst s) of (r, pl) \<Rightarrow> (Inr r, pl, snd s)))"

definition pipeline_pump :: "'a adapter_ops \<Rightarrow> int \<Rightarrow> 'a pipe_state
    \<Rightarrow> (pipeline_error, nat \<times> nat, 'a pipe_state) outcome" where
  "pipeline_pump ops budget s =
     (case ensure_open s of
        Some e \<Rightarrow> (Inl e, s)
      | None \<Rightarrow>
          if budget \<le> 0 then (Inl Pipeline_ValueError, s)
          else
            let (r, rec) = path_pump ops (nat budget) (pl_recording (fst s));
                (v, view) = (case pl_viewer (fst s) of
                               None \<Rightarrow> (0, None)
                             | Some p \<Rightarrow> map_prod id Some (path_pump ops (nat budget) p))
            in (Inr (r, v), (fst s)\<lparr>pl_recording := rec, pl_viewer := view\<rparr>, snd s))"

definition release_admission_if_clean :: "'a adapter_ops \<Rightarrow> 'a pipe_state \<Rightarrow> 'a pipe_state" where
  "release_admission_if_clean ops s =
     (case pl_claim (fst s) of
        None \<Rightarrow> s
      | Some c \<Rightarrow>
          if \<not> ps_available (path_status ops (pl_recording (fst s)))
             \<and> (case pl_viewer (fst s) of None \<Rightarrow> True | Some v \<Rightarrow> \<not> ps_available (path_status ops v))
          then (fst s, snd (release_pipeline c (snd s)))
          else s)"

definition pipeline_close :: "'a adapter_ops \<Rightarrow> 'a pipe_state \<Rightarrow> 'a pipe_state" where
  "pipeline_close ops s =
     (let pl = fst s in
      if pl_closed pl then
        release_admission_if_clean ops
          (close_viewer ops (pl\<lparr>pl_recording := path_close ops (pl_recording pl)\<rparr>), snd s)
      else
        let pl1 = pl\<lparr>pl_closed := True, pl_recording := path_close ops (pl_recording pl)\<rparr>;
            pl2 = (close_viewer ops pl1)\<lparr>pl_viewers := {}\<rparr>
        in release_admission_if_clean ops (pl2, snd s))"

text \<open>The health report; the code sorts the reason set into a tuple.\<close>

record pipeline_report =
  pr_state :: string
  pr_reasons :: "string set"
  pr_capture_discontinuities :: nat
  pr_recording :: path_status
  pr_viewer :: "path_status option"

definition viewer_status :: "'a adapter_ops \<Rightarrow> 'a pipeline \<Rightarrow> path_status option" where
  "viewer_status ops pl =
     (case pl_viewer pl of Some v \<Rightarrow> Some (path_status ops v) | None \<Rightarrow> pl_last_viewer_status pl)"

definition pipeline_status :: "'a adapter_ops \<Rightarrow> 'a pipe_state \<Rightarrow> pipeline_report" where
  "pipeline_status ops s =
     (let pl = fst s;
          recording = path_status ops (pl_recording pl);
          last_viewer = viewer_status ops pl;
          viewer = (if pl_viewers pl \<noteq> {} \<or> (case last_viewer of None \<Rightarrow> False | Some v \<Rightarrow> ps_failed v)
                    then last_viewer else None);
          expired = (case pl_claim pl of None \<Rightarrow> False | Some c \<Rightarrow> \<not> owns_pipeline c (snd s));
          reasons = pl_capture_reasons pl
            \<union> (if expired then {''admission_expired''} else {})
            \<union> (if pl_closed pl then {''pipeline_closed''} else {})
            \<union> (if pl_renegotiation_required pl then {''capture_renegotiation_required''} else {})
            \<union> (if \<not> ps_available recording then {''recording_unavailable''}
               else if \<not> ps_healthy recording then {''recording_'' @ ps_reason recording} else {})
            \<union> (case viewer of
                 None \<Rightarrow> {}
               | Some v \<Rightarrow>
                   if \<not> ps_available v then {''viewer_unavailable''}
                   else if \<not> ps_healthy v then {''viewer_'' @ ps_reason v} else {});
          unavailable = (pl_closed pl \<or> ''admission_expired'' \<in> reasons \<or> pl_renegotiation_required pl
                         \<or> \<not> ps_available recording \<or> ps_failed recording);
          state = (if unavailable then ''unavailable'' else if reasons \<noteq> {} then ''degraded'' else ''healthy'')
      in \<lparr>pr_state = state, pr_reasons = reasons,
          pr_capture_discontinuities = pl_capture_discontinuities pl,
          pr_recording = recording, pr_viewer = viewer\<rparr>)"

section \<open>Bounded queues\<close>

definition queue_bytes :: "compressed_packet list \<Rightarrow> int" where
  "queue_bytes q = sum_list (map packet_size q)"

definition path_bounded :: "'a packet_path \<Rightarrow> bool" where
  "path_bounded p \<longleftrightarrow>
     pp_bytes p = queue_bytes (pp_queue p)
     \<and> int (length (pp_queue p)) \<le> ql_maximum_packets (pp_limits p)
     \<and> pp_bytes p \<le> ql_maximum_bytes (pp_limits p)
     \<and> (pp_queue p \<noteq> [] \<longrightarrow> pp_adapter p \<noteq> None \<and> \<not> pp_failed p \<and> \<not> pp_closed p)
     \<and> queue_limits_ok (pp_limits p)"

lemma queue_bytes_simps [simp]:
  "queue_bytes [] = 0" "queue_bytes (x # q) = packet_size x + queue_bytes q"
  "queue_bytes (q @ [x]) = queue_bytes q + packet_size x"
  by (simp_all add: queue_bytes_def)

lemma packet_size_nonneg [simp]: "0 \<le> packet_size p"
  by (simp add: packet_size_def)

lemma drop_queue_simps [simp]:
  "pp_queue (drop_queue p) = []" "pp_bytes (drop_queue p) = 0" "pp_limits (drop_queue p) = pp_limits p"
  "pp_adapter (drop_queue p) = pp_adapter p" "pp_failed (drop_queue p) = pp_failed p"
  "pp_closed (drop_queue p) = pp_closed p" "pp_awaiting_keyframe (drop_queue p) = pp_awaiting_keyframe p"
  by (simp_all add: drop_queue_def)

lemma release_adapter_simps [simp]:
  "pp_queue (release_adapter ops p) = pp_queue p" "pp_bytes (release_adapter ops p) = pp_bytes p"
  "pp_limits (release_adapter ops p) = pp_limits p" "pp_closed (release_adapter ops p) = pp_closed p"
  "pp_awaiting_keyframe (release_adapter ops p) = pp_awaiting_keyframe p"
  "pp_failed p \<Longrightarrow> pp_failed (release_adapter ops p)"
  by (auto simp: release_adapter_def Let_def split: option.split prod.split)

lemma path_fail_simps [simp]:
  "pp_queue (path_fail ops r p) = []" "pp_bytes (path_fail ops r p) = 0"
  "pp_limits (path_fail ops r p) = pp_limits p" "pp_closed (path_fail ops r p) = pp_closed p"
  "pp_failed (path_fail ops r p)" "pp_awaiting_keyframe (path_fail ops r p) = pp_awaiting_keyframe p"
  by (simp_all add: path_fail_def)

lemma path_discontinuity_simps [simp]:
  "pp_queue (path_discontinuity ops r p) = []" "pp_bytes (path_discontinuity ops r p) = 0"
  "pp_limits (path_discontinuity ops r p) = pp_limits p"
  "pp_closed (path_discontinuity ops r p) = pp_closed p"
  "pp_awaiting_keyframe (path_discontinuity ops r p)"
  by (auto simp: path_discontinuity_def Let_def split: option.split prod.split)

text \<open>An emptied queue is bounded whatever became of the adapter.\<close>

lemma path_bounded_empty:
  "\<lbrakk>pp_queue p = []; pp_bytes p = 0; queue_limits_ok (pp_limits p)\<rbrakk> \<Longrightarrow> path_bounded p"
  by (auto simp: path_bounded_def queue_limits_ok_def positive_int_def)

lemma path_bounded_limits: "path_bounded p \<Longrightarrow> queue_limits_ok (pp_limits p)"
  by (simp add: path_bounded_def)

lemma path_bounded_init: "queue_limits_ok limits \<Longrightarrow> path_bounded (path_init plan f limits st)"
  by (intro path_bounded_empty)
    (auto simp: path_init_def Let_def split: option.split factory_result.split)

lemma path_bounded_discontinuity: "path_bounded p \<Longrightarrow> path_bounded (path_discontinuity ops r p)"
  by (rule path_bounded_empty) (simp_all add: path_bounded_limits)

lemma path_discontinuity_adapter:
  "\<lbrakk>pp_adapter p \<noteq> None; \<not> pp_failed (path_discontinuity ops r p)\<rbrakk>
     \<Longrightarrow> pp_adapter (path_discontinuity ops r p) \<noteq> None"
  by (auto simp: path_discontinuity_def Let_def split: option.splits prod.splits if_splits)

lemma path_bounded_accept:
  assumes "path_bounded p" "\<not> pp_closed p" "\<not> pp_failed p \<Longrightarrow> pp_adapter p \<noteq> None"
    and "int (length (pp_queue p)) < ql_maximum_packets (pp_limits p)"
    and "pp_bytes p + packet_size packet \<le> ql_maximum_bytes (pp_limits p)"
  shows "path_bounded (snd (path_accept packet p))"
  using assms by (auto simp: path_accept_def path_bounded_def)

lemma path_bounded_offer:
  assumes "path_bounded p"
  shows "path_bounded (snd (path_offer ops packet p))"
proof -
  have ok: "queue_limits_ok (pp_limits p)" using assms by (rule path_bounded_limits)
  let ?d = "path_discontinuity ops ''backpressure'' p"
  let ?d' = "path_discontinuity ops ''packet_exceeds_byte_limit'' p"
  consider (closed) "pp_closed p \<or> pp_adapter p = None \<or> pp_failed p"
    | (big) "\<not> (pp_closed p \<or> pp_adapter p = None \<or> pp_failed p)"
        "packet_size packet > ql_maximum_bytes (pp_limits p)"
    | (full) "\<not> (pp_closed p \<or> pp_adapter p = None \<or> pp_failed p)"
        "packet_size packet \<le> ql_maximum_bytes (pp_limits p)"
        "int (length (pp_queue p)) \<ge> ql_maximum_packets (pp_limits p)
          \<or> pp_bytes p + packet_size packet > ql_maximum_bytes (pp_limits p)"
    | (room) "\<not> (pp_closed p \<or> pp_adapter p = None \<or> pp_failed p)"
        "int (length (pp_queue p)) < ql_maximum_packets (pp_limits p)"
        "pp_bytes p + packet_size packet \<le> ql_maximum_bytes (pp_limits p)"
        "packet_size packet \<le> ql_maximum_bytes (pp_limits p)"
    by linarith
  then show ?thesis
  proof cases
    case closed
    with assms show ?thesis by (auto simp: path_offer_def path_bounded_def)
  next
    case big
    then have "snd (path_offer ops packet p) = ?d'\<lparr>pp_dropped := Suc (pp_dropped ?d')\<rparr>"
      by (auto simp: path_offer_def Let_def)
    then show ?thesis using ok by (simp add: path_bounded_empty)
  next
    case full
    then have "path_offer ops packet p = path_accept packet ?d" by (auto simp: path_offer_def)
    moreover have "path_bounded (snd (path_accept packet ?d))"
      using full ok path_discontinuity_adapter [of p ops "''backpressure''"]
      by (intro path_bounded_accept path_bounded_discontinuity [OF assms])
        (auto simp: queue_limits_ok_def positive_int_def)
    ultimately show ?thesis by simp
  next
    case room
    then have "path_offer ops packet p = path_accept packet p" by (auto simp: path_offer_def)
    moreover have "path_bounded (snd (path_accept packet p))"
      using room by (intro path_bounded_accept assms) auto
    ultimately show ?thesis by simp
  qed
qed

text \<open>What every write keeps, the whole pump keeps.\<close>

lemma path_pump_keeps:
  assumes "\<And>p packet rest. \<lbrakk>P p; pp_queue p = packet # rest; \<not> pp_failed p\<rbrakk>
      \<Longrightarrow> P (snd (path_write ops packet rest p))"
  shows "P p \<Longrightarrow> P (snd (path_pump ops n p))"
proof (induction n arbitrary: p)
  case (Suc n)
  show ?case
  proof (cases "pp_queue p = [] \<or> pp_failed p")
    case True
    with Suc.prems show ?thesis by (auto split: list.split)
  next
    case False
    then obtain packet rest where q: "pp_queue p = packet # rest" by (cases "pp_queue p") auto
    obtain ok p1 where w: "path_write ops packet rest p = (ok, p1)" by fastforce
    have "P p1" using assms [OF Suc.prems q] False w by simp
    then show ?thesis using Suc.IH [of p1] False q w by (cases ok) (auto split: prod.split)
  qed
qed simp

lemma path_write_cases:
  obtains (no_adapter) "pp_adapter p = None"
    | (written) a a' where "pp_adapter p = Some a" "op_write ops packet a = (True, a')"
      "path_write ops packet rest p
        = (True, p\<lparr>pp_queue := rest, pp_bytes := pp_bytes p - packet_size packet, pp_adapter := Some a'\<rparr>)"
    | (raised) a a' p2 where "pp_adapter p = Some a" "op_write ops packet a = (False, a')"
      "path_write ops packet rest p = (False, path_fail ops ''adapter_write_failed'' p2)"
      "pp_limits p2 = pp_limits p" "pp_adapter p2 = Some a'" "pp_closed p2 = pp_closed p"
proof (cases "pp_adapter p")
  case (Some a)
  obtain ok a' where w: "op_write ops packet a = (ok, a')" by fastforce
  show ?thesis
  proof (cases ok)
    case True
    with Some w written show ?thesis by (simp add: path_write_def Let_def)
  next
    case False
    with Some w raised show ?thesis by (simp add: path_write_def Let_def)
  qed
qed (rule no_adapter)

lemma path_bounded_write:
  assumes "path_bounded p" "pp_queue p = packet # rest"
  shows "path_bounded (snd (path_write ops packet rest p))"
proof (cases rule: path_write_cases [where p = p and ops = ops and packet = packet and rest = rest])
  case no_adapter
  with assms show ?thesis by (simp add: path_bounded_def)
next
  case (written a a')
  have "packet_size packet + queue_bytes rest \<le> ql_maximum_bytes (pp_limits p)"
    using assms by (simp add: path_bounded_def)
  then have "queue_bytes rest \<le> ql_maximum_bytes (pp_limits p)"
    using packet_size_nonneg [of packet] by linarith
  then show ?thesis using assms written(1,3) unfolding path_bounded_def by auto
next
  case (raised a a' p2)
  then show ?thesis using path_bounded_limits [OF assms(1)] by (simp add: path_bounded_empty)
qed

lemma path_bounded_pump: "path_bounded p \<Longrightarrow> path_bounded (snd (path_pump ops n p))"
  by (rule path_pump_keeps) (rule path_bounded_write)

lemma path_bounded_close: "path_bounded p \<Longrightarrow> path_bounded (path_close ops p)"
  by (rule path_bounded_empty) (auto simp: path_close_def Let_def path_bounded_def)

section \<open>Pipeline runs\<close>

text \<open>
  Every operation of a pipeline, in any order, with whatever happens to the admission registry in between.
  \<open>F\<close> restricts the codec factories that may be installed.
\<close>

lemma offer_paths_simps [simp]:
  fixes ops :: "'a adapter_ops" and packet r pl
  defines "pl' \<equiv> snd (offer_paths ops packet r pl)"
  shows "pl_recording pl' = snd (path_offer ops packet (pl_recording pl))"
    "pl_viewer pl' = map_option (\<lambda>v. snd (path_offer ops packet v)) (pl_viewer pl)"
    "pl_sequence pl' = pl_sequence pl" "pl_dts pl' = pl_dts pl" "pl_viewers pl' = pl_viewers pl"
    "pl_viewer_limits pl' = pl_viewer_limits pl" "pl_profiles pl' = pl_profiles pl"
    "pl_source_id pl' = pl_source_id pl" "pl_stream_id pl' = pl_stream_id pl" "pl_closed pl' = pl_closed pl"
    "pl_claim pl' = pl_claim pl" "pl_renegotiation_required pl' = pl_renegotiation_required pl"
    "pl_inference pl' = pl_inference pl"
  by (auto simp: pl'_def offer_paths_def Let_def map_prod_def split: prod.split option.split)

definition pump_paths :: "'a adapter_ops \<Rightarrow> nat \<Rightarrow> 'a pipeline \<Rightarrow> 'a pipeline" where
  "pump_paths ops n pl =
     pl\<lparr>pl_recording := snd (path_pump ops n (pl_recording pl)),
        pl_viewer := map_option (\<lambda>v. snd (path_pump ops n v)) (pl_viewer pl)\<rparr>"

lemma pipeline_pump_state:
  "snd (pipeline_pump ops budget s) =
     (if ensure_open s \<noteq> None \<or> budget \<le> 0 then s else (pump_paths ops (nat budget) (fst s), snd s))"
  by (auto simp: pipeline_pump_def pump_paths_def Let_def map_prod_def split: option.split prod.split)

inductive pipe_step :: "'a adapter_ops \<Rightarrow> ('a factory option \<Rightarrow> bool) \<Rightarrow> 'a pipe_state \<Rightarrow> 'a pipe_state \<Rightarrow> bool"
  for ops F where
    pipe_add: "F f \<Longrightarrow> pipe_step ops F s (snd (add_viewer f u s))"
  | pipe_remove: "pipe_step ops F s (snd (remove_viewer ops u s))"
  | pipe_replace_viewer: "F f \<Longrightarrow> pipe_step ops F s (snd (replace_viewer_profile ops f v s))"
  | pipe_replace_inference: "pipe_step ops F s (snd (replace_inference_profile i s))"
  | pipe_offer: "pipe_step ops F s (snd (pipeline_offer ops packet s))"
  | pipe_pump: "pipe_step ops F s (snd (pipeline_pump ops budget s))"
  | pipe_close: "pipe_step ops F s (pipeline_close ops s)"
  | pipe_environment: "pipe_step ops F (pl, adm) (pl, adm')"

inductive pipe_reachable :: "'a adapter_ops \<Rightarrow> ('a factory option \<Rightarrow> bool) \<Rightarrow> 'a pipe_state \<Rightarrow> bool"
  for ops F where
    pipe_start: "\<lbrakk>F f; queue_limits_ok rl; queue_limits_ok vl;
        pipeline_init source_id stream_id profiles rl vl f admission adm = (Inr pl, adm')\<rbrakk>
      \<Longrightarrow> pipe_reachable ops F (pl, adm')"
  | pipe_next: "\<lbrakk>pipe_reachable ops F s; pipe_step ops F s s'\<rbrakk> \<Longrightarrow> pipe_reachable ops F s'"

fun position_of :: "int option \<Rightarrow> int option \<Rightarrow> (int \<times> int) option" where
  "position_of (Some n) (Some t) = Some (n, t)"
| "position_of _ _ = None"

definition position :: "'a pipeline \<Rightarrow> (int \<times> int) option" where
  "position pl = position_of (pl_sequence pl) (pl_dts pl)"

definition packet_follows :: "(int \<times> int) option \<Rightarrow> compressed_packet \<Rightarrow> bool" where
  "packet_follows pos packet \<longleftrightarrow>
     (case pos of None \<Rightarrow> True | Some (n, t) \<Rightarrow> pk_sequence packet = n + 1 \<and> t \<le> pk_dts packet)"

text \<open>
  The contract between a path and the pipeline that drives it: a property of a path at a stream position
  that every path operation keeps, given that an offered packet follows the position or the path waits
  for a keyframe. Such a property holds of both paths of every pipeline at every moment.
\<close>

locale path_property =
  fixes ops :: "'a adapter_ops" and F :: "'a factory option \<Rightarrow> bool"
    and P :: "(int \<times> int) option \<Rightarrow> 'a packet_path \<Rightarrow> bool"
  assumes P_init: "\<lbrakk>F f; queue_limits_ok l\<rbrakk> \<Longrightarrow> P pos (path_init plan f l st)"
    and P_discontinuity: "P pos p \<Longrightarrow> P pos (path_discontinuity ops r p)"
    and P_offer: "\<lbrakk>P pos p; packet_follows pos packet \<or> pp_awaiting_keyframe p\<rbrakk>
      \<Longrightarrow> P (Some (pk_sequence packet, pk_dts packet)) (snd (path_offer ops packet p))"
    and P_pump: "P pos p \<Longrightarrow> P pos (snd (path_pump ops n p))"
    and P_close: "P pos p \<Longrightarrow> P pos (path_close ops p)"
begin

definition pipe_inv :: "'a pipeline \<Rightarrow> bool" where
  "pipe_inv pl \<longleftrightarrow>
     (pl_sequence pl = None \<longleftrightarrow> pl_dts pl = None)
     \<and> P (position pl) (pl_recording pl)
     \<and> (\<forall>v. pl_viewer pl = Some v \<longrightarrow> P (position pl) v)
     \<and> queue_limits_ok (pl_viewer_limits pl)"

lemma pipe_inv_start_viewer: "\<lbrakk>pipe_inv pl; F f\<rbrakk> \<Longrightarrow> pipe_inv (start_viewer f pl)"
  by (auto simp: pipe_inv_def start_viewer_def position_def P_init split: option.split)

lemma pipe_inv_close_viewer: "pipe_inv pl \<Longrightarrow> pipe_inv (close_viewer ops pl)"
  by (auto simp: pipe_inv_def close_viewer_def position_def Let_def P_close split: option.split)

lemma pipe_inv_viewers [simp]: "pipe_inv (pl\<lparr>pl_viewers := X\<rparr>) = pipe_inv pl"
  by (simp add: pipe_inv_def position_def)

lemma pipe_inv_profiles [simp]: "pipe_inv (pl\<lparr>pl_profiles := X\<rparr>) = pipe_inv pl"
  by (simp add: pipe_inv_def position_def)

lemma pipe_inv_inference [simp]: "pipe_inv (pl\<lparr>pl_inference := X\<rparr>) = pipe_inv pl"
  by (simp add: pipe_inv_def position_def)

lemma pipe_inv_renegotiation [simp]: "pipe_inv (pl\<lparr>pl_renegotiation_required := X\<rparr>) = pipe_inv pl"
  by (simp add: pipe_inv_def position_def)

lemma pipe_inv_discontinuity: "pipe_inv pl \<Longrightarrow> pipe_inv (pipeline_discontinuity ops r pl)"
  by (auto simp: pipe_inv_def pipeline_discontinuity_def position_def P_discontinuity)

lemma pipe_inv_add: "\<lbrakk>pipe_inv (fst s); F f\<rbrakk> \<Longrightarrow> pipe_inv (fst (snd (add_viewer f u s)))"
  by (auto simp: add_viewer_def Let_def pipe_inv_start_viewer split: option.split)

lemma pipe_inv_remove: "pipe_inv (fst s) \<Longrightarrow> pipe_inv (fst (snd (remove_viewer ops u s)))"
  by (simp add: remove_viewer_def Let_def pipe_inv_close_viewer)

lemma ensure_admitted_pipeline: "fst (snd (ensure_admitted p s)) = fst s"
  by (simp add: ensure_admitted_def split: option.split prod.split)

lemma pipe_inv_replace_viewer:
  assumes "pipe_inv (fst s)" "F f"
  shows "pipe_inv (fst (snd (replace_viewer_profile ops f v s)))"
proof -
  let ?u = "(pl_profiles (fst s))\<lparr>prof_viewer := v\<rparr>"
  let ?pl1 = "close_viewer ops (fst s)"
  have inv1: "pipe_inv ?pl1" using assms(1) by (rule pipe_inv_close_viewer)
  obtain ok pl2 adm2 where ea: "ensure_admitted ?u (?pl1, snd s) = (ok, pl2, adm2)" by (metis prod_cases3)
  then have "pl2 = ?pl1" using ensure_admitted_pipeline [of ?u "(?pl1, snd s)"] by simp
  then show ?thesis
    using assms inv1 ea
    by (cases ok) (auto simp: replace_viewer_profile_def Let_def intro: pipe_inv_start_viewer split: option.split)
qed

lemma pipe_inv_replace_inference:
  assumes "pipe_inv (fst s)"
  shows "pipe_inv (fst (snd (replace_inference_profile i s)))"
proof -
  let ?u = "(pl_profiles (fst s))\<lparr>prof_inference := i\<rparr>"
  obtain ok pl1 adm1 where ea: "ensure_admitted ?u s = (ok, pl1, adm1)" by (metis prod_cases3)
  then have "pl1 = fst s" using ensure_admitted_pipeline [of ?u s] by simp
  then show ?thesis
    using assms ea by (cases ok) (auto simp: replace_inference_profile_def Let_def split: option.split)
qed

lemma pipe_inv_offer_paths:
  assumes "pipe_inv pl"
    and "packet_follows (position pl) packet
      \<or> pp_awaiting_keyframe (pl_recording pl) \<and> (\<forall>v. pl_viewer pl = Some v \<longrightarrow> pp_awaiting_keyframe v)"
  shows "pipe_inv (snd (offer_paths ops packet r
    (pl\<lparr>pl_sequence := Some (pk_sequence packet), pl_dts := Some (pk_dts packet)\<rparr>)))"
  using assms P_offer [of "position pl" _ packet] by (auto simp: pipe_inv_def position_def)

lemma pipe_inv_offer_packet:
  assumes "pipe_inv pl"
  shows "pipe_inv (snd (offer_packet ops packet pl))"
proof -
  let ?r = "packet_reason packet pl"
  let ?pl1 = "if ?r \<noteq> ''accepted'' then pipeline_discontinuity ops ?r pl else pl"
  have "packet_follows (position ?pl1) packet
      \<or> pp_awaiting_keyframe (pl_recording ?pl1) \<and> (\<forall>v. pl_viewer ?pl1 = Some v \<longrightarrow> pp_awaiting_keyframe v)"
  proof (cases "?r = ''accepted''")
    case True
    then show ?thesis
      using assms by (auto simp: packet_reason_def packet_follows_def position_def pipe_inv_def
          split: if_splits option.splits)
  next
    case False
    then show ?thesis by (auto simp: pipeline_discontinuity_def)
  qed
  moreover have "pipe_inv ?pl1" using assms pipe_inv_discontinuity by simp
  ultimately have "pipe_inv (snd (offer_paths ops packet ?r
      (?pl1\<lparr>pl_sequence := Some (pk_sequence packet), pl_dts := Some (pk_dts packet)\<rparr>)))"
    by (rule pipe_inv_offer_paths [rotated])
  then show ?thesis
    using assms by (auto simp: offer_packet_def Let_def intro: pipe_inv_discontinuity)
qed

lemma pipe_inv_offer: "pipe_inv (fst s) \<Longrightarrow> pipe_inv (fst (snd (pipeline_offer ops packet s)))"
  using pipe_inv_offer_packet [of "fst s" packet]
  by (auto simp: pipeline_offer_def split: option.split prod.split)

lemma pipe_inv_pump: "pipe_inv (fst s) \<Longrightarrow> pipe_inv (fst (snd (pipeline_pump ops budget s)))"
  using P_pump [of "position (fst s)" _ "nat budget"]
  by (auto simp: pipeline_pump_state pump_paths_def pipe_inv_def position_def)

lemma release_admission_pipeline: "fst (release_admission_if_clean ops s) = fst s"
  by (simp add: release_admission_if_clean_def split: option.split)

lemma pipe_inv_close:
  assumes "pipe_inv (fst s)"
  shows "pipe_inv (fst (pipeline_close ops s))"
proof -
  have "pipe_inv ((fst s)\<lparr>pl_recording := path_close ops (pl_recording (fst s))\<rparr>)"
    "pipe_inv ((fst s)\<lparr>pl_closed := True, pl_recording := path_close ops (pl_recording (fst s))\<rparr>)"
    using assms by (auto simp: pipe_inv_def position_def P_close)
  then show ?thesis
    by (simp add: pipeline_close_def Let_def release_admission_pipeline pipe_inv_close_viewer)
qed

lemma pipe_inv_init:
  assumes "pipeline_init source_id stream_id profiles rl vl f admission adm = (Inr pl, adm')"
    and "F f" "queue_limits_ok rl" "queue_limits_ok vl"
  shows "pipe_inv pl"
proof -
  obtain c where "pl = new_pipeline source_id stream_id c profiles rl vl f"
    using assms(1) by (auto simp: pipeline_init_def Let_def split: if_splits option.splits prod.splits)
  then show ?thesis using assms(2-4) by (simp add: pipe_inv_def new_pipeline_def position_def P_init)
qed

lemma pipe_reachable_inv: "pipe_reachable ops F s \<Longrightarrow> pipe_inv (fst s)"
proof (induction rule: pipe_reachable.induct)
  case (pipe_start f rl vl source_id stream_id profiles admission adm pl adm')
  then show ?case using pipe_inv_init by simp
next
  case (pipe_next s s')
  from pipe_next(2,3) show ?case
    by cases (auto intro: pipe_inv_add pipe_inv_remove pipe_inv_replace_viewer pipe_inv_replace_inference
        pipe_inv_offer pipe_inv_pump pipe_inv_close)
qed

end

interpretation bounded_path: path_property ops "\<lambda>_. True" "\<lambda>_. path_bounded" for ops
  by unfold_locales
    (auto intro: path_bounded_init path_bounded_discontinuity path_bounded_offer path_bounded_pump
      path_bounded_close)

text \<open>
  At every moment of a pipeline's life, whatever the adapters do, the recording queue and the viewer
  queue hold at most the configured number of packets and bytes, the byte counter is exact, and a queue is
  empty unless its adapter is present, working and open.
\<close>

theorem pipeline_queues_bounded:
  assumes "pipe_reachable ops (\<lambda>_. True) (pl, adm)"
  shows "path_bounded (pl_recording pl) \<and> (\<forall>v. pl_viewer pl = Some v \<longrightarrow> path_bounded v)"
  using bounded_path.pipe_reachable_inv [OF assms] by (simp add: bounded_path.pipe_inv_def)

section \<open>What reaches an adapter\<close>

text \<open>
  An adapter whose state is the log of what it accepted, newest first; whether a call raises is an
  arbitrary function of that history. Every deterministic adapter behaviour is of this form.
\<close>

datatype adapter_event = Wrote compressed_packet | Was_Reset

definition logging_ops :: "(compressed_packet \<Rightarrow> adapter_event list \<Rightarrow> bool) \<Rightarrow> (adapter_event list \<Rightarrow> bool)
    \<Rightarrow> (adapter_event list \<Rightarrow> bool) \<Rightarrow> adapter_event list adapter_ops" where
  "logging_ops write_ok reset_ok close_ok =
     \<lparr>op_write = (\<lambda>p l. if write_ok p l then (True, Wrote p # l) else (False, l)),
      op_reset = (\<lambda>l. if reset_ok l then (True, Was_Reset # l) else (False, l)),
      op_close = (\<lambda>l. (close_ok l, l)),
      op_selection_state = (\<lambda>l. None)\<rparr>"

definition fresh_factory :: "adapter_event list factory option \<Rightarrow> bool" where
  "fresh_factory f \<longleftrightarrow> (\<forall>g plan l. f = Some g \<longrightarrow> g plan = Factory_Adapter l \<longrightarrow> l = [])"

text \<open>
  Between two resets the accepted packets start with a keyframe and continue without a gap in the
  sequence and with decode timestamps that never go back.
\<close>

fun segments_ok :: "adapter_event list \<Rightarrow> bool" where
  "segments_ok [] = True"
| "segments_ok (Was_Reset # l) = segments_ok l"
| "segments_ok (Wrote p # l) =
     (segments_ok l
      \<and> (case l of
           Wrote q # _ \<Rightarrow> pk_sequence p = pk_sequence q + 1 \<and> pk_dts q \<le> pk_dts p
         | _ \<Rightarrow> pk_keyframe p))"

lemma segments_ok_suffix: "segments_ok (xs @ l) \<Longrightarrow> segments_ok l"
  by (induction xs) (auto elim: segments_ok.elims)

lemma segments_ok_Wrote_Nil: "segments_ok l \<Longrightarrow> l = [] \<or> hd l = Was_Reset \<Longrightarrow> pk_keyframe p
    \<Longrightarrow> segments_ok (Wrote p # l)"
  by (cases l) auto

definition log_inv :: "(int \<times> int) option \<Rightarrow> adapter_event list packet_path \<Rightarrow> bool" where
  "log_inv pos p \<longleftrightarrow>
     (case pp_adapter p of
        None \<Rightarrow> pp_queue p = []
      | Some l \<Rightarrow>
          segments_ok (map Wrote (rev (pp_queue p)) @ l)
          \<and> (pp_failed p \<or> pp_closed p \<longrightarrow> pp_queue p = [])
          \<and> (\<not> pp_failed p \<longrightarrow> \<not> pp_closed p \<longrightarrow>
               (if pp_awaiting_keyframe p then pp_queue p = [] \<and> (l = [] \<or> hd l = Was_Reset)
                else \<exists>q rest. map Wrote (rev (pp_queue p)) @ l = Wrote q # rest
                       \<and> pos = Some (pk_sequence q, pk_dts q))))"

lemma log_inv_stopped:
  "\<lbrakk>pp_queue p = []; pp_failed p \<or> pp_closed p; \<forall>l. pp_adapter p = Some l \<longrightarrow> segments_ok l\<rbrakk> \<Longrightarrow> log_inv pos p"
  by (auto simp: log_inv_def split: option.split)

lemma log_inv_adapter: "\<lbrakk>log_inv pos p; pp_adapter p = Some l\<rbrakk> \<Longrightarrow> segments_ok l"
  by (auto simp: log_inv_def dest: segments_ok_suffix)

lemma log_inv_simps [simp]:
  "log_inv pos (p\<lparr>pp_dropped := d\<rparr>) = log_inv pos p" "log_inv pos (p\<lparr>pp_skipped := d\<rparr>) = log_inv pos p"
  "log_inv pos (p\<lparr>pp_reason := r\<rparr>) = log_inv pos p" "log_inv pos (p\<lparr>pp_bytes := b\<rparr>) = log_inv pos p"
  by (simp_all add: log_inv_def cong: option.case_cong)

lemma release_adapter_log:
  "pp_adapter (release_adapter (logging_ops w r c) p) \<in> {None, pp_adapter p}"
  by (auto simp: release_adapter_def logging_ops_def split: option.split)

lemma path_fail_log:
  assumes "\<forall>l. pp_adapter p = Some l \<longrightarrow> segments_ok l"
  shows "log_inv pos (path_fail (logging_ops w r c) reason p)"
  using release_adapter_log [of w r c "drop_queue (p\<lparr>pp_failed := True, pp_reason := reason\<rparr>)"] assms
  by (intro log_inv_stopped) (auto simp: path_fail_def)

lemma log_inv_init: "fresh_factory f \<Longrightarrow> log_inv pos (path_init plan f limits st)"
proof -
  assume fresh: "fresh_factory f"
  have "pp_adapter (path_init plan f limits st) \<in> {None, Some []}"
  proof (cases f)
    case (Some g)
    with fresh have "\<And>l. g plan = Factory_Adapter l \<Longrightarrow> l = []" by (auto simp: fresh_factory_def)
    with Some show ?thesis by (cases "g plan") (simp_all add: path_init_def Let_def)
  qed (simp add: path_init_def Let_def)
  moreover have "pp_queue (path_init plan f limits st) = []" "pp_awaiting_keyframe (path_init plan f limits st)"
    by (simp_all add: path_init_def Let_def split: option.split factory_result.split)
  ultimately show ?thesis by (auto simp: log_inv_def)
qed

lemma log_inv_discontinuity:
  assumes "log_inv pos p"
  shows "log_inv pos' (path_discontinuity (logging_ops w r c) reason p)"
proof (cases "pp_adapter p")
  case None
  then show ?thesis by (simp add: path_discontinuity_def log_inv_def)
next
  case (Some l)
  have l: "segments_ok l" using log_inv_adapter [OF assms Some] .
  let ?p1 = "(drop_queue p)\<lparr>pp_discontinuities := Suc (pp_discontinuities p),
    pp_awaiting_keyframe := True, pp_reason := reason\<rparr>"
  consider "pp_failed p" | "\<not> pp_failed p" "r l" | "\<not> pp_failed p" "\<not> r l" by blast
  then show ?thesis
  proof cases
    case 1
    then have "path_discontinuity (logging_ops w r c) reason p = ?p1"
      using Some by (simp add: path_discontinuity_def Let_def)
    moreover have "log_inv pos' ?p1" using 1 Some l by (intro log_inv_stopped) auto
    ultimately show ?thesis by simp
  next
    case 2
    then have "path_discontinuity (logging_ops w r c) reason p = ?p1\<lparr>pp_adapter := Some (Was_Reset # l)\<rparr>"
      using Some by (simp add: path_discontinuity_def Let_def logging_ops_def)
    moreover have "log_inv pos' (?p1\<lparr>pp_adapter := Some (Was_Reset # l)\<rparr>)" using l by (simp add: log_inv_def)
    ultimately show ?thesis by simp
  next
    case 3
    then have "path_discontinuity (logging_ops w r c) reason p
        = path_fail (logging_ops w r c) ''adapter_reset_failed'' (?p1\<lparr>pp_adapter := Some l\<rparr>)"
      using Some by (simp add: path_discontinuity_def Let_def logging_ops_def)
    then show ?thesis using l by (simp add: path_fail_log)
  qed
qed

lemma log_inv_accept:
  assumes "log_inv pos p" "packet_follows pos packet \<or> pp_awaiting_keyframe p"
    and "\<not> pp_closed p" "\<not> pp_failed p \<Longrightarrow> pp_adapter p \<noteq> None"
  shows "log_inv (Some (pk_sequence packet, pk_dts packet)) (snd (path_accept packet p))"
proof -
  let ?pos = "Some (pk_sequence packet, pk_dts packet)"
  consider (failed) "pp_failed p" | (skip) "\<not> pp_failed p" "pp_awaiting_keyframe p" "\<not> pk_keyframe packet"
    | (key) "\<not> pp_failed p" "pp_awaiting_keyframe p" "pk_keyframe packet"
    | (cont) "\<not> pp_failed p" "\<not> pp_awaiting_keyframe p" by blast
  then show ?thesis
  proof cases
    case failed
    then have "pp_queue p = []" "\<forall>l. pp_adapter p = Some l \<longrightarrow> segments_ok l"
      using assms(1) by (auto simp: log_inv_def split: option.splits)
    with failed show ?thesis by (simp add: path_accept_def log_inv_stopped)
  next
    case skip
    then have "log_inv ?pos p" using assms(1,3,4) by (auto simp: log_inv_def split: option.splits)
    with skip show ?thesis by (simp add: path_accept_def)
  next
    case key
    then show ?thesis
      using assms(1,3,4) segments_ok_Wrote_Nil
      by (auto simp: path_accept_def log_inv_def split: option.splits)
  next
    case cont
    then obtain l q rest where l: "pp_adapter p = Some l" "segments_ok (Wrote q # rest)"
      "map Wrote (rev (pp_queue p)) @ l = Wrote q # rest" "pos = Some (pk_sequence q, pk_dts q)"
      using assms(1,3,4) by (auto simp: log_inv_def split: option.splits)
    with cont assms(2,3) show ?thesis by (auto simp: path_accept_def log_inv_def packet_follows_def)
  qed
qed

lemma log_inv_offer:
  assumes "log_inv pos p" "packet_follows pos packet \<or> pp_awaiting_keyframe p"
  shows "log_inv (Some (pk_sequence packet, pk_dts packet))
    (snd (path_offer (logging_ops w r c) packet p))"
proof -
  let ?ops = "logging_ops w r c" and ?pos = "Some (pk_sequence packet, pk_dts packet)"
  consider (closed) "pp_closed p \<or> pp_adapter p = None \<or> pp_failed p"
    | (live) "\<not> pp_closed p" "pp_adapter p \<noteq> None" "\<not> pp_failed p" by blast
  then show ?thesis
  proof cases
    case closed
    then have "log_inv ?pos p" using assms(1) by (auto simp: log_inv_def split: option.splits)
    with closed show ?thesis by (simp add: path_offer_def)
  next
    case live
    let ?q = "if int (length (pp_queue p)) \<ge> ql_maximum_packets (pp_limits p)
            \<or> pp_bytes p + packet_size packet > ql_maximum_bytes (pp_limits p)
         then path_discontinuity ?ops ''backpressure'' p else p"
    have "log_inv ?pos (snd (path_accept packet ?q))"
      using live assms path_discontinuity_adapter [OF live(2), of ?ops]
      by (intro log_inv_accept [where pos = pos]) (auto simp: log_inv_discontinuity)
    moreover have "log_inv ?pos (path_discontinuity ?ops ''packet_exceeds_byte_limit'' p)"
      using assms(1) by (rule log_inv_discontinuity)
    ultimately show ?thesis using live by (auto simp: path_offer_def Let_def)
  qed
qed

lemma log_inv_write:
  assumes "log_inv pos p" "pp_queue p = packet # rest"
  shows "log_inv pos (snd (path_write (logging_ops w r c) packet rest p))"
proof (cases rule: path_write_cases [where p = p and ops = "logging_ops w r c" and packet = packet and rest = rest])
  case no_adapter
  with assms show ?thesis by (simp add: log_inv_def)
next
  case (written a a')
  then have "a' = Wrote packet # a" by (auto simp: logging_ops_def split: if_splits)
  then show ?thesis using assms written by (auto simp: log_inv_def)
next
  case (raised a a' p2)
  then have "a' = a" by (auto simp: logging_ops_def split: if_splits)
  then show ?thesis using raised log_inv_adapter [OF assms(1)] by (simp add: path_fail_log)
qed

lemma log_inv_close:
  assumes "log_inv pos p"
  shows "log_inv pos (path_close (logging_ops w r c) p)"
proof -
  have "pp_adapter (path_close (logging_ops w r c) p) \<in> {None, pp_adapter p}"
    using release_adapter_log [of w r c p] release_adapter_log [of w r c "drop_queue (p\<lparr>pp_closed := True\<rparr>)"]
    by (auto simp: path_close_def Let_def)
  moreover have "pp_closed p \<Longrightarrow> pp_queue p = []" using assms by (auto simp: log_inv_def split: option.splits)
  then have "pp_queue (path_close (logging_ops w r c) p) = []" "pp_closed (path_close (logging_ops w r c) p)"
    by (simp_all add: path_close_def Let_def)
  ultimately show ?thesis using log_inv_adapter [OF assms] by (intro log_inv_stopped) auto
qed

interpretation logged_path: path_property "logging_ops w r c" fresh_factory log_inv for w r c
proof unfold_locales
  show "log_inv pos p \<Longrightarrow> log_inv pos (snd (path_pump (logging_ops w r c) n p))" for pos p n
    by (rule path_pump_keeps) (rule log_inv_write)
qed (simp_all add: log_inv_init log_inv_discontinuity log_inv_offer log_inv_close)

text \<open>
  C10. Decodable output. For every adapter, whatever it does and whichever calls raise, what the recording
  adapter and the viewer adapter have accepted is, between two resets, a run of packets that starts with a
  keyframe, has no gap in its sequence numbers, and has decode timestamps that never go back.
\<close>

theorem adapters_receive_decodable_segments:
  assumes "pipe_reachable (logging_ops w r c) fresh_factory (pl, adm)"
  shows "(\<forall>l. pp_adapter (pl_recording pl) = Some l \<longrightarrow> segments_ok l)
    \<and> (\<forall>v l. pl_viewer pl = Some v \<and> pp_adapter v = Some l \<longrightarrow> segments_ok l)"
  using logged_path.pipe_reachable_inv [OF assms] log_inv_adapter
  by (auto simp: logged_path.pipe_inv_def)

section \<open>Viewers never affect the recording\<close>

text \<open>
  Everything the durable recording of a pipeline depends on: its path and clock position, the identity and the
  profiles it records, the capture health, the closed flag and the claim; and whether \<open>_ensure_open\<close> still lets
  a packet in, which also looks at the shared admission.
\<close>

definition recording_core :: "'a pipeline \<Rightarrow> ('a packet_path \<times> int option \<times> int option \<times> bool \<times> uuid \<times> uuid)
    \<times> capture_profile \<times> video_format \<times> nat \<times> string set \<times> bool \<times> claim option" where
  "recording_core pl =
     ((pl_recording pl, pl_sequence pl, pl_dts pl, pl_renegotiation_required pl, pl_source_id pl, pl_stream_id pl),
      prof_capture (pl_profiles pl), prof_recording (pl_profiles pl), pl_capture_discontinuities pl,
      pl_capture_reasons pl, pl_closed pl, pl_claim pl)"

definition recording_view where
  "recording_view s = (recording_core (fst s), ensure_open s)"

lemma recording_core_viewer_ops:
  "recording_core (start_viewer f pl) = recording_core pl"
  "recording_core (close_viewer ops pl) = recording_core pl"
  "recording_core (pl\<lparr>pl_viewers := X\<rparr>) = recording_core pl"
  "recording_core (pl\<lparr>pl_profiles := (pl_profiles pl)\<lparr>prof_viewer := v\<rparr>\<rparr>) = recording_core pl"
  "recording_core (pl\<lparr>pl_inference := smp, pl_profiles := (pl_profiles pl)\<lparr>prof_inference := i\<rparr>\<rparr>)
     = recording_core pl"
  "recording_core (pl\<lparr>pl_inference := smp\<rparr>) = recording_core pl"
  by (simp_all add: recording_core_def start_viewer_def close_viewer_def Let_def split: option.split)

lemma ensure_admitted_state: "fst (snd (ensure_admitted p s)) = fst s"
  by (simp add: ensure_admitted_def split: option.split prod.split)

lemma close_viewer_profiles: "pl_profiles (close_viewer ops pl) = pl_profiles pl"
  by (simp add: close_viewer_def Let_def split: option.split)

text \<open>Who owns a claim: a profile transition, an admission, a released lease and a newer claim change nothing.\<close>

lemma owns_transition: "owns_pipeline c (snd (transition_pipeline c' p a)) = owns_pipeline c a"
  by (simp add: transition_pipeline_def owns_pipeline_def)

lemma owns_admit: "owns_pipeline c (snd (admit cap p opt a)) = owns_pipeline c a"
  by (auto simp: admit_def owns_pipeline_def Let_def dict_simps split: if_splits)

lemma owns_release_lease: "owns_pipeline c (snd (release_lease l a)) = owns_pipeline c a"
  by (auto simp: release_lease_def owns_pipeline_def dict_simps split: if_splits)

lemma owns_claim: "cl_number c < adm_next_claim a \<Longrightarrow> owns_pipeline c (snd (claim_pipeline l p a)) = owns_pipeline c a"
  by (cases c) (auto simp: claim_pipeline_def owns_pipeline_def Let_def dict_simps split: if_splits)

lemma owns_release: "owns_pipeline c (snd (release_pipeline c' a)) \<longleftrightarrow> owns_pipeline c a \<and> c' \<noteq> c"
  by (auto simp: release_pipeline_def owns_pipeline_def dict_simps split: if_splits)

lemma ensure_open_cong:
  assumes "recording_core pl = recording_core pl'" "\<And>c. pl_claim pl = Some c \<Longrightarrow> owns_pipeline c adm = owns_pipeline c adm'"
  shows "ensure_open (pl, adm) = ensure_open (pl', adm')"
  using assms by (auto simp: ensure_open_def recording_core_def split: option.splits)

lemma recording_view_cong:
  assumes "recording_core pl = recording_core pl'" "\<And>c. pl_claim pl = Some c \<Longrightarrow> owns_pipeline c adm = owns_pipeline c adm'"
  shows "recording_view (pl, adm) = recording_view (pl', adm')"
  using assms ensure_open_cong [OF assms] by (simp add: recording_view_def)

lemma recording_view_admitted: "recording_view (snd (ensure_admitted p s)) = recording_view s"
proof -
  obtain pl adm where s: "s = (pl, adm)" by fastforce
  show ?thesis
    unfolding s ensure_admitted_def
    by (auto split: option.splits prod.splits intro!: recording_view_cong) (metis owns_transition snd_conv)+
qed

lemma recording_view_core: "recording_core pl = recording_core (fst s) \<Longrightarrow> recording_view (pl, snd s) = recording_view s"
  using recording_view_cong [of pl "fst s" "snd s" "snd s"] by simp

lemma recording_view_replace_viewer: "recording_view (snd (replace_viewer_profile ops f v s)) = recording_view s"
proof -
  let ?pl1 = "close_viewer ops (fst s)"
  let ?u = "(pl_profiles ?pl1)\<lparr>prof_viewer := v\<rparr>"
  obtain ok pl2 adm2 where ea: "ensure_admitted ?u (?pl1, snd s) = (ok, pl2, adm2)" by (metis prod_cases3)
  then have pl2: "pl2 = ?pl1" using ensure_admitted_state [of ?u "(?pl1, snd s)"] by simp
  have closed: "recording_view (?pl1, snd s) = recording_view s"
    by (rule recording_view_core) (rule recording_core_viewer_ops(2))
  have admitted: "recording_view (?pl1, adm2) = recording_view s"
    using recording_view_admitted [of ?u "(?pl1, snd s)"] ea pl2 closed by simp
  have replaced: "recording_view (pl3, adm2) = recording_view s" if "recording_core pl3 = recording_core ?pl1" for pl3
    using recording_view_core [of pl3 "(?pl1, adm2)"] that admitted by simp
  show ?thesis
    using ea pl2 closed admitted close_viewer_profiles [of ops "fst s"] recording_core_viewer_ops(4) [where pl = ?pl1 and v = v]
    by (cases ok) (auto simp: replace_viewer_profile_def Let_def recording_core_viewer_ops(1-3) replaced split: option.split)
qed

lemma recording_view_replace_inference: "recording_view (snd (replace_inference_profile i s)) = recording_view s"
proof -
  let ?u = "(pl_profiles (fst s))\<lparr>prof_inference := i\<rparr>"
  obtain ok pl2 adm2 where ea: "ensure_admitted ?u s = (ok, pl2, adm2)" by (metis prod_cases3)
  then have pl2: "pl2 = fst s" using ensure_admitted_state [of ?u s] by simp
  then have admitted: "recording_view (fst s, adm2) = recording_view s" using recording_view_admitted [of ?u s] ea by simp
  then have "recording_view ((fst s)\<lparr>pl_inference := smp, pl_profiles := ?u\<rparr>, adm2) = recording_view s" for smp
    using recording_view_core [of "(fst s)\<lparr>pl_inference := smp, pl_profiles := ?u\<rparr>" "(fst s, adm2)"] recording_core_viewer_ops(5)
    by (metis fst_conv snd_conv)
  then show ?thesis
    using ea pl2 admitted by (cases ok) (auto simp: replace_inference_profile_def Let_def split: option.split)
qed

text \<open>
  What happens to a pipeline: the operations for viewers and inference, the operations of the capture and
  recording side, and the operations of other parties on the shared admission.
\<close>

datatype 'a pipe_event =
    Viewer_Added "'a factory option" uuid
  | Viewer_Removed uuid
  | Viewer_Profile "'a factory option" video_format
  | Inference_Profile inference_profile
  | Frame_Sampled uuid int rat
  | Packet_Offered compressed_packet
  | Pumped int
  | Pipeline_Closed
  | Source_Admitted capabilities source_profiles capture_option
  | Lease_Released lease
  | Pipeline_Claimed lease source_profiles
  | Claim_Released claim

fun for_viewers :: "'a pipe_event \<Rightarrow> bool" where
  "for_viewers (Viewer_Added f u) = True"
| "for_viewers (Viewer_Removed u) = True"
| "for_viewers (Viewer_Profile f v) = True"
| "for_viewers (Inference_Profile i) = True"
| "for_viewers (Frame_Sampled stream pts tb) = True"
| "for_viewers e = False"

text \<open>What the recording side is told.\<close>

datatype recording_answer = Offer_Answer "pipeline_error + bool \<times> string" | Pump_Answer "pipeline_error + nat"

fun pipe_apply :: "'a adapter_ops \<Rightarrow> 'a pipe_event \<Rightarrow> 'a pipe_state \<Rightarrow> recording_answer list \<times> 'a pipe_state" where
  "pipe_apply ops (Viewer_Added f u) s = ([], snd (add_viewer f u s))"
| "pipe_apply ops (Viewer_Removed u) s = ([], snd (remove_viewer ops u s))"
| "pipe_apply ops (Viewer_Profile f v) s = ([], snd (replace_viewer_profile ops f v s))"
| "pipe_apply ops (Inference_Profile i) s = ([], snd (replace_inference_profile i s))"
| "pipe_apply ops (Frame_Sampled stream pts tb) s =
     ([], (fst s)\<lparr>pl_inference := snd (select stream pts tb (pl_inference (fst s)))\<rparr>, snd s)"
| "pipe_apply ops (Packet_Offered packet) s =
     (case pipeline_offer ops packet s of
        (Inl e, s') \<Rightarrow> ([Offer_Answer (Inl e)], s')
      | (Inr r, s') \<Rightarrow> ([Offer_Answer (Inr (or_recording_queued r, or_reason r))], s'))"
| "pipe_apply ops (Pumped budget) s =
     (case pipeline_pump ops budget s of
        (Inl e, s') \<Rightarrow> ([Pump_Answer (Inl e)], s')
      | (Inr (n, _), s') \<Rightarrow> ([Pump_Answer (Inr n)], s'))"
| "pipe_apply ops Pipeline_Closed s = ([], pipeline_close ops s)"
| "pipe_apply ops (Source_Admitted c p opt) s = ([], fst s, snd (admit c p opt (snd s)))"
| "pipe_apply ops (Lease_Released l) s = ([], fst s, snd (release_lease l (snd s)))"
| "pipe_apply ops (Pipeline_Claimed l p) s = ([], fst s, snd (claim_pipeline l p (snd s)))"
| "pipe_apply ops (Claim_Released c) s = ([], fst s, snd (release_pipeline c (snd s)))"

fun pipe_run :: "'a adapter_ops \<Rightarrow> 'a pipe_event list \<Rightarrow> 'a pipe_state \<Rightarrow> recording_answer list \<times> 'a pipe_state" where
  "pipe_run ops [] s = ([], s)"
| "pipe_run ops (e # es) s =
     (let (answers, s1) = pipe_apply ops e s; (more_answers, s2) = pipe_run ops es s1 in (answers @ more_answers, s2))"

text \<open>Confinement: the operations for viewers and inference do not touch the recording.\<close>

lemma viewer_event_confined:
  assumes "for_viewers e"
  shows "fst (pipe_apply ops e s) = []" "recording_view (snd (pipe_apply ops e s)) = recording_view s"
proof -
  show "fst (pipe_apply ops e s) = []" using assms by (cases e) auto
  have "recording_view (snd (add_viewer f u s)) = recording_view s" for f u
    by (auto simp: add_viewer_def Let_def recording_core_viewer_ops intro!: recording_view_core split: option.split)
  moreover have "recording_view (snd (remove_viewer ops u s)) = recording_view s" for u
    by (auto simp: remove_viewer_def Let_def recording_core_viewer_ops intro!: recording_view_core)
  ultimately show "recording_view (snd (pipe_apply ops e s)) = recording_view s"
    using assms by (cases e) (auto simp: recording_view_replace_viewer recording_view_replace_inference recording_core_viewer_ops
        intro!: recording_view_core)
qed

text \<open>Every other event answers, and changes the recording, according to the recording's view alone.\<close>

lemma recording_core_offer:
  assumes "recording_core pl = recording_core pl'"
  shows "recording_core (snd (offer_packet ops packet pl)) = recording_core (snd (offer_packet ops packet pl'))
    \<and> or_recording_queued (fst (offer_packet ops packet pl)) = or_recording_queued (fst (offer_packet ops packet pl'))
    \<and> or_reason (fst (offer_packet ops packet pl)) = or_reason (fst (offer_packet ops packet pl'))"
proof -
  have "packet_reason packet pl = packet_reason packet pl'"
    using assms by (simp add: packet_reason_def recording_core_def split: option.split)
  moreover have "or_recording_queued (fst (offer_paths ops packet r q)) = fst (path_offer ops packet (pl_recording q))"
    "or_reason (fst (offer_paths ops packet r q)) = r" for r q
    by (auto simp: offer_paths_def Let_def split: prod.split)
  moreover have "recording_core (snd (offer_paths ops packet r q))
      = recording_core (q\<lparr>pl_recording := snd (path_offer ops packet (pl_recording q))\<rparr>)" for r q
    by (auto simp: offer_paths_def Let_def recording_core_def split: prod.split)
  ultimately show ?thesis
    using assms by (auto simp: offer_packet_def Let_def recording_core_def pipeline_discontinuity_def)
qed

lemma recording_core_claim: "recording_core pl = recording_core pl' \<Longrightarrow> pl_claim pl = pl_claim pl' \<and> pl_closed pl = pl_closed pl'"
  by (simp add: recording_core_def)

lemma offer_claim: "pl_claim (snd (offer_packet ops packet pl)) = pl_claim pl" "pl_closed (snd (offer_packet ops packet pl)) = pl_closed pl"
  by (auto simp: offer_packet_def offer_paths_def pipeline_discontinuity_def Let_def split: prod.split)

text \<open>With equal views, a section that keeps the claim, the closed flag and the admission keeps the views equal.\<close>

lemma recording_view_paths:
  assumes "recording_view s = recording_view t" "recording_core pl = recording_core pl'"
    and "pl_claim pl = pl_claim (fst s)" "pl_closed pl = pl_closed (fst s)"
  shows "recording_view (pl, snd s) = recording_view (pl', snd t)"
proof -
  have "ensure_open (pl, snd s) = ensure_open s" using assms(3,4) by (simp add: ensure_open_def split: option.split)
  moreover have "ensure_open (pl', snd t) = ensure_open t"
    using assms recording_core_claim [of pl pl'] recording_core_claim [of "fst s" "fst t"] by (auto simp: ensure_open_def recording_view_def split: option.splits)
  ultimately show ?thesis using assms(1,2) by (simp add: recording_view_def)
qed

lemma offer_step:
  assumes "recording_view s = recording_view t"
  shows "fst (pipe_apply ops (Packet_Offered packet) s) = fst (pipe_apply ops (Packet_Offered packet) t)"
    "recording_view (snd (pipe_apply ops (Packet_Offered packet) s)) = recording_view (snd (pipe_apply ops (Packet_Offered packet) t))"
proof -
  have eo: "ensure_open s = ensure_open t" and core: "recording_core (fst s) = recording_core (fst t)"
    using assms by (simp_all add: recording_view_def)
  obtain r pl where op: "offer_packet ops packet (fst s) = (r, pl)" by fastforce
  obtain r' pl' where op': "offer_packet ops packet (fst t) = (r', pl')" by fastforce
  have same: "recording_core pl = recording_core pl'" "or_recording_queued r = or_recording_queued r'" "or_reason r = or_reason r'"
    using recording_core_offer [OF core, of ops packet] op op' by simp_all
  have "recording_view (pl, snd s) = recording_view (pl', snd t)"
    using offer_claim [of ops packet "fst s"] op by (intro recording_view_paths [OF assms same(1)]) simp_all
  then show "fst (pipe_apply ops (Packet_Offered packet) s) = fst (pipe_apply ops (Packet_Offered packet) t)"
    "recording_view (snd (pipe_apply ops (Packet_Offered packet) s)) = recording_view (snd (pipe_apply ops (Packet_Offered packet) t))"
    using eo op op' same assms by (auto simp: pipeline_offer_def split: option.split)
qed

lemma pump_step:
  assumes "recording_view s = recording_view t"
  shows "fst (pipe_apply ops (Pumped budget) s) = fst (pipe_apply ops (Pumped budget) t)"
    "recording_view (snd (pipe_apply ops (Pumped budget) s)) = recording_view (snd (pipe_apply ops (Pumped budget) t))"
proof -
  have eo: "ensure_open s = ensure_open t" and core: "recording_core (fst s) = recording_core (fst t)"
    using assms by (simp_all add: recording_view_def)
  let ?n = "nat budget"
  have rec: "pl_recording (fst s) = pl_recording (fst t)" using core by (simp add: recording_core_def)
  have answer: "fst (pipe_apply ops (Pumped budget) x) = [Pump_Answer (case ensure_open x of Some e \<Rightarrow> Inl e
      | None \<Rightarrow> if budget \<le> 0 then Inl Pipeline_ValueError else Inr (fst (path_pump ops ?n (pl_recording (fst x)))))]" for x
    by (auto simp: pipeline_pump_def Let_def split: option.split prod.split)
  show "fst (pipe_apply ops (Pumped budget) s) = fst (pipe_apply ops (Pumped budget) t)" unfolding answer eo rec ..
  have state: "snd (pipe_apply ops (Pumped budget) x) = snd (pipeline_pump ops budget x)" for x
    by (auto split: prod.split sum.split)
  have "recording_core (pump_paths ops ?n (fst s)) = recording_core (pump_paths ops ?n (fst t))"
    using core by (simp add: pump_paths_def recording_core_def)
  then have "recording_view (pump_paths ops ?n (fst s), snd s) = recording_view (pump_paths ops ?n (fst t), snd t)"
    by (rule recording_view_paths [OF assms]) (simp_all add: pump_paths_def)
  then show "recording_view (snd (pipe_apply ops (Pumped budget) s)) = recording_view (snd (pipe_apply ops (Pumped budget) t))"
    unfolding state pipeline_pump_state using eo assms by simp
qed

lemma closed_view:
  "recording_view (pipeline_close ops s)
     = (recording_core ((fst s)\<lparr>pl_closed := True, pl_recording := path_close ops (pl_recording (fst s))\<rparr>), Some Pipeline_RuntimeError)"
proof -
  have released: "fst (release_admission_if_clean ops x) = fst x" for x :: "'a pipe_state"
    by (simp add: release_admission_if_clean_def split: option.split)
  have core: "recording_core (fst (pipeline_close ops s))
      = recording_core ((fst s)\<lparr>pl_closed := True, pl_recording := path_close ops (pl_recording (fst s))\<rparr>)"
  proof (cases "pl_closed (fst s)")
    case True
    then show ?thesis by (simp add: pipeline_close_def Let_def released recording_core_viewer_ops) (simp add: recording_core_def)
  next
    case False
    then show ?thesis by (simp add: pipeline_close_def Let_def released recording_core_viewer_ops)
  qed
  then have "pl_closed (fst (pipeline_close ops s))" by (simp add: recording_core_def)
  then show ?thesis unfolding recording_view_def core by (simp add: ensure_open_def)
qed

lemma close_step:
  assumes "recording_view s = recording_view t"
  shows "recording_view (pipeline_close ops s) = recording_view (pipeline_close ops t)"
  unfolding closed_view using assms by (simp add: recording_view_def recording_core_def)

text \<open>The claim of a pipeline was numbered by the admission before; later claims get other numbers.\<close>

definition claim_numbered :: "'a pipe_state \<Rightarrow> bool" where
  "claim_numbered s \<longleftrightarrow> (\<forall>c. pl_claim (fst s) = Some c \<longrightarrow> cl_number c < adm_next_claim (snd s))"

lemma recording_view_admission:
  assumes "recording_view s = recording_view t"
    and "\<And>c. pl_claim (fst s) = Some c \<Longrightarrow> owns_pipeline c adm \<longleftrightarrow> owns_pipeline c (snd s) \<and> P c"
    and "\<And>c. pl_claim (fst t) = Some c \<Longrightarrow> owns_pipeline c adm' \<longleftrightarrow> owns_pipeline c (snd t) \<and> P c"
  shows "recording_view (fst s, adm) = recording_view (fst t, adm')"
  using assms recording_core_claim [of "fst s" "fst t"] by (auto simp: recording_view_def ensure_open_def split: option.splits if_splits)

lemma recording_event_step:
  assumes "recording_view s = recording_view t" "claim_numbered s" "claim_numbered t" "\<not> for_viewers e"
  shows "fst (pipe_apply ops e s) = fst (pipe_apply ops e t) \<and> recording_view (snd (pipe_apply ops e s)) = recording_view (snd (pipe_apply ops e t))"
proof (cases e)
  case (Packet_Offered packet)
  then show ?thesis using offer_step [OF assms(1)] by blast
next
  case (Pumped budget)
  then show ?thesis using pump_step [OF assms(1)] by blast
next
  case Pipeline_Closed
  then show ?thesis using close_step [OF assms(1)] by simp
next
  case (Source_Admitted c p opt)
  have "recording_view (fst s, snd (admit c p opt (snd s))) = recording_view (fst t, snd (admit c p opt (snd t)))"
    by (rule recording_view_admission [OF assms(1), where P = "\<lambda>_. True"]) (simp_all add: owns_admit)
  with Source_Admitted show ?thesis by simp
next
  case (Lease_Released l)
  have "recording_view (fst s, snd (release_lease l (snd s))) = recording_view (fst t, snd (release_lease l (snd t)))"
    by (rule recording_view_admission [OF assms(1), where P = "\<lambda>_. True"]) (simp_all add: owns_release_lease)
  with Lease_Released show ?thesis by simp
next
  case (Pipeline_Claimed l p)
  have "recording_view (fst s, snd (claim_pipeline l p (snd s))) = recording_view (fst t, snd (claim_pipeline l p (snd t)))"
    by (rule recording_view_admission [OF assms(1), where P = "\<lambda>_. True"])
      (use assms(2,3) in \<open>simp_all add: owns_claim claim_numbered_def\<close>)
  with Pipeline_Claimed show ?thesis by simp
next
  case (Claim_Released c)
  have "recording_view (fst s, snd (release_pipeline c (snd s))) = recording_view (fst t, snd (release_pipeline c (snd t)))"
    by (rule recording_view_admission [OF assms(1), where P = "\<lambda>x. c \<noteq> x"]) (simp_all add: owns_release)
  with Claim_Released show ?thesis by simp
qed (use assms(4) in simp_all)

lemma replace_profile_claims:
  "adm_next_claim (snd (snd (replace_viewer_profile ops f v s))) = adm_next_claim (snd s)"
  "adm_next_claim (snd (snd (replace_inference_profile i s))) = adm_next_claim (snd s)"
proof -
  have tr: "adm_next_claim (snd (transition_pipeline c p a)) = adm_next_claim a" for c p a by (simp add: transition_pipeline_def)
  have ea: "adm_next_claim (snd (snd (ensure_admitted p x))) = adm_next_claim (snd x)" for p and x :: "'a pipe_state"
    using tr by (auto simp: ensure_admitted_def split: option.split prod.split) (metis snd_conv)
  have eq: "ensure_admitted p x = (b, y) \<Longrightarrow> adm_next_claim (snd y) = adm_next_claim (snd x)" for p b y and x :: "'a pipe_state"
    using ea [of p x] by simp
  show "adm_next_claim (snd (snd (replace_viewer_profile ops f v s))) = adm_next_claim (snd s)"
    by (auto simp: replace_viewer_profile_def Let_def split: option.split prod.split bool.split dest!: eq)
  show "adm_next_claim (snd (snd (replace_inference_profile i s))) = adm_next_claim (snd s)"
    by (auto simp: replace_inference_profile_def Let_def split: option.split prod.split bool.split dest!: eq)
qed

lemma claim_numbered_step:
  assumes "claim_numbered s"
  shows "claim_numbered (snd (pipe_apply ops e s))"
proof -
  have "adm_next_claim (snd s) \<le> adm_next_claim (snd (snd (pipe_apply ops e s)))"
  proof (cases e)
    case Pipeline_Closed
    then show ?thesis
      by (simp add: pipeline_close_def release_admission_if_clean_def release_pipeline_def Let_def split: option.split)
  qed (auto simp: replace_profile_claims add_viewer_def remove_viewer_def pipeline_offer_def pipeline_pump_def admit_def release_lease_def
      claim_pipeline_def release_pipeline_def Let_def split: option.split prod.split)
  moreover have "pl_claim (fst (snd (pipe_apply ops e s))) = pl_claim (fst s)"
  proof (cases "for_viewers e")
    case True
    then show ?thesis using viewer_event_confined(2) recording_core_claim by (fastforce simp: recording_view_def)
  next
    case False
    then show ?thesis
    proof (cases e)
      case (Packet_Offered packet)
      then show ?thesis using offer_claim(1) [of ops packet "fst s"] by (auto simp: pipeline_offer_def split: option.split prod.split)
    next
      case Pipeline_Closed
      then show ?thesis using closed_view [of ops s] by (simp add: recording_view_def recording_core_def)
    qed (auto simp: pipeline_pump_def Let_def split: option.split prod.split)
  qed
  ultimately show ?thesis using assms by (auto simp: claim_numbered_def intro: less_le_trans)
qed

lemma pipe_run_purged:
  assumes "recording_view s = recording_view t" "claim_numbered s" "claim_numbered t"
  shows "fst (pipe_run ops es s) = fst (pipe_run ops (filter (\<lambda>e. \<not> for_viewers e) es) t)
    \<and> recording_view (snd (pipe_run ops es s)) = recording_view (snd (pipe_run ops (filter (\<lambda>e. \<not> for_viewers e) es) t))"
  using assms
proof (induction es arbitrary: s t)
  case (Cons e es)
  show ?case
  proof (cases "for_viewers e")
    case True
    then show ?thesis
      using Cons.IH [of "snd (pipe_apply ops e s)" t] Cons.prems viewer_event_confined [of e ops s] claim_numbered_step [of s ops e]
      by (simp add: split_beta Let_def)
  next
    case False
    then show ?thesis
      using Cons.IH [of "snd (pipe_apply ops e s)" "snd (pipe_apply ops e t)"] recording_event_step [OF Cons.prems False, of ops]
        claim_numbered_step [OF Cons.prems(2), of ops e] claim_numbered_step [OF Cons.prems(3), of ops e]
      by (simp add: split_beta Let_def)
  qed
qed simp

lemma new_claim_numbered:
  assumes "pipeline_init source_id stream_id profiles rl vl f admission adm = (Inr pl, adm')"
  shows "claim_numbered (pl, adm')"
  using assms by (auto simp: pipeline_init_def claim_numbered_def claim_pipeline_def new_pipeline_def Let_def
      split: if_splits option.splits prod.splits)

text \<open>
  C26. Viewers and inference never affect the durable recording. Take a new pipeline and any sequence of calls: viewers
  joining and leaving, viewer and inference profiles replaced, frames sampled, packets offered, pumps, close, and
  admissions, claims and releases by anybody. Leaving out all the calls for viewers and inference changes nothing for the
  recording: every \<open>offer\<close> and \<open>pump\<close> gives the recording the same answer, an error included, and in the end its queue,
  adapter and clock position, the capture health, the closed flag and whether \<open>_ensure_open\<close> admits packets are the
  same, whatever the viewers' codecs do.
\<close>

theorem recording_independent_of_viewers:
  assumes "pipeline_init source_id stream_id profiles recording_limits viewer_limits factory admission adm = (Inr pl, adm')"
  shows "fst (pipe_run ops events (pl, adm')) = fst (pipe_run ops (filter (\<lambda>e. \<not> for_viewers e) events) (pl, adm'))
    \<and> recording_view (snd (pipe_run ops events (pl, adm')))
        = recording_view (snd (pipe_run ops (filter (\<lambda>e. \<not> for_viewers e) events) (pl, adm')))"
  using pipe_run_purged [OF refl] new_claim_numbered [OF assms] by blast

section \<open>Codec lifetimes\<close>

lemma permits_transition: "permits_pipeline c p adm \<Longrightarrow> fst (transition_pipeline c p adm)"
  by (simp add: permits_pipeline_def transition_pipeline_def)

lemma close_viewer_claim:
  "pl_claim (close_viewer ops pl) = pl_claim pl" "pl_viewers (close_viewer ops pl) = pl_viewers pl"
  by (simp_all add: close_viewer_def Let_def split: option.split)

lemma start_viewer_some: "\<exists>v. pl_viewer (start_viewer f pl) = Some v"
  by (simp add: start_viewer_def split: option.split)

definition viewers_served :: "'a pipeline \<Rightarrow> bool" where
  "viewers_served pl \<longleftrightarrow>
     (pl_closed pl \<longrightarrow> pl_viewers pl = {}) \<and> (pl_viewers pl \<noteq> {} \<longrightarrow> pl_viewer pl \<noteq> None)"

lemma close_viewer_closed [simp]: "pl_closed (close_viewer ops pl) = pl_closed pl"
  by (simp add: close_viewer_def Let_def split: option.split)

lemma start_viewer_simps [simp]:
  "pl_closed (start_viewer f pl) = pl_closed pl" "pl_viewers (start_viewer f pl) = pl_viewers pl"
  by (simp_all add: start_viewer_def split: option.split)

lemma ensure_open_not_closed: "ensure_open s = None \<Longrightarrow> \<not> pl_closed (fst s)"
  by (simp add: ensure_open_def split: if_splits)

lemma replace_viewer_served:
  assumes "viewers_served (fst s)"
  shows "viewers_served (fst (snd (replace_viewer_profile ops f v s)))"
proof -
  let ?pl1 = "close_viewer ops (fst s)"
  let ?u = "(pl_profiles (fst s))\<lparr>prof_viewer := v\<rparr>"
  obtain ok pl2 adm2 where ea: "ensure_admitted ?u (?pl1, snd s) = (ok, pl2, adm2)" by (metis prod_cases3)
  then have pl2: "pl2 = ?pl1" using ensure_admitted_state [of ?u "(?pl1, snd s)"] by simp
  have ok: "ok" if "check_admission ?u s"
    using that ea permits_transition [of _ ?u "snd s"]
    by (fastforce simp: ensure_admitted_def check_admission_def close_viewer_claim split: option.splits prod.splits)
  show ?thesis
  proof (cases "check_admission ?u s")
    case True
    then show ?thesis
      using ok [OF True] assms ea pl2 close_viewer_claim(2) [of ops "fst s"]
      by (auto simp: replace_viewer_profile_def viewers_served_def Let_def start_viewer_some
          dest: ensure_open_not_closed split: option.splits)
  next
    case False
    then show ?thesis using assms by (auto simp: replace_viewer_profile_def Let_def split: option.split)
  qed
qed

lemma replace_inference_served:
  assumes "viewers_served (fst s)"
  shows "viewers_served (fst (snd (replace_inference_profile i s)))"
proof -
  let ?u = "(pl_profiles (fst s))\<lparr>prof_inference := i\<rparr>"
  obtain ok pl1 adm1 where ea: "ensure_admitted ?u s = (ok, pl1, adm1)" by (metis prod_cases3)
  then have "pl1 = fst s" using ensure_admitted_state [of ?u s] by simp
  then show ?thesis
    using assms ea
    by (cases ok) (auto simp: replace_inference_profile_def viewers_served_def Let_def split: option.split)
qed

lemma offer_packet_viewers:
  "pl_viewers (snd (offer_packet ops packet pl)) = pl_viewers pl"
  "pl_closed (snd (offer_packet ops packet pl)) = pl_closed pl"
  "pl_viewer (snd (offer_packet ops packet pl)) = None \<longleftrightarrow> pl_viewer pl = None"
  by (simp_all add: offer_packet_def Let_def pipeline_discontinuity_def)

lemma release_admission_fst [simp]: "fst (release_admission_if_clean ops t) = fst t"
  by (simp add: release_admission_if_clean_def split: option.split)

lemma pipe_step_served:
  assumes "pipe_step ops F s s'" "viewers_served (fst s)"
  shows "viewers_served (fst s')"
  using assms(1)
proof cases
  case (pipe_add f u)
  then show ?thesis
    using assms(2) by (auto simp: add_viewer_def viewers_served_def Let_def start_viewer_some
        dest: ensure_open_not_closed split: option.splits)
next
  case (pipe_remove u)
  then show ?thesis
    using assms(2) by (auto simp: remove_viewer_def viewers_served_def Let_def close_viewer_claim)
next
  case (pipe_replace_viewer f v)
  then show ?thesis using replace_viewer_served [OF assms(2)] by simp
next
  case (pipe_replace_inference i)
  then show ?thesis using replace_inference_served [OF assms(2)] by simp
next
  case (pipe_offer packet)
  then show ?thesis
    using assms(2) offer_packet_viewers [of ops packet "fst s"]
    by (auto simp: pipeline_offer_def viewers_served_def split: option.splits prod.splits)
next
  case (pipe_pump budget)
  then show ?thesis using assms(2) by (simp add: pipeline_pump_state pump_paths_def viewers_served_def)
next
  case pipe_close
  then show ?thesis
    using assms(2) by (simp add: pipeline_close_def viewers_served_def Let_def close_viewer_claim)
next
  case (pipe_environment pl adm adm')
  then show ?thesis using assms(2) by simp
qed

lemma pipe_reachable_served: "pipe_reachable ops F s \<Longrightarrow> viewers_served (fst s)"
proof (induction rule: pipe_reachable.induct)
  case (pipe_start f rl vl source_id stream_id profiles admission adm pl adm')
  then obtain c where "pl = new_pipeline source_id stream_id c profiles rl vl f"
    by (auto simp: pipeline_init_def Let_def split: if_splits option.splits prod.splits)
  then show ?case by (simp add: viewers_served_def new_pipeline_def)
next
  case (pipe_next s s')
  then show ?case using pipe_step_served by blast
qed

lemma path_close_available: "ps_available (path_status ops p) \<longleftrightarrow> pp_adapter p \<noteq> None"
  by (simp add: path_status_def)

lemma close_viewer_adapter: "pl_viewer (close_viewer ops pl) = Some v \<Longrightarrow> pp_adapter v \<noteq> None"
  by (auto simp: close_viewer_def Let_def path_close_available split: option.splits if_splits)

lemma pipeline_noop_updates:
  "pl_viewers pl = {} \<Longrightarrow> pl\<lparr>pl_viewers := {}\<rparr> = pl"
  "pl_closed pl \<Longrightarrow> pl\<lparr>pl_closed := True, pl_recording := r\<rparr> = pl\<lparr>pl_recording := r\<rparr>"
  by (cases pl, simp)+

lemma pipeline_close_state:
  assumes "viewers_served pl"
  shows "pipeline_close ops (pl, adm) = release_admission_if_clean ops
    ((close_viewer ops (pl\<lparr>pl_closed := True, pl_recording := path_close ops (pl_recording pl)\<rparr>))
       \<lparr>pl_viewers := {}\<rparr>, adm)"
proof (cases "pl_closed pl")
  case True
  let ?pl1 = "pl\<lparr>pl_recording := path_close ops (pl_recording pl)\<rparr>"
  have "pl_viewers (close_viewer ops ?pl1) = {}"
    using True assms by (simp add: close_viewer_claim viewers_served_def)
  note noop = pipeline_noop_updates(1) [OF this]
  show ?thesis
    unfolding pipeline_noop_updates(2) [OF True] noop using True by (simp add: pipeline_close_def Let_def)
qed (simp add: pipeline_close_def Let_def)

text \<open>
  Codec lifetimes and admission. Attached viewers always have a viewer path, and a closed pipeline has
  no viewers. Closing gives the source's admission back exactly when no codec is left behind: if an
  adapter of the recording or of the viewer could not be closed, the pipeline's claim stays as it was, so
  the source cannot be admitted or claimed for another pipeline; otherwise the claim is gone.
\<close>

theorem close_keeps_admission_until_clean:
  assumes "pipe_reachable ops F (pl, adm)" "pl_claim pl = Some c"
    and "pipeline_close ops (pl, adm) = (pl', adm')"
  shows "viewers_served pl \<and> pl_viewers pl' = {}
    \<and> (if pp_adapter (pl_recording pl') \<noteq> None \<or> pl_viewer pl' \<noteq> None
       then adm' = adm else \<not> owns_pipeline c adm')"
proof -
  have served: "viewers_served pl" using pipe_reachable_served [OF assms(1)] by simp
  define pl1 where "pl1 = pl\<lparr>pl_closed := True, pl_recording := path_close ops (pl_recording pl)\<rparr>"
  have close: "(pl', adm') = release_admission_if_clean ops ((close_viewer ops pl1)\<lparr>pl_viewers := {}\<rparr>, adm)"
    using pipeline_close_state [OF served, of ops adm] assms(3) by (simp add: pl1_def)
  then have pl': "pl' = (close_viewer ops pl1)\<lparr>pl_viewers := {}\<rparr>" using release_admission_fst by (metis fst_conv)
  with close have "(pl', adm') = release_admission_if_clean ops (pl', adm)" by simp
  moreover have "pl_claim pl' = Some c"
    using assms(2) pl' close_viewer_claim(1) [of ops pl1] by (simp add: pl1_def)
  moreover have "pl_viewer pl' = Some v \<Longrightarrow> pp_adapter v \<noteq> None" for v
    using pl' close_viewer_adapter [of ops pl1 v] by simp
  ultimately show ?thesis
    using served pl' by (auto simp: release_admission_if_clean_def path_close_available
        release_pipeline_def owns_pipeline_def dict_simps split: option.splits if_splits)
qed

section \<open>A concrete pipeline\<close>

definition ex_packet :: "int \<Rightarrow> bool \<Rightarrow> compressed_packet" where
  "ex_packet n key = \<lparr>pk_source_id = 1, pk_stream_id = 5, pk_sequence = n, pk_pts = n, pk_dts = n,
     pk_time_base = 1 / 10, pk_keyframe = key, pk_data = [1, 2]\<rparr>"

definition ex_limits :: queue_limits where
  "ex_limits = \<lparr>ql_maximum_packets = 2, ql_maximum_bytes = 8\<rparr>"

definition ex_ops :: "adapter_event list adapter_ops" where
  "ex_ops = logging_ops (\<lambda>_ _. True) (\<lambda>_. True) (\<lambda>l. l = [])"

definition ex_pipeline :: "adapter_event list pipeline" where
  "ex_pipeline = new_pipeline 1 5 (Some ex_claim) ex_profiles ex_limits ex_limits
     (Some (\<lambda>_. Factory_Adapter []))"

definition ex_offered :: "adapter_event list pipe_state" where
  "ex_offered = snd (pipeline_pump ex_ops 1 (snd (pipeline_offer ex_ops (ex_packet 3 True)
     (ex_pipeline, ex_claimed))))"

lemma ex_pipeline_init:
  "pipeline_init 1 5 ex_profiles ex_limits ex_limits (Some (\<lambda>_. Factory_Adapter [])) (Some ex_lease) ex_admissions
     = (Inr ex_pipeline, ex_claimed)"
  by (simp add: pipeline_init_def claim_pipeline_def ex_pipeline_def ex_admissions_def ex_lease_def
      ex_claimed_def ex_claim_def ex_profiles_def ex_format_def Let_def)

lemma ex_offered_reachable:
  assumes "F (Some (\<lambda>_. Factory_Adapter []))"
  shows "pipe_reachable ex_ops F ex_offered"
proof -
  have "queue_limits_ok ex_limits" by (simp add: queue_limits_ok_def positive_int_def ex_limits_def)
  then have "pipe_reachable ex_ops F (ex_pipeline, ex_claimed)"
    using pipe_start [of F, OF assms _ _ ex_pipeline_init] by blast
  then show ?thesis unfolding ex_offered_def by (rule pipe_next [OF pipe_next [OF _ pipe_offer] pipe_pump])
qed

lemmas ex_pipeline_defs = ex_offered_def ex_pipeline_def new_pipeline_def path_init_def ex_ops_def
  logging_ops_def ex_packet_def ex_limits_def ex_claimed_def ex_admissions_def ex_claim_def
  pipeline_offer_def pipeline_pump_def ensure_open_def owns_pipeline_def offer_packet_def
  packet_reason_def offer_paths_def path_offer_def path_accept_def path_write_def packet_size_def

lemma ex_offered_log:
  "pp_adapter (pl_recording (fst ex_offered)) = Some [Wrote (ex_packet 3 True)]"
  by (simp add: ex_pipeline_defs ex_profiles_def ex_format_def Let_def numeral_eq_Suc)

theorem pipeline_queues_bounded_witness: "path_bounded (pl_recording (fst ex_offered))"
  using pipeline_queues_bounded [of ex_ops "fst ex_offered" "snd ex_offered"] ex_offered_reachable by simp

theorem adapters_receive_decodable_segments_witness:
  "pp_adapter (pl_recording (fst ex_offered)) = Some [Wrote (ex_packet 3 True)]
   \<and> segments_ok [Wrote (ex_packet 3 True)]"
proof -
  have "fresh_factory (Some (\<lambda>_. Factory_Adapter []))" by (simp add: fresh_factory_def)
  from ex_offered_reachable [of fresh_factory, OF this]
  have "pipe_reachable (logging_ops (\<lambda>_ _. True) (\<lambda>_. True) (\<lambda>l. l = [])) fresh_factory
      (fst ex_offered, snd ex_offered)" by (simp add: ex_ops_def)
  from adapters_receive_decodable_segments [OF this] ex_offered_log show ?thesis by simp
qed

theorem recording_independent_of_viewers_witness:
  "fst (pipe_run ex_ops [Viewer_Added None 7, Packet_Offered (ex_packet 3 True), Viewer_Removed 7, Pumped 1] (ex_pipeline, ex_claimed))
     = fst (pipe_run ex_ops [Packet_Offered (ex_packet 3 True), Pumped 1] (ex_pipeline, ex_claimed))
   \<and> recording_view (snd (pipe_run ex_ops [Viewer_Added None 7, Packet_Offered (ex_packet 3 True), Viewer_Removed 7, Pumped 1]
         (ex_pipeline, ex_claimed))) = recording_view ex_offered"
proof -
  have "snd (pipe_run ex_ops [Packet_Offered (ex_packet 3 True), Pumped 1] (ex_pipeline, ex_claimed)) = ex_offered"
    by (simp add: ex_offered_def split: prod.split sum.split)
  then show ?thesis
    using recording_independent_of_viewers [OF ex_pipeline_init, where ops = ex_ops
        and events = "[Viewer_Added None 7, Packet_Offered (ex_packet 3 True), Viewer_Removed 7, Pumped 1]"] by simp
qed

theorem close_keeps_admission_until_clean_witness:
  "owns_pipeline ex_claim (snd (pipeline_close ex_ops ex_offered))"
proof -
  obtain pl' adm' where close: "pipeline_close ex_ops (fst ex_offered, snd ex_offered) = (pl', adm')" by fastforce
  have "pl_claim (fst ex_offered) = Some ex_claim" "snd ex_offered = ex_claimed"
    by (simp_all add: ex_pipeline_defs ex_profiles_def ex_format_def Let_def numeral_eq_Suc)
  moreover have "pp_adapter (pl_recording pl') \<noteq> None"
  proof -
    have "pl_viewer (fst ex_offered) = None" "\<not> pl_closed (fst ex_offered)" "\<not> pp_closed (pl_recording (fst ex_offered))"
      by (simp_all add: ex_pipeline_defs ex_profiles_def ex_format_def Let_def numeral_eq_Suc)
    then have "pl_recording pl' = path_close ex_ops (pl_recording (fst ex_offered))"
      using arg_cong [OF close, of fst]
      by (auto simp: pipeline_close_def close_viewer_def Let_def)
    then show ?thesis
      using ex_offered_log \<open>\<not> pp_closed (pl_recording (fst ex_offered))\<close>
      by (simp add: path_close_def release_adapter_def ex_ops_def logging_ops_def Let_def)
  qed
  moreover have "pipe_reachable ex_ops (\<lambda>_. True) (fst ex_offered, snd ex_offered)"
    using ex_offered_reachable [of "\<lambda>_. True"] by simp
  ultimately have "adm' = ex_claimed"
    using close_keeps_admission_until_clean [OF _ _ close, of "\<lambda>_. True" ex_claim] by simp
  then show ?thesis
    using close by (simp add: owns_pipeline_def ex_claimed_def ex_admissions_def ex_claim_def)
qed

end
