(* ===== verification/Live_Sessions.thy ===== *)
theory Live_Sessions
  imports Media_Pipeline
begin

text \<open>
  Authorization-bound live viewer sessions: \<^verbatim>\<open>server/app/media/live/sessions.py\<close>.

  The manager only knows a \<open>LiveViewerSource\<close> by three members; they are the parameter \<open>ops\<close> on an
  arbitrary state \<open>'w\<close> of all sources, which are named by object identity. The validator and the new
  session identifier are what the injected callables return at that call. The manager is confined to one
  thread, so each method is one function.
\<close>

record 'w viewer_source_ops =
  vs_source_id :: "nat \<Rightarrow> uuid"
  vs_add :: "nat \<Rightarrow> uuid \<Rightarrow> 'w \<Rightarrow> bool \<times> 'w"
  vs_remove :: "nat \<Rightarrow> uuid \<Rightarrow> 'w \<Rightarrow> bool option \<times> 'w"

text \<open>
  \<open>vs_add\<close> returns False when \<open>add_viewer\<close> raised; \<open>vs_remove\<close> returns None when \<open>remove_viewer\<close> raised.
\<close>

record live_access =
  la_principal_id :: uuid
  la_authorization_revision :: int

record live_limits =
  maximum_total_viewers :: int
  maximum_viewers_per_source :: int

definition live_limits_ok :: "live_limits \<Rightarrow> bool" where
  "live_limits_ok l \<longleftrightarrow>
     \<not> maximum_total_viewers l \<le> 0 \<and> \<not> maximum_viewers_per_source l \<le> 0
     \<and> \<not> maximum_viewers_per_source l > maximum_total_viewers l"

record live_session =
  lss_session_id :: uuid
  lss_source_id :: uuid

record session_entry =
  se_access :: live_access
  se_source :: nat
  se_cleanup_failed :: bool

record live_sessions =
  lv_limits :: live_limits
  lv_sessions :: "(uuid, session_entry) dict"
  lv_issued :: "uuid set"

type_synonym 'w live_state = "live_sessions \<times> 'w"

text \<open>What the validator does: True or False, or None when it raises.\<close>

type_synonym validator = "live_access \<Rightarrow> uuid \<Rightarrow> bool option"

datatype live_error = Live_Unavailable | Live_Capacity_Exceeded | Live_RuntimeError | Live_Source_Error

definition live_init :: "live_limits \<Rightarrow> live_sessions" where
  "live_init limits = \<lparr>lv_limits = limits, lv_sessions = [], lv_issued = {}\<rparr>"

definition current_access :: "validator \<Rightarrow> live_access \<Rightarrow> uuid \<Rightarrow> bool" where
  "current_access validate access source_id \<longleftrightarrow> validate access source_id = Some True"

definition for_source :: "'w viewer_source_ops \<Rightarrow> uuid \<Rightarrow> live_sessions \<Rightarrow> session_entry list" where
  "for_source ops source_id lv = filter (\<lambda>e. vs_source_id ops (se_source e) = source_id) (map snd (lv_sessions lv))"

definition open_session :: "'w viewer_source_ops \<Rightarrow> validator \<Rightarrow> uuid \<Rightarrow> live_access \<Rightarrow> nat \<Rightarrow> 'w live_state
    \<Rightarrow> (live_error, live_session, 'w live_state) outcome" where
  "open_session ops validate new_id access source s =
     (let lv = fst s; w = snd s; source_id = vs_source_id ops source in
      if \<not> current_access validate access source_id then (Inl Live_Unavailable, s)
      else if int (length (lv_sessions lv)) \<ge> maximum_total_viewers (lv_limits lv)
        then (Inl Live_Capacity_Exceeded, s)
      else if int (length (for_source ops source_id lv)) \<ge> maximum_viewers_per_source (lv_limits lv)
        then (Inl Live_Capacity_Exceeded, s)
      else if list_ex (\<lambda>e. se_source e \<noteq> source) (for_source ops source_id lv)
        then (Inl Live_Unavailable, s)
      else if new_id \<in> lv_issued lv then (Inl Live_RuntimeError, s)
      else case vs_add ops source new_id w of
             (False, w1) \<Rightarrow> (Inl Live_Source_Error, lv, w1)
           | (True, w1) \<Rightarrow>
               (Inr \<lparr>lss_session_id = new_id, lss_source_id = source_id\<rparr>,
                lv\<lparr>lv_sessions := AList.update new_id
                     \<lparr>se_access = access, se_source = source, se_cleanup_failed = False\<rparr> (lv_sessions lv),
                   lv_issued := insert new_id (lv_issued lv)\<rparr>, w1))"

definition cleanup :: "'w viewer_source_ops \<Rightarrow> uuid \<Rightarrow> session_entry \<Rightarrow> 'w live_state \<Rightarrow> bool \<times> 'w live_state" where
  "cleanup ops session_id e s =
     (case vs_remove ops (se_source e) session_id (snd s) of
        (removed, w1) \<Rightarrow>
          if removed \<noteq> Some True
          then (False, (fst s)\<lparr>lv_sessions := AList.update session_id (e\<lparr>se_cleanup_failed := True\<rparr>)
                                (lv_sessions (fst s))\<rparr>, w1)
          else (True, (fst s)\<lparr>lv_sessions := AList.delete session_id (lv_sessions (fst s))\<rparr>, w1))"

definition require :: "'w viewer_source_ops \<Rightarrow> validator \<Rightarrow> live_access \<Rightarrow> uuid \<Rightarrow> 'w live_state
    \<Rightarrow> (live_error, live_session, 'w live_state) outcome" where
  "require ops validate access session_id s =
     (case map_of (lv_sessions (fst s)) session_id of
        None \<Rightarrow> (Inl Live_Unavailable, s)
      | Some e \<Rightarrow>
          if se_access e \<noteq> access then (Inl Live_Unavailable, s)
          else if se_cleanup_failed e then (Inl Live_Unavailable, snd (cleanup ops session_id e s))
          else
            let source_id = vs_source_id ops (se_source e) in
            if \<not> current_access validate access source_id
            then (Inl Live_Unavailable, snd (cleanup ops session_id e s))
            else (Inr \<lparr>lss_session_id = session_id, lss_source_id = source_id\<rparr>, s))"

definition close_session :: "'w viewer_source_ops \<Rightarrow> validator \<Rightarrow> live_access \<Rightarrow> uuid \<Rightarrow> 'w live_state
    \<Rightarrow> (live_error, unit, 'w live_state) outcome" where
  "close_session ops validate access session_id s =
     (case require ops validate access session_id s of
        (Inl e, s1) \<Rightarrow> (Inl e, s1)
      | (Inr _, s1) \<Rightarrow>
          (case map_of (lv_sessions (fst s1)) session_id of
             None \<Rightarrow> (Inl Live_RuntimeError, s1)
           | Some e \<Rightarrow>
               (case cleanup ops session_id e s1 of
                  (True, s2) \<Rightarrow> (Inr (), s2)
                | (False, s2) \<Rightarrow> (Inl Live_RuntimeError, s2))))"

definition disconnect :: "'w viewer_source_ops \<Rightarrow> uuid \<Rightarrow> 'w live_state \<Rightarrow> bool \<times> 'w live_state" where
  "disconnect ops session_id s =
     (case map_of (lv_sessions (fst s)) session_id of
        None \<Rightarrow> (False, s)
      | Some e \<Rightarrow> cleanup ops session_id e s)"

text \<open>The summing generator of \<open>revoke_principal\<close>, over the sessions selected before the first clean-up.\<close>

fun cleanup_all :: "'w viewer_source_ops \<Rightarrow> (uuid \<times> session_entry) list \<Rightarrow> 'w live_state \<Rightarrow> nat \<times> 'w live_state" where
  "cleanup_all ops [] s = (0, s)"
| "cleanup_all ops ((session_id, e) # rest) s =
     (let (ok, s1) = cleanup ops session_id e s;
          (n, s2) = cleanup_all ops rest s1
      in (of_bool ok + n, s2))"

definition revoke_principal :: "'w viewer_source_ops \<Rightarrow> uuid \<Rightarrow> 'w live_state \<Rightarrow> nat \<times> 'w live_state" where
  "revoke_principal ops principal_id s =
     cleanup_all ops
       (filter (\<lambda>(_, e). la_principal_id (se_access e) = principal_id) (lv_sessions (fst s))) s"

record live_status =
  lst_active_viewers :: nat
  lst_active_sources :: nat
  lst_cleanup_failures :: nat

definition live_status :: "'w viewer_source_ops \<Rightarrow> live_sessions \<Rightarrow> live_status" where
  "live_status ops lv =
     \<lparr>lst_active_viewers = length (lv_sessions lv),
      lst_active_sources = length (remdups (map (\<lambda>(_, e). vs_source_id ops (se_source e)) (lv_sessions lv))),
      lst_cleanup_failures = length (filter (\<lambda>(_, e). se_cleanup_failed e) (lv_sessions lv))\<rparr>"

section \<open>Runs of the manager\<close>

text \<open>Everything callers and trusted notifications can do; \<open>E\<close> is what others may do to the sources.\<close>

inductive live_step :: "'w viewer_source_ops \<Rightarrow> ('w \<Rightarrow> 'w \<Rightarrow> bool) \<Rightarrow> 'w live_state \<Rightarrow> 'w live_state \<Rightarrow> bool"
  for ops E where
    live_open: "live_step ops E s (snd (open_session ops validate new_id access source s))"
  | live_require: "live_step ops E s (snd (require ops validate access session_id s))"
  | live_close: "live_step ops E s (snd (close_session ops validate access session_id s))"
  | live_disconnect: "live_step ops E s (snd (disconnect ops session_id s))"
  | live_revoke: "live_step ops E s (snd (revoke_principal ops principal_id s))"
  | live_environment: "E w w' \<Longrightarrow> live_step ops E (lv, w) (lv, w')"

inductive live_reachable :: "'w viewer_source_ops \<Rightarrow> ('w \<Rightarrow> 'w \<Rightarrow> bool) \<Rightarrow> ('w \<Rightarrow> bool) \<Rightarrow> 'w live_state \<Rightarrow> bool"
  for ops E I where
    live_start: "\<lbrakk>live_limits_ok limits; I w\<rbrakk> \<Longrightarrow> live_reachable ops E I (live_init limits, w)"
  | live_next: "\<lbrakk>live_reachable ops E I s; live_step ops E s s'\<rbrakk> \<Longrightarrow> live_reachable ops E I s'"

text \<open>Invariant of the session table, on the source objects its sessions hang on.\<close>

definition handles :: "(uuid, session_entry) dict \<Rightarrow> nat list" where
  "handles d = map (\<lambda>(_, e). se_source e) d"

definition live_inv :: "'w viewer_source_ops \<Rightarrow> live_sessions \<Rightarrow> bool" where
  "live_inv ops lv \<longleftrightarrow>
     dict_ok (lv_sessions lv)
     \<and> int (length (lv_sessions lv)) \<le> maximum_total_viewers (lv_limits lv)
     \<and> (\<forall>src. int (length (filter (\<lambda>h. vs_source_id ops h = src) (handles (lv_sessions lv))))
            \<le> maximum_viewers_per_source (lv_limits lv))
     \<and> inj_on (vs_source_id ops) (set (handles (lv_sessions lv)))
     \<and> dict_keys (lv_sessions lv) \<subseteq> lv_issued lv"

lemma live_inv_dict: "live_inv ops lv \<Longrightarrow> dict_ok (lv_sessions lv)"
  by (simp add: live_inv_def)

lemma for_source_length:
  "length (for_source ops src lv) = length (filter (\<lambda>h. vs_source_id ops h = src) (handles (lv_sessions lv)))"
  by (simp add: for_source_def handles_def filter_map comp_def case_prod_unfold)

lemma handles_update:
  "\<lbrakk>map_of d k = Some e; se_source e' = se_source e\<rbrakk> \<Longrightarrow> handles (AList.update k e' d) = handles d"
  by (induction d) (auto simp: handles_def split: if_splits)

lemma handles_delete:
  "set (handles (AList.delete k d)) \<subseteq> set (handles d)"
  "length (filter P (handles (AList.delete k d))) \<le> length (filter P (handles d))"
proof -
  show "set (handles (AList.delete k d)) \<subseteq> set (handles d)"
    using dict_set_delete_subset [of k d] by (auto simp: handles_def)
  show "length (filter P (handles (AList.delete k d))) \<le> length (filter P (handles d))"
    unfolding AList.delete_eq handles_def filter_map length_map filter_filter by (rule length_filter_mono) auto
qed

lemma handles_append: "handles (d @ [(k, e)]) = handles d @ [se_source e]"
  by (simp add: handles_def)

lemma handles_mem: "map_of d k = Some e \<Longrightarrow> se_source e \<in> set (handles d)"
  by (drule map_of_SomeD) (force simp: handles_def)

text \<open>What every operation does to the table is a successful open or a sequence of clean-ups.\<close>

lemma cleanup_all_keeps:
  assumes "\<And>sid e s. \<lbrakk>P s; map_of (lv_sessions (fst s)) sid = Some e\<rbrakk> \<Longrightarrow> P (snd (cleanup ops sid e s))"
  shows "\<lbrakk>P s; distinct (map fst ts); \<forall>(sid, e) \<in> set ts. map_of (lv_sessions (fst s)) sid = Some e\<rbrakk>
    \<Longrightarrow> P (snd (cleanup_all ops ts s))"
proof (induction ts arbitrary: s)
  case (Cons t ts)
  obtain sid e where t: "t = (sid, e)" by fastforce
  obtain ok s1 where c: "cleanup ops sid e s = (ok, s1)" by (meson surj_pair)
  have other: "map_of (lv_sessions (fst s1)) sid' = map_of (lv_sessions (fst s)) sid'" if "sid' \<noteq> sid" for sid'
    using c that by (auto simp: cleanup_def dict_simps split: prod.splits if_splits)
  have "P s1" using assms [of s sid e] Cons.prems t c by auto
  moreover have "\<forall>(sid', e') \<in> set ts. map_of (lv_sessions (fst s1)) sid' = Some e'"
    using Cons.prems(2,3) t other by (fastforce simp: image_iff)
  ultimately have "P (snd (cleanup_all ops ts s1))" using Cons.IH Cons.prems(2) by simp
  then show ?case using t c by (auto split: prod.split)
qed simp

lemma live_step_keeps:
  assumes step: "live_step ops E s s'" and "P s" and dict: "\<And>s. P s \<Longrightarrow> dict_ok (lv_sessions (fst s))"
    and "\<And>validate new_id access source. P s \<Longrightarrow> P (snd (open_session ops validate new_id access source s))"
    and clean: "\<And>sid e s. \<lbrakk>P s; map_of (lv_sessions (fst s)) sid = Some e\<rbrakk> \<Longrightarrow> P (snd (cleanup ops sid e s))"
    and env: "\<And>lv w w'. \<lbrakk>P (lv, w); E w w'\<rbrakk> \<Longrightarrow> P (lv, w')"
  shows "P s'"
proof -
  have req: "P (snd (require ops validate access sid s))" for validate access sid
    using assms(2) clean by (auto simp: require_def Let_def split: option.split)
  from step show ?thesis
  proof cases
    case (live_close validate access sid)
    obtain r s1 where r: "require ops validate access sid s = (r, s1)" by (meson surj_pair)
    then have "P s1" using req [of validate access sid] by simp
    then show ?thesis
      using live_close r clean by (fastforce simp: close_session_def split: sum.split option.split prod.split bool.split)
  next
    case (live_revoke principal_id)
    have "\<forall>(sid, e) \<in> set (lv_sessions (fst s)). map_of (lv_sessions (fst s)) sid = Some e"
      using dict [OF assms(2)] by (auto simp: map_of_eq_Some_iff)
    then show ?thesis
      using live_revoke cleanup_all_keeps [of P ops, OF clean assms(2)] dict [OF assms(2)]
      by (auto simp: revoke_principal_def distinct_map_filter)
  qed (use assms req in \<open>auto simp: disconnect_def split: option.split\<close>)
qed

lemma live_inv_cleanup:
  assumes "live_inv ops (fst s)" "map_of (lv_sessions (fst s)) sid = Some e"
  shows "live_inv ops (fst (snd (cleanup ops sid e s)))"
proof -
  let ?d = "lv_sessions (fst s)" and ?e = "e\<lparr>se_cleanup_failed := True\<rparr>"
  have upd: "handles (AList.update sid ?e ?d) = handles ?d" using assms(2) by (rule handles_update) simp
  have len: "length (AList.update sid ?e ?d) = length ?d" using upd by (metis handles_def length_map)
  have keys: "dict_keys (AList.update sid ?e ?d) = dict_keys ?d"
    using map_of_SomeD [OF assms(2)] by (force simp: dict_simps)
  have "live_inv ops ((fst s)\<lparr>lv_sessions := AList.update sid ?e ?d\<rparr>)"
    using assms(1) upd len keys by (simp add: live_inv_def dict_simps)
  moreover have "live_inv ops ((fst s)\<lparr>lv_sessions := AList.delete sid ?d\<rparr>)"
    using assms(1) inj_on_subset [OF _ handles_delete(1), of "vs_source_id ops" ?d sid]
      dict_length_delete_le [of sid ?d] order_trans [OF of_nat_mono [OF handles_delete(2) [of _ sid ?d]]]
    by (auto simp: live_inv_def dict_simps)
  ultimately show ?thesis by (simp add: cleanup_def split: prod.split)
qed

lemma live_inv_open:
  assumes "live_inv ops (fst s)"
  shows "live_inv ops (fst (snd (open_session ops validate new_id access source s)))"
proof -
  let ?lv = "fst s" and ?src = "vs_source_id ops source"
  let ?e = "\<lparr>se_access = access, se_source = source, se_cleanup_failed = False\<rparr>"
  let ?lv' = "?lv\<lparr>lv_sessions := AList.update new_id ?e (lv_sessions ?lv), lv_issued := insert new_id (lv_issued ?lv)\<rparr>"
  have "live_inv ops ?lv'"
    if free: "int (length (lv_sessions ?lv)) < maximum_total_viewers (lv_limits ?lv)"
      "int (length (for_source ops ?src ?lv)) < maximum_viewers_per_source (lv_limits ?lv)"
      "\<not> list_ex (\<lambda>e. se_source e \<noteq> source) (for_source ops ?src ?lv)" "new_id \<notin> lv_issued ?lv"
  proof -
    have new: "new_id \<notin> dict_keys (lv_sessions ?lv)" using assms free(4) by (auto simp: live_inv_def)
    have "h = source" if "h \<in> set (handles (lv_sessions ?lv))" "vs_source_id ops h = ?src" for h
      using free(3) that by (force simp: for_source_def list_ex_iff handles_def)
    then have "inj_on (vs_source_id ops) (insert source (set (handles (lv_sessions ?lv))))"
      using assms by (auto simp: live_inv_def inj_on_insert)
    moreover have "int (length (filter (\<lambda>h. vs_source_id ops h = src) (handles (lv_sessions ?lv) @ [source])))
        \<le> maximum_viewers_per_source (lv_limits ?lv)" for src
      using assms free(2) by (auto simp: live_inv_def for_source_length)
    ultimately show ?thesis
      using assms free(1) new by (auto simp: live_inv_def dict_update_new handles_append)
  qed
  then show ?thesis
    using assms by (auto simp: open_session_def Let_def not_le split: prod.split bool.split)
qed

lemma live_reachable_inv: "live_reachable ops E I s \<Longrightarrow> live_inv ops (fst s)"
proof (induction rule: live_reachable.induct)
  case (live_start limits w)
  then show ?case by (auto simp: live_inv_def live_init_def live_limits_ok_def handles_def)
next
  case (live_next s s')
  show ?case
  proof (rule live_step_keeps [OF live_next(2), where P = "\<lambda>s. live_inv ops (fst s)"])
    show "live_inv ops (fst s) \<Longrightarrow> dict_ok (lv_sessions (fst s))" for s :: "'a live_state"
      by (rule live_inv_dict)
    show "live_inv ops (fst (lv, w)) \<Longrightarrow> live_inv ops (fst (lv, w'))" for lv and w w' :: 'a by simp
  qed (use live_next(3) in \<open>blast intro: live_inv_open live_inv_cleanup\<close>)+
qed

text \<open>
  In every reachable state the live sessions respect both configured capacities, all sessions of one
  logical source hang on one pipeline object, never on two generations, and every session identifier was
  issued once and is never issued again.
\<close>

theorem live_sessions_bounded:
  assumes "live_reachable ops E I (lv, w)"
  shows "int (length (lv_sessions lv)) \<le> maximum_total_viewers (lv_limits lv)
    \<and> (\<forall>src. int (length (for_source ops src lv)) \<le> maximum_viewers_per_source (lv_limits lv))
    \<and> (\<forall>sid sid' e e'. map_of (lv_sessions lv) sid = Some e \<and> map_of (lv_sessions lv) sid' = Some e'
         \<and> vs_source_id ops (se_source e) = vs_source_id ops (se_source e') \<longrightarrow> se_source e = se_source e')
    \<and> (\<forall>validate new_id access source x. new_id \<in> lv_issued lv \<longrightarrow>
         fst (open_session ops validate new_id access source (lv, w)) \<noteq> Inr x)"
proof -
  have inv: "live_inv ops lv" using live_reachable_inv [OF assms] by simp
  have same: "se_source e = se_source e'" if "map_of (lv_sessions lv) sid = Some e"
    "map_of (lv_sessions lv) sid' = Some e'" "vs_source_id ops (se_source e) = vs_source_id ops (se_source e')"
    for sid sid' e e'
    using inv handles_mem [OF that(1)] handles_mem [OF that(2)] that(3) by (auto simp: live_inv_def inj_on_def)
  have fresh: "fst (open_session ops validate new_id access source (lv, w)) \<noteq> Inr x"
    if "new_id \<in> lv_issued lv" for validate new_id access source x
    using that by (simp add: open_session_def Let_def)
  show ?thesis
  proof (intro conjI allI impI)
    show "int (length (lv_sessions lv)) \<le> maximum_total_viewers (lv_limits lv)"
      "int (length (for_source ops src lv)) \<le> maximum_viewers_per_source (lv_limits lv)" for src
      using inv by (simp_all add: live_inv_def for_source_length)
  qed (use same fresh in blast)+
qed

section \<open>Ended sessions stay ended\<close>

definition session_ended :: "uuid \<Rightarrow> live_sessions \<Rightarrow> bool" where
  "session_ended sid lv \<longleftrightarrow>
     sid \<in> lv_issued lv
     \<and> (case map_of (lv_sessions lv) sid of None \<Rightarrow> True | Some e \<Rightarrow> se_cleanup_failed e)"

lemma session_ended_require:
  "session_ended sid (fst s) \<Longrightarrow> fst (require ops validate access sid s) = Inl Live_Unavailable"
  by (auto simp: session_ended_def require_def split: option.splits)

lemma session_ended_cleanup:
  assumes "session_ended sid (fst s)" "map_of (lv_sessions (fst s)) k = Some e"
  shows "session_ended sid (fst (snd (cleanup ops k e s)))"
  using assms by (auto simp: session_ended_def cleanup_def dict_simps split: prod.split option.splits)

lemma session_ended_open:
  assumes "session_ended sid (fst s)"
  shows "session_ended sid (fst (snd (open_session ops validate new_id access source s)))"
  using assms
  by (auto simp: session_ended_def open_session_def Let_def dict_simps split: prod.split bool.split option.splits)

lemma session_ended_step:
  assumes "live_step ops E s s'" "live_inv ops (fst s)" "session_ended sid (fst s)"
  shows "live_inv ops (fst s') \<and> session_ended sid (fst s')"
proof (rule live_step_keeps [OF assms(1), where P = "\<lambda>s. live_inv ops (fst s) \<and> session_ended sid (fst s)"])
  show "live_inv ops (fst s) \<and> session_ended sid (fst s) \<Longrightarrow> dict_ok (lv_sessions (fst s))"
    for s :: "'a live_state" by (simp add: live_inv_def)
  show "live_inv ops (fst (lv, w)) \<and> session_ended sid (fst (lv, w))
      \<Longrightarrow> live_inv ops (fst (lv, w')) \<and> session_ended sid (fst (lv, w'))" for lv and w w' :: 'a by simp
qed (use assms(2,3) in \<open>blast intro: live_inv_open live_inv_cleanup session_ended_open session_ended_cleanup\<close>)+

lemma session_ended_steps:
  "\<lbrakk>(live_step ops E)\<^sup>*\<^sup>* s s'; live_inv ops (fst s); session_ended sid (fst s)\<rbrakk>
     \<Longrightarrow> session_ended sid (fst s')"
proof -
  assume "(live_step ops E)\<^sup>*\<^sup>* s s'" "live_inv ops (fst s)" "session_ended sid (fst s)"
  then have "live_inv ops (fst s') \<and> session_ended sid (fst s')"
    by (induction rule: rtranclp_induct) (use session_ended_step in blast)+
  then show ?thesis by simp
qed

text \<open>A clean-up ends its session, whether or not the source was released.\<close>

lemma cleanup_ends:
  assumes "live_inv ops (fst s)" "map_of (lv_sessions (fst s)) sid = Some e"
  shows "session_ended sid (fst (snd (cleanup ops sid e s)))"
proof -
  have "sid \<in> lv_issued (fst s)"
    using assms map_of_SomeD [OF assms(2)] by (force simp: live_inv_def)
  then show ?thesis by (auto simp: session_ended_def cleanup_def dict_simps split: prod.split)
qed

lemma cleanup_all_ends:
  assumes "live_inv ops (fst s)" "distinct (map fst ts)"
    "\<forall>(k, e) \<in> set ts. map_of (lv_sessions (fst s)) k = Some e" "(sid, e) \<in> set ts"
  shows "session_ended sid (fst (snd (cleanup_all ops ts s)))"
  using assms
proof (induction ts arbitrary: s)
  case (Cons t ts)
  obtain k e' where t: "t = (k, e')" by fastforce
  obtain ok s1 where c: "cleanup ops k e' s = (ok, s1)" by (meson surj_pair)
  have cur: "map_of (lv_sessions (fst s)) k = Some e'" using Cons.prems(3) t by simp
  have inv1: "live_inv ops (fst s1)" using live_inv_cleanup [OF Cons.prems(1) cur] c by simp
  have rest: "\<forall>(j, d) \<in> set ts. map_of (lv_sessions (fst s1)) j = Some d"
    using Cons.prems(2,3) t c by (auto simp: cleanup_def dict_simps image_iff split: prod.splits if_splits)
  have "session_ended sid (fst (snd (cleanup_all ops ts s1)))"
  proof (cases "sid = k")
    case True
    then have "session_ended sid (fst s1)" using cleanup_ends [OF Cons.prems(1) cur] c by simp
    moreover have "distinct (map fst ts)" using Cons.prems(2) by simp
    ultimately show ?thesis
      using cleanup_all_keeps [of "\<lambda>s. session_ended sid (fst s)" ops, OF session_ended_cleanup _ _ rest] by blast
  next
    case False
    then show ?thesis using Cons.IH [OF inv1 _ rest] Cons.prems(2,4) t by auto
  qed
  then show ?case using t c by (auto split: prod.split)
qed simp

text \<open>
  C33. Revocation is final. After a principal was revoked none of its sessions is ever usable again: whatever
  is opened, closed or disconnected afterwards, whichever clean-ups fail, and even if the validator
  approves again, every later request with such a session identifier is refused.
\<close>

theorem revoked_session_never_restored:
  assumes "live_reachable ops E I s" "map_of (lv_sessions (fst s)) sid = Some e"
    and "(live_step ops E)\<^sup>*\<^sup>* (snd (revoke_principal ops (la_principal_id (se_access e)) s)) s'"
  shows "fst (require ops validate access sid s') = Inl Live_Unavailable"
proof -
  let ?p = "la_principal_id (se_access e)"
  let ?ts = "filter (\<lambda>(_, e). la_principal_id (se_access e) = ?p) (lv_sessions (fst s))"
  have inv: "live_inv ops (fst s)" using assms(1) by (rule live_reachable_inv)
  then have d: "dict_ok (lv_sessions (fst s))" by (simp add: live_inv_def)
  then have "\<forall>(k, e) \<in> set ?ts. map_of (lv_sessions (fst s)) k = Some e" by (auto simp: map_of_eq_Some_iff)
  moreover have "distinct (map fst ?ts)" using d by (simp add: distinct_map_filter)
  moreover have "(sid, e) \<in> set ?ts" using map_of_SomeD [OF assms(2)] by simp
  ultimately have "session_ended sid (fst (snd (revoke_principal ops ?p s)))"
    unfolding revoke_principal_def using cleanup_all_ends [OF inv] by blast
  moreover have "live_inv ops (fst (snd (revoke_principal ops ?p s)))"
    using live_reachable_inv [OF live_next [OF assms(1) live_revoke]] .
  ultimately have "session_ended sid (fst s')" using session_ended_steps [OF assms(3)] by blast
  then show ?thesis by (rule session_ended_require)
qed

section \<open>The viewer-source contract\<close>

text \<open>
  What the manager relies on: adding attaches exactly the new viewer, or nothing when it raises; removing
  attaches nobody, and a reported removal really detached the viewer.
\<close>

locale live_viewer_source =
  fixes ops :: "'w viewer_source_ops" and attached :: "nat \<Rightarrow> uuid \<Rightarrow> 'w \<Rightarrow> bool"
  assumes add_attaches: "\<lbrakk>vs_add ops h u w = (ok, w'); attached h' u' w'\<rbrakk>
      \<Longrightarrow> attached h' u' w \<or> ok \<and> h' = h \<and> u' = u"
    and remove_shrinks: "\<lbrakk>vs_remove ops h u w = (r, w'); attached h' u' w'\<rbrakk> \<Longrightarrow> attached h' u' w"
    and remove_detaches: "vs_remove ops h u w = (Some True, w') \<Longrightarrow> \<not> attached h u w'"
begin

definition shrinks :: "'w \<Rightarrow> 'w \<Rightarrow> bool" where
  "shrinks w w' \<longleftrightarrow> (\<forall>h u. attached h u w' \<longrightarrow> attached h u w)"

definition idle :: "'w \<Rightarrow> bool" where
  "idle w \<longleftrightarrow> (\<forall>h u. \<not> attached h u w)"

text \<open>Every attached viewer is accounted for by a session on that source object.\<close>

definition accounted :: "'w live_state \<Rightarrow> bool" where
  "accounted s \<longleftrightarrow>
     (\<forall>h u. attached h u (snd s) \<longrightarrow>
        (\<exists>e. map_of (lv_sessions (fst s)) u = Some e \<and> se_source e = h))"

lemma accounted_open:
  assumes "live_inv ops (fst s)" "accounted s"
  shows "accounted (snd (open_session ops validate new_id access source s))"
proof -
  obtain ok w1 where a: "vs_add ops source new_id (snd s) = (ok, w1)" by fastforce
  have "\<exists>e. map_of (lv_sessions (fst s)) u = Some e \<and> se_source e = h"
    if "attached h u w1" "\<not> (ok \<and> h = source \<and> u = new_id)" for h u
    using add_attaches [OF a that(1)] assms(2) that(2) by (auto simp: accounted_def)
  moreover have "map_of (lv_sessions (fst s)) new_id = None" if "new_id \<notin> lv_issued (fst s)"
    using assms(1) that dict_get_None [of "lv_sessions (fst s)" new_id] by (auto simp: live_inv_def)
  moreover define lv' where "lv' = (fst s)\<lparr>lv_sessions := AList.update new_id
      \<lparr>se_access = access, se_source = source, se_cleanup_failed = False\<rparr> (lv_sessions (fst s)),
    lv_issued := insert new_id (lv_issued (fst s))\<rparr>"
  moreover have "snd (open_session ops validate new_id access source s) = s
      \<or> \<not> ok \<and> snd (open_session ops validate new_id access source s) = (fst s, w1)
      \<or> ok \<and> new_id \<notin> lv_issued (fst s) \<and> snd (open_session ops validate new_id access source s) = (lv', w1)"
    using a by (cases ok) (simp_all add: open_session_def Let_def lv'_def)
  ultimately show ?thesis
    using assms(2) by (elim disjE conjE) (force simp: accounted_def dict_simps)+
qed

lemma accounted_cleanup:
  assumes "accounted s" "map_of (lv_sessions (fst s)) sid = Some e"
  shows "accounted (snd (cleanup ops sid e s))"
proof -
  obtain r w1 where rm: "vs_remove ops (se_source e) sid (snd s) = (r, w1)" by fastforce
  have acc: "\<exists>e'. map_of (lv_sessions (fst s)) u = Some e' \<and> se_source e' = h" if "attached h u w1" for h u
    using remove_shrinks [OF rm that] assms(1) by (auto simp: accounted_def)
  show ?thesis
  proof (cases "r = Some True")
    case True
    then have "\<not> attached (se_source e) sid w1" using remove_detaches rm by simp
    then have "u \<noteq> sid" if "attached h u w1" for h u using acc [OF that] assms(2) that by auto
    then show ?thesis using True rm acc by (auto simp: cleanup_def accounted_def dict_simps)
  next
    case False
    have "u = sid \<Longrightarrow> se_source e = h" if "attached h u w1" for h u using acc [OF that] assms(2) by auto
    then show ?thesis using False rm acc by (auto simp: cleanup_def accounted_def dict_simps)
  qed
qed

lemma live_reachable_accounted:
  "live_reachable ops shrinks idle s \<Longrightarrow> accounted s"
proof (induction rule: live_reachable.induct)
  case (live_start limits w)
  then show ?case by (simp add: accounted_def idle_def)
next
  case (live_next s s')
  have inv: "live_inv ops (fst s)" using live_next(1) by (rule live_reachable_inv)
  have "live_inv ops (fst s') \<and> accounted s'"
  proof (rule live_step_keeps [OF live_next(2), where P = "\<lambda>s. live_inv ops (fst s) \<and> accounted s"])
    show "live_inv ops (fst s) \<and> accounted s \<Longrightarrow> dict_ok (lv_sessions (fst s))" for s :: "'w live_state"
      using live_inv_dict by blast
    show "live_inv ops (fst (lv, w)) \<and> accounted (lv, w) \<Longrightarrow> shrinks w w'
        \<Longrightarrow> live_inv ops (fst (lv, w')) \<and> accounted (lv, w')" for lv w w'
      by (auto simp: accounted_def shrinks_def)
  qed (use inv live_next(3) in \<open>blast intro: live_inv_open live_inv_cleanup accounted_open accounted_cleanup\<close>)+
  then show ?case by simp
qed

lemma attached_viewers_bounded:
  assumes "live_reachable ops shrinks idle (lv, w)"
  shows "{u. attached h u w} \<subseteq> dict_keys (lv_sessions lv)"
    and "finite {u. attached h u w}" "int (card {u. attached h u w}) \<le> maximum_viewers_per_source (lv_limits lv)"
proof -
  have acc: "accounted (lv, w)" using assms by (rule live_reachable_accounted)
  have inv: "live_inv ops lv" using live_reachable_inv [OF assms] by simp
  let ?on = "filter (\<lambda>(_, e). se_source e = h) (lv_sessions lv)"
  have sub: "{u. attached h u w} \<subseteq> fst ` set ?on"
  proof
    fix u assume "u \<in> {u. attached h u w}"
    then obtain e where e: "map_of (lv_sessions lv) u = Some e" "se_source e = h"
      using acc by (auto simp: accounted_def)
    from map_of_SomeD [OF e(1)] e(2) show "u \<in> fst ` set ?on" by (force simp: image_iff)
  qed
  then show "{u. attached h u w} \<subseteq> dict_keys (lv_sessions lv)" by auto
  show "finite {u. attached h u w}" using sub by (rule finite_subset) simp
  have "card {u. attached h u w} \<le> card (fst ` set ?on)" using sub by (intro card_mono) simp_all
  also have "\<dots> \<le> length ?on" by (metis card_length length_map set_map)
  also have "\<dots> \<le> length (filter (\<lambda>h'. vs_source_id ops h' = vs_source_id ops h) (handles (lv_sessions lv)))"
    unfolding handles_def filter_map length_map by (rule length_filter_mono) auto
  finally have "card {u. attached h u w}
      \<le> length (filter (\<lambda>h'. vs_source_id ops h' = vs_source_id ops h) (handles (lv_sessions lv)))" .
  moreover have "int (length (filter (\<lambda>h'. vs_source_id ops h' = vs_source_id ops h) (handles (lv_sessions lv))))
      \<le> maximum_viewers_per_source (lv_limits lv)" using inv by (simp add: live_inv_def)
  ultimately show "int (card {u. attached h u w}) \<le> maximum_viewers_per_source (lv_limits lv)" by linarith
qed

end

text \<open>
  \<open>SourcePipeline\<close> provides the contract: the sources are pipelines that share one admission registry.
\<close>

type_synonym 'a pipeline_world = "(nat \<Rightarrow> 'a pipeline) \<times> admissions"

definition pipeline_source :: "(nat \<Rightarrow> uuid) \<Rightarrow> 'a adapter_ops \<Rightarrow> 'a factory option
    \<Rightarrow> 'a pipeline_world viewer_source_ops" where
  "pipeline_source ids aops f =
     \<lparr>vs_source_id = ids,
      vs_add = (\<lambda>h u w. case add_viewer f u (fst w h, snd w) of
                         (r, pl, adm) \<Rightarrow> (\<not> isl r, (fst w)(h := pl), adm)),
      vs_remove = (\<lambda>h u w. case remove_viewer aops u (fst w h, snd w) of
                            (b, pl, adm) \<Rightarrow> (Some b, (fst w)(h := pl), adm))\<rparr>"

definition viewing :: "nat \<Rightarrow> uuid \<Rightarrow> 'a pipeline_world \<Rightarrow> bool" where
  "viewing h u w \<longleftrightarrow> u \<in> pl_viewers (fst w h)"

lemma add_viewer_viewers:
  "add_viewer f u s = (r, pl, adm) \<Longrightarrow>
     pl_viewers pl = (if isl r then pl_viewers (fst s) else insert u (pl_viewers (fst s)))"
  by (auto simp: add_viewer_def Let_def split: option.splits if_splits)

lemma remove_viewer_viewers:
  "remove_viewer aops u s = (b, pl, adm) \<Longrightarrow> pl_viewers pl = pl_viewers (fst s) - {u}"
  by (auto simp: remove_viewer_def Let_def close_viewer_claim split: if_splits)

interpretation pipeline_viewers: live_viewer_source "pipeline_source ids aops f" viewing for ids aops f
proof
  fix h u h' u' ok r and w w' :: "'a pipeline_world"
  obtain r1 pl adm where a: "add_viewer f u (fst w h, snd w) = (r1, pl, adm)" by (metis prod_cases3)
  obtain b pl2 adm2 where rm: "remove_viewer aops u (fst w h, snd w) = (b, pl2, adm2)" by (metis prod_cases3)
  have eqs: "vs_add (pipeline_source ids aops f) h u w = (\<not> isl r1, (fst w)(h := pl), adm)"
    "vs_remove (pipeline_source ids aops f) h u w = (Some b, (fst w)(h := pl2), adm2)"
    using a rm by (simp_all add: pipeline_source_def)
  have v: "pl_viewers pl = (if isl r1 then pl_viewers (fst w h) else insert u (pl_viewers (fst w h)))"
    "pl_viewers pl2 = pl_viewers (fst w h) - {u}"
    using add_viewer_viewers [OF a] remove_viewer_viewers [OF rm] by simp_all
  have at: "viewing h' u' ((fst w)(h := q), adm') \<longleftrightarrow> (if h' = h then u' \<in> pl_viewers q else viewing h' u' w)" for q adm'
    by (simp add: viewing_def)
  have here: "viewing h u' w \<longleftrightarrow> u' \<in> pl_viewers (fst w h)" by (simp add: viewing_def)
  {
    assume *: "vs_add (pipeline_source ids aops f) h u w = (ok, w')" "viewing h' u' w'"
    then have "ok = (\<not> isl r1)" "viewing h' u' ((fst w)(h := pl), adm)" by (simp_all add: eqs(1))
    then show "viewing h' u' w \<or> ok \<and> h' = h \<and> u' = u"
      unfolding at v(1) using here by (cases "h' = h"; cases "isl r1") auto
  }
  {
    assume *: "vs_remove (pipeline_source ids aops f) h u w = (r, w')" "viewing h' u' w'"
    then have "viewing h' u' ((fst w)(h := pl2), adm2)" by (simp add: eqs(2))
    then show "viewing h' u' w" unfolding at v(2) using here by (cases "h' = h") simp_all
  }
  {
    assume "vs_remove (pipeline_source ids aops f) h u w = (Some True, w')"
    then have "w' = ((fst w)(h := pl2), adm2)" by (simp add: eqs(2))
    then show "\<not> viewing h u w'" by (simp add: viewing_def v(2))
  }
qed

text \<open>
  Viewer demand on a pipeline is accounted for. In every run of the session manager over pipelines,
  where others may only detach viewers, every viewer attached to a pipeline belongs to a live session,
  and no pipeline ever carries more viewers than the configured limit per source.
\<close>

theorem pipeline_viewers_accounted:
  assumes "live_reachable (pipeline_source ids aops f)
      (\<lambda>w w'. \<forall>h. pl_viewers (fst w' h) \<subseteq> pl_viewers (fst w h)) (\<lambda>w. \<forall>h. pl_viewers (fst w h) = {}) (lv, w)"
  shows "pl_viewers (fst w h) \<subseteq> dict_keys (lv_sessions lv)
    \<and> int (card (pl_viewers (fst w h))) \<le> maximum_viewers_per_source (lv_limits lv)"
proof -
  have "pipeline_viewers.shrinks = (\<lambda>w w' :: 'a pipeline_world. \<forall>h. pl_viewers (fst w' h) \<subseteq> pl_viewers (fst w h))"
    "pipeline_viewers.idle = (\<lambda>w :: 'a pipeline_world. \<forall>h. pl_viewers (fst w h) = {})"
    by (auto intro!: ext simp: pipeline_viewers.shrinks_def pipeline_viewers.idle_def viewing_def subset_iff)
  with assms have "live_reachable (pipeline_source ids aops f) pipeline_viewers.shrinks pipeline_viewers.idle (lv, w)"
    by simp
  from pipeline_viewers.attached_viewers_bounded [OF this, of h] show ?thesis by (simp add: viewing_def)
qed

section \<open>A concrete manager\<close>

definition ex_world :: "adapter_event list pipeline_world" where
  "ex_world = (\<lambda>_. ex_pipeline, ex_claimed)"

definition ex_live_ops :: "adapter_event list pipeline_world viewer_source_ops" where
  "ex_live_ops = pipeline_source (\<lambda>_. 1) ex_ops None"

definition ex_access :: live_access where
  "ex_access = \<lparr>la_principal_id = 9, la_authorization_revision = 0\<rparr>"

definition ex_live :: "adapter_event list pipeline_world live_state" where
  "ex_live = snd (open_session ex_live_ops (\<lambda>_ _. Some True) 40 ex_access 0
     (live_init \<lparr>maximum_total_viewers = 2, maximum_viewers_per_source = 1\<rparr>, ex_world))"

lemma ex_live_reachable: "I ex_world \<Longrightarrow> live_reachable ex_live_ops E I ex_live"
  unfolding ex_live_def
  by (rule live_next [OF live_start live_open]) (simp_all add: live_limits_ok_def)

lemma ex_live_session:
  "map_of (lv_sessions (fst ex_live)) 40 = Some \<lparr>se_access = ex_access, se_source = 0, se_cleanup_failed = False\<rparr>"
  by (simp add: ex_live_def open_session_def ex_live_ops_def pipeline_source_def live_init_def for_source_def
      current_access_def ex_world_def ex_pipeline_defs add_viewer_def start_viewer_def Let_def)

theorem live_sessions_bounded_witness:
  "int (length (lv_sessions (fst ex_live))) \<le> maximum_total_viewers (lv_limits (fst ex_live))"
  using live_sessions_bounded [of ex_live_ops "\<lambda>_ _. True" "\<lambda>_. True" "fst ex_live" "snd ex_live"]
    ex_live_reachable [of "\<lambda>_. True"] by simp

theorem revoked_session_never_restored_witness:
  "fst (require ex_live_ops (\<lambda>_ _. Some True) ex_access 40 ex_live)
     = Inr \<lparr>lss_session_id = 40, lss_source_id = 1\<rparr>
   \<and> fst (require ex_live_ops (\<lambda>_ _. Some True) ex_access 40 (snd (revoke_principal ex_live_ops 9 ex_live)))
       = Inl Live_Unavailable"
proof -
  have "fst (require ex_live_ops (\<lambda>_ _. Some True) ex_access 40 ex_live)
      = Inr \<lparr>lss_session_id = 40, lss_source_id = 1\<rparr>"
    using ex_live_session by (simp add: require_def current_access_def ex_live_ops_def pipeline_source_def Let_def)
  moreover have "fst (require ex_live_ops (\<lambda>_ _. Some True) ex_access 40
      (snd (revoke_principal ex_live_ops 9 ex_live))) = Inl Live_Unavailable"
    by (rule revoked_session_never_restored [where E = "\<lambda>_ _. True" and I = "\<lambda>_. True" and s = ex_live
          and e = "\<lparr>se_access = ex_access, se_source = 0, se_cleanup_failed = False\<rparr>"])
      (simp_all add: ex_live_reachable ex_live_session ex_access_def)
  ultimately show ?thesis by simp
qed

theorem pipeline_viewers_accounted_witness:
  "pl_viewers (fst (snd ex_live) 0) \<subseteq> dict_keys (lv_sessions (fst ex_live))"
proof -
  have "live_reachable ex_live_ops (\<lambda>w w'. \<forall>h. pl_viewers (fst w' h) \<subseteq> pl_viewers (fst w h))
      (\<lambda>w. \<forall>h. pl_viewers (fst w h) = {}) (fst ex_live, snd ex_live)"
    using ex_live_reachable [of "\<lambda>w. \<forall>h. pl_viewers (fst w h) = {}"]
    by (simp add: ex_world_def ex_pipeline_def new_pipeline_def)
  from pipeline_viewers_accounted [OF this [unfolded ex_live_ops_def]] show ?thesis by simp
qed

end
