(* ===== verification/Inference_Feed.thy ===== *)
theory Inference_Feed
  imports Inference_Scheduler Media_Pipeline
begin

text \<open>
  The bridge from a source pipeline's sampler to the inference scheduler:
  \<^verbatim>\<open>server/app/detection/foundation/feed.py\<close>. An operation works on the feed, the scheduler and the pipeline
  it is bound to (with its admission registry). \<open>render\<close> is what the decoder's callback returns for the
  requested dimensions, None when it raises; the clock value is the one the scheduler reads. Reading the
  pipeline's status never fails in the model, so the branch for an unreadable status has no counterpart.
\<close>

datatype feed_reason =
    FEED_PIPELINE_UNAVAILABLE | FEED_QUALITY_UNUSABLE | FEED_SAMPLE sample_reason
  | FEED_RENDER_FAILED | FEED_SCHEDULER_REJECTED

record feed_result =
  fdr_offered :: bool
  fdr_reason :: feed_reason

record feed =
  fd_source_id :: uuid
  fd_profile :: inference_profile
  fd_stream_id :: "uuid option"
  fd_sequence :: int
  fd_decoded :: nat
  fd_sampled_out :: nat
  fd_offered :: nat
  fd_rejected :: nat
  fd_render_failures :: nat
  fd_discontinuities :: nat
  fd_blocked :: nat
  fd_quality_rejected :: nat
  fd_unavailable :: bool

datatype feed_error = Feed_ValueError | Feed_Sampler sampler_error | Feed_Scheduler sched_error

type_synonym 'a feed_state = "feed \<times> scheduler \<times> 'a pipe_state"

definition BLOCKING_PIPELINE_REASONS :: "string set" where
  "BLOCKING_PIPELINE_REASONS = {''pipeline_closed'', ''admission_expired'', ''capture_renegotiation_required''}"

definition feed_init :: "'a pipeline \<Rightarrow> feed" where
  "feed_init pl =
     \<lparr>fd_source_id = pl_source_id pl, fd_profile = prof_inference (pl_profiles pl), fd_stream_id = None,
      fd_sequence = -1, fd_decoded = 0, fd_sampled_out = 0, fd_offered = 0, fd_rejected = 0,
      fd_render_failures = 0, fd_discontinuities = 0, fd_blocked = 0, fd_quality_rejected = 0,
      fd_unavailable = False\<rparr>"

definition pipeline_unavailable :: "'a adapter_ops \<Rightarrow> 'a pipe_state \<Rightarrow> bool" where
  "pipeline_unavailable ops ps \<longleftrightarrow> BLOCKING_PIPELINE_REASONS \<inter> pr_reasons (pipeline_status ops ps) \<noteq> {}"

definition feed_invalidate :: "reason \<Rightarrow> feed \<times> scheduler \<Rightarrow> feed \<times> scheduler" where
  "feed_invalidate r s =
     ((if r = R_DISCONTINUITY then (fst s)\<lparr>fd_discontinuities := Suc (fd_discontinuities (fst s))\<rparr> else fst s),
      invalidate_source (fd_source_id (fst s)) r (snd s))"

definition feed_bind :: "'a pipeline \<Rightarrow> feed \<times> scheduler \<Rightarrow> (feed_error, unit, feed \<times> scheduler) outcome" where
  "feed_bind pl s =
     (if pl_source_id pl \<noteq> fd_source_id (fst s) then (Inl Feed_ValueError, s)
      else (Inr (), feed_invalidate R_DISCONTINUITY ((fst s)\<lparr>fd_unavailable := False\<rparr>, snd s)))"

definition feed_poll :: "'a adapter_ops \<Rightarrow> 'a pipe_state \<Rightarrow> feed \<times> scheduler \<Rightarrow> bool \<times> feed \<times> scheduler" where
  "feed_poll ops ps s =
     (if pipeline_unavailable ops ps then
        (True, if \<not> fd_unavailable (fst s)
               then feed_invalidate R_DISCONTINUITY ((fst s)\<lparr>fd_unavailable := True\<rparr>, snd s) else s)
      else (False, (fst s)\<lparr>fd_unavailable := False\<rparr>, snd s))"

text \<open>The tail of \<open>offer_decoded\<close> for a frame the sampler selected.\<close>

definition feed_frame :: "feed \<Rightarrow> uuid \<Rightarrow> sample_decision \<Rightarrow> int \<Rightarrow> nat list \<Rightarrow> gray_frame" where
  "feed_frame fd stream d channels pixels =
     \<lparr>fr_source_id = fd_source_id fd, fr_stream_id = stream, fr_sequence = fd_sequence fd + 1,
      fr_width = sd_width d, fr_height = sd_height d, fr_pixels = pixels, fr_channels = channels\<rparr>"

definition render_frame :: "feed \<Rightarrow> uuid \<Rightarrow> sample_decision \<Rightarrow> int \<Rightarrow> (int \<Rightarrow> int \<Rightarrow> nat list option)
    \<Rightarrow> gray_frame option" where
  "render_frame fd stream d channels render =
     (case render (sd_width d) (sd_height d) of
        None \<Rightarrow> None
      | Some pixels \<Rightarrow>
          let f = feed_frame fd stream d channels pixels in if gray_frame_ok f then Some f else None)"

definition submit_sample :: "int \<Rightarrow> uuid \<Rightarrow> quality \<Rightarrow> int \<Rightarrow> (int \<Rightarrow> int \<Rightarrow> nat list option)
    \<Rightarrow> sample_decision \<Rightarrow> feed \<times> scheduler \<Rightarrow> (feed_error, feed_result, feed \<times> scheduler) outcome" where
  "submit_sample clock stream q channels render d s =
     (let fd = (if fd_stream_id (fst s) \<noteq> Some stream
                then (fst s)\<lparr>fd_stream_id := Some stream, fd_sequence := -1\<rparr> else fst s) in
      case render_frame fd stream d channels render of
        None \<Rightarrow>
          (Inr \<lparr>fdr_offered = False, fdr_reason = FEED_RENDER_FAILED\<rparr>,
           feed_invalidate R_FAILURE (fd\<lparr>fd_render_failures := Suc (fd_render_failures fd)\<rparr>, snd s))
      | Some f \<Rightarrow>
          let fd1 = fd\<lparr>fd_sequence := fd_sequence fd + 1\<rparr> in
          (case offer clock f q (snd s) of
             (Inl e, sch) \<Rightarrow> (Inl (Feed_Scheduler e), fd1, sch)
           | (Inr accepted, sch) \<Rightarrow>
               if \<not> accepted
               then (Inr \<lparr>fdr_offered = False, fdr_reason = FEED_SCHEDULER_REJECTED\<rparr>,
                     fd1\<lparr>fd_rejected := Suc (fd_rejected fd1)\<rparr>, sch)
               else (Inr \<lparr>fdr_offered = True, fdr_reason = FEED_SAMPLE (sd_reason d)\<rparr>,
                     fd1\<lparr>fd_offered := Suc (fd_offered fd1)\<rparr>, sch)))"

definition route_sample :: "int \<Rightarrow> uuid \<Rightarrow> quality \<Rightarrow> int \<Rightarrow> (int \<Rightarrow> int \<Rightarrow> nat list option)
    \<Rightarrow> sample_decision \<Rightarrow> feed \<times> scheduler \<Rightarrow> (feed_error, feed_result, feed \<times> scheduler) outcome" where
  "route_sample clock stream q channels render d s =
     (let s1 = (if sd_emit d \<and> sd_reason d \<in> {SAMPLE_TIMESTAMP_GAP, SAMPLE_TIMESTAMP_RESET}
                then feed_invalidate R_DISCONTINUITY s else s) in
      if q \<noteq> Q_SUFFICIENT \<and> sd_reason d \<noteq> SAMPLE_STALE_STREAM then
        (Inr \<lparr>fdr_offered = False, fdr_reason = FEED_QUALITY_UNUSABLE\<rparr>,
         (fst s1)\<lparr>fd_quality_rejected := Suc (fd_quality_rejected (fst s1))\<rparr>,
         invalidate_source (fd_source_id (fst s1)) R_QUALITY (snd s1))
      else if \<not> sd_emit d then
        (Inr \<lparr>fdr_offered = False, fdr_reason = FEED_SAMPLE (sd_reason d)\<rparr>,
         (fst s1)\<lparr>fd_sampled_out := Suc (fd_sampled_out (fst s1))\<rparr>, snd s1)
      else submit_sample clock stream q channels render d s1)"

text \<open>The feed once the pipeline was found usable: a changed profile restarts the sampler's cadence.\<close>

definition feed_refresh :: "inference_profile \<Rightarrow> feed \<times> scheduler \<Rightarrow> feed \<times> scheduler" where
  "feed_refresh profile s =
     (let fd = (fst s)\<lparr>fd_unavailable := False\<rparr> in
      if profile \<noteq> fd_profile fd
      then feed_invalidate R_DISCONTINUITY (fd\<lparr>fd_profile := profile\<rparr>, snd s)
      else (fd, snd s))"

definition offer_decoded :: "'a adapter_ops \<Rightarrow> int \<Rightarrow> uuid \<Rightarrow> int \<Rightarrow> rat \<Rightarrow> quality \<Rightarrow> int
    \<Rightarrow> (int \<Rightarrow> int \<Rightarrow> nat list option) \<Rightarrow> 'a feed_state \<Rightarrow> (feed_error, feed_result, 'a feed_state) outcome" where
  "offer_decoded ops clock stream pts time_base q channels render st =
     (case st of (fd, sch, ps) \<Rightarrow>
      if channels \<noteq> 1 \<and> channels \<noteq> 3 then
        (case feed_invalidate R_FAILURE (fd, sch) of (fd1, sch1) \<Rightarrow> (Inl Feed_ValueError, fd1, sch1, ps))
      else
        let fd1 = fd\<lparr>fd_decoded := Suc (fd_decoded fd)\<rparr> in
        if pipeline_unavailable ops ps then
          (case feed_invalidate R_DISCONTINUITY
                  (fd1\<lparr>fd_blocked := Suc (fd_blocked fd1), fd_unavailable := True\<rparr>, sch) of
             (fd2, sch2) \<Rightarrow> (Inr \<lparr>fdr_offered = False, fdr_reason = FEED_PIPELINE_UNAVAILABLE\<rparr>, fd2, sch2, ps))
        else
          let s3 = feed_refresh (prof_inference (pl_profiles (fst ps))) (fd1, sch) in
          case select stream pts time_base (pl_inference (fst ps)) of
            (Inl e, smp) \<Rightarrow>
              (case feed_invalidate R_FAILURE s3 of
                 (fd4, sch4) \<Rightarrow> (Inl (Feed_Sampler e), fd4, sch4, (fst ps)\<lparr>pl_inference := smp\<rparr>, snd ps))
          | (Inr d, smp) \<Rightarrow>
              (case route_sample clock stream q channels render d s3 of
                 (r, fd4, sch4) \<Rightarrow> (r, fd4, sch4, (fst ps)\<lparr>pl_inference := smp\<rparr>, snd ps)))"

section \<open>No conclusion outlives its input\<close>

lemma feed_invalidate_simps [simp]:
  "fd_source_id (fst (feed_invalidate r s)) = fd_source_id (fst s)"
  "snd (feed_invalidate r s) = invalidate_source (fd_source_id (fst s)) r (snd s)"
  by (simp_all add: feed_invalidate_def)

lemma feed_refresh_simps [simp]:
  "fd_source_id (fst (feed_refresh p s)) = fd_source_id (fst s)"
  "fd_stream_id (fst (feed_refresh p s)) = fd_stream_id (fst s)"
  "fd_sequence (fst (feed_refresh p s)) = fd_sequence (fst s)"
  by (simp_all add: feed_refresh_def feed_invalidate_def Let_def)

text \<open>What \<open>offer_decoded\<close> does with valid arguments on a usable pipeline.\<close>

lemma offer_decoded_usable:
  assumes "channels = 1 \<or> channels = 3" "\<not> pipeline_unavailable ops ps"
    and "select stream pts time_base (pl_inference (fst ps)) = (sel, smp)"
  shows "offer_decoded ops clock stream pts time_base q channels render (fd, sch, ps) =
    (let s3 = feed_refresh (prof_inference (pl_profiles (fst ps))) (fd\<lparr>fd_decoded := Suc (fd_decoded fd)\<rparr>, sch);
         ps' = ((fst ps)\<lparr>pl_inference := smp\<rparr>, snd ps) in
     case sel of
       Inl e \<Rightarrow> (Inl (Feed_Sampler e), fst (feed_invalidate R_FAILURE s3), snd (feed_invalidate R_FAILURE s3), ps')
     | Inr d \<Rightarrow> (case route_sample clock stream q channels render d s3 of (r, fd4, sch4) \<Rightarrow> (r, fd4, sch4, ps')))"
  using assms by (auto simp: offer_decoded_def Let_def case_prod_beta split: sum.split)

lemma invalidate_silences:
  "r \<notin> {R_EVALUATED, R_WARMUP} \<Longrightarrow> \<not> sched_sink.concludes k (invalidate_source k r sch)"
  by (rule sched_sink.invalidate_no_conclusion) (simp add: withdrawable_def)

lemma submit_sample_silences:
  assumes "submit_sample clock stream q channels render d s = (r, fd', sch')"
    and "r = Inr \<lparr>fdr_offered = False, fdr_reason = FEED_RENDER_FAILED\<rparr>"
  shows "\<not> sched_sink.concludes (fd_source_id (fst s)) sch'"
proof -
  have "sch' = invalidate_source (fd_source_id (fst s)) R_FAILURE (snd s)"
    using assms by (auto simp: submit_sample_def feed_invalidate_def Let_def
        split: option.splits prod.splits sum.splits if_splits)
  then show ?thesis by (simp add: invalidate_silences)
qed

lemma route_sample_silences:
  assumes "route_sample clock stream q channels render d s = (r, fd', sch')"
    and "r = Inr \<lparr>fdr_offered = False, fdr_reason = FEED_RENDER_FAILED\<rparr>
      \<or> r = Inr \<lparr>fdr_offered = False, fdr_reason = FEED_QUALITY_UNUSABLE\<rparr>"
  shows "\<not> sched_sink.concludes (fd_source_id (fst s)) sch'"
proof -
  define s1 where "s1 = (if sd_emit d \<and> sd_reason d \<in> {SAMPLE_TIMESTAMP_GAP, SAMPLE_TIMESTAMP_RESET}
                then feed_invalidate R_DISCONTINUITY s else s)"
  have id: "fd_source_id (fst s1) = fd_source_id (fst s)" by (simp add: s1_def)
  consider (quality) "q \<noteq> Q_SUFFICIENT \<and> sd_reason d \<noteq> SAMPLE_STALE_STREAM"
    | (skip) "\<not> (q \<noteq> Q_SUFFICIENT \<and> sd_reason d \<noteq> SAMPLE_STALE_STREAM)" "\<not> sd_emit d"
    | (submit) "\<not> (q \<noteq> Q_SUFFICIENT \<and> sd_reason d \<noteq> SAMPLE_STALE_STREAM)" "sd_emit d" by blast
  then show ?thesis
  proof cases
    case quality
    then have "sch' = invalidate_source (fd_source_id (fst s1)) R_QUALITY (snd s1)"
      using assms(1) unfolding route_sample_def Let_def s1_def [symmetric] by auto
    then show ?thesis by (simp add: id invalidate_silences)
  next
    case skip
    then have "r = Inr \<lparr>fdr_offered = False, fdr_reason = FEED_SAMPLE (sd_reason d)\<rparr>"
      using assms(1) unfolding route_sample_def Let_def s1_def [symmetric] by auto
    with assms(2) show ?thesis by auto
  next
    case submit
    then have sub: "submit_sample clock stream q channels render d s1 = (r, fd', sch')"
      using assms(1) unfolding route_sample_def Let_def s1_def [symmetric] by auto
    then have "r \<noteq> Inr \<lparr>fdr_offered = False, fdr_reason = FEED_QUALITY_UNUSABLE\<rparr>"
      by (auto simp: submit_sample_def Let_def split: option.splits prod.splits sum.splits if_splits)
    then show ?thesis using submit_sample_silences [OF sub] assms(2) id by auto
  qed
qed

text \<open>
  A decoded frame that cannot be inferred on takes the published conclusion with it. If offering a
  decoded frame reports that the pipeline is unusable, that the frame's quality is unusable or that
  rendering failed, or if it raises because of an invalid argument or an invalid timestamp, then right
  afterwards the scheduler publishes no conclusion for the source.
\<close>

theorem feed_rejection_withdraws_conclusion:
  assumes "offer_decoded ops clock stream pts time_base q channels render (fd, sch, ps) = (r, fd', sch', ps')"
    and "r \<in> {Inr \<lparr>fdr_offered = False, fdr_reason = FEED_PIPELINE_UNAVAILABLE\<rparr>,
              Inr \<lparr>fdr_offered = False, fdr_reason = FEED_QUALITY_UNUSABLE\<rparr>,
              Inr \<lparr>fdr_offered = False, fdr_reason = FEED_RENDER_FAILED\<rparr>,
              Inl Feed_ValueError, Inl (Feed_Sampler Sampler_ValueError), Inl (Feed_Sampler Sampler_TypeError)}"
  shows "\<forall>d. published (fd_source_id fd) sch' = Some d \<longrightarrow> observation d = OBS_UNKNOWN"
proof -
  define s3 where "s3 = feed_refresh (prof_inference (pl_profiles (fst ps)))
    (fd\<lparr>fd_decoded := Suc (fd_decoded fd)\<rparr>, sch)"
  have id: "fd_source_id (fst s3) = fd_source_id fd" by (simp add: s3_def)
  obtain sel smp where select: "select stream pts time_base (pl_inference (fst ps)) = (sel, smp)" by fastforce
  note body = offer_decoded_usable [OF _ _ select, of channels ops clock q render fd sch,
      folded s3_def, unfolded Let_def]
  have "\<not> sched_sink.concludes (fd_source_id fd) sch'"
  proof (cases "(channels = 1 \<or> channels = 3) \<and> \<not> pipeline_unavailable ops ps")
    case False
    then have "\<exists>rr. rr \<notin> {R_EVALUATED, R_WARMUP} \<and> sch' = invalidate_source (fd_source_id fd) rr sch"
      using assms(1) by (auto simp: offer_decoded_def feed_invalidate_def Let_def split: if_splits)
    then show ?thesis using invalidate_silences by blast
  next
    case True
    show ?thesis
    proof (cases sel)
      case (Inl e)
      then have "sch' = invalidate_source (fd_source_id fd) R_FAILURE (snd s3)"
        using assms(1) body True id by simp
      then show ?thesis by (simp add: invalidate_silences)
    next
      case (Inr d)
      obtain r4 fd4 sch4 where route: "route_sample clock stream q channels render d s3 = (r4, fd4, sch4)"
        by (metis prod_cases3)
      then have eq: "r = r4" "sch' = sch4" using assms(1) body True Inr by auto
      have "r4 \<notin> {Inr \<lparr>fdr_offered = False, fdr_reason = FEED_PIPELINE_UNAVAILABLE\<rparr>, Inl Feed_ValueError,
          Inl (Feed_Sampler Sampler_ValueError), Inl (Feed_Sampler Sampler_TypeError)}"
        using route by (auto simp: route_sample_def submit_sample_def Let_def
            split: option.splits prod.splits sum.splits if_splits)
      then show ?thesis using route_sample_silences [OF route] assms(2) eq id by auto
    qed
  qed
  then show ?thesis by (auto simp: sched_sink.concludes_def)
qed

lemma ex_pipeline_usable: "\<not> pipeline_unavailable ex_ops (ex_pipeline, ex_claimed)"
  by (simp add: pipeline_unavailable_def pipeline_status_def BLOCKING_PIPELINE_REASONS_def viewer_status_def
      path_status_def ps_healthy_def ex_pipeline_defs Let_def)

lemma ex_pipeline_select:
  "select 5 0 (1 / 10) (pl_inference ex_pipeline)
     = (Inr (sample_result True SAMPLE_FIRST_FRAME (pl_inference ex_pipeline)),
        (pl_inference ex_pipeline)\<lparr>smp_previous := Some 0, smp_next := Some (1 / 5)\<rparr>)"
  by (simp add: select_def positive_fraction_def ex_pipeline_def new_pipeline_def sampler_init_def
      ex_profiles_def Let_def)

theorem feed_rejection_withdraws_conclusion_witness:
  "published 1 ex_published = Some (Detection OBS_ABSENT R_EVALUATED)
   \<and> (\<exists>fd' sch' ps'. offer_decoded ex_ops 12 5 0 (1 / 10) Q_INSUFFICIENT 1 (\<lambda>_ _. None)
          (feed_init ex_pipeline, ex_published, ex_pipeline, ex_claimed)
          = (Inr \<lparr>fdr_offered = False, fdr_reason = FEED_QUALITY_UNUSABLE\<rparr>, fd', sch', ps')
        \<and> (\<forall>d. published 1 sch' = Some d \<longrightarrow> observation d = OBS_UNKNOWN))"
proof -
  have pub: "published 1 ex_published = Some (Detection OBS_ABSENT R_EVALUATED)"
    unfolding ex_published_def ex_running_def ex_queued_def ex_ticket_def ex_defs
    by (simp add: published_def run_finish_def run_begin_def offer_def register_def read_clock_def
        offer_source_def admit_frame_def adopt_stream_def new_source_def mark_unknown_def put_source_def
        due_def start_source_def leave_evaluation_def ticket_object_def holds_object_def put_object_def
        publish_def Let_def)
  let ?fd = "feed_init ex_pipeline"
  have "fd_source_id ?fd = 1" "fd_profile ?fd = prof_inference (pl_profiles ex_pipeline)"
    by (simp_all add: feed_init_def ex_pipeline_def new_pipeline_def)
  then have "\<exists>fd' sch' ps'. offer_decoded ex_ops 12 5 0 (1 / 10) Q_INSUFFICIENT 1 (\<lambda>_ _. None)
          (?fd, ex_published, ex_pipeline, ex_claimed)
          = (Inr \<lparr>fdr_offered = False, fdr_reason = FEED_QUALITY_UNUSABLE\<rparr>, fd', sch', ps')"
    using ex_pipeline_usable ex_pipeline_select
    by (simp add: offer_decoded_def route_sample_def sample_result_def Let_def)
  then obtain fd' sch' ps' where "offer_decoded ex_ops 12 5 0 (1 / 10) Q_INSUFFICIENT 1 (\<lambda>_ _. None)
          (?fd, ex_published, ex_pipeline, ex_claimed)
          = (Inr \<lparr>fdr_offered = False, fdr_reason = FEED_QUALITY_UNUSABLE\<rparr>, fd', sch', ps')" by blast
  with feed_rejection_withdraws_conclusion [OF this] pub \<open>fd_source_id ?fd = 1\<close> show ?thesis by simp
qed

section \<open>What is offered\<close>

lemma offer_accepted_pending:
  assumes "offer clock f q sch = (Inr True, sch')"
  shows "\<exists>st pd. map_of (sched_sources sch') (fr_source_id f) = Some st \<and> src_pending st = Some pd
    \<and> pd_frame pd = f \<and> pd_quality pd = Q_SUFFICIENT"
proof -
  have acc: "src_pending st' = Some \<lparr>pd_frame = f, pd_quality = q, pd_received_ns = now\<rparr> \<and> q = Q_SUFFICIENT"
    if "offer_source now f q st = (True, st')" for now st st'
    using that by (auto simp: offer_source_def admit_frame_def Let_def split: if_splits)
  obtain now s1 st st' where "read_clock clock sch = (Inr now, s1)"
    "map_of (sched_sources s1) (fr_source_id f) = Some st" "offer_source now f q st = (True, st')"
    "sch' = put_source (fr_source_id f) st' s1"
    using assms by (auto simp: offer_def Let_def split: sum.splits prod.splits option.splits)
  with acc [of now st st'] show ?thesis by (simp add: put_source_def dict_simps)
qed

lemma select_decision:
  assumes "select stream pts tb s = (Inr d, s')"
  shows "sd_width d = ip_width (smp_profile s)" "sd_height d = ip_height (smp_profile s)"
    "sd_emit d \<Longrightarrow> stream = smp_stream_id s"
  using assms by (auto simp: select_def sample_result_def Let_def split: if_splits option.splits)

lemma submit_sample_offered:
  assumes "submit_sample clock stream q channels render d s = (Inr \<lparr>fdr_offered = True, fdr_reason = x\<rparr>, fd', sch')"
  shows "\<exists>st pd. map_of (sched_sources sch') (fd_source_id (fst s)) = Some st \<and> src_pending st = Some pd
    \<and> gray_frame_ok (pd_frame pd) \<and> pd_quality pd = Q_SUFFICIENT
    \<and> fr_stream_id (pd_frame pd) = stream \<and> fr_sequence (pd_frame pd) = fd_sequence fd'
    \<and> fr_width (pd_frame pd) = sd_width d \<and> fr_height (pd_frame pd) = sd_height d
    \<and> fd_stream_id fd' = Some stream
    \<and> fd_sequence fd' = (if fd_stream_id (fst s) = Some stream then fd_sequence (fst s) + 1 else 0)"
proof -
  define fd where "fd = (if fd_stream_id (fst s) \<noteq> Some stream
                then (fst s)\<lparr>fd_stream_id := Some stream, fd_sequence := -1\<rparr> else fst s)"
  obtain f where f: "render_frame fd stream d channels render = Some f"
    and off: "offer clock f q (snd s) = (Inr True, sch')"
    and fd': "fd' = (fd\<lparr>fd_sequence := fd_sequence fd + 1\<rparr>)\<lparr>fd_offered := Suc (fd_offered fd)\<rparr>"
    using assms unfolding submit_sample_def Let_def fd_def [symmetric]
    by (auto split: option.splits prod.splits sum.splits if_splits)
  obtain pixels where ff: "f = feed_frame fd stream d channels pixels" "gray_frame_ok f"
    using f by (auto simp: render_frame_def Let_def split: option.splits if_splits)
  then show ?thesis
    using offer_accepted_pending [OF off] fd' by (auto simp: feed_frame_def fd_def)
qed

text \<open>
  What the feed offers. When a decoded frame is reported as offered, it belongs to the pipeline's current
  stream, its quality is sufficient, and the scheduler's mailbox for the source now holds a well-formed
  frame of exactly the sampling profile's size, numbered one after the feed's previous frame of that stream,
  or zero for the first one.
\<close>

theorem feed_offered_frame_queued:
  assumes "offer_decoded ops clock stream pts time_base q channels render (fd, sch, ps)
      = (Inr \<lparr>fdr_offered = True, fdr_reason = x\<rparr>, fd', sch', ps')"
  shows "stream = smp_stream_id (pl_inference (fst ps))
    \<and> (\<exists>st pd. map_of (sched_sources sch') (fd_source_id fd) = Some st \<and> src_pending st = Some pd
        \<and> gray_frame_ok (pd_frame pd) \<and> pd_quality pd = Q_SUFFICIENT
        \<and> fr_stream_id (pd_frame pd) = stream \<and> fr_sequence (pd_frame pd) = fd_sequence fd'
        \<and> fr_width (pd_frame pd) = ip_width (smp_profile (pl_inference (fst ps)))
        \<and> fr_height (pd_frame pd) = ip_height (smp_profile (pl_inference (fst ps))))
    \<and> fd_sequence fd' = (if fd_stream_id fd = Some stream then fd_sequence fd + 1 else 0)"
proof -
  let ?ok = "\<lparr>fdr_offered = True, fdr_reason = x\<rparr>"
  define s3 where "s3 = feed_refresh (prof_inference (pl_profiles (fst ps)))
    (fd\<lparr>fd_decoded := Suc (fd_decoded fd)\<rparr>, sch)"
  have s3: "fd_source_id (fst s3) = fd_source_id fd" "fd_stream_id (fst s3) = fd_stream_id fd"
    "fd_sequence (fst s3) = fd_sequence fd" by (simp_all add: s3_def)
  obtain sl smp where select: "select stream pts time_base (pl_inference (fst ps)) = (sl, smp)" by fastforce
  have live: "channels = 1 \<or> channels = 3" "\<not> pipeline_unavailable ops ps"
    using assms by (auto simp: offer_decoded_def feed_invalidate_def Let_def split: if_splits)
  note body = offer_decoded_usable [OF live select, of clock q render fd sch, folded s3_def, unfolded Let_def]
  obtain d where sl: "sl = Inr d" using assms body by (cases sl) auto
  have sel: "select stream pts time_base (pl_inference (fst ps)) = (Inr d, smp)" using select sl by simp
  have route: "route_sample clock stream q channels render d s3 = (Inr ?ok, fd', sch')"
    using assms body sl by (auto split: prod.splits)
  define s4 where "s4 = (if sd_emit d \<and> sd_reason d \<in> {SAMPLE_TIMESTAMP_GAP, SAMPLE_TIMESTAMP_RESET}
    then feed_invalidate R_DISCONTINUITY s3 else s3)"
  have "fd_source_id (fst s4) = fd_source_id fd" "fd_stream_id (fst s4) = fd_stream_id fd"
    "fd_sequence (fst s4) = fd_sequence fd" using s3 by (simp_all add: s4_def feed_invalidate_def)
  moreover have "sd_emit d" "submit_sample clock stream q channels render d s4 = (Inr ?ok, fd', sch')"
    using route unfolding route_sample_def Let_def s4_def [symmetric] by (auto split: if_splits)
  ultimately have s4: "fd_source_id (fst s4) = fd_source_id fd" "fd_stream_id (fst s4) = fd_stream_id fd"
    "fd_sequence (fst s4) = fd_sequence fd" "sd_emit d"
    "submit_sample clock stream q channels render d s4 = (Inr ?ok, fd', sch')" by blast+
  from submit_sample_offered [OF s4(5)] s4 select_decision [OF sel] show ?thesis by auto
qed

theorem feed_offered_frame_queued_witness:
  "\<exists>fd' sch' ps' st pd. offer_decoded ex_ops 6 5 0 (1 / 10) Q_SUFFICIENT 1 (\<lambda>_ _. Some (replicate 8 0))
        (feed_init ex_pipeline, snd (register 1 ex_detector ex_policy ex_idle), ex_pipeline, ex_claimed)
      = (Inr \<lparr>fdr_offered = True, fdr_reason = FEED_SAMPLE SAMPLE_FIRST_FRAME\<rparr>, fd', sch', ps')
    \<and> map_of (sched_sources sch') 1 = Some st \<and> src_pending st = Some pd \<and> fr_sequence (pd_frame pd) = 0"
proof -
  let ?fd = "feed_init ex_pipeline" and ?sch = "snd (register 1 ex_detector ex_policy ex_idle)"
  have ok: "gray_frame_ok (feed_frame fd 5 (sample_result True r (pl_inference ex_pipeline)) 1 (replicate 8 0))"
    if "fd_sequence fd = -1" for fd r
    using that by (simp add: gray_frame_ok_def feed_frame_def sample_result_def positive_integer_def
        ex_pipeline_def new_pipeline_def sampler_init_def ex_profiles_def)
  have "\<exists>fd' sch' ps'. offer_decoded ex_ops 6 5 0 (1 / 10) Q_SUFFICIENT 1 (\<lambda>_ _. Some (replicate 8 0))
        (?fd, ?sch, ex_pipeline, ex_claimed)
      = (Inr \<lparr>fdr_offered = True, fdr_reason = FEED_SAMPLE SAMPLE_FIRST_FRAME\<rparr>, fd', sch', ps')"
    using ex_pipeline_usable ex_pipeline_select ok
    by (simp add: offer_decoded_usable [OF _ ex_pipeline_usable, unfolded fst_conv, OF _ ex_pipeline_select]
        route_sample_def submit_sample_def render_frame_def feed_refresh_def feed_init_def Let_def)
      (simp add: offer_def register_def read_clock_def ex_defs feed_frame_def offer_source_def
        adopt_stream_def admit_frame_def new_source_def mark_unknown_def sample_result_def
        ex_pipeline_def new_pipeline_def sampler_init_def ex_profiles_def Let_def)
  then obtain fd' sch' ps' where off: "offer_decoded ex_ops 6 5 0 (1 / 10) Q_SUFFICIENT 1 (\<lambda>_ _. Some (replicate 8 0))
        (?fd, ?sch, ex_pipeline, ex_claimed)
      = (Inr \<lparr>fdr_offered = True, fdr_reason = FEED_SAMPLE SAMPLE_FIRST_FRAME\<rparr>, fd', sch', ps')" by blast
  have "fd_source_id ?fd = 1" "fd_stream_id ?fd = None"
    by (simp_all add: feed_init_def ex_pipeline_def new_pipeline_def)
  with feed_offered_frame_queued [OF off] off show ?thesis by auto
qed

end
