(* ===== verification/Effects.thy ===== *)
theory Effects
  imports Prelude
begin

text \<open>
  Sequential code that mutates shared objects and may raise, as functions from the state of all objects
  to an outcome. \<open>eff_bind\<close> is sequencing, \<open>eff_catch\<close> is \<open>try/except\<close> and \<open>eff_finally\<close> is
  \<open>try/finally\<close> (an error of the clean-up replaces the first one). Two predicates carry the proofs:
  \<open>triple\<close>, a Hoare triple with one postcondition for the normal and one for the raising exit, and
  \<open>follows\<close>, which says that a computation only moves along a preorder, whatever it returns.
\<close>

type_synonym ('s, 'e, 'a) eff = "'s \<Rightarrow> ('e + 'a) \<times> 's"

named_theorems eff_simps "unfolding of the sequencing combinators"
named_theorems eff_intros "composition rules for computations"

section \<open>Combinators\<close>

definition eff_return :: "'a \<Rightarrow> ('s, 'e, 'a) eff" where
  [eff_simps]: "eff_return x s = (Inr x, s)"

definition eff_raise :: "'e \<Rightarrow> ('s, 'e, 'a) eff" where
  [eff_simps]: "eff_raise e s = (Inl e, s)"

definition eff_bind :: "('s, 'e, 'a) eff \<Rightarrow> ('a \<Rightarrow> ('s, 'e, 'b) eff) \<Rightarrow> ('s, 'e, 'b) eff" where
  "eff_bind m f s = (case m s of (Inl e, s1) \<Rightarrow> (Inl e, s1) | (Inr x, s1) \<Rightarrow> f x s1)"

abbreviation eff_then :: "('s, 'e, 'a) eff \<Rightarrow> ('s, 'e, 'b) eff \<Rightarrow> ('s, 'e, 'b) eff" where
  "eff_then m m' \<equiv> eff_bind m (\<lambda>_. m')"

definition eff_get :: "('s \<Rightarrow> 'a) \<Rightarrow> ('s, 'e, 'a) eff" where
  [eff_simps]: "eff_get f s = (Inr (f s), s)"

definition eff_modify :: "('s \<Rightarrow> 's) \<Rightarrow> ('s, 'e, unit) eff" where
  [eff_simps]: "eff_modify f s = (Inr (), f s)"

definition eff_guard :: "('s \<Rightarrow> bool) \<Rightarrow> 'e \<Rightarrow> ('s, 'e, unit) eff" where
  [eff_simps]: "eff_guard c e s = (if c s then (Inr (), s) else (Inl e, s))"

definition eff_catch :: "('s, 'e, 'a) eff \<Rightarrow> ('e \<Rightarrow> ('s, 'e, 'a) eff) \<Rightarrow> ('s, 'e, 'a) eff" where
  "eff_catch m h s = (case m s of (Inl e, s1) \<Rightarrow> h e s1 | (Inr x, s1) \<Rightarrow> (Inr x, s1))"

definition eff_finally :: "('s, 'e, 'a) eff \<Rightarrow> ('s, 'e, unit) eff \<Rightarrow> ('s, 'e, 'a) eff" where
  "eff_finally m c s =
     (case m s of (r, s1) \<Rightarrow> (case c s1 of (Inl e, s2) \<Rightarrow> (Inl e, s2) | (Inr _, s2) \<Rightarrow> (r, s2)))"

definition eff_when :: "bool \<Rightarrow> ('s, 'e, unit) eff \<Rightarrow> ('s, 'e, unit) eff" where
  [eff_simps]: "eff_when c m = (if c then m else eff_return ())"

fun eff_for :: "'a list \<Rightarrow> ('a \<Rightarrow> ('s, 'e, unit) eff) \<Rightarrow> ('s, 'e, unit) eff" where
  "eff_for [] f = eff_return ()"
| "eff_for (x # xs) f = eff_then (f x) (eff_for xs f)"

fun eff_map :: "'a list \<Rightarrow> ('a \<Rightarrow> ('s, 'e, 'b) eff) \<Rightarrow> ('s, 'e, 'b list) eff" where
  "eff_map [] f = eff_return []"
| "eff_map (x # xs) f = eff_bind (f x) (\<lambda>y. eff_bind (eff_map xs f) (\<lambda>ys. eff_return (y # ys)))"

text \<open>One normal or one raising result of a sequence determines the results of its parts.\<close>

lemma eff_bind_Inr:
  "eff_bind m f s = (Inr y, s') \<longleftrightarrow> (\<exists>x s1. m s = (Inr x, s1) \<and> f x s1 = (Inr y, s'))"
  by (auto simp: eff_bind_def split: prod.splits sum.splits)

lemma eff_bind_Inl:
  "eff_bind m f s = (Inl e, s') \<longleftrightarrow>
     m s = (Inl e, s') \<or> (\<exists>x s1. m s = (Inr x, s1) \<and> f x s1 = (Inl e, s'))"
  by (auto simp: eff_bind_def split: prod.splits sum.splits)

lemma eff_bind_step [eff_simps]:
  "m s = (Inr x, s1) \<Longrightarrow> eff_bind m f s = f x s1"
  "m s = (Inl e, s1) \<Longrightarrow> eff_bind m f s = (Inl e, s1)"
  by (simp_all add: eff_bind_def)

section \<open>Hoare triples\<close>

definition triple ::
  "('s \<Rightarrow> bool) \<Rightarrow> ('s, 'e, 'a) eff \<Rightarrow> ('a \<Rightarrow> 's \<Rightarrow> bool) \<Rightarrow> ('e \<Rightarrow> 's \<Rightarrow> bool) \<Rightarrow> bool" where
  "triple P m Q E \<longleftrightarrow>
     (\<forall>s. P s \<longrightarrow> (case m s of (Inr x, s') \<Rightarrow> Q x s' | (Inl e, s') \<Rightarrow> E e s'))"

lemma tripleI:
  "\<lbrakk>\<And>s x s'. \<lbrakk>P s; m s = (Inr x, s')\<rbrakk> \<Longrightarrow> Q x s'; \<And>s e s'. \<lbrakk>P s; m s = (Inl e, s')\<rbrakk> \<Longrightarrow> E e s'\<rbrakk>
   \<Longrightarrow> triple P m Q E"
  by (auto simp: triple_def split: prod.splits sum.splits)

lemma triple_Inr: "\<lbrakk>triple P m Q E; P s; m s = (Inr x, s')\<rbrakk> \<Longrightarrow> Q x s'"
  by (force simp: triple_def)

lemma triple_Inl: "\<lbrakk>triple P m Q E; P s; m s = (Inl e, s')\<rbrakk> \<Longrightarrow> E e s'"
  by (force simp: triple_def)

lemma triple_weaken:
  "\<lbrakk>triple P' m Q' E'; \<And>s. P s \<Longrightarrow> P' s; \<And>x s. Q' x s \<Longrightarrow> Q x s; \<And>e s. E' e s \<Longrightarrow> E e s\<rbrakk>
   \<Longrightarrow> triple P m Q E"
  by (fastforce simp: triple_def split: prod.splits sum.splits)

lemma triple_bind [eff_intros]:
  "\<lbrakk>triple P m R E; \<And>x. triple (R x) (f x) Q E\<rbrakk> \<Longrightarrow> triple P (eff_bind m f) Q E"
  by (rule tripleI) (auto simp: eff_bind_Inr eff_bind_Inl dest: triple_Inr triple_Inl)

lemma triple_catch [eff_intros]:
  "\<lbrakk>triple P m Q R; \<And>e. triple (R e) (h e) Q E\<rbrakk> \<Longrightarrow> triple P (eff_catch m h) Q E"
  by (rule tripleI) (auto simp: eff_catch_def dest: triple_Inr triple_Inl split: prod.splits sum.splits)

lemma triple_finally:
  assumes m: "triple P m R F" and R: "\<And>x. triple (R x) c (\<lambda>_. Q x) E"
    and F: "\<And>e. triple (F e) c (\<lambda>_. E e) E"
  shows "triple P (eff_finally m c) Q E"
proof (rule tripleI)
  fix s x s' assume "P s" "eff_finally m c s = (Inr x, s')"
  then show "Q x s'"
    using triple_Inr [OF m] triple_Inr [OF R]
    by (auto simp: eff_finally_def split: prod.splits sum.splits) blast
next
  fix s e s' assume P: "P s" and run: "eff_finally m c s = (Inl e, s')"
  obtain r s1 where ms: "m s = (r, s1)" by (meson surj_pair)
  then show "E e s'"
    using run triple_Inr [OF m P] triple_Inl [OF m P] triple_Inl [OF R] triple_Inl [OF F] triple_Inr [OF F]
    by (cases r) (auto simp: eff_finally_def split: prod.splits sum.splits)
qed

lemma triple_if [eff_intros]:
  "\<lbrakk>c \<Longrightarrow> triple P m Q E; \<not> c \<Longrightarrow> triple P m' Q E\<rbrakk> \<Longrightarrow> triple P (if c then m else m') Q E"
  by simp

lemma triple_cond [eff_intros]:
  "\<lbrakk>triple P m Q E; triple P m' Q E\<rbrakk> \<Longrightarrow> triple P (\<lambda>s. if c s then m s else m' s) Q E"
  by (simp add: triple_def)

lemma triple_get: "triple P (eff_get f) (\<lambda>_. P) E"
  by (simp add: triple_def eff_get_def)

lemma triple_return: "triple P (eff_return x) (\<lambda>_. P) E"
  by (simp add: triple_def eff_return_def)

lemma triple_guard: "triple P (eff_guard c e) (\<lambda>_ s. P s \<and> c s) (\<lambda>_. P)"
  by (simp add: triple_def eff_guard_def)

lemma triple_modify: "(\<And>s. P s \<Longrightarrow> Q (f s)) \<Longrightarrow> triple P (eff_modify f) (\<lambda>_. Q) E"
  by (simp add: triple_def eff_modify_def)

lemma triple_for:
  "(\<And>x. x \<in> set xs \<Longrightarrow> triple P (f x) (\<lambda>_. P) E) \<Longrightarrow> triple P (eff_for xs f) (\<lambda>_. P) E"
proof (induction xs)
  case Nil
  show ?case by (simp add: triple_def eff_return_def)
next
  case (Cons x xs)
  then show ?case by (auto intro: triple_bind)
qed

section \<open>Computations that move along a preorder\<close>

definition follows :: "('s \<Rightarrow> 's \<Rightarrow> bool) \<Rightarrow> ('s, 'e, 'a) eff \<Rightarrow> bool" where
  "follows R m \<longleftrightarrow> (\<forall>s. R s (snd (m s)))"

lemma followsD: "\<lbrakk>follows R m; m s = (r, s')\<rbrakk> \<Longrightarrow> R s s'"
  by (metis follows_def snd_conv)

lemma followsI: "(\<And>s r s'. m s = (r, s') \<Longrightarrow> R s s') \<Longrightarrow> follows R m"
  by (metis follows_def surjective_pairing)

locale preorder_relation =
  fixes R :: "'s \<Rightarrow> 's \<Rightarrow> bool"
  assumes refl: "R s s"
    and trans: "\<lbrakk>R s s'; R s' s''\<rbrakk> \<Longrightarrow> R s s''"
begin

lemma f_return: "follows R (eff_return x)"
  by (simp add: follows_def eff_return_def refl)

lemma f_raise: "follows R (eff_raise e)"
  by (simp add: follows_def eff_raise_def refl)

lemma f_get: "follows R (eff_get f)"
  by (simp add: follows_def eff_get_def refl)

lemma f_guard: "follows R (eff_guard c e)"
  by (simp add: follows_def eff_guard_def refl)

lemma f_modify: "(\<And>s. R s (f s)) \<Longrightarrow> follows R (eff_modify f)"
  by (simp add: follows_def eff_modify_def)

lemma f_bind: "\<lbrakk>follows R m; \<And>x. follows R (f x)\<rbrakk> \<Longrightarrow> follows R (eff_bind m f)"
  by (rule followsI) (auto simp: eff_bind_def intro: refl trans dest: followsD split: prod.splits sum.splits)

lemma f_catch: "\<lbrakk>follows R m; \<And>e. follows R (h e)\<rbrakk> \<Longrightarrow> follows R (eff_catch m h)"
  by (rule followsI) (auto simp: eff_catch_def intro: refl trans dest: followsD split: prod.splits sum.splits)

lemma f_finally: "\<lbrakk>follows R m; follows R c\<rbrakk> \<Longrightarrow> follows R (eff_finally m c)"
  by (rule followsI) (auto simp: eff_finally_def intro: refl trans dest: followsD split: prod.splits sum.splits)

lemma f_when: "follows R m \<Longrightarrow> follows R (eff_when c m)"
  by (simp add: eff_when_def f_return)

lemma f_if: "\<lbrakk>c \<Longrightarrow> follows R m; \<not> c \<Longrightarrow> follows R m'\<rbrakk> \<Longrightarrow> follows R (if c then m else m')"
  by simp

lemma f_for: "(\<And>x. x \<in> set xs \<Longrightarrow> follows R (f x)) \<Longrightarrow> follows R (eff_for xs f)"
  by (induction xs) (auto intro: f_return f_bind)

lemma f_map: "(\<And>x. x \<in> set xs \<Longrightarrow> follows R (f x)) \<Longrightarrow> follows R (eff_map xs f)"
  by (induction xs) (auto intro!: f_return f_bind)

lemmas rules = f_return f_raise f_get f_guard f_bind f_catch f_finally f_when f_if f_for f_map

end

text \<open>
  The two preorders used most: an invariant that is kept, and a relation on what an observation of the
  state shows.
\<close>

lemma preorder_keeps: "preorder_relation (\<lambda>s s'. I s \<longrightarrow> I s')"
  by unfold_locales auto

end
