(* ===== verification/Storage_Policy.thy ===== *)
theory Storage_Policy
  imports Effects
begin

text \<open>
  Main-host storage admission: \<^verbatim>\<open>server/app/storage/policy.py\<close>.

  \<open>MainStoragePolicy\<close> calls back into the rest of the worker: the filesystem sample, the clock, the
  durable audit of a state change, the byte inventory and the reclaimer. Those callbacks re-enter the
  policy (deleting a recording and writing an audit row each take a control reservation), so the policy
  object is an extensible record: the callbacks, which are parameters, act on the state of all objects,
  of which the fields below are the policy's own. \<open>sp_thread\<close> is what \<open>threading.get_ident\<close> returns to
  the caller. \<open>ExpectedFilesystem\<close> is a sequence of system calls and only appears as the sampling callback.
\<close>

datatype storage_state = NORMAL | PRESSURE | HARD_STOP

datatype recording_error =
    STORAGE_HARD_STOP | STORAGE_PRESSURE | STORAGE_INVALID_RESERVATION | STORAGE_BINDING_UNAVAILABLE
  | STORAGE_POLICY_UNAVAILABLE | STORAGE_AUDIT_UNAVAILABLE
  | RECORDING_WRITER_UNAVAILABLE | RECORDING_ROOT_UNAVAILABLE | RECORDING_DATABASE_BUSY
  | RECORDING_RECOVERY_REQUIRED | RECORDING_SOURCE_LIMIT | RECORDING_TIMELINE_REGRESSION
  | RECORDING_SEGMENT_LIMIT | RECORDING_WRITE_FAILED | RECORDING_EVENT_EXISTS | RECORDING_ACTIVE_LIMIT
  | RECORDING_NOT_FOUND | RECORDING_DELETE_REFUSED | RECORDING_EVENT_NOT_FOUND
  | RECORDING_STORAGE_UNAVAILABLE | RECORDING_WRITER_BUSY | RECORDING_SEGMENT_NOT_FOUND
  | RECORDING_SEGMENT_UNAVAILABLE | RECORDING_ACCESS_DENIED | RECORDING_AUDIT_UNAVAILABLE
  | Recording_ValueError | Recording_OSError | Recording_DatabaseError

record storage_limits =
  recording_limit_bytes :: int
  critical_allowance_bytes :: int
  hard_reserve_bytes :: int
  pressure_free_bytes :: int
  recovery_free_bytes :: int
  recovery_allocation_bytes :: int
  write_overhead_bytes :: int
  max_request_bytes :: int
  cleanup_batch_size :: int

definition storage_limits_ok :: "storage_limits \<Rightarrow> bool" where
  "storage_limits_ok l \<longleftrightarrow>
     list_all (\<lambda>v. \<not> v \<le> 0)
       [recording_limit_bytes l, critical_allowance_bytes l, hard_reserve_bytes l, pressure_free_bytes l,
        recovery_free_bytes l, recovery_allocation_bytes l, write_overhead_bytes l, max_request_bytes l,
        cleanup_batch_size l]
     \<and> hard_reserve_bytes l < pressure_free_bytes l \<and> pressure_free_bytes l < recovery_free_bytes l
     \<and> \<not> recovery_allocation_bytes l \<ge> recording_limit_bytes l
     \<and> \<not> cleanup_batch_size l > 1000"

record filesystem_space =
  available_bytes :: int
  total_bytes :: int

record storage_transition =
  tr_previous :: storage_state
  tr_current :: storage_state
  tr_at_ms :: int

record storage_status =
  ss_state :: storage_state
  ss_recording_bytes :: int
  ss_starred_bytes :: int
  ss_available_bytes :: int
  ss_reserved_bytes :: int
  ss_hard_reserve_bytes :: int
  ss_recording_limit_bytes :: int
  ss_critical_allowance_bytes :: int
  ss_audit_delivery_failed :: bool
  ss_cleanup_failed :: bool

record storage_policy =
  sp_thread :: nat
  sp_owner :: nat
  sp_limits :: storage_limits
  sp_bound :: bool
  sp_state :: storage_state
  sp_reserved_media :: int
  sp_reserved_total :: int
  sp_reservation :: bool
  sp_audit_delivery_failed :: bool
  sp_cleanup_failed :: bool

text \<open>The callables the constructor receives, and the two objects \<open>bind\<close> receives.\<close>

record 's storage_callbacks =
  cb_space :: "('s, recording_error, filesystem_space) eff"
  cb_clock :: "('s, recording_error, int) eff"
  cb_audit :: "storage_transition \<Rightarrow> ('s, recording_error, unit) eff"

record 's storage_binding =
  inv_usage_bytes :: "bool \<Rightarrow> bool \<Rightarrow> ('s, recording_error, int) eff"
  rec_expired :: "int \<Rightarrow> int \<Rightarrow> ('s, recording_error, int) eff"
  rec_oldest :: "int \<Rightarrow> ('s, recording_error, int) eff"

type_synonym ('w, 'a) policy_eff = "('w storage_policy_scheme, recording_error, 'a) eff"
type_synonym 'w callbacks = "'w storage_policy_scheme storage_callbacks"
type_synonym 'w binding = "'w storage_policy_scheme storage_binding"

section \<open>Operations\<close>

definition policy_init :: "nat \<Rightarrow> storage_limits \<Rightarrow> storage_policy" where
  "policy_init thread limits =
     \<lparr>sp_thread = thread, sp_owner = thread, sp_limits = limits, sp_bound = False, sp_state = NORMAL,
      sp_reserved_media = 0, sp_reserved_total = 0, sp_reservation = False,
      sp_audit_delivery_failed = False, sp_cleanup_failed = False\<rparr>"

definition policy_bind :: "('w, unit) policy_eff" where
  "policy_bind s =
     (if sp_bound s \<or> sp_thread s \<noteq> sp_owner s then (Inl STORAGE_BINDING_UNAVAILABLE, s)
      else (Inr (), s\<lparr>sp_bound := True\<rparr>))"

definition transition :: "'w callbacks \<Rightarrow> storage_state \<Rightarrow> ('w, unit) policy_eff" where
  "transition cb state s =
     (if sp_state s = state then (Inr (), s)
      else
        case eff_bind (cb_clock cb)
               (\<lambda>now. cb_audit cb \<lparr>tr_previous = sp_state s, tr_current = state, tr_at_ms = now\<rparr>)
               (s\<lparr>sp_state := state\<rparr>) of
          (Inr _, s1) \<Rightarrow> (Inr (), s1)
        | (Inl _, s1) \<Rightarrow> (Inr (), s1\<lparr>sp_audit_delivery_failed := True\<rparr>))"

definition hard_stop :: "'w callbacks \<Rightarrow> ('w, 'a) policy_eff" where
  "hard_stop cb = eff_then (transition cb HARD_STOP) (eff_raise STORAGE_HARD_STOP)"

definition control_space_ok :: "storage_limits \<Rightarrow> filesystem_space \<Rightarrow> bool" where
  "control_space_ok l space \<longleftrightarrow>
     0 \<le> available_bytes space \<and> available_bytes space \<le> total_bytes space
     \<and> \<not> available_bytes space - write_overhead_bytes l < hard_reserve_bytes l"

definition admit_control :: "'w callbacks \<Rightarrow> ('w, unit) policy_eff" where
  "admit_control cb s =
     (if sp_thread s \<noteq> sp_owner s \<or> sp_reservation s then (Inl STORAGE_INVALID_RESERVATION, s)
      else
        case cb_space cb s of
          (Inl _, s1) \<Rightarrow> hard_stop cb s1
        | (Inr space, s1) \<Rightarrow>
            if \<not> control_space_ok (sp_limits s1) space then hard_stop cb s1
            else (Inr (), s1\<lparr>sp_reservation := True,
                            sp_reserved_total := write_overhead_bytes (sp_limits s1),
                            sp_reserved_media := 0\<rparr>))"

definition policy_release :: "('w, unit) policy_eff" where
  "policy_release s =
     (if sp_thread s \<noteq> sp_owner s \<or> \<not> sp_reservation s then (Inl STORAGE_INVALID_RESERVATION, s)
      else (Inr (), s\<lparr>sp_reservation := False, sp_reserved_media := 0, sp_reserved_total := 0\<rparr>))"

text \<open>The context manager \<open>control\<close>, around the body of a \<open>with\<close> statement.\<close>

definition policy_control :: "'w callbacks \<Rightarrow> ('w, 'a) policy_eff \<Rightarrow> ('w, 'a) policy_eff" where
  "policy_control cb body s =
     (if sp_thread s \<noteq> sp_owner s then (Inl STORAGE_POLICY_UNAVAILABLE, s)
      else if \<not> sp_reservation s then eff_then (admit_control cb) (eff_finally body policy_release) s
      else body s)"

definition policy_check :: "('w, unit) policy_eff" where
  "policy_check = eff_guard (\<lambda>s. sp_thread s = sp_owner s \<and> sp_bound s) STORAGE_POLICY_UNAVAILABLE"

definition reading_ok :: "filesystem_space \<Rightarrow> int \<Rightarrow> int \<Rightarrow> int \<Rightarrow> bool" where
  "reading_ok space used critical starred \<longleftrightarrow>
     list_all (\<lambda>v. \<not> v < 0) [available_bytes space, total_bytes space, used, critical, starred]
     \<and> \<not> available_bytes space > total_bytes space"

definition sample :: "'w callbacks \<Rightarrow> 'w binding \<Rightarrow> ('w, filesystem_space \<times> int \<times> int \<times> int) policy_eff" where
  "sample cb b =
     eff_bind (cb_space cb) (\<lambda>space.
     eff_bind (inv_usage_bytes b False False) (\<lambda>used.
     eff_bind (inv_usage_bytes b False True) (\<lambda>critical.
     eff_bind (inv_usage_bytes b True False) (\<lambda>starred.
       if reading_ok space used critical starred then eff_return (space, used, critical, starred)
       else eff_raise Recording_ValueError))))"

definition policy_read :: "'w callbacks \<Rightarrow> 'w binding \<Rightarrow> ('w, filesystem_space \<times> int \<times> int \<times> int) policy_eff" where
  "policy_read cb b = eff_catch (sample cb b) (\<lambda>_. hard_stop cb)"

definition within_limits :: "'w storage_policy_scheme \<Rightarrow> filesystem_space \<Rightarrow> int \<Rightarrow> int \<Rightarrow> int \<Rightarrow> bool \<Rightarrow> bool" where
  "within_limits s space used request_total request_media recovering =
     (let free_after = available_bytes space - sp_reserved_total s - request_total;
          use_after = used + sp_reserved_media s + request_media
      in if recovering
         then free_after \<ge> recovery_free_bytes (sp_limits s) \<and> use_after \<le> recovery_allocation_bytes (sp_limits s)
         else free_after \<ge> pressure_free_bytes (sp_limits s) \<and> use_after < recording_limit_bytes (sp_limits s))"

definition state_for :: "'w callbacks \<Rightarrow> filesystem_space \<Rightarrow> int \<Rightarrow> ('w, unit) policy_eff" where
  "state_for cb space used s =
     (if available_bytes space - sp_reserved_total s < hard_reserve_bytes (sp_limits s)
      then transition cb HARD_STOP s
      else if sp_cleanup_failed s \<or> \<not> within_limits s space used 0 0 False then transition cb PRESSURE s
      else if sp_state s \<noteq> NORMAL \<and> within_limits s space used 0 0 True then transition cb NORMAL s
      else (Inr (), s))"

definition policy_status :: "'w callbacks \<Rightarrow> 'w binding \<Rightarrow> ('w, storage_status) policy_eff" where
  "policy_status cb b =
     eff_then policy_check (
     eff_bind (policy_read cb b) (\<lambda>(space, used, _, starred).
     eff_then (state_for cb space used) (
     eff_get (\<lambda>s.
       \<lparr>ss_state = sp_state s, ss_recording_bytes = used, ss_starred_bytes = starred,
        ss_available_bytes = available_bytes space, ss_reserved_bytes = sp_reserved_total s,
        ss_hard_reserve_bytes = hard_reserve_bytes (sp_limits s),
        ss_recording_limit_bytes = recording_limit_bytes (sp_limits s),
        ss_critical_allowance_bytes = critical_allowance_bytes (sp_limits s),
        ss_audit_delivery_failed = sp_audit_delivery_failed s, ss_cleanup_failed = sp_cleanup_failed s\<rparr>))))"

definition guard_metadata :: "'w callbacks \<Rightarrow> 'w binding \<Rightarrow> ('w, unit) policy_eff" where
  "guard_metadata cb b =
     eff_then policy_check (
     eff_bind (policy_read cb b) (\<lambda>(space, _, _, _) s.
       if available_bytes space - sp_reserved_total s - write_overhead_bytes (sp_limits s)
            < hard_reserve_bytes (sp_limits s)
       then hard_stop cb s
       else eff_return () s))"

text \<open>The \<open>for\<close> loop of \<open>admit\<close> over \<open>range(cleanup_batch_size)\<close>.\<close>

fun reclaim_loop :: "'w callbacks \<Rightarrow> 'w binding \<Rightarrow> int \<Rightarrow> int \<Rightarrow> bool \<Rightarrow> nat \<Rightarrow> ('w, unit) policy_eff" where
  "reclaim_loop cb b total_b media_bytes recovering 0 = eff_return ()"
| "reclaim_loop cb b total_b media_bytes recovering (Suc n) =
     eff_bind (policy_read cb b) (\<lambda>(space, used, _, _).
     eff_bind (eff_get (\<lambda>s. within_limits s space used total_b media_bytes recovering)) (\<lambda>fits.
       if fits then eff_return ()
       else eff_bind (rec_oldest b 1) (\<lambda>removed.
              if removed = 0 then eff_return ()
              else reclaim_loop cb b total_b media_bytes recovering n)))"

definition reclaim :: "'w callbacks \<Rightarrow> 'w binding \<Rightarrow> int \<Rightarrow> int \<Rightarrow> ('w, unit) policy_eff" where
  "reclaim cb b total_b media_bytes =
     eff_bind (eff_get (\<lambda>s. cleanup_batch_size (sp_limits s))) (\<lambda>batch.
     eff_catch
       (eff_bind (cb_clock cb) (\<lambda>now.
        eff_then (rec_expired b now batch) (
        eff_bind (eff_get (\<lambda>s. sp_state s \<noteq> NORMAL)) (\<lambda>recovering.
          reclaim_loop cb b total_b media_bytes recovering (nat batch)))))
       (\<lambda>_. eff_modify (\<lambda>s. s\<lparr>sp_cleanup_failed := True\<rparr>)))"

definition pressure_refused :: "bool \<Rightarrow> int \<Rightarrow> int \<Rightarrow> int \<Rightarrow> int \<Rightarrow> 'w storage_policy_scheme \<Rightarrow> bool" where
  "pressure_refused critical media_bytes total_b used critical_bytes s \<longleftrightarrow>
     \<not> critical \<or> sp_cleanup_failed s
     \<or> critical_bytes + total_b > critical_allowance_bytes (sp_limits s)
     \<or> used + media_bytes > recording_limit_bytes (sp_limits s) + critical_allowance_bytes (sp_limits s)"

definition classify_reserved ::
  "'w callbacks \<Rightarrow> bool \<Rightarrow> int \<Rightarrow> int \<Rightarrow> filesystem_space \<Rightarrow> int \<Rightarrow> int \<Rightarrow> ('w, unit) policy_eff" where
  "classify_reserved cb critical media_bytes total_b space used critical_bytes =
     eff_then (state_for cb space used) (\<lambda>s.
       if sp_state s = HARD_STOP then (Inl STORAGE_HARD_STOP, s)
       else if sp_state s = PRESSURE \<and> pressure_refused critical media_bytes total_b used critical_bytes s
         then (Inl STORAGE_PRESSURE, s)
       else (Inr (), s))"

definition reserve :: "int \<Rightarrow> int \<Rightarrow> ('w, unit) policy_eff" where
  "reserve media_bytes total_b =
     eff_modify (\<lambda>s. s\<lparr>sp_reservation := True, sp_reserved_media := media_bytes, sp_reserved_total := total_b\<rparr>)"

definition admit_sampled :: "'w callbacks \<Rightarrow> 'w binding \<Rightarrow> int \<Rightarrow> int \<Rightarrow> bool \<Rightarrow> ('w, unit) policy_eff" where
  "admit_sampled cb b media_bytes total_b critical =
     eff_bind (policy_read cb b) (\<lambda>(space, used, critical_bytes, _).
     eff_then (reserve media_bytes total_b) (
     eff_catch (classify_reserved cb critical media_bytes total_b space used critical_bytes)
       (\<lambda>e. eff_then policy_release (eff_raise e))))"

definition request_ok :: "int \<Rightarrow> 'w storage_policy_scheme \<Rightarrow> bool" where
  "request_ok media_bytes s \<longleftrightarrow>
     0 \<le> media_bytes \<and> media_bytes \<le> max_request_bytes (sp_limits s) \<and> \<not> sp_reservation s"

definition policy_admit :: "'w callbacks \<Rightarrow> 'w binding \<Rightarrow> int \<Rightarrow> bool \<Rightarrow> ('w, unit) policy_eff" where
  "policy_admit cb b media_bytes critical =
     eff_then policy_check (
     eff_then (eff_guard (request_ok media_bytes) STORAGE_INVALID_RESERVATION) (
     eff_bind (eff_get (\<lambda>s. media_bytes + write_overhead_bytes (sp_limits s))) (\<lambda>total_b.
     eff_then (guard_metadata cb b) (
     eff_then (eff_modify (\<lambda>s. s\<lparr>sp_cleanup_failed := False\<rparr>)) (
     eff_then (reclaim cb b total_b media_bytes) (
     admit_sampled cb b media_bytes total_b critical))))))"

text \<open>\<open>RecordingError(self.state.value)\<close> for the two states that refuse.\<close>

definition state_error :: "storage_state \<Rightarrow> recording_error" where
  "state_error state = (if state = PRESSURE then STORAGE_PRESSURE else STORAGE_HARD_STOP)"

definition admit_external :: "'w callbacks \<Rightarrow> 'w binding \<Rightarrow> int \<Rightarrow> ('w, unit) policy_eff" where
  "admit_external cb b media_bytes =
     eff_then policy_check (
     eff_then (eff_guard (request_ok media_bytes) STORAGE_INVALID_RESERVATION) (
     eff_bind (eff_get (\<lambda>s. media_bytes + write_overhead_bytes (sp_limits s))) (\<lambda>total_b.
     eff_then (guard_metadata cb b) (
     eff_bind (policy_read cb b) (\<lambda>(space, used, _, _).
     eff_then (state_for cb space used) (\<lambda>s.
       if sp_state s \<noteq> NORMAL then (Inl (state_error (sp_state s)), s)
       else if \<not> within_limits s space used total_b media_bytes False then (Inl STORAGE_PRESSURE, s)
       else reserve media_bytes total_b s))))))"

text \<open>What a granted admission guarantees, for the last filesystem sample and inventory.\<close>

definition granted_ok ::
  "int \<Rightarrow> int \<Rightarrow> bool \<Rightarrow> storage_state \<Rightarrow> filesystem_space \<Rightarrow> int \<Rightarrow> int \<Rightarrow> 'w storage_policy_scheme \<Rightarrow> bool" where
  "granted_ok media_bytes total_b critical previous space used critical_bytes s \<longleftrightarrow>
     sp_reservation s \<and> sp_reserved_media s = media_bytes \<and> sp_reserved_total s = total_b
     \<and> sp_state s \<noteq> HARD_STOP
     \<and> available_bytes space - total_b \<ge> hard_reserve_bytes (sp_limits s)
     \<and> (sp_state s = NORMAL \<longrightarrow>
          available_bytes space - total_b \<ge> pressure_free_bytes (sp_limits s)
          \<and> used + media_bytes < recording_limit_bytes (sp_limits s))
     \<and> (sp_state s = NORMAL \<and> previous \<noteq> NORMAL \<longrightarrow>
          available_bytes space - total_b \<ge> recovery_free_bytes (sp_limits s)
          \<and> used + media_bytes \<le> recovery_allocation_bytes (sp_limits s))
     \<and> (sp_state s = PRESSURE \<longrightarrow>
          critical \<and> \<not> sp_cleanup_failed s
          \<and> critical_bytes + total_b \<le> critical_allowance_bytes (sp_limits s)
          \<and> used + media_bytes \<le> recording_limit_bytes (sp_limits s) + critical_allowance_bytes (sp_limits s))"

lemma transition_returns: "\<exists>s'. transition cb state s = (Inr (), s')"
  by (auto simp: transition_def split: prod.splits sum.splits)

lemma hard_stop_raises [simp]: "hard_stop cb s \<noteq> (Inr x, s')"
  using transition_returns [of cb HARD_STOP s] by (auto simp: hard_stop_def eff_bind_def eff_raise_def)

section \<open>The contract of the callbacks\<close>

abbreviation rest :: "'w storage_policy_scheme \<Rightarrow> 'w" where
  "rest \<equiv> storage_policy.more"

abbreviation policy_of :: "'w storage_policy_scheme \<Rightarrow> storage_policy" where
  "policy_of \<equiv> storage_policy.truncate"

text \<open>
  What a re-entrant callback may do to the policy: keep its configuration and its reservation, and keep
  the state or latch the hard stop.
\<close>

definition calm :: "'w storage_policy_scheme \<Rightarrow> 'w storage_policy_scheme \<Rightarrow> bool" where
  "calm s s' \<longleftrightarrow>
     sp_thread s' = sp_thread s \<and> sp_owner s' = sp_owner s \<and> sp_limits s' = sp_limits s
     \<and> sp_bound s' = sp_bound s \<and> sp_reservation s' = sp_reservation s
     \<and> sp_reserved_media s' = sp_reserved_media s \<and> sp_reserved_total s' = sp_reserved_total s
     \<and> (sp_state s' = sp_state s \<or> sp_state s' = HARD_STOP)"

lemma calm_refl [simp]: "calm s s"
  by (simp add: calm_def)

lemma calm_trans: "\<lbrakk>calm s s'; calm s' s''\<rbrakk> \<Longrightarrow> calm s s''"
  by (auto simp: calm_def)

lemma calm_fields:
  assumes "calm s s'"
  shows "sp_thread s' = sp_thread s" "sp_owner s' = sp_owner s" "sp_limits s' = sp_limits s"
    "sp_bound s' = sp_bound s" "sp_reservation s' = sp_reservation s"
    "sp_reserved_media s' = sp_reserved_media s" "sp_reserved_total s' = sp_reserved_total s"
  using assms by (simp_all add: calm_def)

lemma calm_hard_stop: "\<lbrakk>calm s s'; sp_state s = HARD_STOP\<rbrakk> \<Longrightarrow> sp_state s' = HARD_STOP"
  by (auto simp: calm_def)

lemma calm_audit_flag [simp]: "calm s (s'\<lparr>sp_audit_delivery_failed := f\<rparr>) = calm s s'"
  "calm s (s'\<lparr>sp_cleanup_failed := f\<rparr>) = calm s s'"
  by (simp_all add: calm_def)

lemma policy_of_eq:
  "policy_of s' = policy_of s \<longleftrightarrow>
     sp_thread s' = sp_thread s \<and> sp_owner s' = sp_owner s \<and> sp_limits s' = sp_limits s
     \<and> sp_bound s' = sp_bound s \<and> sp_state s' = sp_state s
     \<and> sp_reserved_media s' = sp_reserved_media s \<and> sp_reserved_total s' = sp_reserved_total s
     \<and> sp_reservation s' = sp_reservation s \<and> sp_audit_delivery_failed s' = sp_audit_delivery_failed s
     \<and> sp_cleanup_failed s' = sp_cleanup_failed s"
  by (auto simp: storage_policy.truncate_def)

lemma policy_of_calm: "policy_of s' = policy_of s \<Longrightarrow> calm s s'"
  by (simp add: policy_of_eq calm_def)

text \<open>Outside a reservation nothing is accounted as reserved.\<close>

definition ready :: "('w storage_policy_scheme \<Rightarrow> bool) \<Rightarrow> 'w storage_policy_scheme \<Rightarrow> bool" where
  "ready Env s \<longleftrightarrow>
     Env s \<and> (sp_reservation s \<or> sp_reserved_media s = 0 \<and> sp_reserved_total s = 0)"

lemma readyD: "ready Env s \<Longrightarrow> Env s"
  by (simp add: ready_def)

text \<open>The state \<open>_state_for\<close> aims at.\<close>

definition classified :: "'w storage_policy_scheme \<Rightarrow> filesystem_space \<Rightarrow> int \<Rightarrow> storage_state" where
  "classified s space used =
     (if available_bytes space - sp_reserved_total s < hard_reserve_bytes (sp_limits s) then HARD_STOP
      else if sp_cleanup_failed s \<or> \<not> within_limits s space used 0 0 False then PRESSURE
      else if within_limits s space used 0 0 True then NORMAL
      else sp_state s)"

lemma classified_granted:
  assumes state: "sp_state s' = classified s space used"
    and same: "sp_limits s' = sp_limits s" "sp_reserved_total s = total_b" "sp_reserved_media s = media_bytes"
      "sp_reservation s'" "sp_reserved_media s' = media_bytes" "sp_reserved_total s' = total_b"
    and not_stopped: "sp_state s' \<noteq> HARD_STOP"
    and not_refused: "sp_state s' = PRESSURE \<Longrightarrow>
      \<not> pressure_refused critical media_bytes total_b used critical_bytes s'"
  shows "granted_ok media_bytes total_b critical (sp_state s) space used critical_bytes s'"
proof -
  have reserve: "available_bytes space - total_b \<ge> hard_reserve_bytes (sp_limits s)"
    using state not_stopped same unfolding classified_def by (auto split: if_splits)
  have normal: "sp_state s' = NORMAL \<Longrightarrow> within_limits s space used 0 0 False
      \<and> (sp_state s \<noteq> NORMAL \<longrightarrow> within_limits s space used 0 0 True)"
    using state unfolding classified_def by (auto split: if_splits)
  show ?thesis
    unfolding granted_ok_def
    using reserve normal same not_stopped not_refused
    by (simp add: within_limits_def pressure_refused_def not_less)
qed

text \<open>
  \<open>Env\<close> is the worker's own invariant, \<open>sampled\<close> the last filesystem sample and \<open>usage\<close> the inventory
  (starred only, critical only); none of them looks at the policy. A sample, an inventory query and the clock leave
  the policy alone. An audit may re-enter, but under a live reservation it neither changes the state nor
  samples again. The reclaimer is only called without a reservation and returns without one.
\<close>

locale storage_port =
  fixes cb :: "'w callbacks" and b :: "'w binding"
    and Env :: "'w storage_policy_scheme \<Rightarrow> bool"
    and sampled :: "'w storage_policy_scheme \<Rightarrow> filesystem_space"
    and usage :: "'w storage_policy_scheme \<Rightarrow> bool \<Rightarrow> bool \<Rightarrow> int"
  assumes frame_law: "rest s' = rest s \<Longrightarrow> Env s' = Env s \<and> sampled s' = sampled s \<and> usage s' = usage s"
    and space_law: "\<lbrakk>ready Env s; cb_space cb s = (rs, s')\<rbrakk>
      \<Longrightarrow> ready Env s' \<and> policy_of s' = policy_of s \<and> usage s' = usage s
          \<and> (\<forall>space. rs = Inr space \<longrightarrow> sampled s' = space)"
    and usage_law: "\<lbrakk>ready Env s; inv_usage_bytes b starred critical s = (ru, s')\<rbrakk>
      \<Longrightarrow> ready Env s' \<and> policy_of s' = policy_of s \<and> usage s' = usage s
          \<and> sampled s' = sampled s \<and> (\<forall>n. ru = Inr n \<longrightarrow> n = usage s starred critical)"
    and clock_law: "\<lbrakk>ready Env s; cb_clock cb s = (rc, s')\<rbrakk>
      \<Longrightarrow> ready Env s' \<and> policy_of s' = policy_of s \<and> usage s' = usage s
          \<and> sampled s' = sampled s"
    and audit_law: "\<lbrakk>ready Env s; cb_audit cb event s = (ra, s')\<rbrakk>
      \<Longrightarrow> ready Env s' \<and> calm s s' \<and> usage s' = usage s
          \<and> (sp_reservation s \<longrightarrow> sp_state s' = sp_state s \<and> sampled s' = sampled s)"
    and expired_law: "\<lbrakk>ready Env s; \<not> sp_reservation s; rec_expired b now limit s = (re, s')\<rbrakk>
      \<Longrightarrow> ready Env s' \<and> calm s s'"
    and oldest_law: "\<lbrakk>ready Env s; \<not> sp_reservation s; rec_oldest b limit s = (ro, s')\<rbrakk>
      \<Longrightarrow> ready Env s' \<and> calm s s'"
begin

lemma frame_update [simp]:
  "Env (s\<lparr>sp_state := st\<rparr>) = Env s" "sampled (s\<lparr>sp_state := st\<rparr>) = sampled s"
  "usage (s\<lparr>sp_state := st\<rparr>) = usage s"
  "Env (s\<lparr>sp_cleanup_failed := f\<rparr>) = Env s" "sampled (s\<lparr>sp_cleanup_failed := f\<rparr>) = sampled s"
  "usage (s\<lparr>sp_cleanup_failed := f\<rparr>) = usage s"
  "Env (s\<lparr>sp_audit_delivery_failed := f\<rparr>) = Env s" "sampled (s\<lparr>sp_audit_delivery_failed := f\<rparr>) = sampled s"
  "usage (s\<lparr>sp_audit_delivery_failed := f\<rparr>) = usage s"
  "Env (s\<lparr>sp_reservation := v, sp_reserved_media := m, sp_reserved_total := t\<rparr>) = Env s"
  "sampled (s\<lparr>sp_reservation := v, sp_reserved_media := m, sp_reserved_total := t\<rparr>) = sampled s"
  "usage (s\<lparr>sp_reservation := v, sp_reserved_media := m, sp_reserved_total := t\<rparr>) = usage s"
  by (rule frame_law [THEN conjunct1] frame_law [THEN conjunct2, THEN conjunct1]
        frame_law [THEN conjunct2, THEN conjunct2]; simp)+

lemma ready_update [simp]:
  "ready Env (s\<lparr>sp_state := st\<rparr>) = ready Env s"
  "ready Env (s\<lparr>sp_cleanup_failed := f\<rparr>) = ready Env s"
  "ready Env (s\<lparr>sp_audit_delivery_failed := f\<rparr>) = ready Env s"
  "ready Env (s\<lparr>sp_reservation := True, sp_reserved_media := m, sp_reserved_total := t\<rparr>) = Env s"
  "ready Env (s\<lparr>sp_reservation := False, sp_reserved_media := 0, sp_reserved_total := 0\<rparr>) = Env s"
  by (simp_all add: ready_def)

lemma transition_effect:
  assumes "ready Env s" "transition cb state s = (r, s')"
  shows "r = Inr () \<and> ready Env s' \<and> calm (s\<lparr>sp_state := state\<rparr>) s'
    \<and> usage s' = usage s
    \<and> (sp_reservation s \<longrightarrow> sp_state s' = state \<and> sampled s' = sampled s)"
proof (cases "sp_state s = state")
  case True
  then have "s' = s" "r = Inr ()" using assms(2) by (simp_all add: transition_def)
  moreover have "calm (s\<lparr>sp_state := state\<rparr>) s" using True by (simp add: calm_def)
  ultimately show ?thesis using assms(1) True by simp
next
  case False
  let ?s0 = "s\<lparr>sp_state := state\<rparr>"
  obtain rc s1 where clock: "cb_clock cb ?s0 = (rc, s1)" by (meson surj_pair)
  have c: "ready Env s1 \<and> policy_of s1 = policy_of ?s0 \<and> usage s1 = usage s
      \<and> sampled s1 = sampled s"
    using clock_law [OF _ clock] assms(1) by simp
  have c1: "calm ?s0 s1" using c policy_of_calm by blast
  show ?thesis
  proof (cases rc)
    case (Inl e)
    then have "r = Inr () \<and> s' = s1\<lparr>sp_audit_delivery_failed := True\<rparr>"
      using assms(2) False clock by (simp add: transition_def eff_bind_def)
    then show ?thesis using c c1 by (auto simp: policy_of_eq)
  next
    case (Inr now)
    let ?event = "\<lparr>tr_previous = sp_state s, tr_current = state, tr_at_ms = now\<rparr>"
    obtain ra s2 where audit: "cb_audit cb ?event s1 = (ra, s2)" by (meson surj_pair)
    have a: "ready Env s2 \<and> calm s1 s2 \<and> usage s2 = usage s1
          \<and> (sp_reservation s1 \<longrightarrow> sp_state s2 = sp_state s1 \<and> sampled s2 = sampled s1)"
      using audit_law [OF _ audit] c by blast
    have same: "sp_reservation s1 = sp_reservation s" "sp_state s1 = state"
      using c by (auto simp: policy_of_eq)
    have "r = Inr () \<and> (s' = s2 \<or> s' = s2\<lparr>sp_audit_delivery_failed := True\<rparr>)"
      using assms(2) False clock Inr audit
      by (cases ra) (simp_all add: transition_def eff_bind_def)
    then show ?thesis using a c calm_trans [OF c1] same by auto
  qed
qed

lemma hard_stop_effect:
  assumes "ready Env s" "hard_stop cb s = (r, s')"
  shows "r = Inl STORAGE_HARD_STOP \<and> ready Env s' \<and> calm s s' \<and> sp_state s' = HARD_STOP
    \<and> usage s' = usage s"
proof -
  obtain rt s1 where t: "transition cb HARD_STOP s = (rt, s1)" by (meson surj_pair)
  note eff = transition_effect [OF assms(1) t]
  have "calm s s1" using eff by (auto simp: calm_def)
  moreover have "sp_state s1 = HARD_STOP" using eff by (auto simp: calm_def)
  moreover have "r = Inl STORAGE_HARD_STOP" "s' = s1"
    using assms(2) t eff by (simp_all add: hard_stop_def eff_bind_def eff_raise_def)
  ultimately show ?thesis using eff by blast
qed

lemma sample_effect:
  assumes "ready Env s" "sample cb b s = (r, s')"
  shows "ready Env s' \<and> policy_of s' = policy_of s \<and> usage s' = usage s
    \<and> (\<forall>space used critical starred. r = Inr (space, used, critical, starred)
         \<longrightarrow> reading_ok space used critical starred \<and> space = sampled s'
             \<and> used = usage s' False False \<and> critical = usage s' False True)"
proof -
  obtain r1 s1 where 1: "cb_space cb s = (r1, s1)" by (meson surj_pair)
  obtain r2 s2 where 2: "inv_usage_bytes b False False s1 = (r2, s2)" by (meson surj_pair)
  obtain r3 s3 where 3: "inv_usage_bytes b False True s2 = (r3, s3)" by (meson surj_pair)
  obtain r4 s4 where 4: "inv_usage_bytes b True False s3 = (r4, s4)" by (meson surj_pair)
  note l1 = space_law [OF assms(1) 1]
  note l2 = usage_law [OF conjunct1 [OF l1] 2]
  note l3 = usage_law [OF conjunct1 [OF l2] 3]
  note l4 = usage_law [OF conjunct1 [OF l3] 4]
  show ?thesis
    using assms(2) l1 l2 l3 l4 1 2 3 4
    by (cases r1; cases r2; cases r3; cases r4)
       (auto simp: sample_def eff_bind_def eff_return_def eff_raise_def split: if_splits)
qed

lemma read_effect:
  assumes "ready Env s" "policy_read cb b s = (r, s')"
  shows "ready Env s' \<and> calm s s' \<and> usage s' = usage s
    \<and> (\<forall>space used critical starred. r = Inr (space, used, critical, starred)
         \<longrightarrow> policy_of s' = policy_of s \<and> reading_ok space used critical starred
             \<and> space = sampled s'
             \<and> used = usage s' False False \<and> critical = usage s' False True)"
proof -
  obtain r1 s1 where 1: "sample cb b s = (r1, s1)" by (meson surj_pair)
  note l1 = sample_effect [OF assms(1) 1]
  show ?thesis
  proof (cases r1)
    case (Inl e)
    then have "hard_stop cb s1 = (r, s')" using assms(2) 1 by (simp add: policy_read_def eff_catch_def)
    from hard_stop_effect [OF conjunct1 [OF l1] this] show ?thesis
      using l1 calm_trans policy_of_calm by fastforce
  next
    case (Inr x)
    then have "r = Inr x" "s' = s1" using assms(2) 1 by (simp_all add: policy_read_def eff_catch_def)
    then show ?thesis using l1 Inr policy_of_calm by auto
  qed
qed

text \<open>Under a live reservation \<open>_state_for\<close> is the pure classification.\<close>

lemma state_for_effect:
  assumes "ready Env s" "sp_reservation s" "state_for cb space used s = (r, s')"
  shows "r = Inr () \<and> ready Env s' \<and> usage s' = usage s \<and> sampled s' = sampled s
    \<and> calm (s\<lparr>sp_state := sp_state s'\<rparr>) s' \<and> sp_state s' = classified s space used"
  using assms transition_effect
  by (fastforce simp: state_for_def classified_def split: if_splits)

lemma read_triple:
  "triple (\<lambda>s. ready Env s \<and> calm s0 s) (policy_read cb b)
     (\<lambda>_ s. ready Env s \<and> calm s0 s) (\<lambda>_ s. ready Env s \<and> calm s0 s)"
  by (rule tripleI) (meson read_effect calm_trans)+

lemma oldest_triple:
  "\<not> sp_reservation s0 \<Longrightarrow> triple (\<lambda>s. ready Env s \<and> calm s0 s) (rec_oldest b limit)
     (\<lambda>_ s. ready Env s \<and> calm s0 s) (\<lambda>_ s. ready Env s \<and> calm s0 s)"
  by (rule tripleI) (metis oldest_law calm_trans calm_fields(5))+

lemma expired_triple:
  "\<not> sp_reservation s0 \<Longrightarrow> triple (\<lambda>s. ready Env s \<and> calm s0 s) (rec_expired b now limit)
     (\<lambda>_ s. ready Env s \<and> calm s0 s) (\<lambda>_ s. ready Env s \<and> calm s0 s)"
  by (rule tripleI) (metis expired_law calm_trans calm_fields(5))+

lemma clock_triple:
  "triple (\<lambda>s. ready Env s \<and> calm s0 s) (cb_clock cb)
     (\<lambda>_ s. ready Env s \<and> calm s0 s) (\<lambda>_ s. ready Env s \<and> calm s0 s)"
  by (rule tripleI) (meson clock_law calm_trans policy_of_calm)+

lemma reclaim_loop_triple:
  "\<not> sp_reservation s0 \<Longrightarrow> triple (\<lambda>s. ready Env s \<and> calm s0 s)
     (reclaim_loop cb b total_b media_bytes recovering n)
     (\<lambda>_ s. ready Env s \<and> calm s0 s) (\<lambda>_ s. ready Env s \<and> calm s0 s)"
proof (induction n)
  case 0
  show ?case by (simp add: triple_return)
next
  case (Suc n)
  then show ?case
    by (auto intro!: triple_bind [OF read_triple] triple_bind [OF triple_get] triple_return
        triple_bind [OF oldest_triple] triple_if split: prod.split)
qed

lemma reclaim_triple:
  assumes "\<not> sp_reservation s0"
  shows "triple (\<lambda>s. ready Env s \<and> calm s0 s) (reclaim cb b total_b media_bytes)
     (\<lambda>_ s. ready Env s \<and> calm s0 s) (\<lambda>_ _. False)"
proof -
  have flag: "triple (\<lambda>s. ready Env s \<and> calm s0 s) (eff_modify (\<lambda>s. s\<lparr>sp_cleanup_failed := True\<rparr>))
      (\<lambda>_ s. ready Env s \<and> calm s0 s) (\<lambda>_ _. False)"
    by (simp add: triple_def eff_modify_def)
  show ?thesis
    unfolding reclaim_def
    by (intro triple_bind [OF triple_get] triple_catch [OF _ flag] triple_bind [OF clock_triple]
        triple_bind [OF expired_triple] reclaim_loop_triple assms)
qed

lemma hard_stop_triple:
  "triple (\<lambda>s. ready Env s \<and> calm s0 s) (hard_stop cb)
     (\<lambda>_ s. ready Env s \<and> calm s0 s) (\<lambda>_ s. ready Env s \<and> calm s0 s)"
  by (rule tripleI) (meson hard_stop_effect calm_trans)+

lemma guard_metadata_triple:
  "triple (\<lambda>s. ready Env s \<and> calm s0 s) (guard_metadata cb b)
     (\<lambda>_ s. ready Env s \<and> calm s0 s) (\<lambda>_ s. ready Env s \<and> calm s0 s)"
proof -
  have check: "triple P policy_check (\<lambda>_. P) (\<lambda>_. P)" for P :: "'w storage_policy_scheme \<Rightarrow> bool"
    by (simp add: triple_def policy_check_def eff_guard_def)
  show ?thesis
    unfolding guard_metadata_def case_prod_unfold
    by (intro triple_bind [OF check] triple_bind [OF read_triple] triple_cond hard_stop_triple triple_return)
qed

lemma guard_metadata_ok:
  assumes "ready Env s" "guard_metadata cb b s = (Inr u, s')"
  shows "policy_of s' = policy_of s"
proof -
  obtain r1 s1 where 1: "policy_read cb b s = (r1, s1)" by (meson surj_pair)
  note l1 = read_effect [OF assms(1) 1]
  then show ?thesis
    using assms(2) 1
    by (cases r1) (auto simp: guard_metadata_def policy_check_def eff_guard_def eff_bind_def eff_return_def
        split: if_splits)
qed

text \<open>
  The last step of \<open>admit\<close>: a grant leaves exactly the reservation of the request and the state the last
  sample deserves; a refusal leaves no reservation.
\<close>

lemma admit_sampled_effect:
  assumes env: "ready Env s" and free: "\<not> sp_reservation s" "sp_reserved_media s = 0" "sp_reserved_total s = 0"
    and owner: "sp_thread s = sp_owner s"
    and run: "admit_sampled cb b media_bytes total_b critical s = (r, s')"
  shows "ready Env s' \<and> sp_limits s' = sp_limits s
    \<and> (r = Inr () \<longrightarrow> sp_thread s' = sp_owner s' \<and>
        granted_ok media_bytes total_b critical (sp_state s) (sampled s') (usage s' False False)
          (usage s' False True) s')
    \<and> (\<forall>e. r = Inl e \<longrightarrow> \<not> sp_reservation s' \<and> sp_reserved_media s' = 0 \<and> sp_reserved_total s' = 0)"
proof -
  obtain r1 s1 where 1: "policy_read cb b s = (r1, s1)" by (meson surj_pair)
  note l1 = read_effect [OF env 1]
  show ?thesis
  proof (cases r1)
    case (Inl e)
    then have "r = Inl e" "s' = s1" using run 1 by (simp_all add: admit_sampled_def eff_bind_def)
    then show ?thesis using l1 free by (auto simp: calm_def)
  next
    case (Inr x)
    obtain space used crit starred where x: "x = (space, used, crit, starred)" by (metis surj_pair)
    let ?s2 = "s1\<lparr>sp_reservation := True, sp_reserved_media := media_bytes, sp_reserved_total := total_b\<rparr>"
    obtain r3 s3 where 3: "state_for cb space used ?s2 = (r3, s3)" by (meson surj_pair)
    have env2: "ready Env ?s2" using readyD [OF conjunct1 [OF l1]] by simp
    note l3 = state_for_effect [OF env2 _ 3, simplified]
    have l1': "policy_of s1 = policy_of s" "space = sampled s1" "used = usage s1 False False"
      "crit = usage s1 False True"
      using l1 Inr x by simp_all
    have kept: "sp_limits s3 = sp_limits s" "sp_thread s3 = sp_owner s3" "sp_reservation s3"
      "sp_reserved_media s3 = media_bytes" "sp_reserved_total s3 = total_b"
      using l3 l1' owner by (simp_all add: calm_def policy_of_eq)
    have state3: "sp_state s3 = classified ?s2 (sampled s3) (usage s3 False False)"
      using l3 l1' by simp
    define refused where "refused \<longleftrightarrow> sp_state s3 = HARD_STOP \<or>
      sp_state s3 = PRESSURE \<and> pressure_refused critical media_bytes total_b used crit s3"
    have go: "admit_sampled cb b media_bytes total_b critical s =
        (if refused then (Inl (state_error (sp_state s3)),
             s3\<lparr>sp_reservation := False, sp_reserved_media := 0, sp_reserved_total := 0\<rparr>)
         else (Inr (), s3))"
      using 1 Inr x 3 l3 kept
      by (simp add: admit_sampled_def eff_bind_def reserve_def eff_modify_def eff_catch_def
          classify_reserved_def policy_release_def eff_raise_def refused_def state_error_def)
    show ?thesis
    proof (cases refused)
      case True
      then obtain e where "r = Inl e"
          "s' = s3\<lparr>sp_reservation := False, sp_reserved_media := 0, sp_reserved_total := 0\<rparr>"
        using go run by auto
      moreover have "Env s3" using l3 readyD by blast
      ultimately show ?thesis using kept(1) by simp
    next
      case False
      then have ok: "r = Inr ()" "s' = s3" using go run by simp_all
      have "granted_ok media_bytes total_b critical (sp_state ?s2) (sampled s3)
          (usage s3 False False) (usage s3 False True) s3"
        using classified_granted [OF state3] False kept l3 l1' unfolding refused_def
        by (simp add: policy_of_eq)
      then show ?thesis using ok l3 kept l1' by (simp add: policy_of_eq)
    qed
  qed
qed

lemma policy_admit_effect:
  assumes env: "ready Env s"
    and run: "policy_admit cb b media_bytes critical s = (r, s')"
  shows "ready Env s' \<and> sp_limits s' = sp_limits s
    \<and> (r = Inr () \<longrightarrow> \<not> sp_reservation s \<and> sp_thread s' = sp_owner s' \<and>
         granted_ok media_bytes (media_bytes + write_overhead_bytes (sp_limits s)) critical (sp_state s)
           (sampled s') (usage s' False False) (usage s' False True) s')
    \<and> (\<forall>e. r = Inl e \<longrightarrow> sp_reservation s' = sp_reservation s
         \<and> sp_reserved_media s' = sp_reserved_media s \<and> sp_reserved_total s' = sp_reserved_total s)"
proof (cases "sp_thread s = sp_owner s \<and> sp_bound s \<and> request_ok media_bytes s")
  case False
  then show ?thesis
    using run env by (auto simp: policy_admit_def eff_bind_def policy_check_def eff_guard_def split: if_splits)
next
  case True
  then have free: "\<not> sp_reservation s" "sp_reserved_media s = 0" "sp_reserved_total s = 0"
    using env by (auto simp: request_ok_def ready_def)
  let ?total = "media_bytes + write_overhead_bytes (sp_limits s)"
  obtain r1 s1 where 1: "guard_metadata cb b s = (r1, s1)" by (meson surj_pair)
  have l1: "ready Env s1 \<and> calm s s1"
    using triple_Inr [OF guard_metadata_triple [of s], of s] triple_Inl [OF guard_metadata_triple [of s], of s] 1 env
    by (cases r1) auto
  show ?thesis
  proof (cases r1)
    case (Inl e)
    then have "r = Inl e" "s' = s1"
      using run True 1
      by (simp_all add: policy_admit_def eff_bind_def policy_check_def eff_guard_def eff_get_def)
    then show ?thesis using l1 by (simp add: calm_def)
  next
    case (Inr u)
    let ?s2 = "s1\<lparr>sp_cleanup_failed := False\<rparr>"
    obtain r3 s3 where 3: "reclaim cb b ?total media_bytes ?s2 = (r3, s3)" by (meson surj_pair)
    have l3: "(\<exists>v. r3 = Inr v) \<and> ready Env s3 \<and> calm s s3"
      using triple_Inr [OF reclaim_triple [OF free(1)], of ?s2] triple_Inl [OF reclaim_triple [OF free(1)], of ?s2]
        3 l1
      by (cases r3) auto
    have "admit_sampled cb b media_bytes ?total critical s3 = (r, s')"
      using run True 1 Inr 3 l3
      by (auto simp: policy_admit_def eff_bind_def policy_check_def eff_guard_def eff_get_def eff_modify_def)
    moreover have "\<not> sp_reservation s3" "sp_reserved_media s3 = 0" "sp_reserved_total s3 = 0"
      "sp_thread s3 = sp_owner s3"
      using l3 free True by (simp_all add: calm_def)
    ultimately have a: "ready Env s' \<and> sp_limits s' = sp_limits s3
      \<and> (r = Inr () \<longrightarrow> sp_thread s' = sp_owner s' \<and> granted_ok media_bytes ?total critical (sp_state s3) (sampled s')
           (usage s' False False) (usage s' False True) s')
      \<and> (\<forall>e. r = Inl e \<longrightarrow> \<not> sp_reservation s' \<and> sp_reserved_media s' = 0 \<and> sp_reserved_total s' = 0)"
      using admit_sampled_effect l3 by blast
    have "sp_state s \<noteq> NORMAL \<Longrightarrow> sp_state s3 \<noteq> NORMAL" using l3 by (auto simp: calm_def)
    then show ?thesis
      using a free l3 by (auto simp: granted_ok_def calm_fields)
  qed
qed

text \<open>Without a reservation the audit of a state change may still latch the hard stop.\<close>

lemma state_for_unreserved:
  assumes "ready Env s" "state_for cb space used s = (r, s')"
  shows "r = Inr () \<and> ready Env s' \<and> usage s' = usage s
    \<and> calm (s\<lparr>sp_state := classified s space used\<rparr>) s' \<and> (classified s space used = sp_state s \<longrightarrow> s' = s)"
proof -
  have run: "transition cb (classified s space used) s = (r, s')"
    using assms(2) by (auto simp: state_for_def classified_def transition_def split: if_splits)
  show ?thesis
    using transition_effect [OF assms(1) run] run by (auto simp: transition_def)
qed

lemma admit_external_effect:
  assumes env: "ready Env s"
    and run: "admit_external cb b media_bytes s = (r, s')"
  shows "ready Env s' \<and> sp_limits s' = sp_limits s
    \<and> (r = Inr () \<longrightarrow> \<not> sp_reservation s \<and> sp_state s' = NORMAL \<and> sp_reservation s'
         \<and> sp_reserved_media s' = media_bytes
         \<and> sp_reserved_total s' = media_bytes + write_overhead_bytes (sp_limits s)
         \<and> (sp_state s = NORMAL \<longrightarrow>
              available_bytes (sampled s') - sp_reserved_total s' \<ge> pressure_free_bytes (sp_limits s)
              \<and> usage s' False False + media_bytes < recording_limit_bytes (sp_limits s)))
    \<and> (\<forall>e. r = Inl e \<longrightarrow> sp_reservation s' = sp_reservation s
         \<and> sp_reserved_media s' = sp_reserved_media s \<and> sp_reserved_total s' = sp_reserved_total s)"
proof (cases "sp_thread s = sp_owner s \<and> sp_bound s \<and> request_ok media_bytes s")
  case False
  then show ?thesis
    using run env by (auto simp: admit_external_def eff_bind_def policy_check_def eff_guard_def split: if_splits)
next
  case True
  then have free: "\<not> sp_reservation s" "sp_reserved_media s = 0" "sp_reserved_total s = 0"
    using env by (auto simp: request_ok_def ready_def)
  let ?total = "media_bytes + write_overhead_bytes (sp_limits s)"
  obtain r1 s1 where 1: "guard_metadata cb b s = (r1, s1)" by (meson surj_pair)
  have l1: "ready Env s1 \<and> calm s s1"
    using triple_Inr [OF guard_metadata_triple [of s], of s] triple_Inl [OF guard_metadata_triple [of s], of s] 1 env
    by (cases r1) auto
  obtain r2 s2 where 2: "policy_read cb b s1 = (r2, s2)" by (meson surj_pair)
  note l2 = read_effect [OF conjunct1 [OF l1] 2]
  have c2: "calm s s2" using l1 l2 calm_trans by blast
  note start = policy_check_def eff_guard_def eff_get_def eff_bind_def
  consider (guard) e where "r1 = Inl e" | (read) u e where "r1 = Inr u" "r2 = Inl e"
    | (both) u space used crit starred where "r1 = Inr u" "r2 = Inr (space, used, crit, starred)"
    by (metis old.sum.exhaust surj_pair)
  then show ?thesis
  proof cases
    case guard
    then have "r = Inl e" "s' = s1" using run True 1 by (simp_all add: admit_external_def start)
    then show ?thesis using l1 by (simp add: calm_def)
  next
    case read
    then have "r = Inl e" "s' = s2" using run True 1 2 by (simp_all add: admit_external_def start)
    then show ?thesis using l2 c2 by (simp add: calm_def)
  next
    case both
    obtain r3 s3 where 3: "state_for cb space used s2 = (r3, s3)" by (meson surj_pair)
    note l3 = state_for_unreserved [OF conjunct1 [OF l2] 3]
    have fields3: "sp_limits s3 = sp_limits s" "sp_reservation s3 = sp_reservation s"
        "sp_reserved_media s3 = 0" "sp_reserved_total s3 = 0"
      using l3 c2 free by (simp_all add: calm_def)
    have out: "(r, s') = (if sp_state s3 \<noteq> NORMAL then (Inl (state_error (sp_state s3)), s3)
       else if \<not> within_limits s3 space used ?total media_bytes False then (Inl STORAGE_PRESSURE, s3)
       else reserve media_bytes ?total s3)"
      using run True 1 2 3 both l3 by (simp add: admit_external_def start)
    have exact: "space = sampled s3 \<and> used = usage s3 False False"
      if "sp_state s3 = NORMAL" "sp_state s = NORMAL"
    proof -
      have "sp_state s2 = NORMAL"
        using guard_metadata_ok [OF env] 1 l2 both that(2) by (auto simp: policy_of_eq)
      moreover have "classified s2 space used = NORMAL" using l3 that(1) by (auto simp: calm_def)
      ultimately have "s3 = s2" using l3 by simp
      then show ?thesis using l2 both by simp
    qed
    show ?thesis
    proof (cases "sp_state s3 = NORMAL \<and> within_limits s3 space used ?total media_bytes False")
      case False
      then obtain e where "r = Inl e" "s' = s3" using out by (auto split: if_splits)
      then show ?thesis using l3 fields3 free by simp
    next
      case True
      then have "r = Inr ()" and s': "s' = s3\<lparr>sp_reservation := True, sp_reserved_media := media_bytes,
          sp_reserved_total := ?total\<rparr>"
        using out by (simp_all add: reserve_def eff_modify_def)
      moreover have "available_bytes (sampled s3) - ?total \<ge> pressure_free_bytes (sp_limits s)
          \<and> usage s3 False False + media_bytes < recording_limit_bytes (sp_limits s)"
        if "sp_state s = NORMAL"
      proof -
        have "sampled s3 = space" "usage s3 False False = used" using exact True that by blast+
        then show ?thesis using True fields3 by (simp add: within_limits_def)
      qed
      moreover have "Env s3" using l3 readyD by blast
      ultimately show ?thesis using True fields3(1) free(1) by simp
    qed
  qed
qed

end

end
