(* ===== verification/Recording_Model.thy ===== *)
theory Recording_Model
  imports Storage_Policy "HOL-Library.Word" "HOL-Library.Product_Lexorder"
begin

text \<open>
  The data of the recording store: segments and limits of \<^verbatim>\<open>server/app/media/recording/model.py\<close>, the SQLite
  tables of \<^verbatim>\<open>server/app/media/recording/schema.py\<close>, and the worker state \<open>recorder\<close>, which extends the
  storage policy by the fields of \<open>RecordingStore\<close> (\<^verbatim>\<open>server/app/media/recording/store.py\<close>), the files
  below the recording root and the outcomes of the system calls.

  A table is the list of its rows in insertion order, a UUID key is a number (the text form of a UUID has
  fixed width, so the order of the texts is the order of the numbers). \<open>rs_saved\<close> is the committed content
  of the database while a transaction is open. Every system call and every SQL statement consumes one
  position of the script: \<open>io_ok\<close> says whether it succeeds, \<open>io_space\<close> what the filesystem sample and
  \<open>io_clock\<close> what the clock shows there, so a theorem about all scripts covers a failure at any point.
\<close>

type_synonym bytes = "8 word list"

record rec_limits =
  pre_roll_bytes :: int
  max_segment_bytes :: int
  max_segment_ms :: int
  max_active_recordings :: int
  max_spool_segments :: int
  max_segments_per_recording :: int
  pre_roll_ms :: int
  max_sources :: int

definition MAX_LIMIT_DURATION_MS :: int where "MAX_LIMIT_DURATION_MS = 1200000"

definition rec_limits_ok :: "rec_limits \<Rightarrow> bool" where
  "rec_limits_ok l \<longleftrightarrow>
     list_all (\<lambda>v. \<not> v \<le> 0)
       [pre_roll_bytes l, max_segment_bytes l, max_segment_ms l, max_active_recordings l,
        max_spool_segments l, max_segments_per_recording l, pre_roll_ms l, max_sources l]
     \<and> \<not> pre_roll_ms l > MAX_LIMIT_DURATION_MS \<and> \<not> max_segment_ms l > MAX_LIMIT_DURATION_MS"

record segment =
  g_source_id :: uuid
  g_stream_id :: uuid
  g_sequence :: int
  g_start_ms :: int
  g_end_ms :: int
  g_codec :: string
  g_container :: string
  g_data :: bytes
  g_capture_node_id :: "uuid option"

text \<open>\<^verbatim>\<open>re.fullmatch(r"[a-z0-9][a-z0-9_.-]{0,31}", value)\<close>.\<close>

definition label_head :: "char \<Rightarrow> bool" where
  "label_head c \<longleftrightarrow>
     (let n = (of_char c :: nat) in 97 \<le> n \<and> n \<le> 122 \<or> 48 \<le> n \<and> n \<le> 57)"

definition label_ok :: "string \<Rightarrow> bool" where
  "label_ok v \<longleftrightarrow>
     (case v of
        [] \<Rightarrow> False
      | c # cs \<Rightarrow> label_head c \<and> length cs \<le> 31 \<and> list_all (\<lambda>x. label_head x \<or> List.member ''_.-'' x) cs)"

definition segment_valid :: "rec_limits \<Rightarrow> segment \<Rightarrow> bool" where
  "segment_valid l g \<longleftrightarrow>
     0 \<le> g_sequence g \<and> g_sequence g < 2 ^ 63
     \<and> \<not> g_start_ms g < 0 \<and> \<not> g_end_ms g \<ge> 2 ^ 63
     \<and> 0 < g_end_ms g - g_start_ms g \<and> g_end_ms g - g_start_ms g \<le> max_segment_ms l
     \<and> 0 < int (length (g_data g)) \<and> int (length (g_data g)) \<le> max_segment_bytes l
     \<and> label_ok (g_codec g) \<and> label_ok (g_container g)"

section \<open>Tables\<close>

datatype seg_state = Seg_Pending | Seg_Ready

datatype integrity = Int_Unchecked | Int_Verified | Int_Corrupt | Int_Missing | Int_Unreadable

datatype rec_status = Rec_Active | Rec_Complete | Rec_Gapped | Rec_Interrupted | Rec_Deleting

record cursor_row =
  cu_source_id :: uuid
  cu_stream_id :: uuid
  cu_sequence :: int
  cu_end_ms :: int
  cu_capture_node_id :: "uuid option"
  cu_active :: bool

record seg_row =
  sg_id :: uuid
  sg_source_id :: uuid
  sg_capture_node_id :: "uuid option"
  sg_stream_id :: uuid
  sg_sequence :: int
  sg_start_ms :: int
  sg_end_ms :: int
  sg_codec :: string
  sg_container :: string
  sg_byte_length :: int
  sg_sha256 :: string
  sg_state :: seg_state
  sg_spool :: bool
  sg_critical :: bool
  sg_integrity :: integrity

record rec_row =
  rc_id :: uuid
  rc_source_id :: uuid
  rc_event_id :: "uuid option"
  rc_start_ms :: int
  rc_target_end_ms :: int
  rc_ended_ms :: "int option"
  rc_status :: rec_status
  rc_critical :: bool
  rc_starred :: bool

record disc_row =
  dc_owner :: uuid
  dc_start_ms :: int
  dc_end_ms :: int
  dc_reason :: string

record rec_db =
  db_cursors :: "cursor_row list"
  db_segments :: "seg_row list"
  db_recordings :: "rec_row list"
  db_links :: "(uuid \<times> uuid) list"
  db_discontinuities :: "disc_row list"
  db_source_discontinuities :: "disc_row list"
  db_storage_audit :: "storage_transition list"

definition empty_db :: rec_db where
  "empty_db = \<lparr>db_cursors = [], db_segments = [], db_recordings = [], db_links = [],
     db_discontinuities = [], db_source_discontinuities = [], db_storage_audit = []\<rparr>"

text \<open>A file below the root: \<open>fl_plain\<close> when it is a regular file with one link.\<close>

record stored_file =
  fl_plain :: bool
  fl_data :: bytes

section \<open>The worker\<close>

record recorder = storage_policy +
  rs_owner :: nat
  rs_limits :: rec_limits
  rs_open :: bool
  rs_failed :: bool
  rs_reservation_active :: bool
  rs_db :: rec_db
  rs_saved :: "rec_db option"
  rs_seg_files :: "uuid \<Rightarrow> stored_file option"
  rs_part_files :: "uuid \<Rightarrow> stored_file option"
  rs_sampled :: filesystem_space
  io_count :: nat
  io_ok :: "nat \<Rightarrow> bool"
  io_space :: "nat \<Rightarrow> filesystem_space"
  io_clock :: "nat \<Rightarrow> int"

type_synonym 'a rec_eff = "(recorder, recording_error, 'a) eff"
type_synonym rec_callbacks = "recorder storage_callbacks"
type_synonym rec_binding = "recorder storage_binding"

abbreviation in_transaction :: "recorder \<Rightarrow> bool" where
  "in_transaction s \<equiv> rs_saved s \<noteq> None"

text \<open>What survives a crash.\<close>

definition durable :: "recorder \<Rightarrow> rec_db" where
  "durable s = (case rs_saved s of None \<Rightarrow> rs_db s | Some d \<Rightarrow> d)"

text \<open>One system call or SQL statement, which raises the given error when the script says so.\<close>

definition io :: "recording_error \<Rightarrow> unit rec_eff" where
  "io e s =
     (if io_ok s (io_count s) then (Inr (), s\<lparr>io_count := Suc (io_count s)\<rparr>)
      else (Inl e, s\<lparr>io_count := Suc (io_count s)\<rparr>))"

definition sql_query :: "(rec_db \<Rightarrow> 'a) \<Rightarrow> 'a rec_eff" where
  "sql_query f = eff_then (io Recording_DatabaseError) (eff_get (\<lambda>s. f (rs_db s)))"

text \<open>A statement with the integrity constraint it must satisfy.\<close>

definition sql_exec :: "(rec_db \<Rightarrow> bool) \<Rightarrow> (rec_db \<Rightarrow> rec_db) \<Rightarrow> unit rec_eff" where
  "sql_exec c f =
     eff_then (io Recording_DatabaseError) (
     eff_then (eff_guard (\<lambda>s. c (rs_db s)) Recording_DatabaseError) (
     eff_modify (\<lambda>s. s\<lparr>rs_db := f (rs_db s)\<rparr>)))"

abbreviation sql_always :: "(rec_db \<Rightarrow> rec_db) \<Rightarrow> unit rec_eff" where
  "sql_always f \<equiv> sql_exec (\<lambda>_. True) f"

section \<open>Statements\<close>

definition update_segments :: "(seg_row \<Rightarrow> bool) \<Rightarrow> (seg_row \<Rightarrow> seg_row) \<Rightarrow> rec_db \<Rightarrow> rec_db" where
  "update_segments c f d = d\<lparr>db_segments := map (\<lambda>g. if c g then f g else g) (db_segments d)\<rparr>"

definition update_recordings :: "(rec_row \<Rightarrow> bool) \<Rightarrow> (rec_row \<Rightarrow> rec_row) \<Rightarrow> rec_db \<Rightarrow> rec_db" where
  "update_recordings c f d = d\<lparr>db_recordings := map (\<lambda>r. if c r then f r else r) (db_recordings d)\<rparr>"

text \<open>\<open>PRIMARY KEY\<close> and \<open>UNIQUE(source_id, stream_id, sequence)\<close>.\<close>

definition segment_insertable :: "seg_row \<Rightarrow> rec_db \<Rightarrow> bool" where
  "segment_insertable g d \<longleftrightarrow>
     list_all (\<lambda>h. sg_id h \<noteq> sg_id g \<and>
       (sg_source_id h, sg_stream_id h, sg_sequence h) \<noteq> (sg_source_id g, sg_stream_id g, sg_sequence g))
       (db_segments d)"

text \<open>Foreign keys: a referenced row cannot be deleted and a reference needs its row.\<close>

definition segments_deletable :: "(seg_row \<Rightarrow> bool) \<Rightarrow> rec_db \<Rightarrow> bool" where
  "segments_deletable c d \<longleftrightarrow>
     list_all (\<lambda>g. c g \<longrightarrow> list_all (\<lambda>l. snd l \<noteq> sg_id g) (db_links d)) (db_segments d)"

definition delete_segments :: "(seg_row \<Rightarrow> bool) \<Rightarrow> rec_db \<Rightarrow> rec_db" where
  "delete_segments c d = d\<lparr>db_segments := filter (\<lambda>g. \<not> c g) (db_segments d)\<rparr>"

definition recordings_deletable :: "(rec_row \<Rightarrow> bool) \<Rightarrow> rec_db \<Rightarrow> bool" where
  "recordings_deletable c d \<longleftrightarrow>
     list_all (\<lambda>r. c r \<longrightarrow> list_all (\<lambda>l. fst l \<noteq> rc_id r) (db_links d)
                        \<and> list_all (\<lambda>x. dc_owner x \<noteq> rc_id r) (db_discontinuities d)) (db_recordings d)"

definition delete_recordings :: "(rec_row \<Rightarrow> bool) \<Rightarrow> rec_db \<Rightarrow> rec_db" where
  "delete_recordings c d = d\<lparr>db_recordings := filter (\<lambda>r. \<not> c r) (db_recordings d)\<rparr>"

definition link_insertable :: "uuid \<Rightarrow> uuid \<Rightarrow> rec_db \<Rightarrow> bool" where
  "link_insertable rid gid d \<longleftrightarrow>
     \<not> List.member (db_links d) (rid, gid)
     \<and> list_ex (\<lambda>r. rc_id r = rid) (db_recordings d) \<and> list_ex (\<lambda>g. sg_id g = gid) (db_segments d)"

definition delete_links :: "(uuid \<times> uuid \<Rightarrow> bool) \<Rightarrow> rec_db \<Rightarrow> rec_db" where
  "delete_links c d = d\<lparr>db_links := filter (\<lambda>l. \<not> c l) (db_links d)\<rparr>"

definition delete_discontinuities :: "(disc_row \<Rightarrow> bool) \<Rightarrow> rec_db \<Rightarrow> rec_db" where
  "delete_discontinuities c d =
     d\<lparr>db_discontinuities := filter (\<lambda>x. \<not> c x) (db_discontinuities d)\<rparr>"

definition delete_source_discontinuities :: "(disc_row \<Rightarrow> bool) \<Rightarrow> rec_db \<Rightarrow> rec_db" where
  "delete_source_discontinuities c d =
     d\<lparr>db_source_discontinuities := filter (\<lambda>x. \<not> c x) (db_source_discontinuities d)\<rparr>"

definition linked :: "rec_db \<Rightarrow> uuid \<Rightarrow> bool" where
  "linked d gid \<longleftrightarrow> list_ex (\<lambda>l. snd l = gid) (db_links d)"

text \<open>\<open>MAX(end_ms)\<close> of a source's segments: NULL without one.\<close>

definition latest_end :: "rec_db \<Rightarrow> uuid \<Rightarrow> int option" where
  "latest_end d source_id =
     (case map sg_end_ms (filter (\<lambda>g. sg_source_id g = source_id) (db_segments d)) of
        [] \<Rightarrow> None
      | e # es \<Rightarrow> Some (foldl max e es))"

definition linked_segments :: "rec_db \<Rightarrow> uuid \<Rightarrow> seg_row list" where
  "linked_segments d rid = filter (\<lambda>g. List.member (db_links d) (rid, sg_id g)) (db_segments d)"

end
