(* ===== verification/Recording_Store.thy ===== *)
theory Recording_Store
  imports Recording_Model
begin

text \<open>
  The single-writer segment spool and its recordings: \<open>RecordingStore\<close> of
  \<^verbatim>\<open>server/app/media/recording/store.py\<close>, and the retention service that deletes through it
  (\<^verbatim>\<open>server/app/storage/retention.py\<close>).

  The policy calls the store back, so its callbacks \<open>cb\<close> and its binding \<open>b\<close> are arguments. A \<open>with\<close>
  statement is a function of its body. Random identifiers, the codec validator and SHA-256 are arguments.
  Path checks, the checkout test and the durability pragmas of the constructor are not modelled; opening
  and locking the root is one system call. The loop that writes the whole buffer is one call as well.
\<close>

section \<open>Guards, reservations and transactions\<close>

definition verify_root :: "unit rec_eff" where
  "verify_root = io RECORDING_ROOT_UNAVAILABLE"

definition store_check :: "bool \<Rightarrow> unit rec_eff" where
  "store_check allow_failed =
     eff_then (eff_guard (\<lambda>s. rs_open s \<and> (\<not> rs_failed s \<or> allow_failed) \<and> sp_thread s = rs_owner s)
                 RECORDING_WRITER_UNAVAILABLE)
       verify_root"

definition release_reservation :: "unit rec_eff" where
  "release_reservation s =
     (case policy_release (s\<lparr>rs_reservation_active := False\<rparr>) of
        (Inr _, s1) \<Rightarrow> (Inr (), s1)
      | (Inl e, s1) \<Rightarrow> (Inl e, s1\<lparr>rs_failed := True\<rparr>))"

definition control_reservation :: "rec_callbacks \<Rightarrow> 'a rec_eff \<Rightarrow> 'a rec_eff" where
  "control_reservation cb body s =
     (if \<not> rs_reservation_active s
      then eff_then (admit_control cb) (
           eff_then (eff_modify (\<lambda>s. s\<lparr>rs_reservation_active := True\<rparr>)) (
           eff_finally body release_reservation)) s
      else body s)"

definition control_operation :: "rec_callbacks \<Rightarrow> 'a rec_eff \<Rightarrow> 'a rec_eff" where
  "control_operation cb method = eff_then (store_check False) (control_reservation cb method)"

definition begin_immediate :: "unit rec_eff" where
  "begin_immediate =
     eff_then (io Recording_DatabaseError) (eff_modify (\<lambda>s. s\<lparr>rs_saved := Some (rs_db s)\<rparr>))"

definition commit :: "unit rec_eff" where
  "commit = eff_then (io Recording_DatabaseError) (eff_modify (\<lambda>s. s\<lparr>rs_saved := None\<rparr>))"

definition rollback :: "unit rec_eff" where
  "rollback s =
     (case rs_saved s of
        None \<Rightarrow> (Inr (), s)
      | Some d \<Rightarrow> eff_then (io Recording_DatabaseError)
                    (eff_modify (\<lambda>s. s\<lparr>rs_db := d, rs_saved := None\<rparr>)) s)"

definition transaction :: "rec_callbacks \<Rightarrow> 'a rec_eff \<Rightarrow> 'a rec_eff" where
  "transaction cb body =
     eff_then (eff_guard (\<lambda>s. \<not> in_transaction s) RECORDING_DATABASE_BUSY) (
     control_reservation cb (
       eff_catch
         (eff_then begin_immediate (eff_bind body (\<lambda>x. eff_then commit (eff_return x))))
         (\<lambda>e. eff_then rollback (eff_raise e))))"

section \<open>Files\<close>

definition unlink_seg :: "uuid \<Rightarrow> unit rec_eff" where
  "unlink_seg gid =
     eff_then verify_root (
     eff_then (io Recording_OSError) (
     eff_modify (\<lambda>s. s\<lparr>rs_seg_files := (rs_seg_files s)(gid := None)\<rparr>)))"

definition unlink_part :: "uuid \<Rightarrow> unit rec_eff" where
  "unlink_part gid =
     eff_then verify_root (
     eff_then (io Recording_OSError) (
     eff_modify (\<lambda>s. s\<lparr>rs_part_files := (rs_part_files s)(gid := None)\<rparr>)))"

definition write_segment :: "uuid \<Rightarrow> bytes \<Rightarrow> unit rec_eff" where
  "write_segment gid data =
     eff_then verify_root (
     eff_then (io Recording_OSError) (
     eff_then (eff_guard (\<lambda>s. rs_part_files s gid = None) Recording_OSError) (
     eff_then (eff_modify (\<lambda>s. s\<lparr>rs_part_files := (rs_part_files s)(gid \<mapsto> \<lparr>fl_plain = True, fl_data = []\<rparr>)\<rparr>)) (
     eff_then (io Recording_OSError) (
     eff_then (eff_modify (\<lambda>s. s\<lparr>rs_part_files := (rs_part_files s)(gid \<mapsto> \<lparr>fl_plain = True, fl_data = data\<rparr>)\<rparr>)) (
     eff_then verify_root (
     eff_then (io Recording_OSError) (
     eff_then (eff_guard (\<lambda>s. rs_seg_files s gid = None) Recording_OSError) (
     eff_then (eff_modify (\<lambda>s. s\<lparr>rs_seg_files := (rs_seg_files s)(gid \<mapsto> \<lparr>fl_plain = True, fl_data = data\<rparr>)\<rparr>)) (
     eff_then (io Recording_OSError) (
     eff_then (eff_modify (\<lambda>s. s\<lparr>rs_part_files := (rs_part_files s)(gid := None)\<rparr>)) (
     io Recording_OSError))))))))))))"

section \<open>Spool trimming\<close>

definition spool_expired :: "rec_limits \<Rightarrow> rec_db \<Rightarrow> seg_row \<Rightarrow> bool" where
  "spool_expired l d g \<longleftrightarrow>
     sg_spool g \<and>
     (case latest_end d (sg_source_id g) of None \<Rightarrow> False | Some e \<Rightarrow> sg_end_ms g \<le> e - pre_roll_ms l)"

definition spool_rows :: "rec_db \<Rightarrow> seg_row list" where
  "spool_rows d = sort_key (\<lambda>g. (sg_end_ms g, sg_id g)) (filter sg_spool (db_segments d))"

fun evict_loop :: "rec_limits \<Rightarrow> seg_row list \<Rightarrow> int \<Rightarrow> int \<Rightarrow> unit rec_eff" where
  "evict_loop l [] total_b remaining = eff_return ()"
| "evict_loop l (g # gs) total_b remaining =
     (if total_b \<le> pre_roll_bytes l \<and> remaining \<le> max_spool_segments l then eff_return ()
      else eff_then (sql_always (update_segments (\<lambda>h. sg_id h = sg_id g) (\<lambda>h. h\<lparr>sg_spool := False\<rparr>)))
             (evict_loop l gs (total_b - sg_byte_length g) (remaining - 1)))"

definition trim_spool :: "rec_limits \<Rightarrow> unit rec_eff" where
  "trim_spool l =
     eff_then (sql_always (\<lambda>d. update_segments (spool_expired l d) (\<lambda>g. g\<lparr>sg_spool := False\<rparr>) d)) (
     eff_bind (sql_query spool_rows) (\<lambda>rows.
     eff_then (evict_loop l rows (sum_list (map sg_byte_length rows)) (int (length rows))) (
     sql_always (\<lambda>d. delete_source_discontinuities
       (\<lambda>x. case latest_end d (dc_owner x) of None \<Rightarrow> False | Some e \<Rightarrow> dc_end_ms x \<le> e - pre_roll_ms l) d))))"

definition unused_segments :: "rec_db \<Rightarrow> uuid list" where
  "unused_segments d =
     map sg_id (filter (\<lambda>g. \<not> sg_spool g \<and> sg_state g = Seg_Ready \<and> \<not> linked d (sg_id g)) (db_segments d))"

definition drop_segment :: "rec_callbacks \<Rightarrow> uuid \<Rightarrow> unit rec_eff" where
  "drop_segment cb gid =
     eff_then (unlink_seg gid) (
     eff_then (io Recording_OSError) (
     transaction cb (sql_exec (segments_deletable (\<lambda>g. sg_id g = gid)) (delete_segments (\<lambda>g. sg_id g = gid)))))"

definition trim :: "rec_callbacks \<Rightarrow> unit rec_eff" where
  "trim cb =
     control_operation cb (
     eff_then verify_root (
     eff_bind (eff_get rs_limits) (\<lambda>l.
     eff_then (transaction cb (trim_spool l)) (
     eff_bind (sql_query unused_segments) (\<lambda>unused.
     eff_for unused (drop_segment cb))))))"

text \<open>\<open>try: self._trim() except BaseException: self._failed = True; raise\<close>.\<close>

definition or_fail :: "'a rec_eff \<Rightarrow> 'a rec_eff" where
  "or_fail m = eff_catch m (\<lambda>e. eff_then (eff_modify (\<lambda>s. s\<lparr>rs_failed := True\<rparr>)) (eff_raise e))"

section \<open>Recovery and opening\<close>

definition interrupted :: "rec_db \<Rightarrow> rec_row \<Rightarrow> rec_row" where
  "interrupted d r =
     (let last = (case map sg_end_ms (linked_segments d (rc_id r)) of
                    [] \<Rightarrow> rc_start_ms r
                  | e # es \<Rightarrow> foldl max e es)
      in r\<lparr>rc_status := Rec_Interrupted, rc_ended_ms := Some (min (rc_target_end_ms r) last)\<rparr>)"

definition recover :: "rec_callbacks \<Rightarrow> unit rec_eff" where
  "recover cb =
     control_operation cb (
     eff_bind (sql_query (\<lambda>d. map sg_id (filter (\<lambda>g. sg_state g = Seg_Pending) (db_segments d)))) (\<lambda>pending.
     eff_then (eff_for pending (\<lambda>gid. eff_then (unlink_part gid) (unlink_seg gid))) (
     eff_then (io Recording_OSError) (
     eff_then (transaction cb (
       eff_then (sql_exec (segments_deletable (\<lambda>g. sg_state g = Seg_Pending))
                   (delete_segments (\<lambda>g. sg_state g = Seg_Pending)))
         (sql_always (\<lambda>d. update_recordings (\<lambda>r. rc_status r = Rec_Active) (interrupted d) d)))) (
     eff_then (trim cb) (
     eff_bind (sql_query (\<lambda>d. list_ex (\<lambda>r. rc_status r = Rec_Deleting
                                      \<and> list_ex (\<lambda>l. fst l = rc_id r) (db_links d)) (db_recordings d))) (\<lambda>broken.
     eff_then (eff_guard (\<lambda>_. \<not> broken) RECORDING_RECOVERY_REQUIRED) (
     transaction cb (sql_exec (recordings_deletable (\<lambda>r. rc_status r = Rec_Deleting))
                       (delete_recordings (\<lambda>r. rc_status r = Rec_Deleting)))))))))))"

definition store_close :: "unit rec_eff" where
  "store_close = eff_modify (\<lambda>s. s\<lparr>rs_open := False\<rparr>)"

definition open_error :: "recording_error \<Rightarrow> recording_error" where
  "open_error e =
     (if e = Recording_OSError \<or> e = Recording_DatabaseError then RECORDING_STORAGE_UNAVAILABLE else e)"

definition store_open :: "rec_callbacks \<Rightarrow> unit rec_eff" where
  "store_open cb =
     eff_then (eff_modify (\<lambda>s. s\<lparr>rs_owner := sp_thread s, rs_open := False, rs_failed := False,
                                rs_reservation_active := False\<rparr>)) (
     eff_catch
       (eff_then (io Recording_OSError) (
        eff_then (eff_modify (\<lambda>s. s\<lparr>rs_open := True\<rparr>)) (
        eff_then verify_root (
        eff_then (io RECORDING_WRITER_BUSY) (
        eff_then (eff_guard (\<lambda>s. \<not> in_transaction s) RECORDING_DATABASE_BUSY) (
        recover cb))))))
       (\<lambda>e. eff_then store_close (eff_raise (open_error e))))"

section \<open>Appending\<close>

definition overlapping_active :: "segment \<Rightarrow> rec_db \<Rightarrow> rec_row list" where
  "overlapping_active g d =
     filter (\<lambda>r. rc_source_id r = g_source_id g \<and> rc_status r = Rec_Active
                 \<and> rc_start_ms r < g_end_ms g \<and> rc_target_end_ms r > g_start_ms g) (db_recordings d)"

definition find_cursor :: "uuid \<Rightarrow> rec_db \<Rightarrow> cursor_row option" where
  "find_cursor source_id d = List.find (\<lambda>c. cu_source_id c = source_id) (db_cursors d)"

definition regression :: "segment \<Rightarrow> cursor_row option \<Rightarrow> bool" where
  "regression g prior \<longleftrightarrow>
     (case prior of
        None \<Rightarrow> False
      | Some c \<Rightarrow> g_start_ms g < cu_end_ms c
                 \<or> g_stream_id g = cu_stream_id c \<and> g_sequence g \<le> cu_sequence c)"

definition check_segment_limit :: "rec_row \<Rightarrow> unit rec_eff" where
  "check_segment_limit r =
     eff_bind (sql_query (\<lambda>d. length (filter (\<lambda>l. fst l = rc_id r) (db_links d)))) (\<lambda>n.
     eff_guard (\<lambda>s. \<not> int n \<ge> max_segments_per_recording (rs_limits s)) RECORDING_SEGMENT_LIMIT)"

definition append_checks :: "(segment \<Rightarrow> recording_error option) \<Rightarrow> segment
    \<Rightarrow> (cursor_row option \<times> rec_row list) rec_eff" where
  "append_checks validator g =
     eff_then (store_check False) (
     eff_then (eff_guard (\<lambda>s. segment_valid (rs_limits s) g) Recording_ValueError) (
     eff_then (case validator g of None \<Rightarrow> eff_return () | Some e \<Rightarrow> eff_raise e) (
     eff_bind (sql_query (\<lambda>d. list_ex (\<lambda>h. sg_state h = Seg_Pending) (db_segments d))) (\<lambda>pending.
     eff_then (eff_guard (\<lambda>_. \<not> pending) RECORDING_RECOVERY_REQUIRED) (
     eff_bind (sql_query (\<lambda>d. length (filter cu_active (db_cursors d)))) (\<lambda>source_count.
     eff_bind (sql_query (\<lambda>d. list_ex (\<lambda>c. cu_source_id c = g_source_id g \<and> cu_active c) (db_cursors d))) (\<lambda>known.
     eff_then (eff_guard (\<lambda>s. known \<or> \<not> int source_count \<ge> max_sources (rs_limits s)) RECORDING_SOURCE_LIMIT) (
     eff_bind (sql_query (find_cursor (g_source_id g))) (\<lambda>prior.
     eff_then (eff_guard (\<lambda>_. \<not> regression g prior) RECORDING_TIMELINE_REGRESSION) (
     eff_bind (sql_query (overlapping_active g)) (\<lambda>active.
     eff_then (eff_for active check_segment_limit) (
     eff_return (prior, active)))))))))))))"

definition segment_row :: "(bytes \<Rightarrow> string) \<Rightarrow> uuid \<Rightarrow> segment \<Rightarrow> bool \<Rightarrow> seg_row" where
  "segment_row sha256 gid g critical =
     \<lparr>sg_id = gid, sg_source_id = g_source_id g, sg_capture_node_id = g_capture_node_id g,
      sg_stream_id = g_stream_id g, sg_sequence = g_sequence g, sg_start_ms = g_start_ms g,
      sg_end_ms = g_end_ms g, sg_codec = g_codec g, sg_container = g_container g,
      sg_byte_length = int (length (g_data g)), sg_sha256 = sha256 (g_data g), sg_state = Seg_Pending,
      sg_spool = False, sg_critical = critical, sg_integrity = Int_Unchecked\<rparr>"

definition insert_segment :: "seg_row \<Rightarrow> unit rec_eff" where
  "insert_segment row =
     sql_exec (segment_insertable row) (\<lambda>d. d\<lparr>db_segments := db_segments d @ [row]\<rparr>)"

definition upsert_cursor :: "segment \<Rightarrow> rec_db \<Rightarrow> rec_db" where
  "upsert_cursor g d =
     (let row = \<lparr>cu_source_id = g_source_id g, cu_stream_id = g_stream_id g, cu_sequence = g_sequence g,
                 cu_end_ms = g_end_ms g, cu_capture_node_id = g_capture_node_id g, cu_active = True\<rparr>
      in if list_ex (\<lambda>c. cu_source_id c = g_source_id g) (db_cursors d)
         then d\<lparr>db_cursors := map (\<lambda>c. if cu_source_id c = g_source_id g then row else c) (db_cursors d)\<rparr>
         else d\<lparr>db_cursors := db_cursors d @ [row]\<rparr>)"

definition stream_break :: "segment \<Rightarrow> cursor_row option \<Rightarrow> (int \<times> int) option" where
  "stream_break g prior =
     (case prior of
        None \<Rightarrow> None
      | Some c \<Rightarrow> if g_stream_id g \<noteq> cu_stream_id c \<or> g_sequence g \<noteq> cu_sequence c + 1
                 then Some (cu_end_ms c, g_start_ms g) else None)"

definition disc :: "uuid \<Rightarrow> int \<times> int \<Rightarrow> disc_row" where
  "disc key window =
     \<lparr>dc_owner = key, dc_start_ms = fst window, dc_end_ms = snd window, dc_reason = ''stream_discontinuity''\<rparr>"

definition insert_link :: "uuid \<Rightarrow> uuid \<Rightarrow> unit rec_eff" where
  "insert_link rid gid =
     sql_exec (link_insertable rid gid) (\<lambda>d. d\<lparr>db_links := db_links d @ [(rid, gid)]\<rparr>)"

definition insert_discontinuity :: "disc_row \<Rightarrow> unit rec_eff" where
  "insert_discontinuity x =
     sql_exec (\<lambda>d. list_ex (\<lambda>r. rc_id r = dc_owner x) (db_recordings d))
       (\<lambda>d. d\<lparr>db_discontinuities := db_discontinuities d @ [x]\<rparr>)"

definition publish_link :: "uuid \<Rightarrow> (int \<times> int) option \<Rightarrow> rec_row \<Rightarrow> unit rec_eff" where
  "publish_link gid gap r =
     eff_then (insert_link (rc_id r) gid)
       (case gap of None \<Rightarrow> eff_return () | Some window \<Rightarrow> insert_discontinuity (disc (rc_id r) window))"

definition publish_segment :: "rec_callbacks \<Rightarrow> uuid \<Rightarrow> segment \<Rightarrow> rec_row list \<Rightarrow> cursor_row option \<Rightarrow> unit rec_eff" where
  "publish_segment cb gid g active prior =
     transaction cb (
       eff_then (sql_always (update_segments (\<lambda>h. sg_id h = gid)
         (\<lambda>h. h\<lparr>sg_state := Seg_Ready, sg_spool := True, sg_integrity := Int_Verified\<rparr>))) (
       eff_then (sql_always (upsert_cursor g)) (
       eff_then
         (case stream_break g prior of
            None \<Rightarrow> eff_return ()
          | Some window \<Rightarrow> sql_always (\<lambda>d.
              let x = disc (g_source_id g) window in
              if List.member (db_source_discontinuities d) x then d
              else d\<lparr>db_source_discontinuities := db_source_discontinuities d @ [x]\<rparr>)) (
       eff_for active (publish_link gid (stream_break g prior))))))"

definition append_error :: "recording_error \<Rightarrow> recording_error" where
  "append_error e =
     (if e = Recording_OSError \<or> e = Recording_DatabaseError then RECORDING_WRITE_FAILED else e)"

definition append_segment :: "rec_callbacks \<Rightarrow> rec_binding \<Rightarrow> (segment \<Rightarrow> recording_error option)
    \<Rightarrow> (bytes \<Rightarrow> string) \<Rightarrow> uuid \<Rightarrow> segment \<Rightarrow> uuid rec_eff" where
  "append_segment cb b validator sha256 new_id g =
     eff_bind (append_checks validator g) (\<lambda>(prior, active).
     let critical = list_ex rc_critical active in
     eff_then (policy_admit cb b (int (length (g_data g))) critical) (
     eff_then (eff_modify (\<lambda>s. s\<lparr>rs_reservation_active := True\<rparr>)) (
     eff_finally
       (eff_catch
          (eff_then (transaction cb (insert_segment (segment_row sha256 new_id g critical))) (
           eff_then (write_segment new_id (g_data g)) (
           eff_then (publish_segment cb new_id g active prior) (
           eff_then (trim cb) (
           eff_return new_id)))))
          (\<lambda>e. eff_then (eff_modify (\<lambda>s. s\<lparr>rs_failed := True\<rparr>)) (eff_raise (append_error e))))
       release_reservation)))"

definition release_source :: "rec_callbacks \<Rightarrow> uuid \<Rightarrow> unit rec_eff" where
  "release_source cb source_id =
     control_operation cb (
     eff_then (store_check False) (
     eff_then (transaction cb (
       eff_then (sql_always (\<lambda>d. d\<lparr>db_cursors := map (\<lambda>c. if cu_source_id c = source_id
                                  then c\<lparr>cu_active := False\<rparr> else c) (db_cursors d)\<rparr>)) (
       eff_then (sql_always (update_segments (\<lambda>g. sg_source_id g = source_id) (\<lambda>g. g\<lparr>sg_spool := False\<rparr>))) (
       sql_always (delete_source_discontinuities (\<lambda>x. dc_owner x = source_id)))))) (
     or_fail (trim cb))))"

section \<open>Starting recordings\<close>

definition MAX_RECORDING_MS :: int where "MAX_RECORDING_MS = 1200000"

definition spool_overlaps :: "uuid \<Rightarrow> int \<Rightarrow> int \<Rightarrow> seg_row \<Rightarrow> bool" where
  "spool_overlaps source_id start_ms end_ms g \<longleftrightarrow>
     sg_source_id g = source_id \<and> sg_state g = Seg_Ready \<and> sg_spool g
     \<and> sg_start_ms g < end_ms \<and> sg_end_ms g > start_ms"

definition new_recording :: "uuid option \<Rightarrow> int \<Rightarrow> int \<Rightarrow> bool \<Rightarrow> uuid \<Rightarrow> uuid \<Rightarrow> rec_row" where
  "new_recording event_id start_ms end_ms critical source_id rid =
     \<lparr>rc_id = rid, rc_source_id = source_id, rc_event_id = event_id, rc_start_ms = start_ms,
      rc_target_end_ms = end_ms, rc_ended_ms = None, rc_status = Rec_Active, rc_critical = critical,
      rc_starred = False\<rparr>"

definition start_one :: "uuid option \<Rightarrow> int \<Rightarrow> int \<Rightarrow> bool \<Rightarrow> uuid \<times> uuid \<Rightarrow> unit rec_eff" where
  "start_one event_id start_ms end_ms critical ids =
     (case ids of (source_id, rid) \<Rightarrow>
        eff_bind (sql_query (\<lambda>d. length (filter (spool_overlaps source_id start_ms end_ms) (db_segments d)))) (\<lambda>n.
        eff_then (eff_guard (\<lambda>s. \<not> int n > max_segments_per_recording (rs_limits s)) RECORDING_SEGMENT_LIMIT) (
        eff_then (sql_exec (\<lambda>d. list_all (\<lambda>r. rc_id r \<noteq> rid) (db_recordings d))
          (\<lambda>d. d\<lparr>db_recordings := db_recordings d @ [new_recording event_id start_ms end_ms critical source_id rid]\<rparr>)) (
        eff_then (sql_exec (\<lambda>d. list_all (\<lambda>l. fst l \<noteq> rid) (db_links d))
          (\<lambda>d. d\<lparr>db_links := db_links d @
               map (\<lambda>g. (rid, sg_id g)) (filter (spool_overlaps source_id start_ms end_ms) (db_segments d))\<rparr>)) (
        sql_always (\<lambda>d. d\<lparr>db_discontinuities := db_discontinuities d @
             map (\<lambda>x. x\<lparr>dc_owner := rid\<rparr>)
               (filter (\<lambda>x. dc_owner x = source_id \<and> dc_start_ms x < end_ms \<and> dc_end_ms x > start_ms)
                  (db_source_discontinuities d))\<rparr>))))))"

definition start_recordings :: "rec_callbacks \<Rightarrow> rec_binding \<Rightarrow> uuid list \<Rightarrow> int \<Rightarrow> int \<Rightarrow> uuid option \<Rightarrow> bool
    \<Rightarrow> uuid list \<Rightarrow> uuid list rec_eff" where
  "start_recordings cb b sources start_ms end_ms event_id critical new_ids =
     eff_then (store_check False) (
     eff_then (eff_guard (\<lambda>s. \<not> start_ms < 0 \<and> \<not> end_ms \<ge> 2 ^ 63 \<and> sources \<noteq> []
         \<and> \<not> int (length sources) > max_sources (rs_limits s) \<and> distinct sources) Recording_ValueError) (
     eff_then (policy_admit cb b 0 critical) (
     eff_then (eff_modify (\<lambda>s. s\<lparr>rs_reservation_active := True\<rparr>)) (
     eff_finally
       (eff_then (transaction cb (
          eff_bind (case event_id of None \<Rightarrow> eff_return False
                    | Some e \<Rightarrow> sql_query (\<lambda>d. list_ex (\<lambda>r. rc_event_id r = Some e) (db_recordings d))) (\<lambda>exists.
          eff_then (eff_guard (\<lambda>_. \<not> exists) RECORDING_EVENT_EXISTS) (
          eff_bind (sql_query (\<lambda>d. length (filter (\<lambda>r. rc_status r = Rec_Active) (db_recordings d)))) (\<lambda>n.
          eff_then (eff_guard (\<lambda>s. \<not> int (n + length sources) > max_active_recordings (rs_limits s))
                      RECORDING_ACTIVE_LIMIT) (
          eff_for (zip sources new_ids) (start_one event_id start_ms end_ms critical)))))))
        (eff_return new_ids))
       release_reservation))))"

definition start_event :: "rec_callbacks \<Rightarrow> rec_binding \<Rightarrow> uuid \<Rightarrow> uuid list \<Rightarrow> int \<Rightarrow> int \<Rightarrow> int \<Rightarrow> bool
    \<Rightarrow> uuid list \<Rightarrow> uuid list rec_eff" where
  "start_event cb b event_id source_ids at_ms pre_ms post_ms critical new_ids =
     (if pre_ms < 0 \<or> post_ms \<le> 0 \<or> pre_ms + post_ms > MAX_RECORDING_MS then eff_raise Recording_ValueError
      else start_recordings cb b source_ids (at_ms - pre_ms) (at_ms + post_ms) (Some event_id) critical new_ids)"

definition start_manual :: "rec_callbacks \<Rightarrow> rec_binding \<Rightarrow> uuid \<Rightarrow> int \<Rightarrow> int \<Rightarrow> uuid \<Rightarrow> uuid rec_eff" where
  "start_manual cb b source_id at_ms duration_ms new_id =
     (if \<not> (0 < duration_ms \<and> duration_ms \<le> MAX_RECORDING_MS) then eff_raise Recording_ValueError
      else eff_bind (start_recordings cb b [source_id] at_ms (at_ms + duration_ms) None False [new_id])
             (\<lambda>ids. eff_return (hd ids)))"

section \<open>Manifests\<close>

definition find_recording :: "uuid \<Rightarrow> rec_db \<Rightarrow> rec_row option" where
  "find_recording rid d = List.find (\<lambda>r. rc_id r = rid) (db_recordings d)"

definition get_recording :: "uuid \<Rightarrow> rec_row rec_eff" where
  "get_recording rid =
     eff_bind (sql_query (find_recording rid)) (\<lambda>row.
       case row of None \<Rightarrow> eff_raise RECORDING_NOT_FOUND | Some r \<Rightarrow> eff_return r)"

definition file_integrity :: "(bytes \<Rightarrow> string) \<Rightarrow> rec_limits \<Rightarrow> seg_row \<Rightarrow> stored_file option \<Rightarrow> integrity" where
  "file_integrity sha256 l g file =
     (case file of
        None \<Rightarrow> Int_Missing
      | Some f \<Rightarrow>
          if \<not> fl_plain f \<or> int (length (fl_data f)) \<noteq> sg_byte_length g
             \<or> int (length (fl_data f)) > max_segment_bytes l then Int_Corrupt
          else if sha256 (fl_data f) = sg_sha256 g then Int_Verified else Int_Corrupt)"

definition check_integrity :: "(bytes \<Rightarrow> string) \<Rightarrow> seg_row \<Rightarrow> integrity rec_eff" where
  "check_integrity sha256 g =
     eff_then verify_root (\<lambda>s.
       case io Recording_OSError s of
         (Inl _, s1) \<Rightarrow> (Inr Int_Unreadable, s1)
       | (Inr _, s1) \<Rightarrow> (Inr (file_integrity sha256 (rs_limits s1) g (rs_seg_files s1 (sg_id g))), s1))"

record gap =
  gp_start_ms :: int
  gp_end_ms :: int
  gp_reason :: string

record manifest_item =
  mi_segment :: seg_row
  mi_clip_start_ms :: int
  mi_clip_end_ms :: int
  mi_integrity :: integrity

record manifest =
  mf_row :: rec_row
  mf_segments :: "manifest_item list"
  mf_gaps :: "gap list"
  mf_pending :: "gap list"
  mf_discontinuities :: "gap list"
  mf_byte_length :: int
  mf_integrity_persisted :: bool

definition integrity_reason :: "integrity \<Rightarrow> string" where
  "integrity_reason i =
     (case i of Int_Unchecked \<Rightarrow> ''unchecked'' | Int_Verified \<Rightarrow> ''verified'' | Int_Corrupt \<Rightarrow> ''corrupt''
      | Int_Missing \<Rightarrow> ''missing'' | Int_Unreadable \<Rightarrow> ''unreadable'')"

definition clip_start :: "rec_row \<Rightarrow> seg_row \<Rightarrow> int" where
  "clip_start r g = max (rc_start_ms r) (sg_start_ms g)"

definition clip_end :: "rec_row \<Rightarrow> seg_row \<Rightarrow> int" where
  "clip_end r g = min (rc_target_end_ms r) (sg_end_ms g)"

definition clip_item :: "rec_row \<Rightarrow> seg_row \<times> integrity \<Rightarrow> manifest_item" where
  "clip_item r x =
     \<lparr>mi_segment = fst x, mi_clip_start_ms = clip_start r (fst x), mi_clip_end_ms = clip_end r (fst x),
      mi_integrity = snd x\<rparr>"

text \<open>
  The loop over the segments whose clip is not empty, with their integrity: the gaps it appends and the
  cursor it leaves.
\<close>

fun gap_loop :: "manifest_item list \<Rightarrow> int \<Rightarrow> gap list \<times> int" where
  "gap_loop [] cursor = ([], cursor)"
| "gap_loop (x # xs) cursor =
     (let before = (if mi_clip_start_ms x > cursor
                    then [\<lparr>gp_start_ms = cursor, gp_end_ms = mi_clip_start_ms x, gp_reason = ''unavailable''\<rparr>]
                    else []);
          damaged = (if mi_integrity x \<noteq> Int_Verified
                     then [\<lparr>gp_start_ms = mi_clip_start_ms x, gp_end_ms = mi_clip_end_ms x,
                            gp_reason = integrity_reason (mi_integrity x)\<rparr>]
                     else []);
          (gaps, final) = gap_loop xs (max cursor (mi_clip_end_ms x))
      in (before @ damaged @ gaps, final))"

definition tail_span :: "string \<Rightarrow> int \<Rightarrow> int \<Rightarrow> gap list" where
  "tail_span reason cursor end_ms =
     (if cursor < end_ms then [\<lparr>gp_start_ms = cursor, gp_end_ms = end_ms, gp_reason = reason\<rparr>] else [])"

definition disc_gap :: "disc_row \<Rightarrow> gap" where
  "disc_gap x = \<lparr>gp_start_ms = dc_start_ms x, gp_end_ms = dc_end_ms x, gp_reason = dc_reason x\<rparr>"

fun sequence_breaks :: "seg_row list \<Rightarrow> gap list" where
  "sequence_breaks (a # b # gs) =
     (if sg_stream_id a \<noteq> sg_stream_id b \<or> sg_sequence b \<noteq> sg_sequence a + 1
      then [\<lparr>gp_start_ms = sg_end_ms a, gp_end_ms = sg_start_ms b, gp_reason = ''stream_discontinuity''\<rparr>]
      else []) @ sequence_breaks (b # gs)"
| "sequence_breaks gs = []"

definition add_marker :: "gap list \<Rightarrow> gap \<Rightarrow> gap list" where
  "add_marker found m = (if List.member found m then found else found @ [m])"

definition bound_marker :: "rec_row \<Rightarrow> gap list \<Rightarrow> gap \<Rightarrow> gap list" where
  "bound_marker r bounded m =
     (if gp_start_ms m \<ge> rc_target_end_ms r \<or> gp_end_ms m \<le> rc_start_ms r then bounded
      else add_marker bounded
             \<lparr>gp_start_ms = max (rc_start_ms r) (gp_start_ms m), gp_end_ms = min (rc_target_end_ms r) (gp_end_ms m),
              gp_reason = gp_reason m\<rparr>)"

text \<open>The pure part of \<open>manifest\<close>: row, ordered segments, their integrity and the stored markers.\<close>

definition build_manifest :: "rec_row \<Rightarrow> seg_row list \<Rightarrow> (seg_row \<times> integrity) list \<Rightarrow> disc_row list \<Rightarrow> manifest" where
  "build_manifest r segments checked markers =
     (let items = map (clip_item r) checked;
          (gaps, cursor) = gap_loop items (rc_start_ms r);
          active = (rc_status r = Rec_Active);
          gaps' = gaps @ (if active then [] else tail_span ''unavailable'' cursor (rc_target_end_ms r));
          pending = (if active then tail_span ''awaiting_media'' cursor (rc_target_end_ms r) else []);
          found = foldl add_marker (map disc_gap markers) (sequence_breaks segments);
          bounded = foldl (bound_marker r) [] found;
          status = (if rc_status r = Rec_Complete \<and> (gaps' \<noteq> [] \<or> bounded \<noteq> []) then Rec_Gapped else rc_status r)
      in \<lparr>mf_row = r\<lparr>rc_status := status\<rparr>, mf_segments = items, mf_gaps = gaps', mf_pending = pending,
          mf_discontinuities = bounded, mf_byte_length = sum_list (map (\<lambda>x. sg_byte_length (mi_segment x)) items),
          mf_integrity_persisted = True\<rparr>)"

definition manifest_segments :: "uuid \<Rightarrow> rec_db \<Rightarrow> seg_row list" where
  "manifest_segments rid d = sort_key (\<lambda>g. (sg_start_ms g, sg_id g)) (linked_segments d rid)"

definition manifest_markers :: "rec_row \<Rightarrow> rec_db \<Rightarrow> disc_row list" where
  "manifest_markers r d =
     sort_key dc_start_ms (filter (\<lambda>x. dc_owner x = rc_id r \<and> dc_start_ms x < rc_target_end_ms r
                                      \<and> dc_end_ms x > rc_start_ms r) (db_discontinuities d))"

definition persist_manifest :: "rec_callbacks \<Rightarrow> rec_row \<Rightarrow> manifest \<Rightarrow> unit rec_eff" where
  "persist_manifest cb r m =
     transaction cb (
       eff_then (eff_for (mf_segments m) (\<lambda>x.
         sql_always (update_segments (\<lambda>g. sg_id g = sg_id (mi_segment x)) (\<lambda>g. g\<lparr>sg_integrity := mi_integrity x\<rparr>)))) (
       eff_when (rc_status (mf_row m) \<noteq> rc_status r)
         (sql_always (update_recordings (\<lambda>x. rc_id x = rc_id r) (\<lambda>x. x\<lparr>rc_status := rc_status (mf_row m)\<rparr>)))))"

definition manifest_of :: "rec_callbacks \<Rightarrow> (bytes \<Rightarrow> string) \<Rightarrow> uuid \<Rightarrow> manifest rec_eff" where
  "manifest_of cb sha256 rid =
     eff_then (store_check False) (
     eff_bind (get_recording rid) (\<lambda>r.
     eff_bind (sql_query (manifest_segments rid)) (\<lambda>segments.
     eff_bind (eff_map (filter (\<lambda>g. \<not> clip_end r g \<le> clip_start r g) segments)
                 (\<lambda>g. eff_bind (check_integrity sha256 g) (\<lambda>i. eff_return (g, i)))) (\<lambda>checked.
     eff_bind (sql_query (manifest_markers r)) (\<lambda>markers.
     let m = build_manifest r segments checked markers in
     eff_catch (eff_then (persist_manifest cb r m) (eff_return m))
       (\<lambda>e. if e \<noteq> STORAGE_HARD_STOP \<and> e \<noteq> STORAGE_PRESSURE then eff_raise e
             else eff_return (m\<lparr>mf_integrity_persisted := False\<rparr>)))))))"

definition event_manifest :: "rec_callbacks \<Rightarrow> (bytes \<Rightarrow> string) \<Rightarrow> uuid \<Rightarrow> manifest list rec_eff" where
  "event_manifest cb sha256 event_id =
     eff_then (store_check False) (
     eff_bind (sql_query (\<lambda>d. map rc_id (sort_key rc_source_id
                 (filter (\<lambda>r. rc_event_id r = Some event_id) (db_recordings d))))) (\<lambda>ids.
       if ids = [] then eff_raise RECORDING_EVENT_NOT_FOUND else eff_map ids (manifest_of cb sha256)))"

section \<open>Finishing recordings\<close>

definition close_recording :: "rec_callbacks \<Rightarrow> rec_row \<Rightarrow> int \<Rightarrow> bool \<Rightarrow> unit rec_eff" where
  "close_recording cb r end_ms close_now =
     transaction cb (
       eff_then (sql_always (update_recordings (\<lambda>x. rc_id x = rc_id r)
         (\<lambda>x. x\<lparr>rc_target_end_ms := end_ms, rc_ended_ms := (if close_now then Some end_ms else None),
                rc_status := (if close_now then Rec_Complete else Rec_Active)\<rparr>))) (
       eff_when close_now (
         eff_then (sql_always (\<lambda>d. delete_links (\<lambda>l. fst l = rc_id r \<and>
             list_ex (\<lambda>g. sg_id g = snd l \<and> (sg_start_ms g \<ge> end_ms \<or> sg_end_ms g \<le> rc_start_ms r))
               (db_segments d)) d))
         (sql_always (delete_discontinuities (\<lambda>x. dc_owner x = rc_id r \<and>
             (dc_start_ms x \<ge> end_ms \<or> dc_end_ms x \<le> rc_start_ms r)))))))"

definition finish_active :: "rec_callbacks \<Rightarrow> rec_row \<Rightarrow> int option \<Rightarrow> unit rec_eff" where
  "finish_active cb r stop_ms =
     eff_bind (sql_query (find_cursor (rc_source_id r))) (\<lambda>cursor.
     let end_ms = (case stop_ms of Some t \<Rightarrow> if t = 0 then rc_target_end_ms r else t | None \<Rightarrow> rc_target_end_ms r);
         close_now = (stop_ms = None \<or> (case cursor of None \<Rightarrow> False | Some c \<Rightarrow> cu_end_ms c \<ge> end_ms))
     in eff_then (close_recording cb r end_ms close_now) (eff_when close_now (or_fail (trim cb))))"

definition finish :: "rec_callbacks \<Rightarrow> (bytes \<Rightarrow> string) \<Rightarrow> uuid \<Rightarrow> int option \<Rightarrow> manifest rec_eff" where
  "finish cb sha256 rid stop_ms =
     control_operation cb (
     eff_then (store_check False) (
     eff_bind (get_recording rid) (\<lambda>r.
     eff_then (eff_guard (\<lambda>_. case stop_ms of None \<Rightarrow> True
                              | Some t \<Rightarrow> rc_start_ms r < t \<and> t \<le> rc_target_end_ms r) Recording_ValueError) (
     eff_then (eff_when (rc_status r = Rec_Active) (finish_active cb r stop_ms)) (
     eff_bind (manifest_of cb sha256 rid) (\<lambda>m.
       if rc_status (mf_row m) = Rec_Gapped \<or> mf_gaps m \<noteq> [] \<and> rc_status (mf_row m) = Rec_Complete
       then eff_then (transaction cb (sql_always (update_recordings (\<lambda>x. rc_id x = rid)
                                        (\<lambda>x. x\<lparr>rc_status := Rec_Gapped\<rparr>))))
              (eff_return (m\<lparr>mf_row := (mf_row m)\<lparr>rc_status := Rec_Gapped\<rparr>\<rparr>))
       else eff_return m))))))"

definition advance :: "rec_callbacks \<Rightarrow> (bytes \<Rightarrow> string) \<Rightarrow> int \<Rightarrow> unit rec_eff" where
  "advance cb sha256 now_ms =
     eff_then (store_check False) (
     eff_then (eff_guard (\<lambda>_. \<not> now_ms < 0) Recording_ValueError) (
     eff_bind (eff_get (\<lambda>s. max_segment_ms (rs_limits s))) (\<lambda>grace.
     eff_bind (sql_query (\<lambda>d. map rc_id (filter (\<lambda>r. rc_status r = Rec_Active
                               \<and> rc_target_end_ms r + grace \<le> now_ms) (db_recordings d)))) (\<lambda>ids.
     eff_for ids (\<lambda>rid. eff_then (finish cb sha256 rid None) (eff_return ()))))))"

section \<open>Accounting, stars and deletion\<close>

definition published_segment :: "uuid \<Rightarrow> seg_row rec_eff" where
  "published_segment gid =
     eff_then (store_check False) (
     eff_bind (sql_query (\<lambda>d. List.find (\<lambda>g. sg_id g = gid \<and> sg_state g = Seg_Ready) (db_segments d))) (\<lambda>row.
       case row of None \<Rightarrow> eff_raise RECORDING_SEGMENT_NOT_FOUND | Some g \<Rightarrow> eff_return g))"

definition segment_length :: "uuid \<Rightarrow> int rec_eff" where
  "segment_length gid = eff_bind (published_segment gid) (\<lambda>g. eff_return (sg_byte_length g))"

definition segment_sha256 :: "uuid \<Rightarrow> string rec_eff" where
  "segment_sha256 gid = eff_bind (published_segment gid) (\<lambda>g. eff_return (sg_sha256 g))"

text \<open>The reader of \<open>open_segment\<close> is the content of the file at that moment.\<close>

definition readable_file :: "rec_limits \<Rightarrow> int \<Rightarrow> stored_file \<Rightarrow> bool" where
  "readable_file l expected f \<longleftrightarrow>
     \<not> (\<not> fl_plain f \<or> int (length (fl_data f)) \<noteq> expected \<or> int (length (fl_data f)) > max_segment_bytes l)"

definition open_segment :: "uuid \<Rightarrow> bytes rec_eff" where
  "open_segment gid =
     eff_bind (published_segment gid) (\<lambda>g.
     eff_then verify_root (
     eff_then (io RECORDING_SEGMENT_UNAVAILABLE) (\<lambda>s.
       case rs_seg_files s gid of
         None \<Rightarrow> (Inl RECORDING_SEGMENT_UNAVAILABLE, s)
       | Some f \<Rightarrow> if readable_file (rs_limits s) (sg_byte_length g) f then (Inr (fl_data f), s)
                  else (Inl RECORDING_SEGMENT_UNAVAILABLE, s))))"

definition update_starred :: "uuid \<Rightarrow> bool \<Rightarrow> unit rec_eff" where
  "update_starred rid starred =
     sql_always (update_recordings (\<lambda>x. rc_id x = rid) (\<lambda>x. x\<lparr>rc_starred := starred\<rparr>))"

definition set_starred :: "rec_callbacks \<Rightarrow> uuid \<Rightarrow> bool \<Rightarrow> unit rec_eff" where
  "set_starred cb rid starred =
     control_operation cb (
     eff_then (store_check False) (
     eff_then (get_recording rid) (
     transaction cb (update_starred rid starred))))"

definition set_starred_on :: "rec_callbacks \<Rightarrow> bool \<Rightarrow> uuid \<Rightarrow> bool \<Rightarrow> unit rec_eff" where
  "set_starred_on cb same_connection rid starred =
     eff_then (store_check False) (
     eff_then (eff_guard (\<lambda>s. same_connection \<and> in_transaction s) RECORDING_DATABASE_BUSY) (
     eff_then (get_recording rid) (
     control_reservation cb (update_starred rid starred))))"

definition starred_segment :: "rec_db \<Rightarrow> seg_row \<Rightarrow> bool" where
  "starred_segment d g \<longleftrightarrow>
     list_ex (\<lambda>r. rc_starred r \<and> List.member (db_links d) (rc_id r, sg_id g)) (db_recordings d)"

definition critical_segment :: "rec_db \<Rightarrow> seg_row \<Rightarrow> bool" where
  "critical_segment d g \<longleftrightarrow>
     sg_state g = Seg_Pending \<and> sg_critical g
     \<or> list_ex (\<lambda>r. rc_critical r \<and> List.member (db_links d) (rc_id r, sg_id g)) (db_recordings d)"

definition db_usage :: "rec_db \<Rightarrow> bool \<Rightarrow> bool \<Rightarrow> int" where
  "db_usage d starred_only critical_only =
     sum_list (map sg_byte_length
       (filter (\<lambda>g. (starred_only \<longrightarrow> starred_segment d g) \<and> (critical_only \<longrightarrow> critical_segment d g))
          (db_segments d)))"

definition usage_bytes :: "bool \<Rightarrow> bool \<Rightarrow> int rec_eff" where
  "usage_bytes starred_only critical_only =
     eff_then (store_check True) (sql_query (\<lambda>d. db_usage d starred_only critical_only))"

definition page_ok :: "int \<Rightarrow> int \<Rightarrow> bool" where
  "page_ok limit offset \<longleftrightarrow> 1 \<le> limit \<and> limit \<le> 1000 \<and> \<not> offset < 0 \<and> \<not> offset \<ge> 2 ^ 63"

definition list_recordings :: "int \<Rightarrow> int \<Rightarrow> rec_row list rec_eff" where
  "list_recordings limit offset =
     eff_then (store_check False) (
     eff_then (eff_guard (\<lambda>_. page_ok limit offset) Recording_ValueError) (
     sql_query (\<lambda>d. take (nat limit) (drop (nat offset)
       (sort_key (\<lambda>r. (- rc_start_ms r, rc_id r))
          (filter (\<lambda>r. rc_status r \<noteq> Rec_Deleting) (db_recordings d)))))))"

definition retention_candidate :: "int option \<Rightarrow> rec_row \<Rightarrow> bool" where
  "retention_candidate before_ms r \<longleftrightarrow>
     \<not> rc_starred r \<and> List.member [Rec_Complete, Rec_Gapped, Rec_Interrupted] (rc_status r)
     \<and> (case before_ms of None \<Rightarrow> True
        | Some t \<Rightarrow> (case rc_ended_ms r of None \<Rightarrow> False | Some e \<Rightarrow> e \<le> t))"

text \<open>\<open>ORDER BY ended_ms,id\<close>, where NULL comes first.\<close>

definition ended_key :: "rec_row \<Rightarrow> bool \<times> int \<times> uuid" where
  "ended_key r = (case rc_ended_ms r of None \<Rightarrow> (False, 0, rc_id r) | Some e \<Rightarrow> (True, e, rc_id r))"

definition retention_candidates :: "int option \<Rightarrow> int \<Rightarrow> rec_row list rec_eff" where
  "retention_candidates before_ms limit =
     eff_then (store_check False) (
     eff_then (eff_guard (\<lambda>_. page_ok limit 0 \<and>
         (case before_ms of None \<Rightarrow> True | Some t \<Rightarrow> 0 \<le> t \<and> t < 2 ^ 63)) Recording_ValueError) (
     sql_query (\<lambda>d. take (nat limit) (sort_key ended_key
       (filter (retention_candidate before_ms) (db_recordings d))))))"

definition prepare_delete_on :: "rec_callbacks \<Rightarrow> bool \<Rightarrow> uuid \<Rightarrow> bool \<Rightarrow> int rec_eff" where
  "prepare_delete_on cb same_connection rid owner_requested =
     eff_then (store_check False) (
     eff_then (eff_guard (\<lambda>s. same_connection \<and> in_transaction s) RECORDING_DATABASE_BUSY) (
     control_reservation cb (
       eff_bind (usage_bytes False False) (\<lambda>before.
       eff_bind (get_recording rid) (\<lambda>r.
       eff_then (eff_guard (\<lambda>_. \<not> (rc_status r = Rec_Active \<or> rc_starred r \<and> \<not> owner_requested))
                   RECORDING_DELETE_REFUSED) (
       eff_then (sql_always (update_recordings (\<lambda>x. rc_id x = rid) (\<lambda>x. x\<lparr>rc_status := Rec_Deleting\<rparr>))) (
       eff_then (sql_always (delete_links (\<lambda>l. fst l = rid))) (
       eff_then (sql_always (delete_discontinuities (\<lambda>x. dc_owner x = rid))) (
       eff_return before)))))))))"

definition finish_prepared_delete :: "rec_callbacks \<Rightarrow> uuid \<Rightarrow> int \<Rightarrow> int rec_eff" where
  "finish_prepared_delete cb rid before =
     control_operation cb (
     eff_then (store_check False) (
     eff_then (eff_guard (\<lambda>_. \<not> before < 0) Recording_ValueError) (
     or_fail (
       eff_then (trim cb) (
       eff_then (transaction cb (sql_exec (recordings_deletable (\<lambda>r. rc_id r = rid))
                                   (delete_recordings (\<lambda>r. rc_id r = rid)))) (
       eff_bind (usage_bytes False False) (\<lambda>after. eff_return (before - after))))))))"

definition delete_recording :: "rec_callbacks \<Rightarrow> uuid \<Rightarrow> bool \<Rightarrow> int rec_eff" where
  "delete_recording cb rid owner_requested =
     control_operation cb (
     eff_then (store_check False) (
     eff_bind (transaction cb (prepare_delete_on cb True rid owner_requested)) (\<lambda>before.
     finish_prepared_delete cb rid before)))"

end
