(* ===== verification/Storage_Retention.thy ===== *)
theory Storage_Retention
  imports Recording_Store
begin

text \<open>
  Retention and the durable audit of storage states (\<^verbatim>\<open>server/app/storage/retention.py\<close>), and the wiring of
  policy, store, retention and audit that \<open>MonitoringRuntime._open\<close> performs
  (\<^verbatim>\<open>server/app/monitoring/runtime.py\<close>).

  An audit row is written under \<open>policy.control\<close>, which may itself change the storage state and so ask for
  an audit row: the recursion of the running program is unrolled \<open>n\<close> times in \<open>worker_callbacks n\<close>. Two
  levels are the whole recursion, because the nested change can only latch the hard stop, and from there
  no further change is possible; \<open>worker_cb_audit\<close> states the fixed point.
\<close>

section \<open>Retention\<close>

definition DAY_MS :: int where "DAY_MS = 86400000"

record retention_periods =
  recording_days :: int
  audit_days :: int

definition retention_periods_ok :: "retention_periods \<Rightarrow> bool" where
  "retention_periods_ok p \<longleftrightarrow> \<not> recording_days p \<le> 0 \<and> \<not> audit_days p \<le> 0"

definition default_periods :: retention_periods where
  "default_periods = \<lparr>recording_days = 20, audit_days = 90\<rparr>"

definition retention_delete :: "rec_callbacks \<Rightarrow> int option \<Rightarrow> int \<Rightarrow> int rec_eff" where
  "retention_delete cb before_ms limit =
     eff_bind (retention_candidates before_ms limit) (\<lambda>rows.
     eff_then (eff_for rows (\<lambda>r. eff_then (delete_recording cb (rc_id r) False) (eff_return ()))) (
     eff_return (int (length rows))))"

definition retention_expired :: "rec_callbacks \<Rightarrow> retention_periods \<Rightarrow> int \<Rightarrow> int \<Rightarrow> int rec_eff" where
  "retention_expired cb periods now_ms limit =
     (if now_ms < 0 then eff_raise Recording_ValueError
      else let cutoff = now_ms - recording_days periods * DAY_MS in
        if cutoff \<ge> 0 then retention_delete cb (Some cutoff) limit else eff_return 0)"

definition retention_oldest :: "rec_callbacks \<Rightarrow> int \<Rightarrow> int rec_eff" where
  "retention_oldest cb limit = retention_delete cb None limit"

section \<open>Audit rows\<close>

definition audit_append :: "rec_callbacks \<Rightarrow> storage_transition \<Rightarrow> unit rec_eff" where
  "audit_append cb event =
     eff_then (eff_guard (\<lambda>s. \<not> in_transaction s) STORAGE_AUDIT_UNAVAILABLE) (
     policy_control cb (sql_always (\<lambda>d. d\<lparr>db_storage_audit := db_storage_audit d @ [event]\<rparr>)))"

text \<open>
  The rows of \<open>SELECT id ... WHERE at_ms < ? ORDER BY at_ms,id LIMIT ?\<close> are removed; \<open>id\<close> is the position.
\<close>

definition expired_rows :: "int \<Rightarrow> nat \<Rightarrow> storage_transition list \<Rightarrow> nat list" where
  "expired_rows cutoff limit rows =
     take limit (map snd (sort_key (\<lambda>(t, i). (t, i))
       (filter (\<lambda>(t, i). t < cutoff) (zip (map tr_at_ms rows) [0..<length rows]))))"

definition remove_rows :: "nat list \<Rightarrow> 'a list \<Rightarrow> 'a list" where
  "remove_rows gone rows = map fst (filter (\<lambda>(_, i). \<not> List.member gone i) (zip rows [0..<length rows]))"

definition audit_expire :: "rec_callbacks \<Rightarrow> retention_periods \<Rightarrow> int \<Rightarrow> int \<Rightarrow> int rec_eff" where
  "audit_expire cb periods now_ms limit =
     eff_then (eff_guard (\<lambda>s. \<not> in_transaction s \<and> \<not> now_ms < 0 \<and> 1 \<le> limit \<and> limit \<le> 1000)
                 STORAGE_AUDIT_UNAVAILABLE) (
     policy_control cb (
       eff_bind (sql_query (\<lambda>d. expired_rows (now_ms - audit_days periods * DAY_MS) (nat limit) (db_storage_audit d))) (\<lambda>gone.
       eff_then (eff_modify (\<lambda>s. s\<lparr>rs_db := (rs_db s)\<lparr>db_storage_audit := remove_rows gone (db_storage_audit (rs_db s))\<rparr>\<rparr>)) (
       eff_return (int (length gone))))))"

section \<open>The recording browser\<close>

text \<open>
  The facade for authorized callers. Authorization, the write guard and the audited administration are injected;
  the defaults refuse.
\<close>

datatype action = Action_Read | Action_Owner

record 'c administration =
  adm_set_starred :: "'c option \<Rightarrow> uuid \<Rightarrow> bool \<Rightarrow> unit rec_eff"
  adm_delete :: "'c option \<Rightarrow> uuid \<Rightarrow> int rec_eff"

record 'c recording_browser =
  br_authorize :: "action \<Rightarrow> unit rec_eff"
  br_write_guard :: "unit rec_eff"
  br_administration :: "'c administration"

definition deny_action :: "action \<Rightarrow> unit rec_eff" where
  "deny_action a = eff_raise RECORDING_ACCESS_DENIED"

definition deny_write :: "unit rec_eff" where
  "deny_write = eff_raise STORAGE_HARD_STOP"

definition deny_audited_owner_mutation :: "'c administration" where
  "deny_audited_owner_mutation =
     \<lparr>adm_set_starred = (\<lambda>_ _ _. eff_raise RECORDING_AUDIT_UNAVAILABLE),
      adm_delete = (\<lambda>_ _. eff_raise RECORDING_AUDIT_UNAVAILABLE)\<rparr>"

definition browser_init :: "(action \<Rightarrow> unit rec_eff) option \<Rightarrow> unit rec_eff option \<Rightarrow> 'c administration option
    \<Rightarrow> 'c recording_browser" where
  "browser_init authorize write_guard administration =
     \<lparr>br_authorize = (case authorize of None \<Rightarrow> deny_action | Some f \<Rightarrow> f),
      br_write_guard = (case write_guard of None \<Rightarrow> deny_write | Some g \<Rightarrow> g),
      br_administration = (case administration of None \<Rightarrow> deny_audited_owner_mutation | Some a \<Rightarrow> a)\<rparr>"

definition browser_list :: "'c recording_browser \<Rightarrow> int \<Rightarrow> int \<Rightarrow> rec_row list rec_eff" where
  "browser_list b limit offset =
     eff_then (br_authorize b Action_Read) (list_recordings limit offset)"

definition browser_manifest :: "rec_callbacks \<Rightarrow> (bytes \<Rightarrow> string) \<Rightarrow> 'c recording_browser \<Rightarrow> uuid \<Rightarrow> manifest rec_eff" where
  "browser_manifest cb sha256 b rid =
     eff_then (br_authorize b Action_Read) (manifest_of cb sha256 rid)"

definition browser_star :: "'c recording_browser \<Rightarrow> uuid \<Rightarrow> bool \<Rightarrow> 'c option \<Rightarrow> unit rec_eff" where
  "browser_star b rid starred actor =
     eff_then (br_authorize b Action_Owner) (
     eff_then (br_write_guard b) (
     adm_set_starred (br_administration b) actor rid starred))"

definition browser_delete :: "'c recording_browser \<Rightarrow> uuid \<Rightarrow> 'c option \<Rightarrow> int rec_eff" where
  "browser_delete b rid actor =
     eff_then (br_authorize b Action_Owner) (
     eff_then (br_write_guard b) (
     adm_delete (br_administration b) actor rid))"

section \<open>The wired worker\<close>

text \<open>\<open>filesystem.snapshot\<close>: the system calls of one sample succeed together or raise \<open>STORAGE_HARD_STOP\<close>.\<close>

definition filesystem_snapshot :: "filesystem_space rec_eff" where
  "filesystem_snapshot s =
     (case io STORAGE_HARD_STOP s of
        (Inl e, s1) \<Rightarrow> (Inl e, s1)
      | (Inr _, s1) \<Rightarrow> (Inr (io_space s (io_count s)), s1\<lparr>rs_sampled := io_space s (io_count s)\<rparr>))"

definition now_ms_clock :: "int rec_eff" where
  "now_ms_clock s = (Inr (io_clock s (io_count s)), s\<lparr>io_count := Suc (io_count s)\<rparr>)"

fun worker_callbacks :: "nat \<Rightarrow> rec_callbacks" where
  "worker_callbacks 0 =
     \<lparr>cb_space = filesystem_snapshot, cb_clock = now_ms_clock,
      cb_audit = (\<lambda>_. eff_raise STORAGE_AUDIT_UNAVAILABLE)\<rparr>"
| "worker_callbacks (Suc n) =
     \<lparr>cb_space = filesystem_snapshot, cb_clock = now_ms_clock, cb_audit = audit_append (worker_callbacks n)\<rparr>"

definition worker_cb :: rec_callbacks where
  "worker_cb = worker_callbacks 2"

definition worker_binding :: rec_binding where
  "worker_binding =
     \<lparr>inv_usage_bytes = usage_bytes,
      rec_expired = retention_expired worker_cb default_periods,
      rec_oldest = retention_oldest worker_cb\<rparr>"

lemma worker_callbacks_fields [simp]:
  "cb_space (worker_callbacks n) = filesystem_snapshot" "cb_clock (worker_callbacks n) = now_ms_clock"
  by (cases n; simp)+

text \<open>At the hard stop the audit no longer depends on the depth, and elsewhere one more level is enough.\<close>

lemma filesystem_snapshot_policy:
  "filesystem_snapshot s = (r, s') \<Longrightarrow> policy_of s' = policy_of s"
  by (auto simp: filesystem_snapshot_def io_def policy_of_eq split: if_splits)

lemma now_ms_clock_policy: "now_ms_clock s = (r, s') \<Longrightarrow> policy_of s' = policy_of s"
  by (auto simp: now_ms_clock_def policy_of_eq)

lemma hard_stop_latched: "sp_state s = HARD_STOP \<Longrightarrow> hard_stop cb s = (Inl STORAGE_HARD_STOP, s)"
  by (simp add: hard_stop_def transition_def eff_bind_def eff_raise_def)

lemma admit_control_latched:
  assumes "sp_state s = HARD_STOP"
  shows "admit_control (worker_callbacks n) s = admit_control (worker_callbacks m) s"
proof -
  obtain r s1 where sample: "filesystem_snapshot s = (r, s1)" by (meson surj_pair)
  then have "sp_state s1 = HARD_STOP" using filesystem_snapshot_policy assms by (fastforce simp: policy_of_eq)
  then show ?thesis
    using sample by (cases r) (simp_all add: admit_control_def hard_stop_latched)
qed

lemma audit_append_latched:
  "sp_state s = HARD_STOP \<Longrightarrow> audit_append (worker_callbacks n) e s = audit_append (worker_callbacks m) e s"
  using admit_control_latched [of s n m]
  by (simp add: audit_append_def policy_control_def eff_bind_def eff_guard_def)

lemma hard_stop_deep:
  "hard_stop (worker_callbacks (Suc n)) s = hard_stop (worker_callbacks (Suc m)) s"
proof (cases "sp_state s = HARD_STOP")
  case True
  then show ?thesis by (simp add: hard_stop_latched)
next
  case False
  obtain now s1 where clock: "now_ms_clock (s\<lparr>sp_state := HARD_STOP\<rparr>) = (Inr now, s1)"
    by (simp add: now_ms_clock_def)
  then have "sp_state s1 = HARD_STOP" using now_ms_clock_policy by (fastforce simp: policy_of_eq)
  then show ?thesis
    using False clock audit_append_latched [of s1 n _ m]
    by (simp add: hard_stop_def transition_def eff_bind_def)
qed

lemma admit_control_deep:
  "admit_control (worker_callbacks (Suc n)) s = admit_control (worker_callbacks (Suc m)) s"
proof -
  have "hard_stop (worker_callbacks (Suc n)) = (hard_stop (worker_callbacks (Suc m)) :: unit rec_eff)"
    by (rule ext) (rule hard_stop_deep)
  then show ?thesis by (simp add: admit_control_def split: prod.split sum.split del: worker_callbacks.simps)
qed

lemma audit_append_deep:
  "audit_append (worker_callbacks (Suc n)) e s = audit_append (worker_callbacks (Suc m)) e s"
  using admit_control_deep [of n s m]
  by (simp add: audit_append_def policy_control_def eff_bind_def eff_guard_def del: worker_callbacks.simps)

lemma worker_cb_fields [simp]: "cb_space worker_cb = filesystem_snapshot" "cb_clock worker_cb = now_ms_clock"
  by (simp_all add: worker_cb_def)

lemma worker_cb_audit: "cb_audit worker_cb = audit_append worker_cb"
proof (rule ext)+
  fix e s
  show "cb_audit worker_cb e s = audit_append worker_cb e s"
    using audit_append_deep [of 0 e s 1] by (simp add: worker_cb_def numeral_2_eq_2)
qed

end
