(* ===== verification/Recording_Evidence.thy ===== *)
theory Recording_Evidence
  imports Storage_Retention
begin

text \<open>
  What the recording store keeps of its evidence, whatever system call or SQL statement fails. The store
  reaches the storage policy through \<open>admit_control\<close> and \<open>release\<close> only; \<open>control_port\<close> states what it
  needs of them, and the worker's own callbacks interpret it.
\<close>

section \<open>What a reservation leaves alone\<close>

text \<open>The database without the audit rows, which every reservation may extend.\<close>

definition media :: "rec_db \<Rightarrow> rec_db" where
  "media d = d\<lparr>db_storage_audit := []\<rparr>"

lemma media_eq:
  assumes "media d' = media d"
  shows "db_recordings d' = db_recordings d" "db_segments d' = db_segments d" "db_links d' = db_links d"
    "db_cursors d' = db_cursors d" "db_discontinuities d' = db_discontinuities d"
    "db_source_discontinuities d' = db_source_discontinuities d"
  using assms by (cases d; cases d'; simp add: media_def)+

definition data_same :: "recorder \<Rightarrow> recorder \<Rightarrow> bool" where
  "data_same s s' \<longleftrightarrow>
     rs_saved s' = rs_saved s \<and> media (rs_db s') = media (rs_db s)
     \<and> rs_seg_files s' = rs_seg_files s \<and> rs_part_files s' = rs_part_files s \<and> rs_limits s' = rs_limits s"

lemma data_same_refl [simp]: "data_same s s"
  by (simp add: data_same_def)

lemma data_same_trans: "\<lbrakk>data_same s s'; data_same s' s''\<rbrakk> \<Longrightarrow> data_same s s''"
  by (simp add: data_same_def)

lemma data_same_durable: "data_same s s' \<Longrightarrow> media (durable s') = media (durable s)"
  by (simp add: data_same_def durable_def split: option.split)

text \<open>While the store holds a reservation nothing below it touches the policy.\<close>

definition held :: "recorder \<Rightarrow> recorder \<Rightarrow> bool" where
  "held s s' \<longleftrightarrow>
     (rs_reservation_active s \<longrightarrow>
        rs_reservation_active s' \<and> policy_of s' = policy_of s \<and> rs_sampled s' = rs_sampled s)"

text \<open>From outside, a store operation may at most latch the hard stop.\<close>

definition settled :: "recorder \<Rightarrow> bool" where
  "settled s \<longleftrightarrow> \<not> rs_reservation_active s
     \<and> (sp_reservation s \<or> sp_reserved_media s = 0 \<and> sp_reserved_total s = 0)"

definition quiet :: "recorder \<Rightarrow> recorder \<Rightarrow> bool" where
  "quiet s s' \<longleftrightarrow> (settled s \<longrightarrow> settled s' \<and> calm s s')"

interpretation held: preorder_relation held
  by unfold_locales (auto simp: held_def)

interpretation quiet: preorder_relation quiet
  by unfold_locales (auto simp: quiet_def intro: calm_trans)

interpretation data_same: preorder_relation data_same
  by unfold_locales (auto intro: data_same_trans)

named_theorems held_intros "computations that leave a held reservation alone"

lemma io_simple: "io e s = (r, s') \<Longrightarrow> s' = s\<lparr>io_count := Suc (io_count s)\<rparr>"
  by (auto simp: io_def split: if_splits)

lemma calm_io_count [simp]: "calm s (s\<lparr>io_count := n\<rparr>)"
  by (simp add: calm_def)

lemma io_follows:
  "follows held (io e)" "follows quiet (io e)" "follows data_same (io e)"
  by (rule followsI; drule io_simple; simp add: held_def quiet_def settled_def data_same_def policy_of_eq)+

lemma held_modify [held_intros]:
  "(\<And>s. rs_reservation_active (f s) = rs_reservation_active s \<and> policy_of (f s) = policy_of s
        \<and> rs_sampled (f s) = rs_sampled s) \<Longrightarrow> follows held (eff_modify f)"
  by (rule held.f_modify) (simp add: held_def)

lemma sql_query_held [held_intros]: "follows held (sql_query f)"
  unfolding sql_query_def by (intro held.rules io_follows)

lemma sql_exec_held [held_intros]: "follows held (sql_exec c f)"
  unfolding sql_exec_def by (intro held.rules io_follows held_modify) (simp add: policy_of_eq)

lemma verify_root_held [held_intros]: "follows held verify_root"
  unfolding verify_root_def by (rule io_follows)

lemma store_check_held [held_intros]: "follows held (store_check a)"
  unfolding store_check_def by (intro held.rules held_intros)

lemma control_reservation_held [held_intros]:
  "follows held body \<Longrightarrow> follows held (control_reservation cb body)"
  by (auto simp: follows_def held_def control_reservation_def)

lemma control_operation_held [held_intros]:
  "follows held body \<Longrightarrow> follows held (control_operation cb body)"
  unfolding control_operation_def by (intro held.rules held_intros)

lemma rollback_held [held_intros]: "follows held rollback"
  by (rule followsI)
     (auto simp: rollback_def held_def eff_bind_def eff_modify_def policy_of_eq split: option.splits prod.splits sum.splits
       dest!: io_simple)

lemma transaction_held [held_intros]: "follows held body \<Longrightarrow> follows held (transaction cb body)"
  unfolding transaction_def begin_immediate_def commit_def
  by (intro held.rules held_intros io_follows) (simp_all add: policy_of_eq)

lemma or_fail_held [held_intros]: "follows held m \<Longrightarrow> follows held (or_fail m)"
  unfolding or_fail_def by (intro held.rules held_intros) (simp_all add: policy_of_eq)

lemma unlink_seg_held [held_intros]: "follows held (unlink_seg gid)"
  unfolding unlink_seg_def by (intro held.rules held_intros io_follows) (simp add: policy_of_eq)

lemma drop_segment_held [held_intros]: "follows held (drop_segment cb gid)"
  unfolding drop_segment_def by (intro held.rules held_intros io_follows)

lemma evict_loop_held [held_intros]: "follows held (evict_loop l gs t n)"
  by (induction l gs t n rule: evict_loop.induct) (auto intro!: held.rules held_intros)

lemma trim_held [held_intros]: "follows held (trim cb)"
  unfolding trim_def trim_spool_def by (intro held.rules held_intros)

lemma get_recording_held [held_intros]: "follows held (get_recording rid)"
  unfolding get_recording_def by (intro held.rules held_intros) (auto intro: held.rules split: option.split)

lemma usage_bytes_held [held_intros]: "follows held (usage_bytes x y)"
  unfolding usage_bytes_def by (intro held.rules held_intros)

lemma prepare_delete_on_held [held_intros]: "follows held (prepare_delete_on cb c rid ow)"
  unfolding prepare_delete_on_def by (intro held.rules held_intros)

lemma finish_prepared_delete_held [held_intros]: "follows held (finish_prepared_delete cb rid n)"
  unfolding finish_prepared_delete_def by (intro held.rules held_intros)

text \<open>What the statements of a transaction leave alone.\<close>

definition tx_frame :: "recorder \<Rightarrow> recorder \<Rightarrow> bool" where
  "tx_frame s s' \<longleftrightarrow>
     (in_transaction s \<longrightarrow> rs_saved s' = rs_saved s \<and> rs_seg_files s' = rs_seg_files s
        \<and> rs_part_files s' = rs_part_files s \<and> rs_limits s' = rs_limits s)"

interpretation tx_frame: preorder_relation tx_frame
  by unfold_locales (auto simp: tx_frame_def)

lemma io_tx_frame: "follows tx_frame (io e)"
  by (rule followsI; drule io_simple; simp add: tx_frame_def)

lemma sql_tx_frame: "follows tx_frame (sql_query f)" "follows tx_frame (sql_exec c g)"
  unfolding sql_query_def sql_exec_def
  by (intro tx_frame.rules tx_frame.f_modify io_tx_frame; simp add: tx_frame_def)+

text \<open>
  The core of a transaction without its reservation: it leaves the committed data alone, or commits what its
  body did.
\<close>

lemma core_transaction:
  assumes run: "eff_catch (eff_then begin_immediate (eff_bind body (\<lambda>x. eff_then commit (eff_return x))))
      (\<lambda>e. eff_then rollback (eff_raise e)) s = (r, s')"
    and none: "rs_saved s = None"
    and body: "follows tx_frame body"
  shows "rs_seg_files s' = rs_seg_files s \<and> rs_part_files s' = rs_part_files s \<and> rs_limits s' = rs_limits s
    \<and> ((\<exists>e. r = Inl e) \<and> durable s' = durable s \<or>
       (\<exists>s1 y s2. in_transaction s1 \<and> rs_db s1 = rs_db s \<and> rs_seg_files s1 = rs_seg_files s
          \<and> rs_limits s1 = rs_limits s \<and> body s1 = (Inr y, s2) \<and> rs_saved s' = None \<and> rs_db s' = rs_db s2
          \<and> r = Inr y))"
proof -
  obtain r0 s0 where i0: "io Recording_DatabaseError s = (r0, s0)" by (meson surj_pair)
  let ?s1 = "s0\<lparr>rs_saved := Some (rs_db s0)\<rparr>"
  obtain r1 s2 where b: "body ?s1 = (r1, s2)" by (meson surj_pair)
  obtain r2 s3 where i2: "io Recording_DatabaseError s2 = (r2, s3)" by (meson surj_pair)
  obtain r3 s4 where i3: "io Recording_DatabaseError s3 = (r3, s4)" by (meson surj_pair)
  note ios = io_simple [OF i0] io_simple [OF i2] io_simple [OF i3]
  have keep: "rs_saved s2 = Some (rs_db s0)" "rs_seg_files s2 = rs_seg_files s0"
      "rs_part_files s2 = rs_part_files s0" "rs_limits s2 = rs_limits s0"
    using followsD [OF body b] by (simp_all add: tx_frame_def)
  note ops = eff_catch_def eff_bind_def begin_immediate_def commit_def rollback_def eff_modify_def eff_return_def
    eff_raise_def
  consider (start) e where "r0 = Inl e" | (raised) u e where "r0 = Inr u" "r1 = Inl e"
    | (failed) u y e where "r0 = Inr u" "r1 = Inr y" "r2 = Inl e"
    | (committed) u y v where "r0 = Inr u" "r1 = Inr y" "r2 = Inr v"
    by (metis old.sum.exhaust)
  then show ?thesis
  proof cases
    case start
    then have "r = Inl e" "s' = s0" using run i0 ios none by (simp_all add: ops)
    then show ?thesis using ios none by (simp add: durable_def)
  next
    case raised
    then show ?thesis
      using run i0 b i2 ios none keep by (cases r2) (auto simp: ops durable_def)
  next
    case failed
    then show ?thesis
      using run i0 b i2 i3 ios none keep by (cases r3) (auto simp: ops durable_def)
  next
    case committed
    then have "r = Inr y" "s' = s3\<lparr>rs_saved := None\<rparr>" using run i0 b i2 by (simp_all add: ops)
    moreover have "in_transaction ?s1" "rs_db ?s1 = rs_db s" "rs_seg_files ?s1 = rs_seg_files s"
        "rs_limits ?s1 = rs_limits s" "rs_db s3 = rs_db s2"
      using ios by simp_all
    moreover have "rs_seg_files s3 = rs_seg_files s" "rs_part_files s3 = rs_part_files s" "rs_limits s3 = rs_limits s"
      using ios keep by simp_all
    moreover have "body ?s1 = (Inr y, s2)" using b committed(2) by simp
    ultimately show ?thesis
      by (intro conjI disjI2 exI [of _ ?s1] exI [of _ y] exI [of _ s2]) simp_all
  qed
qed

definition media_closed :: "(rec_db \<Rightarrow> bool) \<Rightarrow> bool" where
  "media_closed X \<longleftrightarrow> (\<forall>d d'. media d' = media d \<longrightarrow> X d \<longrightarrow> X d')"

lemma media_closed_fields:
  "media_closed (\<lambda>d. P (db_recordings d) (db_segments d) (db_links d) (db_cursors d) (db_source_discontinuities d))"
  unfolding media_closed_def
proof (intro allI impI)
  fix d d' assume m: "media d' = media d" and
    "P (db_recordings d) (db_segments d) (db_links d) (db_cursors d) (db_source_discontinuities d)"
  then show "P (db_recordings d') (db_segments d') (db_links d') (db_cursors d') (db_source_discontinuities d')"
    by (simp add: media_eq [OF m])
qed

lemma media_closed_conj: "\<lbrakk>media_closed X; media_closed Y\<rbrakk> \<Longrightarrow> media_closed (\<lambda>d. X d \<and> Y d)"
  unfolding media_closed_def by blast

section \<open>The port the store uses\<close>

locale control_port =
  fixes cb :: rec_callbacks
  assumes control_data: "admit_control cb s = (r, s') \<Longrightarrow>
      data_same s s' \<and> rs_reservation_active s' = rs_reservation_active s"
    and control_granted: "admit_control cb s = (Inr u, s') \<Longrightarrow>
      sp_thread s = sp_owner s \<and> \<not> sp_reservation s
      \<and> policy_of s' = (policy_of s)\<lparr>sp_reservation := True,
                          sp_reserved_media := 0, sp_reserved_total := write_overhead_bytes (sp_limits s)\<rparr>"
    and control_refused: "\<lbrakk>admit_control cb s = (Inl e, s');
      sp_reservation s \<or> sp_reserved_media s = 0 \<and> sp_reserved_total s = 0\<rbrakk> \<Longrightarrow> calm s s'"
begin

lemma release_after_grant:
  assumes "policy_of s' = (policy_of s)\<lparr>sp_reservation := True, sp_reserved_media := 0, sp_reserved_total := t\<rparr>"
    and "sp_thread s = sp_owner s"
  obtains s'' where "release_reservation s' = (Inr (), s'')" "\<not> rs_reservation_active s''" "data_same s' s''"
    "\<lbrakk>\<not> sp_reservation s; sp_reserved_media s = 0; sp_reserved_total s = 0\<rbrakk> \<Longrightarrow> calm s s''"
    "\<not> sp_reservation s''" "sp_reserved_media s'' = 0" "sp_reserved_total s'' = 0" "sp_state s'' = sp_state s"
proof -
  let ?s'' = "s'\<lparr>rs_reservation_active := False, sp_reservation := False, sp_reserved_media := 0, sp_reserved_total := 0\<rparr>"
  have p: "sp_thread s' = sp_thread s" "sp_owner s' = sp_owner s" "sp_limits s' = sp_limits s"
    "sp_bound s' = sp_bound s" "sp_state s' = sp_state s" "sp_reservation s'"
    using assms(1) by (simp_all add: storage_policy.truncate_def)
  show thesis
  proof (rule that)
    show "release_reservation s' = (Inr (), ?s'')"
      using p assms(2) by (simp add: release_reservation_def policy_release_def)
  qed (use p in \<open>simp_all add: data_same_def calm_def\<close>)
qed

lemma control_reservation_quiet:
  assumes body: "follows held body"
  shows "follows quiet (control_reservation cb body)"
proof (rule followsI)
  fix s r s' assume run: "control_reservation cb body s = (r, s')"
  show "quiet s s'"
    unfolding quiet_def
  proof
    assume set: "settled s"
    obtain ra s1 where admit: "admit_control cb s = (ra, s1)" by (meson surj_pair)
    show "settled s' \<and> calm s s'"
    proof (cases ra)
      case (Inl e)
      then have "s' = s1" using run admit set by (simp add: control_reservation_def settled_def eff_bind_def)
      moreover have "calm s s1"
        using control_refused [of s e s1] admit Inl set unfolding settled_def by blast
      moreover have "rs_reservation_active s1 = rs_reservation_active s"
        using control_data [OF admit] by blast
      ultimately show ?thesis using set by (auto simp: settled_def calm_def)
    next
      case (Inr u)
      let ?s1 = "s1\<lparr>rs_reservation_active := True\<rparr>"
      obtain rb s2 where rb: "body ?s1 = (rb, s2)" by (meson surj_pair)
      have "held ?s1 s2" by (rule followsD [OF body rb])
      then have "policy_of s2 = policy_of s1" by (simp add: held_def policy_of_eq)
      moreover have "admit_control cb s = (Inr u, s1)" using admit Inr by simp
      note control_granted [OF this]
      ultimately have "policy_of s2 = (policy_of s)\<lparr>sp_reservation := True, sp_reserved_media := 0,
          sp_reserved_total := write_overhead_bytes (sp_limits s)\<rparr>" "sp_thread s = sp_owner s" "\<not> sp_reservation s"
        by argo+
      from release_after_grant [OF this(1,2)] this(3) set obtain s'' where
        "release_reservation s2 = (Inr (), s'')" "\<not> rs_reservation_active s''" "calm s s''"
        "sp_reserved_media s'' = 0" "sp_reserved_total s'' = 0"
        by (auto simp: settled_def)
      then show ?thesis
        using run admit Inr rb set
        by (simp add: control_reservation_def settled_def eff_bind_def eff_modify_def eff_finally_def)
    qed
  qed
qed

lemma store_check_quiet: "follows quiet (store_check a)"
  unfolding store_check_def verify_root_def by (intro quiet.rules io_follows)

lemma control_operation_quiet:
  "follows held body \<Longrightarrow> follows quiet (control_operation cb body)"
  unfolding control_operation_def by (intro quiet.rules control_reservation_quiet store_check_quiet)

lemma delete_recording_quiet: "follows quiet (delete_recording cb rid ow)"
  unfolding delete_recording_def by (intro control_operation_quiet held.rules held_intros)

lemma retention_quiet:
  "follows quiet (retention_expired cb periods now limit)" "follows quiet (retention_oldest cb limit)"
proof -
  have "follows quiet (retention_candidates t n)" for t n
    unfolding retention_candidates_def sql_query_def by (intro quiet.rules store_check_quiet io_follows)
  then have *: "follows quiet (retention_delete cb t limit)" for t
    unfolding retention_delete_def by (intro quiet.rules delete_recording_quiet)
  then show "follows quiet (retention_oldest cb limit)" by (simp add: retention_oldest_def)
  show "follows quiet (retention_expired cb periods now limit)"
    using * by (auto simp: retention_expired_def Let_def intro: quiet.rules)
qed

text \<open>
  What a control reservation does to the data: either it is refused and nothing happens, or the body runs on
  the same data and the release leaves the body's data alone.
\<close>

lemma release_data: "release_reservation s = (r, s') \<Longrightarrow> data_same s s'"
  by (auto simp: release_reservation_def policy_release_def data_same_def split: if_splits)

lemma control_reservation_cases:
  assumes "control_reservation cb body s = (r, s')"
  shows "(\<exists>e. r = Inl e) \<and> data_same s s' \<or>
    (\<exists>s1 r1 s2. data_same s s1 \<and> body s1 = (r1, s2) \<and> data_same s2 s' \<and> (r = r1 \<or> (\<exists>e. r = Inl e)))"
proof (cases "rs_reservation_active s")
  case True
  then show ?thesis using assms data_same_refl by (metis (no_types) control_reservation_def)
next
  case False
  obtain ra s1 where admit: "admit_control cb s = (ra, s1)" by (meson surj_pair)
  have same: "data_same s s1" using control_data admit by blast
  show ?thesis
  proof (cases ra)
    case (Inl e)
    then have "r = Inl e" "s' = s1"
      using assms admit False by (simp_all add: control_reservation_def eff_bind_def)
    then show ?thesis using same by blast
  next
    case (Inr u)
    let ?s1 = "s1\<lparr>rs_reservation_active := True\<rparr>"
    obtain r1 s2 where b: "body ?s1 = (r1, s2)" by (meson surj_pair)
    obtain rr s3 where rel: "release_reservation s2 = (rr, s3)" by (meson surj_pair)
    have "s' = s3 \<and> (r = r1 \<or> (\<exists>e. r = Inl e))"
      using assms admit Inr b rel False
      by (cases rr) (auto simp: control_reservation_def eff_bind_def eff_modify_def eff_finally_def)
    moreover have "data_same s ?s1" using same by (simp add: data_same_def)
    ultimately show ?thesis using b release_data rel by blast
  qed
qed

text \<open>A relation on the data that data-preserving steps satisfy passes through every guard and reservation.\<close>

lemma control_reservation_follows:
  assumes "preorder_relation R" and data: "\<And>s s'. data_same s s' \<Longrightarrow> R s s'" and body: "follows R body"
  shows "follows R (control_reservation cb body)"
proof (rule followsI)
  fix s r s' assume "control_reservation cb body s = (r, s')"
  from control_reservation_cases [OF this] show "R s s'"
  proof (elim disjE exE conjE)
    assume "data_same s s'"
    then show ?thesis by (rule data)
  next
    fix s1 r1 s2 assume "data_same s s1" "body s1 = (r1, s2)" "data_same s2 s'"
    then have "R s s1" "R s1 s2" "R s2 s'" by (blast intro: data followsD [OF body])+
    then show "R s s'" "R s s'" using preorder_relation.trans [OF assms(1)] by blast+
  qed
qed

lemma transaction_cases:
  assumes run: "transaction cb body s = (r, s')"
    and body: "follows tx_frame body"
  shows "rs_seg_files s' = rs_seg_files s \<and> rs_part_files s' = rs_part_files s \<and> rs_limits s' = rs_limits s
    \<and> ((\<exists>e. r = Inl e) \<and> media (durable s') = media (durable s) \<or>
       (\<exists>s1 y s2. \<not> in_transaction s \<and> in_transaction s1 \<and> media (rs_db s1) = media (rs_db s)
          \<and> rs_seg_files s1 = rs_seg_files s \<and> rs_limits s1 = rs_limits s
          \<and> body s1 = (Inr y, s2) \<and> \<not> in_transaction s' \<and> media (rs_db s') = media (rs_db s2)
          \<and> (r = Inr y \<or> (\<exists>e. r = Inl e))))"
proof -
  let ?core = "eff_catch (eff_then begin_immediate (eff_bind body (\<lambda>x. eff_then commit (eff_return x))))
     (\<lambda>e. eff_then rollback (eff_raise e))"
  show ?thesis
  proof (cases "in_transaction s")
    case True
    then show ?thesis using run by (auto simp: transaction_def eff_bind_def eff_guard_def)
  next
    case False
    then have "control_reservation cb ?core s = (r, s')"
      using run by (simp add: transaction_def eff_bind_def eff_guard_def)
    from control_reservation_cases [OF this]
    consider (refused) e where "r = Inl e" "data_same s s'"
      | (ran) s1 r1 s2 where "data_same s s1" "?core s1 = (r1, s2)" "data_same s2 s'" "r = r1 \<or> (\<exists>e. r = Inl e)"
      by blast
    then show ?thesis
    proof cases
      case refused
      moreover have "media (durable s') = media (durable s)" using data_same_durable [OF refused(2)] .
      ultimately show ?thesis unfolding data_same_def by blast
    next
      case ran
      note s1 = ran(1) and core = ran(2) and s2 = ran(3) and r = ran(4)
      have none: "rs_saved s1 = None" "rs_saved s = None" using s1 False by (simp_all add: data_same_def)
      have dur: "media (durable s1) = media (rs_db s)" "media (durable s') = media (durable s2)"
        "media (durable s) = media (rs_db s)"
        using data_same_durable [OF s1] data_same_durable [OF s2] none by (simp_all add: durable_def)
      note core_eff = core_transaction [OF core none(1) body]
      have files: "rs_seg_files s' = rs_seg_files s \<and> rs_part_files s' = rs_part_files s \<and> rs_limits s' = rs_limits s"
        using core_eff s1 s2 unfolding data_same_def by metis
      from core_eff consider (same) "\<exists>e. r1 = Inl e" "durable s2 = durable s1"
        | (committed) t1 y t2 where "in_transaction t1" "rs_db t1 = rs_db s1" "rs_seg_files t1 = rs_seg_files s1"
            "rs_limits t1 = rs_limits s1" "body t1 = (Inr y, t2)" "rs_saved s2 = None" "rs_db s2 = rs_db t2" "r1 = Inr y"
        by blast
      then show ?thesis
      proof cases
        case same
        then show ?thesis using files r dur by auto
      next
        case committed
        have "\<not> in_transaction s" "media (rs_db t1) = media (rs_db s)" "rs_seg_files t1 = rs_seg_files s"
          "rs_limits t1 = rs_limits s" "\<not> in_transaction s'" "media (rs_db s') = media (rs_db t2)"
          "r = Inr y \<or> (\<exists>e. r = Inl e)"
          using committed s1 s2 r none unfolding data_same_def by simp_all
        then show ?thesis using files committed(1,5) by blast
      qed
    qed
  qed
qed

text \<open>
  For the committed data only the successful runs of a transaction's body matter: a triple about the
  database, insensitive to audit rows, carries over to the committed database.
\<close>

lemma transaction_post:
  assumes run: "transaction cb body s = (r, s')" and frame: "follows tx_frame body"
    and triple: "triple (\<lambda>t. rs_seg_files t = rs_seg_files s \<and> rs_limits t = rs_limits s \<and> X (rs_db t)) body
        (\<lambda>y t. Y y (rs_db t)) (\<lambda>_ _. True)"
    and X: "media_closed X" and Y: "\<And>y. media_closed (Y y)" and pre: "X (durable s)"
  shows "rs_seg_files s' = rs_seg_files s \<and> rs_limits s' = rs_limits s
    \<and> (media (durable s') = media (durable s) \<or> (\<exists>y. Y y (durable s')))
    \<and> (\<forall>y. r = Inr y \<longrightarrow> \<not> in_transaction s \<and> \<not> in_transaction s' \<and> Y y (durable s'))"
proof -
  note c = transaction_cases [OF run frame]
  from c consider (same) e where "r = Inl e" "media (durable s') = media (durable s)"
    | (committed) s1 y s2 where "\<not> in_transaction s" "media (rs_db s1) = media (rs_db s)"
        "rs_seg_files s1 = rs_seg_files s" "rs_limits s1 = rs_limits s" "body s1 = (Inr y, s2)"
        "\<not> in_transaction s'" "media (rs_db s') = media (rs_db s2)" "r = Inr y \<or> (\<exists>e. r = Inl e)"
    by blast
  then show ?thesis
  proof cases
    case same
    then show ?thesis using c by simp
  next
    case committed
    have "X (rs_db s1)"
      using X committed(1,2) pre by (auto simp: media_closed_def durable_def)
    then have "Y y (rs_db s2)" using triple_Inr [OF triple _ committed(5)] committed(3,4) by simp
    then have "Y y (durable s')"
      using Y [of y] committed(6,7) by (auto simp: media_closed_def durable_def)
    then show ?thesis using c committed(1,6,8) by auto
  qed
qed

lemma control_reservation_post:
  assumes triple: "triple (\<lambda>s. P s \<and> X (rs_db s)) body (\<lambda>y s. Y y (rs_db s)) (\<lambda>_ _. True)"
    and P: "\<And>s s'. data_same s s' \<Longrightarrow> P s \<Longrightarrow> P s'"
    and X: "media_closed X" and Y: "\<And>y. media_closed (Y y)"
  shows "triple (\<lambda>s. P s \<and> X (rs_db s)) (control_reservation cb body) (\<lambda>y s. Y y (rs_db s)) (\<lambda>_ _. True)"
proof (rule tripleI)
  fix s y s' assume pre: "P s \<and> X (rs_db s)" and run: "control_reservation cb body s = (Inr y, s')"
  from control_reservation_cases [OF run] obtain s1 s2 where
    "data_same s s1" "body s1 = (Inr y, s2)" "data_same s2 s'" by auto
  moreover have "P s1 \<and> X (rs_db s1)"
    using P [OF \<open>data_same s s1\<close>] X \<open>data_same s s1\<close> pre by (auto simp: data_same_def media_closed_def)
  ultimately have "Y y (rs_db s2)" using triple_Inr [OF triple] by blast
  then show "Y y (rs_db s')"
    using Y [of y] \<open>data_same s2 s'\<close> by (auto simp: data_same_def media_closed_def)
qed simp

lemma control_reservation_db:
  assumes triple: "triple (\<lambda>s. X (rs_db s)) body (\<lambda>y s. Y y (rs_db s)) (\<lambda>_ _. True)"
    and "media_closed X" "\<And>y. media_closed (Y y)"
  shows "triple (\<lambda>s. X (rs_db s)) (control_reservation cb body) (\<lambda>y s. Y y (rs_db s)) (\<lambda>_ _. True)"
  using control_reservation_post [of "\<lambda>_. True" X body Y] assms by simp

end

text \<open>Triples of the database primitives, for the successful runs.\<close>

lemma io_post:
  assumes "\<And>s n. P s \<Longrightarrow> P (s\<lparr>io_count := n\<rparr>)"
  shows "triple P (io e) (\<lambda>_. P) (\<lambda>_ _. True)"
  by (rule tripleI) (auto dest: io_simple intro: assms)

lemma sql_query_post:
  assumes "\<And>s n. P s \<Longrightarrow> P (s\<lparr>io_count := n\<rparr>)"
  shows "triple P (sql_query q) (\<lambda>v s. P s \<and> v = q (rs_db s)) (\<lambda>_ _. True)"
  unfolding sql_query_def
proof (rule triple_bind)
  show "triple P (io Recording_DatabaseError) (\<lambda>_. P) (\<lambda>_ _. True)" by (rule io_post) (rule assms)
qed (simp add: triple_def eff_get_def)

lemma sql_exec_post:
  assumes "\<And>s n. \<lbrakk>P s; c (rs_db s)\<rbrakk> \<Longrightarrow> Q (s\<lparr>io_count := n, rs_db := f (rs_db s)\<rparr>)"
  shows "triple P (sql_exec c f) (\<lambda>_. Q) (\<lambda>_ _. True)"
proof (rule tripleI)
  fix s x s' assume P: "P s" and run: "sql_exec c f s = (Inr x, s')"
  then have "c (rs_db s)" "s' = s\<lparr>io_count := Suc (io_count s), rs_db := f (rs_db s)\<rparr>"
    by (auto simp: sql_exec_def eff_bind_def eff_guard_def eff_modify_def io_def split: if_splits)
  then show "Q s'" using assms [OF P] by simp
qed simp

lemma store_check_post:
  assumes "\<And>s n. P s \<Longrightarrow> P (s\<lparr>io_count := n\<rparr>)"
  shows "triple P (store_check a) (\<lambda>_. P) (\<lambda>_ _. True)"
  unfolding store_check_def verify_root_def
proof (rule triple_bind)
  show "triple P (io RECORDING_ROOT_UNAVAILABLE) (\<lambda>_. P) (\<lambda>_ _. True)" by (rule io_post) (rule assms)
qed (simp add: triple_def eff_guard_def)

end
