(* ===== verification/Recording_Protection.thy ===== *)
theory Recording_Protection
  imports Recording_Evidence
begin

text \<open>
  Automatic deletion never touches protected evidence. A recording is protected while it is starred or
  active; its rows, its links and the footage they name outlive every retention run, at any failure.
\<close>

section \<open>Protected evidence\<close>

definition protected :: "rec_db \<Rightarrow> rec_row \<Rightarrow> bool" where
  "protected d r \<longleftrightarrow> r \<in> set (db_recordings d) \<and> (rc_starred r \<or> rc_status r = Rec_Active)"

text \<open>The journal entry of a segment, apart from the spool mark and the last integrity result.\<close>

definition same_footage :: "seg_row \<Rightarrow> seg_row \<Rightarrow> bool" where
  "same_footage g g' \<longleftrightarrow> g'\<lparr>sg_spool := sg_spool g, sg_integrity := sg_integrity g\<rparr> = g"

definition guarded :: "rec_db \<Rightarrow> uuid \<Rightarrow> bool" where
  "guarded d gid \<longleftrightarrow> (\<exists>r. protected d r \<and> (rc_id r, gid) \<in> set (db_links d))"

definition db_keeps :: "rec_db \<Rightarrow> rec_db \<Rightarrow> bool" where
  "db_keeps d d' \<longleftrightarrow>
     (distinct (map rc_id (db_recordings d)) \<longrightarrow>
        distinct (map rc_id (db_recordings d')) \<and> protected d' = protected d
        \<and> (\<forall>r gid. protected d r \<and> (rc_id r, gid) \<in> set (db_links d) \<longrightarrow> (rc_id r, gid) \<in> set (db_links d'))
        \<and> (\<forall>g \<in> set (db_segments d). guarded d (sg_id g) \<longrightarrow> (\<exists>g' \<in> set (db_segments d'). same_footage g g')))"

definition keeps_evidence :: "recorder \<Rightarrow> recorder \<Rightarrow> bool" where
  "keeps_evidence s s' \<longleftrightarrow>
     db_keeps (durable s) (durable s')
     \<and> (distinct (map rc_id (db_recordings (durable s))) \<longrightarrow>
          (\<forall>gid. guarded (durable s) gid \<longrightarrow> rs_seg_files s' gid = rs_seg_files s gid))"

lemma same_footage_refl [simp]: "same_footage g g"
  by (simp add: same_footage_def)

lemma same_footage_fields:
  "same_footage g g' \<Longrightarrow> sg_id g' = sg_id g \<and> sg_byte_length g' = sg_byte_length g \<and> sg_sha256 g' = sg_sha256 g
     \<and> sg_start_ms g' = sg_start_ms g \<and> sg_end_ms g' = sg_end_ms g \<and> sg_state g' = sg_state g"
  by (cases g; cases g') (simp add: same_footage_def)

lemma same_footage_trans: "\<lbrakk>same_footage a b; same_footage b c\<rbrakk> \<Longrightarrow> same_footage a c"
  by (cases a; cases b; cases c) (simp add: same_footage_def)

lemma db_keeps_guarded:
  "\<lbrakk>db_keeps d d'; distinct (map rc_id (db_recordings d)); guarded d gid\<rbrakk> \<Longrightarrow> guarded d' gid"
  unfolding db_keeps_def guarded_def by metis

lemma db_keeps_trans:
  assumes a: "db_keeps d d'" and b: "db_keeps d' d''"
  shows "db_keeps d d''"
  unfolding db_keeps_def
proof (intro impI conjI allI ballI)
  assume ok: "distinct (map rc_id (db_recordings d))"
  then have ok': "distinct (map rc_id (db_recordings d'))" using a by (simp add: db_keeps_def)
  show "distinct (map rc_id (db_recordings d''))" using ok' b by (simp add: db_keeps_def)
  show "protected d'' = protected d" using ok ok' a b by (simp add: db_keeps_def)
  fix r gid assume "protected d r \<and> (rc_id r, gid) \<in> set (db_links d)"
  then show "(rc_id r, gid) \<in> set (db_links d'')" using ok ok' a b by (simp add: db_keeps_def)
next
  fix g assume ok: "distinct (map rc_id (db_recordings d))" and g: "g \<in> set (db_segments d)" "guarded d (sg_id g)"
  then obtain g' where g': "g' \<in> set (db_segments d')" "same_footage g g'" using a by (auto simp: db_keeps_def)
  have "guarded d' (sg_id g')" using db_keeps_guarded [OF a ok g(2)] same_footage_fields [OF g'(2)] by simp
  moreover have "distinct (map rc_id (db_recordings d'))" using ok a by (simp add: db_keeps_def)
  ultimately obtain g'' where "g'' \<in> set (db_segments d'')" "same_footage g' g''"
    using b g'(1) by (auto simp: db_keeps_def)
  then show "\<exists>g''\<in>set (db_segments d''). same_footage g g''" using same_footage_trans [OF g'(2)] by blast
qed

lemma db_keepsI:
  assumes "distinct (map rc_id (db_recordings d)) \<Longrightarrow> distinct (map rc_id (db_recordings d'))"
    and "protected d' = protected d"
    and "\<And>r gid. \<lbrakk>protected d r; (rc_id r, gid) \<in> set (db_links d)\<rbrakk> \<Longrightarrow> (rc_id r, gid) \<in> set (db_links d')"
    and "\<And>g. \<lbrakk>g \<in> set (db_segments d); guarded d (sg_id g)\<rbrakk> \<Longrightarrow> \<exists>g' \<in> set (db_segments d'). same_footage g g'"
  shows "db_keeps d d'"
  unfolding db_keeps_def using assms by blast

lemma protected_cong: "db_recordings d' = db_recordings d \<Longrightarrow> protected d' = protected d"
  by (intro ext) (simp add: protected_def)

lemma own_footage: "g \<in> S \<Longrightarrow> \<exists>x \<in> S. same_footage g x"
  using same_footage_refl by blast

lemma db_keeps_tables:
  "\<lbrakk>db_recordings d' = db_recordings d; db_links d' = db_links d; db_segments d' = db_segments d\<rbrakk> \<Longrightarrow> db_keeps d d'"
  by (intro db_keepsI protected_cong) (simp_all add: own_footage)

lemma db_keeps_media: "media d' = media d \<Longrightarrow> db_keeps d d'"
  by (rule db_keeps_tables) (rule media_eq, assumption)+

lemma media_closed_keeps: "media_closed (db_keeps d)"
  using db_keeps_trans db_keeps_media unfolding media_closed_def by blast

interpretation keeps_evidence: preorder_relation keeps_evidence
proof
  show "keeps_evidence s s" for s by (simp add: keeps_evidence_def db_keeps_tables)
next
  fix s s' s'' assume a: "keeps_evidence s s'" and b: "keeps_evidence s' s''"
  have "db_keeps (durable s) (durable s'')" using a b db_keeps_trans unfolding keeps_evidence_def by blast
  moreover have "rs_seg_files s'' gid = rs_seg_files s gid"
    if ok: "distinct (map rc_id (db_recordings (durable s)))" and "guarded (durable s) gid" for gid
  proof -
    have "guarded (durable s') gid" "distinct (map rc_id (db_recordings (durable s')))"
      using db_keeps_guarded [OF _ that] a ok unfolding keeps_evidence_def by (blast, simp add: db_keeps_def)
    then show ?thesis using a b that unfolding keeps_evidence_def by simp
  qed
  ultimately show "keeps_evidence s s''" by (simp add: keeps_evidence_def)
qed

lemma data_same_keeps:
  assumes "data_same s s'"
  shows "keeps_evidence s s'"
  using db_keeps_media [OF data_same_durable [OF assms]] assms by (simp add: keeps_evidence_def data_same_def)

section \<open>Statements of the deletion path\<close>

lemma update_segments_keeps:
  assumes "\<And>g. same_footage g (f g)"
  shows "db_keeps d (update_segments c f d)"
proof -
  have "\<exists>g' \<in> set (db_segments (update_segments c f d)). same_footage g g'" if "g \<in> set (db_segments d)" for g
    using that assms [of g] by (intro bexI [of _ "if c g then f g else g"]) (auto simp: update_segments_def)
  then show ?thesis by (intro db_keepsI protected_cong) (simp_all add: update_segments_def)
qed

lemma delete_markers_keeps:
  "db_keeps d (delete_source_discontinuities c d)" "db_keeps d (delete_discontinuities c d)"
  by (rule db_keeps_tables; simp add: delete_source_discontinuities_def delete_discontinuities_def)+

lemma delete_segments_keeps:
  assumes "segments_deletable c d"
  shows "db_keeps d (delete_segments c d)"
proof -
  have "\<not> guarded d (sg_id g)" if "g \<in> set (db_segments d)" "c g" for g
    using assms that by (force simp: segments_deletable_def guarded_def list_all_iff)
  then have "\<exists>g' \<in> set (db_segments (delete_segments c d)). same_footage g g'"
    if "g \<in> set (db_segments d)" "guarded d (sg_id g)" for g
    using that by (intro bexI [of _ g]) (auto simp: delete_segments_def)
  then show ?thesis by (intro db_keepsI protected_cong) (simp_all add: delete_segments_def)
qed

definition unprotected :: "uuid \<Rightarrow> rec_db \<Rightarrow> bool" where
  "unprotected rid d \<longleftrightarrow> (\<forall>r. protected d r \<longrightarrow> rc_id r \<noteq> rid)"

lemma mark_deleting_keeps:
  assumes "unprotected rid d"
  shows "db_keeps d (update_recordings (\<lambda>x. rc_id x = rid) (\<lambda>x. x\<lparr>rc_status := Rec_Deleting\<rparr>) d)"
    "unprotected rid (update_recordings (\<lambda>x. rc_id x = rid) (\<lambda>x. x\<lparr>rc_status := Rec_Deleting\<rparr>) d)"
proof -
  let ?d' = "update_recordings (\<lambda>x. rc_id x = rid) (\<lambda>x. x\<lparr>rc_status := Rec_Deleting\<rparr>) d"
  have ids: "map rc_id (db_recordings ?d') = map rc_id (db_recordings d)"
    by (simp add: update_recordings_def)
  have "protected ?d' r = protected d r" for r
    using assms by (auto simp: protected_def update_recordings_def unprotected_def)
  then have "protected ?d' = protected d" by blast
  moreover have "db_links ?d' = db_links d" "db_segments ?d' = db_segments d"
    by (simp_all add: update_recordings_def)
  ultimately show "db_keeps d ?d'" "unprotected rid ?d'"
    using ids assms by (auto intro!: db_keepsI own_footage simp: unprotected_def)
qed

lemma delete_links_keeps:
  "unprotected rid d \<Longrightarrow> db_keeps d (delete_links (\<lambda>l. fst l = rid) d) \<and> unprotected rid (delete_links (\<lambda>l. fst l = rid) d)"
  using protected_cong [of "delete_links (\<lambda>l. fst l = rid) d" d]
  by (auto intro!: db_keepsI own_footage simp: unprotected_def delete_links_def)

lemma delete_recordings_keeps:
  assumes "unprotected rid d"
  shows "db_keeps d (delete_recordings (\<lambda>r. rc_id r = rid) d)"
proof -
  have "protected (delete_recordings (\<lambda>r. rc_id r = rid) d) = protected d"
    using assms by (intro ext) (auto simp: protected_def unprotected_def delete_recordings_def)
  then show ?thesis by (auto intro!: db_keepsI own_footage simp: delete_recordings_def distinct_map_filter)
qed

section \<open>The deletion path\<close>

named_theorems evidence_intros "computations that keep protected evidence"

lemma io_keeps [evidence_intros]: "follows keeps_evidence (io e)"
  by (rule followsI) (rule data_same_keeps, rule followsD [OF io_follows(3)])

lemma evidence_simple [evidence_intros]:
  "follows keeps_evidence verify_root" "follows keeps_evidence (store_check a)" "follows keeps_evidence (sql_query f)"
  "follows keeps_evidence (usage_bytes x y)"
  unfolding verify_root_def store_check_def sql_query_def usage_bytes_def
  by (intro keeps_evidence.rules io_keeps)+

lemma evidence_flag [evidence_intros]:
  "follows keeps_evidence (eff_modify (\<lambda>s. s\<lparr>rs_failed := f\<rparr>))"
  by (rule keeps_evidence.f_modify) (simp add: data_same_keeps data_same_def)

lemma or_fail_keeps [evidence_intros]: "follows keeps_evidence m \<Longrightarrow> follows keeps_evidence (or_fail m)"
  unfolding or_fail_def by (intro keeps_evidence.rules evidence_intros)

lemma evict_loop_tx: "follows tx_frame (evict_loop l gs t n)"
  by (induction l gs t n rule: evict_loop.induct) (auto intro!: tx_frame.rules sql_tx_frame)

lemma trim_spool_tx: "follows tx_frame (trim_spool l)"
  unfolding trim_spool_def by (intro tx_frame.rules sql_tx_frame evict_loop_tx)

lemma keeps_post:
  assumes "\<And>d. c d \<Longrightarrow> db_keeps d (f d)"
  shows "triple (\<lambda>s. db_keeps d0 (rs_db s)) (sql_exec c f) (\<lambda>_ s. db_keeps d0 (rs_db s)) (\<lambda>_ _. True)"
  by (rule sql_exec_post) (use assms db_keeps_trans in auto)

lemma query_post:
  "triple (\<lambda>s. X (rs_db s)) (sql_query q) (\<lambda>v s. X (rs_db s) \<and> v = q (rs_db s)) (\<lambda>_ _. True)"
  by (rule sql_query_post) simp

lemma query_keep: "triple (\<lambda>s. X (rs_db s)) (sql_query q) (\<lambda>_ s. X (rs_db s)) (\<lambda>_ _. True)"
  by (rule triple_weaken [OF query_post]) auto

lemma evict_loop_post:
  "triple (\<lambda>s. db_keeps d0 (rs_db s)) (evict_loop l gs t n) (\<lambda>_ s. db_keeps d0 (rs_db s)) (\<lambda>_ _. True)"
proof (induction l gs t n rule: evict_loop.induct)
  case (1 l t n)
  show ?case by (simp add: triple_return)
next
  case (2 l g gs t n)
  have "db_keeps d (update_segments (\<lambda>h. sg_id h = sg_id g) (\<lambda>h. h\<lparr>sg_spool := False\<rparr>) d)" for d
    by (rule update_segments_keeps) (simp add: same_footage_def)
  then show ?case using 2 by (auto intro!: triple_bind [OF keeps_post] triple_return)
qed

lemma trim_spool_post:
  "triple (\<lambda>s. db_keeps d0 (rs_db s)) (trim_spool l) (\<lambda>_ s. db_keeps d0 (rs_db s)) (\<lambda>_ _. True)"
proof -
  have "db_keeps d (update_segments (spool_expired l d) (\<lambda>g. g\<lparr>sg_spool := False\<rparr>) d)" for d
    by (rule update_segments_keeps) (simp add: same_footage_def)
  then show ?thesis
    unfolding trim_spool_def
    by (intro triple_bind [OF keeps_post] triple_bind [OF query_keep] triple_bind [OF evict_loop_post]
        keeps_post delete_markers_keeps)
qed

context control_port
begin

lemma control_reservation_keeps:
  "follows keeps_evidence body \<Longrightarrow> follows keeps_evidence (control_reservation cb body)"
  by (rule control_reservation_follows [OF keeps_evidence.preorder_relation_axioms data_same_keeps])

lemma control_operation_keeps:
  "follows keeps_evidence body \<Longrightarrow> follows keeps_evidence (control_operation cb body)"
  unfolding control_operation_def by (intro keeps_evidence.rules evidence_intros control_reservation_keeps)

lemma transaction_keeps:
  assumes frame: "follows tx_frame body"
    and post: "\<And>d0. triple (\<lambda>s. db_keeps d0 (rs_db s)) body (\<lambda>_ s. db_keeps d0 (rs_db s)) (\<lambda>_ _. True)"
  shows "follows keeps_evidence (transaction cb body)"
proof (rule followsI)
  fix s r s' assume run: "transaction cb body s = (r, s')"
  let ?X = "db_keeps (durable s)"
  have "triple (\<lambda>t. rs_seg_files t = rs_seg_files s \<and> rs_limits t = rs_limits s \<and> ?X (rs_db t)) body
      (\<lambda>_ t. ?X (rs_db t)) (\<lambda>_ _. True)"
    by (rule triple_weaken [OF post]) auto
  from transaction_post [OF run frame this media_closed_keeps media_closed_keeps]
  show "keeps_evidence s s'"
    using db_keeps_media [of "durable s'" "durable s"] db_keeps_tables [of "durable s" "durable s"]
    by (auto simp: keeps_evidence_def)
qed

lemma drop_segment_effect:
  assumes free: "\<not> in_transaction s" "\<not> linked (rs_db s) gid" and run: "drop_segment cb gid s = (r, s')"
  shows "keeps_evidence s s' \<and> (r = Inr () \<longrightarrow> \<not> in_transaction s' \<and> db_links (rs_db s') = db_links (rs_db s))"
proof -
  obtain ru s1 where u: "unlink_seg gid s = (ru, s1)" by (meson surj_pair)
  have s1: "rs_saved s1 = rs_saved s" "rs_db s1 = rs_db s"
      "\<And>g. g \<noteq> gid \<Longrightarrow> rs_seg_files s1 g = rs_seg_files s g"
    using u by (auto simp: unlink_seg_def verify_root_def eff_bind_def eff_modify_def dest!: io_simple
        split: prod.splits sum.splits)
  have "\<not> guarded (durable s) gid"
    using free by (auto simp: guarded_def linked_def durable_def list_ex_iff)
  then have "rs_seg_files s1 g = rs_seg_files s g" if "guarded (durable s) g" for g
    using s1(3) [of g] that by (cases "g = gid") auto
  then have k1: "keeps_evidence s s1"
    using s1(1,2) free db_keeps_tables [of "rs_db s1" "rs_db s"] by (auto simp: keeps_evidence_def durable_def)
  let ?stmt = "sql_exec (segments_deletable (\<lambda>g. sg_id g = gid)) (delete_segments (\<lambda>g. sg_id g = gid))"
  have tx: "follows keeps_evidence (transaction cb ?stmt)"
    by (intro transaction_keeps sql_tx_frame keeps_post delete_segments_keeps)
  show ?thesis
  proof (cases ru)
    case (Inl e)
    then have "s' = s1" "r = Inl e" using run u by (simp_all add: drop_segment_def eff_bind_def)
    then show ?thesis using k1 by simp
  next
    case (Inr v)
    obtain ri s2 where i: "io Recording_OSError s1 = (ri, s2)" by (meson surj_pair)
    have k2: "keeps_evidence s1 s2" using followsD [OF io_keeps i] .
    show ?thesis
    proof (cases ri)
      case (Inl e)
      then have "s' = s2" "r = Inl e" using run u Inr i by (simp_all add: drop_segment_def eff_bind_def)
      then show ?thesis using keeps_evidence.trans [OF k1 k2] by simp
    next
      case ok: (Inr w)
      then have t: "transaction cb ?stmt s2 = (r, s')" using run u Inr i by (simp add: drop_segment_def eff_bind_def)
      have "keeps_evidence s2 s'" using followsD [OF tx t] .
      moreover have "\<not> in_transaction s' \<and> db_links (rs_db s') = db_links (rs_db s)" if "r = Inr ()"
      proof -
        have "triple (\<lambda>x. rs_seg_files x = rs_seg_files s2 \<and> rs_limits x = rs_limits s2
            \<and> db_links (rs_db x) = db_links (durable s2)) ?stmt
            (\<lambda>_ x. db_links (rs_db x) = db_links (durable s2)) (\<lambda>_ _. True)"
          by (rule sql_exec_post) (simp add: delete_segments_def)
        from transaction_post [OF t sql_tx_frame(2) this] that
        have "\<not> in_transaction s' \<and> db_links (durable s') = db_links (durable s2)"
          using media_closed_fields [of "\<lambda>_ _ l _ _. l = db_links (durable s2)"] by simp
        then show ?thesis using io_simple [OF i] s1(1,2) free by (auto simp: durable_def)
      qed
      ultimately show ?thesis using keeps_evidence.trans [OF keeps_evidence.trans [OF k1 k2]] by blast
    qed
  qed
qed

lemma drop_loop_keeps:
  "\<lbrakk>keeps_evidence s0 s; \<not> in_transaction s; \<forall>gid \<in> set gids. \<not> linked (rs_db s) gid;
    eff_for gids (drop_segment cb) s = (r, s')\<rbrakk> \<Longrightarrow> keeps_evidence s0 s'"
proof (induction gids arbitrary: s)
  case Nil
  then show ?case by (simp add: eff_return_def)
next
  case (Cons gid gids)
  obtain r1 s1 where 1: "drop_segment cb gid s = (r1, s1)" by (meson surj_pair)
  note eff = drop_segment_effect [OF Cons.prems(2) _ 1]
  have k: "keeps_evidence s0 s1" using eff Cons.prems(1,3) keeps_evidence.trans by auto
  show ?case
  proof (cases r1)
    case (Inl e)
    then show ?thesis using Cons.prems(4) 1 k by (simp add: eff_bind_def)
  next
    case (Inr u)
    then have "\<not> in_transaction s1" "\<forall>gid \<in> set gids. \<not> linked (rs_db s1) gid"
      using eff Cons.prems(3) by (auto simp: linked_def)
    then show ?thesis using Cons.IH [OF k] Cons.prems(4) 1 Inr by (simp add: eff_bind_def)
  qed
qed

lemma trim_keeps: "follows keeps_evidence (trim cb)"
proof -
  have tx: "follows keeps_evidence (transaction cb (trim_spool l))" for l
    by (intro transaction_keeps trim_spool_tx trim_spool_post)
  have "follows keeps_evidence (eff_then (transaction cb (trim_spool l))
      (eff_bind (sql_query unused_segments) (\<lambda>unused. eff_for unused (drop_segment cb))))" for l
  proof (rule followsI)
    fix s r s'
    assume run: "eff_then (transaction cb (trim_spool l))
      (eff_bind (sql_query unused_segments) (\<lambda>unused. eff_for unused (drop_segment cb))) s = (r, s')"
    obtain r1 s1 where 1: "transaction cb (trim_spool l) s = (r1, s1)" by (meson surj_pair)
    have k1: "keeps_evidence s s1" by (rule followsD [OF tx 1])
    obtain r2 s2 where 2: "sql_query unused_segments s1 = (r2, s2)" by (meson surj_pair)
    have k2: "keeps_evidence s s2" using keeps_evidence.trans [OF k1 followsD [OF evidence_simple(3) 2]] .
    show "keeps_evidence s s'"
    proof (cases r1)
      case (Inl e)
      then show ?thesis using run 1 k1 by (simp add: eff_bind_def)
    next
      case ok: (Inr u)
      have "\<not> in_transaction s1"
        using transaction_cases [OF 1 trim_spool_tx] ok by auto
      then have s2: "\<not> in_transaction s2" "\<forall>gid \<in> set us. \<not> linked (rs_db s2) gid" if "r2 = Inr us" for us
        using 2 that by (auto simp: sql_query_def eff_bind_def eff_get_def unused_segments_def dest!: io_simple
            split: prod.splits sum.splits)
      show ?thesis
      proof (cases r2)
        case (Inl e)
        then show ?thesis using run 1 ok 2 k2 by (simp add: eff_bind_def)
      next
        case (Inr us)
        then have "eff_for us (drop_segment cb) s2 = (r, s')" using run 1 ok 2 by (simp add: eff_bind_def)
        then show ?thesis using drop_loop_keeps [OF k2 s2 [OF Inr]] by blast
      qed
    qed
  qed
  then show ?thesis
    unfolding trim_def
    by (intro control_operation_keeps keeps_evidence.f_bind [OF evidence_simple(1)]
        keeps_evidence.f_bind [OF keeps_evidence.f_get])
qed

text \<open>\<open>prepare_delete_on\<close> refuses a protected recording, so what it marks and unlinks is unprotected.\<close>

lemma find_unprotected:
  assumes "find_recording rid d = Some r" "rc_status r \<noteq> Rec_Active" "\<not> rc_starred r"
    and ok: "distinct (map rc_id (db_recordings d))"
  shows "unprotected rid d"
proof -
  have r: "r \<in> set (db_recordings d)" "rc_id r = rid"
    using assms(1) by (auto simp: find_recording_def find_Some_iff)
  have "x = r" if "x \<in> set (db_recordings d)" "rc_id x = rid" for x
    using ok r that by (auto simp: distinct_map dest: inj_onD)
  then show ?thesis using assms(2,3) by (auto simp: unprotected_def protected_def)
qed

end

definition marked :: "rec_db \<Rightarrow> uuid \<Rightarrow> rec_db \<Rightarrow> bool" where
  "marked d0 rid d \<longleftrightarrow> db_keeps d0 d \<and> (distinct (map rc_id (db_recordings d)) \<longrightarrow> unprotected rid d)"

lemma media_closed_unprotected:
  "media_closed (\<lambda>d. distinct (map rc_id (db_recordings d)) \<longrightarrow> unprotected rid d)"
  using media_closed_fields [of "\<lambda>r _ _ _ _. distinct (map rc_id r) \<longrightarrow>
      (\<forall>x. x \<in> set r \<and> (rc_starred x \<or> rc_status x = Rec_Active) \<longrightarrow> rc_id x \<noteq> rid)"]
  by (simp add: unprotected_def protected_def)

lemma media_closed_marked: "media_closed (marked d0 rid)"
  unfolding marked_def by (intro media_closed_conj media_closed_keeps media_closed_unprotected)

lemma get_recording_post:
  "triple (\<lambda>s. X (rs_db s)) (get_recording rid)
     (\<lambda>r s. X (rs_db s) \<and> find_recording rid (rs_db s) = Some r) (\<lambda>_ _. True)"
  unfolding get_recording_def
  by (rule triple_bind [OF query_post]) (auto simp: triple_def eff_raise_def eff_return_def split: option.split)

lemma usage_bytes_post: "triple (\<lambda>s. X (rs_db s)) (usage_bytes x y) (\<lambda>_ s. X (rs_db s)) (\<lambda>_ _. True)"
  unfolding usage_bytes_def by (intro triple_bind [OF store_check_post] query_keep) simp

lemma guard_post: "triple P (eff_guard c e) (\<lambda>_ s. P s \<and> c s) (\<lambda>_ _. True)"
  by (simp add: triple_def eff_guard_def)

lemma sql_keep:
  assumes "\<And>d. X d \<Longrightarrow> X (f d)"
  shows "triple (\<lambda>s. X (rs_db s)) (sql_exec c f) (\<lambda>_ s. X (rs_db s)) (\<lambda>_ _. True)"
  by (rule sql_exec_post) (use assms in simp)

lemma marked_step:
  assumes "unprotected rid d \<Longrightarrow> db_keeps d d' \<and> unprotected rid d'"
    and "distinct (map rc_id (db_recordings d')) \<Longrightarrow> distinct (map rc_id (db_recordings d))"
    and "marked d0 rid d"
  shows "marked d0 rid d'"
proof (cases "distinct (map rc_id (db_recordings d))")
  case True
  then have "db_keeps d d' \<and> unprotected rid d'" using assms(1,3) by (simp add: marked_def)
  then show ?thesis using assms(3) db_keeps_trans by (auto simp: marked_def)
next
  case False
  then have "\<not> distinct (map rc_id (db_recordings d0))" using assms(3) by (auto simp: marked_def db_keeps_def)
  then show ?thesis using False assms(2) by (auto simp: marked_def db_keeps_def)
qed

lemma delete_statements_post:
  "triple (\<lambda>s. marked d0 rid (rs_db s))
     (eff_then (sql_always (update_recordings (\<lambda>x. rc_id x = rid) (\<lambda>x. x\<lparr>rc_status := Rec_Deleting\<rparr>))) (
      eff_then (sql_always (delete_links (\<lambda>l. fst l = rid))) (
      eff_then (sql_always (delete_discontinuities (\<lambda>x. dc_owner x = rid))) (eff_return before))))
     (\<lambda>_ s. marked d0 rid (rs_db s)) (\<lambda>_ _. True)"
proof -
  let ?mark = "update_recordings (\<lambda>x. rc_id x = rid) (\<lambda>x. x\<lparr>rc_status := Rec_Deleting\<rparr>)"
  have ids: "map rc_id (db_recordings (?mark d)) = map rc_id (db_recordings d)" for d
    by (simp add: update_recordings_def)
  have "marked d0 rid d \<Longrightarrow> marked d0 rid (?mark d)" for d
    using marked_step [of rid d "?mark d"] mark_deleting_keeps ids by auto
  moreover have "marked d0 rid d \<Longrightarrow> marked d0 rid (delete_links (\<lambda>l. fst l = rid) d)" for d
    using marked_step [of rid d "delete_links (\<lambda>l. fst l = rid) d"] delete_links_keeps
    by (auto simp: delete_links_def)
  moreover have "marked d0 rid d \<Longrightarrow> marked d0 rid (delete_discontinuities (\<lambda>x. dc_owner x = rid) d)" for d
    using marked_step [of rid d "delete_discontinuities (\<lambda>x. dc_owner x = rid) d"] delete_markers_keeps(2)
    by (auto simp: delete_discontinuities_def unprotected_def protected_def)
  ultimately show ?thesis
    by (intro triple_bind [OF sql_keep] triple_return)
qed

lemma guard_keep: "triple P (eff_guard c e) (\<lambda>_. P) (\<lambda>_ _. True)"
  by (simp add: triple_def eff_guard_def)

context control_port
begin

lemma prepare_delete_post:
  "triple (\<lambda>s. db_keeps d0 (rs_db s)) (prepare_delete_on cb True rid False)
     (\<lambda>_ s. marked d0 rid (rs_db s)) (\<lambda>_ _. True)"
proof -
  have "triple (\<lambda>s. (db_keeps d0 (rs_db s) \<and> find_recording rid (rs_db s) = Some r) \<and>
        \<not> (rc_status r = Rec_Active \<or> rc_starred r \<and> \<not> False))
      (eff_then (sql_always (update_recordings (\<lambda>x. rc_id x = rid) (\<lambda>x. x\<lparr>rc_status := Rec_Deleting\<rparr>))) (
       eff_then (sql_always (delete_links (\<lambda>l. fst l = rid))) (
       eff_then (sql_always (delete_discontinuities (\<lambda>x. dc_owner x = rid))) (eff_return before))))
      (\<lambda>_ s. marked d0 rid (rs_db s)) (\<lambda>_ _. True)" for r before
    by (rule triple_weaken [OF delete_statements_post]) (auto simp: marked_def intro: find_unprotected)
  then have "triple (\<lambda>s. db_keeps d0 (rs_db s))
       (control_reservation cb (
         eff_bind (usage_bytes False False) (\<lambda>before.
         eff_bind (get_recording rid) (\<lambda>r.
         eff_then (eff_guard (\<lambda>_. \<not> (rc_status r = Rec_Active \<or> rc_starred r \<and> \<not> False)) RECORDING_DELETE_REFUSED) (
         eff_then (sql_always (update_recordings (\<lambda>x. rc_id x = rid) (\<lambda>x. x\<lparr>rc_status := Rec_Deleting\<rparr>))) (
         eff_then (sql_always (delete_links (\<lambda>l. fst l = rid))) (
         eff_then (sql_always (delete_discontinuities (\<lambda>x. dc_owner x = rid))) (eff_return before))))))))
       (\<lambda>_ s. marked d0 rid (rs_db s)) (\<lambda>_ _. True)"
    by (intro control_reservation_db media_closed_keeps media_closed_marked
        triple_bind [OF usage_bytes_post] triple_bind [OF get_recording_post] triple_bind [OF guard_post])
  then show ?thesis
    unfolding prepare_delete_on_def
    by (intro triple_bind [OF store_check_post] triple_bind [OF guard_keep]) simp_all
qed

lemma control_reservation_tx: "follows tx_frame body \<Longrightarrow> follows tx_frame (control_reservation cb body)"
  by (rule control_reservation_follows [OF tx_frame.preorder_relation_axioms])
     (simp_all add: tx_frame_def data_same_def)

lemma prepare_delete_tx: "follows tx_frame (prepare_delete_on cb c rid ow)"
proof -
  have "follows tx_frame (get_recording r)" for r
    unfolding get_recording_def by (intro tx_frame.rules sql_tx_frame) (auto intro: tx_frame.rules split: option.split)
  moreover have "follows tx_frame (store_check a)" for a
    unfolding store_check_def verify_root_def by (intro tx_frame.rules io_tx_frame)
  ultimately show ?thesis
    unfolding prepare_delete_on_def usage_bytes_def
    by (intro tx_frame.rules sql_tx_frame control_reservation_tx)
qed

end

text \<open>
  Once a recording is marked, its row may go: nothing protected carries its identifier. The relation
  \<open>keeps_marked rid\<close> is evidence-keeping under that knowledge, and passes it on.
\<close>

definition only_marked :: "uuid \<Rightarrow> rec_db \<Rightarrow> bool" where
  "only_marked rid d \<longleftrightarrow> distinct (map rc_id (db_recordings d)) \<and> unprotected rid d"

definition keeps_marked :: "uuid \<Rightarrow> recorder \<Rightarrow> recorder \<Rightarrow> bool" where
  "keeps_marked rid s s' \<longleftrightarrow>
     (only_marked rid (durable s) \<longrightarrow> keeps_evidence s s' \<and> only_marked rid (durable s'))"

interpretation keeps_marked: preorder_relation "keeps_marked rid"
proof
  show "keeps_marked rid s s" for s by (simp add: keeps_marked_def keeps_evidence.refl)
qed (use keeps_evidence.trans in \<open>unfold keeps_marked_def, blast\<close>)

lemma db_keeps_only_marked: "\<lbrakk>db_keeps d d'; only_marked rid d\<rbrakk> \<Longrightarrow> only_marked rid d'"
  by (simp add: only_marked_def db_keeps_def unprotected_def)

lemma keeps_evidence_marked: "follows keeps_evidence m \<Longrightarrow> follows (keeps_marked rid) m"
  unfolding follows_def keeps_marked_def
  using db_keeps_only_marked unfolding keeps_evidence_def by blast

lemma media_closed_only_marked: "media_closed (only_marked rid)"
  using media_closed_fields [of "\<lambda>r _ _ _ _. distinct (map rc_id r) \<and>
      (\<forall>x. x \<in> set r \<and> (rc_starred x \<or> rc_status x = Rec_Active) \<longrightarrow> rc_id x \<noteq> rid)"]
  by (simp add: only_marked_def [abs_def] unprotected_def protected_def)

context control_port
begin

lemma delete_row_marked:
  "follows (keeps_marked rid) (transaction cb (sql_exec (recordings_deletable (\<lambda>r. rc_id r = rid))
     (delete_recordings (\<lambda>r. rc_id r = rid))))"
    (is "follows _ (transaction cb ?stmt)")
proof (rule followsI)
  fix s r s' assume run: "transaction cb ?stmt s = (r, s')"
  let ?X = "\<lambda>d. only_marked rid d \<and> db_keeps (durable s) d"
  have X: "media_closed ?X" by (intro media_closed_conj media_closed_only_marked media_closed_keeps)
  have step: "?X (delete_recordings (\<lambda>r. rc_id r = rid) d)" if "?X d" for d
    using that delete_recordings_keeps [of rid d] db_keeps_only_marked db_keeps_trans
    unfolding only_marked_def by blast
  then have "triple (\<lambda>t. rs_seg_files t = rs_seg_files s \<and> rs_limits t = rs_limits s \<and> ?X (rs_db t)) ?stmt
      (\<lambda>_ t. ?X (rs_db t)) (\<lambda>_ _. True)"
    by (intro sql_exec_post) simp
  note post = transaction_post [OF run sql_tx_frame(2) this X X]
  show "keeps_marked rid s s'"
    unfolding keeps_marked_def
  proof
    assume m: "only_marked rid (durable s)"
    then have "?X (durable s)" using db_keeps_tables by blast
    from post [OF this] have "rs_seg_files s' = rs_seg_files s" "?X (durable s')"
      using X \<open>?X (durable s)\<close> unfolding media_closed_def by blast+
    then show "keeps_evidence s s' \<and> only_marked rid (durable s')" by (simp add: keeps_evidence_def)
  qed
qed

lemma finish_prepared_delete_marked: "follows (keeps_marked rid) (finish_prepared_delete cb rid before)"
proof -
  note lift = keeps_evidence_marked
  have "follows (keeps_marked rid) (or_fail (eff_then (trim cb) (
       eff_then (transaction cb (sql_exec (recordings_deletable (\<lambda>r. rc_id r = rid))
                                   (delete_recordings (\<lambda>r. rc_id r = rid)))) (
       eff_bind (usage_bytes False False) (\<lambda>after. eff_return (before - after))))))"
    unfolding or_fail_def
    by (intro keeps_marked.rules lift [OF trim_keeps] delete_row_marked lift [OF evidence_simple(4)]
        lift [OF evidence_flag])
  then have "follows (keeps_marked rid) (control_reservation cb (
     eff_then (store_check False) (
     eff_then (eff_guard (\<lambda>_. \<not> before < 0) Recording_ValueError) (
     or_fail (
       eff_then (trim cb) (
       eff_then (transaction cb (sql_exec (recordings_deletable (\<lambda>r. rc_id r = rid))
                                   (delete_recordings (\<lambda>r. rc_id r = rid)))) (
       eff_bind (usage_bytes False False) (\<lambda>after. eff_return (before - after)))))))))"
    by (intro control_reservation_follows keeps_marked.preorder_relation_axioms
        keeps_marked.f_bind [OF lift [OF evidence_simple(2)]] keeps_marked.f_bind [OF keeps_marked.f_guard])
       (auto simp: keeps_marked_def intro: data_same_keeps
         db_keeps_only_marked [OF db_keeps_media [OF data_same_durable]])
  then show ?thesis
    unfolding finish_prepared_delete_def control_operation_def
    by (intro keeps_marked.f_bind [OF lift [OF evidence_simple(2)]])
qed

lemma delete_recording_keeps: "follows keeps_evidence (delete_recording cb rid False)"
proof -
  have "follows keeps_evidence (eff_bind (transaction cb (prepare_delete_on cb True rid False))
      (\<lambda>before. finish_prepared_delete cb rid before))"
  proof (rule followsI)
    fix s r s' assume run: "eff_bind (transaction cb (prepare_delete_on cb True rid False))
      (\<lambda>before. finish_prepared_delete cb rid before) s = (r, s')"
    obtain r1 s1 where 1: "transaction cb (prepare_delete_on cb True rid False) s = (r1, s1)" by (meson surj_pair)
    have "triple (\<lambda>t. rs_seg_files t = rs_seg_files s \<and> rs_limits t = rs_limits s \<and> db_keeps (durable s) (rs_db t))
        (prepare_delete_on cb True rid False) (\<lambda>_ t. marked (durable s) rid (rs_db t)) (\<lambda>_ _. True)"
      by (rule triple_weaken [OF prepare_delete_post]) auto
    note post = transaction_post [OF 1 prepare_delete_tx this media_closed_keeps media_closed_marked
        db_keeps_tables [OF refl refl refl]]
    have k1: "keeps_evidence s s1"
      using post db_keeps_media [of "durable s1" "durable s"] by (auto simp: keeps_evidence_def marked_def)
    show "keeps_evidence s s'"
    proof (cases r1)
      case (Inl e)
      then show ?thesis using run 1 k1 by (simp add: eff_bind_def)
    next
      case (Inr before)
      then have "finish_prepared_delete cb rid before s1 = (r, s')" using run 1 by (simp add: eff_bind_def)
      then have f: "keeps_marked rid s1 s'" by (rule followsD [OF finish_prepared_delete_marked])
      show ?thesis
      proof (cases "distinct (map rc_id (db_recordings (durable s)))")
        case True
        then have "only_marked rid (durable s1)"
          using post Inr k1 by (auto simp: only_marked_def marked_def keeps_evidence_def db_keeps_def)
        then show ?thesis using f k1 keeps_evidence.trans unfolding keeps_marked_def by blast
      next
        case False
        then show ?thesis by (simp add: keeps_evidence_def db_keeps_def)
      qed
    qed
  qed
  then show ?thesis
    unfolding delete_recording_def
    by (intro control_operation_keeps keeps_evidence.f_bind [OF evidence_simple(2)])
qed

lemma retention_keeps:
  "follows keeps_evidence (retention_expired cb periods now limit)"
  "follows keeps_evidence (retention_oldest cb limit)"
proof -
  have *: "follows keeps_evidence (retention_delete cb t limit)" for t
    unfolding retention_delete_def retention_candidates_def
    by (intro keeps_evidence.rules evidence_intros delete_recording_keeps)
  then show "follows keeps_evidence (retention_oldest cb limit)" by (simp add: retention_oldest_def)
  show "follows keeps_evidence (retention_expired cb periods now limit)"
    using * by (auto simp: retention_expired_def Let_def intro: keeps_evidence.rules)
qed

end

end
