(* ===== verification/Storage_Worker.thy ===== *)
theory Storage_Worker
  imports Recording_Protection
begin

text \<open>
  The wired worker satisfies the contracts of both sides: its callbacks are a \<open>control_port\<close> for the
  recording store, and together with the retention service a \<open>storage_port\<close> for the storage policy. The
  properties of admission then hold of the running combination.
\<close>

section \<open>Samples, clock and audit\<close>

definition unreserved :: "recorder \<Rightarrow> bool" where
  "unreserved s \<longleftrightarrow> sp_reservation s \<or> sp_reserved_media s = 0 \<and> sp_reserved_total s = 0"

definition aside :: "recorder \<Rightarrow> recorder \<Rightarrow> bool" where
  "aside s s' \<longleftrightarrow> data_same s s' \<and> rs_reservation_active s' = rs_reservation_active s
     \<and> (unreserved s \<longrightarrow> calm s s')
     \<and> (sp_reservation s \<longrightarrow> sp_state s' = sp_state s \<and> rs_sampled s' = rs_sampled s)"

lemma calm_unreserved: "\<lbrakk>calm s s'; unreserved s\<rbrakk> \<Longrightarrow> unreserved s'"
  by (simp add: calm_def unreserved_def)

lemma aside_trans: "\<lbrakk>aside s s'; aside s' s''\<rbrakk> \<Longrightarrow> aside s s''"
  unfolding aside_def
  by (metis calm_fields(5) calm_unreserved calm_trans data_same_trans unreserved_def)

interpretation aside: preorder_relation aside
proof
  show "aside s s" for s by (simp add: aside_def)
qed (rule aside_trans)

definition good_callbacks :: "rec_callbacks \<Rightarrow> bool" where
  "good_callbacks cb \<longleftrightarrow>
     cb_space cb = filesystem_snapshot \<and> cb_clock cb = now_ms_clock \<and> (\<forall>e. follows aside (cb_audit cb e))"

lemma snapshot_effect:
  assumes "filesystem_snapshot s = (r, s')"
  shows "data_same s s' \<and> rs_reservation_active s' = rs_reservation_active s \<and> policy_of s' = policy_of s
    \<and> rs_db s' = rs_db s \<and> (\<forall>space. r = Inr space \<longrightarrow> rs_sampled s' = space)"
  using assms by (auto simp: filesystem_snapshot_def io_def data_same_def policy_of_eq split: if_splits)

lemma clock_effect:
  assumes "now_ms_clock s = (r, s')"
  shows "data_same s s' \<and> rs_reservation_active s' = rs_reservation_active s \<and> policy_of s' = policy_of s
    \<and> rs_sampled s' = rs_sampled s \<and> (\<exists>now. r = Inr now)"
  using assms by (auto simp: now_ms_clock_def data_same_def policy_of_eq)

lemma good_transition:
  assumes good: "good_callbacks cb" and run: "transition cb st s = (r, s')"
  shows "data_same s s' \<and> rs_reservation_active s' = rs_reservation_active s
    \<and> (unreserved s \<longrightarrow> calm (s\<lparr>sp_state := st\<rparr>) s')"
proof (cases "sp_state s = st")
  case True
  then show ?thesis using run by (simp add: transition_def calm_def)
next
  case False
  let ?s0 = "s\<lparr>sp_state := st\<rparr>"
  obtain rc s1 where clock: "now_ms_clock ?s0 = (rc, s1)" by (meson surj_pair)
  note c = clock_effect [OF clock]
  then obtain now where now: "rc = Inr now" by blast
  obtain ra s2 where audit: "cb_audit cb \<lparr>tr_previous = sp_state s, tr_current = st, tr_at_ms = now\<rparr> s1 = (ra, s2)"
    by (meson surj_pair)
  have a: "aside s1 s2" using good audit followsD unfolding good_callbacks_def by fast
  have s': "s' = s2 \<or> s' = s2\<lparr>sp_audit_delivery_failed := True\<rparr>"
    using run False clock now audit good
    by (cases ra) (auto simp: transition_def eff_bind_def good_callbacks_def)
  have "data_same ?s0 s2" "rs_reservation_active s2 = rs_reservation_active ?s0"
    using a c data_same_trans unfolding aside_def by metis+
  moreover have "calm ?s0 s2" if "unreserved s"
  proof -
    have "unreserved s1" using that c by (simp add: unreserved_def policy_of_eq)
    then have "calm s1 s2" using a unfolding aside_def by blast
    moreover have "calm ?s0 s1" using c policy_of_calm by blast
    ultimately show ?thesis using calm_trans by blast
  qed
  ultimately show ?thesis using s' by (auto simp: data_same_def)
qed

lemma good_hard_stop:
  assumes good: "good_callbacks cb" and run: "hard_stop cb s = (r, s')"
  shows "data_same s s' \<and> rs_reservation_active s' = rs_reservation_active s \<and> (unreserved s \<longrightarrow> calm s s')"
proof -
  obtain rt s1 where t: "transition cb HARD_STOP s = (rt, s1)" by (meson surj_pair)
  then have "s' = s1" using run transition_returns [of cb HARD_STOP s]
    by (auto simp: hard_stop_def eff_bind_def eff_raise_def)
  then show ?thesis using good_transition [OF good t] by (auto simp: calm_def)
qed

lemma good_admit_control:
  assumes good: "good_callbacks cb" and run: "admit_control cb s = (r, s')"
  shows "data_same s s' \<and> rs_reservation_active s' = rs_reservation_active s
    \<and> (r = Inr () \<longrightarrow> sp_thread s = sp_owner s \<and> \<not> sp_reservation s
        \<and> policy_of s' = (policy_of s)\<lparr>sp_reservation := True, sp_reserved_media := 0,
                            sp_reserved_total := write_overhead_bytes (sp_limits s)\<rparr>)
    \<and> (\<forall>e. r = Inl e \<longrightarrow> unreserved s \<longrightarrow> calm s s')"
proof (cases "sp_thread s \<noteq> sp_owner s \<or> sp_reservation s")
  case True
  then show ?thesis using run by (auto simp: admit_control_def)
next
  case False
  obtain r1 s1 where sample: "filesystem_snapshot s = (r1, s1)" by (meson surj_pair)
  note p = snapshot_effect [OF sample]
  have space: "cb_space cb = filesystem_snapshot" using good by (simp add: good_callbacks_def)
  obtain rh sh where h: "hard_stop cb s1 = (rh :: recording_error + unit, sh)" by (meson surj_pair)
  note hs = good_hard_stop [OF good h]
  have unreserved: "unreserved s \<Longrightarrow> unreserved s1" using p by (simp add: unreserved_def policy_of_eq)
  have stop: "data_same s sh \<and> rs_reservation_active sh = rs_reservation_active s \<and> (unreserved s \<longrightarrow> calm s sh)"
    using hs p unreserved policy_of_calm [of s1 s] data_same_trans calm_trans by metis
  have no: "rh \<noteq> Inr ()" using h by auto
  show ?thesis
  proof (cases "\<exists>space. r1 = Inr space \<and> control_space_ok (sp_limits s1) space")
    case True
    then have "r = Inr ()" "s' = s1\<lparr>sp_reservation := True,
        sp_reserved_total := write_overhead_bytes (sp_limits s1), sp_reserved_media := 0\<rparr>"
      using run False sample space by (auto simp: admit_control_def)
    then show ?thesis using p False by (simp add: data_same_def storage_policy.truncate_def policy_of_eq)
  next
    case bad: False
    have "r = rh \<and> s' = sh"
      using bad run False sample space h by (cases r1) (auto simp: admit_control_def)
    then show ?thesis using stop no by auto
  qed
qed

lemma insert_aside: "follows aside (sql_exec c (\<lambda>d. d\<lparr>db_storage_audit := db_storage_audit d @ [e]\<rparr>))"
proof -
  have "follows aside (io err)" for err
    by (rule followsI; drule io_simple; simp add: aside_def data_same_def)
  then show ?thesis
    unfolding sql_exec_def
    by (intro aside.rules aside.f_modify) (auto simp: aside_def data_same_def media_def calm_def)
qed

lemma good_audit_append:
  assumes good: "good_callbacks cb"
  shows "follows aside (audit_append cb e)"
proof (rule followsI)
  fix s r s' assume run: "audit_append cb e s = (r, s')"
  let ?ins = "sql_always (\<lambda>d. d\<lparr>db_storage_audit := db_storage_audit d @ [e]\<rparr>)"
  show "aside s s'"
  proof (cases "in_transaction s \<or> sp_thread s \<noteq> sp_owner s")
    case True
    then have "s' = s" using run
      by (auto simp: audit_append_def eff_bind_def eff_guard_def policy_control_def split: if_splits)
    then show ?thesis by (simp add: aside.refl)
  next
    case False
    then have run': "policy_control cb ?ins s = (r, s')"
      using run by (simp add: audit_append_def eff_bind_def eff_guard_def)
    show ?thesis
    proof (cases "sp_reservation s")
      case True
      then have "?ins s = (r, s')" using run' False by (simp add: policy_control_def)
      then show ?thesis by (rule followsD [OF insert_aside])
    next
      case free: False
      obtain ra s1 where admit: "admit_control cb s = (ra, s1)" by (meson surj_pair)
      note a = good_admit_control [OF good admit]
      obtain ri s2 where ins: "?ins s1 = (ri, s2)" by (meson surj_pair)
      have i: "aside s1 s2" by (rule followsD [OF insert_aside ins])
      show ?thesis
      proof (cases ra)
        case (Inl x)
        then have "s' = s1" using run' free False admit by (simp add: policy_control_def eff_bind_def)
        then show ?thesis using a Inl free by (auto simp: aside_def)
      next
        case (Inr u)
        then have p1: "policy_of s1 = (policy_of s)\<lparr>sp_reservation := True, sp_reserved_media := 0,
            sp_reserved_total := write_overhead_bytes (sp_limits s)\<rparr>" using a by simp
        then have s1: "sp_reservation s1" "sp_thread s1 = sp_thread s" "sp_owner s1 = sp_owner s"
            "sp_limits s1 = sp_limits s" "sp_bound s1 = sp_bound s" "sp_state s1 = sp_state s"
          by (simp_all add: storage_policy.truncate_def)
        then have c2: "calm s1 s2" "sp_state s2 = sp_state s1" using i by (auto simp: aside_def unreserved_def)
        have rel: "policy_release s2 = (Inr (), s2\<lparr>sp_reservation := False, sp_reserved_media := 0,
            sp_reserved_total := 0\<rparr>)"
          using c2 s1 False by (simp add: policy_release_def calm_def)
        have "s' = s2\<lparr>sp_reservation := False, sp_reserved_media := 0, sp_reserved_total := 0\<rparr>"
          using run' free False admit Inr ins rel
          by (simp add: policy_control_def eff_bind_def eff_finally_def)
        moreover have "data_same s s2" using a i data_same_trans unfolding aside_def by blast
        ultimately show ?thesis
          using s1 c2 a i free by (simp add: aside_def data_same_def calm_def unreserved_def)
      qed
    qed
  qed
qed

lemma good_worker_callbacks: "good_callbacks (worker_callbacks n)"
proof (induction n)
  case 0
  show ?case by (simp add: good_callbacks_def aside.f_raise)
next
  case (Suc n)
  then show ?case by (simp add: good_callbacks_def good_audit_append)
qed

lemma good_worker_cb: "good_callbacks worker_cb"
  unfolding worker_cb_def by (rule good_worker_callbacks)

interpretation worker: control_port worker_cb
proof
  fix s r s' assume "admit_control worker_cb s = (r, s')"
  from good_admit_control [OF good_worker_cb this]
  show "data_same s s' \<and> rs_reservation_active s' = rs_reservation_active s" by blast
next
  fix s u s' assume "admit_control worker_cb s = (Inr u, s')"
  from good_admit_control [OF good_worker_cb this]
  show "sp_thread s = sp_owner s \<and> \<not> sp_reservation s \<and> policy_of s' = (policy_of s)\<lparr>sp_reservation := True,
      sp_reserved_media := 0, sp_reserved_total := write_overhead_bytes (sp_limits s)\<rparr>" by simp
next
  fix s e s' assume "admit_control worker_cb s = (Inl e, s')"
    and "sp_reservation s \<or> sp_reserved_media s = 0 \<and> sp_reserved_total s = 0"
  then show "calm s s'" using good_admit_control [OF good_worker_cb] unfolding unreserved_def by blast
qed

section \<open>The policy's side\<close>

definition worker_free :: "recorder \<Rightarrow> bool" where
  "worker_free s \<longleftrightarrow> \<not> rs_reservation_active s"

lemma settled_ready: "settled s \<longleftrightarrow> ready worker_free s"
  by (simp add: settled_def ready_def worker_free_def)

lemma db_usage_media:
  assumes "media d' = media d"
  shows "db_usage d' = db_usage d"
  unfolding db_usage_def starred_segment_def critical_segment_def
  by (intro ext) (simp only: media_eq [OF assms])

lemma usage_bytes_effect:
  assumes "usage_bytes x y s = (r, s')"
  shows "s' = s\<lparr>io_count := io_count s'\<rparr> \<and> (\<forall>v. r = Inr v \<longrightarrow> v = db_usage (rs_db s) x y)"
  using assms
  by (auto simp: usage_bytes_def store_check_def verify_root_def sql_query_def eff_bind_def eff_guard_def eff_get_def
      io_def split: if_splits)

lemma aside_ready:
  assumes "aside s s'" "ready worker_free s"
  shows "ready worker_free s' \<and> calm s s' \<and> db_usage (rs_db s') = db_usage (rs_db s)
    \<and> (sp_reservation s \<longrightarrow> sp_state s' = sp_state s \<and> rs_sampled s' = rs_sampled s)"
proof -
  have "calm s s'" using assms by (auto simp: aside_def unreserved_def ready_def)
  have "media (rs_db s') = media (rs_db s)" using assms by (simp add: aside_def data_same_def)
  note calm = \<open>calm s s'\<close> and usage = db_usage_media [OF this]
  then show ?thesis
    using assms by (simp add: aside_def ready_def worker_free_def calm_def)
qed

lemma quiet_ready: "\<lbrakk>quiet s s'; ready worker_free s\<rbrakk> \<Longrightarrow> ready worker_free s' \<and> calm s s'"
  by (simp add: quiet_def settled_ready)

lemma rest_fields:
  assumes "rest s' = rest s"
  shows "worker_free s' = worker_free s" "rs_sampled s' = rs_sampled s" "rs_db s' = rs_db s"
  using assms by (cases s; cases s'; simp add: worker_free_def)+

interpretation port: storage_port worker_cb worker_binding worker_free rs_sampled "\<lambda>s. db_usage (rs_db s)"
proof
  fix s s' :: recorder assume "rest s' = rest s"
  from rest_fields [OF this] show "worker_free s' = worker_free s \<and> rs_sampled s' = rs_sampled s
      \<and> db_usage (rs_db s') = db_usage (rs_db s)" by simp
next
  fix s r s' assume e: "ready worker_free s" "cb_space worker_cb s = (r, s')"
  then show "ready worker_free s' \<and> policy_of s' = policy_of s \<and> db_usage (rs_db s') = db_usage (rs_db s)
      \<and> (\<forall>space. r = Inr space \<longrightarrow> rs_sampled s' = space)"
    using snapshot_effect [of s r s'] by (auto simp: ready_def worker_free_def policy_of_eq)
next
  fix s x y r s' assume "ready worker_free s" "inv_usage_bytes worker_binding x y s = (r, s')"
  then show "ready worker_free s' \<and> policy_of s' = policy_of s \<and> db_usage (rs_db s') = db_usage (rs_db s)
      \<and> rs_sampled s' = rs_sampled s \<and> (\<forall>n. r = Inr n \<longrightarrow> n = db_usage (rs_db s) x y)"
    using usage_bytes_effect [of x y s r s']
    by (cases s; cases s') (simp add: ready_def worker_free_def policy_of_eq worker_binding_def)
next
  fix s r s' assume e: "ready worker_free s" and "cb_clock worker_cb s = (r, s')"
  then have c: "now_ms_clock s = (r, s')" by simp
  have "db_usage (rs_db s') = db_usage (rs_db s)"
    by (rule db_usage_media) (use clock_effect [OF c] in \<open>simp add: data_same_def\<close>)
  then show "ready worker_free s' \<and> policy_of s' = policy_of s \<and> db_usage (rs_db s') = db_usage (rs_db s)
      \<and> rs_sampled s' = rs_sampled s"
    using clock_effect [OF c] e by (auto simp: ready_def worker_free_def policy_of_eq)
next
  fix s e r s' assume "ready worker_free s" and a: "cb_audit worker_cb e s = (r, s')"
  moreover have "aside s s'" using followsD [OF good_audit_append [OF good_worker_cb]] a worker_cb_audit by simp
  ultimately show "ready worker_free s' \<and> calm s s' \<and> db_usage (rs_db s') = db_usage (rs_db s)
      \<and> (sp_reservation s \<longrightarrow> sp_state s' = sp_state s \<and> rs_sampled s' = rs_sampled s)"
    using aside_ready by blast
next
  fix s now limit r s' assume e: "ready worker_free s" and "rec_expired worker_binding now limit s = (r, s')"
  then have "retention_expired worker_cb default_periods now limit s = (r, s')" by (simp add: worker_binding_def)
  from quiet_ready [OF followsD [OF worker.retention_quiet(1) this] e]
  show "ready worker_free s' \<and> calm s s'" .
next
  fix s limit r s' assume e: "ready worker_free s" and "rec_oldest worker_binding limit s = (r, s')"
  then have "retention_oldest worker_cb limit s = (r, s')" by (simp add: worker_binding_def)
  from quiet_ready [OF followsD [OF worker.retention_quiet(2) this] e]
  show "ready worker_free s' \<and> calm s s'" .
qed

section \<open>Admission leaves the data alone, reclamation keeps the evidence\<close>

named_theorems data_intros "policy operations that leave recordings, journal and files alone"

lemma transition_data [data_intros]: "follows data_same (transition worker_cb st)"
  by (rule followsI) (use good_transition [OF good_worker_cb] in blast)

lemma hard_stop_data [data_intros]: "follows data_same (hard_stop worker_cb)"
  unfolding hard_stop_def by (intro data_same.rules transition_data)

lemma snapshot_data [data_intros]: "follows data_same filesystem_snapshot"
  by (rule followsI) (use snapshot_effect in blast)

lemma clock_data [data_intros]: "follows data_same now_ms_clock"
  by (rule followsI) (use clock_effect in blast)

lemma usage_data [data_intros]: "follows data_same (usage_bytes x y)"
  unfolding usage_bytes_def store_check_def verify_root_def sql_query_def
  by (intro data_same.rules io_follows)

lemma data_modify [data_intros]:
  "(\<And>s. rest (f s) = rest s) \<Longrightarrow> follows data_same (eff_modify f)"
proof (rule data_same.f_modify)
  fix s :: recorder assume "\<And>s. rest (f s) = rest s"
  from this [of s] show "data_same s (f s)" by (cases s; cases "f s") (simp add: data_same_def)
qed

lemma policy_check_data [data_intros]: "follows data_same policy_check"
  unfolding policy_check_def by (rule data_same.f_guard)

lemma policy_read_data [data_intros]: "follows data_same (policy_read worker_cb worker_binding)"
  unfolding policy_read_def sample_def
  by (simp add: worker_binding_def) (intro data_same.rules data_intros)

lemma data_pure [data_intros]: "follows data_same (\<lambda>s. (g s, s))"
  by (simp add: follows_def)

lemma data_cond [data_intros]:
  "\<lbrakk>follows data_same m; follows data_same m'\<rbrakk> \<Longrightarrow> follows data_same (\<lambda>s. if c s then m s else m' s)"
  by (simp add: follows_def)

lemma state_for_data [data_intros]: "follows data_same (state_for worker_cb space used)"
  using transition_data unfolding follows_def state_for_def by simp

lemma guard_metadata_data [data_intros]: "follows data_same (guard_metadata worker_cb worker_binding)"
  unfolding guard_metadata_def case_prod_unfold by (intro data_same.rules data_intros)

lemma reserve_data [data_intros]: "follows data_same (reserve m t)"
  unfolding reserve_def by (rule data_modify) simp

lemma policy_release_data [data_intros]: "follows data_same policy_release"
  by (rule followsI) (auto simp: policy_release_def data_same_def split: if_splits)

lemma classify_reserved_data [data_intros]:
  "follows data_same (classify_reserved worker_cb critical m t space used c)"
  unfolding classify_reserved_def
  by (intro data_same.rules data_intros)

lemma admit_sampled_data: "follows data_same (admit_sampled worker_cb worker_binding m t critical)"
  unfolding admit_sampled_def case_prod_unfold by (intro data_same.rules data_intros)

lemma admit_external_data: "follows data_same (admit_external worker_cb worker_binding m)"
  unfolding admit_external_def case_prod_unfold by (intro data_same.rules data_intros)

lemma data_evidence: "follows data_same m \<Longrightarrow> follows keeps_evidence m"
  unfolding follows_def using data_same_keeps by blast

lemma reclaim_loop_keeps:
  "follows keeps_evidence (reclaim_loop worker_cb worker_binding t m recovering n)"
proof (induction n)
  case (Suc n)
  have "follows keeps_evidence (rec_oldest worker_binding 1)"
    using worker.retention_keeps(2) by (simp add: worker_binding_def)
  then show ?case
    using Suc unfolding reclaim_loop.simps case_prod_unfold
    by (intro keeps_evidence.rules data_evidence [OF policy_read_data])
qed (simp add: keeps_evidence.f_return)

lemma policy_admit_keeps: "follows keeps_evidence (policy_admit worker_cb worker_binding m critical)"
proof -
  have "follows keeps_evidence (rec_expired worker_binding now limit)" for now limit
    using worker.retention_keeps(1) by (simp add: worker_binding_def)
  then have "follows keeps_evidence (reclaim worker_cb worker_binding t m)" for t
    unfolding reclaim_def worker_cb_fields
    by (intro keeps_evidence.rules reclaim_loop_keeps data_evidence [OF clock_data] data_evidence [OF data_modify]) simp_all
  then show ?thesis
    unfolding policy_admit_def
    by (intro keeps_evidence.rules data_evidence [OF policy_check_data] data_evidence [OF guard_metadata_data]
        data_evidence [OF admit_sampled_data] data_evidence [OF data_modify]) simp_all
qed

section \<open>Properties of admission\<close>

text \<open>
  A worker whose unstarred recording 2 must make room for a request, while the starred recording 1 stays.
\<close>

definition ex_storage_limits :: storage_limits where
  "ex_storage_limits =
     \<lparr>recording_limit_bytes = 1000, critical_allowance_bytes = 300, hard_reserve_bytes = 100,
      pressure_free_bytes = 200, recovery_free_bytes = 300, recovery_allocation_bytes = 800,
      write_overhead_bytes = 10, max_request_bytes = 500, cleanup_batch_size = 5\<rparr>"

definition ex_rec_limits :: rec_limits where
  "ex_rec_limits =
     \<lparr>pre_roll_bytes = 300, max_segment_bytes = 500, max_segment_ms = 10000, max_active_recordings = 4,
      max_spool_segments = 8, max_segments_per_recording = 8, pre_roll_ms = 30000, max_sources = 4\<rparr>"

definition ex_segment_row :: "uuid \<Rightarrow> int \<Rightarrow> int \<Rightarrow> seg_row" where
  "ex_segment_row gid start_ms n =
     \<lparr>sg_id = gid, sg_source_id = 7, sg_capture_node_id = None, sg_stream_id = 8, sg_sequence = start_ms,
      sg_start_ms = start_ms, sg_end_ms = start_ms + 1000, sg_codec = ''h264'', sg_container = ''mp4'',
      sg_byte_length = n, sg_sha256 = [], sg_state = Seg_Ready, sg_spool = False, sg_critical = False,
      sg_integrity = Int_Verified\<rparr>"

definition ex_recording :: "uuid \<Rightarrow> int \<Rightarrow> bool \<Rightarrow> rec_row" where
  "ex_recording rid start_ms starred =
     \<lparr>rc_id = rid, rc_source_id = 7, rc_event_id = None, rc_start_ms = start_ms, rc_target_end_ms = start_ms + 1000,
      rc_ended_ms = Some (start_ms + 1000), rc_status = Rec_Complete, rc_critical = False, rc_starred = starred\<rparr>"

definition ex_db :: rec_db where
  "ex_db = empty_db\<lparr>db_segments := [ex_segment_row 11 0 400, ex_segment_row 12 1000 500],
     db_recordings := [ex_recording 1 0 True, ex_recording 2 1000 False], db_links := [(1, 11), (2, 12)]\<rparr>"

definition ex_recorder :: recorder where
  "ex_recorder =
     \<lparr>sp_thread = 0, sp_owner = 0, sp_limits = ex_storage_limits, sp_bound = True, sp_state = NORMAL,
      sp_reserved_media = 0, sp_reserved_total = 0, sp_reservation = False, sp_audit_delivery_failed = False,
      sp_cleanup_failed = False, rs_owner = 0, rs_limits = ex_rec_limits, rs_open = True, rs_failed = False,
      rs_reservation_active = False, rs_db = ex_db, rs_saved = None, rs_seg_files = (\<lambda>_. None),
      rs_part_files = (\<lambda>_. None), rs_sampled = \<lparr>available_bytes = 0, total_bytes = 0\<rparr>, io_count = 0,
      io_ok = (\<lambda>_. True), io_space = (\<lambda>_. \<lparr>available_bytes = 5000, total_bytes = 9000\<rparr>), io_clock = (\<lambda>_. 0)\<rparr>"

definition ex_admission :: "(recording_error, unit, recorder) outcome" where
  "ex_admission = policy_admit worker_cb worker_binding 200 False ex_recorder"

lemma ex_admission_granted: "fst ex_admission = Inr ()"
  by code_simp

lemma ex_admission_reclaimed: "map rc_id (db_recordings (durable (snd ex_admission))) = [1]"
  by code_simp

lemma ex_recorder_facts:
  "settled ex_recorder" "distinct (map rc_id (db_recordings (durable ex_recorder)))"
  "protected (durable ex_recorder) (ex_recording 1 0 True)"
  "(rc_id (ex_recording 1 0 True), sg_id (ex_segment_row 11 0 400)) \<in> set (db_links (durable ex_recorder))"
  "ex_segment_row 11 0 400 \<in> set (db_segments (durable ex_recorder))"
  by (simp_all add: settled_def ex_recorder_def durable_def ex_db_def protected_def ex_recording_def ex_segment_row_def)

text \<open>
  C9. A granted admission is safe. When \<open>MainStoragePolicy.admit\<close> returns, no reservation was live before, the
  reservation is exactly the request plus the metadata overhead, and for the last filesystem sample and the
  inventory: the hard reserve is untouched after the reserved bytes; in the normal state the pressure
  threshold and the recording limit hold; the state only went back to normal above the recovery thresholds;
  and under pressure only critical evidence within its allowance was admitted, after a clean-up that did not
  fail. When it raises, the reservation is as before. This is the policy together with the real recording
  store, retention service and audit, which re-enter it.
\<close>

theorem granted_admission_safe:
  assumes "settled s" and "policy_admit worker_cb worker_binding media_bytes critical s = (r, s')"
  shows "(r = Inr () \<longrightarrow>
      \<not> sp_reservation s
      \<and> granted_ok media_bytes (media_bytes + write_overhead_bytes (sp_limits s)) critical (sp_state s)
          (rs_sampled s') (db_usage (rs_db s') False False) (db_usage (rs_db s') False True) s')
    \<and> (\<forall>e. r = Inl e \<longrightarrow>
      settled s' \<and> sp_reservation s' = sp_reservation s \<and> sp_reserved_media s' = sp_reserved_media s
      \<and> sp_reserved_total s' = sp_reserved_total s)"
  using port.policy_admit_effect [OF _ assms(2)] assms(1) unfolding settled_ready by blast

theorem granted_admission_safe_witness:
  "granted_ok 200 210 False NORMAL (rs_sampled (snd ex_admission)) (db_usage (rs_db (snd ex_admission)) False False)
     (db_usage (rs_db (snd ex_admission)) False True) (snd ex_admission)"
proof -
  have "policy_admit worker_cb worker_binding 200 False ex_recorder = (Inr (), snd ex_admission)"
    using ex_admission_granted by (metis ex_admission_def prod.collapse)
  from granted_admission_safe [OF ex_recorder_facts(1) this] show ?thesis
    by (simp add: ex_recorder_def ex_storage_limits_def)
qed

text \<open>
  C2. Admission never evicts protected evidence. Whatever fails while \<open>admit\<close> runs retention and reclaims
  space, every recording that was starred or active, with footage or just started without any, is still there
  unchanged; every link of it is still there, the journal row of every linked segment is still there up to
  its spool mark and last integrity result, and its file is untouched.
\<close>

theorem admission_keeps_protected_evidence:
  assumes "distinct (map rc_id (db_recordings (durable s)))"
    and "policy_admit worker_cb worker_binding media_bytes critical s = (r, s')"
    and "protected (durable s) rec"
  shows "protected (durable s') rec
    \<and> (\<forall>gid. (rc_id rec, gid) \<in> set (db_links (durable s)) \<longrightarrow>
         (rc_id rec, gid) \<in> set (db_links (durable s')) \<and> rs_seg_files s' gid = rs_seg_files s gid
         \<and> (\<forall>g \<in> set (db_segments (durable s)). sg_id g = gid \<longrightarrow>
              (\<exists>g' \<in> set (db_segments (durable s')). same_footage g g')))"
proof -
  have k: "keeps_evidence s s'" by (rule followsD [OF policy_admit_keeps assms(2)])
  have "guarded (durable s) gid" if "(rc_id rec, gid) \<in> set (db_links (durable s))" for gid
    using assms(3) that by (auto simp: guarded_def)
  then show ?thesis using k assms(1,3) unfolding keeps_evidence_def db_keeps_def by auto
qed

theorem admission_keeps_protected_evidence_witness:
  "map rc_id (db_recordings (durable (snd ex_admission))) = [1]
   \<and> protected (durable (snd ex_admission)) (ex_recording 1 0 True)
   \<and> (\<exists>g' \<in> set (db_segments (durable (snd ex_admission))). same_footage (ex_segment_row 11 0 400) g')"
proof -
  have "policy_admit worker_cb worker_binding 200 False ex_recorder = (Inr (), snd ex_admission)"
    using ex_admission_granted by (metis ex_admission_def prod.collapse)
  note kept = admission_keeps_protected_evidence [OF ex_recorder_facts(2) this ex_recorder_facts(3)]
  show ?thesis using ex_admission_reclaimed kept ex_recorder_facts(4,5) by blast
qed

text \<open>
  Optional artifacts never cost a recording. \<open>admit_external\<close> leaves the committed recordings, the
  journal and the segment files exactly as they are; when it returns, the state is normal, the reservation is
  exactly the request plus the overhead, and from a normal state the pressure threshold and the recording
  limit hold for the projected allocation; when it raises, the reservation is as before.
\<close>

theorem external_admission_keeps_recordings:
  assumes "settled s" and "admit_external worker_cb worker_binding media_bytes s = (r, s')"
  shows "media (durable s') = media (durable s) \<and> rs_seg_files s' = rs_seg_files s
    \<and> (r = Inr () \<longrightarrow> \<not> sp_reservation s \<and> sp_state s' = NORMAL \<and> sp_reservation s'
        \<and> sp_reserved_total s' = media_bytes + write_overhead_bytes (sp_limits s)
        \<and> (sp_state s = NORMAL \<longrightarrow>
             available_bytes (rs_sampled s') - sp_reserved_total s' \<ge> pressure_free_bytes (sp_limits s)
             \<and> db_usage (rs_db s') False False + media_bytes < recording_limit_bytes (sp_limits s)))
    \<and> (\<forall>e. r = Inl e \<longrightarrow> sp_reservation s' = sp_reservation s \<and> sp_reserved_total s' = sp_reserved_total s)"
proof -
  have d: "data_same s s'" by (rule followsD [OF admit_external_data assms(2)])
  show ?thesis
    using port.admit_external_effect [OF assms(1) [unfolded settled_ready] assms(2)] data_same_durable [OF d] d
    unfolding data_same_def by blast
qed

definition ex_external :: "(recording_error, unit, recorder) outcome" where
  "ex_external = admit_external worker_cb worker_binding 80 ex_recorder"

lemma ex_external_granted: "fst ex_external = Inr ()"
  by code_simp

theorem external_admission_keeps_recordings_witness:
  "media (durable (snd ex_external)) = media ex_db \<and> sp_reserved_total (snd ex_external) = 90"
proof -
  have "admit_external worker_cb worker_binding 80 ex_recorder = (Inr (), snd ex_external)"
    using ex_external_granted by (metis ex_external_def prod.collapse)
  from external_admission_keeps_recordings [OF ex_recorder_facts(1) this] show ?thesis
    by (simp add: ex_recorder_def ex_storage_limits_def durable_def)
qed

text \<open>
  C38. The audit recursion ends. Recording a state change takes a control reservation, which can change the
  state and ask for another audit row; two levels of this recursion already satisfy its defining equation,
  so the unrolled callbacks are the running program's.
\<close>

theorem audit_recursion_two_levels:
  "cb_audit worker_cb = audit_append worker_cb \<and> (\<forall>n e s. audit_append (worker_callbacks (Suc n)) e s = audit_append worker_cb e s)"
proof -
  have "audit_append (worker_callbacks (Suc n)) e s = audit_append worker_cb e s" for n e s
    using audit_append_deep [of n e s 1] by (simp add: worker_cb_def numeral_2_eq_2)
  then show ?thesis using worker_cb_audit by simp
qed

end
