(* ===== verification/Recording_Integrity.thy ===== *)
theory Recording_Integrity
  imports Storage_Worker
begin

text \<open>
  The recorded evidence is intact: in the committed journal, every segment that a recording links to or that
  the pre-roll spool offers is published, and its file holds the journaled bytes. The invariant holds for the
  committed data and the files, so it covers a failure or a crash at every system call and statement.
\<close>

section \<open>The invariant\<close>

definition intact_db ::
  "(bytes \<Rightarrow> string) \<Rightarrow> rec_limits \<Rightarrow> (uuid \<Rightarrow> stored_file option) \<Rightarrow> rec_db \<Rightarrow> bool" where
  "intact_db sha256 l files d \<longleftrightarrow>
     distinct (map sg_id (db_segments d))
     \<and> (\<forall>g \<in> set (db_segments d). sg_state g = Seg_Ready \<and> (sg_spool g \<or> linked d (sg_id g)) \<longrightarrow>
          file_integrity sha256 l g (files (sg_id g)) = Int_Verified)
     \<and> (\<forall>x \<in> set (db_links d). \<exists>g \<in> set (db_segments d). sg_id g = snd x \<and> sg_state g = Seg_Ready)"

definition store_intact :: "(bytes \<Rightarrow> string) \<Rightarrow> recorder \<Rightarrow> bool" where
  "store_intact sha256 s \<longleftrightarrow> intact_db sha256 (rs_limits s) (rs_seg_files s) (durable s)"

definition keeps_intact :: "(bytes \<Rightarrow> string) \<Rightarrow> recorder \<Rightarrow> recorder \<Rightarrow> bool" where
  "keeps_intact sha256 s s' \<longleftrightarrow> (store_intact sha256 s \<longrightarrow> store_intact sha256 s' \<and> rs_limits s' = rs_limits s)"

interpretation keeps_intact: preorder_relation "keeps_intact sha256"
  by unfold_locales (auto simp: keeps_intact_def)

lemma media_closed_intact: "media_closed (intact_db sha256 l files)"
  using media_closed_fields [of "\<lambda>_ segs links _ _. distinct (map sg_id segs)
     \<and> (\<forall>g \<in> set segs. sg_state g = Seg_Ready \<and> (sg_spool g \<or> list_ex (\<lambda>x. snd x = sg_id g) links) \<longrightarrow>
          file_integrity sha256 l g (files (sg_id g)) = Int_Verified)
     \<and> (\<forall>x \<in> set links. \<exists>g \<in> set segs. sg_id g = snd x \<and> sg_state g = Seg_Ready)"]
  by (simp add: intact_db_def [abs_def] linked_def)

lemma data_same_intact: "data_same s s' \<Longrightarrow> keeps_intact sha256 s s'"
  using media_closed_intact data_same_durable
  unfolding keeps_intact_def store_intact_def media_closed_def data_same_def by metis

lemma file_integrity_cong:
  "\<lbrakk>sg_byte_length g' = sg_byte_length g; sg_sha256 g' = sg_sha256 g\<rbrakk>
   \<Longrightarrow> file_integrity sha256 l g' f = file_integrity sha256 l g f"
  by (simp add: file_integrity_def split: option.split)

lemma linked_iff: "linked d gid \<longleftrightarrow> (\<exists>rid. (rid, gid) \<in> set (db_links d))"
  by (force simp: linked_def list_ex_iff)

section \<open>Statements\<close>

lemma intact_tables:
  "\<lbrakk>db_segments d' = db_segments d; db_links d' = db_links d; intact_db sha256 l files d\<rbrakk>
   \<Longrightarrow> intact_db sha256 l files d'"
  by (simp add: intact_db_def linked_def)

lemma intact_update_segments:
  assumes f: "\<And>g. sg_id (f g) = sg_id g \<and> sg_state (f g) = sg_state g \<and> sg_byte_length (f g) = sg_byte_length g
      \<and> sg_sha256 (f g) = sg_sha256 g \<and> (sg_spool (f g) \<longrightarrow> sg_spool g)"
    and ok: "intact_db sha256 l files d"
  shows "intact_db sha256 l files (update_segments c f d)"
proof -
  define u where "u = (\<lambda>g. if c g then f g else g)"
  have fields: "sg_id (u g) = sg_id g" "sg_state (u g) = sg_state g"
      "file_integrity sha256 l (u g) x = file_integrity sha256 l g x" for g x
    using f [of g] file_integrity_cong [of "f g" g sha256 l x] by (auto simp: u_def)
  have spool: "sg_spool (u g) \<longrightarrow> sg_spool g" for g using f [of g] by (simp add: u_def)
  have seg: "db_segments (update_segments c f d) = map u (db_segments d)"
    "linked (update_segments c f d) = linked d" "db_links (update_segments c f d) = db_links d"
    by (auto simp: update_segments_def linked_def u_def)
  note u = fields seg
  show ?thesis
    unfolding intact_db_def
  proof (intro conjI ballI impI)
    show "distinct (map sg_id (db_segments (update_segments c f d)))" using ok u by (simp add: intact_db_def o_def)
  next
    fix g' assume "g' \<in> set (db_segments (update_segments c f d))"
      and r: "sg_state g' = Seg_Ready \<and> (sg_spool g' \<or> linked (update_segments c f d) (sg_id g'))"
    then obtain g where g: "g \<in> set (db_segments d)" "g' = u g" using u by auto
    then have "sg_state g = Seg_Ready \<and> (sg_spool g \<or> linked d (sg_id g))" using r u spool [of g] by auto
    then show "file_integrity sha256 l g' (files (sg_id g')) = Int_Verified" using ok g u by (simp add: intact_db_def)
  next
    fix x assume "x \<in> set (db_links (update_segments c f d))"
    then obtain g where "g \<in> set (db_segments d)" "sg_id g = snd x \<and> sg_state g = Seg_Ready"
      using ok u by (auto simp: intact_db_def)
    then show "\<exists>g' \<in> set (db_segments (update_segments c f d)). sg_id g' = snd x \<and> sg_state g' = Seg_Ready"
      using u by (intro bexI [of _ "u g"]) simp_all
  qed
qed

lemma intact_delete_links: "intact_db sha256 l files d \<Longrightarrow> intact_db sha256 l files (delete_links c d)"
  by (auto simp: intact_db_def delete_links_def linked_iff)

lemma intact_delete_segments:
  assumes "segments_deletable c d" and ok: "intact_db sha256 l files d"
  shows "intact_db sha256 l files (delete_segments c d)"
proof -
  have "\<not> c g" if "g \<in> set (db_segments d)" "(rid, sg_id g) \<in> set (db_links d)" for g rid
    using assms(1) that by (force simp: segments_deletable_def list_all_iff)
  moreover have "\<exists>g \<in> set (db_segments d). sg_id g = snd x \<and> sg_state g = Seg_Ready" if "x \<in> set (db_links d)" for x
    using ok that by (simp add: intact_db_def)
  ultimately have "\<exists>g \<in> set (db_segments (delete_segments c d)). sg_id g = snd x \<and> sg_state g = Seg_Ready"
    if "x \<in> set (db_links d)" for x
    using that by (cases x) (fastforce simp: delete_segments_def)
  then show ?thesis
    using ok by (auto simp: intact_db_def delete_segments_def linked_def distinct_map_filter)
qed

lemma intact_insert_pending:
  assumes "segment_insertable row d" "sg_state row = Seg_Pending" and ok: "intact_db sha256 l files d"
  shows "intact_db sha256 l files (d\<lparr>db_segments := db_segments d @ [row]\<rparr>)"
  using assms by (auto simp: intact_db_def segment_insertable_def list_all_iff linked_def)

lemma intact_insert_links:
  assumes new: "\<forall>x \<in> set xs. \<exists>g \<in> set (db_segments d). sg_id g = snd x \<and> sg_state g = Seg_Ready \<and> sg_spool g"
    and ok: "intact_db sha256 l files d"
  shows "intact_db sha256 l files (d\<lparr>db_links := db_links d @ xs\<rparr>)"
proof -
  have same: "g = h" if "g \<in> set (db_segments d)" "h \<in> set (db_segments d)" "sg_id g = sg_id h" for g h
    using ok that by (auto simp: intact_db_def distinct_map dest: inj_onD)
  have "file_integrity sha256 l g (files (sg_id g)) = Int_Verified"
    if g: "g \<in> set (db_segments d)" "sg_state g = Seg_Ready"
      and "sg_spool g \<or> linked (d\<lparr>db_links := db_links d @ xs\<rparr>) (sg_id g)" for g
  proof -
    have "sg_spool g \<or> linked d (sg_id g) \<or> (\<exists>x \<in> set xs. snd x = sg_id g)"
      using that(3) by (auto simp: linked_def list_ex_iff)
    then have "sg_spool g \<or> linked d (sg_id g)" using new same [OF g(1)] by force
    then show ?thesis using ok g by (auto simp: intact_db_def)
  qed
  then show ?thesis using ok new by (auto simp: intact_db_def)
qed

lemma intact_publish_row:
  assumes row: "\<forall>g \<in> set (db_segments d). sg_id g = gid \<longrightarrow> file_integrity sha256 l g (files gid) = Int_Verified"
    and ok: "intact_db sha256 l files d"
  shows "intact_db sha256 l files (update_segments (\<lambda>h. sg_id h = gid)
      (\<lambda>h. h\<lparr>sg_state := Seg_Ready, sg_spool := True, sg_integrity := Int_Verified\<rparr>) d)"
proof -
  let ?f = "\<lambda>h :: seg_row. h\<lparr>sg_state := Seg_Ready, sg_spool := True, sg_integrity := Int_Verified\<rparr>"
  define u where "u = (\<lambda>g. if sg_id g = gid then ?f g else g)"
  have fields: "sg_id (u g) = sg_id g" "sg_state g = Seg_Ready \<Longrightarrow> sg_state (u g) = Seg_Ready"
      "file_integrity sha256 l (u g) x = file_integrity sha256 l g x" for g x
    using file_integrity_cong [of "?f g" g sha256 l x] by (auto simp: u_def)
  have seg: "db_segments (update_segments (\<lambda>h. sg_id h = gid) ?f d) = map u (db_segments d)"
    "linked (update_segments (\<lambda>h. sg_id h = gid) ?f d) = linked d"
    "db_links (update_segments (\<lambda>h. sg_id h = gid) ?f d) = db_links d"
    by (auto simp: update_segments_def linked_def u_def)
  show ?thesis
    unfolding intact_db_def seg
  proof (intro conjI ballI impI)
    show "distinct (map sg_id (map u (db_segments d)))" using ok fields by (simp add: intact_db_def o_def)
  next
    fix g' assume "g' \<in> set (map u (db_segments d))"
      and r: "sg_state g' = Seg_Ready \<and> (sg_spool g' \<or> linked d (sg_id g'))"
    then obtain g where g: "g \<in> set (db_segments d)" "g' = u g" by auto
    show "file_integrity sha256 l g' (files (sg_id g')) = Int_Verified"
    proof (cases "sg_id g = gid")
      case True
      then show ?thesis using row g fields by simp
    next
      case False
      then have "g' = g" using g by (simp add: u_def)
      then show ?thesis using ok g r by (auto simp: intact_db_def)
    qed
  next
    fix x assume "x \<in> set (db_links d)"
    then obtain g where "g \<in> set (db_segments d)" "sg_id g = snd x" "sg_state g = Seg_Ready"
      using ok by (auto simp: intact_db_def)
    then show "\<exists>g' \<in> set (map u (db_segments d)). sg_id g' = snd x \<and> sg_state g' = Seg_Ready"
      using fields by (intro bexI [of _ "u g"]) simp_all
  qed
qed

section \<open>Files\<close>

definition unneeded :: "rec_db \<Rightarrow> uuid \<Rightarrow> bool" where
  "unneeded d gid \<longleftrightarrow>
     (\<forall>g \<in> set (db_segments d). sg_id g = gid \<longrightarrow> \<not> (sg_state g = Seg_Ready \<and> (sg_spool g \<or> linked d gid)))"

lemma intact_files:
  assumes "intact_db sha256 l files d" "unneeded d gid"
  shows "intact_db sha256 l (files(gid := x)) d"
  using assms by (auto simp: intact_db_def unneeded_def)

lemma unused_unneeded:
  assumes "intact_db sha256 l files d" "gid \<in> set (unused_segments d)"
  shows "unneeded d gid"
proof -
  from assms(2) obtain h where h: "h \<in> set (db_segments d)" "sg_id h = gid" "\<not> sg_spool h" "\<not> linked d gid"
    by (auto simp: unused_segments_def)
  have "g = h" if "g \<in> set (db_segments d)" "sg_id g = gid" for g
    using assms(1) h(1,2) that by (auto simp: intact_db_def distinct_map dest: inj_onD)
  then show ?thesis unfolding unneeded_def using h(3,4) by blast
qed

lemma pending_unneeded:
  assumes "intact_db sha256 l files d" "h \<in> set (db_segments d)" "sg_state h = Seg_Pending"
  shows "unneeded d (sg_id h)"
proof -
  have "g = h" if "g \<in> set (db_segments d)" "sg_id g = sg_id h" for g
    using assms(1,2) that by (auto simp: intact_db_def distinct_map dest: inj_onD)
  then show ?thesis unfolding unneeded_def using assms(3) by force
qed

lemma absent_unneeded: "\<lbrakk>intact_db sha256 l files d; files gid = None\<rbrakk> \<Longrightarrow> unneeded d gid"
  by (auto simp: intact_db_def unneeded_def file_integrity_def)

lemma unlink_seg_effect:
  assumes "unlink_seg gid s = (r, s')"
  shows "rs_saved s' = rs_saved s \<and> rs_db s' = rs_db s \<and> rs_limits s' = rs_limits s
    \<and> (rs_seg_files s' = rs_seg_files s \<or> rs_seg_files s' = (rs_seg_files s)(gid := None))"
  using assms
  by (auto simp: unlink_seg_def verify_root_def eff_bind_def eff_modify_def dest!: io_simple
      split: prod.splits sum.splits)

lemma unlink_seg_intact:
  assumes "unlink_seg gid s = (r, s')" "store_intact sha256 s \<Longrightarrow> unneeded (durable s) gid"
  shows "keeps_intact sha256 s s'"
proof -
  note e = unlink_seg_effect [OF assms(1)]
  then have d: "durable s' = durable s" by (auto simp: durable_def split: option.split)
  have "store_intact sha256 s'" if ok: "store_intact sha256 s"
  proof (cases "rs_seg_files s' = rs_seg_files s")
    case True
    then show ?thesis using ok e d by (simp add: store_intact_def)
  next
    case False
    then have "rs_seg_files s' = (rs_seg_files s)(gid := None)" using e by blast
    then show ?thesis
      using intact_files [OF ok [unfolded store_intact_def] assms(2) [OF ok]] e d by (simp add: store_intact_def)
  qed
  then show ?thesis using e by (simp add: keeps_intact_def)
qed

section \<open>Operations without admission\<close>

named_theorems intact_intros "computations that keep the recorded evidence intact"

lemma data_intact: "follows data_same m \<Longrightarrow> follows (keeps_intact sha256) m"
  unfolding follows_def using data_same_intact by blast

lemma intact_simple [intact_intros]:
  "follows (keeps_intact sha256) (io e)" "follows (keeps_intact sha256) verify_root"
  "follows (keeps_intact sha256) (store_check a)" "follows (keeps_intact sha256) (sql_query f)"
  "follows (keeps_intact sha256) (usage_bytes x y)"
  unfolding verify_root_def store_check_def sql_query_def usage_bytes_def
  by (intro keeps_intact.rules data_intact [OF io_follows(3)])+

lemma intact_modify [intact_intros]:
  "follows (keeps_intact sha256) (eff_modify (\<lambda>s. s\<lparr>rs_failed := f\<rparr>))"
  "follows (keeps_intact sha256) (eff_modify (\<lambda>s. s\<lparr>rs_reservation_active := f\<rparr>))"
  "follows (keeps_intact sha256) (eff_modify (\<lambda>s. s\<lparr>rs_open := f\<rparr>))"
  by (rule keeps_intact.f_modify; simp add: data_same_intact data_same_def)+

lemma or_fail_intact [intact_intros]:
  "follows (keeps_intact sha256) m \<Longrightarrow> follows (keeps_intact sha256) (or_fail m)"
  unfolding or_fail_def by (intro keeps_intact.rules intact_intros)

lemma get_recording_intact [intact_intros]: "follows (keeps_intact sha256) (get_recording rid)"
  unfolding get_recording_def
  by (intro keeps_intact.rules intact_intros) (auto intro: keeps_intact.rules split: option.split)

lemma release_intact [intact_intros]: "follows (keeps_intact sha256) release_reservation"
  by (rule data_intact, rule followsI)
     (auto simp: release_reservation_def policy_release_def data_same_def split: if_splits)

text \<open>A statement that keeps the database intact, for any files.\<close>

definition safe_statement :: "(bytes \<Rightarrow> string) \<Rightarrow> (rec_db \<Rightarrow> bool) \<Rightarrow> (rec_db \<Rightarrow> rec_db) \<Rightarrow> bool" where
  "safe_statement sha256 c f \<longleftrightarrow>
     (\<forall>l files d. c d \<and> intact_db sha256 l files d \<longrightarrow> intact_db sha256 l files (f d))"

definition safe_body :: "(bytes \<Rightarrow> string) \<Rightarrow> 'a rec_eff \<Rightarrow> bool" where
  "safe_body sha256 body \<longleftrightarrow>
     follows tx_frame body
     \<and> (\<forall>l files. triple (\<lambda>s. intact_db sha256 l files (rs_db s)) body (\<lambda>_ s. intact_db sha256 l files (rs_db s)) (\<lambda>_ _. True))"

lemma safe_exec: "safe_statement sha256 c f \<Longrightarrow> safe_body sha256 (sql_exec c f)"
  unfolding safe_body_def safe_statement_def by (auto intro!: sql_tx_frame sql_exec_post)

lemma safe_query: "safe_body sha256 (sql_query q)"
  unfolding safe_body_def by (auto intro: sql_tx_frame query_keep)

lemma safe_return: "safe_body sha256 (eff_return x)"
  by (auto simp: safe_body_def intro: tx_frame.rules triple_return)

lemma safe_raise: "safe_body sha256 (eff_raise x)"
  by (auto simp: safe_body_def triple_def eff_raise_def intro: tx_frame.rules)

lemma safe_guard: "safe_body sha256 (eff_guard c e)"
  by (auto simp: safe_body_def intro: tx_frame.rules guard_keep)

lemma safe_bind: "\<lbrakk>safe_body sha256 m; \<And>x. safe_body sha256 (f x)\<rbrakk> \<Longrightarrow> safe_body sha256 (eff_bind m f)"
  unfolding safe_body_def by (intro conjI allI tx_frame.f_bind triple_bind) blast+

lemma safe_when: "safe_body sha256 m \<Longrightarrow> safe_body sha256 (eff_when c m)"
  by (simp add: eff_when_def safe_return)

lemma safe_for: "(\<And>x. x \<in> set xs \<Longrightarrow> safe_body sha256 (f x)) \<Longrightarrow> safe_body sha256 (eff_for xs f)"
  by (induction xs) (auto intro: safe_return safe_bind)

lemmas safe_rules = safe_query safe_return safe_guard safe_bind safe_when safe_for safe_exec

lemma evict_loop_safe: "safe_body sha256 (evict_loop l gs t n)"
proof (induction l gs t n rule: evict_loop.induct)
  case (2 l g gs t n)
  have "safe_statement sha256 (\<lambda>_. True) (update_segments (\<lambda>h. sg_id h = sg_id g) (\<lambda>h. h\<lparr>sg_spool := False\<rparr>))"
    by (simp add: safe_statement_def intact_update_segments)
  then show ?case using 2 by (auto intro!: safe_rules)
qed (simp add: safe_return)

lemma tables_safe:
  "(\<And>d. db_segments (f d) = db_segments d \<and> db_links (f d) = db_links d) \<Longrightarrow> safe_statement sha256 c f"
  unfolding safe_statement_def using intact_tables by blast

lemma trim_spool_safe: "safe_body sha256 (trim_spool l)"
proof -
  have "safe_statement sha256 (\<lambda>_. True) (\<lambda>d. update_segments (spool_expired l d) (\<lambda>g. g\<lparr>sg_spool := False\<rparr>) d)"
    by (simp add: safe_statement_def intact_update_segments)
  moreover have "safe_statement sha256 (\<lambda>_. True) (\<lambda>d. delete_source_discontinuities (c d) d)" for c
    by (rule tables_safe) (simp add: delete_source_discontinuities_def)
  ultimately show ?thesis
    unfolding trim_spool_def by (intro safe_bind safe_query safe_exec evict_loop_safe)
qed

lemma delete_statements_safe:
  "safe_body sha256 (sql_always (delete_links c))" "safe_body sha256 (sql_always (delete_discontinuities e))"
  "safe_body sha256 (sql_always (update_recordings p f))"
  "safe_body sha256 (sql_exec (recordings_deletable p) (delete_recordings p))"
  "safe_body sha256 (sql_exec (segments_deletable q) (delete_segments q))"
  by (rule safe_exec; simp add: safe_statement_def intact_delete_links intact_delete_segments
      intact_tables delete_discontinuities_def update_recordings_def delete_recordings_def)+

lemma dependent_statements_safe:
  "safe_body sha256 (sql_always (\<lambda>d. delete_links (lc d) d))"
  "safe_body sha256 (sql_always (\<lambda>d. update_recordings (rc d) (rf d) d))"
  by (rule safe_exec; simp add: safe_statement_def intact_delete_links intact_tables update_recordings_def)+

context control_port
begin

lemma control_reservation_intact [intact_intros]:
  "follows (keeps_intact sha256) body \<Longrightarrow> follows (keeps_intact sha256) (control_reservation cb body)"
  by (rule control_reservation_follows [OF keeps_intact.preorder_relation_axioms data_same_intact])

lemma control_operation_intact [intact_intros]:
  "follows (keeps_intact sha256) body \<Longrightarrow> follows (keeps_intact sha256) (control_operation cb body)"
  unfolding control_operation_def by (intro keeps_intact.rules intact_intros)

lemma transaction_intact [intact_intros]:
  assumes "safe_body sha256 body"
  shows "follows (keeps_intact sha256) (transaction cb body)"
proof (rule followsI)
  fix s r s' assume run: "transaction cb body s = (r, s')"
  let ?X = "intact_db sha256 (rs_limits s) (rs_seg_files s)"
  have "triple (\<lambda>t. rs_seg_files t = rs_seg_files s \<and> rs_limits t = rs_limits s \<and> ?X (rs_db t)) body
      (\<lambda>_ t. ?X (rs_db t)) (\<lambda>_ _. True)"
    by (rule triple_weaken [where P' = "\<lambda>t. ?X (rs_db t)"]) (use assms in \<open>auto simp: safe_body_def\<close>)
  note post = transaction_post [OF run _ this media_closed_intact media_closed_intact]
  have frame: "follows tx_frame body" using assms by (simp add: safe_body_def)
  have "rs_limits s' = rs_limits s \<and> rs_seg_files s' = rs_seg_files s"
    using transaction_cases [OF run frame] by blast
  moreover have "?X (durable s')" if "?X (durable s)"
    using post [OF frame that] that media_closed_intact unfolding media_closed_def by blast
  ultimately show "keeps_intact sha256 s s'" by (simp add: keeps_intact_def store_intact_def)
qed

lemma transaction_links:
  assumes "transaction cb (sql_exec c (delete_segments p)) s = (Inr u, s')"
  shows "\<not> in_transaction s' \<and> db_links (rs_db s') = db_links (rs_db s)
    \<and> set (db_segments (rs_db s')) \<subseteq> set (db_segments (rs_db s))"
proof -
  from transaction_cases [OF assms sql_tx_frame(2)] obtain s1 y s2 where
    t: "\<not> in_transaction s'" "media (rs_db s1) = media (rs_db s)" "media (rs_db s') = media (rs_db s2)"
      "sql_exec c (delete_segments p) s1 = (Inr y, s2)" by blast
  then have "rs_db s2 = delete_segments p (rs_db s1)"
    by (auto simp: sql_exec_def eff_bind_def eff_guard_def eff_modify_def dest!: io_simple
        split: prod.splits sum.splits if_splits)
  then show ?thesis using media_eq [OF t(2)] media_eq [OF t(3)] t(1) by (auto simp: delete_segments_def)
qed

lemma drop_segment_intact:
  assumes free: "\<not> in_transaction s" and un: "store_intact sha256 s \<Longrightarrow> unneeded (rs_db s) gid"
    and run: "drop_segment cb gid s = (r, s')"
  shows "keeps_intact sha256 s s' \<and> (r = Inr () \<longrightarrow> \<not> in_transaction s' \<and> db_links (rs_db s') = db_links (rs_db s)
    \<and> set (db_segments (rs_db s')) \<subseteq> set (db_segments (rs_db s)))"
proof -
  obtain ru s1 where u: "unlink_seg gid s = (ru, s1)" by (meson surj_pair)
  obtain ri s2 where i: "io Recording_OSError s1 = (ri, s2)" by (meson surj_pair)
  have k1: "keeps_intact sha256 s s1"
    by (rule unlink_seg_intact [OF u]) (use un free in \<open>simp add: durable_def\<close>)
  have k2: "keeps_intact sha256 s s2"
    by (rule keeps_intact.trans [OF k1]) (rule followsD [OF intact_simple(1) i])
  have same: "rs_db s2 = rs_db s" using unlink_seg_effect [OF u] io_simple [OF i] by simp
  let ?stmt = "sql_exec (segments_deletable (\<lambda>g. sg_id g = gid)) (delete_segments (\<lambda>g. sg_id g = gid))"
  consider (first) e where "ru = Inl e" | (second) v e where "ru = Inr v" "ri = Inl e"
    | (third) v w where "ru = Inr v" "ri = Inr w" by (metis old.sum.exhaust)
  then show ?thesis
  proof cases
    case first
    then have "s' = s1" "r = Inl e" using run u by (simp_all add: drop_segment_def eff_bind_def)
    then show ?thesis using k1 by simp
  next
    case second
    then have "s' = s2" "r = Inl e" using run u i by (simp_all add: drop_segment_def eff_bind_def)
    then show ?thesis using k2 by simp
  next
    case third
    then have t: "transaction cb ?stmt s2 = (r, s')" using run u i by (simp add: drop_segment_def eff_bind_def)
    have "keeps_intact sha256 s s'"
      by (rule keeps_intact.trans [OF k2]) (rule followsD [OF transaction_intact [OF delete_statements_safe(5)] t])
    then show ?thesis using transaction_links [of _ _ s2 "()" s'] t same by auto
  qed
qed

lemma unneeded_mono:
  "\<lbrakk>unneeded d gid; db_links d' = db_links d; set (db_segments d') \<subseteq> set (db_segments d)\<rbrakk> \<Longrightarrow> unneeded d' gid"
  by (auto simp: unneeded_def linked_def)

lemma drop_loop_intact:
  "\<lbrakk>\<not> in_transaction s; store_intact sha256 s \<Longrightarrow> \<forall>gid \<in> set gids. unneeded (rs_db s) gid;
    eff_for gids (drop_segment cb) s = (r, s')\<rbrakk> \<Longrightarrow> keeps_intact sha256 s s'"
proof (induction gids arbitrary: s)
  case Nil
  then show ?case by (simp add: eff_return_def keeps_intact.refl)
next
  case (Cons gid gids)
  obtain r1 s1 where 1: "drop_segment cb gid s = (r1, s1)" by (meson surj_pair)
  have eff: "keeps_intact sha256 s s1 \<and> (r1 = Inr () \<longrightarrow> \<not> in_transaction s1 \<and> db_links (rs_db s1) = db_links (rs_db s)
    \<and> set (db_segments (rs_db s1)) \<subseteq> set (db_segments (rs_db s)))"
    by (rule drop_segment_intact [OF Cons.prems(1) _ 1]) (use Cons.prems(2) in simp)
  show ?case
  proof (cases r1)
    case (Inl e)
    then show ?thesis using Cons.prems(3) 1 eff by (simp add: eff_bind_def)
  next
    case (Inr u)
    have rest: "eff_for gids (drop_segment cb) s1 = (r, s')" using Cons.prems(3) 1 Inr by (simp add: eff_bind_def)
    have free: "\<not> in_transaction s1" using eff Inr by simp
    show ?thesis
    proof (cases "store_intact sha256 s")
      case True
      then have "\<forall>gid \<in> set gids. unneeded (rs_db s1) gid" using Cons.prems(2) eff Inr unneeded_mono by auto
      then have "keeps_intact sha256 s1 s'" using Cons.IH [OF free _ rest] by blast
      then show ?thesis using eff keeps_intact.trans by blast
    next
      case False
      then show ?thesis by (simp add: keeps_intact_def)
    qed
  qed
qed

end

context control_port
begin

lemma trim_intact [intact_intros]: "follows (keeps_intact sha256) (trim cb)"
proof -
  have "follows (keeps_intact sha256) (eff_then (transaction cb (trim_spool l))
      (eff_bind (sql_query unused_segments) (\<lambda>unused. eff_for unused (drop_segment cb))))" for l
  proof (rule followsI)
    fix s r s'
    assume run: "eff_then (transaction cb (trim_spool l))
      (eff_bind (sql_query unused_segments) (\<lambda>unused. eff_for unused (drop_segment cb))) s = (r, s')"
    obtain r1 s1 where 1: "transaction cb (trim_spool l) s = (r1, s1)" by (meson surj_pair)
    have k1: "keeps_intact sha256 s s1" by (rule followsD [OF transaction_intact [OF trim_spool_safe] 1])
    obtain r2 s2 where 2: "sql_query unused_segments s1 = (r2, s2)" by (meson surj_pair)
    have k2: "keeps_intact sha256 s s2" by (rule keeps_intact.trans [OF k1 followsD [OF intact_simple(4) 2]])
    consider (first) e where "r1 = Inl e" | (second) u e where "r1 = Inr u" "r2 = Inl e"
      | (third) u us where "r1 = Inr u" "r2 = Inr us" by (metis old.sum.exhaust)
    then show "keeps_intact sha256 s s'"
    proof cases
      case first
      then show ?thesis using run 1 k1 by (simp add: eff_bind_def)
    next
      case second
      then show ?thesis using run 1 2 k2 by (simp add: eff_bind_def)
    next
      case third
      have "\<not> in_transaction s1" using transaction_cases [OF 1 trim_spool_tx] third by auto
      then have s2: "\<not> in_transaction s2" "us = unused_segments (rs_db s2)"
        using 2 third by (auto simp: sql_query_def eff_bind_def eff_get_def dest!: io_simple split: prod.splits sum.splits)
      have "eff_for us (drop_segment cb) s2 = (r, s')" using run 1 2 third by (simp add: eff_bind_def)
      moreover have "\<forall>gid \<in> set us. unneeded (rs_db s2) gid" if "store_intact sha256 s2"
        using that s2 unused_unneeded by (auto simp: store_intact_def durable_def)
      ultimately have "keeps_intact sha256 s2 s'" using drop_loop_intact [OF s2(1)] by blast
      then show ?thesis using k2 keeps_intact.trans by blast
    qed
  qed
  then show ?thesis
    unfolding trim_def
    by (intro control_operation_intact keeps_intact.f_bind [OF intact_simple(2)]
        keeps_intact.f_bind [OF keeps_intact.f_get])
qed

lemma safe_control_reservation: "safe_body sha256 body \<Longrightarrow> safe_body sha256 (control_reservation cb body)"
  unfolding safe_body_def
  by (auto intro: control_reservation_tx control_reservation_db media_closed_intact)

lemma prepare_delete_safe: "safe_body sha256 (prepare_delete_on cb c rid ow)"
proof -
  have "safe_body sha256 (store_check a)" for a
    unfolding safe_body_def store_check_def verify_root_def
    by (auto intro!: tx_frame.rules io_tx_frame triple_bind [OF guard_keep] io_post)
  moreover have "safe_body sha256 (get_recording rid)"
    unfolding get_recording_def
    by (intro safe_rules) (auto intro: safe_return safe_raise split: option.split)
  ultimately show ?thesis
    unfolding prepare_delete_on_def usage_bytes_def
    by (intro safe_query safe_return safe_guard safe_bind safe_control_reservation delete_statements_safe)
qed

lemma delete_recording_intact [intact_intros]: "follows (keeps_intact sha256) (delete_recording cb rid ow)"
  unfolding delete_recording_def finish_prepared_delete_def
  by (intro keeps_intact.rules intact_intros prepare_delete_safe delete_statements_safe)

lemma release_source_intact [intact_intros]: "follows (keeps_intact sha256) (release_source cb source_id)"
proof -
  have "safe_body sha256 (sql_always (\<lambda>d. d\<lparr>db_cursors := f (db_cursors d)\<rparr>))" for f
    by (rule safe_exec) (simp add: tables_safe)
  moreover have "safe_body sha256 (sql_always (update_segments c (\<lambda>g. g\<lparr>sg_spool := False\<rparr>)))" for c
    by (rule safe_exec) (simp add: safe_statement_def intact_update_segments)
  moreover have "safe_body sha256 (sql_always (delete_source_discontinuities c))" for c
    by (rule safe_exec) (simp add: tables_safe delete_source_discontinuities_def)
  ultimately show ?thesis
    unfolding release_source_def by (intro keeps_intact.rules intact_intros safe_bind)
qed

lemma manifest_intact [intact_intros]: "follows (keeps_intact sha256) (manifest_of cb h rid)"
proof -
  have "follows (keeps_intact sha256) (check_integrity h g)" for g
  proof -
    have "follows (keeps_intact sha256) (\<lambda>s. case io Recording_OSError s of
         (Inl _, s1) \<Rightarrow> (Inr Int_Unreadable, s1)
       | (Inr _, s1) \<Rightarrow> (Inr (file_integrity h (rs_limits s1) g (rs_seg_files s1 (sg_id g))), s1))"
      by (rule data_intact, rule followsI)
         (auto dest!: io_simple simp: data_same_def split: prod.splits sum.splits)
    then show ?thesis unfolding check_integrity_def by (intro keeps_intact.rules intact_intros)
  qed
  moreover have "safe_body sha256 (sql_always (update_segments c (\<lambda>g. g\<lparr>sg_integrity := i\<rparr>)))" for c i
    by (rule safe_exec) (simp add: safe_statement_def intact_update_segments)
  then have "follows (keeps_intact sha256) (persist_manifest cb r m)" for r m
    unfolding persist_manifest_def
    by (intro transaction_intact safe_bind safe_for safe_when delete_statements_safe)
  ultimately show ?thesis
    unfolding manifest_of_def Let_def by (intro keeps_intact.rules intact_intros)
qed

lemma finish_intact [intact_intros]: "follows (keeps_intact sha256) (finish cb h rid stop_ms)"
  unfolding finish_def finish_active_def close_recording_def Let_def
  by (intro keeps_intact.rules intact_intros safe_bind safe_when delete_statements_safe dependent_statements_safe)

lemma other_operations_intact [intact_intros]:
  "follows (keeps_intact sha256) (advance cb h now)"
  "follows (keeps_intact sha256) (event_manifest cb h event_id)"
  "follows (keeps_intact sha256) (set_starred cb rid starred)"
  unfolding advance_def event_manifest_def set_starred_def update_starred_def
  by (intro keeps_intact.rules intact_intros delete_statements_safe)+

end

section \<open>Recovery\<close>

lemma unlink_part_effect:
  assumes "unlink_part gid s = (r, s')"
  shows "rs_saved s' = rs_saved s \<and> rs_db s' = rs_db s \<and> rs_limits s' = rs_limits s \<and> rs_seg_files s' = rs_seg_files s"
  using assms
  by (auto simp: unlink_part_def verify_root_def eff_bind_def eff_modify_def dest!: io_simple
      split: prod.splits sum.splits)

lemma purge_loop_intact:
  "\<lbrakk>store_intact sha256 s \<Longrightarrow> \<forall>gid \<in> set gids. unneeded (durable s) gid;
    eff_for gids (\<lambda>gid. eff_then (unlink_part gid) (unlink_seg gid)) s = (r, s')\<rbrakk>
   \<Longrightarrow> keeps_intact sha256 s s'"
proof (induction gids arbitrary: s)
  case Nil
  then show ?case by (simp add: eff_return_def keeps_intact.refl)
next
  case (Cons gid gids)
  obtain r1 s1 where 1: "unlink_part gid s = (r1, s1)" by (meson surj_pair)
  obtain r2 s2 where 2: "unlink_seg gid s1 = (r2, s2)" by (meson surj_pair)
  note e1 = unlink_part_effect [OF 1] and e2 = unlink_seg_effect [OF 2]
  have d1: "durable s1 = durable s" and d2: "durable s2 = durable s"
    using e1 e2 by (auto simp: durable_def split: option.split)
  have k1: "keeps_intact sha256 s s1" using e1 d1 by (simp add: keeps_intact_def store_intact_def)
  have "store_intact sha256 s1 = store_intact sha256 s" using e1 d1 by (simp add: store_intact_def)
  then have "keeps_intact sha256 s1 s2"
    by (intro unlink_seg_intact [OF 2]) (use Cons.prems(1) d1 in simp)
  then have k2: "keeps_intact sha256 s s2" using k1 keeps_intact.trans by blast
  consider (first) e where "r1 = Inl e" | (second) u e where "r1 = Inr u" "r2 = Inl e"
    | (third) u v where "r1 = Inr u" "r2 = Inr v" by (metis old.sum.exhaust)
  then show ?case
  proof cases
    case first
    then show ?thesis using Cons.prems(2) 1 k1 by (simp add: eff_bind_def)
  next
    case second
    then show ?thesis using Cons.prems(2) 1 2 k2 by (simp add: eff_bind_def)
  next
    case third
    then have rest: "eff_for gids (\<lambda>gid. eff_then (unlink_part gid) (unlink_seg gid)) s2 = (r, s')"
      using Cons.prems(2) 1 2 by (simp add: eff_bind_step)
    show ?thesis
    proof (cases "store_intact sha256 s")
      case True
      then have "keeps_intact sha256 s2 s'" using Cons.IH [OF _ rest] Cons.prems(1) d2 by simp
      then show ?thesis using k2 keeps_intact.trans by blast
    next
      case False
      then show ?thesis by (simp add: keeps_intact_def)
    qed
  qed
qed

context control_port
begin

lemma recover_intact:
  assumes free: "\<not> in_transaction s" and run: "recover cb s = (r, s')"
  shows "keeps_intact sha256 s s'"
proof -
  let ?pending = "\<lambda>d. map sg_id (filter (\<lambda>g. sg_state g = Seg_Pending) (db_segments d))"
  let ?tail = "eff_then (io Recording_OSError) (
     eff_then (transaction cb (
       eff_then (sql_exec (segments_deletable (\<lambda>g. sg_state g = Seg_Pending))
                   (delete_segments (\<lambda>g. sg_state g = Seg_Pending)))
         (sql_always (\<lambda>d. update_recordings (\<lambda>r. rc_status r = Rec_Active) (interrupted d) d)))) (
     eff_then (trim cb) (
     eff_bind (sql_query (\<lambda>d. list_ex (\<lambda>r. rc_status r = Rec_Deleting
                                      \<and> list_ex (\<lambda>l. fst l = rc_id r) (db_links d)) (db_recordings d))) (\<lambda>broken.
     eff_then (eff_guard (\<lambda>_. \<not> broken) RECORDING_RECOVERY_REQUIRED) (
     transaction cb (sql_exec (recordings_deletable (\<lambda>r. rc_status r = Rec_Deleting))
                       (delete_recordings (\<lambda>r. rc_status r = Rec_Deleting))))))))"
  let ?purge = "\<lambda>pending. eff_for pending (\<lambda>gid. eff_then (unlink_part gid) (unlink_seg gid))"
  let ?body = "eff_bind (sql_query ?pending) (\<lambda>pending. eff_then (?purge pending) ?tail)"
  have tail: "follows (keeps_intact sha256) ?tail"
    by (intro keeps_intact.rules intact_intros safe_bind delete_statements_safe dependent_statements_safe)
  have body: "keeps_intact sha256 t t'" if t: "\<not> in_transaction t" and b: "?body t = (rb, t')" for t rb t'
  proof -
    obtain r1 t1 where 1: "sql_query ?pending t = (r1, t1)" by (meson surj_pair)
    have k1: "keeps_intact sha256 t t1" by (rule followsD [OF intact_simple(4) 1])
    show ?thesis
    proof (cases r1)
      case (Inl e)
      then show ?thesis using b 1 k1 by (simp add: eff_bind_def)
    next
      case (Inr pending)
      then have p: "pending = ?pending (durable t1)"
        using 1 t by (auto simp: sql_query_def eff_bind_def eff_get_def durable_def dest!: io_simple
            split: prod.splits sum.splits)
      obtain r2 t2 where 2: "?purge pending t1 = (r2, t2)" by (meson surj_pair)
      have "keeps_intact sha256 t1 t2"
        by (rule purge_loop_intact [OF _ 2]) (use p pending_unneeded in \<open>auto simp: store_intact_def\<close>)
      then have k2: "keeps_intact sha256 t t2" using k1 keeps_intact.trans by blast
      show ?thesis
      proof (cases r2)
        case (Inl e)
        then show ?thesis using b 1 Inr 2 k2 by (simp add: eff_bind_def)
      next
        case ok: (Inr u)
        then have "?tail t2 = (rb, t')" using b 1 Inr 2 by (simp add: eff_bind_def)
        then show ?thesis using k2 followsD [OF tail] keeps_intact.trans by blast
      qed
    qed
  qed
  obtain rc s1 where c: "store_check False s = (rc, s1)" by (meson surj_pair)
  have kc: "keeps_intact sha256 s s1" by (rule followsD [OF intact_simple(3) c])
  have fc: "\<not> in_transaction s1"
    using c free by (auto simp: store_check_def verify_root_def eff_bind_def eff_guard_def dest!: io_simple
        split: if_splits prod.splits sum.splits)
  show ?thesis
  proof (cases rc)
    case (Inl e)
    then show ?thesis using run c kc by (simp add: recover_def control_operation_def eff_bind_def)
  next
    case (Inr u)
    then have "control_reservation cb ?body s1 = (r, s')"
      using run c by (simp add: recover_def control_operation_def eff_bind_def)
    from control_reservation_cases [OF this]
    consider (refused) "data_same s1 s'" | (ran) t rb t' where "data_same s1 t" "?body t = (rb, t')" "data_same t' s'"
      by blast
    then have "keeps_intact sha256 s1 s'"
    proof cases
      case refused
      then show ?thesis by (rule data_same_intact)
    next
      case ran
      have "\<not> in_transaction t" using ran(1) fc by (simp add: data_same_def)
      from keeps_intact.trans [OF keeps_intact.trans [OF data_same_intact [OF ran(1)] body [OF this ran(2)]]
          data_same_intact [OF ran(3)]]
      show ?thesis .
    qed
    then show ?thesis using kc keeps_intact.trans by blast
  qed
qed

end

lemma start_one_safe: "safe_body sha256 (start_one event_id start_ms end_ms critical ids)"
proof -
  obtain source_id rid where ids: "ids = (source_id, rid)" by (cases ids)
  let ?new = "\<lambda>d. map (\<lambda>g. (rid, sg_id g)) (filter (spool_overlaps source_id start_ms end_ms) (db_segments d))"
  have "\<exists>g \<in> set (db_segments d). sg_id g = snd x \<and> sg_state g = Seg_Ready \<and> sg_spool g"
    if "x \<in> set (?new d)" for d x
    using that by (auto simp: spool_overlaps_def)
  then have "safe_body sha256 (sql_exec c (\<lambda>d. d\<lparr>db_links := db_links d @ ?new d\<rparr>))" for c
    by (intro safe_exec) (unfold safe_statement_def, blast intro: intact_insert_links)
  moreover have "safe_body sha256 (sql_exec c (\<lambda>d. d\<lparr>db_recordings := f d\<rparr>))"
    "safe_body sha256 (sql_exec c (\<lambda>d. d\<lparr>db_discontinuities := g d\<rparr>))" for c f g
    by (rule safe_exec; simp add: tables_safe)+
  ultimately show ?thesis
    unfolding start_one_def ids prod.case by (intro safe_query safe_guard safe_bind)
qed

section \<open>The worker's operations with admission\<close>

lemma worker_admit_intact: "follows (keeps_intact sha256) (policy_admit worker_cb worker_binding m critical)"
proof -
  have delete: "follows (keeps_intact sha256) (retention_delete worker_cb t n)" for t n
    unfolding retention_delete_def retention_candidates_def
    by (intro keeps_intact.rules intact_intros worker.delete_recording_intact)
  have expired: "follows (keeps_intact sha256) (rec_expired worker_binding now limit)" for now limit
    using delete by (auto simp: worker_binding_def retention_expired_def Let_def intro: keeps_intact.rules)
  have oldest: "follows (keeps_intact sha256) (rec_oldest worker_binding limit)" for limit
    using delete by (simp add: worker_binding_def retention_oldest_def)
  have loop: "follows (keeps_intact sha256) (reclaim_loop worker_cb worker_binding t m rcv n)" for t rcv n
  proof (induction n)
    case (Suc n)
    then show ?case
      unfolding reclaim_loop.simps case_prod_unfold
      by (intro keeps_intact.rules data_intact [OF policy_read_data] oldest)
  qed (simp add: keeps_intact.f_return)
  have "follows (keeps_intact sha256) (reclaim worker_cb worker_binding t m)" for t
    unfolding reclaim_def worker_cb_fields
    by (intro keeps_intact.rules loop expired data_intact [OF clock_data] data_intact [OF data_modify]) simp_all
  then show ?thesis
    unfolding policy_admit_def
    by (intro keeps_intact.rules data_intact [OF policy_check_data] data_intact [OF guard_metadata_data]
        data_intact [OF admit_sampled_data] data_intact [OF data_modify]) simp_all
qed

lemma start_recordings_intact:
  "follows (keeps_intact sha256) (start_recordings worker_cb worker_binding sources a z event_id critical ids)"
proof -
  have "safe_body sha256 (case event_id of None \<Rightarrow> eff_return False
      | Some e \<Rightarrow> sql_query (\<lambda>d. list_ex (\<lambda>r. rc_event_id r = Some e) (db_recordings d)))"
    by (simp add: safe_return safe_query split: option.split)
  then show ?thesis
    unfolding start_recordings_def
    by (intro keeps_intact.rules intact_intros worker_admit_intact worker.transaction_intact
        safe_query safe_guard safe_bind safe_for start_one_safe)
qed

lemma starts_intact:
  "follows (keeps_intact sha256) (start_event worker_cb worker_binding event_id sources at_ms pre post critical ids)"
  "follows (keeps_intact sha256) (start_manual worker_cb worker_binding source_id at_ms duration new_id)"
  unfolding start_event_def start_manual_def by (intro keeps_intact.rules start_recordings_intact)+

section \<open>Appending a segment\<close>

definition file_step :: "uuid \<Rightarrow> recorder \<Rightarrow> recorder \<Rightarrow> bool" where
  "file_step gid s s' \<longleftrightarrow>
     rs_db s' = rs_db s \<and> rs_saved s' = rs_saved s \<and> rs_limits s' = rs_limits s
     \<and> (\<forall>x. x \<noteq> gid \<or> rs_seg_files s x \<noteq> None \<longrightarrow> rs_seg_files s' x = rs_seg_files s x)"

interpretation file_step: preorder_relation "file_step gid"
  by unfold_locales (auto simp: file_step_def)

lemma file_step_intact: "file_step gid s s' \<Longrightarrow> keeps_intact sha256 s s'"
proof -
  assume f: "file_step gid s s'"
  then have d: "durable s' = durable s" by (auto simp: file_step_def durable_def split: option.split)
  have "rs_seg_files s' (sg_id g) = rs_seg_files s (sg_id g)"
    if "file_integrity sha256 l g (rs_seg_files s (sg_id g)) = Int_Verified" for l g
    using f that by (cases "rs_seg_files s (sg_id g)") (auto simp: file_step_def file_integrity_def)
  then show ?thesis
    using d f by (auto simp: keeps_intact_def store_intact_def intact_db_def file_step_def)
qed

lemma write_segment_steps: "follows (file_step gid) (write_segment gid data)"
proof -
  have io: "follows (file_step gid) (io e)" for e
    by (rule followsI) (auto dest!: io_simple simp: file_step_def)
  have part: "follows (file_step gid) (eff_modify (\<lambda>s. s\<lparr>rs_part_files := f s\<rparr>))" for f
    by (rule file_step.f_modify) (simp add: file_step_def)
  have publish: "follows (file_step gid) (eff_then (eff_guard (\<lambda>s. rs_seg_files s gid = None) e) (
      eff_then (eff_modify (\<lambda>s. s\<lparr>rs_seg_files := (rs_seg_files s)(gid \<mapsto> fl)\<rparr>)) m))"
    if m: "follows (file_step gid) m" for e fl m
  proof (rule followsI)
    fix s r s' assume run: "eff_then (eff_guard (\<lambda>s. rs_seg_files s gid = None) e) (
      eff_then (eff_modify (\<lambda>s. s\<lparr>rs_seg_files := (rs_seg_files s)(gid \<mapsto> fl)\<rparr>)) m) s = (r, s')"
    show "file_step gid s s'"
    proof (cases "rs_seg_files s gid = None")
      case True
      let ?s1 = "s\<lparr>rs_seg_files := (rs_seg_files s)(gid \<mapsto> fl)\<rparr>"
      have "m ?s1 = (r, s')" using run True by (simp add: eff_bind_def eff_guard_def eff_modify_def)
      then have "file_step gid ?s1 s'" by (rule followsD [OF m])
      moreover have "file_step gid s ?s1" using True by (auto simp: file_step_def)
      ultimately show ?thesis using file_step.trans by blast
    next
      case False
      then show ?thesis using run by (auto simp: eff_bind_def eff_guard_def file_step.refl)
    qed
  qed
  show ?thesis
    unfolding write_segment_def verify_root_def
    by (intro publish file_step.f_bind io part file_step.f_guard)
qed

lemma write_segment_written:
  assumes "write_segment gid data s = (Inr u, s')"
  shows "rs_seg_files s' gid = Some \<lparr>fl_plain = True, fl_data = data\<rparr>"
  using assms
  by (auto simp: write_segment_def verify_root_def eff_bind_Inr eff_guard_def eff_modify_def dest!: io_simple
      split: if_splits)

text \<open>The row of the new segment is published: its file is verified before the links to it appear.\<close>

definition row_published :: "uuid \<Rightarrow> rec_db \<Rightarrow> bool" where
  "row_published gid d \<longleftrightarrow> (\<forall>h \<in> set (db_segments d). sg_id h = gid \<longrightarrow> sg_state h = Seg_Ready \<and> sg_spool h)"

definition verified_row :: "(bytes \<Rightarrow> string) \<Rightarrow> rec_limits \<Rightarrow> (uuid \<Rightarrow> stored_file option) \<Rightarrow> uuid \<Rightarrow> rec_db \<Rightarrow> bool" where
  "verified_row sha256 l files gid d \<longleftrightarrow>
     (\<forall>h \<in> set (db_segments d). sg_id h = gid \<longrightarrow> file_integrity sha256 l h (files gid) = Int_Verified)"

lemma published_tables: "\<lbrakk>db_segments d' = db_segments d; row_published gid d\<rbrakk> \<Longrightarrow> row_published gid d'"
  by (simp add: row_published_def)

lemma upsert_cursor_tables:
  "db_segments (upsert_cursor g d) = db_segments d" "db_links (upsert_cursor g d) = db_links d"
  by (simp_all add: upsert_cursor_def Let_def)

lemma source_gap_fields:
  "intact_db sha256 l files (d\<lparr>db_source_discontinuities := x\<rparr>) = intact_db sha256 l files d"
  "row_published gid (d\<lparr>db_source_discontinuities := x\<rparr>) = row_published gid d"
  by (simp_all add: intact_db_def linked_def row_published_def)

lemma publish_body_frame: "follows tx_frame
  (eff_then (sql_always f) (eff_then (sql_always f') (eff_then
     (case w of None \<Rightarrow> eff_return () | Some x \<Rightarrow> sql_always (f'' x)) (eff_for active (publish_link gid w)))))"
  unfolding publish_link_def insert_link_def insert_discontinuity_def
  by (cases w; simp; intro tx_frame.rules sql_tx_frame)

lemma publish_link_published:
  "triple (\<lambda>s. intact_db sha256 l files (rs_db s) \<and> row_published gid (rs_db s)) (publish_link gid w r)
     (\<lambda>_ s. intact_db sha256 l files (rs_db s) \<and> row_published gid (rs_db s)) (\<lambda>_ _. True)"
proof -
  have "triple (\<lambda>s. intact_db sha256 l files (rs_db s) \<and> row_published gid (rs_db s)) (insert_link (rc_id r) gid)
     (\<lambda>_ s. intact_db sha256 l files (rs_db s) \<and> row_published gid (rs_db s)) (\<lambda>_ _. True)"
    unfolding insert_link_def
  proof (rule sql_exec_post)
    fix s n
    assume p: "intact_db sha256 l files (rs_db s) \<and> row_published gid (rs_db s)"
      and c: "link_insertable (rc_id r) gid (rs_db s)"
    then have "\<forall>x \<in> set [(rc_id r, gid)]. \<exists>g \<in> set (db_segments (rs_db s)).
        sg_id g = snd x \<and> sg_state g = Seg_Ready \<and> sg_spool g"
      by (auto simp: link_insertable_def row_published_def list_ex_iff)
    from intact_insert_links [OF this conjunct1 [OF p]]
    show "intact_db sha256 l files (rs_db (s\<lparr>io_count := n,
          rs_db := (rs_db s)\<lparr>db_links := db_links (rs_db s) @ [(rc_id r, gid)]\<rparr>\<rparr>))
       \<and> row_published gid (rs_db (s\<lparr>io_count := n, rs_db := (rs_db s)\<lparr>db_links := db_links (rs_db s) @ [(rc_id r, gid)]\<rparr>\<rparr>))"
      using p by (simp add: row_published_def)
  qed
  moreover have "triple (\<lambda>s. intact_db sha256 l files (rs_db s) \<and> row_published gid (rs_db s)) (insert_discontinuity x)
     (\<lambda>_ s. intact_db sha256 l files (rs_db s) \<and> row_published gid (rs_db s)) (\<lambda>_ _. True)" for x
    unfolding insert_discontinuity_def
    by (rule sql_exec_post) (auto intro: intact_tables published_tables)
  ultimately show ?thesis
    unfolding publish_link_def by (cases w) (auto intro!: triple_bind triple_return)
qed

lemma publish_body_post:
  "triple (\<lambda>s. intact_db sha256 l files (rs_db s) \<and> verified_row sha256 l files gid (rs_db s))
     (eff_then (sql_always (update_segments (\<lambda>h. sg_id h = gid)
         (\<lambda>h. h\<lparr>sg_state := Seg_Ready, sg_spool := True, sg_integrity := Int_Verified\<rparr>))) (
      eff_then (sql_always (upsert_cursor g)) (
      eff_then
         (case stream_break g prior of
            None \<Rightarrow> eff_return ()
          | Some window \<Rightarrow> sql_always (\<lambda>d.
              let x = disc (g_source_id g) window in
              if List.member (db_source_discontinuities d) x then d
              else d\<lparr>db_source_discontinuities := db_source_discontinuities d @ [x]\<rparr>)) (
      eff_for active (publish_link gid (stream_break g prior))))))
     (\<lambda>_ s. intact_db sha256 l files (rs_db s)) (\<lambda>_ _. True)"
proof -
  let ?P = "\<lambda>s. intact_db sha256 l files (rs_db s) \<and> row_published gid (rs_db s)"
  have mark: "triple (\<lambda>s. intact_db sha256 l files (rs_db s) \<and> verified_row sha256 l files gid (rs_db s))
      (sql_always (update_segments (\<lambda>h. sg_id h = gid)
         (\<lambda>h. h\<lparr>sg_state := Seg_Ready, sg_spool := True, sg_integrity := Int_Verified\<rparr>))) (\<lambda>_. ?P) (\<lambda>_ _. True)"
  proof (rule sql_exec_post)
    fix s :: recorder and n
    assume p: "intact_db sha256 l files (rs_db s) \<and> verified_row sha256 l files gid (rs_db s)"
    let ?d = "update_segments (\<lambda>h. sg_id h = gid)
         (\<lambda>h. h\<lparr>sg_state := Seg_Ready, sg_spool := True, sg_integrity := Int_Verified\<rparr>) (rs_db s)"
    have "intact_db sha256 l files ?d" using p by (intro intact_publish_row) (auto simp: verified_row_def)
    moreover have "row_published gid ?d" by (simp add: row_published_def update_segments_def ball_Un)
    ultimately show "intact_db sha256 l files (rs_db (s\<lparr>io_count := n, rs_db := ?d\<rparr>))
        \<and> row_published gid (rs_db (s\<lparr>io_count := n, rs_db := ?d\<rparr>))" by simp
  qed
  have upsert: "triple ?P (sql_always (upsert_cursor g)) (\<lambda>_. ?P) (\<lambda>_ _. True)"
    by (rule sql_exec_post) (auto simp: upsert_cursor_tables intro: intact_tables published_tables)
  have gap: "triple ?P (case stream_break g prior of
            None \<Rightarrow> eff_return ()
          | Some window \<Rightarrow> sql_always (\<lambda>d.
              let x = disc (g_source_id g) window in
              if List.member (db_source_discontinuities d) x then d
              else d\<lparr>db_source_discontinuities := db_source_discontinuities d @ [x]\<rparr>)) (\<lambda>_. ?P) (\<lambda>_ _. True)"
    by (cases "stream_break g prior")
       (auto simp: Let_def source_gap_fields intro!: triple_return sql_exec_post)
  have "triple ?P (eff_for active (publish_link gid (stream_break g prior))) (\<lambda>_. ?P) (\<lambda>_ _. True)"
    by (rule triple_for) (rule publish_link_published)
  then have "triple ?P (eff_for active (publish_link gid (stream_break g prior)))
      (\<lambda>_ s. intact_db sha256 l files (rs_db s)) (\<lambda>_ _. True)"
    by (rule triple_weaken) auto
  from triple_bind [OF mark triple_bind [OF upsert triple_bind [OF gap this]]] show ?thesis .
qed

lemma media_closed_rows: "media_closed (\<lambda>d. P (db_segments d))"
  using media_closed_fields [of "\<lambda>_ segs _ _ _. P segs"] by simp

lemma written_row_verified:
  assumes "segment_valid l g" "files gid = Some \<lparr>fl_plain = True, fl_data = g_data g\<rparr>"
    "\<forall>h \<in> set (db_segments d). sg_id h = gid \<longrightarrow> h = segment_row sha256 gid g critical"
  shows "verified_row sha256 l files gid d"
proof -
  have ok: "file_integrity sha256 l (segment_row sha256 gid g critical) (files gid) = Int_Verified"
    using assms(1,2) by (simp add: file_integrity_def segment_row_def segment_valid_def)
  show ?thesis unfolding verified_row_def
  proof (intro ballI impI)
    fix h assume "h \<in> set (db_segments d)" "sg_id h = gid"
    with assms(3) have "h = segment_row sha256 gid g critical" by metis
    then show "file_integrity sha256 l h (files gid) = Int_Verified" using ok by metis
  qed
qed

context control_port
begin

lemma insert_segment_intact:
  "follows (keeps_intact sha256) (transaction cb (insert_segment (segment_row sha256 gid g critical)))"
  unfolding insert_segment_def
  by (intro transaction_intact safe_exec) (simp add: safe_statement_def intact_insert_pending segment_row_def)

lemma insert_segment_rows:
  assumes "transaction cb (insert_segment row) s = (Inr u, s')"
  shows "\<not> in_transaction s' \<and> (\<forall>h \<in> set (db_segments (durable s')). sg_id h = sg_id row \<longrightarrow> h = row)"
proof -
  let ?Y = "\<lambda>d. \<forall>h \<in> set (db_segments d). sg_id h = sg_id row \<longrightarrow> h = row"
  have "triple (\<lambda>t. rs_seg_files t = rs_seg_files s \<and> rs_limits t = rs_limits s \<and> True) (insert_segment row)
      (\<lambda>_ t. ?Y (rs_db t)) (\<lambda>_ _. True)"
    unfolding insert_segment_def
    by (rule sql_exec_post) (auto simp: segment_insertable_def list_all_iff)
  from transaction_post [OF assms _ this media_closed_rows media_closed_rows]
  show ?thesis unfolding insert_segment_def by (simp add: sql_tx_frame)
qed

lemma publish_intact:
  assumes run: "publish_segment cb gid g active prior s = (r, s')"
    and row: "verified_row sha256 (rs_limits s) (rs_seg_files s) gid (durable s)"
  shows "keeps_intact sha256 s s'"
proof -
  let ?X = "\<lambda>d. intact_db sha256 (rs_limits s) (rs_seg_files s) d \<and> verified_row sha256 (rs_limits s) (rs_seg_files s) gid d"
  have X: "media_closed ?X"
    unfolding verified_row_def by (intro media_closed_conj media_closed_intact media_closed_rows)
  note run' = run [unfolded publish_segment_def]
  note frame = publish_body_frame
  have "triple (\<lambda>t. rs_seg_files t = rs_seg_files s \<and> rs_limits t = rs_limits s \<and> ?X (rs_db t)) b Q E"
    if "triple (\<lambda>t. ?X (rs_db t)) b Q E" for b :: "unit rec_eff" and Q E
    by (rule triple_weaken [OF that]) auto
  note post = transaction_post [OF run' frame this [OF publish_body_post] X media_closed_intact]
  have "rs_limits s' = rs_limits s \<and> rs_seg_files s' = rs_seg_files s"
    using transaction_cases [OF run' frame] by blast
  moreover have "intact_db sha256 (rs_limits s) (rs_seg_files s) (durable s')"
    if "intact_db sha256 (rs_limits s) (rs_seg_files s) (durable s)"
    using post that row media_closed_intact unfolding media_closed_def by blast
  ultimately show ?thesis by (simp add: keeps_intact_def store_intact_def)
qed

lemma journaled_append_intact:
  assumes valid: "segment_valid (rs_limits s) g"
    and run: "eff_then (transaction cb (insert_segment (segment_row sha256 gid g critical))) (
       eff_then (write_segment gid (g_data g)) (
       eff_then (publish_segment cb gid g active prior) (
       eff_then (trim cb) (eff_return gid)))) s = (r, s')"
  shows "keeps_intact sha256 s s'"
proof -
  let ?publish = "eff_then (publish_segment cb gid g active prior) (eff_then (trim cb) (eff_return gid))"
  obtain r1 s1 where 1: "transaction cb (insert_segment (segment_row sha256 gid g critical)) s = (r1, s1)"
    by (meson surj_pair)
  have k1: "keeps_intact sha256 s s1" by (rule followsD [OF insert_segment_intact 1])
  obtain r2 s2 where 2: "write_segment gid (g_data g) s1 = (r2, s2)" by (meson surj_pair)
  have f2: "file_step gid s1 s2" by (rule followsD [OF write_segment_steps 2])
  have k2: "keeps_intact sha256 s s2" by (rule keeps_intact.trans [OF k1 file_step_intact [OF f2]])
  obtain r3 s3 where 3: "publish_segment cb gid g active prior s2 = (r3, s3)" by (meson surj_pair)
  consider (first) e where "r1 = Inl e" | (second) u e where "r1 = Inr u" "r2 = Inl e"
    | (third) u v where "r1 = Inr u" "r2 = Inr v" by (metis old.sum.exhaust)
  then show ?thesis
  proof cases
    case first
    then show ?thesis using run 1 k1 by (simp add: eff_bind_step)
  next
    case second
    then show ?thesis using run 1 2 k2 by (simp add: eff_bind_step)
  next
    case third
    then have tail: "?publish s2 = (r, s')" using run 1 2 by (simp add: eff_bind_step)
    have limits: "rs_limits s2 = rs_limits s"
      using f2 transaction_cases [OF 1] by (auto simp: file_step_def insert_segment_def sql_tx_frame)
    have "durable s2 = durable s1" using f2 by (auto simp: file_step_def durable_def split: option.split)
    then have "\<forall>h \<in> set (db_segments (durable s2)). sg_id h = gid \<longrightarrow> h = segment_row sha256 gid g critical"
      using insert_segment_rows [OF 1 [unfolded third]] by (simp add: segment_row_def)
    with valid limits write_segment_written [OF 2 [unfolded third]]
    have "verified_row sha256 (rs_limits s2) (rs_seg_files s2) gid (durable s2)"
      by (intro written_row_verified) simp_all
    then have "keeps_intact sha256 s2 s3" by (rule publish_intact [OF 3])
    then have k3: "keeps_intact sha256 s s3" by (rule keeps_intact.trans [OF k2])
    have trim: "follows (keeps_intact sha256) (eff_then (trim cb) (eff_return gid))"
      by (intro keeps_intact.rules trim_intact)
    show ?thesis
    proof (cases r3)
      case (Inl e)
      then show ?thesis using tail 3 k3 by (simp add: eff_bind_step)
    next
      case (Inr w)
      then have "eff_then (trim cb) (eff_return gid) s3 = (r, s')" using tail 3 by (simp add: eff_bind_step)
      then show ?thesis using keeps_intact.trans [OF k3] followsD [OF trim] by blast
    qed
  qed
qed

end

end
