(* ===== verification/Recording_History.thy ===== *)
theory Recording_History
  imports Recording_Integrity
begin

text \<open>
  Runs of the wired worker: every call of the recording store that its owner makes, in any order, with a failure at
  any system call or statement, calls from a foreign thread, and crashes that only leave the committed data and the
  files. Two things hold along all of them: the recorded evidence is intact, and a call gives back the
  storage reservation it took.
\<close>

section \<open>Calls\<close>

datatype recorder_call =
  Call_Append uuid segment
| Call_Release_Source uuid
| Call_Start_Event uuid "uuid list" int int int bool "uuid list"
| Call_Start_Manual uuid int int uuid
| Call_Advance int
| Call_Finish uuid "int option"
| Call_Manifest uuid
| Call_Event_Manifest uuid
| Call_Set_Starred uuid bool
| Call_Delete uuid bool
| Call_Expired int int
| Call_Oldest int
| Call_Status

definition discard :: "'a rec_eff \<Rightarrow> unit rec_eff" where
  "discard m = eff_then m (eff_return ())"

fun perform :: "(segment \<Rightarrow> recording_error option) \<Rightarrow> (bytes \<Rightarrow> string) \<Rightarrow> recorder_call \<Rightarrow> unit rec_eff" where
  "perform validator sha256 (Call_Append new_id g) =
     discard (append_segment worker_cb worker_binding validator sha256 new_id g)"
| "perform validator sha256 (Call_Release_Source source_id) = release_source worker_cb source_id"
| "perform validator sha256 (Call_Start_Event event_id source_ids at_ms pre_ms post_ms critical new_ids) =
     discard (start_event worker_cb worker_binding event_id source_ids at_ms pre_ms post_ms critical new_ids)"
| "perform validator sha256 (Call_Start_Manual source_id at_ms duration_ms new_id) =
     discard (start_manual worker_cb worker_binding source_id at_ms duration_ms new_id)"
| "perform validator sha256 (Call_Advance now_ms) = advance worker_cb sha256 now_ms"
| "perform validator sha256 (Call_Finish rid stop_ms) = discard (finish worker_cb sha256 rid stop_ms)"
| "perform validator sha256 (Call_Manifest rid) = discard (manifest_of worker_cb sha256 rid)"
| "perform validator sha256 (Call_Event_Manifest event_id) = discard (event_manifest worker_cb sha256 event_id)"
| "perform validator sha256 (Call_Set_Starred rid starred) = set_starred worker_cb rid starred"
| "perform validator sha256 (Call_Delete rid owner_requested) = discard (delete_recording worker_cb rid owner_requested)"
| "perform validator sha256 (Call_Expired now_ms limit) =
     discard (retention_expired worker_cb default_periods now_ms limit)"
| "perform validator sha256 (Call_Oldest limit) = discard (retention_oldest worker_cb limit)"
| "perform validator sha256 Call_Status = discard (policy_status worker_cb worker_binding)"

text \<open>
  \<open>Restart\<close> is a new process after a crash or a close: the committed database and the files are what the old one
  left, the policy and the store are new and nothing is reserved. \<open>Foreign\<close> lets another thread call next.
\<close>

inductive history :: "(segment \<Rightarrow> recording_error option) \<Rightarrow> (bytes \<Rightarrow> string) \<Rightarrow> recorder \<Rightarrow> bool"
  for validator sha256 where
  Start: "\<lbrakk>rs_db s = empty_db; rs_saved s = None; rs_reservation_active s = False; sp_reservation s = False;
     sp_reserved_media s = 0; sp_reserved_total s = 0\<rbrakk> \<Longrightarrow> history validator sha256 s"
| Call: "\<lbrakk>history validator sha256 s; perform validator sha256 c s = (r, s')\<rbrakk> \<Longrightarrow> history validator sha256 s'"
| Open: "\<lbrakk>history validator sha256 s; store_open worker_cb s = (r, s')\<rbrakk> \<Longrightarrow> history validator sha256 s'"
| Foreign: "history validator sha256 s \<Longrightarrow> history validator sha256 (s\<lparr>sp_thread := t\<rparr>)"
| Restart: "\<lbrakk>history validator sha256 s; rs_db s' = durable s; rs_saved s' = None; rs_seg_files s' = rs_seg_files s;
     rs_limits s' = rs_limits s; rs_reservation_active s' = False; sp_reservation s' = False;
     sp_reserved_media s' = 0; sp_reserved_total s' = 0\<rbrakk> \<Longrightarrow> history validator sha256 s'"

section \<open>Intact evidence\<close>

lemma filter_by_key:
  "\<lbrakk>distinct (map k xs); x \<in> set xs\<rbrakk> \<Longrightarrow> filter (\<lambda>y. k y = k x) xs = [x]"
proof (induction xs)
  case (Cons y ys)
  then show ?case by (cases "x = y") (auto simp: filter_empty_conv image_iff intro: sym)
qed simp

lemma reads_data [data_intros]:
  "follows data_same (sql_query q)" "follows data_same (store_check a)"
  unfolding sql_query_def store_check_def verify_root_def by (intro data_same.rules io_follows)+

lemma append_checks_data: "follows data_same (append_checks validator g)"
proof -
  have "follows data_same (case validator g of None \<Rightarrow> eff_return () | Some e \<Rightarrow> eff_raise e)"
    by (simp add: data_same.f_return data_same.f_raise split: option.split)
  then show ?thesis
    unfolding append_checks_def check_segment_limit_def by (intro data_same.rules data_intros)
qed

lemma append_checks_valid:
  assumes "append_checks validator g s = (Inr x, s')"
  shows "segment_valid (rs_limits s') g"
proof -
  obtain u s1 where c: "store_check False s = (Inr u, s1)" and v: "segment_valid (rs_limits s1) g"
    using assms by (auto simp: append_checks_def eff_bind_Inr eff_guard_def split: if_splits)
  have "rs_limits s1 = rs_limits s"
    using c by (auto simp: store_check_def verify_root_def eff_bind_def eff_guard_def dest!: io_simple
        split: if_splits prod.splits sum.splits)
  moreover have "rs_limits s' = rs_limits s"
    using followsD [OF append_checks_data assms] by (simp add: data_same_def)
  ultimately show ?thesis using v by simp
qed

lemma append_segment_intact:
  "follows (keeps_intact sha256) (append_segment worker_cb worker_binding validator sha256 new_id g)"
proof (rule followsI)
  fix s r s' assume run: "append_segment worker_cb worker_binding validator sha256 new_id g s = (r, s')"
  obtain r1 s1 where 1: "append_checks validator g s = (r1, s1)" by (meson surj_pair)
  have k1: "keeps_intact sha256 s s1" by (rule data_same_intact) (rule followsD [OF append_checks_data 1])
  show "keeps_intact sha256 s s'"
  proof (cases r1)
    case (Inl e)
    then show ?thesis using run 1 k1 by (simp add: append_segment_def eff_bind_step)
  next
    case (Inr x)
    obtain prior active where x: "x = (prior, active)" by (cases x)
    let ?critical = "list_ex rc_critical active"
    let ?core = "eff_then (transaction worker_cb (insert_segment (segment_row sha256 new_id g ?critical))) (
           eff_then (write_segment new_id (g_data g)) (
           eff_then (publish_segment worker_cb new_id g active prior) (
           eff_then (trim worker_cb) (eff_return new_id))))"
    obtain r2 s2 where 2: "policy_admit worker_cb worker_binding (int (length (g_data g))) ?critical s1 = (r2, s2)"
      by (meson surj_pair)
    have k2: "keeps_intact sha256 s1 s2" by (rule followsD [OF worker_admit_intact 2])
    show ?thesis
    proof (cases r2)
      case (Inl e)
      then show ?thesis
        using run 1 Inr x 2 keeps_intact.trans [OF k1 k2] by (simp add: append_segment_def eff_bind_step Let_def)
    next
      case ok: (Inr u)
      let ?s2 = "s2\<lparr>rs_reservation_active := True\<rparr>"
      have k2': "keeps_intact sha256 s1 ?s2"
        by (rule keeps_intact.trans [OF k2 data_same_intact]) (simp add: data_same_def)
      obtain r3 s3 where 3: "?core ?s2 = (r3, s3)" by (meson surj_pair)
      have "keeps_intact sha256 s1 s3"
        unfolding keeps_intact_def
      proof
        assume ok1: "store_intact sha256 s1"
        then have i2: "store_intact sha256 ?s2" and l2: "rs_limits ?s2 = rs_limits s1"
          using k2' by (simp_all add: keeps_intact_def)
        have "segment_valid (rs_limits s1) g"
          using append_checks_valid 1 Inr by blast
        then have "segment_valid (rs_limits ?s2) g" using l2 by simp
        from worker.journaled_append_intact [OF this 3] i2 l2
        show "store_intact sha256 s3 \<and> rs_limits s3 = rs_limits s1" by (simp add: keeps_intact_def)
      qed
      then have k3: "keeps_intact sha256 s s3" by (rule keeps_intact.trans [OF k1])
      let ?handler = "\<lambda>e. eff_then (eff_modify (\<lambda>s. s\<lparr>rs_failed := True\<rparr>)) (eff_raise (append_error e))"
      have run3: "eff_finally (eff_catch ?core ?handler) release_reservation ?s2 = (r, s')"
        using run 1 Inr x 2 ok by (simp add: append_segment_def eff_bind_step Let_def eff_modify_def)
      obtain r4 s4 where 4: "eff_catch ?core ?handler ?s2 = (r4, s4)" by (meson surj_pair)
      have k4: "keeps_intact sha256 s s4"
      proof (cases r3)
        case (Inl e)
        have h: "follows (keeps_intact sha256) (?handler e)" by (intro keeps_intact.rules intact_intros)
        have "?handler e s3 = (r4, s4)" using 3 4 Inl by (simp add: eff_catch_def)
        from keeps_intact.trans [OF k3 followsD [OF h this]] show ?thesis .
      next
        case (Inr y)
        then show ?thesis using 3 4 k3 by (simp add: eff_catch_def)
      qed
      obtain r5 s5 where 5: "release_reservation s4 = (r5, s5)" by (meson surj_pair)
      have "s' = s5" using run3 4 5 by (cases r5) (simp_all add: eff_finally_def)
      then show ?thesis using keeps_intact.trans [OF k4 followsD [OF release_intact 5]] by simp
    qed
  qed
qed

lemma store_open_intact: "follows (keeps_intact sha256) (store_open worker_cb)"
proof -
  have recovered: "follows (keeps_intact sha256)
     (eff_then (eff_guard (\<lambda>s. \<not> in_transaction s) RECORDING_DATABASE_BUSY) (recover worker_cb))"
  proof (rule followsI)
    fix s r s' assume run: "eff_then (eff_guard (\<lambda>s. \<not> in_transaction s) RECORDING_DATABASE_BUSY) (recover worker_cb) s
        = (r, s')"
    show "keeps_intact sha256 s s'"
    proof (cases "in_transaction s")
      case True
      then show ?thesis using run by (auto simp: eff_bind_def eff_guard_def keeps_intact.refl)
    next
      case False
      then have "recover worker_cb s = (r, s')" using run by (simp add: eff_bind_def eff_guard_def)
      then show ?thesis using worker.recover_intact False by blast
    qed
  qed
  have "follows (keeps_intact sha256) (eff_modify (\<lambda>s. s\<lparr>rs_owner := sp_thread s, rs_open := False,
      rs_failed := False, rs_reservation_active := False\<rparr>))"
    by (rule keeps_intact.f_modify; simp add: data_same_intact data_same_def)
  then show ?thesis
    unfolding store_open_def store_close_def
    by (intro recovered keeps_intact.f_catch keeps_intact.f_bind keeps_intact.f_raise intact_intros)
qed

lemma status_data: "follows data_same (policy_status worker_cb worker_binding)"
  unfolding policy_status_def case_prod_unfold by (intro data_same.rules data_intros)

lemma retention_intact:
  "follows (keeps_intact sha256) (retention_oldest worker_cb limit)"
  "follows (keeps_intact sha256) (retention_expired worker_cb periods now limit)"
proof -
  have "follows (keeps_intact sha256) (retention_delete worker_cb t limit)" for t
    unfolding retention_delete_def retention_candidates_def
    by (intro keeps_intact.rules intact_intros worker.delete_recording_intact)
  then show "follows (keeps_intact sha256) (retention_oldest worker_cb limit)"
    "follows (keeps_intact sha256) (retention_expired worker_cb periods now limit)"
    by (auto simp: retention_oldest_def retention_expired_def Let_def intro: keeps_intact.rules)
qed

lemma perform_intact: "follows (keeps_intact sha256) (perform validator sha256 c)"
  by (cases c; simp only: perform.simps discard_def;
      intro keeps_intact.rules append_segment_intact starts_intact retention_intact data_intact [OF status_data]
        worker.release_source_intact worker.other_operations_intact worker.finish_intact worker.manifest_intact
        worker.delete_recording_intact)

lemma history_intact: "history validator sha256 s \<Longrightarrow> store_intact sha256 s"
proof (induction rule: history.induct)
  case (Start s)
  then show ?case by (simp add: store_intact_def intact_db_def durable_def empty_db_def)
next
  case (Call s c r s')
  then show ?case using followsD [OF perform_intact Call(2)] by (simp add: keeps_intact_def)
next
  case (Open s r s')
  then show ?case using followsD [OF store_open_intact Open(2)] by (simp add: keeps_intact_def)
next
  case (Foreign s t)
  then show ?case by (cases "rs_saved s") (simp_all add: store_intact_def durable_def)
next
  case (Restart s s')
  then show ?case by (simp add: store_intact_def durable_def)
qed

section \<open>Reservations are given back\<close>

definition returns :: "recorder \<Rightarrow> recorder \<Rightarrow> bool" where
  "returns s s' \<longleftrightarrow> (settled s \<longrightarrow> settled s' \<and> sp_reservation s' = sp_reservation s
     \<and> sp_reserved_media s' = sp_reserved_media s \<and> sp_reserved_total s' = sp_reserved_total s)"

interpretation returns: preorder_relation returns
  by unfold_locales (auto simp: returns_def)

named_theorems returns_intros "calls that give back what they reserved"

lemma quiet_returns: "follows quiet m \<Longrightarrow> follows returns m"
  unfolding follows_def quiet_def returns_def by (simp add: calm_fields)

lemma reads_return [returns_intros]:
  "follows returns (sql_query q)" "follows returns (store_check a)" "follows returns verify_root"
  unfolding sql_query_def store_check_def verify_root_def
  by (intro returns.rules quiet_returns [OF io_follows(2)])+

lemma get_recording_returns [returns_intros]: "follows returns (get_recording rid)"
  unfolding get_recording_def
  by (intro returns.rules returns_intros) (auto intro: returns.rules split: option.split)

lemma operations_held [held_intros]:
  "follows held (check_integrity h row)"
  "follows held (write_segment gid data)"
  "follows held (insert_segment row)"
  "follows held (publish_segment cb gid g active prior)"
  "follows held (start_one e a z critical ids)"
proof -
  show "follows held (check_integrity h row)"
    unfolding check_integrity_def
    by (intro held.rules held_intros, rule followsI)
       (auto dest!: io_simple simp: held_def policy_of_eq split: prod.splits sum.splits)
  show "follows held (write_segment gid data)"
    unfolding write_segment_def by (intro held.rules held_intros io_follows) (simp_all add: policy_of_eq)
  show "follows held (insert_segment row)" unfolding insert_segment_def by (rule sql_exec_held)
  have "follows held (publish_link gid w r)" for w r
    unfolding publish_link_def insert_link_def insert_discontinuity_def
    by (cases w; simp; intro held.rules held_intros)
  then show "follows held (publish_segment cb gid g active prior)"
    unfolding publish_segment_def
    by (cases "stream_break g prior"; simp; intro transaction_held held.rules sql_exec_held)
  show "follows held (start_one e a z critical ids)"
    unfolding start_one_def case_prod_unfold by (intro held.rules held_intros)
qed

lemma recording_operations_held [held_intros]:
  "follows held (persist_manifest cb r m)" "follows held (close_recording cb r e n)"
  unfolding persist_manifest_def close_recording_def by (intro held_intros held.rules)+

lemma manifest_held [held_intros]: "follows held (manifest_of cb h rid)"
  unfolding manifest_of_def Let_def by (intro held.rules held_intros)

lemma finish_active_held [held_intros]: "follows held (finish_active cb r stop)"
  unfolding finish_active_def Let_def by (intro held.rules held_intros)

lemma control_returns [returns_intros]:
  "follows held body \<Longrightarrow> follows returns (control_operation worker_cb body)"
  "follows held body' \<Longrightarrow> follows returns (transaction worker_cb body')"
proof -
  show "follows held body \<Longrightarrow> follows returns (control_operation worker_cb body)"
    by (rule quiet_returns [OF worker.control_operation_quiet])
  assume body: "follows held body'"
  have "follows held begin_immediate" "follows held commit"
    unfolding begin_immediate_def commit_def
    by (intro held.rules held_intros io_follows; simp add: policy_of_eq)+
  then show "follows returns (transaction worker_cb body')"
    unfolding transaction_def
    by (intro returns.rules quiet_returns [OF worker.control_reservation_quiet] held.rules rollback_held body)
qed

text \<open>An admitted request: the body leaves the reservation alone and the clean-up releases it.\<close>

lemma admitted_returns:
  assumes body: "follows held body"
  shows "follows returns (eff_then (policy_admit worker_cb worker_binding m critical) (
     eff_then (eff_modify (\<lambda>s. s\<lparr>rs_reservation_active := True\<rparr>)) (eff_finally body release_reservation)))"
    (is "follows returns ?m")
proof (rule followsI)
  fix s r s' assume run: "?m s = (r, s')"
  show "returns s s'"
    unfolding returns_def
  proof
    assume set: "settled s"
    obtain ra s1 where admit: "policy_admit worker_cb worker_binding m critical s = (ra, s1)" by (meson surj_pair)
    note a = port.policy_admit_effect [OF set [unfolded settled_ready] admit]
    show "settled s' \<and> sp_reservation s' = sp_reservation s \<and> sp_reserved_media s' = sp_reserved_media s
        \<and> sp_reserved_total s' = sp_reserved_total s"
    proof (cases ra)
      case (Inl e)
      then have "s' = s1" using run admit by (simp add: eff_bind_step)
      then show ?thesis using a Inl settled_ready by blast
    next
      case (Inr u)
      then have g: "\<not> sp_reservation s" "sp_thread s1 = sp_owner s1" "sp_reservation s1"
        using a by (simp_all add: granted_ok_def)
      let ?s1 = "s1\<lparr>rs_reservation_active := True\<rparr>"
      obtain rb s2 where b: "body ?s1 = (rb, s2)" by (meson surj_pair)
      have "held ?s1 s2" by (rule followsD [OF body b])
      then have p: "policy_of s2 = policy_of s1" by (simp add: held_def policy_of_eq)
      then have rel: "release_reservation s2 = (Inr (), s2\<lparr>rs_reservation_active := False, sp_reservation := False,
          sp_reserved_media := 0, sp_reserved_total := 0\<rparr>)"
        using g by (simp add: release_reservation_def policy_release_def policy_of_eq)
      then have "s' = s2\<lparr>rs_reservation_active := False, sp_reservation := False, sp_reserved_media := 0,
          sp_reserved_total := 0\<rparr>"
        using run admit Inr b by (simp add: eff_bind_step eff_modify_def eff_finally_def)
      then show ?thesis using set g(1) by (simp add: settled_def)
    qed
  qed
qed

lemma append_returns: "follows returns (append_segment worker_cb worker_binding validator sha256 new_id g)"
proof -
  have v: "follows returns (case validator g of None \<Rightarrow> eff_return () | Some e \<Rightarrow> eff_raise e)"
    by (simp add: returns.f_return returns.f_raise split: option.split)
  have checks: "follows returns (append_checks validator g)"
    unfolding append_checks_def check_segment_limit_def by (intro v returns.rules returns_intros)
  show ?thesis
    unfolding append_segment_def case_prod_unfold Let_def
    by (intro returns.f_bind [OF checks] admitted_returns held.rules held_intros) (simp_all add: policy_of_eq)
qed

lemma starts_return:
  "follows returns (start_recordings worker_cb worker_binding sources a z e critical ids)"
  "follows returns (start_event worker_cb worker_binding event_id sources at_ms pre post critical ids)"
  "follows returns (start_manual worker_cb worker_binding source_id at_ms duration new_id)"
proof -
  have "follows held (case e of None \<Rightarrow> eff_return False
      | Some x \<Rightarrow> sql_query (\<lambda>d. list_ex (\<lambda>r. rc_event_id r = Some x) (db_recordings d)))" for e
    by (simp add: held.f_return sql_query_held split: option.split)
  then show starts: "follows returns (start_recordings worker_cb worker_binding sources a z e critical ids)"
    for sources a z e critical ids
    unfolding start_recordings_def
    by (intro returns.f_bind [OF reads_return(2)] returns.f_bind [OF returns.f_guard] admitted_returns
        held.rules held_intros)
  show "follows returns (start_event worker_cb worker_binding event_id sources at_ms pre post critical ids)"
    "follows returns (start_manual worker_cb worker_binding source_id at_ms duration new_id)"
    unfolding start_event_def start_manual_def by (intro returns.rules starts)+
qed

lemma recordings_return [returns_intros]:
  "follows returns (manifest_of worker_cb sha256 rid)"
  "follows returns (finish worker_cb sha256 rid stop)"
  "follows returns (release_source worker_cb source_id)"
  "follows returns (set_starred worker_cb rid starred)"
proof -
  have "follows returns (check_integrity sha256 g)" for g
    unfolding check_integrity_def
    by (intro returns.rules returns_intros, rule followsI)
       (auto dest!: io_simple simp: returns_def settled_def split: prod.splits sum.splits)
  then show "follows returns (manifest_of worker_cb sha256 rid)"
    unfolding manifest_of_def persist_manifest_def Let_def by (intro returns.rules returns_intros held.rules held_intros)
  show "follows returns (finish worker_cb sha256 rid stop)" "follows returns (release_source worker_cb source_id)"
    "follows returns (set_starred worker_cb rid starred)"
    unfolding finish_def release_source_def set_starred_def update_starred_def
    by (intro returns_intros held.rules held_intros)+
qed

lemma status_returns: "follows returns (policy_status worker_cb worker_binding)"
proof (rule followsI)
  fix s r s' assume run: "policy_status worker_cb worker_binding s = (r, s')"
  show "returns s s'"
    unfolding returns_def
  proof
    assume "settled s"
    then have set: "ready worker_free s" by (simp add: settled_ready)
    obtain r1 s1 where 1: "policy_read worker_cb worker_binding s = (r1, s1)" by (meson surj_pair)
    note a = port.read_effect [OF set 1]
    show "settled s' \<and> sp_reservation s' = sp_reservation s \<and> sp_reserved_media s' = sp_reserved_media s
        \<and> sp_reserved_total s' = sp_reserved_total s"
    proof (cases "sp_thread s = sp_owner s \<and> sp_bound s \<and> (\<exists>x. r1 = Inr x)")
      case False
      then have "s' = s \<or> s' = s1"
        using run 1 by (cases r1) (auto simp: policy_status_def policy_check_def eff_guard_def eff_bind_def split: if_splits)
      then show ?thesis using a set by (auto simp: calm_fields settled_ready)
    next
      case True
      then obtain space used crit starred where x: "r1 = Inr (space, used, crit, starred)" by (metis surj_pair)
      obtain r2 s2 where 2: "state_for worker_cb space used s1 = (r2, s2)" by (meson surj_pair)
      note b = port.state_for_unreserved [OF conjunct1 [OF a] 2]
      have "s' = s2" using run True 1 x 2 b
        by (auto simp: policy_status_def policy_check_def eff_guard_def eff_bind_def eff_get_def)
      then show ?thesis using a b set by (simp add: calm_def settled_ready)
    qed
  qed
qed

lemma perform_returns: "follows returns (perform validator sha256 c)"
  by (cases c; simp only: perform.simps discard_def advance_def event_manifest_def;
      intro returns.rules append_returns starts_return status_returns returns_intros
        quiet_returns [OF worker.retention_quiet(1)] quiet_returns [OF worker.retention_quiet(2)]
        quiet_returns [OF worker.delete_recording_quiet])

section \<open>Properties of every history\<close>

definition ex_blank :: recorder where
  "ex_blank = ex_recorder\<lparr>rs_db := empty_db\<rparr>"

definition ex_footage :: segment where
  "ex_footage =
     \<lparr>g_source_id = 7, g_stream_id = 8, g_sequence = 0, g_start_ms = 1000, g_end_ms = 2000, g_codec = ''h264'',
      g_container = ''mp4'', g_data = [1, 2, 3], g_capture_node_id = None\<rparr>"

definition ex_digest :: "bytes \<Rightarrow> string" where
  "ex_digest d = map (\<lambda>b. char_of (unat b)) d"

definition ex_started :: "(recording_error, unit, recorder) outcome" where
  "ex_started = perform (\<lambda>_. None) ex_digest (Call_Start_Manual 7 500 5000 1) ex_blank"

definition ex_appended :: "(recording_error, unit, recorder) outcome" where
  "ex_appended = perform (\<lambda>_. None) ex_digest (Call_Append 11 ex_footage) (snd ex_started)"

lemma ex_appended_ok: "fst ex_appended = Inr ()"
  by code_simp

lemma ex_appended_link: "db_links (durable (snd ex_appended)) = [(1, 11)]"
  by code_simp

lemma ex_started_history: "history (\<lambda>_. None) ex_digest (snd ex_started)"
proof -
  have "history (\<lambda>_. None) ex_digest ex_blank" by (rule history.Start) (simp_all add: ex_blank_def ex_recorder_def)
  then show ?thesis unfolding ex_started_def by (rule history.Call) (rule surjective_pairing)
qed

lemma ex_history: "history (\<lambda>_. None) ex_digest (snd ex_appended)"
  unfolding ex_appended_def using ex_started_history by (rule history.Call) (rule surjective_pairing)

text \<open>
  C1. Recorded evidence is intact. At every moment of every history of the worker (its calls in any order, a failure
  at any system call or statement, crashes in between, recovery on reopening), every segment that a committed
  recording links to has exactly one journal row, the row is published, and the file under its name holds the
  journaled number of bytes with the journaled SHA-256; the same holds for every published segment the
  pre-roll spool still offers to new recordings.
\<close>

theorem recorded_evidence_intact:
  assumes "history validator sha256 s"
  shows "(\<forall>(rid, gid) \<in> set (db_links (durable s)). \<exists>g. filter (\<lambda>g. sg_id g = gid) (db_segments (durable s)) = [g]
      \<and> sg_state g = Seg_Ready \<and> file_integrity sha256 (rs_limits s) g (rs_seg_files s gid) = Int_Verified)
    \<and> (\<forall>g \<in> set (db_segments (durable s)). sg_state g = Seg_Ready \<and> sg_spool g \<longrightarrow>
      file_integrity sha256 (rs_limits s) g (rs_seg_files s (sg_id g)) = Int_Verified)"
proof -
  have ok: "intact_db sha256 (rs_limits s) (rs_seg_files s) (durable s)"
    using history_intact [OF assms] by (simp add: store_intact_def)
  then have d: "distinct (map sg_id (db_segments (durable s)))" by (simp add: intact_db_def)
  have "\<exists>g. filter (\<lambda>g. sg_id g = gid) (db_segments (durable s)) = [g] \<and> sg_state g = Seg_Ready
      \<and> file_integrity sha256 (rs_limits s) g (rs_seg_files s gid) = Int_Verified"
    if l: "(rid, gid) \<in> set (db_links (durable s))" for rid gid
  proof -
    from ok l obtain g where g: "g \<in> set (db_segments (durable s))" "sg_id g = gid" "sg_state g = Seg_Ready"
      by (auto simp: intact_db_def)
    have "linked (durable s) gid" using l linked_iff by blast
    then have "file_integrity sha256 (rs_limits s) g (rs_seg_files s gid) = Int_Verified"
      using ok g by (auto simp: intact_db_def)
    then show ?thesis using filter_by_key [OF d g(1)] g by auto
  qed
  then show ?thesis using ok by (auto simp: intact_db_def)
qed

theorem recorded_evidence_intact_witness:
  "db_links (durable (snd ex_appended)) = [(1, 11)] \<and>
   (\<exists>g. filter (\<lambda>g. sg_id g = 11) (db_segments (durable (snd ex_appended))) = [g] \<and> sg_state g = Seg_Ready
      \<and> file_integrity ex_digest (rs_limits (snd ex_appended)) g (rs_seg_files (snd ex_appended) 11) = Int_Verified)"
  using recorded_evidence_intact [OF ex_history] ex_appended_link by simp

text \<open>
  Every call gives back its storage reservation. Whatever fails inside it, and whether it returns or raises,
  a call of the worker that starts without a live store reservation ends without one, and the policy's live
  reservation and reserved bytes are what they were.
\<close>

theorem calls_return_reservation:
  assumes "settled s" and "perform validator sha256 c s = (r, s')"
  shows "settled s' \<and> sp_reservation s' = sp_reservation s \<and> sp_reserved_media s' = sp_reserved_media s
    \<and> sp_reserved_total s' = sp_reserved_total s"
  using followsD [OF perform_returns assms(2)] assms(1) by (simp add: returns_def)

theorem calls_return_reservation_witness:
  "\<not> sp_reservation (snd ex_appended) \<and> sp_reserved_total (snd ex_appended) = 0"
proof -
  have b: "settled ex_blank" "\<not> sp_reservation ex_blank" "sp_reserved_total ex_blank = 0"
    by (simp_all add: settled_def ex_blank_def ex_recorder_def)
  have 1: "perform (\<lambda>_. None) ex_digest (Call_Start_Manual 7 500 5000 1) ex_blank = (fst ex_started, snd ex_started)"
    unfolding ex_started_def by (rule surjective_pairing)
  have 2: "perform (\<lambda>_. None) ex_digest (Call_Append 11 ex_footage) (snd ex_started) = (fst ex_appended, snd ex_appended)"
    unfolding ex_appended_def by (rule surjective_pairing)
  note s = calls_return_reservation [OF b(1) 1]
  show ?thesis using calls_return_reservation [OF conjunct1 [OF s] 2] s b by simp
qed

end
