(* ===== verification/Recording_Manifest.thy ===== *)
theory Recording_Manifest
  imports Recording_History
begin

text \<open>
  What a manifest says (\<open>RecordingStore.manifest\<close>): every instant of the recording's window is accounted for,
  as footage, as a gap or as awaited media, and a damaged clip is reported with what is wrong with it.
\<close>

section \<open>Accounting of the window\<close>

definition item_covers :: "manifest_item \<Rightarrow> int \<Rightarrow> bool" where
  "item_covers x t \<longleftrightarrow> mi_clip_start_ms x \<le> t \<and> t < mi_clip_end_ms x"

definition gap_covers :: "gap \<Rightarrow> int \<Rightarrow> bool" where
  "gap_covers g t \<longleftrightarrow> gp_start_ms g \<le> t \<and> t < gp_end_ms g"

definition empty_gap :: "gap list \<Rightarrow> int \<Rightarrow> bool" where
  "empty_gap gs t \<longleftrightarrow> (\<exists>g \<in> set gs. gp_reason g = ''unavailable'' \<and> gap_covers g t)"

lemma integrity_reason_known: "integrity_reason i \<noteq> ''unavailable''"
  by (cases i) (simp_all add: integrity_reason_def)

lemma empty_gap_append: "empty_gap (xs @ ys) t \<longleftrightarrow> empty_gap xs t \<or> empty_gap ys t"
  by (auto simp: empty_gap_def)

lemma gap_loop_Cons:
  "gap_loop (x # xs) cursor =
     ((if mi_clip_start_ms x > cursor
       then [\<lparr>gp_start_ms = cursor, gp_end_ms = mi_clip_start_ms x, gp_reason = ''unavailable''\<rparr>] else [])
      @ (if mi_integrity x \<noteq> Int_Verified
         then [\<lparr>gp_start_ms = mi_clip_start_ms x, gp_end_ms = mi_clip_end_ms x,
                gp_reason = integrity_reason (mi_integrity x)\<rparr>] else [])
      @ fst (gap_loop xs (max cursor (mi_clip_end_ms x))),
      snd (gap_loop xs (max cursor (mi_clip_end_ms x))))"
  by (simp add: case_prod_unfold Let_def)

lemma gap_loop_grows: "cursor \<le> snd (gap_loop xs cursor)"
proof (induction xs arbitrary: cursor)
  case (Cons x xs)
  have "snd (gap_loop (x # xs) cursor) = snd (gap_loop xs (max cursor (mi_clip_end_ms x)))"
    by (simp only: gap_loop_Cons snd_conv)
  then show ?case using Cons.IH [of "max cursor (mi_clip_end_ms x)"] by linarith
qed simp

lemma gap_loop_after: "empty_gap (fst (gap_loop xs cursor)) t \<Longrightarrow> cursor \<le> t"
proof (induction xs arbitrary: cursor)
  case (Cons x xs)
  then show ?case
    using Cons.IH [of "max cursor (mi_clip_end_ms x)"] integrity_reason_known
    by (auto simp: gap_loop_Cons empty_gap_append simp del: gap_loop.simps split: if_splits)
       (auto simp: empty_gap_def gap_covers_def)
qed (simp add: empty_gap_def)

lemma gap_loop_exact:
  assumes "sorted (map mi_clip_start_ms xs)" "\<forall>x \<in> set xs. mi_clip_start_ms x < mi_clip_end_ms x" "cursor \<le> t"
  shows "empty_gap (fst (gap_loop xs cursor)) t \<longleftrightarrow>
    t < snd (gap_loop xs cursor) \<and> \<not> (\<exists>x \<in> set xs. item_covers x t)"
  using assms
proof (induction xs arbitrary: cursor)
  case Nil
  then show ?case by (simp add: empty_gap_def)
next
  case (Cons x xs)
  let ?c = "max cursor (mi_clip_end_ms x)"
  let ?hole = "\<lparr>gp_start_ms = cursor, gp_end_ms = mi_clip_start_ms x, gp_reason = ''unavailable''\<rparr>"
  have later: "mi_clip_start_ms x \<le> mi_clip_start_ms y" if "y \<in> set xs" for y
    using Cons.prems(1) that by auto
  have ne: "mi_clip_start_ms x < mi_clip_end_ms x" using Cons.prems(2) by simp
  have split: "empty_gap (fst (gap_loop (x # xs) cursor)) t \<longleftrightarrow>
      cursor \<le> t \<and> t < mi_clip_start_ms x \<or> empty_gap (fst (gap_loop xs ?c)) t"
    using integrity_reason_known
    by (auto simp: gap_loop_Cons empty_gap_append simp del: gap_loop.simps split: if_splits)
       (auto simp: empty_gap_def gap_covers_def)
  have final: "snd (gap_loop (x # xs) cursor) = snd (gap_loop xs ?c)" by (simp only: gap_loop_Cons snd_conv)
  have grows: "?c \<le> snd (gap_loop xs ?c)" by (rule gap_loop_grows)
  consider "t < mi_clip_start_ms x" | "mi_clip_start_ms x \<le> t" "t < ?c" | "mi_clip_start_ms x \<le> t" "?c \<le> t" by linarith
  then show ?case
  proof cases
    case 1
    then have "\<not> item_covers y t" if "y \<in> set (x # xs)" for y
      using that later by (force simp: item_covers_def)
    then show ?thesis using 1 split final grows ne Cons.prems(3) by auto
  next
    case 2
    then have "item_covers x t" using Cons.prems(3) by (auto simp: item_covers_def)
    moreover have "\<not> empty_gap (fst (gap_loop xs ?c)) t" using gap_loop_after 2 by force
    ultimately show ?thesis using 2 split by simp
  next
    case 3
    then have "\<not> item_covers x t" by (auto simp: item_covers_def)
    moreover have "empty_gap (fst (gap_loop xs ?c)) t \<longleftrightarrow>
        t < snd (gap_loop xs ?c) \<and> \<not> (\<exists>x \<in> set xs. item_covers x t)"
      using Cons.IH [of ?c] Cons.prems 3 by simp
    ultimately show ?thesis using 3 split final by auto
  qed
qed

lemma gap_loop_damage:
  assumes "g \<in> set (fst (gap_loop xs cursor))" "gp_reason g \<noteq> ''unavailable''"
  shows "\<exists>x \<in> set xs. mi_integrity x \<noteq> Int_Verified \<and> g = \<lparr>gp_start_ms = mi_clip_start_ms x,
    gp_end_ms = mi_clip_end_ms x, gp_reason = integrity_reason (mi_integrity x)\<rparr>"
  using assms
proof (induction xs arbitrary: cursor)
  case (Cons x xs)
  then show ?case by (auto simp: gap_loop_Cons simp del: gap_loop.simps split: if_splits) 
qed simp

lemma gap_loop_damaged:
  assumes "x \<in> set xs" "mi_integrity x \<noteq> Int_Verified"
  shows "\<lparr>gp_start_ms = mi_clip_start_ms x, gp_end_ms = mi_clip_end_ms x, gp_reason = integrity_reason (mi_integrity x)\<rparr>
    \<in> set (fst (gap_loop xs cursor))"
  using assms
proof (induction xs arbitrary: cursor)
  case (Cons y xs)
  then show ?case by (auto simp: gap_loop_Cons simp del: gap_loop.simps)
qed simp

lemma gap_loop_reach: "x \<in> set xs \<Longrightarrow> mi_clip_end_ms x \<le> snd (gap_loop xs cursor)"
proof (induction xs arbitrary: cursor)
  case (Cons y xs)
  have step: "snd (gap_loop (y # xs) cursor) = snd (gap_loop xs (max cursor (mi_clip_end_ms y)))"
    by (simp only: gap_loop_Cons snd_conv)
  show ?case
  proof (cases "x = y")
    case True
    show ?thesis
      unfolding True using step gap_loop_grows [of "max cursor (mi_clip_end_ms y)" xs] by linarith
  next
    case False
    then show ?thesis using step Cons by simp
  qed
qed simp

section \<open>From the tables to the manifest\<close>

lemma clip_sorted:
  assumes "sorted (map sg_start_ms gs)"
  shows "sorted (map mi_clip_start_ms (map (clip_item r) (zip gs is)))"
proof -
  have "sorted (map mi_clip_start_ms (map (clip_item r) ps))" if "sorted (map (sg_start_ms \<circ> fst) ps)" for ps
    using that by (induction ps) (auto simp: clip_item_def clip_start_def)
  moreover have "sorted (map (sg_start_ms \<circ> fst) (zip gs is))"
    using assms by (induction gs "is" rule: list_induct2') (auto dest: set_zip_leftD)
  ultimately show ?thesis by blast
qed

lemma sorted_first: "sorted (map (\<lambda>g. (f g, h g)) xs) \<Longrightarrow> sorted (map f xs)"
  by (induction xs) (auto simp: less_eq_prod_def)

lemma manifest_segments_sorted: "sorted (map sg_start_ms (filter c (manifest_segments rid d)))"
proof -
  have "sorted (map (\<lambda>g. (sg_start_ms g, sg_id g)) (manifest_segments rid d))"
    by (simp add: manifest_segments_def)
  then have "sorted (map sg_start_ms (manifest_segments rid d))" by (rule sorted_first)
  then show ?thesis by (rule sorted_filter)
qed

lemma eff_return_Inr: "eff_return x s = (Inr y, s') \<longleftrightarrow> x = y \<and> s = s'"
  by (auto simp: eff_return_def)

lemma eff_map_zip:
  assumes "eff_map gs (\<lambda>g. eff_bind (f g) (\<lambda>i. eff_return (g, i))) s = (Inr checked, s')"
  shows "\<exists>is. length is = length gs \<and> checked = zip gs is"
  using assms
proof (induction gs arbitrary: s checked)
  case (Cons g gs)
  then obtain i ys s1 where ys: "checked = (g, i) # ys" "eff_map gs (\<lambda>g. eff_bind (f g) (\<lambda>i. eff_return (g, i))) s1 = (Inr ys, s')"
    by (auto simp: eff_bind_Inr eff_return_Inr)
  from Cons.IH [OF this(2)] obtain "is" where "length is = length gs" "ys = zip gs is" by blast
  then show ?case using ys(1) by (intro exI [of _ "i # is"]) simp
qed (simp add: eff_return_def)

text \<open>The window of a manifest: its own row keeps start and end, and only a complete status may become gapped.\<close>

definition accounts :: "manifest \<Rightarrow> bool" where
  "accounts m \<longleftrightarrow>
     (\<forall>t. rc_start_ms (mf_row m) \<le> t \<and> t < rc_target_end_ms (mf_row m) \<longrightarrow>
        (empty_gap (mf_gaps m) t \<or> (\<exists>p \<in> set (mf_pending m). gap_covers p t))
          \<longleftrightarrow> \<not> (\<exists>x \<in> set (mf_segments m). item_covers x t))
     \<and> (\<forall>x \<in> set (mf_segments m). mi_integrity x \<noteq> Int_Verified \<longrightarrow>
          \<lparr>gp_start_ms = mi_clip_start_ms x, gp_end_ms = mi_clip_end_ms x,
           gp_reason = integrity_reason (mi_integrity x)\<rparr> \<in> set (mf_gaps m))
     \<and> (\<forall>g \<in> set (mf_gaps m). gp_reason g \<noteq> ''unavailable'' \<longrightarrow>
          (\<exists>x \<in> set (mf_segments m). mi_integrity x \<noteq> Int_Verified \<and> gp_start_ms g = mi_clip_start_ms x
             \<and> gp_end_ms g = mi_clip_end_ms x \<and> gp_reason g = integrity_reason (mi_integrity x)))
     \<and> (rc_status (mf_row m) = Rec_Complete \<longrightarrow> mf_gaps m = [] \<and> mf_discontinuities m = [])
     \<and> (mf_pending m \<noteq> [] \<longrightarrow> rc_status (mf_row m) = Rec_Active)"

lemma build_manifest_accounts:
  assumes len: "length is = length gs" and sorted: "sorted (map sg_start_ms gs)"
    and clips: "\<forall>g \<in> set gs. clip_start r g < clip_end r g"
  shows "accounts (build_manifest r segments (zip gs is) markers)"
proof -
  define items where "items = map (clip_item r) (zip gs is)"
  obtain gaps cursor where loop: "gap_loop items (rc_start_ms r) = (gaps, cursor)" by (meson surj_pair)
  define active where "active \<longleftrightarrow> rc_status r = Rec_Active"
  define tail where "tail = (\<lambda>reason. tail_span reason cursor (rc_target_end_ms r))"
  define bounded where "bounded = foldl (bound_marker r) [] (foldl add_marker (map disc_gap markers) (sequence_breaks segments))"
  define gaps' where "gaps' = gaps @ (if active then [] else tail ''unavailable'')"
  let ?m = "build_manifest r segments (zip gs is) markers"
  have m: "mf_segments ?m = items" "mf_gaps ?m = gaps'"
    "mf_pending ?m = (if active then tail ''awaiting_media'' else [])" "mf_discontinuities ?m = bounded"
    "rc_start_ms (mf_row ?m) = rc_start_ms r" "rc_target_end_ms (mf_row ?m) = rc_target_end_ms r"
    "rc_status (mf_row ?m) = (if rc_status r = Rec_Complete \<and> (gaps' \<noteq> [] \<or> bounded \<noteq> []) then Rec_Gapped else rc_status r)"
    using loop by (simp_all add: build_manifest_def Let_def items_def gaps'_def tail_def bounded_def active_def)
  have clip: "mi_clip_start_ms x < mi_clip_end_ms x \<and> mi_clip_end_ms x \<le> rc_target_end_ms r" if "x \<in> set items" for x
    using that clips set_zip_leftD by (fastforce simp: items_def clip_item_def clip_end_def)
  have order: "sorted (map mi_clip_start_ms items)" unfolding items_def using sorted by (rule clip_sorted)
  have exact: "empty_gap gaps t \<longleftrightarrow> t < cursor \<and> \<not> (\<exists>x \<in> set items. item_covers x t)" if "rc_start_ms r \<le> t" for t
    using gap_loop_exact [of items "rc_start_ms r" t] order clip that loop by simp
  have beyond: "\<not> item_covers x t" if "x \<in> set items" "cursor \<le> t" for x t
    using that loop gap_loop_reach [of x items "rc_start_ms r"] by (auto simp: item_covers_def)
  have tail_cover: "(\<exists>g \<in> set (tail reason). gap_covers g t) \<longleftrightarrow> cursor \<le> t \<and> t < rc_target_end_ms r" for reason t
    by (auto simp: tail_def tail_span_def gap_covers_def)
  have tail_reason: "g \<in> set (tail reason) \<Longrightarrow> gp_reason g = reason" for g reason
    by (auto simp: tail_def tail_span_def split: if_splits)
  have empty_tail: "empty_gap (tail ''unavailable'') t \<longleftrightarrow> cursor \<le> t \<and> t < rc_target_end_ms r" for t
    using tail_cover [of "''unavailable''" t] tail_reason unfolding empty_gap_def by blast
  have window: "(empty_gap (mf_gaps ?m) t \<or> (\<exists>p \<in> set (mf_pending ?m). gap_covers p t))
      \<longleftrightarrow> \<not> (\<exists>x \<in> set items. item_covers x t)" if "rc_start_ms r \<le> t" "t < rc_target_end_ms r" for t
    using exact [OF that(1)] tail_cover [of "''awaiting_media''" t] empty_tail [of t] beyond [of _ t] that(2)
    by (cases "t < cursor") (auto simp: m gaps'_def empty_gap_append empty_gap_def)
  have damaged: "\<lparr>gp_start_ms = mi_clip_start_ms x, gp_end_ms = mi_clip_end_ms x,
      gp_reason = integrity_reason (mi_integrity x)\<rparr> \<in> set gaps'" if "x \<in> set items" "mi_integrity x \<noteq> Int_Verified" for x
    using gap_loop_damaged [OF that, of "rc_start_ms r"] loop by (simp add: gaps'_def)
  have damage: "\<exists>x \<in> set items. mi_integrity x \<noteq> Int_Verified \<and> gp_start_ms g = mi_clip_start_ms x
      \<and> gp_end_ms g = mi_clip_end_ms x \<and> gp_reason g = integrity_reason (mi_integrity x)"
    if g: "g \<in> set gaps'" "gp_reason g \<noteq> ''unavailable''" for g
  proof -
    have "g \<in> set gaps" using g tail_reason by (auto simp: gaps'_def split: if_splits)
    then show ?thesis using gap_loop_damage [of g items "rc_start_ms r"] g(2) loop by fastforce
  qed
  show ?thesis
    unfolding accounts_def using window damaged damage by (auto simp: m active_def split: if_splits)
qed

section \<open>Property\<close>

lemma eff_catch_Inr:
  "eff_catch m h s = (Inr y, s') \<longleftrightarrow>
     m s = (Inr y, s') \<or> (\<exists>e s1. m s = (Inl e, s1) \<and> h e s1 = (Inr y, s'))"
  by (auto simp: eff_catch_def split: prod.splits sum.splits)

lemma manifest_built:
  assumes "manifest_of cb sha256 rid s = (Inr m, s')"
  obtains r segments "is" markers d p where "length is = length (filter (\<lambda>g. \<not> clip_end r g \<le> clip_start r g) segments)"
    "segments = manifest_segments rid d"
    "m = (build_manifest r segments (zip (filter (\<lambda>g. \<not> clip_end r g \<le> clip_start r g) segments) is) markers)
           \<lparr>mf_integrity_persisted := p\<rparr>"
proof -
  let ?items = "\<lambda>r gs. eff_map (filter (\<lambda>g. \<not> clip_end r g \<le> clip_start r g) gs)
      (\<lambda>g. eff_bind (check_integrity sha256 g) (\<lambda>i. eff_return (g, i)))"
  let ?last = "\<lambda>r m. eff_catch (eff_then (persist_manifest cb r m) (eff_return m))
       (\<lambda>e. if e \<noteq> STORAGE_HARD_STOP \<and> e \<noteq> STORAGE_PRESSURE then eff_raise e
             else eff_return (m\<lparr>mf_integrity_persisted := False\<rparr>))"
  have "\<exists>r segments s1 checked s2 s3 markers s4. sql_query (manifest_segments rid) s1 = (Inr segments, s2)
      \<and> ?items r segments s2 = (Inr checked, s3)
      \<and> ?last r (build_manifest r segments checked markers) s4 = (Inr m, s')"
    using assms unfolding manifest_of_def Let_def by (simp only: eff_bind_Inr) blast
  then obtain r segments s1 checked s2 s3 markers s4 where
    q: "sql_query (manifest_segments rid) s1 = (Inr segments, s2)" "?items r segments s2 = (Inr checked, s3)"
    and final: "?last r (build_manifest r segments checked markers) s4 = (Inr m, s')"
    by (elim exE conjE) (rule that)
  have m: "m = build_manifest r segments checked markers
     \<or> m = (build_manifest r segments checked markers)\<lparr>mf_integrity_persisted := False\<rparr>"
    using final by (auto simp: eff_catch_Inr eff_bind_Inr eff_return_Inr eff_raise_def split: if_splits)
  from eff_map_zip [OF q(2)] obtain "is" where
    z: "length is = length (filter (\<lambda>g. \<not> clip_end r g \<le> clip_start r g) segments)"
      "checked = zip (filter (\<lambda>g. \<not> clip_end r g \<le> clip_start r g) segments) is" by blast
  have "segments = manifest_segments rid (rs_db s1)"
    using q(1) by (auto simp: sql_query_def eff_bind_Inr eff_get_def dest!: io_simple)
  moreover obtain p where "m = (build_manifest r segments checked markers)\<lparr>mf_integrity_persisted := p\<rparr>"
    using m by (metis (full_types) manifest.surjective manifest.update_convs(7))
  ultimately show thesis by (intro that [OF z(1)]) (simp_all add: z(2))
qed

text \<open>
  C25. A manifest accounts for every instant. In a manifest that \<open>manifest\<close> returns, an instant of the
  recording's window is reported as unavailable or as awaited exactly when no clip covers it; every clip whose
  file is not verified is reported as a gap with what is wrong, and every such gap belongs to a clip; a recording is
  called complete only without gaps and discontinuities, and media is awaited only by an active one.
\<close>

theorem manifest_accounts_for_window:
  assumes "manifest_of cb sha256 rid s = (Inr m, s')"
  shows "(\<forall>t. rc_start_ms (mf_row m) \<le> t \<and> t < rc_target_end_ms (mf_row m) \<longrightarrow>
        (empty_gap (mf_gaps m) t \<or> (\<exists>p \<in> set (mf_pending m). gap_covers p t))
          \<longleftrightarrow> \<not> (\<exists>x \<in> set (mf_segments m). item_covers x t))
     \<and> (\<forall>x \<in> set (mf_segments m). mi_integrity x \<noteq> Int_Verified \<longrightarrow>
          \<lparr>gp_start_ms = mi_clip_start_ms x, gp_end_ms = mi_clip_end_ms x,
           gp_reason = integrity_reason (mi_integrity x)\<rparr> \<in> set (mf_gaps m))
     \<and> (\<forall>g \<in> set (mf_gaps m). gp_reason g \<noteq> ''unavailable'' \<longrightarrow>
          (\<exists>x \<in> set (mf_segments m). mi_integrity x \<noteq> Int_Verified \<and> gp_start_ms g = mi_clip_start_ms x
             \<and> gp_end_ms g = mi_clip_end_ms x \<and> gp_reason g = integrity_reason (mi_integrity x)))
     \<and> (rc_status (mf_row m) = Rec_Complete \<longrightarrow> mf_gaps m = [] \<and> mf_discontinuities m = [])
     \<and> (mf_pending m \<noteq> [] \<longrightarrow> rc_status (mf_row m) = Rec_Active)"
proof -
  obtain r segments "is" markers d p where
    b: "length is = length (filter (\<lambda>g. \<not> clip_end r g \<le> clip_start r g) segments)" "segments = manifest_segments rid d"
    "m = (build_manifest r segments (zip (filter (\<lambda>g. \<not> clip_end r g \<le> clip_start r g) segments) is) markers)
           \<lparr>mf_integrity_persisted := p\<rparr>" by (rule manifest_built [OF assms])
  have "accounts (build_manifest r segments (zip (filter (\<lambda>g. \<not> clip_end r g \<le> clip_start r g) segments) is) markers)"
    by (rule build_manifest_accounts) (use b(1,2) manifest_segments_sorted in auto)
  then have "accounts m" by (simp add: b(3) accounts_def)
  then show ?thesis by (simp only: accounts_def)
qed

definition ex_manifest :: "(recording_error, manifest, recorder) outcome" where
  "ex_manifest = manifest_of worker_cb ex_digest 1 (snd ex_appended)"

lemma ex_manifest_ok: "\<exists>m s'. ex_manifest = (Inr m, s') \<and> rc_start_ms (mf_row m) = 500 \<and> rc_target_end_ms (mf_row m) = 5500
    \<and> map (\<lambda>x. (mi_clip_start_ms x, mi_clip_end_ms x, mi_integrity x)) (mf_segments m) = [(1000, 2000, Int_Verified)]"
proof -
  have "(case ex_manifest of (Inl _, _) \<Rightarrow> False | (Inr m, _) \<Rightarrow> rc_start_ms (mf_row m) = 500
      \<and> rc_target_end_ms (mf_row m) = 5500
      \<and> map (\<lambda>x. (mi_clip_start_ms x, mi_clip_end_ms x, mi_integrity x)) (mf_segments m) = [(1000, 2000, Int_Verified)])"
    by code_simp
  then show ?thesis by (auto split: prod.splits sum.splits)
qed

theorem manifest_accounts_for_window_witness:
  "\<exists>m s'. ex_manifest = (Inr m, s') \<and> (empty_gap (mf_gaps m) 700 \<or> (\<exists>p \<in> set (mf_pending m). gap_covers p 700))
     \<and> \<not> (empty_gap (mf_gaps m) 1500 \<or> (\<exists>p \<in> set (mf_pending m). gap_covers p 1500))"
proof -
  from ex_manifest_ok obtain m s' where m: "ex_manifest = (Inr m, s')" "rc_start_ms (mf_row m) = 500"
    "rc_target_end_ms (mf_row m) = 5500"
    "map (\<lambda>x. (mi_clip_start_ms x, mi_clip_end_ms x, mi_integrity x)) (mf_segments m) = [(1000, 2000, Int_Verified)]"
    by (elim exE conjE) (rule that)
  note a = manifest_accounts_for_window [OF m(1) [unfolded ex_manifest_def], THEN conjunct1]
  have "\<not> (\<exists>x \<in> set (mf_segments m). item_covers x 700)" "\<exists>x \<in> set (mf_segments m). item_covers x 1500"
    using m(4) by (auto simp: item_covers_def)
  then show ?thesis using a [rule_format, of 700] a [rule_format, of 1500] m(1,2,3) by auto
qed

end
