(* ===== verification/Recording_Results.thy ===== *)
theory Recording_Results
  imports Recording_History "HOL-Library.Multiset"
begin

text \<open>
  What a call that returns has achieved: an append has stored the footage for every active recording it overlaps
  (\<open>RecordingStore.append\<close>, read back by \<open>open_segment\<close> and \<open>segment_sha256\<close>), and a trim has brought the
  pre-roll spool within its limits and removed what nobody needs (\<open>RecordingStore._trim\<close>).
\<close>

section \<open>Append\<close>

definition same_db :: "recorder \<Rightarrow> recorder \<Rightarrow> bool" where
  "same_db s s' \<longleftrightarrow> rs_db s' = rs_db s"

interpretation same_db: preorder_relation same_db
  by unfold_locales (auto simp: same_db_def)

lemma reads_same_db:
  "follows same_db (sql_query q)" "follows same_db (store_check a)"
proof -
  have io: "follows same_db (io e)" for e by (rule followsI) (auto dest!: io_simple simp: same_db_def)
  show "follows same_db (sql_query q)" "follows same_db (store_check a)"
    unfolding sql_query_def store_check_def verify_root_def by (intro same_db.rules io)+
qed

text \<open>A query after a prefix that only reads answers for the first state.\<close>

lemma query_answer: "\<lbrakk>sql_query q t = (Inr v, t'); same_db s t\<rbrakk> \<Longrightarrow> v = q (rs_db s) \<and> same_db s t'"
  by (auto simp: sql_query_def eff_bind_Inr eff_get_def same_db_def dest!: io_simple)

lemma append_checks_active:
  assumes "append_checks validator g s = (Inr (prior, active), s')"
  shows "active = overlapping_active g (rs_db s)"
proof -
  let ?v = "case validator g of None \<Rightarrow> eff_return () | Some e \<Rightarrow> eff_raise e"
  have v: "follows same_db ?v" by (simp add: same_db.f_return same_db.f_raise split: option.split)
  from assms obtain u1 s1 u2 s2 u3 s3 pending s4 u5 s5 n s6 known s7 u8 s8 s9 u10 s10 s11 where
    steps: "store_check False s = (Inr u1, s1)" "eff_guard (\<lambda>s. segment_valid (rs_limits s) g) Recording_ValueError s1 = (Inr u2, s2)"
      "?v s2 = (Inr u3, s3)" "sql_query (\<lambda>d. list_ex (\<lambda>h. sg_state h = Seg_Pending) (db_segments d)) s3 = (Inr pending, s4)"
      "eff_guard (\<lambda>_. \<not> pending) RECORDING_RECOVERY_REQUIRED s4 = (Inr u5, s5)"
      "sql_query (\<lambda>d. length (filter cu_active (db_cursors d))) s5 = (Inr n, s6)"
      "sql_query (\<lambda>d. list_ex (\<lambda>c. cu_source_id c = g_source_id g \<and> cu_active c) (db_cursors d)) s6 = (Inr known, s7)"
      "eff_guard (\<lambda>s. known \<or> \<not> int n \<ge> max_sources (rs_limits s)) RECORDING_SOURCE_LIMIT s7 = (Inr u8, s8)"
      "sql_query (find_cursor (g_source_id g)) s8 = (Inr prior, s9)"
      "eff_guard (\<lambda>_. \<not> regression g prior) RECORDING_TIMELINE_REGRESSION s9 = (Inr u10, s10)"
      "sql_query (overlapping_active g) s10 = (Inr active, s11)"
    unfolding append_checks_def
    by (simp only: eff_bind_Inr) (elim exE conjE, simp add: eff_return_def)
  note d = followsD [OF reads_same_db(2) steps(1)] followsD [OF same_db.f_guard steps(2)] followsD [OF v steps(3)]
    followsD [OF reads_same_db(1) steps(4)] followsD [OF same_db.f_guard steps(5)]
    followsD [OF reads_same_db(1) steps(6)] followsD [OF reads_same_db(1) steps(7)]
    followsD [OF same_db.f_guard steps(8)] followsD [OF reads_same_db(1) steps(9)]
    followsD [OF same_db.f_guard steps(10)]
  then have "same_db s s10" by (simp add: same_db_def)
  then show ?thesis using query_answer [OF steps(11)] by blast
qed

lemma sql_exec_effect:
  "sql_exec c f s = (Inr u, s') \<Longrightarrow> c (rs_db s) \<and> rs_db s' = f (rs_db s)"
  by (auto simp: sql_exec_def eff_bind_Inr eff_guard_def eff_modify_def dest!: io_simple split: if_splits)

lemma publish_link_effect:
  assumes "publish_link gid w r s = (Inr u, s')"
  shows "db_segments (rs_db s') = db_segments (rs_db s) \<and> db_recordings (rs_db s') = db_recordings (rs_db s)
    \<and> db_links (rs_db s') = db_links (rs_db s) @ [(rc_id r, gid)]"
  using assms
  by (cases w) (auto simp: publish_link_def insert_link_def insert_discontinuity_def eff_bind_Inr eff_return_def
      dest!: sql_exec_effect)

lemma publish_links_effect:
  assumes "eff_for active (publish_link gid w) s = (Inr u, s')"
  shows "db_segments (rs_db s') = db_segments (rs_db s) \<and> db_recordings (rs_db s') = db_recordings (rs_db s)
    \<and> set (db_links (rs_db s')) = set (db_links (rs_db s)) \<union> (\<lambda>r. (rc_id r, gid)) ` set active"
  using assms
proof (induction active arbitrary: s)
  case (Cons r active)
  then obtain v s1 where 1: "publish_link gid w r s = (Inr v, s1)"
    and 2: "eff_for active (publish_link gid w) s1 = (Inr u, s')" by (auto simp: eff_bind_Inr)
  show ?case using publish_link_effect [OF 1] Cons.IH [OF 2] by auto
qed (simp add: eff_return_def)

definition publish_mark :: "uuid \<Rightarrow> seg_row \<Rightarrow> seg_row" where
  "publish_mark gid h =
     (if sg_id h = gid then h\<lparr>sg_state := Seg_Ready, sg_spool := True, sg_integrity := Int_Verified\<rparr> else h)"

lemma publish_segment_effect:
  assumes "publish_segment worker_cb gid g active prior s = (Inr u, s')"
  shows "\<not> in_transaction s' \<and> rs_seg_files s' = rs_seg_files s \<and> rs_limits s' = rs_limits s
    \<and> db_recordings (rs_db s') = db_recordings (rs_db s)
    \<and> db_segments (rs_db s') = map (publish_mark gid) (db_segments (rs_db s))
    \<and> (\<forall>r \<in> set active. (rc_id r, gid) \<in> set (db_links (rs_db s')))"
proof -
  note run = assms [unfolded publish_segment_def]
  let ?gap = "case stream_break g prior of None \<Rightarrow> eff_return () | Some window \<Rightarrow> sql_always (\<lambda>d.
              let x = disc (g_source_id g) window in
              if List.member (db_source_discontinuities d) x then d
              else d\<lparr>db_source_discontinuities := db_source_discontinuities d @ [x]\<rparr>)"
  from worker.transaction_cases [OF run publish_body_frame] obtain s1 y s2 where
    t: "\<not> in_transaction s'" "media (rs_db s1) = media (rs_db s)" "media (rs_db s') = media (rs_db s2)"
      "rs_seg_files s' = rs_seg_files s" "rs_limits s' = rs_limits s"
    and body: "eff_then (sql_always (update_segments (\<lambda>h. sg_id h = gid)
         (\<lambda>h. h\<lparr>sg_state := Seg_Ready, sg_spool := True, sg_integrity := Int_Verified\<rparr>))) (
       eff_then (sql_always (upsert_cursor g)) (
       eff_then ?gap (eff_for active (publish_link gid (stream_break g prior))))) s1 = (Inr y, s2)" by blast
  have gap: "db_segments (rs_db t') = db_segments (rs_db t) \<and> db_recordings (rs_db t') = db_recordings (rs_db t)
      \<and> db_links (rs_db t') = db_links (rs_db t)" if "?gap t = (Inr v, t')" for v t t'
    using that
    by (cases "stream_break g prior") (auto simp: eff_return_def Let_def dest!: sql_exec_effect split: if_splits)
  from body obtain v1 t1 v2 t2 v3 t3 where
    b: "sql_always (update_segments (\<lambda>h. sg_id h = gid)
         (\<lambda>h. h\<lparr>sg_state := Seg_Ready, sg_spool := True, sg_integrity := Int_Verified\<rparr>)) s1 = (Inr v1, t1)"
      "sql_always (upsert_cursor g) t1 = (Inr v2, t2)" "?gap t2 = (Inr v3, t3)"
      "eff_for active (publish_link gid (stream_break g prior)) t3 = (Inr y, s2)"
    by (simp only: eff_bind_Inr) (elim exE conjE, rule that)
  have "db_segments (rs_db t1) = map (publish_mark gid) (db_segments (rs_db s1))"
      "db_recordings (rs_db t1) = db_recordings (rs_db s1)"
    using sql_exec_effect [OF b(1)] by (simp_all add: update_segments_def publish_mark_def)
  moreover have "db_segments (rs_db t2) = db_segments (rs_db t1)" "db_recordings (rs_db t2) = db_recordings (rs_db t1)"
    using sql_exec_effect [OF b(2)] by (simp_all add: upsert_cursor_def Let_def)
  ultimately have "db_segments (rs_db s2) = map (publish_mark gid) (db_segments (rs_db s1))"
      "db_recordings (rs_db s2) = db_recordings (rs_db s1)" "\<forall>r \<in> set active. (rc_id r, gid) \<in> set (db_links (rs_db s2))"
    using gap [OF b(3)] publish_links_effect [OF b(4)] by auto
  then show ?thesis using t(1,4,5) media_eq [OF t(2)] media_eq [OF t(3)] by simp
qed

lemma insert_segment_effect:
  assumes "transaction worker_cb (insert_segment row) s = (Inr u, s')"
  shows "\<not> in_transaction s' \<and> rs_seg_files s' = rs_seg_files s \<and> rs_limits s' = rs_limits s
    \<and> db_recordings (rs_db s') = db_recordings (rs_db s) \<and> db_segments (rs_db s') = db_segments (rs_db s) @ [row]
    \<and> (\<forall>h \<in> set (db_segments (rs_db s)). sg_id h \<noteq> sg_id row)"
proof -
  from worker.transaction_cases [OF assms] obtain s1 y s2 where
    t: "\<not> in_transaction s'" "media (rs_db s1) = media (rs_db s)" "media (rs_db s') = media (rs_db s2)"
      "rs_seg_files s' = rs_seg_files s" "rs_limits s' = rs_limits s" "insert_segment row s1 = (Inr y, s2)"
    using sql_tx_frame by (auto simp: insert_segment_def)
  have "segment_insertable row (rs_db s1)" "rs_db s2 = (rs_db s1)\<lparr>db_segments := db_segments (rs_db s1) @ [row]\<rparr>"
    using sql_exec_effect [OF t(6) [unfolded insert_segment_def]] by blast+
  then show ?thesis
    using media_eq [OF t(2)] media_eq [OF t(3)] t(1,4,5)
    by (simp add: segment_insertable_def list_all_iff)
qed

text \<open>What the journal and the files hold for the new segment.\<close>

definition stored :: "(bytes \<Rightarrow> string) \<Rightarrow> uuid \<Rightarrow> segment \<Rightarrow> rec_row list \<Rightarrow> recorder \<Rightarrow> bool" where
  "stored sha256 gid g active s \<longleftrightarrow>
     (\<forall>r \<in> set active. (rc_id r, gid) \<in> set (db_links (durable s)))
     \<and> (\<exists>h \<in> set (db_segments (durable s)). \<exists>critical.
          same_footage ((segment_row sha256 gid g critical)\<lparr>sg_state := Seg_Ready\<rparr>) h)
     \<and> rs_seg_files s gid = Some \<lparr>fl_plain = True, fl_data = g_data g\<rparr>"

lemma data_same_stored: "\<lbrakk>data_same s s'; stored sha256 gid g active s\<rbrakk> \<Longrightarrow> stored sha256 gid g active s'"
proof -
  assume d: "data_same s s'" and s: "stored sha256 gid g active s"
  show ?thesis
    using s media_eq [OF data_same_durable [OF d]] d by (simp add: stored_def data_same_def)
qed

lemma stored_keeps:
  assumes "keeps_evidence s s'" "distinct (map rc_id (db_recordings (durable s)))" "stored sha256 gid g active s"
    and "active \<noteq> []" "\<forall>r \<in> set active. protected (durable s) r"
  shows "stored sha256 gid g active s'"
proof -
  from assms(3) obtain h critical where h: "h \<in> set (db_segments (durable s))"
    "same_footage ((segment_row sha256 gid g critical)\<lparr>sg_state := Seg_Ready\<rparr>) h" by (auto simp: stored_def)
  have gid: "sg_id h = gid" using same_footage_fields [OF h(2)] by (simp add: segment_row_def)
  have guarded: "guarded (durable s) gid"
    using assms(3,4,5) by (cases active) (auto simp: stored_def guarded_def)
  have k: "db_keeps (durable s) (durable s')" "rs_seg_files s' gid = rs_seg_files s gid"
    using assms(1,2) guarded by (auto simp: keeps_evidence_def)
  then obtain h' where "h' \<in> set (db_segments (durable s'))" "same_footage h h'"
    using h(1) gid guarded assms(2) by (auto simp: db_keeps_def)
  moreover have "\<forall>r \<in> set active. (rc_id r, gid) \<in> set (db_links (durable s'))"
    using k(1) assms(2,3,5) by (auto simp: db_keeps_def stored_def)
  ultimately show ?thesis
    using k(2) assms(3) same_footage_trans [OF h(2)] unfolding stored_def by auto
qed

text \<open>An append that returns has inserted, written and published the segment before it trims.\<close>

lemma journaled_parts:
  assumes run: "eff_then (transaction worker_cb (insert_segment (segment_row sha256 gid g critical))) (
       eff_then (write_segment gid (g_data g)) (
       eff_then (publish_segment worker_cb gid g active prior) (
       eff_then (trim worker_cb) (eff_return gid)))) s = (Inr x, s')"
  obtains s3 u where "trim worker_cb s3 = (Inr u, s')" "x = gid" "\<not> in_transaction s3"
    "db_recordings (rs_db s3) = db_recordings (rs_db s)" "\<forall>r \<in> set active. (rc_id r, gid) \<in> set (db_links (rs_db s3))"
    "publish_mark gid (segment_row sha256 gid g critical) \<in> set (db_segments (rs_db s3))"
    "\<forall>h \<in> set (db_segments (rs_db s3)). sg_id h = gid \<longrightarrow> h = publish_mark gid (segment_row sha256 gid g critical)"
    "rs_seg_files s3 gid = Some \<lparr>fl_plain = True, fl_data = g_data g\<rparr>"
proof -
  let ?row = "segment_row sha256 gid g critical"
  from run obtain u1 s1 u2 s2 u3 s3 u4 where
    1: "transaction worker_cb (insert_segment ?row) s = (Inr u1, s1)"
    and 2: "write_segment gid (g_data g) s1 = (Inr u2, s2)"
    and 3: "publish_segment worker_cb gid g active prior s2 = (Inr u3, s3)"
    and 4: "trim worker_cb s3 = (Inr u4, s')" and x: "x = gid"
    by (auto simp: eff_bind_Inr eff_return_def)
  note i = insert_segment_effect [OF 1] and p = publish_segment_effect [OF 3]
  have w: "rs_db s2 = rs_db s1" using followsD [OF write_segment_steps 2] by (simp add: file_step_def)
  have row: "sg_id ?row = gid" and mark: "sg_id (publish_mark gid h) = sg_id h" for h
    by (simp_all add: segment_row_def publish_mark_def)
  have segs: "db_segments (rs_db s3) = map (publish_mark gid) (db_segments (rs_db s) @ [?row])" using p w i by simp
  have one: "\<forall>h \<in> set (db_segments (rs_db s3)). sg_id h = gid \<longrightarrow> h = publish_mark gid ?row"
    using i unfolding segs row by (auto simp: mark)
  have new: "publish_mark gid ?row \<in> set (db_segments (rs_db s3))" by (simp add: segs)
  have content: "rs_seg_files s3 gid = Some \<lparr>fl_plain = True, fl_data = g_data g\<rparr>"
    using p write_segment_written [OF 2] by simp
  have recs: "db_recordings (rs_db s3) = db_recordings (rs_db s)" using p w i by simp
  have links: "\<forall>r \<in> set active. (rc_id r, gid) \<in> set (db_links (rs_db s3))" and free: "\<not> in_transaction s3" using p by blast+
  show thesis by (rule that [OF 4 x free recs links new one content])
qed

lemma append_parts:
  assumes run: "append_segment worker_cb worker_binding validator sha256 new_id g s = (Inr gid, s')"
  obtains prior s1 u s2 s3 where
    "append_checks validator g s = (Inr (prior, overlapping_active g (rs_db s)), s1)"
    "policy_admit worker_cb worker_binding (int (length (g_data g))) (list_ex rc_critical (overlapping_active g (rs_db s))) s1 = (Inr u, s2)"
    "eff_then (transaction worker_cb (insert_segment (segment_row sha256 new_id g (list_ex rc_critical (overlapping_active g (rs_db s)))))) (
       eff_then (write_segment new_id (g_data g)) (
       eff_then (publish_segment worker_cb new_id g (overlapping_active g (rs_db s)) prior) (
       eff_then (trim worker_cb) (eff_return new_id)))) (s2\<lparr>rs_reservation_active := True\<rparr>) = (Inr gid, s3)"
    "data_same s3 s'"
proof -
  let ?active = "overlapping_active g (rs_db s)"
  let ?critical = "list_ex rc_critical ?active"
  let ?core = "\<lambda>prior. eff_then (transaction worker_cb (insert_segment (segment_row sha256 new_id g ?critical))) (
       eff_then (write_segment new_id (g_data g)) (
       eff_then (publish_segment worker_cb new_id g ?active prior) (
       eff_then (trim worker_cb) (eff_return new_id))))"
  let ?handler = "\<lambda>e. eff_then (eff_modify (\<lambda>s. s\<lparr>rs_failed := True\<rparr>)) (eff_raise (append_error e))"
  from run obtain prior act s1 where 1: "append_checks validator g s = (Inr (prior, act), s1)"
    by (auto simp: append_segment_def eff_bind_Inr)
  have act: "act = ?active" by (rule append_checks_active [OF 1])
  from run 1 act obtain u s2 where 2: "policy_admit worker_cb worker_binding (int (length (g_data g))) ?critical s1 = (Inr u, s2)"
    and 3: "eff_finally (eff_catch (?core prior) ?handler) release_reservation (s2\<lparr>rs_reservation_active := True\<rparr>)
        = (Inr gid, s')"
    by (auto simp: append_segment_def eff_bind_step Let_def) (auto simp: eff_bind_Inr eff_modify_def)
  from 3 obtain s3 where 4: "?core prior (s2\<lparr>rs_reservation_active := True\<rparr>) = (Inr gid, s3)" "release_reservation s3 = (Inr (), s')"
    by (auto simp: eff_finally_def eff_catch_def eff_bind_def eff_modify_def eff_raise_def split: prod.splits sum.splits)
  show thesis using that [OF 1 [unfolded act] 2 4(1) worker.release_data [OF 4(2)]] .
qed

lemma journaled_append_stored:
  assumes run: "eff_then (transaction worker_cb (insert_segment (segment_row sha256 gid g critical))) (
       eff_then (write_segment gid (g_data g)) (
       eff_then (publish_segment worker_cb gid g active prior) (
       eff_then (trim worker_cb) (eff_return gid)))) s = (Inr x, s')"
    and ids: "distinct (map rc_id (db_recordings (rs_db s)))"
    and active: "active \<noteq> []" "\<forall>r \<in> set active. protected (rs_db s) r"
  shows "stored sha256 gid g active s'"
  using run
proof (rule journaled_parts)
  fix s3 :: recorder and u
  let ?row = "segment_row sha256 gid g critical"
  assume p: "trim worker_cb s3 = (Inr u, s')" "\<not> in_transaction s3" "db_recordings (rs_db s3) = db_recordings (rs_db s)"
    "\<forall>r \<in> set active. (rc_id r, gid) \<in> set (db_links (rs_db s3))" "publish_mark gid ?row \<in> set (db_segments (rs_db s3))"
    "rs_seg_files s3 gid = Some \<lparr>fl_plain = True, fl_data = g_data g\<rparr>"
  have d3: "durable s3 = rs_db s3" using p(2) by (simp add: durable_def)
  have "same_footage (?row\<lparr>sg_state := Seg_Ready\<rparr>) (publish_mark gid ?row)"
    by (simp add: same_footage_def publish_mark_def segment_row_def)
  then have "stored sha256 gid g active s3" using p unfolding stored_def d3 by blast
  moreover have "distinct (map rc_id (db_recordings (durable s3)))" "\<forall>r \<in> set active. protected (durable s3) r"
    using p(3) ids active(2) unfolding d3 by (simp_all add: protected_def)
  moreover have "keeps_evidence s3 s'" by (rule followsD [OF worker.trim_keeps p(1)])
  ultimately show ?thesis using stored_keeps [of s3 s'] active(1) by blast
qed

lemma append_stored:
  assumes run: "append_segment worker_cb worker_binding validator sha256 new_id g s = (Inr gid, s')"
    and free: "\<not> in_transaction s" and ids: "distinct (map rc_id (db_recordings (rs_db s)))"
    and active: "overlapping_active g (rs_db s) \<noteq> []"
  shows "stored sha256 new_id g (overlapping_active g (rs_db s)) s'"
  using run
proof (rule append_parts)
  let ?active = "overlapping_active g (rs_db s)"
  let ?critical = "list_ex rc_critical ?active"
  fix prior u and s1 s2 s3 :: recorder
  let ?s2 = "s2\<lparr>rs_reservation_active := True\<rparr>"
  assume 1: "append_checks validator g s = (Inr (prior, ?active), s1)"
    and 2: "policy_admit worker_cb worker_binding (int (length (g_data g))) ?critical s1 = (Inr u, s2)"
    and 4: "eff_then (transaction worker_cb (insert_segment (segment_row sha256 new_id g ?critical))) (
       eff_then (write_segment new_id (g_data g)) (
       eff_then (publish_segment worker_cb new_id g ?active prior) (
       eff_then (trim worker_cb) (eff_return new_id)))) ?s2 = (Inr gid, s3)" and 5: "data_same s3 s'"
  have d1: "data_same s s1" by (rule followsD [OF append_checks_data 1])
  then have ids1: "distinct (map rc_id (db_recordings (durable s1)))" "\<forall>r \<in> set ?active. protected (durable s1) r"
    using ids free media_eq(1) [of "rs_db s1" "rs_db s"]
    by (auto simp: data_same_def durable_def protected_def overlapping_active_def)
  have k: "keeps_evidence s1 s2" by (rule followsD [OF policy_admit_keeps 2])
  then have ids2: "distinct (map rc_id (db_recordings (durable s2)))" "\<forall>r \<in> set ?active. protected (durable s2) r"
    using ids1 by (auto simp: keeps_evidence_def db_keeps_def)
  have "\<not> in_transaction ?s2"
    using 4 by (auto simp: eff_bind_Inr transaction_def eff_guard_def split: if_splits)
  then have "distinct (map rc_id (db_recordings (rs_db ?s2)))" "\<forall>r \<in> set ?active. protected (rs_db ?s2) r"
    using ids2 by (simp_all add: durable_def)
  from data_same_stored [OF 5 journaled_append_stored [OF 4 this(1) active this(2)]] show ?thesis .
qed

section \<open>Trim\<close>

definition spool_ok :: "rec_limits \<Rightarrow> rec_db \<Rightarrow> bool" where
  "spool_ok l d \<longleftrightarrow>
     sum_list (map sg_byte_length (filter sg_spool (db_segments d))) \<le> pre_roll_bytes l
     \<and> int (length (filter sg_spool (db_segments d))) \<le> max_spool_segments l"

definition spooled :: "seg_row list \<Rightarrow> rec_db \<Rightarrow> bool" where
  "spooled gs d \<longleftrightarrow> distinct (map sg_id (db_segments d)) \<and> mset (filter sg_spool (db_segments d)) = mset gs"

lemma filter_map_unchanged:
  assumes "\<And>x. x \<in> set xs \<Longrightarrow> P (f x) \<longleftrightarrow> P x \<and> x \<noteq> y" "\<And>x. \<lbrakk>x \<in> set xs; P x; x \<noteq> y\<rbrakk> \<Longrightarrow> f x = x"
  shows "filter P (map f xs) = filter (\<lambda>x. P x \<and> x \<noteq> y) xs"
  using assms by (induction xs) auto

lemma mset_filter_minus: "\<lbrakk>distinct xs; y \<in> set xs; P y\<rbrakk> \<Longrightarrow>
    mset (filter (\<lambda>x. P x \<and> x \<noteq> y) xs) = mset (filter P xs) - {#y#}"
proof (induction xs)
  case (Cons x xs)
  show ?case
  proof (cases "x = y")
    case True
    then have "filter (\<lambda>z. P z \<and> z \<noteq> y) xs = filter P xs" using Cons.prems by (intro filter_cong) auto
    then show ?thesis using True Cons.prems by (simp del: mset_filter)
  next
    case False
    then have y: "y \<in> set xs" using Cons.prems by simp
    then have "y \<in> set (filter P xs)" using Cons.prems by simp
    then have "y \<in># mset (filter P xs)" by (simp only: set_mset_mset)
    then show ?thesis using False Cons y by (simp del: mset_filter)
  qed
qed simp

lemma unspool_step:
  assumes "spooled (g # gs) d"
  shows "spooled gs (update_segments (\<lambda>h. sg_id h = sg_id g) (\<lambda>h. h\<lparr>sg_spool := False\<rparr>) d)"
proof -
  let ?f = "\<lambda>h. if sg_id h = sg_id g then h\<lparr>sg_spool := False\<rparr> else h"
  have d: "distinct (map sg_id (db_segments d))" "mset (filter sg_spool (db_segments d)) = mset (g # gs)"
    using assms by (simp_all add: spooled_def)
  then have "g \<in> set (filter sg_spool (db_segments d))" by (metis list.set_intros(1) set_mset_mset)
  then have g: "g \<in> set (db_segments d)" "sg_spool g" by simp_all
  have key: "x = g" if "x \<in> set (db_segments d)" "sg_id x = sg_id g" for x
    using d(1) g(1) that by (auto simp: distinct_map dest: inj_onD)
  have "filter sg_spool (map ?f (db_segments d)) = filter (\<lambda>x. sg_spool x \<and> x \<noteq> g) (db_segments d)"
    by (rule filter_map_unchanged) (auto dest: key)
  then have "mset (filter sg_spool (map ?f (db_segments d))) = mset gs"
    using mset_filter_minus [of "db_segments d" g sg_spool] d g by (simp add: distinct_map)
  moreover have "map sg_id (map ?f (db_segments d)) = map sg_id (db_segments d)" by simp
  moreover have "db_segments (update_segments (\<lambda>h. sg_id h = sg_id g) (\<lambda>h. h\<lparr>sg_spool := False\<rparr>) d) = map ?f (db_segments d)"
    by (simp add: update_segments_def)
  ultimately show ?thesis using d(1) unfolding spooled_def by metis
qed

lemma spooled_ok:
  assumes "spooled gs d" "sum_list (map sg_byte_length gs) \<le> pre_roll_bytes l" "int (length gs) \<le> max_spool_segments l"
  shows "spool_ok l d \<and> distinct (map sg_id (db_segments d))"
proof -
  have m: "mset (filter sg_spool (db_segments d)) = mset gs" using assms(1) by (simp add: spooled_def)
  have "sum_list (map sg_byte_length (filter sg_spool (db_segments d))) = sum_list (map sg_byte_length gs)"
    by (metis m mset_map sum_mset_sum_list)
  moreover have "length (filter sg_spool (db_segments d)) = length gs" by (metis m size_mset)
  ultimately show ?thesis using assms by (simp add: spool_ok_def spooled_def)
qed

lemma evict_loop_spool:
  assumes "rec_limits_ok l"
  shows "triple (\<lambda>s. spooled gs (rs_db s))
     (evict_loop l gs (sum_list (map sg_byte_length gs)) (int (length gs)))
     (\<lambda>_ s. spool_ok l (rs_db s) \<and> distinct (map sg_id (db_segments (rs_db s)))) (\<lambda>_ _. True)"
proof (induction gs)
  case Nil
  have "0 \<le> pre_roll_bytes l" "0 \<le> max_spool_segments l" using assms by (simp_all add: rec_limits_ok_def)
  then show ?case using spooled_ok [of "[]"] by (auto simp: triple_def eff_return_def)
next
  case (Cons g gs)
  let ?t = "sum_list (map sg_byte_length (g # gs))" and ?n = "int (length (g # gs))"
  show ?case
  proof (cases "?t \<le> pre_roll_bytes l \<and> ?n \<le> max_spool_segments l")
    case True
    then show ?thesis using spooled_ok [of "g # gs"] by (auto simp: triple_def eff_return_def)
  next
    case False
    have step: "triple (\<lambda>s. spooled (g # gs) (rs_db s))
        (sql_always (update_segments (\<lambda>h. sg_id h = sg_id g) (\<lambda>h. h\<lparr>sg_spool := False\<rparr>)))
        (\<lambda>_ s. spooled gs (rs_db s)) (\<lambda>_ _. True)"
      by (rule sql_exec_post) (simp add: unspool_step)
    have "evict_loop l (g # gs) ?t ?n =
        eff_then (sql_always (update_segments (\<lambda>h. sg_id h = sg_id g) (\<lambda>h. h\<lparr>sg_spool := False\<rparr>)))
          (evict_loop l gs (sum_list (map sg_byte_length gs)) (int (length gs)))"
      using False by auto
    then show ?thesis using triple_bind [OF step Cons.IH] by simp
  qed
qed

lemma spool_rows_spooled: "distinct (map sg_id (db_segments d)) \<Longrightarrow> spooled (spool_rows d) d"
  by (simp add: spooled_def spool_rows_def)

lemma trim_spool_bounded:
  assumes "rec_limits_ok l"
  shows "triple (\<lambda>s. distinct (map sg_id (db_segments (rs_db s)))) (trim_spool l)
    (\<lambda>_ s. spool_ok l (rs_db s) \<and> distinct (map sg_id (db_segments (rs_db s)))) (\<lambda>_ _. True)"
proof -
  let ?ids = "\<lambda>s :: recorder. distinct (map sg_id (db_segments (rs_db s)))"
  have fields: "db_segments (delete_source_discontinuities c d) = db_segments d" for c d
    by (simp add: delete_source_discontinuities_def)
  have 1: "triple ?ids (sql_always (\<lambda>d. update_segments (spool_expired l d) (\<lambda>g. g\<lparr>sg_spool := False\<rparr>) d)) (\<lambda>_. ?ids) (\<lambda>_ _. True)"
    by (rule sql_exec_post) (simp add: update_segments_def o_def if_distrib cong: if_cong)
  have 2: "triple ?ids (sql_query spool_rows) (\<lambda>rows s. spooled rows (rs_db s)) (\<lambda>_ _. True)"
    by (rule triple_weaken [OF sql_query_post [where P = ?ids]]) (auto simp: spool_rows_spooled)
  have 3: "triple (\<lambda>s. spool_ok l (rs_db s) \<and> ?ids s) (sql_always (\<lambda>d. delete_source_discontinuities (c d) d))
      (\<lambda>_ s. spool_ok l (rs_db s) \<and> ?ids s) (\<lambda>_ _. True)" for c
    by (rule sql_exec_post) (simp add: spool_ok_def fields)
  show ?thesis
    unfolding trim_spool_def
    by (intro triple_bind [OF 1] triple_bind [OF 2] triple_bind [OF evict_loop_spool [OF assms]] 3)
qed

lemma drop_segment_result:
  assumes "drop_segment worker_cb gid s = (Inr u, s')"
  shows "\<not> in_transaction s' \<and> db_segments (rs_db s') = filter (\<lambda>g. sg_id g \<noteq> gid) (db_segments (rs_db s))
    \<and> db_links (rs_db s') = db_links (rs_db s) \<and> rs_seg_files s' = (rs_seg_files s)(gid := None)"
proof -
  let ?stmt = "sql_exec (segments_deletable (\<lambda>g. sg_id g = gid)) (delete_segments (\<lambda>g. sg_id g = gid))"
  from assms obtain v s1 w s2 where 1: "unlink_seg gid s = (Inr v, s1)" and 2: "io Recording_OSError s1 = (Inr w, s2)"
    and 3: "transaction worker_cb ?stmt s2 = (Inr u, s')" by (auto simp: drop_segment_def eff_bind_Inr)
  have f: "rs_db s2 = rs_db s" "rs_seg_files s2 = (rs_seg_files s)(gid := None)"
    using 1 io_simple [OF 2]
    by (auto simp: unlink_seg_def verify_root_def eff_bind_Inr eff_modify_def dest!: io_simple)
  from worker.transaction_cases [OF 3 sql_tx_frame(2)] obtain t1 y t2 where
    t: "\<not> in_transaction s'" "media (rs_db t1) = media (rs_db s2)" "media (rs_db s') = media (rs_db t2)"
      "rs_seg_files s' = rs_seg_files s2" "?stmt t1 = (Inr y, t2)" by blast
  have "rs_db t2 = delete_segments (\<lambda>g. sg_id g = gid) (rs_db t1)" using sql_exec_effect [OF t(5)] by blast
  then show ?thesis
    using media_eq [OF t(2)] media_eq [OF t(3)] t(1,4) f by (simp add: delete_segments_def)
qed

lemma drop_loop_effect:
  assumes "eff_for gids (drop_segment worker_cb) s = (Inr u, s')" "\<not> in_transaction s"
  shows "\<not> in_transaction s' \<and> db_segments (rs_db s') = filter (\<lambda>g. sg_id g \<notin> set gids) (db_segments (rs_db s))
    \<and> db_links (rs_db s') = db_links (rs_db s) \<and> (\<forall>gid \<in> set gids. rs_seg_files s' gid = None)
    \<and> (\<forall>gid. gid \<notin> set gids \<longrightarrow> rs_seg_files s' gid = rs_seg_files s gid)"
  using assms
proof (induction gids arbitrary: s)
  case (Cons gid gids)
  then obtain v s1 where 1: "drop_segment worker_cb gid s = (Inr v, s1)"
    and 2: "eff_for gids (drop_segment worker_cb) s1 = (Inr u, s')" by (auto simp: eff_bind_Inr)
  note d = drop_segment_result [OF 1]
  note l = Cons.IH [OF 2 conjunct1 [OF d]]
  have "db_segments (rs_db s') = filter (\<lambda>g. sg_id g \<notin> set (gid # gids)) (db_segments (rs_db s))"
    using d l by (auto intro: filter_cong)
  moreover have "rs_seg_files s' gid = None" using d l by (cases "gid \<in> set gids") auto
  ultimately show ?case using d l by auto
qed (simp add: eff_return_def)

text \<open>The parts of a trim that returned.\<close>

lemma trim_parts:
  assumes run: "trim worker_cb s = (Inr u, s')"
  obtains t v t1 unused t2 t' where "data_same s t" "transaction worker_cb (trim_spool (rs_limits s)) t = (Inr v, t1)"
    "\<not> in_transaction t1" "unused = unused_segments (rs_db t1)" "rs_db t2 = rs_db t1" "\<not> in_transaction t2"
    "rs_seg_files t2 = rs_seg_files s" "eff_for unused (drop_segment worker_cb) t2 = (Inr u, t')" "data_same t' s'"
proof -
  let ?body = "eff_bind (eff_get rs_limits) (\<lambda>l. eff_then (transaction worker_cb (trim_spool l)) (
      eff_bind (sql_query unused_segments) (\<lambda>unused. eff_for unused (drop_segment worker_cb))))"
  from run obtain v s1 where 1: "store_check False s = (Inr v, s1)"
    and 2: "control_reservation worker_cb (eff_then verify_root ?body) s1 = (Inr u, s')"
    by (auto simp: trim_def control_operation_def eff_bind_Inr)
  have d1: "data_same s s1" by (rule followsD [OF reads_data(2) 1])
  from worker.control_reservation_cases [OF 2] obtain t0 t' where
    t: "data_same s1 t0" "eff_then verify_root ?body t0 = (Inr u, t')" "data_same t' s'" by auto
  from t(2) obtain w t where v: "verify_root t0 = (Inr w, t)" and b: "?body t = (Inr u, t')"
    by (auto simp: eff_bind_Inr)
  have d: "data_same s t"
    using data_same_trans [OF data_same_trans [OF d1 t(1)]] followsD [OF io_follows(3)] v unfolding verify_root_def by blast
  then have lim: "rs_limits t = rs_limits s" by (simp add: data_same_def)
  from b lim obtain v t1 unused t2 where 1: "transaction worker_cb (trim_spool (rs_limits s)) t = (Inr v, t1)"
    and 2: "sql_query unused_segments t1 = (Inr unused, t2)"
    and 3: "eff_for unused (drop_segment worker_cb) t2 = (Inr u, t')"
    by (auto simp: eff_bind_Inr eff_get_def)
  have free: "\<not> in_transaction t1" and files: "rs_seg_files t1 = rs_seg_files t"
    using worker.transaction_cases [OF 1 trim_spool_tx] by blast+
  moreover have "unused = unused_segments (rs_db t1)" "rs_db t2 = rs_db t1" "rs_saved t2 = rs_saved t1" "rs_seg_files t2 = rs_seg_files t1"
    using 2 by (auto simp: sql_query_def eff_bind_Inr eff_get_def dest!: io_simple)
  moreover have "rs_seg_files t = rs_seg_files s" using d by (simp add: data_same_def)
  ultimately show thesis using that [OF d 1 free _ _ _ _ 3 t(3)] by simp
qed

lemma trim_closes: "trim worker_cb s = (Inr u, s') \<Longrightarrow> \<not> in_transaction s'"
  by (erule trim_parts) (drule drop_loop_effect; simp add: data_same_def)

lemma trim_effect:
  assumes run: "trim worker_cb s = (Inr u, s')"
    and ids: "distinct (map sg_id (db_segments (rs_db s)))" and l: "rec_limits_ok (rs_limits s)"
  shows "\<not> in_transaction s' \<and> spool_ok (rs_limits s) (rs_db s') \<and> unused_segments (rs_db s') = []"
proof -
  obtain t v t1 unused t2 t' where p: "data_same s t"
      "transaction worker_cb (trim_spool (rs_limits s)) t = (Inr v, t1)" "\<not> in_transaction t1"
      "unused = unused_segments (rs_db t1)" "rs_db t2 = rs_db t1" "\<not> in_transaction t2" "rs_seg_files t2 = rs_seg_files s"
      "eff_for unused (drop_segment worker_cb) t2 = (Inr u, t')" "data_same t' s'"
    by (rule trim_parts [OF run])
  from worker.transaction_cases [OF p(2) trim_spool_tx] obtain s1 y s2 where
    t: "media (rs_db s1) = media (rs_db t)" "media (rs_db t1) = media (rs_db s2)"
      "trim_spool (rs_limits s) s1 = (Inr y, s2)" by blast
  have m: "media (rs_db t) = media (rs_db s)" using p(1) by (simp add: data_same_def)
  have "spool_ok (rs_limits s) (rs_db s2) \<and> distinct (map sg_id (db_segments (rs_db s2)))"
    using triple_Inr [OF trim_spool_bounded [OF l] _ t(3)] media_eq(2) [OF t(1)] media_eq(2) [OF m] ids by simp
  then have ok: "spool_ok (rs_limits s) (rs_db t1)" "distinct (map sg_id (db_segments (rs_db t1)))"
    using media_eq(2) [OF t(2)] by (simp_all add: spool_ok_def)
  note d = drop_loop_effect [OF p(8,6), unfolded p(5)]
  have kept: "sg_id g \<notin> set unused" if g: "g \<in> set (db_segments (rs_db t1))" "sg_spool g" for g
  proof
    assume "sg_id g \<in> set unused"
    then obtain h where "h \<in> set (db_segments (rs_db t1))" "sg_id h = sg_id g" "\<not> sg_spool h"
      by (auto simp: p(4) unused_segments_def)
    then show False using ok(2) g by (auto simp: distinct_map dest: inj_onD)
  qed
  have "filter sg_spool (db_segments (rs_db t')) = filter sg_spool (db_segments (rs_db t1))"
    using d kept by (auto intro: filter_cong)
  moreover have "unused_segments (rs_db t') = []"
    using d by (auto simp: p(4) unused_segments_def linked_def filter_empty_conv)
  moreover have m': "media (rs_db s') = media (rs_db t')" "rs_saved s' = rs_saved t'" using p(9) by (simp_all add: data_same_def)
  note media_eq [OF this(1)]
  ultimately show ?thesis using ok(1) d m'(2) by (simp add: spool_ok_def unused_segments_def linked_def)
qed

text \<open>
  What a trim that returned has done with one published segment: the row is untouched up to its spool mark and the file
  is untouched, or both are gone.
\<close>

definition journals :: "seg_row \<Rightarrow> rec_db \<Rightarrow> bool" where
  "journals h d \<longleftrightarrow> (\<forall>k \<in> set (db_segments d). sg_id k = sg_id h \<longrightarrow> same_footage h k) \<and> sg_id h \<in> sg_id ` set (db_segments d)"

lemma unspool_journals: "journals h d \<Longrightarrow> journals h (update_segments c (\<lambda>g. g\<lparr>sg_spool := False\<rparr>) d)"
proof -
  assume h: "journals h d"
  have "map sg_id (db_segments (update_segments c (\<lambda>g. g\<lparr>sg_spool := False\<rparr>) d)) = map sg_id (db_segments d)"
    by (simp add: update_segments_def)
  from arg_cong [OF this, of set]
  have "sg_id ` set (db_segments (update_segments c (\<lambda>g. g\<lparr>sg_spool := False\<rparr>) d)) = sg_id ` set (db_segments d)"
    by (simp only: set_map)
  moreover have "same_footage h k" if "k \<in> set (db_segments (update_segments c (\<lambda>g. g\<lparr>sg_spool := False\<rparr>) d))" "sg_id k = sg_id h" for k
    using h that by (auto simp: journals_def update_segments_def same_footage_def split: if_splits)
  ultimately show ?thesis using h by (simp add: journals_def)
qed

lemma evict_loop_journals: "triple (\<lambda>s. journals h (rs_db s)) (evict_loop l gs b n) (\<lambda>_ s. journals h (rs_db s)) (\<lambda>_ _. True)"
proof (induction l gs b n rule: evict_loop.induct)
  case (1 l b n)
  show ?case by (simp add: triple_return)
next
  case (2 l g gs b n)
  have "triple (\<lambda>s. journals h (rs_db s)) (sql_always (update_segments (\<lambda>k. sg_id k = sg_id g) (\<lambda>k. k\<lparr>sg_spool := False\<rparr>)))
      (\<lambda>_ s. journals h (rs_db s)) (\<lambda>_ _. True)" by (rule sql_exec_post) (simp add: unspool_journals)
  then show ?case using 2 by (auto intro!: triple_bind triple_return)
qed

lemma trim_spool_journals: "triple (\<lambda>s. journals h (rs_db s)) (trim_spool l) (\<lambda>_ s. journals h (rs_db s)) (\<lambda>_ _. True)"
proof -
  have 1: "triple (\<lambda>s. journals h (rs_db s)) (sql_always (\<lambda>d. update_segments (spool_expired l d) (\<lambda>g. g\<lparr>sg_spool := False\<rparr>) d))
      (\<lambda>_ s. journals h (rs_db s)) (\<lambda>_ _. True)" by (rule sql_exec_post) (simp add: unspool_journals)
  have 2: "triple (\<lambda>s. journals h (rs_db s)) (sql_always (\<lambda>d. delete_source_discontinuities (c d) d))
      (\<lambda>_ s. journals h (rs_db s)) (\<lambda>_ _. True)" for c
    by (rule sql_exec_post) (simp add: journals_def delete_source_discontinuities_def)
  show ?thesis
    unfolding trim_spool_def by (intro triple_bind [OF 1] triple_bind [OF query_keep] triple_bind [OF evict_loop_journals] 2)
qed

lemma trim_segment:
  assumes run: "trim worker_cb s = (Inr u, s')" and h: "journals h (rs_db s)"
  shows "if sg_id h \<in> sg_id ` set (db_segments (rs_db s'))
    then journals h (rs_db s') \<and> rs_seg_files s' (sg_id h) = rs_seg_files s (sg_id h)
    else rs_seg_files s' (sg_id h) = None"
proof -
  obtain t v t1 unused t2 t' where p: "data_same s t"
      "transaction worker_cb (trim_spool (rs_limits s)) t = (Inr v, t1)" "\<not> in_transaction t1"
      "unused = unused_segments (rs_db t1)" "rs_db t2 = rs_db t1" "\<not> in_transaction t2" "rs_seg_files t2 = rs_seg_files s"
      "eff_for unused (drop_segment worker_cb) t2 = (Inr u, t')" "data_same t' s'"
    by (rule trim_parts [OF run])
  from worker.transaction_cases [OF p(2) trim_spool_tx] obtain s1 y s2 where
    t: "media (rs_db s1) = media (rs_db t)" "media (rs_db t1) = media (rs_db s2)"
      "trim_spool (rs_limits s) s1 = (Inr y, s2)" by blast
  have m: "media (rs_db t) = media (rs_db s)" "media (rs_db s') = media (rs_db t')" "rs_seg_files s' = rs_seg_files t'"
    using p(1,9) by (simp_all add: data_same_def)
  have "journals h (rs_db s1)" using h media_eq(2) [OF t(1)] media_eq(2) [OF m(1)] by (simp add: journals_def)
  then have "journals h (rs_db s2)" by (rule triple_Inr [OF trim_spool_journals _ t(3)])
  then have j: "journals h (rs_db t1)" using media_eq(2) [OF t(2)] by (simp add: journals_def)
  note d = drop_loop_effect [OF p(8,6), unfolded p(5,7)]
  have segs: "db_segments (rs_db s') = filter (\<lambda>g. sg_id g \<notin> set unused) (db_segments (rs_db t1))" using d media_eq(2) [OF m(2)] by simp
  show ?thesis
  proof (cases "sg_id h \<in> set unused")
    case True
    then show ?thesis using d m(3) by (auto simp: segs)
  next
    case False
    then have "journals h (rs_db s')" using j by (auto simp: journals_def segs)
    moreover have "rs_seg_files s' (sg_id h) = rs_seg_files s (sg_id h)" using d m(3) False by simp
    ultimately show ?thesis by (simp add: journals_def)
  qed
qed

section \<open>Properties\<close>

lemma append_closes:
  assumes "append_segment worker_cb worker_binding validator sha256 new_id g s = (Inr gid, s')"
  shows "\<not> in_transaction s'"
  using assms by (rule append_parts) (erule journaled_parts, drule trim_closes, simp add: data_same_def)

text \<open>What an append that returned leaves of its segment: the published row with the file, or nothing.\<close>

definition segment_left :: "(bytes \<Rightarrow> string) \<Rightarrow> uuid \<Rightarrow> segment \<Rightarrow> recorder \<Rightarrow> bool" where
  "segment_left sha256 gid g s' \<longleftrightarrow>
    (if gid \<in> sg_id ` set (db_segments (rs_db s'))
    then (\<exists>h. List.find (\<lambda>k. sg_id k = gid \<and> sg_state k = Seg_Ready) (db_segments (rs_db s')) = Some h
         \<and> sg_byte_length h = int (length (g_data g)) \<and> sg_sha256 h = sha256 (g_data g))
       \<and> rs_seg_files s' gid = Some \<lparr>fl_plain = True, fl_data = g_data g\<rparr>
    else rs_seg_files s' gid = None)"

lemma append_segment_left:
  assumes "append_segment worker_cb worker_binding validator sha256 new_id g s = (Inr gid, s')"
  shows "gid = new_id \<and> segment_left sha256 gid g s'"
  using assms
proof (rule append_parts)
  let ?active = "overlapping_active g (rs_db s)"
  let ?row = "segment_row sha256 new_id g (list_ex rc_critical ?active)"
  fix prior and s2 s3 :: recorder
  assume core: "eff_then (transaction worker_cb (insert_segment ?row)) (
       eff_then (write_segment new_id (g_data g)) (
       eff_then (publish_segment worker_cb new_id g ?active prior) (
       eff_then (trim worker_cb) (eff_return new_id)))) (s2\<lparr>rs_reservation_active := True\<rparr>) = (Inr gid, s3)"
    and same: "data_same s3 s'"
  from core show ?thesis
  proof (rule journaled_parts)
    let ?h = "publish_mark new_id ?row"
    fix t3 :: recorder and u
    assume p: "trim worker_cb t3 = (Inr u, s3)" "gid = new_id" "?h \<in> set (db_segments (rs_db t3))"
      "\<forall>h \<in> set (db_segments (rs_db t3)). sg_id h = new_id \<longrightarrow> h = ?h"
      "rs_seg_files t3 new_id = Some \<lparr>fl_plain = True, fl_data = g_data g\<rparr>"
    have h: "sg_id ?h = new_id" "sg_state ?h = Seg_Ready" "sg_byte_length ?h = int (length (g_data g))" "sg_sha256 ?h = sha256 (g_data g)"
      by (simp_all add: publish_mark_def segment_row_def)
    have "journals ?h (rs_db t3)"
      unfolding journals_def h(1) using p(4) imageI [OF p(3), of sg_id, unfolded h(1)] by (metis same_footage_refl)
    note trimmed = trim_segment [OF p(1) this, unfolded h(1) p(5)]
    have m: "db_segments (rs_db s') = db_segments (rs_db s3)" "rs_seg_files s' = rs_seg_files s3"
      using same media_eq(2) [of "rs_db s'" "rs_db s3"] by (simp_all add: data_same_def)
    have j: "journals ?h (rs_db s') = journals ?h (rs_db s3)" unfolding journals_def m ..
    have left: "if new_id \<in> sg_id ` set (db_segments (rs_db s')) then journals ?h (rs_db s') \<and> rs_seg_files s' new_id = Some \<lparr>fl_plain = True, fl_data = g_data g\<rparr>
        else rs_seg_files s' new_id = None" unfolding m j by (rule trimmed)
    have found: "\<exists>k. List.find (\<lambda>k. sg_id k = new_id \<and> sg_state k = Seg_Ready) (db_segments (rs_db s')) = Some k
        \<and> sg_byte_length k = int (length (g_data g)) \<and> sg_sha256 k = sha256 (g_data g)" if j: "journals ?h (rs_db s')"
    proof -
      have all: "sg_state k = Seg_Ready \<and> sg_byte_length k = int (length (g_data g)) \<and> sg_sha256 k = sha256 (g_data g)"
        if "k \<in> set (db_segments (rs_db s'))" "sg_id k = new_id" for k
        using j that h same_footage_fields [of ?h k] by (simp add: journals_def)
      obtain k where "k \<in> set (db_segments (rs_db s'))" "sg_id k = new_id" using j h(1) by (auto simp: journals_def)
      then have "List.find (\<lambda>k. sg_id k = new_id \<and> sg_state k = Seg_Ready) (db_segments (rs_db s')) \<noteq> None"
        using all by (auto simp: find_None_iff)
      then obtain k where k: "List.find (\<lambda>k. sg_id k = new_id \<and> sg_state k = Seg_Ready) (db_segments (rs_db s')) = Some k" by blast
      then have "k \<in> set (db_segments (rs_db s'))" "sg_id k = new_id" by (auto simp: find_Some_iff)
      then show ?thesis using k all by blast
    qed
    show ?thesis using left found p(2) by (simp add: segment_left_def)
  qed
qed

lemma published_segment_row:
  assumes "List.find (\<lambda>g. sg_id g = gid \<and> sg_state g = Seg_Ready) (db_segments (rs_db s)) = Some h"
    and "published_segment gid s = (Inr g, t)"
  shows "g = h \<and> rs_seg_files t = rs_seg_files s \<and> rs_limits t = rs_limits s"
  using assms
  by (auto simp: published_segment_def store_check_def verify_root_def sql_query_def eff_bind_Inr eff_guard_def eff_get_def
      eff_return_def eff_raise_def dest!: io_simple split: option.splits if_splits)

definition usable :: "recorder \<Rightarrow> bool" where
  "usable s \<longleftrightarrow> rs_open s \<and> \<not> rs_failed s \<and> sp_thread s = rs_owner s \<and> (\<forall>n \<ge> io_count s. io_ok s n)"

lemma io_usable: "usable s \<Longrightarrow> \<exists>t. io e s = (Inr (), t) \<and> usable t \<and> t = s\<lparr>io_count := Suc (io_count s)\<rparr>"
  by (auto simp: io_def usable_def)

lemma published_segment_usable:
  assumes "List.find (\<lambda>g. sg_id g = gid \<and> sg_state g = Seg_Ready) (db_segments (rs_db s)) = Some h" "usable s"
  shows "\<exists>t. published_segment gid s = (Inr h, t) \<and> usable t \<and> rs_seg_files t = rs_seg_files s \<and> rs_limits t = rs_limits s"
proof -
  have c: "rs_open s \<and> (\<not> rs_failed s \<or> False) \<and> sp_thread s = rs_owner s" using assms(2) by (simp add: usable_def)
  obtain t where t: "io RECORDING_ROOT_UNAVAILABLE s = (Inr (), t)" "usable t" "t = s\<lparr>io_count := Suc (io_count s)\<rparr>"
    using io_usable [OF assms(2)] by blast
  obtain t' where t': "io Recording_DatabaseError t = (Inr (), t')" "usable t'" "t' = t\<lparr>io_count := Suc (io_count t)\<rparr>"
    using io_usable [OF t(2)] by blast
  show ?thesis
    using c t t' assms(1)
    by (simp add: published_segment_def store_check_def verify_root_def sql_query_def eff_bind_def eff_guard_def eff_get_def
        eff_return_def)
qed

lemma published_segment_missing:
  assumes "gid \<notin> sg_id ` set (db_segments (rs_db s))"
  shows "published_segment gid s = (Inr g, t) \<Longrightarrow> False"
    "usable s \<Longrightarrow> \<exists>t. published_segment gid s = (Inl RECORDING_SEGMENT_NOT_FOUND, t)"
proof -
  have none: "List.find (\<lambda>g. sg_id g = gid \<and> sg_state g = Seg_Ready) (db_segments (rs_db s)) = None"
    using assms by (auto simp: find_None_iff)
  show "published_segment gid s = (Inr g, t) \<Longrightarrow> False"
    using none by (auto simp: published_segment_def store_check_def verify_root_def sql_query_def eff_bind_Inr eff_guard_def eff_get_def
      eff_return_def eff_raise_def dest!: io_simple split: option.splits if_splits)
  assume u: "usable s"
  have c: "rs_open s \<and> (\<not> rs_failed s \<or> False) \<and> sp_thread s = rs_owner s" using u by (simp add: usable_def)
  obtain t where t: "io RECORDING_ROOT_UNAVAILABLE s = (Inr (), t)" "usable t" "t = s\<lparr>io_count := Suc (io_count s)\<rparr>"
    using io_usable [OF u] by blast
  obtain t' where t': "io Recording_DatabaseError t = (Inr (), t')" "usable t'" "t' = t\<lparr>io_count := Suc (io_count t)\<rparr>"
    using io_usable [OF t(2)] by blast
  show "\<exists>t. published_segment gid s = (Inl RECORDING_SEGMENT_NOT_FOUND, t)"
    using c t t' none
    by (simp add: published_segment_def store_check_def verify_root_def sql_query_def eff_bind_def eff_guard_def eff_get_def
        eff_raise_def)
qed

text \<open>Reading a published segment with its file.\<close>

lemma open_segment_reads:
  assumes h: "List.find (\<lambda>g. sg_id g = gid \<and> sg_state g = Seg_Ready) (db_segments (rs_db s)) = Some h"
    and content: "rs_seg_files s gid = Some \<lparr>fl_plain = True, fl_data = data\<rparr>"
  shows "open_segment gid s = (Inr x, t) \<Longrightarrow> x = data"
    "\<lbrakk>usable s; sg_byte_length h = int (length data); int (length data) \<le> max_segment_bytes (rs_limits s)\<rbrakk>
      \<Longrightarrow> \<exists>t. open_segment gid s = (Inr data, t)"
proof -
  assume "open_segment gid s = (Inr x, t)"
  then obtain g1 t1 u2 t2 u3 t3 where
    o: "published_segment gid s = (Inr g1, t1)" "io RECORDING_ROOT_UNAVAILABLE t1 = (Inr u2, t2)"
      "io RECORDING_SEGMENT_UNAVAILABLE t2 = (Inr u3, t3)"
    and last: "(case rs_seg_files t3 gid of None \<Rightarrow> (Inl RECORDING_SEGMENT_UNAVAILABLE, t3)
       | Some f \<Rightarrow> if readable_file (rs_limits t3) (sg_byte_length g1) f then (Inr (fl_data f), t3)
                  else (Inl RECORDING_SEGMENT_UNAVAILABLE, t3)) = (Inr x, t)"
    unfolding open_segment_def verify_root_def by (simp only: eff_bind_Inr) blast
  have "rs_seg_files t3 gid = rs_seg_files s gid"
    using published_segment_row [OF h o(1)] io_simple [OF o(2)] io_simple [OF o(3)] by simp
  then show "x = data" using last content by (auto split: if_splits)
next
  assume u: "usable s" and size: "sg_byte_length h = int (length data)" "int (length data) \<le> max_segment_bytes (rs_limits s)"
  obtain t where t: "published_segment gid s = (Inr h, t)" "usable t" "rs_seg_files t = rs_seg_files s"
    "rs_limits t = rs_limits s" using published_segment_usable [OF h u] by blast
  obtain t1 where t1: "io RECORDING_ROOT_UNAVAILABLE t = (Inr (), t1)" "usable t1" "t1 = t\<lparr>io_count := Suc (io_count t)\<rparr>"
    using io_usable [OF t(2)] by blast
  obtain t2 where t2: "io RECORDING_SEGMENT_UNAVAILABLE t1 = (Inr (), t2)" "t2 = t1\<lparr>io_count := Suc (io_count t1)\<rparr>"
    using io_usable [OF t1(2)] by blast
  have "open_segment gid s = (Inr data, t2)"
    using t t1 t2 content size by (simp add: open_segment_def verify_root_def eff_bind_def readable_file_def)
  then show "\<exists>t. open_segment gid s = (Inr data, t)" by blast
qed

lemma append_size:
  assumes run: "append_segment worker_cb worker_binding validator sha256 new_id g s = (Inr gid, s')" and "rs_limits s' = rs_limits s"
  shows "int (length (g_data g)) \<le> max_segment_bytes (rs_limits s')"
proof -
  obtain p a s1 where c: "append_checks validator g s = (Inr (p, a), s1)"
    using run by (auto simp: append_segment_def eff_bind_Inr)
  have "rs_limits s1 = rs_limits s'" using followsD [OF append_checks_data c] assms(2) by (simp add: data_same_def)
  then show ?thesis using append_checks_valid [OF c] by (simp add: segment_valid_def)
qed

lemma segment_left_reads:
  assumes left: "segment_left sha256 gid g s" and size: "int (length (g_data g)) \<le> max_segment_bytes (rs_limits s)"
  shows "open_segment gid s = (Inr data, t) \<Longrightarrow> data = g_data g" "segment_sha256 gid s = (Inr x, t) \<Longrightarrow> x = sha256 (g_data g)"
    "usable s \<Longrightarrow> \<exists>t. open_segment gid s =
      (if gid \<in> sg_id ` set (db_segments (rs_db s)) then Inr (g_data g) else Inl RECORDING_SEGMENT_NOT_FOUND, t)"
proof -
  have present: "\<exists>h. List.find (\<lambda>k. sg_id k = gid \<and> sg_state k = Seg_Ready) (db_segments (rs_db s)) = Some h
      \<and> sg_byte_length h = int (length (g_data g)) \<and> sg_sha256 h = sha256 (g_data g)
      \<and> rs_seg_files s gid = Some \<lparr>fl_plain = True, fl_data = g_data g\<rparr>" if "gid \<in> sg_id ` set (db_segments (rs_db s))"
    using left that by (simp add: segment_left_def)
  have read: "gid \<in> sg_id ` set (db_segments (rs_db s))" if "published_segment gid s = (Inr k, t1)" for k t1
    using that published_segment_missing(1) by blast
  show "data = g_data g" if o: "open_segment gid s = (Inr data, t)"
  proof -
    obtain k t1 where "published_segment gid s = (Inr k, t1)" using o by (auto simp: open_segment_def eff_bind_Inr)
    from present [OF read [OF this]] show ?thesis using open_segment_reads(1) o by blast
  qed
  show "x = sha256 (g_data g)" if o: "segment_sha256 gid s = (Inr x, t)"
  proof -
    obtain k t1 where k: "published_segment gid s = (Inr k, t1)" "x = sg_sha256 k"
      using o by (auto simp: segment_sha256_def eff_bind_Inr eff_return_def)
    obtain h where h: "List.find (\<lambda>k. sg_id k = gid \<and> sg_state k = Seg_Ready) (db_segments (rs_db s)) = Some h"
      "sg_sha256 h = sha256 (g_data g)" using present [OF read [OF k(1)]] by blast
    show ?thesis using published_segment_row [OF h(1) k(1)] k(2) h(2) by simp
  qed
  show "\<exists>t. open_segment gid s =
      (if gid \<in> sg_id ` set (db_segments (rs_db s)) then Inr (g_data g) else Inl RECORDING_SEGMENT_NOT_FOUND, t)" if u: "usable s"
  proof (cases "gid \<in> sg_id ` set (db_segments (rs_db s))")
    case True
    from present [OF this] have "\<exists>t. open_segment gid s = (Inr (g_data g), t)" using open_segment_reads(2) u size by blast
    then show ?thesis using True by simp
  next
    case False
    then obtain t where "published_segment gid s = (Inl RECORDING_SEGMENT_NOT_FOUND, t)" using published_segment_missing(2) u by blast
    then show ?thesis using False by (simp add: open_segment_def eff_bind_def)
  qed
qed

text \<open>
  C11. Appended footage reads back as it was handed in. When \<open>append\<close> returns in a history of the worker, between
  transactions and with unique recording ids (their primary key): every active recording of the source that overlaps the
  footage links to the returned id, and then the segment is in the journal; whatever a read of the segment returns is
  exactly the bytes handed in, and its digest is theirs; and on an open store of this thread whose next system calls
  succeed, a read returns the bytes if the segment is in the journal and reports it as not found otherwise. The second
  case is footage that no recording needs and that the trim of the same call already evicted from the bounded
  pre-roll spool; then its file is gone as well.
\<close>

theorem append_read_back:
  assumes "history validator sha256 s" "\<not> in_transaction s" "distinct (map rc_id (db_recordings (rs_db s)))"
    and run: "append_segment worker_cb worker_binding validator sha256 new_id g s = (Inr gid, s')"
  shows "(\<forall>r \<in> set (db_recordings (rs_db s)). rc_status r = Rec_Active \<and> rc_source_id r = g_source_id g
        \<and> rc_start_ms r < g_end_ms g \<and> g_start_ms g < rc_target_end_ms r
      \<longrightarrow> (rc_id r, gid) \<in> set (db_links (durable s')) \<and> gid \<in> sg_id ` set (db_segments (rs_db s')))
    \<and> (\<forall>data t. open_segment gid s' = (Inr data, t) \<longrightarrow> data = g_data g)
    \<and> (\<forall>h t. segment_sha256 gid s' = (Inr h, t) \<longrightarrow> h = sha256 (g_data g))
    \<and> (usable s' \<longrightarrow> (\<exists>t. open_segment gid s' =
          (if gid \<in> sg_id ` set (db_segments (rs_db s')) then Inr (g_data g) else Inl RECORDING_SEGMENT_NOT_FOUND, t)))
    \<and> (gid \<notin> sg_id ` set (db_segments (rs_db s')) \<longrightarrow> rs_seg_files s' gid = None)"
proof -
  have left: "gid = new_id" "segment_left sha256 gid g s'" using append_segment_left [OF run] by blast+
  have "rs_limits s' = rs_limits s"
    using followsD [OF append_segment_intact run] history_intact [OF assms(1)] by (simp add: keeps_intact_def)
  note reads = segment_left_reads [OF left(2) append_size [OF run this]]
  have linked: "(rc_id r, gid) \<in> set (db_links (durable s')) \<and> gid \<in> sg_id ` set (db_segments (rs_db s'))"
    if r: "r \<in> set (db_recordings (rs_db s))" "rc_status r = Rec_Active" "rc_source_id r = g_source_id g"
      "rc_start_ms r < g_end_ms g" "g_start_ms g < rc_target_end_ms r" for r
  proof -
    have r': "r \<in> set (overlapping_active g (rs_db s))" using r by (simp add: overlapping_active_def)
    then have "overlapping_active g (rs_db s) \<noteq> []" by auto
    from append_stored [OF run assms(2,3) this] have st: "stored sha256 gid g (overlapping_active g (rs_db s)) s'" using left(1) by simp
    then show ?thesis using r' left(2) unfolding stored_def segment_left_def by (auto split: if_splits)
  qed
  have gone: "gid \<notin> sg_id ` set (db_segments (rs_db s')) \<longrightarrow> rs_seg_files s' gid = None" using left(2) by (simp add: segment_left_def)
  show ?thesis using linked reads gone by blast
qed

definition ex_stored :: "(recording_error, uuid, recorder) outcome" where
  "ex_stored = append_segment worker_cb worker_binding (\<lambda>_. None) ex_digest 11 ex_footage (snd ex_started)"

lemma ex_stored_facts:
  "fst ex_stored = Inr 11" "rs_saved (snd ex_started) = None"
  "db_recordings (rs_db (snd ex_started)) = [new_recording None 500 5500 False 7 1]"
  "(case open_segment 11 (snd ex_stored) of (Inl _, _) \<Rightarrow> False | (Inr _, _) \<Rightarrow> True)"
  by code_simp+

theorem append_read_back_witness:
  "\<exists>t. open_segment 11 (snd ex_stored) = (Inr [1, 2, 3], t) \<and> (1, 11) \<in> set (db_links (durable (snd ex_stored)))"
proof -
  have run: "append_segment worker_cb worker_binding (\<lambda>_. None) ex_digest 11 ex_footage (snd ex_started) = (Inr 11, snd ex_stored)"
    using ex_stored_facts(1) by (metis ex_stored_def prod.collapse)
  have free: "\<not> in_transaction (snd ex_started)" by (simp add: ex_stored_facts(2))
  have ids: "distinct (map rc_id (db_recordings (rs_db (snd ex_started))))" by (simp add: ex_stored_facts(3))
  let ?r = "new_recording None 500 5500 False 7 1"
  have r: "?r \<in> set (db_recordings (rs_db (snd ex_started)))" "rc_status ?r = Rec_Active" "rc_source_id ?r = g_source_id ex_footage"
    "rc_start_ms ?r < g_end_ms ex_footage" "g_start_ms ex_footage < rc_target_end_ms ?r"
    by (simp_all add: ex_stored_facts(3) new_recording_def ex_footage_def)
  note result = append_read_back [OF ex_started_history free ids run]
  from result r have linked: "(rc_id ?r, 11) \<in> set (db_links (durable (snd ex_stored)))" by blast
  obtain data t where "open_segment 11 (snd ex_stored) = (Inr data, t)"
    using ex_stored_facts(4) by (auto split: prod.splits sum.splits)
  then show ?thesis using result linked by (auto simp: new_recording_def ex_footage_def)
qed

text \<open>
  A trim that returns has bounded the spool. In a history of the worker, between transactions, after
  \<open>_trim\<close> the segments still offered as pre-roll are within the configured bytes and number, and every published
  segment left in the journal is one of them or evidence of a recording.
\<close>

theorem trim_bounds_spool:
  assumes "history validator sha256 s" "\<not> in_transaction s" "rec_limits_ok (rs_limits s)"
    and "trim worker_cb s = (Inr u, s')"
  shows "sum_list (map sg_byte_length (filter sg_spool (db_segments (rs_db s')))) \<le> pre_roll_bytes (rs_limits s)
    \<and> int (length (filter sg_spool (db_segments (rs_db s')))) \<le> max_spool_segments (rs_limits s)
    \<and> (\<forall>g \<in> set (db_segments (rs_db s')). sg_state g = Seg_Ready \<longrightarrow> sg_spool g \<or> linked (rs_db s') (sg_id g))"
proof -
  have "distinct (map sg_id (db_segments (rs_db s)))"
    using history_intact [OF assms(1)] assms(2) by (simp add: store_intact_def intact_db_def durable_def)
  from trim_effect [OF assms(4) this assms(3)] show ?thesis
    by (auto simp: spool_ok_def unused_segments_def filter_empty_conv)
qed

definition ex_trimmed :: "(recording_error, unit, recorder) outcome" where
  "ex_trimmed = trim worker_cb (snd ex_appended)"

lemma ex_trimmed_facts:
  "fst ex_trimmed = Inr ()" "rs_saved (snd ex_appended) = None" "rec_limits_ok (rs_limits (snd ex_appended))"
  "pre_roll_bytes (rs_limits (snd ex_appended)) = 300"
  by code_simp+

theorem trim_bounds_spool_witness:
  "sum_list (map sg_byte_length (filter sg_spool (db_segments (rs_db (snd ex_trimmed))))) \<le> 300"
proof -
  have run: "trim worker_cb (snd ex_appended) = (Inr (), snd ex_trimmed)"
    using ex_trimmed_facts(1) by (metis ex_trimmed_def prod.collapse)
  have free: "\<not> in_transaction (snd ex_appended)" by (simp add: ex_trimmed_facts(2))
  show ?thesis using trim_bounds_spool [OF ex_history free ex_trimmed_facts(3) run] ex_trimmed_facts(4) by simp
qed

end
