(* ===== verification/Rate_Limit.thy ===== *)
theory Rate_Limit
  imports Prelude
begin

text \<open>
  Token buckets in front of the routes that run before any credential exists:
  \<open>SourceRateLimiter\<close> of \<^verbatim>\<open>server/app/auth/rate_limit.py\<close>. The \<open>OrderedDict\<close> of buckets is a dictionary in
  order of last use. Numbers of seconds and tokens are rationals, so the rounding of floats is not modelled.
  SHA-256 of the source name is the parameter \<open>digest\<close>, and \<open>clock\<close> is what \<open>_now()\<close> returns during the
  call: nothing when the clock is unusable. \<open>rl_logged\<close> is what was written to the log.
\<close>

section \<open>Buckets\<close>

record bucket =
  bk_tokens :: rat
  bk_updated :: rat

record 'k rate_limiter =
  rl_capacity :: int
  rl_period :: rat
  rl_global_capacity :: "int option"
  rl_global_period :: rat
  rl_max_sources :: int
  rl_log_interval :: rat
  rl_sources :: "('k, bucket) dict"
  rl_global :: "bucket option"
  rl_last_logged :: "rat option"
  rl_limited :: int
  rl_logged :: "rat option list"

datatype limiter_error = Limiter_ValueError

definition limiter_init :: "int \<Rightarrow> rat \<Rightarrow> int option \<Rightarrow> rat \<Rightarrow> int \<Rightarrow> rat \<Rightarrow> limiter_error + 'k rate_limiter" where
  "limiter_init capacity period global_capacity global_period max_sources log_interval =
     (if capacity < 1 \<or> max_sources < 1 then Inl Limiter_ValueError
      else if (case global_capacity of None \<Rightarrow> False | Some c \<Rightarrow> c < 1) then Inl Limiter_ValueError
      else if \<not> (period > 0 \<and> global_period > 0 \<and> log_interval > 0) then Inl Limiter_ValueError
      else Inr \<lparr>rl_capacity = capacity, rl_period = period, rl_global_capacity = global_capacity,
                rl_global_period = global_period, rl_max_sources = max_sources, rl_log_interval = log_interval,
                rl_sources = [], rl_global = None, rl_last_logged = None, rl_limited = 0, rl_logged = []\<rparr>)"

definition redemption_rate_limiter :: "int \<Rightarrow> limiter_error + 'k rate_limiter" where
  "redemption_rate_limiter max_sources = limiter_init 5 12 None (1/2) max_sources 60"

definition step_up_rate_limiter :: "int \<Rightarrow> limiter_error + 'k rate_limiter" where
  "step_up_rate_limiter max_sources = limiter_init 5 12 None (1/2) max_sources 60"

definition admin_rate_limiter :: "int \<Rightarrow> limiter_error + 'k rate_limiter" where
  "admin_rate_limiter max_sources = limiter_init 20 3 None (1/2) max_sources 60"

definition refill :: "rat \<Rightarrow> int \<Rightarrow> rat \<Rightarrow> bucket \<Rightarrow> bucket" where
  "refill now capacity period b =
     (if now < bk_updated b then b\<lparr>bk_updated := now\<rparr>
      else b\<lparr>bk_tokens := min (of_int capacity) (bk_tokens b + (now - bk_updated b) / period), bk_updated := now\<rparr>)"

text \<open>The scan for a bucket that has refilled completely, in order of last use: it refills what it visits.\<close>

fun evict_scan :: "rat \<Rightarrow> int \<Rightarrow> rat \<Rightarrow> ('k, bucket) dict \<Rightarrow> 'k option \<times> ('k, bucket) dict" where
  "evict_scan now capacity period [] = (None, [])"
| "evict_scan now capacity period ((k, b) # bs) =
     (let b' = refill now capacity period b in
      if bk_tokens b' \<ge> of_int capacity then (Some k, (k, b') # bs)
      else case evict_scan now capacity period bs of (found, bs') \<Rightarrow> (found, (k, b') # bs'))"

definition refuse_locked :: "rat option \<Rightarrow> 'k rate_limiter \<Rightarrow> bool \<times> 'k rate_limiter" where
  "refuse_locked now l =
     (let l1 = l\<lparr>rl_limited := rl_limited l + 1\<rparr>;
          report = (case (now, rl_last_logged l) of
                      (Some t, Some prior) \<Rightarrow> t < prior \<or> t - prior \<ge> rl_log_interval l
                    | _ \<Rightarrow> True)
      in (False, if report then l1\<lparr>rl_last_logged := now, rl_logged := rl_logged l @ [now]\<rparr> else l1))"

definition refill_global :: "rat \<Rightarrow> 'k rate_limiter \<Rightarrow> 'k rate_limiter" where
  "refill_global now l =
     (case rl_global_capacity l of
        None \<Rightarrow> l
      | Some c \<Rightarrow>
          let g = (case rl_global l of None \<Rightarrow> \<lparr>bk_tokens = of_int c, bk_updated = now\<rparr> | Some g \<Rightarrow> g)
          in l\<lparr>rl_global := Some (refill now c (rl_global_period l) g)\<rparr>)"

text \<open>The bucket of the source, moved to the end of the order; nothing when the table is full of buckets in use.\<close>

definition source_bucket :: "rat \<Rightarrow> 'k \<Rightarrow> 'k rate_limiter \<Rightarrow> bucket option \<times> 'k rate_limiter" where
  "source_bucket now key l =
     (case map_of (rl_sources l) key of
        Some b \<Rightarrow>
          let b' = refill now (rl_capacity l) (rl_period l) b
          in (Some b', l\<lparr>rl_sources := AList.delete key (rl_sources l) @ [(key, b')]\<rparr>)
      | None \<Rightarrow>
          let fresh = \<lparr>bk_tokens = of_int (rl_capacity l), bk_updated = now\<rparr> in
          if int (length (rl_sources l)) \<ge> rl_max_sources l then
            (case evict_scan now (rl_capacity l) (rl_period l) (rl_sources l) of
               (None, bs) \<Rightarrow> (None, l\<lparr>rl_sources := bs\<rparr>)
             | (Some k, bs) \<Rightarrow> (Some fresh, l\<lparr>rl_sources := AList.delete k bs @ [(key, fresh)]\<rparr>))
          else (Some fresh, l\<lparr>rl_sources := rl_sources l @ [(key, fresh)]\<rparr>))"

definition global_short :: "'k rate_limiter \<Rightarrow> bool" where
  "global_short l \<longleftrightarrow> (case rl_global l of None \<Rightarrow> False | Some g \<Rightarrow> rl_global_capacity l \<noteq> None \<and> bk_tokens g < 1)"

definition take_token :: "'k \<Rightarrow> bucket \<Rightarrow> 'k rate_limiter \<Rightarrow> 'k rate_limiter" where
  "take_token key b l =
     (let l1 = l\<lparr>rl_sources := AList.update key (b\<lparr>bk_tokens := bk_tokens b - 1\<rparr>) (rl_sources l)\<rparr>
      in case rl_global l1 of
           Some g \<Rightarrow> if rl_global_capacity l1 \<noteq> None then l1\<lparr>rl_global := Some (g\<lparr>bk_tokens := bk_tokens g - 1\<rparr>)\<rparr> else l1
         | None \<Rightarrow> l1)"

definition allow_at :: "rat \<Rightarrow> 'k \<Rightarrow> 'k rate_limiter \<Rightarrow> bool \<times> 'k rate_limiter" where
  "allow_at now key l =
     (case source_bucket now key (refill_global now l) of
        (None, l1) \<Rightarrow> refuse_locked (Some now) l1
      | (Some b, l1) \<Rightarrow>
          if bk_tokens b < 1 \<or> global_short l1 then refuse_locked (Some now) l1
          else (True, take_token key b l1))"

definition allow :: "(string \<Rightarrow> 'k) \<Rightarrow> string \<Rightarrow> rat option \<Rightarrow> 'k rate_limiter \<Rightarrow> bool \<times> 'k rate_limiter" where
  "allow digest source clock l =
     (if source = [] then refuse_locked clock l
      else case clock of
             None \<Rightarrow> refuse_locked None l
           | Some now \<Rightarrow> allow_at now (digest source) l)"

section \<open>The invariant and what a bucket is worth\<close>

definition bucket_ok :: "rat \<Rightarrow> int \<Rightarrow> bucket \<Rightarrow> bool" where
  "bucket_ok now c b \<longleftrightarrow> 0 \<le> bk_tokens b \<and> bk_tokens b \<le> of_int c \<and> bk_updated b \<le> now"

definition limiter_inv :: "rat \<Rightarrow> 'k rate_limiter \<Rightarrow> bool" where
  "limiter_inv now l \<longleftrightarrow>
     1 \<le> rl_capacity l \<and> 0 < rl_period l \<and> 1 \<le> rl_max_sources l
     \<and> dict_ok (rl_sources l) \<and> int (length (rl_sources l)) \<le> rl_max_sources l
     \<and> (\<forall>(k, b) \<in> set (rl_sources l). bucket_ok now (rl_capacity l) b)"

text \<open>The tokens a source could spend at a time: an absent source counts as a full bucket.\<close>

definition worth :: "rat \<Rightarrow> 'k \<Rightarrow> 'k rate_limiter \<Rightarrow> rat" where
  "worth now key l =
     (case map_of (rl_sources l) key of
        None \<Rightarrow> of_int (rl_capacity l)
      | Some b \<Rightarrow> min (of_int (rl_capacity l)) (bk_tokens b + (now - bk_updated b) / rl_period l))"

lemma refill_ok:
  assumes "bucket_ok t c b" "t \<le> now" "0 < p" "1 \<le> c"
  shows "bucket_ok now c (refill now c p b)"
    "bk_tokens (refill now c p b) = min (of_int c) (bk_tokens b + (now - bk_updated b) / p)"
    "bk_updated (refill now c p b) = now"
  using assms by (auto simp: refill_def bucket_ok_def intro: add_nonneg_nonneg)

text \<open>Refilling at a moment leaves what the bucket is worth at that moment.\<close>

definition bucket_worth :: "rat \<Rightarrow> int \<Rightarrow> rat \<Rightarrow> bucket \<Rightarrow> rat" where
  "bucket_worth now c p b = min (of_int c) (bk_tokens b + (now - bk_updated b) / p)"

lemma worth_bucket:
  "worth now key l = (case map_of (rl_sources l) key of None \<Rightarrow> of_int (rl_capacity l)
     | Some b \<Rightarrow> bucket_worth now (rl_capacity l) (rl_period l) b)"
  by (simp add: worth_def bucket_worth_def split: option.split)

lemma worth_config:
  "\<lbrakk>rl_capacity l' = rl_capacity l; rl_period l' = rl_period l\<rbrakk> \<Longrightarrow>
   worth now key l' = (case map_of (rl_sources l') key of None \<Rightarrow> of_int (rl_capacity l)
     | Some b \<Rightarrow> bucket_worth now (rl_capacity l) (rl_period l) b)"
  by (cases "map_of (rl_sources l') key") (simp_all add: worth_bucket)

lemma refill_worth:
  assumes "bucket_ok t c b" "t \<le> now" "0 < p" "1 \<le> c"
  shows "bucket_worth now c p (refill now c p b) = bucket_worth now c p b"
  using refill_ok [OF assms] by (simp add: bucket_worth_def)

lemma full_worth: "1 \<le> c \<Longrightarrow> bucket_worth now c p \<lparr>bk_tokens = of_int c, bk_updated = now\<rparr> = of_int c"
  by (simp add: bucket_worth_def)

lemma evict_scan_keys: "map fst (snd (evict_scan now c p bs)) = map fst bs"
  by (induction bs) (auto simp: Let_def split: prod.split)

lemma evict_scan_effect:
  assumes "\<forall>(k, b) \<in> set bs. bucket_ok t c b" "t \<le> now" "0 < p" "1 \<le> c" "dict_ok bs"
    and "evict_scan now c p bs = (found, bs')"
  shows "(\<forall>(k, b) \<in> set bs'. bucket_ok now c b)
    \<and> (\<forall>k. map_option (bucket_worth now c p) (map_of bs' k) = map_option (bucket_worth now c p) (map_of bs k))
    \<and> (\<forall>k. found = Some k \<longrightarrow> (\<exists>b. map_of bs k = Some b \<and> bucket_worth now c p b = of_int c))"
  using assms
proof (induction bs arbitrary: found bs')
  case (Cons x bs)
  obtain k b where x: "x = (k, b)" by (cases x)
  have ok: "bucket_ok t c b" using Cons.prems(1) x by simp
  let ?b = "refill now c p b"
  note r = refill_ok [OF ok Cons.prems(2,3,4)] and w = refill_worth [OF ok Cons.prems(2,3,4)]
  have later: "\<forall>(k, b) \<in> set bs. bucket_ok now c b" using Cons.prems(1,2) by (force simp: bucket_ok_def)
  show ?case
  proof (cases "bk_tokens ?b \<ge> of_int c")
    case True
    then have "found = Some k" "bs' = (k, ?b) # bs" using Cons.prems(6) x by (simp_all add: Let_def)
    moreover have "bucket_worth now c p b = of_int c" using True r by (simp add: bucket_worth_def)
    ultimately show ?thesis using r later w x by auto
  next
    case False
    obtain f bs2 where scan: "evict_scan now c p bs = (f, bs2)" by (meson surj_pair)
    have out: "found = f" "bs' = (k, ?b) # bs2" using Cons.prems(6) x False scan by (simp_all add: Let_def)
    have "(\<forall>(k, b) \<in> set bs2. bucket_ok now c b)
      \<and> (\<forall>k. map_option (bucket_worth now c p) (map_of bs2 k) = map_option (bucket_worth now c p) (map_of bs k))
      \<and> (\<forall>k. f = Some k \<longrightarrow> (\<exists>b. map_of bs k = Some b \<and> bucket_worth now c p b = of_int c))"
      using Cons.IH [OF _ Cons.prems(2,3,4) _ scan] Cons.prems(1,5) by simp
    moreover have "f \<noteq> Some k"
    proof
      assume "f = Some k"
      then have "\<exists>b. map_of bs k = Some b" using calculation by blast
      then show False using Cons.prems(5) x by (auto dest: map_of_SomeD simp: image_iff)
    qed
    ultimately show ?thesis using out r w x by auto
  qed
qed simp

text \<open>
  Finding the bucket of a source neither creates nor destroys tokens: an absent source counts as full, and only a
  full bucket is forgotten.
\<close>

definition same_config :: "'k rate_limiter \<Rightarrow> 'k rate_limiter \<Rightarrow> bool" where
  "same_config l l' \<longleftrightarrow> rl_capacity l' = rl_capacity l \<and> rl_period l' = rl_period l \<and> rl_max_sources l' = rl_max_sources l
     \<and> rl_global_capacity l' = rl_global_capacity l \<and> rl_global_period l' = rl_global_period l
     \<and> rl_log_interval l' = rl_log_interval l"

lemma source_bucket_effect:
  assumes inv: "limiter_inv t l" and t: "t \<le> now" and run: "source_bucket now key l = (found, l')"
  shows "limiter_inv now l' \<and> same_config l l' \<and> (\<forall>k. worth now k l' = worth now k l)
    \<and> (\<forall>b. found = Some b \<longrightarrow> map_of (rl_sources l') key = Some b \<and> bk_updated b = now \<and> bk_tokens b = worth now key l)"
proof -
  let ?c = "rl_capacity l" and ?p = "rl_period l"
  have i: "1 \<le> ?c" "0 < ?p" "1 \<le> rl_max_sources l" "dict_ok (rl_sources l)"
    "int (length (rl_sources l)) \<le> rl_max_sources l" "\<forall>(k, b) \<in> set (rl_sources l). bucket_ok t ?c b"
    using inv by (simp_all add: limiter_inv_def)
  have later: "\<forall>(k, b) \<in> set (rl_sources l). bucket_ok now ?c b" using i(6) t by (force simp: bucket_ok_def)
  let ?fresh = "\<lparr>bk_tokens = of_int ?c, bk_updated = now\<rparr>"
  have fresh: "bucket_ok now ?c ?fresh" using i(1) by (simp add: bucket_ok_def)
  show ?thesis
  proof (cases "map_of (rl_sources l) key")
    case (Some b)
    let ?b = "refill now ?c ?p b"
    have ok: "bucket_ok t ?c b" using Some i(6) by (auto dest: map_of_SomeD)
    note r = refill_ok [OF ok t i(2,1)] and w = refill_worth [OF ok t i(2,1)]
    have l': "found = Some ?b" "l' = l\<lparr>rl_sources := AList.delete key (rl_sources l) @ [(key, ?b)]\<rparr>"
      using run Some by (simp_all add: source_bucket_def Let_def)
    have "length (AList.delete key (rl_sources l)) < length (rl_sources l)"
      using dict_length_delete_present [OF map_of_SomeD [OF Some]] by simp
    then have len: "int (length (rl_sources l')) \<le> rl_max_sources l" using l' i(5) by simp
    have get: "map_of (rl_sources l') k = (if k = key then Some ?b else map_of (rl_sources l) k)" for k
      using l' by (auto simp: map_add_def dict_simps split: option.split)
    have "dict_ok (rl_sources l')" using l' i(4) by (auto simp: dict_simps)
    moreover have "\<forall>(k, b) \<in> set (rl_sources l'). bucket_ok now ?c b"
      using l' r later dict_set_delete_subset [of key "rl_sources l"] by auto
    moreover have cfg: "rl_capacity l' = ?c" "rl_period l' = ?p" using l' by simp_all
    have "worth now k l' = worth now k l" for k
      unfolding worth_config [OF cfg] worth_bucket [of now k l] using get w Some by simp
    ultimately show ?thesis
      using l' len i r get Some by (simp add: limiter_inv_def same_config_def worth_def)
  next
    case None
    have absent: "key \<notin> dict_keys (rl_sources l)" using None by (simp add: map_of_eq_None_iff)
    show ?thesis
    proof (cases "int (length (rl_sources l)) \<ge> rl_max_sources l")
      case False
      then have l': "found = Some ?fresh" "l' = l\<lparr>rl_sources := rl_sources l @ [(key, ?fresh)]\<rparr>"
        using run None by (simp_all add: source_bucket_def Let_def)
      have get: "map_of (rl_sources l') k = (if k = key then Some ?fresh else map_of (rl_sources l) k)" for k
        using l' None by (auto simp: map_add_def split: option.split)
      have cfg: "rl_capacity l' = ?c" "rl_period l' = ?p" using l' by simp_all
      have "worth now k l' = worth now k l" for k
        unfolding worth_config [OF cfg] worth_bucket [of now k l] using get None i(1) by (simp add: full_worth)
      then show ?thesis
        using l' False i later fresh get absent None by (simp add: limiter_inv_def same_config_def worth_def)
    next
      case True
      obtain f bs where scan: "evict_scan now ?c ?p (rl_sources l) = (f, bs)" by (meson surj_pair)
      note e = evict_scan_effect [OF i(6) t i(2,1,4) scan]
      have keys: "map fst bs = map fst (rl_sources l)" using evict_scan_keys [of now ?c ?p "rl_sources l"] scan by simp
      then have len: "length bs = length (rl_sources l)" and ok: "dict_ok bs"
        using i(4) by (metis length_map, simp)
      have worth_bs: "(case map_of bs k of None \<Rightarrow> of_int ?c | Some b \<Rightarrow> bucket_worth now ?c ?p b) = worth now k l" for k
        using e [THEN conjunct2, THEN conjunct1, rule_format, of k]
        by (cases "map_of bs k"; cases "map_of (rl_sources l) k") (simp_all add: worth_bucket)
      show ?thesis
      proof (cases f)
        case none: None
        then have "found = None" "l' = l\<lparr>rl_sources := bs\<rparr>" using run None True scan by (simp_all add: source_bucket_def Let_def)
        moreover have cfg: "rl_capacity l' = ?c" "rl_period l' = ?p" using calculation by simp_all
        have "worth now k l' = worth now k l" for k
          unfolding worth_config [OF cfg] using worth_bs [of k] calculation by simp
        ultimately show ?thesis using e ok len i by (simp add: limiter_inv_def same_config_def)
      next
        case (Some k0)
        then have l': "found = Some ?fresh" "l' = l\<lparr>rl_sources := AList.delete k0 bs @ [(key, ?fresh)]\<rparr>"
          using run None True scan by (simp_all add: source_bucket_def Let_def)
        obtain b0 where b0: "map_of (rl_sources l) k0 = Some b0" "bucket_worth now ?c ?p b0 = of_int ?c"
          using e Some by blast
        have "k0 \<in> dict_keys bs" using b0(1) keys by (metis domI dom_map_of_conv_image_fst image_set)
        then obtain v where "(k0, v) \<in> set bs" by auto
        then have less: "Suc (length (AList.delete k0 bs)) \<le> length bs" by (rule dict_length_delete_present)
        have nokey: "key \<notin> dict_keys bs" using absent keys by (metis image_set)
        then have nk: "map_of bs key = None" by (simp add: map_of_eq_None_iff)
        have get: "map_of (rl_sources l') k = (if k = key then Some ?fresh else if k = k0 then None else map_of bs k)" for k
          using l' nk by (auto simp: map_add_def dict_simps split: option.split)
        have cfg: "rl_capacity l' = ?c" "rl_period l' = ?p" using l' by simp_all
        have absent_worth: "worth now key l = of_int ?c" "worth now k0 l = of_int ?c"
          using None b0 by (simp_all add: worth_bucket)
        have "worth now k l' = worth now k l" for k
          unfolding worth_config [OF cfg] get
          using worth_bs [of k] absent_worth i(1) by (simp add: full_worth)
        moreover have "\<forall>(k, b) \<in> set (rl_sources l'). bucket_ok now ?c b"
          using l' e fresh dict_set_delete_subset [of k0 bs] by auto
        moreover have "dict_ok (rl_sources l')" using l' ok nokey by (auto simp: dict_simps)
        ultimately show ?thesis
          using l' less len i get None by (simp add: limiter_inv_def same_config_def worth_def)
      qed
    qed
  qed
qed

lemma global_frame:
  "limiter_inv t (refill_global now l) = limiter_inv t l" "worth now' k (refill_global now l) = worth now' k l"
  "same_config l (refill_global now l)"
  by (simp_all add: refill_global_def limiter_inv_def worth_def same_config_def Let_def split: option.split)

lemma refuse_frame:
  "fst (refuse_locked clock l) = False" "limiter_inv t (snd (refuse_locked clock l)) = limiter_inv t l"
  "worth now' k (snd (refuse_locked clock l)) = worth now' k l" "same_config l (snd (refuse_locked clock l))"
  by (simp_all add: refuse_locked_def limiter_inv_def worth_def same_config_def Let_def split: option.split)

lemma same_config_trans: "\<lbrakk>same_config a b; same_config b c\<rbrakk> \<Longrightarrow> same_config a c"
  by (simp add: same_config_def)

lemma take_token_frame:
  "rl_sources (take_token key b l) = AList.update key (b\<lparr>bk_tokens := bk_tokens b - 1\<rparr>) (rl_sources l)"
  "same_config l (take_token key b l)"
  by (simp_all add: take_token_def Let_def same_config_def split: option.split)

lemma take_token_effect:
  assumes inv: "limiter_inv now l" and b: "map_of (rl_sources l) key = Some b" "bk_updated b = now" "1 \<le> bk_tokens b"
  shows "limiter_inv now (take_token key b l)
    \<and> worth now k (take_token key b l) = worth now k l - (if k = key then 1 else 0)"
proof -
  let ?l = "take_token key b l" and ?b = "b\<lparr>bk_tokens := bk_tokens b - 1\<rparr>"
  have i: "1 \<le> rl_capacity l" "dict_ok (rl_sources l)" "int (length (rl_sources l)) \<le> rl_max_sources l"
    "\<forall>(k, b) \<in> set (rl_sources l). bucket_ok now (rl_capacity l) b"
    using inv by (simp_all add: limiter_inv_def)
  have cfg: "rl_capacity ?l = rl_capacity l" "rl_period ?l = rl_period l" "rl_max_sources ?l = rl_max_sources l"
    using take_token_frame(2) [of l key b] by (simp_all add: same_config_def)
  have ok: "bucket_ok now (rl_capacity l) b" using b(1) i(4) by (auto dest: map_of_SomeD)
  then have ok': "bucket_ok now (rl_capacity l) ?b" using b(3) by (simp add: bucket_ok_def)
  have "key \<in> dict_keys (rl_sources l)" using b(1) by (force dest: map_of_SomeD)
  then have len: "length (rl_sources ?l) = length (rl_sources l)"
    unfolding take_token_frame(1) by (simp add: dict_length_update)
  have "limiter_inv now ?l"
    using inv len i ok' dict_all_update [OF i(4) ok', of key]
    by (simp add: limiter_inv_def cfg take_token_frame(1) dict_simps)
  moreover have "worth now k ?l = worth now k l - (if k = key then 1 else 0)"
    unfolding worth_config [OF cfg(1,2)] take_token_frame(1) dict_get_update
    using b ok by (simp add: worth_bucket bucket_worth_def bucket_ok_def)
  ultimately show ?thesis by blast
qed

text \<open>One request: an admitted one costs its source one token, and nothing else changes what a source is worth.\<close>

lemma allow_at_effect:
  assumes inv: "limiter_inv t l" and t: "t \<le> now" and run: "allow_at now key l = (ok, l')"
  shows "limiter_inv now l' \<and> same_config l l'
    \<and> worth now k l' = worth now k l - (if ok \<and> k = key then 1 else 0)
    \<and> (ok \<longrightarrow> 1 \<le> worth now key l)"
proof -
  let ?g = "refill_global now l"
  obtain found l1 where s: "source_bucket now key ?g = (found, l1)" by (meson surj_pair)
  have inv_g: "limiter_inv t ?g" using inv by (simp add: global_frame)
  note e = source_bucket_effect [OF inv_g t s, unfolded global_frame(2)]
  have c1: "same_config l l1" using e same_config_trans [OF global_frame(3)] by blast
  show ?thesis
  proof (cases "\<exists>b. found = Some b \<and> \<not> (bk_tokens b < 1 \<or> global_short l1)")
    case False
    then have "(ok, l') = refuse_locked (Some now) l1"
      using run s by (cases found) (auto simp: allow_at_def)
    then have o: "ok = False" "l' = snd (refuse_locked (Some now) l1)"
      using refuse_frame(1) [of "Some now" l1] by (metis fst_conv, metis snd_conv)
    show ?thesis using e same_config_trans [OF c1 refuse_frame(4)] by (simp add: o refuse_frame)
  next
    case True
    then obtain b where b: "found = Some b" "1 \<le> bk_tokens b" "\<not> global_short l1" by (auto simp: not_less)
    then have out: "ok" "l' = take_token key b l1" using run s by (auto simp: allow_at_def)
    have f: "map_of (rl_sources l1) key = Some b" "bk_updated b = now" "bk_tokens b = worth now key l"
      using e b(1) by blast+
    have "limiter_inv now l'" "worth now k l' = worth now k l1 - (if k = key then 1 else 0)"
      using take_token_effect [OF conjunct1 [OF e] f(1,2) b(2), of k] out(2) by blast+
    moreover have "same_config l l'"
      using c1 take_token_frame(2) [of l1 key b] same_config_trans out(2) by blast
    ultimately show ?thesis using out e f(3) b(2) by simp
  qed
qed

section \<open>Runs of requests\<close>

fun requests :: "(string \<Rightarrow> 'k) \<Rightarrow> (string \<times> rat) list \<Rightarrow> 'k rate_limiter \<Rightarrow> bool list \<times> 'k rate_limiter" where
  "requests digest [] l = ([], l)"
| "requests digest ((source, now) # rs) l =
     (let (ok, l1) = allow digest source (Some now) l; (oks, l2) = requests digest rs l1 in (ok # oks, l2))"

definition granted :: "(string \<Rightarrow> 'k) \<Rightarrow> 'k \<Rightarrow> (string \<times> rat) list \<Rightarrow> bool list \<Rightarrow> nat" where
  "granted digest key rs oks = length (filter (\<lambda>((source, _), ok). ok \<and> digest source = key) (zip rs oks))"

lemma worth_later:
  assumes "t \<le> now" "limiter_inv t l"
  shows "worth now k l \<le> worth t k l + (now - t) / rl_period l" "0 \<le> worth t k l" "worth t k l \<le> of_int (rl_capacity l)"
proof -
  have p: "0 < rl_period l" "1 \<le> rl_capacity l" using assms(2) by (simp_all add: limiter_inv_def)
  have e: "(now - u) / rl_period l = (now - t) / rl_period l + (t - u) / rl_period l" for u
    by (simp add: add_divide_distrib [symmetric])
  have pos: "0 \<le> (now - t) / rl_period l" using assms(1) p by simp
  show "worth now k l \<le> worth t k l + (now - t) / rl_period l"
  proof (cases "map_of (rl_sources l) k")
    case None
    then show ?thesis using pos by (simp add: worth_def)
  next
    case (Some b)
    have "bk_tokens b + (now - bk_updated b) / rl_period l
        = bk_tokens b + (t - bk_updated b) / rl_period l + (now - t) / rl_period l"
      using e [of "bk_updated b"] by linarith
    then show ?thesis using Some pos by (simp add: worth_def min_def)
  qed
  have "bucket_ok t (rl_capacity l) b" if "map_of (rl_sources l) k = Some b" for b
    using that assms(2) by (auto simp: limiter_inv_def dest: map_of_SomeD)
  then show "0 \<le> worth t k l"
    using p by (auto simp: worth_def bucket_ok_def intro!: add_nonneg_nonneg split: option.split)
  show "worth t k l \<le> of_int (rl_capacity l)" by (auto simp: worth_def split: option.split)
qed

lemma allow_effect:
  assumes "limiter_inv t l" "t \<le> now" "allow digest source (Some now) l = (ok, l')"
  shows "limiter_inv now l' \<and> same_config l l'
    \<and> worth now k l' = worth now k l - (if ok \<and> digest source = k then 1 else 0)"
proof (cases "source = []")
  case True
  then have r: "(ok, l') = refuse_locked (Some now) l" using assms(3) by (simp add: allow_def)
  then have o: "ok = False" "l' = snd (refuse_locked (Some now) l)"
    using refuse_frame(1) [of "Some now" l] by (metis fst_conv, metis snd_conv)
  have "limiter_inv now l"
    using assms(1,2) by (force simp: limiter_inv_def bucket_ok_def)
  then show ?thesis by (simp add: o refuse_frame)
next
  case False
  then have "allow_at now (digest source) l = (ok, l')" using assms(3) by (simp add: allow_def)
  from allow_at_effect [OF assms(1,2) this, of k] show ?thesis by auto
qed

lemma requests_effect:
  assumes "limiter_inv t l" "sorted (t # map snd rs)" "requests digest rs l = (oks, l')"
  shows "length oks = length rs \<and> limiter_inv (last (t # map snd rs)) l' \<and> same_config l l'
    \<and> of_nat (granted digest k rs oks) + worth (last (t # map snd rs)) k l'
        \<le> worth t k l + (last (t # map snd rs) - t) / rl_period l"
  using assms
proof (induction rs arbitrary: t l oks)
  case Nil
  then show ?case by (simp add: granted_def same_config_def)
next
  case (Cons r rs)
  obtain source now where r: "r = (source, now)" by (cases r)
  obtain ok l1 where a: "allow digest source (Some now) l = (ok, l1)" by (meson surj_pair)
  obtain oks' where q: "requests digest rs l1 = (oks', l')" "oks = ok # oks'"
    using Cons.prems(3) r a by (auto simp: Let_def split: prod.splits)
  have t: "t \<le> now" "sorted (now # map snd rs)" using Cons.prems(2) r by auto
  note e = allow_effect [OF Cons.prems(1) t(1) a, of k]
  note ih = Cons.IH [OF conjunct1 [OF e] t(2) q(1)]
  let ?last = "last (now # map snd rs)"
  have p: "rl_period l1 = rl_period l" using e by (simp add: same_config_def)
  have "of_nat (granted digest k (r # rs) oks) = of_nat (granted digest k rs oks') + (if ok \<and> digest source = k then 1 else 0 :: rat)"
    using q(2) r by (auto simp: granted_def)
  moreover have "of_nat (granted digest k rs oks') + worth ?last k l'
      \<le> worth now k l - (if ok \<and> digest source = k then 1 else 0) + (?last - now) / rl_period l"
    using ih e p by simp
  moreover have "worth now k l \<le> worth t k l + (now - t) / rl_period l" by (rule worth_later [OF t(1) Cons.prems(1)])
  moreover have "(?last - now) / rl_period l + (now - t) / rl_period l = (?last - t) / rl_period l"
    by (simp add: add_divide_distrib [symmetric])
  ultimately have "of_nat (granted digest k (r # rs) oks) + worth ?last k l' \<le> worth t k l + (?last - t) / rl_period l"
    by linarith
  moreover have "last (t # map snd (r # rs)) = ?last" using r by simp
  ultimately show ?case using ih e q(2) same_config_trans by (auto simp: same_config_def)
qed

section \<open>Properties\<close>

lemma limiter_inv_later: "\<lbrakk>limiter_inv t l; t \<le> now\<rbrakk> \<Longrightarrow> limiter_inv now l"
  by (force simp: limiter_inv_def bucket_ok_def)

lemma limiter_init_inv:
  assumes "limiter_init c p gc gp ms li = Inr l"
  shows "limiter_inv t l \<and> rl_capacity l = c \<and> rl_period l = p \<and> rl_max_sources l = ms"
  using assms by (auto simp: limiter_init_def limiter_inv_def split: if_splits)

text \<open>
  C19. No source exceeds its rate. After any earlier requests of anyone, in every window of later requests with a
  clock that does not run backwards, the number of requests admitted for one source key is at most the
  capacity of its bucket plus what refills between the first and the last request of the window; creating,
  reordering, evicting and recreating buckets never yields more. And the table of buckets never outgrows its bound.
\<close>

theorem source_rate_bounded:
  assumes init: "limiter_init capacity period global_capacity global_period max_sources log_interval = Inr l0"
    and before: "requests digest before l0 = (oks0, l1)" and within: "requests digest window l1 = (oks, l2)"
    and clock: "sorted (map snd (before @ window))" and "window \<noteq> []"
  shows "of_nat (granted digest key window oks) \<le> of_int capacity + (snd (last window) - snd (hd window)) / period
    \<and> int (length (rl_sources l2)) \<le> max_sources"
proof -
  let ?t0 = "snd (hd (before @ window))" and ?t1 = "snd (hd window)"
  have s0: "sorted (?t0 # map snd before)" "sorted (?t1 # map snd window)"
    using clock \<open>window \<noteq> []\<close> by (cases before; cases window; auto simp: sorted_append)+
  have e0: "limiter_inv (last (?t0 # map snd before)) l1" "same_config l0 l1"
    using requests_effect [OF _ s0(1) before] limiter_init_inv [OF init] by blast+
  have "last (?t0 # map snd before) \<le> ?t1"
    using clock \<open>window \<noteq> []\<close>
    by (cases "before = []"; cases window) (auto simp: sorted_append last_map last_conv_nth)
  then have i1: "limiter_inv ?t1 l1" using e0(1) limiter_inv_later by blast
  note e = requests_effect [OF i1 s0(2) within, of key]
  have last: "last (?t1 # map snd window) = snd (last window)" using \<open>window \<noteq> []\<close> by (simp add: last_map)
  have cfg: "rl_capacity l1 = capacity" "rl_period l1 = period" "rl_max_sources l2 = max_sources"
    using e0(2) e limiter_init_inv [OF init] by (simp_all add: same_config_def)
  have "0 \<le> worth (snd (last window)) key l2" using worth_later(2) e last by (metis order_refl)
  moreover have "worth ?t1 key l1 \<le> of_int capacity" using worth_later(3) [OF order_refl i1] cfg by simp
  ultimately have "of_nat (granted digest key window oks) \<le> of_int capacity + (snd (last window) - ?t1) / period"
    using e last cfg by simp
  moreover have "int (length (rl_sources l2)) \<le> max_sources" using e cfg by (simp add: limiter_inv_def)
  ultimately show ?thesis by simp
qed

definition ex_limiter :: "string rate_limiter" where
  "ex_limiter =
     \<lparr>rl_capacity = 2, rl_period = 3, rl_global_capacity = Some 9, rl_global_period = 1, rl_max_sources = 4,
      rl_log_interval = 60, rl_sources = [], rl_global = None, rl_last_logged = None, rl_limited = 0, rl_logged = []\<rparr>"

theorem source_rate_bounded_witness:
  "fst (requests id [(''a'', 0), (''a'', 0), (''a'', 1), (''b'', 1), (''a'', 3)] ex_limiter) = [True, True, False, True, True]
   \<and> granted id ''a'' [(''a'', 0), (''a'', 0), (''a'', 1), (''b'', 1), (''a'', 3)] [True, True, False, True, True] = 3
   \<and> (3 :: rat) \<le> 2 + (3 - 0) / 3"
proof -
  let ?w = "[(''a'', 0), (''a'', 0), (''a'', 1), (''b'', 1), (''a'', 3 :: rat)]"
  have init: "limiter_init 2 3 (Some 9) 1 4 60 = Inr ex_limiter" by (simp add: limiter_init_def ex_limiter_def)
  have run: "fst (requests id ?w ex_limiter) = [True, True, False, True, True]" by code_simp
  obtain oks l2 where q: "requests id ?w ex_limiter = (oks, l2)" by (meson surj_pair)
  have g: "granted id ''a'' ?w [True, True, False, True, True] = 3" by (simp add: granted_def)
  have "of_nat (granted id ''a'' ?w oks) \<le> of_int 2 + (snd (last ?w) - snd (hd ?w)) / (3 :: rat)"
    using source_rate_bounded [OF init _ q, of "[]" "[]" "''a''"] by simp
  then show ?thesis using q run g by simp
qed

text \<open>With an unusable clock every refusal is written to the log.\<close>

lemma clock_failure_always_logged:
  "allow digest source None l = (False, l\<lparr>rl_limited := rl_limited l + 1, rl_last_logged := None,
     rl_logged := rl_logged l @ [None]\<rparr>)"
  by (simp add: allow_def refuse_locked_def)

end
