(* ===== verification/Delivery_Worker.thy ===== *)
theory Delivery_Worker
  imports Prelude
begin

text \<open>
  The bounded delivery thread of the notifications: \<open>DeliveryWorker\<close> of
  \<^verbatim>\<open>server/app/notifications/worker.py\<close>. The owner submits and drains, the thread takes, sends and publishes;
  each action that happens under a lock or on a queue is one step, so every interleaving is a path of
  \<open>worker_step\<close>. \<open>start_ok\<close> says whether \<open>Thread.start\<close> succeeds, and the transport's answer is an
  argument of the step that receives it.
\<close>

section \<open>State and operations\<close>

datatype delivery = D_DISABLED | D_SENT | D_FAILED | D_SUPPRESSED | D_PENDING

text \<open>
  Where the thread is: not created, at the loop condition, waiting for work, sending, holding a finished delivery,
  ended normally, ended by an exception, or created but never started.
\<close>

datatype thread_state =
  T_None | T_Check | T_Waiting | T_Sending uuid string | T_Finished uuid delivery | T_Exited | T_Crashed | T_Dead

record delivery_worker =
  dw_capacity :: nat
  dw_work :: "(uuid \<times> string) list"
  dw_results :: "(uuid \<times> delivery) list"
  dw_budget :: nat
  dw_stop :: bool
  dw_ready :: bool
  dw_thread :: thread_state
  dw_hand :: "(uuid \<times> delivery) option"

datatype worker_error = Worker_Closed | Worker_Full | Worker_StartFailed

definition worker_init :: "nat \<Rightarrow> delivery_worker" where
  "worker_init capacity =
     \<lparr>dw_capacity = capacity, dw_work = [], dw_results = [], dw_budget = capacity, dw_stop = False,
      dw_ready = False, dw_thread = T_None, dw_hand = None\<rparr>"

definition submit :: "bool \<Rightarrow> uuid \<Rightarrow> string \<Rightarrow> delivery_worker \<Rightarrow> (worker_error, unit, delivery_worker) outcome" where
  "submit start_ok identifier message w =
     (if dw_stop w then (Inl Worker_Closed, w)
      else if dw_budget w = 0 then (Inl Worker_Full, w)
      else if length (dw_work w) \<ge> dw_capacity w then (Inl Worker_Full, w)
      else
        let w1 = w\<lparr>dw_budget := dw_budget w - 1, dw_work := dw_work w @ [(identifier, message)]\<rparr> in
        if dw_thread w1 = T_None then
          if start_ok then (Inr (), w1\<lparr>dw_thread := T_Check\<rparr>)
          else (Inl Worker_StartFailed, w1\<lparr>dw_thread := T_Dead\<rparr>)
        else (Inr (), w1))"

definition checked_result :: "delivery option \<Rightarrow> delivery" where
  "checked_result answer =
     (case answer of
        None \<Rightarrow> D_FAILED
      | Some r \<Rightarrow> if List.member [D_SENT, D_FAILED, D_DISABLED] r then r else D_FAILED)"

text \<open>The body of \<open>_run\<close>, one action at a time; \<open>answer\<close> is what \<open>send\<close> returned, nothing when it raised.\<close>

definition run_step :: "delivery option \<Rightarrow> bool \<Rightarrow> delivery_worker \<Rightarrow> delivery_worker" where
  "run_step answer timeout w =
     (case dw_thread w of
        T_Check \<Rightarrow> w\<lparr>dw_thread := (if dw_stop w then T_Exited else T_Waiting)\<rparr>
      | T_Waiting \<Rightarrow>
          (case dw_work w of
             (i, m) # rest \<Rightarrow> if timeout then w\<lparr>dw_thread := T_Check\<rparr> else w\<lparr>dw_work := rest, dw_thread := T_Sending i m\<rparr>
           | [] \<Rightarrow> w\<lparr>dw_thread := T_Check\<rparr>)
      | T_Sending i m \<Rightarrow> w\<lparr>dw_thread := T_Finished i (checked_result answer)\<rparr>
      | T_Finished i r \<Rightarrow>
          if length (dw_results w) \<ge> dw_capacity w then w\<lparr>dw_thread := T_Crashed\<rparr>
          else w\<lparr>dw_results := dw_results w @ [(i, r)], dw_ready := True, dw_thread := T_Check\<rparr>
      | _ \<Rightarrow> w)"

text \<open>One round of \<open>results\<close>: the queue is read under the lock, the budget is released outside it.\<close>

definition drain_get :: "delivery_worker \<Rightarrow> delivery_worker" where
  "drain_get w =
     (case dw_results w of
        [] \<Rightarrow> w\<lparr>dw_ready := False\<rparr>
      | c # cs \<Rightarrow> w\<lparr>dw_results := cs, dw_hand := Some c\<rparr>)"

definition drain_release :: "delivery_worker \<Rightarrow> delivery_worker" where
  "drain_release w = w\<lparr>dw_budget := dw_budget w + 1, dw_hand := None\<rparr>"

definition worker_close :: "delivery_worker \<Rightarrow> delivery_worker" where
  "worker_close w = w\<lparr>dw_stop := True\<rparr>"

inductive worker_step :: "delivery_worker \<Rightarrow> delivery_worker \<Rightarrow> bool" where
  Submit: "\<lbrakk>dw_hand w = None; submit start_ok i m w = (r, w')\<rbrakk> \<Longrightarrow> worker_step w w'"
| Run: "worker_step w (run_step answer timeout w)"
| Drain: "dw_hand w = None \<Longrightarrow> worker_step w (drain_get w)"
| Release: "dw_hand w \<noteq> None \<Longrightarrow> worker_step w (drain_release w)"
| Close: "worker_step w (worker_close w)"

inductive worker_reachable :: "delivery_worker \<Rightarrow> bool" where
  Init: "worker_reachable (worker_init capacity)"
| Step: "\<lbrakk>worker_reachable w; worker_step w w'\<rbrakk> \<Longrightarrow> worker_reachable w'"

section \<open>Accounting\<close>

definition in_thread :: "delivery_worker \<Rightarrow> uuid list" where
  "in_thread w = (case dw_thread w of T_Sending i m \<Rightarrow> [i] | T_Finished i r \<Rightarrow> [i] | _ \<Rightarrow> [])"

definition in_hand :: "delivery_worker \<Rightarrow> uuid list" where
  "in_hand w = (case dw_hand w of None \<Rightarrow> [] | Some c \<Rightarrow> [fst c])"

text \<open>Every accepted delivery the owner has not acknowledged, in the order results, thread, work.\<close>

definition outstanding :: "delivery_worker \<Rightarrow> uuid list" where
  "outstanding w = map fst (dw_results w) @ in_thread w @ map fst (dw_work w)"

definition final_result :: "delivery \<Rightarrow> bool" where
  "final_result r \<longleftrightarrow> r \<noteq> D_PENDING \<and> r \<noteq> D_SUPPRESSED"

lemma checked_result_final: "final_result (checked_result answer)"
  by (cases answer) (auto simp: checked_result_def final_result_def)

definition worker_inv :: "delivery_worker \<Rightarrow> bool" where
  "worker_inv w \<longleftrightarrow>
     dw_budget w + length (outstanding w) + length (in_hand w) = dw_capacity w
     \<and> dw_thread w \<noteq> T_Crashed
     \<and> (dw_results w \<noteq> [] \<longrightarrow> dw_ready w)
     \<and> (dw_thread w = T_None \<longrightarrow> outstanding w = [])
     \<and> (dw_thread w = T_Dead \<longrightarrow> dw_results w = [])
     \<and> (dw_thread w = T_Exited \<longrightarrow> dw_stop w)
     \<and> list_all (\<lambda>(i, r). final_result r) (dw_results w)
     \<and> (case dw_thread w of T_Finished i r \<Rightarrow> final_result r | _ \<Rightarrow> True)"

lemma place_updates [simp]:
  "in_thread (w\<lparr>dw_budget := b, dw_work := q\<rparr>) = in_thread w"
  "in_thread (w\<lparr>dw_ready := y\<rparr>) = in_thread w"
  "in_thread (w\<lparr>dw_stop := y\<rparr>) = in_thread w"
  "in_thread (w\<lparr>dw_results := rs, dw_hand := h\<rparr>) = in_thread w"
  "in_thread (w\<lparr>dw_budget := b, dw_hand := h\<rparr>) = in_thread w"
  "in_thread (w\<lparr>dw_thread := T_Check\<rparr>) = []" "in_thread (w\<lparr>dw_thread := T_Dead\<rparr>) = []"
  "in_hand (w\<lparr>dw_budget := b, dw_work := q\<rparr>) = in_hand w" "in_hand (w\<lparr>dw_thread := t\<rparr>) = in_hand w"
  "in_hand (w\<lparr>dw_ready := y\<rparr>) = in_hand w" "in_hand (w\<lparr>dw_stop := y\<rparr>) = in_hand w"
  "in_hand (w\<lparr>dw_budget := b, dw_hand := None\<rparr>) = []" "in_hand (w\<lparr>dw_results := rs, dw_hand := Some c\<rparr>) = [fst c]"
  by (simp_all add: in_thread_def in_hand_def)

text \<open>
  The three ways \<open>submit\<close> ends: refused with nothing changed, queued, or queued with a thread that never started.
\<close>

lemma submit_cases:
  assumes "submit ok i m w = (r, w')"
  obtains (Refused) "w' = w" "r = Inl Worker_Closed \<and> dw_stop w \<or> r = Inl Worker_Full"
  | (Queued) "r = Inr ()" "\<not> dw_stop w" "0 < dw_budget w"
      "w' = w\<lparr>dw_budget := dw_budget w - 1, dw_work := dw_work w @ [(i, m)],
        dw_thread := (if dw_thread w = T_None then T_Check else dw_thread w)\<rparr>"
  | (StartFailed) "r = Inl Worker_StartFailed" "\<not> ok" "dw_thread w = T_None" "0 < dw_budget w"
      "w' = w\<lparr>dw_budget := dw_budget w - 1, dw_work := dw_work w @ [(i, m)], dw_thread := T_Dead\<rparr>"
proof (cases "dw_stop w \<or> dw_budget w = 0 \<or> dw_capacity w \<le> length (dw_work w)")
  case True
  then show thesis using Refused assms by (simp add: submit_def split: if_splits)
next
  case room: False
  show thesis
  proof (cases "dw_thread w = T_None \<and> \<not> ok")
    case True
    then show thesis using StartFailed room assms by (simp add: submit_def)
  next
    case False
    then show thesis using Queued room assms by (cases "dw_thread w = T_None") (simp_all add: submit_def)
  qed
qed

lemma submit_inv:
  assumes "worker_inv w" "submit ok i m w = (r, w')"
  shows "worker_inv w'"
  using assms(2)
proof (cases rule: submit_cases)
  case Queued
  then show ?thesis
    using assms(1) by (cases "dw_thread w") (auto simp: worker_inv_def outstanding_def in_thread_def in_hand_def)
qed (use assms(1) in \<open>auto simp: worker_inv_def outstanding_def in_thread_def in_hand_def\<close>)

lemma submit_frame:
  assumes "submit ok i m w = (r, w')"
  shows "dw_hand w' = dw_hand w" "dw_capacity w' = dw_capacity w" "dw_stop w' = dw_stop w"
    "dw_results w' = dw_results w" "dw_ready w' = dw_ready w"
  using assms by (cases rule: submit_cases; simp)+

lemma run_step_inv:
  assumes "worker_inv w"
  shows "worker_inv (run_step answer timeout w)"
proof (cases "dw_thread w")
  case (T_Finished i r)
  then have "length (dw_results w) < dw_capacity w"
    using assms by (auto simp: worker_inv_def outstanding_def in_thread_def)
  then show ?thesis
    using assms T_Finished by (auto simp: worker_inv_def outstanding_def in_thread_def in_hand_def run_step_def)
next
  case T_Waiting
  then show ?thesis
    using assms by (auto simp: worker_inv_def outstanding_def in_thread_def in_hand_def run_step_def split: list.split)
qed (use assms in \<open>auto simp: checked_result_final worker_inv_def outstanding_def in_thread_def in_hand_def run_step_def\<close>)

lemma run_step_outstanding:
  assumes "worker_inv w"
  shows "outstanding (run_step answer timeout w) = outstanding w"
proof (cases "dw_thread w")
  case (T_Finished i r)
  then have "length (dw_results w) < dw_capacity w"
    using assms by (auto simp: worker_inv_def outstanding_def in_thread_def)
  then show ?thesis using T_Finished by (simp add: run_step_def outstanding_def in_thread_def)
next
  case T_Waiting
  then show ?thesis by (auto simp: run_step_def outstanding_def in_thread_def split: list.split)
qed (auto simp: run_step_def outstanding_def in_thread_def)

lemma drain_steps_inv:
  "\<lbrakk>worker_inv w; dw_hand w = None\<rbrakk> \<Longrightarrow> worker_inv (drain_get w)"
  "\<lbrakk>worker_inv w; dw_hand w \<noteq> None\<rbrakk> \<Longrightarrow> worker_inv (drain_release w)"
  "worker_inv w \<Longrightarrow> worker_inv (worker_close w)"
  by (auto simp: worker_inv_def outstanding_def in_hand_def drain_get_def drain_release_def worker_close_def
      split: list.split)

lemma worker_step_inv: "\<lbrakk>worker_step w w'; worker_inv w\<rbrakk> \<Longrightarrow> worker_inv w'"
  by (induction rule: worker_step.induct) (auto simp: run_step_inv drain_steps_inv intro: submit_inv)

lemma worker_reachable_inv: "worker_reachable w \<Longrightarrow> worker_inv w"
proof (induction rule: worker_reachable.induct)
  case (Init capacity)
  show ?case by (simp add: worker_inv_def worker_init_def outstanding_def in_thread_def in_hand_def)
next
  case (Step w w')
  then show ?case using worker_step_inv by blast
qed

text \<open>
  Only the owner's release removes a delivery from the books: every other step keeps the outstanding ones, and
  the one taken from the results queue is in the owner's hand.
\<close>

lemma worker_step_outstanding:
  assumes "worker_step w w'" "worker_inv w"
  shows "set (outstanding w) \<subseteq> set (outstanding w') \<union> set (in_hand w')"
  using assms
proof (induction rule: worker_step.induct)
  case (Submit w ok i m r w')
  from Submit(2) show ?case by (cases rule: submit_cases) (auto simp: outstanding_def in_thread_def)
next
  case (Run w answer timeout)
  then show ?case by (simp add: run_step_outstanding)
next
  case (Drain w)
  then show ?case by (auto simp: outstanding_def drain_get_def split: list.split)
qed (auto simp: outstanding_def drain_release_def worker_close_def in_thread_def)

text \<open>
  C17. In every state the owner and the delivery thread can reach, whatever the interleaving: the free budget, the
  deliveries the worker holds and the one in the owner's hand add up to the capacity, so a finished delivery always
  finds room and the thread never dies of a full queue; a waiting completion keeps \<open>ready\<close> raised; and no
  step loses a delivery the worker has accepted.
\<close>

theorem completions_never_lost:
  assumes "worker_reachable w"
  shows "dw_budget w + length (outstanding w) + length (in_hand w) = dw_capacity w \<and> dw_thread w \<noteq> T_Crashed
    \<and> (dw_results w \<noteq> [] \<longrightarrow> dw_ready w)
    \<and> (\<forall>w'. worker_step w w' \<longrightarrow> set (outstanding w) \<subseteq> set (outstanding w') \<union> set (in_hand w'))"
  using worker_reachable_inv [OF assms] worker_step_outstanding by (auto simp: worker_inv_def)

definition ex_worker :: delivery_worker where
  "ex_worker = run_step None False (run_step (Some D_SENT) False (run_step None False (run_step None False
     (snd (submit True 7 ''fire'' (worker_init 2))))))"

lemma ex_worker_reachable: "worker_reachable ex_worker"
proof -
  have "worker_step (worker_init 2) (snd (submit True 7 ''fire'' (worker_init 2)))"
    by (rule worker_step.Submit [of _ True 7 "''fire''" "fst (submit True 7 ''fire'' (worker_init 2))"])
      (simp_all add: worker_init_def)
  then show ?thesis unfolding ex_worker_def
    by (intro worker_reachable.Step [OF _ worker_step.Run]) (rule worker_reachable.Step [OF worker_reachable.Init])
qed

theorem completions_never_lost_witness:
  "dw_results ex_worker = [(7, D_SENT)] \<and> dw_ready ex_worker \<and> dw_thread ex_worker \<noteq> T_Crashed
   \<and> dw_budget ex_worker + length (outstanding ex_worker) + length (in_hand ex_worker) = dw_capacity ex_worker
   \<and> set (outstanding ex_worker) \<subseteq> set (outstanding (drain_get ex_worker)) \<union> set (in_hand (drain_get ex_worker))"
proof -
  have r: "dw_results ex_worker = [(7, D_SENT)]" and h: "dw_hand ex_worker = None"
    unfolding ex_worker_def by code_simp+
  then have "worker_step ex_worker (drain_get ex_worker)" by (intro worker_step.Drain)
  with completions_never_lost [OF ex_worker_reachable] r show ?thesis by simp
qed

text \<open>
  The owner drains while the thread runs. A step of the thread commutes with a round of draining as long as a
  completion is waiting, so a drain that the thread overlaps is one that runs after or before its steps.
\<close>

lemma run_step_commutes_with_drain:
  assumes "worker_inv w" "dw_results w \<noteq> []"
  shows "run_step answer timeout (drain_release (drain_get w)) = drain_release (drain_get (run_step answer timeout w))"
proof -
  obtain c cs where r: "dw_results w = c # cs" using assms(2) by (cases "dw_results w") auto
  have "dw_ready w" using assms by (simp add: worker_inv_def)
  moreover have "dw_thread w = T_Finished i q \<Longrightarrow> length (dw_results w) < dw_capacity w" for i q
    using assms(1) by (auto simp: worker_inv_def outstanding_def in_thread_def)
  ultimately show ?thesis
    using r by (cases "dw_thread w") (auto simp: run_step_def drain_get_def drain_release_def split: list.split)
qed

section \<open>A thread that runs delivers everything\<close>

abbreviation thread_alive :: "delivery_worker \<Rightarrow> bool" where
  "thread_alive w \<equiv> \<not> List.member [T_None, T_Exited, T_Crashed, T_Dead] (dw_thread w)"

definition thread_work :: "delivery_worker \<Rightarrow> nat" where
  "thread_work w = 4 * length (dw_work w)
     + (case dw_thread w of T_Check \<Rightarrow> 1 | T_Sending i m \<Rightarrow> 3 | T_Finished i r \<Rightarrow> 2 | _ \<Rightarrow> 0)"

lemma run_step_progress:
  assumes "worker_inv w" "thread_alive w" "\<not> dw_stop w" "0 < thread_work w"
  shows "thread_work (run_step answer False w) < thread_work w" "thread_alive (run_step answer False w)"
    "\<not> dw_stop (run_step answer False w)"
proof -
  have "dw_thread w = T_Finished i r \<Longrightarrow> length (dw_results w) < dw_capacity w" for i r
    using assms(1) by (auto simp: worker_inv_def outstanding_def in_thread_def)
  then have "thread_work (run_step answer False w) < thread_work w \<and> thread_alive (run_step answer False w)
      \<and> \<not> dw_stop (run_step answer False w)"
    using assms(2-4) by (cases "dw_thread w") (auto simp: run_step_def thread_work_def split: list.split)
  then show "thread_work (run_step answer False w) < thread_work w" "thread_alive (run_step answer False w)"
    "\<not> dw_stop (run_step answer False w)" by auto
qed

lemma no_thread_work:
  assumes "thread_alive w" "thread_work w = 0"
  shows "map fst (dw_results w) = outstanding w"
  using assms by (cases "dw_thread w") (auto simp: thread_work_def outstanding_def in_thread_def)

text \<open>
  As long as nobody closes the worker and its thread was started, a bounded number of the thread's own steps
  moves every accepted delivery, in order, to the results queue, whatever the transport answers.
\<close>

theorem running_thread_delivers_all:
  assumes "worker_inv w" "thread_alive w" "\<not> dw_stop w"
  shows "\<exists>n \<le> thread_work w. map fst (dw_results ((run_step answer False ^^ n) w)) = outstanding w"
  using assms
proof (induction "thread_work w" arbitrary: w rule: less_induct)
  case less
  show ?case
  proof (cases "thread_work w = 0")
    case True
    then show ?thesis using no_thread_work less.prems(2) by (intro exI [of _ 0]) simp
  next
    case False
    then have pos: "0 < thread_work w" by simp
    let ?w = "run_step answer False w"
    note p = run_step_progress [OF less.prems pos, of answer]
    obtain n where n: "n \<le> thread_work ?w" "map fst (dw_results ((run_step answer False ^^ n) ?w)) = outstanding ?w"
      using less.hyps [OF p(1) run_step_inv [OF less.prems(1)] p(2,3)] by blast
    have "map fst (dw_results ((run_step answer False ^^ Suc n) w)) = outstanding w"
      using n(2) run_step_outstanding [OF less.prems(1)] by (simp add: funpow_swap1)
    moreover have "Suc n \<le> thread_work w" using n(1) p(1) by simp
    ultimately show ?thesis by blast
  qed
qed

theorem running_thread_delivers_all_witness:
  "\<exists>n \<le> 5. map fst (dw_results ((run_step None False ^^ n) (snd (submit True 7 ''fire'' (worker_init 2))))) = [7]"
proof -
  let ?w = "snd (submit True 7 ''fire'' (worker_init 2))"
  have "worker_inv ?w" "thread_alive ?w" "\<not> dw_stop ?w" "thread_work ?w = 5" "outstanding ?w = [7]"
    by (code_simp)+
  with running_thread_delivers_all [of ?w None] show ?thesis by simp
qed

section \<open>A thread that could not start\<close>

text \<open>
  \<open>_thread\<close> is assigned before \<open>start\<close> is called, so after a failed start the worker keeps an object that never runs
  and no later submission tries again.
\<close>

lemma dead_thread_step: "\<lbrakk>worker_step w w'; dw_thread w = T_Dead\<rbrakk> \<Longrightarrow> dw_thread w' = T_Dead"
proof (induction rule: worker_step.induct)
  case (Submit w ok i m r w')
  from Submit(2) show ?case using Submit(3) by (cases rule: submit_cases) auto
qed (auto simp: run_step_def drain_get_def drain_release_def worker_close_def split: list.split)

text \<open>
  C39. After one failed \<open>Thread.start\<close> the worker delivers nothing any more: whatever the owner does
  afterwards, no completion appears, while the budget still lets it accept further submissions.
\<close>

theorem failed_start_is_permanent:
  assumes "worker_reachable w" "submit False i m w = (Inl Worker_StartFailed, w1)" "worker_step\<^sup>*\<^sup>* w1 w2"
    and "dw_hand w = None"
  shows "dw_results w2 = []
    \<and> (\<not> dw_stop w2 \<and> 0 < dw_budget w2 \<and> length (dw_work w2) < dw_capacity w2 \<longrightarrow> fst (submit ok j t w2) = Inr ())"
proof -
  have w1: "worker_reachable w1" using worker_reachable.Step [OF assms(1) worker_step.Submit [OF assms(4,2)]] .
  have dead1: "dw_thread w1 = T_Dead" using assms(2) by (cases rule: submit_cases) auto
  from assms(3) have "worker_reachable w2 \<and> dw_thread w2 = T_Dead"
    by (induction rule: rtranclp_induct) (use w1 dead1 dead_thread_step worker_reachable.Step in blast)+
  then have w2: "worker_inv w2" "dw_thread w2 = T_Dead" using worker_reachable_inv by auto
  then show ?thesis by (simp add: worker_inv_def submit_def)
qed

theorem failed_start_is_permanent_witness:
  "dw_results (snd (submit False 7 ''fire'' (worker_init 2))) = []
   \<and> fst (submit True 8 ''again'' (snd (submit False 7 ''fire'' (worker_init 2)))) = Inr ()"
proof -
  let ?w = "snd (submit False 7 ''fire'' (worker_init 2))"
  have s: "submit False 7 ''fire'' (worker_init 2) = (Inl Worker_StartFailed, ?w)"
    by (simp add: submit_def worker_init_def Let_def)
  have g: "\<not> dw_stop ?w" "0 < dw_budget ?w" "length (dw_work ?w) < dw_capacity ?w" by code_simp+
  have "dw_hand (worker_init 2) = None" by (simp add: worker_init_def)
  from failed_start_is_permanent [OF worker_reachable.Init s rtranclp.rtrancl_refl this] g
  show ?thesis by blast
qed

end
