(* ===== verification/Notifications.thy ===== *)
theory Notifications
  imports Delivery_Worker Storage_Policy
begin

text \<open>
  Alerts and their delivery: \<open>NotificationService\<close> of \<^verbatim>\<open>server/app/notifications/service.py\<close> with the message
  texts, the transport's decisions of \<^verbatim>\<open>server/app/notifications/slack.py\<close>, over the worker of
  \<open>Delivery_Worker\<close>.

  The local sink and the completion callbacks belong to the caller. They act on the caller's world \<open>'w\<close> and either
  return or raise, so \<open>env_sink\<close> and \<open>env_call\<close> give a flag with the world they leave; \<open>env_start\<close> says whether
  \<open>Thread.start\<close> succeeds. The sink and the callbacks do not call back into the service. A time is naive or aware; an
  aware time is its instant. Thread identities are numbers; the caller's is an argument.
\<close>

section \<open>Kinds, events and texts\<close>

datatype notification_kind =
    SERVER_MOVEMENT | CAMERA_TAMPER | HARDWARE_INTEGRITY_FAILURE | RECORDING_HEALTH_FAILURE
  | HUMAN_ACCESS_FAULT | HUMAN_ACCESS_RECOVERED | CREDENTIAL_FINDING | RECORDING_DEVICE_NUMBERS_CHANGED
  | HARDWARE_INTEGRITY_WARNING | RECORDING_HEALTH_WARNING | CAPTURE_CREDENTIAL_WARNING | CAPTURE_TRUST_WARNING
  | PERSON | MOTION | ENTRY | CAMERA_OFFLINE | SCENE_REFERENCE_REACQUIRED | SCENE_CALIBRATION_REQUIRED
  | DAILY_SUMMARY

fun kind_value :: "notification_kind \<Rightarrow> string" where
  "kind_value SERVER_MOVEMENT = ''server_movement''"
| "kind_value CAMERA_TAMPER = ''camera_tamper''"
| "kind_value HARDWARE_INTEGRITY_FAILURE = ''hardware_integrity_failure''"
| "kind_value RECORDING_HEALTH_FAILURE = ''recording_health_failure''"
| "kind_value HUMAN_ACCESS_FAULT = ''human_access_fault''"
| "kind_value HUMAN_ACCESS_RECOVERED = ''human_access_recovered''"
| "kind_value CREDENTIAL_FINDING = ''credential_finding''"
| "kind_value RECORDING_DEVICE_NUMBERS_CHANGED = ''recording_device_numbers_changed''"
| "kind_value HARDWARE_INTEGRITY_WARNING = ''hardware_integrity_warning''"
| "kind_value RECORDING_HEALTH_WARNING = ''recording_health_warning''"
| "kind_value CAPTURE_CREDENTIAL_WARNING = ''capture_credential_warning''"
| "kind_value CAPTURE_TRUST_WARNING = ''capture_trust_warning''"
| "kind_value PERSON = ''person''"
| "kind_value MOTION = ''motion''"
| "kind_value ENTRY = ''entry''"
| "kind_value CAMERA_OFFLINE = ''camera_offline''"
| "kind_value SCENE_REFERENCE_REACQUIRED = ''scene_reference_reacquired''"
| "kind_value SCENE_CALIBRATION_REQUIRED = ''scene_calibration_required''"
| "kind_value DAILY_SUMMARY = ''daily_summary''"

definition IMMEDIATE_KINDS :: "notification_kind list" where
  "IMMEDIATE_KINDS = [HARDWARE_INTEGRITY_FAILURE, RECORDING_HEALTH_FAILURE, HUMAN_ACCESS_FAULT,
     HUMAN_ACCESS_RECOVERED, CREDENTIAL_FINDING, RECORDING_DEVICE_NUMBERS_CHANGED,
     SCENE_REFERENCE_REACQUIRED, SCENE_CALIBRATION_REQUIRED]"

definition CONFIRMED_IMMEDIATE_KINDS :: "notification_kind list" where
  "CONFIRMED_IMMEDIATE_KINDS = [SERVER_MOVEMENT, CAMERA_TAMPER, CAMERA_OFFLINE]"

definition RECOVERY_KINDS :: "notification_kind list" where
  "RECOVERY_KINDS = [HUMAN_ACCESS_RECOVERED]"

definition ATTENTION_KINDS :: "notification_kind list" where
  "ATTENTION_KINDS = [RECORDING_DEVICE_NUMBERS_CHANGED]"

definition RECOVERED_SUFFIX :: string where
  "RECOVERED_SUFFIX = '' (already recovered)''"

definition RECOVERED_KINDS :: "notification_kind list" where
  "RECOVERED_KINDS = [CAMERA_OFFLINE]"

datatype datetime = Naive int | Aware int

datatype notify_error = Notify_RuntimeError | Notify_ValueError | Notify_KeyError

fun aware :: "datetime \<Rightarrow> bool" where
  "aware (Naive t) = False"
| "aware (Aware t) = True"

record notification_event =
  ev_kind :: notification_kind
  ev_at :: datetime
  ev_confirmed :: bool
  ev_id :: uuid
  ev_delivery :: delivery

definition immediate :: "notification_kind \<Rightarrow> bool \<Rightarrow> bool" where
  "immediate kind confirmed \<longleftrightarrow>
     List.member IMMEDIATE_KINDS kind \<or> confirmed \<and> List.member CONFIRMED_IMMEDIATE_KINDS kind"

definition alert_text :: "notification_kind \<Rightarrow> bool \<Rightarrow> string" where
  "alert_text kind recovered =
     (if List.member RECOVERY_KINDS kind then ''ServerSentinel recovery notice''
      else if List.member ATTENTION_KINDS kind then ''ServerSentinel attention notice''
      else ''ServerSentinel critical alert'')
     @ '': '' @ kind_value kind @ (if recovered then RECOVERED_SUFFIX else [])"

section \<open>The daily summary\<close>

record daily_summary =
  monitored_seconds :: int
  sources_online :: int
  sources_degraded :: int
  sources_offline :: int
  agents_online :: int
  agents_offline :: int
  person_count :: int
  motion_count :: int
  entry_count :: int
  critical_count :: int
  recording_count :: int
  error_count :: int
  recording_bytes :: int
  summary_storage :: storage_state
  pipeline_available :: bool

definition summary_counts :: "daily_summary \<Rightarrow> int list" where
  "summary_counts d = [monitored_seconds d, sources_online d, sources_degraded d, sources_offline d,
     agents_online d, agents_offline d, person_count d, motion_count d, entry_count d, critical_count d,
     recording_count d, error_count d, recording_bytes d]"

definition daily_summary_ok :: "daily_summary \<Rightarrow> bool" where
  "daily_summary_ok d \<longleftrightarrow> list_all (\<lambda>v. 0 \<le> v \<and> v < 2 ^ 63) (summary_counts d)"

fun decimal :: "nat \<Rightarrow> string" where
  "decimal n = (if n < 10 then [char_of (48 + n)] else decimal (n div 10) @ [char_of (48 + n mod 10)])"

declare decimal.simps [simp del]

text \<open>Python's \<open>str\<close> of an integer.\<close>

definition str_int :: "int \<Rightarrow> string" where
  "str_int v = (if v < 0 then ''-'' @ decimal (nat (- v)) else decimal (nat v))"

fun storage_value :: "storage_state \<Rightarrow> string" where
  "storage_value NORMAL = ''NORMAL''"
| "storage_value PRESSURE = ''STORAGE_PRESSURE''"
| "storage_value HARD_STOP = ''STORAGE_HARD_STOP''"

definition newline :: string where
  "newline = [char_of (10::nat)]"

definition summary_text :: "daily_summary \<Rightarrow> string" where
  "summary_text d =
     (let
        monitored =
          (if pipeline_available d then ''Monitored seconds: '' @ str_int (monitored_seconds d) @ newline
           else ''Monitored seconds: unavailable (no capture pipeline reporting; service uptime seconds: ''
             @ str_int (monitored_seconds d) @ '')'' @ newline);
        pipeline =
          (if pipeline_available d then
             ''Sources online/degraded/offline: '' @ str_int (sources_online d) @ ''/''
             @ str_int (sources_degraded d) @ ''/'' @ str_int (sources_offline d) @ newline
             @ ''Agents online/offline: '' @ str_int (agents_online d) @ ''/'' @ str_int (agents_offline d) @ newline
             @ ''Person/motion/entry observations: '' @ str_int (person_count d) @ ''/''
             @ str_int (motion_count d) @ ''/'' @ str_int (entry_count d) @ newline
           else
             ''Sources: unavailable (no capture pipeline reporting)'' @ newline
             @ ''Agents: unavailable'' @ newline
             @ ''Person/motion/entry observations: unavailable'' @ newline)
      in
        ''ServerSentinel daily summary'' @ newline @ monitored @ pipeline
        @ ''Critical events: '' @ str_int (critical_count d) @ ''; recordings: '' @ str_int (recording_count d) @ newline
        @ ''Recording bytes: '' @ str_int (recording_bytes d) @ ''; storage: '' @ storage_value (summary_storage d) @ newline
        @ ''Errors: '' @ str_int (error_count d))"

section \<open>The transport's decisions\<close>

text \<open>
  One attempt of \<open>SlackDelivery.send\<close>. The message is its UTF-8 encoding; \<open>response\<close> is the status and the first
  33 bytes of the body, nothing when opening or reading raised.
\<close>

definition bytes_strip :: "string \<Rightarrow> string" where
  "bytes_strip b =
     (let blank = (\<lambda>c. List.member [9, 10, 11, 12, 13, 32] (of_char c :: nat)) in
      rev (dropWhile blank (rev (dropWhile blank b))))"

definition slack_send :: "bool \<Rightarrow> (int \<times> string) option \<Rightarrow> string \<Rightarrow> delivery" where
  "slack_send configured response message =
     (if \<not> configured then D_DISABLED
      else if message = [] \<or> length message > 4096 then D_FAILED
      else case response of
          Some (status, body) \<Rightarrow>
            if status = 200 \<and> length body \<le> 32 \<and> bytes_strip body = ''ok'' then D_SENT else D_FAILED
        | None \<Rightarrow> D_FAILED)"

section \<open>The service\<close>

record 'cb pending_entry =
  pe_event :: notification_event
  pe_callbacks :: "'cb list"
  pe_result :: "delivery option"

record 'cb notify =
  nt_configured :: bool
  nt_worker :: delivery_worker
  nt_capacity :: nat
  nt_pending :: "(uuid, 'cb pending_entry) dict"
  nt_unpersisted :: "(uuid, notification_event) dict"
  nt_owner :: nat
  nt_closed :: bool
  nt_last_delivery :: delivery
  nt_local_failed :: bool
  nt_delivery_failed :: bool

record ('w, 'cb) notify_env =
  env_sink :: "notification_event \<Rightarrow> 'w \<Rightarrow> bool \<times> 'w"
  env_call :: "'cb \<Rightarrow> delivery \<Rightarrow> 'w \<Rightarrow> bool \<times> 'w"
  env_start :: "'w \<Rightarrow> bool"

definition notify_init :: "bool \<Rightarrow> nat \<Rightarrow> int \<Rightarrow> notify_error + 'cb notify" where
  "notify_init configured caller queue_capacity =
     (if 1 \<le> queue_capacity \<and> queue_capacity \<le> 1024 then
        Inr \<lparr>nt_configured = configured, nt_worker = worker_init (nat queue_capacity),
             nt_capacity = nat queue_capacity, nt_pending = [], nt_unpersisted = [], nt_owner = caller,
             nt_closed = False, nt_last_delivery = D_DISABLED, nt_local_failed = False, nt_delivery_failed = False\<rparr>
      else Inl Notify_ValueError)"

definition in_flight :: "nat \<Rightarrow> uuid \<Rightarrow> 'cb notify \<Rightarrow> notify_error + bool" where
  "in_flight caller event_id n =
     (if caller \<noteq> nt_owner n then Inl Notify_RuntimeError
      else Inr (map_of (nt_pending n) event_id \<noteq> None))"

definition notify_join :: "nat \<Rightarrow> uuid \<Rightarrow> notification_kind \<Rightarrow> 'cb \<Rightarrow> 'cb notify
    \<Rightarrow> (notify_error, bool, 'cb notify) outcome" where
  "notify_join caller event_id kind on_complete n =
     (if caller \<noteq> nt_owner n then (Inl Notify_RuntimeError, n)
      else case map_of (nt_pending n) event_id of
          None \<Rightarrow> (Inr False, n)
        | Some e \<Rightarrow>
            if ev_kind (pe_event e) \<noteq> kind \<or> \<not> ev_confirmed (pe_event e) then (Inr False, n)
            else (Inr True, n\<lparr>nt_pending :=
              AList.update event_id (e\<lparr>pe_callbacks := pe_callbacks e @ [on_complete]\<rparr>) (nt_pending n)\<rparr>))"

definition can_accept :: "nat \<Rightarrow> uuid \<Rightarrow> 'cb notify \<Rightarrow> notify_error + bool" where
  "can_accept caller event_id n =
     (if caller \<noteq> nt_owner n then Inl Notify_RuntimeError
      else if map_of (nt_pending n) event_id \<noteq> None \<or> map_of (nt_unpersisted n) event_id \<noteq> None then Inr True
      else if \<not> nt_configured n then Inr (length (nt_unpersisted n) < nt_capacity n)
      else Inr (\<not> nt_closed n \<and> length (nt_pending n) < nt_capacity n))"

definition retained :: "nat \<Rightarrow> uuid \<Rightarrow> 'cb notify \<Rightarrow> notify_error + bool" where
  "retained caller event_id n =
     (if caller \<noteq> nt_owner n then Inl Notify_RuntimeError
      else Inr (map_of (nt_unpersisted n) event_id \<noteq> None))"

definition local_write :: "('w, 'cb) notify_env \<Rightarrow> notification_event \<Rightarrow> 'cb notify \<times> 'w
    \<Rightarrow> bool \<times> 'cb notify \<times> 'w" where
  "local_write env event s =
     (case env_sink env event (snd s) of
        (True, w) \<Rightarrow> (True, fst s, w)
      | (False, w) \<Rightarrow> (False, (fst s)\<lparr>nt_local_failed := True\<rparr>, w))"

definition retain :: "notification_event \<Rightarrow> 'cb notify \<Rightarrow> bool \<times> 'cb notify" where
  "retain event n =
     (if map_of (nt_unpersisted n) (ev_id event) \<noteq> None \<or> length (nt_unpersisted n) < nt_capacity n then
        (True, n\<lparr>nt_local_failed := True, nt_unpersisted := AList.update (ev_id event) event (nt_unpersisted n)\<rparr>)
      else (False, n\<lparr>nt_local_failed := True\<rparr>))"

fun flush_entries :: "('w, 'cb) notify_env \<Rightarrow> (uuid \<times> notification_event) list \<Rightarrow> 'cb notify \<times> 'w
    \<Rightarrow> 'cb notify \<times> 'w" where
  "flush_entries env [] s = s"
| "flush_entries env ((i, event) # es) s =
     (case local_write env event s of
        (True, n, w) \<Rightarrow> flush_entries env es (n\<lparr>nt_unpersisted := AList.delete i (nt_unpersisted n)\<rparr>, w)
      | (False, s') \<Rightarrow> flush_entries env es s')"

definition flush_unpersisted :: "('w, 'cb) notify_env \<Rightarrow> 'cb notify \<times> 'w \<Rightarrow> 'cb notify \<times> 'w" where
  "flush_unpersisted env s = flush_entries env (nt_unpersisted (fst s)) s"

text \<open>The loop over \<open>results()\<close>: each completion is taken, its budget released and its entry filled in.\<close>

function absorb :: "'cb notify \<Rightarrow> (notify_error, unit, 'cb notify) outcome" where
  "absorb n =
     (case dw_results (nt_worker n) of
        [] \<Rightarrow> (Inr (), n\<lparr>nt_worker := drain_get (nt_worker n)\<rparr>)
      | (i, r) # rs \<Rightarrow>
          let n1 = n\<lparr>nt_worker := drain_release (drain_get (nt_worker n))\<rparr> in
          case map_of (nt_pending n1) i of
            None \<Rightarrow> (Inl Notify_KeyError, n1)
          | Some e \<Rightarrow> absorb (n1\<lparr>nt_pending := AList.update i (e\<lparr>pe_result := Some r\<rparr>) (nt_pending n1)\<rparr>))"
  by pat_completeness auto
termination
  by (relation "measure (\<lambda>n. length (dw_results (nt_worker n)))") (auto simp: drain_get_def drain_release_def)

declare absorb.simps [simp del]

fun run_callbacks :: "('w, 'cb) notify_env \<Rightarrow> delivery \<Rightarrow> 'cb list \<Rightarrow> 'w \<Rightarrow> 'cb list \<times> 'w" where
  "run_callbacks env result [] w = ([], w)"
| "run_callbacks env result (c # cs) w =
     (let (ok, w1) = env_call env c result w;
          (failed, w2) = run_callbacks env result cs w1
      in (if ok then failed else c # failed, w2))"

definition settle_entry :: "('w, 'cb) notify_env \<Rightarrow> uuid \<Rightarrow> 'cb pending_entry \<Rightarrow> 'cb notify \<times> 'w
    \<Rightarrow> notification_event list \<times> 'cb notify \<times> 'w" where
  "settle_entry env i e s =
     (case pe_result e of
        None \<Rightarrow> ([], s)
      | Some result \<Rightarrow>
          let update = (pe_event e)\<lparr>ev_delivery := result\<rparr>;
              n1 = (if result = D_FAILED then (fst s)\<lparr>nt_delivery_failed := True\<rparr> else fst s)
          in case local_write env update (n1, snd s) of
               (False, s2) \<Rightarrow> ([], s2)
             | (True, n2, w2) \<Rightarrow>
                 (case run_callbacks env result (pe_callbacks e) w2 of
                    ([], w3) \<Rightarrow>
                      ([update], n2\<lparr>nt_last_delivery := result, nt_pending := AList.delete i (nt_pending n2)\<rparr>, w3)
                  | (failed, w3) \<Rightarrow>
                      ([], n2\<lparr>nt_local_failed := True,
                              nt_pending := AList.update i (e\<lparr>pe_callbacks := failed\<rparr>) (nt_pending n2)\<rparr>, w3)))"

fun settle :: "('w, 'cb) notify_env \<Rightarrow> (uuid \<times> 'cb pending_entry) list \<Rightarrow> 'cb notify \<times> 'w
    \<Rightarrow> notification_event list \<times> 'cb notify \<times> 'w" where
  "settle env [] s = ([], s)"
| "settle env ((i, e) # es) s =
     (let (done1, s1) = settle_entry env i e s; (done2, s2) = settle env es s1 in (done1 @ done2, s2))"

definition poll :: "('w, 'cb) notify_env \<Rightarrow> nat \<Rightarrow> 'cb notify \<times> 'w
    \<Rightarrow> (notify_error, notification_event list, 'cb notify \<times> 'w) outcome" where
  "poll env caller s =
     (if caller \<noteq> nt_owner (fst s) then (Inl Notify_RuntimeError, s)
      else
        let (n1, w1) = flush_unpersisted env s in
        case absorb n1 of
          (Inl e, n2) \<Rightarrow> (Inl e, n2, w1)
        | (Inr _, n2) \<Rightarrow> (let (completed, s3) = settle env (nt_pending n2) (n2, w1) in (Inr completed, s3)))"

definition same_event :: "notification_event \<Rightarrow> notification_event \<Rightarrow> bool" where
  "same_event a b \<longleftrightarrow> ev_kind a = ev_kind b \<and> ev_at a = ev_at b \<and> ev_confirmed a = ev_confirmed b"

definition enqueue_result :: "'cb notify \<Rightarrow> delivery" where
  "enqueue_result n =
     (if \<not> nt_configured n then D_DISABLED
      else if nt_closed n \<or> nt_capacity n \<le> length (nt_pending n) then D_FAILED
      else D_PENDING)"

definition submit_pending :: "('w, 'cb) notify_env \<Rightarrow> nat \<Rightarrow> notification_event \<Rightarrow> string \<Rightarrow> 'cb option
    \<Rightarrow> 'cb notify \<times> 'w \<Rightarrow> (notify_error, delivery, 'cb notify \<times> 'w) outcome" where
  "submit_pending env caller event message on_complete s =
     (let i = ev_id event;
          e = \<lparr>pe_event = event, pe_callbacks = (case on_complete of None \<Rightarrow> [] | Some c \<Rightarrow> [c]), pe_result = None\<rparr>;
          n1 = (fst s)\<lparr>nt_last_delivery := D_PENDING, nt_pending := AList.update i e (nt_pending (fst s))\<rparr>
      in case submit (env_start env (snd s)) i message (nt_worker n1) of
           (Inr _, k) \<Rightarrow> (Inr D_PENDING, n1\<lparr>nt_worker := k\<rparr>, snd s)
         | (Inl _, k) \<Rightarrow>
             (case poll env caller
                 (n1\<lparr>nt_worker := k, nt_delivery_failed := True,
                     nt_pending := AList.update i (e\<lparr>pe_result := Some D_FAILED\<rparr>) (nt_pending n1)\<rparr>, snd s) of
                (Inl x, s2) \<Rightarrow> (Inl x, s2)
              | (Inr _, s2) \<Rightarrow> (Inr D_FAILED, s2)))"

definition enqueue :: "('w, 'cb) notify_env \<Rightarrow> nat \<Rightarrow> notification_event \<Rightarrow> string \<Rightarrow> 'cb option \<Rightarrow> bool
    \<Rightarrow> 'cb notify \<times> 'w \<Rightarrow> (notify_error, delivery, 'cb notify \<times> 'w) outcome" where
  "enqueue env caller event message on_complete keep s =
     (case map_of (nt_pending (fst s)) (ev_id event) of
        Some e \<Rightarrow>
          if \<not> same_event event (pe_event e) then (Inr D_FAILED, (fst s)\<lparr>nt_delivery_failed := True\<rparr>, snd s)
          else (case on_complete of
                  None \<Rightarrow> (Inr D_PENDING, s)
                | Some c \<Rightarrow> (Inr D_PENDING, (fst s)\<lparr>nt_pending :=
                    AList.update (ev_id event) (e\<lparr>pe_callbacks := pe_callbacks e @ [c]\<rparr>) (nt_pending (fst s))\<rparr>, snd s))
      | None \<Rightarrow>
          let result = enqueue_result (fst s);
              n0 = (if result = D_FAILED then (fst s)\<lparr>nt_delivery_failed := True\<rparr> else fst s);
              event1 = event\<lparr>ev_delivery := result\<rparr>;
              (ok, n1, w1) = local_write env event1 (n0, snd s)
          in if \<not> ok \<and> result \<noteq> D_PENDING then
               let n2 = (if keep then snd (retain event1 n1) else n1)
               in (Inr D_FAILED, n2\<lparr>nt_last_delivery := D_FAILED\<rparr>, w1)
             else if result = D_PENDING then submit_pending env caller event1 message on_complete (n1, w1)
             else (Inr result, n1\<lparr>nt_last_delivery := result\<rparr>, w1))"

definition notify_record :: "('w, 'cb) notify_env \<Rightarrow> nat \<Rightarrow> uuid \<Rightarrow> notification_kind \<Rightarrow> datetime \<Rightarrow> bool
    \<Rightarrow> uuid option \<Rightarrow> 'cb option \<Rightarrow> bool \<Rightarrow> 'cb notify \<times> 'w
    \<Rightarrow> (notify_error, delivery, 'cb notify \<times> 'w) outcome" where
  "notify_record env caller fresh kind time confirmed event_id on_complete recovered s =
     (if caller \<noteq> nt_owner (fst s) then (Inl Notify_RuntimeError, s)
      else if \<not> aware time then (Inl Notify_ValueError, s)
      else if recovered \<and> \<not> List.member RECOVERED_KINDS kind then (Inl Notify_ValueError, s)
      else if kind = DAILY_SUMMARY then (Inl Notify_ValueError, s)
      else
        let i = (case event_id of None \<Rightarrow> fresh | Some j \<Rightarrow> j);
            event = \<lparr>ev_kind = kind, ev_at = time, ev_confirmed = confirmed, ev_id = i, ev_delivery = D_SUPPRESSED\<rparr>
        in case map_of (nt_unpersisted (fst s)) i of
             Some prior \<Rightarrow>
               if \<not> same_event event prior then (Inr D_FAILED, (fst s)\<lparr>nt_delivery_failed := True\<rparr>, snd s)
               else (case local_write env prior s of
                       (False, s1) \<Rightarrow> (Inr D_FAILED, s1)
                     | (True, n1, w1) \<Rightarrow>
                         (Inr (ev_delivery prior), n1\<lparr>nt_unpersisted := AList.delete i (nt_unpersisted n1)\<rparr>, w1))
           | None \<Rightarrow>
               if \<not> immediate kind confirmed then
                 (case local_write env event s of
                    (True, s1) \<Rightarrow> (Inr D_SUPPRESSED, s1)
                  | (False, n1, w1) \<Rightarrow>
                      (case retain event n1 of
                         (True, n2) \<Rightarrow> (Inr D_SUPPRESSED, n2, w1)
                       | (False, n2) \<Rightarrow> (Inr D_FAILED, n2, w1)))
               else enqueue env caller event (alert_text kind recovered) on_complete True s)"

definition daily :: "('w, 'cb) notify_env \<Rightarrow> nat \<Rightarrow> uuid \<Rightarrow> daily_summary \<Rightarrow> datetime \<Rightarrow> 'cb option
    \<Rightarrow> 'cb notify \<times> 'w \<Rightarrow> (notify_error, delivery, 'cb notify \<times> 'w) outcome" where
  "daily env caller fresh summary time on_complete s =
     (if caller \<noteq> nt_owner (fst s) then (Inl Notify_RuntimeError, s)
      else if \<not> aware time then (Inl Notify_ValueError, s)
      else enqueue env caller
        \<lparr>ev_kind = DAILY_SUMMARY, ev_at = time, ev_confirmed = False, ev_id = fresh, ev_delivery = D_SUPPRESSED\<rparr>
        (summary_text summary) on_complete False s)"

definition notify_close :: "nat \<Rightarrow> 'cb notify \<Rightarrow> (notify_error, unit, 'cb notify) outcome" where
  "notify_close caller n =
     (if caller \<noteq> nt_owner n then (Inl Notify_RuntimeError, n)
      else (Inr (), n\<lparr>nt_closed := True, nt_worker := worker_close (nt_worker n)\<rparr>))"

end
