(* ===== verification/Notification_Delivery.thy ===== *)
theory Notification_Delivery
  imports Notifications
begin

text \<open>
  What the notification service guarantees over whole histories of calls interleaved with the delivery thread:
  the books of the service and of the worker agree, polling never fails on an unknown completion, and an accepted
  alert is pending or has a final outcome in the caller's durable store.
\<close>

section \<open>Effects of the parts\<close>

lemma local_write_effect:
  assumes "local_write env ev (n, w) = (ok, n', w')"
  shows "env_sink env ev w = (ok, w')" "n' = (if ok then n else n\<lparr>nt_local_failed := True\<rparr>)"
  using assms by (auto simp: local_write_def split: prod.splits bool.splits)

lemma dict_get_Some_key: "map_of d i = Some e \<Longrightarrow> i \<in> dict_keys d"
  by (metis dict_get_None option.distinct(1))

lemma note_failure:
  "(if c then m\<lparr>nt_delivery_failed := True\<rparr> else m) = m\<lparr>nt_delivery_failed := nt_delivery_failed m \<or> c\<rparr>"
  by simp

lemma settle_entry_cases:
  assumes "settle_entry env i e (n, w) = (ds, n', w')"
  obtains (Waiting) "pe_result e = None" "ds = []" "n' = n" "w' = w"
  | (Refused) r b where "pe_result e = Some r" "ds = []"
      "env_sink env ((pe_event e)\<lparr>ev_delivery := r\<rparr>) w = (False, w')"
      "n' = n\<lparr>nt_delivery_failed := b, nt_local_failed := True\<rparr>"
  | (Completed) r w1 b where "pe_result e = Some r" "ds = [(pe_event e)\<lparr>ev_delivery := r\<rparr>]"
      "env_sink env ((pe_event e)\<lparr>ev_delivery := r\<rparr>) w = (True, w1)"
      "run_callbacks env r (pe_callbacks e) w1 = ([], w')"
      "n' = n\<lparr>nt_delivery_failed := b, nt_last_delivery := r, nt_pending := AList.delete i (nt_pending n)\<rparr>"
  | (Callback) r w1 b failed where "pe_result e = Some r" "ds = []" "failed \<noteq> []"
      "env_sink env ((pe_event e)\<lparr>ev_delivery := r\<rparr>) w = (True, w1)"
      "run_callbacks env r (pe_callbacks e) w1 = (failed, w')"
      "n' = n\<lparr>nt_delivery_failed := b, nt_local_failed := True,
              nt_pending := AList.update i (e\<lparr>pe_callbacks := failed\<rparr>) (nt_pending n)\<rparr>"
proof (cases "pe_result e")
  case None
  then show thesis using assms Waiting by (simp add: settle_entry_def)
next
  case (Some r)
  let ?u = "(pe_event e)\<lparr>ev_delivery := r\<rparr>"
  let ?b = "nt_delivery_failed n \<or> r = D_FAILED"
  obtain ok w1 where k: "env_sink env ?u w = (ok, w1)" by fastforce
  obtain failed w2 where c: "run_callbacks env r (pe_callbacks e) w1 = (failed, w2)" by fastforce
  show thesis
  proof (cases ok)
    case False
    then show thesis using assms k Some Refused [of r ?b]
      by (simp add: settle_entry_def local_write_def note_failure)
  next
    case True
    show thesis
    proof (cases failed)
      case Nil
      then show thesis
        using assms k c True Some Completed [of r w1 ?b]
        by (simp add: settle_entry_def local_write_def note_failure)
    next
      case (Cons x xs)
      then show thesis
        using assms k c True Some Callback [of r failed w1 ?b]
        by (simp add: settle_entry_def local_write_def note_failure)
    qed
  qed
qed

section \<open>The books agree\<close>

definition awaiting :: "'cb notify \<Rightarrow> uuid set" where
  "awaiting n = {i. \<exists>e. map_of (nt_pending n) i = Some e \<and> pe_result e = None}"

text \<open>
  Queued deliveries of the worker are the pending entries without an outcome. Only after a failed thread
  start may the worker hold one that the service has already closed as failed.
\<close>

definition books_agree :: "delivery_worker \<Rightarrow> uuid set \<Rightarrow> bool" where
  "books_agree k waiting \<longleftrightarrow>
     waiting \<subseteq> set (outstanding k)
     \<and> (dw_thread k \<noteq> T_Dead \<longrightarrow> distinct (outstanding k) \<and> set (outstanding k) = waiting)"

definition notify_inv :: "'cb notify \<Rightarrow> bool" where
  "notify_inv n \<longleftrightarrow>
     worker_inv (nt_worker n) \<and> dw_hand (nt_worker n) = None \<and> dw_capacity (nt_worker n) = nt_capacity n
     \<and> (dw_stop (nt_worker n) \<longleftrightarrow> nt_closed n)
     \<and> dict_ok (nt_pending n) \<and> length (nt_pending n) \<le> nt_capacity n
     \<and> dict_ok (nt_unpersisted n) \<and> length (nt_unpersisted n) \<le> nt_capacity n
     \<and> (\<forall>i e. map_of (nt_pending n) i = Some e \<longrightarrow> ev_id (pe_event e) = i \<and> (\<forall>r. pe_result e = Some r \<longrightarrow> final_result r))
     \<and> (\<forall>i ev. map_of (nt_unpersisted n) i = Some ev \<longrightarrow> ev_id ev = i \<and> ev_delivery ev \<noteq> D_PENDING)
     \<and> books_agree (nt_worker n) (awaiting n)"

lemma awaiting_frame [simp]:
  "awaiting (n\<lparr>nt_worker := k\<rparr>) = awaiting n" "awaiting (n\<lparr>nt_unpersisted := u\<rparr>) = awaiting n"
  "awaiting (n\<lparr>nt_local_failed := b\<rparr>) = awaiting n" "awaiting (n\<lparr>nt_delivery_failed := b\<rparr>) = awaiting n"
  "awaiting (n\<lparr>nt_last_delivery := r\<rparr>) = awaiting n"
  "awaiting (n\<lparr>nt_closed := b\<rparr>) = awaiting n"
  by (simp_all add: awaiting_def)

lemma books_agree_cong:
  "\<lbrakk>books_agree k ws; outstanding k' = outstanding k; dw_thread k' = T_Dead \<longleftrightarrow> dw_thread k = T_Dead\<rbrakk>
   \<Longrightarrow> books_agree k' ws"
  by (simp add: books_agree_def)

lemma notify_inv_flags [simp]:
  "notify_inv (n\<lparr>nt_local_failed := b\<rparr>) = notify_inv n"
  "notify_inv (n\<lparr>nt_delivery_failed := b\<rparr>) = notify_inv n"
  "notify_inv (n\<lparr>nt_last_delivery := r\<rparr>) = notify_inv n"
  by (simp_all add: notify_inv_def)

lemma notify_init_inv: "notify_init configured caller c = Inr n \<Longrightarrow> notify_inv n"
  by (auto simp: notify_init_def notify_inv_def worker_inv_def worker_init_def outstanding_def in_thread_def
      in_hand_def awaiting_def books_agree_def split: if_splits)

subsection \<open>Retrying local writes\<close>

lemma notify_inv_drop_unpersisted:
  "notify_inv n \<Longrightarrow> notify_inv (n\<lparr>nt_unpersisted := AList.delete i (nt_unpersisted n)\<rparr>)"
  using dict_length_delete_le [of i "nt_unpersisted n"]
  by (auto simp: notify_inv_def dict_simps intro: order_trans)

lemma notify_inv_retain:
  assumes "notify_inv n" "retain ev n = (ok, n')" "ev_delivery ev \<noteq> D_PENDING"
  shows "notify_inv n'"
proof -
  have "length (AList.update (ev_id ev) ev (nt_unpersisted n)) \<le> nt_capacity n"
    if "map_of (nt_unpersisted n) (ev_id ev) \<noteq> None \<or> length (nt_unpersisted n) < nt_capacity n"
    using that assms(1) by (auto simp: dict_length_update notify_inv_def map_of_eq_None_iff)
  then show ?thesis
    using assms by (auto simp: retain_def notify_inv_def dict_simps split: if_splits)
qed

lemma flush_entries_frame:
  assumes "flush_entries env es (n, w) = (n', w')" "notify_inv n"
  shows "notify_inv n' \<and> nt_pending n' = nt_pending n \<and> nt_worker n' = nt_worker n \<and> nt_owner n' = nt_owner n
    \<and> nt_configured n' = nt_configured n \<and> nt_closed n' = nt_closed n \<and> nt_capacity n' = nt_capacity n"
  using assms
proof (induction es arbitrary: n w)
  case (Cons x es)
  obtain i ev where x: "x = (i, ev)" by fastforce
  obtain ok n1 w1 where l: "local_write env ev (n, w) = (ok, n1, w1)" by (metis prod_cases3)
  note e = local_write_effect [OF l]
  show ?case
  proof (cases ok)
    case True
    then have "flush_entries env es (n\<lparr>nt_unpersisted := AList.delete i (nt_unpersisted n)\<rparr>, w1) = (n', w')"
      using Cons.prems(1) x l e by simp
    from Cons.IH [OF this notify_inv_drop_unpersisted [OF Cons.prems(2)]] show ?thesis by simp
  next
    case False
    then have "flush_entries env es (n\<lparr>nt_local_failed := True\<rparr>, w1) = (n', w')"
      using Cons.prems(1) x l e by simp
    from Cons.IH [OF this] Cons.prems(2) show ?thesis by simp
  qed
qed simp

subsection \<open>Absorbing completions\<close>

lemma results_outstanding: "dw_results k = (i, r) # rs \<Longrightarrow> \<exists>xs. outstanding k = i # xs"
  by (simp add: outstanding_def)

lemma drain_round:
  assumes "dw_results k = (i, r) # rs" "worker_inv k" "dw_hand k = None"
  defines "k' \<equiv> drain_release (drain_get k)"
  shows "worker_inv k'" "dw_hand k' = None" "dw_capacity k' = dw_capacity k" "dw_stop k' = dw_stop k"
    "dw_results k' = rs" "outstanding k' = tl (outstanding k)" "dw_thread k' = dw_thread k" "dw_thread k \<noteq> T_Dead"
proof -
  have "dw_hand (drain_get k) \<noteq> None" using assms(1) by (simp add: drain_get_def)
  then show "worker_inv k'" unfolding k'_def using drain_steps_inv assms(2,3) by blast
  show "dw_hand k' = None" "dw_capacity k' = dw_capacity k" "dw_stop k' = dw_stop k"
    "dw_results k' = rs" "outstanding k' = tl (outstanding k)" "dw_thread k' = dw_thread k"
    using assms(1) by (simp_all add: k'_def drain_get_def drain_release_def outstanding_def in_thread_def)
  show "dw_thread k \<noteq> T_Dead" using assms(1,2) by (auto simp: worker_inv_def)
qed

lemma books_agree_absorb:
  assumes "books_agree k waiting" "outstanding k = i # xs" "dw_thread k \<noteq> T_Dead" "dw_thread k' = dw_thread k"
    and "outstanding k' = tl (outstanding k)"
  shows "i \<in> waiting" "books_agree k' (waiting - {i})"
  using assms by (auto simp: books_agree_def)

lemma awaiting_answered:
  "map_of (nt_pending n) i = Some e \<Longrightarrow>
   awaiting (n\<lparr>nt_worker := k, nt_pending := AList.update i (e\<lparr>pe_result := Some r\<rparr>) (nt_pending n)\<rparr>) = awaiting n - {i}"
  by (auto simp: awaiting_def dict_simps split: if_splits)

text \<open>A configuration the service's operations never change.\<close>

definition same_service :: "'cb notify \<Rightarrow> 'cb notify \<Rightarrow> bool" where
  "same_service n n' \<longleftrightarrow> nt_owner n' = nt_owner n \<and> nt_configured n' = nt_configured n \<and> nt_capacity n' = nt_capacity n
     \<and> nt_closed n' = nt_closed n"

lemma same_service_trans: "\<lbrakk>same_service a b; same_service b c\<rbrakk> \<Longrightarrow> same_service a c"
  by (simp add: same_service_def)

lemma absorb_round_inv:
  assumes "notify_inv n" "dw_results (nt_worker n) = (i, r) # rs"
  obtains e where "map_of (nt_pending n) i = Some e" "pe_result e = None"
    and "notify_inv (n\<lparr>nt_worker := drain_release (drain_get (nt_worker n)),
          nt_pending := AList.update i (e\<lparr>pe_result := Some r\<rparr>) (nt_pending n)\<rparr>)"
proof -
  let ?k = "nt_worker n"
  have k: "worker_inv ?k" "dw_hand ?k = None" using assms(1) by (simp_all add: notify_inv_def)
  note d = drain_round [OF assms(2) k]
  obtain xs where xs: "outstanding ?k = i # xs" using results_outstanding [OF assms(2)] by blast
  have "books_agree ?k (awaiting n)" using assms(1) by (simp add: notify_inv_def)
  note b = books_agree_absorb [OF this xs d(8,7,6)]
  then obtain e where e: "map_of (nt_pending n) i = Some e" "pe_result e = None" by (auto simp: awaiting_def)
  then have "i \<in> dict_keys (nt_pending n)" by (simp add: dict_get_Some_key)
  then have len: "length (AList.update i (e\<lparr>pe_result := Some r\<rparr>) (nt_pending n)) = length (nt_pending n)"
    by (simp add: dict_length_update)
  have "final_result r" using k(1) assms(2) by (simp add: worker_inv_def)
  then have "notify_inv (n\<lparr>nt_worker := drain_release (drain_get ?k),
      nt_pending := AList.update i (e\<lparr>pe_result := Some r\<rparr>) (nt_pending n)\<rparr>)"
    using assms(1) d e b(2) len
    by (simp add: notify_inv_def awaiting_answered [OF e(1)] dict_simps)
  with e show thesis by (rule that)
qed

lemma absorb_inv:
  assumes "notify_inv n"
  shows "\<exists>n'. absorb n = (Inr (), n') \<and> notify_inv n' \<and> same_service n n' \<and> nt_unpersisted n' = nt_unpersisted n
    \<and> dict_keys (nt_pending n') = dict_keys (nt_pending n) \<and> dw_results (nt_worker n') = []
    \<and> (\<forall>i e r. map_of (nt_pending n) i = Some e \<and> pe_result e = Some r \<longrightarrow> map_of (nt_pending n') i = Some e)
    \<and> (\<forall>i e. map_of (nt_pending n) i = Some e \<longrightarrow> (\<exists>r. map_of (nt_pending n') i = Some (e\<lparr>pe_result := r\<rparr>)))"
  using assms
proof (induction "length (dw_results (nt_worker n))" arbitrary: n rule: less_induct)
  case less
  show ?case
  proof (cases "dw_results (nt_worker n)")
    case Nil
    have "worker_inv (drain_get (nt_worker n))"
      using less.prems by (intro drain_steps_inv) (auto simp: notify_inv_def)
    then have "notify_inv (n\<lparr>nt_worker := drain_get (nt_worker n)\<rparr>)"
      using less.prems Nil
      by (auto simp: notify_inv_def drain_get_def outstanding_def intro: books_agree_cong)
    moreover have "\<exists>r. e = e\<lparr>pe_result := r\<rparr>" for e :: "'a pending_entry" by (rule exI [of _ "pe_result e"]) simp
    ultimately show ?thesis
      using Nil by (simp add: absorb.simps [of n] same_service_def drain_get_def)
  next
    case (Cons c rs)
    obtain i r where c: "c = (i, r)" by fastforce
    obtain e where e: "map_of (nt_pending n) i = Some e" "pe_result e = None"
      and inv: "notify_inv (n\<lparr>nt_worker := drain_release (drain_get (nt_worker n)),
          nt_pending := AList.update i (e\<lparr>pe_result := Some r\<rparr>) (nt_pending n)\<rparr>)"
      using absorb_round_inv [OF less.prems] Cons c by blast
    let ?n = "n\<lparr>nt_worker := drain_release (drain_get (nt_worker n)),
          nt_pending := AList.update i (e\<lparr>pe_result := Some r\<rparr>) (nt_pending n)\<rparr>"
    have sm: "length (dw_results (nt_worker ?n)) < length (dw_results (nt_worker n))"
      using Cons by (simp add: drain_get_def drain_release_def)
    from less.hyps [OF sm inv] obtain n' where n': "absorb ?n = (Inr (), n')" "notify_inv n'" "same_service ?n n'"
      "nt_unpersisted n' = nt_unpersisted ?n" "dict_keys (nt_pending n') = dict_keys (nt_pending ?n)"
      "dw_results (nt_worker n') = []"
      "\<forall>j f q. map_of (nt_pending ?n) j = Some f \<and> pe_result f = Some q \<longrightarrow> map_of (nt_pending n') j = Some f"
      "\<forall>j f. map_of (nt_pending ?n) j = Some f \<longrightarrow> (\<exists>q. map_of (nt_pending n') j = Some (f\<lparr>pe_result := q\<rparr>))"
      by blast
    have a: "absorb n = (Inr (), n')"
      using n'(1) Cons c e(1) by (simp add: absorb.simps [of n] Let_def)
    have "i \<in> dict_keys (nt_pending n)" using e(1) by (simp add: dict_get_Some_key)
    then have keys: "dict_keys (nt_pending n') = dict_keys (nt_pending n)" using n'(5) by (auto simp: dict_simps)
    have keep: "map_of (nt_pending n') j = Some f" if "map_of (nt_pending n) j = Some f" "pe_result f = Some q" for j f q
    proof -
      have "j \<noteq> i" using that e by auto
      then show ?thesis using n'(7) that by (simp add: dict_simps)
    qed
    have upd: "\<exists>q. map_of (nt_pending n') j = Some (f\<lparr>pe_result := q\<rparr>)" if "map_of (nt_pending n) j = Some f" for j f
    proof (cases "j = i")
      case True
      then have "f = e" using that e(1) by simp
      with n'(7) [rule_format, of i "e\<lparr>pe_result := Some r\<rparr>" r] True show ?thesis by (auto simp: dict_simps)
    next
      case False
      with n'(8) that show ?thesis by (simp add: dict_simps)
    qed
    show ?thesis
      using a n'(2,3,4,6) keys keep upd by (auto simp: same_service_def)
  qed
qed

subsection \<open>Settling outcomes\<close>

lemma settle_entry_inv:
  assumes "settle_entry env i e (n, w) = (ds, n', w')" "notify_inv n" "map_of (nt_pending n) i = Some e"
  shows "notify_inv n' \<and> same_service n n' \<and> nt_worker n' = nt_worker n \<and> nt_unpersisted n' = nt_unpersisted n
    \<and> (\<forall>j. j \<noteq> i \<longrightarrow> map_of (nt_pending n') j = map_of (nt_pending n) j)
    \<and> dict_keys (nt_pending n') \<subseteq> dict_keys (nt_pending n)"
  using assms(1)
proof (cases rule: settle_entry_cases)
  case (Completed r w1 b)
  have "awaiting (n\<lparr>nt_pending := AList.delete i (nt_pending n)\<rparr>) = awaiting n"
    using assms(3) Completed(1) by (auto simp: awaiting_def dict_simps)
  then have "notify_inv (n\<lparr>nt_pending := AList.delete i (nt_pending n)\<rparr>)"
    using assms(2) dict_length_delete_le [of i "nt_pending n"] by (auto simp: notify_inv_def dict_simps intro: order_trans)
  then show ?thesis using Completed(5) by (auto simp: same_service_def dict_simps notify_inv_def awaiting_def)
next
  case (Callback r w1 b failed)
  let ?p = "AList.update i (e\<lparr>pe_callbacks := failed\<rparr>) (nt_pending n)"
  have "awaiting (n\<lparr>nt_pending := ?p\<rparr>) = awaiting n"
    using assms(3) Callback(1) by (auto simp: awaiting_def dict_simps split: if_splits)
  moreover have "length ?p = length (nt_pending n)"
    using dict_get_Some_key [OF assms(3)] by (simp add: dict_length_update)
  ultimately have "notify_inv (n\<lparr>nt_pending := ?p\<rparr>)"
    using assms(2,3) by (simp add: notify_inv_def dict_simps)
  then show ?thesis using Callback(6) dict_get_Some_key [OF assms(3)]
    by (auto simp: same_service_def dict_simps notify_inv_def awaiting_def)
qed (use assms(2) in \<open>auto simp: same_service_def\<close>)

lemma settle_inv:
  assumes "settle env es (n, w) = (ds, n', w')" "notify_inv n" "dict_ok es"
    and "\<And>i e. (i, e) \<in> set es \<Longrightarrow> map_of (nt_pending n) i = Some e"
  shows "notify_inv n' \<and> same_service n n' \<and> nt_worker n' = nt_worker n \<and> nt_unpersisted n' = nt_unpersisted n
    \<and> (\<forall>j. j \<notin> dict_keys es \<longrightarrow> map_of (nt_pending n') j = map_of (nt_pending n) j)
    \<and> dict_keys (nt_pending n') \<subseteq> dict_keys (nt_pending n)"
  using assms
proof (induction es arbitrary: n w ds)
  case (Cons x es)
  obtain i e where x: "x = (i, e)" by fastforce
  obtain d1 n1 w1 where s1: "settle_entry env i e (n, w) = (d1, n1, w1)" by (metis prod_cases3)
  obtain d2 where s2: "settle env es (n1, w1) = (d2, n', w')"
    using Cons.prems(1) s1 x by (auto split: prod.splits)
  have "map_of (nt_pending n) i = Some e" using Cons.prems(4) x by simp
  note e1 = settle_entry_inv [OF s1 Cons.prems(2) this]
  have "map_of (nt_pending n1) j = Some f" if "(j, f) \<in> set es" for j f
  proof -
    have "j \<noteq> i" using that Cons.prems(3) x by force
    then show ?thesis using e1 Cons.prems(4) that by simp
  qed
  from Cons.IH [OF s2 _ _ this] e1 Cons.prems(3) x show ?case
    by (simp add: same_service_def subset_trans [of _ "dict_keys (nt_pending n1)"])
qed (simp add: same_service_def)

section \<open>The caller's durable store\<close>

text \<open>
  The sink ``must durably upsert by event_id'': a write that returns has stored the event under its identifier; one that
  raised has stored it or left the row alone. Completion callbacks do not touch the rows.
\<close>

definition upsert_sink :: "('w, 'cb) notify_env \<Rightarrow> ('w \<Rightarrow> uuid \<Rightarrow> notification_event option) \<Rightarrow> bool" where
  "upsert_sink env stored \<longleftrightarrow>
     (\<forall>ev w w'. env_sink env ev w = (True, w') \<longrightarrow> stored w' = (stored w)(ev_id ev \<mapsto> ev))
     \<and> (\<forall>ev w w'. env_sink env ev w = (False, w') \<longrightarrow>
          stored w' = stored w \<or> stored w' = (stored w)(ev_id ev \<mapsto> ev))
     \<and> (\<forall>c r w ok w'. env_call env c r w = (ok, w') \<longrightarrow> stored w' = stored w)"

definition final_row :: "('w \<Rightarrow> uuid \<Rightarrow> notification_event option) \<Rightarrow> 'w \<Rightarrow> uuid \<Rightarrow> bool" where
  "final_row stored w i \<longleftrightarrow> (\<exists>ev. stored w i = Some ev \<and> ev_delivery ev \<noteq> D_PENDING)"

lemma sink_rows:
  "\<lbrakk>upsert_sink env stored; env_sink env ev w = (ok, w')\<rbrakk>
   \<Longrightarrow> stored w' = stored w \<or> stored w' = (stored w)(ev_id ev \<mapsto> ev)"
  by (cases ok) (simp_all add: upsert_sink_def)

lemma sink_other_row:
  "\<lbrakk>upsert_sink env stored; env_sink env ev w = (ok, w'); i \<noteq> ev_id ev\<rbrakk> \<Longrightarrow> stored w' i = stored w i"
  using sink_rows by fastforce

lemma sink_final_row:
  "\<lbrakk>upsert_sink env stored; env_sink env ev w = (ok, w'); ev_delivery ev \<noteq> D_PENDING; final_row stored w i\<rbrakk>
   \<Longrightarrow> final_row stored w' i"
  using sink_rows [of env stored ev w ok w'] by (auto simp: final_row_def)

lemma sink_stored: "\<lbrakk>upsert_sink env stored; env_sink env ev w = (True, w')\<rbrakk> \<Longrightarrow> stored w' (ev_id ev) = Some ev"
  by (simp add: upsert_sink_def)

lemma callbacks_stored:
  assumes "upsert_sink env stored" "run_callbacks env r cs w = (failed, w')"
  shows "stored w' = stored w"
  using assms(2)
proof (induction cs arbitrary: w failed)
  case (Cons c cs)
  obtain ok w1 where c: "env_call env c r w = (ok, w1)" by fastforce
  obtain f2 where f2: "run_callbacks env r cs w1 = (f2, w')" using Cons.prems c by (auto split: prod.splits)
  have "stored w1 = stored w" using assms(1) c by (simp add: upsert_sink_def)
  then show ?case using Cons.IH [OF f2] by simp
qed simp

lemma settle_entry_stored:
  assumes "upsert_sink env stored" "settle_entry env i e (n, w) = (ds, n', w')" "notify_inv n"
    and "map_of (nt_pending n) i = Some e"
  shows "\<forall>j. j \<noteq> i \<longrightarrow> stored w' j = stored w j"
    and "map_of (nt_pending n') i \<noteq> None
      \<or> (\<exists>r. pe_result e = Some r \<and> final_result r \<and> stored w' i = Some ((pe_event e)\<lparr>ev_delivery := r\<rparr>))"
proof -
  have idn: "ev_id (pe_event e) = i" and fin: "\<And>r. pe_result e = Some r \<Longrightarrow> final_result r"
    using assms(3,4) unfolding notify_inv_def by blast+
  from assms(2) have "(\<forall>j. j \<noteq> i \<longrightarrow> stored w' j = stored w j) \<and> (map_of (nt_pending n') i \<noteq> None
      \<or> (\<exists>r. pe_result e = Some r \<and> final_result r \<and> stored w' i = Some ((pe_event e)\<lparr>ev_delivery := r\<rparr>)))"
  proof (cases rule: settle_entry_cases)
    case (Refused r b)
    then show ?thesis using sink_other_row [OF assms(1) Refused(3)] assms(4) idn by auto
  next
    case (Completed r w1 b)
    then show ?thesis
      using sink_other_row [OF assms(1) Completed(3)] callbacks_stored [OF assms(1) Completed(4)]
        sink_stored [OF assms(1) Completed(3)] fin idn by auto
  next
    case (Callback r w1 b failed)
    then show ?thesis
      using sink_other_row [OF assms(1) Callback(4)] callbacks_stored [OF assms(1) Callback(5)] idn
      by (auto simp: dict_simps)
  qed (use assms(4) in auto)
  then show "\<forall>j. j \<noteq> i \<longrightarrow> stored w' j = stored w j"
    and "map_of (nt_pending n') i \<noteq> None
      \<or> (\<exists>r. pe_result e = Some r \<and> final_result r \<and> stored w' i = Some ((pe_event e)\<lparr>ev_delivery := r\<rparr>))" by blast+
qed

lemma settle_stored:
  assumes "upsert_sink env stored" "settle env es (n, w) = (ds, n', w')" "notify_inv n" "dict_ok es"
    and "\<And>i e. (i, e) \<in> set es \<Longrightarrow> map_of (nt_pending n) i = Some e"
  shows "(\<forall>j. j \<notin> dict_keys es \<longrightarrow> stored w' j = stored w j)
    \<and> (\<forall>(i, e) \<in> set es. map_of (nt_pending n') i \<noteq> None
        \<or> (\<exists>r. pe_result e = Some r \<and> final_result r \<and> stored w' i = Some ((pe_event e)\<lparr>ev_delivery := r\<rparr>)))"
  using assms(2-)
proof (induction es arbitrary: n w ds)
  case (Cons x es)
  obtain i e where x: "x = (i, e)" by fastforce
  obtain d1 n1 w1 where s1: "settle_entry env i e (n, w) = (d1, n1, w1)" by (metis prod_cases3)
  obtain d2 where s2: "settle env es (n1, w1) = (d2, n', w')"
    using Cons.prems(1) s1 x by (auto split: prod.splits)
  have g: "map_of (nt_pending n) i = Some e" and ni: "i \<notin> dict_keys es" and dk: "dict_ok es"
    using Cons.prems(3,4) x by (auto simp: image_iff)
  note e1 = settle_entry_inv [OF s1 Cons.prems(2) g]
  note t1 = settle_entry_stored [OF assms(1) s1 Cons.prems(2) g]
  have h: "map_of (nt_pending n1) j = Some f" if "(j, f) \<in> set es" for j f
  proof -
    have "j \<noteq> i" using that ni by force
    then show ?thesis using e1 Cons.prems(4) that by simp
  qed
  have inv1: "notify_inv n1" using e1 by simp
  have keep: "map_of (nt_pending n') i = map_of (nt_pending n1) i"
    using settle_inv [OF s2 inv1 dk h] ni by simp
  note ih = Cons.IH [OF s2 inv1 dk h]
  have "stored w' i = stored w1 i" using ih ni by blast
  then show ?case using ih t1 keep x by auto
qed simp

lemma flush_entries_rows:
  assumes "upsert_sink env stored" "flush_entries env es (n, w) = (n', w')"
    and "\<And>j ev. (j, ev) \<in> set es \<Longrightarrow> ev_delivery ev \<noteq> D_PENDING" "final_row stored w i"
  shows "final_row stored w' i"
  using assms(2-)
proof (induction es arbitrary: n w)
  case (Cons x es)
  obtain j ev where x: "x = (j, ev)" by fastforce
  obtain ok n1 w1 where l: "local_write env ev (n, w) = (ok, n1, w1)" by (metis prod_cases3)
  have "ev_delivery ev \<noteq> D_PENDING" by (rule Cons.prems(2) [of j]) (simp add: x)
  with local_write_effect(1) [OF l] have "final_row stored w1 i"
    using sink_final_row [OF assms(1)] Cons.prems(3) by blast
  moreover obtain n2 where "flush_entries env es (n2, w1) = (n', w')"
    using Cons.prems(1) x l by (cases ok) auto
  ultimately show ?case using Cons.IH Cons.prems(2) by (metis list.set_intros(2))
qed simp

definition still_known :: "('w \<Rightarrow> uuid \<Rightarrow> notification_event option) \<Rightarrow> 'cb notify \<times> 'w \<Rightarrow> uuid \<Rightarrow> bool" where
  "still_known stored s i \<longleftrightarrow> map_of (nt_pending (fst s)) i \<noteq> None \<or> final_row stored (snd s) i"

lemma poll_effect:
  assumes "notify_inv n"
  obtains ds n' w' where "poll env (nt_owner n) (n, w) = (Inr ds, n', w')" "notify_inv n'" "same_service n n'"
    and "\<And>stored i. \<lbrakk>upsert_sink env stored; still_known stored (n, w) i\<rbrakk> \<Longrightarrow> still_known stored (n', w') i"
    and "\<And>stored i e r. \<lbrakk>upsert_sink env stored; map_of (nt_pending n) i = Some e; pe_result e = Some r\<rbrakk>
      \<Longrightarrow> map_of (nt_pending n') i \<noteq> None \<or> stored w' i = Some ((pe_event e)\<lparr>ev_delivery := r\<rparr>)"
    and "dict_keys (nt_pending n') \<subseteq> dict_keys (nt_pending n)"
proof -
  obtain n1 w1 where f: "flush_unpersisted env (n, w) = (n1, w1)" by fastforce
  then have f': "flush_entries env (nt_unpersisted n) (n, w) = (n1, w1)" by (simp add: flush_unpersisted_def)
  note fe = flush_entries_frame [OF f' assms]
  then have inv1: "notify_inv n1" by simp
  from absorb_inv [OF inv1] obtain n2 where a: "absorb n1 = (Inr (), n2)" "notify_inv n2" "same_service n1 n2"
    "dict_keys (nt_pending n2) = dict_keys (nt_pending n1)"
    "\<And>i e r. map_of (nt_pending n1) i = Some e \<Longrightarrow> pe_result e = Some r \<Longrightarrow> map_of (nt_pending n2) i = Some e"
    by blast
  obtain ds n' w' where s: "settle env (nt_pending n2) (n2, w1) = (ds, n', w')" by (metis prod_cases3)
  have ok2: "dict_ok (nt_pending n2)" using a(2) by (simp add: notify_inv_def)
  have g: "\<And>i e. (i, e) \<in> set (nt_pending n2) \<Longrightarrow> map_of (nt_pending n2) i = Some e" using ok2 by simp
  note se = settle_inv [OF s a(2) ok2 g]
  have p: "poll env (nt_owner n) (n, w) = (Inr ds, n', w')" using f a(1) s by (simp add: poll_def)
  have cfg: "same_service n n'" using fe a(3) se by (simp add: same_service_def)
  have keys: "dict_keys (nt_pending n') \<subseteq> dict_keys (nt_pending n)" using se a(4) fe by simp
  have acc: "still_known stored (n', w') i" if up: "upsert_sink env stored" and ac: "still_known stored (n, w) i" for stored i
  proof (cases "i \<in> dict_keys (nt_pending n2)")
    case True
    then obtain e where "(i, e) \<in> set (nt_pending n2)" by auto
    with settle_stored [OF up s a(2) ok2 g] show ?thesis
      by (fastforce simp: still_known_def final_row_def final_result_def)
  next
    case False
    then have "map_of (nt_pending n) i = None" using a(4) fe by (simp add: dict_get_None)
    then have "final_row stored w i" using ac by (simp add: still_known_def)
    then have "final_row stored w1 i"
      by (rule flush_entries_rows [OF up f', rotated])
        (use assms in \<open>auto simp: notify_inv_def\<close>)
    then show ?thesis
      using settle_stored [OF up s a(2) ok2 g] False by (simp add: still_known_def final_row_def)
  qed
  have out: "map_of (nt_pending n') i \<noteq> None \<or> stored w' i = Some ((pe_event e)\<lparr>ev_delivery := r\<rparr>)"
    if "upsert_sink env stored" "map_of (nt_pending n) i = Some e" "pe_result e = Some r" for stored i e r
  proof -
    have "map_of (nt_pending n2) i = Some e" using a(5) fe that by simp
    then have "(i, e) \<in> set (nt_pending n2)" by (rule dict_get_Some_in)
    with settle_stored [OF that(1) s a(2) ok2 g] that(3) show ?thesis by fastforce
  qed
  have inv': "notify_inv n'" using se by simp
  show thesis by (rule that) (rule p inv' cfg keys | erule (1) acc | erule (2) out)+
qed

section \<open>Submitting\<close>

lemma submit_outstanding:
  assumes "submit ok i m k = (r, k')" "worker_inv k"
  shows "(r = Inr () \<longrightarrow> outstanding k' = outstanding k @ [i] \<and> (dw_thread k' = T_Dead \<longleftrightarrow> dw_thread k = T_Dead))
    \<and> (r \<noteq> Inr () \<longrightarrow> k' = k \<or> dw_thread k' = T_Dead \<and> outstanding k = [])"
  using assms(1)
proof (cases rule: submit_cases)
  case StartFailed
  then show ?thesis using assms(2) by (simp add: worker_inv_def)
qed (auto simp: outstanding_def in_thread_def)

lemma awaiting_cong: "nt_pending n' = nt_pending n \<Longrightarrow> awaiting n' = awaiting n"
  by (simp add: awaiting_def)

lemma notify_inv_cong:
  "\<lbrakk>nt_worker n' = nt_worker n; nt_pending n' = nt_pending n; nt_unpersisted n' = nt_unpersisted n;
    nt_capacity n' = nt_capacity n; nt_closed n' = nt_closed n; notify_inv n\<rbrakk> \<Longrightarrow> notify_inv n'"
  using awaiting_cong [of n' n] by (simp add: notify_inv_def)

definition new_entry :: "notification_event \<Rightarrow> 'cb option \<Rightarrow> 'cb pending_entry" where
  "new_entry event on_complete =
     \<lparr>pe_event = event, pe_callbacks = (case on_complete of None \<Rightarrow> [] | Some c \<Rightarrow> [c]), pe_result = None\<rparr>"

lemma new_entry_simps [simp]: "pe_event (new_entry event c) = event" "pe_result (new_entry event c) = None"
  by (simp_all add: new_entry_def)

lemma awaiting_new:
  "map_of (nt_pending n) i = None \<Longrightarrow> awaiting (n\<lparr>nt_pending := AList.update i e (nt_pending n)\<rparr>)
     = (if pe_result e = None then insert i (awaiting n) else awaiting n)"
  by (auto simp: awaiting_def dict_simps split: if_splits)

lemma notify_inv_add_pending:
  assumes "notify_inv n" "map_of (nt_pending n) i = None" "length (nt_pending n) < nt_capacity n"
    and "ev_id (pe_event e) = i" "\<And>r. pe_result e = Some r \<Longrightarrow> final_result r"
    and "worker_inv k" "dw_hand k = None" "dw_capacity k = nt_capacity n" "dw_stop k = nt_closed n"
    and "books_agree k (if pe_result e = None then insert i (awaiting n) else awaiting n)"
  shows "notify_inv (n\<lparr>nt_worker := k, nt_pending := AList.update i e (nt_pending n)\<rparr>)"
proof -
  have "length (AList.update i e (nt_pending n)) \<le> nt_capacity n"
    using assms(3) dict_length_update_le [of i e "nt_pending n"] by linarith
  moreover have "awaiting (n\<lparr>nt_worker := k, nt_pending := AList.update i e (nt_pending n)\<rparr>)
      = (if pe_result e = None then insert i (awaiting n) else awaiting n)"
    using awaiting_new [OF assms(2)] by (simp add: awaiting_def)
  ultimately show ?thesis using assms unfolding notify_inv_def by (simp add: dict_simps)
qed

lemma submit_books:
  assumes "notify_inv n" "map_of (nt_pending n) i = None" "submit ok i m (nt_worker n) = (r, k)"
  shows "books_agree k (if r = Inr () then insert i (awaiting n) else awaiting n)"
proof -
  have wi: "worker_inv (nt_worker n)" and b: "books_agree (nt_worker n) (awaiting n)"
    using assms(1) by (simp_all add: notify_inv_def)
  have "i \<notin> awaiting n" using assms(2) by (simp add: awaiting_def)
  with b show ?thesis
    using submit_outstanding [OF assms(3) wi] by (auto simp: books_agree_def)
qed

lemma submit_pending_effect:
  assumes inv: "notify_inv n" and new: "map_of (nt_pending n) (ev_id ev) = None"
    and room: "length (nt_pending n) < nt_capacity n"
    and run: "submit_pending env (nt_owner n) ev m c (n, w) = (r, n', w')"
  obtains (Queued) "r = Inr D_PENDING" "notify_inv n'" "same_service n n'" "w' = w"
      "nt_pending n' = AList.update (ev_id ev) (new_entry ev c) (nt_pending n)"
  | (Failed) "r = Inr D_FAILED" "notify_inv n'" "same_service n n'"
      "\<And>stored j. \<lbrakk>upsert_sink env stored; still_known stored (n, w) j \<or> j = ev_id ev\<rbrakk> \<Longrightarrow> still_known stored (n', w') j"
      "\<And>stored. upsert_sink env stored \<Longrightarrow>
         map_of (nt_pending n') (ev_id ev) \<noteq> None \<or> stored w' (ev_id ev) = Some (ev\<lparr>ev_delivery := D_FAILED\<rparr>)"
proof -
  let ?i = "ev_id ev"
  let ?e = "new_entry ev c"
  obtain q k where k: "submit (env_start env w) ?i m (nt_worker n) = (q, k)" by fastforce
  have wi: "worker_inv (nt_worker n)" using inv by (simp add: notify_inv_def)
  have kp: "worker_inv k" "dw_hand k = None" "dw_capacity k = nt_capacity n" "dw_stop k = nt_closed n"
    using submit_inv [OF wi k] submit_frame [OF k] inv by (simp_all add: notify_inv_def)
  note b = submit_books [OF inv new k]
  show thesis
  proof (cases q)
    case (Inr u)
    then have q: "q = Inr ()" by simp
    have "notify_inv (n\<lparr>nt_worker := k, nt_pending := AList.update ?i ?e (nt_pending n)\<rparr>)"
      using b q by (intro notify_inv_add_pending [OF inv new room]) (simp_all add: kp)
    moreover have "r = Inr D_PENDING \<and> w' = w
        \<and> n' = n\<lparr>nt_last_delivery := D_PENDING, nt_pending := AList.update ?i ?e (nt_pending n), nt_worker := k\<rparr>"
      using run k q by (auto simp add: submit_pending_def Let_def new_entry_def)
    ultimately show thesis
      by (intro Queued) (auto simp: same_service_def elim!: notify_inv_cong [rotated -1])
  next
    case (Inl x)
    let ?f = "?e\<lparr>pe_result := Some D_FAILED\<rparr>"
    let ?n = "n\<lparr>nt_last_delivery := D_PENDING, nt_worker := k, nt_delivery_failed := True,
      nt_pending := AList.update ?i ?f (nt_pending n)\<rparr>"
    have "notify_inv (n\<lparr>nt_worker := k, nt_pending := AList.update ?i ?f (nt_pending n)\<rparr>)"
      using b Inl by (intro notify_inv_add_pending [OF inv new room]) (simp_all add: kp final_result_def)
    then have inv2: "notify_inv ?n" by (rule notify_inv_cong [rotated -1]) simp_all
    have upd: "AList.update ?i ?f (AList.update ?i ?e (nt_pending n)) = AList.update ?i ?f (nt_pending n)"
      by simp
    obtain ds n2 w2 where p: "poll env (nt_owner ?n) (?n, w) = (Inr ds, n2, w2)" "notify_inv n2" "same_service ?n n2"
      and acc: "\<And>stored i. \<lbrakk>upsert_sink env stored; still_known stored (?n, w) i\<rbrakk> \<Longrightarrow> still_known stored (n2, w2) i"
      and out: "\<And>stored i e r. \<lbrakk>upsert_sink env stored; map_of (nt_pending ?n) i = Some e; pe_result e = Some r\<rbrakk>
        \<Longrightarrow> map_of (nt_pending n2) i \<noteq> None \<or> stored w2 i = Some ((pe_event e)\<lparr>ev_delivery := r\<rparr>)"
      by (rule poll_effect [OF inv2, of env w]) blast
    have res: "r = Inr D_FAILED \<and> n' = n2 \<and> w' = w2"
      using run k Inl p(1) upd by (simp add: submit_pending_def Let_def new_entry_def)
    have "still_known stored (n', w') j" if "upsert_sink env stored" "still_known stored (n, w) j \<or> j = ?i" for stored j
    proof -
      have "still_known stored (?n, w) j" using that(2) by (auto simp: still_known_def dict_simps)
      with acc [OF that(1)] res show ?thesis by simp
    qed
    moreover have "map_of (nt_pending n') ?i \<noteq> None \<or> stored w' ?i = Some (ev\<lparr>ev_delivery := D_FAILED\<rparr>)"
      if "upsert_sink env stored" for stored
      using out [OF that, of ?i ?f D_FAILED] res by (simp add: dict_simps)
    ultimately show thesis using Failed res p(2,3) by (simp add: same_service_def)
  qed
qed

lemma notify_inv_callbacks:
  assumes "notify_inv n" "map_of (nt_pending n) i = Some e"
  shows "notify_inv (n\<lparr>nt_pending := AList.update i (e\<lparr>pe_callbacks := cs\<rparr>) (nt_pending n)\<rparr>)"
proof -
  let ?p = "AList.update i (e\<lparr>pe_callbacks := cs\<rparr>) (nt_pending n)"
  have "awaiting (n\<lparr>nt_pending := ?p\<rparr>) = awaiting n"
    using assms(2) by (auto simp: awaiting_def dict_simps split: if_splits)
  moreover have "length ?p = length (nt_pending n)"
    using dict_get_Some_key [OF assms(2)] by (simp add: dict_length_update)
  ultimately show ?thesis using assms by (simp add: notify_inv_def dict_simps)
qed

text \<open>
  How an event stands after a call: in delivery, retained for another local write, or stored with a final outcome.
\<close>

definition kept :: "('w \<Rightarrow> uuid \<Rightarrow> notification_event option) \<Rightarrow> 'cb notify \<times> 'w \<Rightarrow> notification_event \<Rightarrow> bool" where
  "kept stored s ev \<longleftrightarrow>
     map_of (nt_pending (fst s)) (ev_id ev) \<noteq> None \<or> map_of (nt_unpersisted (fst s)) (ev_id ev) \<noteq> None
     \<or> (\<exists>x. stored (snd s) (ev_id ev) = Some x \<and> same_event x ev \<and> ev_delivery x \<noteq> D_PENDING)"

abbreviation has_room :: "uuid \<Rightarrow> 'cb notify \<Rightarrow> bool" where
  "has_room i n \<equiv> can_accept (nt_owner n) i n = Inr True"

lemma has_room_cases:
  "has_room i n \<longleftrightarrow> map_of (nt_pending n) i \<noteq> None \<or> map_of (nt_unpersisted n) i \<noteq> None
     \<or> (if nt_configured n then \<not> nt_closed n \<and> length (nt_pending n) < nt_capacity n
        else length (nt_unpersisted n) < nt_capacity n)"
  by (simp add: can_accept_def)

lemma retain_effect:
  assumes "retain ev n = (ok, n')"
  shows "same_service n n'" "nt_pending n' = nt_pending n"
    "map_of (nt_unpersisted n) (ev_id ev) \<noteq> None \<or> length (nt_unpersisted n) < nt_capacity n \<Longrightarrow> ok" "ok \<Longrightarrow> map_of (nt_unpersisted n') (ev_id ev) \<noteq> None"
  using assms by (auto simp: retain_def same_service_def dict_simps split: if_splits)

text \<open>What every call of \<open>_enqueue\<close> achieves.\<close>

definition enqueued :: "('w, 'cb) notify_env \<Rightarrow> ('w \<Rightarrow> uuid \<Rightarrow> notification_event option) \<Rightarrow> notification_event \<Rightarrow> bool \<Rightarrow> 'cb notify \<times> 'w
    \<Rightarrow> (notify_error, delivery, 'cb notify \<times> 'w) outcome \<Rightarrow> bool" where
  "enqueued env stored ev keep s o' \<longleftrightarrow>
     (\<exists>d. fst o' = Inr d \<and> (d = D_PENDING \<longrightarrow> map_of (nt_pending (fst (snd o'))) (ev_id ev) \<noteq> None))
     \<and> notify_inv (fst (snd o')) \<and> same_service (fst s) (fst (snd o'))
     \<and> (\<forall>i. upsert_sink env stored \<and> still_known stored s i \<longrightarrow> still_known stored (snd o') i)
     \<and> (upsert_sink env stored \<and> keep \<and> has_room (ev_id ev) (fst s) \<longrightarrow> kept stored (snd o') ev)"

lemma enqueue_coalesced:
  assumes inv: "notify_inv n" and e: "map_of (nt_pending n) (ev_id ev) = Some e"
  shows "enqueued env stored ev keep (n, w) (enqueue env caller ev m c keep (n, w))"
proof (cases "\<not> same_event ev (pe_event e) \<or> c = None")
  case True
  then have "enqueue env caller ev m c keep (n, w) = (Inr D_FAILED, n\<lparr>nt_delivery_failed := True\<rparr>, w)
      \<or> enqueue env caller ev m c keep (n, w) = (Inr D_PENDING, n, w)"
    using e by (auto simp: enqueue_def)
  then show ?thesis
    using inv e by (elim disjE) (simp_all add: enqueued_def same_service_def still_known_def kept_def)
next
  case False
  then obtain x where "c = Some x" "same_event ev (pe_event e)" by auto
  then have "enqueue env caller ev m c keep (n, w) = (Inr D_PENDING, n\<lparr>nt_pending :=
      AList.update (ev_id ev) (e\<lparr>pe_callbacks := pe_callbacks e @ [x]\<rparr>) (nt_pending n)\<rparr>, w)"
    using e by (simp add: enqueue_def)
  then show ?thesis
    using notify_inv_callbacks [OF inv e]
    by (simp add: enqueued_def same_service_def still_known_def kept_def dict_simps)
qed

lemma enqueue_submitted:
  assumes inv: "notify_inv n" and new: "map_of (nt_pending n) (ev_id ev) = None"
    and q: "enqueue_result n = D_PENDING"
  shows "enqueued env stored ev keep (n, w) (enqueue env (nt_owner n) ev m c keep (n, w))"
proof -
  let ?e = "ev\<lparr>ev_delivery := D_PENDING\<rparr>"
  obtain ok n1 w1 where l: "local_write env ?e (n, w) = (ok, n1, w1)" by (metis prod_cases3)
  note le = local_write_effect [OF l]
  have inv1: "notify_inv n1" and c1: "same_service n n1" and p1: "nt_pending n1 = nt_pending n"
    using le(2) inv by (auto simp: same_service_def)
  obtain r n' w' where run: "submit_pending env (nt_owner n1) ?e m c (n1, w1) = (r, n', w')" by (metis prod_cases3)
  have eq: "enqueue env (nt_owner n) ev m c keep (n, w) = (r, n', w')"
    using new l q c1 run by (simp add: enqueue_def same_service_def)
  have room: "length (nt_pending n1) < nt_capacity n1"
    using q p1 c1 by (simp add: enqueue_result_def same_service_def split: if_splits)
  have acc1: "still_known stored (n1, w1) i \<or> i = ev_id ?e" if up: "upsert_sink env stored" and "still_known stored (n, w) i" for i
    using that(2) p1 sink_other_row [OF up le(1), of i] by (auto simp: still_known_def final_row_def)
  have "map_of (nt_pending n1) (ev_id ?e) = None" using new p1 by simp
  from inv1 this room run show ?thesis
  proof (cases rule: submit_pending_effect)
    case Queued
    have "still_known stored (n', w') i" if up: "upsert_sink env stored" and "still_known stored (n, w) i" for i
      using acc1 [OF up that(2)] Queued(4,5) by (auto simp: still_known_def dict_simps)
    then show ?thesis
      using eq Queued same_service_trans [OF c1] by (simp add: enqueued_def kept_def dict_simps)
  next
    case Failed
    have "still_known stored (n', w') i" if up: "upsert_sink env stored" and "still_known stored (n, w) i" for i
      using Failed(4) [OF up] acc1 [OF up that(2)] by blast
    moreover have "kept stored (n', w') ev" if up: "upsert_sink env stored"
      using Failed(5) [OF up] by (auto simp: kept_def same_event_def)
    ultimately show ?thesis
      using eq Failed(1,2) same_service_trans [OF c1 Failed(3)] by (simp add: enqueued_def)
  qed
qed

lemma enqueue_unsent:
  assumes inv: "notify_inv n" and new: "map_of (nt_pending n) (ev_id ev) = None"
    and q: "enqueue_result n \<noteq> D_PENDING"
  shows "enqueued env stored ev keep (n, w) (enqueue env caller ev m c keep (n, w))"
proof -
  let ?q = "enqueue_result n"
  let ?e = "ev\<lparr>ev_delivery := ?q\<rparr>"
  let ?n = "n\<lparr>nt_delivery_failed := nt_delivery_failed n \<or> ?q = D_FAILED\<rparr>"
  obtain ok n1 w1 where l: "local_write env ?e (?n, w) = (ok, n1, w1)" by (metis prod_cases3)
  note le = local_write_effect [OF l]
  have inv1: "notify_inv n1" and c1: "same_service n n1" and p1: "nt_pending n1 = nt_pending n"
    and u1: "nt_unpersisted n1 = nt_unpersisted n" using le(2) inv by (auto simp: same_service_def)
  have acc1: "still_known stored (n1, w1) i" if up: "upsert_sink env stored" and "still_known stored (n, w) i" for i
    using that(2) p1 q sink_final_row [OF up le(1)] by (auto simp: still_known_def)
  show ?thesis
  proof (cases ok)
    case True
    then have eq: "enqueue env caller ev m c keep (n, w) = (Inr ?q, n1\<lparr>nt_last_delivery := ?q\<rparr>, w1)"
      using new l q by (simp add: enqueue_def note_failure Let_def)
    have "upsert_sink env stored \<Longrightarrow> stored w1 (ev_id ev) = Some ?e" using sink_stored le(1) True by fastforce
    then show ?thesis unfolding eq
      using inv1 c1 acc1 q by (simp add: enqueued_def same_service_def still_known_def kept_def same_event_def)
  next
    case False
    obtain rok n2 where rt: "retain ?e n1 = (rok, n2)" by fastforce
    note re = retain_effect [OF rt]
    let ?m = "(if keep then n2 else n1)\<lparr>nt_last_delivery := D_FAILED\<rparr>"
    have eq: "enqueue env caller ev m c keep (n, w) = (Inr D_FAILED, ?m, w1)"
      using new l q False rt by (simp add: enqueue_def note_failure Let_def)
    have "kept stored (?m, w1) ev" if "keep" "has_room (ev_id ev) n"
    proof -
      have "map_of (nt_unpersisted n) (ev_id ev) \<noteq> None \<or> \<not> nt_configured n \<and> length (nt_unpersisted n) < nt_capacity n"
        using that(2) new q unfolding has_room_cases by (auto simp: enqueue_result_def split: if_splits)
      then have "map_of (nt_unpersisted n1) (ev_id ?e) \<noteq> None \<or> length (nt_unpersisted n1) < nt_capacity n1"
        using u1 c1 by (auto simp: same_service_def)
      then have "map_of (nt_unpersisted n2) (ev_id ev) \<noteq> None" using re(3,4) by simp
      then show ?thesis using that(1) by (simp add: kept_def)
    qed
    moreover have "notify_inv ?m" using notify_inv_retain [OF inv1 rt] q inv1 by simp
    ultimately show ?thesis unfolding eq
      using acc1 re(1,2) c1 by (auto simp: enqueued_def same_service_def still_known_def)
  qed
qed

lemma enqueue_effect:
  assumes "notify_inv n"
  shows "enqueued env stored ev keep (n, w) (enqueue env (nt_owner n) ev m c keep (n, w))"
  by (cases "map_of (nt_pending n) (ev_id ev)"; cases "enqueue_result n = D_PENDING")
    (simp_all add: enqueue_coalesced enqueue_submitted enqueue_unsent assms)

lemma record_prior:
  assumes inv: "notify_inv n" and p: "map_of (nt_unpersisted n) (ev_id ev) = Some prior"
  shows "enqueued env stored ev keep (n, w)
    (if \<not> same_event ev prior then (Inr D_FAILED, n\<lparr>nt_delivery_failed := True\<rparr>, w)
     else case local_write env prior (n, w) of
            (False, s1) \<Rightarrow> (Inr D_FAILED, s1)
          | (True, n1, w1) \<Rightarrow>
              (Inr (ev_delivery prior), n1\<lparr>nt_unpersisted := AList.delete (ev_id ev) (nt_unpersisted n1)\<rparr>, w1))"
proof -
  have pr: "ev_id prior = ev_id ev" "ev_delivery prior \<noteq> D_PENDING" using inv p unfolding notify_inv_def by blast+
  obtain ok n1 w1 where l: "local_write env prior (n, w) = (ok, n1, w1)" by (metis prod_cases3)
  note le = local_write_effect [OF l]
  have acc: "still_known stored (n, w1) i" if "upsert_sink env stored" "still_known stored (n, w) i" for i
    using that sink_final_row [OF that(1) le(1) pr(2)] by (auto simp: still_known_def)
  have st: "upsert_sink env stored \<Longrightarrow> ok \<Longrightarrow> stored w1 (ev_id ev) = Some prior"
    using sink_stored [of env stored prior w w1] le(1) pr(1) by simp
  show ?thesis
  proof (cases "same_event ev prior \<and> ok")
    case True
    then show ?thesis
      using l le acc st pr notify_inv_drop_unpersisted [OF inv]
      by (simp add: enqueued_def same_service_def still_known_def kept_def same_event_def)
  next
    case False
    then consider "\<not> same_event ev prior" | "same_event ev prior" "\<not> ok" by blast
    then show ?thesis
      using l le acc inv p by cases (simp_all add: enqueued_def same_service_def still_known_def kept_def)
  qed
qed

lemma record_local:
  assumes inv: "notify_inv n" and d: "ev_delivery ev = D_SUPPRESSED"
  shows "enqueued env stored ev False (n, w)
    (case local_write env ev (n, w) of
       (True, s1) \<Rightarrow> (Inr D_SUPPRESSED, s1)
     | (False, n1, w1) \<Rightarrow> (case retain ev n1 of (True, n2) \<Rightarrow> (Inr D_SUPPRESSED, n2, w1) | (False, n2) \<Rightarrow> (Inr D_FAILED, n2, w1)))"
proof -
  obtain ok n1 w1 where l: "local_write env ev (n, w) = (ok, n1, w1)" by (metis prod_cases3)
  note le = local_write_effect [OF l]
  obtain rok n2 where rt: "retain ev n1 = (rok, n2)" by fastforce
  note re = retain_effect [OF rt]
  have inv1: "notify_inv n1" using le(2) inv by simp
  have inv2: "notify_inv n2" using notify_inv_retain [OF inv1 rt] d by simp
  have acc: "still_known stored (n, w1) i" if "upsert_sink env stored" "still_known stored (n, w) i" for i
    using that sink_final_row [OF that(1) le(1)] d by (auto simp: still_known_def)
  show ?thesis
    using l le rt re inv1 inv2 acc
    by (cases ok; cases rok) (auto simp: enqueued_def same_service_def still_known_def)
qed

definition record_event :: "uuid \<Rightarrow> notification_kind \<Rightarrow> datetime \<Rightarrow> bool \<Rightarrow> uuid option \<Rightarrow> notification_event" where
  "record_event fresh kind time confirmed event_id =
     \<lparr>ev_kind = kind, ev_at = time, ev_confirmed = confirmed,
      ev_id = (case event_id of None \<Rightarrow> fresh | Some j \<Rightarrow> j), ev_delivery = D_SUPPRESSED\<rparr>"

lemma record_valid:
  assumes "aware t" "rcv \<longrightarrow> List.member RECOVERED_KINDS k" "k \<noteq> DAILY_SUMMARY"
  shows "notify_record env (nt_owner n) fresh k t b eid c rcv (n, w) =
    (let ev = record_event fresh k t b eid; i = (case eid of None \<Rightarrow> fresh | Some j \<Rightarrow> j) in
     case map_of (nt_unpersisted n) i of
       Some prior \<Rightarrow>
         if \<not> same_event ev prior then (Inr D_FAILED, n\<lparr>nt_delivery_failed := True\<rparr>, w)
         else (case local_write env prior (n, w) of
                 (False, s1) \<Rightarrow> (Inr D_FAILED, s1)
               | (True, n1, w1) \<Rightarrow>
                   (Inr (ev_delivery prior), n1\<lparr>nt_unpersisted := AList.delete i (nt_unpersisted n1)\<rparr>, w1))
     | None \<Rightarrow>
         if \<not> immediate k b then
           (case local_write env ev (n, w) of
              (True, s1) \<Rightarrow> (Inr D_SUPPRESSED, s1)
            | (False, n1, w1) \<Rightarrow>
                (case retain ev n1 of (True, n2) \<Rightarrow> (Inr D_SUPPRESSED, n2, w1) | (False, n2) \<Rightarrow> (Inr D_FAILED, n2, w1)))
         else enqueue env (nt_owner n) ev (alert_text k rcv) c True (n, w))"
proof -
  have "(rcv \<and> \<not> List.member RECOVERED_KINDS k) = False" using assms(2) by simp
  then show ?thesis using assms(1,3) by (simp only: notify_record_def record_event_def Let_def fst_conv snd_conv) simp
qed

lemma record_event_id: "(case eid of None \<Rightarrow> fresh | Some j \<Rightarrow> j) = ev_id (record_event fresh k t b eid)"
  by (simp add: record_event_def)

lemma record_effect:
  assumes inv: "notify_inv n"
  shows "(\<exists>x. x \<noteq> Notify_KeyError \<and> notify_record env caller fresh k t b eid c rcv (n, w) = (Inl x, n, w))
    \<or> caller = nt_owner n \<and> enqueued env stored (record_event fresh k t b eid) (immediate k b) (n, w)
        (notify_record env caller fresh k t b eid c rcv (n, w))"
proof (cases "caller \<noteq> nt_owner n \<or> \<not> aware t \<or> rcv \<and> \<not> List.member RECOVERED_KINDS k \<or> k = DAILY_SUMMARY")
  case True
  then have "notify_record env caller fresh k t b eid c rcv (n, w) = (Inl Notify_RuntimeError, n, w)
      \<or> notify_record env caller fresh k t b eid c rcv (n, w) = (Inl Notify_ValueError, n, w)"
    by (auto simp: notify_record_def)
  then show ?thesis by auto
next
  case False
  let ?ev = "record_event fresh k t b eid"
  have valid: "caller = nt_owner n" "aware t" "rcv \<longrightarrow> List.member RECOVERED_KINDS k" "k \<noteq> DAILY_SUMMARY"
    using False by auto
  note eq = record_valid [OF valid(2-), where fresh = fresh and eid = eid and b = b, unfolded Let_def record_event_id [of fresh eid k t b]]
  have sup: "ev_delivery ?ev = D_SUPPRESSED" by (simp add: record_event_def)
  have "enqueued env stored ?ev (immediate k b) (n, w) (notify_record env (nt_owner n) fresh k t b eid c rcv (n, w))"
  proof (cases "map_of (nt_unpersisted n) (ev_id ?ev)")
    case (Some prior)
    then show ?thesis unfolding eq using record_prior [OF inv Some, of env stored "immediate k b" w] by simp
  next
    case None
    then show ?thesis unfolding eq
      using record_local [OF inv sup] enqueue_effect [OF inv] by (cases "immediate k b") simp_all
  qed
  then show ?thesis using valid(1) by simp
qed

section \<open>Histories of calls\<close>

text \<open>
  Any sequence of calls on one service, with any number of steps of the delivery thread between them.
  The set holds the identifiers for which a call returned \<open>PENDING\<close>.
\<close>

inductive notify_history :: "('w, 'cb) notify_env \<Rightarrow> uuid set \<Rightarrow> 'cb notify \<times> 'w \<Rightarrow> bool" for env where
  Init: "notify_init configured caller c = Inr n \<Longrightarrow> notify_history env {} (n, w)"
| Record: "\<lbrakk>notify_history env acc s; notify_record env caller fresh k t b eid c rcv s = (r, s')\<rbrakk>
    \<Longrightarrow> notify_history env
          (if r = Inr D_PENDING then insert (ev_id (record_event fresh k t b eid)) acc else acc) s'"
| Daily: "\<lbrakk>notify_history env acc s; daily env caller fresh d t c s = (r, s')\<rbrakk>
    \<Longrightarrow> notify_history env (if r = Inr D_PENDING then insert fresh acc else acc) s'"
| Poll: "\<lbrakk>notify_history env acc s; poll env caller s = (r, s')\<rbrakk> \<Longrightarrow> notify_history env acc s'"
| Join: "\<lbrakk>notify_history env acc (n, w); notify_join caller i k c n = (r, n')\<rbrakk> \<Longrightarrow> notify_history env acc (n', w)"
| Close: "\<lbrakk>notify_history env acc (n, w); notify_close caller n = (r, n')\<rbrakk> \<Longrightarrow> notify_history env acc (n', w)"
| Thread: "notify_history env acc (n, w)
    \<Longrightarrow> notify_history env acc (n\<lparr>nt_worker := run_step answer timeout (nt_worker n)\<rparr>, w)"

lemma run_step_frame:
  "dw_hand (run_step a t k) = dw_hand k" "dw_capacity (run_step a t k) = dw_capacity k"
  "dw_stop (run_step a t k) = dw_stop k" "dw_thread (run_step a t k) = T_Dead \<longleftrightarrow> dw_thread k = T_Dead"
  by (cases "dw_thread k"; simp add: run_step_def split: list.split)+

lemma thread_inv: "notify_inv n \<Longrightarrow> notify_inv (n\<lparr>nt_worker := run_step a t (nt_worker n)\<rparr>)"
  by (auto simp: notify_inv_def run_step_frame run_step_inv run_step_outstanding intro: books_agree_cong)

lemma join_effect:
  assumes "notify_inv n" "notify_join caller i k c n = (r, n')"
  shows "notify_inv n' \<and> dict_keys (nt_pending n') = dict_keys (nt_pending n)"
proof (cases "map_of (nt_pending n) i")
  case None
  then show ?thesis using assms by (auto simp: notify_join_def split: if_splits)
next
  case (Some e)
  then have "n' = n \<or> n' = n\<lparr>nt_pending := AList.update i (e\<lparr>pe_callbacks := pe_callbacks e @ [c]\<rparr>) (nt_pending n)\<rparr>"
    using assms(2) by (auto simp: notify_join_def split: if_splits)
  then show ?thesis
    using notify_inv_callbacks [OF assms(1) Some] assms(1) dict_get_Some_key [OF Some]
    by (elim disjE) (simp_all add: dict_simps insert_absorb)
qed

lemma close_inv:
  assumes "notify_inv n" "notify_close caller n = (r, n')"
  shows "notify_inv n' \<and> nt_pending n' = nt_pending n"
proof (cases "caller = nt_owner n")
  case True
  let ?k = "worker_close (nt_worker n)"
  have k: "worker_inv ?k" "books_agree ?k (awaiting n)"
    using assms(1) drain_steps_inv(3) [of "nt_worker n"] unfolding notify_inv_def
    by (auto simp: worker_close_def outstanding_def intro!: books_agree_cong [where k = "nt_worker n"])
  have n': "n' = n\<lparr>nt_closed := True, nt_worker := ?k\<rparr>" using assms(2) True by (simp add: notify_close_def)
  have "dw_hand ?k = dw_hand (nt_worker n) \<and> dw_capacity ?k = dw_capacity (nt_worker n) \<and> dw_stop ?k"
    by (simp add: worker_close_def)
  then show ?thesis unfolding n' using k assms(1) by (simp add: notify_inv_def)
qed (use assms in \<open>simp add: notify_close_def\<close>)

lemma still_known_keys:
  "\<lbrakk>still_known stored (n, w) i; dict_keys (nt_pending n') = dict_keys (nt_pending n)\<rbrakk> \<Longrightarrow> still_known stored (n', w) i"
  by (simp add: still_known_def dict_get_None)

lemma daily_effect:
  assumes "notify_inv n"
  shows "(\<exists>x. x \<noteq> Notify_KeyError \<and> daily env caller fresh d t c (n, w) = (Inl x, n, w))
    \<or> (\<exists>ev. ev_id ev = fresh \<and> enqueued env stored ev False (n, w) (daily env caller fresh d t c (n, w)))"
proof (cases "caller = nt_owner n \<and> aware t")
  case True
  let ?ev = "\<lparr>ev_kind = DAILY_SUMMARY, ev_at = t, ev_confirmed = False, ev_id = fresh, ev_delivery = D_SUPPRESSED\<rparr>"
  have "enqueued env stored ?ev False (n, w) (daily env caller fresh d t c (n, w))"
    using enqueue_effect [OF assms] True by (simp add: daily_def)
  then show ?thesis by (intro disjI2 exI [of _ ?ev]) simp
qed (auto simp: daily_def)

lemma notify_history_inv: "notify_history env acc s \<Longrightarrow> notify_inv (fst s)"
proof (induction rule: notify_history.induct)
  case (Record acc s caller fresh k t b eid c rcv r s')
  then show ?case using record_effect [of "fst s" env caller fresh k t b eid c rcv "snd s"]
    by (auto simp: enqueued_def)
next
  case (Daily acc s caller fresh d t c r s')
  then show ?case using daily_effect [of "fst s" env caller fresh d t c "snd s"] by (auto simp: enqueued_def)
next
  case (Poll acc s caller r s')
  show ?case
  proof (cases "caller = nt_owner (fst s)")
    case True
    with Poll show ?thesis by (metis fst_conv poll_effect prod.collapse snd_conv)
  next
    case False
    with Poll show ?thesis by (simp add: poll_def)
  qed
qed (auto simp: notify_init_inv thread_inv dest: join_effect close_inv)

text \<open>
  Whatever calls are made in whatever order, and however the delivery thread is scheduled among them: the
  service never holds more than its capacity of undelivered or unwritten events, and polling by the owner always
  succeeds, so no completion of the thread ever refers to an event the service no longer knows.
\<close>

theorem service_bounded_and_poll_total:
  assumes "notify_history env acc (n, w)"
  shows "length (nt_pending n) \<le> nt_capacity n \<and> length (nt_unpersisted n) \<le> nt_capacity n
    \<and> (\<exists>completed s'. poll env (nt_owner n) (n, w) = (Inr completed, s'))"
proof -
  have inv: "notify_inv n" using notify_history_inv [OF assms] by simp
  obtain ds n' w' where "poll env (nt_owner n) (n, w) = (Inr ds, n', w')" by (rule poll_effect [OF inv, of env w]) blast
  with inv show ?thesis by (auto simp: notify_inv_def)
qed

definition ex_env :: "((uuid, notification_event) dict, bool) notify_env" where
  "ex_env = \<lparr>env_sink = (\<lambda>ev w. (True, AList.update (ev_id ev) ev w)), env_call = (\<lambda>c r w. (c, w)), env_start = (\<lambda>w. True)\<rparr>"

definition ex_service :: "bool notify" where
  "ex_service = projr (notify_init True 5 2)"

definition ex_recorded :: "bool notify \<times> (uuid, notification_event) dict" where
  "ex_recorded = snd (notify_record ex_env 5 0 CAMERA_TAMPER (Aware 9) True (Some 7) (Some True) False (ex_service, []))"

text \<open>The thread has sent the alert and the owner has not polled yet.\<close>

definition ex_sent :: "bool notify \<times> (uuid, notification_event) dict" where
  "ex_sent = ((fst ex_recorded)\<lparr>nt_worker := run_step None False (run_step (Some D_SENT) False (run_step None False
     (run_step None False (nt_worker (fst ex_recorded)))))\<rparr>, snd ex_recorded)"

lemma ex_recorded_history: "notify_history ex_env {7} ex_recorded"
proof -
  have i: "notify_history ex_env {} (ex_service, [])"
    by (rule notify_history.Init [of True 5 2]) (simp add: ex_service_def notify_init_def)
  have r: "fst (notify_record ex_env 5 0 CAMERA_TAMPER (Aware 9) True (Some 7) (Some True) False (ex_service, []))
      = Inr D_PENDING"
    unfolding ex_env_def ex_service_def by code_simp
  from notify_history.Record [OF i, of 5 0 CAMERA_TAMPER "Aware 9" True "Some 7" "Some True" False _ ex_recorded]
  show ?thesis using r by (simp add: ex_recorded_def record_event_def prod_eq_iff)
qed

lemma ex_sent_history: "notify_history ex_env {7} ex_sent"
proof -
  have "notify_history ex_env {7} ((fst ex_recorded)\<lparr>nt_worker := nt_worker (fst ex_recorded)\<rparr>, snd ex_recorded)"
    using ex_recorded_history by simp
  from notify_history.Thread [OF notify_history.Thread [OF notify_history.Thread [OF notify_history.Thread [OF this]]],
      of None False "Some D_SENT" False None False None False]
  show ?thesis by (simp add: ex_sent_def)
qed

theorem service_bounded_and_poll_total_witness:
  "length (nt_pending (fst ex_sent)) \<le> 2
   \<and> (\<exists>completed s'. poll ex_env (nt_owner (fst ex_sent)) ex_sent = (Inr completed, s'))"
proof -
  have "nt_capacity (fst ex_sent) = 2" unfolding ex_sent_def ex_recorded_def ex_env_def ex_service_def by code_simp
  with service_bounded_and_poll_total [of ex_env "{7}" "fst ex_sent" "snd ex_sent"] ex_sent_history
  show ?thesis by simp
qed

text \<open>
  C16. An alert for which \<open>record\<close> or \<open>daily\<close> returned \<open>PENDING\<close> is never silently lost: at every later
  moment the service still has it pending, or the durable store holds it with a final outcome. This needs only
  that the sink upserts by identifier; sink and callbacks may fail as often as they like.
\<close>

theorem accepted_alert_accounted:
  assumes "notify_history env acc s" "upsert_sink env stored" "i \<in> acc"
  shows "map_of (nt_pending (fst s)) i \<noteq> None \<or> final_row stored (snd s) i"
proof -
  from assms(1) have "\<forall>i \<in> acc. still_known stored s i"
  proof (induction rule: notify_history.induct)
    case (Record acc s caller fresh k t b eid c rcv r s')
    have "notify_inv (fst s)" using notify_history_inv [OF Record(1)] .
    from record_effect [OF this, of env caller fresh k t b eid c rcv "snd s" stored] Record(2,3) assms(2) show ?case
      by (auto simp: enqueued_def still_known_def split: if_splits)
  next
    case (Daily acc s caller fresh d t c r s')
    have "notify_inv (fst s)" using notify_history_inv [OF Daily(1)] .
    from daily_effect [OF this, of env caller fresh d t c "snd s" stored] Daily(2,3) assms(2) show ?case
      by (auto simp: enqueued_def still_known_def split: if_splits)
  next
    case (Poll acc s caller r s')
    have inv: "notify_inv (fst s)" using notify_history_inv [OF Poll(1)] .
    show ?case
    proof (cases "caller = nt_owner (fst s)")
      case True
      obtain ds n' w' where "poll env (nt_owner (fst s)) (fst s, snd s) = (Inr ds, n', w')"
        and "\<And>i. still_known stored (fst s, snd s) i \<Longrightarrow> still_known stored (n', w') i"
        by (rule poll_effect [OF inv, of env "snd s"]) (use assms(2) in blast)
      then show ?thesis using Poll(2,3) True by simp
    next
      case False
      then show ?thesis using Poll(2,3) by (simp add: poll_def)
    qed
  next
    case (Join acc n w caller j k c r n')
    have "notify_inv n" using notify_history_inv [OF Join(1)] by simp
    note j = join_effect [OF this Join(2)]
    show ?case using Join(3) j still_known_keys [of stored n w _ n'] by simp
  next
    case (Close acc n w caller r n')
    have "notify_inv n" using notify_history_inv [OF Close(1)] by simp
    from close_inv [OF this Close(2)] Close(3) show ?case by (simp add: still_known_def)
  qed (simp_all add: still_known_def)
  with assms(3) show ?thesis by (simp add: still_known_def)
qed

lemma ex_env_upsert: "upsert_sink ex_env map_of"
  by (auto simp: upsert_sink_def ex_env_def update_conv')

theorem accepted_alert_accounted_witness:
  "still_known map_of ex_sent 7"
  unfolding still_known_def by (rule accepted_alert_accounted [OF ex_sent_history ex_env_upsert]) simp

text \<open>
  What \<open>can_accept\<close> promises an upstream outbox: when it has answered yes, submitting an immediate alert
  under that identifier never drops it. Whatever the local write, the thread start or the submission do, the alert
  is then in delivery, retained for another write, or stored with a final outcome.
\<close>

theorem accepted_capacity_never_dropped:
  assumes "notify_history env acc (n, w)" "upsert_sink env stored"
    and "can_accept caller i n = Inr True" "immediate kind confirmed"
    and "notify_record env caller fresh kind time confirmed (Some i) on_complete recovered (n, w) = (Inr d, s')"
  shows "kept stored s' (record_event fresh kind time confirmed (Some i))"
proof -
  have inv: "notify_inv n" using notify_history_inv [OF assms(1)] by simp
  have own: "caller = nt_owner n" using assms(3) by (simp add: can_accept_def split: if_splits)
  have "ev_id (record_event fresh kind time confirmed (Some i)) = i" by (simp add: record_event_def)
  with record_effect [OF inv, of env caller fresh kind time confirmed "Some i" on_complete recovered w stored]
    assms(2-5) own
  show ?thesis by (auto simp: enqueued_def)
qed

theorem accepted_capacity_never_dropped_witness:
  "kept map_of (snd (notify_record ex_env 5 0 CREDENTIAL_FINDING (Aware 12) False (Some 8) None False ex_sent))
     (record_event 0 CREDENTIAL_FINDING (Aware 12) False (Some 8))"
proof -
  have c: "can_accept 5 8 (fst ex_sent) = Inr True"
    unfolding ex_sent_def ex_recorded_def ex_env_def ex_service_def by code_simp
  have i: "immediate CREDENTIAL_FINDING False" by code_simp
  have "fst (notify_record ex_env 5 0 CREDENTIAL_FINDING (Aware 12) False (Some 8) None False ex_sent) = Inr D_PENDING"
    unfolding ex_sent_def ex_recorded_def ex_env_def ex_service_def by code_simp
  then have "notify_record ex_env 5 0 CREDENTIAL_FINDING (Aware 12) False (Some 8) None False (fst ex_sent, snd ex_sent)
      = (Inr D_PENDING, snd (notify_record ex_env 5 0 CREDENTIAL_FINDING (Aware 12) False (Some 8) None False ex_sent))"
    by (simp add: prod_eq_iff)
  moreover have "notify_history ex_env {7} (fst ex_sent, snd ex_sent)" using ex_sent_history by simp
  ultimately show ?thesis by (intro accepted_capacity_never_dropped [OF _ ex_env_upsert c i])
qed

text \<open>
  For a kind that stays local the answer says less: with a transport configured, \<open>can_accept\<close> does not look at the
  retry buffer, and the event is refused and dropped when that buffer is full.
\<close>

definition ex_full :: "bool notify" where
  "ex_full = \<lparr>nt_configured = True, nt_worker = worker_init 1, nt_capacity = 1, nt_pending = [],
     nt_unpersisted = [(3, record_event 3 PERSON (Aware 1) False None)], nt_owner = 5, nt_closed = False,
     nt_last_delivery = D_DISABLED, nt_local_failed = True, nt_delivery_failed = False\<rparr>"

definition refusing_env :: "(unit, bool) notify_env" where
  "refusing_env = \<lparr>env_sink = (\<lambda>ev w. (False, w)), env_call = (\<lambda>c r w. (c, w)), env_start = (\<lambda>w. True)\<rparr>"

lemma local_event_dropped_when_buffer_full:
  "can_accept 5 4 ex_full = Inr True
   \<and> fst (notify_record refusing_env 5 0 MOTION (Aware 2) False (Some 4) None False (ex_full, ())) = Inr D_FAILED
   \<and> map_of (nt_unpersisted (fst (snd (notify_record refusing_env 5 0 MOTION (Aware 2) False (Some 4) None False
       (ex_full, ()))))) 4 = None"
  unfolding ex_full_def refusing_env_def by code_simp

section \<open>Message sizes\<close>

lemma decimal_length: "n < 10 ^ Suc k \<Longrightarrow> length (decimal n) \<le> Suc k"
proof (induction k arbitrary: n)
  case 0
  then show ?case by (subst decimal.simps) simp
next
  case (Suc k)
  have "n div 10 < 10 ^ Suc k" using Suc.prems by (simp add: less_mult_imp_div_less)
  then show ?case using Suc.IH [of "n div 10"] by (subst decimal.simps) simp
qed

lemma str_int_length:
  assumes "0 \<le> v" "v < 2 ^ 63"
  shows "length (str_int v) \<le> 19"
proof -
  have "nat v < 10 ^ Suc 18" using assms by (simp add: nat_less_iff)
  from decimal_length [OF this] show ?thesis using assms(1) by (simp add: str_int_def)
qed

lemma alert_text_length: "length (alert_text kind recovered) \<le> 96"
  by (cases kind) (simp_all add: alert_text_def RECOVERY_KINDS_def ATTENTION_KINDS_def RECOVERED_SUFFIX_def)

lemma summary_text_length:
  assumes "daily_summary_ok d"
  shows "length (summary_text d) \<le> 700"
proof -
  have n: "length (str_int v) \<le> 19" if "v \<in> set (summary_counts d)" for v
    using that assms str_int_length unfolding daily_summary_ok_def list_all_iff by blast
  have st: "length (storage_value (summary_storage d)) \<le> 17" by (cases "summary_storage d") simp_all
  have "\<forall>v \<in> set (summary_counts d). length (str_int v) \<le> 19" using n by blast
  then show ?thesis
    using st by (cases "pipeline_available d") (simp_all add: summary_counts_def summary_text_def newline_def Let_def)
qed

text \<open>
  Every text the service hands to the worker is one the transport will try to send: it is not empty and,
  with counts below \<open>2 ^ 63\<close>, within the 4096 bytes beyond which \<open>send\<close> refuses without an attempt. So a correct
  answer of the endpoint always means \<open>SENT\<close>.
\<close>

theorem messages_accepted_by_transport:
  assumes "daily_summary_ok d" "bytes_strip body = ''ok''" "length body \<le> 32"
  shows "slack_send True (Some (200, body)) (alert_text kind recovered) = D_SENT
    \<and> slack_send True (Some (200, body)) (summary_text d) = D_SENT"
  using alert_text_length [of kind recovered] summary_text_length [OF assms(1)] assms(2,3)
  by (simp add: slack_send_def) (simp add: alert_text_def summary_text_def)

definition ex_summary :: daily_summary where
  "ex_summary = \<lparr>monitored_seconds = 86400, sources_online = 2, sources_degraded = 0, sources_offline = 1,
     agents_online = 1, agents_offline = 0, person_count = 4, motion_count = 12, entry_count = 1, critical_count = 0,
     recording_count = 9, error_count = 0, recording_bytes = 2 ^ 63 - 1, summary_storage = PRESSURE,
     pipeline_available = True\<rparr>"

theorem messages_accepted_by_transport_witness:
  "slack_send True (Some (200, ''ok'')) (summary_text ex_summary) = D_SENT"
proof -
  have "daily_summary_ok ex_summary" by (simp add: ex_summary_def daily_summary_ok_def summary_counts_def)
  moreover have "bytes_strip ''ok'' = ''ok''" by code_simp
  ultimately show ?thesis using messages_accepted_by_transport by simp
qed

end
