(* ===== verification/Daily_Schedule.thy ===== *)
theory Daily_Schedule
  imports Notification_Delivery
begin

text \<open>
  The once-per-date dispatch of the daily summary: \<open>DailySummaryScheduler\<close> of
  \<^verbatim>\<open>server/app/notifications/schedule.py\<close>, over the notification service.

  The scheduler's table row lives in the world the service's callbacks act on: a pair of the row (local date and
  result) and the remaining world. Local dates are day ordinals, which order as their ISO texts do; \<open>localize\<close> is
  the conversion of an instant to the zone. Whether the metadata reservation, the database statements and the
  transaction state allow a step is read from the world.
\<close>

section \<open>The scheduler\<close>

datatype 'c completion = Summary_Complete int | Other_Complete 'c

type_synonym schedule_row = "(int \<times> delivery) option"

record 'x schedule_env =
  se_reserve :: "'x \<Rightarrow> bool"
  se_database :: "'x \<Rightarrow> bool"
  se_in_transaction :: "'x \<Rightarrow> bool"
  se_localize :: "int \<Rightarrow> int \<times> int \<times> int"
  se_hour :: int
  se_minute :: int

datatype schedule_error =
  Schedule_Notify notify_error | Schedule_ValueError | Schedule_RuntimeError | Schedule_Reservation | Schedule_Database

definition schedule_ok :: "'x schedule_env \<Rightarrow> bool" where
  "schedule_ok se \<longleftrightarrow> 0 \<le> se_hour se \<and> se_hour se \<le> 23 \<and> 0 \<le> se_minute se \<and> se_minute se \<le> 59"

definition schedule_complete :: "'x schedule_env \<Rightarrow> int \<Rightarrow> delivery \<Rightarrow> schedule_row \<times> 'x
    \<Rightarrow> (schedule_error, unit, schedule_row \<times> 'x) outcome" where
  "schedule_complete se date result w =
     (if \<not> se_reserve se (snd w) then (Inl Schedule_Reservation, w)
      else if \<not> se_database se (snd w) then (Inl Schedule_Database, w)
      else (Inr (),
        (case fst w of Some (d, r) \<Rightarrow> if d = date then Some (d, result) else Some (d, r) | None \<Rightarrow> None), snd w))"

text \<open>The service's surroundings with the scheduler's completion callback among the callbacks.\<close>

definition service_env :: "'x schedule_env \<Rightarrow> ('x, 'c) notify_env \<Rightarrow> (schedule_row \<times> 'x, 'c completion) notify_env" where
  "service_env se base =
     \<lparr>env_sink = (\<lambda>ev w. let (ok, x) = env_sink base ev (snd w) in (ok, fst w, x)),
      env_call = (\<lambda>cb r w.
        case cb of
          Summary_Complete date \<Rightarrow> (case schedule_complete se date r w of (Inl _, w') \<Rightarrow> (False, w') | (Inr _, w') \<Rightarrow> (True, w'))
        | Other_Complete c \<Rightarrow> (let (ok, x) = env_call base c r (snd w) in (ok, fst w, x))),
      env_start = (\<lambda>w. env_start base (snd w))\<rparr>"

definition before_schedule :: "'x schedule_env \<Rightarrow> int \<Rightarrow> int \<Rightarrow> bool" where
  "before_schedule se h m \<longleftrightarrow> h < se_hour se \<or> h = se_hour se \<and> m < se_minute se"

fun instant :: "datetime \<Rightarrow> int" where
  "instant (Naive t) = t"
| "instant (Aware t) = t"

text \<open>\<open>tick\<close> up to the commit of the claim; the date when this call has claimed it.\<close>

definition tick_claim :: "'x schedule_env \<Rightarrow> ('x, 'c) notify_env \<Rightarrow> nat \<Rightarrow> datetime
    \<Rightarrow> 'c completion notify \<times> schedule_row \<times> 'x
    \<Rightarrow> (schedule_error, int option, 'c completion notify \<times> schedule_row \<times> 'x) outcome" where
  "tick_claim se base caller now s =
     (if \<not> aware now then (Inl Schedule_ValueError, s)
      else case poll (service_env se base) caller s of
          (Inl e, s1) \<Rightarrow> (Inl (Schedule_Notify e), s1)
        | (Inr _, n, row, x) \<Rightarrow>
            let (date, h, m) = se_localize se (instant now) in
            if before_schedule se h m then (Inr None, n, row, x)
            else if se_in_transaction se x then (Inl Schedule_RuntimeError, n, row, x)
            else if \<not> se_reserve se x then (Inl Schedule_Reservation, n, row, x)
            else if \<not> se_database se x then (Inl Schedule_Database, n, row, x)
            else if (case row of Some (d, r) \<Rightarrow> date \<le> d | None \<Rightarrow> False) then (Inr None, n, row, x)
            else (Inr (Some date), n, Some (date, D_PENDING), x))"

definition tick_dispatch :: "'x schedule_env \<Rightarrow> ('x, 'c) notify_env \<Rightarrow> nat \<Rightarrow> uuid \<Rightarrow> datetime \<Rightarrow> daily_summary \<Rightarrow> int
    \<Rightarrow> 'c completion notify \<times> schedule_row \<times> 'x
    \<Rightarrow> (schedule_error, delivery, 'c completion notify \<times> schedule_row \<times> 'x) outcome" where
  "tick_dispatch se base caller fresh now summary date s =
     (case daily (service_env se base) caller fresh summary now (Some (Summary_Complete date)) s of
        (Inl e, s1) \<Rightarrow> (Inl (Schedule_Notify e), s1)
      | (Inr result, n, w) \<Rightarrow>
          if result = D_PENDING then (Inr result, n, w)
          else (case schedule_complete se date result w of
                  (Inl e, w') \<Rightarrow> (Inl e, n, w')
                | (Inr _, w') \<Rightarrow> (Inr result, n, w')))"

definition tick :: "'x schedule_env \<Rightarrow> ('x, 'c) notify_env \<Rightarrow> nat \<Rightarrow> uuid \<Rightarrow> datetime \<Rightarrow> daily_summary
    \<Rightarrow> 'c completion notify \<times> schedule_row \<times> 'x
    \<Rightarrow> (schedule_error, delivery, 'c completion notify \<times> schedule_row \<times> 'x) outcome" where
  "tick se base caller fresh now summary s =
     (case tick_claim se base caller now s of
        (Inl e, s1) \<Rightarrow> (Inl e, s1)
      | (Inr None, s1) \<Rightarrow> (Inr D_SUPPRESSED, s1)
      | (Inr (Some date), s1) \<Rightarrow> tick_dispatch se base caller fresh now summary date s1)"

section \<open>What the service does to its caller's world\<close>

text \<open>
  The service touches the world only through the sink and the callbacks, so a property both keep
  is kept by every call.
\<close>

locale world_property =
  fixes env :: "('w, 'cb) notify_env" and P :: "'w \<Rightarrow> bool"
  assumes sink_keeps: "\<lbrakk>env_sink env ev w = (ok, w'); P w\<rbrakk> \<Longrightarrow> P w'"
    and call_keeps: "\<lbrakk>env_call env c r w = (ok, w'); P w\<rbrakk> \<Longrightarrow> P w'"
begin

lemma write_keeps: "\<lbrakk>local_write env ev s = (ok, s'); P (snd s)\<rbrakk> \<Longrightarrow> P (snd s')"
  using local_write_effect(1) [of env ev "fst s" "snd s" ok "fst s'" "snd s'"] sink_keeps by simp

lemma flush_keeps: "P (snd s) \<Longrightarrow> P (snd (flush_entries env es s))"
proof (induction es arbitrary: s)
  case (Cons x es)
  obtain i ev where x: "x = (i, ev)" by fastforce
  obtain ok n w where l: "local_write env ev s = (ok, n, w)" by (metis prod_cases3)
  have "P w" using write_keeps [OF l] Cons.prems by simp
  then show ?case using Cons.IH x l by (cases ok) simp_all
qed simp

lemma callbacks_keep: "\<lbrakk>run_callbacks env r cs w = (failed, w'); P w\<rbrakk> \<Longrightarrow> P w'"
proof (induction cs arbitrary: w failed)
  case (Cons c cs)
  obtain ok w1 where c: "env_call env c r w = (ok, w1)" by fastforce
  obtain f2 where f2: "run_callbacks env r cs w1 = (f2, w')" using Cons.prems(1) c by (auto split: prod.splits)
  show ?case using Cons.IH [OF f2] call_keeps [OF c] Cons.prems(2) by simp
qed simp

lemma settle_keeps: "P (snd s) \<Longrightarrow> P (snd (snd (settle env es s)))"
proof (induction es arbitrary: s)
  case (Cons x es)
  obtain i e where x: "x = (i, e)" by fastforce
  obtain ds n w where se: "settle_entry env i e (fst s, snd s) = (ds, n, w)" by (metis prod_cases3)
  then have "P w" using Cons.prems by (cases rule: settle_entry_cases) (blast intro: sink_keeps callbacks_keep)+
  then show ?case using Cons.IH [of "(n, w)"] x se by (auto split: prod.splits)
qed simp

lemma poll_keeps:
  assumes "P (snd s)"
  shows "P (snd (snd (poll env caller s)))"
proof (cases "caller = nt_owner (fst s)")
  case True
  obtain n1 w1 where f: "flush_unpersisted env s = (n1, w1)" by fastforce
  then have w1: "P w1" using flush_keeps [OF assms, of "nt_unpersisted (fst s)"] by (simp add: flush_unpersisted_def)
  obtain r n2 where a: "absorb n1 = (r, n2)" by fastforce
  show ?thesis
    using settle_keeps [of "(n2, w1)" "nt_pending n2"] w1 True f a by (cases r) (simp_all add: poll_def split_beta)
qed (use assms in \<open>simp add: poll_def\<close>)

lemma submit_keeps:
  assumes "P (snd s)"
  shows "P (snd (snd (submit_pending env caller ev m c s)))"
proof -
  obtain q k where k: "submit (env_start env (snd s)) (ev_id ev) m (nt_worker (fst s)) = (q, k)" by fastforce
  show ?thesis
  proof (cases q)
    case (Inl x)
    let ?e = "\<lparr>pe_event = ev, pe_callbacks = (case c of None \<Rightarrow> [] | Some c \<Rightarrow> [c]), pe_result = Some D_FAILED\<rparr>"
    let ?n = "(fst s)\<lparr>nt_last_delivery := D_PENDING, nt_worker := k, nt_delivery_failed := True,
      nt_pending := AList.update (ev_id ev) ?e (nt_pending (fst s))\<rparr>"
    obtain z s2 where z: "poll env caller (?n, snd s) = (z, s2)" by (metis surj_pair)
    have "P (snd s2)" using poll_keeps [of "(?n, snd s)" caller] assms z by simp
    then show ?thesis using k Inl z by (cases z) (simp_all add: submit_pending_def Let_def)
  qed (use k assms in \<open>simp add: submit_pending_def Let_def\<close>)
qed

lemma enqueue_keeps:
  assumes "P (snd s)"
  shows "P (snd (snd (enqueue env caller ev m c keep s)))"
proof (cases "map_of (nt_pending (fst s)) (ev_id ev)")
  case None
  let ?q = "enqueue_result (fst s)"
  let ?n = "(fst s)\<lparr>nt_delivery_failed := nt_delivery_failed (fst s) \<or> ?q = D_FAILED\<rparr>"
  obtain ok n1 w1 where l: "local_write env (ev\<lparr>ev_delivery := ?q\<rparr>) (?n, snd s) = (ok, n1, w1)" by (metis prod_cases3)
  have "P w1" using write_keeps [OF l] assms by simp
  then show ?thesis
    using submit_keeps [of "(n1, w1)"] None l by (simp add: enqueue_def note_failure Let_def)
qed (use assms in \<open>simp add: enqueue_def split: option.split\<close>)

lemma record_keeps:
  assumes "P (snd s)"
  shows "P (snd (snd (notify_record env caller fresh k t b eid c rcv s)))"
proof (cases "caller \<noteq> nt_owner (fst s) \<or> \<not> aware t \<or> rcv \<and> \<not> List.member RECOVERED_KINDS k \<or> k = DAILY_SUMMARY")
  case True
  then have "snd (notify_record env caller fresh k t b eid c rcv s) = s" by (auto simp: notify_record_def)
  then show ?thesis using assms by simp
next
  case False
  then have v: "caller = nt_owner (fst s)" "aware t" "rcv \<longrightarrow> List.member RECOVERED_KINDS k" "k \<noteq> DAILY_SUMMARY" by auto
  let ?ev = "record_event fresh k t b eid"
  note eq = record_valid [OF v(2-), of env "fst s" fresh b eid c "snd s", unfolded Let_def]
  obtain ok n1 w1 where l: "local_write env ?ev s = (ok, n1, w1)" by (metis prod_cases3)
  have w1: "P w1" using write_keeps [OF l] assms by simp
  show ?thesis
  proof (cases "map_of (nt_unpersisted (fst s)) (case eid of None \<Rightarrow> fresh | Some j \<Rightarrow> j)")
    case None
    then show ?thesis
      using eq v(1) l w1 enqueue_keeps [OF assms] by (cases ok) (simp_all split: prod.split bool.split)
  next
    case (Some prior)
    obtain ok2 n2 w2 where l2: "local_write env prior s = (ok2, n2, w2)" by (metis prod_cases3)
    have "P w2" using write_keeps [OF l2] assms by simp
    then show ?thesis using eq v(1) l2 Some assms by (cases ok2) simp_all
  qed
qed

lemma daily_keeps: "P (snd s) \<Longrightarrow> P (snd (snd (daily env caller fresh d t c s)))"
  using enqueue_keeps by (simp add: daily_def)

end

section \<open>At most one dispatch for a date\<close>

definition row_reached :: "int \<Rightarrow> schedule_row \<times> 'x \<Rightarrow> bool" where
  "row_reached d w \<longleftrightarrow> (\<exists>d' r. fst w = Some (d', r) \<and> d \<le> d')"

lemma complete_keeps_row: "schedule_complete se date r w = (q, w') \<Longrightarrow> row_reached d w' \<longleftrightarrow> row_reached d w"
  by (auto simp: schedule_complete_def row_reached_def split: if_splits option.splits prod.splits)

interpretation row_claimed: world_property "service_env se base" "row_reached d" for se base d
proof unfold_locales
  fix ev ok and w w' :: "schedule_row \<times> 'a"
  assume "env_sink (service_env se base) ev w = (ok, w')" "row_reached d w"
  then show "row_reached d w'" by (auto simp: service_env_def row_reached_def split: prod.splits)
next
  fix c r ok and w w' :: "schedule_row \<times> 'a"
  assume e: "env_call (service_env se base) c r w = (ok, w')" and p: "row_reached d w"
  show "row_reached d w'"
  proof (cases c)
    case (Summary_Complete date)
    obtain q w1 where q: "schedule_complete se date r w = (q, w1)" by (metis surj_pair)
    then have "w' = w1" using e Summary_Complete by (cases q) (simp_all add: service_env_def)
    then show ?thesis using complete_keeps_row [OF q] p by simp
  next
    case (Other_Complete x)
    then show ?thesis using e p by (auto simp: service_env_def row_reached_def split: prod.splits)
  qed
qed

text \<open>
  A life of the scheduler across processes: ticks that dispatch, ticks that do not, a crash between the committed claim
  and the dispatch, restarts with a new service over the same table, and anything else the service, its thread and the
  surroundings do. The list holds the dates for which the summary was handed to the service.
\<close>

inductive schedule_life :: "'x schedule_env \<Rightarrow> ('x, 'c) notify_env \<Rightarrow> int list
    \<Rightarrow> 'c completion notify \<times> schedule_row \<times> 'x \<Rightarrow> bool" for se base where
  Start: "notify_init configured caller c = Inr n \<Longrightarrow> schedule_life se base [] (n, row, x)"
| Dispatch: "\<lbrakk>schedule_life se base ds s; tick_claim se base caller now s = (Inr (Some date), s1);
      tick_dispatch se base caller fresh now summary date s1 = (r, s2)\<rbrakk> \<Longrightarrow> schedule_life se base (ds @ [date]) s2"
| Crash: "\<lbrakk>schedule_life se base ds s; tick_claim se base caller now s = (r, s1)\<rbrakk> \<Longrightarrow> schedule_life se base ds s1"
| Restart: "\<lbrakk>schedule_life se base ds (n, row, x); notify_init configured caller c = Inr n'\<rbrakk>
    \<Longrightarrow> schedule_life se base ds (n', row, x)"
| Record: "\<lbrakk>schedule_life se base ds s;
      notify_record (service_env se base) caller fresh k t b eid (map_option Other_Complete cb) rcv s = (r, s')\<rbrakk>
    \<Longrightarrow> schedule_life se base ds s'"
| Poll: "\<lbrakk>schedule_life se base ds s; poll (service_env se base) caller s = (r, s')\<rbrakk> \<Longrightarrow> schedule_life se base ds s'"
| Join: "\<lbrakk>schedule_life se base ds (n, w); notify_join caller i k cb n = (r, n')\<rbrakk> \<Longrightarrow> schedule_life se base ds (n', w)"
| Close: "\<lbrakk>schedule_life se base ds (n, w); notify_close caller n = (r, n')\<rbrakk> \<Longrightarrow> schedule_life se base ds (n', w)"
| Thread: "schedule_life se base ds (n, w)
    \<Longrightarrow> schedule_life se base ds (n\<lparr>nt_worker := run_step answer timeout (nt_worker n)\<rparr>, w)"
| World: "schedule_life se base ds (n, row, x) \<Longrightarrow> schedule_life se base ds (n, row, x')"

lemma claim_advances:
  assumes "tick_claim se base caller now s = (r, s1)"
  shows "row_reached d (snd s) \<Longrightarrow> row_reached d (snd s1)"
    and "r = Inr (Some date) \<Longrightarrow> row_reached date (snd s1) \<and> (row_reached d (snd s) \<longrightarrow> d < date)"
proof -
  obtain q n row x where p: "poll (service_env se base) caller s = (q, n, row, x)" by (metis prod_cases4)
  obtain dt h m where t: "se_localize se (instant now) = (dt, h, m)" by (metis prod_cases3)
  have k: "row_reached d (snd s) \<Longrightarrow> row_reached d (row, x)"
    using row_claimed.poll_keeps [of d s se base caller] p by simp
  show "row_reached d (snd s) \<Longrightarrow> row_reached d (snd s1)"
    using assms k p t
    by (cases q) (auto simp: tick_claim_def row_reached_def split: if_splits option.splits)
  show "r = Inr (Some date) \<Longrightarrow> row_reached date (snd s1) \<and> (row_reached d (snd s) \<longrightarrow> d < date)"
    using assms k p t
    by (cases q) (auto simp: tick_claim_def row_reached_def split: if_splits option.splits)
qed

lemma dispatch_keeps:
  assumes "tick_dispatch se base caller fresh now summary date s = (r, s')" "row_reached d (snd s)"
  shows "row_reached d (snd s')"
proof -
  let ?c = "Some (Summary_Complete date)"
  obtain q n w where p: "daily (service_env se base) caller fresh summary now ?c s = (q, n, w)" by (metis prod_cases3)
  have k: "row_reached d w"
    using row_claimed.daily_keeps [of d s se base caller fresh summary now ?c] assms(2) p by simp
  show ?thesis
  proof (cases q)
    case (Inl e)
    then show ?thesis using assms(1) p k by (auto simp: tick_dispatch_def)
  next
    case (Inr result)
    obtain z w' where z: "schedule_complete se date result w = (z, w')" by (metis surj_pair)
    have "row_reached d w'" using complete_keeps_row [OF z] k by simp
    then show ?thesis
      using assms(1) p k z Inr by (cases z) (auto simp: tick_dispatch_def split: if_splits)
  qed
qed

lemma schedule_life_dates:
  assumes "schedule_life se base ds s"
  shows "sorted_wrt (<) ds \<and> (\<forall>d \<in> set ds. row_reached d (snd s))"
  using assms
proof (induction rule: schedule_life.induct)
  case (Dispatch ds s caller now date s1 fresh summary r s2)
  have "d < date" if "d \<in> set ds" for d using claim_advances(2) [OF Dispatch(2), of date d] Dispatch(4) that by blast
  moreover have "row_reached d (snd s2)" if "d \<in> set (ds @ [date])" for d
    using dispatch_keeps [OF Dispatch(3)] claim_advances [OF Dispatch(2)] Dispatch(4) that by auto
  ultimately show ?case using Dispatch(4) by (simp add: sorted_wrt_append)
next
  case (Crash ds s caller now r s1)
  then show ?case using claim_advances(1) by blast
next
  case (Record ds s caller fresh k t b eid cb rcv r s')
  then show ?case by (metis row_claimed.record_keeps snd_conv)
next
  case (Poll ds s caller r s')
  then show ?case by (metis row_claimed.poll_keeps snd_conv)
qed (simp_all add: row_reached_def)

text \<open>
  C18. The summary of a local date is handed to the notification service at most once, in the order of the dates:
  across restarts, a crash between the claim and the dispatch, failing deliveries, clocks and zones that move
  backwards, and whatever else is recorded in between.
\<close>

theorem summary_once_per_date:
  assumes "schedule_life se base dates s"
  shows "sorted_wrt (<) dates \<and> distinct dates"
  using schedule_life_dates [OF assms] strict_sorted_iff by blast

definition ex_schedule :: "unit schedule_env" where
  "ex_schedule = \<lparr>se_reserve = (\<lambda>x. True), se_database = (\<lambda>x. True), se_in_transaction = (\<lambda>x. False),
     se_localize = (\<lambda>t. (t div 24, t mod 24, 0)), se_hour = 23, se_minute = 0\<rparr>"

definition quiet_env :: "(unit, unit) notify_env" where
  "quiet_env = \<lparr>env_sink = (\<lambda>ev w. (True, w)), env_call = (\<lambda>c r w. (True, w)), env_start = (\<lambda>w. True)\<rparr>"

definition ex_day :: "int \<Rightarrow> unit completion notify \<times> schedule_row \<times> unit \<Rightarrow> unit completion notify \<times> schedule_row \<times> unit" where
  "ex_day d s = snd (tick_dispatch ex_schedule quiet_env 5 (nat d) (Aware (24 * d + 23)) ex_summary d
     (snd (tick_claim ex_schedule quiet_env 5 (Aware (24 * d + 23)) s)))"

definition ex_fresh :: "unit completion notify \<times> schedule_row \<times> unit" where
  "ex_fresh = (projr (notify_init True 5 2), None, ())"

lemma ex_day_life:
  assumes "schedule_life ex_schedule quiet_env ds s"
    and "fst (tick_claim ex_schedule quiet_env 5 (Aware (24 * d + 23)) s) = Inr (Some d)"
  shows "schedule_life ex_schedule quiet_env (ds @ [d]) (ex_day d s)"
  using schedule_life.Dispatch [OF assms(1)] assms(2) unfolding ex_day_def by (metis prod.collapse)

theorem summary_once_per_date_witness:
  "schedule_life ex_schedule quiet_env [4] (ex_day 4 ex_fresh) \<and> distinct [4 :: int]
   \<and> fst (tick_claim ex_schedule quiet_env 5 (Aware (24 * 4 + 23))
       (snd (tick_claim ex_schedule quiet_env 5 (Aware (24 * 4 + 23)) ex_fresh))) = Inr None"
proof -
  have "schedule_life ex_schedule quiet_env [] ex_fresh"
    unfolding ex_fresh_def by (rule schedule_life.Start [of True 5 2]) (simp add: notify_init_def)
  then have l: "schedule_life ex_schedule quiet_env ([] @ [4]) (ex_day 4 ex_fresh)"
    by (rule ex_day_life) (unfold ex_fresh_def ex_schedule_def quiet_env_def, code_simp)
  moreover have "fst (tick_claim ex_schedule quiet_env 5 (Aware (24 * 4 + 23))
       (snd (tick_claim ex_schedule quiet_env 5 (Aware (24 * 4 + 23)) ex_fresh))) = Inr None"
    unfolding ex_fresh_def ex_schedule_def quiet_env_def by code_simp
  ultimately show ?thesis using summary_once_per_date [OF l] by simp
qed

end
