(* ===== verification/Integrity_Matching.thy ===== *)
theory Integrity_Matching
  imports Prelude "HOL-Library.While_Combinator"
begin

text \<open>
  Which observations the approved hardware can account for: \<open>_explained\<close> of
  \<^verbatim>\<open>server/app/integrity/model.py\<close>, a Hopcroft-Karp matching of approved components (left) with current
  observations (right). Components and observations are their indices. A Python set that is iterated is the list
  of its elements in the order of the iteration, so the theorems hold for every order. The loops are
  \<open>while_option\<close>: a result \<open>None\<close> would be a loop that does not end.
\<close>

section \<open>The algorithm\<close>

type_synonym claims = "(nat, nat list) dict"

definition claimed :: "claims \<Rightarrow> nat \<Rightarrow> nat list" where
  "claimed claims i = (case map_of claims i of Some cs \<Rightarrow> cs | None \<Rightarrow> [])"

definition depth_of :: "(nat, int) dict \<Rightarrow> nat \<Rightarrow> int" where
  "depth_of depth i = (case map_of depth i of Some d \<Rightarrow> d | None \<Rightarrow> 0)"

subsection \<open>Layers\<close>

record layering =
  ly_depth :: "(nat, int) dict"
  ly_following :: "nat list"
  ly_reached :: bool

definition layer_candidate :: "(nat, nat) dict \<Rightarrow> nat \<Rightarrow> nat \<Rightarrow> layering \<Rightarrow> layering" where
  "layer_candidate right index candidate s =
     (case map_of right candidate of
        None \<Rightarrow> s\<lparr>ly_reached := True\<rparr>
      | Some owner \<Rightarrow>
          if map_of (ly_depth s) owner = None then
            s\<lparr>ly_depth := AList.update owner (depth_of (ly_depth s) index + 1) (ly_depth s),
              ly_following := ly_following s @ [owner]\<rparr>
          else s)"

definition layer_index :: "claims \<Rightarrow> (nat, nat) dict \<Rightarrow> nat \<Rightarrow> layering \<Rightarrow> layering" where
  "layer_index claims right index s = fold (layer_candidate right index) (claimed claims index) s"

text \<open>One round: the frontier is \<open>ly_following\<close> of the round before.\<close>

definition layer_round :: "claims \<Rightarrow> (nat, nat) dict \<Rightarrow> layering \<Rightarrow> layering" where
  "layer_round claims right s = fold (layer_index claims right) (ly_following s) (s\<lparr>ly_following := []\<rparr>)"

definition roots :: "claims \<Rightarrow> (nat, nat) dict \<Rightarrow> nat list" where
  "roots claims left = filter (\<lambda>i. map_of left i = None) (map fst claims)"

definition layer_start :: "claims \<Rightarrow> (nat, nat) dict \<Rightarrow> layering" where
  "layer_start claims left =
     \<lparr>ly_depth = map (\<lambda>i. (i, 0)) (roots claims left), ly_following = roots claims left, ly_reached = False\<rparr>"

definition layers :: "claims \<Rightarrow> (nat, nat) dict \<Rightarrow> (nat, nat) dict \<Rightarrow> layering option" where
  "layers claims left right =
     while_option (\<lambda>s. ly_following s \<noteq> [] \<and> \<not> ly_reached s) (layer_round claims right) (layer_start claims left)"

subsection \<open>Augmenting walks\<close>

text \<open>The explicit stack, top first: component, untried observations, entry edge.\<close>

type_synonym hop = "nat \<times> nat list \<times> nat option"

record hk =
  hk_left :: "(nat, nat) dict"
  hk_right :: "(nat, nat) dict"
  hk_depth :: "(nat, int) dict"
  hk_walk :: "hop list"

fun flip :: "hop list \<Rightarrow> nat option \<Rightarrow> (nat, nat) dict \<times> (nat, nat) dict \<Rightarrow> (nat, nat) dict \<times> (nat, nat) dict" where
  "flip [] c lr = lr"
| "flip ((hop, remaining, entered) # ws) None lr = lr"
| "flip ((hop, remaining, entered) # ws) (Some c) (l, r) = flip ws entered (AList.update hop c l, AList.update c hop r)"

definition walk_step :: "claims \<Rightarrow> hk \<Rightarrow> hk" where
  "walk_step claims s =
     (case hk_walk s of
        [] \<Rightarrow> s
      | (index, [], entered) # ws \<Rightarrow> s\<lparr>hk_depth := AList.update index (- 1) (hk_depth s), hk_walk := ws\<rparr>
      | (index, c # remaining, entered) # ws \<Rightarrow>
          (case map_of (hk_right s) c of
             None \<Rightarrow>
               (let (l, r) = flip ((index, remaining, entered) # ws) (Some c) (hk_left s, hk_right s)
                in s\<lparr>hk_left := l, hk_right := r, hk_walk := []\<rparr>)
           | Some owner \<Rightarrow>
               if map_of (hk_depth s) owner = Some (depth_of (hk_depth s) index + 1) then
                 s\<lparr>hk_walk := (owner, claimed claims owner, Some c) # (index, remaining, entered) # ws\<rparr>
               else s\<lparr>hk_walk := (index, remaining, entered) # ws\<rparr>))"

definition walk_from :: "claims \<Rightarrow> nat \<Rightarrow> hk \<Rightarrow> hk option" where
  "walk_from claims start s =
     while_option (\<lambda>s. hk_walk s \<noteq> []) (walk_step claims) (s\<lparr>hk_walk := [(start, claimed claims start, None)]\<rparr>)"

fun phase :: "claims \<Rightarrow> nat list \<Rightarrow> hk \<Rightarrow> hk option" where
  "phase claims [] s = Some s"
| "phase claims (start # starts) s =
     (if map_of (hk_left s) start \<noteq> None then phase claims starts s
      else case walk_from claims start s of None \<Rightarrow> None | Some s' \<Rightarrow> phase claims starts s')"

partial_function (option) explain :: "claims \<Rightarrow> (nat, nat) dict \<Rightarrow> (nat, nat) dict \<Rightarrow> nat list option" where
  "explain claims left right =
     (case layers claims left right of
        None \<Rightarrow> None
      | Some y \<Rightarrow>
          if \<not> ly_reached y then Some (map fst right)
          else case phase claims (map fst (ly_depth y))
                 \<lparr>hk_left = left, hk_right = right, hk_depth = ly_depth y, hk_walk = []\<rparr> of
              None \<Rightarrow> None
            | Some s \<Rightarrow> explain claims (hk_left s) (hk_right s))"

declare explain.simps [code]

definition explained :: "claims \<Rightarrow> nat list option" where
  "explained claims = explain claims [] []"

section \<open>Matchings\<close>

definition matched :: "claims \<Rightarrow> (nat \<rightharpoonup> nat) \<Rightarrow> (nat \<rightharpoonup> nat) \<Rightarrow> bool" where
  "matched claims L R \<longleftrightarrow> (\<forall>i c. L i = Some c \<longleftrightarrow> R c = Some i) \<and> (\<forall>i c. L i = Some c \<longrightarrow> c \<in> set (claimed claims i))"

text \<open>A matching except that \<open>c\<close> belongs to no component yet and its right entry may be stale.\<close>

definition nearly_matched :: "claims \<Rightarrow> nat \<Rightarrow> (nat \<rightharpoonup> nat) \<Rightarrow> (nat \<rightharpoonup> nat) \<Rightarrow> bool" where
  "nearly_matched claims c L R \<longleftrightarrow> (\<forall>i. L i \<noteq> Some c)
     \<and> (\<forall>i d. d \<noteq> c \<longrightarrow> (L i = Some d \<longleftrightarrow> R d = Some i))
     \<and> (\<forall>i d. L i = Some d \<longrightarrow> d \<in> set (claimed claims i))"

lemma matched_nearly: "\<lbrakk>matched claims L R; R c = None\<rbrakk> \<Longrightarrow> nearly_matched claims c L R"
  by (simp add: matched_def nearly_matched_def)

lemma nearly_matched_move:
  assumes "nearly_matched claims c L R" "c \<in> set (claimed claims hop)"
  shows "L hop = None \<Longrightarrow> matched claims (L(hop \<mapsto> c)) (R(c \<mapsto> hop))"
    and "L hop = Some d \<Longrightarrow> nearly_matched claims d (L(hop \<mapsto> c)) (R(c \<mapsto> hop))"
proof -
  have n: "\<And>i. L i \<noteq> Some c" "\<And>i d. d \<noteq> c \<Longrightarrow> L i = Some d \<longleftrightarrow> R d = Some i"
    "\<And>i d. L i = Some d \<Longrightarrow> d \<in> set (claimed claims i)"
    using assms(1) unfolding nearly_matched_def by blast+
  have pair: "(L(hop \<mapsto> c)) i = Some e \<longleftrightarrow> (R(c \<mapsto> hop)) e = Some i" if "L hop \<noteq> Some e \<or> e = c" for i e
    using that n(1) [of i] n(2) [of e i] by (cases "i = hop"; cases "e = c") auto
  have claim: "(L(hop \<mapsto> c)) i = Some e \<longrightarrow> e \<in> set (claimed claims i)" for i e
    using n(3) [of i e] assms(2) by auto
  show "L hop = None \<Longrightarrow> matched claims (L(hop \<mapsto> c)) (R(c \<mapsto> hop))"
    unfolding matched_def using pair claim by simp
  assume d: "L hop = Some d"
  have "(L(hop \<mapsto> c)) i \<noteq> Some d" for i
  proof (cases "i = hop")
    case True
    then show ?thesis using n(1) [of hop] d by auto
  next
    case False
    have "d \<noteq> c" using n(1) [of hop] d by auto
    then show ?thesis using n(2) [of d i] n(2) [of d hop] d False by auto
  qed
  then show "nearly_matched claims d (L(hop \<mapsto> c)) (R(c \<mapsto> hop))"
    unfolding nearly_matched_def using pair claim d by simp
qed

definition matching :: "claims \<Rightarrow> (nat, nat) dict \<Rightarrow> (nat, nat) dict \<Rightarrow> bool" where
  "matching claims l r \<longleftrightarrow> dict_ok l \<and> dict_ok r \<and> matched claims (map_of l) (map_of r)"

text \<open>
  The stack of a walk, top first: each component but the bottom one was entered through its current partner, which the
  component below claims; the bottom one has no partner.
\<close>

fun walk_ok :: "claims \<Rightarrow> (nat \<rightharpoonup> nat) \<Rightarrow> hop list \<Rightarrow> bool" where
  "walk_ok claims L [] = True"
| "walk_ok claims L [(i, rem, entered)] = (entered = None \<and> L i = None \<and> set rem \<subseteq> set (claimed claims i))"
| "walk_ok claims L ((i, rem, entered) # (j, rem', entered') # ws) =
     ((\<exists>c. entered = Some c \<and> L i = Some c \<and> c \<in> set (claimed claims j)) \<and> set rem \<subseteq> set (claimed claims i)
      \<and> walk_ok claims L ((j, rem', entered') # ws))"

lemma walk_ok_tail: "walk_ok claims L (h # ws) \<Longrightarrow> walk_ok claims L ws"
  by (cases h; cases ws) auto

lemma walk_ok_cong: "\<lbrakk>walk_ok claims L ws; \<forall>h \<in> set ws. L' (fst h) = L (fst h)\<rbrakk> \<Longrightarrow> walk_ok claims L' ws"
  by (induction claims L ws rule: walk_ok.induct) auto

text \<open>Flipping the hops of a walk that found a free observation gives a matching with one more component.\<close>

lemma flip_matching:
  assumes "walk_ok claims (map_of l) ws" "distinct (map fst ws)" "ws \<noteq> []" "c \<in> set (claimed claims (fst (hd ws)))"
    and "nearly_matched claims c (map_of l) (map_of r)" "dict_ok l" "dict_ok r" "flip ws (Some c) (l, r) = (l', r')"
  shows "matching claims l' r' \<and> dict_keys l' = insert (fst (last ws)) (dict_keys l)"
  using assms
proof (induction ws arbitrary: c l r)
  case (Cons h ws)
  obtain i rem entered where h: "h = (i, rem, entered)" by (metis prod_cases3)
  let ?l = "AList.update i c l" and ?r = "AList.update c i r"
  have upd: "map_of ?l = (map_of l)(i \<mapsto> c)" "map_of ?r = (map_of r)(c \<mapsto> i)" by (simp_all add: update_conv')
  have ok: "dict_ok ?l" "dict_ok ?r" using Cons.prems by (simp_all add: dict_simps)
  have claim: "c \<in> set (claimed claims i)" using Cons.prems(4) h by simp
  note move = nearly_matched_move [OF Cons.prems(5) claim]
  show ?case
  proof (cases ws)
    case Nil
    then have "map_of l i = None" "l' = ?l" "r' = ?r" using Cons.prems(1,8) h by auto
    then show ?thesis using move(1) ok Nil h by (simp add: matching_def upd dict_simps)
  next
    case (Cons g gs)
    then obtain d where d: "entered = Some d" "map_of l i = Some d" "d \<in> set (claimed claims (fst g))"
      using Cons.prems(1) h by (cases g) auto
    have "walk_ok claims (map_of ?l) ws"
      using walk_ok_tail [OF Cons.prems(1)]
    proof (rule walk_ok_cong, intro ballI)
      fix k assume "k \<in> set ws"
      then have "fst k \<noteq> i" using Cons.prems(2) h by force
      then show "map_of ?l (fst k) = map_of l (fst k)" by (simp add: upd)
    qed
    moreover have "nearly_matched claims d (map_of ?l) (map_of ?r)" unfolding upd by (rule move(2) [OF d(2)])
    moreover have "flip ws (Some d) (?l, ?r) = (l', r')" using Cons.prems(8) h d(1) by simp
    moreover have "distinct (map fst ws)" "d \<in> set (claimed claims (fst (hd ws)))"
      using Cons.prems(2) d(3) Cons by simp_all
    ultimately have "matching claims l' r' \<and> dict_keys l' = insert (fst (last ws)) (dict_keys ?l)"
      using Cons.IH ok Cons by blast
    moreover have "i \<in> dict_keys l" using d(2) by (metis dict_get_None option.distinct(1))
    ultimately show ?thesis using Cons by (simp add: dict_simps insert_absorb)
  qed
qed simp

section \<open>The walk\<close>

text \<open>Going down the stack the depth falls by one, so no component is on it twice.\<close>

fun depth_chain :: "(nat \<rightharpoonup> int) \<Rightarrow> hop list \<Rightarrow> bool" where
  "depth_chain D [] = True"
| "depth_chain D [h] = (\<exists>d. D (fst h) = Some d \<and> 0 \<le> d)"
| "depth_chain D (h # g # ws) =
     ((\<exists>d. D (fst g) = Some d \<and> D (fst h) = Some (d + 1)) \<and> depth_chain D (g # ws))"

lemma depth_chain_top: "depth_chain D (h # ws) \<Longrightarrow> \<exists>d \<ge> 0. D (fst h) = Some d"
proof (induction ws arbitrary: h)
  case (Cons g ws)
  then obtain d where "D (fst g) = Some d" "D (fst h) = Some (d + 1)" by auto
  moreover have "\<exists>d \<ge> 0. D (fst g) = Some d" by (rule Cons.IH) (use Cons.prems in simp)
  ultimately show ?case by auto
qed auto

lemma depth_chain_less:
  "\<lbrakk>depth_chain D (h # ws); g \<in> set ws\<rbrakk> \<Longrightarrow> \<exists>e f. D (fst g) = Some e \<and> D (fst h) = Some f \<and> 0 \<le> e \<and> e < f"
proof (induction ws arbitrary: h)
  case (Cons k ws)
  then obtain d where d: "D (fst k) = Some d" "D (fst h) = Some (d + 1)" by auto
  have ch: "depth_chain D (k # ws)" using Cons.prems by simp
  show ?case
  proof (cases "g = k")
    case True
    then show ?thesis using d depth_chain_top [OF ch] by auto
  next
    case False
    then obtain e f where "D (fst g) = Some e" "D (fst k) = Some f" "0 \<le> e" "e < f"
      using Cons.IH [OF ch] Cons.prems(2) by auto
    then show ?thesis using d by auto
  qed
qed simp

lemma depth_chain_tail: "depth_chain D (h # ws) \<Longrightarrow> depth_chain D ws"
  by (cases ws) auto

lemma depth_chain_distinct: "depth_chain D ws \<Longrightarrow> distinct (map fst ws)"
proof (induction ws)
  case (Cons h ws)
  have "fst h \<notin> fst ` set ws" using depth_chain_less [OF Cons.prems] by fastforce
  then show ?case using Cons.IH depth_chain_tail [OF Cons.prems] by simp
qed simp

lemma depth_chain_cong: "\<lbrakk>depth_chain D ws; \<forall>h \<in> set ws. D' (fst h) = D (fst h)\<rbrakk> \<Longrightarrow> depth_chain D' ws"
  by (induction D ws rule: depth_chain.induct) auto

definition walk_inv :: "claims \<Rightarrow> hk \<Rightarrow> bool" where
  "walk_inv claims s \<longleftrightarrow> matching claims (hk_left s) (hk_right s) \<and> dict_ok (hk_depth s)
     \<and> walk_ok claims (map_of (hk_left s)) (hk_walk s) \<and> depth_chain (map_of (hk_depth s)) (hk_walk s)"

lemma walk_ok_hd: "walk_ok claims L ((i, rem, entered) # ws) \<Longrightarrow> set rem \<subseteq> set (claimed claims i)"
  by (cases ws) auto

lemma walk_ok_remaining:
  "\<lbrakk>walk_ok claims L ((i, rem, entered) # ws); set rem' \<subseteq> set rem\<rbrakk> \<Longrightarrow> walk_ok claims L ((i, rem', entered) # ws)"
  by (cases ws) (auto, meson in_mono)

lemma depth_chain_remaining: "depth_chain D ((i, rem, entered) # ws) = depth_chain D ((i, rem', entered') # ws)"
  by (cases ws) auto

text \<open>The four things a step can do.\<close>

lemma walk_step_cases:
  assumes "hk_walk s \<noteq> []"
  obtains (Exhausted) i e ws where "hk_walk s = (i, [], e) # ws"
      "walk_step claims s = s\<lparr>hk_depth := AList.update i (- 1) (hk_depth s), hk_walk := ws\<rparr>"
  | (Free) i c rem e ws l r where "hk_walk s = (i, c # rem, e) # ws" "map_of (hk_right s) c = None"
      "flip ((i, rem, e) # ws) (Some c) (hk_left s, hk_right s) = (l, r)"
      "walk_step claims s = s\<lparr>hk_left := l, hk_right := r, hk_walk := []\<rparr>"
  | (Enter) i c rem e ws k where "hk_walk s = (i, c # rem, e) # ws" "map_of (hk_right s) c = Some k"
      "map_of (hk_depth s) k = Some (depth_of (hk_depth s) i + 1)"
      "walk_step claims s = s\<lparr>hk_walk := (k, claimed claims k, Some c) # (i, rem, e) # ws\<rparr>"
  | (Skip) i c rem e ws k where "hk_walk s = (i, c # rem, e) # ws" "map_of (hk_right s) c = Some k"
      "map_of (hk_depth s) k \<noteq> Some (depth_of (hk_depth s) i + 1)"
      "walk_step claims s = s\<lparr>hk_walk := (i, rem, e) # ws\<rparr>"
proof -
  obtain i rem e ws where w: "hk_walk s = (i, rem, e) # ws" using assms by (metis neq_Nil_conv prod_cases3)
  show thesis
  proof (cases rem)
    case Nil
    then show thesis using Exhausted w by (simp add: walk_step_def)
  next
    case (Cons c cs)
    obtain l r where f: "flip ((i, cs, e) # ws) (Some c) (hk_left s, hk_right s) = (l, r)" by (metis surj_pair)
    show thesis
    proof (cases "map_of (hk_right s) c")
      case None
      then show thesis using Free w Cons f by (simp add: walk_step_def)
    next
      case (Some k)
      then show thesis
        using Enter Skip w Cons
        by (cases "map_of (hk_depth s) k = Some (depth_of (hk_depth s) i + 1)") (simp_all add: walk_step_def)
    qed
  qed
qed

lemma walk_ok_last: "\<lbrakk>walk_ok claims L ws; ws \<noteq> []\<rbrakk> \<Longrightarrow> L (fst (last ws)) = None"
  by (induction claims L ws rule: walk_ok.induct) auto

text \<open>A walk that found a free observation matches the component it started from.\<close>

lemma flip_walk:
  assumes "walk_inv claims s" "hk_walk s = (i, c # rem, e) # ws" "map_of (hk_right s) c = None"
    and "flip ((i, rem, e) # ws) (Some c) (hk_left s, hk_right s) = (l, r)"
  shows "matching claims l r" "dict_keys l = insert (fst (last (hk_walk s))) (dict_keys (hk_left s))"
    "fst (last (hk_walk s)) \<notin> dict_keys (hk_left s)"
proof -
  have m: "matching claims (hk_left s) (hk_right s)" and wk: "walk_ok claims (map_of (hk_left s)) ((i, c # rem, e) # ws)"
    and ch: "depth_chain (map_of (hk_depth s)) ((i, c # rem, e) # ws)"
    using assms(1,2) by (simp_all add: walk_inv_def)
  have "near": "nearly_matched claims c (map_of (hk_left s)) (map_of (hk_right s))"
    using m assms(3) by (simp add: matching_def matched_nearly)
  have "c \<in> set (claimed claims i)" using walk_ok_hd [OF wk] by simp
  moreover have wk': "walk_ok claims (map_of (hk_left s)) ((i, rem, e) # ws)" by (rule walk_ok_remaining [OF wk]) auto
  moreover have "distinct (map fst ((i, rem, e) # ws))" using depth_chain_distinct [OF ch] by simp
  ultimately have "matching claims l r \<and> dict_keys l = insert (fst (last ((i, rem, e) # ws))) (dict_keys (hk_left s))"
    using flip_matching [OF _ _ _ _ "near" _ _ assms(4)] m by (simp add: matching_def)
  moreover have "fst (last (hk_walk s)) = fst (last ((i, rem, e) # ws))" using assms(2) by (cases ws) simp_all
  ultimately show "matching claims l r" "dict_keys l = insert (fst (last (hk_walk s))) (dict_keys (hk_left s))"
    by simp_all
  show "fst (last (hk_walk s)) \<notin> dict_keys (hk_left s)"
    using walk_ok_last [OF wk] assms(2) by (simp add: dict_get_None)
qed

lemma walk_step_inv:
  assumes "walk_inv claims s" "hk_walk s \<noteq> []"
  shows "walk_inv claims (walk_step claims s)"
proof -
  have m: "matching claims (hk_left s) (hk_right s)" and dk: "dict_ok (hk_depth s)"
    and wk: "walk_ok claims (map_of (hk_left s)) (hk_walk s)" and ch: "depth_chain (map_of (hk_depth s)) (hk_walk s)"
    using assms(1) by (simp_all add: walk_inv_def)
  from assms(2) show ?thesis
  proof (cases rule: walk_step_cases [where claims = claims])
    case (Exhausted i e ws)
    have "depth_chain (map_of (AList.update i (- 1) (hk_depth s))) ws"
      using depth_chain_tail [OF ch [unfolded Exhausted(1)]]
    proof (rule depth_chain_cong, intro ballI)
      fix h assume "h \<in> set ws"
      then have "fst h \<noteq> i" using depth_chain_distinct [OF ch [unfolded Exhausted(1)]] by force
      then show "map_of (AList.update i (- 1) (hk_depth s)) (fst h) = map_of (hk_depth s) (fst h)"
        by (simp add: dict_simps)
    qed
    then show ?thesis
      using m dk walk_ok_tail [OF wk [unfolded Exhausted(1)]] Exhausted(2) by (simp add: walk_inv_def dict_simps)
  next
    case (Free i c rem e ws l r)
    have "matching claims l r" using flip_walk [OF assms(1) Free(1-3)] by simp
    then show ?thesis using dk Free(4) by (simp add: walk_inv_def)
  next
    case (Enter i c rem e ws k)
    have "c \<in> set (claimed claims i)" using walk_ok_hd [OF wk [unfolded Enter(1)]] by simp
    moreover have "map_of (hk_left s) k = Some c" using m Enter(2) by (simp add: matching_def matched_def)
    moreover have "walk_ok claims (map_of (hk_left s)) ((i, rem, e) # ws)"
      by (rule walk_ok_remaining [OF wk [unfolded Enter(1)]]) auto
    moreover have chi: "depth_chain (map_of (hk_depth s)) ((i, rem, e) # ws)"
      using ch [unfolded Enter(1)] depth_chain_remaining by blast
    moreover obtain d where "map_of (hk_depth s) i = Some d" using depth_chain_top [OF chi] by auto
    ultimately show ?thesis using m dk Enter(3,4) by (simp add: walk_inv_def depth_of_def)
  next
    case (Skip i c rem e ws k)
    have "walk_ok claims (map_of (hk_left s)) ((i, rem, e) # ws)"
      by (rule walk_ok_remaining [OF wk [unfolded Skip(1)]]) auto
    moreover have "depth_chain (map_of (hk_depth s)) ((i, rem, e) # ws)"
      using ch [unfolded Skip(1)] depth_chain_remaining by blast
    ultimately show ?thesis using m dk Skip(4) by (simp add: walk_inv_def)
  qed
qed

subsection \<open>A walk ends\<close>

definition waiting_nodes :: "hk \<Rightarrow> nat set" where
  "waiting_nodes s = {i \<in> dict_keys (hk_depth s). 0 \<le> depth_of (hk_depth s) i \<and> i \<notin> fst ` set (hk_walk s)}"

definition walk_potential :: "claims \<Rightarrow> hk \<Rightarrow> nat" where
  "walk_potential claims s = (\<Sum>i \<in> waiting_nodes s. length (claimed claims i) + 2)
     + sum_list (map (\<lambda>(i, rem, e). length rem + 1) (hk_walk s))"

definition walk_measure :: "claims \<Rightarrow> hk \<Rightarrow> nat" where
  "walk_measure claims s = (if hk_walk s = [] then 0 else walk_potential claims s)"

lemma finite_waiting: "finite (waiting_nodes s)"
  by (simp add: waiting_nodes_def)

lemma potential_positive: "hk_walk s \<noteq> [] \<Longrightarrow> 0 < walk_potential claims s"
  by (cases "hk_walk s") (auto simp: walk_potential_def)

lemma walk_step_decreases:
  assumes "walk_inv claims s" "hk_walk s \<noteq> []"
  shows "walk_measure claims (walk_step claims s) < walk_measure claims s"
proof -
  have ch: "depth_chain (map_of (hk_depth s)) (hk_walk s)" using assms(1) by (simp add: walk_inv_def)
  have less: "walk_measure claims t < walk_measure claims s" if "walk_potential claims t < walk_potential claims s" for t
    using that assms(2) by (simp add: walk_measure_def)
  from assms(2) show ?thesis
  proof (cases rule: walk_step_cases [where claims = claims])
    case (Exhausted i e ws)
    let ?t = "walk_step claims s"
    have "waiting_nodes ?t \<subseteq> waiting_nodes s"
      using Exhausted by (auto simp: waiting_nodes_def dict_simps depth_of_def split: if_splits)
    then have "(\<Sum>i \<in> waiting_nodes ?t. length (claimed claims i) + 2) \<le> (\<Sum>i \<in> waiting_nodes s. length (claimed claims i) + 2)"
      by (intro sum_mono2 finite_waiting) auto
    then show ?thesis using Exhausted by (intro less) (simp add: walk_potential_def)
  next
    case (Free i c rem e ws l r)
    then show ?thesis using potential_positive [OF assms(2)] assms(2) by (simp add: walk_measure_def)
  next
    case (Enter i c rem e ws k)
    let ?t = "walk_step claims s"
    have chi: "depth_chain (map_of (hk_depth s)) ((i, c # rem, e) # ws)" using ch Enter(1) by simp
    obtain d where d: "map_of (hk_depth s) i = Some d" "0 \<le> d" using depth_chain_top [OF chi] by auto
    have kd: "map_of (hk_depth s) k = Some (d + 1)" using Enter(3) d(1) by (simp add: depth_of_def)
    have "k \<notin> fst ` set (hk_walk s)"
      using depth_chain_less [OF chi] d kd Enter(1) by fastforce
    moreover have "k \<in> dict_keys (hk_depth s)" using kd by (metis dict_get_None option.distinct(1))
    ultimately have k: "k \<in> waiting_nodes s" using kd d(2) by (simp add: waiting_nodes_def depth_of_def)
    have w: "waiting_nodes ?t = waiting_nodes s - {k}" using Enter(1,4) by (auto simp: waiting_nodes_def)
    have "(\<Sum>i \<in> waiting_nodes s. length (claimed claims i) + 2)
        = length (claimed claims k) + 2 + (\<Sum>i \<in> waiting_nodes ?t. length (claimed claims i) + 2)"
      unfolding w by (rule sum.remove [OF finite_waiting k])
    then show ?thesis using Enter(1,4) by (intro less) (simp add: walk_potential_def)
  next
    case (Skip i c rem e ws k)
    have "waiting_nodes (walk_step claims s) = waiting_nodes s" using Skip(1,4) by (simp add: waiting_nodes_def)
    then show ?thesis using Skip(1,4) by (intro less) (simp add: walk_potential_def)
  qed
qed

subsection \<open>What a walk leaves unexplored\<close>

text \<open>
  While no walk of a phase has found a free observation, matching and layers are those of its beginning, and a
  component marked with \<open>-1\<close> is exhausted: each of its observations is taken, by a component that is
  exhausted too when it lies on the next layer.
\<close>

definition exhausted :: "hk \<Rightarrow> nat set" where
  "exhausted s = {i. map_of (hk_depth s) i = Some (- 1)}"

definition leads_on :: "hk \<Rightarrow> (nat, int) dict \<Rightarrow> nat set \<Rightarrow> nat \<Rightarrow> nat \<Rightarrow> bool" where
  "leads_on s D X i c \<longleftrightarrow> (\<exists>k. map_of (hk_right s) c = Some k \<and> (map_of D k = Some (depth_of D i + 1) \<longrightarrow> k \<in> X))"

fun explored_stack :: "claims \<Rightarrow> hk \<Rightarrow> (nat, int) dict \<Rightarrow> nat set \<Rightarrow> hop list \<Rightarrow> bool" where
  "explored_stack claims s D X [] = True"
| "explored_stack claims s D X ((i, rem, e) # ws) =
     ((\<exists>tried. claimed claims i = tried @ rem \<and> (\<forall>c \<in> set tried. leads_on s D X i c))
      \<and> explored_stack claims s D (insert i X) ws)"

definition unflipped :: "claims \<Rightarrow> (nat, nat) dict \<Rightarrow> (nat, nat) dict \<Rightarrow> (nat, int) dict \<Rightarrow> hk \<Rightarrow> bool" where
  "unflipped claims l r D s \<longleftrightarrow> hk_left s = l \<and> hk_right s = r
     \<and> (\<forall>i d. map_of D i = Some d \<longrightarrow> 0 \<le> d)
     \<and> (\<forall>i. i \<notin> exhausted s \<longrightarrow> map_of (hk_depth s) i = map_of D i)
     \<and> (\<forall>i \<in> exhausted s. \<forall>c \<in> set (claimed claims i). leads_on s D (exhausted s) i c)
     \<and> explored_stack claims s D (exhausted s) (hk_walk s)"

lemma leads_on_walk [simp]: "leads_on (s\<lparr>hk_walk := w\<rparr>) = leads_on s"
  by (intro ext) (simp add: leads_on_def)

lemma leads_on_mono: "\<lbrakk>leads_on s D X i c; X \<subseteq> Y\<rbrakk> \<Longrightarrow> leads_on s D Y i c"
  by (auto simp: leads_on_def)

lemma explored_stack_mono:
  "\<lbrakk>explored_stack claims s D X ws; X \<subseteq> Y; hk_right s' = hk_right s\<rbrakk> \<Longrightarrow> explored_stack claims s' D Y ws"
proof (induction ws arbitrary: X Y)
  case (Cons h ws)
  obtain i rem e where h: "h = (i, rem, e)" by (metis prod_cases3)
  have "explored_stack claims s' D (insert i Y) ws"
    by (rule Cons.IH [of "insert i X"]) (use Cons.prems h in auto)
  moreover have "leads_on s D X i c \<Longrightarrow> leads_on s' D Y i c" for c
    using Cons.prems(2,3) by (auto simp: leads_on_def)
  ultimately show ?case using Cons.prems(1) h by auto
qed simp

lemma walk_step_left:
  assumes "walk_inv claims s" "hk_walk s \<noteq> []"
  defines "t \<equiv> walk_step claims s"
  shows "hk_left t = hk_left s \<and> hk_right t = hk_right s
      \<and> (hk_walk t \<noteq> [] \<longrightarrow> fst (last (hk_walk t)) = fst (last (hk_walk s)))
      \<and> (hk_walk t = [] \<longrightarrow> fst (last (hk_walk s)) \<in> exhausted t)
    \<or> hk_walk t = [] \<and> dict_keys (hk_left t) = insert (fst (last (hk_walk s))) (dict_keys (hk_left s))"
  using assms(2)
proof (cases rule: walk_step_cases [where claims = claims])
  case (Exhausted i e ws)
  then show ?thesis by (cases ws) (auto simp: t_def exhausted_def dict_simps)
next
  case (Free i c rem e ws l r)
  then show ?thesis using flip_walk(2) [OF assms(1) Free(1-3)] by (simp add: t_def)
qed (auto simp: t_def)

lemma walk_step_unflipped:
  assumes "walk_inv claims s" "hk_walk s \<noteq> []" "unflipped claims l r D s"
  defines "t \<equiv> walk_step claims s"
  assumes "hk_left t = hk_left s"
  shows "unflipped claims l r D t"
proof -
  have ch: "depth_chain (map_of (hk_depth s)) (hk_walk s)" using assms(1) by (simp add: walk_inv_def)
  have top: "\<exists>d \<ge> 0. map_of (hk_depth s) i = Some d" if "hk_walk s = (i, rem, e) # ws" for i rem e ws
    using depth_chain_top ch that by fastforce
  have dp: "map_of (hk_depth s) i = map_of D i" if "i \<notin> exhausted s" for i
    using assms(3) that by (simp add: unflipped_def)
  from assms(2) show ?thesis
  proof (cases rule: walk_step_cases [where claims = claims])
    case (Exhausted i e ws)
    have x: "exhausted t = insert i (exhausted s)" using Exhausted by (auto simp: t_def exhausted_def dict_simps split: if_splits)
    have r: "hk_right t = hk_right s" using Exhausted by (simp add: t_def)
    have es: "\<forall>c \<in> set (claimed claims i). leads_on s D (exhausted s) i c"
      "explored_stack claims s D (exhausted t) ws" using assms(3) Exhausted(1) x by (auto simp: unflipped_def)
    have old: "\<forall>j \<in> exhausted s. \<forall>c \<in> set (claimed claims j). leads_on s D (exhausted s) j c"
      using assms(3) by (simp add: unflipped_def)
    have lt: "leads_on s D (exhausted s) j c \<Longrightarrow> leads_on t D (exhausted t) j c" for j c
      using r x by (auto simp: leads_on_def)
    have "\<forall>j \<in> exhausted t. \<forall>c \<in> set (claimed claims j). leads_on t D (exhausted t) j c"
      using es(1) old lt x by auto
    moreover have "explored_stack claims t D (exhausted t) (hk_walk t)"
      using explored_stack_mono [OF es(2) subset_refl r] Exhausted by (simp add: t_def)
    moreover have "j \<notin> exhausted t \<Longrightarrow> map_of (hk_depth t) j = map_of D j" for j
      using dp [of j] x Exhausted by (simp add: t_def dict_simps)
    ultimately show ?thesis using assms(3) Exhausted by (simp add: unflipped_def t_def)
  next
    case (Free i c rem e ws l' r')
    then show ?thesis using flip_walk(2,3) [OF assms(1) Free(1-3)] assms(5) by (simp add: t_def) blast
  next
    case (Enter i c rem e ws k)
    have x: "exhausted t = exhausted s" and r: "hk_right t = hk_right s" using Enter by (simp_all add: t_def exhausted_def)
    obtain tried where tr: "claimed claims i = tried @ c # rem" "\<forall>c \<in> set tried. leads_on s D (exhausted s) i c"
      "explored_stack claims s D (insert i (exhausted s)) ws" using assms(3) Enter(1) by (auto simp: unflipped_def)
    have lt: "leads_on s D (exhausted s) i d \<Longrightarrow> leads_on t D (insert k (exhausted s)) i d" for d
      using r by (auto simp: leads_on_def)
    have "claimed claims i = (tried @ [c]) @ rem \<and> (\<forall>d \<in> set (tried @ [c]). leads_on t D (insert k (exhausted s)) i d)"
      using tr lt Enter(2) r by (auto simp: leads_on_def)
    moreover have "explored_stack claims t D (insert i (insert k (exhausted s))) ws"
      by (rule explored_stack_mono [OF tr(3) _ r]) auto
    ultimately have "explored_stack claims t D (exhausted t) (hk_walk t)"
      using Enter(4) x by (auto simp: t_def)
    then show ?thesis using assms(3) Enter(4) x by (simp add: unflipped_def t_def)
  next
    case (Skip i c rem e ws k)
    have x: "exhausted t = exhausted s" and r: "hk_right t = hk_right s" using Skip by (simp_all add: t_def exhausted_def)
    obtain tried where tr: "claimed claims i = tried @ c # rem" "\<forall>c \<in> set tried. leads_on s D (exhausted s) i c"
      "explored_stack claims s D (insert i (exhausted s)) ws" using assms(3) Skip(1) by (auto simp: unflipped_def)
    have "i \<notin> exhausted s" using top [OF Skip(1)] by (auto simp: exhausted_def)
    then have "depth_of (hk_depth s) i = depth_of D i" using dp by (simp add: depth_of_def)
    then have "leads_on s D (exhausted s) i c" using Skip(2,3) dp [of k] by (cases "k \<in> exhausted s") (auto simp: leads_on_def)
    then have "claimed claims i = (tried @ [c]) @ rem \<and> (\<forall>d \<in> set (tried @ [c]). leads_on t D (exhausted s) i d)"
      using tr r by (auto simp: leads_on_def)
    moreover have "explored_stack claims t D (insert i (exhausted s)) ws"
      by (rule explored_stack_mono [OF tr(3) _ r]) auto
    ultimately have "explored_stack claims t D (exhausted t) (hk_walk t)"
      using Skip(4) x by (auto simp: t_def)
    then show ?thesis using assms(3) Skip(4) x by (simp add: unflipped_def t_def)
  qed
qed

text \<open>Only the start of the walk and components that have a partner are ever exhausted.\<close>

definition depth_kept :: "nat \<Rightarrow> hk \<Rightarrow> hk \<Rightarrow> bool" where
  "depth_kept start s t \<longleftrightarrow> dict_keys (hk_left s) \<subseteq> dict_keys (hk_left t)
     \<and> (\<forall>i. map_of (hk_depth t) i = map_of (hk_depth s) i \<or> i = start \<or> i \<in> dict_keys (hk_left t))"

lemma walk_ok_partner: "\<lbrakk>walk_ok claims L ((i, rem, e) # ws); ws \<noteq> []\<rbrakk> \<Longrightarrow> L i \<noteq> None"
  by (cases ws) auto

lemma walk_step_depth:
  assumes "walk_inv claims t" "hk_walk t \<noteq> []" "fst (last (hk_walk t)) = start" "depth_kept start s t"
  shows "depth_kept start s (walk_step claims t)"
  using assms(2)
proof (cases rule: walk_step_cases [where claims = claims])
  case (Exhausted i e ws)
  have "i = start \<or> i \<in> dict_keys (hk_left t)"
  proof (cases "ws = []")
    case True
    then show ?thesis using assms(3) Exhausted(1) by simp
  next
    case False
    then have "map_of (hk_left t) i \<noteq> None"
      using assms(1) Exhausted(1) walk_ok_partner [of claims "map_of (hk_left t)" i "[]" e ws] by (simp add: walk_inv_def)
    then show ?thesis by (simp add: dict_get_None)
  qed
  then show ?thesis using assms(4) Exhausted(2) by (auto simp: depth_kept_def dict_simps)
next
  case (Free i c rem e ws l r)
  have "dict_keys (hk_left t) \<subseteq> dict_keys l" using flip_walk(2) [OF assms(1) Free(1-3)] by blast
  then show ?thesis using assms(4) Free(4) unfolding depth_kept_def by (simp, meson subset_iff)
qed (use assms(4) in \<open>simp_all add: depth_kept_def\<close>)

section \<open>Walks and phases\<close>

definition grown :: "(nat, nat) dict \<Rightarrow> (nat, nat) dict \<Rightarrow> bool" where
  "grown l l' \<longleftrightarrow> (\<exists>i. i \<notin> dict_keys l \<and> insert i (dict_keys l) \<subseteq> dict_keys l')"

lemma walk_from_result:
  assumes "walk_inv claims s" "hk_walk s = []" "map_of (hk_left s) start = None"
    and "\<exists>d \<ge> 0. map_of (hk_depth s) start = Some d"
  obtains s' where "walk_from claims start s = Some s'" "walk_inv claims s'" "hk_walk s' = []"
    "hk_left s' = hk_left s \<and> hk_right s' = hk_right s \<and> start \<in> exhausted s'
       \<and> (\<forall>D. unflipped claims (hk_left s) (hk_right s) D s \<longrightarrow> unflipped claims (hk_left s) (hk_right s) D s')
     \<or> dict_keys (hk_left s') = insert start (dict_keys (hk_left s))"
    "depth_kept start s s'"
proof -
  let ?s = "s\<lparr>hk_walk := [(start, claimed claims start, None)]\<rparr>"
  let ?same = "\<lambda>t. hk_left t = hk_left s \<and> hk_right t = hk_right s
      \<and> (if hk_walk t = [] then start \<in> exhausted t else fst (last (hk_walk t)) = start)
      \<and> (\<forall>D. unflipped claims (hk_left s) (hk_right s) D s \<longrightarrow> unflipped claims (hk_left s) (hk_right s) D t)"
  let ?P = "\<lambda>t. walk_inv claims t \<and> depth_kept start s t
      \<and> (?same t \<or> hk_walk t = [] \<and> dict_keys (hk_left t) = insert start (dict_keys (hk_left s)))"
  have step: "?P (walk_step claims t) \<and> walk_measure claims (walk_step claims t) < walk_measure claims t"
    if "?P t" "hk_walk t \<noteq> []" for t
  proof -
    have inv: "walk_inv claims t" and sm: "?same t" and dk: "depth_kept start s t" using that by auto
    have lst: "fst (last (hk_walk t)) = start" using sm that(2) by simp
    have "?same (walk_step claims t)
        \<or> hk_walk (walk_step claims t) = [] \<and> dict_keys (hk_left (walk_step claims t)) = insert start (dict_keys (hk_left s))"
      using walk_step_left [OF inv that(2)] walk_step_unflipped [OF inv that(2)] sm lst by (auto split: if_splits)
    then show ?thesis
      using walk_step_inv [OF inv that(2)] walk_step_decreases [OF inv that(2)]
        walk_step_depth [OF inv that(2) lst dk] by blast
  qed
  have "explored_stack claims ?s D X [(start, claimed claims start, None)]" for D X by simp
  then have "unflipped claims (hk_left s) (hk_right s) D ?s" if "unflipped claims (hk_left s) (hk_right s) D s" for D
    using that by (simp add: unflipped_def exhausted_def)
  moreover have "walk_inv claims ?s" "depth_kept start s ?s" using assms by (auto simp: walk_inv_def depth_kept_def)
  ultimately have P: "?P ?s" by simp
  obtain s' where s': "walk_from claims start s = Some s'"
    using measure_while_option_Some [of ?P "\<lambda>s. hk_walk s \<noteq> []" "walk_step claims" "walk_measure claims" ?s] step P
    unfolding walk_from_def by blast
  have "?P s'"
    by (rule while_option_rule [where P = ?P, OF _ s' [unfolded walk_from_def] P]) (use step in blast)
  moreover have "hk_walk s' = []" using while_option_stop [OF s' [unfolded walk_from_def]] by simp
  ultimately show thesis using that s' by (auto split: if_splits)
qed

definition walk_ready :: "hk \<Rightarrow> nat list \<Rightarrow> bool" where
  "walk_ready s starts \<longleftrightarrow> distinct starts
     \<and> (\<forall>i \<in> set starts. map_of (hk_left s) i = None \<longrightarrow> (\<exists>d \<ge> 0. map_of (hk_depth s) i = Some d))"

text \<open>
  A phase ends; it matches more components, or it leaves the matching alone and has exhausted every component
  it started from.
\<close>

lemma walk_ready_next:
  assumes "walk_ready s (start # starts)" "depth_kept start s t"
  shows "walk_ready t starts"
proof -
  have "map_of (hk_depth t) i = map_of (hk_depth s) i \<and> map_of (hk_left s) i = None"
    if "i \<in> set starts" "map_of (hk_left t) i = None" for i
    using that assms unfolding walk_ready_def depth_kept_def dict_get_None by auto
  then show ?thesis using assms(1) by (auto simp: walk_ready_def)
qed

definition stalled :: "claims \<Rightarrow> nat list \<Rightarrow> hk \<Rightarrow> hk \<Rightarrow> bool" where
  "stalled claims starts s s' \<longleftrightarrow> hk_left s' = hk_left s \<and> hk_right s' = hk_right s
     \<and> (\<forall>i. map_of (hk_left s) i = None \<and> i \<notin> set starts \<longrightarrow> map_of (hk_depth s') i = map_of (hk_depth s) i)
     \<and> (\<forall>i \<in> set starts. map_of (hk_left s) i = None \<longrightarrow> i \<in> exhausted s')
     \<and> (\<forall>D. unflipped claims (hk_left s) (hk_right s) D s \<longrightarrow> unflipped claims (hk_left s) (hk_right s) D s')"

lemma stalled_Cons:
  assumes "walk_ready s (start # starts)" "map_of (hk_left s) start = None" "depth_kept start s t"
    and "hk_left t = hk_left s" "hk_right t = hk_right s" "start \<in> exhausted t" "stalled claims starts t s'"
    and "\<forall>D. unflipped claims (hk_left s) (hk_right s) D s \<longrightarrow> unflipped claims (hk_left s) (hk_right s) D t"
  shows "stalled claims (start # starts) s s'"
proof -
  have "start \<notin> set starts" using assms(1) by (simp add: walk_ready_def)
  then have "map_of (hk_depth s') start = map_of (hk_depth t) start"
    using assms(2,4,7) by (simp add: stalled_def)
  then have "start \<in> exhausted s'" using assms(6) by (simp add: exhausted_def)
  moreover have "map_of (hk_depth s') i = map_of (hk_depth s) i"
    if "map_of (hk_left s) i = None" "i \<notin> set (start # starts)" for i
    using that assms(3,4,7) by (auto simp: depth_kept_def stalled_def dict_get_None)
  ultimately show ?thesis using assms(4,5,7,8) by (simp add: stalled_def)
qed

lemma phase_result:
  assumes "walk_inv claims s" "hk_walk s = []" "walk_ready s starts"
  shows "\<exists>s'. phase claims starts s = Some s' \<and> walk_inv claims s' \<and> hk_walk s' = []
    \<and> dict_keys (hk_left s) \<subseteq> dict_keys (hk_left s') \<and> (grown (hk_left s) (hk_left s') \<or> stalled claims starts s s')"
  using assms
proof (induction starts arbitrary: s)
  case Nil
  then show ?case by (simp add: stalled_def)
next
  case (Cons start starts)
  show ?case
  proof (cases "map_of (hk_left s) start")
    case (Some c)
    have "walk_ready s starts" using Cons.prems(3) by (simp add: walk_ready_def)
    with Cons.IH [OF Cons.prems(1,2)] Some show ?thesis by (fastforce simp: stalled_def)
  next
    case None
    then have dp: "\<exists>d \<ge> 0. map_of (hk_depth s) start = Some d" using Cons.prems(3) by (simp add: walk_ready_def)
    obtain t where t: "walk_from claims start s = Some t" "walk_inv claims t" "hk_walk t = []" "depth_kept start s t"
      and res: "hk_left t = hk_left s \<and> hk_right t = hk_right s \<and> start \<in> exhausted t
          \<and> (\<forall>D. unflipped claims (hk_left s) (hk_right s) D s \<longrightarrow> unflipped claims (hk_left s) (hk_right s) D t)
        \<or> dict_keys (hk_left t) = insert start (dict_keys (hk_left s))"
      by (rule walk_from_result [OF Cons.prems(1,2) None dp])
    obtain s' where s': "phase claims starts t = Some s'" "walk_inv claims s'" "hk_walk s' = []"
      "dict_keys (hk_left t) \<subseteq> dict_keys (hk_left s')" "grown (hk_left t) (hk_left s') \<or> stalled claims starts t s'"
      using Cons.IH [OF t(2,3) walk_ready_next [OF Cons.prems(3) t(4)]] by blast
    have ph: "phase claims (start # starts) s = Some s'" using None t(1) s'(1) by simp
    have sub: "dict_keys (hk_left s) \<subseteq> dict_keys (hk_left s')"
      using t(4) s'(4) unfolding depth_kept_def by (meson subset_trans)
    from res have "grown (hk_left s) (hk_left s') \<or> stalled claims (start # starts) s s'"
    proof
      assume "dict_keys (hk_left t) = insert start (dict_keys (hk_left s))"
      then show ?thesis using s'(4) None by (auto simp: grown_def dict_get_None)
    qed (use s'(5) stalled_Cons [OF Cons.prems(3) None t(4)] in auto)
    with ph s'(2,3) sub show ?thesis by blast
  qed
qed

section \<open>Layers\<close>

text \<open>What scanning observations does to the layers: entries stay, and the new ones are taken components not seen before.\<close>

definition extends :: "(nat, nat) dict \<Rightarrow> layering \<Rightarrow> layering \<Rightarrow> bool" where
  "extends r s s' \<longleftrightarrow> (\<forall>i d. map_of (ly_depth s) i = Some d \<longrightarrow> map_of (ly_depth s') i = Some d)
     \<and> (ly_reached s \<longrightarrow> ly_reached s')
     \<and> (\<exists>new. ly_following s' = ly_following s @ new \<and> dict_keys (ly_depth s') = dict_keys (ly_depth s) \<union> set new
          \<and> set new \<inter> dict_keys (ly_depth s) = {} \<and> set new \<subseteq> snd ` set r)"

lemma extends_refl: "extends r s s"
  by (simp add: extends_def)

lemma extends_trans: "\<lbrakk>extends r a b; extends r b c\<rbrakk> \<Longrightarrow> extends r a c"
  unfolding extends_def by (elim conjE exE, intro conjI) (simp, simp, rule_tac x = "new @ newa" in exI, auto)

text \<open>Every layered component is a root or was found through an observation of the layer before.\<close>

definition layered :: "claims \<Rightarrow> (nat, nat) dict \<Rightarrow> (nat, nat) dict \<Rightarrow> layering \<Rightarrow> bool" where
  "layered claims l r s \<longleftrightarrow> dict_ok (ly_depth s) \<and> set (roots claims l) \<subseteq> dict_keys (ly_depth s)
     \<and> (\<forall>i d. map_of (ly_depth s) i = Some d \<longrightarrow> 0 \<le> d \<and> (d = 0 \<longrightarrow> i \<in> set (roots claims l))
          \<and> (d \<noteq> 0 \<longrightarrow> (\<exists>j c. map_of (ly_depth s) j = Some (d - 1) \<and> c \<in> set (claimed claims j) \<and> map_of r c = Some i)))
     \<and> (ly_reached s \<longrightarrow> (\<exists>i \<in> dict_keys (ly_depth s). \<exists>c \<in> set (claimed claims i). map_of r c = None))"

lemma layered_following [simp]: "layered claims l r (s\<lparr>ly_following := f\<rparr>) = layered claims l r s"
  by (simp add: layered_def)

lemma map_of_constant: "map_of (map (\<lambda>i. (i, d)) is) j = (if j \<in> set is then Some d else None)"
  by (induction "is") auto

definition taken :: "claims \<Rightarrow> (nat, nat) dict \<Rightarrow> layering \<Rightarrow> nat \<Rightarrow> bool" where
  "taken claims r s c \<longleftrightarrow> ly_reached s \<or> (\<exists>k \<in> dict_keys (ly_depth s). map_of r c = Some k)"

lemma taken_extends: "\<lbrakk>taken claims r s c; extends r s s'\<rbrakk> \<Longrightarrow> taken claims r s' c"
  unfolding taken_def extends_def by blast

lemma layer_candidate_result:
  assumes "layered claims l r s" "index \<in> dict_keys (ly_depth s)" "c \<in> set (claimed claims index)"
  defines "s' \<equiv> layer_candidate r index c s"
  shows "layered claims l r s' \<and> extends r s s' \<and> taken claims r s' c"
proof (cases "map_of r c")
  case None
  then have s': "s' = s\<lparr>ly_reached := True\<rparr>" by (simp add: s'_def layer_candidate_def)
  show ?thesis using assms(1-3) None unfolding s' by (auto simp: layered_def extends_def taken_def)
next
  case (Some k)
  show ?thesis
  proof (cases "map_of (ly_depth s) k")
    case (Some d)
    then have "s' = s" using \<open>map_of r c = Some k\<close> by (simp add: s'_def layer_candidate_def)
    moreover have "k \<in> dict_keys (ly_depth s)" using Some by (metis dict_get_None option.distinct(1))
    ultimately show ?thesis using assms(1) \<open>map_of r c = Some k\<close> by (auto simp: extends_refl taken_def)
  next
    case None
    obtain e where e: "map_of (ly_depth s) index = Some e"
      using assms(2) by (metis dict_get_None option.exhaust)
    then have s': "s' = s\<lparr>ly_depth := AList.update k (e + 1) (ly_depth s), ly_following := ly_following s @ [k]\<rparr>"
      using None \<open>map_of r c = Some k\<close> by (simp add: s'_def layer_candidate_def depth_of_def)
    have e0: "0 \<le> e" using assms(1) e unfolding layered_def by blast
    have nk: "k \<notin> dict_keys (ly_depth s)" using None by (simp add: dict_get_None)
    have kr: "k \<in> snd ` set r" using dict_get_Some_in [OF \<open>map_of r c = Some k\<close>] by force
    have "layered claims l r s'"
      unfolding layered_def
    proof (intro conjI allI impI)
      show "dict_ok (ly_depth s')" using assms(1) s' by (simp add: layered_def dict_simps)
      show "set (roots claims l) \<subseteq> dict_keys (ly_depth s')"
        using assms(1) s' by (auto simp: layered_def dict_simps)
      show "\<exists>i \<in> dict_keys (ly_depth s'). \<exists>c \<in> set (claimed claims i). map_of r c = None" if "ly_reached s'"
        using assms(1) s' that by (auto simp: layered_def dict_simps)
    next
      fix i d assume i: "map_of (ly_depth s') i = Some d"
      have old: "map_of (ly_depth s') j = Some d'" if "map_of (ly_depth s) j = Some d'" for j d'
        using that None s' by (auto simp: dict_simps)
      have "0 \<le> d \<and> (d = 0 \<longrightarrow> i \<in> set (roots claims l)) \<and> (d \<noteq> 0 \<longrightarrow>
          (\<exists>j c. map_of (ly_depth s') j = Some (d - 1) \<and> c \<in> set (claimed claims j) \<and> map_of r c = Some i))"
      proof (cases "i = k")
        case True
        then have "d = e + 1" using i s' by (simp add: dict_simps)
        then show ?thesis using e0 old [OF e] assms(3) \<open>map_of r c = Some k\<close> True by auto
      next
        case False
        then have "map_of (ly_depth s) i = Some d" using i s' by (simp add: dict_simps)
        then show ?thesis using assms(1) old unfolding layered_def by blast
      qed
      then show "0 \<le> d" "d = 0 \<Longrightarrow> i \<in> set (roots claims l)"
        "d \<noteq> 0 \<Longrightarrow> \<exists>j c. map_of (ly_depth s') j = Some (d - 1) \<and> c \<in> set (claimed claims j) \<and> map_of r c = Some i"
        by blast+
    qed
    moreover have "extends r s s'"
      unfolding extends_def using s' None nk kr by (auto simp: dict_simps)
    moreover have "taken claims r s' c"
      using s' \<open>map_of r c = Some k\<close> by (simp add: taken_def dict_simps)
    ultimately show ?thesis by blast
  qed
qed

lemma extends_keys: "extends r s s' \<Longrightarrow> dict_keys (ly_depth s) \<subseteq> dict_keys (ly_depth s')"
  by (auto simp: extends_def)

lemma layer_index_result:
  assumes "layered claims l r s" "index \<in> dict_keys (ly_depth s)" "set cs \<subseteq> set (claimed claims index)"
  shows "layered claims l r (fold (layer_candidate r index) cs s) \<and> extends r s (fold (layer_candidate r index) cs s)
    \<and> (\<forall>c \<in> set cs. taken claims r (fold (layer_candidate r index) cs s) c)"
  using assms
proof (induction cs arbitrary: s)
  case (Cons c cs)
  let ?t = "layer_candidate r index c s"
  have t: "layered claims l r ?t" "extends r s ?t" "taken claims r ?t c"
    using layer_candidate_result [OF Cons.prems(1,2), of c] Cons.prems(3) by auto
  have "index \<in> dict_keys (ly_depth ?t)" using extends_keys [OF t(2)] Cons.prems(2) by blast
  with Cons.IH [OF t(1)] Cons.prems(3) t(2,3) show ?case
    by (auto intro: extends_trans taken_extends)
qed (simp add: extends_refl)

lemma layer_fold_result:
  assumes "layered claims l r s" "set js \<subseteq> dict_keys (ly_depth s)"
  shows "layered claims l r (fold (layer_index claims r) js s) \<and> extends r s (fold (layer_index claims r) js s)
    \<and> (\<forall>i \<in> set js. \<forall>c \<in> set (claimed claims i). taken claims r (fold (layer_index claims r) js s) c)"
  using assms
proof (induction js arbitrary: s)
  case (Cons j js)
  let ?t = "layer_index claims r j s"
  have t: "layered claims l r ?t" "extends r s ?t" "\<forall>c \<in> set (claimed claims j). taken claims r ?t c"
    using layer_index_result [OF Cons.prems(1), of j "claimed claims j"] Cons.prems(2) by (auto simp: layer_index_def)
  have "set js \<subseteq> dict_keys (ly_depth ?t)" using extends_keys [OF t(2)] Cons.prems(2) by auto
  with Cons.IH [OF t(1)] t(2,3) show ?case
    by (auto intro: extends_trans taken_extends)
qed (simp add: extends_refl)

text \<open>Between the rounds: every observation of a component behind the frontier is taken by a layered component.\<close>

definition layer_inv :: "claims \<Rightarrow> (nat, nat) dict \<Rightarrow> (nat, nat) dict \<Rightarrow> layering \<Rightarrow> bool" where
  "layer_inv claims l r s \<longleftrightarrow> layered claims l r s \<and> set (ly_following s) \<subseteq> dict_keys (ly_depth s)
     \<and> (\<forall>i \<in> dict_keys (ly_depth s) - set (ly_following s). \<forall>c \<in> set (claimed claims i). taken claims r s c)"

definition layer_measure :: "(nat, nat) dict \<Rightarrow> layering \<Rightarrow> nat" where
  "layer_measure r s = 2 * card (snd ` set r - dict_keys (ly_depth s)) + (if ly_following s = [] then 0 else 1)"

lemma layer_round_result:
  assumes "layer_inv claims l r s" "ly_following s \<noteq> []"
  shows "layer_inv claims l r (layer_round claims r s)" "layer_measure r (layer_round claims r s) < layer_measure r s"
proof -
  let ?s = "s\<lparr>ly_following := []\<rparr>" and ?t = "layer_round claims r s"
  have "layered claims l r ?s" using assms(1) by (simp add: layer_inv_def)
  from layer_fold_result [OF this, of "ly_following s"] assms(1)
  have t: "layered claims l r ?t" "extends r ?s ?t" "\<forall>i \<in> set (ly_following s). \<forall>c \<in> set (claimed claims i). taken claims r ?t c"
    by (auto simp: layer_round_def layer_inv_def)
  from t(2) obtain new where new: "ly_following ?t = new" "dict_keys (ly_depth ?t) = dict_keys (ly_depth s) \<union> set new"
    "set new \<inter> dict_keys (ly_depth s) = {}" "set new \<subseteq> snd ` set r"
    by (auto simp: extends_def)
  have old: "taken claims r ?t c" if "taken claims r s c" for c
    by (rule taken_extends [OF _ t(2)]) (use that in \<open>simp add: taken_def\<close>)
  have "taken claims r ?t c"
    if "i \<in> dict_keys (ly_depth ?t) - set (ly_following ?t)" "c \<in> set (claimed claims i)" for i c
  proof (cases "i \<in> set (ly_following s)")
    case True
    then show ?thesis using t(3) that(2) by blast
  next
    case False
    then have "i \<in> dict_keys (ly_depth s) - set (ly_following s)" using that(1) new(1,2) by auto
    then show ?thesis using assms(1) old that(2) unfolding layer_inv_def by blast
  qed
  moreover have "set (ly_following ?t) \<subseteq> dict_keys (ly_depth ?t)" using new(1,2) by blast
  ultimately show "layer_inv claims l r ?t" using t(1) unfolding layer_inv_def by blast
  have sub: "snd ` set r - dict_keys (ly_depth ?t) \<subseteq> snd ` set r - dict_keys (ly_depth s)" using new(2) by auto
  show "layer_measure r ?t < layer_measure r s"
  proof (cases "new = []")
    case True
    have "card (snd ` set r - dict_keys (ly_depth ?t)) \<le> card (snd ` set r - dict_keys (ly_depth s))"
      by (rule card_mono [OF _ sub]) simp
    then show ?thesis using True new(1) assms(2) by (simp add: layer_measure_def)
  next
    case False
    then have "snd ` set r - dict_keys (ly_depth ?t) \<noteq> snd ` set r - dict_keys (ly_depth s)"
      using new(2-4) by (cases new) auto
    then have "card (snd ` set r - dict_keys (ly_depth ?t)) < card (snd ` set r - dict_keys (ly_depth s))"
      using sub by (intro psubset_card_mono) auto
    then show ?thesis using assms(2) by (simp add: layer_measure_def)
  qed
qed

lemma layer_start_inv:
  assumes "dict_ok claims"
  shows "layer_inv claims l r (layer_start claims l)"
proof -
  let ?rs = "roots claims l"
  have "distinct ?rs" using assms by (simp add: roots_def)
  moreover have "map fst (map (\<lambda>i. (i, 0 :: int)) ?rs) = ?rs" by (simp add: comp_def)
  ultimately show ?thesis
    by (auto simp: layer_inv_def layered_def layer_start_def image_comp comp_def map_of_constant simp del: map_of_eq_Some_iff
        split: if_splits)
qed

lemma layers_result:
  assumes "dict_ok claims"
  obtains y where "layers claims l r = Some y" "layer_inv claims l r y" "ly_following y = [] \<or> ly_reached y"
proof -
  let ?b = "\<lambda>s. ly_following s \<noteq> [] \<and> \<not> ly_reached s"
  have step: "layer_inv claims l r (layer_round claims r s) \<and> layer_measure r (layer_round claims r s) < layer_measure r s"
    if "layer_inv claims l r s" "?b s" for s
    using layer_round_result that by blast
  obtain y where y: "layers claims l r = Some y"
    using measure_while_option_Some [of "layer_inv claims l r" ?b "layer_round claims r" "layer_measure r"] step
      layer_start_inv [OF assms] unfolding layers_def by blast
  have "layer_inv claims l r y"
    by (rule while_option_rule [where P = "layer_inv claims l r", OF _ y [unfolded layers_def] layer_start_inv [OF assms]])
      (use step in blast)
  moreover have "ly_following y = [] \<or> ly_reached y" using while_option_stop [OF y [unfolded layers_def]] by simp
  ultimately show thesis using that y by blast
qed

section \<open>Progress and maximality\<close>

lemma dict_key_get: "i \<in> dict_keys d \<Longrightarrow> \<exists>v. map_of d i = Some v"
  by (metis dict_get_None not_None_eq)

definition phase_start :: "(nat, nat) dict \<Rightarrow> (nat, nat) dict \<Rightarrow> layering \<Rightarrow> hk" where
  "phase_start l r y = \<lparr>hk_left = l, hk_right = r, hk_depth = ly_depth y, hk_walk = []\<rparr>"

lemma layered_depth_nonneg: "\<lbrakk>layered claims l r y; map_of (ly_depth y) i = Some d\<rbrakk> \<Longrightarrow> 0 \<le> d"
  unfolding layered_def by blast

lemma phase_start_ok:
  assumes "matching claims l r" "layered claims l r y"
  shows "walk_inv claims (phase_start l r y)" "walk_ready (phase_start l r y) (map fst (ly_depth y))"
    "unflipped claims l r (ly_depth y) (phase_start l r y)"
proof -
  have ok: "dict_ok (ly_depth y)" using assms(2) by (simp add: layered_def)
  show "walk_inv claims (phase_start l r y)" using assms(1) ok by (simp add: walk_inv_def phase_start_def)
  have "\<exists>d \<ge> 0. map_of (ly_depth y) i = Some d" if i: "i \<in> set (map fst (ly_depth y))" for i
  proof -
    obtain d where "map_of (ly_depth y) i = Some d" using i dict_key_get [of i "ly_depth y"] by auto
    then show ?thesis using layered_depth_nonneg [OF assms(2)] by blast
  qed
  then show "walk_ready (phase_start l r y) (map fst (ly_depth y))"
    using ok by (simp add: walk_ready_def phase_start_def)
  have "exhausted (phase_start l r y) = {}"
    using layered_depth_nonneg [OF assms(2)] by (fastforce simp: exhausted_def phase_start_def)
  then show "unflipped claims l r (ly_depth y) (phase_start l r y)"
    using layered_depth_nonneg [OF assms(2)] by (auto simp: unflipped_def) (simp_all add: phase_start_def)
qed

text \<open>When the layers reached a free observation, the phase finds an augmenting walk.\<close>

lemma phase_not_stalled:
  assumes "matching claims l r" "layered claims l r y" "ly_reached y"
  shows "\<not> stalled claims (map fst (ly_depth y)) (phase_start l r y) s'"
proof
  assume st: "stalled claims (map fst (ly_depth y)) (phase_start l r y) s'"
  let ?D = "ly_depth y"
  have u: "unflipped claims l r ?D s'"
    using st phase_start_ok(3) [OF assms(1,2)] by (simp add: stalled_def phase_start_def)
  then have lead: "leads_on s' ?D (exhausted s') i c" if "i \<in> exhausted s'" "c \<in> set (claimed claims i)" for i c
    using that unfolding unflipped_def by blast
  have right: "hk_right s' = r" using u by (simp add: unflipped_def)
  have all: "i \<in> exhausted s'" if "map_of ?D i = Some (int n)" for i n
    using that
  proof (induction n arbitrary: i)
    case 0
    then have "i \<in> set (roots claims l)" using assms(2) unfolding layered_def by fastforce
    then have "map_of l i = None" by (simp add: roots_def)
    moreover have "i \<in> set (map fst ?D)" using 0 dict_get_Some_in by force
    ultimately show ?case using st by (auto simp: stalled_def phase_start_def)
  next
    case (Suc n)
    then obtain j c where j: "map_of ?D j = Some (int n)" "c \<in> set (claimed claims j)" "map_of r c = Some i"
      using assms(2) unfolding layered_def by fastforce
    then have "leads_on s' ?D (exhausted s') j c" using lead Suc.IH by blast
    then show ?case using j Suc.prems right by (simp add: leads_on_def depth_of_def add.commute)
  qed
  obtain i c where i: "i \<in> dict_keys ?D" "c \<in> set (claimed claims i)" "map_of r c = None"
    using assms(2,3) unfolding layered_def by blast
  then obtain d where d: "map_of ?D i = Some d" by (metis dict_get_None not_None_eq)
  then have "map_of ?D i = Some (int (nat d))" using layered_depth_nonneg [OF assms(2) d] by simp
  then have "leads_on s' ?D (exhausted s') i c" using lead all i(2) by blast
  then show False using i(3) right by (simp add: leads_on_def)
qed

text \<open>An assignment explains observations by approved components that claim them, each component at most one.\<close>

definition assignment :: "claims \<Rightarrow> (nat \<rightharpoonup> nat) \<Rightarrow> bool" where
  "assignment claims M \<longleftrightarrow> (\<forall>i c. M i = Some c \<longrightarrow> c \<in> set (claimed claims i)) \<and> inj_on M (dom M)"

lemma claimed_key: "c \<in> set (claimed claims i) \<Longrightarrow> i \<in> dict_keys claims"
  by (auto simp: claimed_def split: option.splits dest: dict_get_Some_in) (metis dict_get_Some_in fst_conv image_eqI)

lemma assignment_dom:
  assumes "assignment claims M"
  shows "dom M \<subseteq> dict_keys claims"
proof
  fix i assume "i \<in> dom M"
  then obtain c where "M i = Some c" by auto
  then have "c \<in> set (claimed claims i)" using assms by (simp add: assignment_def)
  then show "i \<in> dict_keys claims" by (rule claimed_key)
qed

lemma matching_keys: "matching claims l r \<Longrightarrow> dict_keys l \<subseteq> dict_keys claims"
proof
  fix i assume m: "matching claims l r" and "i \<in> dict_keys l"
  then obtain c where "map_of l i = Some c" by (metis dict_get_None not_None_eq)
  then show "i \<in> dict_keys claims" using m claimed_key unfolding matching_def matched_def by blast
qed

lemma matching_assignment:
  assumes "matching claims l r"
  shows "assignment claims (map_of l)" "ran (map_of l) = dict_keys r" "length l = length r"
proof -
  have m: "\<And>i c. map_of l i = Some c \<longleftrightarrow> map_of r c = Some i" and cl: "\<And>i c. map_of l i = Some c \<Longrightarrow> c \<in> set (claimed claims i)"
    and ok: "dict_ok l" "dict_ok r" using assms by (simp_all add: matching_def matched_def)
  have inj: "inj_on (map_of l) (dom (map_of l))"
    by (rule inj_onI) (metis domD m option.inject)
  then show "assignment claims (map_of l)" using cl by (simp add: assignment_def)
  show ran: "ran (map_of l) = dict_keys r"
  proof (intro set_eqI)
    fix c
    have "c \<in> ran (map_of l) \<longleftrightarrow> (\<exists>i. map_of r c = Some i)" by (simp only: ran_def mem_Collect_eq m)
    also have "\<dots> \<longleftrightarrow> c \<in> dict_keys r" by (metis dict_get_None not_None_eq)
    finally show "c \<in> ran (map_of l) \<longleftrightarrow> c \<in> dict_keys r" .
  qed
  have "card (ran (map_of l)) = card (dom (map_of l))"
  proof -
    have "Some ` ran (map_of l) = map_of l ` dom (map_of l)"
      unfolding ran_def dom_def by (auto, metis (mono_tags, lifting) image_eqI mem_Collect_eq option.distinct(1))
    then show ?thesis using card_image [OF inj] card_image [of Some "ran (map_of l)"] by simp
  qed
  then show "length l = length r"
    using ran ok by (simp add: dom_map_of_conv_image_fst) (metis distinct_card length_map list.set_map)
qed

text \<open>
  When the layers end without reaching a free observation, they are a certificate: the observations claimed inside
  the layers are all taken by matched layered components, and every component outside is matched.
\<close>

lemma layers_certify:
  assumes ok: "dict_ok claims" and m: "matching claims l r" and y: "layer_inv claims l r y"
    and stop: "ly_following y = []" "\<not> ly_reached y" and M: "assignment claims M"
  shows "card (dom M) \<le> length l"
proof -
  let ?L = "dict_keys (ly_depth y)" and ?K = "dict_keys l"
  have dl: "dict_ok l" and mm: "\<And>i c. map_of l i = Some c \<longleftrightarrow> map_of r c = Some i"
    using m by (simp_all add: matching_def matched_def)
  have fin: "finite (dom M)"
    by (rule finite_subset [OF assignment_dom [OF M]]) simp
  have tk: "\<exists>k \<in> ?L. map_of r c = Some k" if "i \<in> ?L" "c \<in> set (claimed claims i)" for i c
    using y stop that by (auto simp: layer_inv_def taken_def)
  define own where "own i = the (map_of r (the (M i)))" for i
  have own: "own i \<in> ?L \<inter> ?K \<and> map_of r (the (M i)) = Some (own i)" if i: "i \<in> dom M \<inter> ?L" for i
  proof -
    obtain c where c: "M i = Some c" using i by auto
    then have "c \<in> set (claimed claims i)" using M by (simp add: assignment_def)
    with tk i obtain k where k: "k \<in> ?L" "map_of r c = Some k" by blast
    then have "k \<in> ?K" using mm dict_get_None by (metis option.distinct(1))
    then show ?thesis using k c by (simp add: own_def)
  qed
  have "inj_on own (dom M \<inter> ?L)"
  proof (rule inj_onI)
    fix i j assume i: "i \<in> dom M \<inter> ?L" and j: "j \<in> dom M \<inter> ?L" and eq: "own i = own j"
    have "map_of l (own i) = Some (the (M i))" "map_of l (own j) = Some (the (M j))"
      using own [OF i] own [OF j] mm by auto
    then have "M i = M j" using eq i j by auto
    then show "i = j" using M i j by (auto simp: assignment_def inj_on_def)
  qed
  then have a: "card (dom M \<inter> ?L) \<le> card (?L \<inter> ?K)"
    using own by (intro card_inj_on_le) auto
  have "dom M - ?L \<subseteq> ?K - ?L"
  proof
    fix i assume i: "i \<in> dom M - ?L"
    then have "i \<in> dict_keys claims" using assignment_dom [OF M] by blast
    moreover have "i \<notin> set (roots claims l)" using y i by (auto simp: layer_inv_def layered_def)
    ultimately have "map_of l i \<noteq> None" by (auto simp: roots_def)
    then show "i \<in> ?K - ?L" using i by (simp add: dict_get_None)
  qed
  then have b: "card (dom M - ?L) \<le> card (?K - ?L)" by (intro card_mono) auto
  have "card (dom M) = card (dom M \<inter> ?L) + card (dom M - ?L)" using fin by (simp add: card_Int_Diff)
  also have "\<dots> \<le> card (?K \<inter> ?L) + card (?K - ?L)" using a b by (simp add: Int_commute)
  also have "\<dots> = card ?K" by (rule card_Int_Diff [symmetric]) simp
  finally show ?thesis using dl by (metis distinct_card length_map list.set_map)
qed

lemma assignment_card: "assignment claims M \<Longrightarrow> card (ran M) = card (dom M)"
proof -
  assume "assignment claims M"
  then have "inj_on M (dom M)" by (simp add: assignment_def)
  moreover have "Some ` ran M = M ` dom M"
    unfolding ran_def dom_def by (auto, metis (mono_tags, lifting) image_eqI mem_Collect_eq option.distinct(1))
  ultimately show ?thesis using card_image [of M "dom M"] card_image [of Some "ran M"] by simp
qed

lemma explain_result:
  assumes "dict_ok claims" "matching claims l r"
  shows "\<exists>l' r'. explain claims l r = Some (map fst r') \<and> matching claims l' r'
    \<and> (\<forall>M. assignment claims M \<longrightarrow> card (dom M) \<le> length l')"
  using assms(2)
proof (induction "length claims - length l" arbitrary: l r rule: less_induct)
  case less
  obtain y where y: "layers claims l r = Some y" "layer_inv claims l r y" "ly_following y = [] \<or> ly_reached y"
    by (rule layers_result [OF assms(1)])
  show ?case
  proof (cases "ly_reached y")
    case False
    then have "explain claims l r = Some (map fst r)" using y(1) by (simp add: explain.simps)
    moreover have "card (dom M) \<le> length l" if "assignment claims M" for M
      using layers_certify [OF assms(1) less.prems y(2)] y(3) False that by blast
    ultimately show ?thesis using less.prems by blast
  next
    case True
    have ly: "layered claims l r y" using y(2) by (simp add: layer_inv_def)
    note ps = phase_start_ok [OF less.prems ly]
    obtain s where s: "phase claims (map fst (ly_depth y)) (phase_start l r y) = Some s" "walk_inv claims s"
      "dict_keys (hk_left (phase_start l r y)) \<subseteq> dict_keys (hk_left s)" "grown (hk_left (phase_start l r y)) (hk_left s)"
      using phase_result [OF ps(1) _ ps(2)] phase_not_stalled [OF less.prems ly True] by (auto simp: phase_start_def)
    have ms: "matching claims (hk_left s) (hk_right s)" using s(2) by (simp add: walk_inv_def)
    have ex: "explain claims l r = explain claims (hk_left s) (hk_right s)"
      using y(1) True s(1) by (simp add: explain.simps [of claims l r] phase_start_def)
    have "dict_keys l \<subset> dict_keys (hk_left s)" using s(3,4) by (auto simp: grown_def phase_start_def)
    then have "card (dict_keys l) < card (dict_keys (hk_left s))" by (intro psubset_card_mono) auto
    moreover have "card (dict_keys l) = length l" "card (dict_keys (hk_left s)) = length (hk_left s)"
      using less.prems ms by (metis matching_def distinct_card length_map list.set_map)+
    moreover have "card (dict_keys (hk_left s)) \<le> card (dict_keys claims)"
      by (rule card_mono [OF _ matching_keys [OF ms]]) simp
    moreover have "card (dict_keys claims) = length claims"
      using assms(1) by (metis distinct_card length_map list.set_map)
    ultimately have "length claims - length (hk_left s) < length claims - length l" by linarith
    from less.hyps [OF this ms] show ?thesis using ex by simp
  qed
qed

lemma explained_result:
  assumes "dict_ok claims"
  shows "\<exists>cs. explained claims = Some cs \<and> distinct cs \<and> (\<exists>M. assignment claims M \<and> ran M = set cs)
    \<and> (\<forall>M. assignment claims M \<longrightarrow> card (ran M) \<le> length cs)"
proof -
  have "matching claims [] []" by (simp add: matching_def matched_def)
  then obtain l r where e: "explain claims [] [] = Some (map fst r)" and m: "matching claims l r"
    and mx: "\<forall>M. assignment claims M \<longrightarrow> card (dom M) \<le> length l"
    using explain_result [OF assms] by blast
  have "distinct (map fst r)" using m by (simp add: matching_def)
  moreover have "card (ran M) \<le> length (map fst r)" if "assignment claims M" for M
    using mx that assignment_card matching_assignment(3) [OF m] by simp
  ultimately show ?thesis
    using e matching_assignment(1,2) [OF m] by (auto simp: explained_def)
qed

text \<open>
  C20. \<open>_explained\<close> always returns, and what it returns is right whatever the order in which sets are iterated: the
  observations are those of one assignment of observations to approved components that claim them, and no
  assignment explains more.
\<close>

theorem explained_maximum:
  assumes "dict_ok claims"
  shows "\<exists>cs. explained claims = Some cs \<and> distinct cs \<and> (\<exists>M. assignment claims M \<and> ran M = set cs)
    \<and> (\<forall>M. assignment claims M \<longrightarrow> card (ran M) \<le> length cs)"
  by (rule explained_result [OF assms])

theorem explained_maximum_witness:
  "\<exists>cs. explained [(0, [5, 6]), (1, [5])] = Some cs \<and> length cs = 2"
proof -
  obtain cs where cs: "explained [(0, [5, 6]), (1, [5])] = Some cs"
    and mx: "\<forall>M. assignment [(0, [5, 6]), (1, [5])] M \<longrightarrow> card (ran M) \<le> length cs"
    using explained_maximum [of "[(0, [5, 6]), (1, [5])]"] by auto
  let ?M = "[0 \<mapsto> 6, 1 \<mapsto> 5] :: nat \<rightharpoonup> nat"
  have "assignment [(0, [5, 6]), (1, [5])] ?M" by (auto simp: assignment_def claimed_def inj_on_def split: if_splits)
  then have "card (ran ?M) \<le> length cs" using mx by blast
  moreover have "ran ?M = {5, 6}" by (auto simp: ran_def)
  moreover have "explained [(0, [5, 6]), (1, [5])] = Some [5, 6]" by code_simp
  ultimately show ?thesis by simp
qed

end
