(* ===== verification/Hardware_Integrity.thy ===== *)
theory Hardware_Integrity
  imports Integrity_Matching "HOL-Library.Char_ord" "HOL-Library.List_Lexorder" "HOL-Library.Product_Lexorder"
begin

text \<open>
  The comparison of an approved hardware inventory with what the probes see now:
  \<^verbatim>\<open>server/app/integrity/model.py\<close>. Components are addressed by their index as in the source; a set of indices that the
  code iterates is the ascending list. The \<open>Counter\<close> look-ups are counting functions. Findings for kinds
  that are listed from a set come in the order of the kinds.
\<close>

section \<open>Data\<close>

datatype hw_kind = CPU | MEMORY | STORAGE | GPU

definition all_kinds :: "hw_kind list" where
  "all_kinds = [CPU, MEMORY, STORAGE, GPU]"

datatype hw_state = OK | CHANGED | MISSING | NEW_DEVICE | UNVERIFIABLE

type_synonym pairs = "(string \<times> string) list"

record hw_component =
  co_kind :: hw_kind
  co_location :: string
  co_properties :: pairs
  co_identity :: pairs
  co_complete :: bool

datatype integrity_error = INVALID_COMPONENT | INVENTORY_LIMIT | AMBIGUOUS_INVENTORY | INVALID_INTEGRITY_FINDING

definition pairs_ok :: "pairs \<Rightarrow> bool" where
  "pairs_ok ps \<longleftrightarrow> length ps \<le> 32 \<and> distinct (map fst ps)
     \<and> list_all (\<lambda>(key, v). key \<noteq> [] \<and> length key \<le> 64 \<and> length v \<le> 1024) ps"

definition make_component :: "hw_kind \<Rightarrow> string \<Rightarrow> pairs \<Rightarrow> pairs \<Rightarrow> bool \<Rightarrow> integrity_error + hw_component" where
  "make_component kind location properties identity is_complete =
     (if location = [] \<or> length location > 256 \<or> \<not> pairs_ok properties \<or> \<not> pairs_ok identity then Inl INVALID_COMPONENT
      else Inr \<lparr>co_kind = kind, co_location = location, co_properties = sort properties, co_identity = sort identity,
                co_complete = is_complete\<rparr>)"

record inventory =
  in_components :: "hw_component list"
  in_unavailable :: "hw_kind set"

definition inventory_ok :: "inventory \<Rightarrow> integrity_error option" where
  "inventory_ok v =
     (if length (in_components v) > 1024 then Some INVENTORY_LIMIT
      else if \<not> distinct (map (\<lambda>x. (co_kind x, co_location x)) (in_components v)) then Some AMBIGUOUS_INVENTORY
      else None)"

record finding =
  fi_kind :: hw_kind
  fi_state :: hw_state
  fi_reason :: string

abbreviation hw_finding :: "hw_kind \<Rightarrow> hw_state \<Rightarrow> string \<Rightarrow> finding" where
  "hw_finding k s r \<equiv> \<lparr>fi_kind = k, fi_state = s, fi_reason = r\<rparr>"

definition finding_ok :: "finding \<Rightarrow> bool" where
  "finding_ok f \<longleftrightarrow> 1 \<le> length (fi_reason f) \<and> length (fi_reason f) \<le> 128"

definition finding_immediate :: "finding \<Rightarrow> bool" where
  "finding_immediate f \<longleftrightarrow> fi_state f = CHANGED \<or> fi_state f = MISSING
     \<or> fi_kind f = STORAGE \<and> fi_state f = UNVERIFIABLE"

section \<open>The comparison\<close>

definition conflicts :: "pairs \<Rightarrow> pairs \<Rightarrow> bool" where
  "conflicts before after =
     list_ex (\<lambda>(key, v). case map_of after key of Some v' \<Rightarrow> v \<noteq> v' | None \<Rightarrow> False) before"

text \<open>\<open>identity_counts\<close>, \<open>baseline_counts\<close> and \<open>fields\<close>, \<open>approved_fields\<close>.\<close>

definition identity_count :: "hw_component list \<Rightarrow> hw_kind \<Rightarrow> pairs \<Rightarrow> nat" where
  "identity_count items k idn = length (filter (\<lambda>x. co_identity x \<noteq> [] \<and> co_kind x = k \<and> co_identity x = idn) items)"

definition field_count :: "hw_component list \<Rightarrow> hw_kind \<Rightarrow> string \<times> string \<Rightarrow> nat" where
  "field_count items k p =
     length (filter (\<lambda>q. q = (k, p)) (concat (map (\<lambda>x. map (Pair (co_kind x)) (co_identity x)) items)))"

definition ambiguous :: "hw_component \<Rightarrow> finding" where
  "ambiguous old = hw_finding (co_kind old) UNVERIFIABLE ''AMBIGUOUS_IDENTITY''"

definition match_verdict :: "hw_component list \<Rightarrow> hw_component list \<Rightarrow> hw_component \<Rightarrow> hw_component \<Rightarrow> finding" where
  "match_verdict olds news old item =
     (if co_identity item \<noteq> [] \<and> identity_count news (co_kind item) (co_identity item) \<noteq> 1
         \<or> co_identity old \<noteq> [] \<and> identity_count olds (co_kind old) (co_identity old) \<noteq> 1 then ambiguous old
      else if conflicts (co_properties old) (co_properties item) \<or> conflicts (co_identity old) (co_identity item) then
        hw_finding (co_kind old) CHANGED ''APPROVED_COMPONENT_CHANGED''
      else if \<not> co_complete old \<or> \<not> co_complete item \<or> co_properties old \<noteq> co_properties item
          \<or> co_identity old \<noteq> co_identity item then
        hw_finding (co_kind old) UNVERIFIABLE ''IDENTIFIERS_OR_PROPERTIES_INCOMPLETE''
      else if co_identity old = [] \<or> co_identity item = [] then
        hw_finding (co_kind old) UNVERIFIABLE ''UNIQUE_ID_UNAVAILABLE''
      else hw_finding (co_kind old) OK ''IDENTITY_AND_PROPERTIES_MATCH'')"

record compare_state =
  cm_results :: "finding option list"
  cm_used :: "nat set"
  cm_uncertain :: "nat set"
  cm_bound :: "nat set"
  cm_identified :: "(nat, nat list) dict"

definition note_result :: "nat \<Rightarrow> finding \<Rightarrow> compare_state \<Rightarrow> compare_state" where
  "note_result i f s = s\<lparr>cm_results := (cm_results s)[i := Some f]\<rparr>"

definition bind_to :: "hw_component list \<Rightarrow> hw_component list \<Rightarrow> nat \<Rightarrow> nat \<Rightarrow> compare_state \<Rightarrow> compare_state" where
  "bind_to olds news i c s =
     (note_result i (match_verdict olds news (olds ! i) (news ! c)) s)
       \<lparr>cm_used := insert c (cm_used s), cm_bound := insert i (cm_bound s)\<rparr>"

definition leave_ambiguous :: "hw_component list \<Rightarrow> nat \<Rightarrow> nat list \<Rightarrow> compare_state \<Rightarrow> compare_state" where
  "leave_ambiguous olds i cs s =
     (note_result i (ambiguous (olds ! i)) s)
       \<lparr>cm_uncertain := cm_uncertain s \<union> set cs, cm_identified := AList.update i cs (cm_identified s)\<rparr>"

definition candidates :: "hw_component list \<Rightarrow> (hw_component \<Rightarrow> nat \<Rightarrow> bool) \<Rightarrow> nat list" where
  "candidates news P = filter (\<lambda>c. P (news ! c) c) [0..<length news]"

subsection \<open>Full identities\<close>

definition exact_links :: "hw_component list \<Rightarrow> hw_component \<Rightarrow> nat list" where
  "exact_links news old =
     candidates news (\<lambda>item c. co_kind item = co_kind old \<and> co_identity old \<noteq> [] \<and> co_identity item = co_identity old)"

definition exact_step :: "hw_component list \<Rightarrow> hw_component list \<Rightarrow> hw_kind set \<Rightarrow> nat \<Rightarrow> compare_state \<Rightarrow> compare_state" where
  "exact_step olds news unavailable i s =
     (let old = olds ! i; exact = exact_links news old in
      if co_kind old \<in> unavailable then note_result i (hw_finding (co_kind old) UNVERIFIABLE ''PROBE_UNAVAILABLE'') s
      else if length exact > 1 \<or> exact \<noteq> [] \<and> identity_count olds (co_kind old) (co_identity old) > 1 then
        leave_ambiguous olds i exact s
      else if exact \<noteq> [] then bind_to olds news i (hd exact) s
      else s)"

definition exact_phase :: "hw_component list \<Rightarrow> hw_component list \<Rightarrow> hw_kind set \<Rightarrow> compare_state" where
  "exact_phase olds news unavailable =
     fold (exact_step olds news unavailable) [0..<length olds]
       \<lparr>cm_results = replicate (length olds) None, cm_used = {}, cm_uncertain = {}, cm_bound = {}, cm_identified = []\<rparr>"

subsection \<open>Unique shared identifiers\<close>

definition open_links :: "hw_component list \<Rightarrow> (nat \<Rightarrow> nat list) \<Rightarrow> compare_state \<Rightarrow> (nat, nat list) dict" where
  "open_links olds links s = map (\<lambda>i. (i, links i)) (filter (\<lambda>i. cm_results s ! i = None) [0..<length olds])"

definition partial_links :: "hw_component list \<Rightarrow> hw_component list \<Rightarrow> nat set \<Rightarrow> nat \<Rightarrow> nat list" where
  "partial_links olds news used i =
     (let old = olds ! i in
      candidates news (\<lambda>item c. c \<notin> used \<and> co_kind item = co_kind old
        \<and> list_ex (\<lambda>p. List.member (co_identity item) p \<and> field_count news (co_kind old) p = 1
            \<and> field_count olds (co_kind old) p = 1) (co_identity old)))"

definition reverse_count :: "(nat, nat list) dict \<Rightarrow> nat \<Rightarrow> nat" where
  "reverse_count links c = length (filter (\<lambda>(i, cs). List.member cs c) links)"

definition partial_step :: "hw_component list \<Rightarrow> hw_component list \<Rightarrow> (nat, nat list) dict \<Rightarrow> nat \<times> nat list
    \<Rightarrow> compare_state \<Rightarrow> compare_state" where
  "partial_step olds news links = (\<lambda>(i, cs) s.
     if cs = [] then s
     else if length cs = 1 \<and> reverse_count links (hd cs) = 1 then bind_to olds news i (hd cs) s
     else leave_ambiguous olds i cs s)"

definition partial_phase :: "hw_component list \<Rightarrow> hw_component list \<Rightarrow> compare_state \<Rightarrow> compare_state" where
  "partial_phase olds news s =
     (let links = open_links olds (partial_links olds news (cm_used s)) s
      in fold (partial_step olds news links) links s)"

subsection \<open>Compatible observations\<close>

definition compatible :: "hw_component \<Rightarrow> hw_component \<Rightarrow> bool" where
  "compatible old item \<longleftrightarrow> \<not> conflicts (co_properties old) (co_properties item) \<and> \<not> conflicts (co_identity old) (co_identity item)"

definition weak_links :: "hw_component list \<Rightarrow> hw_component list \<Rightarrow> nat set \<Rightarrow> nat \<Rightarrow> nat list" where
  "weak_links olds news used i =
     candidates news (\<lambda>item c. c \<notin> used \<and> co_kind item = co_kind (olds ! i) \<and> compatible (olds ! i) item)"

definition weak_step :: "hw_component list \<Rightarrow> hw_component list \<Rightarrow> (nat, nat list) dict \<Rightarrow> nat \<times> nat list
    \<Rightarrow> compare_state \<Rightarrow> compare_state" where
  "weak_step olds news links = (\<lambda>(i, cs) s.
     if cs = [] then s
     else if length cs = 1 \<and> reverse_count links (hd cs) = 1 then
       note_result i (match_verdict olds news (olds ! i) (news ! hd cs)) s
     else note_result i (ambiguous (olds ! i)) s)"

definition weak_used :: "(nat, nat list) dict \<Rightarrow> nat set" where
  "weak_used links = \<Union> (set ` snd ` set links)"

definition weak_phase :: "hw_component list \<Rightarrow> hw_component list \<Rightarrow> compare_state \<Rightarrow> nat set \<times> compare_state" where
  "weak_phase olds news s =
     (let links = open_links olds (weak_links olds news (cm_used s)) s
      in (weak_used links, fold (weak_step olds news links) links s))"

subsection \<open>Locations\<close>

definition location_step :: "hw_component list \<Rightarrow> hw_component list \<Rightarrow> nat set \<Rightarrow> nat \<Rightarrow> compare_state \<Rightarrow> compare_state" where
  "location_step olds news weak i s =
     (if cm_results s ! i \<noteq> None then s
      else let old = olds ! i in
        case candidates news (\<lambda>item c. c \<notin> cm_used s \<and> co_kind item = co_kind old \<and> co_location item = co_location old) of
          [] \<Rightarrow> note_result i (hw_finding (co_kind old) MISSING ''APPROVED_COMPONENT_ABSENT'') s
        | c # _ \<Rightarrow>
            if c \<in> weak \<or> c \<in> cm_uncertain s then note_result i (ambiguous old) s
            else bind_to olds news i c s)"

definition location_phase :: "hw_component list \<Rightarrow> hw_component list \<Rightarrow> nat set \<Rightarrow> compare_state \<Rightarrow> compare_state" where
  "location_phase olds news weak s = fold (location_step olds news weak) [0..<length olds] s"

subsection \<open>Surplus and deficit\<close>

definition final_links :: "hw_component list \<Rightarrow> hw_component list \<Rightarrow> compare_state \<Rightarrow> nat \<Rightarrow> nat list" where
  "final_links olds news s i =
     (let old = olds ! i; known = claimed (cm_identified s) i in
      candidates news (\<lambda>item c. c \<notin> cm_used s \<and> co_kind item = co_kind old
        \<and> (List.member known c \<or> co_location item = co_location old \<or> compatible old item)))"

definition linked_claims :: "hw_component list \<Rightarrow> hw_component list \<Rightarrow> hw_kind set \<Rightarrow> compare_state \<Rightarrow> claims" where
  "linked_claims olds news unavailable s =
     filter (\<lambda>(i, cs). cs \<noteq> [])
       (map (\<lambda>i. (i, final_links olds news s i))
         (filter (\<lambda>i. i \<notin> cm_bound s \<and> co_kind (olds ! i) \<notin> unavailable) [0..<length olds]))"

definition kind_count :: "hw_component list \<Rightarrow> nat list \<Rightarrow> hw_kind \<Rightarrow> nat" where
  "kind_count items is k = length (filter (\<lambda>i. co_kind (items ! i) = k) is)"

text \<open>The verdict on every approved component, phase by phase.\<close>

definition resolve :: "hw_component list \<Rightarrow> hw_component list \<Rightarrow> hw_kind set \<Rightarrow> compare_state" where
  "resolve olds news unavailable =
     (let s1 = partial_phase olds news (exact_phase olds news unavailable);
          (weak, s2) = weak_phase olds news s1
      in location_phase olds news weak s2)"

definition shared_links :: "hw_component list \<Rightarrow> claims \<Rightarrow> nat list" where
  "shared_links news linked = filter (\<lambda>c. list_ex (\<lambda>(i, cs). List.member cs c) linked) [0..<length news]"

definition report :: "inventory \<Rightarrow> inventory \<Rightarrow> compare_state \<Rightarrow> claims \<Rightarrow> nat list \<Rightarrow> finding list" where
  "report base current s linked covered =
     (let olds = in_components base; news = in_components current; unavailable = in_unavailable current;
          shared = shared_links news linked;
          surplus = (\<lambda>k. kind_count news shared k - kind_count news covered k);
          deficit = (\<lambda>k. kind_count olds (map fst linked) k - kind_count news covered k)
      in List.map_filter (\<lambda>r. r) (cm_results s)
         @ map (\<lambda>k. hw_finding k UNVERIFIABLE ''PROBE_UNAVAILABLE'')
             (filter (\<lambda>k. (k \<in> unavailable \<or> k \<in> in_unavailable base) \<and> k \<notin> co_kind ` set olds) all_kinds)
         @ map (\<lambda>c. hw_finding (co_kind (news ! c)) NEW_DEVICE ''UNAPPROVED_COMPONENT'')
             (filter (\<lambda>c. c \<notin> cm_used s \<and> \<not> List.member shared c \<and> co_kind (news ! c) \<notin> unavailable) [0..<length news])
         @ concat (map (\<lambda>k. replicate (surplus k) (hw_finding k NEW_DEVICE ''SURPLUS_AMBIGUOUS_COMPONENT'')
             @ replicate (deficit k) (hw_finding k MISSING ''MISSING_AMBIGUOUS_COMPONENT'')) all_kinds))"

definition compare_inventories :: "inventory option \<Rightarrow> inventory \<Rightarrow> finding list option" where
  "compare_inventories approved current =
     (case approved of
        None \<Rightarrow> Some (map (\<lambda>k. hw_finding k UNVERIFIABLE ''BASELINE_REQUIRED'') all_kinds)
      | Some base \<Rightarrow>
          (let olds = in_components base; news = in_components current; unavailable = in_unavailable current;
               s = resolve olds news unavailable;
               linked = linked_claims olds news unavailable s
           in map_option (report base current s linked) (explained linked)))"

end
