(* ===== verification/Integrity_Findings.thy ===== *)
theory Integrity_Findings
  imports Hardware_Integrity
begin

text \<open>
  What the comparison of inventories guarantees: it always returns, absent and added hardware is counted in full even
  when no single component can be accused, and \<open>OK\<close> is only said of a component seen with its complete identity.
\<close>

section \<open>Counting\<close>

lemma two_filtered:
  assumes "i < length xs" "j < length xs" "i \<noteq> j" "P (xs ! i)" "P (xs ! j)"
  shows "2 \<le> length (filter P xs)"
proof -
  have "{i, j} \<subseteq> {a. a < length xs \<and> P (xs ! a)}" using assms by auto
  then have "card {i, j} \<le> card {a. a < length xs \<and> P (xs ! a)}" by (intro card_mono) auto
  then show ?thesis using assms(3) by (simp add: length_filter_conv_card)
qed

lemma two_fields:
  assumes "i < length xs" "j < length xs" "i \<noteq> j" "co_kind (xs ! i) = k" "co_kind (xs ! j) = k"
    and "p \<in> set (co_identity (xs ! i))" "p \<in> set (co_identity (xs ! j))"
  shows "2 \<le> field_count xs k p"
  using assms
proof (induction i j rule: linorder_wlog)
  case (le i j)
  define ys where "ys = take j xs"
  define zs where "zs = drop j xs"
  have "i < length ys" "ys ! i = xs ! i" using le by (simp_all add: ys_def)
  then have "xs ! i \<in> set ys" by (metis nth_mem)
  moreover have "xs ! j \<in> set zs" using Cons_nth_drop_Suc [OF le(3)] by (metis list.set_intros(1) zs_def)
  ultimately have xs: "xs = ys @ zs" "xs ! i \<in> set ys" "xs ! j \<in> set zs" by (simp_all add: ys_def zs_def)
  have one: "1 \<le> field_count us k p" if "u \<in> set us" "co_kind u = k" "p \<in> set (co_identity u)" for us u
  proof -
    have "(k, p) \<in> set (concat (map (\<lambda>x. map (Pair (co_kind x)) (co_identity x)) us))" using that by force
    then show ?thesis
      unfolding field_count_def by (metis (mono_tags, lifting) One_nat_def Suc_leI filter_empty_conv length_greater_0_conv)
  qed
  have "field_count xs k p = field_count ys k p + field_count zs k p" unfolding xs(1) field_count_def by simp
  then show ?case using one [OF xs(2) le(5,7)] one [OF xs(3) le(6,8)] by linarith
qed (metis)

lemma fold_prefix:
  assumes "\<And>ys x zs s. \<lbrakk>xs = ys @ x # zs; P ys s\<rbrakk> \<Longrightarrow> P (ys @ [x]) (f x s)" "P [] s"
  shows "P xs (fold f xs s)"
proof -
  have "xs = us @ vs \<Longrightarrow> P us t \<Longrightarrow> P xs (fold f vs t)" for us vs t
  proof (induction vs arbitrary: us t)
    case (Cons v vs)
    then show ?case using assms(1) [of us v vs t] by (metis append.assoc append_Cons append_Nil fold_simps(2))
  qed simp
  from this [of "[]" xs s] assms(2) show ?thesis by simp
qed

lemma in_candidates: "c \<in> set (candidates news P) \<longleftrightarrow> c < length news \<and> P (news ! c) c"
  by (auto simp: candidates_def)

lemma distinct_candidates: "distinct (candidates news P)"
  by (simp add: candidates_def)

section \<open>The books of the comparison\<close>

definition linkable :: "hw_component list \<Rightarrow> hw_component list \<Rightarrow> compare_state \<Rightarrow> nat \<Rightarrow> nat \<Rightarrow> bool" where
  "linkable olds news s i c \<longleftrightarrow> c < length news \<and> co_kind (news ! c) = co_kind (olds ! i)
     \<and> (c \<in> set (claimed (cm_identified s) i) \<or> co_location (news ! c) = co_location (olds ! i)
        \<or> compatible (olds ! i) (news ! c))"

definition bound_pairing :: "hw_component list \<Rightarrow> hw_component list \<Rightarrow> hw_kind set \<Rightarrow> compare_state \<Rightarrow> (nat \<Rightarrow> nat) \<Rightarrow> bool" where
  "bound_pairing olds news U s p \<longleftrightarrow> inj_on p (cm_bound s) \<and> p ` cm_bound s = cm_used s
     \<and> (\<forall>i \<in> cm_bound s. i < length olds \<and> p i < length news \<and> co_kind (news ! p i) = co_kind (olds ! i)
          \<and> co_kind (olds ! i) \<notin> U \<and> cm_results s ! i \<noteq> None)"

text \<open>
  Bound components have their own used observation. Everything else that has a verdict is absent, of a kind
  that was not probed, or keeps a link to an observation that is never used: an ambiguous one or one of \<open>W\<close>.
\<close>

definition result_settled :: "hw_component list \<Rightarrow> hw_component list \<Rightarrow> hw_kind set \<Rightarrow> nat set \<Rightarrow> compare_state \<Rightarrow> nat \<Rightarrow> bool" where
  "result_settled olds news U W s i \<longleftrightarrow> cm_results s ! i = None \<or> i \<in> cm_bound s \<or> co_kind (olds ! i) \<in> U
     \<or> (\<exists>f. cm_results s ! i = Some f \<and> fi_state f = MISSING)
     \<or> (\<exists>c \<in> cm_uncertain s \<union> W. linkable olds news s i c)"

definition books :: "hw_component list \<Rightarrow> hw_component list \<Rightarrow> hw_kind set \<Rightarrow> nat set \<Rightarrow> compare_state \<Rightarrow> bool" where
  "books olds news U W s \<longleftrightarrow> length (cm_results s) = length olds \<and> (\<exists>p. bound_pairing olds news U s p)
     \<and> (cm_uncertain s \<union> W) \<inter> cm_used s = {}
     \<and> (\<forall>i < length olds. result_settled olds news U W s i \<and> (\<forall>f. cm_results s ! i = Some f \<longrightarrow> fi_kind f = co_kind (olds ! i)))"

lemma verdict_kind: "fi_kind (match_verdict olds news old item) = co_kind old" "fi_kind (ambiguous old) = co_kind old"
  by (auto simp: match_verdict_def ambiguous_def)

lemma settled_mono:
  "\<lbrakk>result_settled olds news U W s j; cm_results t ! j = cm_results s ! j; cm_bound s \<subseteq> cm_bound t;
    cm_uncertain s \<subseteq> cm_uncertain t; \<And>c. linkable olds news s j c \<Longrightarrow> linkable olds news t j c\<rbrakk>
   \<Longrightarrow> result_settled olds news U W t j"
  unfolding result_settled_def by (simp only:) blast

lemma books_note:
  assumes "books olds news U W s" "i < length olds" "i \<notin> cm_bound s" "fi_kind f = co_kind (olds ! i)"
    and "co_kind (olds ! i) \<in> U \<or> fi_state f = MISSING \<or> (\<exists>c \<in> cm_uncertain s \<union> W. linkable olds news s i c)"
  shows "books olds news U W (note_result i f s)"
proof -
  let ?t = "note_result i f s"
  have t: "cm_bound ?t = cm_bound s" "cm_used ?t = cm_used s" "cm_uncertain ?t = cm_uncertain s"
    "cm_identified ?t = cm_identified s" "cm_results ?t = (cm_results s)[i := Some f]"
    by (simp_all add: note_result_def)
  have len: "length (cm_results s) = length olds" using assms(1) by (simp add: books_def)
  obtain p where "bound_pairing olds news U s p" using assms(1) by (auto simp: books_def)
  then have "bound_pairing olds news U ?t p" using assms(2,3) len by (auto simp: bound_pairing_def t nth_list_update)
  moreover have "result_settled olds news U W ?t j \<and> (\<forall>g. cm_results ?t ! j = Some g \<longrightarrow> fi_kind g = co_kind (olds ! j))"
    if "j < length olds" for j
  proof (cases "j = i")
    case True
    then show ?thesis using assms(2,4,5) len by (auto simp: result_settled_def t linkable_def)
  next
    case False
    have "result_settled olds news U W ?t j"
      by (rule settled_mono [of _ _ _ _ s]) (use assms(1) that False in \<open>auto simp: books_def t linkable_def\<close>)
    then show ?thesis using assms(1) that False by (simp add: books_def t)
  qed
  ultimately show ?thesis using assms(1) len by (auto simp: books_def t)
qed

lemma books_bind:
  assumes "books olds news U W s" "i < length olds" "i \<notin> cm_bound s" "c < length news"
    and "c \<notin> cm_used s" "c \<notin> cm_uncertain s \<union> W" "co_kind (news ! c) = co_kind (olds ! i)" "co_kind (olds ! i) \<notin> U"
  shows "books olds news U W (bind_to olds news i c s)"
proof -
  let ?t = "bind_to olds news i c s"
  let ?f = "match_verdict olds news (olds ! i) (news ! c)"
  have t: "cm_bound ?t = insert i (cm_bound s)" "cm_used ?t = insert c (cm_used s)" "cm_uncertain ?t = cm_uncertain s"
    "cm_identified ?t = cm_identified s" "cm_results ?t = (cm_results s)[i := Some ?f]"
    by (simp_all add: bind_to_def note_result_def)
  have len: "length (cm_results s) = length olds" using assms(1) by (simp add: books_def)
  obtain p where p: "bound_pairing olds news U s p" using assms(1) by (auto simp: books_def)
  have "bound_pairing olds news U ?t (p(i := c))"
    unfolding bound_pairing_def t
  proof (intro conjI)
    show "inj_on (p(i := c)) (insert i (cm_bound s))"
      using p assms(3,5) by (auto simp: bound_pairing_def inj_on_fun_updI)
    show "(p(i := c)) ` insert i (cm_bound s) = insert c (cm_used s)" using p assms(3) by (auto simp: bound_pairing_def)
    show "\<forall>j \<in> insert i (cm_bound s). j < length olds \<and> (p(i := c)) j < length news
        \<and> co_kind (news ! (p(i := c)) j) = co_kind (olds ! j) \<and> co_kind (olds ! j) \<notin> U
        \<and> (cm_results s)[i := Some ?f] ! j \<noteq> None"
      using p assms(2,4,7,8) len by (auto simp: bound_pairing_def nth_list_update)
  qed
  moreover have "result_settled olds news U W ?t j \<and> (\<forall>g. cm_results ?t ! j = Some g \<longrightarrow> fi_kind g = co_kind (olds ! j))"
    if "j < length olds" for j
  proof (cases "j = i")
    case True
    then show ?thesis using assms(2) len by (simp add: result_settled_def t verdict_kind)
  next
    case False
    have "result_settled olds news U W ?t j"
      by (rule settled_mono [of _ _ _ _ s]) (use assms(1) that False in \<open>auto simp: books_def t linkable_def\<close>)
    then show ?thesis using assms(1) that False by (simp add: books_def t)
  qed
  moreover have "(cm_uncertain ?t \<union> W) \<inter> cm_used ?t = {}" using assms(1,6) by (auto simp: books_def t)
  ultimately show ?thesis using len by (auto simp: books_def t)
qed

lemma books_ambiguous:
  assumes "books olds news U W s" "i < length olds" "i \<notin> cm_bound s" "cs \<noteq> []" "set cs \<inter> cm_used s = {}"
    and "\<And>c. c \<in> set cs \<Longrightarrow> c < length news \<and> co_kind (news ! c) = co_kind (olds ! i)"
  shows "books olds news U W (leave_ambiguous olds i cs s)"
proof -
  let ?t = "leave_ambiguous olds i cs s"
  have t: "cm_bound ?t = cm_bound s" "cm_used ?t = cm_used s" "cm_uncertain ?t = cm_uncertain s \<union> set cs"
    "cm_identified ?t = AList.update i cs (cm_identified s)" "cm_results ?t = (cm_results s)[i := Some (ambiguous (olds ! i))]"
    by (simp_all add: leave_ambiguous_def note_result_def)
  have known: "claimed (cm_identified ?t) j = (if j = i then cs else claimed (cm_identified s) j)" for j
    by (simp add: t claimed_def dict_simps)
  have len: "length (cm_results s) = length olds" using assms(1) by (simp add: books_def)
  obtain p where "bound_pairing olds news U s p" using assms(1) by (auto simp: books_def)
  then have "bound_pairing olds news U ?t p" using assms(2,3) len by (auto simp: bound_pairing_def t nth_list_update)
  moreover have "result_settled olds news U W ?t j \<and> (\<forall>g. cm_results ?t ! j = Some g \<longrightarrow> fi_kind g = co_kind (olds ! j))"
    if "j < length olds" for j
  proof (cases "j = i")
    case True
    have "hd cs \<in> set cs" using assms(4) by simp
    then have "linkable olds news ?t i (hd cs)" using assms(6) known [of i] by (simp add: linkable_def)
    then show ?thesis using True \<open>hd cs \<in> set cs\<close> len assms(2) by (auto simp: result_settled_def t verdict_kind)
  next
    case False
    then have link: "linkable olds news s j c \<Longrightarrow> linkable olds news ?t j c" for c
      using known [of j] by (simp add: linkable_def)
    have old: "result_settled olds news U W s j" using assms(1) that by (simp add: books_def)
    have "result_settled olds news U W ?t j"
      by (rule settled_mono [OF old _ _ _ link]) (use False in \<open>simp_all add: t\<close>)
    then show ?thesis using assms(1) that False by (simp add: books_def t)
  qed
  moreover have "(cm_uncertain ?t \<union> W) \<inter> cm_used ?t = {}" using assms(1,5) by (auto simp: books_def t)
  ultimately show ?thesis using len by (auto simp: books_def t)
qed

section \<open>The phases keep the books\<close>

subsection \<open>Full identities\<close>

definition exact_ambiguous :: "hw_component list \<Rightarrow> hw_component list \<Rightarrow> nat \<Rightarrow> bool" where
  "exact_ambiguous olds news i \<longleftrightarrow> length (exact_links news (olds ! i)) > 1
     \<or> identity_count olds (co_kind (olds ! i)) (co_identity (olds ! i)) > 1"

lemma in_exact:
  "c \<in> set (exact_links news old) \<longleftrightarrow> c < length news \<and> co_kind (news ! c) = co_kind old
     \<and> co_identity old \<noteq> [] \<and> co_identity (news ! c) = co_identity old"
  by (auto simp: exact_links_def in_candidates)

text \<open>Two approved components with a common exact observation share kind and identity.\<close>

lemma exact_shared:
  assumes "c \<in> set (exact_links news (olds ! i))" "c \<in> set (exact_links news (olds ! j))" "i \<noteq> j"
    and "i < length olds" "j < length olds"
  shows "exact_ambiguous olds news i"
proof -
  have "2 \<le> identity_count olds (co_kind (olds ! i)) (co_identity (olds ! i))"
    unfolding identity_count_def using assms by (intro two_filtered [of i _ j]) (auto simp: in_exact)
  then show ?thesis by (simp add: exact_ambiguous_def)
qed

definition exact_inv :: "hw_component list \<Rightarrow> hw_component list \<Rightarrow> hw_kind set \<Rightarrow> nat list \<Rightarrow> compare_state \<Rightarrow> bool" where
  "exact_inv olds news U is s \<longleftrightarrow> books olds news U {} s \<and> cm_bound s \<subseteq> set is
     \<and> (\<forall>i \<in> set is. co_kind (olds ! i) \<in> U \<longrightarrow> cm_results s ! i \<noteq> None)
     \<and> (\<forall>c \<in> cm_uncertain s. \<exists>j \<in> set is. c \<in> set (exact_links news (olds ! j)) \<and> exact_ambiguous olds news j)
     \<and> (\<forall>c \<in> cm_used s. \<exists>j \<in> set is. c \<in> set (exact_links news (olds ! j)) \<and> \<not> exact_ambiguous olds news j)"

lemma exact_step_inv:
  assumes "exact_inv olds news U is s" "i < length olds" "i \<notin> set is" "set is \<subseteq> {..<length olds}"
  shows "exact_inv olds news U (is @ [i]) (exact_step olds news U i s)"
proof -
  let ?x = "exact_links news (olds ! i)"
  have b: "books olds news U {} s" and nb: "i \<notin> cm_bound s" using assms(1,3) by (auto simp: exact_inv_def)
  have len: "length (cm_results s) = length olds" using b by (simp add: books_def)
  have old: "\<forall>j \<in> set is. co_kind (olds ! j) \<in> U \<longrightarrow> cm_results s ! j \<noteq> None"
    "\<forall>c \<in> cm_uncertain s. \<exists>j \<in> set is. c \<in> set (exact_links news (olds ! j)) \<and> exact_ambiguous olds news j"
    "\<forall>c \<in> cm_used s. \<exists>j \<in> set is. c \<in> set (exact_links news (olds ! j)) \<and> \<not> exact_ambiguous olds news j"
    using assms(1) by (simp_all add: exact_inv_def)
  have kept: "\<forall>j \<in> set is. co_kind (olds ! j) \<in> U \<longrightarrow> (cm_results s)[i := f] ! j \<noteq> None" for f
    using old(1) assms(3) by (metis nth_list_update_neq)
  have other: "exact_ambiguous olds news i \<and> exact_ambiguous olds news j"
    if "c \<in> set ?x" "c \<in> set (exact_links news (olds ! j))" "j \<in> set is" for c j
    using exact_shared [of c news olds i j] exact_shared [of c news olds j i] that assms(2-4) by auto
  have disj: "c \<notin> cm_used s" if "c \<in> set ?x" for c using old(3) other that by blast
  consider (probe) "co_kind (olds ! i) \<in> U" | (amb) "co_kind (olds ! i) \<notin> U" "?x \<noteq> []" "exact_ambiguous olds news i"
    | (uniq) "co_kind (olds ! i) \<notin> U" "?x \<noteq> []" "\<not> exact_ambiguous olds news i" | (none) "co_kind (olds ! i) \<notin> U" "?x = []"
    by blast
  then show ?thesis
  proof cases
    case probe
    then have t: "exact_step olds news U i s = note_result i (hw_finding (co_kind (olds ! i)) UNVERIFIABLE ''PROBE_UNAVAILABLE'') s"
      by (simp add: exact_step_def Let_def)
    have "books olds news U {} (exact_step olds news U i s)" unfolding t by (rule books_note [OF b assms(2) nb]) (use probe in auto)
    then show ?thesis unfolding exact_inv_def t using old kept len assms(2) assms(1) by (auto simp: note_result_def exact_inv_def)
  next
    case amb
    then have t: "exact_step olds news U i s = leave_ambiguous olds i ?x s"
      by (auto simp: exact_step_def exact_ambiguous_def Let_def)
    have "books olds news U {} (exact_step olds news U i s)"
      unfolding t by (rule books_ambiguous [OF b assms(2) nb amb(2)]) (use disj in \<open>auto simp: in_exact\<close>)
    then show ?thesis
      unfolding exact_inv_def t using old kept amb assms(1)
      by (auto simp: leave_ambiguous_def note_result_def exact_inv_def)
  next
    case uniq
    then have t: "exact_step olds news U i s = bind_to olds news i (hd ?x) s"
      by (auto simp: exact_step_def exact_ambiguous_def Let_def)
    have hx: "hd ?x \<in> set ?x" using uniq(2) by simp
    have "books olds news U {} (exact_step olds news U i s)"
      unfolding t
    proof (rule books_bind [OF b assms(2) nb])
      show "hd ?x \<notin> cm_uncertain s \<union> {}" using old(2) other hx uniq(3) by blast
    qed (use hx disj uniq(1) in \<open>auto simp: in_exact\<close>)
    then show ?thesis
      unfolding exact_inv_def t using old kept uniq hx assms(1)
      by (auto simp: bind_to_def note_result_def exact_inv_def)
  next
    case none
    then have "exact_step olds news U i s = s" by (simp add: exact_step_def Let_def)
    then show ?thesis using assms(1) none by (auto simp: exact_inv_def)
  qed
qed

lemma exact_phase_inv: "exact_inv olds news U [0..<length olds] (exact_phase olds news U)"
  unfolding exact_phase_def
proof (rule fold_prefix)
  fix ys x zs s
  assume eq: "[0..<length olds] = ys @ x # zs" and inv: "exact_inv olds news U ys s"
  have "distinct (ys @ x # zs)" "set (ys @ x # zs) = {..<length olds}" unfolding eq [symmetric] by auto
  then show "exact_inv olds news U (ys @ [x]) (exact_step olds news U x s)"
    by (intro exact_step_inv [OF inv]) auto
qed (auto simp: exact_inv_def books_def bound_pairing_def result_settled_def)

subsection \<open>Unique shared identifiers\<close>

lemma open_links_entry:
  "(i, cs) \<in> set (open_links olds links s) \<longleftrightarrow> i < length olds \<and> cm_results s ! i = None \<and> cs = links i"
  by (auto simp: open_links_def)

lemma open_links_keys: "distinct (map fst (open_links olds links s))"
  by (simp add: open_links_def comp_def)

lemma reverse_unique:
  assumes "dict_ok links" "(i, cs) \<in> set links" "(j, ds) \<in> set links" "c \<in> set cs" "c \<in> set ds" "reverse_count links c = 1"
  shows "i = j"
proof (rule ccontr)
  assume "i \<noteq> j"
  obtain a b where a: "a < length links" "links ! a = (i, cs)" and b: "b < length links" "links ! b = (j, ds)"
    using assms(2,3) by (metis in_set_conv_nth)
  have "a \<noteq> b" using a b \<open>i \<noteq> j\<close> by auto
  then have "2 \<le> reverse_count links c"
    unfolding reverse_count_def using a b assms(4,5) by (intro two_filtered [of a _ b]) auto
  then show False using assms(6) by simp
qed

text \<open>An observation that is ambiguous by its full identity shares no identifier that is unique on both sides.\<close>

lemma partial_not_exact_ambiguous:
  assumes "c \<in> set (partial_links olds news used i)" "c \<in> set (exact_links news (olds ! j))" "j < length olds"
  shows "\<not> exact_ambiguous olds news j"
proof
  assume amb: "exact_ambiguous olds news j"
  let ?k = "co_kind (olds ! i)"
  obtain p where p: "p \<in> set (co_identity (news ! c))" "field_count news ?k p = 1" "field_count olds ?k p = 1"
    and c: "c < length news" "co_kind (news ! c) = ?k"
    using assms(1) by (auto simp: partial_links_def in_candidates list_ex_iff Let_def)
  have x: "co_kind (olds ! j) = ?k" "co_identity (olds ! j) = co_identity (news ! c)" "co_identity (olds ! j) \<noteq> []"
    using assms(2) c by (auto simp: in_exact)
  from amb show False
    unfolding exact_ambiguous_def
  proof
    assume "length (exact_links news (olds ! j)) > 1"
    moreover have "distinct (exact_links news (olds ! j))" by (simp add: exact_links_def distinct_candidates)
    ultimately have "\<not> set (exact_links news (olds ! j)) \<subseteq> {c}"
      using card_mono [of "{c}" "set (exact_links news (olds ! j))"] distinct_card [of "exact_links news (olds ! j)"] by fastforce
    then obtain d where "d \<in> set (exact_links news (olds ! j))" "d \<noteq> c" by auto
    then have "2 \<le> field_count news ?k p"
      using x c p(1) by (intro two_fields [of c _ d]) (auto simp: in_exact)
    then show False using p(2) by simp
  next
    let ?A = "{a. a < length olds \<and> co_identity (olds ! a) \<noteq> [] \<and> co_kind (olds ! a) = co_kind (olds ! j)
        \<and> co_identity (olds ! a) = co_identity (olds ! j)}"
    assume "identity_count olds (co_kind (olds ! j)) (co_identity (olds ! j)) > 1"
    then have "1 < card ?A" by (simp add: identity_count_def length_filter_conv_card)
    then have "\<not> ?A \<subseteq> {j}" using card_mono [of "{j}" ?A] by fastforce
    then obtain a where a: "a < length olds" "a \<noteq> j" "co_kind (olds ! a) = ?k" "co_identity (olds ! a) = co_identity (olds ! j)"
      using x(1) by auto
    then have "2 \<le> field_count olds ?k p"
      using x p(1) assms(3) by (intro two_fields [of j _ a]) auto
    then show False using p(3) by simp
  qed
qed

definition unique_link :: "(nat, nat list) dict \<Rightarrow> nat list \<Rightarrow> bool" where
  "unique_link links cs \<longleftrightarrow> length cs = 1 \<and> reverse_count links (hd cs) = 1"

lemma unique_link_count: "\<lbrakk>unique_link links cs; c \<in> set cs\<rbrakk> \<Longrightarrow> reverse_count links c = 1 \<and> set cs = {c}"
  by (cases cs) (auto simp: unique_link_def)

text \<open>The state of the partial phase after the entries \<open>ys\<close>, started in \<open>s0\<close>.\<close>

definition partial_inv :: "hw_component list \<Rightarrow> hw_component list \<Rightarrow> hw_kind set \<Rightarrow> compare_state \<Rightarrow> (nat, nat list) dict
    \<Rightarrow> (nat, nat list) dict \<Rightarrow> compare_state \<Rightarrow> bool" where
  "partial_inv olds news U s0 links ys s \<longleftrightarrow> books olds news U {} s \<and> cm_bound s \<subseteq> cm_bound s0 \<union> fst ` set ys
     \<and> (\<forall>i. cm_results s0 ! i \<noteq> None \<longrightarrow> cm_results s ! i \<noteq> None)
     \<and> (\<forall>c \<in> cm_uncertain s. c \<in> cm_uncertain s0 \<or> (\<exists>(j, cs) \<in> set ys. c \<in> set cs \<and> \<not> unique_link links cs))
     \<and> (\<forall>c \<in> cm_used s. c \<in> cm_used s0 \<or> (\<exists>(j, cs) \<in> set ys. c \<in> set cs \<and> unique_link links cs))"

lemma partial_step_inv:
  assumes inv: "partial_inv olds news U s0 links ys s" and x: "exact_inv olds news U [0..<length olds] s0"
    and links: "links = open_links olds (partial_links olds news (cm_used s0)) s0" and eq: "links = ys @ (i, cs) # zs"
  shows "partial_inv olds news U s0 links (ys @ [(i, cs)]) (partial_step olds news links (i, cs) s)"
proof (cases "cs = []")
  case True
  then show ?thesis using inv by (auto simp: partial_inv_def partial_step_def)
next
  case False
  have ok: "dict_ok links" unfolding links by (rule open_links_keys)
  have e: "(i, cs) \<in> set links" using eq by simp
  then have i: "i < length olds" "cm_results s0 ! i = None" "cs = partial_links olds news (cm_used s0) i"
    unfolding links by (auto simp: open_links_entry)
  have b: "books olds news U {} s" and len: "length (cm_results s) = length olds"
    using inv by (auto simp: partial_inv_def books_def)
  obtain p where "bound_pairing olds news U s0 p" using x by (auto simp: exact_inv_def books_def)
  then have "i \<notin> cm_bound s0" using i(2) by (auto simp: bound_pairing_def)
  moreover have "i \<notin> fst ` set ys" using ok eq by auto
  ultimately have nb: "i \<notin> cm_bound s" using inv by (auto simp: partial_inv_def)
  have nu: "co_kind (olds ! i) \<notin> U" using x i(1,2) by (auto simp: exact_inv_def)
  have cand: "c < length news \<and> co_kind (news ! c) = co_kind (olds ! i) \<and> c \<notin> cm_used s0" if "c \<in> set cs" for c
    using that unfolding i(3) by (simp add: partial_links_def in_candidates Let_def)
  have fresh: "c \<notin> cm_uncertain s0" if "c \<in> set cs" for c
    using that x partial_not_exact_ambiguous unfolding i(3) exact_inv_def by fastforce
  have ni: "(j, ds) \<in> set ys \<Longrightarrow> j \<noteq> i" for j ds using \<open>i \<notin> fst ` set ys\<close> by force
  have two: "c \<notin> set ds" if "(j, ds) \<in> set ys" "c \<in> set cs" "unique_link links cs \<or> unique_link links ds" for j ds c
  proof
    assume c: "c \<in> set ds"
    have rc: "reverse_count links c = 1" using that(2,3) c unique_link_count by blast
    have "(j, ds) \<in> set links" using that(1) eq by simp
    then have "j = i" by (rule reverse_unique [OF ok _ e c that(2) rc])
    then show False using ni that(1) by blast
  qed
  have used: "c \<notin> cm_used s" if "c \<in> set cs" for c
    using inv cand that two unfolding partial_inv_def by fastforce
  show ?thesis
  proof (cases "unique_link links cs")
    case True
    have hc: "hd cs \<in> set cs" "set cs = {hd cs}" using False unique_link_count [OF True] by simp_all
    have t: "partial_step olds news links (i, cs) s = bind_to olds news i (hd cs) s"
      using True False by (simp add: partial_step_def unique_link_def)
    have "hd cs \<notin> cm_uncertain s" using inv fresh hc(1) two True unfolding partial_inv_def by fastforce
    then have "books olds news U {} (partial_step olds news links (i, cs) s)"
      unfolding t by (intro books_bind [OF b i(1) nb]) (use cand hc(1) used nu in auto)
    then show ?thesis
      using inv True hc len i(1) unfolding partial_inv_def t
      by (auto simp: bind_to_def note_result_def nth_list_update)
  next
    case amb: False
    then have t: "partial_step olds news links (i, cs) s = leave_ambiguous olds i cs s"
      using False by (auto simp: partial_step_def unique_link_def)
    have "books olds news U {} (partial_step olds news links (i, cs) s)"
      unfolding t by (rule books_ambiguous [OF b i(1) nb False]) (use used cand in auto)
    then show ?thesis
      using inv amb len i(1) unfolding partial_inv_def t
      by (auto simp: leave_ambiguous_def note_result_def nth_list_update)
  qed
qed

lemma partial_phase_inv:
  assumes "exact_inv olds news U [0..<length olds] s"
  shows "books olds news U {} (partial_phase olds news s)"
    and "\<And>i. cm_results s ! i \<noteq> None \<Longrightarrow> cm_results (partial_phase olds news s) ! i \<noteq> None"
proof -
  let ?links = "open_links olds (partial_links olds news (cm_used s)) s"
  have "partial_inv olds news U s ?links ?links (fold (partial_step olds news ?links) ?links s)"
  proof (rule fold_prefix [where P = "partial_inv olds news U s ?links"])
    fix ys x zs t
    assume "?links = ys @ x # zs" "partial_inv olds news U s ?links ys t"
    then show "partial_inv olds news U s ?links (ys @ [x]) (partial_step olds news ?links x t)"
      using partial_step_inv [OF _ assms refl] by (cases x) blast
  next
    show "partial_inv olds news U s ?links [] s" using assms by (simp add: partial_inv_def exact_inv_def)
  qed
  then show "books olds news U {} (partial_phase olds news s)"
    and "\<And>i. cm_results s ! i \<noteq> None \<Longrightarrow> cm_results (partial_phase olds news s) ! i \<noteq> None"
    by (auto simp: partial_phase_def partial_inv_def Let_def)
qed

subsection \<open>Compatible observations and locations\<close>

definition probed :: "hw_component list \<Rightarrow> hw_kind set \<Rightarrow> compare_state \<Rightarrow> bool" where
  "probed olds U s \<longleftrightarrow> (\<forall>i < length olds. co_kind (olds ! i) \<in> U \<longrightarrow> cm_results s ! i \<noteq> None)"

lemma books_unbound: "\<lbrakk>books olds news U W s; cm_results s ! i = None\<rbrakk> \<Longrightarrow> i \<notin> cm_bound s"
  unfolding books_def bound_pairing_def by blast

lemma books_weaken:
  assumes "books olds news U {} s" "W \<inter> cm_used s = {}"
  shows "books olds news U W s"
proof -
  have "result_settled olds news U {} s i \<Longrightarrow> result_settled olds news U W s i" for i by (auto simp: result_settled_def)
  then show ?thesis using assms by (auto simp: books_def)
qed

lemma weak_phase_inv:
  assumes "books olds news U {} s" "probed olds U s" "weak_phase olds news s = (W, t)"
  shows "books olds news U W t" "probed olds U t"
proof -
  let ?links = "open_links olds (weak_links olds news (cm_used s)) s"
  have W: "W = weak_used ?links" and t: "t = fold (weak_step olds news ?links) ?links s"
    using assms(3) by (simp_all add: weak_phase_def Let_def)
  have "W \<inter> cm_used s = {}"
    unfolding W weak_used_def by (auto simp: open_links_def weak_links_def in_candidates)
  then have b: "books olds news U W s" by (rule books_weaken [OF assms(1)])
  let ?P = "\<lambda>u. books olds news U W u \<and> probed olds U u \<and> cm_bound u = cm_bound s"
  have step: "?P (weak_step olds news ?links (i, cs) u)" if e: "(i, cs) \<in> set ?links" and u: "?P u" for i cs u
  proof (cases "cs = []")
    case True
    then show ?thesis using u by (simp add: weak_step_def)
  next
    case False
    have i: "i < length olds" "cm_results s ! i = None" "cs = weak_links olds news (cm_used s) i"
      using e by (auto simp: open_links_entry)
    have nb: "i \<notin> cm_bound u" using books_unbound [OF assms(1) i(2)] u by simp
    have hc: "hd cs \<in> set cs" using False by simp
    then have "hd cs \<in> W" using e by (force simp: W weak_used_def)
    moreover have "linkable olds news u i (hd cs)"
      using hc unfolding i(3) by (simp add: weak_links_def in_candidates linkable_def)
    ultimately have "books olds news U W (note_result i f u)" if "fi_kind f = co_kind (olds ! i)" for f
      using books_note [OF _ i(1) nb that] u by blast
    moreover have "probed olds U (note_result i f u)" for f
      using u i(1) by (auto simp: probed_def note_result_def books_def nth_list_update)
    ultimately show ?thesis
      using u False by (auto simp: weak_step_def verdict_kind) (simp_all add: note_result_def)
  qed
  have "?P t"
    unfolding t
  proof (rule fold_prefix [where P = "\<lambda>_. ?P"])
    fix ys x zs u
    assume "?links = ys @ x # zs" "?P u"
    then show "?P (weak_step olds news ?links x u)" using step [of "fst x" "snd x" u] by simp
  qed (use b assms(2) in simp)
  then show "books olds news U W t" "probed olds U t" by auto
qed

lemma location_step_inv:
  assumes "books olds news U W s" "probed olds U s" "i < length olds"
  shows "books olds news U W (location_step olds news W i s)" "probed olds U (location_step olds news W i s)"
    "cm_results (location_step olds news W i s) ! i \<noteq> None"
    "\<And>j. cm_results s ! j \<noteq> None \<Longrightarrow> cm_results (location_step olds news W i s) ! j \<noteq> None"
proof -
  let ?t = "location_step olds news W i s"
  let ?old = "olds ! i"
  let ?cs = "candidates news (\<lambda>item c. c \<notin> cm_used s \<and> co_kind item = co_kind ?old \<and> co_location item = co_location ?old)"
  have len: "length (cm_results s) = length olds" using assms(1) by (simp add: books_def)
  have rs: "cm_results s ! i \<noteq> None \<and> ?t = s \<or> cm_results s ! i = None \<and> (\<exists>f. cm_results ?t = (cm_results s)[i := Some f])"
    by (auto simp: location_step_def Let_def note_result_def bind_to_def split: list.split)
  then show "cm_results ?t ! i \<noteq> None" "\<And>j. cm_results s ! j \<noteq> None \<Longrightarrow> cm_results ?t ! j \<noteq> None"
    using len assms(3) by (auto simp: nth_list_update)
  then show "probed olds U ?t" using assms(2) by (auto simp: probed_def)
  show "books olds news U W ?t"
  proof (cases "cm_results s ! i")
    case (Some f)
    then show ?thesis using assms(1) by (simp add: location_step_def)
  next
    case None
    have nb: "i \<notin> cm_bound s" by (rule books_unbound [OF assms(1) None])
    have nu: "co_kind ?old \<notin> U" using assms(2,3) None by (auto simp: probed_def)
    show ?thesis
    proof (cases ?cs)
      case Nil
      then show ?thesis
        using None by (simp add: location_step_def Let_def) (intro books_note [OF assms(1,3) nb], simp_all)
    next
      case (Cons c cs)
      then have "c \<in> set ?cs" by (metis list.set_intros(1))
      then have c: "c < length news" "c \<notin> cm_used s" "co_kind (news ! c) = co_kind ?old"
        "co_location (news ! c) = co_location ?old" by (simp_all add: in_candidates)
      show ?thesis
      proof (cases "c \<in> W \<or> c \<in> cm_uncertain s")
        case True
        have "linkable olds news s i c" using c by (simp add: linkable_def)
        then have "books olds news U W (note_result i (ambiguous ?old) s)"
          using True by (intro books_note [OF assms(1,3) nb]) (auto simp: verdict_kind)
        then show ?thesis using None Cons True by (simp add: location_step_def Let_def)
      next
        case False
        then have "books olds news U W (bind_to olds news i c s)"
          by (intro books_bind [OF assms(1,3) nb c(1,2) _ c(3) nu]) simp
        then show ?thesis using None Cons False by (simp add: location_step_def Let_def)
      qed
    qed
  qed
qed

lemma location_phase_inv:
  assumes "books olds news U W s" "probed olds U s"
  shows "books olds news U W (location_phase olds news W s)"
    and "\<And>i. i < length olds \<Longrightarrow> cm_results (location_phase olds news W s) ! i \<noteq> None"
proof -
  let ?P = "\<lambda>is t. books olds news U W t \<and> probed olds U t \<and> (\<forall>i \<in> set is. cm_results t ! i \<noteq> None)"
  have "?P [0..<length olds] (location_phase olds news W s)"
    unfolding location_phase_def
  proof (rule fold_prefix [where P = ?P])
    fix ys x zs t
    assume eq: "[0..<length olds] = ys @ x # zs" and t: "?P ys t"
    have "x \<in> set [0..<length olds]" unfolding eq by simp
    then have x: "x < length olds" by simp
    have bt: "books olds news U W t" "probed olds U t" using t by simp_all
    note l = location_step_inv [OF bt x]
    show "?P (ys @ [x]) (location_step olds news W x t)" using l t by (auto simp del: not_None_eq)
  qed (use assms in simp)
  then show "books olds news U W (location_phase olds news W s)"
    and "\<And>i. i < length olds \<Longrightarrow> cm_results (location_phase olds news W s) ! i \<noteq> None" by auto
qed

section \<open>The findings\<close>

lemma resolve_books:
  obtains W where "books olds news U W (resolve olds news U)"
    and "\<And>i. i < length olds \<Longrightarrow> cm_results (resolve olds news U) ! i \<noteq> None"
proof -
  let ?x = "exact_phase olds news U"
  let ?s1 = "partial_phase olds news ?x"
  have x: "exact_inv olds news U [0..<length olds] ?x" by (rule exact_phase_inv)
  have b1: "books olds news U {} ?s1" by (rule partial_phase_inv [OF x])
  have p1: "probed olds U ?s1"
    unfolding probed_def using x partial_phase_inv(2) [OF x] by (auto simp: exact_inv_def simp del: not_None_eq)
  obtain W s2 where w: "weak_phase olds news ?s1 = (W, s2)" by fastforce
  note b2 = weak_phase_inv [OF b1 p1 w]
  have r: "resolve olds news U = location_phase olds news W s2" using w by (simp add: resolve_def Let_def)
  show thesis by (rule that [of W]) (unfold r, rule location_phase_inv [OF b2], erule location_phase_inv(2) [OF b2])
qed

lemma linked_claims_entry:
  "(i, cs) \<in> set (linked_claims olds news U s) \<longleftrightarrow> i < length olds \<and> i \<notin> cm_bound s \<and> co_kind (olds ! i) \<notin> U
     \<and> cs = final_links olds news s i \<and> cs \<noteq> []"
  by (auto simp: linked_claims_def)

lemma linked_claims_keys: "dict_ok (linked_claims olds news U s)"
proof -
  have "map fst (filter P (map (\<lambda>i. (i, f i)) js)) = filter (\<lambda>i. P (i, f i)) js" for P js and f :: "nat \<Rightarrow> nat list"
    by (induction js) auto
  then show ?thesis unfolding linked_claims_def by simp
qed

lemma in_shared_links:
  "c \<in> set (shared_links news linked) \<longleftrightarrow> c < length news \<and> (\<exists>(i, cs) \<in> set linked. c \<in> set cs)"
  by (auto simp: shared_links_def list_ex_iff)

lemma kind_count_card: "distinct js \<Longrightarrow> kind_count items js k = card {i \<in> set js. co_kind (items ! i) = k}"
  using distinct_card [of "filter (\<lambda>i. co_kind (items ! i) = k) js"] by (simp add: kind_count_def)

text \<open>The four groups of the components and observations of one kind.\<close>

definition of_kind :: "hw_component list \<Rightarrow> hw_kind \<Rightarrow> nat set" where
  "of_kind items k = {i. i < length items \<and> co_kind (items ! i) = k}"

lemma finite_of_kind [simp]: "finite (of_kind items k)"
  by (simp add: of_kind_def)

lemma bound_used_card:
  assumes "bound_pairing olds news U s p"
  shows "card (cm_bound s \<inter> of_kind olds k) = card (cm_used s \<inter> of_kind news k)"
proof (rule bij_betw_same_card [of p])
  have "p ` (cm_bound s \<inter> of_kind olds k) = cm_used s \<inter> of_kind news k"
  proof
    show "p ` (cm_bound s \<inter> of_kind olds k) \<subseteq> cm_used s \<inter> of_kind news k"
      using assms by (auto simp: bound_pairing_def of_kind_def)
    show "cm_used s \<inter> of_kind news k \<subseteq> p ` (cm_bound s \<inter> of_kind olds k)"
    proof
      fix c assume c: "c \<in> cm_used s \<inter> of_kind news k"
      then obtain i where "i \<in> cm_bound s" "c = p i" using assms by (auto simp: bound_pairing_def)
      then show "c \<in> p ` (cm_bound s \<inter> of_kind olds k)" using c assms by (auto simp: bound_pairing_def of_kind_def)
    qed
  qed
  moreover have "inj_on p (cm_bound s \<inter> of_kind olds k)"
    using assms by (auto simp: bound_pairing_def intro: inj_on_subset)
  ultimately show "bij_betw p (cm_bound s \<inter> of_kind olds k) (cm_used s \<inter> of_kind news k)" by (simp add: bij_betw_def)
qed

lemma linked_kind:
  assumes "(i, cs) \<in> set (linked_claims olds news U s)" "c \<in> set cs"
  shows "co_kind (news ! c) = co_kind (olds ! i)" "c < length news" "c \<notin> cm_used s"
  using assms by (auto simp: linked_claims_entry final_links_def in_candidates Let_def)

lemma covered_shared:
  assumes "explained (linked_claims olds news U s) = Some covered"
  shows "distinct covered" "set covered \<subseteq> set (shared_links news (linked_claims olds news U s))"
    "card (set covered \<inter> of_kind news k) \<le> card (dict_keys (linked_claims olds news U s) \<inter> of_kind olds k)"
proof -
  let ?l = "linked_claims olds news U s"
  obtain M where d: "distinct covered" and M: "assignment ?l M" "ran M = set covered"
    using explained_result [OF linked_claims_keys [of olds news U s]] assms by auto
  have entry: "\<exists>cs. (i, cs) \<in> set ?l \<and> c \<in> set cs" if "M i = Some c" for i c
  proof -
    have "c \<in> set (claimed ?l i)" using M(1) that by (simp add: assignment_def)
    then show ?thesis by (cases "map_of ?l i") (auto simp: claimed_def dest: dict_get_Some_in)
  qed
  show "distinct covered" by (rule d)
  show "set covered \<subseteq> set (shared_links news ?l)"
  proof
    fix c assume "c \<in> set covered"
    then obtain i where "M i = Some c" using M(2) by (auto simp: ran_def)
    then obtain cs where "(i, cs) \<in> set ?l" "c \<in> set cs" using entry by blast
    then show "c \<in> set (shared_links news ?l)" using linked_kind(2) by (fastforce simp: in_shared_links)
  qed
  let ?D = "{i \<in> dom M. the (M i) \<in> of_kind news k}"
  have "set covered \<inter> of_kind news k \<subseteq> (\<lambda>i. the (M i)) ` ?D"
  proof
    fix c assume c: "c \<in> set covered \<inter> of_kind news k"
    then obtain i where "M i = Some c" using M(2) by (auto simp: ran_def)
    then show "c \<in> (\<lambda>i. the (M i)) ` ?D" using c by force
  qed
  moreover have D: "?D \<subseteq> dict_keys ?l \<inter> of_kind olds k"
  proof
    fix i assume i: "i \<in> ?D"
    then obtain c where c: "M i = Some c" "c \<in> of_kind news k" by auto
    then obtain cs where cs: "(i, cs) \<in> set ?l" "c \<in> set cs" using entry by blast
    have "i \<in> dict_keys ?l" using cs(1) by (metis fst_conv image_eqI)
    moreover have "i < length olds" using cs(1) by (simp add: linked_claims_entry)
    ultimately show "i \<in> dict_keys ?l \<inter> of_kind olds k"
      using linked_kind(1) [OF cs] c(2) by (simp add: of_kind_def)
  qed
  ultimately show "card (set covered \<inter> of_kind news k) \<le> card (dict_keys ?l \<inter> of_kind olds k)"
    by (meson card_image_le card_mono finite_Int finite_imageI finite_of_kind finite_subset le_trans)
qed

definition found :: "hw_kind \<Rightarrow> hw_state \<Rightarrow> finding list \<Rightarrow> nat" where
  "found k st fs = length (filter (\<lambda>f. fi_kind f = k \<and> fi_state f = st) fs)"

definition kind_total :: "inventory \<Rightarrow> hw_kind \<Rightarrow> nat" where
  "kind_total v k = length (filter (\<lambda>x. co_kind x = k) (in_components v))"

lemma kind_total_card: "kind_total v k = card (of_kind (in_components v) k)"
  by (simp add: kind_total_def of_kind_def length_filter_conv_card)

lemma found_append: "found k st (xs @ ys) = found k st xs + found k st ys"
  by (simp add: found_def)

lemma found_extra:
  "found k NEW_DEVICE (concat (map (\<lambda>j. replicate (a j) (hw_finding j NEW_DEVICE x) @ replicate (b j) (hw_finding j MISSING y)) all_kinds)) = a k"
  "found k MISSING (concat (map (\<lambda>j. replicate (a j) (hw_finding j NEW_DEVICE x) @ replicate (b j) (hw_finding j MISSING y)) all_kinds)) = b k"
  by (cases k; simp add: found_def all_kinds_def)+

text \<open>The size of a part of a list of indices, and of the verdicts.\<close>

lemma found_results:
  assumes "length rs = n" "\<And>i. i < n \<Longrightarrow> rs ! i \<noteq> None"
  shows "found k st (List.map_filter (\<lambda>r. r) rs) = card {i. i < n \<and> fi_kind (the (rs ! i)) = k \<and> fi_state (the (rs ! i)) = st}"
proof -
  have "\<forall>r \<in> set rs. r \<noteq> None" using assms by (metis in_set_conv_nth)
  then have "List.map_filter (\<lambda>r. r) rs = map the rs" by (induction rs) (auto simp: map_filter_simps)
  then show ?thesis using assms(1) by (auto simp: found_def length_filter_conv_card intro!: arg_cong [where f = card])
qed

lemma resolved_groups:
  assumes "books olds news U W s" "\<And>i. i < length olds \<Longrightarrow> cm_results s ! i \<noteq> None" "k \<notin> U"
  shows "card (of_kind olds k) \<le> card (cm_bound s \<inter> of_kind olds k)
    + card (dict_keys (linked_claims olds news U s) \<inter> of_kind olds k)
    + card {i. i < length olds \<and> fi_kind (the (cm_results s ! i)) = k \<and> fi_state (the (cm_results s ! i)) = MISSING}"
    (is "_ \<le> card ?B + card ?L + card ?M")
proof -
  have "of_kind olds k \<subseteq> ?B \<union> ?L \<union> ?M"
  proof
    fix i assume i: "i \<in> of_kind olds k"
    then have n: "i < length olds" "co_kind (olds ! i) = k" by (simp_all add: of_kind_def)
    obtain f where f: "cm_results s ! i = Some f" using assms(2) [OF n(1)] by auto
    have fk: "fi_kind f = k" and st: "result_settled olds news U W s i" using assms(1) n f by (auto simp: books_def)
    from st f assms(3) n(2) consider "i \<in> cm_bound s" | "fi_state f = MISSING"
      | c where "i \<notin> cm_bound s" "c \<in> cm_uncertain s \<union> W" "linkable olds news s i c"
      by (auto simp: result_settled_def)
    then show "i \<in> ?B \<union> ?L \<union> ?M"
    proof cases
      case (3 c)
      then have "c \<notin> cm_used s" using assms(1) by (auto simp: books_def)
      then have "c \<in> set (final_links olds news s i)" using 3(3) by (simp add: linkable_def final_links_def in_candidates Let_def)
      then have "(i, final_links olds news s i) \<in> set (linked_claims olds news U s)"
        using 3(1) n assms(3) by (auto simp: linked_claims_entry)
      then have "i \<in> dict_keys (linked_claims olds news U s)" by (metis fst_conv image_eqI)
      then show ?thesis using i by simp
    qed (use i n f fk in auto)
  qed
  then have "card (of_kind olds k) \<le> card (?B \<union> ?L \<union> ?M)" by (intro card_mono) auto
  also have "\<dots> \<le> card ?B + card ?L + card ?M" by (meson add_le_mono card_Un_le le_refl le_trans)
  finally show ?thesis .
qed

lemma observed_groups:
  assumes "books olds news U W s" "explained (linked_claims olds news U s) = Some covered"
  defines "shared \<equiv> shared_links news (linked_claims olds news U s)"
  shows "card (cm_used s \<inter> of_kind news k) + card (set covered \<inter> of_kind news k) \<le> card (of_kind news k)"
    and "card (of_kind news k) \<le> card (cm_used s \<inter> of_kind news k) + card (set shared \<inter> of_kind news k)
      + card {c. c < length news \<and> c \<notin> cm_used s \<and> c \<notin> set shared \<and> co_kind (news ! c) = k}"
    and "card (cm_bound s \<inter> of_kind olds k) + card (dict_keys (linked_claims olds news U s) \<inter> of_kind olds k)
      \<le> card (of_kind olds k)"
proof -
  let ?l = "linked_claims olds news U s"
  have "set shared \<inter> cm_used s = {}" using linked_kind(3) by (fastforce simp: shared_def in_shared_links)
  then have "set covered \<inter> cm_used s = {}" using covered_shared(2) [OF assms(2)] by (auto simp: shared_def)
  then have "card (cm_used s \<inter> of_kind news k) + card (set covered \<inter> of_kind news k)
      = card ((cm_used s \<inter> of_kind news k) \<union> (set covered \<inter> of_kind news k))"
    by (intro card_Un_disjoint [symmetric]) auto
  also have "\<dots> \<le> card (of_kind news k)" by (intro card_mono) auto
  finally show "card (cm_used s \<inter> of_kind news k) + card (set covered \<inter> of_kind news k) \<le> card (of_kind news k)" .
  let ?N = "{c. c < length news \<and> c \<notin> cm_used s \<and> c \<notin> set shared \<and> co_kind (news ! c) = k}"
  have "of_kind news k \<subseteq> (cm_used s \<inter> of_kind news k) \<union> (set shared \<inter> of_kind news k) \<union> ?N" by (auto simp: of_kind_def)
  then have "card (of_kind news k) \<le> card ((cm_used s \<inter> of_kind news k) \<union> (set shared \<inter> of_kind news k) \<union> ?N)"
    by (intro card_mono) auto
  also have "\<dots> \<le> card (cm_used s \<inter> of_kind news k) + card (set shared \<inter> of_kind news k) + card ?N"
    by (meson add_le_mono card_Un_le le_refl le_trans)
  finally show "card (of_kind news k) \<le> card (cm_used s \<inter> of_kind news k) + card (set shared \<inter> of_kind news k) + card ?N" .
  have "cm_bound s \<inter> dict_keys ?l = {}" by (auto simp: linked_claims_entry)
  then have "card (cm_bound s \<inter> of_kind olds k) + card (dict_keys ?l \<inter> of_kind olds k)
      = card ((cm_bound s \<inter> of_kind olds k) \<union> (dict_keys ?l \<inter> of_kind olds k))"
    by (intro card_Un_disjoint [symmetric]) auto
  also have "\<dots> \<le> card (of_kind olds k)" by (intro card_mono) auto
  finally show "card (cm_bound s \<inter> of_kind olds k) + card (dict_keys ?l \<inter> of_kind olds k) \<le> card (of_kind olds k)" .
qed

lemma report_counts:
  fixes base current covered
  defines "olds \<equiv> in_components base" and "news \<equiv> in_components current" and "U \<equiv> in_unavailable current"
  defines "s \<equiv> resolve olds news U"
  defines "linked \<equiv> linked_claims olds news U s"
  assumes "explained linked = Some covered" "k \<notin> U"
  shows "found k MISSING (report base current s linked covered)
      = card {i. i < length olds \<and> fi_kind (the (cm_results s ! i)) = k \<and> fi_state (the (cm_results s ! i)) = MISSING}
        + (card (dict_keys linked \<inter> of_kind olds k) - card (set covered \<inter> of_kind news k))"
    and "card {c. c < length news \<and> c \<notin> cm_used s \<and> c \<notin> set (shared_links news linked) \<and> co_kind (news ! c) = k}
        + (card (set (shared_links news linked) \<inter> of_kind news k) - card (set covered \<inter> of_kind news k))
      \<le> found k NEW_DEVICE (report base current s linked covered)"
proof -
  obtain W where b: "books olds news U W s" and all: "\<And>i. i < length olds \<Longrightarrow> cm_results s ! i \<noteq> None"
    unfolding s_def by (rule resolve_books [of olds news U]) blast
  have len: "length (cm_results s) = length olds" using b by (simp add: books_def)
  note cov = covered_shared [OF assms(6) [unfolded linked_def]]
  have kc: "kind_count news covered k = card (set covered \<inter> of_kind news k)"
    using cov(1,2) by (auto simp: kind_count_card of_kind_def in_shared_links intro!: arg_cong [where f = card])
  have ks: "kind_count news (shared_links news linked) k = card (set (shared_links news linked) \<inter> of_kind news k)"
    by (auto simp: kind_count_card of_kind_def shared_links_def intro!: arg_cong [where f = card])
  have kl: "kind_count olds (map fst linked) k = card (dict_keys linked \<inter> of_kind olds k)"
  proof -
    have "distinct (map fst linked)" unfolding linked_def by (rule linked_claims_keys)
    moreover have "i < length olds" if "i \<in> dict_keys linked" for i using that by (auto simp: linked_def linked_claims_entry)
    ultimately show ?thesis by (auto simp: kind_count_card of_kind_def intro!: arg_cong [where f = card])
  qed
  have none: "found k MISSING (map (\<lambda>j. hw_finding j UNVERIFIABLE x) js) = 0"
    "found k MISSING (map (\<lambda>c. hw_finding (g c) NEW_DEVICE x) cs) = 0" for x js cs and g :: "nat \<Rightarrow> hw_kind"
    by (simp_all add: found_def filter_map comp_def)
  have new: "found k NEW_DEVICE (map (\<lambda>c. hw_finding (co_kind (news ! c)) NEW_DEVICE x)
      (filter (\<lambda>c. c \<notin> cm_used s \<and> \<not> List.member (shared_links news linked) c \<and> co_kind (news ! c) \<notin> U) [0..<length news]))
      = card {c. c < length news \<and> c \<notin> cm_used s \<and> c \<notin> set (shared_links news linked) \<and> co_kind (news ! c) = k}" for x
    using assms(7) unfolding found_def filter_map length_map filter_filter comp_def
    by (subst distinct_card [symmetric]) (auto intro!: arg_cong [where f = card])
  show "found k MISSING (report base current s linked covered)
      = card {i. i < length olds \<and> fi_kind (the (cm_results s ! i)) = k \<and> fi_state (the (cm_results s ! i)) = MISSING}
        + (card (dict_keys linked \<inter> of_kind olds k) - card (set covered \<inter> of_kind news k))"
    unfolding report_def Let_def found_append found_extra none olds_def [symmetric] news_def [symmetric] U_def [symmetric]
      kc kl using found_results [OF len all, of k MISSING] by simp
  show "card {c. c < length news \<and> c \<notin> cm_used s \<and> c \<notin> set (shared_links news linked) \<and> co_kind (news ! c) = k}
        + (card (set (shared_links news linked) \<inter> of_kind news k) - card (set covered \<inter> of_kind news k))
      \<le> found k NEW_DEVICE (report base current s linked covered)"
    unfolding report_def Let_def found_append found_extra olds_def [symmetric] news_def [symmetric] U_def [symmetric]
      new kc ks by simp
qed

text \<open>
  C7. The comparison always returns, and for every kind that was probed it reports at least as many components
  \<open>MISSING\<close> as there are fewer now than were approved, and at least as many \<open>NEW_DEVICE\<close> as there are more, no matter
  how ambiguous, incomplete or duplicated the identities are. Absent hardware is therefore always an
  immediate alert.
\<close>

theorem hardware_changes_counted:
  assumes "k \<notin> in_unavailable current"
  shows "\<exists>fs. compare_inventories (Some base) current = Some fs
    \<and> kind_total base k \<le> kind_total current k + found k MISSING fs
    \<and> kind_total current k \<le> kind_total base k + found k NEW_DEVICE fs"
proof -
  let ?olds = "in_components base" and ?news = "in_components current" and ?U = "in_unavailable current"
  let ?s = "resolve ?olds ?news ?U"
  let ?l = "linked_claims ?olds ?news ?U ?s"
  obtain covered where ex: "explained ?l = Some covered"
    using explained_result [OF linked_claims_keys] by blast
  obtain W where b: "books ?olds ?news ?U W ?s" and all: "\<And>i. i < length ?olds \<Longrightarrow> cm_results ?s ! i \<noteq> None"
    by (rule resolve_books [of ?olds ?news ?U]) blast
  obtain p where p: "bound_pairing ?olds ?news ?U ?s p" using b by (auto simp: books_def)
  note counts = report_counts [OF ex assms] resolved_groups [OF b all assms] observed_groups [OF b ex, of k]
    bound_used_card [OF p, of k] covered_shared(3) [OF ex, of k]
  have "compare_inventories (Some base) current = Some (report base current ?s ?l covered)"
    using ex by (simp add: compare_inventories_def Let_def)
  moreover have "kind_total base k \<le> kind_total current k + found k MISSING (report base current ?s ?l covered)"
    unfolding kind_total_card using counts by linarith
  moreover have "kind_total current k \<le> kind_total base k + found k NEW_DEVICE (report base current ?s ?l covered)"
    unfolding kind_total_card using counts by linarith
  ultimately show ?thesis by blast
qed

definition ex_disk :: "string \<Rightarrow> pairs \<Rightarrow> hw_component" where
  "ex_disk slot serial = \<lparr>co_kind = STORAGE, co_location = slot, co_properties = [(''size'', ''1'')],
     co_identity = serial, co_complete = True\<rparr>"

definition ex_inventory :: "hw_component list \<Rightarrow> inventory" where
  "ex_inventory xs = \<lparr>in_components = xs, in_unavailable = {}\<rparr>"

theorem hardware_changes_counted_witness:
  "\<exists>fs. compare_inventories (Some (ex_inventory [ex_disk ''a'' [], ex_disk ''b'' []])) (ex_inventory [ex_disk ''c'' []]) = Some fs
    \<and> 1 \<le> found STORAGE MISSING fs"
proof -
  let ?base = "ex_inventory [ex_disk ''a'' [], ex_disk ''b'' []]" and ?now = "ex_inventory [ex_disk ''c'' []]"
  have "STORAGE \<notin> in_unavailable ?now" by (simp add: ex_inventory_def)
  from hardware_changes_counted [OF this, of ?base] obtain fs where "compare_inventories (Some ?base) ?now = Some fs"
    "kind_total ?base STORAGE \<le> kind_total ?now STORAGE + found STORAGE MISSING fs" by blast
  moreover have "kind_total ?base STORAGE = 2" "kind_total ?now STORAGE = 1"
    by (simp_all add: kind_total_def ex_inventory_def ex_disk_def)
  ultimately show ?thesis by auto
qed

section \<open>What \<open>OK\<close> means\<close>

definition seen_whole :: "hw_component list \<Rightarrow> hw_component list \<Rightarrow> hw_component \<Rightarrow> hw_component \<Rightarrow> bool" where
  "seen_whole olds news old item \<longleftrightarrow> item \<in> set news \<and> co_kind item = co_kind old \<and> co_identity item = co_identity old
     \<and> co_identity old \<noteq> [] \<and> co_properties item = co_properties old \<and> co_complete old \<and> co_complete item
     \<and> identity_count news (co_kind old) (co_identity old) = 1 \<and> identity_count olds (co_kind old) (co_identity old) = 1"

definition ok_backed :: "hw_component list \<Rightarrow> hw_component list \<Rightarrow> compare_state \<Rightarrow> bool" where
  "ok_backed olds news s \<longleftrightarrow> (\<forall>i f. i < length (cm_results s) \<longrightarrow> cm_results s ! i = Some f \<longrightarrow> fi_state f = OK
     \<longrightarrow> (\<exists>item. seen_whole olds news (olds ! i) item))"

lemma match_verdict_ok:
  assumes "fi_state (match_verdict olds news old item) = OK" "item \<in> set news" "co_kind item = co_kind old"
  shows "seen_whole olds news old item"
  using assms by (auto simp: match_verdict_def ambiguous_def seen_whole_def split: if_splits)

lemma ok_backed_note:
  assumes "ok_backed olds news s" "fi_state f = OK \<Longrightarrow> \<exists>item. seen_whole olds news (olds ! i) item"
  shows "ok_backed olds news (note_result i f s)"
  unfolding ok_backed_def
proof (intro allI impI)
  fix j g
  assume j: "j < length (cm_results (note_result i f s))" "cm_results (note_result i f s) ! j = Some g" "fi_state g = OK"
  then have len: "j < length (cm_results s)" by (simp add: note_result_def)
  show "\<exists>item. seen_whole olds news (olds ! j) item"
  proof (cases "j = i")
    case True
    then have "g = f" using j len by (simp add: note_result_def)
    then show ?thesis using assms(2) j True by simp
  next
    case False
    then have "cm_results s ! j = Some g" using j by (simp add: note_result_def)
    then show ?thesis using assms(1) len j(3) unfolding ok_backed_def by blast
  qed
qed

lemma ok_backed_match:
  assumes "ok_backed olds news s" "c < length news" "co_kind (news ! c) = co_kind (olds ! i)"
  shows "ok_backed olds news (note_result i (match_verdict olds news (olds ! i) (news ! c)) s)"
  by (rule ok_backed_note [OF assms(1)]) (use match_verdict_ok assms(2,3) in \<open>metis nth_mem\<close>)

lemma ok_backed_frame: "cm_results t = cm_results s \<Longrightarrow> ok_backed olds news t = ok_backed olds news s"
  by (simp add: ok_backed_def)

lemma ok_backed_ops:
  "ok_backed olds news s \<Longrightarrow> ok_backed olds news (leave_ambiguous olds i cs s)"
  "ok_backed olds news s \<Longrightarrow> ok_backed olds news (note_result i (ambiguous old) s)"
  "\<lbrakk>ok_backed olds news s; c < length news; co_kind (news ! c) = co_kind (olds ! i)\<rbrakk> \<Longrightarrow> ok_backed olds news (bind_to olds news i c s)"
proof -
  show amb: "ok_backed olds news s \<Longrightarrow> ok_backed olds news (note_result i (ambiguous old) s)" for old
    by (rule ok_backed_note) (simp_all add: ambiguous_def)
  show "ok_backed olds news s \<Longrightarrow> ok_backed olds news (leave_ambiguous olds i cs s)"
    using amb [of "olds ! i"] by (simp add: leave_ambiguous_def ok_backed_def)
  show "\<lbrakk>ok_backed olds news s; c < length news; co_kind (news ! c) = co_kind (olds ! i)\<rbrakk>
      \<Longrightarrow> ok_backed olds news (bind_to olds news i c s)"
    using ok_backed_match [of olds news s c i] by (simp add: bind_to_def ok_backed_def)
qed

lemma ok_backed_exact: "ok_backed olds news s \<Longrightarrow> ok_backed olds news (exact_step olds news U i s)"
proof -
  assume b: "ok_backed olds news s"
  let ?x = "exact_links news (olds ! i)"
  have "?x \<noteq> [] \<Longrightarrow> hd ?x \<in> set ?x" by simp
  then have "?x \<noteq> [] \<Longrightarrow> ok_backed olds news (bind_to olds news i (hd ?x) s)" using ok_backed_ops(3) [OF b] by (simp add: in_exact)
  moreover have "ok_backed olds news (note_result i (hw_finding j UNVERIFIABLE r) s)" for j r
    by (rule ok_backed_note [OF b]) simp
  ultimately show ?thesis using b ok_backed_ops(1) by (auto simp: exact_step_def Let_def)
qed

lemma ok_backed_links:
  assumes "ok_backed olds news s" "\<And>c. c \<in> set cs \<Longrightarrow> c < length news \<and> co_kind (news ! c) = co_kind (olds ! i)"
  shows "ok_backed olds news (partial_step olds news links (i, cs) s)" "ok_backed olds news (weak_step olds news links (i, cs) s)"
proof -
  have "cs \<noteq> [] \<Longrightarrow> hd cs < length news \<and> co_kind (news ! hd cs) = co_kind (olds ! i)" using assms(2) [of "hd cs"] by simp
  then show "ok_backed olds news (partial_step olds news links (i, cs) s)" "ok_backed olds news (weak_step olds news links (i, cs) s)"
    using assms(1) ok_backed_ops ok_backed_match [OF assms(1)] by (auto simp: partial_step_def weak_step_def)
qed

lemma ok_backed_location: "ok_backed olds news s \<Longrightarrow> ok_backed olds news (location_step olds news W i s)"
proof -
  assume b: "ok_backed olds news s"
  let ?cs = "candidates news (\<lambda>item c. c \<notin> cm_used s \<and> co_kind item = co_kind (olds ! i) \<and> co_location item = co_location (olds ! i))"
  have miss: "ok_backed olds news (note_result i (hw_finding j MISSING r) s)" for j r
    by (rule ok_backed_note [OF b]) simp
  show ?thesis
  proof (cases ?cs)
    case Nil
    then show ?thesis using b miss by (simp add: location_step_def Let_def)
  next
    case (Cons c cs)
    then have "c \<in> set ?cs" by (metis list.set_intros(1))
    then have "ok_backed olds news (bind_to olds news i c s)" using ok_backed_ops(3) [OF b] by (simp add: in_candidates)
    then show ?thesis using b Cons ok_backed_ops(2) [OF b] by (simp add: location_step_def Let_def)
  qed
qed

lemma ok_backed_fold: "\<lbrakk>ok_backed olds news s; \<And>x t. \<lbrakk>x \<in> set xs; ok_backed olds news t\<rbrakk> \<Longrightarrow> ok_backed olds news (f x t)\<rbrakk>
  \<Longrightarrow> ok_backed olds news (fold f xs s)"
  by (induction xs arbitrary: s) auto

lemma resolve_ok_backed: "ok_backed olds news (resolve olds news U)"
proof -
  let ?x = "exact_phase olds news U"
  let ?s1 = "partial_phase olds news ?x"
  have "ok_backed olds news ?x"
    unfolding exact_phase_def by (rule ok_backed_fold) (simp_all add: ok_backed_exact, simp add: ok_backed_def)
  then have s1: "ok_backed olds news ?s1"
    unfolding partial_phase_def Let_def
    by (rule ok_backed_fold) (auto simp: open_links_entry partial_links_def in_candidates Let_def intro!: ok_backed_links(1))
  obtain W s2 where w: "weak_phase olds news ?s1 = (W, s2)" by fastforce
  then have "s2 = fold (weak_step olds news (open_links olds (weak_links olds news (cm_used ?s1)) ?s1))
      (open_links olds (weak_links olds news (cm_used ?s1)) ?s1) ?s1" by (simp add: weak_phase_def Let_def)
  then have "ok_backed olds news s2"
    using s1 by (simp only:) (rule ok_backed_fold, auto simp: open_links_entry weak_links_def in_candidates intro!: ok_backed_links(2))
  then have "ok_backed olds news (location_phase olds news W s2)"
    unfolding location_phase_def by (rule ok_backed_fold) (rule ok_backed_location)
  then show ?thesis using w by (simp add: resolve_def Let_def)
qed

text \<open>
  C21. The comparison says \<open>OK\<close> of an approved component only when exactly that component is there: an observation of the
  same kind with the same complete, non-empty identity and the same properties, and that identity occurs once
  among the approved and once among the observed components.
\<close>

theorem ok_only_for_seen_component:
  assumes "compare_inventories (Some base) current = Some fs" "i < length (in_components base)" "fi_state (fs ! i) = OK"
  shows "\<exists>item. seen_whole (in_components base) (in_components current) (in_components base ! i) item"
proof -
  let ?olds = "in_components base" and ?news = "in_components current" and ?U = "in_unavailable current"
  let ?s = "resolve ?olds ?news ?U"
  obtain W where b: "books ?olds ?news ?U W ?s" and all: "\<And>i. i < length ?olds \<Longrightarrow> cm_results ?s ! i \<noteq> None"
    by (rule resolve_books [of ?olds ?news ?U]) blast
  have len: "length (cm_results ?s) = length ?olds" using b by (simp add: books_def)
  have "\<forall>r \<in> set (cm_results ?s). r \<noteq> None" using all len by (metis in_set_conv_nth)
  then have m: "List.map_filter (\<lambda>r. r) (cm_results ?s) = map the (cm_results ?s)"
    by (induction "cm_results ?s") (auto simp: map_filter_simps map_filter_def)
  have "fs ! i = the (cm_results ?s ! i)"
    using assms(1,2) len by (auto simp: compare_inventories_def report_def Let_def m nth_append)
  then have "cm_results ?s ! i = Some (fs ! i)" using all [OF assms(2)] by auto
  then show ?thesis using resolve_ok_backed assms(2,3) len unfolding ok_backed_def by metis
qed

theorem ok_only_for_seen_component_witness:
  "\<exists>item. seen_whole [ex_disk ''a'' [(''serial'', ''x'')]] [ex_disk ''b'' [(''serial'', ''x'')]]
     (ex_disk ''a'' [(''serial'', ''x'')]) item"
proof -
  let ?base = "ex_inventory [ex_disk ''a'' [(''serial'', ''x'')]]" and ?now = "ex_inventory [ex_disk ''b'' [(''serial'', ''x'')]]"
  have c: "compare_inventories (Some ?base) ?now = Some [hw_finding STORAGE OK ''IDENTITY_AND_PROPERTIES_MATCH'']"
    unfolding ex_inventory_def ex_disk_def by code_simp
  have "\<exists>item. seen_whole (in_components ?base) (in_components ?now) (in_components ?base ! 0) item"
    by (rule ok_only_for_seen_component [OF c]) (simp_all add: ex_inventory_def)
  then show ?thesis by (simp add: ex_inventory_def)
qed

end
