(* ===== verification/Integrity_Store.thy ===== *)
theory Integrity_Store
  imports Hardware_Integrity
begin

text \<open>
  The durable side of the hardware check: \<^verbatim>\<open>server/app/integrity/store.py\<close>. The five tables are a record; a row of
  \<open>integrity_outbox\<close> keeps the findings themselves instead of their JSON text, and a point in time is its
  distance to the epoch (a naive \<open>datetime\<close> is \<open>None\<close>). Each write of the store is one transaction inside a
  storage reservation. It can end in four ways: it commits, the database is busy, it fails and is rolled back (the
  reservation is refused, \<open>BEGIN\<close>, a statement or \<open>COMMIT\<close> raises), or it commits and giving the reservation
  back raises afterwards. The end is an argument.
\<close>

section \<open>Order of the enumerations\<close>

text \<open>Both enumerations are strings to the database, and \<open>ORDER BY\<close> compares them as text.\<close>

fun kind_text :: "hw_kind \<Rightarrow> string" where
  "kind_text CPU = ''CPU''"
| "kind_text MEMORY = ''MEMORY''"
| "kind_text STORAGE = ''STORAGE''"
| "kind_text GPU = ''GPU''"

fun state_text :: "hw_state \<Rightarrow> string" where
  "state_text OK = ''OK''"
| "state_text CHANGED = ''CHANGED''"
| "state_text MISSING = ''MISSING''"
| "state_text NEW_DEVICE = ''NEW_DEVICE''"
| "state_text UNVERIFIABLE = ''UNVERIFIABLE''"

lemma kind_text_inj: "kind_text a = kind_text b \<Longrightarrow> a = b"
  by (cases a; cases b) simp_all

lemma state_text_inj: "state_text a = state_text b \<Longrightarrow> a = b"
  by (cases a; cases b) simp_all

instantiation hw_kind :: linorder
begin
definition less_eq_hw_kind :: "hw_kind \<Rightarrow> hw_kind \<Rightarrow> bool" where
  "less_eq_hw_kind a b \<longleftrightarrow> kind_text a \<le> kind_text b"
definition less_hw_kind :: "hw_kind \<Rightarrow> hw_kind \<Rightarrow> bool" where
  "less_hw_kind a b \<longleftrightarrow> kind_text a < kind_text b"
instance
  by standard (auto simp: less_eq_hw_kind_def less_hw_kind_def intro: kind_text_inj)
end

instantiation hw_state :: linorder
begin
definition less_eq_hw_state :: "hw_state \<Rightarrow> hw_state \<Rightarrow> bool" where
  "less_eq_hw_state a b \<longleftrightarrow> state_text a \<le> state_text b"
definition less_hw_state :: "hw_state \<Rightarrow> hw_state \<Rightarrow> bool" where
  "less_hw_state a b \<longleftrightarrow> state_text a < state_text b"
instance
  by standard (auto simp: less_eq_hw_state_def less_hw_state_def intro: state_text_inj)
end

section \<open>Tables\<close>

record outbox_row =
  ob_id :: nat
  ob_at :: int
  ob_immediate :: bool
  ob_findings :: "finding list"
  ob_delivered :: bool

type_synonym overflow_slot = "(hw_kind \<times> hw_state) \<times> int"

record status_row =
  sr_at :: int
  sr_findings :: "finding list"
  sr_delivery_blocked :: bool

record audit_row =
  ar_at :: int
  ar_actor :: uuid
  ar_revision :: nat

record integrity_db =
  db_baseline :: "(nat \<times> inventory) option"
  db_audit :: "audit_row list"
  db_status :: "status_row option"
  db_outbox :: "outbox_row list"
  db_next_id :: nat
  db_overflow :: "overflow_slot list"

definition empty_integrity_db :: integrity_db where
  "empty_integrity_db = \<lparr>db_baseline = None, db_audit = [], db_status = None, db_outbox = [], db_next_id = 1, db_overflow = []\<rparr>"

datatype store_error =
  INVALID_INTEGRITY_STORAGE_POLICY | AWARE_TIME_REQUIRED | INTEGRITY_DATABASE_BUSY | TRANSACTION_FAILED
| OWNER_APPROVAL_REQUIRED | BASELINE_REVISION_CHANGED | INTEGRITY_OUTBOX_FULL | INVALID_BASELINE integrity_error

datatype tx_end = COMMITTED | BUSY | ROLLED_BACK | RELEASE_FAILED

definition transact :: "tx_end \<Rightarrow> (integrity_db \<Rightarrow> integrity_db) \<Rightarrow> integrity_db \<Rightarrow> (store_error, unit, integrity_db) outcome" where
  "transact e body d =
     (case e of
        COMMITTED \<Rightarrow> (Inr (), body d)
      | BUSY \<Rightarrow> (Inl INTEGRITY_DATABASE_BUSY, d)
      | ROLLED_BACK \<Rightarrow> (Inl TRANSACTION_FAILED, d)
      | RELEASE_FAILED \<Rightarrow> (Inl TRANSACTION_FAILED, body d))"

definition storage_policy_ok :: "int \<Rightarrow> bool" where
  "storage_policy_ok max_pending_events \<longleftrightarrow> 1 \<le> max_pending_events \<and> max_pending_events \<le> 10000"

section \<open>Baseline\<close>

fun load_components :: "hw_component list \<Rightarrow> integrity_error + hw_component list" where
  "load_components [] = Inr []"
| "load_components (x # xs) =
     (case make_component (co_kind x) (co_location x) (co_properties x) (co_identity x) (co_complete x) of
        Inl e \<Rightarrow> Inl e
      | Inr c \<Rightarrow> (case load_components xs of Inl e \<Rightarrow> Inl e | Inr cs \<Rightarrow> Inr (c # cs)))"

definition baseline :: "integrity_db \<Rightarrow> integrity_error + (nat \<times> inventory option)" where
  "baseline d =
     (case db_baseline d of
        None \<Rightarrow> Inr (0, None)
      | Some (revision, v) \<Rightarrow>
          (case load_components (in_components v) of
             Inl e \<Rightarrow> Inl e
           | Inr cs \<Rightarrow>
               (let w = \<lparr>in_components = cs, in_unavailable = in_unavailable v\<rparr> in
                case inventory_ok w of Some e \<Rightarrow> Inl e | None \<Rightarrow> Inr (revision, Some w))))"

definition latest :: "integrity_db \<Rightarrow> (finding list \<times> bool) option" where
  "latest d = map_option (\<lambda>r. (sr_findings r, sr_delivery_blocked r)) (db_status d)"

text \<open>
  \<open>approve_on\<close> writes inside the caller's transaction; \<open>owner\<close> is what \<open>require_owner\<close> answers and
  \<open>in_transaction\<close> says whether the caller's connection is the store's and has a transaction open.
\<close>

definition approve_on :: "bool \<Rightarrow> uuid option \<Rightarrow> inventory \<Rightarrow> nat \<Rightarrow> int option \<Rightarrow> integrity_db
    \<Rightarrow> (store_error, nat, integrity_db) outcome" where
  "approve_on in_transaction owner v expected_revision moment d =
     (if \<not> in_transaction then (Inl INTEGRITY_DATABASE_BUSY, d)
      else case owner of
        None \<Rightarrow> (Inl OWNER_APPROVAL_REQUIRED, d)
      | Some actor \<Rightarrow>
          (case moment of
             None \<Rightarrow> (Inl AWARE_TIME_REQUIRED, d)
           | Some t \<Rightarrow>
               (case baseline d of
                  Inl e \<Rightarrow> (Inl (INVALID_BASELINE e), d)
                | Inr (actual, _) \<Rightarrow>
                    if actual \<noteq> expected_revision then (Inl BASELINE_REVISION_CHANGED, d)
                    else (Inr (actual + 1),
                          d\<lparr>db_baseline := Some (actual + 1, v),
                            db_audit := db_audit d @ [\<lparr>ar_at = t, ar_actor = actor, ar_revision = actual + 1\<rparr>]\<rparr>))))"

section \<open>Recording a check\<close>

definition pending_rows :: "integrity_db \<Rightarrow> outbox_row list" where
  "pending_rows d = filter (\<lambda>r. \<not> ob_delivered r) (db_outbox d)"

definition post_row :: "int \<Rightarrow> bool \<Rightarrow> finding list \<Rightarrow> integrity_db \<Rightarrow> integrity_db" where
  "post_row t urgent fs d =
     d\<lparr>db_outbox := db_outbox d @ [\<lparr>ob_id = db_next_id d, ob_at = t, ob_immediate = urgent, ob_findings = fs,
                                     ob_delivered = False\<rparr>],
       db_next_id := db_next_id d + 1\<rparr>"

text \<open>\<open>INSERT ... ON CONFLICT(kind,state) DO NOTHING\<close>.\<close>

definition keep_overflow :: "int \<Rightarrow> finding \<Rightarrow> overflow_slot list \<Rightarrow> overflow_slot list" where
  "keep_overflow t f slots =
     (if (fi_kind f, fi_state f) \<in> fst ` set slots then slots else slots @ [((fi_kind f, fi_state f), t)])"

definition is_warning :: "finding list \<Rightarrow> bool" where
  "is_warning fs = list_ex (\<lambda>f. fi_state f \<noteq> OK) fs"

definition outbox_blocked :: "nat \<Rightarrow> finding list \<Rightarrow> integrity_db \<Rightarrow> bool" where
  "outbox_blocked max_pending fs d \<longleftrightarrow> is_warning fs \<and> max_pending \<le> length (pending_rows d)"

definition overflow_all :: "int \<Rightarrow> finding list \<Rightarrow> overflow_slot list \<Rightarrow> overflow_slot list" where
  "overflow_all t fs slots = fold (keep_overflow t) (filter (\<lambda>f. fi_state f \<noteq> OK) fs) slots"

definition record_body :: "nat \<Rightarrow> finding list \<Rightarrow> int \<Rightarrow> integrity_db \<Rightarrow> integrity_db" where
  "record_body max_pending fs t d =
     (let blocked = outbox_blocked max_pending fs d;
          d1 = (if blocked then d\<lparr>db_overflow := overflow_all t fs (db_overflow d)\<rparr> else d);
          d2 = d1\<lparr>db_status := Some \<lparr>sr_at = t, sr_findings = fs, sr_delivery_blocked = (db_overflow d1 \<noteq> [])\<rparr>\<rparr>
      in if is_warning fs \<and> \<not> blocked then post_row t (list_ex finding_immediate fs) fs d2 else d2)"

definition record_findings :: "nat \<Rightarrow> tx_end \<Rightarrow> finding list \<Rightarrow> int option \<Rightarrow> integrity_db
    \<Rightarrow> (store_error, unit, integrity_db) outcome" where
  "record_findings max_pending e fs moment d =
     (case moment of
        None \<Rightarrow> (Inl AWARE_TIME_REQUIRED, d)
      | Some t \<Rightarrow>
          (case transact e (record_body max_pending fs t) d of
             (Inl err, d') \<Rightarrow> (Inl err, d')
           | (Inr _, d') \<Rightarrow> if outbox_blocked max_pending fs d then (Inl INTEGRITY_OUTBOX_FULL, d') else (Inr (), d')))"

section \<open>Delivery\<close>

definition promote_row :: "overflow_slot \<Rightarrow> integrity_db \<Rightarrow> integrity_db" where
  "promote_row slot d =
     (case slot of ((k, s), t) \<Rightarrow>
       (let f = hw_finding k s ''COALESCED_PENDING_WARNING''; d1 = post_row t (finding_immediate f) [f] d
        in d1\<lparr>db_overflow := filter (\<lambda>x. fst x \<noteq> (k, s)) (db_overflow d1)\<rparr>))"

definition overflow_order :: "overflow_slot list \<Rightarrow> overflow_slot list" where
  "overflow_order slots = sort_key (\<lambda>((k, s), t). (t, k, s)) slots"

definition flag_overflow :: "integrity_db \<Rightarrow> integrity_db" where
  "flag_overflow d = d\<lparr>db_status := map_option (\<lambda>r. r\<lparr>sr_delivery_blocked := (db_overflow d \<noteq> [])\<rparr>) (db_status d)\<rparr>"

definition promote_overflow :: "nat \<Rightarrow> integrity_db \<Rightarrow> integrity_db" where
  "promote_overflow max_pending d =
     flag_overflow (fold promote_row (take (max_pending - length (pending_rows d)) (overflow_order (db_overflow d))) d)"

definition acknowledge :: "nat \<Rightarrow> outbox_row \<Rightarrow> integrity_db \<Rightarrow> integrity_db" where
  "acknowledge max_pending r d =
     promote_overflow max_pending (d\<lparr>db_outbox := filter (\<lambda>x. ob_id x \<noteq> ob_id r) (db_outbox d)\<rparr>)"

text \<open>
  The loop of \<open>deliver\<close>. The sink's answer and the end of the transaction are given for each row; the third
  component of the result is the list of rows the sink accepted.
\<close>

fun deliver_rows :: "nat \<Rightarrow> (outbox_row \<Rightarrow> bool) \<Rightarrow> (outbox_row \<Rightarrow> tx_end) \<Rightarrow> outbox_row list \<Rightarrow> integrity_db
    \<Rightarrow> (store_error + bool) \<times> integrity_db \<times> outbox_row list" where
  "deliver_rows max_pending sink e [] d = (Inr True, d, [])"
| "deliver_rows max_pending sink e (r # rs) d =
     (if \<not> sink r then (Inr False, d, [])
      else case transact (e r) (acknowledge max_pending r) d of
          (Inl err, d') \<Rightarrow> (Inl err, d', [r])
        | (Inr _, d') \<Rightarrow> (case deliver_rows max_pending sink e rs d' of (res, d'', accepted) \<Rightarrow> (res, d'', r # accepted)))"

definition delivery_batch :: "integrity_db \<Rightarrow> outbox_row list" where
  "delivery_batch d = take 100 (sort_key ob_id (pending_rows d))"

definition deliver :: "nat \<Rightarrow> (outbox_row \<Rightarrow> bool) \<Rightarrow> (outbox_row \<Rightarrow> tx_end) \<Rightarrow> integrity_db
    \<Rightarrow> (store_error + bool) \<times> integrity_db \<times> outbox_row list" where
  "deliver max_pending sink e d = deliver_rows max_pending sink e (delivery_batch d) d"

end
