(* ===== verification/Integrity_Warnings.thy ===== *)
theory Integrity_Warnings
  imports Integrity_Store
begin

text \<open>
  What the integrity store guarantees over every history of recorded checks, deliveries and approvals, with every
  end of every transaction: the outbox stays bounded, the overflow table holds at most one slot per kind and state,
  \<open>delivery_blocked\<close> tells the truth, every revision of the baseline has its audit row, and a warning that was
  recorded stays in the outbox or in its overflow slot until the sink has accepted it.
\<close>

section \<open>Histories\<close>

inductive integrity_life :: "nat \<Rightarrow> integrity_db \<Rightarrow> integrity_db \<Rightarrow> outbox_row list \<Rightarrow> bool" for max_pending d where
  life_start: "integrity_life max_pending d d []"
| life_record: "integrity_life max_pending d d1 acc \<Longrightarrow>
    integrity_life max_pending d (snd (record_findings max_pending e fs moment d1)) acc"
| life_deliver: "\<lbrakk>integrity_life max_pending d d1 acc; deliver max_pending sink ends d1 = (res, d2, accepted)\<rbrakk> \<Longrightarrow>
    integrity_life max_pending d d2 (acc @ accepted)"
| life_approve: "integrity_life max_pending d d1 acc \<Longrightarrow>
    integrity_life max_pending d (snd (approve_on tx owner v expected moment d1)) acc"

definition revision_of :: "integrity_db \<Rightarrow> nat" where
  "revision_of d = (case db_baseline d of None \<Rightarrow> 0 | Some (r, _) \<Rightarrow> r)"

definition outbox_ok :: "integrity_db \<Rightarrow> bool" where
  "outbox_ok d \<longleftrightarrow> distinct (map ob_id (db_outbox d)) \<and> (\<forall>r \<in> set (db_outbox d). ob_id r < db_next_id d)"

definition overflow_ok :: "integrity_db \<Rightarrow> bool" where
  "overflow_ok d \<longleftrightarrow> distinct (map fst (db_overflow d)) \<and> (\<forall>x \<in> set (db_overflow d). snd (fst x) \<noteq> OK)"

definition flag_ok :: "integrity_db \<Rightarrow> bool" where
  "flag_ok d \<longleftrightarrow> (case db_status d of None \<Rightarrow> db_overflow d = [] | Some r \<Rightarrow> sr_delivery_blocked r = (db_overflow d \<noteq> []))"

definition audit_ok :: "integrity_db \<Rightarrow> bool" where
  "audit_ok d \<longleftrightarrow> map ar_revision (db_audit d) = [1..<Suc (revision_of d)]"

definition capacity_ok :: "nat \<Rightarrow> integrity_db \<Rightarrow> bool" where
  "capacity_ok max_pending d \<longleftrightarrow> length (pending_rows d) \<le> max_pending
     \<and> (db_overflow d \<noteq> [] \<longrightarrow> length (pending_rows d) = max_pending)"

definition store_inv :: "nat \<Rightarrow> integrity_db \<Rightarrow> bool" where
  "store_inv max_pending d \<longleftrightarrow> outbox_ok d \<and> overflow_ok d \<and> flag_ok d \<and> audit_ok d \<and> capacity_ok max_pending d"

lemma store_inv_empty: "store_inv max_pending empty_integrity_db"
  by (simp add: store_inv_def outbox_ok_def overflow_ok_def flag_ok_def audit_ok_def capacity_ok_def revision_of_def
      pending_rows_def empty_integrity_db_def)

section \<open>Where a warning is\<close>

type_synonym alarm = "hw_kind \<times> hw_state"

definition alarm_of :: "finding \<Rightarrow> alarm" where
  "alarm_of f = (fi_kind f, fi_state f)"

definition mentions :: "outbox_row \<Rightarrow> alarm \<Rightarrow> bool" where
  "mentions r a \<longleftrightarrow> a \<in> alarm_of ` set (ob_findings r)"

definition alarm_held :: "integrity_db \<Rightarrow> alarm \<Rightarrow> bool" where
  "alarm_held d a \<longleftrightarrow> (\<exists>r \<in> set (pending_rows d). mentions r a) \<or> a \<in> fst ` set (db_overflow d)"

section \<open>Single writes\<close>

lemma post_row_simps [simp]:
  "pending_rows (post_row t u fs d) = pending_rows d @ [\<lparr>ob_id = db_next_id d, ob_at = t, ob_immediate = u, ob_findings = fs, ob_delivered = False\<rparr>]"
  "db_overflow (post_row t u fs d) = db_overflow d" "db_status (post_row t u fs d) = db_status d"
  "db_baseline (post_row t u fs d) = db_baseline d" "db_audit (post_row t u fs d) = db_audit d"
  by (simp_all add: post_row_def pending_rows_def)

lemma post_row_outbox: "outbox_ok d \<Longrightarrow> outbox_ok (post_row t u fs d)"
  by (fastforce simp: outbox_ok_def post_row_def)

lemma keep_overflow_keys: "fst ` set (keep_overflow t f slots) = insert (alarm_of f) (fst ` set slots)"
  by (auto simp: keep_overflow_def alarm_of_def)

lemma overflow_fold_ok:
  "\<lbrakk>distinct (map fst slots); \<forall>f \<in> set fs. fi_state f \<noteq> OK; \<forall>x \<in> set slots. snd (fst x) \<noteq> OK\<rbrakk>
   \<Longrightarrow> distinct (map fst (fold (keep_overflow t) fs slots)) \<and> (\<forall>x \<in> set (fold (keep_overflow t) fs slots). snd (fst x) \<noteq> OK)
       \<and> fst ` set (fold (keep_overflow t) fs slots) = fst ` set slots \<union> alarm_of ` set fs"
proof (induction fs arbitrary: slots)
  case (Cons f fs)
  have "distinct (map fst (keep_overflow t f slots))" "\<forall>x \<in> set (keep_overflow t f slots). snd (fst x) \<noteq> OK"
    using Cons.prems by (auto simp: keep_overflow_def)
  from Cons.IH [OF this(1) _ this(2)] Cons.prems(2) show ?case by (simp add: keep_overflow_keys)
qed simp

lemma overflow_all_effect:
  assumes "distinct (map fst slots)" "\<forall>x \<in> set slots. snd (fst x) \<noteq> OK"
  shows "distinct (map fst (overflow_all t fs slots))" "\<forall>x \<in> set (overflow_all t fs slots). snd (fst x) \<noteq> OK"
    "fst ` set (overflow_all t fs slots) = fst ` set slots \<union> alarm_of ` {f \<in> set fs. fi_state f \<noteq> OK}"
  using overflow_fold_ok [OF assms(1) _ assms(2), of "filter (\<lambda>f. fi_state f \<noteq> OK) fs" t]
  by (simp_all add: overflow_all_def)

lemma transact_cases: "snd (transact e body d) = d \<or> snd (transact e body d) = body d"
  by (cases e) (simp_all add: transact_def)

section \<open>Recording\<close>

lemma record_body_cases:
  obtains (blocked) "outbox_blocked m fs d" "record_body m fs t d = d\<lparr>db_overflow := overflow_all t fs (db_overflow d),
      db_status := Some \<lparr>sr_at = t, sr_findings = fs, sr_delivery_blocked = (overflow_all t fs (db_overflow d) \<noteq> [])\<rparr>\<rparr>"
  | (posted) "is_warning fs" "length (pending_rows d) < m" "record_body m fs t d = post_row t (list_ex finding_immediate fs) fs
      (d\<lparr>db_status := Some \<lparr>sr_at = t, sr_findings = fs, sr_delivery_blocked = (db_overflow d \<noteq> [])\<rparr>\<rparr>)"
  | (healthy) "\<not> is_warning fs"
      "record_body m fs t d = d\<lparr>db_status := Some \<lparr>sr_at = t, sr_findings = fs, sr_delivery_blocked = (db_overflow d \<noteq> [])\<rparr>\<rparr>"
  by (cases "is_warning fs"; cases "m \<le> length (pending_rows d)")
    (simp_all add: record_body_def outbox_blocked_def Let_def)

lemma pending_rows_frame [simp]:
  "pending_rows (d\<lparr>db_status := s\<rparr>) = pending_rows d" "pending_rows (d\<lparr>db_overflow := x\<rparr>) = pending_rows d"
  "pending_rows (d\<lparr>db_overflow := x, db_status := s\<rparr>) = pending_rows d"
  "pending_rows (d\<lparr>db_baseline := b, db_audit := a\<rparr>) = pending_rows d"
  by (simp_all add: pending_rows_def)

lemma record_body_inv:
  assumes "store_inv m d"
  shows "store_inv m (record_body m fs t d)"
  using assms
proof (cases rule: record_body_cases [of m fs d t])
  case blocked
  have o: "overflow_ok d" "capacity_ok m d" "outbox_ok d" "audit_ok d" using assms by (simp_all add: store_inv_def)
  have "m = length (pending_rows d)" using blocked(1) o(2) by (simp add: outbox_blocked_def capacity_ok_def)
  then show ?thesis using blocked(2) o overflow_all_effect [of "db_overflow d"]
    by (simp add: store_inv_def outbox_ok_def overflow_ok_def flag_ok_def audit_ok_def capacity_ok_def revision_of_def)
next
  case posted
  let ?d = "d\<lparr>db_status := Some \<lparr>sr_at = t, sr_findings = fs, sr_delivery_blocked = (db_overflow d \<noteq> [])\<rparr>\<rparr>"
  have "outbox_ok ?d" using assms by (simp add: store_inv_def outbox_ok_def)
  moreover have "db_overflow d = []" using assms posted(2) by (auto simp: store_inv_def capacity_ok_def)
  ultimately show ?thesis using posted assms post_row_outbox [of ?d]
    by (simp add: store_inv_def overflow_ok_def flag_ok_def audit_ok_def capacity_ok_def revision_of_def)
next
  case healthy
  then show ?thesis using assms
    by (simp add: store_inv_def outbox_ok_def overflow_ok_def flag_ok_def audit_ok_def capacity_ok_def revision_of_def)
qed

lemma record_body_holds:
  assumes "store_inv m d"
  shows "alarm_held d a \<Longrightarrow> alarm_held (record_body m fs t d) a" and "f \<in> set fs \<Longrightarrow> fi_state f \<noteq> OK \<Longrightarrow> alarm_held (record_body m fs t d) (alarm_of f)"
proof -
  have o: "distinct (map fst (db_overflow d))" "\<forall>x \<in> set (db_overflow d). snd (fst x) \<noteq> OK"
    using assms by (simp_all add: store_inv_def overflow_ok_def)
  show "alarm_held (record_body m fs t d) a" if "alarm_held d a"
    using that overflow_all_effect(3) [OF o, of t fs] by (cases rule: record_body_cases [of m fs d t]) (auto simp: alarm_held_def)
  show "alarm_held (record_body m fs t d) (alarm_of f)" if f: "f \<in> set fs" "fi_state f \<noteq> OK"
  proof (cases rule: record_body_cases [of m fs d t])
    case blocked
    then show ?thesis using f overflow_all_effect(3) [OF o, of t fs] by (auto simp: alarm_held_def)
  next
    case posted
    then show ?thesis using f by (auto simp: alarm_held_def mentions_def)
  next
    case healthy
    then show ?thesis using f by (auto simp: is_warning_def list_ex_iff)
  qed
qed

lemma record_findings_cases:
  "snd (record_findings m e fs moment d) = d
   \<or> (\<exists>t. moment = Some t \<and> snd (record_findings m e fs moment d) = record_body m fs t d)"
  by (cases e; cases moment) (auto simp: record_findings_def transact_def)

section \<open>Delivering\<close>

lemma promote_row_simps:
  "pending_rows (promote_row x d) = pending_rows d @ [\<lparr>ob_id = db_next_id d, ob_at = snd x,
     ob_immediate = finding_immediate (hw_finding (fst (fst x)) (snd (fst x)) ''COALESCED_PENDING_WARNING''),
     ob_findings = [hw_finding (fst (fst x)) (snd (fst x)) ''COALESCED_PENDING_WARNING''], ob_delivered = False\<rparr>]"
  "db_overflow (promote_row x d) = filter (\<lambda>y. fst y \<noteq> fst x) (db_overflow d)"
  "db_status (promote_row x d) = db_status d" "db_baseline (promote_row x d) = db_baseline d"
  "db_audit (promote_row x d) = db_audit d" "outbox_ok d \<Longrightarrow> outbox_ok (promote_row x d)"
proof -
  obtain k s t where x: "x = ((k, s), t)" by (metis surj_pair)
  show "outbox_ok d \<Longrightarrow> outbox_ok (promote_row x d)"
    using post_row_outbox [of d t] by (simp add: x promote_row_def Let_def outbox_ok_def)
qed (simp_all add: promote_row_def Let_def split: prod.splits)

lemma promote_fold:
  "\<exists>ps. pending_rows (fold promote_row xs d) = pending_rows d @ ps \<and> length ps = length xs
      \<and> (\<forall>x \<in> set xs. \<exists>r \<in> set ps. mentions r (fst x))"
  "db_overflow (fold promote_row xs d) = filter (\<lambda>y. fst y \<notin> fst ` set xs) (db_overflow d)"
  "db_status (fold promote_row xs d) = db_status d" "db_baseline (fold promote_row xs d) = db_baseline d"
  "db_audit (fold promote_row xs d) = db_audit d" "outbox_ok d \<Longrightarrow> outbox_ok (fold promote_row xs d)"
proof -
  show "\<exists>ps. pending_rows (fold promote_row xs d) = pending_rows d @ ps \<and> length ps = length xs
      \<and> (\<forall>x \<in> set xs. \<exists>r \<in> set ps. mentions r (fst x))"
  proof (induction xs arbitrary: d)
    case (Cons x xs)
    obtain ps where "pending_rows (fold promote_row xs (promote_row x d)) = pending_rows (promote_row x d) @ ps"
      "length ps = length xs" "\<forall>x \<in> set xs. \<exists>r \<in> set ps. mentions r (fst x)"
      using Cons [of "promote_row x d"] by blast
    then show ?case by (auto simp: promote_row_simps(1) mentions_def alarm_of_def)
  qed simp
  show "db_overflow (fold promote_row xs d) = filter (\<lambda>y. fst y \<notin> fst ` set xs) (db_overflow d)"
    by (induction xs arbitrary: d) (simp_all add: promote_row_simps conj_commute)
  show "db_status (fold promote_row xs d) = db_status d" "db_baseline (fold promote_row xs d) = db_baseline d"
    "db_audit (fold promote_row xs d) = db_audit d"
    by (induction xs arbitrary: d) (simp_all add: promote_row_simps)
  show "outbox_ok d \<Longrightarrow> outbox_ok (fold promote_row xs d)"
    by (induction xs arbitrary: d) (simp_all add: promote_row_simps)
qed

lemma promote_overflow_effect:
  assumes "outbox_ok d" "overflow_ok d" "audit_ok d" "length (pending_rows d) \<le> m" "db_status d = None \<Longrightarrow> db_overflow d = []"
  shows "store_inv m (promote_overflow m d)" and "set (pending_rows d) \<subseteq> set (pending_rows (promote_overflow m d))"
    and "alarm_held d a \<Longrightarrow> alarm_held (promote_overflow m d) a"
proof -
  let ?xs = "take (m - length (pending_rows d)) (overflow_order (db_overflow d))"
  let ?d = "fold promote_row ?xs d"
  have order: "set (overflow_order (db_overflow d)) = set (db_overflow d)" "length (overflow_order (db_overflow d)) = length (db_overflow d)"
    by (simp_all add: overflow_order_def)
  obtain ps where ps: "pending_rows ?d = pending_rows d @ ps" "length ps = length ?xs" "\<forall>x \<in> set ?xs. \<exists>r \<in> set ps. mentions r (fst x)"
    using promote_fold(1) [of ?xs d] by blast
  have over: "db_overflow ?d = filter (\<lambda>y. fst y \<notin> fst ` set ?xs) (db_overflow d)" by (rule promote_fold(2))
  have p: "pending_rows (promote_overflow m d) = pending_rows ?d" "db_overflow (promote_overflow m d) = db_overflow ?d"
    by (simp_all add: promote_overflow_def flag_overflow_def)
  have full: "length (pending_rows ?d) = m" if "db_overflow ?d \<noteq> []"
  proof -
    have "m - length (pending_rows d) < length (db_overflow d)"
    proof (rule ccontr)
      assume "\<not> ?thesis"
      then have "set ?xs = set (db_overflow d)" using order by simp
      then show False using that over by (simp add: filter_empty_conv)
    qed
    then show ?thesis using ps order(2) assms(4) by simp
  qed
  have "capacity_ok m (promote_overflow m d)" using full ps p order(2) assms(4) by (simp add: capacity_ok_def)
  moreover have "outbox_ok (promote_overflow m d)" using promote_fold(6) [OF assms(1), of ?xs]
    by (simp add: promote_overflow_def flag_overflow_def outbox_ok_def)
  moreover have "overflow_ok (promote_overflow m d)" using assms(2) unfolding overflow_ok_def p over
    by (simp add: distinct_map_filter)
  moreover have "audit_ok (promote_overflow m d)" using assms(3) promote_fold(4,5) [of ?xs d]
    by (simp add: audit_ok_def revision_of_def promote_overflow_def flag_overflow_def)
  moreover have "flag_ok (promote_overflow m d)" using assms(5) over promote_fold(3) [of ?xs d]
    by (cases "db_status d") (simp_all add: flag_ok_def promote_overflow_def flag_overflow_def)
  ultimately show "store_inv m (promote_overflow m d)" by (simp add: store_inv_def)
  show "set (pending_rows d) \<subseteq> set (pending_rows (promote_overflow m d))" using p ps by simp
  show "alarm_held (promote_overflow m d) a" if "alarm_held d a"
  proof (cases "a \<in> fst ` set ?xs")
    case True
    then obtain r where "r \<in> set ps" "mentions r a" using ps(3) by blast
    then show ?thesis unfolding alarm_held_def p ps(1) by auto
  next
    case False
    then show ?thesis using that unfolding alarm_held_def p ps(1) over by auto
  qed
qed

lemma acknowledge_effect:
  assumes "store_inv m d" "r \<in> set (pending_rows d)"
  shows "store_inv m (acknowledge m r d)" and "x \<in> set (pending_rows d) \<Longrightarrow> ob_id x \<noteq> ob_id r \<Longrightarrow> x \<in> set (pending_rows (acknowledge m r d))"
    and "alarm_held d a \<Longrightarrow> alarm_held (acknowledge m r d) a \<or> mentions r a"
proof -
  let ?d = "d\<lparr>db_outbox := filter (\<lambda>x. ob_id x \<noteq> ob_id r) (db_outbox d)\<rparr>"
  have pend: "pending_rows ?d = filter (\<lambda>x. ob_id x \<noteq> ob_id r) (pending_rows d)"
    by (simp add: pending_rows_def conj_commute)
  have same: "x = r" if "x \<in> set (pending_rows d)" "ob_id x = ob_id r" for x
    using that assms unfolding store_inv_def outbox_ok_def pending_rows_def
    by (auto simp: distinct_map inj_on_def)
  have "length (pending_rows ?d) \<le> length (pending_rows d)" unfolding pend by (rule length_filter_le)
  then have len: "length (pending_rows ?d) \<le> m" using assms(1) unfolding store_inv_def capacity_ok_def by linarith
  have ok: "outbox_ok ?d" "overflow_ok ?d" "audit_ok ?d" "db_status ?d = None \<Longrightarrow> db_overflow ?d = []"
    using assms(1) by (auto simp: store_inv_def outbox_ok_def overflow_ok_def audit_ok_def revision_of_def flag_ok_def distinct_map_filter)
  note promoted = promote_overflow_effect [OF ok(1,2,3) len ok(4)]
  show "store_inv m (acknowledge m r d)" using promoted(1) by (simp add: acknowledge_def)
  show "x \<in> set (pending_rows d) \<Longrightarrow> ob_id x \<noteq> ob_id r \<Longrightarrow> x \<in> set (pending_rows (acknowledge m r d))"
    using promoted(2) pend by (auto simp: acknowledge_def)
  show "alarm_held d a \<Longrightarrow> alarm_held (acknowledge m r d) a \<or> mentions r a"
    using promoted(3) [of a] same by (auto simp: acknowledge_def alarm_held_def pend)
qed

lemma deliver_rows_effect:
  assumes "store_inv m d" "set rs \<subseteq> set (pending_rows d)" "distinct (map ob_id rs)" "deliver_rows m sink e rs d = (res, d', acc)"
  shows "store_inv m d' \<and> (\<forall>a. alarm_held d a \<longrightarrow> alarm_held d' a \<or> (\<exists>r \<in> set acc. mentions r a)) \<and> set acc \<subseteq> set rs"
  using assms
proof (induction rs arbitrary: d acc)
  case (Cons r rs)
  let ?d = "acknowledge m r d"
  have r: "r \<in> set (pending_rows d)" using Cons.prems(2) by simp
  note ack = acknowledge_effect [OF Cons.prems(1) r]
  show ?case
  proof (cases "sink r \<and> e r = COMMITTED")
    case True
    obtain acc' where rec: "deliver_rows m sink e rs ?d = (res, d', acc')" "acc = r # acc'"
      using Cons.prems(4) True by (auto simp: transact_def split: prod.splits)
    have "set rs \<subseteq> set (pending_rows ?d)"
    proof
      fix x assume x: "x \<in> set rs"
      then have "ob_id x \<noteq> ob_id r" using Cons.prems(3) by (metis distinct.simps(2) image_eqI list.simps(9) list.set_map)
      then show "x \<in> set (pending_rows ?d)" using ack(2) Cons.prems(2) x by auto
    qed
    from Cons.IH [OF ack(1) this _ rec(1)] Cons.prems(3)
    have ih: "store_inv m d'" "\<And>a. alarm_held ?d a \<Longrightarrow> alarm_held d' a \<or> (\<exists>r \<in> set acc'. mentions r a)" "set acc' \<subseteq> set rs" by auto
    have "alarm_held d' a \<or> (\<exists>r \<in> set acc. mentions r a)" if "alarm_held d a" for a
      using ack(3) [OF that] ih(2) [of a] rec(2) by auto
    then show ?thesis using ih(1,3) rec(2) by auto
  next
    case False
    then have "d' = d \<or> d' = ?d \<and> acc = [r]" "set acc \<subseteq> {r}"
      using Cons.prems(4) by (auto simp: transact_def split: if_splits tx_end.splits)
    then have "store_inv m d'" "\<And>a. alarm_held d a \<Longrightarrow> alarm_held d' a \<or> (\<exists>r \<in> set acc. mentions r a)" "set acc \<subseteq> set (r # rs)"
      using Cons.prems(1) ack(1) ack(3) by fastforce+
    then show ?thesis by blast
  qed
qed simp

lemma deliver_effect:
  assumes "store_inv m d" "deliver m sink e d = (res, d', acc)"
  shows "store_inv m d'" "alarm_held d a \<Longrightarrow> alarm_held d' a \<or> (\<exists>r \<in> set acc. mentions r a)" "set acc \<subseteq> set (pending_rows d)"
proof -
  have "set (delivery_batch d) \<subseteq> set (pending_rows d)"
    unfolding delivery_batch_def by (metis set_sort set_take_subset)
  moreover have "distinct (map ob_id (delivery_batch d))"
  proof -
    have "distinct (map ob_id (pending_rows d))"
      using assms(1) by (simp add: store_inv_def outbox_ok_def pending_rows_def distinct_map_filter)
    then have "distinct (map ob_id (sort_key ob_id (pending_rows d)))"
      by (simp add: distinct_map)
    then show ?thesis by (simp add: delivery_batch_def flip: take_map)
  qed
  ultimately have e: "store_inv m d' \<and> (\<forall>a. alarm_held d a \<longrightarrow> alarm_held d' a \<or> (\<exists>r \<in> set acc. mentions r a)) \<and> set acc \<subseteq> set (delivery_batch d)"
    using deliver_rows_effect [OF assms(1)] assms(2) by (simp add: deliver_def)
  then show "store_inv m d'" "alarm_held d a \<Longrightarrow> alarm_held d' a \<or> (\<exists>r \<in> set acc. mentions r a)" by blast+
  show "set acc \<subseteq> set (pending_rows d)" using e \<open>set (delivery_batch d) \<subseteq> set (pending_rows d)\<close> by blast
qed

section \<open>Approval\<close>

lemma baseline_revision: "baseline d = Inr (n, v) \<Longrightarrow> revision_of d = n"
  by (auto simp: baseline_def revision_of_def Let_def split: option.splits prod.splits sum.splits)

lemma approve_inv:
  assumes "store_inv m d"
  shows "store_inv m (snd (approve_on tx owner v expected moment d))"
proof (cases "snd (approve_on tx owner v expected moment d) = d")
  case False
  then obtain t actor n w where b: "baseline d = Inr (n, w)" and d': "snd (approve_on tx owner v expected moment d) =
      d\<lparr>db_baseline := Some (n + 1, v), db_audit := db_audit d @ [\<lparr>ar_at = t, ar_actor = actor, ar_revision = n + 1\<rparr>]\<rparr>"
    by (auto simp: approve_on_def split: if_splits option.splits sum.splits prod.splits)
  have "audit_ok d" using assms by (simp add: store_inv_def)
  then have "audit_ok (snd (approve_on tx owner v expected moment d))"
    unfolding d' using baseline_revision [OF b] by (simp add: audit_ok_def revision_of_def)
  then show ?thesis using assms unfolding d'
    by (cases "db_status d") (simp_all add: store_inv_def outbox_ok_def overflow_ok_def flag_ok_def capacity_ok_def)
qed (simp add: assms)

lemma approve_held: "alarm_held (snd (approve_on tx owner v expected moment d)) a = alarm_held d a"
  by (simp add: approve_on_def alarm_held_def split: option.splits sum.splits prod.splits)

section \<open>Every history\<close>

lemma life_inv: "integrity_life m d d' acc \<Longrightarrow> store_inv m d \<Longrightarrow> store_inv m d'"
proof (induction rule: integrity_life.induct)
  case (life_record d1 acc e fs moment)
  then show ?case using record_findings_cases [of m e fs moment d1] record_body_inv by auto
next
  case (life_deliver d1 acc sink ends res d2 accepted)
  then show ?case using deliver_effect(1) by blast
next
  case (life_approve d1 acc tx owner v expected moment)
  then show ?case by (simp add: approve_inv)
qed simp

lemma life_held:
  "\<lbrakk>integrity_life m d d' acc; store_inv m d; alarm_held d a\<rbrakk> \<Longrightarrow> alarm_held d' a \<or> (\<exists>r \<in> set acc. mentions r a)"
proof (induction rule: integrity_life.induct)
  case (life_record d1 acc e fs moment)
  then show ?case using record_findings_cases [of m e fs moment d1] record_body_holds(1) life_inv by metis
next
  case (life_deliver d1 acc sink ends res d2 accepted)
  then show ?case using deliver_effect(2) [OF life_inv [OF life_deliver.hyps(1)], of sink ends res d2 accepted a] by auto
next
  case (life_approve d1 acc tx owner v expected moment)
  then show ?case by (simp add: approve_held)
qed simp

lemma life_trans: "integrity_life m d1 d2 b \<Longrightarrow> integrity_life m d d1 a \<Longrightarrow> integrity_life m d d2 (a @ b)"
proof (induction rule: integrity_life.induct)
  case (life_deliver d1 acc sink ends res d2 accepted)
  then show ?case using integrity_life.life_deliver [of m d d1 "a @ acc" sink ends res d2 accepted] by simp
qed (auto intro: integrity_life.intros)

text \<open>
  In every history of the store the outbox holds at most \<open>max_pending\<close> undelivered rows, the overflow table
  at most sixteen slots, and rows are in overflow only while the outbox is full. The published status says that
  delivery is blocked exactly when something is in overflow. The audit table has one row for each revision of the
  baseline, in order.
\<close>

theorem integrity_store_bounded:
  assumes "integrity_life m empty_integrity_db d acc"
  shows "length (pending_rows d) \<le> m \<and> length (db_overflow d) \<le> 16 \<and> (db_overflow d = [] \<or> length (pending_rows d) = m)
    \<and> (latest d = None \<and> db_overflow d = [] \<or> (\<exists>fs. latest d = Some (fs, db_overflow d \<noteq> [])))
    \<and> map ar_revision (db_audit d) = [1..<Suc (revision_of d)]"
proof -
  have inv: "store_inv m d" using life_inv [OF assms store_inv_empty] .
  have fin: "set (map fst (db_overflow d)) \<subseteq> {CPU, MEMORY, STORAGE, GPU} \<times> {CHANGED, MISSING, NEW_DEVICE, UNVERIFIABLE}"
  proof
    fix x assume x: "x \<in> set (map fst (db_overflow d))"
    obtain k s where ks: "x = (k, s)" by (cases x)
    have "s \<noteq> OK" using inv x ks by (auto simp: store_inv_def overflow_ok_def)
    then show "x \<in> {CPU, MEMORY, STORAGE, GPU} \<times> {CHANGED, MISSING, NEW_DEVICE, UNVERIFIABLE}"
      unfolding ks by (cases k; cases s) simp_all
  qed
  have "length (db_overflow d) = card (set (map fst (db_overflow d)))"
    using inv distinct_card [of "map fst (db_overflow d)"] by (simp add: store_inv_def overflow_ok_def)
  also have "\<dots> \<le> 16" using card_mono [OF _ fin] by simp
  finally show ?thesis using inv
    by (cases "db_status d") (auto simp: store_inv_def capacity_ok_def flag_ok_def audit_ok_def latest_def)
qed

text \<open>
  C8. No warning is lost. Once a check has been recorded - also when \<open>record\<close> reports a full outbox - every finding
  other than \<open>OK\<close> stays in an undelivered row or in the overflow slot of its kind and state, through every later
  record, failed or successful delivery and approval, until the sink has accepted a row with that kind and state.
\<close>

theorem recorded_warning_never_lost:
  assumes "integrity_life m empty_integrity_db d acc" "record_findings m e fs moment d = (res, d1)"
    and "res = Inr () \<or> res = Inl INTEGRITY_OUTBOX_FULL" "f \<in> set fs" "fi_state f \<noteq> OK"
    and "integrity_life m d1 d2 acc2"
  shows "(\<exists>r \<in> set (pending_rows d2). mentions r (fi_kind f, fi_state f)) \<or> (fi_kind f, fi_state f) \<in> fst ` set (db_overflow d2)
    \<or> (\<exists>r \<in> set acc2. mentions r (fi_kind f, fi_state f))"
proof -
  have inv: "store_inv m d" using life_inv [OF assms(1) store_inv_empty] .
  have "\<exists>t. d1 = record_body m fs t d"
    using assms(2,3) by (cases e; cases moment) (auto simp: record_findings_def transact_def split: if_splits)
  then obtain t where d1: "d1 = record_body m fs t d" by blast
  have "store_inv m d1" "alarm_held d1 (alarm_of f)"
    unfolding d1 using record_body_inv [OF inv] record_body_holds(2) [OF inv assms(4,5)] by blast+
  from life_held [OF assms(6) this] show ?thesis by (auto simp: alarm_held_def alarm_of_def)
qed

definition ex_missing :: finding where
  "ex_missing = hw_finding GPU MISSING ''APPROVED_COMPONENT_ABSENT''"

definition ex_recorded_db :: integrity_db where
  "ex_recorded_db = snd (record_findings 1 COMMITTED [ex_missing] (Some 5) empty_integrity_db)"

theorem integrity_store_bounded_witness: "length (pending_rows ex_recorded_db) = 1 \<and> length (pending_rows ex_recorded_db) \<le> 1"
proof -
  have "integrity_life 1 empty_integrity_db ex_recorded_db []"
    unfolding ex_recorded_db_def by (rule life_record [OF life_start])
  from integrity_store_bounded [OF this] have "length (pending_rows ex_recorded_db) \<le> 1" by blast
  moreover have "length (pending_rows ex_recorded_db) = 1" unfolding ex_recorded_db_def ex_missing_def by code_simp
  ultimately show ?thesis by simp
qed

theorem recorded_warning_never_lost_witness:
  "\<exists>d2 acc2. deliver 1 (\<lambda>r. True) (\<lambda>r. COMMITTED) ex_recorded_db = (Inr True, d2, acc2)
     \<and> pending_rows d2 = [] \<and> (\<exists>r \<in> set acc2. mentions r (GPU, MISSING))"
proof -
  obtain d2 acc2 where dl: "deliver 1 (\<lambda>r. True) (\<lambda>r. COMMITTED) ex_recorded_db = (Inr True, d2, acc2)"
    and empty: "pending_rows d2 = []" "db_overflow d2 = []"
  proof -
    let ?x = "deliver 1 (\<lambda>r. True) (\<lambda>r. COMMITTED) ex_recorded_db"
    have "fst ?x = Inr True \<and> pending_rows (fst (snd ?x)) = [] \<and> db_overflow (fst (snd ?x)) = []"
      unfolding ex_recorded_db_def ex_missing_def by code_simp
    then show ?thesis using that [of "fst (snd ?x)" "snd (snd ?x)"] by (metis prod.collapse)
  qed
  have rec: "record_findings 1 COMMITTED [ex_missing] (Some 5) empty_integrity_db = (Inr (), ex_recorded_db)"
  proof -
    have "fst (record_findings 1 COMMITTED [ex_missing] (Some 5) empty_integrity_db) = Inr ()" unfolding ex_missing_def by code_simp
    then show ?thesis unfolding ex_recorded_db_def by (metis prod.collapse)
  qed
  have life: "integrity_life 1 ex_recorded_db d2 ([] @ acc2)" by (rule life_deliver [OF life_start dl])
  have "ex_missing \<in> set [ex_missing]" "fi_state ex_missing \<noteq> OK" by (simp_all add: ex_missing_def)
  from recorded_warning_never_lost [OF life_start rec disjI1 [OF refl] this life] empty
  show ?thesis using dl by (simp add: ex_missing_def)
qed

definition built_component :: "hw_component \<Rightarrow> bool" where
  "built_component c \<longleftrightarrow> (\<exists>properties identity. make_component (co_kind c) (co_location c) properties identity (co_complete c) = Inr c)"

lemma pairs_ok_sort: "pairs_ok (sort ps) = pairs_ok ps"
proof -
  have "distinct (map fst (sort ps)) = distinct (map fst ps)" by (simp add: distinct_map)
  then show ?thesis by (simp add: pairs_ok_def list_all_iff)
qed

lemma built_component_reload:
  "built_component c \<Longrightarrow> make_component (co_kind c) (co_location c) (co_properties c) (co_identity c) (co_complete c) = Inr c"
proof -
  assume "built_component c"
  then obtain properties identity where "make_component (co_kind c) (co_location c) properties identity (co_complete c) = Inr c"
    unfolding built_component_def by blast
  then have ok: "co_location c \<noteq> []" "length (co_location c) \<le> 256" "pairs_ok properties" "pairs_ok identity"
    and c: "c = \<lparr>co_kind = co_kind c, co_location = co_location c, co_properties = sort properties, co_identity = sort identity,
      co_complete = co_complete c\<rparr>"
    by (auto simp: make_component_def split: if_splits)
  have "co_properties c = sort properties" "co_identity c = sort identity" by (subst c, simp)+
  moreover have "sort (sort ps) = sort ps" for ps :: pairs by (rule sort_key_id_if_sorted) simp
  ultimately show ?thesis using ok c by (simp add: make_component_def pairs_ok_sort)
qed

lemma load_components_built: "list_all built_component cs \<Longrightarrow> load_components cs = Inr cs"
  by (induction cs) (simp_all add: built_component_reload)

text \<open>
  An approved inventory is what the next comparison reads back: after \<open>approve_on\<close> of an inventory built through
  the constructors returned a revision, \<open>baseline\<close> returns exactly that inventory under that revision, which is one
  more than the revision the Owner had seen.
\<close>

theorem approved_baseline_read_back:
  assumes "approve_on tx owner v expected moment d = (Inr revision, d')"
    and "list_all built_component (in_components v)" "inventory_ok v = None"
  shows "baseline d' = Inr (revision, Some v) \<and> revision = expected + 1 \<and> (\<exists>r \<in> set (db_audit d'). ar_revision r = revision \<and> Some (ar_actor r) = owner)"
proof -
  have "db_baseline d' = Some (revision, v)" "revision = expected + 1" "\<exists>r \<in> set (db_audit d'). ar_revision r = revision \<and> Some (ar_actor r) = owner"
    using assms(1) by (auto simp: approve_on_def split: if_splits option.splits sum.splits prod.splits)
  then show ?thesis using load_components_built [OF assms(2)] assms(3) by (cases v) (simp add: baseline_def Let_def)
qed

definition ex_approved_inventory :: inventory where
  "ex_approved_inventory = \<lparr>in_components = [\<lparr>co_kind = GPU, co_location = ''pci0'', co_properties = [(''model'', ''x'')],
     co_identity = [(''serial'', ''1'')], co_complete = True\<rparr>], in_unavailable = {}\<rparr>"

theorem approved_baseline_read_back_witness:
  "\<exists>d'. approve_on True (Some 9) ex_approved_inventory 0 (Some 3) empty_integrity_db = (Inr 1, d') \<and> baseline d' = Inr (1, Some ex_approved_inventory)"
proof -
  obtain d' where a: "approve_on True (Some 9) ex_approved_inventory 0 (Some 3) empty_integrity_db = (Inr 1, d')"
    by (simp add: approve_on_def baseline_def empty_integrity_db_def)
  have "list_all built_component (in_components ex_approved_inventory)"
    by (simp add: ex_approved_inventory_def built_component_def make_component_def pairs_ok_def)
      (rule exI [where x = "[(''model'', ''x'')]"], simp, rule exI [where x = "[(''serial'', ''1'')]"], simp)
  moreover have "inventory_ok ex_approved_inventory = None" by (simp add: ex_approved_inventory_def inventory_ok_def)
  ultimately show ?thesis using approved_baseline_read_back [OF a] a by blast
qed

end
