(* ===== verification/Integrity_Service.thy ===== *)
theory Integrity_Service
  imports Integrity_Findings Integrity_Warnings
begin

text \<open>
  The coordinator of the hardware check: \<^verbatim>\<open>server/app/integrity/service.py\<close>. Times of the monotonic clock are
  rationals, a reading that is not finite is \<open>None\<close>. What the probes, the sink, the clocks and the transactions answer
  during one call is an argument; a probe that raises or returns no inventory is \<open>None\<close>.
\<close>

section \<open>The service\<close>

record integrity_service =
  sv_db :: integrity_db
  sv_last_check :: "rat option"

record check_env =
  ce_started :: "rat option"
  ce_probe :: "inventory option"
  ce_utcnow :: "int option"
  ce_sink :: "outbox_row \<Rightarrow> bool"
  ce_ends :: "outbox_row \<Rightarrow> tx_end"
  ce_record :: tx_end
  ce_sink_after :: "outbox_row \<Rightarrow> bool"
  ce_ends_after :: "outbox_row \<Rightarrow> tx_end"

definition probed_inventory :: "inventory option \<Rightarrow> inventory" where
  "probed_inventory p = (case p of Some v \<Rightarrow> v | None \<Rightarrow> \<lparr>in_components = [], in_unavailable = set all_kinds\<rparr>)"

text \<open>\<open>compare\<close> always returns (lemma \<open>compare_returns\<close> below), so \<open>the\<close> only names its result.\<close>

definition check_findings :: "integrity_db \<Rightarrow> inventory \<Rightarrow> finding list" where
  "check_findings d current =
     (case baseline d of
        Inl _ \<Rightarrow> map (\<lambda>k. hw_finding k UNVERIFIABLE ''COMPARISON_UNAVAILABLE'') all_kinds
      | Inr (_, approved) \<Rightarrow> the (compare_inventories approved current))"

datatype service_error = INVALID_MONOTONIC_CLOCK | STORE_FAILED store_error

definition run_check :: "nat \<Rightarrow> check_env \<Rightarrow> integrity_service \<Rightarrow> (service_error + finding list) \<times> integrity_service \<times> outbox_row list" where
  "run_check m env s =
     (case ce_started env of
        None \<Rightarrow> (Inl INVALID_MONOTONIC_CLOCK, s, [])
      | Some started \<Rightarrow>
          (case deliver m (ce_sink env) (ce_ends env) (sv_db s) of
             (Inl e, d1, acc1) \<Rightarrow> (Inl (STORE_FAILED e), s\<lparr>sv_db := d1\<rparr>, acc1)
           | (Inr _, d1, acc1) \<Rightarrow>
               (let fs = check_findings d1 (probed_inventory (ce_probe env)) in
                case record_findings m (ce_record env) fs (ce_utcnow env) d1 of
                  (res, d2) \<Rightarrow>
                    if res \<noteq> Inr () \<and> res \<noteq> Inl INTEGRITY_OUTBOX_FULL
                    then (Inl (STORE_FAILED (projl res)), s\<lparr>sv_db := d2\<rparr>, acc1)
                    else (case deliver m (ce_sink_after env) (ce_ends_after env) d2 of
                            (Inl e, d3, acc3) \<Rightarrow> (Inl (STORE_FAILED e), s\<lparr>sv_db := d3, sv_last_check := Some started\<rparr>, acc1 @ acc3)
                          | (Inr _, d3, acc3) \<Rightarrow> (Inr fs, s\<lparr>sv_db := d3, sv_last_check := Some started\<rparr>, acc1 @ acc3)))))"

definition check_due :: "rat option \<Rightarrow> rat \<Rightarrow> bool" where
  "check_due last_check now = (case last_check of None \<Rightarrow> True | Some l \<Rightarrow> now < l \<or> 86400 \<le> now - l)"

definition startup :: "nat \<Rightarrow> check_env \<Rightarrow> integrity_service \<Rightarrow> (service_error + finding list) \<times> integrity_service \<times> outbox_row list" where
  "startup m env s = run_check m env s"

definition tick_service :: "nat \<Rightarrow> rat option \<Rightarrow> check_env \<Rightarrow> integrity_service
    \<Rightarrow> (service_error + finding list option) \<times> integrity_service \<times> outbox_row list" where
  "tick_service m now env s =
     (case now of
        None \<Rightarrow> (Inl INVALID_MONOTONIC_CLOCK, s, [])
      | Some n \<Rightarrow>
          if check_due (sv_last_check s) n then
            (case run_check m env s of (Inl e, s', acc) \<Rightarrow> (Inl e, s', acc) | (Inr fs, s', acc) \<Rightarrow> (Inr (Some fs), s', acc))
          else (case deliver m (ce_sink env) (ce_ends env) (sv_db s) of
                  (Inl e, d1, acc) \<Rightarrow> (Inl (STORE_FAILED e), s\<lparr>sv_db := d1\<rparr>, acc)
                | (Inr _, d1, acc) \<Rightarrow> (Inr None, s\<lparr>sv_db := d1\<rparr>, acc)))"

section \<open>A failed probe\<close>

lemma compare_returns: "\<exists>fs. compare_inventories approved current = Some fs"
proof (cases approved)
  case (Some base)
  let ?s = "resolve (in_components base) (in_components current) (in_unavailable current)"
  obtain covered where "explained (linked_claims (in_components base) (in_components current) (in_unavailable current) ?s) = Some covered"
    using explained_result [OF linked_claims_keys] by blast
  then show ?thesis by (simp add: Some compare_inventories_def Let_def)
qed (simp add: compare_inventories_def)

text \<open>Every approved component of an unavailable kind keeps the verdict the first phase gave it.\<close>

definition unavailable_noted :: "hw_component list \<Rightarrow> hw_kind set \<Rightarrow> compare_state \<Rightarrow> bool" where
  "unavailable_noted olds U s \<longleftrightarrow> length (cm_results s) = length olds \<and>
     (\<forall>i < length olds. co_kind (olds ! i) \<in> U \<longrightarrow>
        cm_results s ! i = Some (hw_finding (co_kind (olds ! i)) UNVERIFIABLE ''PROBE_UNAVAILABLE''))"

lemma unavailable_frame: "cm_results t = cm_results s \<Longrightarrow> unavailable_noted olds U t = unavailable_noted olds U s"
  by (simp add: unavailable_noted_def)

lemma unavailable_note: "\<lbrakk>unavailable_noted olds U s; co_kind (olds ! i) \<notin> U\<rbrakk> \<Longrightarrow> unavailable_noted olds U (note_result i f s)"
  unfolding unavailable_noted_def note_result_def by (auto, metis nth_list_update_neq)

lemma unavailable_ops:
  assumes "unavailable_noted olds U s" "co_kind (olds ! i) \<notin> U"
  shows "unavailable_noted olds U (leave_ambiguous olds i cs s)" "unavailable_noted olds U (bind_to olds news i c s)"
  using unavailable_note [OF assms] by (simp_all add: leave_ambiguous_def bind_to_def unavailable_noted_def)

lemma unavailable_steps:
  assumes "unavailable_noted olds U s" "co_kind (olds ! i) \<notin> U"
  shows "unavailable_noted olds U (partial_step olds news links (i, cs) s)" "unavailable_noted olds U (weak_step olds news links (i, cs) s)"
    "unavailable_noted olds U (location_step olds news W i s)"
  using unavailable_ops [OF assms] unavailable_note [OF assms] assms
  by (auto simp: partial_step_def weak_step_def location_step_def Let_def split: list.splits)

lemma unavailable_fold:
  "\<lbrakk>unavailable_noted olds U s; \<And>x t. \<lbrakk>x \<in> set xs; unavailable_noted olds U t\<rbrakk> \<Longrightarrow> unavailable_noted olds U (f x t)\<rbrakk>
   \<Longrightarrow> unavailable_noted olds U (fold f xs s)"
  by (induction xs arbitrary: s) auto

lemma unavailable_open: "\<lbrakk>unavailable_noted olds U s; i < length olds; cm_results s ! i = None\<rbrakk> \<Longrightarrow> co_kind (olds ! i) \<notin> U"
  by (auto simp: unavailable_noted_def)

lemma exact_fold_noted:
  assumes "n \<le> length olds" "length (cm_results s) = length olds"
  shows "length (cm_results (fold (exact_step olds news U) [0..<n] s)) = length olds \<and>
    (\<forall>i < n. co_kind (olds ! i) \<in> U \<longrightarrow> cm_results (fold (exact_step olds news U) [0..<n] s) ! i
        = Some (hw_finding (co_kind (olds ! i)) UNVERIFIABLE ''PROBE_UNAVAILABLE''))"
  using assms(1)
proof (induction n)
  case (Suc n)
  let ?s = "fold (exact_step olds news U) [0..<n] s"
  have ih: "length (cm_results ?s) = length olds" "\<And>i. i < n \<Longrightarrow> co_kind (olds ! i) \<in> U \<Longrightarrow>
      cm_results ?s ! i = Some (hw_finding (co_kind (olds ! i)) UNVERIFIABLE ''PROBE_UNAVAILABLE'')"
    using Suc by auto
  have "cm_results (exact_step olds news U n ?s) ! i = cm_results ?s ! i" if "i < n" for i
    using that by (simp add: exact_step_def note_result_def leave_ambiguous_def bind_to_def Let_def)
  moreover have "length (cm_results (exact_step olds news U n ?s)) = length olds"
    using ih(1) by (simp add: exact_step_def note_result_def leave_ambiguous_def bind_to_def Let_def)
  moreover have "co_kind (olds ! n) \<in> U \<Longrightarrow>
      cm_results (exact_step olds news U n ?s) ! n = Some (hw_finding (co_kind (olds ! n)) UNVERIFIABLE ''PROBE_UNAVAILABLE'')"
    using ih(1) Suc.prems by (simp add: exact_step_def note_result_def)
  ultimately show ?case using ih(2) by (auto simp: less_Suc_eq)
qed (simp add: assms(2))

lemma resolve_noted: "unavailable_noted olds U (resolve olds news U)"
proof -
  let ?x = "exact_phase olds news U"
  let ?s1 = "partial_phase olds news ?x"
  have x: "unavailable_noted olds U ?x"
    using exact_fold_noted [of "length olds" olds "\<lparr>cm_results = replicate (length olds) None, cm_used = {}, cm_uncertain = {},
      cm_bound = {}, cm_identified = []\<rparr>" news U] by (simp add: exact_phase_def unavailable_noted_def)
  then have s1: "unavailable_noted olds U ?s1" unfolding partial_phase_def Let_def
    by (rule unavailable_fold) (auto simp: open_links_entry intro!: unavailable_steps(1) dest: unavailable_open [OF x])
  obtain W s2 where w: "weak_phase olds news ?s1 = (W, s2)" by fastforce
  then have s2: "s2 = fold (weak_step olds news (open_links olds (weak_links olds news (cm_used ?s1)) ?s1))
      (open_links olds (weak_links olds news (cm_used ?s1)) ?s1) ?s1" by (simp add: weak_phase_def Let_def)
  have "unavailable_noted olds U s2" unfolding s2
    by (rule unavailable_fold [OF s1]) (auto simp: open_links_entry intro!: unavailable_steps(2) dest: unavailable_open [OF s1])
  then have "unavailable_noted olds U (location_phase olds news W s2)" unfolding location_phase_def
  proof (rule unavailable_fold)
    fix i t assume "i \<in> set [0..<length olds]" and t: "unavailable_noted olds U t"
    then have i: "i < length olds" by simp
    show "unavailable_noted olds U (location_step olds news W i t)"
    proof (cases "cm_results t ! i = None")
      case True
      then show ?thesis using unavailable_steps(3) [OF t unavailable_open [OF t i True]] by simp
    qed (use t in \<open>auto simp: location_step_def\<close>)
  qed
  then show ?thesis using w by (simp add: resolve_def Let_def)
qed

lemma failed_probe_findings:
  "\<exists>f \<in> set (check_findings d (probed_inventory None)). fi_kind f = k \<and> fi_state f = UNVERIFIABLE"
proof -
  let ?now = "probed_inventory None"
  have U: "in_unavailable ?now = set all_kinds" by (simp add: probed_inventory_def)
  have k: "k \<in> set all_kinds" by (cases k) (simp_all add: all_kinds_def)
  show ?thesis
  proof (cases "baseline d")
    case (Inl e)
    then show ?thesis using k by (auto simp: check_findings_def)
  next
    case (Inr b)
    obtain rev approved where b: "b = (rev, approved)" by (cases b)
    show ?thesis
    proof (cases approved)
      case None
      then show ?thesis using Inr b k by (auto simp: check_findings_def compare_inventories_def)
    next
      case (Some base)
      let ?olds = "in_components base"
      let ?s = "resolve ?olds (in_components ?now) (in_unavailable ?now)"
      let ?l = "linked_claims ?olds (in_components ?now) (in_unavailable ?now) ?s"
      obtain covered where "explained ?l = Some covered" using explained_result [OF linked_claims_keys] by blast
      then have fs: "check_findings d ?now = report base ?now ?s ?l covered"
        using Inr b Some by (simp add: check_findings_def compare_inventories_def Let_def)
      show ?thesis
      proof (cases "\<exists>i < length ?olds. co_kind (?olds ! i) = k")
        case True
        then obtain i where i: "i < length ?olds" "co_kind (?olds ! i) = k" by blast
        let ?f = "hw_finding k UNVERIFIABLE ''PROBE_UNAVAILABLE''"
        have n: "unavailable_noted ?olds (in_unavailable ?now) ?s" by (rule resolve_noted)
        then have "cm_results ?s ! i = Some ?f" "i < length (cm_results ?s)" using i k U by (auto simp: unavailable_noted_def)
        then have "Some ?f \<in> set (cm_results ?s)" by (metis nth_mem)
        then have "?f \<in> set (List.map_filter (\<lambda>r. r) (cm_results ?s))" by (force simp: List.map_filter_def image_iff)
        then have "?f \<in> set (check_findings d ?now)" unfolding fs report_def by (simp add: Let_def)
        then show ?thesis by force
      next
        case False
        then have "k \<notin> co_kind ` set ?olds" by (auto simp: in_set_conv_nth)
        then have "hw_finding k UNVERIFIABLE ''PROBE_UNAVAILABLE'' \<in> set (check_findings d ?now)"
          unfolding fs report_def using k U by (auto simp: Let_def)
        then show ?thesis by force
      qed
    qed
  qed
qed

section \<open>What a check leaves behind\<close>

lemma deliver_rows_status:
  "deliver_rows m sink e rs d = (res, d', acc) \<Longrightarrow> map_option sr_findings (db_status d') = map_option sr_findings (db_status d)"
proof (induction rs arbitrary: d acc)
  case (Cons r rs)
  have ack: "map_option sr_findings (db_status (acknowledge m r x)) = map_option sr_findings (db_status x)" for x
    by (cases "db_status x") (simp_all add: acknowledge_def promote_overflow_def flag_overflow_def promote_fold(3))
  show ?case
  proof (cases "sink r \<and> e r = COMMITTED")
    case True
    then obtain acc' where "deliver_rows m sink e rs (acknowledge m r d) = (res, d', acc')"
      using Cons.prems by (auto simp: transact_def split: prod.splits)
    from Cons.IH [OF this] ack show ?thesis by simp
  next
    case False
    then have "d' = d \<or> d' = acknowledge m r d" using Cons.prems by (auto simp: transact_def split: if_splits tx_end.splits)
    then show ?thesis using ack by auto
  qed
qed simp

lemma deliver_status:
  "deliver m sink e d = (res, d', acc) \<Longrightarrow> map_option sr_findings (db_status d') = map_option sr_findings (db_status d)"
  unfolding deliver_def by (rule deliver_rows_status)

lemma record_status:
  "record_findings m e fs moment d = (res, d') \<Longrightarrow> res = Inr () \<or> res = Inl INTEGRITY_OUTBOX_FULL
   \<Longrightarrow> map_option sr_findings (db_status d') = Some fs"
proof -
  assume r: "record_findings m e fs moment d = (res, d')" "res = Inr () \<or> res = Inl INTEGRITY_OUTBOX_FULL"
  have "\<exists>t. d' = record_body m fs t d"
    using r by (cases e; cases moment) (auto simp: record_findings_def transact_def split: if_splits)
  then obtain t where "d' = record_body m fs t d" by blast
  then show ?thesis by (cases rule: record_body_cases [of m fs d t]) simp_all
qed

text \<open>Every call of the service is a history of its store.\<close>

lemma run_check_parts:
  assumes "run_check m env s = (Inr fs, s', acc)"
  obtains d1 d2 res acc1 acc3 started r1 r3 where "ce_started env = Some started"
    "deliver m (ce_sink env) (ce_ends env) (sv_db s) = (Inr r1, d1, acc1)"
    "fs = check_findings d1 (probed_inventory (ce_probe env))"
    "record_findings m (ce_record env) fs (ce_utcnow env) d1 = (res, d2)" "res = Inr () \<or> res = Inl INTEGRITY_OUTBOX_FULL"
    "deliver m (ce_sink_after env) (ce_ends_after env) d2 = (Inr r3, sv_db s', acc3)"
    "sv_last_check s' = Some started" "acc = acc1 @ acc3"
  using assms that
  by (auto simp: run_check_def Let_def split: option.splits prod.splits sum.splits if_splits)

text \<open>
  C22. A hardware check is never silent. When a check returns, its findings are the published status, the check counts
  as done at its start, and each finding other than \<open>OK\<close> is in an undelivered row, in its overflow slot or was
  accepted by the sink. When the probes fail, every kind of hardware has an \<open>UNVERIFIABLE\<close> finding.
\<close>

theorem check_never_silent:
  assumes "integrity_life m empty_integrity_db (sv_db s) before" "run_check m env s = (Inr fs, s', acc)"
  shows "(\<exists>blocked. latest (sv_db s') = Some (fs, blocked)) \<and> sv_last_check s' = ce_started env
    \<and> (\<forall>f \<in> set fs. fi_state f = OK \<or> alarm_held (sv_db s') (fi_kind f, fi_state f) \<or> (\<exists>r \<in> set acc. mentions r (fi_kind f, fi_state f)))
    \<and> (ce_probe env = None \<longrightarrow> (\<forall>k. \<exists>f \<in> set fs. fi_kind f = k \<and> fi_state f = UNVERIFIABLE))"
proof -
  obtain d1 d2 res acc1 acc3 started r1 r3 where p: "ce_started env = Some started"
    "deliver m (ce_sink env) (ce_ends env) (sv_db s) = (Inr r1, d1, acc1)"
    "fs = check_findings d1 (probed_inventory (ce_probe env))"
    "record_findings m (ce_record env) fs (ce_utcnow env) d1 = (res, d2)" "res = Inr () \<or> res = Inl INTEGRITY_OUTBOX_FULL"
    "deliver m (ce_sink_after env) (ce_ends_after env) d2 = (Inr r3, sv_db s', acc3)"
    "sv_last_check s' = Some started" "acc = acc1 @ acc3" by (rule run_check_parts [OF assms(2)])
  have inv: "store_inv m d1" using deliver_effect(1) [OF life_inv [OF assms(1) store_inv_empty] p(2)] .
  have "\<exists>t. d2 = record_body m fs t d1"
    using p(4,5) by (cases "ce_record env"; cases "ce_utcnow env") (auto simp: record_findings_def transact_def split: if_splits)
  then obtain t where d2: "d2 = record_body m fs t d1" by blast
  have "alarm_held (sv_db s') (alarm_of f) \<or> (\<exists>r \<in> set acc3. mentions r (alarm_of f))" if "f \<in> set fs" "fi_state f \<noteq> OK" for f
    using deliver_effect(2) [OF _ p(6)] record_body_inv [OF inv] record_body_holds(2) [OF inv that] unfolding d2 by blast
  moreover have "map_option sr_findings (db_status (sv_db s')) = Some fs"
    using deliver_status [OF p(6)] record_status [OF p(4,5)] by simp
  then have "\<exists>blocked. latest (sv_db s') = Some (fs, blocked)" by (cases "db_status (sv_db s')") (simp_all add: latest_def)
  moreover have "ce_probe env = None \<longrightarrow> (\<forall>k. \<exists>f \<in> set fs. fi_kind f = k \<and> fi_state f = UNVERIFIABLE)"
    using failed_probe_findings p(3) by metis
  ultimately show ?thesis using p(1,7,8) unfolding alarm_of_def by auto
qed

definition ex_check_env :: check_env where
  "ex_check_env = \<lparr>ce_started = Some 1, ce_probe = None, ce_utcnow = Some 7, ce_sink = (\<lambda>r. True), ce_ends = (\<lambda>r. COMMITTED),
     ce_record = COMMITTED, ce_sink_after = (\<lambda>r. False), ce_ends_after = (\<lambda>r. COMMITTED)\<rparr>"

theorem check_never_silent_witness:
  "\<exists>fs s'. run_check 3 ex_check_env \<lparr>sv_db = empty_integrity_db, sv_last_check = None\<rparr> = (Inr fs, s', [])
     \<and> (\<exists>blocked. latest (sv_db s') = Some (fs, blocked)) \<and> (\<exists>f \<in> set fs. fi_kind f = GPU \<and> fi_state f = UNVERIFIABLE)"
proof -
  let ?s = "\<lparr>sv_db = empty_integrity_db, sv_last_check = None\<rparr>"
  let ?fs = "map (\<lambda>k. hw_finding k UNVERIFIABLE ''BASELINE_REQUIRED'') all_kinds"
  have "check_findings empty_integrity_db (probed_inventory None) = ?fs"
    by (simp add: check_findings_def baseline_def empty_integrity_db_def compare_inventories_def)
  then have "\<exists>s'. run_check 3 ex_check_env ?s = (Inr ?fs, s', [])"
    by (simp add: run_check_def ex_check_env_def deliver_def delivery_batch_def pending_rows_def empty_integrity_db_def record_findings_def
        transact_def record_body_def outbox_blocked_def is_warning_def all_kinds_def post_row_def Let_def)
  then obtain s' where r: "run_check 3 ex_check_env ?s = (Inr ?fs, s', [])" by blast
  have "integrity_life 3 empty_integrity_db (sv_db ?s) []" using life_start by simp
  from check_never_silent [OF this r] r show ?thesis by (auto simp: ex_check_env_def)
qed

end
