(* ===== verification/Security_Audit.thy ===== *)
theory Security_Audit
  imports Prelude "HOL-Library.Product_Lexorder"
begin

text \<open>
  The security audit: \<^verbatim>\<open>server/app/audit/model.py\<close>, \<^verbatim>\<open>store.py\<close> and \<^verbatim>\<open>service.py\<close>. The database holds the audit
  table, the audit table of the hardware baseline and the tables of whatever domain an audited operation changes (a type
  parameter). Times are microseconds; the ISO texts that \<^verbatim>\<open>integrity_audit\<close> compares order as the times do. How a
  transaction ends, the clock reading and the UUID of a record are arguments.
\<close>

section \<open>Vocabulary\<close>

datatype audit_actor = By_Owner | By_System | By_Invited_User | By_Capture_Node | By_Unauthenticated

datatype audit_outcome = SUCCEEDED | FAILED | DENIED

datatype target_kind =
  TARGET_HARDWARE_BASELINE | TARGET_SECURITY_SETTINGS | TARGET_ADMIN_SETTINGS | TARGET_OWNER_BIOMETRIC | TARGET_CAMERA
| TARGET_SOURCE | TARGET_CAPTURE_NODE | TARGET_PRINCIPAL | TARGET_RECORDING | TARGET_SETUP_WIZARD_STEP | TARGET_SCENE_CALIBRATION

datatype audit_action =
  APPROVE_HARDWARE_BASELINE | CHANGE_SECURITY_SETTING | CHANGE_ADMIN_SETTING | INVALIDATE_HUMAN_SESSIONS
| ENROLL_OWNER_BIOMETRIC | REPLACE_OWNER_BIOMETRIC | DELETE_OWNER_BIOMETRIC | CREATE_CAMERA | UPDATE_CAMERA | APPROVE_CAMERA
| REVOKE_CAMERA | CREATE_SOURCE | UPDATE_SOURCE | REVOKE_SOURCE | CREATE_CAPTURE_NODE | UPDATE_CAPTURE_NODE | REVOKE_CAPTURE_NODE
| APPROVE_CAPTURE_NODE_ENROLLMENT | REDEEM_CAPTURE_NODE_ENROLLMENT | ACTIVATE_CAPTURE_NODE_CREDENTIAL
| REVOKE_CAPTURE_NODE_PAIRING | INVITE_PRINCIPAL | ISSUE_PRINCIPAL_INVITATION | REDEEM_PRINCIPAL_INVITATION
| CHANGE_PRINCIPAL_PERMISSIONS | REVOKE_PRINCIPAL_CREDENTIAL | REVOKE_PRINCIPAL | AUTHENTICATE_PRINCIPAL | VERIFY_PRINCIPAL_STEP_UP
| SIGN_OUT_PRINCIPAL | MARK_PRINCIPAL_CREDENTIAL_INCONSISTENT | DETECT_PRINCIPAL_CREDENTIAL_SIGN_COUNT_REGRESSION
| DETECT_SESSION_PROXY_IDENTITY_MISMATCH | DELETE_RECORDING | DELETE_RECORDING_CLEANUP | UPDATE_RECORDING
| TRANSITION_SETUP_WIZARD_STEP | CALIBRATE_SCENE_SOURCE | REACQUIRE_SCENE_REFERENCE

fun action_target :: "audit_action \<Rightarrow> target_kind" where
  "action_target APPROVE_HARDWARE_BASELINE = TARGET_HARDWARE_BASELINE"
| "action_target CHANGE_SECURITY_SETTING = TARGET_SECURITY_SETTINGS"
| "action_target CHANGE_ADMIN_SETTING = TARGET_ADMIN_SETTINGS"
| "action_target INVALIDATE_HUMAN_SESSIONS = TARGET_SECURITY_SETTINGS"
| "action_target ENROLL_OWNER_BIOMETRIC = TARGET_OWNER_BIOMETRIC"
| "action_target REPLACE_OWNER_BIOMETRIC = TARGET_OWNER_BIOMETRIC"
| "action_target DELETE_OWNER_BIOMETRIC = TARGET_OWNER_BIOMETRIC"
| "action_target CREATE_CAMERA = TARGET_CAMERA"
| "action_target UPDATE_CAMERA = TARGET_CAMERA"
| "action_target APPROVE_CAMERA = TARGET_CAMERA"
| "action_target REVOKE_CAMERA = TARGET_CAMERA"
| "action_target CREATE_SOURCE = TARGET_SOURCE"
| "action_target UPDATE_SOURCE = TARGET_SOURCE"
| "action_target REVOKE_SOURCE = TARGET_SOURCE"
| "action_target CREATE_CAPTURE_NODE = TARGET_CAPTURE_NODE"
| "action_target UPDATE_CAPTURE_NODE = TARGET_CAPTURE_NODE"
| "action_target REVOKE_CAPTURE_NODE = TARGET_CAPTURE_NODE"
| "action_target APPROVE_CAPTURE_NODE_ENROLLMENT = TARGET_CAPTURE_NODE"
| "action_target REDEEM_CAPTURE_NODE_ENROLLMENT = TARGET_CAPTURE_NODE"
| "action_target ACTIVATE_CAPTURE_NODE_CREDENTIAL = TARGET_CAPTURE_NODE"
| "action_target REVOKE_CAPTURE_NODE_PAIRING = TARGET_CAPTURE_NODE"
| "action_target INVITE_PRINCIPAL = TARGET_PRINCIPAL"
| "action_target ISSUE_PRINCIPAL_INVITATION = TARGET_PRINCIPAL"
| "action_target REDEEM_PRINCIPAL_INVITATION = TARGET_PRINCIPAL"
| "action_target CHANGE_PRINCIPAL_PERMISSIONS = TARGET_PRINCIPAL"
| "action_target REVOKE_PRINCIPAL_CREDENTIAL = TARGET_PRINCIPAL"
| "action_target REVOKE_PRINCIPAL = TARGET_PRINCIPAL"
| "action_target AUTHENTICATE_PRINCIPAL = TARGET_PRINCIPAL"
| "action_target VERIFY_PRINCIPAL_STEP_UP = TARGET_PRINCIPAL"
| "action_target SIGN_OUT_PRINCIPAL = TARGET_PRINCIPAL"
| "action_target MARK_PRINCIPAL_CREDENTIAL_INCONSISTENT = TARGET_PRINCIPAL"
| "action_target DETECT_PRINCIPAL_CREDENTIAL_SIGN_COUNT_REGRESSION = TARGET_PRINCIPAL"
| "action_target DETECT_SESSION_PROXY_IDENTITY_MISMATCH = TARGET_PRINCIPAL"
| "action_target DELETE_RECORDING = TARGET_RECORDING"
| "action_target DELETE_RECORDING_CLEANUP = TARGET_RECORDING"
| "action_target UPDATE_RECORDING = TARGET_RECORDING"
| "action_target TRANSITION_SETUP_WIZARD_STEP = TARGET_SETUP_WIZARD_STEP"
| "action_target CALIBRATE_SCENE_SOURCE = TARGET_SCENE_CALIBRATION"
| "action_target REACQUIRE_SCENE_REFERENCE = TARGET_SCENE_CALIBRATION"

record audit_record =
  au_id :: uuid
  au_actor :: audit_actor
  au_action :: audit_action
  au_kind :: target_kind
  au_target :: uuid
  au_at :: int
  au_outcome :: audit_outcome

definition action_target_ok :: "audit_action \<Rightarrow> target_kind \<Rightarrow> bool" where
  "action_target_ok action kind \<longleftrightarrow> action_target action = kind"

datatype 'e audit_error =
  Audit_Invalid | Audit_Storage | Owner_Authorization audit_actor | Authorizer_Failed | Operation_Failed 'e

section \<open>Store\<close>

record 'd audit_db =
  at_records :: "audit_record list"
  at_integrity :: "(nat \<times> int) list"
  at_domain :: 'd

record audit_store =
  as_retention :: int
  as_cleanup_batch_size :: nat

definition MAX_PAGE_SIZE :: nat where "MAX_PAGE_SIZE = 1000"

definition audit_store_ok :: "audit_store \<Rightarrow> bool" where
  "audit_store_ok a \<longleftrightarrow> 0 < as_retention a \<and> 1 \<le> as_cleanup_batch_size a \<and> as_cleanup_batch_size a \<le> MAX_PAGE_SIZE"

text \<open>
  A transaction of the store is committed, refused or rolled back (the admission, \<open>BEGIN\<close>, a statement or \<open>COMMIT\<close>
  fails), or committed with an admission that fails when it is given back.
\<close>

datatype audit_end = Audit_Committed | Audit_Refused | Audit_Release_Failed

type_synonym ('e, 'a, 'd) audit_tx = "'d audit_db \<Rightarrow> 'e audit_error + 'a \<times> 'd audit_db"

definition audit_transaction :: "audit_end \<Rightarrow> ('e, 'a, 'd) audit_tx \<Rightarrow> 'd audit_db \<Rightarrow> ('e audit_error, 'a, 'd audit_db) outcome" where
  "audit_transaction e body d =
     (case e of
        Audit_Refused \<Rightarrow> (Inl Audit_Storage, d)
      | _ \<Rightarrow> (case body d of
               Inl err \<Rightarrow> (Inl err, d)
             | Inr (v, d') \<Rightarrow> (if e = Audit_Committed then Inr v else Inl Audit_Storage, d')))"

text \<open>The UUID and the clock reading of one record.\<close>

type_synonym audit_stamp = "uuid \<times> int"

definition audit_append_on :: "audit_stamp \<Rightarrow> audit_actor \<Rightarrow> audit_action \<Rightarrow> target_kind \<Rightarrow> uuid \<Rightarrow> audit_outcome
    \<Rightarrow> ('e, audit_record, 'd) audit_tx" where
  "audit_append_on stamp actor action kind target outcome d =
     (let r = \<lparr>au_id = fst stamp, au_actor = actor, au_action = action, au_kind = kind, au_target = target, au_at = snd stamp,
              au_outcome = outcome\<rparr>
      in if \<not> action_target_ok action kind then Inl Audit_Invalid
         else if fst stamp \<in> au_id ` set (at_records d) then Inl Audit_Storage
         else Inr (r, d\<lparr>at_records := at_records d @ [r]\<rparr>))"

definition audit_append_record :: "audit_end \<Rightarrow> audit_stamp \<Rightarrow> audit_actor \<Rightarrow> audit_action \<Rightarrow> target_kind \<Rightarrow> uuid \<Rightarrow> audit_outcome
    \<Rightarrow> 'd audit_db \<Rightarrow> ('e audit_error, audit_record, 'd audit_db) outcome" where
  "audit_append_record e stamp actor action kind target outcome d =
     audit_transaction e (audit_append_on stamp actor action kind target outcome) d"

text \<open>\<open>ORDER BY occurred_at_us DESC, id DESC LIMIT ?\<close> after an optional cursor.\<close>

definition newest_first :: "audit_record list \<Rightarrow> audit_record list" where
  "newest_first rs = rev (sort_key (\<lambda>r. (au_at r, au_id r)) rs)"

type_synonym audit_cursor = "int \<times> uuid"

definition cursor_after :: "audit_record \<Rightarrow> audit_cursor" where
  "cursor_after r = (au_at r, au_id r)"

definition store_list_records :: "bool \<Rightarrow> int \<Rightarrow> audit_cursor option \<Rightarrow> 'd audit_db \<Rightarrow> 'e audit_error + audit_record list" where
  "store_list_records readable limit before d =
     (if \<not> (1 \<le> limit \<and> limit \<le> int MAX_PAGE_SIZE) then Inl Audit_Invalid
      else if \<not> readable then Inl Audit_Storage
      else Inr (take (nat limit) (newest_first (filter (\<lambda>r.
        case before of None \<Rightarrow> True | Some (u, i) \<Rightarrow> au_at r < u \<or> au_at r = u \<and> au_id r < i) (at_records d)))))"

section \<open>Retention\<close>

text \<open>
  \<open>DELETE ... WHERE id IN (SELECT id ... WHERE at < ? ORDER BY at, id LIMIT ?)\<close> on a table with the given time and key
  columns: the number of deleted rows and the rows left.
\<close>

definition expire_oldest :: "('a \<Rightarrow> int) \<Rightarrow> ('a \<Rightarrow> nat) \<Rightarrow> int \<Rightarrow> nat \<Rightarrow> 'a list \<Rightarrow> nat \<times> 'a list" where
  "expire_oldest tm key cutoff n rs =
     (let gone = key ` set (take n (sort_key (\<lambda>r. (tm r, key r)) (filter (\<lambda>r. tm r < cutoff) rs)));
          kept = filter (\<lambda>r. key r \<notin> gone) rs
      in (length rs - length kept, kept))"

definition cleanup_body :: "audit_store \<Rightarrow> int \<Rightarrow> ('e, nat, 'd) audit_tx" where
  "cleanup_body a cutoff d =
     (case expire_oldest au_at au_id cutoff (as_cleanup_batch_size a) (at_records d) of (removed, records) \<Rightarrow>
        let remaining = as_cleanup_batch_size a - removed in
        if remaining = 0 then Inr (removed, d\<lparr>at_records := records\<rparr>)
        else case expire_oldest snd fst cutoff remaining (at_integrity d) of (more_removed, integrity) \<Rightarrow>
          Inr (removed + more_removed, d\<lparr>at_records := records, at_integrity := integrity\<rparr>))"

definition cleanup_expired_batch :: "audit_store \<Rightarrow> audit_end \<Rightarrow> int \<Rightarrow> 'd audit_db \<Rightarrow> ('e audit_error, nat, 'd audit_db) outcome" where
  "cleanup_expired_batch a e reference d = audit_transaction e (cleanup_body a (reference - as_retention a)) d"

text \<open>
  The loop of \<open>cleanup_expired\<close>; \<open>ends\<close> gives the end of each transaction. The constructor refuses a batch size of 0.
\<close>

lemma expire_rows: "expire_oldest tm key cutoff n rs = (k, ks) \<Longrightarrow> length rs = k + length ks"
  by (auto simp: expire_oldest_def Let_def)

lemma cleanup_body_rows:
  "cleanup_body a cutoff d = Inr (removed, d') \<Longrightarrow>
     length (at_records d) + length (at_integrity d) = removed + length (at_records d') + length (at_integrity d')"
  unfolding cleanup_body_def Let_def by (auto split: prod.splits if_splits dest!: expire_rows)

function cleanup_loop :: "audit_store \<Rightarrow> (nat \<Rightarrow> audit_end) \<Rightarrow> int \<Rightarrow> nat \<Rightarrow> nat \<Rightarrow> 'd audit_db \<Rightarrow> ('e audit_error, nat, 'd audit_db) outcome" where
  "cleanup_loop a ends reference k deleted d =
     (case cleanup_expired_batch a (ends k) reference d of
        (Inl e, d') \<Rightarrow> (Inl e, d')
      | (Inr removed, d') \<Rightarrow>
          if removed < as_cleanup_batch_size a \<or> as_cleanup_batch_size a = 0 then (Inr (deleted + removed), d')
          else cleanup_loop a ends reference (Suc k) (deleted + removed) d')"
  by pat_completeness auto

termination
proof (relation "measure (\<lambda>(a, ends, reference, k, deleted, d). length (at_records d) + length (at_integrity d))", simp, clarsimp)
  fix a :: audit_store and ends :: "nat \<Rightarrow> audit_end" and reference :: int and k removed :: nat and d d' :: "'d audit_db"
  assume "(Inr removed :: 'e audit_error + nat, d') = cleanup_expired_batch a (ends k) reference d"
    and "\<not> removed < as_cleanup_batch_size a" "0 < as_cleanup_batch_size a"
  then have "(cleanup_body a (reference - as_retention a) d :: 'e audit_error + nat \<times> 'd audit_db) = Inr (removed, d')" "0 < removed"
    by (auto simp: cleanup_expired_batch_def audit_transaction_def split: audit_end.splits sum.splits prod.splits if_splits)
  then show "length (at_records d') + length (at_integrity d') < length (at_records d) + length (at_integrity d)"
    using cleanup_body_rows by fastforce
qed

section \<open>Owner operations\<close>

record 'd owner_audit =
  oa_db :: "'d audit_db"
  oa_delivery_failed :: bool
  oa_undelivered :: nat

definition delivery_failed :: "'d owner_audit \<Rightarrow> 'd owner_audit" where
  "delivery_failed s = s\<lparr>oa_delivery_failed := True, oa_undelivered := oa_undelivered s + 1\<rparr>"

text \<open>
  What \<open>require_owner\<close> does: it returns, raises its own \<open>OwnerAuthorizationError\<close> with a category (its constructor refuses the
  Owner's), raises a foreign \<open>PermissionError\<close>, or raises something else.
\<close>

datatype authorization = Is_Owner | Owner_Denied audit_actor | Permission_Refused | Authorizer_Raises

definition denied_category :: "audit_actor option \<Rightarrow> audit_actor" where
  "denied_category c = (case c of Some a \<Rightarrow> a | None \<Rightarrow> By_Unauthenticated)"

text \<open>One attempt to append a record in a transaction of its own, counted when it fails.\<close>

definition record_or_count :: "audit_end \<Rightarrow> audit_stamp \<Rightarrow> audit_actor \<Rightarrow> audit_action \<Rightarrow> target_kind \<Rightarrow> uuid \<Rightarrow> audit_outcome
    \<Rightarrow> 'd owner_audit \<Rightarrow> 'd owner_audit" where
  "record_or_count e stamp actor action kind target outcome s =
     (case audit_append_record e stamp actor action kind target outcome (oa_db s) :: (unit audit_error, audit_record, 'd audit_db) outcome of
        (Inr _, d) \<Rightarrow> s\<lparr>oa_db := d\<rparr>
      | (Inl _, d) \<Rightarrow> delivery_failed (s\<lparr>oa_db := d\<rparr>))"

definition audit_authorize :: "authorization \<Rightarrow> audit_end \<Rightarrow> audit_stamp \<Rightarrow> audit_action \<Rightarrow> target_kind \<Rightarrow> uuid \<Rightarrow> 'd owner_audit
    \<Rightarrow> ('e audit_error, unit, 'd owner_audit) outcome" where
  "audit_authorize answer e stamp action kind target s =
     (let denied = (\<lambda>c. (Inl (Owner_Authorization c), record_or_count e stamp c action kind target DENIED s)) in
      case answer of
        Is_Owner \<Rightarrow> (Inr (), s)
      | Owner_Denied c \<Rightarrow> denied (denied_category (Some c))
      | Permission_Refused \<Rightarrow> denied (denied_category None)
      | Authorizer_Raises \<Rightarrow> (Inl Authorizer_Failed, s))"

text \<open>\<open>run\<close>: the operation and one record per action, in one transaction.\<close>

fun append_all :: "audit_stamp list \<Rightarrow> audit_action list \<Rightarrow> target_kind \<Rightarrow> uuid \<Rightarrow> ('e, unit, 'd) audit_tx" where
  "append_all (stamp # stamps) (action # actions) kind target d =
     (case audit_append_on stamp By_Owner action kind target SUCCEEDED d of
        Inl e \<Rightarrow> Inl e
      | Inr (_, d') \<Rightarrow> append_all stamps actions kind target d')"
| "append_all _ [] kind target d = Inr ((), d)"
| "append_all [] _ kind target d = Inl Audit_Storage"

definition run_operation :: "('d \<Rightarrow> 'e + 'r \<times> 'd) \<Rightarrow> audit_stamp list \<Rightarrow> audit_action list \<Rightarrow> target_kind \<Rightarrow> uuid \<Rightarrow> ('e, 'r, 'd) audit_tx" where
  "run_operation operation stamps actions kind target d =
     (case operation (at_domain d) of
        Inl e \<Rightarrow> Inl (Operation_Failed e)
      | Inr (v, x) \<Rightarrow>
          (case append_all stamps actions kind target (d\<lparr>at_domain := x\<rparr>) of
             Inl e \<Rightarrow> Inl e
           | Inr (_, d') \<Rightarrow> Inr (v, d')))"

record audit_call =
  ac_answer :: authorization
  ac_denial_end :: audit_end
  ac_denial_stamp :: audit_stamp
  ac_main_end :: audit_end
  ac_stamps :: "audit_stamp list"
  ac_failure_end :: audit_end
  ac_failure_stamp :: audit_stamp

text \<open>
  \<open>execute_transactional\<close>. The preparation and the entry of a reservation that the caller passes run before the transaction
  and may raise an error of their own (\<open>prepare_error\<close>). A caller-owned connection that is already inside a transaction, an
  admission the store is refused and a failing statement are a refused main transaction.
\<close>

definition execute_transactional :: "audit_call \<Rightarrow> audit_action \<Rightarrow> target_kind \<Rightarrow> uuid \<Rightarrow> audit_action list \<Rightarrow> 'e option
    \<Rightarrow> ('d \<Rightarrow> 'e + 'r \<times> 'd) \<Rightarrow> 'd owner_audit \<Rightarrow> ('e audit_error, 'r, 'd owner_audit) outcome" where
  "execute_transactional c action kind target followed_by prepare_error operation s =
     (if \<not> list_all (\<lambda>a. action_target_ok a kind) (action # followed_by) then (Inl Audit_Invalid, s)
      else case audit_authorize (ac_answer c) (ac_denial_end c) (ac_denial_stamp c) action kind target s of
          (Inl e, s') \<Rightarrow> (Inl e, s')
        | (Inr _, s') \<Rightarrow>
            (case (case prepare_error of
                     Some e \<Rightarrow> (Inl (Operation_Failed e), oa_db s')
                   | None \<Rightarrow> audit_transaction (ac_main_end c) (run_operation operation (ac_stamps c) (action # followed_by) kind target) (oa_db s')) of
               (Inr v, d) \<Rightarrow> (Inr v, s'\<lparr>oa_db := d\<rparr>)
             | (Inl e, d) \<Rightarrow>
                 (Inl e, record_or_count (ac_failure_end c) (ac_failure_stamp c) By_Owner action kind target FAILED (s'\<lparr>oa_db := d\<rparr>))))"

definition record_owner_post_commit_failure :: "audit_end \<Rightarrow> audit_stamp \<Rightarrow> audit_action \<Rightarrow> target_kind \<Rightarrow> uuid \<Rightarrow> 'd owner_audit
    \<Rightarrow> ('e audit_error, audit_record option, 'd owner_audit) outcome" where
  "record_owner_post_commit_failure e stamp action kind target s =
     (if \<not> action_target_ok action kind then (Inl Audit_Invalid, s)
      else case audit_append_record e stamp By_Owner action kind target FAILED (oa_db s) :: (unit audit_error, audit_record, 'd audit_db) outcome of
          (Inr r, d) \<Rightarrow> (Inr (Some r), s\<lparr>oa_db := d\<rparr>)
        | (Inl _, d) \<Rightarrow> (Inr None, delivery_failed (s\<lparr>oa_db := d\<rparr>)))"

definition list_records :: "authorization \<Rightarrow> bool \<Rightarrow> int \<Rightarrow> audit_cursor option \<Rightarrow> 'd owner_audit \<Rightarrow> 'e audit_error + audit_record list" where
  "list_records answer readable limit before s =
     (case answer of
        Is_Owner \<Rightarrow> store_list_records readable limit before (oa_db s)
      | Owner_Denied c \<Rightarrow> Inl (Owner_Authorization (denied_category (Some c)))
      | Permission_Refused \<Rightarrow> Inl (Owner_Authorization (denied_category None))
      | Authorizer_Raises \<Rightarrow> Inl Authorizer_Failed)"

end
