(* ===== verification/Audit_Trail.thy ===== *)
theory Audit_Trail
  imports Security_Audit "HOL-Library.Sublist" "HOL-Library.Multiset"
begin

text \<open>
  What the audit guarantees: no change of the domain without its record, no outcome that is neither recorded nor counted,
  complete paging, and a cleanup that ends and removes exactly the expired rows.
\<close>

section \<open>Owner operations\<close>

text \<open>The keys of both audit tables are unique.\<close>

definition keys_unique :: "'d audit_db \<Rightarrow> bool" where
  "keys_unique d \<longleftrightarrow> distinct (map au_id (at_records d)) \<and> distinct (map fst (at_integrity d))"

lemma append_on_effect:
  "audit_append_on stamp actor action kind target oc d = Inr (r, d') \<Longrightarrow>
     d' = d\<lparr>at_records := at_records d @ [r]\<rparr> \<and> au_id r \<notin> au_id ` set (at_records d)
     \<and> au_actor r = actor \<and> au_action r = action \<and> au_kind r = kind \<and> au_target r = target \<and> au_outcome r = oc"
  by (auto simp: audit_append_on_def Let_def split: if_splits)

lemma append_all_effect:
  "(append_all stamps actions kind target d :: 'e audit_error + unit \<times> 'd audit_db) = Inr (u, d') \<Longrightarrow>
     \<exists>rs. d' = d\<lparr>at_records := at_records d @ rs\<rparr> \<and> map au_action rs = actions
       \<and> (\<forall>r \<in> set rs. au_actor r = By_Owner \<and> au_outcome r = SUCCEEDED \<and> au_target r = target)"
proof (induction actions arbitrary: stamps d)
  case Nil
  then show ?case by (cases stamps) auto
next
  case (Cons action actions)
  then obtain stamp stamps' where st: "stamps = stamp # stamps'" by (cases stamps) auto
  obtain r d1 where a: "(audit_append_on stamp By_Owner action kind target SUCCEEDED d :: 'e audit_error + audit_record \<times> 'd audit_db) = Inr (r, d1)"
      "(append_all stamps' actions kind target d1 :: 'e audit_error + unit \<times> 'd audit_db) = Inr (u, d')"
    using Cons.prems unfolding st by (auto split: sum.splits)
  obtain rs where rs: "d' = d1\<lparr>at_records := at_records d1 @ rs\<rparr>" "map au_action rs = actions"
    "\<forall>r \<in> set rs. au_actor r = By_Owner \<and> au_outcome r = SUCCEEDED \<and> au_target r = target" using Cons.IH [OF a(2)] by blast
  with append_on_effect [OF a(1)] show ?case by (intro exI [of _ "r # rs"]) auto
qed

lemma transaction_effect:
  "audit_transaction e body d = (res, d') \<Longrightarrow>
     (\<exists>v. body d = Inr (v, d') \<and> (res = Inr v \<or> res = Inl Audit_Storage)) \<or> (d' = d \<and> (\<exists>err. res = Inl err))"
  by (auto simp: audit_transaction_def split: audit_end.splits sum.splits prod.splits if_splits)

lemma record_or_count_effect:
  assumes "s' = record_or_count e stamp actor action kind target oc (s :: 'a owner_audit)"
  shows "at_domain (oa_db s') = at_domain (oa_db s)" "\<exists>rs. at_records (oa_db s') = at_records (oa_db s) @ rs"
    "(\<exists>r. r \<in> set (at_records (oa_db s')) \<and> r \<notin> set (at_records (oa_db s)) \<and> au_outcome r = oc \<and> au_action r = action
         \<and> au_target r = target \<and> au_actor r = actor)
     \<or> oa_undelivered s' = oa_undelivered s + 1 \<and> oa_delivery_failed s'"
proof -
  obtain res d' where ap: "(audit_append_record e stamp actor action kind target oc (oa_db s) :: (unit audit_error, audit_record, 'a audit_db) outcome) = (res, d')"
    by fastforce
  then have eff: "(\<exists>v. (audit_append_on stamp actor action kind target oc (oa_db s) :: unit audit_error + audit_record \<times> 'a audit_db) = Inr (v, d') \<and> (res = Inr v \<or> res = Inl Audit_Storage)) \<or> d' = oa_db s \<and> (\<exists>err. res = Inl err)"
    unfolding audit_append_record_def by (rule transaction_effect)
  have s': "s' = (case res of Inr _ \<Rightarrow> s\<lparr>oa_db := d'\<rparr> | Inl _ \<Rightarrow> delivery_failed (s\<lparr>oa_db := d'\<rparr>))"
    using assms ap by (simp add: record_or_count_def split: sum.split)
  have db: "oa_db s' = d'" by (simp add: s' delivery_failed_def split: sum.split)
  from eff show "at_domain (oa_db s') = at_domain (oa_db s)" "\<exists>rs. at_records (oa_db s') = at_records (oa_db s) @ rs"
    unfolding db by (auto dest: append_on_effect)
  from eff show "(\<exists>r. r \<in> set (at_records (oa_db s')) \<and> r \<notin> set (at_records (oa_db s)) \<and> au_outcome r = oc \<and> au_action r = action
         \<and> au_target r = target \<and> au_actor r = actor)
     \<or> oa_undelivered s' = oa_undelivered s + 1 \<and> oa_delivery_failed s'"
  proof
    assume "\<exists>v. (audit_append_on stamp actor action kind target oc (oa_db s) :: unit audit_error + audit_record \<times> 'a audit_db) = Inr (v, d') \<and> (res = Inr v \<or> res = Inl Audit_Storage)"
    then obtain v where "(audit_append_on stamp actor action kind target oc (oa_db s) :: unit audit_error + audit_record \<times> 'a audit_db) = Inr (v, d')" by blast
    from append_on_effect [OF this] show ?thesis unfolding db by (intro disjI1 exI [of _ v]) auto
  next
    assume "d' = oa_db s \<and> (\<exists>err. res = Inl err)"
    then show ?thesis by (auto simp: s' delivery_failed_def)
  qed
qed


definition new_record :: "audit_actor \<Rightarrow> audit_action \<Rightarrow> uuid \<Rightarrow> audit_outcome \<Rightarrow> 'd owner_audit \<Rightarrow> 'd owner_audit \<Rightarrow> bool" where
  "new_record actor action target oc s s' \<longleftrightarrow>
     (\<exists>r. r \<in> set (at_records (oa_db s')) \<and> r \<notin> set (at_records (oa_db s)) \<and> au_outcome r = oc \<and> au_action r = action
         \<and> au_target r = target \<and> au_actor r = actor)"

text \<open>A record of the outcome, or a delivery failure that the service counts and reports.\<close>

definition outcome_accounted :: "audit_actor \<Rightarrow> audit_action \<Rightarrow> uuid \<Rightarrow> audit_outcome \<Rightarrow> 'd owner_audit \<Rightarrow> 'd owner_audit \<Rightarrow> bool" where
  "outcome_accounted actor action target oc s s' \<longleftrightarrow>
     new_record actor action target oc s s' \<or> oa_undelivered s < oa_undelivered s' \<and> oa_delivery_failed s'"

lemma record_or_count_accounted: "outcome_accounted actor action target oc s (record_or_count e stamp actor action kind target oc s)"
  using record_or_count_effect(3) [OF refl, of e stamp actor action kind target oc s] unfolding outcome_accounted_def new_record_def by auto

lemma append_on_unique: "audit_append_on stamp actor action kind target oc d = Inr (r, d') \<Longrightarrow> keys_unique d \<Longrightarrow> keys_unique d'"
  by (auto dest!: append_on_effect simp: keys_unique_def)

lemma append_all_unique:
  "(append_all stamps actions kind target d :: 'e audit_error + unit \<times> 'd audit_db) = Inr (u, d') \<Longrightarrow> keys_unique d \<Longrightarrow> keys_unique d'"
proof (induction actions arbitrary: stamps d)
  case Nil
  then show ?case by (cases stamps) auto
next
  case (Cons action actions)
  then obtain stamp stamps' where st: "stamps = stamp # stamps'" by (cases stamps) auto
  show ?case using Cons.prems unfolding st by (auto split: sum.splits intro: Cons.IH append_on_unique)
qed

lemma record_or_count_unique: "keys_unique (oa_db s) \<Longrightarrow> keys_unique (oa_db (record_or_count e stamp actor action kind target oc s))"
  by (auto simp: record_or_count_def audit_append_record_def audit_transaction_def delivery_failed_def
      split: audit_end.splits sum.splits prod.splits if_splits dest: append_on_unique)

lemma run_operation_effect:
  assumes "(run_operation operation stamps actions kind target d :: 'e audit_error + 'r \<times> 'd audit_db) = Inr (v, d')"
  obtains x rs where "operation (at_domain d) = Inr (v, x)" "d' = d\<lparr>at_records := at_records d @ rs, at_domain := x\<rparr>"
    "map au_action rs = actions" "\<forall>r \<in> set rs. au_actor r = By_Owner \<and> au_outcome r = SUCCEEDED \<and> au_target r = target"
proof -
  from assms obtain x u where x: "operation (at_domain d) = Inr (v, x)"
    and a: "(append_all stamps actions kind target (d\<lparr>at_domain := x\<rparr>) :: 'e audit_error + unit \<times> 'd audit_db) = Inr (u, d')"
    by (auto simp: run_operation_def split: sum.splits prod.splits)
  obtain rs where "d' = d\<lparr>at_domain := x\<rparr>\<lparr>at_records := at_records (d\<lparr>at_domain := x\<rparr>) @ rs\<rparr>" "map au_action rs = actions"
    "\<forall>r \<in> set rs. au_actor r = By_Owner \<and> au_outcome r = SUCCEEDED \<and> au_target r = target"
    using append_all_effect [OF a] by blast
  with x show thesis by (intro that [of x rs]) auto
qed

text \<open>The three ways an audited operation ends: refused before its transaction, committed, or rolled back.\<close>

lemma execute_cases:
  fixes s :: "'d owner_audit" and operation :: "'d \<Rightarrow> 'e + 'r \<times> 'd"
  assumes ex: "execute_transactional c action kind target followed_by prep operation s = (res, s')"
  obtains (invalid) "res = Inl Audit_Invalid" "s' = s" "\<not> list_all (\<lambda>a. action_target_ok a kind) (action # followed_by)"
  | (authorizer) "res = Inl Authorizer_Failed" "s' = s" "ac_answer c = Authorizer_Raises"
  | (denied) actor where "res = Inl (Owner_Authorization actor)" "ac_answer c = (if actor = By_Unauthenticated \<and> ac_answer c = Permission_Refused then Permission_Refused else Owner_Denied actor)"
      "s' = record_or_count (ac_denial_end c) (ac_denial_stamp c) actor action kind target DENIED s"
  | (committed) v d' where "ac_answer c = Is_Owner" "res = Inr v" "s' = s\<lparr>oa_db := d'\<rparr>"
      "run_operation operation (ac_stamps c) (action # followed_by) kind target (oa_db s) = Inr (v, d')" "prep = None"
  | (unreleased) v d' where "ac_answer c = Is_Owner" "res = Inl Audit_Storage"
      "s' = record_or_count (ac_failure_end c) (ac_failure_stamp c) By_Owner action kind target FAILED (s\<lparr>oa_db := d'\<rparr>)"
      "run_operation operation (ac_stamps c) (action # followed_by) kind target (oa_db s) = Inr (v, d')" "prep = None"
  | (failed) e where "ac_answer c = Is_Owner" "res = Inl e"
      "s' = record_or_count (ac_failure_end c) (ac_failure_stamp c) By_Owner action kind target FAILED s"
proof (cases "list_all (\<lambda>a. action_target_ok a kind) (action # followed_by)")
  case False
  then show thesis using ex invalid by (auto simp: execute_transactional_def)
next
  case valid: True
  show thesis
  proof (cases "ac_answer c")
    case Is_Owner
    define main where "main = (case prep of Some e \<Rightarrow> (Inl (Operation_Failed e), oa_db s)
       | None \<Rightarrow> audit_transaction (ac_main_end c) (run_operation operation (ac_stamps c) (action # followed_by) kind target) (oa_db s))"
    obtain m d' where m: "main = (m, d')" by fastforce
    have ex': "(res, s') = (case main of (Inr v, d) \<Rightarrow> (Inr v, s\<lparr>oa_db := d\<rparr>)
       | (Inl e, d) \<Rightarrow> (Inl e, record_or_count (ac_failure_end c) (ac_failure_stamp c) By_Owner action kind target FAILED (s\<lparr>oa_db := d\<rparr>)))"
      using ex valid Is_Owner by (simp add: execute_transactional_def audit_authorize_def main_def cong: option.case_cong)
    have "(\<exists>v. prep = None \<and> run_operation operation (ac_stamps c) (action # followed_by) kind target (oa_db s) = Inr (v, d')
          \<and> (m = Inr v \<or> m = Inl Audit_Storage)) \<or> (d' = oa_db s \<and> (\<exists>err. m = Inl err))"
      using m transaction_effect unfolding main_def by (cases prep) fastforce+
    then show thesis
    proof (elim disjE exE conjE)
      fix v
      assume r: "prep = None" "run_operation operation (ac_stamps c) (action # followed_by) kind target (oa_db s) = Inr (v, d')"
      { assume "m = Inr v" then show thesis using ex' m Is_Owner r committed by auto }
      { assume "m = Inl Audit_Storage" then show thesis using ex' m Is_Owner r unreleased by auto }
    next
      fix err
      assume "d' = oa_db s" "m = Inl err"
      then show thesis using ex' m Is_Owner failed by auto
    qed
  qed (use ex valid authorizer denied in \<open>auto simp: execute_transactional_def audit_authorize_def denied_category_def Let_def\<close>)
qed

lemma run_operation_unique:
  "(run_operation operation stamps actions kind target d :: 'e audit_error + 'r \<times> 'd audit_db) = Inr (v, d') \<Longrightarrow> keys_unique d \<Longrightarrow> keys_unique d'"
  by (auto simp: run_operation_def keys_unique_def split: sum.splits prod.splits dest!: append_all_unique)

lemma execute_unique:
  assumes "execute_transactional c action kind target followed_by prep operation s = (res, s')" "keys_unique (oa_db s)"
  shows "keys_unique (oa_db s')"
  using assms(1) by (cases rule: execute_cases) (use assms(2) in \<open>auto intro!: record_or_count_unique intro: run_operation_unique\<close>)

text \<open>What an audited operation does to its domain and to the audit.\<close>

lemma execute_effect:
  fixes s :: "'d owner_audit" and operation :: "'d \<Rightarrow> 'e + 'r \<times> 'd"
  assumes "execute_transactional c action kind target followed_by prep operation s = (res, s')"
  shows "(at_domain (oa_db s') = at_domain (oa_db s) \<and>
           (res = Inl Audit_Invalid \<and> s' = s \<or> res = Inl Authorizer_Failed \<and> s' = s
            \<or> (\<exists>actor. res = Inl (Owner_Authorization actor) \<and> outcome_accounted actor action target DENIED s s')
            \<or> (\<exists>e. res = Inl e \<and> outcome_accounted By_Owner action target FAILED s s')))
       \<or> ac_answer c = Is_Owner \<and> prep = None \<and>
          (\<exists>v rs. operation (at_domain (oa_db s)) = Inr (v, at_domain (oa_db s')) \<and> (res = Inr v \<or> res = Inl Audit_Storage)
            \<and> map au_action rs = action # followed_by \<and> prefix (at_records (oa_db s) @ rs) (at_records (oa_db s'))
            \<and> list_all (\<lambda>r. au_actor r = By_Owner \<and> au_outcome r = SUCCEEDED \<and> au_target r = target) rs)"
  using assms
proof (cases rule: execute_cases)
  case (denied actor)
  then show ?thesis using record_or_count_effect(1) [OF denied(3)] by (auto intro: record_or_count_accounted)
next
  case (committed v d')
  obtain x rs where "operation (at_domain (oa_db s)) = Inr (v, x)" "d' = (oa_db s)\<lparr>at_records := at_records (oa_db s) @ rs, at_domain := x\<rparr>"
    "map au_action rs = action # followed_by" "\<forall>r \<in> set rs. au_actor r = By_Owner \<and> au_outcome r = SUCCEEDED \<and> au_target r = target"
    by (rule run_operation_effect [OF committed(4)])
  with committed show ?thesis by (auto simp: list_all_iff intro!: exI [of _ v] exI [of _ rs])
next
  case (unreleased v d')
  obtain x rs where x: "operation (at_domain (oa_db s)) = Inr (v, x)" "d' = (oa_db s)\<lparr>at_records := at_records (oa_db s) @ rs, at_domain := x\<rparr>"
    "map au_action rs = action # followed_by" "\<forall>r \<in> set rs. au_actor r = By_Owner \<and> au_outcome r = SUCCEEDED \<and> au_target r = target"
    by (rule run_operation_effect [OF unreleased(4)])
  have "prefix (at_records d') (at_records (oa_db s'))" "at_domain (oa_db s') = at_domain d'"
    using record_or_count_effect(1,2) [OF unreleased(3)] by (auto simp: prefix_def)
  with x unreleased show ?thesis by (auto simp: list_all_iff intro!: exI [of _ v] exI [of _ rs])
next
  case (failed e)
  then show ?thesis using record_or_count_effect(1) [OF failed(3)] by (auto intro: record_or_count_accounted)
qed auto

lemma execute_committed:
  fixes s :: "'d owner_audit" and operation :: "'d \<Rightarrow> 'e + 'r \<times> 'd"
  assumes "execute_transactional c action kind target followed_by prep operation s = (res, s')"
    and "at_domain (oa_db s') \<noteq> at_domain (oa_db s)"
  obtains v rs where "ac_answer c = Is_Owner" "prep = None" "operation (at_domain (oa_db s)) = Inr (v, at_domain (oa_db s'))"
    "map au_action rs = action # followed_by" "prefix (at_records (oa_db s) @ rs) (at_records (oa_db s'))"
    "list_all (\<lambda>r. au_actor r = By_Owner \<and> au_outcome r = SUCCEEDED \<and> au_target r = target) rs"
  using execute_effect [OF assms(1)] assms(2) by (elim disjE conjE exE) (blast | rule that; assumption)+

lemma execute_domain:
  assumes "execute_transactional c action kind target followed_by prep operation s = (res, s')"
  shows "at_domain (oa_db s') = at_domain (oa_db s) \<or> ac_answer c = Is_Owner \<and> (\<exists>v. operation (at_domain (oa_db s)) = Inr (v, at_domain (oa_db s')))"
  using execute_effect [OF assms] by blast

text \<open>
  A domain whose changes all go through the audit: what every operation keeps is kept by any sequence of audited calls,
  whoever makes them and however their transactions end.
\<close>

locale audited_domain =
  fixes operation :: "'q \<Rightarrow> 'd \<Rightarrow> 'e + 'r \<times> 'd" and good :: "'d \<Rightarrow> bool" and evolves :: "'d \<Rightarrow> 'd \<Rightarrow> bool"
  assumes keeps: "good d \<Longrightarrow> operation q d = Inr (v, d') \<Longrightarrow> good d'"
    and evolves_step: "good d \<Longrightarrow> operation q d = Inr (v, d') \<Longrightarrow> evolves d d'"
    and evolves_refl: "evolves d d"
    and evolves_trans: "evolves a b \<Longrightarrow> evolves b d \<Longrightarrow> evolves a d"
begin

lemma executed_once:
  assumes "good (at_domain (oa_db s))" "execute_transactional c action kind target followed_by prep (operation q) s = (res, s')"
  shows "good (at_domain (oa_db s'))" "evolves (at_domain (oa_db s)) (at_domain (oa_db s'))"
  using execute_domain [OF assms(2)] assms(1) keeps evolves_step evolves_refl by auto

lemma executed_all:
  assumes "good (at_domain (oa_db s))"
  shows "good (at_domain (oa_db (fold (\<lambda>(c, q) s. snd (execute_transactional c (action q) (kind q) (target q) [] None (operation q) s)) calls s)))
       \<and> evolves (at_domain (oa_db s))
           (at_domain (oa_db (fold (\<lambda>(c, q) s. snd (execute_transactional c (action q) (kind q) (target q) [] None (operation q) s)) calls s)))"
  using assms
proof (induction calls arbitrary: s)
  case Nil
  then show ?case by (simp add: evolves_refl)
next
  case (Cons call calls)
  obtain c q where call: "call = (c, q)" by fastforce
  obtain res s' where ex: "execute_transactional c (action q) (kind q) (target q) [] None (operation q) s = (res, s')" by fastforce
  note one = executed_once [OF Cons.prems ex]
  show ?case using Cons.IH [OF one(1)] one(2) evolves_trans by (auto simp: call ex)
qed

end

section \<open>Reading\<close>

definition visible :: "audit_cursor option \<Rightarrow> audit_record \<Rightarrow> bool" where
  "visible before r \<longleftrightarrow> (case before of None \<Rightarrow> True | Some c \<Rightarrow> cursor_after r < c)"

text \<open>Every record after the cursor, newest first.\<close>

definition listing :: "audit_cursor option \<Rightarrow> 'd audit_db \<Rightarrow> audit_record list" where
  "listing before d = newest_first (filter (visible before) (at_records d))"

lemma store_list_page:
  assumes "store_list_records readable limit before d = Inr page"
  shows "page = take (nat limit) (listing before d)" "1 \<le> limit"
proof -
  have "(\<lambda>r. case before of None \<Rightarrow> True | Some (u, i) \<Rightarrow> au_at r < u \<or> au_at r = u \<and> au_id r < i) = visible before"
    by (auto simp: fun_eq_iff visible_def cursor_after_def less_prod_def split: option.split)
  with assms show "page = take (nat limit) (listing before d)" "1 \<le> limit"
    by (auto simp: store_list_records_def listing_def split: if_splits)
qed

lemma newest_first_filter: "filter P (newest_first rs) = newest_first (filter P rs)"
  by (simp add: newest_first_def rev_filter [symmetric] filter_sort)

lemma newest_first_decreasing:
  assumes "distinct (map au_id rs)"
  shows "sorted_wrt (\<lambda>a b. cursor_after b < cursor_after a) (newest_first rs)"
proof -
  have inj: "inj_on au_id (set rs)" and "distinct rs" using assms by (auto simp: distinct_map)
  have "distinct (map cursor_after (sort_key cursor_after rs))" using \<open>distinct rs\<close> inj by (auto simp: distinct_map inj_on_def cursor_after_def)
  then have "sorted_wrt (<) (map cursor_after (sort_key cursor_after rs))" by (simp add: strict_sorted_iff)
  then show ?thesis unfolding newest_first_def sorted_wrt_rev by (simp add: sorted_wrt_map cursor_after_def [abs_def])
qed

lemma decreasing_tail:
  assumes "sorted_wrt (\<lambda>a b. f b < (f a :: 'k :: linorder)) (xs @ ys)" "xs \<noteq> []"
  shows "filter (\<lambda>r. f r < f (last xs)) (xs @ ys) = ys"
proof -
  obtain zs z where xs: "xs = zs @ [z]" using assms(2) by (metis append_butlast_last_id)
  have "\<forall>r \<in> set zs. f z < f r" "\<forall>r \<in> set ys. f r < f z" using assms(1) by (auto simp: xs sorted_wrt_append)
  then show ?thesis by (auto simp: xs filter_empty_conv filter_id_conv)
qed

lemma listing_after:
  assumes "keys_unique d" "listing before d = xs @ ys" "xs \<noteq> []"
  shows "listing (Some (cursor_after (last xs))) d = ys"
proof -
  have "distinct (map au_id (filter (visible before) (at_records d)))" using assms(1) by (simp add: keys_unique_def distinct_map_filter)
  then have dec: "sorted_wrt (\<lambda>a b. cursor_after b < cursor_after a) (xs @ ys)"
    using newest_first_decreasing assms(2) by (metis listing_def)
  have "last xs \<in> set (listing before d)" using assms(2,3) by simp
  then have "visible before (last xs)" by (simp add: listing_def newest_first_def)
  then have "filter (visible (Some (cursor_after (last xs)))) (at_records d)
      = filter (\<lambda>r. cursor_after r < cursor_after (last xs)) (filter (visible before) (at_records d))"
    by (auto simp: visible_def intro!: filter_cong split: option.splits)
  then have "listing (Some (cursor_after (last xs))) d = filter (\<lambda>r. cursor_after r < cursor_after (last xs)) (listing before d)"
    unfolding listing_def newest_first_filter by simp
  also have "\<dots> = ys" unfolding assms(2) by (rule decreasing_tail [OF dec assms(3)])
  finally show ?thesis .
qed

section \<open>Retention\<close>

lemma filter_split_length: "length xs = length (filter P xs) + length (filter (\<lambda>x. \<not> P x) xs)"
  by (rule sum_length_filter_compl [symmetric])

lemma expire_effect:
  assumes ex: "expire_oldest tm key cutoff n rs = (k, ks)" and d: "distinct (map key rs)"
  shows "k = min n (length (filter (\<lambda>r. tm r < cutoff) rs))"
    "filter (\<lambda>r. \<not> tm r < cutoff) ks = filter (\<lambda>r. \<not> tm r < cutoff) rs"
    "length (filter (\<lambda>r. tm r < cutoff) ks) + k = length (filter (\<lambda>r. tm r < cutoff) rs)"
    "distinct (map key ks)"
proof -
  define E where "E = filter (\<lambda>r. tm r < cutoff) rs"
  define T where "T = take n (sort_key (\<lambda>r. (tm r, key r)) E)"
  have drs: "distinct rs" using d by (simp add: distinct_map)
  have dT: "distinct T" using drs by (simp add: T_def E_def)
  have sT: "set T \<subseteq> set E" unfolding T_def using set_take_subset by fastforce
  have inj: "inj_on key (set rs)" using d by (simp add: distinct_map)
  have key: "key r \<in> key ` set T \<longleftrightarrow> r \<in> set T" if "r \<in> set rs" for r
    using inj that sT by (auto simp: E_def inj_on_def)
  have ks: "ks = filter (\<lambda>r. r \<notin> set T) rs" and k: "k = length rs - length ks"
    using ex key unfolding expire_oldest_def Let_def T_def [symmetric] E_def [symmetric] by (auto intro: filter_cong)
  have "set (filter (\<lambda>r. r \<in> set T) rs) = set T" using sT by (auto simp: E_def)
  then have "length (filter (\<lambda>r. r \<in> set T) rs) = length T"
    using drs dT by (metis distinct_card distinct_filter)
  then have kT: "k = length T" unfolding k ks using filter_split_length [of rs "\<lambda>r. r \<in> set T"] by simp
  then show "k = min n (length (filter (\<lambda>r. tm r < cutoff) rs))" by (simp add: T_def E_def min.commute)
  show ne: "filter (\<lambda>r. \<not> tm r < cutoff) ks = filter (\<lambda>r. \<not> tm r < cutoff) rs"
    unfolding ks filter_filter using sT by (auto simp: E_def intro!: filter_cong)
  have "length rs = k + length ks" using expire_rows [OF ex] .
  then show "length (filter (\<lambda>r. tm r < cutoff) ks) + k = length (filter (\<lambda>r. tm r < cutoff) rs)"
    using filter_split_length [of rs "\<lambda>r. tm r < cutoff"] filter_split_length [of ks "\<lambda>r. tm r < cutoff"] ne by simp
  show "distinct (map key ks)" unfolding ks using d by (simp add: distinct_map_filter)
qed

text \<open>The number of rows older than a cutoff, and the database without them.\<close>

definition expired_count :: "int \<Rightarrow> 'd audit_db \<Rightarrow> nat" where
  "expired_count cutoff d = length (filter (\<lambda>r. au_at r < cutoff) (at_records d)) + length (filter (\<lambda>r. snd r < cutoff) (at_integrity d))"

definition unexpired :: "int \<Rightarrow> 'd audit_db \<Rightarrow> 'd audit_db" where
  "unexpired cutoff d = d\<lparr>at_records := filter (\<lambda>r. \<not> au_at r < cutoff) (at_records d), at_integrity := filter (\<lambda>r. \<not> snd r < cutoff) (at_integrity d)\<rparr>"

lemma unexpired_all: "expired_count cutoff d = 0 \<Longrightarrow> unexpired cutoff d = d"
  by (cases d) (auto simp: expired_count_def unexpired_def filter_empty_conv)

lemma cleanup_body_effect:
  fixes d :: "'d audit_db"
  assumes "keys_unique d"
  obtains removed d' where "(cleanup_body a cutoff d :: 'e audit_error + nat \<times> 'd audit_db) = Inr (removed, d')"
    "removed = min (as_cleanup_batch_size a) (expired_count cutoff d)"
    "keys_unique d'" "unexpired cutoff d' = unexpired cutoff d" "expired_count cutoff d' + removed = expired_count cutoff d"
proof -
  let ?n = "as_cleanup_batch_size a"
  obtain k ks where e1: "expire_oldest au_at au_id cutoff ?n (at_records d) = (k, ks)" by fastforce
  have u: "distinct (map au_id (at_records d))" "distinct (map fst (at_integrity d))" using assms by (auto simp: keys_unique_def)
  note x1 = expire_effect [OF e1 u(1)]
  show thesis
  proof (cases "?n - k = 0")
    case True
    show thesis
    proof (rule that [of k "d\<lparr>at_records := ks\<rparr>"])
      show "cleanup_body a cutoff d = Inr (k, d\<lparr>at_records := ks\<rparr>)" using e1 True by (simp add: cleanup_body_def)
      show "k = min ?n (expired_count cutoff d)" using True x1(1) by (simp add: expired_count_def)
    qed (use x1 u in \<open>simp_all add: keys_unique_def unexpired_def expired_count_def\<close>)
  next
    case False
    obtain l ls where e2: "expire_oldest snd fst cutoff (?n - k) (at_integrity d) = (l, ls)" by fastforce
    note x2 = expire_effect [OF e2 u(2)]
    show thesis
    proof (rule that [of "k + l" "d\<lparr>at_records := ks, at_integrity := ls\<rparr>"])
      show "cleanup_body a cutoff d = Inr (k + l, d\<lparr>at_records := ks, at_integrity := ls\<rparr>)"
        using e1 e2 False by (simp add: cleanup_body_def)
      show "k + l = min ?n (expired_count cutoff d)" using False x1(1) x2(1) by (simp add: expired_count_def)
    qed (use x1(2-) x2(2-) u in \<open>simp_all add: keys_unique_def unexpired_def expired_count_def\<close>)
  qed
qed

lemma cleanup_loop_effect:
  fixes d :: "'d audit_db"
  assumes "\<And>i. ends i = Audit_Committed" "0 < as_cleanup_batch_size a" "keys_unique d"
  shows "(cleanup_loop a ends reference k deleted d :: ('e audit_error, nat, 'd audit_db) outcome) =
    (Inr (deleted + expired_count (reference - as_retention a) d), unexpired (reference - as_retention a) d)"
  using assms
proof (induction "expired_count (reference - as_retention a) d" arbitrary: k deleted d rule: less_induct)
  case less
  let ?c = "reference - as_retention a" and ?n = "as_cleanup_batch_size a"
  obtain removed d' where d': "(cleanup_body a ?c d :: 'e audit_error + nat \<times> 'd audit_db) = Inr (removed, d')"
    "removed = min ?n (expired_count ?c d)" "keys_unique d'" "unexpired ?c d' = unexpired ?c d" "expired_count ?c d' + removed = expired_count ?c d"
    using cleanup_body_effect [OF less.prems(3)] by metis
  have b: "(cleanup_expired_batch a (ends k) reference d :: ('e audit_error, nat, 'd audit_db) outcome) = (Inr removed, d')"
    by (simp add: cleanup_expired_batch_def audit_transaction_def less.prems(1) d'(1))
  show ?case
  proof (cases "removed < ?n")
    case True
    with d' have "expired_count ?c d' = 0" "removed = expired_count ?c d" by auto
    with d' unexpired_all [of ?c d'] True show ?thesis by (subst cleanup_loop.simps) (simp add: b)
  next
    case False
    with d' less.prems(2) have "expired_count ?c d' < expired_count ?c d" by simp
    from less.hyps [OF this less.prems(1,2) d'(3)] show ?thesis
      using False less.prems(2) d'(4,5) by (subst cleanup_loop.simps) (simp add: b)
  qed
qed

section \<open>Properties\<close>

text \<open>
  C13. An operation run through \<open>execute_transactional\<close> either changes nothing of its domain, and then it reported an error,
  which is in the audit as a denied or failed record or counted as undelivered (an action that does not fit its target and an
  authorizer that itself fails are the two errors without a record); or its caller is the Owner, nothing failed before the
  transaction, the domain is what the operation made of it, and one succeeded record per action was appended, in the order of the actions.
\<close>

theorem audited_change_recorded:
  fixes s :: "'d owner_audit" and operation :: "'d \<Rightarrow> 'e + 'r \<times> 'd"
  assumes "execute_transactional c action kind target followed_by prep operation s = (res, s')"
  shows "(at_domain (oa_db s') = at_domain (oa_db s) \<and>
           (res = Inl Audit_Invalid \<and> s' = s \<or> res = Inl Authorizer_Failed \<and> s' = s
            \<or> (\<exists>actor. res = Inl (Owner_Authorization actor) \<and> outcome_accounted actor action target DENIED s s')
            \<or> (\<exists>e. res = Inl e \<and> outcome_accounted By_Owner action target FAILED s s')))
       \<or> ac_answer c = Is_Owner \<and> prep = None \<and>
          (\<exists>v rs. operation (at_domain (oa_db s)) = Inr (v, at_domain (oa_db s')) \<and> (res = Inr v \<or> res = Inl Audit_Storage)
            \<and> map au_action rs = action # followed_by \<and> prefix (at_records (oa_db s) @ rs) (at_records (oa_db s'))
            \<and> list_all (\<lambda>r. au_actor r = By_Owner \<and> au_outcome r = SUCCEEDED \<and> au_target r = target) rs)"
  by (rule execute_effect [OF assms])

definition sample_call :: audit_call where
  "sample_call = \<lparr>ac_answer = Is_Owner, ac_denial_end = Audit_Committed, ac_denial_stamp = (1, 10), ac_main_end = Audit_Committed,
     ac_stamps = [(2, 20)], ac_failure_end = Audit_Committed, ac_failure_stamp = (3, 30)\<rparr>"

definition sample_record :: "nat \<Rightarrow> int \<Rightarrow> audit_record" where
  "sample_record i t = \<lparr>au_id = i, au_actor = By_Owner, au_action = UPDATE_CAMERA, au_kind = TARGET_CAMERA, au_target = 7, au_at = t,
     au_outcome = SUCCEEDED\<rparr>"

definition sample_audit :: "nat owner_audit" where
  "sample_audit = \<lparr>oa_db = \<lparr>at_records = [sample_record 9 5], at_integrity = [(1, 4)], at_domain = 0\<rparr>, oa_delivery_failed = False,
     oa_undelivered = 0\<rparr>"

lemmas sample_simps = sample_call_def sample_record_def sample_audit_def execute_transactional_def audit_authorize_def
  audit_transaction_def run_operation_def audit_append_on_def action_target_ok_def Let_def

theorem audited_change_recorded_witness:
  "execute_transactional sample_call UPDATE_CAMERA TARGET_CAMERA 7 [] None (\<lambda>n. Inr (n, Suc n) :: unit + nat \<times> nat) sample_audit
     = (Inr 0, sample_audit\<lparr>oa_db := \<lparr>at_records = [sample_record 9 5, sample_record 2 20], at_integrity = [(1, 4)], at_domain = 1\<rparr>\<rparr>)
   \<and> (\<exists>rs. map au_action rs = [UPDATE_CAMERA] \<and> prefix ([sample_record 9 5] @ rs) [sample_record 9 5, sample_record 2 20])"
proof
  show ex: "execute_transactional sample_call UPDATE_CAMERA TARGET_CAMERA 7 [] None (\<lambda>n. Inr (n, Suc n) :: unit + nat \<times> nat) sample_audit
     = (Inr 0, sample_audit\<lparr>oa_db := \<lparr>at_records = [sample_record 9 5, sample_record 2 20], at_integrity = [(1, 4)], at_domain = 1\<rparr>\<rparr>)"
    by (simp add: sample_simps)
  show "\<exists>rs. map au_action rs = [UPDATE_CAMERA] \<and> prefix ([sample_record 9 5] @ rs) [sample_record 9 5, sample_record 2 20]"
    using audited_change_recorded [OF ex] by (auto simp: sample_audit_def sample_record_def intro!: exI [of _ "[sample_record 2 20]"])
qed

text \<open>
  C28. Paging the audit loses and repeats nothing: while record UUIDs are unique, what remains after a page is exactly the
  listing after the cursor of the page's last record; an empty page ends the listing, a short page is the rest of it, and the
  listing without a cursor is all records in strictly decreasing order of time and UUID.
\<close>

theorem paging_complete:
  assumes "keys_unique d" "store_list_records readable limit before d = Inr page"
  shows "listing before d = page @ (if page = [] then [] else listing (Some (cursor_after (last page))) d)
       \<and> (length page = nat limit \<or> listing before d = page)
       \<and> mset (listing None d) = mset (at_records d)
       \<and> sorted_wrt (\<lambda>a b. cursor_after b < cursor_after a) (listing None d)"
proof -
  have page: "page = take (nat limit) (listing before d)" "0 < nat limit" using store_list_page [OF assms(2)] by auto
  then have split: "listing before d = page @ drop (nat limit) (listing before d)" by simp
  have "listing before d = page @ (if page = [] then [] else listing (Some (cursor_after (last page))) d)"
    using listing_after [OF assms(1) split] split page by auto
  moreover have "length page = nat limit \<or> listing before d = page" using page by (auto simp: min_def)
  moreover have "mset (listing None d) = mset (at_records d)" by (simp add: listing_def newest_first_def visible_def)
  moreover have "sorted_wrt (\<lambda>a b. cursor_after b < cursor_after a) (listing None d)"
    using newest_first_decreasing assms(1) unfolding listing_def keys_unique_def visible_def by simp
  ultimately show ?thesis by blast
qed

theorem paging_complete_witness:
  "keys_unique \<lparr>at_records = [sample_record 1 5, sample_record 2 6], at_integrity = [], at_domain = ()\<rparr>
   \<and> store_list_records True 1 None \<lparr>at_records = [sample_record 1 5, sample_record 2 6], at_integrity = [], at_domain = ()\<rparr>
       = (Inr [sample_record 2 6] :: unit audit_error + audit_record list)
   \<and> listing None \<lparr>at_records = [sample_record 1 5, sample_record 2 6], at_integrity = [], at_domain = ()\<rparr> = [sample_record 2 6] @
       listing (Some (6, 2)) \<lparr>at_records = [sample_record 1 5, sample_record 2 6], at_integrity = [], at_domain = ()\<rparr>"
proof (intro conjI)
  show k: "keys_unique \<lparr>at_records = [sample_record 1 5, sample_record 2 6], at_integrity = [], at_domain = ()\<rparr>"
    by (simp add: keys_unique_def sample_record_def)
  show p: "store_list_records True 1 None \<lparr>at_records = [sample_record 1 5, sample_record 2 6], at_integrity = [], at_domain = ()\<rparr>
       = (Inr [sample_record 2 6] :: unit audit_error + audit_record list)"
    by (simp add: store_list_records_def MAX_PAGE_SIZE_def newest_first_def sample_record_def)
  show "listing None \<lparr>at_records = [sample_record 1 5, sample_record 2 6], at_integrity = [], at_domain = ()\<rparr> = [sample_record 2 6] @
       listing (Some (6, 2)) \<lparr>at_records = [sample_record 1 5, sample_record 2 6], at_integrity = [], at_domain = ()\<rparr>"
    using paging_complete [OF k p] by (simp add: cursor_after_def sample_record_def)
qed

text \<open>
  C27. The retention cleanup ends and is exact: while its transactions commit, it deletes precisely the rows of both audit
  tables older than the retention, in batches of at most the configured size, and reports how many.
\<close>

theorem cleanup_exact:
  assumes "audit_store_ok a" "keys_unique d" "\<And>i. ends i = Audit_Committed"
  shows "cleanup_loop a ends reference 0 0 d =
    (Inr (expired_count (reference - as_retention a) d), unexpired (reference - as_retention a) d)"
  using cleanup_loop_effect [of ends a d reference 0 0] assms by (simp add: audit_store_ok_def)

theorem cleanup_exact_witness:
  "audit_store_ok \<lparr>as_retention = 10, as_cleanup_batch_size = 1\<rparr>
   \<and> keys_unique \<lparr>at_records = [sample_record 1 5, sample_record 2 60], at_integrity = [(1, 4)], at_domain = ()\<rparr>
   \<and> cleanup_loop \<lparr>as_retention = 10, as_cleanup_batch_size = 1\<rparr> (\<lambda>_. Audit_Committed) 20 0 0
       \<lparr>at_records = [sample_record 1 5, sample_record 2 60], at_integrity = [(1, 4)], at_domain = ()\<rparr>
     = (Inr 2 :: unit audit_error + nat, \<lparr>at_records = [sample_record 2 60], at_integrity = [], at_domain = ()\<rparr>)"
proof (intro conjI)
  show a: "audit_store_ok \<lparr>as_retention = 10, as_cleanup_batch_size = 1\<rparr>" by (simp add: audit_store_ok_def MAX_PAGE_SIZE_def)
  show k: "keys_unique \<lparr>at_records = [sample_record 1 5, sample_record 2 60], at_integrity = [(1, 4)], at_domain = ()\<rparr>"
    by (simp add: keys_unique_def sample_record_def)
  show "cleanup_loop \<lparr>as_retention = 10, as_cleanup_batch_size = 1\<rparr> (\<lambda>_. Audit_Committed) 20 0 0
       \<lparr>at_records = [sample_record 1 5, sample_record 2 60], at_integrity = [(1, 4)], at_domain = ()\<rparr>
     = (Inr 2 :: unit audit_error + nat, \<lparr>at_records = [sample_record 2 60], at_integrity = [], at_domain = ()\<rparr>)"
    by (subst cleanup_exact [OF a k]) (simp_all add: expired_count_def unexpired_def sample_record_def)
qed

end
