(* ===== verification/Setup_Wizard.thy ===== *)
theory Setup_Wizard
  imports Audit_Trail
begin

text \<open>
  The first-run wizard: \<^verbatim>\<open>server/app/setup_wizard/model.py\<close>, \<^verbatim>\<open>schema.py\<close>, \<^verbatim>\<open>store.py\<close> and \<^verbatim>\<open>service.py\<close>. The table
  \<open>setup_wizard_steps\<close> is the list of its rows; it is the domain of the audited operations of \<^verbatim>\<open>Security_Audit\<close>. Which
  statements of a transition fail is an argument. The audit targets are the values of \<open>uuid5\<close> on the step names.
\<close>

section \<open>Model\<close>

datatype wizard_step =
  STEP_WELCOME | STEP_DEPLOYMENT_OWNER | STEP_STORAGE | STEP_HARDWARE_AND_RECORDER | STEP_LOCALE_AND_TIME | STEP_CAMERA_SOURCES
| STEP_DETECTION_PROFILES | STEP_OWNER_VERIFICATION | STEP_SLACK | STEP_HUMAN_REMOTE_ACCESS

datatype wizard_status = WIZARD_PENDING | WIZARD_UNAVAILABLE | WIZARD_SKIPPED | WIZARD_COMPLETED

record step_definition =
  sd_step :: wizard_step
  sd_skippable :: bool

definition STEP_CATALOG :: "step_definition list" where
  "STEP_CATALOG = map (\<lambda>(s, k). \<lparr>sd_step = s, sd_skippable = k\<rparr>)
     [(STEP_WELCOME, False), (STEP_DEPLOYMENT_OWNER, False), (STEP_STORAGE, False), (STEP_HARDWARE_AND_RECORDER, False),
      (STEP_LOCALE_AND_TIME, False), (STEP_CAMERA_SOURCES, False), (STEP_DETECTION_PROFILES, False),
      (STEP_OWNER_VERIFICATION, True), (STEP_SLACK, True), (STEP_HUMAN_REMOTE_ACCESS, True)]"

definition catalog_steps :: "wizard_step list" where
  "catalog_steps = map sd_step STEP_CATALOG"

definition skippable :: "wizard_step \<Rightarrow> bool" where
  "skippable s \<longleftrightarrow> s \<in> sd_step ` set (filter sd_skippable STEP_CATALOG)"

fun first_index :: "'a \<Rightarrow> 'a list \<Rightarrow> nat" where
  "first_index y [] = 0"
| "first_index y (x # xs) = (if x = y then 0 else Suc (first_index y xs))"

definition step_index :: "wizard_step \<Rightarrow> nat" where
  "step_index s = first_index s catalog_steps"

record wizard_state =
  ws_step :: wizard_step
  ws_status :: wizard_status
  ws_revision :: int

definition wizard_state_ok :: "wizard_state \<Rightarrow> bool" where
  "wizard_state_ok w \<longleftrightarrow> 0 \<le> ws_revision w \<and> (ws_status w = WIZARD_SKIPPED \<longrightarrow> skippable (ws_step w))"

datatype wizard_error = Wizard_Invalid | Wizard_Storage | Unaudited_Wizard_Write

definition wizard_snapshot :: "wizard_state list \<Rightarrow> wizard_error + wizard_state list" where
  "wizard_snapshot states = (if map ws_step states \<noteq> catalog_steps then Inl Wizard_Invalid else Inr states)"

definition current_step :: "wizard_state list \<Rightarrow> wizard_step option" where
  "current_step states = map_option ws_step (find (\<lambda>w. ws_status w = WIZARD_PENDING) states)"

definition deployment_ready :: "wizard_state list \<Rightarrow> bool" where
  "deployment_ready states \<longleftrightarrow>
     list_all (\<lambda>w. ws_status w = WIZARD_COMPLETED) (filter (\<lambda>w. ws_step w \<in> sd_step ` set (filter (Not \<circ> sd_skippable) STEP_CATALOG)) states)"

definition wizard_state_for :: "wizard_state list \<Rightarrow> wizard_step \<Rightarrow> wizard_state" where
  "wizard_state_for states s = states ! step_index s"

section \<open>Store\<close>

definition initial_steps :: "wizard_state list" where
  "initial_steps = map (\<lambda>s. \<lparr>ws_step = s, ws_status = WIZARD_PENDING, ws_revision = 0\<rparr>)
     [STEP_WELCOME, STEP_DEPLOYMENT_OWNER, STEP_STORAGE, STEP_HARDWARE_AND_RECORDER, STEP_LOCALE_AND_TIME, STEP_CAMERA_SOURCES,
      STEP_DETECTION_PROFILES, STEP_OWNER_VERIFICATION, STEP_SLACK, STEP_HUMAN_REMOTE_ACCESS]"

definition snapshot_on :: "wizard_state list \<Rightarrow> wizard_error + wizard_state list" where
  "snapshot_on rows =
     (if \<not> list_all wizard_state_ok rows then Inl Wizard_Invalid
      else if length rows \<noteq> length STEP_CATALOG \<or> length (remdups (map ws_step rows)) \<noteq> length STEP_CATALOG then Inl Wizard_Invalid
      else case those (map (map_of (rev (map (\<lambda>w. (ws_step w, w)) rows))) catalog_steps) of
             None \<Rightarrow> Inl Wizard_Invalid
           | Some states \<Rightarrow> wizard_snapshot states)"

definition wizard_store_snapshot :: "bool \<Rightarrow> wizard_state list \<Rightarrow> wizard_error + wizard_state list" where
  "wizard_store_snapshot readable rows = (if \<not> readable then Inl Wizard_Storage else snapshot_on rows)"

text \<open>\<open>_validate_transition\<close>: whether the transition is allowed.\<close>

definition validate_transition :: "wizard_state list \<Rightarrow> wizard_state \<Rightarrow> wizard_status \<Rightarrow> bool" where
  "validate_transition snapshot current target \<longleftrightarrow>
     (if ws_status current = WIZARD_COMPLETED \<and> target \<noteq> ws_status current then False
      else if target = WIZARD_SKIPPED \<and> \<not> skippable (ws_step current) then False
      else if target = WIZARD_PENDING then ws_status current \<in> {WIZARD_UNAVAILABLE, WIZARD_SKIPPED, WIZARD_PENDING}
      else if ws_status current = WIZARD_UNAVAILABLE \<and> target \<noteq> WIZARD_UNAVAILABLE then False
      else if ws_status current = WIZARD_SKIPPED \<and> target \<noteq> WIZARD_SKIPPED then False
      else list_all (\<lambda>w. ws_status w \<noteq> WIZARD_PENDING) (take (step_index (ws_step current)) snapshot))"

text \<open>The statements of a transition, any of which SQLite may fail.\<close>

datatype wizard_statement = Read_Before | Update_Row | Read_After

definition transition_on :: "(wizard_statement \<Rightarrow> bool) \<Rightarrow> wizard_step \<Rightarrow> wizard_status \<Rightarrow> int \<Rightarrow> wizard_state list
    \<Rightarrow> wizard_error + wizard_state list \<times> wizard_state list" where
  "transition_on works step status expected_revision rows =
     (if expected_revision < 0 then Inl Wizard_Invalid
      else if \<not> works Read_Before then Inl Wizard_Storage
      else case snapshot_on rows of
          Inl e \<Rightarrow> Inl e
        | Inr before \<Rightarrow>
            let current = wizard_state_for before step in
            if ws_revision current \<noteq> expected_revision then Inl Wizard_Invalid
            else if \<not> validate_transition before current status then Inl Wizard_Invalid
            else if status = ws_status current then Inr (before, rows)
            else if \<not> works Update_Row then Inl Wizard_Storage
            else
              let hit = (\<lambda>w. ws_step w = step \<and> ws_revision w = expected_revision);
                  rows' = map (\<lambda>w. if hit w then w\<lparr>ws_status := status, ws_revision := ws_revision w + 1\<rparr> else w) rows
              in if length (filter hit rows) \<noteq> 1 then Inl Wizard_Invalid
                 else if \<not> works Read_After then Inl Wizard_Storage
                 else case snapshot_on rows' of
                     Inl e \<Rightarrow> Inl e
                   | Inr after \<Rightarrow> Inr (after, rows'))"

text \<open>The unaudited wrapper of the fixtures; \<open>commits\<close> says whether \<open>BEGIN\<close> and \<open>COMMIT\<close> succeed.\<close>

definition store_transition :: "bool \<Rightarrow> bool \<Rightarrow> (wizard_statement \<Rightarrow> bool) \<Rightarrow> wizard_step \<Rightarrow> wizard_status \<Rightarrow> int \<Rightarrow> wizard_state list
    \<Rightarrow> (wizard_error, wizard_state list, wizard_state list) outcome" where
  "store_transition unaudited_writes commits works step status expected_revision rows =
     (if \<not> unaudited_writes then (Inl Unaudited_Wizard_Write, rows)
      else if expected_revision < 0 then (Inl Wizard_Invalid, rows)
      else case transition_on works step status expected_revision rows of
          Inl e \<Rightarrow> (Inl e, rows)
        | Inr (after, rows') \<Rightarrow> if commits then (Inr after, rows') else (Inl Wizard_Storage, rows))"

section \<open>Service\<close>

fun WIZARD_STEP_TARGETS :: "wizard_step \<Rightarrow> uuid" where
  "WIZARD_STEP_TARGETS STEP_WELCOME = 327196068473416894372845555116424829235"
| "WIZARD_STEP_TARGETS STEP_DEPLOYMENT_OWNER = 90563619054055117481538894244340911278"
| "WIZARD_STEP_TARGETS STEP_STORAGE = 339459654895403627684616342840426564040"
| "WIZARD_STEP_TARGETS STEP_HARDWARE_AND_RECORDER = 285943839630208254994367407928970675351"
| "WIZARD_STEP_TARGETS STEP_LOCALE_AND_TIME = 270129838774689565620590490667207318731"
| "WIZARD_STEP_TARGETS STEP_CAMERA_SOURCES = 226491296740536236317361558084029117832"
| "WIZARD_STEP_TARGETS STEP_DETECTION_PROFILES = 155104981931203649265577439889242181708"
| "WIZARD_STEP_TARGETS STEP_OWNER_VERIFICATION = 23816175964996296799454982112626019929"
| "WIZARD_STEP_TARGETS STEP_SLACK = 91020619065013114890150197287381025576"
| "WIZARD_STEP_TARGETS STEP_HUMAN_REMOTE_ACCESS = 102744350036141669086088166349523750106"

definition GENERIC_COMPLETABLE_STEPS :: "wizard_step list" where
  "GENERIC_COMPLETABLE_STEPS = [STEP_WELCOME]"

text \<open>A transition request: what the caller asks for and which statements will work.\<close>

record transition_request =
  tr_step :: wizard_step
  tr_status :: wizard_status
  tr_expected_revision :: int
  tr_works :: "wizard_statement \<Rightarrow> bool"

definition generic_transition_on :: "transition_request \<Rightarrow> wizard_state list \<Rightarrow> wizard_error + wizard_state list \<times> wizard_state list" where
  "generic_transition_on q rows =
     (if tr_status q = WIZARD_COMPLETED \<and> tr_step q \<notin> set GENERIC_COMPLETABLE_STEPS then Inl Wizard_Invalid
      else transition_on (tr_works q) (tr_step q) (tr_status q) (tr_expected_revision q) rows)"

definition wizard_transition :: "audit_call \<Rightarrow> transition_request \<Rightarrow> wizard_state list owner_audit
    \<Rightarrow> (wizard_error audit_error, wizard_state list, wizard_state list owner_audit) outcome" where
  "wizard_transition c q s =
     execute_transactional c TRANSITION_SETUP_WIZARD_STEP TARGET_SETUP_WIZARD_STEP (WIZARD_STEP_TARGETS (tr_step q)) [] None
       (generic_transition_on q) s"

definition wizard_service_snapshot :: "authorization \<Rightarrow> bool \<Rightarrow> wizard_state list owner_audit
    \<Rightarrow> wizard_error audit_error + wizard_state list" where
  "wizard_service_snapshot answer readable s =
     (case answer of
        Is_Owner \<Rightarrow> (case wizard_store_snapshot readable (at_domain (oa_db s)) of Inl e \<Rightarrow> Inl (Operation_Failed e) | Inr v \<Rightarrow> Inr v)
      | Owner_Denied c \<Rightarrow> Inl (Owner_Authorization c)
      | Permission_Refused \<Rightarrow> Inl (Owner_Authorization By_Unauthenticated)
      | Authorizer_Raises \<Rightarrow> Inl Authorizer_Failed)"

section \<open>The table\<close>

lemmas catalog_simps = catalog_steps_def STEP_CATALOG_def

lemma distinct_catalog: "distinct catalog_steps"
  by (simp add: catalog_simps)

lemma catalog_all: "s \<in> set catalog_steps"
  by (cases s) (simp_all add: catalog_simps)

lemma catalog_length [simp]: "length catalog_steps = length STEP_CATALOG"
  by (simp add: catalog_steps_def)

lemma first_index_nth: "y \<in> set xs \<Longrightarrow> xs ! first_index y xs = y \<and> first_index y xs < length xs"
  by (induction xs) auto

lemma step_index_nth: "catalog_steps ! step_index s = s" "step_index s < length STEP_CATALOG"
  using first_index_nth [OF catalog_all] by (simp_all add: step_index_def)

text \<open>
  The table as the migration and the service leave it: one row per step of the catalog, in order, no required step skipped
  and only the generically completable steps completed.
\<close>

definition wizard_ok :: "wizard_state list \<Rightarrow> bool" where
  "wizard_ok rows \<longleftrightarrow> map ws_step rows = catalog_steps \<and> list_all wizard_state_ok rows
     \<and> list_all (\<lambda>w. ws_status w = WIZARD_COMPLETED \<longrightarrow> ws_step w \<in> set GENERIC_COMPLETABLE_STEPS) rows"

lemma those_Some [simp]: "those (map Some xs) = Some xs"
  by (induction xs) auto

lemma map_of_own_key:
  assumes "distinct (map f xs)" "x \<in> set xs"
  shows "map_of (rev (map (\<lambda>x. (f x, x)) xs)) (f x) = Some x"
  using assms by (subst map_of_eq_Some_iff) (auto simp: rev_map [symmetric] o_def)

lemma snapshot_on_ok:
  assumes "map ws_step rows = catalog_steps" "list_all wizard_state_ok rows"
  shows "snapshot_on rows = Inr rows"
proof -
  have d: "distinct (map ws_step rows)" and len: "length rows = length STEP_CATALOG"
    using assms(1) distinct_catalog by (simp, metis length_map catalog_length)
  have "map (map_of (rev (map (\<lambda>w. (ws_step w, w)) rows))) catalog_steps = map Some rows"
    unfolding assms(1) [symmetric] using map_of_own_key [OF d] by simp
  with assms d len show ?thesis by (simp add: snapshot_on_def wizard_snapshot_def distinct_remdups_id)
qed

lemma snapshot_wizard_ok: "wizard_ok rows \<Longrightarrow> snapshot_on rows = Inr rows"
  by (simp add: wizard_ok_def snapshot_on_ok)

lemma wizard_state_for_row:
  assumes "wizard_ok rows"
  shows "wizard_state_for rows s \<in> set rows" "ws_step (wizard_state_for rows s) = s" "\<And>w. w \<in> set rows \<Longrightarrow> ws_step w = s \<Longrightarrow> w = wizard_state_for rows s"
proof -
  have m: "map ws_step rows = catalog_steps" using assms by (simp add: wizard_ok_def)
  then have l: "step_index s < length rows" using step_index_nth(2) by (metis length_map catalog_length)
  show in_rows: "wizard_state_for rows s \<in> set rows" using l by (simp add: wizard_state_for_def)
  show st: "ws_step (wizard_state_for rows s) = s" using m l step_index_nth(1) by (metis wizard_state_for_def nth_map)
  show "w = wizard_state_for rows s" if "w \<in> set rows" "ws_step w = s" for w
    using that in_rows st m distinct_catalog by (metis distinct_map inj_onD)
qed

section \<open>Transitions\<close>

text \<open>The row of the step gets its new status and the next revision.\<close>

definition set_step :: "wizard_step \<Rightarrow> wizard_status \<Rightarrow> wizard_state list \<Rightarrow> wizard_state list" where
  "set_step s status rows = map (\<lambda>w. if ws_step w = s then w\<lparr>ws_status := status, ws_revision := ws_revision w + 1\<rparr> else w) rows"

lemma set_step_steps [simp]: "map ws_step (set_step s status rows) = map ws_step rows"
  by (simp add: set_step_def)

lemma set_step_ok:
  assumes "wizard_ok rows" "status = WIZARD_SKIPPED \<longrightarrow> skippable s" "status = WIZARD_COMPLETED \<longrightarrow> s \<in> set GENERIC_COMPLETABLE_STEPS"
  shows "wizard_ok (set_step s status rows)"
proof -
  have "list_all wizard_state_ok (set_step s status rows)"
    using assms by (fastforce simp: wizard_ok_def wizard_state_ok_def list_all_iff set_step_def)
  moreover have "list_all (\<lambda>w. ws_status w = WIZARD_COMPLETED \<longrightarrow> ws_step w \<in> set GENERIC_COMPLETABLE_STEPS) (set_step s status rows)"
    using assms by (fastforce simp: wizard_ok_def list_all_iff set_step_def)
  ultimately show ?thesis using assms(1) unfolding wizard_ok_def by (metis set_step_steps)
qed

lemma filter_eq_once: "distinct xs \<Longrightarrow> x \<in> set xs \<Longrightarrow> length (filter (\<lambda>w. w = x) xs) = 1"
  by (induction xs) (auto simp: filter_empty_conv)

lemma update_hits:
  assumes "wizard_ok rows" "ws_revision (wizard_state_for rows s) = r"
  shows "length (filter (\<lambda>w. ws_step w = s \<and> ws_revision w = r) rows) = 1"
    "map (\<lambda>w. if ws_step w = s \<and> ws_revision w = r then w\<lparr>ws_status := status, ws_revision := ws_revision w + 1\<rparr> else w) rows
       = set_step s status rows"
proof -
  have only: "ws_step w = s \<and> ws_revision w = r \<longleftrightarrow> w = wizard_state_for rows s" if "w \<in> set rows" for w
    using that wizard_state_for_row [OF assms(1)] assms(2) by metis
  have "distinct rows" using assms(1) distinct_catalog by (metis wizard_ok_def distinct_map)
  then have one: "length (filter (\<lambda>w. w = wizard_state_for rows s) rows) = 1"
    using wizard_state_for_row(1) [OF assms(1)] by (rule filter_eq_once)
  have "filter (\<lambda>w. ws_step w = s \<and> ws_revision w = r) rows = filter (\<lambda>w. w = wizard_state_for rows s) rows"
    by (rule filter_cong [OF refl only])
  with one show "length (filter (\<lambda>w. ws_step w = s \<and> ws_revision w = r) rows) = 1" by simp
  show "map (\<lambda>w. if ws_step w = s \<and> ws_revision w = r then w\<lparr>ws_status := status, ws_revision := ws_revision w + 1\<rparr> else w) rows
       = set_step s status rows"
    unfolding set_step_def
  proof (rule map_cong [OF refl])
    fix w assume "w \<in> set rows"
    with wizard_state_for_row(3) [OF assms(1), of w s] assms(2) have "ws_step w = s \<longrightarrow> ws_revision w = r" by auto
    then show "(if ws_step w = s \<and> ws_revision w = r then w\<lparr>ws_status := status, ws_revision := ws_revision w + 1\<rparr> else w)
       = (if ws_step w = s then w\<lparr>ws_status := status, ws_revision := ws_revision w + 1\<rparr> else w)" by simp
  qed
qed

text \<open>What a transition does on such a table when its statements work.\<close>

lemma transition_on_eq:
  assumes ok: "wizard_ok rows"
    and allowed: "status = WIZARD_COMPLETED \<longrightarrow> s \<in> set GENERIC_COMPLETABLE_STEPS"
  shows "transition_on works s status r rows =
    (if r < 0 then Inl Wizard_Invalid else if \<not> works Read_Before then Inl Wizard_Storage
     else if ws_revision (wizard_state_for rows s) \<noteq> r \<or> \<not> validate_transition rows (wizard_state_for rows s) status then Inl Wizard_Invalid
     else if status = ws_status (wizard_state_for rows s) then Inr (rows, rows)
     else if \<not> works Update_Row \<or> \<not> works Read_After then Inl Wizard_Storage
     else Inr (set_step s status rows, set_step s status rows))"
proof -
  have "snapshot_on (set_step s status rows) = Inr (set_step s status rows)"
    if "validate_transition rows (wizard_state_for rows s) status"
  proof (rule snapshot_wizard_ok, rule set_step_ok [OF ok _ allowed])
    show "status = WIZARD_SKIPPED \<longrightarrow> skippable s"
      using that wizard_state_for_row(2) [OF ok] by (auto simp: validate_transition_def split: if_splits)
  qed
  then show ?thesis
    using update_hits [OF ok, of s r] snapshot_wizard_ok [OF ok]
    by (cases "ws_revision (wizard_state_for rows s) = r") (simp_all add: transition_on_def Let_def)
qed

text \<open>How the table evolves: steps and their order stay, revisions never fall, a completed row and a row with the same revision are the same.\<close>

definition step_evolves :: "wizard_state \<Rightarrow> wizard_state \<Rightarrow> bool" where
  "step_evolves w w' \<longleftrightarrow> ws_step w' = ws_step w \<and> ws_revision w \<le> ws_revision w'
     \<and> (ws_status w = WIZARD_COMPLETED \<or> ws_revision w' = ws_revision w \<longrightarrow> w' = w)"

definition wizard_evolves :: "wizard_state list \<Rightarrow> wizard_state list \<Rightarrow> bool" where
  "wizard_evolves rows rows' \<longleftrightarrow> list_all2 step_evolves rows rows'"

lemma step_evolves_trans: "step_evolves a b \<Longrightarrow> step_evolves b d \<Longrightarrow> step_evolves a d"
  by (auto simp: step_evolves_def)

lemma set_step_evolves:
  assumes "wizard_ok rows" "ws_status (wizard_state_for rows s) \<noteq> WIZARD_COMPLETED"
  shows "wizard_evolves rows (set_step s status rows)"
  unfolding wizard_evolves_def set_step_def list_all2_map2
  using wizard_state_for_row(3) [OF assms(1)] assms(2) by (intro list.rel_refl_strong) (auto simp: step_evolves_def)

lemma generic_transition_cases:
  assumes "wizard_ok rows" "generic_transition_on q rows = Inr (v, rows')"
  obtains "rows' = rows" "v = rows"
  | "rows' = set_step (tr_step q) (tr_status q) rows" "v = rows'" "ws_status (wizard_state_for rows (tr_step q)) \<noteq> WIZARD_COMPLETED"
    "tr_status q = WIZARD_SKIPPED \<longrightarrow> skippable (tr_step q)" "tr_status q = WIZARD_COMPLETED \<longrightarrow> tr_step q \<in> set GENERIC_COMPLETABLE_STEPS"
proof -
  have allowed: "tr_status q = WIZARD_COMPLETED \<longrightarrow> tr_step q \<in> set GENERIC_COMPLETABLE_STEPS"
    using assms(2) by (auto simp: generic_transition_on_def split: if_splits)
  have "transition_on (tr_works q) (tr_step q) (tr_status q) (tr_expected_revision q) rows = Inr (v, rows')"
    using assms(2) unfolding generic_transition_on_def by (simp split: if_splits)
  then have "(rows' = rows \<and> v = rows) \<or> (rows' = set_step (tr_step q) (tr_status q) rows \<and> v = rows'
      \<and> tr_status q \<noteq> ws_status (wizard_state_for rows (tr_step q)) \<and> validate_transition rows (wizard_state_for rows (tr_step q)) (tr_status q))"
    unfolding transition_on_eq [OF assms(1) allowed] by (auto split: if_splits)
  moreover have "ws_status (wizard_state_for rows (tr_step q)) \<noteq> WIZARD_COMPLETED \<and> (tr_status q = WIZARD_SKIPPED \<longrightarrow> skippable (tr_step q))"
    if "tr_status q \<noteq> ws_status (wizard_state_for rows (tr_step q))" "validate_transition rows (wizard_state_for rows (tr_step q)) (tr_status q)"
    using that wizard_state_for_row(2) [OF assms(1)] unfolding validate_transition_def by (simp split: if_splits)
  ultimately show thesis using that allowed by blast
qed

interpretation wizard: audited_domain generic_transition_on wizard_ok wizard_evolves
proof
  show "wizard_ok rows'" if "wizard_ok rows" "generic_transition_on q rows = Inr (v, rows')" for rows q v rows'
    using that by (cases rule: generic_transition_cases [OF that]) (simp_all add: set_step_ok)
  show "wizard_evolves rows rows'" if "wizard_ok rows" "generic_transition_on q rows = Inr (v, rows')" for rows q v rows'
    by (cases rule: generic_transition_cases [OF that])
       (use that in \<open>auto simp: set_step_evolves\<close>, simp add: wizard_evolves_def step_evolves_def list.rel_refl)
  show "wizard_evolves rows rows" for rows
    by (simp add: wizard_evolves_def step_evolves_def list.rel_refl)
  show "wizard_evolves a d" if "wizard_evolves a b" "wizard_evolves b d" for a b d
    using that unfolding wizard_evolves_def by (rule list_all2_trans [rotated 1]) (rule step_evolves_trans)
qed

section \<open>Properties\<close>

text \<open>The state after a sequence of audited transition calls.\<close>

definition after_calls :: "(audit_call \<times> transition_request) list \<Rightarrow> wizard_state list owner_audit \<Rightarrow> wizard_state list owner_audit" where
  "after_calls calls s = fold (\<lambda>(c, q) s. snd (wizard_transition c q s)) calls s"

lemma after_calls_kept:
  assumes "wizard_ok (at_domain (oa_db s))"
  shows "wizard_ok (at_domain (oa_db (after_calls calls s)))" "wizard_evolves (at_domain (oa_db s)) (at_domain (oa_db (after_calls calls s)))"
  using wizard.executed_all [OF assms, of "\<lambda>q. TRANSITION_SETUP_WIZARD_STEP" "\<lambda>q. TARGET_SETUP_WIZARD_STEP" "\<lambda>q. WIZARD_STEP_TARGETS (tr_step q)" calls]
  unfolding after_calls_def wizard_transition_def by auto

lemma initial_ok: "wizard_ok initial_steps"
  by (simp add: wizard_ok_def initial_steps_def catalog_simps wizard_state_ok_def)

lemma not_ready:
  assumes "wizard_ok rows"
  shows "\<not> deployment_ready rows"
proof
  assume r: "deployment_ready rows"
  let ?w = "wizard_state_for rows STEP_STORAGE"
  have w: "?w \<in> set rows" "ws_step ?w = STEP_STORAGE" using wizard_state_for_row [OF assms] by auto
  then have "ws_status ?w = WIZARD_COMPLETED" using r by (auto simp: deployment_ready_def list_all_iff STEP_CATALOG_def)
  then show False using assms w by (auto simp: wizard_ok_def list_all_iff GENERIC_COMPLETABLE_STEPS_def)
qed

text \<open>The number of pending steps, and the first of them.\<close>

definition pending_steps :: "wizard_state list \<Rightarrow> nat" where
  "pending_steps rows = length (filter (\<lambda>w. ws_status w = WIZARD_PENDING) rows)"

lemma earlier_not_pending:
  assumes "map ws_step rows = catalog_steps" "find (\<lambda>w. ws_status w = WIZARD_PENDING) rows = Some w"
  shows "list_all (\<lambda>v. ws_status v \<noteq> WIZARD_PENDING) (take (step_index (ws_step w)) rows) \<and> wizard_state_for rows (ws_step w) = w"
proof -
  obtain i where i: "i < length rows" "rows ! i = w" "\<forall>j < i. ws_status (rows ! j) \<noteq> WIZARD_PENDING"
    using assms(2) by (auto simp: find_Some_iff)
  then have "catalog_steps ! i = ws_step w" "i < length catalog_steps" using assms(1) by (metis nth_map, metis length_map)
  then have "step_index (ws_step w) = i"
    using step_index_nth [of "ws_step w"] distinct_catalog by (metis nth_eq_iff_index_eq catalog_length)
  with i show ?thesis by (auto simp: list_all_length wizard_state_for_def)
qed

text \<open>The request that defers the first pending step.\<close>

definition defer_request :: "wizard_state \<Rightarrow> transition_request" where
  "defer_request w = \<lparr>tr_step = ws_step w, tr_status = WIZARD_UNAVAILABLE, tr_expected_revision = ws_revision w, tr_works = (\<lambda>_. True)\<rparr>"

lemma defer_accepted:
  assumes ok: "wizard_ok rows" and w: "find (\<lambda>w. ws_status w = WIZARD_PENDING) rows = Some w"
  shows "generic_transition_on (defer_request w) rows
    = Inr (set_step (ws_step w) WIZARD_UNAVAILABLE rows, set_step (ws_step w) WIZARD_UNAVAILABLE rows)"
proof -
  have e: "list_all (\<lambda>v. ws_status v \<noteq> WIZARD_PENDING) (take (step_index (ws_step w)) rows)" "wizard_state_for rows (ws_step w) = w"
    using earlier_not_pending [OF _ w] ok by (simp_all add: wizard_ok_def)
  have "ws_status w = WIZARD_PENDING" "w \<in> set rows" using w by (auto simp: find_Some_iff)
  moreover have "0 \<le> ws_revision w" using ok \<open>w \<in> set rows\<close> by (auto simp: wizard_ok_def list_all_iff wizard_state_ok_def)
  ultimately show ?thesis using e ok
    by (simp add: generic_transition_on_def defer_request_def transition_on_eq validate_transition_def)
qed

lemma defer_decreases:
  assumes "wizard_ok rows" "find (\<lambda>w. ws_status w = WIZARD_PENDING) rows = Some w"
  shows "pending_steps (set_step (ws_step w) WIZARD_UNAVAILABLE rows) < pending_steps rows"
proof -
  have w: "w \<in> set rows" "ws_status w = WIZARD_PENDING" using assms(2) by (auto simp: find_Some_iff)
  have "filter (\<lambda>v. ws_status v = WIZARD_PENDING) (set_step (ws_step w) WIZARD_UNAVAILABLE rows)
      = filter (\<lambda>v. ws_step v \<noteq> ws_step w) (filter (\<lambda>v. ws_status v = WIZARD_PENDING) rows)"
    unfolding set_step_def by (induction rows) auto
  moreover have "length (filter (\<lambda>v. ws_step v \<noteq> ws_step w) (filter (\<lambda>v. ws_status v = WIZARD_PENDING) rows))
      < length (filter (\<lambda>v. ws_status v = WIZARD_PENDING) rows)"
    by (rule length_filter_less [of w]) (use w in auto)
  ultimately show ?thesis by (simp add: pending_steps_def)
qed

text \<open>Requests run one after another, each of which must be accepted.\<close>

fun accept_all :: "transition_request list \<Rightarrow> wizard_state list \<Rightarrow> wizard_error + wizard_state list" where
  "accept_all [] rows = Inr rows"
| "accept_all (q # qs) rows = (case generic_transition_on q rows of Inl e \<Rightarrow> Inl e | Inr (_, rows') \<Rightarrow> accept_all qs rows')"

lemma never_stuck:
  assumes "wizard_ok rows"
  shows "\<exists>qs rows'. accept_all qs rows = Inr rows' \<and> current_step rows' = None \<and> length qs \<le> pending_steps rows"
  using assms
proof (induction "pending_steps rows" arbitrary: rows rule: less_induct)
  case less
  show ?case
  proof (cases "find (\<lambda>w. ws_status w = WIZARD_PENDING) rows")
    case None
    then show ?thesis by (intro exI [of _ "[]"] exI [of _ rows]) (simp add: current_step_def)
  next
    case (Some w)
    let ?rows = "set_step (ws_step w) WIZARD_UNAVAILABLE rows"
    have ok: "wizard_ok ?rows" by (rule set_step_ok [OF less.prems]) auto
    obtain qs rows' where "accept_all qs ?rows = Inr rows'" "current_step rows' = None" "length qs \<le> pending_steps ?rows"
      using less.hyps [OF defer_decreases [OF less.prems Some] ok] by blast
    then show ?thesis using defer_decreases [OF less.prems Some]
      by (intro exI [of _ "defer_request w # qs"] exI [of _ rows']) (auto simp: defer_accepted [OF less.prems Some])
  qed
qed

text \<open>
  C15. Whatever sequence of wizard transitions is called through the audited service, by whomever and with whatever failures,
  on the table the migration created: the table always reads as a valid snapshot with every step of the catalog, no required
  step is ever skipped, no step but the welcome is ever completed, so the deployment is never reported ready, and between
  any two moments revisions do not fall, completed steps do not change and an unchanged revision means an unchanged step.
\<close>

theorem wizard_history_safe:
  assumes "at_domain (oa_db s) = initial_steps"
  shows "(case wizard_service_snapshot Is_Owner True (after_calls calls s) of
           Inl e \<Rightarrow> False
         | Inr states \<Rightarrow> map ws_step states = catalog_steps \<and> \<not> deployment_ready states
             \<and> list_all (\<lambda>w. (skippable (ws_step w) \<or> ws_status w \<noteq> WIZARD_SKIPPED)
                 \<and> (ws_step w = STEP_WELCOME \<or> ws_status w \<noteq> WIZARD_COMPLETED)) states)
       \<and> wizard_evolves (at_domain (oa_db (after_calls calls s))) (at_domain (oa_db (after_calls later (after_calls calls s))))"
proof -
  have ok: "wizard_ok (at_domain (oa_db (after_calls calls s)))" using after_calls_kept(1) initial_ok assms by simp
  moreover have "wizard_service_snapshot Is_Owner True (after_calls calls s) = Inr (at_domain (oa_db (after_calls calls s)))"
    by (simp add: wizard_service_snapshot_def wizard_store_snapshot_def snapshot_wizard_ok [OF ok])
  ultimately show ?thesis using after_calls_kept(2) [OF ok] not_ready [OF ok]
    by (auto simp: wizard_ok_def list_all_iff wizard_state_ok_def GENERIC_COMPLETABLE_STEPS_def)
qed

definition sample_wizard :: "wizard_state list owner_audit" where
  "sample_wizard = \<lparr>oa_db = \<lparr>at_records = [], at_integrity = [], at_domain = initial_steps\<rparr>, oa_delivery_failed = False, oa_undelivered = 0\<rparr>"

definition welcome_done :: transition_request where
  "welcome_done = \<lparr>tr_step = STEP_WELCOME, tr_status = WIZARD_COMPLETED, tr_expected_revision = 0, tr_works = (\<lambda>_. True)\<rparr>"

lemma welcome_done_accepted: "generic_transition_on welcome_done initial_steps
    = Inr (set_step STEP_WELCOME WIZARD_COMPLETED initial_steps, set_step STEP_WELCOME WIZARD_COMPLETED initial_steps)"
proof -
  have "wizard_state_for initial_steps STEP_WELCOME = \<lparr>ws_step = STEP_WELCOME, ws_status = WIZARD_PENDING, ws_revision = 0\<rparr>" "step_index STEP_WELCOME = 0"
    by (simp_all add: wizard_state_for_def step_index_def initial_steps_def catalog_simps)
  then show ?thesis
    by (simp add: generic_transition_on_def welcome_done_def transition_on_eq [OF initial_ok] validate_transition_def GENERIC_COMPLETABLE_STEPS_def)
qed

theorem wizard_history_safe_witness:
  "at_domain (oa_db sample_wizard) = initial_steps
   \<and> ws_status (hd (at_domain (oa_db (after_calls [(sample_call, welcome_done)] sample_wizard)))) = WIZARD_COMPLETED
   \<and> wizard_evolves (at_domain (oa_db (after_calls [(sample_call, welcome_done)] sample_wizard)))
       (at_domain (oa_db (after_calls [(sample_call, welcome_done)] (after_calls [(sample_call, welcome_done)] sample_wizard))))"
proof (intro conjI)
  show init: "at_domain (oa_db sample_wizard) = initial_steps" by (simp add: sample_wizard_def)
  show "ws_status (hd (at_domain (oa_db (after_calls [(sample_call, welcome_done)] sample_wizard)))) = WIZARD_COMPLETED"
    by (simp add: after_calls_def wizard_transition_def sample_simps sample_wizard_def welcome_done_accepted)
       (simp add: set_step_def initial_steps_def)
  show "wizard_evolves (at_domain (oa_db (after_calls [(sample_call, welcome_done)] sample_wizard)))
       (at_domain (oa_db (after_calls [(sample_call, welcome_done)] (after_calls [(sample_call, welcome_done)] sample_wizard))))"
    using wizard_history_safe [OF init] by blast
qed

text \<open>
  C29. The wizard is never stuck: after any audited calls on the migrated table there is a sequence of transitions, no longer
  than the number of pending steps, that are all accepted one after another and leave no step pending.
\<close>

theorem wizard_never_stuck:
  assumes "at_domain (oa_db s) = initial_steps"
  shows "\<exists>requests rows. accept_all requests (at_domain (oa_db (after_calls calls s))) = Inr rows \<and> current_step rows = None
    \<and> length requests \<le> pending_steps (at_domain (oa_db (after_calls calls s)))"
  using never_stuck after_calls_kept(1) initial_ok assms by simp

theorem wizard_never_stuck_witness:
  "at_domain (oa_db sample_wizard) = initial_steps
   \<and> (\<exists>requests rows. accept_all requests (at_domain (oa_db (after_calls [(sample_call, welcome_done)] sample_wizard))) = Inr rows
        \<and> current_step rows = None)"
proof
  show init: "at_domain (oa_db sample_wizard) = initial_steps" by (simp add: sample_wizard_def)
  show "\<exists>requests rows. accept_all requests (at_domain (oa_db (after_calls [(sample_call, welcome_done)] sample_wizard))) = Inr rows
        \<and> current_step rows = None"
    using wizard_never_stuck [OF init] by blast
qed

text \<open>
  C30. On a table the service left, a transition whose statements work is accepted exactly when its revision is the current one
  and the status change is allowed: back to pending from pending, unavailable or skipped; otherwise, with no earlier step
  pending, from pending, or to the status the step already has, where only an optional step can be skipped and only the welcome
  completed. A repeated request for the current status is therefore refused while an earlier step is pending.
\<close>

theorem transition_accepted_iff:
  assumes "wizard_ok rows" "tr_works q = (\<lambda>_. True)"
  shows "(\<exists>v. generic_transition_on q rows = Inr v) \<longleftrightarrow>
    (let current = wizard_state_for rows (tr_step q) in
     tr_expected_revision q = ws_revision current
     \<and> (if tr_status q = WIZARD_PENDING then ws_status current \<noteq> WIZARD_COMPLETED
        else (ws_status current = WIZARD_PENDING \<or> ws_status current = tr_status q)
          \<and> (tr_status q = WIZARD_UNAVAILABLE \<or> tr_status q = WIZARD_SKIPPED \<and> skippable (tr_step q)
             \<or> tr_status q = WIZARD_COMPLETED \<and> tr_step q = STEP_WELCOME)
          \<and> list_all (\<lambda>w. ws_status w \<noteq> WIZARD_PENDING) (take (step_index (tr_step q)) rows)))"
proof (cases "tr_status q = WIZARD_COMPLETED \<and> tr_step q \<noteq> STEP_WELCOME")
  case True
  then show ?thesis by (simp add: generic_transition_on_def GENERIC_COMPLETABLE_STEPS_def Let_def)
next
  case False
  let ?w = "wizard_state_for rows (tr_step q)"
  have w: "ws_step ?w = tr_step q" "0 \<le> ws_revision ?w"
    using wizard_state_for_row [OF assms(1)] assms(1) by (auto simp: wizard_ok_def list_all_iff wizard_state_ok_def)
  have "generic_transition_on q rows = transition_on (\<lambda>_. True) (tr_step q) (tr_status q) (tr_expected_revision q) rows"
    using False by (auto simp: generic_transition_on_def assms(2) GENERIC_COMPLETABLE_STEPS_def)
  moreover have "tr_status q = WIZARD_COMPLETED \<longrightarrow> tr_step q \<in> set GENERIC_COMPLETABLE_STEPS"
    using False by (simp add: GENERIC_COMPLETABLE_STEPS_def)
  ultimately have "(\<exists>v. generic_transition_on q rows = Inr v) \<longleftrightarrow> ws_revision ?w = tr_expected_revision q \<and> validate_transition rows ?w (tr_status q)"
    using w(2) by (simp add: transition_on_eq [OF assms(1)])
  moreover have "validate_transition rows ?w (tr_status q) \<longleftrightarrow>
     (if tr_status q = WIZARD_PENDING then ws_status ?w \<noteq> WIZARD_COMPLETED
        else (ws_status ?w = WIZARD_PENDING \<or> ws_status ?w = tr_status q)
          \<and> (tr_status q = WIZARD_UNAVAILABLE \<or> tr_status q = WIZARD_SKIPPED \<and> skippable (tr_step q)
             \<or> tr_status q = WIZARD_COMPLETED \<and> tr_step q = STEP_WELCOME)
          \<and> list_all (\<lambda>w. ws_status w \<noteq> WIZARD_PENDING) (take (step_index (tr_step q)) rows))"
    using False w(1) by (cases "tr_status q"; cases "ws_status ?w") (simp_all add: validate_transition_def)
  ultimately show ?thesis by (auto simp: Let_def)
qed

theorem transition_accepted_iff_witness:
  "wizard_ok initial_steps \<and> tr_works welcome_done = (\<lambda>_. True) \<and> (\<exists>v. generic_transition_on welcome_done initial_steps = Inr v)"
proof (intro conjI)
  show ok: "wizard_ok initial_steps" by (rule initial_ok)
  show works: "tr_works welcome_done = (\<lambda>_. True)" by (simp add: welcome_done_def)
  show "\<exists>v. generic_transition_on welcome_done initial_steps = Inr v"
    unfolding transition_accepted_iff [OF ok works]
    by (simp add: welcome_done_def wizard_state_for_def step_index_def initial_steps_def catalog_simps)
qed

end
