(* ===== verification/Invitation_Code.thy ===== *)
theory Invitation_Code
  imports Prelude "HOL-Library.Word"
begin

unbundle bit_operations_syntax

text \<open>
  Invitation codes: \<^verbatim>\<open>server/app/auth/invitation_code.py\<close>. A secret is a list of bytes (\<open>8 word\<close>), Python's
  integers are \<open>int\<close>, and a value that is not a string or not bytes does not exist here. The regular expression
  \<open>_CANONICAL\<close> is a recursive matcher.
\<close>

section \<open>The code\<close>

type_synonym octets = "8 word list"

definition CODE_BYTES :: nat where
  "CODE_BYTES = 20"

definition GROUP :: nat where
  "GROUP = 4"

definition ALPHABET :: string where
  "ALPHABET = ''0123456789ABCDEFGHJKMNPQRSTVWXYZ''"

definition VALUES :: "(char, int) dict" where
  "VALUES = zip ALPHABET (map int [0..<length ALPHABET])"

definition CHARACTERS :: nat where
  "CHARACTERS = CODE_BYTES * 8 div 5"

definition DISPLAY_LENGTH :: nat where
  "DISPLAY_LENGTH = CHARACTERS + CHARACTERS div GROUP - 1"

datatype invitation_error = InvalidInvitationCode | KeyError | OverflowError

text \<open>\<open>int.from_bytes(secret, "big")\<close> and \<open>number.to_bytes(n, "big")\<close>.\<close>

definition from_bytes :: "octets \<Rightarrow> int" where
  "from_bytes bs = foldl (\<lambda>n b. n * 256 + uint b) 0 bs"

definition to_bytes :: "nat \<Rightarrow> int \<Rightarrow> invitation_error + octets" where
  "to_bytes n v =
     (if v < 0 \<or> 256 ^ n \<le> v then Inl OverflowError else Inr (rev (map (\<lambda>i. word_of_int (v div 256 ^ i mod 256)) [0..<n])))"

fun join_dash :: "string list \<Rightarrow> string" where
  "join_dash [] = []"
| "join_dash [x] = x"
| "join_dash (x # y # ys) = x @ CHR ''-'' # join_dash (y # ys)"

definition grouped :: "string \<Rightarrow> string" where
  "grouped plain = join_dash (map (\<lambda>j. take GROUP (drop (GROUP * j) plain)) [0..<CHARACTERS div GROUP])"

definition encode :: "octets \<Rightarrow> string" where
  "encode secret =
     (let v = from_bytes secret;
          characters = map (\<lambda>i. ALPHABET ! nat (drop_bit (5 * i) v AND 31)) [0..<CHARACTERS]
      in grouped (rev characters))"

definition format_invitation_code :: "octets \<Rightarrow> invitation_error + string" where
  "format_invitation_code secret = (if length secret \<noteq> CODE_BYTES then Inl InvalidInvitationCode else Inr (encode secret))"

text \<open>Four characters of the class, and \<open>more\<close> times a hyphen and four characters.\<close>

fun canonical :: "nat \<Rightarrow> string \<Rightarrow> bool" where
  "canonical 0 v \<longleftrightarrow> length v = GROUP \<and> list_all (\<lambda>c. c \<in> set ALPHABET) v"
| "canonical (Suc more) v \<longleftrightarrow> length (take GROUP v) = GROUP \<and> list_all (\<lambda>c. c \<in> set ALPHABET) (take GROUP v)
     \<and> take 1 (drop GROUP v) = ''-'' \<and> canonical more (drop (GROUP + 1) v)"

fun decode_chars :: "string \<Rightarrow> int \<Rightarrow> int option" where
  "decode_chars [] number = Some number"
| "decode_chars (c # cs) number =
     (if c = CHR ''-'' then decode_chars cs number
      else case map_of VALUES c of None \<Rightarrow> None | Some v \<Rightarrow> decode_chars cs (push_bit 5 number OR v))"

definition parse_invitation_code :: "string \<Rightarrow> invitation_error + octets" where
  "parse_invitation_code v =
     (if length v \<noteq> DISPLAY_LENGTH \<or> \<not> canonical (CHARACTERS div GROUP - 1) v then Inl InvalidInvitationCode
      else case decode_chars v 0 of None \<Rightarrow> Inl KeyError | Some number \<Rightarrow> to_bytes CODE_BYTES number)"

definition new_invitation_code :: "(nat \<Rightarrow> octets) \<Rightarrow> invitation_error + octets \<times> string" where
  "new_invitation_code random_bytes =
     (let secret = random_bytes CODE_BYTES
      in if length secret \<noteq> CODE_BYTES then Inl InvalidInvitationCode else Inr (secret, encode secret))"

lemmas code_sizes = CODE_BYTES_def GROUP_def CHARACTERS_def DISPLAY_LENGTH_def

section \<open>Positional notation\<close>

definition number_of :: "int \<Rightarrow> int list \<Rightarrow> int" where
  "number_of b ds = foldl (\<lambda>n d. n * b + d) 0 ds"

definition digits :: "int \<Rightarrow> nat \<Rightarrow> int \<Rightarrow> int list" where
  "digits b k n = rev (map (\<lambda>i. n div b ^ i mod b) [0..<k])"

abbreviation digit_list :: "int \<Rightarrow> int list \<Rightarrow> bool" where
  "digit_list b ds \<equiv> list_all (\<lambda>d. 0 \<le> d \<and> d < b) ds"

lemma number_of_snoc [simp]: "number_of b (ds @ [d]) = number_of b ds * b + d" "number_of b [] = 0"
  by (simp_all add: number_of_def)

lemma digits_Suc: "0 < b \<Longrightarrow> digits b (Suc k) n = digits b k (n div b) @ [n mod b]"
proof -
  assume b: "0 < b"
  have "map (\<lambda>i. n div b ^ i mod b) [0..<Suc k] = n mod b # map (\<lambda>i. n div b div b ^ i mod b) [0..<k]"
    unfolding map_upt_Suc using b by (simp add: zdiv_zmult2_eq)
  then show ?thesis by (simp add: digits_def del: upt_Suc)
qed

lemma digits_0 [simp]: "digits b 0 n = []" "length (digits b k n) = k"
  by (simp_all add: digits_def)

lemma number_of_digits: "\<lbrakk>0 < b; 0 \<le> n; n < b ^ k\<rbrakk> \<Longrightarrow> number_of b (digits b k n) = n"
proof (induction k arbitrary: n)
  case (Suc k)
  have "b * (n div b) + n mod b = n" by (rule mult_div_mod_eq)
  moreover have "0 \<le> n mod b" using Suc.prems(1) by simp
  ultimately have "b * (n div b) < b * b ^ k" using Suc.prems(3) by (simp only: power_Suc)
  then have "n div b < b ^ k" using Suc.prems(1) by simp
  moreover have "0 \<le> n div b" using Suc.prems by (simp add: pos_imp_zdiv_nonneg_iff)
  ultimately show ?case using Suc by (simp add: digits_Suc)
qed simp

lemma digits_number_of:
  "\<lbrakk>0 < b; digit_list b ds\<rbrakk> \<Longrightarrow> digits b (length ds) (number_of b ds) = ds \<and> 0 \<le> number_of b ds \<and> number_of b ds < b ^ length ds"
proof (induction ds rule: rev_induct)
  case (snoc d ds)
  then have ih: "digits b (length ds) (number_of b ds) = ds" "0 \<le> number_of b ds" "number_of b ds < b ^ length ds" by auto
  have d: "0 \<le> d" "d < b" using snoc.prems by auto
  then have "(number_of b ds * b + d) div b = number_of b ds" "(number_of b ds * b + d) mod b = d" using snoc.prems(1) by auto
  moreover have "number_of b ds * b + d < b ^ length ds * b"
  proof -
    have "(number_of b ds + 1) * b \<le> b ^ length ds * b" using ih(3) snoc.prems(1) by (intro mult_right_mono) auto
    then show ?thesis using d by (simp add: algebra_simps)
  qed
  ultimately show ?case using ih d snoc.prems(1) by (simp add: digits_Suc mult.commute)
qed simp

lemma digits_range: "0 < b \<Longrightarrow> digit_list b (digits b k n)"
  by (simp add: digits_def list_all_iff)

section \<open>Bytes\<close>

lemma from_bytes_number: "from_bytes bs = number_of 256 (map uint bs)"
  by (simp add: from_bytes_def number_of_def foldl_map)

lemma to_bytes_digits: "0 \<le> v \<Longrightarrow> v < 256 ^ n \<Longrightarrow> to_bytes n v = Inr (map word_of_int (digits 256 n v))"
  by (simp add: to_bytes_def digits_def rev_map)

lemma octet_range: "digit_list 256 (map uint (bs :: octets))"
proof -
  have "uint b < 256" for b :: "8 word" using uint_lt2p [of b] by simp
  then show ?thesis by (simp add: list_all_iff)
qed

lemma to_from_bytes: "to_bytes (length bs) (from_bytes bs) = Inr bs"
  using digits_number_of [OF _ octet_range, of bs] by (simp add: from_bytes_number to_bytes_digits comp_def)

lemma from_bytes_range: "0 \<le> from_bytes bs" "from_bytes bs < 256 ^ length bs"
  using digits_number_of [OF _ octet_range, of bs] by (simp_all add: from_bytes_number)

lemma from_to_bytes: "to_bytes n v = Inr bs \<Longrightarrow> length bs = n \<and> from_bytes bs = v"
proof -
  assume t: "to_bytes n v = Inr bs"
  then have v: "0 \<le> v" "v < 256 ^ n" by (auto simp: to_bytes_def split: if_splits)
  then have bs: "bs = map word_of_int (digits 256 n v)" using t by (simp add: to_bytes_digits)
  have "uint (word_of_int d :: 8 word) = d" if "0 \<le> d" "d < 256" for d :: int
    using that by (simp add: uint_word_of_int)
  then have "map uint bs = digits 256 n v" using digits_range [of 256 n v] unfolding bs
    by (simp add: list_all_iff map_idI comp_def)
  then show ?thesis using number_of_digits [OF _ v] bs by (simp add: from_bytes_number)
qed

section \<open>Characters\<close>

definition char_of_digit :: "int \<Rightarrow> char" where
  "char_of_digit d = ALPHABET ! nat d"

lemma alphabet_facts: "length ALPHABET = 32" "distinct ALPHABET" "CHR ''-'' \<notin> set ALPHABET"
  by (simp_all add: ALPHABET_def)

lemma values_char: "0 \<le> d \<Longrightarrow> d < 32 \<Longrightarrow> map_of VALUES (char_of_digit d) = Some d"
  using map_of_zip_nth [of ALPHABET "map int [0..<length ALPHABET]" "nat d"] alphabet_facts
  by (simp add: VALUES_def char_of_digit_def)

lemma char_of_digit_class: "0 \<le> d \<Longrightarrow> d < 32 \<Longrightarrow> char_of_digit d \<in> set ALPHABET"
  using alphabet_facts(1) by (simp add: char_of_digit_def)

lemma class_char: "c \<in> set ALPHABET \<Longrightarrow> \<exists>d. 0 \<le> d \<and> d < 32 \<and> c = char_of_digit d"
proof -
  assume "c \<in> set ALPHABET"
  then obtain i where "i < 32" "c = ALPHABET ! i" using alphabet_facts(1) by (auto simp: in_set_conv_nth)
  then have "0 \<le> int i \<and> int i < 32 \<and> c = char_of_digit (int i)" by (simp add: char_of_digit_def)
  then show ?thesis by blast
qed

lemma class_string: "list_all (\<lambda>c. c \<in> set ALPHABET) cs \<Longrightarrow> \<exists>ds. digit_list 32 ds \<and> cs = map char_of_digit ds"
proof (induction cs)
  case (Cons c cs)
  then obtain d ds where "0 \<le> d" "d < 32" "c = char_of_digit d" "digit_list 32 ds" "cs = map char_of_digit ds"
    using class_char [of c] by auto
  then show ?case by (intro exI [of _ "d # ds"]) simp
qed simp

lemma shift_in: "0 \<le> d \<Longrightarrow> d < 32 \<Longrightarrow> push_bit 5 n OR d = n * 32 + (d :: int)"
proof -
  assume d: "0 \<le> d" "d < 32"
  then have t: "take_bit 5 d = d" by (simp add: take_bit_eq_mod)
  have "push_bit 5 n AND d = 0"
    by (rule bit_eqI) (metis (no_types) bit_0_eq bit_and_iff bit_push_bit_iff bit_take_bit_iff bot_apply bot_bool_def linorder_not_le t)
  then have "push_bit 5 n OR d = push_bit 5 n + d" by (metis add.right_neutral plus_and_or add.commute)
  then show ?thesis by (simp add: push_bit_eq_mult)
qed

lemma decode_chars_dash: "decode_chars v n = decode_chars (filter (\<lambda>c. c \<noteq> CHR ''-'') v) n"
  by (induction v n rule: decode_chars.induct) (simp_all split: option.splits)

lemma decode_chars_digits:
  "digit_list 32 ds \<Longrightarrow> decode_chars (map char_of_digit ds) n = Some (foldl (\<lambda>n d. n * 32 + d) n ds)"
proof (induction ds arbitrary: n)
  case (Cons d ds)
  then have "char_of_digit d \<noteq> CHR ''-''" using char_of_digit_class [of d] alphabet_facts(3) by auto
  then show ?case using Cons by (simp add: values_char shift_in)
qed simp

lemma encode_digits: "encode s = grouped (map char_of_digit (digits 32 CHARACTERS (from_bytes s)))"
proof -
  have "drop_bit (5 * i) v AND 31 = v div 32 ^ i mod 32" for v :: int and i
  proof -
    have "drop_bit (5 * i) v AND 31 = take_bit 5 (drop_bit (5 * i) v)" by (simp add: take_bit_eq_mask mask_eq_exp_minus_1)
    then show ?thesis by (simp add: take_bit_eq_mod drop_bit_eq_div power_mult)
  qed
  then show ?thesis by (simp add: encode_def Let_def digits_def rev_map char_of_digit_def comp_def)
qed

section \<open>Groups\<close>

definition chunk_ok :: "string \<Rightarrow> bool" where
  "chunk_ok x \<longleftrightarrow> length x = 4 \<and> list_all (\<lambda>c. c \<in> set ALPHABET) x"

lemma chunk_split: "length plain = 4 * n \<Longrightarrow> \<exists>cs. plain = concat cs \<and> length cs = n \<and> (\<forall>x \<in> set cs. length x = 4)"
proof (induction n arbitrary: plain)
  case (Suc n)
  obtain cs where cs: "drop 4 plain = concat cs" "length cs = n" "\<forall>x \<in> set cs. length x = 4"
    using Suc.IH [of "drop 4 plain"] Suc.prems by auto
  then have "plain = concat (take 4 plain # cs)" by (metis append_take_drop_id concat.simps(2))
  moreover have "length (take 4 plain) = 4" using Suc.prems by simp
  ultimately show ?case using cs(2,3) by (intro exI [of _ "take 4 plain # cs"]) simp
qed simp

lemma chunk_index: "\<forall>x \<in> set cs. length x = 4 \<Longrightarrow> map (\<lambda>j. take 4 (drop (4 * j) (concat cs))) [0..<length cs] = cs"
proof (induction cs)
  case (Cons x cs)
  have "map (\<lambda>j. take 4 (drop (4 * j) (concat (x # cs)))) [0..<Suc (length cs)]
      = take 4 (concat (x # cs)) # map (\<lambda>j. take 4 (drop (4 * j) (concat cs))) [0..<length cs]"
    unfolding map_upt_Suc using Cons.prems by simp
  then show ?case using Cons by simp
qed simp

lemma grouped_concat: "\<lbrakk>length cs = 8; \<forall>x \<in> set cs. length x = 4\<rbrakk> \<Longrightarrow> grouped (concat cs) = join_dash cs"
  using chunk_index [of cs] by (simp add: grouped_def code_sizes)

lemma join_dash_length: "\<lbrakk>cs \<noteq> []; \<forall>x \<in> set cs. length x = 4\<rbrakk> \<Longrightarrow> Suc (length (join_dash cs)) = 5 * length cs"
  by (induction cs rule: join_dash.induct) auto

lemma join_dash_plain: "\<forall>x \<in> set cs. chunk_ok x \<Longrightarrow> filter (\<lambda>c. c \<noteq> CHR ''-'') (join_dash cs) = concat cs"
proof (induction cs rule: join_dash.induct)
  have drop_none: "filter (\<lambda>c. c \<noteq> CHR ''-'') x = x" if "chunk_ok x" for x
    using that alphabet_facts(3) by (auto simp: chunk_ok_def list_all_iff filter_id_conv)
  case (2 x)
  then show ?case using drop_none by simp
next
  have drop_none: "filter (\<lambda>c. c \<noteq> CHR ''-'') x = x" if "chunk_ok x" for x
    using that alphabet_facts(3) by (auto simp: chunk_ok_def list_all_iff filter_id_conv)
  case (3 x y ys)
  then show ?case using drop_none by simp
qed simp

lemma canonical_join: "canonical n v \<longleftrightarrow> (\<exists>cs. length cs = Suc n \<and> (\<forall>x \<in> set cs. chunk_ok x) \<and> v = join_dash cs)"
proof (induction n arbitrary: v)
  case 0
  have "(\<exists>cs. length cs = Suc 0 \<and> (\<forall>x \<in> set cs. chunk_ok x) \<and> v = join_dash cs) \<longleftrightarrow> chunk_ok v"
    by (auto simp: length_Suc_conv intro: exI [of _ "[v]"])
  then show ?case by (simp add: chunk_ok_def GROUP_def)
next
  case (Suc n)
  show ?case
  proof
    assume c: "canonical (Suc n) v"
    then obtain cs where cs: "length cs = Suc n" "\<forall>x \<in> set cs. chunk_ok x" "drop 5 v = join_dash cs"
      using Suc.IH [of "drop 5 v"] by (auto simp: GROUP_def)
    have ok: "chunk_ok (take 4 v)" using c by (simp add: chunk_ok_def GROUP_def)
    have "v = take 4 v @ take 1 (drop 4 v) @ drop 1 (drop 4 v)" by (simp only: append_take_drop_id)
    also have "take 1 (drop 4 v) = ''-''" using c by (simp add: GROUP_def)
    also have "drop 1 (drop 4 v) = join_dash cs" using cs(3) by simp
    finally have "v = take 4 v @ CHR ''-'' # join_dash cs" by simp
    moreover have "join_dash (take 4 v # cs) = take 4 v @ CHR ''-'' # join_dash cs" using cs(1) by (cases cs) simp_all
    ultimately have "length (take 4 v # cs) = Suc (Suc n) \<and> (\<forall>x \<in> set (take 4 v # cs). chunk_ok x) \<and> v = join_dash (take 4 v # cs)"
      using ok cs by simp
    then show "\<exists>cs. length cs = Suc (Suc n) \<and> (\<forall>x \<in> set cs. chunk_ok x) \<and> v = join_dash cs" by blast
  next
    assume "\<exists>cs. length cs = Suc (Suc n) \<and> (\<forall>x \<in> set cs. chunk_ok x) \<and> v = join_dash cs"
    then obtain x y ys where ys: "length (y # ys) = Suc n" "chunk_ok x" "\<forall>z \<in> set (y # ys). chunk_ok z" "v = join_dash (x # y # ys)"
      by (auto simp: length_Suc_conv)
    have "canonical n (join_dash (y # ys))" using Suc.IH [of "join_dash (y # ys)"] ys(1,3) by blast
    then show "canonical (Suc n) v" using ys(2,4) by (simp add: chunk_ok_def GROUP_def)
  qed
qed

section \<open>Round trips\<close>

lemma code_space: "(256 :: int) ^ 20 = 32 ^ 32"
  by simp

lemma encode_parts:
  assumes "length s = CODE_BYTES"
  obtains cs ds where "length cs = 8" "\<forall>x \<in> set cs. chunk_ok x" "encode s = join_dash cs" "concat cs = map char_of_digit ds"
    "digit_list 32 ds" "number_of 32 ds = from_bytes s"
proof -
  let ?ds = "digits 32 32 (from_bytes s)"
  have len: "length (map char_of_digit ?ds) = 4 * 8" by simp
  obtain cs where cs: "map char_of_digit ?ds = concat cs" "length cs = 8" "\<forall>x \<in> set cs. length x = 4"
    using chunk_split [OF len] by blast
  have range: "digit_list 32 ?ds" by (rule digits_range) simp
  have cls: "\<forall>c \<in> set (concat cs). c \<in> set ALPHABET"
    unfolding cs(1) [symmetric] using range char_of_digit_class by (auto simp: list_all_iff)
  then have ok: "\<forall>x \<in> set cs. chunk_ok x" using cs(3) by (auto simp: chunk_ok_def list_all_iff)
  have "encode s = join_dash cs" unfolding encode_digits using grouped_concat [OF cs(2,3)] cs(1) by (simp add: code_sizes)
  moreover have "number_of 32 ?ds = from_bytes s"
    using number_of_digits [of 32 "from_bytes s" 32] from_bytes_range [of s] assms code_space by (simp add: code_sizes)
  ultimately show ?thesis using that [OF cs(2) ok _ cs(1) [symmetric] range] by blast
qed

lemma decode_join:
  assumes "\<forall>x \<in> set cs. chunk_ok x" "concat cs = map char_of_digit ds" "digit_list 32 ds"
  shows "decode_chars (join_dash cs) 0 = Some (number_of 32 ds)"
  using decode_chars_dash [of "join_dash cs" 0] join_dash_plain [OF assms(1)] decode_chars_digits [OF assms(3), of 0]
  by (simp add: assms(2) number_of_def)

lemma parse_encode: "length s = CODE_BYTES \<Longrightarrow> parse_invitation_code (encode s) = Inr s"
proof -
  assume len: "length s = CODE_BYTES"
  obtain cs ds where p: "length cs = 8" "\<forall>x \<in> set cs. chunk_ok x" "encode s = join_dash cs" "concat cs = map char_of_digit ds"
    "digit_list 32 ds" "number_of 32 ds = from_bytes s" by (rule encode_parts [OF len])
  have "length (encode s) = DISPLAY_LENGTH" using join_dash_length [of cs] p(1,2,3) by (cases cs) (auto simp: chunk_ok_def code_sizes)
  moreover have "canonical (CHARACTERS div GROUP - 1) (encode s)"
    using canonical_join [of 7 "encode s"] p(1,2,3) by (auto simp: code_sizes)
  moreover have "decode_chars (encode s) 0 = Some (from_bytes s)" using decode_join [OF p(2,4,5)] p(3,6) by simp
  ultimately show ?thesis using to_from_bytes [of s] len by (simp add: parse_invitation_code_def)
qed

lemma encode_parse: "parse_invitation_code v = Inr s \<Longrightarrow> length s = CODE_BYTES \<and> encode s = v"
proof -
  assume p: "parse_invitation_code v = Inr s"
  then have "canonical 7 v" by (auto simp: parse_invitation_code_def code_sizes split: if_splits)
  then obtain cs where cs: "length cs = 8" "\<forall>x \<in> set cs. chunk_ok x" "v = join_dash cs" by (auto simp: canonical_join)
  have "list_all (\<lambda>c. c \<in> set ALPHABET) (concat cs)" using cs(2) by (auto simp: chunk_ok_def list_all_iff)
  then obtain ds where ds: "digit_list 32 ds" "concat cs = map char_of_digit ds" using class_string by blast
  have "decode_chars v 0 = Some (number_of 32 ds)" using decode_join [OF cs(2) ds(2,1)] cs(3) by simp
  then have "to_bytes CODE_BYTES (number_of 32 ds) = Inr s" using p by (auto simp: parse_invitation_code_def split: if_splits)
  then have s: "length s = CODE_BYTES" "from_bytes s = number_of 32 ds" using from_to_bytes by blast+
  have four: "\<forall>x \<in> set cs. length x = 4" using cs(2) by (simp add: chunk_ok_def)
  have "sum_list (map length cs) = sum_list (map (\<lambda>_. 4) cs)" using four by (intro arg_cong [where f = sum_list] map_cong) simp_all
  then have "length (map char_of_digit ds) = 32" unfolding ds(2) [symmetric] using cs(1) by (simp add: length_concat sum_list_triv)
  then have "digits 32 32 (number_of 32 ds) = ds" using digits_number_of [of 32 ds] ds(1) by simp
  then have "encode s = grouped (concat cs)" unfolding encode_digits s(2) by (simp add: code_sizes ds(2))
  then show ?thesis using s(1) grouped_concat [OF cs(1) four] cs(3) by simp
qed

text \<open>
  C24. Invitation codes round trip in both directions: a displayed code parses back to the secret it was made from, and
  a string that parses is the display form of the secret it parses to. So every accepted string is the one canonical
  form of its 160-bit secret, and no two strings are accepted for the same secret.
\<close>

theorem invitation_code_round_trip:
  "format_invitation_code s = Inr v \<longleftrightarrow> parse_invitation_code v = Inr s"
  using parse_encode [of s] encode_parse [of v s] by (auto simp: format_invitation_code_def)

text \<open>
  C40. A presented string is either refused as \<open>InvalidInvitationCode\<close> or gives exactly \<open>CODE_BYTES\<close> bytes: the
  character table is never missed and the number always fits.
\<close>

theorem parse_total_and_typed:
  "case parse_invitation_code v of Inl e \<Rightarrow> e = InvalidInvitationCode | Inr s \<Rightarrow> length s = CODE_BYTES \<and> length v = DISPLAY_LENGTH"
proof (cases "length v = DISPLAY_LENGTH \<and> canonical (CHARACTERS div GROUP - 1) v")
  case True
  then obtain cs where cs: "length cs = 8" "\<forall>x \<in> set cs. chunk_ok x" "v = join_dash cs"
    by (auto simp: canonical_join code_sizes)
  have "list_all (\<lambda>c. c \<in> set ALPHABET) (concat cs)" using cs(2) by (auto simp: chunk_ok_def list_all_iff)
  then obtain ds where ds: "digit_list 32 ds" "concat cs = map char_of_digit ds" using class_string by blast
  have "sum_list (map length cs) = sum_list (map (\<lambda>_. 4) cs)"
    using cs(2) by (intro arg_cong [where f = sum_list] map_cong) (simp_all add: chunk_ok_def)
  then have "length (map char_of_digit ds) = 32" unfolding ds(2) [symmetric] using cs(1) by (simp add: length_concat sum_list_triv)
  then have "0 \<le> number_of 32 ds" "number_of 32 ds < 256 ^ 20"
    using digits_number_of [of 32 ds] ds(1) code_space by simp_all
  moreover have "decode_chars v 0 = Some (number_of 32 ds)" using decode_join [OF cs(2) ds(2,1)] cs(3) by simp
  ultimately show ?thesis using True by (simp add: parse_invitation_code_def to_bytes_digits code_sizes)
qed (auto simp: parse_invitation_code_def)

end
