(* ===== verification/Access_Model.thy ===== *)
theory Access_Model
  imports Invitation_Code
begin

text \<open>
  The tables and the clock rules of human access: \<^verbatim>\<open>server/app/auth/schema.py\<close>, \<^verbatim>\<open>server/app/auth/model.py\<close> and
  \<^verbatim>\<open>server/app/auth/boot_clock.py\<close>. A table is the list of its rows in insertion order, a time is its number of
  microseconds since the epoch, a UUID is a number. \<open>hashlib.sha256\<close> and the keyed binding of a proxy identity are
  parameters (\<open>access_config\<close>); nothing is assumed of them.
\<close>

section \<open>Rows\<close>

datatype principal_role = Role_Owner | Role_Invited_User

datatype principal_status = Status_Invited | Status_Active | Status_Revoked

datatype permission = Live_View | Recordings_View

record access_principal =
  pr_id :: uuid
  pr_external_identity :: "string option"
  pr_display_name :: string
  pr_role :: principal_role
  pr_status :: principal_status
  pr_revision :: nat
  pr_created_at :: int
  pr_revoked_at :: "int option"

record access_credential =
  cr_id :: octets
  cr_principal :: uuid
  cr_public_key :: octets
  cr_algorithm :: int
  cr_sign_count :: int
  cr_enrolled_at :: int
  cr_revoked_at :: "int option"
  cr_backup_eligible :: bool
  cr_backup_state :: bool
  cr_inconsistent_at :: "int option"
  cr_label :: "string option"
  cr_last_used_at :: "int option"
  cr_handle :: uuid

record access_invitation =
  iv_id :: uuid
  iv_secret_digest :: octets
  iv_principal :: uuid
  iv_revision :: nat
  iv_generation :: nat
  iv_issued_at :: int
  iv_expires_at :: int
  iv_redeemed_at :: "int option"
  iv_revoked_at :: "int option"
  iv_attempt_count :: nat
  iv_lookup_key :: "octets option"
  iv_boot_id :: "string option"
  iv_boottime :: "int option"

record access_session =
  se_id :: uuid
  se_token_digest :: octets
  se_principal :: uuid
  se_credential :: octets
  se_revision :: nat
  se_generation :: nat
  se_established_at :: int
  se_last_seen_at :: int
  se_idle_lifetime :: int
  se_idle_expires_at :: int
  se_absolute_expires_at :: int
  se_invalidated_at :: "int option"
  se_verified_at :: "int option"
  se_binding :: "octets option"
  se_mismatch_audited_at :: "int option"
  se_mismatch_suppressed :: nat
  se_verified_boot_id :: "string option"
  se_verified_boottime :: "int option"

datatype ceremony = Registration | Authentication | Step_Up

record access_challenge =
  ch_digest :: octets
  ch_ceremony :: ceremony
  ch_invitation :: "uuid option"
  ch_session :: "uuid option"
  ch_issued_at :: int
  ch_expires_at :: int

datatype actor_category = Actor_Owner | Actor_Invited_User | Actor_System

datatype access_action =
  Redeem_Invitation | Authenticate | Verify_Step_Up | Sign_Out | Detect_Identity_Mismatch
| Mark_Credential_Inconsistent | Detect_Sign_Count_Regression

type_synonym access_audit = "actor_category \<times> access_action \<times> uuid"

record access_db =
  ad_generation :: nat
  ad_principals :: "access_principal list"
  ad_grants :: "(uuid \<times> permission) list"
  ad_credentials :: "access_credential list"
  ad_invitations :: "access_invitation list"
  ad_sessions :: "access_session list"
  ad_challenges :: "access_challenge list"
  ad_audit :: "access_audit list"

definition access_db_init :: access_db where
  "access_db_init = \<lparr>ad_generation = 0, ad_principals = [], ad_grants = [], ad_credentials = [], ad_invitations = [],
     ad_sessions = [], ad_challenges = [], ad_audit = []\<rparr>"

datatype access_error =
  Access_Invalid | Access_Storage | Step_Up_Required | Owner_Already_Configured | Owner_Not_Configured
| Invitation_Clock_Unavailable | Access_Limit_Reached | Device_Bound_Required | Human_Access_Closed

text \<open>Every error but the storage failure and the closed gate is an \<open>AccessValidationError\<close>.\<close>

definition is_validation_error :: "access_error \<Rightarrow> bool" where
  "is_validation_error e \<longleftrightarrow> e \<noteq> Access_Storage \<and> e \<noteq> Human_Access_Closed"

definition IDLE_LIFETIME :: int where "IDLE_LIFETIME = 30 * 60 * 1000000"
definition ABSOLUTE_LIFETIME :: int where "ABSOLUTE_LIFETIME = 12 * 3600 * 1000000"
definition OWNER_STEP_UP_FRESHNESS :: int where "OWNER_STEP_UP_FRESHNESS = 5 * 60 * 1000000"
definition MAX_CHALLENGE_LIFETIME :: int where "MAX_CHALLENGE_LIFETIME = 10 * 60 * 1000000"
definition MAX_PENDING_CHALLENGES :: nat where "MAX_PENDING_CHALLENGES = 1024"
definition MAX_REDEMPTION_ATTEMPTS :: nat where "MAX_REDEMPTION_ATTEMPTS = 5"
definition BINDING_MISMATCH_AUDIT_INTERVAL :: int where "BINDING_MISMATCH_AUDIT_INTERVAL = 10 * 60 * 1000000"
definition MAX_PRINCIPALS :: nat where "MAX_PRINCIPALS = 64"
definition MAX_PENDING_INVITATIONS :: nat where "MAX_PENDING_INVITATIONS = 1"
definition MAX_INVITATION_LIFETIME :: int where "MAX_INVITATION_LIFETIME = 7 * 86400 * 1000000"

section \<open>Clocks\<close>

record boot_instant =
  bi_boot_id :: string
  bi_boottime :: int

definition hex_digits :: string where
  "hex_digits = ''0123456789abcdef''"

text \<open>The groups of 8, 4, 4, 4 and 12 digits of the regular expression \<open>_BOOT_ID\<close>.\<close>

fun hex_groups :: "nat list \<Rightarrow> string \<Rightarrow> bool" where
  "hex_groups [] v \<longleftrightarrow> False"
| "hex_groups [n] v \<longleftrightarrow> length v = n \<and> list_all (\<lambda>c. c \<in> set hex_digits) v"
| "hex_groups (n # m # ms) v \<longleftrightarrow> length (take n v) = n \<and> list_all (\<lambda>c. c \<in> set hex_digits) (take n v)
     \<and> take 1 (drop n v) = ''-'' \<and> hex_groups (m # ms) (drop (n + 1) v)"

definition valid_boot_id :: "string \<Rightarrow> bool" where
  "valid_boot_id v = hex_groups [8, 4, 4, 4, 12] v"

definition boot_instant_ok :: "boot_instant \<Rightarrow> bool" where
  "boot_instant_ok b \<longleftrightarrow> valid_boot_id (bi_boot_id b) \<and> 0 \<le> bi_boottime b"

definition ROLLBACK_TOLERANCE :: int where "ROLLBACK_TOLERANCE = 30 * 1000000"
definition STEP_UP_TOLERANCE :: int where "STEP_UP_TOLERANCE = 1000000"

definition invitation_clock_valid :: "int \<Rightarrow> int \<Rightarrow> string option \<Rightarrow> int option \<Rightarrow> int \<Rightarrow> boot_instant option \<Rightarrow> int \<Rightarrow> bool" where
  "invitation_clock_valid issued expires boot_id boottime now_us now max_lifetime =
     (case (now, boot_id, boottime) of
        (Some b, Some i, Some m) \<Rightarrow>
          valid_boot_id i \<and> 0 \<le> m
          \<and> (let lifetime = expires - issued in
             0 < lifetime \<and> lifetime \<le> max_lifetime \<and> issued \<le> now_us \<and> now_us < expires
             \<and> (bi_boot_id b \<noteq> i
                \<or> (let elapsed = bi_boottime b - m in
                   0 \<le> elapsed \<and> elapsed < lifetime \<and> elapsed - ROLLBACK_TOLERANCE \<le> now_us - issued)))
      | _ \<Rightarrow> False)"

definition step_up_fresh :: "int option \<Rightarrow> string option \<Rightarrow> int option \<Rightarrow> int \<Rightarrow> boot_instant option \<Rightarrow> int \<Rightarrow> bool" where
  "step_up_fresh verified boot_id boottime now_us now freshness =
     (case (verified, boottime, now, boot_id) of
        (Some v, Some m, Some b, Some i) \<Rightarrow>
          0 < freshness \<and> 0 \<le> m \<and> valid_boot_id i \<and> bi_boot_id b = i
          \<and> (let wall = now_us - v; monotonic = bi_boottime b - m in
             0 \<le> wall \<and> wall < freshness \<and> 0 \<le> monotonic \<and> monotonic < freshness
             \<and> monotonic - STEP_UP_TOLERANCE \<le> wall)
      | _ \<Rightarrow> False)"

section \<open>Secrets and identities\<close>

record access_config =
  ac_sha256 :: "octets \<Rightarrow> octets"
  ac_bind :: "(string \<Rightarrow> octets) option"
  ac_csrf_token :: "uuid \<Rightarrow> string"
  ac_invitation_lifetime :: int
  ac_audit :: bool

text \<open>
  \<open>ac_bind\<close> is the HMAC of the session binding key over a canonical identity, absent when no key is configured;
  \<open>ac_csrf_token\<close> is the token that key gives a session, \<open>ac_audit\<close> says whether an audit store is configured.
\<close>

definition LOOKUP_DOMAIN :: octets where
  "LOOKUP_DOMAIN = map (\<lambda>c. of_nat (of_char c)) ''serversentinel/invitation-lookup/v1'' @ [0]"

definition secret_ok :: "octets \<Rightarrow> bool" where
  "secret_ok s \<longleftrightarrow> 16 \<le> length s \<and> length s \<le> 4096"

definition secret_digest :: "access_config \<Rightarrow> octets \<Rightarrow> octets" where
  "secret_digest cfg s = ac_sha256 cfg s"

definition lookup_key :: "access_config \<Rightarrow> octets \<Rightarrow> octets" where
  "lookup_key cfg s = take 16 (ac_sha256 cfg (LOOKUP_DOMAIN @ s))"

text \<open>A malformed token is replaced by a value that matches no stored digest.\<close>

definition request_digest :: "access_config \<Rightarrow> octets \<Rightarrow> octets" where
  "request_digest cfg token = (if secret_ok token then secret_digest cfg token else replicate 32 0)"

definition canonical_identity :: "string \<Rightarrow> bool" where
  "canonical_identity v \<longleftrightarrow> 1 \<le> length v \<and> length v \<le> 256 \<and> list_all (\<lambda>c. 33 \<le> (of_char c :: nat) \<and> (of_char c :: nat) \<le> 126) v"

definition binding_of :: "access_config \<Rightarrow> string \<Rightarrow> octets option" where
  "binding_of cfg identity =
     (case ac_bind cfg of None \<Rightarrow> None | Some mac \<Rightarrow> if canonical_identity identity then Some (mac identity) else None)"

definition binding_matches :: "access_config \<Rightarrow> octets option \<Rightarrow> string \<Rightarrow> bool" where
  "binding_matches cfg stored identity =
     (case (binding_of cfg identity, stored) of
        (Some fresh, Some b) \<Rightarrow> length b = 32 \<and> b = fresh
      | _ \<Rightarrow> False)"

definition csrf_text :: "string \<Rightarrow> bool" where
  "csrf_text v \<longleftrightarrow> length v = 43
     \<and> list_all (\<lambda>c. c \<in> set ''ABCDEFGHIJKLMNOPQRSTUVWXYZabcdefghijklmnopqrstuvwxyz0123456789_-'') v"

definition csrf_matches :: "access_config \<Rightarrow> uuid \<Rightarrow> string \<Rightarrow> bool" where
  "csrf_matches cfg session_id presented \<longleftrightarrow> csrf_text presented \<and> presented = ac_csrf_token cfg session_id"

text \<open>
  The general category of a character (\<open>unicodedata.category\<close>) is a table of the interpreter; the model's strings are
  bytes, where the refused categories are the controls below 32, 127 and above, up to 159, and 173.
\<close>

definition display_name_acceptable :: "string \<Rightarrow> bool" where
  "display_name_acceptable v \<longleftrightarrow> 1 \<le> length v \<and> length v \<le> 64
     \<and> list_all (\<lambda>c. let n = (of_char c :: nat) in 32 \<le> n \<and> \<not> (127 \<le> n \<and> n \<le> 159) \<and> n \<noteq> 173) v"

definition credential_ok :: "octets \<Rightarrow> octets \<Rightarrow> int \<Rightarrow> bool \<Rightarrow> bool \<Rightarrow> string option \<Rightarrow> bool" where
  "credential_ok credential_id public_key sign_count backup_eligible backup_state label \<longleftrightarrow>
     (backup_state \<longrightarrow> backup_eligible)
     \<and> (case label of None \<Rightarrow> True | Some l \<Rightarrow> 1 \<le> length l \<and> length l \<le> 64 \<and> list_all (\<lambda>c. 32 \<le> (of_char c :: nat)) l)
     \<and> 1 \<le> length credential_id \<and> length credential_id \<le> 1024 \<and> 1 \<le> length public_key \<and> length public_key \<le> 8192
     \<and> 0 \<le> sign_count"

section \<open>Statements\<close>

definition update_where :: "('a \<Rightarrow> bool) \<Rightarrow> ('a \<Rightarrow> 'a) \<Rightarrow> 'a list \<Rightarrow> 'a list" where
  "update_where P f rows = map (\<lambda>r. if P r then f r else r) rows"

definition rowcount :: "('a \<Rightarrow> bool) \<Rightarrow> 'a list \<Rightarrow> nat" where
  "rowcount P rows = length (filter P rows)"

definition principal_row :: "access_db \<Rightarrow> uuid \<Rightarrow> access_principal option" where
  "principal_row d p = find (\<lambda>r. pr_id r = p) (ad_principals d)"

definition credential_row :: "access_db \<Rightarrow> octets \<Rightarrow> access_credential option" where
  "credential_row d c = find (\<lambda>r. cr_id r = c) (ad_credentials d)"

end
