(* ===== verification/Access_Store.thy ===== *)
theory Access_Store
  imports Access_Model "HOL-Library.Product_Lexorder"
begin

text \<open>
  The authorization store: \<^verbatim>\<open>server/app/auth/store.py\<close>. What a method does inside its transaction is a function from
  the tables to an error or to a value with the tables it would commit: an error rolls everything back. \<open>access_commit\<close> adds
  what surrounds it (the storage reservation, \<open>BEGIN\<close>, \<open>COMMIT\<close>), whose end is an argument. The wall clock and
  the boot clock read inside a transaction are arguments, as are the UUIDs it draws. An \<open>INSERT\<close> that violates a
  \<open>UNIQUE\<close>, \<open>PRIMARY KEY\<close> or \<open>REFERENCES\<close> constraint of the schema is a storage error.
\<close>

type_synonym 'a access_tx = "access_db \<Rightarrow> access_error + 'a \<times> access_db"

datatype access_end = Tx_Committed | Tx_Failed | Tx_Release_Failed

definition access_commit :: "access_end \<Rightarrow> 'a access_tx \<Rightarrow> access_db \<Rightarrow> (access_error, 'a, access_db) outcome" where
  "access_commit e body d =
     (case e of
        Tx_Failed \<Rightarrow> (Inl Access_Storage, d)
      | _ \<Rightarrow> (case body d of
               Inl err \<Rightarrow> (Inl err, d)
             | Inr (v, d') \<Rightarrow> ((if e = Tx_Committed then Inr v else Inl Access_Storage), d')))"

section \<open>Inserts under the constraints of the schema\<close>

definition insert_principal :: "access_principal \<Rightarrow> unit access_tx" where
  "insert_principal p d =
     (if pr_id p \<in> pr_id ` set (ad_principals d)
         \<or> pr_role p = Role_Owner \<and> Role_Owner \<in> pr_role ` set (ad_principals d) then Inl Access_Storage
      else Inr ((), d\<lparr>ad_principals := ad_principals d @ [p]\<rparr>))"

definition insert_credential :: "access_credential \<Rightarrow> unit access_tx" where
  "insert_credential c d =
     (if cr_id c \<in> cr_id ` set (ad_credentials d) \<or> cr_handle c \<in> cr_handle ` set (ad_credentials d)
         \<or> cr_principal c \<notin> pr_id ` set (ad_principals d) then Inl Access_Storage
      else Inr ((), d\<lparr>ad_credentials := ad_credentials d @ [c]\<rparr>))"

definition insert_invitation :: "access_invitation \<Rightarrow> unit access_tx" where
  "insert_invitation i d =
     (if iv_id i \<in> iv_id ` set (ad_invitations d) \<or> iv_secret_digest i \<in> iv_secret_digest ` set (ad_invitations d)
         \<or> iv_lookup_key i \<noteq> None \<and> iv_lookup_key i \<in> iv_lookup_key ` set (ad_invitations d)
         \<or> iv_principal i \<notin> pr_id ` set (ad_principals d) then Inl Access_Storage
      else Inr ((), d\<lparr>ad_invitations := ad_invitations d @ [i]\<rparr>))"

definition insert_session :: "access_session \<Rightarrow> unit access_tx" where
  "insert_session s d =
     (if se_id s \<in> se_id ` set (ad_sessions d) \<or> se_token_digest s \<in> se_token_digest ` set (ad_sessions d)
         \<or> se_principal s \<notin> pr_id ` set (ad_principals d) \<or> se_credential s \<notin> cr_id ` set (ad_credentials d)
         \<or> \<not> 0 < se_idle_lifetime s then Inl Access_Storage
      else Inr ((), d\<lparr>ad_sessions := ad_sessions d @ [s]\<rparr>))"

definition append_audit :: "actor_category \<Rightarrow> access_action \<Rightarrow> uuid \<Rightarrow> access_db \<Rightarrow> access_db" where
  "append_audit actor action p d = d\<lparr>ad_audit := ad_audit d @ [(actor, action, p)]\<rparr>"

definition actor_of :: "principal_role \<Rightarrow> actor_category" where
  "actor_of r = (case r of Role_Owner \<Rightarrow> Actor_Owner | Role_Invited_User \<Rightarrow> Actor_Invited_User)"

section \<open>Invitations\<close>

definition invitation_row_on :: "access_config \<Rightarrow> octets \<Rightarrow> access_db \<Rightarrow> (access_invitation \<times> access_principal) option" where
  "invitation_row_on cfg secret d =
     (case find (\<lambda>i. iv_lookup_key i = Some (lookup_key cfg secret)) (ad_invitations d) of
        None \<Rightarrow> None
      | Some i \<Rightarrow>
          (case principal_row d (iv_principal i) of
             None \<Rightarrow> None
           | Some p \<Rightarrow> if iv_secret_digest i = secret_digest cfg secret then Some (i, p) else None))"

definition redeemable :: "access_invitation \<Rightarrow> access_principal \<Rightarrow> nat \<Rightarrow> int \<Rightarrow> boot_instant option \<Rightarrow> bool" where
  "redeemable i p generation t now \<longleftrightarrow>
     iv_redeemed_at i = None \<and> iv_revoked_at i = None \<and> pr_status p \<noteq> Status_Revoked
     \<and> iv_revision i = pr_revision p \<and> iv_generation i = generation
     \<and> invitation_clock_valid (iv_issued_at i) (iv_expires_at i) (iv_boot_id i) (iv_boottime i) t now MAX_INVITATION_LIFETIME"

definition pending_invitations_on :: "int \<Rightarrow> boot_instant option \<Rightarrow> uuid option \<Rightarrow> access_db \<Rightarrow> access_invitation list" where
  "pending_invitations_on t now principal_id d =
     filter (\<lambda>i. iv_redeemed_at i = None \<and> iv_revoked_at i = None \<and> iv_lookup_key i \<noteq> None
        \<and> iv_attempt_count i < MAX_REDEMPTION_ATTEMPTS
        \<and> (case principal_id of None \<Rightarrow> True | Some p \<Rightarrow> iv_principal i = p)
        \<and> (case principal_row d (iv_principal i) of
             None \<Rightarrow> False | Some p \<Rightarrow> redeemable i p (ad_generation d) t now)) (ad_invitations d)"

definition void_invitations :: "int \<Rightarrow> uuid \<Rightarrow> access_db \<Rightarrow> access_db" where
  "void_invitations t p d =
     d\<lparr>ad_invitations := update_where (\<lambda>i. iv_principal i = p \<and> iv_redeemed_at i = None \<and> iv_revoked_at i = None)
         (\<lambda>i. i\<lparr>iv_revoked_at := Some t\<rparr>) (ad_invitations d)\<rparr>"

definition issue_enrollment_on :: "access_config \<Rightarrow> uuid \<Rightarrow> uuid \<Rightarrow> octets \<Rightarrow> int \<Rightarrow> int \<Rightarrow> boot_instant option \<Rightarrow> uuid access_tx" where
  "issue_enrollment_on cfg new_id p secret expiry t instant d =
     (if \<not> secret_ok secret \<or> expiry \<le> t \<or> ac_invitation_lifetime cfg < expiry - t then Inl Access_Invalid
      else case instant of
        None \<Rightarrow> Inl Invitation_Clock_Unavailable
      | Some b \<Rightarrow>
          (case principal_row d p of
             None \<Rightarrow> Inl Access_Invalid
           | Some row \<Rightarrow>
               if pr_status row = Status_Revoked then Inl Access_Invalid
               else if MAX_PENDING_INVITATIONS \<le> length (pending_invitations_on t instant (Some p) d) then Inl Access_Limit_Reached
               else (case insert_invitation \<lparr>iv_id = new_id, iv_secret_digest = secret_digest cfg secret, iv_principal = p,
                            iv_revision = pr_revision row, iv_generation = ad_generation d, iv_issued_at = t,
                            iv_expires_at = expiry, iv_redeemed_at = None, iv_revoked_at = None, iv_attempt_count = 0,
                            iv_lookup_key = Some (lookup_key cfg secret), iv_boot_id = Some (bi_boot_id b),
                            iv_boottime = Some (bi_boottime b)\<rparr> (void_invitations t p d) of
                       Inl e \<Rightarrow> Inl e
                     | Inr (_, d') \<Rightarrow> Inr (new_id, d'))))"

section \<open>Principals\<close>

definition owner_configured_on :: "access_db \<Rightarrow> bool" where
  "owner_configured_on d \<longleftrightarrow> Role_Owner \<in> pr_role ` set (ad_principals d)"

definition new_principal :: "uuid \<Rightarrow> string \<Rightarrow> principal_role \<Rightarrow> principal_status \<Rightarrow> int \<Rightarrow> access_principal" where
  "new_principal p name role status t =
     \<lparr>pr_id = p, pr_external_identity = None, pr_display_name = name, pr_role = role, pr_status = status, pr_revision = 0,
      pr_created_at = t, pr_revoked_at = None\<rparr>"

definition bootstrap_owner :: "uuid \<Rightarrow> string \<Rightarrow> int \<Rightarrow> access_principal access_tx" where
  "bootstrap_owner p name t d =
     (if \<not> display_name_acceptable name \<or> owner_configured_on d then Inl Access_Invalid
      else let owner = new_principal p name Role_Owner Status_Active t in
        case insert_principal owner d of Inl e \<Rightarrow> Inl e | Inr (_, d') \<Rightarrow> Inr (owner, d'))"

definition bootstrap_owner_on :: "access_config \<Rightarrow> uuid \<Rightarrow> uuid \<Rightarrow> string \<Rightarrow> octets \<Rightarrow> int \<Rightarrow> int \<Rightarrow> boot_instant option \<Rightarrow> uuid access_tx" where
  "bootstrap_owner_on cfg new_id p name secret expiry t instant d =
     (if \<not> display_name_acceptable name then Inl Access_Invalid
      else if owner_configured_on d then Inl Owner_Already_Configured
      else case insert_principal (new_principal p name Role_Owner Status_Invited t) d of
          Inl e \<Rightarrow> Inl e
        | Inr (_, d') \<Rightarrow> issue_enrollment_on cfg new_id p secret expiry t instant d')"

definition permissions_ok :: "permission list \<Rightarrow> bool" where
  "permissions_ok ps = distinct ps"

definition invite_on :: "uuid \<Rightarrow> string \<Rightarrow> permission list \<Rightarrow> int \<Rightarrow> access_principal access_tx" where
  "invite_on p name permissions t d =
     (if \<not> display_name_acceptable name \<or> \<not> permissions_ok permissions then Inl Access_Invalid
      else let row = new_principal p name Role_Invited_User Status_Invited t in
        case insert_principal row d of
          Inl e \<Rightarrow> Inl e
        | Inr (_, d') \<Rightarrow> Inr (row, d'\<lparr>ad_grants := ad_grants d' @ map (Pair p) permissions\<rparr>))"

definition administered_on :: "uuid \<Rightarrow> access_db \<Rightarrow> access_error + access_principal" where
  "administered_on p d =
     (case principal_row d p of
        None \<Rightarrow> Inl Access_Invalid
      | Some r \<Rightarrow> if pr_role r \<noteq> Role_Invited_User \<or> pr_status r = Status_Revoked then Inl Access_Invalid else Inr r)"

definition invitation_expiry :: "access_config \<Rightarrow> int \<Rightarrow> int" where
  "invitation_expiry cfg t = t + ac_invitation_lifetime cfg"

definition invite_with_invitation_on :: "access_config \<Rightarrow> uuid \<Rightarrow> uuid \<Rightarrow> string \<Rightarrow> permission list \<Rightarrow> octets \<Rightarrow> int
    \<Rightarrow> boot_instant option \<Rightarrow> int access_tx" where
  "invite_with_invitation_on cfg new_id p name permissions secret t instant d =
     (if MAX_PRINCIPALS \<le> rowcount (\<lambda>r. pr_status r \<noteq> Status_Revoked) (ad_principals d) then Inl Access_Limit_Reached
      else case invite_on p name permissions t d of
          Inl e \<Rightarrow> Inl e
        | Inr (_, d') \<Rightarrow>
            (case issue_enrollment_on cfg new_id p secret (invitation_expiry cfg t) t instant d' of
               Inl e \<Rightarrow> Inl e
             | Inr (_, d'') \<Rightarrow> Inr (invitation_expiry cfg t, d'')))"

definition reissue_invitation_on :: "access_config \<Rightarrow> uuid \<Rightarrow> uuid \<Rightarrow> octets \<Rightarrow> int \<Rightarrow> boot_instant option \<Rightarrow> int access_tx" where
  "reissue_invitation_on cfg new_id p secret t instant d =
     (case administered_on p d of
        Inl e \<Rightarrow> Inl e
      | Inr _ \<Rightarrow>
          (case issue_enrollment_on cfg new_id p secret (invitation_expiry cfg t) t instant (void_invitations t p d) of
             Inl e \<Rightarrow> Inl e
           | Inr (_, d') \<Rightarrow> Inr (invitation_expiry cfg t, d')))"

section \<open>Redemption\<close>

definition enroll_body :: "access_config \<Rightarrow> octets \<Rightarrow> access_credential \<Rightarrow> uuid option \<Rightarrow> bool \<Rightarrow> int \<Rightarrow> boot_instant option
    \<Rightarrow> access_credential access_tx" where
  "enroll_body cfg secret fresh invitation_id require_device_bound t instant d =
     (case invitation_row_on cfg secret d of
        None \<Rightarrow> Inl Access_Invalid
      | Some (i, p) \<Rightarrow>
          if \<not> redeemable i p (ad_generation d) t instant \<or> (case invitation_id of None \<Rightarrow> False | Some j \<Rightarrow> iv_id i \<noteq> j)
          then Inl Access_Invalid
          else if require_device_bound \<and> cr_backup_eligible fresh then Inl Device_Bound_Required
          else let c = fresh\<lparr>cr_principal := iv_principal i, cr_enrolled_at := t, cr_revoked_at := None, cr_inconsistent_at := None,
                           cr_last_used_at := None\<rparr> in
            case insert_credential c d of
              Inl e \<Rightarrow> Inl e
            | Inr (_, d') \<Rightarrow>
                Inr (c, append_audit (actor_of (pr_role p)) Redeem_Invitation (iv_principal i)
                  (d'\<lparr>ad_invitations := update_where (\<lambda>j. iv_id j = iv_id i) (\<lambda>j. j\<lparr>iv_redeemed_at := Some t\<rparr>) (ad_invitations d'),
                      ad_principals := update_where (\<lambda>r. pr_id r = iv_principal i \<and> pr_status r = Status_Invited)
                         (\<lambda>r. r\<lparr>pr_status := Status_Active\<rparr>) (ad_principals d')\<rparr>)))"

definition enroll_credential :: "access_config \<Rightarrow> access_end \<Rightarrow> octets \<Rightarrow> string \<Rightarrow> access_credential \<Rightarrow> uuid option \<Rightarrow> bool \<Rightarrow> int
    \<Rightarrow> boot_instant option \<Rightarrow> access_db \<Rightarrow> (access_error, access_credential, access_db) outcome" where
  "enroll_credential cfg e secret identity fresh invitation_id require_device_bound t instant d =
     (if \<not> secret_ok secret \<or> \<not> canonical_identity identity
         \<or> \<not> credential_ok (cr_id fresh) (cr_public_key fresh) (cr_sign_count fresh) (cr_backup_eligible fresh)
              (cr_backup_state fresh) (cr_label fresh) then (Inl Access_Invalid, d)
      else if \<not> ac_audit cfg then (Inl Access_Storage, d)
      else access_commit e (enroll_body cfg secret fresh invitation_id require_device_bound t instant) d)"

section \<open>Sessions\<close>

definition end_session_rows :: "int \<Rightarrow> (access_session \<Rightarrow> bool) \<Rightarrow> access_db \<Rightarrow> access_db" where
  "end_session_rows t P d =
     d\<lparr>ad_sessions := update_where (\<lambda>s. P s \<and> se_invalidated_at s = None)
         (\<lambda>s. s\<lparr>se_invalidated_at := Some t, se_binding := None\<rparr>) (ad_sessions d)\<rparr>"

definition end_expired_sessions_on :: "int \<Rightarrow> access_db \<Rightarrow> access_db" where
  "end_expired_sessions_on t d =
     d\<lparr>ad_sessions := update_where
         (\<lambda>s. (se_invalidated_at s = None \<or> se_binding s \<noteq> None) \<and> (se_idle_expires_at s \<le> t \<or> se_absolute_expires_at s \<le> t))
         (\<lambda>s. s\<lparr>se_invalidated_at := (case se_invalidated_at s of None \<Rightarrow> Some t | Some u \<Rightarrow> Some u), se_binding := None\<rparr>)
         (ad_sessions d)\<rparr>"

definition establish_session_on :: "access_config \<Rightarrow> uuid \<Rightarrow> uuid \<Rightarrow> octets \<Rightarrow> octets \<Rightarrow> string \<Rightarrow> int \<Rightarrow> int option
    \<Rightarrow> boot_instant option \<Rightarrow> int \<Rightarrow> int \<Rightarrow> uuid access_tx" where
  "establish_session_on cfg new_id p credential_id token identity t verified_at verified_boot idle absolute d =
     (case binding_of cfg identity of
        None \<Rightarrow> Inl Access_Invalid
      | Some binding \<Rightarrow>
          if \<not> secret_ok token \<or> \<not> (0 < idle \<and> idle \<le> absolute) \<or> (verified_at \<noteq> None \<and> verified_at \<noteq> Some t)
             \<or> verified_boot \<noteq> None \<and> verified_at = None then Inl Access_Invalid
          else case (principal_row d p, find (\<lambda>c. cr_id c = credential_id \<and> cr_principal c = p) (ad_credentials d)) of
              (Some r, Some c) \<Rightarrow>
                if pr_status r \<noteq> Status_Active \<or> cr_revoked_at c \<noteq> None \<or> cr_inconsistent_at c \<noteq> None then Inl Access_Invalid
                else (case insert_session \<lparr>se_id = new_id, se_token_digest = secret_digest cfg token, se_principal = p,
                             se_credential = credential_id, se_revision = pr_revision r, se_generation = ad_generation d,
                             se_established_at = t, se_last_seen_at = t, se_idle_lifetime = idle,
                             se_idle_expires_at = t + idle, se_absolute_expires_at = t + absolute, se_invalidated_at = None,
                             se_verified_at = verified_at, se_binding = Some binding, se_mismatch_audited_at = None,
                             se_mismatch_suppressed = 0, se_verified_boot_id = map_option bi_boot_id verified_boot,
                             se_verified_boottime = map_option bi_boottime verified_boot\<rparr> (end_expired_sessions_on t d) of
                        Inl e \<Rightarrow> Inl e
                      | Inr (_, d') \<Rightarrow> Inr (new_id, d'))
            | _ \<Rightarrow> Inl Access_Invalid)"

definition session_current :: "access_session \<Rightarrow> access_principal \<Rightarrow> access_credential \<Rightarrow> nat \<Rightarrow> int \<Rightarrow> bool" where
  "session_current s p c generation t \<longleftrightarrow>
     se_invalidated_at s = None \<and> pr_status p = Status_Active \<and> cr_revoked_at c = None \<and> cr_inconsistent_at c = None
     \<and> se_revision s = pr_revision p \<and> se_generation s = generation
     \<and> se_established_at s \<le> t \<and> se_last_seen_at s \<le> t \<and> t < se_idle_expires_at s \<and> t < se_absolute_expires_at s"

definition session_join :: "(access_session \<Rightarrow> bool) \<Rightarrow> access_db \<Rightarrow> (access_session \<times> access_principal \<times> access_credential) option" where
  "session_join P d =
     (case find P (ad_sessions d) of
        None \<Rightarrow> None
      | Some s \<Rightarrow>
          (case (principal_row d (se_principal s), credential_row d (se_credential s)) of
             (Some p, Some c) \<Rightarrow> Some (s, p, c)
           | _ \<Rightarrow> None))"

text \<open>The row of a current session, and the session to audit when only its binding fails.\<close>

definition current_session_on :: "access_config \<Rightarrow> octets \<Rightarrow> string \<Rightarrow> int \<Rightarrow> access_db
    \<Rightarrow> (access_session \<times> access_principal \<times> access_credential) option \<times> (uuid \<times> uuid) option" where
  "current_session_on cfg token identity t d =
     (case session_join (\<lambda>s. se_token_digest s = request_digest cfg token) d of
        None \<Rightarrow> (None, None)
      | Some (s, p, c) \<Rightarrow>
          (let bound = (ac_bind cfg \<noteq> None \<and> binding_matches cfg (se_binding s) identity);
               current = session_current s p c (ad_generation d) t
           in (if current \<and> bound then Some (s, p, c) else None,
               if current \<and> \<not> bound \<and> ac_bind cfg \<noteq> None then Some (se_id s, se_principal s) else None)))"

definition touch_session_on :: "access_session \<Rightarrow> int \<Rightarrow> access_db \<Rightarrow> access_db" where
  "touch_session_on row t d =
     d\<lparr>ad_sessions := update_where (\<lambda>s. se_id s = se_id row)
         (\<lambda>s. s\<lparr>se_last_seen_at := t, se_idle_expires_at := min (t + se_idle_lifetime row) (se_absolute_expires_at row)\<rparr>)
         (ad_sessions d)\<rparr>"

definition mismatch_body :: "uuid \<Rightarrow> uuid \<Rightarrow> int \<Rightarrow> unit access_tx" where
  "mismatch_body session_id p t d =
     (case find (\<lambda>s. se_id s = session_id \<and> se_invalidated_at s = None) (ad_sessions d) of
        None \<Rightarrow> Inr ((), d)
      | Some s \<Rightarrow>
          if (case se_mismatch_audited_at s of None \<Rightarrow> False | Some l \<Rightarrow> t < l + BINDING_MISMATCH_AUDIT_INTERVAL) then
            Inr ((), d\<lparr>ad_sessions := update_where (\<lambda>x. se_id x = session_id)
              (\<lambda>x. x\<lparr>se_mismatch_suppressed := se_mismatch_suppressed x + 1\<rparr>) (ad_sessions d)\<rparr>)
          else Inr ((), append_audit Actor_System Detect_Identity_Mismatch p
            (d\<lparr>ad_sessions := update_where (\<lambda>x. se_id x = session_id) (\<lambda>x. x\<lparr>se_mismatch_audited_at := Some t\<rparr>) (ad_sessions d)\<rparr>)))"

definition record_binding_mismatch :: "access_config \<Rightarrow> access_end \<Rightarrow> (uuid \<times> uuid) option \<Rightarrow> int \<Rightarrow> access_db \<Rightarrow> access_db" where
  "record_binding_mismatch cfg e mismatch t d =
     (case mismatch of
        None \<Rightarrow> d
      | Some (session_id, p) \<Rightarrow> if ac_audit cfg then snd (access_commit e (mismatch_body session_id p t) d) else d)"

section \<open>Authorization of a request\<close>

text \<open>
  \<open>_authorize_gated\<close>: \<open>gate_open\<close> is the answer of the session gate, \<open>decide\<close> the decision on the current session.
  After a denial the expiry sweep and the audit of a binding mismatch run in transactions of their own.
\<close>

definition gated_body :: "access_config \<Rightarrow> octets \<Rightarrow> string \<Rightarrow> int
    \<Rightarrow> (access_session \<times> access_principal \<times> access_credential \<Rightarrow> 'a access_tx) \<Rightarrow> 'a access_tx" where
  "gated_body cfg token identity t decide d =
     (let d1 = end_expired_sessions_on t d in
      case fst (current_session_on cfg token identity t d1) of None \<Rightarrow> Inl Access_Invalid | Some row \<Rightarrow> decide row d1)"

definition after_denial :: "access_config \<Rightarrow> access_end \<Rightarrow> access_end \<Rightarrow> octets \<Rightarrow> string \<Rightarrow> int \<Rightarrow> access_db \<Rightarrow> access_db" where
  "after_denial cfg sweep_end audit_end token identity t d =
     record_binding_mismatch cfg audit_end (snd (current_session_on cfg token identity t (end_expired_sessions_on t d))) t
       (snd (access_commit sweep_end (\<lambda>x. Inr ((), end_expired_sessions_on t x)) d))"

definition authorize_gated :: "access_config \<Rightarrow> bool \<Rightarrow> access_end \<Rightarrow> access_end \<Rightarrow> access_end \<Rightarrow> octets \<Rightarrow> string \<Rightarrow> int
    \<Rightarrow> (access_session \<times> access_principal \<times> access_credential \<Rightarrow> 'a access_tx) \<Rightarrow> access_db
    \<Rightarrow> (access_error, 'a, access_db) outcome" where
  "authorize_gated cfg gate_open e sweep_end audit_end token identity t decide d =
     (if \<not> gate_open then (Inl Human_Access_Closed, d)
      else case access_commit e (gated_body cfg token identity t decide) d of
          (Inr v, d') \<Rightarrow> (Inr v, d')
        | (Inl err, d') \<Rightarrow>
            (Inl err, if is_validation_error err then after_denial cfg sweep_end audit_end token identity t d' else d'))"

definition verification_stale :: "access_session \<Rightarrow> int \<Rightarrow> boot_instant option \<Rightarrow> int \<Rightarrow> bool" where
  "verification_stale s t instant freshness =
     (case se_verified_at s of
        None \<Rightarrow> True
      | Some v \<Rightarrow> \<not> se_established_at s \<le> v
          \<or> \<not> step_up_fresh (Some v) (se_verified_boot_id s) (se_verified_boottime s) t instant freshness)"

definition grants_of :: "uuid \<Rightarrow> access_db \<Rightarrow> permission set" where
  "grants_of p d = snd ` set (filter (\<lambda>g. fst g = p) (ad_grants d))"

definition granted_on :: "access_principal \<Rightarrow> access_db \<Rightarrow> permission set" where
  "granted_on p d = (if pr_role p = Role_Owner then {Live_View, Recordings_View} else grants_of (pr_id p) d)"

datatype requirement = Pre_Credential | Any_Session | Needs_Live | Needs_Recordings | Owner_Read | Owner_Op

record session_view =
  sv_session :: uuid
  sv_principal :: uuid
  sv_credential :: octets
  sv_role :: principal_role
  sv_revision :: nat
  sv_permissions :: "permission set"

definition view_of :: "access_session \<Rightarrow> access_principal \<Rightarrow> access_db \<Rightarrow> session_view" where
  "view_of s p d = \<lparr>sv_session = se_id s, sv_principal = se_principal s, sv_credential = se_credential s, sv_role = pr_role p,
     sv_revision = pr_revision p, sv_permissions = granted_on p d\<rparr>"

definition decide_request :: "access_config \<Rightarrow> requirement \<Rightarrow> string option \<Rightarrow> bool \<Rightarrow> int \<Rightarrow> boot_instant option \<Rightarrow> int
    \<Rightarrow> access_session \<times> access_principal \<times> access_credential \<Rightarrow> (session_view \<times> bool) access_tx" where
  "decide_request cfg req csrf touch t instant freshness row d =
     (case row of (s, p, c) \<Rightarrow>
       if req = Needs_Live \<and> Live_View \<notin> granted_on p d \<or> req = Needs_Recordings \<and> Recordings_View \<notin> granted_on p d
          \<or> (req = Owner_Read \<or> req = Owner_Op) \<and> pr_role p \<noteq> Role_Owner
          \<or> (case csrf of None \<Rightarrow> False | Some x \<Rightarrow> ac_bind cfg = None \<or> \<not> csrf_matches cfg (se_id s) x)
       then Inl Access_Invalid
       else let stale = (req = Owner_Op \<and> verification_stale s t instant freshness) in
         Inr ((view_of s p d, stale), if touch \<and> \<not> stale then touch_session_on s t d else d))"

definition step_up_or :: "(access_error, 'a \<times> bool, access_db) outcome \<Rightarrow> (access_error, 'a, access_db) outcome" where
  "step_up_or r = (case r of
       (Inl e, d) \<Rightarrow> (Inl e, d)
     | (Inr (v, stale), d) \<Rightarrow> if stale then (Inl Step_Up_Required, d) else (Inr v, d))"

definition authorize_request :: "access_config \<Rightarrow> bool \<Rightarrow> access_end \<Rightarrow> access_end \<Rightarrow> access_end \<Rightarrow> octets \<Rightarrow> string \<Rightarrow> requirement
    \<Rightarrow> string option \<Rightarrow> bool \<Rightarrow> int \<Rightarrow> boot_instant option \<Rightarrow> int \<Rightarrow> access_db \<Rightarrow> (access_error, session_view, access_db) outcome" where
  "authorize_request cfg gate_open e e2 e3 token identity req csrf touch t instant freshness d =
     (if req = Pre_Credential \<or> freshness \<le> 0 then (Inl Access_Invalid, d)
      else step_up_or (authorize_gated cfg gate_open e e2 e3 token identity t
             (decide_request cfg req csrf touch t instant freshness) d))"

definition authorize :: "access_config \<Rightarrow> bool \<Rightarrow> access_end \<Rightarrow> access_end \<Rightarrow> access_end \<Rightarrow> octets \<Rightarrow> string \<Rightarrow> permission \<Rightarrow> int
    \<Rightarrow> access_db \<Rightarrow> (access_error, access_principal, access_db) outcome" where
  "authorize cfg gate_open e e2 e3 token identity perm t d =
     authorize_gated cfg gate_open e e2 e3 token identity t
       (\<lambda>(s, p, c) x. if pr_role p \<noteq> Role_Owner \<and> (se_principal s, perm) \<notin> set (ad_grants x) then Inl Access_Invalid
          else Inr (p, touch_session_on s t x)) d"

definition authorize_session :: "access_config \<Rightarrow> bool \<Rightarrow> access_end \<Rightarrow> access_end \<Rightarrow> access_end \<Rightarrow> octets \<Rightarrow> string \<Rightarrow> int
    \<Rightarrow> access_db \<Rightarrow> (access_error, access_principal \<times> permission set, access_db) outcome" where
  "authorize_session cfg gate_open e e2 e3 token identity t d =
     authorize_gated cfg gate_open e e2 e3 token identity t
       (\<lambda>(s, p, c) x. Inr ((p, granted_on p x), touch_session_on s t x)) d"

definition authorize_owner :: "access_config \<Rightarrow> bool \<Rightarrow> access_end \<Rightarrow> access_end \<Rightarrow> access_end \<Rightarrow> octets \<Rightarrow> string \<Rightarrow> int
    \<Rightarrow> boot_instant option \<Rightarrow> int \<Rightarrow> access_db \<Rightarrow> (access_error, access_principal, access_db) outcome" where
  "authorize_owner cfg gate_open e e2 e3 token identity t instant freshness d =
     (if freshness \<le> 0 then (Inl Access_Invalid, d)
      else step_up_or (authorize_gated cfg gate_open e e2 e3 token identity t
        (\<lambda>(s, p, c) x. if pr_role p \<noteq> Role_Owner then Inl Access_Invalid
           else let stale = verification_stale s t instant freshness in
             Inr ((p, stale), if stale then x else touch_session_on s t x)) d))"

definition session_may_be_current :: "access_config \<Rightarrow> octets \<Rightarrow> int \<Rightarrow> bool \<Rightarrow> permission option \<Rightarrow> access_db \<Rightarrow> bool" where
  "session_may_be_current cfg token t owner perm d \<longleftrightarrow>
     \<not> (perm \<noteq> None \<and> owner) \<and> secret_ok token
     \<and> list_ex (\<lambda>s. se_token_digest s = secret_digest cfg token \<and> se_invalidated_at s = None
          \<and> t < se_idle_expires_at s \<and> t < se_absolute_expires_at s
          \<and> (owner \<longrightarrow> list_ex (\<lambda>p. pr_id p = se_principal s \<and> pr_role p = Role_Owner \<and> pr_status p = Status_Active) (ad_principals d))
          \<and> (case perm of None \<Rightarrow> True
             | Some x \<Rightarrow> list_ex (\<lambda>p. pr_id p = se_principal s \<and> pr_status p = Status_Active
                 \<and> (pr_role p = Role_Owner \<or> (pr_id p, x) \<in> set (ad_grants d))) (ad_principals d))) (ad_sessions d)"

definition end_session_on :: "uuid \<Rightarrow> int \<Rightarrow> access_db \<Rightarrow> nat \<times> access_db" where
  "end_session_on sid t d =
     (rowcount (\<lambda>s. se_id s = sid \<and> se_invalidated_at s = None) (ad_sessions d), end_session_rows t (\<lambda>s. se_id s = sid) d)"

definition sign_out_body :: "session_view \<Rightarrow> int \<Rightarrow> unit access_tx" where
  "sign_out_body view t d =
     (case find (\<lambda>s. se_id s = sv_session view \<and> se_invalidated_at s = None) (ad_sessions d) of
        None \<Rightarrow> Inl Access_Invalid
      | Some s \<Rightarrow>
          if se_principal s \<noteq> sv_principal view then Inl Access_Invalid
          else case end_session_on (sv_session view) t d of (n, d') \<Rightarrow>
            if n \<noteq> 1 then Inl Access_Invalid
            else Inr ((), append_audit (actor_of (sv_role view)) Sign_Out (sv_principal view) d'))"

definition sign_out :: "access_config \<Rightarrow> bool \<Rightarrow> access_end \<Rightarrow> session_view \<Rightarrow> int \<Rightarrow> access_db \<Rightarrow> (access_error, unit, access_db) outcome" where
  "sign_out cfg gate_open e view t d =
     (if \<not> gate_open then (Inl Human_Access_Closed, d) else if \<not> ac_audit cfg then (Inl Access_Storage, d)
      else access_commit e (sign_out_body view t) d)"

section \<open>Administration\<close>

definition advance_principal :: "uuid \<Rightarrow> int \<Rightarrow> access_db \<Rightarrow> access_db" where
  "advance_principal p t d =
     end_session_rows t (\<lambda>s. se_principal s = p)
       (d\<lparr>ad_invitations := update_where (\<lambda>i. iv_principal i = p \<and> iv_redeemed_at i = None \<and> iv_revoked_at i = None
             \<and> (case principal_row d p of None \<Rightarrow> False | Some r \<Rightarrow> iv_revision i = pr_revision r))
             (\<lambda>i. i\<lparr>iv_revision := iv_revision i + 1\<rparr>) (ad_invitations d),
          ad_principals := update_where (\<lambda>r. pr_id r = p) (\<lambda>r. r\<lparr>pr_revision := pr_revision r + 1\<rparr>) (ad_principals d)\<rparr>)"

definition set_permissions_on :: "uuid \<Rightarrow> permission set \<Rightarrow> int \<Rightarrow> bool access_tx" where
  "set_permissions_on p grants t d =
     (case administered_on p d of
        Inl e \<Rightarrow> Inl e
      | Inr _ \<Rightarrow>
          if grants = grants_of p d then Inr (False, d)
          else Inr (True, advance_principal p t
            (d\<lparr>ad_grants := filter (\<lambda>g. fst g \<noteq> p) (ad_grants d)
                 @ map (Pair p) (filter (\<lambda>x. x \<in> grants) [Live_View, Recordings_View])\<rparr>)))"

definition change_permission_on :: "uuid \<Rightarrow> permission \<Rightarrow> bool \<Rightarrow> int \<Rightarrow> bool access_tx" where
  "change_permission_on p perm granted t d =
     (case administered_on p d of
        Inl e \<Rightarrow> Inl e
      | Inr _ \<Rightarrow>
          (let current = grants_of p d
           in set_permissions_on p (if granted then insert perm current else current - {perm}) t d))"

definition revoke_credentials :: "int \<Rightarrow> (access_credential \<Rightarrow> bool) \<Rightarrow> access_db \<Rightarrow> access_db" where
  "revoke_credentials t P d =
     d\<lparr>ad_credentials := update_where P (\<lambda>c. c\<lparr>cr_revoked_at := Some t\<rparr>) (ad_credentials d)\<rparr>"

definition revoke_principal_on :: "uuid \<Rightarrow> int \<Rightarrow> unit access_tx" where
  "revoke_principal_on p t d =
     (case administered_on p d of
        Inl e \<Rightarrow> Inl e
      | Inr _ \<Rightarrow>
          Inr ((), end_session_rows t (\<lambda>s. se_principal s = p) (void_invitations t p
            (revoke_credentials t (\<lambda>c. cr_principal c = p \<and> cr_revoked_at c = None)
              (d\<lparr>ad_principals := update_where (\<lambda>r. pr_id r = p)
                   (\<lambda>r. r\<lparr>pr_status := Status_Revoked, pr_revoked_at := Some t, pr_external_identity := None,
                          pr_revision := pr_revision r + 1\<rparr>) (ad_principals d)\<rparr>)))))"

definition revoke_credential_on :: "uuid \<Rightarrow> uuid \<Rightarrow> int \<Rightarrow> unit access_tx" where
  "revoke_credential_on p handle t d =
     (case administered_on p d of
        Inl e \<Rightarrow> Inl e
      | Inr _ \<Rightarrow>
          (case find (\<lambda>c. cr_handle c = handle \<and> cr_principal c = p \<and> cr_revoked_at c = None) (ad_credentials d) of
             None \<Rightarrow> Inl Access_Invalid
           | Some c \<Rightarrow>
               Inr ((), end_session_rows t (\<lambda>s. se_credential s = cr_id c)
                 (revoke_credentials t (\<lambda>x. cr_id x = cr_id c \<and> cr_principal x = p) d))))"

definition invalidate_all_sessions_on :: "int \<Rightarrow> access_db \<Rightarrow> access_db" where
  "invalidate_all_sessions_on t d =
     (end_session_rows t (\<lambda>s. True) (d\<lparr>ad_generation := ad_generation d + 1\<rparr>))\<lparr>ad_challenges := []\<rparr>"

definition recover_owner_on :: "access_config \<Rightarrow> uuid \<Rightarrow> octets \<Rightarrow> int \<Rightarrow> int \<Rightarrow> boot_instant option \<Rightarrow> string option
    \<Rightarrow> (uuid \<times> uuid \<times> nat) access_tx" where
  "recover_owner_on cfg new_id secret expiry t instant name d =
     (if (case name of None \<Rightarrow> False | Some n \<Rightarrow> \<not> display_name_acceptable n) then Inl Access_Invalid
      else case find (\<lambda>r. pr_role r = Role_Owner) (ad_principals d) of
          None \<Rightarrow> Inl Owner_Not_Configured
        | Some r \<Rightarrow>
            (let p = pr_id r; d1 = invalidate_all_sessions_on t d;
                 owned = (\<lambda>c. cr_principal c = p \<and> cr_revoked_at c = None);
                 d2 = void_invitations t p (revoke_credentials t owned d1);
                 d3 = d2\<lparr>ad_principals := update_where (\<lambda>x. pr_id x = p)
                        (\<lambda>x. x\<lparr>pr_status := Status_Invited, pr_revoked_at := None, pr_external_identity := None,
                               pr_display_name := (case name of None \<Rightarrow> pr_display_name x | Some n \<Rightarrow> n),
                               pr_revision := pr_revision x + 1\<rparr>) (ad_principals d2)\<rparr>
             in case issue_enrollment_on cfg new_id p secret expiry t instant d3 of
                  Inl e \<Rightarrow> Inl e
                | Inr (invitation, d4) \<Rightarrow> Inr ((p, invitation, rowcount owned (ad_credentials d1)), d4)))"

definition owner_session_row_on :: "session_view \<Rightarrow> int \<Rightarrow> access_db \<Rightarrow> access_error + access_session" where
  "owner_session_row_on view t d =
     (if sv_role view \<noteq> Role_Owner then Inl Access_Invalid
      else case session_join (\<lambda>s. se_id s = sv_session view) d of
          None \<Rightarrow> Inl Access_Invalid
        | Some (s, p, c) \<Rightarrow>
            if se_principal s = sv_principal view \<and> se_credential s = sv_credential view \<and> pr_role p = Role_Owner
               \<and> session_current s p c (ad_generation d) t \<and> pr_revision p = sv_revision view
            then Inr s else Inl Access_Invalid)"

definition require_owner_session_on :: "session_view \<Rightarrow> int \<Rightarrow> boot_instant option \<Rightarrow> int \<Rightarrow> access_db \<Rightarrow> access_error + unit" where
  "require_owner_session_on view t instant freshness d =
     (if freshness \<le> 0 then Inl Access_Invalid
      else case owner_session_row_on view t d of
          Inl e \<Rightarrow> Inl e
        | Inr s \<Rightarrow> if verification_stale s t instant freshness then Inl Step_Up_Required else Inr ())"

section \<open>Ceremonies\<close>

definition insert_challenge_on :: "octets \<Rightarrow> ceremony \<Rightarrow> int \<Rightarrow> int \<Rightarrow> uuid option \<Rightarrow> uuid option \<Rightarrow> unit access_tx" where
  "insert_challenge_on digest kind t lifetime invitation_id session_id d =
     (if length digest \<noteq> 32 \<or> \<not> (0 < lifetime \<and> lifetime \<le> MAX_CHALLENGE_LIFETIME) then Inl Access_Invalid
      else let open_challenges = filter (\<lambda>x. \<not> ch_expires_at x \<le> t) (ad_challenges d) in
        if MAX_PENDING_CHALLENGES \<le> length open_challenges then Inl Access_Invalid
        else if digest \<in> ch_digest ` set open_challenges then Inl Access_Storage
        else Inr ((), d\<lparr>ad_challenges := open_challenges @ [\<lparr>ch_digest = digest, ch_ceremony = kind, ch_invitation = invitation_id,
               ch_session = session_id, ch_issued_at = t, ch_expires_at = t + lifetime\<rparr>]\<rparr>))"

definition issue_authentication_challenge :: "access_end \<Rightarrow> octets \<Rightarrow> int \<Rightarrow> int \<Rightarrow> access_db \<Rightarrow> (access_error, unit, access_db) outcome" where
  "issue_authentication_challenge e digest t lifetime d =
     access_commit e (insert_challenge_on digest Authentication t lifetime None None) d"

definition begin_registration_body :: "access_config \<Rightarrow> octets \<Rightarrow> octets \<Rightarrow> int \<Rightarrow> boot_instant option \<Rightarrow> int
    \<Rightarrow> (uuid \<times> uuid \<times> string \<times> octets list) access_tx" where
  "begin_registration_body cfg secret digest t instant lifetime d =
     (case invitation_row_on cfg secret d of
        None \<Rightarrow> Inl Access_Invalid
      | Some (i, p) \<Rightarrow>
          if \<not> redeemable i p (ad_generation d) t instant then Inl Access_Invalid
          else let counts = (\<lambda>j. iv_id j = iv_id i \<and> iv_attempt_count j < MAX_REDEMPTION_ATTEMPTS \<and> iv_redeemed_at j = None) in
            if rowcount counts (ad_invitations d) \<noteq> 1 then Inl Access_Invalid
            else (case insert_challenge_on digest Registration t lifetime (Some (iv_id i)) None
                     (d\<lparr>ad_invitations := update_where counts (\<lambda>j. j\<lparr>iv_attempt_count := iv_attempt_count j + 1\<rparr>) (ad_invitations d)\<rparr>) of
                    Inl e \<Rightarrow> Inl e
                  | Inr (_, d') \<Rightarrow>
                      Inr ((iv_id i, iv_principal i, pr_display_name p,
                            map cr_id (sort_key cr_enrolled_at (filter (\<lambda>c. cr_principal c = iv_principal i \<and> cr_revoked_at c = None
                              \<and> cr_inconsistent_at c = None) (ad_credentials d')))), d')))"

definition begin_registration :: "access_config \<Rightarrow> access_end \<Rightarrow> octets \<Rightarrow> string \<Rightarrow> octets \<Rightarrow> int \<Rightarrow> boot_instant option \<Rightarrow> int
    \<Rightarrow> access_db \<Rightarrow> (access_error, uuid \<times> uuid \<times> string \<times> octets list, access_db) outcome" where
  "begin_registration cfg e secret identity digest t instant lifetime d =
     (if \<not> secret_ok secret \<or> \<not> canonical_identity identity then (Inl Access_Invalid, d)
      else access_commit e (begin_registration_body cfg secret digest t instant lifetime) d)"

definition spend_challenge :: "octets \<Rightarrow> ceremony \<Rightarrow> uuid option \<Rightarrow> access_db \<Rightarrow> access_challenge option \<times> access_db" where
  "spend_challenge digest kind session_id d =
     (let hit = (\<lambda>x. ch_digest x = digest \<and> ch_ceremony x = kind \<and> (session_id = None \<or> ch_session x = session_id))
      in (find hit (ad_challenges d), d\<lparr>ad_challenges := filter (\<lambda>x. \<not> hit x) (ad_challenges d)\<rparr>))"

definition in_window :: "int \<Rightarrow> access_challenge \<Rightarrow> bool" where
  "in_window t x \<longleftrightarrow> ch_issued_at x \<le> t \<and> t < ch_expires_at x"

text \<open>\<open>consume_challenge\<close> deletes the row in a committed transaction before it judges the window.\<close>

definition consume_challenge :: "access_end \<Rightarrow> octets \<Rightarrow> ceremony \<Rightarrow> int \<Rightarrow> uuid option \<Rightarrow> access_db
    \<Rightarrow> (access_error, uuid option \<times> uuid option, access_db) outcome" where
  "consume_challenge e digest kind t session_id d =
     (if length digest \<noteq> 32 \<or> (kind = Step_Up) \<noteq> (session_id \<noteq> None) then (Inl Access_Invalid, d)
      else case access_commit e (\<lambda>x. Inr (spend_challenge digest kind session_id x)) d of
          (Inl err, d') \<Rightarrow> (Inl err, d')
        | (Inr None, d') \<Rightarrow> (Inl Access_Invalid, d')
        | (Inr (Some x), d') \<Rightarrow> (if in_window t x then Inr (ch_invitation x, ch_session x) else Inl Access_Invalid, d'))"

definition begin_step_up_body :: "access_config \<Rightarrow> octets \<Rightarrow> string \<Rightarrow> octets \<Rightarrow> int \<Rightarrow> int \<Rightarrow> octets access_tx" where
  "begin_step_up_body cfg token identity digest t lifetime d =
     gated_body cfg token identity t (\<lambda>(s, p, c) x.
       if pr_role p \<noteq> Role_Owner then Inl Access_Invalid
       else case insert_challenge_on digest Step_Up t lifetime None (Some (se_id s))
              (x\<lparr>ad_challenges := filter (\<lambda>y. \<not> (ch_ceremony y = Step_Up \<and> ch_session y = Some (se_id s))) (ad_challenges x)\<rparr>) of
          Inl e \<Rightarrow> Inl e
        | Inr (_, x') \<Rightarrow> Inr (se_credential s, x')) d"

definition begin_step_up :: "access_config \<Rightarrow> access_end \<Rightarrow> access_end \<Rightarrow> access_end \<Rightarrow> octets \<Rightarrow> string \<Rightarrow> octets \<Rightarrow> int \<Rightarrow> int
    \<Rightarrow> access_db \<Rightarrow> (access_error, octets, access_db) outcome" where
  "begin_step_up cfg e e2 e3 token identity digest t lifetime d =
     (case access_commit e (begin_step_up_body cfg token identity digest t lifetime) d of
        (Inr v, d') \<Rightarrow> (Inr v, d')
      | (Inl err, d') \<Rightarrow> (Inl err, if is_validation_error err then after_denial cfg e2 e3 token identity t d' else d'))"

definition pending_step_up_challenge :: "octets \<Rightarrow> int \<Rightarrow> access_db \<Rightarrow> uuid option" where
  "pending_step_up_challenge digest t d =
     (if length digest \<noteq> 32 then None
      else case find (\<lambda>x. ch_digest x = digest \<and> ch_ceremony x = Step_Up) (ad_challenges d) of
          None \<Rightarrow> None
        | Some x \<Rightarrow> if in_window t x then ch_session x else None)"

definition accept_credential :: "octets \<Rightarrow> uuid \<Rightarrow> int \<Rightarrow> int \<Rightarrow> bool \<Rightarrow> int \<Rightarrow> principal_role access_tx" where
  "accept_credential credential_id p expected sign_count backup_state t d =
     (case (find (\<lambda>c. cr_id c = credential_id \<and> cr_principal c = p) (ad_credentials d), principal_row d p) of
        (Some c, Some r) \<Rightarrow>
          if pr_status r \<noteq> Status_Active \<or> cr_revoked_at c \<noteq> None \<or> cr_inconsistent_at c \<noteq> None \<or> cr_sign_count c \<noteq> expected
             \<or> backup_state \<and> \<not> cr_backup_eligible c then Inl Access_Invalid
          else let hit = (\<lambda>x. cr_id x = credential_id \<and> cr_sign_count x = expected \<and> cr_revoked_at x = None \<and> cr_inconsistent_at x = None) in
            if rowcount hit (ad_credentials d) \<noteq> 1 then Inl Access_Invalid
            else Inr (pr_role r, d\<lparr>ad_credentials := update_where hit
                   (\<lambda>x. x\<lparr>cr_sign_count := sign_count, cr_backup_state := backup_state, cr_last_used_at := Some t\<rparr>) (ad_credentials d)\<rparr>)
      | _ \<Rightarrow> Inl Access_Invalid)"

definition step_up_session :: "access_config \<Rightarrow> octets \<Rightarrow> uuid \<Rightarrow> principal_role \<Rightarrow> string \<Rightarrow> uuid \<Rightarrow> octets \<Rightarrow> int \<Rightarrow> boot_instant option
    \<Rightarrow> uuid access_tx" where
  "step_up_session cfg credential_id p role identity session_id digest t instant d =
     (case (instant, find (\<lambda>s. se_id s = session_id) (ad_sessions d), principal_row d p) of
        (Some b, Some s, Some r) \<Rightarrow>
          if role \<noteq> Role_Owner \<or> se_principal s \<noteq> p \<or> se_credential s \<noteq> credential_id \<or> se_invalidated_at s \<noteq> None
             \<or> se_revision s \<noteq> pr_revision r \<or> se_generation s \<noteq> ad_generation d \<or> \<not> se_established_at s \<le> t
             \<or> \<not> se_last_seen_at s \<le> t \<or> se_idle_expires_at s \<le> t \<or> se_absolute_expires_at s \<le> t
             \<or> ac_bind cfg = None \<or> \<not> binding_matches cfg (se_binding s) identity then Inl Access_Invalid
          else (case spend_challenge digest Step_Up (Some session_id) d of
                  (None, _) \<Rightarrow> Inl Access_Invalid
                | (Some x, d') \<Rightarrow>
                    if \<not> in_window t x then Inl Access_Invalid
                    else Inr (session_id, touch_session_on s t
                      (d'\<lparr>ad_sessions := update_where (\<lambda>y. se_id y = session_id)
                           (\<lambda>y. y\<lparr>se_verified_at := Some t, se_verified_boot_id := Some (bi_boot_id b),
                                  se_verified_boottime := Some (bi_boottime b)\<rparr>) (ad_sessions d')\<rparr>)))
      | _ \<Rightarrow> Inl Access_Invalid)"

text \<open>What the assertion is for: a new session (its id and token) or a step-up (session and challenge digest).\<close>

datatype assertion_use = Sign_In uuid octets | Refresh uuid octets

definition accept_body :: "access_config \<Rightarrow> octets \<Rightarrow> uuid \<Rightarrow> string \<Rightarrow> int \<Rightarrow> int \<Rightarrow> bool \<Rightarrow> assertion_use \<Rightarrow> int \<Rightarrow> boot_instant option
    \<Rightarrow> uuid access_tx" where
  "accept_body cfg credential_id p identity expected sign_count backup_state purpose t instant d =
     (case accept_credential credential_id p expected sign_count backup_state t d of
        Inl e \<Rightarrow> Inl e
      | Inr (role, d1) \<Rightarrow>
          (case (case purpose of
                   Sign_In new_id token \<Rightarrow> establish_session_on cfg new_id p credential_id token identity t (Some t) instant
                                            IDLE_LIFETIME ABSOLUTE_LIFETIME d1
                 | Refresh session_id digest \<Rightarrow> step_up_session cfg credential_id p role identity session_id digest t instant d1) of
             Inl e \<Rightarrow> Inl e
           | Inr (sid, d2) \<Rightarrow>
               Inr (sid, append_audit (actor_of role) (case purpose of Sign_In _ _ \<Rightarrow> Authenticate | Refresh _ _ \<Rightarrow> Verify_Step_Up) p
                 (d2\<lparr>ad_principals := update_where (\<lambda>r. pr_id r = p) (\<lambda>r. r\<lparr>pr_external_identity := Some identity\<rparr>) (ad_principals d2)\<rparr>))))"

definition accept_assertion :: "access_config \<Rightarrow> access_end \<Rightarrow> octets \<Rightarrow> uuid \<Rightarrow> string \<Rightarrow> int \<Rightarrow> int \<Rightarrow> bool \<Rightarrow> assertion_use \<Rightarrow> int
    \<Rightarrow> boot_instant option \<Rightarrow> access_db \<Rightarrow> (access_error, uuid, access_db) outcome" where
  "accept_assertion cfg e credential_id p identity expected sign_count backup_state purpose t instant d =
     (if (case purpose of Sign_In _ _ \<Rightarrow> False | Refresh _ digest \<Rightarrow> length digest \<noteq> 32) \<or> \<not> canonical_identity identity
      then (Inl Access_Invalid, d)
      else if \<not> ac_audit cfg then (Inl Access_Storage, d)
      else access_commit e (accept_body cfg credential_id p identity expected sign_count backup_state purpose t instant) d)"

definition mark_credential_inconsistent_on :: "octets \<Rightarrow> uuid \<Rightarrow> int \<Rightarrow> bool access_tx" where
  "mark_credential_inconsistent_on credential_id p t d =
     (let hit = (\<lambda>c. cr_id c = credential_id \<and> cr_principal c = p \<and> cr_inconsistent_at c = None \<and> cr_revoked_at c = None) in
      if rowcount hit (ad_credentials d) \<noteq> 1 then Inr (False, d)
      else Inr (True, append_audit Actor_System Mark_Credential_Inconsistent p
             (end_session_rows t (\<lambda>s. se_credential s = credential_id)
               (d\<lparr>ad_credentials := update_where hit (\<lambda>c. c\<lparr>cr_inconsistent_at := Some t\<rparr>) (ad_credentials d)\<rparr>))))"

definition record_step_up_finding_body :: "octets \<Rightarrow> uuid \<Rightarrow> bool \<Rightarrow> octets \<Rightarrow> uuid \<Rightarrow> int \<Rightarrow> bool access_tx" where
  "record_step_up_finding_body digest session_id eligibility_changed credential_id p t d =
     (case spend_challenge digest Step_Up (Some session_id) d of
        (None, d') \<Rightarrow> Inr (False, d')
      | (Some x, d') \<Rightarrow>
          if \<not> in_window t x then Inr (False, d')
          else if eligibility_changed then mark_credential_inconsistent_on credential_id p t d'
          else Inr (True, append_audit Actor_System Detect_Sign_Count_Regression p d'))"

definition audited :: "access_config \<Rightarrow> access_end \<Rightarrow> 'a access_tx \<Rightarrow> access_db \<Rightarrow> (access_error, 'a, access_db) outcome" where
  "audited cfg e body d = (if \<not> ac_audit cfg then (Inl Access_Storage, d) else access_commit e body d)"

definition mark_credential_inconsistent :: "access_config \<Rightarrow> access_end \<Rightarrow> octets \<Rightarrow> uuid \<Rightarrow> int \<Rightarrow> access_db
    \<Rightarrow> (access_error, bool, access_db) outcome" where
  "mark_credential_inconsistent cfg e credential_id p t d = audited cfg e (mark_credential_inconsistent_on credential_id p t) d"

definition record_sign_count_regression :: "access_config \<Rightarrow> access_end \<Rightarrow> uuid \<Rightarrow> access_db \<Rightarrow> (access_error, unit, access_db) outcome" where
  "record_sign_count_regression cfg e p d = audited cfg e (\<lambda>x. Inr ((), append_audit Actor_System Detect_Sign_Count_Regression p x)) d"

definition record_step_up_finding :: "access_config \<Rightarrow> access_end \<Rightarrow> octets \<Rightarrow> uuid \<Rightarrow> bool \<Rightarrow> octets \<Rightarrow> uuid \<Rightarrow> int \<Rightarrow> access_db
    \<Rightarrow> (access_error, bool, access_db) outcome" where
  "record_step_up_finding cfg e digest session_id eligibility_changed credential_id p t d =
     (if length digest \<noteq> 32 then (Inl Access_Invalid, d)
      else audited cfg e (record_step_up_finding_body digest session_id eligibility_changed credential_id p t) d)"

section \<open>Reads\<close>

text \<open>A read transaction that fails (\<open>readable\<close> is false) is a storage error.\<close>

definition current_session :: "access_config \<Rightarrow> bool \<Rightarrow> access_end \<Rightarrow> octets \<Rightarrow> string \<Rightarrow> int \<Rightarrow> access_db
    \<Rightarrow> (access_error, (uuid \<times> uuid \<times> octets) option, access_db) outcome" where
  "current_session cfg readable e token identity t d =
     (if \<not> readable then (Inl Access_Storage, d)
      else case current_session_on cfg token identity t d of
          (None, mismatch) \<Rightarrow> (Inr None, record_binding_mismatch cfg e mismatch t d)
        | (Some (s, p, c), _) \<Rightarrow> (Inr (Some (se_id s, se_principal s, se_credential s)), d))"

definition assertion_subject :: "octets \<Rightarrow> access_db \<Rightarrow> (access_principal \<times> access_credential) option" where
  "assertion_subject credential_id d =
     (case credential_row d credential_id of
        None \<Rightarrow> None
      | Some c \<Rightarrow> (case principal_row d (cr_principal c) of None \<Rightarrow> None | Some p \<Rightarrow> Some (p, c)))"

definition require_owner_read_session_on :: "session_view \<Rightarrow> int \<Rightarrow> access_db \<Rightarrow> access_error + unit" where
  "require_owner_read_session_on view t d = (case owner_session_row_on view t d of Inl e \<Rightarrow> Inl e | Inr _ \<Rightarrow> Inr ())"

datatype credential_status = Credential_Active | Credential_Revoked | Credential_Inconsistent

definition credential_state :: "access_credential \<Rightarrow> credential_status" where
  "credential_state c =
     (if cr_revoked_at c \<noteq> None then Credential_Revoked else if cr_inconsistent_at c \<noteq> None then Credential_Inconsistent
      else Credential_Active)"

text \<open>
  \<open>inconsistency_reason\<close> has one value and is written together with \<open>inconsistent_at_us\<close>, so the inventory shows it as a
  flag. Times are shown as numbers, the permissions in the order of their names.
\<close>

record inventory_credential =
  ic_handle :: uuid
  ic_label :: "string option"
  ic_status :: credential_status
  ic_inconsistency_reason :: bool
  ic_backup_eligible :: bool
  ic_backup_state :: bool
  ic_created_at :: int
  ic_last_used_at :: "int option"
  ic_revoked_at :: "int option"

record inventory_principal =
  ip_id :: uuid
  ip_display_name :: string
  ip_role :: principal_role
  ip_status :: principal_status
  ip_created_at :: int
  ip_revoked_at :: "int option"
  ip_permissions :: "permission list"
  ip_pending :: bool
  ip_expires_at :: "int option"
  ip_credentials :: "inventory_credential list"

definition credential_view :: "access_credential \<Rightarrow> inventory_credential" where
  "credential_view c = \<lparr>ic_handle = cr_handle c, ic_label = cr_label c, ic_status = credential_state c,
     ic_inconsistency_reason = (cr_inconsistent_at c \<noteq> None), ic_backup_eligible = cr_backup_eligible c,
     ic_backup_state = cr_backup_state c, ic_created_at = cr_enrolled_at c, ic_last_used_at = cr_last_used_at c,
     ic_revoked_at = cr_revoked_at c\<rparr>"

definition pending_expiry :: "uuid \<Rightarrow> access_invitation list \<Rightarrow> int option" where
  "pending_expiry p rows =
     (case filter (\<lambda>i. iv_principal i = p) rows of
        [] \<Rightarrow> None
      | codes \<Rightarrow> Some (foldl (\<lambda>m i. max (iv_expires_at i) m) 0 codes))"

definition inventory_row :: "access_invitation list \<Rightarrow> access_db \<Rightarrow> access_principal \<Rightarrow> inventory_principal" where
  "inventory_row pending d r =
     \<lparr>ip_id = pr_id r, ip_display_name = pr_display_name r, ip_role = pr_role r, ip_status = pr_status r,
      ip_created_at = pr_created_at r, ip_revoked_at = pr_revoked_at r,
      ip_permissions = filter (\<lambda>x. x \<in> granted_on r d) [Live_View, Recordings_View],
      ip_pending = (pending_expiry (pr_id r) pending \<noteq> None), ip_expires_at = pending_expiry (pr_id r) pending,
      ip_credentials = map credential_view (sort_key (\<lambda>c. (cr_enrolled_at c, cr_handle c))
        (filter (\<lambda>c. cr_principal c = pr_id r) (ad_credentials d)))\<rparr>"

definition admin_inventory :: "session_view option \<Rightarrow> int \<Rightarrow> boot_instant option \<Rightarrow> access_db \<Rightarrow> access_error + inventory_principal list" where
  "admin_inventory owner_session t instant d =
     (case (case owner_session of None \<Rightarrow> Inr () | Some view \<Rightarrow> require_owner_read_session_on view t d) of
        Inl e \<Rightarrow> Inl e
      | Inr _ \<Rightarrow> Inr (map (inventory_row (pending_invitations_on t instant None d) d)
          (sort_key (\<lambda>r. (pr_created_at r, pr_id r)) (ad_principals d))))"

end
