(* ===== verification/Access_Evolution.thy ===== *)
theory Access_Evolution
  imports Access_Store
begin

text \<open>
  What every transaction of the authorization store keeps. Rows are never deleted and only ever change in one direction
  (\<open>evolves\<close>): a redeemed or revoked invitation, an ended session, a revoked or inconsistent credential and a revoked
  invited person stay so. And the tables stay consistent (\<open>access_inv\<close>). Both are proved of each statement and
  then of each operation.
\<close>

section \<open>Rows that only grow\<close>

definition principal_le :: "access_principal \<Rightarrow> access_principal \<Rightarrow> bool" where
  "principal_le a b \<longleftrightarrow> pr_id b = pr_id a \<and> pr_role b = pr_role a \<and> pr_revision a \<le> pr_revision b
     \<and> (pr_role a = Role_Invited_User \<and> pr_status a = Status_Revoked \<longrightarrow> pr_status b = Status_Revoked)"

definition credential_le :: "access_credential \<Rightarrow> access_credential \<Rightarrow> bool" where
  "credential_le a b \<longleftrightarrow> cr_id b = cr_id a \<and> cr_principal b = cr_principal a \<and> cr_public_key b = cr_public_key a
     \<and> (cr_revoked_at a \<noteq> None \<longrightarrow> cr_revoked_at b \<noteq> None) \<and> (cr_inconsistent_at a \<noteq> None \<longrightarrow> cr_inconsistent_at b \<noteq> None)"

definition invitation_le :: "access_invitation \<Rightarrow> access_invitation \<Rightarrow> bool" where
  "invitation_le a b \<longleftrightarrow> iv_id b = iv_id a \<and> iv_secret_digest b = iv_secret_digest a \<and> iv_principal b = iv_principal a
     \<and> iv_generation b = iv_generation a \<and> iv_issued_at b = iv_issued_at a \<and> iv_expires_at b = iv_expires_at a
     \<and> iv_lookup_key b = iv_lookup_key a \<and> iv_boot_id b = iv_boot_id a \<and> iv_boottime b = iv_boottime a
     \<and> (iv_redeemed_at a \<noteq> None \<longrightarrow> iv_redeemed_at b \<noteq> None) \<and> (iv_revoked_at a \<noteq> None \<longrightarrow> iv_revoked_at b \<noteq> None)"

definition session_le :: "access_session \<Rightarrow> access_session \<Rightarrow> bool" where
  "session_le a b \<longleftrightarrow> se_id b = se_id a \<and> se_token_digest b = se_token_digest a \<and> se_principal b = se_principal a
     \<and> se_credential b = se_credential a \<and> se_revision b = se_revision a \<and> se_generation b = se_generation a
     \<and> se_established_at b = se_established_at a \<and> se_absolute_expires_at b = se_absolute_expires_at a
     \<and> (se_invalidated_at a \<noteq> None \<longrightarrow> se_invalidated_at b \<noteq> None)"

lemmas row_le_defs = principal_le_def credential_le_def invitation_le_def session_le_def

definition grows :: "('a \<Rightarrow> 'a \<Rightarrow> bool) \<Rightarrow> 'a list \<Rightarrow> 'a list \<Rightarrow> bool" where
  "grows R xs ys \<longleftrightarrow> (\<exists>zs news. ys = zs @ news \<and> list_all2 R xs zs)"

lemma grows_refl: "(\<And>x. R x x) \<Longrightarrow> grows R xs xs"
  unfolding grows_def by (metis append_Nil2 list_all2_refl)

lemma grows_append: "(\<And>x. R x x) \<Longrightarrow> grows R xs (xs @ ys)"
  unfolding grows_def by (metis list_all2_refl)

lemma grows_update: "(\<And>x. R x x) \<Longrightarrow> (\<And>x. x \<in> set xs \<Longrightarrow> P x \<Longrightarrow> R x (f x)) \<Longrightarrow> grows R xs (update_where P f xs)"
  unfolding grows_def update_where_def
  by (intro exI [of _ "map (\<lambda>r. if P r then f r else r) xs"] exI [of _ "[]"]) (auto simp: list_all2_conv_all_nth)

lemma grows_trans:
  assumes "\<And>x y z. R x y \<Longrightarrow> R y z \<Longrightarrow> R x z" "grows R xs ys" "grows R ys zs"
  shows "grows R xs zs"
proof -
  obtain ys1 ys2 where y: "ys = ys1 @ ys2" "list_all2 R xs ys1" using assms(2) by (auto simp: grows_def)
  obtain zs1 zs2 where z: "zs = zs1 @ zs2" "list_all2 R ys zs1" using assms(3) by (auto simp: grows_def)
  obtain us vs where u: "zs1 = us @ vs" "list_all2 R ys1 us" using z(2) unfolding y(1) by (auto simp: list_all2_append1)
  have "list_all2 R xs us" by (rule list_all2_trans [OF assms(1) y(2) u(2)])
  then show ?thesis using z(1) u(1) unfolding grows_def by (intro exI [of _ us] exI [of _ "vs @ zs2"]) simp
qed

text \<open>A look-up by a key that never changes finds the later version of the same row.\<close>

lemma grows_find:
  assumes "grows R xs ys" "find P xs = Some x" "\<And>a b. R a b \<Longrightarrow> P b = P a"
  shows "\<exists>y. find P ys = Some y \<and> R x y"
proof -
  obtain zs news where z: "ys = zs @ news" "list_all2 R xs zs" using assms(1) by (auto simp: grows_def)
  from z(2) assms(2) have "\<exists>y. find P zs = Some y \<and> R x y"
    by (induction rule: list_all2_induct) (auto simp: assms(3) split: if_splits)
  moreover have "find P zs = Some y \<Longrightarrow> find P (zs @ news) = Some y" for y by (induction zs) auto
  ultimately show ?thesis unfolding z(1) by blast
qed

definition evolves :: "access_db \<Rightarrow> access_db \<Rightarrow> bool" where
  "evolves d d' \<longleftrightarrow> ad_generation d \<le> ad_generation d' \<and> grows principal_le (ad_principals d) (ad_principals d')
     \<and> grows credential_le (ad_credentials d) (ad_credentials d') \<and> grows invitation_le (ad_invitations d) (ad_invitations d')
     \<and> grows session_le (ad_sessions d) (ad_sessions d')"

lemma row_le_refl: "principal_le p p" "credential_le c c" "invitation_le i i" "session_le s s"
  by (simp_all add: row_le_defs)

lemma evolves_refl: "evolves d d"
  by (simp add: evolves_def grows_refl row_le_refl)

lemma evolves_trans: "evolves a b \<Longrightarrow> evolves b c \<Longrightarrow> evolves a c"
  unfolding evolves_def by (auto elim!: grows_trans [rotated] simp: row_le_defs)

section \<open>Consistency of the tables\<close>

definition open_code :: "uuid \<Rightarrow> access_invitation \<Rightarrow> bool" where
  "open_code p i \<longleftrightarrow> iv_principal i = p \<and> iv_redeemed_at i = None \<and> iv_revoked_at i = None"

definition principals_ok :: "access_db \<Rightarrow> bool" where
  "principals_ok d \<longleftrightarrow> distinct (map pr_id (ad_principals d)) \<and> rowcount (\<lambda>p. pr_role p = Role_Owner) (ad_principals d) \<le> 1"

definition invitations_ok :: "access_db \<Rightarrow> bool" where
  "invitations_ok d \<longleftrightarrow> distinct (map iv_id (ad_invitations d)) \<and> distinct (map iv_lookup_key (ad_invitations d))
     \<and> (\<forall>i \<in> set (ad_invitations d). iv_generation i \<le> ad_generation d)
     \<and> (\<forall>p. rowcount (open_code p) (ad_invitations d) \<le> 1)"

definition session_ok :: "access_credential list \<Rightarrow> access_session \<Rightarrow> bool" where
  "session_ok cs s \<longleftrightarrow> se_idle_expires_at s \<le> se_absolute_expires_at s
     \<and> (se_credential s, se_principal s) \<in> (\<lambda>c. (cr_id c, cr_principal c)) ` set cs"

definition sessions_ok :: "access_db \<Rightarrow> bool" where
  "sessions_ok d \<longleftrightarrow> distinct (map cr_id (ad_credentials d)) \<and> distinct (map se_id (ad_sessions d))
     \<and> distinct (map se_token_digest (ad_sessions d)) \<and> (\<forall>s \<in> set (ad_sessions d). session_ok (ad_credentials d) s)"

definition challenges_ok :: "access_db \<Rightarrow> bool" where
  "challenges_ok d \<longleftrightarrow> length (ad_challenges d) \<le> MAX_PENDING_CHALLENGES \<and> distinct (map ch_digest (ad_challenges d))"

definition redemptions :: "access_db \<Rightarrow> nat" where
  "redemptions d = rowcount (\<lambda>i. iv_redeemed_at i \<noteq> None) (ad_invitations d)"

definition redeem_records :: "access_db \<Rightarrow> nat" where
  "redeem_records d = rowcount (\<lambda>(actor, action, p). action = Redeem_Invitation) (ad_audit d)"

definition enrolled_ok :: "access_db \<Rightarrow> bool" where
  "enrolled_ok d \<longleftrightarrow> length (ad_credentials d) = redemptions d \<and> redeem_records d \<le> redemptions d"

definition access_inv :: "access_db \<Rightarrow> bool" where
  "access_inv d \<longleftrightarrow> principals_ok d \<and> invitations_ok d \<and> sessions_ok d \<and> challenges_ok d \<and> enrolled_ok d"

lemma access_inv_init: "access_inv access_db_init"
  by (simp add: access_inv_def principals_ok_def invitations_ok_def sessions_ok_def challenges_ok_def enrolled_ok_def
      redemptions_def redeem_records_def access_db_init_def rowcount_def)

text \<open>A transition keeps the promises when it evolves and keeps the tables consistent.\<close>

definition keeps_promises :: "access_db \<Rightarrow> access_db \<Rightarrow> bool" where
  "keeps_promises d d' \<longleftrightarrow> (access_inv d \<longrightarrow> evolves d d' \<and> access_inv d')"

lemma keeps_promises_refl [simp]: "keeps_promises d d"
  by (simp add: keeps_promises_def evolves_refl)

lemma keeps_promises_trans: "keeps_promises a b \<Longrightarrow> keeps_promises b c \<Longrightarrow> keeps_promises a c"
  unfolding keeps_promises_def using evolves_trans by blast

section \<open>Statements\<close>

lemma update_where_keys: "(\<And>x. x \<in> set xs \<Longrightarrow> P x \<Longrightarrow> k (f x) = k x) \<Longrightarrow> map k (update_where P f xs) = map k xs"
  by (simp add: update_where_def)

lemma rowcount_update: "(\<And>x. x \<in> set xs \<Longrightarrow> P x \<Longrightarrow> Q (f x) = Q x) \<Longrightarrow> rowcount Q (update_where P f xs) = rowcount Q xs"
  unfolding rowcount_def update_where_def by (induction xs) auto

lemma rowcount_update_le: "(\<And>x. x \<in> set xs \<Longrightarrow> P x \<Longrightarrow> Q (f x) \<Longrightarrow> Q x) \<Longrightarrow> rowcount Q (update_where P f xs) \<le> rowcount Q xs"
  unfolding rowcount_def update_where_def by (induction xs) (auto intro: le_SucI)

lemma rowcount_simps [simp]: "rowcount P [] = 0" "rowcount P (xs @ ys) = rowcount P xs + rowcount P ys"
  "rowcount P (x # xs) = (if P x then Suc (rowcount P xs) else rowcount P xs)"
  by (simp_all add: rowcount_def)

lemma set_update_where: "y \<in> set (update_where P f xs) \<longleftrightarrow> (\<exists>x \<in> set xs. y = (if P x then f x else x))"
  by (auto simp: update_where_def)

lemma sessions_update:
  assumes "\<And>s. \<lbrakk>access_inv d; s \<in> set (ad_sessions d); P s\<rbrakk> \<Longrightarrow>
    session_le s (f s) \<and> (se_idle_expires_at s \<le> se_absolute_expires_at s \<longrightarrow> se_idle_expires_at (f s) \<le> se_absolute_expires_at (f s))"
  shows "keeps_promises d (d\<lparr>ad_sessions := update_where P f (ad_sessions d)\<rparr>)"
proof -
  let ?d = "d\<lparr>ad_sessions := update_where P f (ad_sessions d)\<rparr>"
  have "evolves d ?d \<and> access_inv ?d" if i: "access_inv d"
  proof -
    have "evolves d ?d" using assms [OF i] by (simp add: evolves_def grows_refl grows_update row_le_refl)
    moreover have "map se_id (ad_sessions ?d) = map se_id (ad_sessions d)" "map se_token_digest (ad_sessions ?d) = map se_token_digest (ad_sessions d)"
      using assms [OF i] by (simp_all add: update_where_keys session_le_def)
    moreover have "session_ok (ad_credentials d) y" if "y \<in> set (ad_sessions ?d)" for y
      using that assms [OF i] i
      by (fastforce simp: set_update_where session_ok_def session_le_def access_inv_def sessions_ok_def split: if_splits)
    ultimately show ?thesis using i
      by (simp add: access_inv_def principals_ok_def invitations_ok_def sessions_ok_def challenges_ok_def enrolled_ok_def
          redemptions_def redeem_records_def)
  qed
  then show ?thesis by (simp add: keeps_promises_def)
qed

lemma invitations_update:
  assumes "\<And>i. \<lbrakk>i \<in> set (ad_invitations d); P i\<rbrakk> \<Longrightarrow> invitation_le i (f i) \<and> iv_redeemed_at (f i) = iv_redeemed_at i"
  shows "keeps_promises d (d\<lparr>ad_invitations := update_where P f (ad_invitations d)\<rparr>)"
proof -
  let ?d = "d\<lparr>ad_invitations := update_where P f (ad_invitations d)\<rparr>"
  have "evolves d ?d" using assms by (simp add: evolves_def grows_refl grows_update row_le_refl)
  moreover have "map iv_id (ad_invitations ?d) = map iv_id (ad_invitations d)"
    "map iv_lookup_key (ad_invitations ?d) = map iv_lookup_key (ad_invitations d)"
    using assms by (simp_all add: update_where_keys invitation_le_def)
  moreover have cnt: "rowcount (open_code p) (update_where P f (ad_invitations d)) \<le> rowcount (open_code p) (ad_invitations d)" for p
  proof -
    have "open_code p i" if "i \<in> set (ad_invitations d)" "P i" "open_code p (f i)" for i
      using assms [OF that(1,2)] that(3) by (auto simp: open_code_def invitation_le_def)
    then show ?thesis using rowcount_update_le [of "ad_invitations d" P "open_code p" f] by blast
  qed
  moreover have "redemptions ?d = redemptions d"
    using rowcount_update [of "ad_invitations d" P "\<lambda>i. iv_redeemed_at i \<noteq> None" f] assms by (simp add: redemptions_def)
  moreover have "\<forall>i \<in> set (ad_invitations ?d). iv_generation i \<le> ad_generation d" if "invitations_ok d"
    using that assms by (fastforce simp: invitations_ok_def set_update_where invitation_le_def)
  ultimately show ?thesis unfolding keeps_promises_def
    by (auto simp: access_inv_def principals_ok_def invitations_ok_def sessions_ok_def challenges_ok_def enrolled_ok_def redeem_records_def
        intro: order_trans [OF cnt])
qed

lemma principals_update:
  assumes "\<And>r. \<lbrakk>access_inv d; r \<in> set (ad_principals d); P r\<rbrakk> \<Longrightarrow> principal_le r (f r)"
  shows "keeps_promises d (d\<lparr>ad_principals := update_where P f (ad_principals d)\<rparr>)"
proof -
  let ?d = "d\<lparr>ad_principals := update_where P f (ad_principals d)\<rparr>"
  have "evolves d ?d \<and> access_inv ?d" if i: "access_inv d"
  proof -
    have "evolves d ?d" using assms [OF i] by (simp add: evolves_def grows_refl grows_update row_le_refl)
    moreover have "map pr_id (ad_principals ?d) = map pr_id (ad_principals d)" using assms [OF i] by (simp add: update_where_keys principal_le_def)
    moreover have "rowcount (\<lambda>p. pr_role p = Role_Owner) (ad_principals ?d) = rowcount (\<lambda>p. pr_role p = Role_Owner) (ad_principals d)"
      using rowcount_update [of "ad_principals d" P "\<lambda>p. pr_role p = Role_Owner" f] assms [OF i] by (simp add: principal_le_def)
    ultimately show ?thesis using i
      by (simp add: access_inv_def principals_ok_def invitations_ok_def sessions_ok_def challenges_ok_def enrolled_ok_def
          redemptions_def redeem_records_def)
  qed
  then show ?thesis by (simp add: keeps_promises_def)
qed

lemma credentials_update:
  assumes "\<And>c. \<lbrakk>c \<in> set (ad_credentials d); P c\<rbrakk> \<Longrightarrow> credential_le c (f c)"
  shows "keeps_promises d (d\<lparr>ad_credentials := update_where P f (ad_credentials d)\<rparr>)"
proof -
  let ?d = "d\<lparr>ad_credentials := update_where P f (ad_credentials d)\<rparr>"
  have "evolves d ?d" using assms by (simp add: evolves_def grows_refl grows_update row_le_refl)
  moreover have "map cr_id (ad_credentials ?d) = map cr_id (ad_credentials d)" using assms by (simp add: update_where_keys credential_le_def)
  moreover have "map (\<lambda>c. (cr_id c, cr_principal c)) (ad_credentials ?d) = map (\<lambda>c. (cr_id c, cr_principal c)) (ad_credentials d)"
    using assms by (simp add: update_where_keys credential_le_def)
  then have "session_ok (ad_credentials ?d) = session_ok (ad_credentials d)"
    unfolding session_ok_def list.set_map [symmetric] by (simp only:)
  moreover have "length (ad_credentials ?d) = length (ad_credentials d)" by (simp add: update_where_def)
  ultimately show ?thesis unfolding keeps_promises_def
    by (simp add: access_inv_def principals_ok_def invitations_ok_def sessions_ok_def challenges_ok_def enrolled_ok_def
        redemptions_def redeem_records_def)
qed

lemma challenges_filter: "keeps_promises d (d\<lparr>ad_challenges := filter P (ad_challenges d)\<rparr>)"
  unfolding keeps_promises_def using le_trans [OF length_filter_le]
  by (auto simp: access_inv_def principals_ok_def invitations_ok_def sessions_ok_def challenges_ok_def enrolled_ok_def
      redemptions_def redeem_records_def evolves_def grows_refl row_le_refl distinct_map_filter)

lemma audit_append:
  assumes "action \<noteq> Redeem_Invitation"
  shows "keeps_promises d (append_audit actor action p d)"
  unfolding keeps_promises_def using assms
  by (simp add: append_audit_def access_inv_def principals_ok_def invitations_ok_def sessions_ok_def challenges_ok_def enrolled_ok_def
      redemptions_def redeem_records_def evolves_def grows_refl row_le_refl)

text \<open>Audit retention deletes rows of the audit table and nothing else.\<close>

lemma rowcount_nths: "rowcount P (nths xs kept) \<le> rowcount P xs"
  by (induction xs arbitrary: kept) (auto simp: rowcount_def nths_Cons le_SucI)

lemma audit_kept: "keeps_promises d (d\<lparr>ad_audit := nths (ad_audit d) kept\<rparr>)"
  unfolding keeps_promises_def using le_trans [OF rowcount_nths]
  by (auto simp: access_inv_def principals_ok_def invitations_ok_def sessions_ok_def challenges_ok_def enrolled_ok_def
      redemptions_def redeem_records_def evolves_def grows_refl row_le_refl)

lemma grants_update: "keeps_promises d (d\<lparr>ad_grants := g\<rparr>)"
  unfolding keeps_promises_def
  by (simp add: access_inv_def principals_ok_def invitations_ok_def sessions_ok_def challenges_ok_def enrolled_ok_def
      redemptions_def redeem_records_def evolves_def grows_refl row_le_refl)

lemma commit_keeps:
  "(\<And>v d'. body d = Inr (v, d') \<Longrightarrow> keeps_promises d d') \<Longrightarrow> keeps_promises d (snd (access_commit e body d))"
  by (auto simp: access_commit_def split: access_end.splits sum.splits prod.splits)

lemmas consistency_defs = access_inv_def principals_ok_def invitations_ok_def sessions_ok_def challenges_ok_def enrolled_ok_def
  redemptions_def redeem_records_def

section \<open>Sessions\<close>

lemma end_session_rows_keeps: "keeps_promises d (end_session_rows t P d)"
  unfolding end_session_rows_def by (rule sessions_update) (simp add: session_le_def)

lemma end_expired_keeps: "keeps_promises d (end_expired_sessions_on t d)"
  unfolding end_expired_sessions_on_def by (rule sessions_update) (simp add: session_le_def split: option.splits)

lemma touch_keeps:
  assumes "row \<in> set (ad_sessions d)"
  shows "keeps_promises d (touch_session_on row t d)"
  unfolding touch_session_on_def
proof (rule sessions_update)
  fix s assume i: "access_inv d" and s: "s \<in> set (ad_sessions d)" "se_id s = se_id row"
  have "s = row" using i s assms by (auto simp: access_inv_def sessions_ok_def distinct_map inj_on_def)
  then show "session_le s (s\<lparr>se_last_seen_at := t, se_idle_expires_at := min (t + se_idle_lifetime row) (se_absolute_expires_at row)\<rparr>)
      \<and> (se_idle_expires_at s \<le> se_absolute_expires_at s \<longrightarrow>
         se_idle_expires_at (s\<lparr>se_last_seen_at := t, se_idle_expires_at := min (t + se_idle_lifetime row) (se_absolute_expires_at row)\<rparr>)
         \<le> se_absolute_expires_at (s\<lparr>se_last_seen_at := t, se_idle_expires_at := min (t + se_idle_lifetime row) (se_absolute_expires_at row)\<rparr>))"
    by (simp add: session_le_def)
qed

lemma insert_session_keeps:
  assumes "insert_session s d = Inr (v, d')" "session_ok (ad_credentials d) s"
  shows "keeps_promises d d'"
proof -
  have d': "d' = d\<lparr>ad_sessions := ad_sessions d @ [s]\<rparr>" and new: "se_id s \<notin> se_id ` set (ad_sessions d)"
    "se_token_digest s \<notin> se_token_digest ` set (ad_sessions d)"
    using assms(1) by (auto simp: insert_session_def split: if_splits)
  have "evolves d d'" unfolding d' by (simp add: evolves_def grows_refl grows_append row_le_refl)
  then show ?thesis unfolding keeps_promises_def using new assms(2) unfolding d' by (auto simp: consistency_defs)
qed

lemma establish_keeps:
  assumes "establish_session_on cfg new_id p c token identity t v b idle absolute d = Inr (sid, d')"
  shows "keeps_promises d d'"
proof -
  let ?d = "end_expired_sessions_on t d"
  obtain s u where ins: "insert_session s ?d = Inr (u, d')" and s: "se_credential s = c" "se_principal s = p"
      "se_idle_expires_at s \<le> se_absolute_expires_at s"
    and c: "find (\<lambda>x. cr_id x = c \<and> cr_principal x = p) (ad_credentials d) \<noteq> None"
    using assms by (auto simp: establish_session_on_def split: option.splits if_splits prod.splits sum.splits)
  obtain x where "x \<in> set (ad_credentials d)" "cr_id x = c" "cr_principal x = p"
    using c by (auto simp: find_Some_iff in_set_conv_nth)
  then have "session_ok (ad_credentials ?d) s" using s by (force simp: session_ok_def end_expired_sessions_on_def)
  from keeps_promises_trans [OF end_expired_keeps insert_session_keeps [OF ins this]] show ?thesis .
qed

lemma mismatch_keeps: "mismatch_body sid p t d = Inr (v, d') \<Longrightarrow> keeps_promises d d'"
proof -
  assume m: "mismatch_body sid p t d = Inr (v, d')"
  have upd: "keeps_promises d (d\<lparr>ad_sessions := update_where P (\<lambda>x. x\<lparr>se_mismatch_suppressed := n x\<rparr>) (ad_sessions d)\<rparr>)"
    "keeps_promises d (d\<lparr>ad_sessions := update_where P (\<lambda>x. x\<lparr>se_mismatch_audited_at := Some t\<rparr>) (ad_sessions d)\<rparr>)" for P n
    by (rule sessions_update, simp add: session_le_def)+
  show ?thesis using m upd keeps_promises_trans [OF upd(2) audit_append]
    by (auto simp: mismatch_body_def split: option.splits if_splits)
qed

lemma after_denial_keeps: "keeps_promises d (after_denial cfg e2 e3 token identity t d)"
proof -
  have sweep: "keeps_promises d (snd (access_commit e2 (\<lambda>x. Inr ((), end_expired_sessions_on t x)) d))"
    by (rule commit_keeps) (auto simp: end_expired_keeps)
  have "keeps_promises x (record_binding_mismatch cfg e3 m t x)" for x m
    by (auto simp: record_binding_mismatch_def mismatch_keeps intro!: commit_keeps split: option.splits)
  then show ?thesis unfolding after_denial_def using keeps_promises_trans [OF sweep] by blast
qed

lemma current_session_in:
  "fst (current_session_on cfg token identity t d) = Some (s, p, c) \<Longrightarrow> s \<in> set (ad_sessions d) \<and> session_current s p c (ad_generation d) t
     \<and> principal_row d (se_principal s) = Some p \<and> credential_row d (se_credential s) = Some c
     \<and> find (\<lambda>s. se_token_digest s = request_digest cfg token) (ad_sessions d) = Some s"
  by (auto simp: current_session_on_def session_join_def Let_def find_Some_iff in_set_conv_nth split: option.splits prod.splits if_splits)

lemma gated_keeps:
  assumes "gated_body cfg token identity t decide d = Inr (v, d')"
    and "\<And>s p c x v d'. \<lbrakk>s \<in> set (ad_sessions x); decide (s, p, c) x = Inr (v, d')\<rbrakk> \<Longrightarrow> keeps_promises x d'"
  shows "keeps_promises d d'"
proof -
  obtain s p c where "fst (current_session_on cfg token identity t (end_expired_sessions_on t d)) = Some (s, p, c)"
    "decide (s, p, c) (end_expired_sessions_on t d) = Inr (v, d')"
    using assms(1) by (auto simp: gated_body_def Let_def split: option.splits)
  then show ?thesis using keeps_promises_trans [OF end_expired_keeps assms(2)] current_session_in by blast
qed

lemma authorize_gated_keeps:
  assumes "\<And>s p c x v d'. \<lbrakk>s \<in> set (ad_sessions x); decide (s, p, c) x = Inr (v, d')\<rbrakk> \<Longrightarrow> keeps_promises x d'"
  shows "keeps_promises d (snd (authorize_gated cfg g e e2 e3 token identity t decide d))"
proof -
  let ?r = "access_commit e (gated_body cfg token identity t decide) d"
  have "keeps_promises d (snd ?r)" by (rule commit_keeps) (rule gated_keeps, assumption, rule assms)
  then show ?thesis using keeps_promises_trans [OF _ after_denial_keeps]
    by (cases ?r; cases "fst ?r") (auto simp: authorize_gated_def)
qed

lemma step_up_or_snd [simp]: "snd (step_up_or r) = snd r"
  by (auto simp: step_up_or_def split: prod.splits sum.splits)

lemma authorizations_keep:
  "keeps_promises d (snd (authorize_request cfg g e e2 e3 token identity req csrf touch t instant freshness d))"
  "keeps_promises d (snd (authorize cfg g e e2 e3 token identity perm t d))"
  "keeps_promises d (snd (authorize_session cfg g e e2 e3 token identity t d))"
  "keeps_promises d (snd (authorize_owner cfg g e e2 e3 token identity t instant freshness d))"
  unfolding authorize_request_def authorize_def authorize_session_def authorize_owner_def
  by (auto intro!: authorize_gated_keeps simp: decide_request_def touch_keeps Let_def split: if_splits)

lemma sign_out_keeps: "keeps_promises d (snd (sign_out cfg g e view t d))"
proof -
  have "keeps_promises d d'" if "sign_out_body view t d = Inr (v, d')" for v d'
    using that keeps_promises_trans [OF end_session_rows_keeps audit_append]
    by (auto simp: sign_out_body_def end_session_on_def split: option.splits if_splits)
  then show ?thesis by (auto simp: sign_out_def intro!: commit_keeps)
qed

section \<open>Invitations and principals\<close>

lemma void_keeps: "keeps_promises d (void_invitations t p d)"
  unfolding void_invitations_def by (rule invitations_update) (simp add: invitation_le_def)

lemma void_closes: "rowcount (open_code p) (ad_invitations (void_invitations t p d)) = 0"
proof -
  have "\<not> open_code p y" if y: "y \<in> set (ad_invitations (void_invitations t p d))" for y
  proof -
    obtain x where "y = (if open_code p x then x\<lparr>iv_revoked_at := Some t\<rparr> else x)"
      using y unfolding void_invitations_def open_code_def by (auto simp: set_update_where)
    then show ?thesis by (cases "open_code p x") (simp_all add: open_code_def)
  qed
  then show ?thesis by (simp add: rowcount_def filter_empty_conv)
qed

lemma insert_invitation_keeps:
  assumes "insert_invitation i d = Inr (v, d')" "iv_redeemed_at i = None" "iv_lookup_key i \<noteq> None" "iv_generation i = ad_generation d"
    "rowcount (open_code (iv_principal i)) (ad_invitations d) = 0"
  shows "keeps_promises d d'"
proof -
  have d': "d' = d\<lparr>ad_invitations := ad_invitations d @ [i]\<rparr>" and new: "iv_id i \<notin> iv_id ` set (ad_invitations d)"
    "iv_lookup_key i \<notin> iv_lookup_key ` set (ad_invitations d)"
    using assms(1,3) by (auto simp: insert_invitation_def split: if_splits)
  have "evolves d d'" unfolding d' by (simp add: evolves_def grows_refl grows_append row_le_refl)
  moreover have "rowcount (open_code p) (ad_invitations d @ [i]) \<le> 1" if "\<forall>p. rowcount (open_code p) (ad_invitations d) \<le> 1" for p
    using that assms(5) by (auto simp: open_code_def)
  ultimately show ?thesis unfolding keeps_promises_def using new assms(2,4) unfolding d' by (auto simp: consistency_defs)
qed

lemma issue_keeps:
  assumes "issue_enrollment_on cfg new_id p secret expiry t instant d = Inr (j, d')"
  shows "keeps_promises d d'"
proof -
  obtain i v where ins: "insert_invitation i (void_invitations t p d) = Inr (v, d')" and i: "iv_redeemed_at i = None"
      "iv_lookup_key i \<noteq> None" "iv_generation i = ad_generation d" "iv_principal i = p"
    using assms by (auto simp: issue_enrollment_on_def split: option.splits if_splits sum.splits prod.splits)
  have "keeps_promises (void_invitations t p d) d'"
    by (rule insert_invitation_keeps [OF ins]) (use i void_closes in \<open>auto simp: void_invitations_def\<close>)
  then show ?thesis using keeps_promises_trans [OF void_keeps] by blast
qed

lemma insert_principal_keeps: "insert_principal p d = Inr (v, d') \<Longrightarrow> keeps_promises d d'"
proof -
  assume a: "insert_principal p d = Inr (v, d')"
  then have d': "d' = d\<lparr>ad_principals := ad_principals d @ [p]\<rparr>" and new: "pr_id p \<notin> pr_id ` set (ad_principals d)"
    and o: "pr_role p = Role_Owner \<Longrightarrow> Role_Owner \<notin> pr_role ` set (ad_principals d)"
    by (auto simp: insert_principal_def split: if_splits)
  have "rowcount (\<lambda>p. pr_role p = Role_Owner) (ad_principals d) = 0" if "pr_role p = Role_Owner"
    using o [OF that] by (auto simp: rowcount_def filter_empty_conv image_iff)
  note new = new this
  have "evolves d d'" unfolding d' by (simp add: evolves_def grows_refl grows_append row_le_refl)
  then show ?thesis unfolding keeps_promises_def using new unfolding d' by (auto simp: consistency_defs)
qed

lemma bootstrap_owner_keeps: "bootstrap_owner p name t d = Inr (v, d') \<Longrightarrow> keeps_promises d d'"
  using insert_principal_keeps by (fastforce simp: bootstrap_owner_def Let_def split: if_splits sum.splits)

lemma bootstrap_keeps: "bootstrap_owner_on cfg new_id p name secret expiry t instant d = Inr (v, d') \<Longrightarrow> keeps_promises d d'"
  using keeps_promises_trans [OF insert_principal_keeps issue_keeps]
  by (fastforce simp: bootstrap_owner_on_def split: if_splits sum.splits)

lemma invite_keeps: "invite_on p name permissions t d = Inr (v, d') \<Longrightarrow> keeps_promises d d'"
  using keeps_promises_trans [OF insert_principal_keeps grants_update]
  by (fastforce simp: invite_on_def Let_def split: if_splits sum.splits)

lemma invite_with_invitation_keeps:
  "invite_with_invitation_on cfg new_id p name permissions secret t instant d = Inr (v, d') \<Longrightarrow> keeps_promises d d'"
  using keeps_promises_trans [OF invite_keeps issue_keeps]
  by (fastforce simp: invite_with_invitation_on_def split: if_splits sum.splits)

lemma reissue_keeps: "reissue_invitation_on cfg new_id p secret t instant d = Inr (v, d') \<Longrightarrow> keeps_promises d d'"
  using keeps_promises_trans [OF void_keeps issue_keeps]
  by (fastforce simp: reissue_invitation_on_def split: sum.splits)

lemma principal_row_in: "principal_row d p = Some r \<Longrightarrow> r \<in> set (ad_principals d) \<and> pr_id r = p"
  by (auto simp: principal_row_def find_Some_iff in_set_conv_nth)

lemma same_principal: "\<lbrakk>access_inv d; principal_row d p = Some r; x \<in> set (ad_principals d); pr_id x = p\<rbrakk> \<Longrightarrow> x = r"
  using principal_row_in [of d p r] by (auto simp: access_inv_def principals_ok_def distinct_map inj_on_def)

lemma administered_row: "administered_on p d = Inr r \<Longrightarrow> principal_row d p = Some r \<and> pr_role r = Role_Invited_User \<and> pr_status r \<noteq> Status_Revoked"
  by (auto simp: administered_on_def split: option.splits if_splits)

lemma advance_keeps: "keeps_promises d (advance_principal p t d)"
proof -
  have "keeps_promises d (d\<lparr>ad_invitations := update_where P (\<lambda>i. i\<lparr>iv_revision := iv_revision i + 1\<rparr>) (ad_invitations d)\<rparr>)" for P
    by (rule invitations_update) (simp add: invitation_le_def)
  moreover have "keeps_promises x (x\<lparr>ad_principals := update_where P (\<lambda>r. r\<lparr>pr_revision := pr_revision r + 1\<rparr>) (ad_principals x)\<rparr>)" for x P
    by (rule principals_update) (simp add: principal_le_def)
  ultimately have "keeps_promises d (d\<lparr>ad_invitations := update_where P (\<lambda>i. i\<lparr>iv_revision := iv_revision i + 1\<rparr>) (ad_invitations d),
      ad_principals := update_where Q (\<lambda>r. r\<lparr>pr_revision := pr_revision r + 1\<rparr>) (ad_principals d)\<rparr>)" for P Q
    using keeps_promises_trans by fastforce
  then show ?thesis unfolding advance_principal_def by (rule keeps_promises_trans [OF _ end_session_rows_keeps])
qed

lemma set_permissions_keeps: "set_permissions_on p grants t d = Inr (v, d') \<Longrightarrow> keeps_promises d d'"
  using keeps_promises_trans [OF grants_update advance_keeps]
  by (auto simp: set_permissions_on_def split: sum.splits if_splits)

lemma change_permission_keeps: "change_permission_on p perm granted t d = Inr (v, d') \<Longrightarrow> keeps_promises d d'"
  using set_permissions_keeps by (fastforce simp: change_permission_on_def Let_def split: sum.splits)

lemma revoke_credentials_keeps: "keeps_promises d (revoke_credentials t P d)"
  unfolding revoke_credentials_def by (rule credentials_update) (simp add: credential_le_def)

lemma revoke_principal_keeps: "revoke_principal_on p t d = Inr (v, d') \<Longrightarrow> keeps_promises d d'"
proof -
  assume r: "revoke_principal_on p t d = Inr (v, d')"
  let ?d = "d\<lparr>ad_principals := update_where (\<lambda>r. pr_id r = p) (\<lambda>r. r\<lparr>pr_status := Status_Revoked, pr_revoked_at := Some t,
    pr_external_identity := None, pr_revision := pr_revision r + 1\<rparr>) (ad_principals d)\<rparr>"
  have "keeps_promises d ?d" by (rule principals_update) (simp add: principal_le_def)
  moreover have "d' = end_session_rows t (\<lambda>s. se_principal s = p) (void_invitations t p
      (revoke_credentials t (\<lambda>c. cr_principal c = p \<and> cr_revoked_at c = None) ?d))"
    using r by (auto simp: revoke_principal_on_def split: sum.splits)
  ultimately show ?thesis
    by (simp only:) (intro keeps_promises_trans [OF keeps_promises_trans [OF keeps_promises_trans [OF _ revoke_credentials_keeps] void_keeps]
        end_session_rows_keeps])
qed

lemma revoke_credential_keeps: "revoke_credential_on p handle t d = Inr (v, d') \<Longrightarrow> keeps_promises d d'"
  using keeps_promises_trans [OF revoke_credentials_keeps end_session_rows_keeps]
  by (auto simp: revoke_credential_on_def split: sum.splits option.splits)

lemma generation_keeps: "keeps_promises d (d\<lparr>ad_generation := ad_generation d + 1\<rparr>)"
  unfolding keeps_promises_def
  by (auto simp: consistency_defs evolves_def grows_refl row_le_refl intro: le_SucI)

lemma invalidate_all_keeps: "keeps_promises d (invalidate_all_sessions_on t d)"
proof -
  have "keeps_promises x (x\<lparr>ad_challenges := []\<rparr>)" for x using challenges_filter [of x "\<lambda>_. False"] by simp
  then show ?thesis unfolding invalidate_all_sessions_on_def
    using keeps_promises_trans [OF keeps_promises_trans [OF generation_keeps end_session_rows_keeps]] by blast
qed

lemma recover_keeps: "recover_owner_on cfg new_id secret expiry t instant name d = Inr (v, d') \<Longrightarrow> keeps_promises d d'"
proof -
  assume r: "recover_owner_on cfg new_id secret expiry t instant name d = Inr (v, d')"
  let ?owned = "\<lambda>p c. cr_principal c = p \<and> cr_revoked_at c = None"
  let ?d2 = "\<lambda>p. void_invitations t p (revoke_credentials t (?owned p) (invalidate_all_sessions_on t d))"
  let ?f = "\<lambda>x. x\<lparr>pr_status := Status_Invited, pr_revoked_at := None, pr_external_identity := None,
     pr_display_name := (case name of None \<Rightarrow> pr_display_name x | Some n \<Rightarrow> n), pr_revision := pr_revision x + 1\<rparr>"
  obtain o_row j where o: "find (\<lambda>r. pr_role r = Role_Owner) (ad_principals d) = Some o_row"
    and iss: "issue_enrollment_on cfg new_id (pr_id o_row) secret expiry t instant
      (?d2 (pr_id o_row)\<lparr>ad_principals := update_where (\<lambda>x. pr_id x = pr_id o_row) ?f (ad_principals (?d2 (pr_id o_row)))\<rparr>) = Inr (j, d')"
    using r by (auto simp: recover_owner_on_def Let_def split: option.splits if_splits sum.splits prod.splits)
  have in_d: "o_row \<in> set (ad_principals d)" "pr_role o_row = Role_Owner" using o by (auto simp: find_Some_iff in_set_conv_nth)
  have same: "ad_principals (?d2 (pr_id o_row)) = ad_principals d"
    by (simp add: void_invitations_def revoke_credentials_def invalidate_all_sessions_on_def end_session_rows_def)
  have k2: "keeps_promises d (?d2 (pr_id o_row))"
    by (rule keeps_promises_trans [OF keeps_promises_trans [OF invalidate_all_keeps revoke_credentials_keeps] void_keeps])
  have k3: "keeps_promises (?d2 (pr_id o_row)) (?d2 (pr_id o_row)\<lparr>ad_principals := update_where (\<lambda>x. pr_id x = pr_id o_row) ?f
      (ad_principals (?d2 (pr_id o_row)))\<rparr>)"
  proof (rule principals_update)
    fix x assume "access_inv (?d2 (pr_id o_row))" "x \<in> set (ad_principals (?d2 (pr_id o_row)))" "pr_id x = pr_id o_row"
    then have "x = o_row" using in_d unfolding same by (auto simp: access_inv_def principals_ok_def same distinct_map inj_on_def)
    then show "principal_le x (?f x)" using in_d(2) by (simp add: principal_le_def)
  qed
  show ?thesis by (rule keeps_promises_trans [OF keeps_promises_trans [OF k2 k3] issue_keeps [OF iss]])
qed

section \<open>Ceremonies\<close>

lemma insert_challenge_keeps: "insert_challenge_on digest kind t lifetime i s d = Inr (v, d') \<Longrightarrow> keeps_promises d d'"
proof -
  assume a: "insert_challenge_on digest kind t lifetime i s d = Inr (v, d')"
  let ?open = "filter (\<lambda>x. \<not> ch_expires_at x \<le> t) (ad_challenges d)"
  obtain x where d': "d' = d\<lparr>ad_challenges := ?open @ [x]\<rparr>" and x: "ch_digest x \<notin> ch_digest ` set ?open" "length ?open < MAX_PENDING_CHALLENGES"
    using a by (auto simp: insert_challenge_on_def Let_def split: if_splits)
  have "distinct (map ch_digest (ad_challenges d)) \<Longrightarrow> distinct (map ch_digest (?open @ [x]))"
    using x(1) by (auto simp: distinct_map_filter)
  moreover have "length (?open @ [x]) \<le> MAX_PENDING_CHALLENGES" using x(2) by simp
  ultimately show ?thesis unfolding keeps_promises_def d'
    by (auto simp: consistency_defs evolves_def grows_refl row_le_refl simp del: map_append length_append)
qed

lemma begin_registration_keeps: "begin_registration_body cfg secret digest t instant lifetime d = Inr (v, d') \<Longrightarrow> keeps_promises d d'"
proof -
  have "keeps_promises d (d\<lparr>ad_invitations := update_where P (\<lambda>j. j\<lparr>iv_attempt_count := iv_attempt_count j + 1\<rparr>) (ad_invitations d)\<rparr>)" for P
    by (rule invitations_update) (simp add: invitation_le_def)
  from keeps_promises_trans [OF this insert_challenge_keeps]
  show "begin_registration_body cfg secret digest t instant lifetime d = Inr (v, d') \<Longrightarrow> keeps_promises d d'"
    by (fastforce simp: begin_registration_body_def Let_def split: option.splits prod.splits if_splits sum.splits)
qed

lemma spend_keeps: "spend_challenge digest kind s d = (x, d') \<Longrightarrow> keeps_promises d d'"
  using challenges_filter by (auto simp: spend_challenge_def Let_def)

lemma consume_keeps: "keeps_promises d (snd (consume_challenge e digest kind t s d))"
proof -
  let ?r = "access_commit e (\<lambda>x. Inr (spend_challenge digest kind s x)) d"
  have "keeps_promises d (snd ?r)" by (rule commit_keeps) (auto dest: spend_keeps)
  then show ?thesis by (auto simp: consume_challenge_def split: prod.splits sum.splits option.splits)
qed

lemma begin_step_up_keeps: "keeps_promises d (snd (begin_step_up cfg e e2 e3 token identity digest t lifetime d))"
proof -
  let ?r = "access_commit e (begin_step_up_body cfg token identity digest t lifetime) d"
  have "keeps_promises d d'" if "begin_step_up_body cfg token identity digest t lifetime d = Inr (v, d')" for v d'
    using that unfolding begin_step_up_body_def
  proof (rule gated_keeps)
    fix s :: access_session and p c x v d'
    assume "(case (s, p, c) of (s, p, c) \<Rightarrow> \<lambda>x. if pr_role p \<noteq> Role_Owner then Inl Access_Invalid
       else case insert_challenge_on digest Step_Up t lifetime None (Some (se_id s))
              (x\<lparr>ad_challenges := filter (\<lambda>y. \<not> (ch_ceremony y = Step_Up \<and> ch_session y = Some (se_id s))) (ad_challenges x)\<rparr>) of
          Inl e \<Rightarrow> Inl e
        | Inr (_, x') \<Rightarrow> Inr (se_credential s, x')) x = Inr (v, d')"
    then show "keeps_promises x d'" using keeps_promises_trans [OF challenges_filter insert_challenge_keeps]
      by (fastforce split: if_splits sum.splits)
  qed
  then have "keeps_promises d (snd ?r)" by (rule commit_keeps)
  then show ?thesis using keeps_promises_trans [OF _ after_denial_keeps]
    by (cases ?r; cases "fst ?r") (auto simp: begin_step_up_def)
qed

lemma accept_credential_keeps: "accept_credential c p expected n backup t d = Inr (role, d') \<Longrightarrow> keeps_promises d d'"
proof -
  have "keeps_promises d (d\<lparr>ad_credentials := update_where P (\<lambda>x. x\<lparr>cr_sign_count := n, cr_backup_state := backup, cr_last_used_at := Some t\<rparr>)
      (ad_credentials d)\<rparr>)" for P
    by (rule credentials_update) (simp add: credential_le_def)
  then show "accept_credential c p expected n backup t d = Inr (role, d') \<Longrightarrow> keeps_promises d d'"
    by (auto simp: accept_credential_def Let_def split: option.splits if_splits)
qed

lemma step_up_keeps:
  assumes "step_up_session cfg c p role identity sid digest t instant d = Inr (v, d')"
  shows "keeps_promises d d'"
proof -
  obtain b where b: "instant = Some b" using assms by (auto simp: step_up_session_def split: option.splits)
  obtain s where s: "find (\<lambda>s. se_id s = sid) (ad_sessions d) = Some s" using assms b by (auto simp: step_up_session_def split: option.splits)
  obtain r where r: "principal_row d p = Some r" using assms b s by (auto simp: step_up_session_def split: option.splits)
  obtain x d1 where sp: "spend_challenge digest Step_Up (Some sid) d = (Some x, d1)"
    using assms b s r by (auto simp: step_up_session_def split: if_splits prod.splits option.splits)
  have d': "d' = touch_session_on s t (d1\<lparr>ad_sessions := update_where (\<lambda>y. se_id y = sid)
        (\<lambda>y. y\<lparr>se_verified_at := Some t, se_verified_boot_id := Some (bi_boot_id b), se_verified_boottime := Some (bi_boottime b)\<rparr>) (ad_sessions d1)\<rparr>)"
    using assms b s r sp by (auto simp: step_up_session_def split: if_splits)
  let ?f = "\<lambda>y. y\<lparr>se_verified_at := Some t, se_verified_boot_id := Some (bi_boot_id b), se_verified_boottime := Some (bi_boottime b)\<rparr>"
  let ?g = "\<lambda>y. (?f y)\<lparr>se_last_seen_at := t, se_idle_expires_at := min (t + se_idle_lifetime s) (se_absolute_expires_at s)\<rparr>"
  have sid: "s \<in> set (ad_sessions d)" "se_id s = sid" using s by (auto simp: find_Some_iff in_set_conv_nth)
  have d1: "ad_sessions d1 = ad_sessions d" using sp by (auto simp: spend_challenge_def Let_def)
  have k1: "keeps_promises d d1" by (rule spend_keeps [OF sp])
  have "d' = d1\<lparr>ad_sessions := update_where (\<lambda>y. se_id y = sid) ?g (ad_sessions d1)\<rparr>"
    unfolding d' touch_session_on_def using sid(2) by (simp add: update_where_def comp_def)
  moreover have "keeps_promises d1 (d1\<lparr>ad_sessions := update_where (\<lambda>y. se_id y = sid) ?g (ad_sessions d1)\<rparr>)"
  proof (rule sessions_update)
    fix y assume i: "access_inv d1" "y \<in> set (ad_sessions d1)" "se_id y = sid"
    then have "y = s" using sid unfolding d1 by (auto simp: access_inv_def sessions_ok_def d1 distinct_map inj_on_def)
    then show "session_le y (?g y) \<and> (se_idle_expires_at y \<le> se_absolute_expires_at y \<longrightarrow> se_idle_expires_at (?g y) \<le> se_absolute_expires_at (?g y))"
      by (simp add: session_le_def)
  qed
  ultimately show ?thesis using keeps_promises_trans [OF k1] by simp
qed

lemma accept_keeps: "accept_body cfg c p identity expected n backup purpose t instant d = Inr (sid, d') \<Longrightarrow> keeps_promises d d'"
proof -
  assume a: "accept_body cfg c p identity expected n backup purpose t instant d = Inr (sid, d')"
  let ?act = "case purpose of Sign_In _ _ \<Rightarrow> Authenticate | Refresh _ _ \<Rightarrow> Verify_Step_Up"
  obtain role d1 where d1: "accept_credential c p expected n backup t d = Inr (role, d1)"
    using a by (auto simp: accept_body_def split: sum.splits)
  obtain d2 where u: "(case purpose of
        Sign_In new_id token \<Rightarrow> establish_session_on cfg new_id p c token identity t (Some t) instant IDLE_LIFETIME ABSOLUTE_LIFETIME d1
      | Refresh session_id digest \<Rightarrow> step_up_session cfg c p role identity session_id digest t instant d1) = Inr (sid, d2)"
    using a d1 by (auto simp: accept_body_def split: sum.splits)
  have d': "d' = append_audit (actor_of role) ?act p (d2\<lparr>ad_principals := update_where (\<lambda>r. pr_id r = p)
        (\<lambda>r. r\<lparr>pr_external_identity := Some identity\<rparr>) (ad_principals d2)\<rparr>)"
    using a d1 u by (simp add: accept_body_def)
  have d2: "keeps_promises d1 d2" using u by (cases purpose) (auto dest: establish_keeps step_up_keeps)
  have act: "?act \<noteq> Redeem_Invitation" by (cases purpose) simp_all
  have "keeps_promises d2 (d2\<lparr>ad_principals := update_where (\<lambda>r. pr_id r = p) (\<lambda>r. r\<lparr>pr_external_identity := Some identity\<rparr>) (ad_principals d2)\<rparr>)"
    by (rule principals_update) (simp add: principal_le_def)
  from keeps_promises_trans [OF keeps_promises_trans [OF keeps_promises_trans [OF accept_credential_keeps [OF d1] d2] this] audit_append [OF act]]
  show ?thesis unfolding d' .
qed

lemma mark_keeps: "mark_credential_inconsistent_on c p t d = Inr (v, d') \<Longrightarrow> keeps_promises d d'"
proof -
  assume m: "mark_credential_inconsistent_on c p t d = Inr (v, d')"
  have "keeps_promises d (d\<lparr>ad_credentials := update_where P (\<lambda>c. c\<lparr>cr_inconsistent_at := Some t\<rparr>) (ad_credentials d)\<rparr>)" for P
    by (rule credentials_update) (simp add: credential_le_def)
  from keeps_promises_trans [OF keeps_promises_trans [OF this end_session_rows_keeps] audit_append]
  show ?thesis using m by (auto simp: mark_credential_inconsistent_on_def Let_def split: if_splits)
qed

lemma finding_keeps: "record_step_up_finding_body digest sid changed c p t d = Inr (v, d') \<Longrightarrow> keeps_promises d d'"
proof -
  assume r: "record_step_up_finding_body digest sid changed c p t d = Inr (v, d')"
  obtain x d1 where s: "spend_challenge digest Step_Up (Some sid) d = (x, d1)" by fastforce
  have "d' = d1 \<or> mark_credential_inconsistent_on c p t d1 = Inr (v, d') \<or> d' = append_audit Actor_System Detect_Sign_Count_Regression p d1"
    using r s by (auto simp: record_step_up_finding_body_def split: option.splits if_splits)
  then show ?thesis using spend_keeps [OF s] keeps_promises_trans [OF spend_keeps [OF s] mark_keeps]
      keeps_promises_trans [OF spend_keeps [OF s] audit_append] by auto
qed

section \<open>Redemption\<close>

lemma redeemed_count:
  assumes "distinct (map iv_id xs)" "i \<in> set xs" "iv_redeemed_at i = None"
  shows "rowcount (\<lambda>i. iv_redeemed_at i \<noteq> None) (update_where (\<lambda>j. iv_id j = iv_id i) (\<lambda>j. j\<lparr>iv_redeemed_at := Some t\<rparr>) xs)
    = Suc (rowcount (\<lambda>i. iv_redeemed_at i \<noteq> None) xs)"
  using assms
proof (induction xs)
  case (Cons x xs)
  have none: "update_where (\<lambda>j. iv_id j = iv_id i) f xs = xs" if "iv_id i \<notin> iv_id ` set xs" for f
    unfolding update_where_def using that by (intro map_idI) (auto, metis imageI)
  show ?case
  proof (cases "iv_id x = iv_id i")
    case True
    then have "x = i" using Cons.prems by auto
    moreover have "iv_id i \<notin> iv_id ` set xs" using Cons.prems True by simp
    ultimately show ?thesis using none Cons.prems by (simp add: update_where_def)
  next
    case False
    then have "i \<in> set xs" using Cons.prems by auto
    then show ?thesis using Cons False by (simp add: update_where_def)
  qed
qed simp

lemma enroll_keeps: "enroll_body cfg secret fresh j device t instant d = Inr (c, d') \<Longrightarrow> keeps_promises d d'"
proof -
  assume a: "enroll_body cfg secret fresh j device t instant d = Inr (c, d')"
  obtain i p d1 u where row: "invitation_row_on cfg secret d = Some (i, p)" and red: "redeemable i p (ad_generation d) t instant"
    and ins: "insert_credential c d = Inr (u, d1)"
    and d': "d' = append_audit (actor_of (pr_role p)) Redeem_Invitation (iv_principal i)
        (d1\<lparr>ad_invitations := update_where (\<lambda>j. iv_id j = iv_id i) (\<lambda>j. j\<lparr>iv_redeemed_at := Some t\<rparr>) (ad_invitations d1),
            ad_principals := update_where (\<lambda>r. pr_id r = iv_principal i \<and> pr_status r = Status_Invited)
               (\<lambda>r. r\<lparr>pr_status := Status_Active\<rparr>) (ad_principals d1)\<rparr>)"
    using a by (auto simp: enroll_body_def Let_def split: option.splits prod.splits if_splits sum.splits)
  have i: "i \<in> set (ad_invitations d)" "iv_redeemed_at i = None"
    using row red by (auto simp: invitation_row_on_def redeemable_def find_Some_iff in_set_conv_nth split: option.splits if_splits)
  have d1: "d1 = d\<lparr>ad_credentials := ad_credentials d @ [c]\<rparr>" and new: "cr_id c \<notin> cr_id ` set (ad_credentials d)"
    using ins by (auto simp: insert_credential_def split: if_splits)
  let ?iv = "update_where (\<lambda>j. iv_id j = iv_id i) (\<lambda>j. j\<lparr>iv_redeemed_at := Some t\<rparr>) (ad_invitations d)"
  let ?pr = "update_where (\<lambda>r. pr_id r = iv_principal i \<and> pr_status r = Status_Invited) (\<lambda>r. r\<lparr>pr_status := Status_Active\<rparr>) (ad_principals d)"
  have fields: "ad_generation d' = ad_generation d" "ad_principals d' = ?pr" "ad_credentials d' = ad_credentials d @ [c]"
    "ad_invitations d' = ?iv" "ad_sessions d' = ad_sessions d" "ad_challenges d' = ad_challenges d"
    "ad_audit d' = ad_audit d @ [(actor_of (pr_role p), Redeem_Invitation, iv_principal i)]"
    unfolding d' d1 append_audit_def by simp_all
  have ev: "evolves d d'" unfolding evolves_def fields
    by (auto intro!: grows_update grows_append grows_refl simp: row_le_refl) (simp_all add: row_le_defs)
  have keys: "map iv_id ?iv = map iv_id (ad_invitations d)" "map iv_lookup_key ?iv = map iv_lookup_key (ad_invitations d)"
    "map pr_id ?pr = map pr_id (ad_principals d)" by (simp_all add: update_where_keys)
  have counts: "rowcount (open_code q) ?iv \<le> rowcount (open_code q) (ad_invitations d)"
    "rowcount (\<lambda>p. pr_role p = Role_Owner) ?pr = rowcount (\<lambda>p. pr_role p = Role_Owner) (ad_principals d)" for q
    by (rule rowcount_update_le, simp add: open_code_def) (rule rowcount_update, simp)
  have "access_inv d'" if inv: "access_inv d"
  proof -
    have "principals_ok d'" "challenges_ok d'" using inv unfolding access_inv_def principals_ok_def challenges_ok_def fields keys counts(2) by simp_all
    moreover have "invitations_ok d'" using inv counts(1) unfolding access_inv_def invitations_ok_def fields keys
      by (auto simp: set_update_where intro: order_trans)
    moreover have "sessions_ok d'" using inv new unfolding access_inv_def sessions_ok_def fields by (auto simp: session_ok_def)
    moreover have "enrolled_ok d'" using inv redeemed_count [of "ad_invitations d" i t] i
      unfolding access_inv_def enrolled_ok_def redemptions_def redeem_records_def invitations_ok_def fields by simp
    ultimately show ?thesis by (simp add: access_inv_def)
  qed
  then show ?thesis using ev by (simp add: keeps_promises_def)
qed

end
