(* ===== verification/Access_Histories.thy ===== *)
theory Access_Histories
  imports Access_Evolution
begin

text \<open>
  Histories of the authorization store: any sequence of its transactions, with any arguments, any clock readings and any
  end of each transaction, and at any moment the deletion of any rows of the audit table, which the retention of the
  audit store shares. The properties of human access hold in all of them.
\<close>

inductive access_step :: "access_config \<Rightarrow> access_db \<Rightarrow> access_db \<Rightarrow> bool" for cfg where
  step_bootstrap: "access_step cfg d (snd (access_commit e (bootstrap_owner_on cfg new_id p name secret expiry t instant) d))"
| step_recover: "access_step cfg d (snd (access_commit e (recover_owner_on cfg new_id secret expiry t instant rename) d))"
| step_invite: "access_step cfg d (snd (access_commit e (invite_with_invitation_on cfg new_id p name perms secret t instant) d))"
| step_reissue: "access_step cfg d (snd (access_commit e (reissue_invitation_on cfg new_id p secret t instant) d))"
| step_permissions: "access_step cfg d (snd (access_commit e (set_permissions_on p grants t) d))"
| step_permission: "access_step cfg d (snd (access_commit e (change_permission_on p perm granted t) d))"
| step_revoke: "access_step cfg d (snd (access_commit e (revoke_principal_on p t) d))"
| step_revoke_credential: "access_step cfg d (snd (access_commit e (revoke_credential_on p handle t) d))"
| step_invalidate: "access_step cfg d (snd (access_commit e (\<lambda>x. Inr ((), invalidate_all_sessions_on t x)) d))"
| step_enroll: "access_step cfg d (snd (enroll_credential cfg e secret identity fresh invitation device t instant d))"
| step_establish: "access_step cfg d (snd (access_commit e (establish_session_on cfg new_id p c token identity t verified boot idle absolute) d))"
| step_sweep: "access_step cfg d (snd (access_commit e (\<lambda>x. Inr ((), end_expired_sessions_on t x)) d))"
| step_request: "access_step cfg d (snd (authorize_request cfg g e e2 e3 token identity req csrf touch t instant freshness d))"
| step_authorize: "access_step cfg d (snd (authorize cfg g e e2 e3 token identity perm t d))"
| step_session: "access_step cfg d (snd (authorize_session cfg g e e2 e3 token identity t d))"
| step_owner: "access_step cfg d (snd (authorize_owner cfg g e e2 e3 token identity t instant freshness d))"
| step_sign_out: "access_step cfg d (snd (sign_out cfg g e view t d))"
| step_challenge: "access_step cfg d (snd (issue_authentication_challenge e digest t lifetime d))"
| step_registration: "access_step cfg d (snd (begin_registration cfg e secret identity digest t instant lifetime d))"
| step_consume: "access_step cfg d (snd (consume_challenge e digest kind t session d))"
| step_begin_step_up: "access_step cfg d (snd (begin_step_up cfg e e2 e3 token identity digest t lifetime d))"
| step_accept: "access_step cfg d (snd (accept_assertion cfg e c p identity expected n backup purpose t instant d))"
| step_mark: "access_step cfg d (snd (mark_credential_inconsistent cfg e c p t d))"
| step_regression: "access_step cfg d (snd (record_sign_count_regression cfg e p d))"
| step_finding: "access_step cfg d (snd (record_step_up_finding cfg e digest sid changed c p t d))"
| step_current: "access_step cfg d (snd (current_session cfg readable e token identity t d))"
| step_mismatch: "access_step cfg d (record_binding_mismatch cfg e m t d)"
| step_owner_fixture: "access_step cfg d (snd (access_commit e (bootstrap_owner p name t) d))"
| step_invite_fixture: "access_step cfg d (snd (access_commit e (invite_on p name perms t) d))"
| step_issue_fixture: "access_step cfg d (snd (access_commit e (issue_enrollment_on cfg new_id p secret expiry t instant) d))"
| step_retention: "access_step cfg d (d\<lparr>ad_audit := nths (ad_audit d) kept\<rparr>)"

abbreviation access_run :: "access_config \<Rightarrow> access_db \<Rightarrow> access_db \<Rightarrow> bool" where
  "access_run cfg \<equiv> (access_step cfg)\<^sup>*\<^sup>*"

lemma audited_keeps: "(\<And>v d'. body d = Inr (v, d') \<Longrightarrow> keeps_promises d d') \<Longrightarrow> keeps_promises d (snd (audited cfg e body d))"
  unfolding audited_def by (simp add: commit_keeps)

lemma record_mismatch_keeps: "keeps_promises d (record_binding_mismatch cfg e m t d)"
  by (auto simp: record_binding_mismatch_def mismatch_keeps intro!: commit_keeps split: option.splits)

lemma access_step_keeps: "access_step cfg d d' \<Longrightarrow> keeps_promises d d'"
proof (induction rule: access_step.induct)
  case (step_enroll d e secret identity fresh invitation device t instant)
  then show ?case by (auto simp: enroll_credential_def enroll_keeps intro!: commit_keeps)
next
  case (step_challenge d e digest t lifetime)
  then show ?case unfolding issue_authentication_challenge_def by (rule commit_keeps) (rule insert_challenge_keeps)
next
  case (step_registration d e secret identity digest t instant lifetime)
  then show ?case by (auto simp: begin_registration_def begin_registration_keeps intro!: commit_keeps)
next
  case (step_accept d e c p identity expected n backup purpose t instant)
  then show ?case by (auto simp: accept_assertion_def accept_keeps intro!: commit_keeps)
next
  case (step_mismatch d e m t)
  then show ?case by (rule record_mismatch_keeps)
next
  case (step_current d readable e token identity t)
  then show ?case by (auto simp: current_session_def record_mismatch_keeps split: option.splits prod.splits)
next
  case (step_regression d e p)
  then show ?case unfolding record_sign_count_regression_def by (rule audited_keeps) (auto intro: audit_append)
next
  case (step_mark d e c p t)
  then show ?case unfolding mark_credential_inconsistent_def by (rule audited_keeps) (rule mark_keeps)
next
  case (step_finding d e digest sid changed c p t)
  then show ?case by (auto simp: record_step_up_finding_def finding_keeps intro!: audited_keeps)
next
  case (step_sweep d e t)
  then show ?case by (rule commit_keeps) (auto simp: end_expired_keeps)
next
  case (step_invalidate d e t)
  then show ?case by (rule commit_keeps) (auto simp: invalidate_all_keeps)
next
  case (step_retention d kept)
  then show ?case by (rule audit_kept)
qed (auto intro!: commit_keeps authorizations_keep sign_out_keeps consume_keeps begin_step_up_keeps
    dest: bootstrap_keeps recover_keeps invite_with_invitation_keeps reissue_keeps set_permissions_keeps change_permission_keeps
      revoke_principal_keeps revoke_credential_keeps establish_keeps bootstrap_owner_keeps invite_keeps issue_keeps)

lemma access_run_keeps: "access_run cfg d d' \<Longrightarrow> access_inv d \<Longrightarrow> evolves d d' \<and> access_inv d'"
proof (induction rule: rtranclp_induct)
  case (step y z)
  then show ?case using access_step_keeps [OF step.hyps(2)] evolves_trans unfolding keeps_promises_def by blast
qed (simp add: evolves_refl)

lemma access_reachable_inv: "access_run cfg access_db_init d \<Longrightarrow> access_inv d"
  using access_run_keeps access_inv_init by blast

section \<open>Rows in later states\<close>

lemma later_principal: "\<lbrakk>evolves d d'; principal_row d p = Some r\<rbrakk> \<Longrightarrow> \<exists>r'. principal_row d' p = Some r' \<and> principal_le r r'"
  unfolding principal_row_def evolves_def by (erule conjE)+ (erule (1) grows_find, simp add: principal_le_def)

lemma later_invitation:
  "\<lbrakk>evolves d d'; find (\<lambda>i. iv_lookup_key i = Some k) (ad_invitations d) = Some i\<rbrakk>
   \<Longrightarrow> \<exists>i'. find (\<lambda>i. iv_lookup_key i = Some k) (ad_invitations d') = Some i' \<and> invitation_le i i'"
  unfolding evolves_def by (erule conjE)+ (erule (1) grows_find, simp add: invitation_le_def)

lemma later_session:
  "\<lbrakk>evolves d d'; find (\<lambda>s. se_token_digest s = k) (ad_sessions d) = Some s\<rbrakk>
   \<Longrightarrow> \<exists>s'. find (\<lambda>s. se_token_digest s = k) (ad_sessions d') = Some s' \<and> session_le s s'"
  unfolding evolves_def by (erule conjE)+ (erule (1) grows_find, simp add: session_le_def)

lemma later_credential:
  "\<lbrakk>evolves d d'; find (\<lambda>c. cr_id c = k \<and> cr_principal c = p) (ad_credentials d) = Some c\<rbrakk>
   \<Longrightarrow> \<exists>c'. find (\<lambda>c. cr_id c = k \<and> cr_principal c = p) (ad_credentials d') = Some c' \<and> credential_le c c'"
  unfolding evolves_def by (erule conjE)+ (erule (1) grows_find, simp add: credential_le_def)

text \<open>A served request rests on a current session.\<close>

lemma gated_row:
  assumes "authorize_gated cfg g e e2 e3 token identity t decide d = (Inr v, d')"
  obtains s p c where "decide (s, p, c) (end_expired_sessions_on t d) = Inr (v, d')"
    "session_current s p c (ad_generation d) t" "principal_row d (se_principal s) = Some p"
    "find (\<lambda>s. se_token_digest s = request_digest cfg token) (ad_sessions (end_expired_sessions_on t d)) = Some s"
proof -
  have "gated_body cfg token identity t decide d = Inr (v, d')"
    using assms by (auto simp: authorize_gated_def access_commit_def split: if_splits access_end.splits sum.splits prod.splits)
  then obtain s p c where "fst (current_session_on cfg token identity t (end_expired_sessions_on t d)) = Some (s, p, c)"
    and dc: "decide (s, p, c) (end_expired_sessions_on t d) = Inr (v, d')"
    by (auto simp: gated_body_def Let_def split: option.splits)
  from current_session_in [OF this(1)] show ?thesis
    using that [OF dc] by (simp add: end_expired_sessions_on_def principal_row_def)
qed

lemma served_view:
  assumes "authorize_request cfg g e e2 e3 token identity req csrf touch t instant freshness d = (Inr view, d')"
  obtains s p c where "session_current s p c (ad_generation d) t" "principal_row d (se_principal s) = Some p" "sv_principal view = se_principal s"
    "find (\<lambda>s. se_token_digest s = request_digest cfg token) (ad_sessions (end_expired_sessions_on t d)) = Some s"
    "decide_request cfg req csrf touch t instant freshness (s, p, c) (end_expired_sessions_on t d) = Inr ((view, False), d')"
proof -
  obtain d1 where "authorize_gated cfg g e e2 e3 token identity t (decide_request cfg req csrf touch t instant freshness) d = (Inr (view, False), d')"
    using assms by (auto simp: authorize_request_def step_up_or_def split: if_splits prod.splits sum.splits)
  then show ?thesis
  proof (cases rule: gated_row)
    case (1 s p c)
    have "sv_principal view = se_principal s" using 1(1) by (auto simp: decide_request_def view_of_def Let_def split: if_splits)
    then show ?thesis using that [OF 1(2,3)] 1 by blast
  qed
qed

text \<open>A session that has ended is never served again.\<close>

lemma ended_session_not_served:
  assumes "evolves d d'" "find (\<lambda>s. se_token_digest s = request_digest cfg token) (ad_sessions d) = Some s" "se_invalidated_at s \<noteq> None"
  shows "authorize_request cfg g e e2 e3 token identity req csrf touch t instant freshness d' \<noteq> (Inr view, d2)"
proof
  assume "authorize_request cfg g e e2 e3 token identity req csrf touch t instant freshness d' = (Inr view, d2)"
  then obtain u p c where u: "session_current u p c (ad_generation d') t"
    "find (\<lambda>s. se_token_digest s = request_digest cfg token) (ad_sessions (end_expired_sessions_on t d')) = Some u"
    by (rule served_view) blast
  obtain s' where s': "find (\<lambda>s. se_token_digest s = request_digest cfg token) (ad_sessions d') = Some s'" "se_invalidated_at s' \<noteq> None"
    using later_session [OF assms(1,2)] assms(3) by (auto simp: session_le_def)
  have "grows session_le (ad_sessions d') (ad_sessions (end_expired_sessions_on t d'))"
    unfolding end_expired_sessions_on_def by (auto intro!: grows_update simp: row_le_refl session_le_def split: option.splits)
  from grows_find [OF this s'(1)] u(2) s'(2) have "se_invalidated_at u \<noteq> None" by (auto simp: session_le_def)
  then show False using u(1) by (simp add: session_current_def)
qed

section \<open>Properties\<close>

text \<open>
  C12. In every history of the authorization store: there is at most one Owner; a person has at most one code that is
  neither redeemed nor revoked; at most 1024 challenges are pending; session tokens, credentials and codes are
  unique; a session never outlives its absolute limit by an idle touch and belongs to the person whose credential
  opened it; and the credentials are exactly as many as the redeemed codes, while the audit table, whose rows expire,
  never shows more redemptions than there were.
\<close>

theorem access_store_consistent:
  assumes "access_run cfg access_db_init d"
  shows "rowcount (\<lambda>p. pr_role p = Role_Owner) (ad_principals d) \<le> 1 \<and> (\<forall>p. rowcount (open_code p) (ad_invitations d) \<le> 1)
    \<and> length (ad_challenges d) \<le> 1024 \<and> distinct (map se_token_digest (ad_sessions d)) \<and> distinct (map cr_id (ad_credentials d))
    \<and> distinct (map iv_lookup_key (ad_invitations d))
    \<and> list_all (\<lambda>s. se_idle_expires_at s \<le> se_absolute_expires_at s
        \<and> list_ex (\<lambda>c. cr_id c = se_credential s \<and> cr_principal c = se_principal s) (ad_credentials d)) (ad_sessions d)
    \<and> length (ad_credentials d) = redemptions d \<and> redeem_records d \<le> redemptions d"
proof -
  have "access_inv d" by (rule access_reachable_inv [OF assms])
  moreover have "list_ex (\<lambda>c. cr_id c = se_credential s \<and> cr_principal c = se_principal s) cs" if "session_ok cs s" for cs s
    using that by (auto simp: session_ok_def list_ex_iff)
  ultimately show ?thesis
    by (auto simp: access_inv_def principals_ok_def invitations_ok_def sessions_ok_def challenges_ok_def enrolled_ok_def session_ok_def
        list_all_iff MAX_PENDING_CHALLENGES_def)
qed

lemma enroll_success:
  assumes "enroll_credential cfg e secret identity fresh invitation device t instant d = (Inr c, d')"
  obtains i p where "enroll_body cfg secret fresh invitation device t instant d = Inr (c, d')"
    "find (\<lambda>i. iv_lookup_key i = Some (lookup_key cfg secret)) (ad_invitations d) = Some i" "principal_row d (iv_principal i) = Some p"
    "redeemable i p (ad_generation d) t instant" "cr_principal c = iv_principal i"
proof -
  have b: "enroll_body cfg secret fresh invitation device t instant d = Inr (c, d')"
    using assms by (auto simp: enroll_credential_def access_commit_def split: if_splits access_end.splits sum.splits prod.splits)
  then obtain i p where i: "invitation_row_on cfg secret d = Some (i, p)" "redeemable i p (ad_generation d) t instant" "cr_principal c = iv_principal i"
    by (auto simp: enroll_body_def insert_credential_def Let_def split: option.splits prod.splits if_splits sum.splits)
  then have "find (\<lambda>i. iv_lookup_key i = Some (lookup_key cfg secret)) (ad_invitations d) = Some i" "principal_row d (iv_principal i) = Some p"
    by (auto simp: invitation_row_on_def split: option.splits if_splits)
  then show ?thesis using that [OF b] i by blast
qed

lemma revoked_stays:
  assumes "access_commit e (revoke_principal_on p t) d = (Inr (), d1)" "access_run cfg d1 d2" "access_inv d"
  shows "\<exists>r. principal_row d2 p = Some r \<and> pr_status r = Status_Revoked"
proof -
  have r: "revoke_principal_on p t d = Inr ((), d1)"
    using assms(1) by (auto simp: access_commit_def split: access_end.splits sum.splits prod.splits if_splits)
  obtain row where a: "administered_on p d = Inr row" using r by (auto simp: revoke_principal_on_def split: sum.splits)
  let ?f = "\<lambda>r. r\<lparr>pr_status := Status_Revoked, pr_revoked_at := Some t, pr_external_identity := None, pr_revision := pr_revision r + 1\<rparr>"
  have d1: "ad_principals d1 = update_where (\<lambda>r. pr_id r = p) ?f (ad_principals d)"
    using r a by (auto simp: revoke_principal_on_def end_session_rows_def void_invitations_def revoke_credentials_def)
  have "find (\<lambda>r. pr_id r = p) xs = Some row \<Longrightarrow> find (\<lambda>r. pr_id r = p) (update_where (\<lambda>r. pr_id r = p) ?f xs) = Some (?f row)" for xs
    by (induction xs) (auto simp: update_where_def split: if_splits)
  then have row1: "principal_row d1 p = Some (?f row)" using administered_row [OF a] unfolding principal_row_def d1 by simp
  have "access_inv d1" using revoke_principal_keeps [OF r] assms(3) by (simp add: keeps_promises_def)
  then have "evolves d1 d2" using access_run_keeps [OF assms(2)] by blast
  from later_principal [OF this row1] show ?thesis using administered_row [OF a] by (auto simp: principal_le_def)
qed

text \<open>
  C3. Revocation is final: once \<open>revoke_principal_on\<close> has committed, no later request is ever served in the name of that
  person, whatever token it presents, and no code ever enrolls a credential for them again.
\<close>

theorem revocation_is_final:
  assumes "access_run cfg access_db_init d" "access_commit e (revoke_principal_on p t) d = (Inr (), d1)" "access_run cfg d1 d2"
  shows "(fst (authorize_request cfg g e1 e2 e3 token identity req csrf touch u instant freshness d2) = Inr view \<longrightarrow> sv_principal view \<noteq> p)
    \<and> (fst (enroll_credential cfg e1 secret identity fresh invitation device u instant d2) = Inr c \<longrightarrow> cr_principal c \<noteq> p)"
proof -
  obtain r where r: "principal_row d2 p = Some r" "pr_status r = Status_Revoked"
    using revoked_stays [OF assms(2,3) access_reachable_inv [OF assms(1)]] by blast
  have "sv_principal view \<noteq> p" if a: "authorize_request cfg g e1 e2 e3 token identity req csrf touch u instant freshness d2 = (Inr view, d3)" for d3
    using a by (rule served_view) (use r in \<open>auto simp: session_current_def\<close>)
  moreover have "cr_principal c \<noteq> p" if a: "enroll_credential cfg e1 secret identity fresh invitation device u instant d2 = (Inr c, d3)" for d3
    using a by (rule enroll_success) (use r in \<open>auto simp: redeemable_def\<close>)
  ultimately show ?thesis by (metis prod.collapse)
qed

lemma redeemed_not_redeemable:
  assumes "find (\<lambda>i. iv_lookup_key i = Some (lookup_key cfg secret)) (ad_invitations d) = Some i" "evolves d d'"
    "iv_redeemed_at i \<noteq> None \<or> iv_revoked_at i \<noteq> None \<or> iv_generation i < ad_generation d"
  shows "fst (enroll_credential cfg e secret identity fresh invitation device t instant d') \<noteq> Inr c"
proof
  assume "fst (enroll_credential cfg e secret identity fresh invitation device t instant d') = Inr c"
  then obtain d3 where "enroll_credential cfg e secret identity fresh invitation device t instant d' = (Inr c, d3)" by (metis prod.collapse)
  then obtain j p where j: "find (\<lambda>i. iv_lookup_key i = Some (lookup_key cfg secret)) (ad_invitations d') = Some j"
    "redeemable j p (ad_generation d') t instant" by (rule enroll_success) blast
  have "invitation_le i j" using later_invitation [OF assms(2,1)] j(1) by auto
  moreover have "ad_generation d \<le> ad_generation d'" using assms(2) by (simp add: evolves_def)
  ultimately show False using j(2) assms(3) by (auto simp: redeemable_def invitation_le_def)
qed

text \<open>
  C4. A code is single use: after one successful redemption no later redemption with the same secret succeeds, in any
  history, at any clock reading.
\<close>

theorem code_redeemed_once:
  assumes "access_run cfg access_db_init d" "enroll_credential cfg e secret identity fresh invitation device t instant d = (Inr c, d1)"
    "access_run cfg d1 d2"
  shows "fst (enroll_credential cfg e' secret identity' fresh' invitation' device' t' instant' d2) \<noteq> Inr c'"
proof -
  obtain i p where i: "enroll_body cfg secret fresh invitation device t instant d = Inr (c, d1)"
    "find (\<lambda>i. iv_lookup_key i = Some (lookup_key cfg secret)) (ad_invitations d) = Some i" by (rule enroll_success [OF assms(2)]) blast
  have inv: "access_inv d1" using enroll_keeps [OF i(1)] access_reachable_inv [OF assms(1)] by (simp add: keeps_promises_def)
  let ?f = "\<lambda>j. j\<lparr>iv_redeemed_at := Some t\<rparr>"
  have "ad_invitations d1 = update_where (\<lambda>j. iv_id j = iv_id i) ?f (ad_invitations d)"
    using i by (auto simp: enroll_body_def invitation_row_on_def insert_credential_def append_audit_def Let_def
        split: option.splits prod.splits if_splits sum.splits)
  moreover have "find (\<lambda>i. iv_lookup_key i = Some k) xs = Some i \<Longrightarrow>
      find (\<lambda>i. iv_lookup_key i = Some k) (update_where (\<lambda>j. iv_id j = iv_id i) ?f xs) = Some (?f i)" for k xs
    by (induction xs) (auto simp: update_where_def split: if_splits)
  ultimately have "find (\<lambda>i. iv_lookup_key i = Some (lookup_key cfg secret)) (ad_invitations d1) = Some (?f i)" using i(2) by simp
  from redeemed_not_redeemable [OF this _ disjI1] show ?thesis using access_run_keeps [OF assms(3) inv] by simp
qed

lemma commit_success: "access_commit e body d = (Inr v, d') \<Longrightarrow> body d = Inr (v, d')"
  by (auto simp: access_commit_def split: access_end.splits sum.splits prod.splits if_splits)

lemma ball_update_where: "\<lbrakk>\<And>x. P x \<Longrightarrow> Q (f x); \<And>x. \<not> P x \<Longrightarrow> Q x\<rbrakk> \<Longrightarrow> \<forall>y \<in> set (update_where P f xs). Q y"
  by (auto simp: update_where_def)

lemma recover_effect:
  assumes "recover_owner_on cfg new_id secret expiry t instant name d = Inr ((p, j, n), d1)"
  shows "ad_generation d1 = Suc (ad_generation d)" "\<forall>s \<in> set (ad_sessions d1). se_invalidated_at s \<noteq> None" "ad_challenges d1 = []"
    "map se_token_digest (ad_sessions d1) = map se_token_digest (ad_sessions d)"
    "\<forall>c \<in> set (ad_credentials d1). cr_principal c = p \<longrightarrow> cr_revoked_at c \<noteq> None" "map cr_id (ad_credentials d1) = map cr_id (ad_credentials d)"
    "\<exists>r. find (\<lambda>r. pr_role r = Role_Owner) (ad_principals d) = Some r \<and> pr_id r = p"
proof -
  let ?owned = "\<lambda>c. cr_principal c = p \<and> cr_revoked_at c = None"
  let ?d1 = "invalidate_all_sessions_on t d"
  obtain d3 u where iss: "issue_enrollment_on cfg new_id p secret expiry t instant d3 = Inr (j, d1)"
    and d3: "ad_generation d3 = ad_generation ?d1" "ad_sessions d3 = ad_sessions ?d1" "ad_challenges d3 = ad_challenges ?d1"
      "ad_credentials d3 = ad_credentials (revoke_credentials t ?owned ?d1)"
    and o: "find (\<lambda>r. pr_role r = Role_Owner) (ad_principals d) = Some u" "pr_id u = p"
    using assms by (auto simp: recover_owner_on_def Let_def void_invitations_def revoke_credentials_def split: option.splits if_splits sum.splits prod.splits)
  have d1: "ad_generation d1 = ad_generation d3" "ad_sessions d1 = ad_sessions d3" "ad_challenges d1 = ad_challenges d3" "ad_credentials d1 = ad_credentials d3"
    using iss by (auto simp: issue_enrollment_on_def insert_invitation_def void_invitations_def split: option.splits if_splits sum.splits prod.splits)
  show "ad_generation d1 = Suc (ad_generation d)" "ad_challenges d1 = []" unfolding d1 d3
    by (simp_all add: invalidate_all_sessions_on_def end_session_rows_def)
  have ended: "ad_sessions d1 = update_where (\<lambda>s. se_invalidated_at s = None) (\<lambda>s. s\<lparr>se_invalidated_at := Some t, se_binding := None\<rparr>) (ad_sessions d)"
    unfolding d1 d3 by (simp add: invalidate_all_sessions_on_def end_session_rows_def)
  show "\<forall>s \<in> set (ad_sessions d1). se_invalidated_at s \<noteq> None" unfolding ended by (rule ball_update_where) simp_all
  show "map se_token_digest (ad_sessions d1) = map se_token_digest (ad_sessions d)" unfolding ended by (simp add: update_where_keys)
  have owned: "ad_credentials d1 = update_where ?owned (\<lambda>c. c\<lparr>cr_revoked_at := Some t\<rparr>) (ad_credentials d)"
    unfolding d1 d3 by (simp add: revoke_credentials_def invalidate_all_sessions_on_def end_session_rows_def)
  show "\<forall>c \<in> set (ad_credentials d1). cr_principal c = p \<longrightarrow> cr_revoked_at c \<noteq> None" unfolding owned by (rule ball_update_where) simp_all
  show "map cr_id (ad_credentials d1) = map cr_id (ad_credentials d)" unfolding owned by (simp add: update_where_keys)
  show "\<exists>r. find (\<lambda>r. pr_role r = Role_Owner) (ad_principals d) = Some r \<and> pr_id r = p" using o by blast
qed

lemma find_by_key: "k \<in> key ` set xs \<Longrightarrow> \<exists>x. find (\<lambda>x. key x = k) xs = Some x \<and> x \<in> set xs"
  by (induction xs) auto

lemma accepted_credential:
  assumes "fst (accept_assertion cfg e k p identity expected m backup purpose u instant d) = Inr sid"
  obtains c where "find (\<lambda>c. cr_id c = k \<and> cr_principal c = p) (ad_credentials d) = Some c" "cr_revoked_at c = None"
proof -
  have "fst (access_commit e (accept_body cfg k p identity expected m backup purpose u instant) d) = Inr sid"
    using assms by (auto simp: accept_assertion_def split: if_splits)
  then obtain d' where "accept_body cfg k p identity expected m backup purpose u instant d = Inr (sid, d')"
    by (metis commit_success prod.collapse)
  then show ?thesis using that by (auto simp: accept_body_def accept_credential_def Let_def split: option.splits if_splits sum.splits)
qed

lemma revoked_credential_refused:
  assumes "evolves d1 d2" "access_inv d2" "k \<in> cr_id ` set (ad_credentials d1)"
    and revoked: "\<forall>c \<in> set (ad_credentials d1). cr_principal c = p \<longrightarrow> cr_revoked_at c \<noteq> None"
  shows "fst (accept_assertion cfg e k p identity expected m backup purpose u instant d2) \<noteq> Inr sid"
proof
  assume "fst (accept_assertion cfg e k p identity expected m backup purpose u instant d2) = Inr sid"
  then obtain c2 where c2: "find (\<lambda>c. cr_id c = k \<and> cr_principal c = p) (ad_credentials d2) = Some c2" "cr_revoked_at c2 = None"
    by (rule accepted_credential)
  obtain c1 where c1: "find (\<lambda>c. cr_id c = k) (ad_credentials d1) = Some c1" "c1 \<in> set (ad_credentials d1)" using find_by_key [OF assms(3)] by blast
  have "grows credential_le (ad_credentials d1) (ad_credentials d2)" using assms(1) by (simp add: evolves_def)
  from grows_find [OF this c1(1)] obtain c where c: "find (\<lambda>c. cr_id c = k) (ad_credentials d2) = Some c" "credential_le c1 c"
    by (auto simp: credential_le_def)
  have "c \<in> set (ad_credentials d2)" "cr_id c = k" "c2 \<in> set (ad_credentials d2)" "cr_id c2 = k" "cr_principal c2 = p"
    using c(1) c2(1) by (auto simp: find_Some_iff in_set_conv_nth)
  then have "c = c2" using assms(2) by (auto simp: access_inv_def sessions_ok_def distinct_map inj_on_def)
  then show False using c(2) c2(2) revoked c1(2) \<open>cr_principal c2 = p\<close> by (auto simp: credential_le_def)
qed

text \<open>
  C5. Local recovery ends every standing access. After \<open>recover_owner_on\<close> has committed, no token of a session that
  existed before is ever served again, no code that existed before enrolls anybody, no credential that
  belonged to the Owner is accepted in an assertion, and no challenge issued before is pending.
\<close>

theorem recovery_ends_standing_access:
  assumes "access_run cfg access_db_init d" "access_commit e (recover_owner_on cfg new_id code expiry t now rename) d = (Inr (p, j, n), d1)"
    "access_run cfg d1 d2"
  shows "(request_digest cfg token \<in> se_token_digest ` set (ad_sessions d) \<longrightarrow>
        fst (authorize_request cfg g e1 e2 e3 token identity req csrf touch u instant freshness d2) \<noteq> Inr view)
    \<and> (Some (lookup_key cfg secret) \<in> iv_lookup_key ` set (ad_invitations d) \<longrightarrow>
        fst (enroll_credential cfg e1 secret identity fresh invitation device u instant d2) \<noteq> Inr c)
    \<and> (k \<in> cr_id ` set (ad_credentials d) \<longrightarrow>
        fst (accept_assertion cfg e1 k p identity expected m backup purpose u instant d2) \<noteq> Inr sid)
    \<and> ad_challenges d1 = []"
proof -
  have rec: "recover_owner_on cfg new_id code expiry t now rename d = Inr ((p, j, n), d1)" by (rule commit_success [OF assms(2)])
  note eff = recover_effect [OF rec]
  have inv: "access_inv d" by (rule access_reachable_inv [OF assms(1)])
  have ev: "evolves d d1" and inv1: "access_inv d1" using recover_keeps [OF rec] inv by (simp_all add: keeps_promises_def)
  have ev2: "evolves d1 d2" using access_run_keeps [OF assms(3) inv1] by blast
  have "fst (authorize_request cfg g e1 e2 e3 token identity req csrf touch u instant freshness d2) \<noteq> Inr view"
    if tk: "request_digest cfg token \<in> se_token_digest ` set (ad_sessions d)"
  proof -
    have "request_digest cfg token \<in> se_token_digest ` set (ad_sessions d1)" using tk eff(4) by (metis list.set_map)
    from find_by_key [OF this] obtain s where "find (\<lambda>s. se_token_digest s = request_digest cfg token) (ad_sessions d1) = Some s"
      "s \<in> set (ad_sessions d1)" by blast
    from ended_session_not_served [OF ev2 this(1)] this(2) eff(2) show ?thesis by (metis prod.collapse)
  qed
  moreover have "fst (enroll_credential cfg e1 secret identity fresh invitation device u instant d2) \<noteq> Inr c"
    if lk: "Some (lookup_key cfg secret) \<in> iv_lookup_key ` set (ad_invitations d)"
  proof -
    from find_by_key [OF lk] obtain i where i: "find (\<lambda>i. iv_lookup_key i = Some (lookup_key cfg secret)) (ad_invitations d) = Some i"
      "i \<in> set (ad_invitations d)" by blast
    obtain i' where i': "find (\<lambda>i. iv_lookup_key i = Some (lookup_key cfg secret)) (ad_invitations d1) = Some i'" "invitation_le i i'"
      using later_invitation [OF ev i(1)] by blast
    have "iv_generation i' < ad_generation d1" using i(2) i'(2) inv eff(1) by (auto simp: access_inv_def invitations_ok_def invitation_le_def less_Suc_eq_le)
    then show ?thesis using redeemed_not_redeemable [OF i'(1) ev2] by blast
  qed
  moreover have "fst (accept_assertion cfg e1 k p identity expected m backup purpose u instant d2) \<noteq> Inr sid"
    if k: "k \<in> cr_id ` set (ad_credentials d)"
  proof -
    have "k \<in> cr_id ` set (ad_credentials d1)" using k eff(6) by (metis list.set_map)
    then show ?thesis using revoked_credential_refused [OF ev2 _ _ eff(5)] access_run_keeps [OF assms(3) inv1] by blast
  qed
  ultimately show ?thesis using eff(3) by blast
qed

lemma swept_session:
  assumes "find (\<lambda>s. se_token_digest s = k) (ad_sessions (end_expired_sessions_on t d)) = Some s" "se_invalidated_at s = None"
  shows "s \<in> set (ad_sessions d) \<and> se_token_digest s = k"
proof -
  have "s \<in> set (ad_sessions (end_expired_sessions_on t d))" "se_token_digest s = k" using assms(1) by (auto simp: find_Some_iff in_set_conv_nth)
  then show ?thesis using assms(2) by (auto simp: end_expired_sessions_on_def set_update_where split: if_splits option.splits)
qed

text \<open>
  The read-only pre-check refuses nothing that the authorization would serve: for a well-formed token, whenever
  \<open>authorize_request\<close> serves the request, \<open>session_may_be_current\<close> on the same tables and at the same time answers
  \<open>True\<close>, also in the variants for the Owner and for a permission that the requirement asks for.
\<close>

theorem precheck_admits_served_requests:
  assumes "authorize_request cfg g e e2 e3 token identity req csrf touch t instant freshness d = (Inr view, d')" "secret_ok token"
  shows "session_may_be_current cfg token t False None d
    \<and> (req = Owner_Read \<or> req = Owner_Op \<longrightarrow> session_may_be_current cfg token t True None d)
    \<and> (req = Needs_Live \<longrightarrow> session_may_be_current cfg token t False (Some Live_View) d)
    \<and> (req = Needs_Recordings \<longrightarrow> session_may_be_current cfg token t False (Some Recordings_View) d)"
proof -
  obtain s p c where r: "session_current s p c (ad_generation d) t" "principal_row d (se_principal s) = Some p"
    "find (\<lambda>s. se_token_digest s = request_digest cfg token) (ad_sessions (end_expired_sessions_on t d)) = Some s"
    "decide_request cfg req csrf touch t instant freshness (s, p, c) (end_expired_sessions_on t d) = Inr ((view, False), d')"
    by (rule served_view [OF assms(1)]) blast
  have s: "s \<in> set (ad_sessions d)" "se_token_digest s = secret_digest cfg token" "se_invalidated_at s = None"
    using swept_session [OF r(3)] r(1) assms(2) by (simp_all add: session_current_def request_digest_def)
  have p: "p \<in> set (ad_principals d)" "pr_id p = se_principal s" "pr_status p = Status_Active"
    using principal_row_in [OF r(2)] r(1) by (simp_all add: session_current_def)
  have grants: "granted_on p (end_expired_sessions_on t d) = granted_on p d" by (simp add: granted_on_def grants_of_def end_expired_sessions_on_def)
  have role: "req = Owner_Read \<or> req = Owner_Op \<Longrightarrow> pr_role p = Role_Owner" "req = Needs_Live \<Longrightarrow> Live_View \<in> granted_on p d"
    "req = Needs_Recordings \<Longrightarrow> Recordings_View \<in> granted_on p d"
    using r(4) by (auto simp: decide_request_def grants split: if_splits)
  have may: "session_may_be_current cfg token t owner perm d"
    if "\<not> (perm \<noteq> None \<and> owner)" "owner \<Longrightarrow> pr_role p = Role_Owner" "\<And>x. perm = Some x \<Longrightarrow> x \<in> granted_on p d" for owner perm
    unfolding session_may_be_current_def list_ex_iff
    using that s p r(1) assms(2) by (auto simp: session_current_def granted_on_def grants_of_def intro!: bexI [of _ s] bexI [of _ p] split: option.splits if_splits)
  show ?thesis using may [of None False] may [of None True] may [of "Some Live_View" False] may [of "Some Recordings_View" False] role by blast
qed

section \<open>Pending codes\<close>

lemma rowcount_key: "\<lbrakk>distinct (map k xs); x \<in> set xs\<rbrakk> \<Longrightarrow> rowcount (\<lambda>y. k y = k x \<and> Q y) xs = (if Q x then 1 else 0)"
proof (induction xs)
  case (Cons a xs)
  have "filter (\<lambda>y. k y = k a \<and> Q y) xs = []" using Cons.prems(1) by (auto simp: filter_empty_conv image_iff)
  then show ?case using Cons by (auto simp: rowcount_def)
qed simp

lemma rowcount_unique: "\<lbrakk>rowcount P xs \<le> 1; x \<in> set xs; y \<in> set xs; P x; P y\<rbrakk> \<Longrightarrow> x = y"
proof -
  assume a: "rowcount P xs \<le> 1" "x \<in> set xs" "y \<in> set xs" "P x" "P y"
  have "\<lbrakk>length ys \<le> 1; x \<in> set ys; y \<in> set ys\<rbrakk> \<Longrightarrow> x = y" for ys by (cases ys) auto
  from this [of "filter P xs"] a show "x = y" by (simp add: rowcount_def)
qed

lemma registration_accepted:
  assumes "access_inv d" "invitation_row_on cfg secret d = Some (i, p)" "secret_ok secret" "canonical_identity identity" "length digest = 32"
    "0 < lifetime" "lifetime \<le> MAX_CHALLENGE_LIFETIME" "length (filter (\<lambda>x. \<not> ch_expires_at x \<le> t) (ad_challenges d)) < MAX_PENDING_CHALLENGES"
    "digest \<notin> ch_digest ` set (ad_challenges d)"
  shows "(\<exists>v. fst (begin_registration cfg Tx_Committed secret identity digest t instant lifetime d) = Inr v)
    \<longleftrightarrow> redeemable i p (ad_generation d) t instant \<and> iv_attempt_count i < MAX_REDEMPTION_ATTEMPTS"
proof -
  have "find (\<lambda>i. iv_lookup_key i = Some (lookup_key cfg secret)) (ad_invitations d) = Some i"
    using assms(2) by (auto simp: invitation_row_on_def split: option.splits if_splits)
  then have "i \<in> set (ad_invitations d)" by (auto simp: find_Some_iff in_set_conv_nth)
  moreover have "distinct (map iv_id (ad_invitations d))" using assms(1) by (simp add: access_inv_def invitations_ok_def)
  ultimately have count: "rowcount (\<lambda>j. iv_id j = iv_id i \<and> iv_attempt_count j < MAX_REDEMPTION_ATTEMPTS \<and> iv_redeemed_at j = None) (ad_invitations d)
      = (if iv_attempt_count i < MAX_REDEMPTION_ATTEMPTS \<and> iv_redeemed_at i = None then 1 else 0)"
    using rowcount_key [of iv_id "ad_invitations d" i "\<lambda>j. iv_attempt_count j < MAX_REDEMPTION_ATTEMPTS \<and> iv_redeemed_at j = None"] by simp
  have fresh: "digest \<notin> ch_digest ` set (filter (\<lambda>x. \<not> ch_expires_at x \<le> t) (ad_challenges d))" using assms(9) by auto
  have "insert_challenge_on digest Registration t lifetime a b (d\<lparr>ad_invitations := xs\<rparr>) \<noteq> Inl e" for xs a b e
    using assms(5-8) fresh by (simp add: insert_challenge_on_def Let_def)
  then show ?thesis using assms(2-4) count
    by (auto simp: begin_registration_def begin_registration_body_def access_commit_def Let_def redeemable_def split: sum.splits prod.splits)
qed

lemma pending_code: "invitation_row_on cfg secret d = Some (i, p) \<Longrightarrow> i \<in> set (pending_invitations_on t instant None d)
    \<longleftrightarrow> redeemable i p (ad_generation d) t instant \<and> iv_attempt_count i < MAX_REDEMPTION_ATTEMPTS"
  by (auto simp: invitation_row_on_def pending_invitations_on_def redeemable_def find_Some_iff in_set_conv_nth split: option.splits if_splits)

lemma pending_expiry_iff: "pending_expiry q rows \<noteq> None \<longleftrightarrow> (\<exists>j \<in> set rows. iv_principal j = q)"
proof -
  have "pending_expiry q rows = None \<longleftrightarrow> filter (\<lambda>i. iv_principal i = q) rows = []" by (simp add: pending_expiry_def split: list.split)
  then show ?thesis by (auto simp: filter_empty_conv)
qed

text \<open>
  C23. The Owner's inventory and redemption agree: with room for a challenge, a registration can be started with a code
  exactly when the code is unused and the inventory, read at the same time, shows its person as having a pending code.
\<close>

theorem inventory_shows_redeemable_codes:
  assumes "access_run cfg access_db_init d" "admin_inventory view t instant d = Inr rows" "invitation_row_on cfg secret d = Some (i, p)"
    "secret_ok secret" "canonical_identity identity" "length digest = 32" "0 < lifetime" "lifetime \<le> MAX_CHALLENGE_LIFETIME"
    "length (filter (\<lambda>x. \<not> ch_expires_at x \<le> t) (ad_challenges d)) < MAX_PENDING_CHALLENGES" "digest \<notin> ch_digest ` set (ad_challenges d)"
  shows "(\<exists>v. fst (begin_registration cfg Tx_Committed secret identity digest t instant lifetime d) = Inr v)
    \<longleftrightarrow> open_code (iv_principal i) i \<and> (\<exists>r \<in> set rows. ip_id r = iv_principal i \<and> ip_pending r)"
proof -
  let ?pending = "pending_invitations_on t instant None d"
  have inv: "access_inv d" by (rule access_reachable_inv [OF assms(1)])
  have i: "i \<in> set (ad_invitations d)" "principal_row d (iv_principal i) = Some p"
    using assms(3) by (auto simp: invitation_row_on_def find_Some_iff in_set_conv_nth split: option.splits if_splits)
  have "set rows = inventory_row ?pending d ` set (ad_principals d)"
    using assms(2) by (auto simp: admin_inventory_def split: sum.splits option.splits)
  then have shown: "(\<exists>r \<in> set rows. ip_id r = iv_principal i \<and> ip_pending r) \<longleftrightarrow> (\<exists>j \<in> set ?pending. iv_principal j = iv_principal i)"
    using principal_row_in [OF i(2)] pending_expiry_iff [of "iv_principal i" ?pending] by (auto simp: inventory_row_def)
  have pend: "open_code (iv_principal i) j \<and> j \<in> set (ad_invitations d)" if "j \<in> set ?pending" "iv_principal j = iv_principal i" for j
    using that by (simp add: pending_invitations_on_def open_code_def)
  have one: "rowcount (open_code (iv_principal i)) (ad_invitations d) \<le> 1" using inv by (simp add: access_inv_def invitations_ok_def)
  have "i \<in> set ?pending \<longleftrightarrow> open_code (iv_principal i) i \<and> (\<exists>j \<in> set ?pending. iv_principal j = iv_principal i)"
  proof
    assume "i \<in> set ?pending"
    then show "open_code (iv_principal i) i \<and> (\<exists>j \<in> set ?pending. iv_principal j = iv_principal i)" using pend by blast
  next
    assume a: "open_code (iv_principal i) i \<and> (\<exists>j \<in> set ?pending. iv_principal j = iv_principal i)"
    then obtain j where j: "j \<in> set ?pending" "iv_principal j = iv_principal i" by blast
    have "j = i" by (rule rowcount_unique [OF one]) (use pend [OF j] i(1) a in simp_all)
    then show "i \<in> set ?pending" using j(1) by simp
  qed
  then show ?thesis using registration_accepted [OF inv assms(3-10)] pending_code [OF assms(3)] shown by simp
qed

section \<open>A concrete history\<close>

text \<open>
  An Owner enrolls, invites a guest for the live view, the guest enrolls and signs in; then the guest is revoked, or the
  Owner recovers. \<open>ac_sha256\<close> is a function that keeps the last octets, which is enough for these codes to differ.
\<close>

definition ex_site :: access_config where
  "ex_site = \<lparr>ac_sha256 = (\<lambda>x. take 32 (rev x @ replicate 32 0)), ac_bind = Some (\<lambda>_. replicate 32 1), ac_csrf_token = (\<lambda>_. []),
     ac_invitation_lifetime = 1000, ac_audit = True\<rparr>"

definition ex_boot :: "boot_instant option" where
  "ex_boot = Some \<lparr>bi_boot_id = ''01234567-89ab-cdef-0123-456789abcdef'', bi_boottime = 0\<rparr>"

definition ex_fresh_credential :: "nat \<Rightarrow> access_credential" where
  "ex_fresh_credential n = \<lparr>cr_id = [of_nat n], cr_principal = 0, cr_public_key = [1], cr_algorithm = -7, cr_sign_count = 0, cr_enrolled_at = 0,
     cr_revoked_at = None, cr_backup_eligible = False, cr_backup_state = False, cr_inconsistent_at = None, cr_label = None,
     cr_last_used_at = None, cr_handle = n\<rparr>"

abbreviation ex_owner_code :: octets where "ex_owner_code \<equiv> replicate 16 1"
abbreviation ex_guest_code :: octets where "ex_guest_code \<equiv> replicate 16 2"
abbreviation ex_token :: octets where "ex_token \<equiv> replicate 16 3"

definition ex_bootstrapped :: access_db where
  "ex_bootstrapped = snd (access_commit Tx_Committed (bootstrap_owner_on ex_site 10 1 ''owner'' ex_owner_code 500 0 ex_boot) access_db_init)"

definition ex_owned :: access_db where
  "ex_owned = snd (enroll_credential ex_site Tx_Committed ex_owner_code ''a'' (ex_fresh_credential 1) None True 1 ex_boot ex_bootstrapped)"

definition ex_invited :: access_db where
  "ex_invited = snd (access_commit Tx_Committed (invite_with_invitation_on ex_site 11 2 ''guest'' [Live_View] ex_guest_code 2 ex_boot) ex_owned)"

definition ex_joined :: access_db where
  "ex_joined = snd (enroll_credential ex_site Tx_Committed ex_guest_code ''b'' (ex_fresh_credential 2) None False 3 ex_boot ex_invited)"

definition ex_signed_in :: access_db where
  "ex_signed_in = snd (accept_assertion ex_site Tx_Committed [2] 2 ''b'' 0 1 False (Sign_In 20 ex_token) 4 ex_boot ex_joined)"

lemma ex_invited_runs: "access_run ex_site access_db_init ex_invited"
proof -
  have "access_step ex_site access_db_init ex_bootstrapped" unfolding ex_bootstrapped_def by (rule step_bootstrap)
  moreover have "access_step ex_site ex_bootstrapped ex_owned" unfolding ex_owned_def by (rule step_enroll)
  moreover have "access_step ex_site ex_owned ex_invited" unfolding ex_invited_def by (rule step_invite)
  ultimately show ?thesis by (meson converse_rtranclp_into_rtranclp rtranclp.rtrancl_refl)
qed

lemma ex_signed_in_runs: "access_run ex_site access_db_init ex_signed_in"
proof -
  note ex_invited_runs
  also have "access_step ex_site ex_invited ex_joined" unfolding ex_joined_def by (rule step_enroll)
  also have "access_step ex_site ex_joined ex_signed_in" unfolding ex_signed_in_def by (rule step_accept)
  finally show ?thesis .
qed

theorem access_store_consistent_witness:
  "length (ad_sessions ex_signed_in) = 1 \<and> length (ad_credentials ex_signed_in) = 2 \<and> redemptions ex_signed_in = 2
   \<and> redeem_records ex_signed_in \<le> 2"
proof -
  have "length (ad_sessions ex_signed_in) = 1" "length (ad_credentials ex_signed_in) = 2" by code_simp+
  with access_store_consistent [OF ex_signed_in_runs] show ?thesis by simp
qed

definition ex_guest_view :: session_view where
  "ex_guest_view = \<lparr>sv_session = 20, sv_principal = 2, sv_credential = [2], sv_role = Role_Invited_User, sv_revision = 0, sv_permissions = {Live_View}\<rparr>"

abbreviation ex_request :: "access_db \<Rightarrow> (access_error, session_view, access_db) outcome" where
  "ex_request \<equiv> authorize_request ex_site True Tx_Committed Tx_Committed Tx_Committed ex_token ''b'' Needs_Live None True 6 ex_boot 100"

lemma ex_guest_served: "fst (ex_request ex_signed_in) = Inr ex_guest_view"
  by code_simp

definition ex_revoked :: access_db where
  "ex_revoked = snd (access_commit Tx_Committed (revoke_principal_on 2 5) ex_signed_in)"

theorem revocation_is_final_witness:
  "fst (ex_request ex_signed_in) = Inr ex_guest_view \<and> fst (ex_request ex_revoked) \<noteq> Inr ex_guest_view"
proof -
  have "fst (access_commit Tx_Committed (revoke_principal_on 2 5) ex_signed_in) = Inr ()" by code_simp
  then have "access_commit Tx_Committed (revoke_principal_on 2 5) ex_signed_in = (Inr (), ex_revoked)"
    unfolding ex_revoked_def by (metis prod.collapse)
  note fin = revocation_is_final [OF ex_signed_in_runs this rtranclp.rtrancl_refl]
  have "sv_principal ex_guest_view = 2" by (simp add: ex_guest_view_def)
  then show ?thesis using fin [THEN conjunct1] ex_guest_served by fastforce
qed

theorem code_redeemed_once_witness:
  "\<exists>c. \<forall>c'. fst (enroll_credential ex_site Tx_Committed ex_guest_code ''b'' (ex_fresh_credential 2) None False 3 ex_boot ex_invited) = Inr c
     \<and> fst (enroll_credential ex_site Tx_Committed ex_guest_code ''b'' (ex_fresh_credential 3) None False 4 ex_boot ex_joined) \<noteq> Inr c'"
proof -
  let ?c = "(ex_fresh_credential 2)\<lparr>cr_principal := 2, cr_enrolled_at := 3\<rparr>"
  have e: "fst (enroll_credential ex_site Tx_Committed ex_guest_code ''b'' (ex_fresh_credential 2) None False 3 ex_boot ex_invited) = Inr ?c"
    by code_simp
  then have "enroll_credential ex_site Tx_Committed ex_guest_code ''b'' (ex_fresh_credential 2) None False 3 ex_boot ex_invited = (Inr ?c, ex_joined)"
    unfolding ex_joined_def by (metis prod.collapse)
  from code_redeemed_once [OF ex_invited_runs this rtranclp.rtrancl_refl] e show ?thesis by blast
qed

definition ex_recovered :: access_db where
  "ex_recovered = snd (access_commit Tx_Committed (recover_owner_on ex_site 12 (replicate 16 4) 500 5 ex_boot None) ex_signed_in)"

theorem recovery_ends_standing_access_witness:
  "fst (ex_request ex_signed_in) = Inr ex_guest_view \<and> fst (ex_request ex_recovered) \<noteq> Inr ex_guest_view \<and> ad_challenges ex_recovered = []"
proof -
  have "fst (access_commit Tx_Committed (recover_owner_on ex_site 12 (replicate 16 4) 500 5 ex_boot None) ex_signed_in) = Inr (1, 12, 1)"
    by code_simp
  then have "access_commit Tx_Committed (recover_owner_on ex_site 12 (replicate 16 4) 500 5 ex_boot None) ex_signed_in = (Inr (1, 12, 1), ex_recovered)"
    unfolding ex_recovered_def by (metis prod.collapse)
  note rec = recovery_ends_standing_access [OF ex_signed_in_runs this rtranclp.rtrancl_refl]
  have "request_digest ex_site ex_token \<in> se_token_digest ` set (ad_sessions ex_signed_in)" by code_simp
  then have "fst (ex_request ex_recovered) \<noteq> Inr ex_guest_view" by (rule rec [THEN conjunct1, THEN mp])
  moreover have "ad_challenges ex_recovered = []" by (rule rec [THEN conjunct2, THEN conjunct2, THEN conjunct2])
  ultimately show ?thesis using ex_guest_served by simp
qed

theorem precheck_admits_served_requests_witness:
  "session_may_be_current ex_site ex_token 6 False None ex_signed_in
   \<and> session_may_be_current ex_site ex_token 6 False (Some Live_View) ex_signed_in"
proof -
  have ok: "secret_ok ex_token" by code_simp
  have "ex_request ex_signed_in = (Inr ex_guest_view, snd (ex_request ex_signed_in))" using ex_guest_served by (metis prod.collapse)
  from precheck_admits_served_requests [OF this ok] show ?thesis by simp
qed

theorem inventory_shows_redeemable_codes_witness:
  "\<exists>v. fst (begin_registration ex_site Tx_Committed ex_guest_code ''b'' (replicate 32 9) 3 ex_boot 60 ex_invited) = Inr v"
proof -
  let ?i = "ad_invitations ex_invited ! 1"
  let ?p = "ad_principals ex_invited ! 1"
  obtain rows where rows: "admin_inventory None 3 ex_boot ex_invited = Inr rows" by (simp add: admin_inventory_def)
  have row: "invitation_row_on ex_site ex_guest_code ex_invited = Some (?i, ?p)" by code_simp
  have ok: "secret_ok ex_guest_code" "canonical_identity ''b''" "length (replicate 32 (9::8 word)) = 32" "0 < (60::int)" "60 \<le> MAX_CHALLENGE_LIFETIME"
    "length (filter (\<lambda>x. \<not> ch_expires_at x \<le> 3) (ad_challenges ex_invited)) < MAX_PENDING_CHALLENGES"
    "replicate 32 9 \<notin> ch_digest ` set (ad_challenges ex_invited)" by code_simp+
  have "case admin_inventory None 3 ex_boot ex_invited of Inl _ \<Rightarrow> False
      | Inr rs \<Rightarrow> open_code (iv_principal ?i) ?i \<and> (\<exists>r \<in> set rs. ip_id r = iv_principal ?i \<and> ip_pending r)" by code_simp
  then show ?thesis using inventory_shows_redeemable_codes [OF ex_invited_runs rows row ok] rows by simp
qed

end
