(* ===== verification/Administration.thy ===== *)
theory Administration
  imports Audit_Trail Access_Histories
begin

text \<open>
  The Owner's administration of human access: \<open>AccessAdministration\<close> of \<^verbatim>\<open>server/app/audit/integration.py\<close> with its
  authorizer (\<^verbatim>\<open>auth/owner_operation.py\<close>), the gate its commits pass (\<^verbatim>\<open>auth/serving_gate.py\<close> and \<open>admit\<close> of
  \<^verbatim>\<open>auth/reservation.py\<close>), the authorization store of \<^verbatim>\<open>Access_Store\<close> and the audit service of \<^verbatim>\<open>Security_Audit\<close>.
  The records that the authorization store writes itself are in its own list \<open>ad_audit\<close>, those of the service in
  \<open>at_records\<close>; in the database both are rows of one table.
\<close>

section \<open>Gate and authorizer\<close>

record session_gate =
  sg_in_gate_process :: bool
  sg_open :: bool
  sg_epoch :: int
  sg_stopped :: bool

definition reservation_epoch :: "session_gate \<Rightarrow> int option" where
  "reservation_epoch g = (if \<not> sg_in_gate_process g then None else if sg_open g then Some (sg_epoch g) else None)"

definition reservation_admits :: "session_gate \<Rightarrow> int option \<Rightarrow> bool" where
  "reservation_admits g epoch \<longleftrightarrow> (if \<not> sg_in_gate_process g then False else \<not> (\<not> sg_open g \<or> epoch \<noteq> Some (sg_epoch g)))"

definition serving_epoch :: "session_gate \<Rightarrow> int option" where
  "serving_epoch g = (if sg_stopped g then None else reservation_epoch g)"

definition serving_admit :: "session_gate \<Rightarrow> int option \<Rightarrow> access_error + unit" where
  "serving_admit g epoch =
     (if \<not> reservation_admits g epoch then Inl Human_Access_Closed
      else if sg_stopped g then Inl Human_Access_Closed
      else Inr ())"

datatype actor_context = Owner_Operation session_view int | Other_Actor

definition require_owner :: "actor_context \<Rightarrow> authorization" where
  "require_owner actor =
     (case actor of
        Other_Actor \<Rightarrow> Owner_Denied By_Unauthenticated
      | Owner_Operation view epoch \<Rightarrow> if sv_role view \<noteq> Role_Owner then Owner_Denied By_Invited_User else Is_Owner)"

section \<open>Administration\<close>

datatype access_mutation =
  Invite uuid string "permission list" | Reissue uuid | Set_Permissions uuid "permission set" | Change_Permission uuid permission bool
| Revoke_Principal uuid | Revoke_Credential uuid uuid

datatype mutation_result = Expires int | Changed bool | Done

text \<open>
  One call: the context and epoch of the request, what the mutation asks for, and what the call reads and draws: the UUID and
  the secret and text of a new code, and the two clocks inside the transaction.
\<close>

record mutation_call =
  mc_actor :: actor_context
  mc_epoch :: int
  mc_mutation :: access_mutation
  mc_new_id :: uuid
  mc_code :: "octets \<times> string"
  mc_at :: int
  mc_instant :: "boot_instant option"

fun mutation_principal :: "access_mutation \<Rightarrow> uuid" where
  "mutation_principal (Invite p name permissions) = p"
| "mutation_principal (Reissue p) = p"
| "mutation_principal (Set_Permissions p grants) = p"
| "mutation_principal (Change_Permission p permission granted) = p"
| "mutation_principal (Revoke_Principal p) = p"
| "mutation_principal (Revoke_Credential p handle) = p"

fun mutation_actions :: "access_mutation \<Rightarrow> audit_action \<times> audit_action list" where
  "mutation_actions (Invite p name permissions) = (INVITE_PRINCIPAL, [ISSUE_PRINCIPAL_INVITATION])"
| "mutation_actions (Reissue p) = (ISSUE_PRINCIPAL_INVITATION, [])"
| "mutation_actions (Set_Permissions p grants) = (CHANGE_PRINCIPAL_PERMISSIONS, [])"
| "mutation_actions (Change_Permission p permission granted) = (CHANGE_PRINCIPAL_PERMISSIONS, [])"
| "mutation_actions (Revoke_Principal p) = (REVOKE_PRINCIPAL, [])"
| "mutation_actions (Revoke_Credential p handle) = (REVOKE_PRINCIPAL_CREDENTIAL, [])"

definition with_result :: "('a \<Rightarrow> 'b) \<Rightarrow> 'a access_tx \<Rightarrow> 'b access_tx" where
  "with_result f body d = (case body d of Inl e \<Rightarrow> Inl e | Inr (v, d') \<Rightarrow> Inr (f v, d'))"

fun mutation_body :: "access_config \<Rightarrow> mutation_call \<Rightarrow> access_mutation \<Rightarrow> mutation_result access_tx" where
  "mutation_body cfg q (Invite p name permissions) =
     with_result Expires (invite_with_invitation_on cfg (mc_new_id q) p name permissions (fst (mc_code q)) (mc_at q) (mc_instant q))"
| "mutation_body cfg q (Reissue p) =
     with_result Expires (reissue_invitation_on cfg (mc_new_id q) p (fst (mc_code q)) (mc_at q) (mc_instant q))"
| "mutation_body cfg q (Set_Permissions p grants) = with_result Changed (set_permissions_on p grants (mc_at q))"
| "mutation_body cfg q (Change_Permission p permission granted) = with_result Changed (change_permission_on p permission granted (mc_at q))"
| "mutation_body cfg q (Revoke_Principal p) = with_result (\<lambda>_. Done) (revoke_principal_on p (mc_at q))"
| "mutation_body cfg q (Revoke_Credential p handle) = with_result (\<lambda>_. Done) (revoke_credential_on p handle (mc_at q))"

text \<open>\<open>run\<close> of \<open>_execute\<close>: the epoch of the context and the Owner's session are checked inside the transaction.\<close>

definition administer_on :: "access_config \<Rightarrow> mutation_call \<Rightarrow> mutation_result access_tx" where
  "administer_on cfg q d =
     (case mc_actor q of
        Other_Actor \<Rightarrow> Inl Access_Invalid
      | Owner_Operation view epoch \<Rightarrow>
          if epoch \<noteq> mc_epoch q then Inl Access_Invalid
          else case require_owner_session_on view (mc_at q) (mc_instant q) OWNER_STEP_UP_FRESHNESS d of
              Inl e \<Rightarrow> Inl e
            | Inr _ \<Rightarrow> mutation_body cfg q (mc_mutation q) d)"

record access_administration =
  aa_audit :: "access_db owner_audit"
  aa_observed :: bool
  aa_notified :: "uuid list"

text \<open>\<open>_execute\<close>: the gate is entered after the authorization and before the transaction.\<close>

definition administer :: "access_config \<Rightarrow> session_gate \<Rightarrow> audit_call \<Rightarrow> mutation_call \<Rightarrow> access_db owner_audit
    \<Rightarrow> (access_error audit_error, mutation_result, access_db owner_audit) outcome" where
  "administer cfg g c q s =
     execute_transactional (c\<lparr>ac_answer := require_owner (mc_actor q)\<rparr>) (fst (mutation_actions (mc_mutation q))) TARGET_PRINCIPAL
       (mutation_principal (mc_mutation q)) (snd (mutation_actions (mc_mutation q)))
       (case serving_admit g (Some (mc_epoch q)) of Inl e \<Rightarrow> Some e | Inr _ \<Rightarrow> None) (administer_on cfg q) s"

text \<open>\<open>_changed\<close>: the observer of committed changes is told the principal; invitations do not notify it.\<close>

definition notifies :: "access_mutation \<Rightarrow> bool" where
  "notifies m = (case m of Invite _ _ _ \<Rightarrow> False | Reissue _ \<Rightarrow> False | _ \<Rightarrow> True)"

definition administer_access :: "access_config \<Rightarrow> session_gate \<Rightarrow> audit_call \<Rightarrow> mutation_call \<Rightarrow> access_administration
    \<Rightarrow> (access_error audit_error, mutation_result \<times> string option, access_administration) outcome" where
  "administer_access cfg g c q a =
     (case administer cfg g c q (aa_audit a) of
        (Inl e, s) \<Rightarrow> (Inl e, a\<lparr>aa_audit := s\<rparr>)
      | (Inr v, s) \<Rightarrow>
          (Inr (v, case v of Expires _ \<Rightarrow> Some (snd (mc_code q)) | _ \<Rightarrow> None),
           a\<lparr>aa_audit := s,
             aa_notified := aa_notified a @ (if aa_observed a \<and> notifies (mc_mutation q) then [mutation_principal (mc_mutation q)] else [])\<rparr>))"

section \<open>Lemmas\<close>

lemma with_result_Inr: "with_result f body d = Inr (v, d') \<longleftrightarrow> (\<exists>w. body d = Inr (w, d') \<and> v = f w)"
  by (auto simp: with_result_def split: sum.splits prod.splits)

lemma mutation_keeps: "mutation_body cfg q m d = Inr (v, d') \<Longrightarrow> keeps_promises d d'"
  by (cases m) (auto simp: with_result_Inr dest: invite_with_invitation_keeps reissue_keeps set_permissions_keeps change_permission_keeps
      revoke_principal_keeps revoke_credential_keeps)

lemma administer_on_success:
  assumes "administer_on cfg q d = Inr (v, d')"
  obtains view where "mc_actor q = Owner_Operation view (mc_epoch q)"
    "require_owner_session_on view (mc_at q) (mc_instant q) OWNER_STEP_UP_FRESHNESS d = Inr ()"
    "mutation_body cfg q (mc_mutation q) d = Inr (v, d')"
  using assms that by (auto simp: administer_on_def split: actor_context.splits if_splits sum.splits)

interpretation administration: audited_domain "administer_on cfg" access_inv evolves
proof
  show "access_inv d'" if "access_inv d" "administer_on cfg q d = Inr (v, d')" for d q v d'
    by (rule administer_on_success [OF that(2)]) (use that(1) mutation_keeps in \<open>auto simp: keeps_promises_def\<close>)
  show "evolves d d'" if "access_inv d" "administer_on cfg q d = Inr (v, d')" for d q v d'
    by (rule administer_on_success [OF that(2)]) (use that(1) mutation_keeps in \<open>auto simp: keeps_promises_def\<close>)
qed (simp add: evolves_refl, erule (1) evolves_trans)

section \<open>The Owner is never a target\<close>

lemma find_updated:
  assumes "find (\<lambda>x. k x = i) xs = Some y" "\<not> P y" "\<And>x. k (f x) = k x"
  shows "find (\<lambda>x. k x = i) (update_where P f xs) = Some y"
  using assms by (induction xs) (auto simp: update_where_def split: if_splits)

lemma find_in: "find P xs = Some y \<Longrightarrow> y \<in> set xs \<and> P y"
  by (auto simp: find_Some_iff)

lemma find_appended: "find P xs = Some y \<Longrightarrow> find P (xs @ ys) = Some y"
  by (induction xs) auto

text \<open>
  What the Owner's session rests on: the session, principal and credential rows that a look-up of their keys finds, and the
  deployment generation.
\<close>

definition spares :: "uuid \<Rightarrow> access_db \<Rightarrow> access_db \<Rightarrow> bool" where
  "spares ow d d' \<longleftrightarrow> ad_generation d' = ad_generation d
     \<and> (\<forall>r. principal_row d ow = Some r \<longrightarrow> principal_row d' ow = Some r)
     \<and> (\<forall>i s. find (\<lambda>s. se_id s = i) (ad_sessions d) = Some s \<longrightarrow> se_principal s = ow \<longrightarrow> find (\<lambda>s. se_id s = i) (ad_sessions d') = Some s)
     \<and> (\<forall>i c. credential_row d i = Some c \<longrightarrow> cr_principal c = ow \<longrightarrow> credential_row d' i = Some c)"

lemma spares_refl [simp]: "spares ow d d"
  by (simp add: spares_def)

lemma spares_trans: "spares ow a b \<Longrightarrow> spares ow b c \<Longrightarrow> spares ow a c"
  by (simp add: spares_def)

lemma spares_frame: "\<lbrakk>ad_generation d' = ad_generation d; ad_principals d' = ad_principals d; ad_sessions d' = ad_sessions d;
    ad_credentials d' = ad_credentials d\<rbrakk> \<Longrightarrow> spares ow d d'"
  by (simp add: spares_def principal_row_def credential_row_def)

lemma spares_void: "spares ow d (void_invitations t p d)"
  by (rule spares_frame) (simp_all add: void_invitations_def)

lemma spares_end_sessions:
  assumes "\<And>s. s \<in> set (ad_sessions d) \<Longrightarrow> se_principal s = ow \<Longrightarrow> \<not> P s"
  shows "spares ow d (end_session_rows t P d)"
proof -
  have "find (\<lambda>s. se_id s = i) (ad_sessions (end_session_rows t P d)) = Some s"
    if f: "find (\<lambda>s. se_id s = i) (ad_sessions d) = Some s" and "se_principal s = ow" for i s
  proof -
    have "\<not> (P s \<and> se_invalidated_at s = None)" using assms find_in [OF f] that(2) by blast
    with f show ?thesis unfolding end_session_rows_def by (simp add: find_updated)
  qed
  then show ?thesis by (simp add: spares_def end_session_rows_def principal_row_def credential_row_def)
qed

lemma spares_revoke_credentials:
  assumes "\<And>c. cr_principal c = ow \<Longrightarrow> \<not> P c"
  shows "spares ow d (revoke_credentials t P d)"
proof -
  have "credential_row (revoke_credentials t P d) i = Some c" if "credential_row d i = Some c" "cr_principal c = ow" for i c
    using that assms unfolding credential_row_def revoke_credentials_def by (simp add: find_updated)
  then show ?thesis by (simp add: spares_def revoke_credentials_def principal_row_def)
qed

lemma spares_update_principals:
  assumes "p \<noteq> ow" "\<And>r. pr_id (f r) = pr_id r"
  shows "spares ow d (d\<lparr>ad_principals := update_where (\<lambda>r. pr_id r = p) f (ad_principals d)\<rparr>)"
proof -
  have "principal_row (d\<lparr>ad_principals := update_where (\<lambda>r. pr_id r = p) f (ad_principals d)\<rparr>) ow = Some r" if "principal_row d ow = Some r" for r
    using that assms find_in [of _ "ad_principals d" r] unfolding principal_row_def by (auto intro!: find_updated)
  then show ?thesis by (simp add: spares_def credential_row_def)
qed

lemma spares_issue: "issue_enrollment_on cfg new_id p secret expiry t instant d = Inr (v, d') \<Longrightarrow> spares ow d d'"
  by (rule spares_frame)
     (auto simp: issue_enrollment_on_def insert_invitation_def void_invitations_def split: if_splits option.splits sum.splits)

lemma spares_advance: "p \<noteq> ow \<Longrightarrow> spares ow d (advance_principal p t d)"
proof -
  assume p: "p \<noteq> ow"
  have "spares ow d (d\<lparr>ad_invitations := i\<rparr>)" for i by (rule spares_frame) simp_all
  from spares_trans [OF this spares_update_principals [OF p]]
  have "spares ow d (d\<lparr>ad_invitations := i, ad_principals := update_where (\<lambda>r. pr_id r = p) (\<lambda>r. r\<lparr>pr_revision := pr_revision r + 1\<rparr>) (ad_principals d)\<rparr>)" for i
    by fastforce
  then show ?thesis unfolding advance_principal_def
    by (rule spares_trans) (rule spares_end_sessions, use p in simp)
qed

lemma spares_set_permissions: "set_permissions_on p grants t d = Inr (v, d') \<Longrightarrow> p \<noteq> ow \<Longrightarrow> spares ow d d'"
proof -
  assume s: "set_permissions_on p grants t d = Inr (v, d')" and p: "p \<noteq> ow"
  have "spares ow d (d\<lparr>ad_grants := g\<rparr>)" for g by (rule spares_frame) simp_all
  from spares_trans [OF this spares_advance [OF p]] s show ?thesis
    by (auto simp: set_permissions_on_def split: sum.splits if_splits)
qed

lemma spares_invite: "invite_with_invitation_on cfg new_id p name permissions secret t instant d = Inr (v, d') \<Longrightarrow> spares ow d d'"
proof -
  assume "invite_with_invitation_on cfg new_id p name permissions secret t instant d = Inr (v, d')"
  then obtain row d1 w where i: "invite_on p name permissions t d = Inr (row, d1)"
    and e: "issue_enrollment_on cfg new_id p secret (invitation_expiry cfg t) t instant d1 = Inr (w, d')"
    by (auto simp: invite_with_invitation_on_def split: if_splits sum.splits prod.splits)
  have "spares ow d d1" using i
    by (auto simp: invite_on_def insert_principal_def spares_def principal_row_def credential_row_def Let_def find_appended split: if_splits)
  then show ?thesis using spares_issue [OF e] by (rule spares_trans)
qed

lemma spares_revoke_principal: "revoke_principal_on p t d = Inr (v, d') \<Longrightarrow> p \<noteq> ow \<Longrightarrow> spares ow d d'"
proof -
  assume r: "revoke_principal_on p t d = Inr (v, d')" and p: "p \<noteq> ow"
  let ?d = "d\<lparr>ad_principals := update_where (\<lambda>r. pr_id r = p) (\<lambda>r. r\<lparr>pr_status := Status_Revoked, pr_revoked_at := Some t,
    pr_external_identity := None, pr_revision := pr_revision r + 1\<rparr>) (ad_principals d)\<rparr>"
  have d': "d' = end_session_rows t (\<lambda>s. se_principal s = p) (void_invitations t p
      (revoke_credentials t (\<lambda>c. cr_principal c = p \<and> cr_revoked_at c = None) ?d))"
    using r by (auto simp: revoke_principal_on_def split: sum.splits)
  let ?d2 = "revoke_credentials t (\<lambda>c. cr_principal c = p \<and> cr_revoked_at c = None) ?d"
  have "spares ow d ?d" by (rule spares_update_principals [OF p]) simp
  moreover have "spares ow ?d ?d2" by (rule spares_revoke_credentials) (use p in auto)
  moreover have "spares ow x (end_session_rows t (\<lambda>s. se_principal s = p) x)" for x by (rule spares_end_sessions) (use p in auto)
  ultimately show ?thesis unfolding d' using spares_void spares_trans by meson
qed

lemma spares_revoke_credential:
  assumes r: "revoke_credential_on p handle t d = Inr (v, d')" and p: "p \<noteq> ow" and i: "access_inv d"
  shows "spares ow d d'"
proof -
  obtain c where c: "find (\<lambda>c. cr_handle c = handle \<and> cr_principal c = p \<and> cr_revoked_at c = None) (ad_credentials d) = Some c"
    and d': "d' = end_session_rows t (\<lambda>s. se_credential s = cr_id c) (revoke_credentials t (\<lambda>x. cr_id x = cr_id c \<and> cr_principal x = p) d)"
    using r by (auto simp: revoke_credential_on_def split: sum.splits option.splits)
  have cp: "cr_principal c = p" "c \<in> set (ad_credentials d)" using c by (auto simp: find_Some_iff)
  have "spares ow d (revoke_credentials t (\<lambda>x. cr_id x = cr_id c \<and> cr_principal x = p) d)"
    by (rule spares_revoke_credentials) (use p in auto)
  moreover have "se_credential s \<noteq> cr_id c" if "s \<in> set (ad_sessions d)" "se_principal s = ow" for s
  proof
    assume "se_credential s = cr_id c"
    with that i obtain x where "x \<in> set (ad_credentials d)" "cr_id x = cr_id c" "cr_principal x = ow"
      by (auto simp: access_inv_def sessions_ok_def session_ok_def)
    with cp p i show False by (auto simp: access_inv_def sessions_ok_def distinct_map inj_on_def)
  qed
  then have "spares ow (revoke_credentials t (\<lambda>x. cr_id x = cr_id c \<and> cr_principal x = p) d) d'"
    unfolding d' by (intro spares_end_sessions) (auto simp: revoke_credentials_def)
  ultimately show ?thesis by (rule spares_trans)
qed

text \<open>A mutation that is accepted spares every principal that is not an invited user.\<close>

lemma mutation_spares_owner:
  assumes m: "mutation_body cfg q m d = Inr (v, d')" and i: "access_inv d" and own: "principal_row d ow = Some r" "pr_role r = Role_Owner"
  shows "spares ow d d'"
proof -
  have ne: "p \<noteq> ow" if "administered_on p d = Inr x" for p x
    using administered_row [OF that] own by auto
  show ?thesis
  proof (cases m)
    case (Reissue p)
    then obtain w where "issue_enrollment_on cfg (mc_new_id q) p (fst (mc_code q)) (invitation_expiry cfg (mc_at q)) (mc_at q) (mc_instant q)
        (void_invitations (mc_at q) p d) = Inr (w, d')"
      using m by (auto simp: with_result_Inr reissue_invitation_on_def split: sum.splits prod.splits)
    from spares_trans [OF spares_void spares_issue [OF this]] show ?thesis .
  next
    case (Set_Permissions p grants)
    then obtain w where s: "set_permissions_on p grants (mc_at q) d = Inr (w, d')" using m by (auto simp: with_result_Inr)
    then have "p \<noteq> ow" using ne by (auto simp: set_permissions_on_def split: sum.splits)
    then show ?thesis by (rule spares_set_permissions [OF s])
  next
    case (Change_Permission p perm granted)
    then obtain w where s: "change_permission_on p perm granted (mc_at q) d = Inr (w, d')" using m by (auto simp: with_result_Inr)
    then have "p \<noteq> ow" using ne by (auto simp: change_permission_on_def split: sum.splits)
    with s show ?thesis by (auto simp: change_permission_on_def Let_def split: sum.splits intro: spares_set_permissions)
  next
    case (Revoke_Principal p)
    then have s: "revoke_principal_on p (mc_at q) d = Inr ((), d')" using m by (auto simp: with_result_Inr)
    then have "p \<noteq> ow" using ne by (auto simp: revoke_principal_on_def split: sum.splits)
    then show ?thesis by (rule spares_revoke_principal [OF s])
  next
    case (Revoke_Credential p handle)
    then have s: "revoke_credential_on p handle (mc_at q) d = Inr ((), d')" using m by (auto simp: with_result_Inr)
    then have "p \<noteq> ow" using ne by (auto simp: revoke_credential_on_def split: sum.splits)
    then show ?thesis by (rule spares_revoke_credential [OF s _ i])
  qed (use m in \<open>auto simp: with_result_Inr intro: spares_invite\<close>)
qed

text \<open>The session check of an Owner's request gives the same answer on a database that spares that Owner.\<close>

lemma owner_session_survives:
  assumes "require_owner_session_on view t instant freshness d = Inr ()" "spares (sv_principal view) d d'" "access_inv d"
  shows "require_owner_session_on view t instant freshness d' = Inr ()"
proof -
  obtain s p c where j: "session_join (\<lambda>s. se_id s = sv_session view) d = Some (s, p, c)"
    and s: "se_principal s = sv_principal view" "se_credential s = sv_credential view" "pr_role p = Role_Owner"
      "session_current s p c (ad_generation d) t" "pr_revision p = sv_revision view"
      "\<not> verification_stale s t instant freshness" "sv_role view = Role_Owner" "0 < freshness"
    using assms(1) by (auto simp: require_owner_session_on_def owner_session_row_on_def split: if_splits option.splits sum.splits)
  have rows: "find (\<lambda>s. se_id s = sv_session view) (ad_sessions d) = Some s" "principal_row d (se_principal s) = Some p"
    "credential_row d (se_credential s) = Some c"
    using j by (auto simp: session_join_def split: option.splits)
  have "s \<in> set (ad_sessions d)" using rows(1) by (auto simp: find_Some_iff)
  then obtain x where "x \<in> set (ad_credentials d)" "cr_id x = se_credential s" "cr_principal x = se_principal s"
    using assms(3) by (auto simp: access_inv_def sessions_ok_def session_ok_def)
  moreover have "c \<in> set (ad_credentials d)" "cr_id c = se_credential s" using rows(3) by (auto simp: credential_row_def find_Some_iff)
  ultimately have "cr_principal c = sv_principal view" using assms(3) s(1) by (auto simp: access_inv_def sessions_ok_def distinct_map inj_on_def)
  then have "session_join (\<lambda>s. se_id s = sv_session view) d' = Some (s, p, c)" "ad_generation d' = ad_generation d"
    using assms(2) rows s(1) by (auto simp: spares_def session_join_def)
  with s show ?thesis by (simp add: require_owner_session_on_def owner_session_row_on_def)
qed

lemma owner_session_principal:
  assumes "require_owner_session_on view t instant freshness d = Inr ()"
  obtains r where "principal_row d (sv_principal view) = Some r" "pr_role r = Role_Owner"
  using assms that
  by (auto simp: require_owner_session_on_def owner_session_row_on_def session_join_def split: if_splits option.splits sum.splits)

section \<open>Properties\<close>

text \<open>
  C14. A call of the access administration that changes the authorization store was made with an Owner's request context whose
  epoch is the one of the call, passed the serving gate at that epoch, and found that very session current and freshly verified
  inside its transaction; the change is recorded by one succeeded audit record per action, the tables stay consistent and only
  move forward, and the Owner is never locked out by it: the same session check still succeeds afterwards.
\<close>

theorem administration_authorized:
  assumes "access_inv (at_domain (oa_db s))" "administer cfg g c q s = (res, s')" "at_domain (oa_db s') \<noteq> at_domain (oa_db s)"
  shows "\<exists>view rs. mc_actor q = Owner_Operation view (mc_epoch q) \<and> sv_role view = Role_Owner
    \<and> serving_admit g (Some (mc_epoch q)) = Inr ()
    \<and> require_owner_session_on view (mc_at q) (mc_instant q) OWNER_STEP_UP_FRESHNESS (at_domain (oa_db s)) = Inr ()
    \<and> require_owner_session_on view (mc_at q) (mc_instant q) OWNER_STEP_UP_FRESHNESS (at_domain (oa_db s')) = Inr ()
    \<and> map au_action rs = fst (mutation_actions (mc_mutation q)) # snd (mutation_actions (mc_mutation q))
    \<and> prefix (at_records (oa_db s) @ rs) (at_records (oa_db s'))
    \<and> list_all (\<lambda>r. au_actor r = By_Owner \<and> au_outcome r = SUCCEEDED \<and> au_target r = mutation_principal (mc_mutation q)) rs
    \<and> access_inv (at_domain (oa_db s')) \<and> evolves (at_domain (oa_db s)) (at_domain (oa_db s'))"
proof -
  let ?d = "at_domain (oa_db s)" and ?d' = "at_domain (oa_db s')"
  note ex = assms(2) [unfolded administer_def]
  obtain v rs where answer: "ac_answer (c\<lparr>ac_answer := require_owner (mc_actor q)\<rparr>) = Is_Owner"
    and prep: "(case serving_admit g (Some (mc_epoch q)) of Inl e \<Rightarrow> Some e | Inr _ \<Rightarrow> None) = None"
    and op: "administer_on cfg q ?d = Inr (v, ?d')"
    and rs: "map au_action rs = fst (mutation_actions (mc_mutation q)) # snd (mutation_actions (mc_mutation q))"
      "prefix (at_records (oa_db s) @ rs) (at_records (oa_db s'))"
      "list_all (\<lambda>r. au_actor r = By_Owner \<and> au_outcome r = SUCCEEDED \<and> au_target r = mutation_principal (mc_mutation q)) rs"
    by (rule execute_committed [OF ex assms(3)])
  then have own: "require_owner (mc_actor q) = Is_Owner" by simp
  have gate: "serving_admit g (Some (mc_epoch q)) = Inr ()" using prep by (simp split: sum.splits)
  obtain view where view: "mc_actor q = Owner_Operation view (mc_epoch q)"
    "require_owner_session_on view (mc_at q) (mc_instant q) OWNER_STEP_UP_FRESHNESS ?d = Inr ()"
    "mutation_body cfg q (mc_mutation q) ?d = Inr (v, ?d')"
    by (rule administer_on_success [OF op])
  have role: "sv_role view = Role_Owner" using own view(1) by (auto simp: require_owner_def split: if_splits)
  obtain r where "principal_row ?d (sv_principal view) = Some r" "pr_role r = Role_Owner"
    by (rule owner_session_principal [OF view(2)])
  then have "spares (sv_principal view) ?d ?d'" by (rule mutation_spares_owner [OF view(3) assms(1)])
  from owner_session_survives [OF view(2) this assms(1)] administration.executed_once [OF assms(1) ex]
  show ?thesis using view(1,2) role gate rs by (intro exI [of _ view] exI [of _ rs] conjI) assumption+
qed

text \<open>The Owner of the example site signs in and revokes the guest.\<close>

definition ex_owner_in :: access_db where
  "ex_owner_in = snd (accept_assertion ex_site Tx_Committed [1] 1 ''a'' 0 1 False (Sign_In 21 (replicate 16 5)) 4 ex_boot ex_invited)"

definition ex_owner_view :: session_view where
  "ex_owner_view = \<lparr>sv_session = 21, sv_principal = 1, sv_credential = [1], sv_role = Role_Owner, sv_revision = 0, sv_permissions = {Live_View, Recordings_View}\<rparr>"

definition ex_revocation :: mutation_call where
  "ex_revocation = \<lparr>mc_actor = Owner_Operation ex_owner_view 7, mc_epoch = 7, mc_mutation = Revoke_Principal 2, mc_new_id = 0, mc_code = ([], []),
     mc_at = 5, mc_instant = ex_boot\<rparr>"

definition ex_session_gate :: session_gate where
  "ex_session_gate = \<lparr>sg_in_gate_process = True, sg_open = True, sg_epoch = 7, sg_stopped = False\<rparr>"

definition ex_administered :: "access_db owner_audit" where
  "ex_administered = \<lparr>oa_db = \<lparr>at_records = [], at_integrity = [], at_domain = ex_owner_in\<rparr>, oa_delivery_failed = False, oa_undelivered = 0\<rparr>"

theorem administration_authorized_witness:
  "pr_status (ad_principals (at_domain (oa_db (snd (administer ex_site ex_session_gate sample_call ex_revocation ex_administered)))) ! 1) = Status_Revoked
   \<and> require_owner_session_on ex_owner_view 5 ex_boot OWNER_STEP_UP_FRESHNESS
       (at_domain (oa_db (snd (administer ex_site ex_session_gate sample_call ex_revocation ex_administered)))) = Inr ()"
proof
  let ?r = "administer ex_site ex_session_gate sample_call ex_revocation ex_administered"
  show revoked: "pr_status (ad_principals (at_domain (oa_db (snd ?r))) ! 1) = Status_Revoked" by code_simp
  have "access_step ex_site ex_invited ex_owner_in" unfolding ex_owner_in_def by (rule step_accept)
  with ex_invited_runs have "access_run ex_site access_db_init ex_owner_in" by (rule rtranclp.rtrancl_into_rtrancl)
  then have inv: "access_inv (at_domain (oa_db ex_administered))" by (simp add: ex_administered_def access_reachable_inv)
  have "pr_status (ad_principals (at_domain (oa_db ex_administered)) ! 1) = Status_Invited" by code_simp
  with revoked have changed: "at_domain (oa_db (snd ?r)) \<noteq> at_domain (oa_db ex_administered)" by auto
  have "?r = (fst ?r, snd ?r)" by simp
  from administration_authorized [OF inv this changed]
  show "require_owner_session_on ex_owner_view 5 ex_boot OWNER_STEP_UP_FRESHNESS (at_domain (oa_db (snd ?r))) = Inr ()"
    by (auto simp: ex_revocation_def)
qed

end
