(* ===== verification/Spec2Isabelle.thy ===== *)
theory Spec2Isabelle
  imports Entrance_Crossings Live_Sessions Inference_Feed Recording_Manifest Recording_Results Rate_Limit Daily_Schedule
    Integrity_Service Setup_Wizard Administration
begin

text \<open>
  Server Sentinel is a self-hosted room monitor: cameras deliver video to one server, which records it as evidence, runs
  detectors on sampled frames, shows live views to people the Owner has invited, watches its own hardware and storage, and
  alerts the Owner. This development models the decision logic of the server (\<^verbatim>\<open>server/app\<close>) and proves what it
  promises. File names below are relative to that directory.

  \<^bold>\<open>Parts and their interaction.\<close> A source's packets go through the media pipeline to the recorder, to viewers and
  to a sampler. The sampler feeds the inference scheduler through a bridge; a quality gate may withdraw what the scheduler
  published. The recorder writes segments under reservations of the storage policy, which may call retention to reclaim
  space and which writes its own audit rows through the recorder's database. Live sessions and every human request rest on
  the authorization store, whose administration, like the setup wizard, runs its changes through the security audit. The hardware check compares an approved inventory with the probes, keeps its warnings in an
  outbox and hands them to the notification service, whose worker thread delivers them.

  \<^bold>\<open>Theories.\<close>
  \<^item> \<open>Prelude\<close>, \<open>Effects\<close>: outcomes, insertion-ordered dictionaries; sequencing, exceptions and \<open>finally\<close> for
    code that mutates shared state, with composition rules over a preorder of states (locale \<open>preorder_relation\<close>,
    interpreted by each frame relation of the recorder).
  \<^item> \<open>Detection_Contracts\<close>, \<open>Inference_Scheduler\<close> (\<^verbatim>\<open>detection/foundation/contracts.py\<close>, \<^verbatim>\<open>scheduler.py\<close>):
    mailboxes, tickets and publication. Each lock-protected section is one step; \<open>run_one\<close> is split where the detector
    runs outside the lock. Locale \<open>source_property\<close> lifts a property of one source to the scheduler; locale
    \<open>result_sink\<close> is what the quality gate needs of the scheduler.
  \<^item> \<open>Quality_Gate\<close> (\<^verbatim>\<open>detection/quality\<close>): pixel measurements, calibrated rules, recovery counting, guarding.
  \<^item> \<open>Entrance_Tracking\<close>, \<open>Entrance_Crossings\<close> (\<^verbatim>\<open>detection/tracking/entrance.py\<close>): association of points with tracks and directed
    crossings of the entrance line, behind the quality gate.
  \<^item> \<open>Media_Profiles\<close>, \<open>Profile_Admission\<close>, \<open>Media_Pipeline\<close>, \<open>Live_Sessions\<close>, \<open>Inference_Feed\<close>
    (\<^verbatim>\<open>media/profiles\<close>, \<^verbatim>\<open>media/live/sessions.py\<close>, \<^verbatim>\<open>detection/foundation/feed.py\<close>): profiles and planning,
    leases, packet paths, viewers, the bridge. Locale \<open>path_property\<close> proves a property of a packet path for all
    pipeline operations; locale \<open>live_viewer_source\<close> is what sessions need of a pipeline.
  \<^item> \<open>Storage_Policy\<close>, \<open>Recording_Model\<close>, \<open>Recording_Store\<close>, \<open>Storage_Retention\<close> (\<^verbatim>\<open>storage/policy.py\<close>,
    \<^verbatim>\<open>media/recording\<close>, \<^verbatim>\<open>storage/retention.py\<close>): definitions; \<open>Recording_Evidence\<close>, \<open>Recording_Protection\<close>,
    \<open>Recording_Integrity\<close>, \<open>Storage_Worker\<close>, \<open>Recording_History\<close>, \<open>Recording_Results\<close>, \<open>Recording_Manifest\<close>: their
    proofs. Locales \<open>control_port\<close> and \<open>storage_port\<close> are the two sides of the interface between policy and store;
    \<open>Storage_Worker\<close> interprets both on the wired worker.
  \<^item> \<open>Rate_Limit\<close> (\<^verbatim>\<open>auth/rate_limit.py\<close>).
  \<^item> \<open>Delivery_Worker\<close>, \<open>Notifications\<close>, \<open>Notification_Delivery\<close>, \<open>Daily_Schedule\<close> (\<^verbatim>\<open>notifications\<close>): the
    thread's actions interleave with the owner's calls; locale \<open>world_property\<close> carries a property of the surroundings
    through every call of the service.
  \<^item> \<open>Hardware_Integrity\<close>, \<open>Integrity_Matching\<close>, \<open>Integrity_Findings\<close> (\<^verbatim>\<open>integrity/model.py\<close>): the comparison and
    its Hopcroft-Karp assignment; \<open>Integrity_Store\<close>, \<open>Integrity_Warnings\<close>, \<open>Integrity_Service\<close>
    (\<^verbatim>\<open>integrity/store.py\<close>, \<^verbatim>\<open>service.py\<close>): the durable outbox and the daily check.
  \<^item> \<open>Invitation_Code\<close> (\<^verbatim>\<open>auth/invitation_code.py\<close>); \<open>Access_Model\<close>, \<open>Access_Store\<close> (\<^verbatim>\<open>auth/model.py\<close>,
    \<^verbatim>\<open>schema.py\<close>, \<^verbatim>\<open>boot_clock.py\<close>, \<^verbatim>\<open>session_binding.py\<close>, \<^verbatim>\<open>store.py\<close>): tables and transactions of human
    access; \<open>Access_Evolution\<close>: rows only move forward and the tables stay consistent; \<open>Access_Histories\<close>: every
    sequence of transactions.
  \<^item> \<open>Security_Audit\<close>, \<open>Audit_Trail\<close> (\<^verbatim>\<open>audit/model.py\<close>, \<^verbatim>\<open>store.py\<close>, \<^verbatim>\<open>service.py\<close>): records, paging, retention and
    the audited execution of an operation on any domain. Locale \<open>audited_domain\<close> carries what every operation of a domain
    keeps through any sequence of audited calls; it is interpreted by \<open>Setup_Wizard\<close> (\<^verbatim>\<open>setup_wizard\<close>) and by
    \<open>Administration\<close> (\<open>AccessAdministration\<close> of \<^verbatim>\<open>audit/integration.py\<close> with \<^verbatim>\<open>auth/owner_operation.py\<close> and
    \<^verbatim>\<open>auth/serving_gate.py\<close>, over the authorization store).
  \<^item> this theory: the property that spans gate, bridge and scheduler.

  \<^bold>\<open>State and effects.\<close> An object is a record, an enumeration a datatype, a table the list of its rows, a dictionary an
  association list. A method that may raise returns an error or a value together with the state it leaves; what it
  mutated before raising stays mutated, a rolled-back transaction does not. Clock readings, fresh UUIDs, answers of system
  calls and SQL statements, and the way a transaction ends are arguments, so every theorem holds for all of them. In the
  recorder the results of system calls and statements come from a script in the state, and a crash may follow any of
  them. Floats are rational or real numbers, \<open>math.hypot\<close> is the exact root, and no rounding is modelled.

  \<^bold>\<open>What is shown.\<close> Recorded footage stays intact and readable through failures and crashes, automatic deletion spares
  starred and active recordings, and a granted admission keeps the hard reserve (recording theories). No conclusion is
  published after the frame's source was withdrawn or its quality judged poor, and crossings are reported only on
  uninterrupted evidence (detection theories). Decoders get decodable segments and recording does not depend on viewers
  (media theories). Request rates are bounded; alerts and hardware warnings are delivered or still held, never silently
  lost; changed hardware is always reported (notification and integrity theories). Revocation, redemption and recovery
  are final in every history of the authorization store (access theories). No audited change is committed without its
  record, the administration acts only for a current Owner session and never locks the Owner out, and the wizard cannot
  report a deployment ready that was not verified (audit theories).

  \<^bold>\<open>Termination and bounds.\<close> Loops are structural recursion, \<open>function\<close> with a measure, or a \<open>while_option\<close> or
  \<open>partial_function\<close> that is proved to return (\<open>explain\<close> in \<open>Integrity_Matching\<close>). The mutual recursion between
  state transitions, their audit rows and control reservations is bounded by the depth 2 of \<open>worker_callbacks\<close>, and
  \<open>audit_recursion_two_levels\<close> shows that a larger depth changes nothing.

  \<^bold>\<open>Not modelled.\<close> HTTP, TLS, WebAuthn verification, certificate issuing, image decoding and inference, camera
  drivers, process supervision, installers and the separate capture agent: they are system calls and third-party
  libraries around the logic above. Of the modelled parts: \<open>ExpectedFilesystem\<close> is one scripted system call; the published
  snapshot of the storage state, path and URL checks, the Slack endpoint validation, health and lost-audit counters are
  left out; callbacks do not re-enter the object that calls them; a failing \<open>ROLLBACK\<close> is not distinguished from a
  successful one; JSON texts are the values they encode; the Unicode category of a character is known for bytes only;
  SHA-256 and HMAC are parameters of which nothing is assumed.
\<close>

section \<open>Quality gate and scheduler\<close>

text \<open>
  C34. When a gate registered on the scheduler decides against a conclusion while the worker is evaluating
  a frame of its source, then whatever other critical sections run before the worker returns, and whatever
  the detector answers, the source publishes no conclusion.
\<close>

theorem poor_quality_stops_running_evaluation:
  assumes "sched_reachable (s, Some tk)" "gate_source_id g = tk_source_id tk"
    and "assess (Some invalidate_source) f x c g s = (d, g', s1)" "\<not> allows_conclusion d"
    and "(\<lambda>a b. sched_step (a, Some tk) (b, Some tk))\<^sup>*\<^sup>* s1 s2"
    and "map_of (sched_sources (snd (run_finish clk tk res s2))) (tk_source_id tk) = Some st"
  shows "observation (src_result st) = OBS_UNKNOWN"
proof -
  have "gate_source_id (snd (assess_frame f x c g)) = tk_source_id tk"
    using assms(2) by (simp add: assess_frame_effect)
  then have s1: "s1 = invalidate_source (tk_source_id tk) (gate_reason x) s"
    using assms(3,4) by (auto simp: assess_def revoke_def Let_def split: prod.splits)
  have "withdrawable (gate_reason x)" using gate_reason_cases [of x] by (auto simp: withdrawable_def)
  then obtain y where "sched_invalidate (tk_source_id tk) (gate_reason x) s = (Inr y, s1)"
    using sched_invalidate_total s1 by blast
  with sched_reachable_inv [OF assms(1)] have "withdrawn tk s1" by (rule invalidate_withdraws_ticket)
  then have "withdrawn tk s2" using assms(5) sched_reachable_run by blast
  then show ?thesis using assms(6) by (rule finish_withdrawn)
qed

theorem poor_quality_stops_running_evaluation_witness:
  "\<exists>s1 st. snd (snd (assess (Some invalidate_source) ex_frame X_FAILED None
        (quality_gate_init 0 1 ex_quality_policy) ex_running)) = s1
      \<and> map_of (sched_sources (snd (run_finish 9 ex_ticket (Some (Detection OBS_PRESENT R_EVALUATED)) s1))) 1
          = Some st
      \<and> observation (src_result st) = OBS_UNKNOWN"
proof -
  let ?g = "quality_gate_init 0 1 ex_quality_policy"
  let ?s1 = "snd (sched_invalidate 1 R_FAILURE ex_running)"
  obtain d g' s1 where r: "assess (Some invalidate_source) ex_frame X_FAILED None ?g ex_running = (d, g', s1)"
    by (metis prod_cases3)
  have "\<not> frame_counts (ex_frame, X_FAILED, None) ?g" by (simp add: frame_counts_def good_frame_def)
  then have na: "\<not> allows_conclusion d"
    using assess_gate [OF r] by (simp add: allows_conclusion_def assess_frame_effect)
  have "gate_source_id (snd (assess_frame ex_frame X_FAILED None ?g)) = 1"
    by (simp add: assess_frame_effect) (simp add: quality_gate_init_def)
  then have s1: "s1 = ?s1"
    using r na by (auto simp: assess_def revoke_def gate_reason_def invalidate_source_def
        unavailable_reason_def Let_def split: prod.splits)
  have "map_of (sched_sources (snd (run_finish 9 ex_ticket (Some (Detection OBS_PRESENT R_EVALUATED)) ?s1)))
      (tk_source_id ex_ticket) \<noteq> None"
    unfolding ex_running_def ex_queued_def ex_ticket_def ex_defs by code_simp
  then obtain st where st: "map_of (sched_sources (snd (run_finish 9 ex_ticket
      (Some (Detection OBS_PRESENT R_EVALUATED)) s1))) (tk_source_id ex_ticket) = Some st" unfolding s1 by blast
  have "gate_source_id ?g = tk_source_id ex_ticket" by (simp add: quality_gate_init_def ex_ticket_def)
  from poor_quality_stops_running_evaluation [OF ex_running_reachable this r na rtranclp.rtrancl_refl st]
  show ?thesis using r st by (auto simp: ex_ticket_def)
qed

end
